(* ===== verification/Prelude.thy ===== *)
theory Prelude
  imports Complex_Main "HOL-Library.AList" "HOL-Library.Multiset"
begin

text \<open>
  Shared vocabulary of the development.

  Python exceptions are values of \<open>py_error\<close>; an operation that may raise returns
  \<open>'a result\<close>, with \<open>Inl\<close> for the exception. \<open>bind_r\<close> sequences two
  such operations, \<open>guard_r\<close> is an \<open>assert\<close> or a guarded \<open>raise\<close>,
  \<open>fold_r\<close> and \<open>map_r\<close> are \<open>for\<close> loops whose body may raise (the first
  exception ends the loop, and the state of the aborted loop is not observable).
  Python dictionaries whose order matters are association lists in insertion order
  (\<open>AList.update\<close> keeps the position of an existing key and appends a new one, as
  \<open>dict\<close> does); sets that the code iterates over are distinct lists in iteration order.
\<close>

datatype py_error =
    AssertionError
  | ValueError
  | KeyError
  | IndexError
  | RuntimeError
  | AttributeError
  | ZeroDivisionError
  | NotImplementedError
  | NoFreeBlocksError
  | RecursionError
  | TypeError

type_synonym 'a result = "py_error + 'a"

named_theorems result_elims \<open>inversion of successful results\<close>

definition bind_r :: "'a result \<Rightarrow> ('a \<Rightarrow> 'b result) \<Rightarrow> 'b result" where
  "bind_r m f = (case m of Inl e \<Rightarrow> Inl e | Inr x \<Rightarrow> f x)"

lemma bind_r_simps [simp, code]:
  "bind_r (Inl e) f = Inl e"
  "bind_r (Inr x) f = f x"
  by (simp_all add: bind_r_def)

lemma bind_r_Inr_iff [result_elims]:
  "bind_r m f = Inr y \<longleftrightarrow> (\<exists>x. m = Inr x \<and> f x = Inr y)"
  by (cases m) simp_all

lemma bind_r_InrE [elim!]:
  assumes "bind_r m f = Inr y"
  obtains x where "m = Inr x" and "f x = Inr y"
  using assms by (auto simp: bind_r_Inr_iff)

definition guard_r :: "py_error \<Rightarrow> bool \<Rightarrow> unit result" where
  "guard_r e b = (if b then Inr () else Inl e)"

lemma guard_r_Inr_iff [simp, result_elims]: "guard_r e b = Inr u \<longleftrightarrow> b"
  by (simp add: guard_r_def)

lemma guard_r_simps [simp]:
  "guard_r e True = Inr ()"
  "guard_r e False = Inl e"
  by (simp_all add: guard_r_def)

lemma guard_r_Inl_iff [simp]: "guard_r e b = Inl e' \<longleftrightarrow> \<not> b \<and> e' = e"
  by (auto simp: guard_r_def)

definition get_key :: "('k \<rightharpoonup> 'v) \<Rightarrow> 'k \<Rightarrow> 'v result" where
  "get_key m k = (case m k of None \<Rightarrow> Inl KeyError | Some v \<Rightarrow> Inr v)"

lemma get_key_Inr_iff [simp, result_elims]: "get_key m k = Inr v \<longleftrightarrow> m k = Some v"
  by (auto simp: get_key_def split: option.splits)

lemma get_key_Some [simp]: "m k = Some v \<Longrightarrow> get_key m k = Inr v"
  by simp

definition nth_r :: "'a list \<Rightarrow> nat \<Rightarrow> 'a result" where
  "nth_r xs i = (if i < length xs then Inr (xs ! i) else Inl IndexError)"

lemma nth_r_Inr_iff [simp, result_elims]: "nth_r xs i = Inr x \<longleftrightarrow> i < length xs \<and> x = xs ! i"
  by (auto simp: nth_r_def)

lemma nth_r_ok [simp]: "i < length xs \<Longrightarrow> nth_r xs i = Inr (xs ! i)"
  by simp

fun fold_r :: "('a \<Rightarrow> 's \<Rightarrow> 's result) \<Rightarrow> 'a list \<Rightarrow> 's \<Rightarrow> 's result" where
  "fold_r f [] s = Inr s"
| "fold_r f (x # xs) s = bind_r (f x s) (fold_r f xs)"

fun map_r :: "('a \<Rightarrow> 's \<Rightarrow> ('b \<times> 's) result) \<Rightarrow> 'a list \<Rightarrow> 's \<Rightarrow> ('b list \<times> 's) result" where
  "map_r f [] s = Inr ([], s)"
| "map_r f (x # xs) s =
     bind_r (f x s) (\<lambda>(y, s1). bind_r (map_r f xs s1) (\<lambda>(ys, s2). Inr (y # ys, s2)))"

text \<open>An invariant that the body of a loop keeps is kept by the loop.\<close>

lemma fold_r_inv:
  assumes "fold_r f xs s = Inr t" and "P s"
    and "\<And>x s s'. x \<in> set xs \<Longrightarrow> P s \<Longrightarrow> f x s = Inr s' \<Longrightarrow> P s'"
  shows "P t"
  using assms
proof (induction xs arbitrary: s)
  case Nil
  then show ?case by simp
next
  case (Cons x xs)
  from Cons.prems(1) obtain s1 where s1: "f x s = Inr s1" and rest: "fold_r f xs s1 = Inr t"
    by auto
  have "P s1" using Cons.prems(3) [OF _ Cons.prems(2) s1] by simp
  with rest show ?case using Cons.IH Cons.prems(3) by (meson list.set_intros(2))
qed

text \<open>A loop whose body never raises, as long as an invariant holds, does not raise.\<close>

lemma fold_r_total:
  assumes "P s" and "\<And>x s. x \<in> set xs \<Longrightarrow> P s \<Longrightarrow> \<exists>s'. f x s = Inr s' \<and> P s'"
  shows "\<exists>t. fold_r f xs s = Inr t \<and> P t"
  using assms
proof (induction xs arbitrary: s)
  case (Cons x xs)
  obtain s' where s': "f x s = Inr s'" "P s'" using Cons.prems by (meson list.set_intros(1))
  have "\<exists>t. fold_r f xs s' = Inr t \<and> P t"
    using Cons.IH [OF s'(2)] Cons.prems(2) by (meson list.set_intros(2))
  with s' show ?case by simp
qed simp

lemma map_r_total:
  assumes "\<And>x s. x \<in> set xs \<Longrightarrow> \<exists>y s'. f x s = Inr (y, s') \<and> Q y"
  shows "\<exists>ys t. map_r f xs s = Inr (ys, t) \<and> (\<forall>y \<in> set ys. Q y) \<and> length ys = length xs"
  using assms
proof (induction xs arbitrary: s)
  case (Cons x xs)
  obtain y s' where y: "f x s = Inr (y, s')" "Q y" using Cons.prems by (meson list.set_intros(1))
  obtain ys t where "map_r f xs s' = Inr (ys, t)" "\<forall>y \<in> set ys. Q y" "length ys = length xs"
    using Cons.IH [of s'] Cons.prems by (meson list.set_intros(2))
  with y show ?case by simp
qed simp

lemma fold_r_append: "fold_r f (xs @ ys) s = bind_r (fold_r f xs s) (fold_r f ys)"
proof (induction xs arbitrary: s)
  case (Cons x xs)
  then show ?case by (cases "f x s") simp_all
qed simp

lemma map_r_length: "map_r f xs s = Inr (ys, t) \<Longrightarrow> length ys = length xs"
  by (induction xs arbitrary: s ys t) (auto split: prod.splits)

text \<open>Python's \<open>//\<close> on integers: floor division, which raises on a zero divisor.\<close>

definition floordiv_r :: "int \<Rightarrow> int \<Rightarrow> int result" where
  "floordiv_r a b = (if b = 0 then Inl ZeroDivisionError else Inr (a div b))"

lemma floordiv_r_Inr_iff [simp, result_elims]:
  "floordiv_r a b = Inr q \<longleftrightarrow> b \<noteq> 0 \<and> q = a div b"
  by (auto simp: floordiv_r_def)

definition div_r :: "real \<Rightarrow> real \<Rightarrow> real result" where
  "div_r a b = (if b = 0 then Inl ZeroDivisionError else Inr (a / b))"

lemma div_r_Inr_iff [simp, result_elims]: "div_r a b = Inr q \<longleftrightarrow> b \<noteq> 0 \<and> q = a / b"
  by (auto simp: div_r_def)

text \<open>
  Ceiling division \<open>cdiv\<close> and \<open>chunk_list\<close> of \<open>vllm/utils.py\<close>, used by the
  block table.
\<close>

definition cdiv :: "int \<Rightarrow> int \<Rightarrow> int result" where
  "cdiv a b = (if b = 0 then Inl ZeroDivisionError else Inr (- (a div (- b))))"

lemma cdiv_pos: "0 < b \<Longrightarrow> cdiv a b = Inr ((a + b - 1) div b)"
proof -
  assume b: "0 < b"
  have "- (a div (- b)) = - ((- a) div b)" by (simp add: div_minus_right)
  also have "\<dots> = (a + b - 1) div b"
  proof -
    have a: "a = (a div b) * b + a mod b" by simp
    show ?thesis
    proof (cases "a mod b = 0")
      case True
      then obtain q where q: "a = q * b" by (metis mod_0_imp_dvd dvd_def mult.commute)
      have "(a + b - 1) div b = q"
        using b q by (intro int_div_pos_eq [where r = "b - 1"]) (auto simp: algebra_simps)
      moreover have "(- a) div b = - q" using b q by (simp flip: mult_minus_left)
      ultimately show ?thesis by simp
    next
      case False
      then have r: "0 < a mod b" "a mod b < b"
        using b pos_mod_bound [OF b, of a] pos_mod_sign [OF b, of a] by simp_all
      have "(- a) div b = - (a div b) - 1"
        using b r a by (intro int_div_pos_eq [where r = "b - a mod b"]) (auto simp: algebra_simps)
      moreover have "(a + b - 1) div b = a div b + 1"
        using b r a by (intro int_div_pos_eq [where r = "a mod b - 1"]) (auto simp: algebra_simps)
      ultimately show ?thesis by simp
    qed
  qed
  finally show ?thesis using b by (simp add: cdiv_def)
qed

function chunk_list :: "'a list \<Rightarrow> nat \<Rightarrow> 'a list list" where
  "chunk_list xs n = (if xs = [] \<or> n = 0 then [] else take n xs # chunk_list (drop n xs) n)"
  by pat_completeness auto
termination
  by (relation "measure (\<lambda>(xs, n). length xs)") auto

declare chunk_list.simps [simp del]

lemma chunk_list_Nil [simp]: "chunk_list [] n = []"
  by (simp add: chunk_list.simps)

lemma concat_chunk_list: "0 < n \<Longrightarrow> concat (chunk_list xs n) = xs"
proof (induction xs n rule: chunk_list.induct)
  case (1 xs n)
  then show ?case by (cases "xs = []") (simp_all add: chunk_list.simps [of xs n])
qed

lemma chunk_list_lengths:
  "0 < n \<Longrightarrow> c \<in> set (chunk_list xs n) \<Longrightarrow> 0 < length c \<and> length c \<le> n"
proof (induction xs n rule: chunk_list.induct)
  case (1 xs n)
  then show ?case
    by (cases "xs = []") (auto simp: chunk_list.simps [of xs n])
qed

text \<open>Lists: sums over a list that is updated at one place, and counting.\<close>

lemma sum_list_update_int:
  fixes xs :: "int list"
  shows "i < length xs \<Longrightarrow> sum_list (xs[i := v]) = sum_list xs - xs ! i + v"
proof (induction xs arbitrary: i)
  case (Cons x xs)
  then show ?case by (cases i) auto
qed simp

lemma sum_list_decrement:
  fixes xs :: "nat list"
  shows "i < length xs \<Longrightarrow> 0 < xs ! i \<Longrightarrow> sum_list (xs[i := xs ! i - 1]) < sum_list xs"
  using elem_le_sum_list [of i xs] by (simp add: sum_list_update)

definition count_true :: "bool list \<Rightarrow> nat" where
  "count_true bs = length (filter id bs)"

lemma count_true_eq_card: "count_true bs = card {i. i < length bs \<and> bs ! i}"
  by (simp add: count_true_def length_filter_conv_card)

definition where_true :: "bool list \<Rightarrow> nat list" where
  "where_true bs = filter (\<lambda>i. bs ! i) [0..<length bs]"

lemma where_true_props [simp]:
  "distinct (where_true bs)"
  "set (where_true bs) = {i. i < length bs \<and> bs ! i}"
  by (auto simp: where_true_def)

lemma length_where_true: "length (where_true bs) = count_true bs"
  by (metis count_true_eq_card distinct_card where_true_props)

definition set_all :: "'a list \<Rightarrow> nat list \<Rightarrow> 'a \<Rightarrow> 'a list" where
  "set_all bs ixs v = fold (\<lambda>i b. b[i := v]) ixs bs"

lemma length_set_all [simp]: "length (set_all bs ixs v) = length bs"
  by (induction ixs arbitrary: bs) (simp_all add: set_all_def)

lemma nth_set_all:
  "i < length bs \<Longrightarrow> set_all bs ixs v ! i = (if i \<in> set ixs then v else bs ! i)"
proof (induction ixs arbitrary: bs)
  case (Cons j ixs)
  then show ?case by (auto simp: set_all_def nth_list_update)
qed (simp add: set_all_def)

end
