(* ===== verification/Ws_Common.thy ===== *)
theory Ws_Common
  imports Prelude
begin

text \<open>
  \<open>entrypoints/controller/common.py\<close>: the constants of the autoscaler, the 2MB
  alignment of GPU memory, \<open>ModelInfo\<close> and the rank arithmetic of tensor and pipeline
  parallelism, the status records of workers, engines and models, and the sliding-window
  load average \<open>get_avg_load\<close>.

  Times and loads are Python floats in the code and exact reals here; everything else is an
  \<open>int\<close>. The deque \<open>load_stamp\<close> is a list whose head is its left end, and
  \<open>get_avg_load\<close>, which pops stale entries, returns the deque it leaves behind.
\<close>

definition BATCH_SIZE :: int where "BATCH_SIZE = 32"
definition SCALE_LOWER_BOUND :: real where "SCALE_LOWER_BOUND = 1 / 2"
definition SCALE_UPPER_BOUND :: real where "SCALE_UPPER_BOUND = 8 / 10"
definition PROTECT_PERIOD :: real where "PROTECT_PERIOD = 5"
definition SCALE_WINDOW :: real where "SCALE_WINDOW = 5"
definition PCIE_BANDWIDTH :: real where "PCIE_BANDWIDTH = 32"
definition MEM_GRANULARITY :: int where "MEM_GRANULARITY = 2 ^ 21"

definition align_up :: "int \<Rightarrow> int" where
  "align_up size_in_bytes = ((size_in_bytes - 1) div MEM_GRANULARITY + 1) * MEM_GRANULARITY"

record model_info =
  model_name :: string
  tensor_parallel_rank :: int
  tensor_parallel_size :: int
  pipeline_parallel_rank :: int
  pipeline_parallel_size :: int

definition mi_rank :: "model_info \<Rightarrow> int" where
  "mi_rank mi = pipeline_parallel_rank mi * tensor_parallel_size mi + tensor_parallel_rank mi"

definition mi_world_size :: "model_info \<Rightarrow> int" where
  "mi_world_size mi = tensor_parallel_size mi * pipeline_parallel_size mi"

definition get_info :: "model_info \<Rightarrow> int \<Rightarrow> model_info result" where
  "get_info mi rank =
     (if tensor_parallel_size mi = 0 then Inl ZeroDivisionError
      else Inr \<lparr>model_name = model_name mi,
                tensor_parallel_rank = rank mod tensor_parallel_size mi,
                tensor_parallel_size = tensor_parallel_size mi,
                pipeline_parallel_rank = rank div tensor_parallel_size mi,
                pipeline_parallel_size = pipeline_parallel_size mi\<rparr>)"

text \<open>
  \<open>ModelInfo(model, tensor_parallel_size=tp, pipeline_parallel_size=pp)\<close>: the ranks
  keep their default \<open>-1\<close>.
\<close>

definition ModelInfo :: "string \<Rightarrow> int \<Rightarrow> int \<Rightarrow> model_info" where
  "ModelInfo name tp pp =
     \<lparr>model_name = name, tensor_parallel_rank = - 1, tensor_parallel_size = tp,
      pipeline_parallel_rank = - 1, pipeline_parallel_size = pp\<rparr>"

text \<open>
  \<open>WorkerStatus\<close>. The method that would replace a missing model list by the empty list
  is spelled \<open>__post__init__\<close>, a name that no dataclass calls: the field keeps
  \<open>None\<close>.
\<close>

record worker_status =
  ws_node :: int
  ws_gpu_id :: int
  ws_model :: "model_info option"
  ws_prewarm_models :: "model_info list option"

definition WorkerStatus :: "int \<Rightarrow> int \<Rightarrow> worker_status" where
  "WorkerStatus node gpu_id =
     \<lparr>ws_node = node, ws_gpu_id = gpu_id, ws_model = None, ws_prewarm_models = None\<rparr>"

record engine_status =
  es_id :: int
  es_model :: string
  es_workers :: "nat list"
  es_num_reqs :: int
  es_stopping :: bool
  es_prewarm_engine_id :: int
  es_time_created :: real

definition EngineStatus :: "int \<Rightarrow> string \<Rightarrow> nat list \<Rightarrow> int \<Rightarrow> real \<Rightarrow> engine_status" where
  "EngineStatus i model workers prewarm_engine_id now =
     \<lparr>es_id = i, es_model = model, es_workers = workers, es_num_reqs = 0,
      es_stopping = False, es_prewarm_engine_id = prewarm_engine_id, es_time_created = now\<rparr>"

type_synonym load_stamps = "(real \<times> int) list"

record model_status =
  ms_num_reqs :: int
  ms_sum_loads :: real
  ms_max_loads :: int
  ms_last_time :: real
  ms_stopping_engines :: "int list"
  ms_load_stamp :: load_stamps

text \<open>The \<open>while\<close> loop of \<open>get_avg_load\<close> that drops stale stamps.\<close>

fun trim_stamps :: "real \<Rightarrow> load_stamps \<Rightarrow> load_stamps" where
  "trim_stamps st (x # y # xs) = (if fst y \<le> st then trim_stamps st (y # xs) else x # y # xs)"
| "trim_stamps st xs = xs"

text \<open>The \<open>for\<close> loop over the stamps, with \<open>last_time\<close>, \<open>last_load\<close> and \<open>sum_load\<close>.\<close>

fun sum_load_loop :: "load_stamps \<Rightarrow> real \<Rightarrow> int \<Rightarrow> real \<Rightarrow> real \<times> int \<times> real" where
  "sum_load_loop [] last_time last_load sum_load = (last_time, last_load, sum_load)"
| "sum_load_loop ((t, l) # xs) last_time last_load sum_load =
     sum_load_loop xs t l (sum_load + of_int last_load * (t - last_time))"

definition get_avg_load :: "load_stamps \<Rightarrow> real \<Rightarrow> real \<times> load_stamps" where
  "get_avg_load load_stamp cur_time =
     (if load_stamp = [] then (0, load_stamp)
      else
        let st_time = cur_time - SCALE_WINDOW in
        if length load_stamp = 1 then
          let (time, load) = hd load_stamp in
          if time < st_time then (of_int load, load_stamp)
          else (of_int load * (cur_time - time) / SCALE_WINDOW, load_stamp)
        else
          let stamps = trim_stamps st_time load_stamp in
          if length stamps = 1 then (of_int (snd (hd stamps)), stamps)
          else
            let (rest, last_time, last_load) =
                  (if fst (hd stamps) > st_time then (stamps, st_time, 0)
                   else (tl stamps, fst (hd stamps), snd (hd stamps)));
                (last_time', last_load', sum_load) = sum_load_loop rest last_time last_load 0;
                sum_load' = sum_load + of_int last_load' * (cur_time - last_time')
            in (sum_load' / SCALE_WINDOW, stamps))"

text \<open>
  The specification: the load is the step function that jumps to \<open>l\<close> at \<open>t\<close> for
  every stamp \<open>(t, l)\<close>; its integral over the window \<open>[st, cur]\<close> is the sum of the
  loads times the length of the part of the window they cover.
\<close>

fun window_integral :: "real \<Rightarrow> real \<Rightarrow> load_stamps \<Rightarrow> real" where
  "window_integral st cur [] = 0"
| "window_integral st cur [(t, l)] = of_int l * max 0 (cur - max t st)"
| "window_integral st cur ((t, l) # (t', l') # xs) =
     of_int l * max 0 (t' - max t st) + window_integral st cur ((t', l') # xs)"

text \<open>The alignment.\<close>

lemma align_up_dvd: "MEM_GRANULARITY dvd align_up n"
  by (simp add: align_up_def)

lemma align_up_bounds: "n \<le> align_up n \<and> align_up n < n + MEM_GRANULARITY"
proof -
  have g: "0 < MEM_GRANULARITY" by (simp add: MEM_GRANULARITY_def)
  have "(n - 1) div MEM_GRANULARITY * MEM_GRANULARITY + (n - 1) mod MEM_GRANULARITY = n - 1"
    by simp
  moreover have "0 \<le> (n - 1) mod MEM_GRANULARITY" "(n - 1) mod MEM_GRANULARITY < MEM_GRANULARITY"
    using g by simp_all
  ultimately show ?thesis unfolding align_up_def distrib_right by linarith
qed

lemma align_up_least:
  assumes "MEM_GRANULARITY dvd m" and "n \<le> m"
  shows "align_up n \<le> m"
proof -
  obtain q where m: "m = MEM_GRANULARITY * q" using assms(1) by (auto elim: dvdE)
  have "\<not> m < align_up n"
  proof
    assume "m < align_up n"
    then have "q < (n - 1) div MEM_GRANULARITY + 1"
      by (simp add: m align_up_def MEM_GRANULARITY_def)
    then have "MEM_GRANULARITY * q \<le> MEM_GRANULARITY * ((n - 1) div MEM_GRANULARITY)"
      by (simp add: MEM_GRANULARITY_def)
    also have "\<dots> \<le> n - 1"
      using mult_div_mod_eq [of MEM_GRANULARITY "n - 1"] pos_mod_sign [of MEM_GRANULARITY "n - 1"]
      by (simp add: MEM_GRANULARITY_def)
    finally show False using assms(2) m by simp
  qed
  then show ?thesis by simp
qed

text \<open>The rank arithmetic.\<close>

lemma get_info_Inr: "get_info mi r = Inr mi' \<Longrightarrow> tensor_parallel_size mi \<noteq> 0"
  by (auto simp: get_info_def split: if_splits)

lemma get_info_rank: "get_info mi r = Inr mi' \<Longrightarrow> mi_rank mi' = r"
  by (auto simp: get_info_def mi_rank_def split: if_splits)

lemma get_info_ranges:
  assumes "get_info mi r = Inr mi'" and "0 < tensor_parallel_size mi"
    and "0 \<le> r" and "r < mi_world_size mi"
  shows "0 \<le> tensor_parallel_rank mi' \<and> tensor_parallel_rank mi' < tensor_parallel_size mi
    \<and> 0 \<le> pipeline_parallel_rank mi' \<and> pipeline_parallel_rank mi' < pipeline_parallel_size mi"
proof -
  let ?t = "tensor_parallel_size mi" and ?p = "pipeline_parallel_size mi"
  have "?t * (r div ?t) \<le> r"
    using mult_div_mod_eq [of ?t r] pos_mod_sign [of ?t r] assms(2) by linarith
  then have "?t * (r div ?t) < ?t * ?p" using assms(4) by (simp add: mi_world_size_def)
  then have "r div ?t < ?p" using assms(2) by simp
  moreover have "0 \<le> r div ?t" using assms(2,3) by (simp add: pos_imp_zdiv_nonneg_iff)
  ultimately show ?thesis using assms by (auto simp: get_info_def)
qed

text \<open>The load average.\<close>

lemma trim_stamps_Nil [simp]: "trim_stamps st xs = [] \<longleftrightarrow> xs = []"
  by (induction st xs rule: trim_stamps.induct) auto

lemma trim_stamps_suffix: "\<exists>ys. xs = ys @ trim_stamps st xs"
proof (induction st xs rule: trim_stamps.induct)
  case (1 st x y xs)
  then show ?case by (cases "fst y \<le> st") (auto, metis append_Cons)
qed auto

lemma trim_stamps_sorted: "sorted (map fst xs) \<Longrightarrow> sorted (map fst (trim_stamps st xs))"
  using trim_stamps_suffix [of xs st] by (metis map_append sorted_append)

lemma trim_stamps_set: "set (trim_stamps st xs) \<subseteq> set xs"
  using trim_stamps_suffix [of xs st] by (metis Un_upper2 set_append)

lemma trim_stamps_snd:
  "trim_stamps st xs = x # y # zs \<Longrightarrow> st < fst y"
  by (induction st xs rule: trim_stamps.induct) (auto split: if_splits)

lemma trim_stamps_single:
  "trim_stamps st (x # y # xs) = [z] \<Longrightarrow> fst z \<le> st"
proof (induction st "x # y # xs" arbitrary: x y xs rule: trim_stamps.induct)
  case (1 st x y xs)
  then show ?case by (cases xs) (auto split: if_splits)
qed

lemma window_integral_trim:
  "sorted (map fst xs) \<Longrightarrow> window_integral st cur (trim_stamps st xs) = window_integral st cur xs"
proof (induction st xs rule: trim_stamps.induct)
  case (1 st x y xs)
  then show ?case by (cases x; cases y) auto
qed auto

lemma sum_load_loop_integral:
  assumes "sorted (map fst ((t0, l0) # xs))" and "\<forall>(t, l) \<in> set ((t0, l0) # xs). t \<le> cur"
    and "st \<le> t0" and "sum_load_loop xs t0 l0 s = (t', l', s')"
  shows "s' + of_int l' * (cur - t') = s + window_integral st cur ((t0, l0) # xs)"
  using assms
proof (induction xs arbitrary: t0 l0 s)
  case Nil
  then show ?case by (simp add: max_def)
next
  case (Cons x xs)
  obtain t l where x: "x = (t, l)" by (cases x)
  have "t0 \<le> t" "st \<le> t" using Cons.prems(1,3) x by auto
  then show ?case
    using Cons.IH [of t l "s + of_int l0 * (t - t0)"] Cons.prems x by (simp add: max_def)
qed

lemma sum_load_loop_shift:
  "sum_load_loop ((t, l) # xs) t0 l0 s = sum_load_loop xs t l (s + of_int l0 * (t - t0))"
  by simp

text \<open>
  When two or more stamps are kept and the oldest lies before the window, the loop starts at
  that stamp and not at the start of the window: the load of the time before the window is
  counted as well. \<open>avg_start\<close> is the time at which the integration really starts.
\<close>

definition avg_start :: "load_stamps \<Rightarrow> real \<Rightarrow> real" where
  "avg_start kept st = (if length kept \<ge> 2 then min st (fst (hd kept)) else st)"

lemma get_avg_load_kept:
  "snd (get_avg_load xs cur) = trim_stamps (cur - SCALE_WINDOW) xs"
proof (cases xs)
  case (Cons x ys)
  then show ?thesis
    by (cases ys) (auto simp: get_avg_load_def Let_def split: prod.splits if_splits)
qed (simp add: get_avg_load_def)

lemma get_avg_load_two:
  assumes "2 \<le> length xs" and kept: "trim_stamps (cur - SCALE_WINDOW) xs = a # b # zs"
    and srt: "sorted (map fst xs)" and le: "\<forall>(t, l) \<in> set xs. t \<le> cur"
  shows "fst (get_avg_load xs cur) =
    window_integral (min (cur - SCALE_WINDOW) (fst a)) cur (a # b # zs) / SCALE_WINDOW"
proof -
  let ?st = "cur - SCALE_WINDOW"
  obtain t0 l0 where a: "a = (t0, l0)" by (cases a)
  have srt': "sorted (map fst (a # b # zs))" using trim_stamps_sorted [OF srt, of ?st] kept by simp
  have le': "\<forall>(t, l) \<in> set (a # b # zs). t \<le> cur" using le trim_stamps_set [of ?st xs] kept by auto
  have long: "xs \<noteq> []" "length xs \<noteq> Suc 0" using assms(1) by auto
  obtain t' l' s' where loop: "sum_load_loop (b # zs) t0 l0 0 = (t', l', s')"
    by (metis prod_cases3)
  have "s' + of_int l' * (cur - t') = window_integral m cur (a # b # zs)" if "m \<le> t0" for m
    using sum_load_loop_integral [of t0 l0 "b # zs" cur m 0 t' l' s'] srt' le' loop a that by simp
  then have key: "s' + of_int l' * (cur - t') = window_integral (min ?st t0) cur (a # b # zs)"
    by simp
  show ?thesis
  proof (cases "t0 > ?st")
    case True
    then have "sum_load_loop (a # b # zs) ?st 0 0 = (t', l', s')" using loop a by simp
    then show ?thesis
      using long kept a True key by (auto simp: get_avg_load_def Let_def)
  next
    case False
    then show ?thesis using long kept a loop key by (auto simp: get_avg_load_def Let_def)
  qed
qed

lemma get_avg_load_integral:
  assumes srt: "sorted (map fst xs)" and le: "\<forall>(t, l) \<in> set xs. t \<le> cur"
  defines "kept \<equiv> trim_stamps (cur - SCALE_WINDOW) xs"
  shows "fst (get_avg_load xs cur) =
    window_integral (avg_start kept (cur - SCALE_WINDOW)) cur kept / SCALE_WINDOW"
proof -
  let ?st = "cur - SCALE_WINDOW"
  have w: "SCALE_WINDOW > 0" by (simp add: SCALE_WINDOW_def)
  consider "xs = []" | x where "xs = [x]" | x y zs where "xs = x # y # zs"
    by (metis list.exhaust)
  then show ?thesis
  proof cases
    case 1
    then show ?thesis by (simp add: kept_def get_avg_load_def)
  next
    case (2 x)
    with le w show ?thesis
      by (cases x) (auto simp: kept_def get_avg_load_def avg_start_def Let_def max_def)
  next
    case (3 x y zs)
    then consider z where "kept = [z]" | a b r where "kept = a # b # r"
      by (metis kept_def list.distinct(1) list.exhaust trim_stamps_Nil)
    then show ?thesis
    proof cases
      case (1 z)
      then have "fst z \<le> ?st" using 3 trim_stamps_single [of ?st x y zs z] by (simp add: kept_def)
      moreover have "fst (get_avg_load xs cur) = of_int (snd z)"
        using 1 3 by (simp add: kept_def get_avg_load_def Let_def)
      ultimately show ?thesis using 1 w by (cases z) (simp add: avg_start_def max_def)
    next
      case (2 a b r)
      then show ?thesis
        using get_avg_load_two [of xs cur a b r] 3 srt le
        by (simp add: kept_def avg_start_def min.commute)
    qed
  qed
qed

text \<open>Dropping stale stamps loses nothing that a later query would read.\<close>

lemma trim_stamps_trim:
  assumes "st \<le> st'" and "sorted (map fst (xs @ ys))"
  shows "trim_stamps st' (trim_stamps st xs @ ys) = trim_stamps st' (xs @ ys)"
  using assms
proof (induction st xs rule: trim_stamps.induct)
  case (1 st x y xs)
  then show ?case by (cases "fst y \<le> st") auto
qed auto

lemma get_avg_load_trim:
  assumes "cur \<le> cur'" and "sorted (map fst (xs @ ys))" and "\<forall>(t, l) \<in> set (xs @ ys). t \<le> cur'"
  shows "get_avg_load (snd (get_avg_load xs cur) @ ys) cur' = get_avg_load (xs @ ys) cur'"
proof (rule prod_eqI)
  let ?k = "trim_stamps (cur - SCALE_WINDOW) xs"
  have eq: "trim_stamps (cur' - SCALE_WINDOW) (?k @ ys) = trim_stamps (cur' - SCALE_WINDOW) (xs @ ys)"
    using trim_stamps_trim [of "cur - SCALE_WINDOW" "cur' - SCALE_WINDOW" xs ys] assms(1,2) by simp
  have srt: "sorted (map fst (?k @ ys))"
    using assms(2) trim_stamps_sorted [of xs "cur - SCALE_WINDOW"]
      trim_stamps_set [of "cur - SCALE_WINDOW" xs]
    by (fastforce simp: sorted_append)
  have le: "\<forall>(t, l) \<in> set (?k @ ys). t \<le> cur'"
    using assms(3) trim_stamps_set [of "cur - SCALE_WINDOW" xs] by auto
  show "fst (get_avg_load (snd (get_avg_load xs cur) @ ys) cur') = fst (get_avg_load (xs @ ys) cur')"
    using get_avg_load_integral [OF srt le] get_avg_load_integral [OF assms(2,3)]
    by (simp add: get_avg_load_kept eq)
  show "snd (get_avg_load (snd (get_avg_load xs cur) @ ys) cur') = snd (get_avg_load (xs @ ys) cur')"
    by (simp add: get_avg_load_kept eq)
qed

text \<open>
  A load of ten requests that ended a second ago, after 99 seconds: the true average over the
  last five seconds is 8, the code reports 198.
\<close>

lemma get_avg_load_counts_before_window:
  "fst (get_avg_load [(0, 10), (99, 0)] 100) = 198"
  "window_integral 95 100 [(0, 10), (99, 0)] / SCALE_WINDOW = 8"
  by (simp_all add: get_avg_load_def SCALE_WINDOW_def Let_def)

text \<open>The properties of the shared cluster code.\<close>

text \<open>
  \<open>align_up\<close> returns a multiple of the granularity, at least the size and less than one
  granule above it.
\<close>

theorem align_up_exact:
  "MEM_GRANULARITY dvd align_up n \<and> n \<le> align_up n \<and> align_up n < n + MEM_GRANULARITY"
  using align_up_dvd align_up_bounds by simp

text \<open>
  \<open>get_info\<close> and \<open>rank\<close> are inverse to each other: the record for rank \<open>r\<close> has rank
  \<open>r\<close>, its two coordinates are in range, and it is the only record of the model with that rank
  whose tensor parallel coordinate is in range.
\<close>

theorem rank_roundtrip:
  assumes "0 < tensor_parallel_size mi" and "0 \<le> r" and "r < mi_world_size mi"
  shows "\<exists>mi'. get_info mi r = Inr mi' \<and> mi_rank mi' = r \<and> mi_world_size mi' = mi_world_size mi
    \<and> 0 \<le> tensor_parallel_rank mi' \<and> tensor_parallel_rank mi' < tensor_parallel_size mi
    \<and> 0 \<le> pipeline_parallel_rank mi' \<and> pipeline_parallel_rank mi' < pipeline_parallel_size mi
    \<and> get_info mi' (mi_rank mi') = Inr mi'"
proof -
  from assms(1) obtain mi' where i: "get_info mi r = Inr mi'" by (simp add: get_info_def)
  then have "get_info mi' r = Inr mi'" "mi_world_size mi' = mi_world_size mi"
    using assms(1) by (auto simp: get_info_def mi_world_size_def)
  with i get_info_rank [OF i] get_info_ranges [OF i assms] show ?thesis by auto
qed

theorem rank_roundtrip_witness: "\<exists>mi'. get_info (ModelInfo ''m'' 2 3) 5 = Inr mi' \<and> mi_rank mi' = 5"
  using rank_roundtrip [of "ModelInfo ''m'' 2 3" 5] by (auto simp: ModelInfo_def mi_world_size_def)

text \<open>
  The load average is the integral of the load over time, divided by the length of the window,
  from the start of the window or, when that is earlier and two stamps are kept, from the oldest
  kept stamp on; and it is the same whether or not an earlier query has dropped stale stamps.
\<close>

theorem load_average:
  assumes "sorted (map fst (xs @ ys))" and "\<forall>(t, l) \<in> set (xs @ ys). t \<le> cur'" and "cur \<le> cur'"
  defines "kept \<equiv> trim_stamps (cur' - SCALE_WINDOW) (xs @ ys)"
  shows "fst (get_avg_load (snd (get_avg_load xs cur) @ ys) cur')
    = window_integral (avg_start kept (cur' - SCALE_WINDOW)) cur' kept / SCALE_WINDOW"
  unfolding get_avg_load_trim [OF assms(3,1,2)] kept_def by (rule get_avg_load_integral [OF assms(1,2)])

theorem load_average_witness:
  "fst (get_avg_load (snd (get_avg_load [(0, 1), (2, 3)] 7) @ [(8, 5)]) 9)
    = window_integral (avg_start (trim_stamps 4 [(0, 1), (2, 3), (8, 5)]) 4) 9 (trim_stamps 4 [(0, 1), (2, 3), (8, 5)]) / 5"
  using load_average [of "[(0, 1), (2, 3)]" "[(8, 5)]" 9 7] by (simp add: SCALE_WINDOW_def)

text \<open>
  The average counts load from before the window: ten requests that ended one second before
  the query, after 99 seconds, are reported as a load of 198, where the average over the window
  is 8.
\<close>

theorem load_before_window:
  "fst (get_avg_load [(0, 10), (99, 0)] 100) = 198 \<and> window_integral 95 100 [(0, 10), (99, 0)] / SCALE_WINDOW = 8"
  using get_avg_load_counts_before_window by simp

end
