(* ===== verification/Prewarm_Search.thy ===== *)
theory Prewarm_Search
  imports Ws_Common
begin

text \<open>
  The search for GPU groups in \<open>Scheduler.prewarm\<close>
  (\<open>entrypoints/controller/scheduler.py\<close>): which sets of GPUs of one server may host a
  new replica without contending with the replicas that are prewarmed there already.

  A worker is its index, a GPU id is an index into \<open>available_gpus\<close>. The Python lists
  that the recursion shares and restores (\<open>considered_replicas\<close>) are passed by value;
  the lists it copies before changing them are values anyway. A loop that ends with
  \<open>can_select = False\<close> returns \<open>None\<close>.
\<close>

record replica =
  rp_model_id :: nat
  rp_tp :: nat
  rp_mem_per_gpu :: int
  rp_score :: real
  rp_worker_ids :: "nat list"

text \<open>\<open>list.index\<close>: the first position of an element that occurs.\<close>

fun index_of :: "'a list \<Rightarrow> 'a \<Rightarrow> nat" where
  "index_of [] x = 0"
| "index_of (y # ys) x = (if y = x then 0 else Suc (index_of ys x))"

lemma index_of_props [simp]:
  "x \<in> set xs \<Longrightarrow> index_of xs x < length xs"
  "x \<in> set xs \<Longrightarrow> xs ! index_of xs x = x"
  by (induction xs) auto

text \<open>Every worker of a replica must be selected: the loop over \<open>replica.worker_ids\<close>.\<close>

fun force_workers :: "nat list \<Rightarrow> nat \<Rightarrow> nat \<Rightarrow> nat list \<Rightarrow> nat list \<Rightarrow> nat list \<Rightarrow> nat list option"
  where
  "force_workers available_gpus gpu_idx tp banned [] cur = Some cur"
| "force_workers available_gpus gpu_idx tp banned (w # ws) cur =
     (if w \<notin> set available_gpus then None
      else let i = index_of available_gpus w in
        if i \<in> set cur then force_workers available_gpus gpu_idx tp banned ws cur
        else if i < gpu_idx \<or> i \<in> set banned \<or> length cur = tp then None
        else force_workers available_gpus gpu_idx tp banned ws (cur @ [i]))"

text \<open>Every GPU outside a replica is banned: the loop over \<open>range(num_available_gpus)\<close>.\<close>

fun ban_others :: "nat list \<Rightarrow> nat list \<Rightarrow> nat list \<Rightarrow> nat list \<Rightarrow> nat list \<Rightarrow> nat list option" where
  "ban_others available_gpus workers cur [] banned = Some banned"
| "ban_others available_gpus workers cur (g # gs) banned =
     (if available_gpus ! g \<in> set workers then ban_others available_gpus workers cur gs banned
      else if g \<in> set banned then ban_others available_gpus workers cur gs banned
      else if g \<in> set cur then None
      else ban_others available_gpus workers cur gs (banned @ [g]))"

text \<open>The constraints that one replica on the GPU under consideration imposes.\<close>

definition constrain ::
    "nat list \<Rightarrow> replica \<Rightarrow> nat \<Rightarrow> replica \<Rightarrow> nat list \<times> nat list \<Rightarrow> (nat list \<times> nat list) option"
  where
  "constrain available_gpus new gpu_idx r cb =
     (let (cur, banned) = cb in
      if rp_model_id r = rp_model_id new then None
      else if rp_tp r = rp_tp new then
        (if \<exists>g \<in> set cur. available_gpus ! g \<notin> set (rp_worker_ids r) then None
         else map_option (\<lambda>c. (c, banned))
           (force_workers available_gpus gpu_idx (rp_tp new) banned (rp_worker_ids r) cur))
      else if rp_tp r < rp_tp new then
        map_option (\<lambda>c. (c, banned))
          (force_workers available_gpus gpu_idx (rp_tp new) banned (rp_worker_ids r) cur)
      else
        map_option (\<lambda>b. (cur, b))
          (ban_others available_gpus (rp_worker_ids r) cur [0..<length available_gpus] banned))"

fun check_replicas ::
    "nat list \<Rightarrow> replica \<Rightarrow> nat \<Rightarrow> replica list \<Rightarrow> replica list
     \<Rightarrow> nat list \<times> nat list \<times> real \<times> real \<Rightarrow> (nat list \<times> nat list \<times> real \<times> real) option" where
  "check_replicas available_gpus new gpu_idx considered [] st = Some st"
| "check_replicas available_gpus new gpu_idx considered (r # rs) (cur, banned, mx, sm) =
     (if r \<in> set considered
      then check_replicas available_gpus new gpu_idx considered rs (cur, banned, mx, sm)
      else case constrain available_gpus new gpu_idx r (cur, banned) of
          None \<Rightarrow> None
        | Some (cur', banned') \<Rightarrow>
            check_replicas available_gpus new gpu_idx considered rs
              (cur', banned', max mx (rp_score r), sm + rp_score r))"

text \<open>The replicas of a GPU that is selected become considered replicas.\<close>

fun add_considered :: "replica list \<Rightarrow> replica list \<Rightarrow> replica list" where
  "add_considered considered [] = considered"
| "add_considered considered (r # rs) =
     add_considered (if r \<in> set considered then considered else considered @ [r]) rs"

text \<open>
  \<open>search_for_available_groups\<close>: the groups are returned in the order the code appends
  them. The recursion never passes \<open>gpu_idx = num_available_gpus\<close>.
\<close>

function search_for_available_groups ::
    "replica list list \<Rightarrow> nat list \<Rightarrow> replica \<Rightarrow> nat \<Rightarrow> replica list \<Rightarrow> nat list \<Rightarrow> nat list
     \<Rightarrow> real \<Rightarrow> real \<Rightarrow> (nat list \<times> real \<times> real) list" where
  "search_for_available_groups covered available_gpus new gpu_idx considered cur banned mx sm =
     (if length available_gpus + length cur < rp_tp new + gpu_idx then []
      else if length available_gpus \<le> gpu_idx then [(map ((!) available_gpus) cur, mx, sm)]
      else
        let here = covered ! (available_gpus ! gpu_idx);
            can_select = (gpu_idx \<in> set cur \<or> \<not> (gpu_idx \<in> set banned \<or> length cur = rp_tp new));
            cur' = (if gpu_idx \<in> set cur then cur else cur @ [gpu_idx]);
            selected =
              (if can_select then
                 (case check_replicas available_gpus new gpu_idx considered here (cur', banned, mx, sm) of
                    None \<Rightarrow> []
                  | Some (cur'', banned', mx', sm') \<Rightarrow>
                      search_for_available_groups covered available_gpus new (Suc gpu_idx)
                        (add_considered considered here) cur'' banned' mx' sm')
               else []);
            skipped =
              (if gpu_idx \<notin> set cur then
                 search_for_available_groups covered available_gpus new (Suc gpu_idx)
                   considered cur banned mx sm
               else [])
        in selected @ skipped)"
  by pat_completeness auto
termination
  by (relation "measure (\<lambda>(cov, av, new, i, _). length av - i)") auto

declare search_for_available_groups.simps [simp del]

text \<open>
  What the code promises of a group: it nests with every replica that shares a GPU with it
  (a replica of at most the same degree lies inside the group, a larger one contains it), and
  no replica of the same model is touched.
\<close>

definition nests :: "replica \<Rightarrow> nat \<Rightarrow> nat \<Rightarrow> nat set \<Rightarrow> bool" where
  "nests r model tp ws \<longleftrightarrow>
     rp_model_id r \<noteq> model
     \<and> (rp_tp r \<le> tp \<longrightarrow> set (rp_worker_ids r) \<subseteq> ws)
     \<and> (tp < rp_tp r \<longrightarrow> ws \<subseteq> set (rp_worker_ids r))"

definition group_ok :: "replica list list \<Rightarrow> nat list \<Rightarrow> replica \<Rightarrow> nat list \<Rightarrow> bool" where
  "group_ok covered available_gpus new ws \<longleftrightarrow>
     length ws = rp_tp new \<and> distinct ws \<and> set ws \<subseteq> set available_gpus
     \<and> (\<forall>w \<in> set ws. \<forall>r \<in> set (covered ! w). nests r (rp_model_id new) (rp_tp new) (set ws))"

subsection \<open>The search keeps its invariant\<close>

definition handled :: "nat list \<Rightarrow> replica \<Rightarrow> replica \<Rightarrow> nat set \<Rightarrow> nat set \<Rightarrow> bool" where
  "handled av new r C B \<longleftrightarrow>
     rp_model_id r \<noteq> rp_model_id new
     \<and> (rp_tp r \<le> rp_tp new \<longrightarrow> set (rp_worker_ids r) \<subseteq> (!) av ` C)
     \<and> (rp_tp new < rp_tp r \<longrightarrow> (\<forall>g < length av. av ! g \<notin> set (rp_worker_ids r) \<longrightarrow> g \<in> B))"

definition sel_ok :: "nat list \<Rightarrow> replica \<Rightarrow> nat list \<Rightarrow> nat list \<Rightarrow> bool" where
  "sel_ok av new cur banned \<longleftrightarrow>
     distinct cur \<and> set cur \<subseteq> {..<length av} \<and> length cur \<le> rp_tp new
     \<and> set cur \<inter> set banned = {}"

definition search_inv ::
    "replica list list \<Rightarrow> nat list \<Rightarrow> replica \<Rightarrow> nat \<Rightarrow> replica list \<Rightarrow> nat list \<Rightarrow> nat list \<Rightarrow> bool" where
  "search_inv covered av new i considered cur banned \<longleftrightarrow>
     sel_ok av new cur banned
     \<and> (\<forall>r \<in> set considered. handled av new r (set cur) (set banned))
     \<and> (\<forall>g \<in> set cur. g < i \<longrightarrow> set (covered ! (av ! g)) \<subseteq> set considered)"

lemma handled_mono:
  "handled av new r C B \<Longrightarrow> C \<subseteq> C' \<Longrightarrow> B \<subseteq> B' \<Longrightarrow> handled av new r C' B'"
  unfolding handled_def by blast

lemma force_workers_Some:
  assumes "force_workers av i tp banned ws cur = Some cur'"
    and "distinct cur" "set cur \<subseteq> {..<length av}" "length cur \<le> tp" "set cur \<inter> set banned = {}"
  shows "distinct cur' \<and> set cur' \<subseteq> {..<length av} \<and> length cur' \<le> tp
    \<and> set cur' \<inter> set banned = {} \<and> set cur \<subseteq> set cur' \<and> set ws \<subseteq> (!) av ` set cur'
    \<and> (\<forall>g \<in> set cur' - set cur. i \<le> g)"
  using assms
proof (induction ws arbitrary: cur)
  case (Cons w ws)
  let ?j = "index_of av w"
  from Cons.prems(1) have w: "w \<in> set av" by (auto split: if_splits)
  show ?case
  proof (cases "?j \<in> set cur")
    case True
    then have "force_workers av i tp banned ws cur = Some cur'"
      using Cons.prems(1) w by (simp add: Let_def)
    note ih = Cons.IH [OF this Cons.prems(2-)]
    moreover have "w \<in> (!) av ` set cur'" using ih True w by (metis image_eqI index_of_props(2) subsetD)
    ultimately show ?thesis by simp
  next
    case False
    then have ok: "i \<le> ?j" "?j \<notin> set banned" "length cur \<noteq> tp"
      and rec: "force_workers av i tp banned ws (cur @ [?j]) = Some cur'"
      using Cons.prems(1) w by (auto simp: Let_def split: if_splits)
    have ih: "distinct cur' \<and> set cur' \<subseteq> {..<length av} \<and> length cur' \<le> tp
      \<and> set cur' \<inter> set banned = {} \<and> set (cur @ [?j]) \<subseteq> set cur' \<and> set ws \<subseteq> (!) av ` set cur'
      \<and> (\<forall>g \<in> set cur' - set (cur @ [?j]). i \<le> g)"
      using Cons.IH [OF rec] Cons.prems(2-) ok False w by auto
    moreover have "w \<in> (!) av ` set cur'"
      using ih w by (metis image_eqI in_set_conv_decomp index_of_props(2) subsetD)
    ultimately show ?thesis using ok(1) by auto
  qed
qed auto

lemma ban_others_Some:
  assumes "ban_others av ws cur gs banned = Some banned'" and "set cur \<inter> set banned = {}"
  shows "set cur \<inter> set banned' = {} \<and> set banned \<subseteq> set banned'
    \<and> (\<forall>g \<in> set gs. av ! g \<notin> set ws \<longrightarrow> g \<in> set banned')"
  using assms
proof (induction gs arbitrary: banned)
  case (Cons g gs)
  show ?case
  proof (cases "av ! g \<in> set ws \<or> g \<in> set banned")
    case True
    then have "ban_others av ws cur gs banned = Some banned'"
      using Cons.prems(1) by (auto split: if_splits)
    from Cons.IH [OF this Cons.prems(2)] True show ?thesis by auto
  next
    case False
    then have rec: "ban_others av ws cur gs (banned @ [g]) = Some banned'" and "g \<notin> set cur"
      using Cons.prems(1) by (auto split: if_splits)
    with Cons.IH [OF rec] Cons.prems(2) show ?thesis by auto
  qed
qed auto

lemma constrain_Some:
  assumes "constrain av new i r (cur, banned) = Some (cur', banned')" and "sel_ok av new cur banned"
  shows "sel_ok av new cur' banned' \<and> handled av new r (set cur') (set banned')
    \<and> set cur \<subseteq> set cur' \<and> set banned \<subseteq> set banned' \<and> (\<forall>g \<in> set cur' - set cur. i \<le> g)"
proof -
  have m: "rp_model_id r \<noteq> rp_model_id new"
    using assms(1) by (auto simp: constrain_def split: if_splits)
  show ?thesis
  proof (cases "rp_tp r \<le> rp_tp new")
    case True
    then have f: "force_workers av i (rp_tp new) banned (rp_worker_ids r) cur = Some cur'"
      and b: "banned' = banned"
      using assms(1) m by (auto simp: constrain_def split: if_splits)
    from force_workers_Some [OF f] assms(2) True m b show ?thesis
      by (auto simp: sel_ok_def handled_def)
  next
    case False
    then have f: "ban_others av (rp_worker_ids r) cur [0..<length av] banned = Some banned'"
      and c: "cur' = cur"
      using assms(1) m by (auto simp: constrain_def split: if_splits)
    from ban_others_Some [OF f] assms(2) False m c show ?thesis
      by (auto simp: sel_ok_def handled_def)
  qed
qed

lemma check_replicas_Some:
  assumes "check_replicas av new i considered rs (cur, banned, mx, sm) = Some (cur', banned', mx', sm')"
    and "sel_ok av new cur banned"
  shows "sel_ok av new cur' banned' \<and> set cur \<subseteq> set cur' \<and> set banned \<subseteq> set banned'
    \<and> (\<forall>g \<in> set cur' - set cur. i \<le> g)
    \<and> (\<forall>r \<in> set rs. r \<in> set considered \<or> handled av new r (set cur') (set banned'))"
  using assms
proof (induction rs arbitrary: cur banned mx sm)
  case (Cons r rs)
  show ?case
  proof (cases "r \<in> set considered")
    case True
    then show ?thesis using Cons by simp
  next
    case False
    then obtain c b where cb: "constrain av new i r (cur, banned) = Some (c, b)"
      and rec: "check_replicas av new i considered rs (c, b, max mx (rp_score r), sm + rp_score r)
        = Some (cur', banned', mx', sm')"
      using Cons.prems(1) by (auto split: option.splits)
    note c1 = constrain_Some [OF cb Cons.prems(2)]
    note c2 = Cons.IH [OF rec c1 [THEN conjunct1]]
    have "handled av new r (set cur') (set banned')"
      using c1 c2 by (blast intro: handled_mono)
    moreover have "\<forall>g \<in> set cur' - set cur. i \<le> g" using c1 c2 by blast
    ultimately show ?thesis using c1 c2 by auto
  qed
qed auto

lemma set_add_considered [simp]: "set (add_considered considered rs) = set considered \<union> set rs"
  by (induction considered rs rule: add_considered.induct) auto

lemma search_inv_select:
  assumes inv: "search_inv covered av new i considered cur banned" and i: "i < length av"
    and can: "i \<in> set cur \<or> \<not> (i \<in> set banned \<or> length cur = rp_tp new)"
    and cur1: "cur1 = (if i \<in> set cur then cur else cur @ [i])"
    and chk: "check_replicas av new i considered (covered ! (av ! i)) (cur1, banned, mx, sm)
      = Some (cur', banned', mx', sm')"
  shows "search_inv covered av new (Suc i) (add_considered considered (covered ! (av ! i))) cur' banned'"
proof -
  have s1: "sel_ok av new cur1 banned"
    using inv i can cur1 by (auto simp: search_inv_def sel_ok_def)
  note c = check_replicas_Some [OF chk s1]
  have i1: "i \<in> set cur1" "set cur \<subseteq> set cur1" using cur1 by auto
  have "handled av new r (set cur') (set banned')"
    if "r \<in> set considered \<union> set (covered ! (av ! i))" for r
  proof (cases "r \<in> set considered")
    case True
    then have "handled av new r (set cur) (set banned)" using inv by (simp add: search_inv_def)
    then show ?thesis using c i1 by (blast intro: handled_mono)
  qed (use that c in blast)
  moreover have "set (covered ! (av ! g)) \<subseteq> set considered \<union> set (covered ! (av ! i))"
    if g: "g \<in> set cur'" "g < Suc i" for g
  proof (cases "g = i")
    case False
    then have "g < i" using g by simp
    have "\<forall>g \<in> set cur' - set cur1. i \<le> g" using c by blast
    with \<open>g < i\<close> g(1) have "g \<in> set cur1" by (meson DiffI leD)
    then have "g \<in> set cur" using cur1 False by (auto split: if_splits)
    then show ?thesis using inv \<open>g < i\<close> by (auto simp: search_inv_def)
  qed simp
  ultimately show ?thesis using c by (simp add: search_inv_def)
qed

lemma search_inv_skip:
  "search_inv covered av new i considered cur banned \<Longrightarrow> i \<notin> set cur
    \<Longrightarrow> search_inv covered av new (Suc i) considered cur banned"
  by (auto simp: search_inv_def less_Suc_eq)

lemma search_inv_leaf:
  assumes inv: "search_inv covered av new i considered cur banned"
    and "length av \<le> i" and "rp_tp new + i \<le> length av + length cur" and "distinct av"
  shows "group_ok covered av new (map ((!) av) cur)"
proof -
  let ?ws = "map ((!) av) cur"
  have sel: "distinct cur" "set cur \<subseteq> {..<length av}" "length cur \<le> rp_tp new" "set cur \<inter> set banned = {}"
    using inv by (auto simp: search_inv_def sel_ok_def)
  have len: "length cur = rp_tp new" using sel assms by simp
  have "distinct ?ws"
    using sel \<open>distinct av\<close> by (auto simp: distinct_map intro!: inj_on_nth)
  moreover have "set ?ws \<subseteq> set av" using sel by auto
  moreover have "nests r (rp_model_id new) (rp_tp new) (set ?ws)"
    if "g \<in> set cur" "r \<in> set (covered ! (av ! g))" for g r
  proof -
    have "g < i" using that sel assms(2) by auto
    then have "handled av new r (set cur) (set banned)"
      using inv that by (auto simp: search_inv_def)
    then show ?thesis using sel by (auto simp: handled_def nests_def)
  qed
  ultimately show ?thesis using len by (auto simp: group_ok_def)
qed

text \<open>A group that the search returns comes from the selecting or the skipping branch.\<close>

lemma search_step_cases:
  assumes mem: "g \<in> set (search_for_available_groups covered av new i considered cur banned mx sm)"
    and a1: "\<not> length av + length cur < rp_tp new + i" and a2: "\<not> length av \<le> i"
  obtains (sel) c b m' s' where "i \<in> set cur \<or> \<not> (i \<in> set banned \<or> length cur = rp_tp new)"
      "check_replicas av new i considered (covered ! (av ! i))
         (if i \<in> set cur then cur else cur @ [i], banned, mx, sm) = Some (c, b, m', s')"
      "g \<in> set (search_for_available_groups covered av new (Suc i)
         (add_considered considered (covered ! (av ! i))) c b m' s')"
    | (skip) "i \<notin> set cur"
      "g \<in> set (search_for_available_groups covered av new (Suc i) considered cur banned mx sm)"
proof -
  let ?can = "i \<in> set cur \<or> \<not> (i \<in> set banned \<or> length cur = rp_tp new)"
  let ?chk = "check_replicas av new i considered (covered ! (av ! i))
    (if i \<in> set cur then cur else cur @ [i], banned, mx, sm)"
  let ?sel = "if ?can then (case ?chk of None \<Rightarrow> []
      | Some (c, b, m', s') \<Rightarrow> search_for_available_groups covered av new (Suc i)
          (add_considered considered (covered ! (av ! i))) c b m' s') else []"
  let ?skip = "if i \<notin> set cur
    then search_for_available_groups covered av new (Suc i) considered cur banned mx sm else []"
  have "g \<in> set (?sel @ ?skip)"
    using mem unfolding search_for_available_groups.simps [of covered av new i considered cur banned mx sm]
      Let_def if_not_P [OF a1] if_not_P [OF a2] .
  then consider "g \<in> set ?sel" | "g \<in> set ?skip" unfolding set_append by blast
  then show thesis
  proof cases
    case 1
    have can: ?can
    proof (rule ccontr)
      assume n: "\<not> ?can"
      from 1 show False unfolding if_not_P [OF n] by simp
    qed
    from 1 have "g \<in> set (case ?chk of None \<Rightarrow> []
      | Some (c, b, m', s') \<Rightarrow> search_for_available_groups covered av new (Suc i)
          (add_considered considered (covered ! (av ! i))) c b m' s')" unfolding if_P [OF can] .
    then obtain c b m' s' where "?chk = Some (c, b, m', s')"
      and "g \<in> set (search_for_available_groups covered av new (Suc i)
        (add_considered considered (covered ! (av ! i))) c b m' s')"
      by (cases ?chk) auto
    with can show thesis by (rule sel)
  next
    case 2
    then show thesis by (cases "i \<in> set cur") (auto intro: skip)
  qed
qed

theorem search_groups_ok:
  assumes "(ws, m, s) \<in> set (search_for_available_groups covered av new i considered cur banned mx sm)"
    and "search_inv covered av new i considered cur banned" and "distinct av"
  shows "group_ok covered av new ws"
  using assms
proof (induction covered av new i considered cur banned mx sm rule: search_for_available_groups.induct)
  case (1 covered av new i considered cur banned mx sm)
  show ?case
  proof (cases "length av + length cur < rp_tp new + i \<or> length av \<le> i")
    case True
    then show ?thesis
      using "1.prems" search_inv_leaf [of covered av new i considered cur banned]
      by (auto simp: search_for_available_groups.simps split: if_splits)
  next
    case False
    then have a1: "\<not> length av + length cur < rp_tp new + i" and a2: "\<not> length av \<le> i" by auto
    from "1.prems"(1) a1 a2 show ?thesis
    proof (cases rule: search_step_cases)
      case (sel c b m' s')
      have "search_inv covered av new (Suc i) (add_considered considered (covered ! (av ! i))) c b"
        using search_inv_select [OF "1.prems"(2) _ sel(1) refl sel(2)] a2 by simp
      with "1.IH"(1) [OF a1 a2 refl refl refl sel(1,2) refl refl refl sel(3)] "1.prems"(3)
      show ?thesis by blast
    next
      case skip
      have "search_inv covered av new (Suc i) considered cur banned"
        using search_inv_skip [OF "1.prems"(2) skip(1)] .
      with "1.IH"(2) [OF a1 a2 refl refl refl refl skip(1,2)] "1.prems"(3) show ?thesis by blast
    qed
  qed
qed

lemma search_inv_start: "search_inv covered av new 0 [] [] []"
  by (simp add: search_inv_def sel_ok_def)

lemmas search_start_ok = search_groups_ok [OF _ search_inv_start]

end
