(* ===== verification/Prewarm_Sched.thy ===== *)
theory Prewarm_Sched
  imports Prewarm_Search
begin

text \<open>
  \<open>Scheduler\<close> of \<open>entrypoints/controller/scheduler.py\<close>: the prediction of loads over
  sliding windows (\<open>init\<close>, \<open>update_loads\<close>), the scores of the replicas each model
  should have (\<open>_calc_model_scores\<close>) and the placement of new replicas on GPUs
  (\<open>prewarm\<close>, with its round-robin variant for \<open>disable_placement\<close>).

  \<open>model_info\<close> is the dictionary model \<open>\<mapsto>\<close> (size in bytes, tensor parallel degree) in
  insertion order; \<open>gpu_mem\<close>, which the code changes in place, is returned. Floats are
  exact reals; the clock is an argument.
\<close>

type_synonym model_config = "(string \<times> int \<times> nat) list"

record sched =
  sc_model_info :: model_config
  sc_num_servers :: nat
  sc_num_gpu_per_server :: nat
  sc_disable_placement :: bool
  sc_window_size :: real
  sc_past_avgs :: "string \<rightharpoonup> real list"
  sc_past_peaks :: "string \<rightharpoonup> real list"
  sc_predicted_avg_load :: "string \<rightharpoonup> real"
  sc_predicted_peak_load :: "string \<rightharpoonup> real"
  sc_recorded_avg_load :: "string \<Rightarrow> real list"
  sc_recorded_peak_load :: "string \<Rightarrow> real list"
  sc_cur_window_id :: nat
  sc_start_time :: real

definition num_sample_point :: nat where "num_sample_point = 10"

definition weights :: "real list" where
  "weights = map (\<lambda>i. 1 / 2 ^ i) [0..<num_sample_point]"

fun prefix_sums :: "real \<Rightarrow> real list \<Rightarrow> real list" where
  "prefix_sums acc [] = []"
| "prefix_sums acc (w # ws) = (acc + w) # prefix_sums (acc + w) ws"

definition sum_weights :: "real list" where
  "sum_weights = prefix_sums 0 weights"

text \<open>\<open>init\<close>: read the loads of previous days from the characteristics file.\<close>

definition init_model :: "(string \<rightharpoonup> real list \<times> real list) \<Rightarrow> string \<Rightarrow> sched \<Rightarrow> sched result" where
  "init_model characters m sc =
     (case characters m of
        None \<Rightarrow> Inl ValueError
      | Some (avgs, peaks) \<Rightarrow>
          bind_r (nth_r avgs 0) (\<lambda>a.
          bind_r (nth_r peaks 0) (\<lambda>p.
            Inr (sc\<lparr>sc_past_avgs := (sc_past_avgs sc)(m \<mapsto> avgs),
                    sc_past_peaks := (sc_past_peaks sc)(m \<mapsto> peaks),
                    sc_predicted_avg_load := (sc_predicted_avg_load sc)(m \<mapsto> a),
                    sc_predicted_peak_load := (sc_predicted_peak_load sc)(m \<mapsto> p)\<rparr>))))"

definition init_sched :: "(string \<rightharpoonup> real list \<times> real list) \<Rightarrow> sched \<Rightarrow> sched result" where
  "init_sched characters sc =
     fold_r (init_model characters) (map fst (sc_model_info sc))
       (sc\<lparr>sc_past_avgs := Map.empty, sc_past_peaks := Map.empty,
           sc_predicted_avg_load := Map.empty, sc_predicted_peak_load := Map.empty,
           sc_recorded_avg_load := (\<lambda>_. []), sc_recorded_peak_load := (\<lambda>_. []),
           sc_cur_window_id := 0\<rparr>)"

text \<open>
  One of the two weighted sums of \<open>update_loads\<close>, for \<open>delta\<close> over
  \<open>range(num_sample_point)\<close>.
\<close>

definition weighted_diff :: "real list \<Rightarrow> real list \<Rightarrow> nat \<Rightarrow> nat \<Rightarrow> real result" where
  "weighted_diff recorded past cur_window_id n =
     fold_r (\<lambda>delta s.
       bind_r (nth_r recorded (cur_window_id - delta)) (\<lambda>r.
       bind_r (nth_r past (cur_window_id - delta)) (\<lambda>p.
       bind_r (nth_r weights delta) (\<lambda>w. Inr (s + (r - p) * w)))))
     [0..<n] 0"

text \<open>The body of the loop of \<open>update_loads\<close> over the models.\<close>

definition update_model_load ::
    "real \<Rightarrow> string \<Rightarrow> sched \<times> (string \<rightharpoonup> model_status) \<Rightarrow> (sched \<times> (string \<rightharpoonup> model_status)) result"
  where
  "update_model_load cur_time m st =
     (let (sc, stats) = st; w = sc_cur_window_id sc; n = min num_sample_point (w + 1) in
      bind_r (get_key stats m) (\<lambda>status.
      bind_r (get_key (sc_past_avgs sc) m) (\<lambda>past_avgs.
      bind_r (get_key (sc_past_peaks sc) m) (\<lambda>past_peaks.
      bind_r (div_r (ms_sum_loads status
                     + (cur_time - ms_last_time status) * of_int (ms_num_reqs status))
                (sc_window_size sc)) (\<lambda>avg.
      let rec_avg = sc_recorded_avg_load sc m @ [avg];
          rec_peak = sc_recorded_peak_load sc m @ [of_int (ms_max_loads status)] in
      bind_r (weighted_diff rec_avg past_avgs w n) (\<lambda>sum_avg.
      bind_r (weighted_diff rec_peak past_peaks w n) (\<lambda>sum_peak.
      bind_r (nth_r past_avgs (w + 1)) (\<lambda>next_avg.
      bind_r (nth_r past_peaks (w + 1)) (\<lambda>next_peak.
        Inr (sc\<lparr>sc_recorded_avg_load := (sc_recorded_avg_load sc)(m := rec_avg),
                sc_recorded_peak_load := (sc_recorded_peak_load sc)(m := rec_peak),
                sc_predicted_avg_load := (sc_predicted_avg_load sc)
                  (m \<mapsto> next_avg + sum_avg / sum_weights ! (n - 1)),
                sc_predicted_peak_load := (sc_predicted_peak_load sc)
                  (m \<mapsto> next_peak + sum_peak / sum_weights ! (n - 1))\<rparr>,
             stats(m \<mapsto> status\<lparr>ms_last_time := cur_time, ms_sum_loads := 0, ms_max_loads := 0\<rparr>))
      )))))))))"

definition update_loads ::
    "real \<Rightarrow> sched \<Rightarrow> (string \<rightharpoonup> model_status) \<Rightarrow> (bool \<times> sched \<times> (string \<rightharpoonup> model_status)) result"
  where
  "update_loads cur_time sc stats =
     (if cur_time - sc_start_time sc < (of_nat (sc_cur_window_id sc) + 1) * sc_window_size sc
      then Inr (False, sc, stats)
      else bind_r (fold_r (update_model_load cur_time) (map fst (sc_model_info sc)) (sc, stats))
        (\<lambda>(sc', stats'). Inr (True, sc'\<lparr>sc_cur_window_id := sc_cur_window_id sc' + 1\<rparr>, stats')))"

text \<open>\<open>_calc_model_scores\<close>: foundation and burst replicas of a model and their scores.\<close>

definition model_scores ::
    "sched \<Rightarrow> (string \<rightharpoonup> int) \<Rightarrow> string \<Rightarrow> (nat \<times> nat \<times> real list) result" where
  "model_scores sc num_instances m =
     bind_r (get_key (sc_predicted_avg_load sc) m) (\<lambda>avg_load.
     bind_r (get_key (sc_predicted_peak_load sc) m) (\<lambda>peak_load.
     bind_r (get_key num_instances m) (\<lambda>cur_instance.
     bind_r (get_key (map_of (sc_model_info sc)) m) (\<lambda>(sz, tp).
     bind_r (div_r (of_int sz) (of_nat tp)) (\<lambda>per_gpu.
     bind_r (div_r peak_load avg_load) (\<lambda>bursty_factor.
       let coldstart_time = per_gpu / 2 ^ 30 / PCIE_BANDWIDTH;
           nf = nat (max (\<lceil>avg_load / of_int BATCH_SIZE\<rceil> - cur_instance) 0);
           nb = nat (max (\<lceil>peak_load / of_int BATCH_SIZE\<rceil> - cur_instance - int nf) 0)
       in Inr (nf, nb,
            map (\<lambda>i. exp (- real i / real (nf + nb)) * coldstart_time) [0..<nf]
            @ map (\<lambda>i. exp (- real (nf + i) / real (nf + nb)) * coldstart_time * bursty_factor)
                [0..<nb])))))))"

definition calc_model_scores ::
    "sched \<Rightarrow> string list \<Rightarrow> (string \<rightharpoonup> int) \<Rightarrow> (nat \<times> nat \<times> real list) list result" where
  "calc_model_scores sc model_list num_instances =
     bind_r (map_r (\<lambda>m (u::unit). bind_r (model_scores sc num_instances m) (\<lambda>x. Inr (x, u)))
       model_list ()) (\<lambda>(xs, _). Inr xs)"

text \<open>\<open>align_up(model_info[0] // model_info[1])\<close>.\<close>

definition size_per_gpu :: "int \<Rightarrow> nat \<Rightarrow> int result" where
  "size_per_gpu sz tp = bind_r (floordiv_r sz (int tp)) (\<lambda>q. Inr (align_up q))"

text \<open>
  The conversion of \<open>node_models\<close> to replicas: the \<open>k\<close>-th replica of a model takes the
  \<open>k\<close>-th score, and 0 beyond the wanted number.
\<close>

definition orig_replica ::
    "model_config \<Rightarrow> (nat \<times> nat \<times> real list) list \<Rightarrow> string \<times> nat list
     \<Rightarrow> nat list \<times> replica list \<Rightarrow> (nat list \<times> replica list) result" where
  "orig_replica info scores mw st =
     (let (m, worker_ids) = mw; (cur_replica_id, replicas) = st;
          mid = index_of (map fst info) m in
      bind_r (guard_r KeyError (m \<in> fst ` set info)) (\<lambda>_.
      bind_r (nth_r cur_replica_id mid) (\<lambda>rid.
      bind_r (nth_r scores mid) (\<lambda>(nf, nb, score_list).
      bind_r (if rid < nf + nb then nth_r score_list rid else Inr 0) (\<lambda>score.
      bind_r (get_key (map_of info) m) (\<lambda>(sz, tp).
      bind_r (size_per_gpu sz tp) (\<lambda>mem.
        Inr (cur_replica_id[mid := rid + 1],
             replicas @ [\<lparr>rp_model_id = mid, rp_tp = tp, rp_mem_per_gpu = mem, rp_score = score,
                          rp_worker_ids = worker_ids\<rparr>]))))))))"

definition orig_replicas ::
    "sched \<Rightarrow> (nat \<times> nat \<times> real list) list \<Rightarrow> (string \<times> nat list) list list
     \<Rightarrow> (nat list \<times> replica list) result" where
  "orig_replicas sc scores node_models =
     fold_r (\<lambda>node st. bind_r (nth_r node_models node)
               (\<lambda>ms. fold_r (orig_replica (sc_model_info sc) scores) ms st))
       [0..<sc_num_servers sc]
       (replicate (length (sc_model_info sc)) 0, [])"

definition cover_worker :: "replica \<Rightarrow> nat \<Rightarrow> replica list list \<Rightarrow> replica list list result" where
  "cover_worker r w covered =
     bind_r (nth_r covered w) (\<lambda>rs. Inr (covered[w := rs @ [r]]))"

definition covered_replicas :: "nat \<Rightarrow> replica list \<Rightarrow> replica list list result" where
  "covered_replicas n replicas =
     fold_r (\<lambda>r covered. fold_r (cover_worker r) (rp_worker_ids r) covered) replicas
       (replicate n [])"

text \<open>The replicas that are wanted and do not exist yet, model by model.\<close>

definition new_replicas_of ::
    "model_config \<Rightarrow> (nat \<times> nat \<times> real list) list \<Rightarrow> nat list \<Rightarrow> nat \<Rightarrow> replica list
     \<Rightarrow> replica list result" where
  "new_replicas_of info scores cur_replica_id mid acc =
     bind_r (nth_r scores mid) (\<lambda>(nf, nb, score_list).
     bind_r (nth_r cur_replica_id mid) (\<lambda>cur.
     if cur < nf + nb then
       bind_r (nth_r info mid) (\<lambda>(m, sz, tp).
       bind_r (size_per_gpu sz tp) (\<lambda>mem.
         fold_r (\<lambda>i acc. bind_r (nth_r score_list i) (\<lambda>score.
             Inr (acc @ [\<lparr>rp_model_id = mid, rp_tp = tp, rp_mem_per_gpu = mem, rp_score = score,
                          rp_worker_ids = []\<rparr>])))
           [cur..<nf + nb] acc))
     else Inr acc))"

definition new_replicas ::
    "model_config \<Rightarrow> (nat \<times> nat \<times> real list) list \<Rightarrow> nat list \<Rightarrow> replica list result" where
  "new_replicas info scores cur_replica_id =
     fold_r (new_replicas_of info scores cur_replica_id) [0..<length info] []"

text \<open>The GPUs with enough free memory, per server.\<close>

definition node_gpus :: "nat \<Rightarrow> nat \<Rightarrow> int list \<Rightarrow> (nat \<Rightarrow> bool) \<Rightarrow> nat list list result" where
  "node_gpus num_servers num_gpu_per_server gpu_mem ok =
     fold_r (\<lambda>w acc.
         if ok w then
           (if num_gpu_per_server = 0 then Inl ZeroDivisionError
            else let n = w div num_gpu_per_server in
              bind_r (nth_r acc n) (\<lambda>ws. Inr (acc[n := ws @ [w]])))
         else Inr acc)
       [0..<length gpu_mem] (replicate num_servers [])"

text \<open>
  Step 3 of the placement: among the groups where the new replica becomes the one with the
  highest score, the one that disturbs the least; otherwise the least disturbing of the others.
\<close>

definition better_group ::
    "real \<Rightarrow> nat list \<times> real \<times> real \<Rightarrow> (nat list \<times> real) option \<times> (nat list \<times> real) option
     \<Rightarrow> (nat list \<times> real) option \<times> (nat list \<times> real) option" where
  "better_group score g best =
     (let (ws, max_score, sum_score) = g; (master, low) = best in
      if max_score < score then
        (case master of
           None \<Rightarrow> (Some (ws, sum_score), low)
         | Some (_, s) \<Rightarrow> (if s > sum_score then (Some (ws, sum_score), low) else (master, low)))
      else
        (case low of
           None \<Rightarrow> (master, Some (ws, sum_score))
         | Some (_, s) \<Rightarrow> (if s > sum_score then (master, Some (ws, sum_score)) else (master, low))))"

definition select_group :: "real \<Rightarrow> (nat list \<times> real \<times> real) list \<Rightarrow> nat list option" where
  "select_group score groups =
     (let (master, low) = fold (better_group score) groups (None, None) in
      case master of Some (ws, _) \<Rightarrow> Some ws | None \<Rightarrow> map_option fst low)"

record placement =
  pl_actions :: "(string \<times> nat list) list"
  pl_covered :: "replica list list"
  pl_gpu_mem :: "int list"

text \<open>Step 4: record the action, cover the workers and take their memory.\<close>

definition take_worker :: "replica \<Rightarrow> nat \<Rightarrow> placement \<Rightarrow> placement result" where
  "take_worker r w pl =
     bind_r (cover_worker r w (pl_covered pl)) (\<lambda>cov.
     bind_r (nth_r (pl_gpu_mem pl) w) (\<lambda>m.
       Inr (pl\<lparr>pl_covered := cov, pl_gpu_mem := (pl_gpu_mem pl)[w := m - rp_mem_per_gpu r]\<rparr>)))"

definition commit_replica :: "model_config \<Rightarrow> replica \<Rightarrow> nat list \<Rightarrow> placement \<Rightarrow> placement result" where
  "commit_replica info r ws pl =
     bind_r (nth_r info (rp_model_id r)) (\<lambda>(m, _).
       fold_r (take_worker (r\<lparr>rp_worker_ids := ws\<rparr>)) ws
         (pl\<lparr>pl_actions := pl_actions pl @ [(m, ws)]\<rparr>))"

definition find_groups ::
    "replica list list \<Rightarrow> nat list list \<Rightarrow> replica \<Rightarrow> (nat list \<times> real \<times> real) list" where
  "find_groups covered nodes new =
     concat (map (\<lambda>available_gpus.
       if length available_gpus < rp_tp new then []
       else search_for_available_groups covered available_gpus new 0 [] [] [] 0 0) nodes)"

definition place_replica :: "sched \<Rightarrow> replica \<Rightarrow> placement \<Rightarrow> placement result" where
  "place_replica sc new pl =
     bind_r (node_gpus (sc_num_servers sc) (sc_num_gpu_per_server sc) (pl_gpu_mem pl)
               (\<lambda>w. pl_gpu_mem pl ! w \<ge> rp_mem_per_gpu new)) (\<lambda>nodes.
       case select_group (rp_score new) (find_groups (pl_covered pl) nodes new) of
         None \<Rightarrow> Inr pl
       | Some ws \<Rightarrow> commit_replica (sc_model_info sc) new ws pl)"

text \<open>The round-robin placement that \<open>disable_placement\<close> selects.\<close>

definition rr_candidates :: "sched \<Rightarrow> nat \<Rightarrow> int \<Rightarrow> placement \<Rightarrow> nat list list result" where
  "rr_candidates sc mid mem pl =
     node_gpus (sc_num_servers sc) (sc_num_gpu_per_server sc) (pl_gpu_mem pl)
       (\<lambda>w. pl_gpu_mem pl ! w \<ge> mem \<and> \<not> (\<exists>r \<in> set (pl_covered pl ! w). rp_model_id r = mid))"

function round_robin :: "sched \<Rightarrow> nat list \<Rightarrow> nat \<Rightarrow> placement \<Rightarrow> placement result" where
  "round_robin sc totals cur_idx pl =
     (if cur_idx \<ge> length totals then Inl IndexError
      else if totals ! cur_idx = 0 then Inr pl
      else
        let totals' = totals[cur_idx := totals ! cur_idx - 1] in
        bind_r (nth_r (sc_model_info sc) cur_idx) (\<lambda>(m, sz, tp).
        bind_r (size_per_gpu sz tp) (\<lambda>mem.
        bind_r (rr_candidates sc cur_idx mem pl) (\<lambda>nodes.
          case find (\<lambda>av. tp \<le> length av) nodes of
            None \<Rightarrow> Inr pl
          | Some av \<Rightarrow>
              let ws = take tp av in
              bind_r (commit_replica (sc_model_info sc)
                 \<lparr>rp_model_id = cur_idx, rp_tp = tp, rp_mem_per_gpu = mem, rp_score = 0,
                  rp_worker_ids = []\<rparr> ws pl) (\<lambda>pl'.
              if ws = [] then Inr pl'
              else round_robin sc totals' ((cur_idx + 1) mod length (sc_model_info sc)) pl')))))"
  by pat_completeness auto
termination
  by (relation "measure (\<lambda>(sc, totals, _). sum_list totals)")
    (auto intro!: sum_list_decrement [simplified])

declare round_robin.simps [simp del]

text \<open>\<open>prewarm\<close>: the actions in the order they are planned, and the memory that is left.\<close>

definition prewarm ::
    "sched \<Rightarrow> int list \<Rightarrow> (string \<times> nat list) list list \<Rightarrow> (string \<rightharpoonup> int)
     \<Rightarrow> ((string \<times> nat list) list \<times> int list) result" where
  "prewarm sc gpu_mem node_models num_instances =
     bind_r (calc_model_scores sc (map fst (sc_model_info sc)) num_instances) (\<lambda>scores.
     bind_r (orig_replicas sc scores node_models) (\<lambda>(cur_replica_id, origs).
     bind_r (covered_replicas (length gpu_mem) origs) (\<lambda>covered.
     bind_r (new_replicas (sc_model_info sc) scores cur_replica_id) (\<lambda>news.
     let sorted_news = sort_key (\<lambda>r. - rp_score r) news;
         pl = \<lparr>pl_actions = [], pl_covered = covered, pl_gpu_mem = gpu_mem\<rparr> in
     bind_r (if sc_disable_placement sc
             then round_robin sc (map (\<lambda>(nf, nb, _). nf + nb) scores) 0 pl
             else fold_r (place_replica sc) sorted_news pl) (\<lambda>pl'.
       Inr (pl_actions pl', pl_gpu_mem pl'))))))"

end
