(* ===== verification/Prewarm_Place.thy ===== *)
theory Prewarm_Place
  imports Prewarm_Sched
begin

text \<open>
  What the placement of \<open>Prewarm_Sched\<close> guarantees: one invariant \<open>place_inv\<close>,
  kept by every replica that is committed, for the group search (where any two replicas that
  share a GPU nest) and for the round-robin variant (where they only differ in model).
\<close>

definition overlap :: "replica \<Rightarrow> replica \<Rightarrow> bool" where
  "overlap r r' \<longleftrightarrow> set (rp_worker_ids r) \<inter> set (rp_worker_ids r') \<noteq> {}"

definition nested :: "replica \<Rightarrow> replica \<Rightarrow> bool" where
  "nested r r' \<longleftrightarrow> rp_model_id r \<noteq> rp_model_id r'
     \<and> (set (rp_worker_ids r) \<subseteq> set (rp_worker_ids r') \<or> set (rp_worker_ids r') \<subseteq> set (rp_worker_ids r))"

definition other_model :: "replica \<Rightarrow> replica \<Rightarrow> bool" where
  "other_model r r' \<longleftrightarrow> rp_model_id r \<noteq> rp_model_id r'"

definition family :: "(replica \<Rightarrow> replica \<Rightarrow> bool) \<Rightarrow> replica set \<Rightarrow> bool" where
  "family rel P \<longleftrightarrow> (\<forall>r \<in> P. \<forall>r' \<in> P. r \<noteq> r' \<and> overlap r r' \<longrightarrow> rel r r')"

definition model_mem :: "model_config \<Rightarrow> string \<Rightarrow> int" where
  "model_mem info m = (case map_of info m of None \<Rightarrow> 0 | Some (sz, tp) \<Rightarrow> align_up (sz div int tp))"

definition mem_used :: "model_config \<Rightarrow> (string \<times> nat list) list \<Rightarrow> nat \<Rightarrow> int" where
  "mem_used info acts w = (\<Sum>(m, ws) \<leftarrow> acts. if w \<in> set ws then model_mem info m else 0)"

definition action_ok :: "model_config \<Rightarrow> nat \<Rightarrow> nat \<Rightarrow> string \<times> nat list \<Rightarrow> bool" where
  "action_ok info n g a \<longleftrightarrow>
     (\<exists>sz. map_of info (fst a) = Some (sz, length (snd a)))
     \<and> distinct (snd a) \<and> (\<forall>w \<in> set (snd a). w < n)
     \<and> (\<exists>server. \<forall>w \<in> set (snd a). w div g = server)"

definition entry_of :: "model_config \<Rightarrow> replica \<Rightarrow> string \<times> nat list" where
  "entry_of info r = (fst (info ! rp_model_id r), rp_worker_ids r)"

definition place_inv ::
    "(replica \<Rightarrow> replica \<Rightarrow> bool) \<Rightarrow> model_config \<Rightarrow> nat \<Rightarrow> int list \<Rightarrow> (string \<times> nat list) set
     \<Rightarrow> replica set \<Rightarrow> placement \<Rightarrow> bool"
  where
  "place_inv rel info g mem0 E P pl \<longleftrightarrow>
     entry_of info ` P = E \<union> set (pl_actions pl) \<and> rp_model_id ` P \<subseteq> {..<length info} \<and>
     length (pl_covered pl) = length mem0 \<and> length (pl_gpu_mem pl) = length mem0
     \<and> (\<forall>w < length mem0. set (pl_covered pl ! w) = {r \<in> P. w \<in> set (rp_worker_ids r)})
     \<and> family rel P
     \<and> (\<forall>a \<in> set (pl_actions pl). action_ok info (length mem0) g a)
     \<and> (\<forall>w < length mem0. pl_gpu_mem pl ! w = mem0 ! w - mem_used info (pl_actions pl) w)
     \<and> (\<forall>w < length mem0. min 0 (mem0 ! w) \<le> pl_gpu_mem pl ! w)"

lemma take_worker_fold:
  assumes "fold_r (take_worker r) ws pl = Inr pl'" and "distinct ws"
    and "length (pl_covered pl) = n" "length (pl_gpu_mem pl) = n"
  shows "length (pl_covered pl') = n \<and> length (pl_gpu_mem pl') = n
    \<and> pl_actions pl' = pl_actions pl \<and> set ws \<subseteq> {..<n}
    \<and> (\<forall>w < n. set (pl_covered pl' ! w) = set (pl_covered pl ! w) \<union> (if w \<in> set ws then {r} else {}))
    \<and> (\<forall>w < n. pl_gpu_mem pl' ! w
          = pl_gpu_mem pl ! w - (if w \<in> set ws then rp_mem_per_gpu r else 0))"
  using assms
proof (induction ws arbitrary: pl)
  case (Cons w ws)
  from Cons.prems(1) obtain pl1 where step: "take_worker r w pl = Inr pl1"
    and rest: "fold_r (take_worker r) ws pl1 = Inr pl'" by auto
  from step Cons.prems(3,4) have w: "w < n"
    and pl1: "pl1 = pl\<lparr>pl_covered := (pl_covered pl)[w := pl_covered pl ! w @ [r]],
      pl_gpu_mem := (pl_gpu_mem pl)[w := pl_gpu_mem pl ! w - rp_mem_per_gpu r]\<rparr>"
    by (auto simp: take_worker_def cover_worker_def)
  have "distinct ws" "w \<notin> set ws" using Cons.prems(2) by auto
  with Cons.IH [OF rest] Cons.prems(3,4) w show ?case
    by (auto simp: pl1 nth_list_update)
qed auto

lemma cover_worker_fold:
  assumes "fold_r (cover_worker r) ws cov = Inr cov'"
  shows "length cov' = length cov
    \<and> (\<forall>w < length cov. set (cov' ! w) = set (cov ! w) \<union> (if w \<in> set ws then {r} else {}))"
  using assms
proof (induction ws arbitrary: cov)
  case (Cons w ws)
  from Cons.prems obtain c1 where step: "cover_worker r w cov = Inr c1"
    and rest: "fold_r (cover_worker r) ws c1 = Inr cov'" by auto
  then have "w < length cov" "c1 = cov[w := cov ! w @ [r]]" by (auto simp: cover_worker_def)
  with Cons.IH [OF rest] show ?case by (auto simp: nth_list_update)
qed auto

lemma covered_replicas_fold:
  assumes "fold_r (\<lambda>r. fold_r (cover_worker r) (rp_worker_ids r)) rs cov = Inr cov'"
  shows "length cov' = length cov
    \<and> (\<forall>w < length cov. set (cov' ! w) = set (cov ! w) \<union> {r \<in> set rs. w \<in> set (rp_worker_ids r)})"
  using assms
proof (induction rs arbitrary: cov)
  case (Cons r rs)
  from Cons.prems obtain c1 where step: "fold_r (cover_worker r) (rp_worker_ids r) cov = Inr c1"
    and rest: "fold_r (\<lambda>r. fold_r (cover_worker r) (rp_worker_ids r)) rs c1 = Inr cov'" by auto
  with Cons.IH [OF rest] cover_worker_fold [OF step] show ?case by auto
qed auto

lemma covered_replicas_set:
  assumes "covered_replicas n rs = Inr cov"
  shows "length cov = n \<and> (\<forall>w < n. set (cov ! w) = {r \<in> set rs. w \<in> set (rp_worker_ids r)})"
  using covered_replicas_fold [of rs "replicate n []" cov] assms
  by (auto simp: covered_replicas_def)

lemma node_gpus_fold:
  assumes "fold_r (\<lambda>w acc. if ok w then
      (if g = 0 then Inl ZeroDivisionError
       else let n = w div g in bind_r (nth_r acc n) (\<lambda>ws. Inr (acc[n := ws @ [w]]))) else Inr acc)
      xs acc = Inr acc'"
  shows "length acc' = length acc
    \<and> (\<forall>s < length acc. acc' ! s = acc ! s @ filter (\<lambda>w. ok w \<and> w div g = s) xs)"
  using assms
proof (induction xs arbitrary: acc)
  case (Cons x xs)
  show ?case
  proof (cases "ok x")
    case True
    with Cons.prems have x: "x div g < length acc"
      and rest: "fold_r (\<lambda>w acc. if ok w then
      (if g = 0 then Inl ZeroDivisionError
       else let n = w div g in bind_r (nth_r acc n) (\<lambda>ws. Inr (acc[n := ws @ [w]]))) else Inr acc)
      xs (acc[x div g := acc ! (x div g) @ [x]]) = Inr acc'"
      by (auto simp: Let_def split: if_splits)
    from Cons.IH [OF rest] x True show ?thesis by (auto simp: nth_list_update)
  next
    case False
    with Cons show ?thesis by simp
  qed
qed auto

lemma node_gpus_nodes:
  assumes "node_gpus ns g mem ok = Inr nodes" and "av \<in> set nodes"
  shows "distinct av \<and> (\<forall>w \<in> set av. w < length mem \<and> ok w) \<and> (\<exists>server. \<forall>w \<in> set av. w div g = server)"
proof -
  from assms(2) obtain s where s: "s < length nodes" "av = nodes ! s" by (auto simp: in_set_conv_nth)
  have "av = filter (\<lambda>w. ok w \<and> w div g = s) [0..<length mem]"
    using node_gpus_fold [of ok g "[0..<length mem]" "replicate ns []" nodes] assms(1) s
    by (auto simp: node_gpus_def)
  then show ?thesis by auto
qed

subsection \<open>Choosing a group\<close>

lemma better_group_mem:
  assumes "\<forall>x. fst best = Some x \<longrightarrow> fst x \<in> G" "\<forall>x. snd best = Some x \<longrightarrow> fst x \<in> G"
    and "fst g \<in> G"
  shows "(\<forall>x. fst (better_group score g best) = Some x \<longrightarrow> fst x \<in> G)
    \<and> (\<forall>x. snd (better_group score g best) = Some x \<longrightarrow> fst x \<in> G)"
  using assms by (cases best; cases g) (auto simp: better_group_def split: option.splits if_splits)

lemma select_group_fold_mem:
  assumes "\<forall>x. fst best = Some x \<longrightarrow> fst x \<in> G" "\<forall>x. snd best = Some x \<longrightarrow> fst x \<in> G"
    and "fst ` set gs \<subseteq> G"
  shows "(\<forall>x. fst (fold (better_group score) gs best) = Some x \<longrightarrow> fst x \<in> G)
    \<and> (\<forall>x. snd (fold (better_group score) gs best) = Some x \<longrightarrow> fst x \<in> G)"
  using assms
proof (induction gs arbitrary: best)
  case (Cons g gs)
  have "fst g \<in> G" using Cons.prems(3) by simp
  note step = better_group_mem [OF Cons.prems(1,2) this, of score]
  show ?case using Cons.IH [OF step [THEN conjunct1] step [THEN conjunct2]] Cons.prems(3) by simp
qed auto

lemma select_group_mem:
  assumes "select_group score gs = Some ws"
  shows "\<exists>m s. (ws, m, s) \<in> set gs"
proof -
  have "ws \<in> fst ` set gs"
    using select_group_fold_mem [of "(None, None)" "fst ` set gs" gs score] assms
    by (auto simp: select_group_def split: prod.splits option.splits)
  then obtain p where "p \<in> set gs" "fst p = ws" by blast
  then show ?thesis by (metis prod.collapse)
qed

lemma better_group_some:
  "fst best \<noteq> None \<or> snd best \<noteq> None \<Longrightarrow>
    fst (better_group score g best) \<noteq> None \<or> snd (better_group score g best) \<noteq> None"
  by (cases best; cases g) (auto simp: better_group_def split: option.splits if_splits)

lemma select_group_fold_some:
  "fst best \<noteq> None \<or> snd best \<noteq> None \<Longrightarrow>
    fst (fold (better_group score) gs best) \<noteq> None \<or> snd (fold (better_group score) gs best) \<noteq> None"
proof (induction gs arbitrary: best)
  case (Cons g gs)
  from Cons.IH [OF better_group_some [OF Cons.prems]] show ?case by simp
qed simp

lemma select_group_None: "select_group score gs = None \<longleftrightarrow> gs = []"
proof (cases gs)
  case (Cons g rest)
  have "fst (better_group score g (None, None)) \<noteq> None \<or> snd (better_group score g (None, None)) \<noteq> None"
    by (cases g) (auto simp: better_group_def)
  note some = select_group_fold_some [OF this, where score = score and gs = rest]
  obtain a b where f: "fold (better_group score) rest (better_group score g (None, None)) = (a, b)"
    by fastforce
  from some have "a \<noteq> None \<or> b \<noteq> None" unfolding f by simp
  with Cons f show ?thesis by (auto simp: select_group_def split: option.splits)
qed (simp add: select_group_def)

subsection \<open>Committing a replica\<close>

definition from_config :: "model_config \<Rightarrow> replica \<Rightarrow> bool" where
  "from_config info r \<longleftrightarrow>
     (\<exists>m sz. rp_model_id r < length info \<and> info ! rp_model_id r = (m, sz, rp_tp r)
        \<and> rp_mem_per_gpu r = align_up (sz div int (rp_tp r)))"

lemma mem_used_append [simp]:
  "mem_used info (acts @ [(m, ws)]) w =
    mem_used info acts w + (if w \<in> set ws then model_mem info m else 0)"
  by (simp add: mem_used_def)

lemma commit_replica_inv:
  assumes inv: "place_inv rel info g mem0 E P pl" and com: "commit_replica info r ws pl = Inr pl'"
    and cfg: "from_config info r" and keys: "distinct (map fst info)"
    and ws: "length ws = rp_tp r" "distinct ws" "\<forall>w \<in> set ws. w < length mem0 \<and> rp_mem_per_gpu r \<le> pl_gpu_mem pl ! w"
      "\<exists>server. \<forall>w \<in> set ws. w div g = server"
    and rel: "\<forall>r' \<in> P. set (rp_worker_ids r') \<inter> set ws \<noteq> {}
      \<longrightarrow> rel r' (r\<lparr>rp_worker_ids := ws\<rparr>) \<and> rel (r\<lparr>rp_worker_ids := ws\<rparr>) r'"
  shows "place_inv rel info g mem0 E (insert (r\<lparr>rp_worker_ids := ws\<rparr>) P) pl'"
proof -
  let ?r = "r\<lparr>rp_worker_ids := ws\<rparr>"
  obtain m sz where m: "rp_model_id r < length info" "info ! rp_model_id r = (m, sz, rp_tp r)"
    "rp_mem_per_gpu r = align_up (sz div int (rp_tp r))"
    using cfg by (auto simp: from_config_def)
  have mo: "map_of info m = Some (sz, rp_tp r)"
    using m keys by (metis map_of_eq_Some_iff nth_mem)
  have mm: "model_mem info m = rp_mem_per_gpu r" using mo m by (simp add: model_mem_def)
  have fd: "fold_r (take_worker ?r) ws (pl\<lparr>pl_actions := pl_actions pl @ [(m, ws)]\<rparr>) = Inr pl'"
    using com m by (auto simp: commit_replica_def)
  note tw = take_worker_fold [OF fd ws(2), of "length mem0"]
  have "family rel (insert ?r P)"
    using inv rel by (auto simp: place_inv_def family_def overlap_def Int_commute)
  moreover have "action_ok info (length mem0) g (m, ws)"
    using ws mo by (auto simp: action_ok_def)
  moreover have "entry_of info ?r = (m, ws)" using m by (simp add: entry_of_def)
  ultimately show ?thesis using inv tw ws(3) mm m(1) by (auto simp: place_inv_def)
qed

lemma find_groups_ok:
  assumes "(ws, m, s) \<in> set (find_groups covered nodes new)" and "\<forall>av \<in> set nodes. distinct av"
  shows "\<exists>av \<in> set nodes. group_ok covered av new ws"
  using assms search_start_ok [of ws m s covered _ new 0 0]
  by (auto simp: find_groups_def split: if_splits)

lemma place_replica_inv:
  assumes inv: "place_inv rel info g mem0 E P pl" and pr: "place_replica sc new pl = Inr pl'"
    and impl: "\<And>r r'. nested r r' \<Longrightarrow> rel r r'"
    and sc: "sc_model_info sc = info" "sc_num_gpu_per_server sc = g"
    and cfg: "from_config info new" and keys: "distinct (map fst info)"
  shows "\<exists>P'. P \<subseteq> P' \<and> place_inv rel info g mem0 E P' pl'"
proof -
  obtain nodes where nodes: "node_gpus (sc_num_servers sc) g (pl_gpu_mem pl)
      (\<lambda>w. pl_gpu_mem pl ! w \<ge> rp_mem_per_gpu new) = Inr nodes"
    using pr sc by (auto simp: place_replica_def)
  note nd = node_gpus_nodes [OF nodes]
  have len: "length (pl_gpu_mem pl) = length mem0" using inv by (simp add: place_inv_def)
  show ?thesis
  proof (cases "select_group (rp_score new) (find_groups (pl_covered pl) nodes new)")
    case None
    then have "pl' = pl" using pr nodes sc by (simp add: place_replica_def)
    with inv show ?thesis by blast
  next
    case (Some ws)
    then have com: "commit_replica info new ws pl = Inr pl'"
      using pr nodes sc by (simp add: place_replica_def)
    from select_group_mem [OF Some] obtain m s
      where "(ws, m, s) \<in> set (find_groups (pl_covered pl) nodes new)" by auto
    from find_groups_ok [OF this] nd obtain av where av: "av \<in> set nodes"
      and ok: "group_ok (pl_covered pl) av new ws" by blast
    have in_av: "set ws \<subseteq> set av" using ok by (simp add: group_ok_def)
    have fit: "\<forall>w \<in> set ws. w < length mem0 \<and> rp_mem_per_gpu new \<le> pl_gpu_mem pl ! w"
      using nd [OF av] in_av len by auto
    have server: "\<exists>server. \<forall>w \<in> set ws. w div g = server" using nd [OF av] in_av by blast
    have rel: "\<forall>r' \<in> P. set (rp_worker_ids r') \<inter> set ws \<noteq> {}
      \<longrightarrow> rel r' (new\<lparr>rp_worker_ids := ws\<rparr>) \<and> rel (new\<lparr>rp_worker_ids := ws\<rparr>) r'"
    proof (intro ballI impI)
      fix r' assume r': "r' \<in> P" and ov: "set (rp_worker_ids r') \<inter> set ws \<noteq> {}"
      then obtain w where "w \<in> set ws" "w \<in> set (rp_worker_ids r')" by auto
      then have "r' \<in> set (pl_covered pl ! w)" using inv r' fit by (auto simp: place_inv_def)
      then have "nests r' (rp_model_id new) (rp_tp new) (set ws)"
        using ok \<open>w \<in> set ws\<close> by (auto simp: group_ok_def)
      then have "nested r' (new\<lparr>rp_worker_ids := ws\<rparr>) \<and> nested (new\<lparr>rp_worker_ids := ws\<rparr>) r'"
        by (cases "rp_tp r' \<le> rp_tp new") (auto simp: nests_def nested_def)
      then show "rel r' (new\<lparr>rp_worker_ids := ws\<rparr>) \<and> rel (new\<lparr>rp_worker_ids := ws\<rparr>) r'"
        using impl by blast
    qed
    have "length ws = rp_tp new" "distinct ws" using ok by (auto simp: group_ok_def)
    from commit_replica_inv [OF inv com cfg keys this fit server rel] show ?thesis by blast
  qed
qed

lemma place_all_inv:
  assumes "fold_r (place_replica sc) news pl = Inr pl'" and "place_inv rel info g mem0 E P pl"
    and "sc_model_info sc = info" "sc_num_gpu_per_server sc = g" and "distinct (map fst info)"
    and "\<forall>r \<in> set news. from_config info r" and impl: "\<And>r r'. nested r r' \<Longrightarrow> rel r r'"
  shows "\<exists>P'. P \<subseteq> P' \<and> place_inv rel info g mem0 E P' pl'"
proof (rule fold_r_inv [OF assms(1), where P = "\<lambda>pl. \<exists>P'. P \<subseteq> P' \<and> place_inv rel info g mem0 E P' pl"])
  show "\<exists>P'. P \<subseteq> P' \<and> place_inv rel info g mem0 E P' pl" using assms(2) by blast
next
  fix r pl pl'
  assume r: "r \<in> set news" and ex: "\<exists>P'. P \<subseteq> P' \<and> place_inv rel info g mem0 E P' pl"
    and step: "place_replica sc r pl = Inr pl'"
  obtain P1 where P1: "P \<subseteq> P1" "place_inv rel info g mem0 E P1 pl" using ex by blast
  show "\<exists>P'. P \<subseteq> P' \<and> place_inv rel info g mem0 E P' pl'"
    using place_replica_inv [OF P1(2) step impl assms(3,4) _ assms(5)] P1(1) assms(6) r
    by (meson order_trans)
qed

subsection \<open>Round robin\<close>

lemma round_robin_step:
  assumes "round_robin sc totals i pl = Inr pl'" and "totals ! i \<noteq> 0" and "i < length totals"
  obtains (stop) "pl' = pl"
    | (place) m sz tp nodes av plx where "i < length (sc_model_info sc)"
      "sc_model_info sc ! i = (m, sz, tp)" "tp \<noteq> 0"
      "rr_candidates sc i (align_up (sz div int tp)) pl = Inr nodes"
      "av \<in> set nodes" "tp \<le> length av"
      "commit_replica (sc_model_info sc) \<lparr>rp_model_id = i, rp_tp = tp,
         rp_mem_per_gpu = align_up (sz div int tp), rp_score = 0, rp_worker_ids = []\<rparr> (take tp av) pl = Inr plx"
      "plx = pl' \<or> round_robin sc (totals[i := totals ! i - 1]) ((i + 1) mod length (sc_model_info sc)) plx = Inr pl'"
proof -
  obtain m sz tp where e: "sc_model_info sc ! i = (m, sz, tp)" by (metis prod_cases3)
  from assms obtain nodes where i: "i < length (sc_model_info sc)" "tp \<noteq> 0"
    and nodes: "rr_candidates sc i (align_up (sz div int tp)) pl = Inr nodes"
    and rest: "(case find (\<lambda>av. tp \<le> length av) nodes of
            None \<Rightarrow> Inr pl
          | Some av \<Rightarrow>
              let ws = take tp av in
              bind_r (commit_replica (sc_model_info sc)
                 \<lparr>rp_model_id = i, rp_tp = tp, rp_mem_per_gpu = align_up (sz div int tp), rp_score = 0,
                  rp_worker_ids = []\<rparr> ws pl) (\<lambda>pl'.
              if ws = [] then Inr pl'
              else round_robin sc (totals[i := totals ! i - 1]) ((i + 1) mod length (sc_model_info sc)) pl')) = Inr pl'"
    unfolding round_robin.simps [of sc totals i pl] by (auto simp: size_per_gpu_def Let_def e simp del: One_nat_def)
  show thesis
  proof (cases "find (\<lambda>av. tp \<le> length av) nodes")
    case None
    with rest stop show thesis by auto
  next
    case (Some av)
    then have av: "av \<in> set nodes" "tp \<le> length av" by (auto simp: find_Some_iff)
    from Some rest obtain plx where c: "commit_replica (sc_model_info sc) \<lparr>rp_model_id = i, rp_tp = tp,
         rp_mem_per_gpu = align_up (sz div int tp), rp_score = 0, rp_worker_ids = []\<rparr> (take tp av) pl = Inr plx"
      and "(if take tp av = [] then Inr plx
        else round_robin sc (totals[i := totals ! i - 1]) ((i + 1) mod length (sc_model_info sc)) plx) = Inr pl'"
      by (auto simp: Let_def)
    then have "plx = pl' \<or> round_robin sc (totals[i := totals ! i - 1]) ((i + 1) mod length (sc_model_info sc)) plx = Inr pl'"
      by (cases "take tp av = []") simp_all
    with i e nodes av c place show thesis by blast
  qed
qed

lemma rr_commit_inv:
  assumes inv: "place_inv rel info g mem0 E P pl"
    and impl: "\<And>r r'. other_model r r' \<Longrightarrow> rel r r'"
    and sc: "sc_model_info sc = info" "sc_num_gpu_per_server sc = g" and keys: "distinct (map fst info)"
    and i: "i < length info" "info ! i = (m, sz, tp)"
    and nodes: "rr_candidates sc i (align_up (sz div int tp)) pl = Inr nodes"
    and av: "av \<in> set nodes" "tp \<le> length av"
    and com: "commit_replica info \<lparr>rp_model_id = i, rp_tp = tp,
         rp_mem_per_gpu = align_up (sz div int tp), rp_score = 0, rp_worker_ids = []\<rparr> (take tp av) pl = Inr plx"
  shows "\<exists>P'. P \<subseteq> P' \<and> place_inv rel info g mem0 E P' plx"
proof -
  let ?r = "\<lparr>rp_model_id = i, rp_tp = tp, rp_mem_per_gpu = align_up (sz div int tp), rp_score = 0,
    rp_worker_ids = []\<rparr>"
  note nd = node_gpus_nodes [OF nodes [unfolded rr_candidates_def] av(1)]
  have len: "length (pl_gpu_mem pl) = length mem0" using inv by (simp add: place_inv_def)
  have sub: "set (take tp av) \<subseteq> set av" by (rule set_take_subset)
  have fit: "\<forall>w \<in> set (take tp av). w < length mem0 \<and> rp_mem_per_gpu ?r \<le> pl_gpu_mem pl ! w"
    using nd sub len by auto
  have rel: "\<forall>r' \<in> P. set (rp_worker_ids r') \<inter> set (take tp av) \<noteq> {}
      \<longrightarrow> rel r' (?r\<lparr>rp_worker_ids := take tp av\<rparr>)
        \<and> rel (?r\<lparr>rp_worker_ids := take tp av\<rparr>) r'"
  proof (intro ballI impI)
    fix r' assume r': "r' \<in> P" and "set (rp_worker_ids r') \<inter> set (take tp av) \<noteq> {}"
    then obtain w where w: "w \<in> set (take tp av)" "w \<in> set (rp_worker_ids r')" by auto
    then have "r' \<in> set (pl_covered pl ! w)" using inv r' fit by (auto simp: place_inv_def)
    moreover have "w \<in> set av" using w sub by auto
    ultimately have "rp_model_id r' \<noteq> i" using nd by auto
    then show "rel r' (?r\<lparr>rp_worker_ids := take tp av\<rparr>)
        \<and> rel (?r\<lparr>rp_worker_ids := take tp av\<rparr>) r'"
      by (auto simp: other_model_def intro!: impl)
  qed
  have server: "\<exists>server. \<forall>w \<in> set (take tp av). w div g = server"
    using nd sub sc(2) by (metis subsetD)
  have "from_config info ?r" using i by (auto simp: from_config_def)
  moreover have "length (take tp av) = rp_tp ?r" "distinct (take tp av)" using av nd by auto
  ultimately show ?thesis
    using commit_replica_inv [OF inv com _ keys _ _ fit server rel] by blast
qed

lemma round_robin_inv:
  assumes "round_robin sc totals i pl = Inr pl'" and "place_inv rel info g mem0 E P pl"
    and "sc_model_info sc = info" "sc_num_gpu_per_server sc = g" and "distinct (map fst info)"
    and "\<And>r r'. other_model r r' \<Longrightarrow> rel r r'"
  shows "\<exists>P'. P \<subseteq> P' \<and> place_inv rel info g mem0 E P' pl'"
  using assms
proof (induction "sum_list totals" arbitrary: totals i pl P rule: less_induct)
  case less
  show ?case
  proof (cases "i < length totals \<and> totals ! i \<noteq> 0")
    case False
    then have "pl' = pl" using less.prems(1) by (auto simp: round_robin.simps [of sc totals i pl] split: if_splits)
    with less.prems(2) show ?thesis by blast
  next
    case True
    then have i: "i < length totals" "totals ! i \<noteq> 0" by auto
    from less.prems(1) i(2,1) show ?thesis
    proof (cases rule: round_robin_step)
      case stop
      with less.prems(2) show ?thesis by blast
    next
      case (place m sz tp nodes av plx)
      obtain P1 where P1: "P \<subseteq> P1" "place_inv rel info g mem0 E P1 plx"
        using rr_commit_inv [OF less.prems(2,6,3,4,5), of i m sz tp nodes av plx] place less.prems(3) by auto
      from place(8) show ?thesis
      proof
        assume "plx = pl'"
        with P1 show ?thesis by blast
      next
        assume rec: "round_robin sc (totals[i := totals ! i - 1])
          ((i + 1) mod length (sc_model_info sc)) plx = Inr pl'"
        have "sum_list (totals[i := totals ! i - 1]) < sum_list totals"
          using i sum_list_decrement by simp
        from less.hyps [OF this rec P1(2) less.prems(3-6)] P1(1) show ?thesis by (meson order_trans)
      qed
    qed
  qed
qed

end
