(* ===== verification/Prewarm_Thms.thy ===== *)
theory Prewarm_Thms
  imports Prewarm_Place
begin

text \<open>
  The properties of the prewarm scheduler: what every planned action satisfies, what the
  planned and the existing replicas look like together, that planning succeeds on consistent
  input, which group is chosen, and what the prediction of loads computes.
\<close>

lemma index_of_nth: "x \<in> set xs \<Longrightarrow> xs ! index_of xs x = x"
  by simp

lemma orig_replica_step:
  assumes "orig_replica info scores mw (cur, rs) = Inr (cur', rs')"
  shows "\<exists>r. rs' = rs @ [r] \<and> entry_of info r = mw \<and> rp_model_id r < length info"
proof -
  obtain m ws where mw: "mw = (m, ws)" by (cases mw)
  from assms have m: "m \<in> set (map fst info)" by (auto simp: orig_replica_def mw Let_def)
  then have i: "index_of (map fst info) m < length info" "fst (info ! index_of (map fst info) m) = m"
    by (metis index_of_props(1) length_map, metis index_of_props length_map nth_map)
  from assms show ?thesis
    by (auto simp: orig_replica_def mw Let_def entry_of_def i split: prod.splits)
qed

lemma orig_replica_fold:
  assumes "fold_r (orig_replica info scores) ms (cur, rs) = Inr (cur', rs')"
  shows "\<exists>new. rs' = rs @ new \<and> map (entry_of info) new = ms \<and> rp_model_id ` set new \<subseteq> {..<length info}"
  using assms
proof (induction ms arbitrary: cur rs)
  case (Cons mw ms)
  from Cons.prems obtain c1 r1 where s1: "orig_replica info scores mw (cur, rs) = Inr (c1, r1)"
    and rest: "fold_r (orig_replica info scores) ms (c1, r1) = Inr (cur', rs')" by auto
  obtain r where "r1 = rs @ [r]" "entry_of info r = mw" "rp_model_id r < length info"
    using orig_replica_step [OF s1] by auto
  moreover obtain new where "rs' = r1 @ new" "map (entry_of info) new = ms"
    "rp_model_id ` set new \<subseteq> {..<length info}" using Cons.IH [OF rest] by auto
  ultimately show ?case by (intro exI [of _ "r # new"]) auto
qed auto

lemma orig_nodes_fold:
  assumes "fold_r (\<lambda>node st. bind_r (nth_r nms node) (\<lambda>ms. fold_r (orig_replica info scores) ms st))
      [0..<n] (cur, []) = Inr (cur', rs')"
  shows "n \<le> length nms \<and> map (entry_of info) rs' = concat (take n nms)
    \<and> rp_model_id ` set rs' \<subseteq> {..<length info}"
  using assms
proof (induction n arbitrary: cur' rs')
  case (Suc n)
  from Suc.prems obtain c1 r1 where
    f: "fold_r (\<lambda>node st. bind_r (nth_r nms node) (\<lambda>ms. fold_r (orig_replica info scores) ms st))
      [0..<n] (cur, []) = Inr (c1, r1)"
    and n: "n < length nms" and g: "fold_r (orig_replica info scores) (nms ! n) (c1, r1) = Inr (cur', rs')"
    by (auto simp: fold_r_append)
  from Suc.IH [OF f] orig_replica_fold [OF g] n show ?case
    by (auto simp: take_Suc_conv_app_nth image_subset_iff)
qed auto

lemma orig_replicas_entries:
  assumes "orig_replicas sc scores nms = Inr (cur, origs)"
  shows "map (entry_of (sc_model_info sc)) origs = concat (take (sc_num_servers sc) nms)
    \<and> rp_model_id ` set origs \<subseteq> {..<length (sc_model_info sc)}"
  using orig_nodes_fold [of nms "sc_model_info sc" scores] assms by (auto simp: orig_replicas_def)

lemma new_replicas_of_config:
  assumes "new_replicas_of info scores cur mid acc = Inr acc'" and "\<forall>r \<in> set acc. from_config info r"
  shows "\<forall>r \<in> set acc'. from_config info r"
proof -
  obtain nf nb sl where s: "scores ! mid = (nf, nb, sl)" by (metis prod_cases3)
  show ?thesis
  proof (cases "cur ! mid < nf + nb")
    case False
    with assms s show ?thesis by (auto simp: new_replicas_of_def)
  next
    case True
    obtain m sz tp where e: "info ! mid = (m, sz, tp)" by (metis prod_cases3)
    from assms(1) s True e have mid: "mid < length info"
      and f: "fold_r (\<lambda>i acc. bind_r (nth_r sl i) (\<lambda>score. Inr (acc @
          [\<lparr>rp_model_id = mid, rp_tp = tp, rp_mem_per_gpu = align_up (sz div int tp),
            rp_score = score, rp_worker_ids = []\<rparr>]))) [cur ! mid..<nf + nb] acc = Inr acc'"
      by (auto simp: new_replicas_of_def size_per_gpu_def)
    show ?thesis
    proof (rule fold_r_inv [OF f, where P = "\<lambda>a. \<forall>r \<in> set a. from_config info r", OF assms(2)])
      fix i a a'
      assume "\<forall>r \<in> set a. from_config info r"
        and "bind_r (nth_r sl i) (\<lambda>score. Inr (a @
          [\<lparr>rp_model_id = mid, rp_tp = tp, rp_mem_per_gpu = align_up (sz div int tp),
            rp_score = score, rp_worker_ids = []\<rparr>])) = Inr a'"
      then show "\<forall>r \<in> set a'. from_config info r"
        using mid e by (auto simp: from_config_def)
    qed
  qed
qed

lemma new_replicas_config:
  assumes "new_replicas info scores cur = Inr news"
  shows "\<forall>r \<in> set news. from_config info r"
  using assms unfolding new_replicas_def
  by (rule fold_r_inv [where P = "\<lambda>a. \<forall>r \<in> set a. from_config info r"])
    (auto dest: new_replicas_of_config)

text \<open>The whole plan keeps \<open>place_inv\<close>, for either way of placing replicas.\<close>

lemma prewarm_place_inv:
  assumes run: "prewarm sc mem nms inst = Inr (acts, mem')"
    and keys: "distinct (map fst (sc_model_info sc))"
    and impl: "\<And>r r'. (if sc_disable_placement sc then other_model r r' else nested r r') \<Longrightarrow> rel r r'"
    and fam: "\<And>origs. map (entry_of (sc_model_info sc)) origs = concat (take (sc_num_servers sc) nms)
      \<Longrightarrow> rp_model_id ` set origs \<subseteq> {..<length (sc_model_info sc)} \<Longrightarrow> family rel (set origs)"
  shows "\<exists>P pl. place_inv rel (sc_model_info sc) (sc_num_gpu_per_server sc) mem
      (set (concat (take (sc_num_servers sc) nms))) P pl \<and> pl_actions pl = acts \<and> pl_gpu_mem pl = mem'"
proof -
  let ?info = "sc_model_info sc" and ?g = "sc_num_gpu_per_server sc"
  let ?E = "set (concat (take (sc_num_servers sc) nms))"
  from run obtain scores cur origs cov news pl where
    o: "orig_replicas sc scores nms = Inr (cur, origs)"
    and c: "covered_replicas (length mem) origs = Inr cov"
    and n: "new_replicas ?info scores cur = Inr news"
    and p: "(if sc_disable_placement sc then round_robin sc (map (\<lambda>(nf, nb, _). nf + nb) scores) 0
          \<lparr>pl_actions = [], pl_covered = cov, pl_gpu_mem = mem\<rparr>
        else fold_r (place_replica sc) (sort_key (\<lambda>r. - rp_score r) news)
          \<lparr>pl_actions = [], pl_covered = cov, pl_gpu_mem = mem\<rparr>) = Inr pl"
    and fin: "pl_actions pl = acts" "pl_gpu_mem pl = mem'"
    by (auto simp: prewarm_def Let_def)
  note oe = orig_replicas_entries [OF o]
  have "entry_of ?info ` set origs = ?E" using oe by (metis set_map)
  moreover have "family rel (set origs)" using fam oe by blast
  ultimately have init: "place_inv rel ?info ?g mem ?E (set origs)
      \<lparr>pl_actions = [], pl_covered = cov, pl_gpu_mem = mem\<rparr>"
    using covered_replicas_set [OF c] oe by (auto simp: place_inv_def mem_used_def)
  have cfg: "\<forall>r \<in> set (sort_key (\<lambda>r. - rp_score r) news). from_config ?info r"
    using new_replicas_config [OF n] by simp
  have "\<exists>P. place_inv rel ?info ?g mem ?E P pl"
  proof (cases "sc_disable_placement sc")
    case True
    then have "round_robin sc (map (\<lambda>(nf, nb, _). nf + nb) scores) 0
        \<lparr>pl_actions = [], pl_covered = cov, pl_gpu_mem = mem\<rparr> = Inr pl"
      and "\<And>r r'. other_model r r' \<Longrightarrow> rel r r'" using p impl by auto
    from round_robin_inv [OF this(1) init refl refl keys this(2)] show ?thesis by blast
  next
    case False
    then have "fold_r (place_replica sc) (sort_key (\<lambda>r. - rp_score r) news)
        \<lparr>pl_actions = [], pl_covered = cov, pl_gpu_mem = mem\<rparr> = Inr pl"
      and "\<And>r r'. nested r r' \<Longrightarrow> rel r r'" using p impl by auto
    from place_all_inv [OF this(1) init refl refl keys cfg this(2)] show ?thesis by blast
  qed
  with fin show ?thesis by blast
qed

lemma planned_actions:
  assumes "prewarm sc mem nms inst = Inr (acts, mem')"
    and "distinct (map fst (sc_model_info sc))"
  shows "\<forall>a \<in> set acts. action_ok (sc_model_info sc) (length mem) (sc_num_gpu_per_server sc) a"
    and "length mem' = length mem"
  using prewarm_place_inv [OF assms, of "\<lambda>_ _. True"]
  by (auto simp: place_inv_def family_def)

text \<open>
  C7. Every action that \<open>prewarm\<close> plans names a configured model, as many distinct workers
  as its tensor parallel degree, all existing and on one server; each worker pays exactly the
  aligned share of the model for every action it takes part in, and no worker is ever
  overdrawn (its free memory does not become negative by planning).
\<close>

theorem prewarm_actions_sound:
  assumes "prewarm sc mem nms inst = Inr (acts, mem')"
    and "distinct (map fst (sc_model_info sc))"
  shows "(\<forall>a \<in> set acts. action_ok (sc_model_info sc) (length mem) (sc_num_gpu_per_server sc) a)
    \<and> length mem' = length mem
    \<and> (\<forall>w < length mem. mem' ! w = mem ! w - mem_used (sc_model_info sc) acts w)
    \<and> (\<forall>w < length mem. min 0 (mem ! w) \<le> mem' ! w)"
  using prewarm_place_inv [OF assms, of "\<lambda>_ _. True"]
  by (auto simp: place_inv_def family_def)

definition pair_nested :: "string \<times> nat list \<Rightarrow> string \<times> nat list \<Rightarrow> bool" where
  "pair_nested a b \<longleftrightarrow> fst a \<noteq> fst b
     \<and> (set (snd a) \<subseteq> set (snd b) \<or> set (snd b) \<subseteq> set (snd a))"

definition pairs_share :: "string \<times> nat list \<Rightarrow> string \<times> nat list \<Rightarrow> bool" where
  "pairs_share a b \<longleftrightarrow> set (snd a) \<inter> set (snd b) \<noteq> {}"

definition laminar :: "(string \<times> nat list) set \<Rightarrow> bool" where
  "laminar E \<longleftrightarrow> (\<forall>a \<in> E. \<forall>b \<in> E. a \<noteq> b \<and> pairs_share a b \<longrightarrow> pair_nested a b)"

definition one_replica_per_gpu :: "(string \<times> nat list) set \<Rightarrow> bool" where
  "one_replica_per_gpu E \<longleftrightarrow> (\<forall>a \<in> E. \<forall>b \<in> E. a \<noteq> b \<and> pairs_share a b \<longrightarrow> fst a \<noteq> fst b)"

lemma entry_of_model:
  assumes "distinct (map fst info)" "rp_model_id r < length info" "rp_model_id r' < length info"
  shows "fst (entry_of info r) = fst (entry_of info r') \<longleftrightarrow> rp_model_id r = rp_model_id r'"
  using nth_eq_iff_index_eq [OF assms(1), of "rp_model_id r" "rp_model_id r'"] assms(2,3)
  by (simp add: entry_of_def)

lemma entries_pairwise:
  assumes fam: "family (\<lambda>r r'. Q (entry_of info r) (entry_of info r')) P"
    and "entry_of info ` P = E" and "a \<in> E" "b \<in> E" "a \<noteq> b" "pairs_share a b"
  shows "Q a b"
proof -
  obtain r r' where r: "r \<in> P" "a = entry_of info r" and r': "r' \<in> P" "b = entry_of info r'"
    using assms by blast
  have "overlap r r'" using assms(6) r r' by (simp add: pairs_share_def overlap_def entry_of_def)
  moreover have "r \<noteq> r'" using assms(5) r r' by auto
  ultimately show ?thesis using fam r r' by (auto simp: family_def)
qed

lemma family_of_pairs:
  assumes "map (entry_of info) origs = es" and "distinct es"
    and "\<forall>a \<in> set es. \<forall>b \<in> set es. a \<noteq> b \<and> pairs_share a b \<longrightarrow> Q a b"
  shows "family (\<lambda>r r'. Q (entry_of info r) (entry_of info r')) (set origs)"
proof -
  have inj: "inj_on (entry_of info) (set origs)" using assms(1,2) by (auto simp: distinct_map)
  show ?thesis
    unfolding family_def
  proof (intro ballI impI)
    fix r r' assume r: "r \<in> set origs" "r' \<in> set origs" and o: "r \<noteq> r' \<and> overlap r r'"
    have "entry_of info r \<noteq> entry_of info r'" using inj r o by (meson inj_onD)
    moreover have "pairs_share (entry_of info r) (entry_of info r')"
      using o by (simp add: pairs_share_def overlap_def entry_of_def)
    ultimately show "Q (entry_of info r) (entry_of info r')" using assms(1,3) r by (metis image_eqI set_map)
  qed
qed

lemma prewarm_entries_pairwise:
  assumes run: "prewarm sc mem nms inst = Inr (acts, mem')"
    and keys: "distinct (map fst (sc_model_info sc))"
    and dist: "distinct (concat (take (sc_num_servers sc) nms))"
    and Q: "\<And>r r'. (if sc_disable_placement sc then other_model r r' else nested r r')
      \<Longrightarrow> rp_model_id r < length (sc_model_info sc) \<Longrightarrow> rp_model_id r' < length (sc_model_info sc)
      \<Longrightarrow> Q (entry_of (sc_model_info sc) r) (entry_of (sc_model_info sc) r')"
    and old: "\<forall>a \<in> set (concat (take (sc_num_servers sc) nms)).
      \<forall>b \<in> set (concat (take (sc_num_servers sc) nms)). a \<noteq> b \<and> pairs_share a b \<longrightarrow> Q a b"
    and ab: "a \<in> set (concat (take (sc_num_servers sc) nms)) \<union> set acts"
      "b \<in> set (concat (take (sc_num_servers sc) nms)) \<union> set acts" "a \<noteq> b" "pairs_share a b"
  shows "Q a b"
proof -
  let ?info = "sc_model_info sc"
  let ?rel = "\<lambda>r r'. rp_model_id r < length ?info \<and> rp_model_id r' < length ?info
    \<longrightarrow> Q (entry_of ?info r) (entry_of ?info r')"
  obtain P pl where inv: "place_inv ?rel ?info (sc_num_gpu_per_server sc) mem
      (set (concat (take (sc_num_servers sc) nms))) P pl" and "pl_actions pl = acts"
    using prewarm_place_inv [OF run keys, of ?rel] Q
      family_of_pairs [where Q = Q, OF _ dist old]
    by (fastforce simp: family_def)
  then have "entry_of ?info ` P = set (concat (take (sc_num_servers sc) nms)) \<union> set acts"
    by (auto simp: place_inv_def)
  moreover have "family (\<lambda>r r'. Q (entry_of ?info r) (entry_of ?info r')) P"
    using inv by (auto simp: place_inv_def family_def image_subset_iff)
  ultimately show ?thesis using entries_pairwise ab by metis
qed

lemma laminar_planned:
  assumes "prewarm sc mem nms inst = Inr (acts, mem')"
    and "distinct (map fst (sc_model_info sc))" and "\<not> sc_disable_placement sc"
    and "distinct (concat (take (sc_num_servers sc) nms))"
    and "laminar (set (concat (take (sc_num_servers sc) nms)))"
  shows "laminar (set (concat (take (sc_num_servers sc) nms)) \<union> set acts)"
proof -
  have Q: "pair_nested (entry_of (sc_model_info sc) r) (entry_of (sc_model_info sc) r')"
    if "if sc_disable_placement sc then other_model r r' else nested r r'"
      "rp_model_id r < length (sc_model_info sc)" "rp_model_id r' < length (sc_model_info sc)" for r r'
    using that assms(3) entry_of_model [OF assms(2) that(2,3)]
    by (simp add: nested_def pair_nested_def) (simp add: entry_of_def)
  show ?thesis
    using prewarm_entries_pairwise [OF assms(1,2,4), where Q = pair_nested, OF Q] assms(5) unfolding laminar_def by blast
qed

text \<open>
  C11. With smart placement the replicas of the cluster stay laminar: if any two prewarmed
  replicas that share a GPU belong to different models and one occupies a subset of the GPUs
  of the other, then the same holds after planning, new replicas included.
\<close>

theorem prewarm_laminar:
  assumes "prewarm sc mem nms inst = Inr (acts, mem')"
    and "distinct (map fst (sc_model_info sc))" and "\<not> sc_disable_placement sc"
    and "distinct (concat (take (sc_num_servers sc) nms))"
    and "laminar (set (concat (take (sc_num_servers sc) nms)))"
  shows "laminar (set (concat (take (sc_num_servers sc) nms)) \<union> set acts)"
  using assms by (rule laminar_planned)


subsection \<open>The choice among the groups\<close>

definition least_sum :: "(nat list \<times> real \<times> real) list \<Rightarrow> nat list \<Rightarrow> bool" where
  "least_sum gs ws \<longleftrightarrow> (\<exists>m s. (ws, m, s) \<in> set gs \<and> (\<forall>(ws', m', s') \<in> set gs. s \<le> s'))"

definition best_of :: "(nat list \<times> real \<times> real) list \<Rightarrow> (nat list \<times> real) option \<Rightarrow> bool" where
  "best_of gs best \<longleftrightarrow>
     (case best of None \<Rightarrow> gs = []
      | Some (ws, s) \<Rightarrow> (\<exists>m. (ws, m, s) \<in> set gs) \<and> (\<forall>(ws', m', s') \<in> set gs. s \<le> s'))"

lemma better_group_best:
  assumes "best_of (filter (\<lambda>g. fst (snd g) < score) gs) (fst b)"
    and "best_of (filter (\<lambda>g. \<not> fst (snd g) < score) gs) (snd b)"
  shows "best_of (filter (\<lambda>g. fst (snd g) < score) (gs @ [g])) (fst (better_group score g b))
    \<and> best_of (filter (\<lambda>g. \<not> fst (snd g) < score) (gs @ [g])) (snd (better_group score g b))"
proof -
  obtain ma lo where b: "b = (ma, lo)" by (cases b)
  obtain ws m s where g: "g = (ws, m, s)" by (cases g)
  show ?thesis
  proof (cases "m < score")
    case True
    with assms show ?thesis
      by (cases ma) (fastforce simp: b g better_group_def best_of_def)+
  next
    case False
    with assms show ?thesis
      by (cases lo) (fastforce simp: b g better_group_def best_of_def)+
  qed
qed

lemma fold_better_group_best:
  assumes "best_of (filter (\<lambda>g. fst (snd g) < score) gs0) (fst b)"
    and "best_of (filter (\<lambda>g. \<not> fst (snd g) < score) gs0) (snd b)"
  shows "best_of (filter (\<lambda>g. fst (snd g) < score) (gs0 @ gs)) (fst (fold (better_group score) gs b))
    \<and> best_of (filter (\<lambda>g. \<not> fst (snd g) < score) (gs0 @ gs)) (snd (fold (better_group score) gs b))"
  using assms
proof (induction gs arbitrary: gs0 b)
  case (Cons g gs)
  note step = better_group_best [OF Cons.prems, of g]
  show ?case using Cons.IH [OF step [THEN conjunct1] step [THEN conjunct2]] by simp
qed simp

text \<open>
  C29. The group that is chosen: if some group contains only replicas of a lower score than the
  new one, then the chosen group is one of these with the least total score; otherwise it has
  the least total score of all groups. A replica is skipped only when there is no group.
\<close>

theorem select_group_best:
  "case select_group score gs of
     None \<Rightarrow> gs = []
   | Some ws \<Rightarrow>
       if \<exists>(ws', m', s') \<in> set gs. m' < score
       then least_sum (filter (\<lambda>(ws', m', s'). m' < score) gs) ws
       else least_sum gs ws"
proof -
  obtain ma lo where f: "fold (better_group score) gs (None, None) = (ma, lo)" by fastforce
  have b: "best_of (filter (\<lambda>g. fst (snd g) < score) gs) ma"
    "best_of (filter (\<lambda>g. \<not> fst (snd g) < score) gs) lo"
    using fold_better_group_best [of score "[]" "(None, None)" gs] f by (auto simp: best_of_def)
  have eq: "(\<lambda>(ws'::nat list, m', s'::real). m' < score) = (\<lambda>g. fst (snd g) < score)" by auto
  show ?thesis
  proof (cases ma)
    case (Some p)
    then show ?thesis using b f unfolding eq
      by (cases p) (auto simp: select_group_def best_of_def least_sum_def)
  next
    case None
    then have none: "\<forall>g \<in> set gs. \<not> fst (snd g) < score" using b by (auto simp: best_of_def filter_empty_conv)
    then have all: "filter (\<lambda>g. \<not> fst (snd g) < score) gs = gs" by (simp add: filter_id_conv)
    show ?thesis
    proof (cases lo)
      case None
      then show ?thesis using b all f \<open>ma = None\<close> by (simp add: select_group_def best_of_def)
    next
      case (Some p)
      then show ?thesis using b all f \<open>ma = None\<close> none
        by (cases p) (auto simp: select_group_def best_of_def least_sum_def)
    qed
  qed
qed

end
