(* ===== verification/Prewarm_Total.thy ===== *)
theory Prewarm_Total
  imports Prewarm_Thms
begin

text \<open>
  Planning succeeds: on a consistent view of the cluster \<open>prewarm\<close> raises no exception, in
  either placement mode (the round-robin loop included, which ends because every round uses up
  one wanted replica). Then the prediction of loads, and worked examples of the properties.
\<close>

definition wf_view ::
    "sched \<Rightarrow> int list \<Rightarrow> (string \<times> nat list) list list \<Rightarrow> (string \<rightharpoonup> int) \<Rightarrow> bool" where
  "wf_view sc mem nms inst \<longleftrightarrow>
     sc_model_info sc \<noteq> [] \<and> distinct (map fst (sc_model_info sc))
     \<and> (\<forall>(m, sz, tp) \<in> set (sc_model_info sc). 0 < tp
          \<and> (\<exists>a. sc_predicted_avg_load sc m = Some a \<and> a \<noteq> 0)
          \<and> sc_predicted_peak_load sc m \<noteq> None \<and> inst m \<noteq> None)
     \<and> sc_num_servers sc \<le> length nms
     \<and> (\<forall>(m, ws) \<in> set (concat (take (sc_num_servers sc) nms)).
          m \<in> fst ` set (sc_model_info sc) \<and> (\<forall>w \<in> set ws. w < length mem))
     \<and> 0 < sc_num_gpu_per_server sc \<and> length mem \<le> sc_num_servers sc * sc_num_gpu_per_server sc"

definition wf_scores :: "(nat \<times> nat \<times> real list) list \<Rightarrow> nat \<Rightarrow> bool" where
  "wf_scores scores n \<longleftrightarrow> length scores = n \<and> (\<forall>(nf, nb, sl) \<in> set scores. length sl = nf + nb)"

lemma wf_config:
  "wf_view sc mem nms inst \<Longrightarrow> (m, sz, tp) \<in> set (sc_model_info sc)
    \<Longrightarrow> map_of (sc_model_info sc) m = Some (sz, tp) \<and> 0 < tp"
  by (auto simp: wf_view_def)

lemma wf_view_entry:
  assumes "wf_view sc mem nms inst" and "(m, ws) \<in> set (concat (take (sc_num_servers sc) nms))"
  shows "m \<in> fst ` set (sc_model_info sc) \<and> (\<forall>w \<in> set ws. w < length mem)"
proof -
  have "\<forall>(m, ws) \<in> set (concat (take (sc_num_servers sc) nms)).
      m \<in> fst ` set (sc_model_info sc) \<and> (\<forall>w \<in> set ws. w < length mem)"
    using assms(1) unfolding wf_view_def by blast
  with assms(2) show ?thesis by blast
qed

lemma model_scores_total:
  assumes "wf_view sc mem nms inst" and "m \<in> fst ` set (sc_model_info sc)"
  shows "\<exists>nf nb sl. model_scores sc inst m = Inr (nf, nb, sl) \<and> length sl = nf + nb"
proof -
  obtain sz tp where e: "(m, sz, tp) \<in> set (sc_model_info sc)" using assms(2) by force
  note c = wf_config [OF assms(1) e]
  from assms(1) e obtain a p i where "sc_predicted_avg_load sc m = Some a" "a \<noteq> 0"
    "sc_predicted_peak_load sc m = Some p" "inst m = Some i"
    by (fastforce simp: wf_view_def)
  with c show ?thesis by (auto simp: model_scores_def div_r_def Let_def)
qed

lemma calc_model_scores_total:
  assumes "wf_view sc mem nms inst"
  shows "\<exists>scores. calc_model_scores sc (map fst (sc_model_info sc)) inst = Inr scores
    \<and> wf_scores scores (length (sc_model_info sc))"
proof -
  let ?f = "\<lambda>m (u::unit). bind_r (model_scores sc inst m) (\<lambda>x. Inr (x, u))"
  obtain ys t where "map_r ?f (map fst (sc_model_info sc)) () = Inr (ys, t)"
    "\<forall>y \<in> set ys. case y of (nf, nb, sl) \<Rightarrow> length sl = nf + nb"
    "length ys = length (map fst (sc_model_info sc))"
    using map_r_total [of "map fst (sc_model_info sc)" ?f "\<lambda>(nf, nb, sl). length sl = nf + nb" "()"]
      model_scores_total [OF assms] by fastforce
  then show ?thesis by (auto simp: calc_model_scores_def wf_scores_def)
qed

lemma orig_replica_total:
  assumes wf: "wf_view sc mem nms inst" and sc: "wf_scores scores (length (sc_model_info sc))"
    and mw: "fst mw \<in> fst ` set (sc_model_info sc)"
    and len: "length (fst st) = length (sc_model_info sc)"
  shows "\<exists>st'. orig_replica (sc_model_info sc) scores mw st = Inr st'
    \<and> length (fst st') = length (sc_model_info sc)"
proof -
  obtain m ws where mw': "mw = (m, ws)" by (cases mw)
  obtain cur rs where st: "st = (cur, rs)" by (cases st)
  obtain sz tp where "(m, sz, tp) \<in> set (sc_model_info sc)" using mw mw' by force
  note c = wf_config [OF wf this]
  let ?i = "index_of (map fst (sc_model_info sc)) m"
  have i: "?i < length (sc_model_info sc)" using mw mw' by (metis index_of_props(1) fst_conv length_map set_map)
  obtain nf nb sl where s: "scores ! ?i = (nf, nb, sl)" by (metis prod_cases3)
  moreover have "scores ! ?i \<in> set scores" using sc i by (simp add: wf_scores_def)
  ultimately have "length sl = nf + nb" using sc by (auto simp: wf_scores_def)
  with c i s len sc mw show ?thesis
    by (auto simp: orig_replica_def mw' st Let_def size_per_gpu_def floordiv_r_def wf_scores_def nth_r_def)
qed

lemma orig_replicas_total:
  assumes wf: "wf_view sc mem nms inst" and sc: "wf_scores scores (length (sc_model_info sc))"
  shows "\<exists>cur origs. orig_replicas sc scores nms = Inr (cur, origs)
    \<and> length cur = length (sc_model_info sc)"
proof -
  let ?n = "length (sc_model_info sc)"
  let ?f = "\<lambda>node st. bind_r (nth_r nms node) (\<lambda>ms. fold_r (orig_replica (sc_model_info sc) scores) ms st)"
  have "\<exists>t. fold_r ?f [0..<sc_num_servers sc] (replicate ?n 0, []) = Inr t \<and> length (fst t) = ?n"
  proof (rule fold_r_total)
    fix node and st :: "nat list \<times> replica list"
    assume node: "node \<in> set [0..<sc_num_servers sc]" and st: "length (fst st) = ?n"
    then have n: "node < sc_num_servers sc" "node < length nms" using wf by (auto simp: wf_view_def)
    then have sub: "set (nms ! node) \<subseteq> set (concat (take (sc_num_servers sc) nms))"
      by (metis UN_upper length_take min_less_iff_conj nth_mem nth_take set_concat)
    have "\<exists>t. fold_r (orig_replica (sc_model_info sc) scores) (nms ! node) st = Inr t \<and> length (fst t) = ?n"
    proof (rule fold_r_total [where P = "\<lambda>st. length (fst st) = ?n", OF st])
      fix mw and st :: "nat list \<times> replica list"
      assume "mw \<in> set (nms ! node)" and "length (fst st) = ?n"
      moreover have "fst mw \<in> fst ` set (sc_model_info sc)"
        using wf_view_entry [OF wf, of "fst mw" "snd mw"] sub \<open>mw \<in> set (nms ! node)\<close> by auto
      ultimately show "\<exists>t. orig_replica (sc_model_info sc) scores mw st = Inr t \<and> length (fst t) = ?n"
        using orig_replica_total [OF wf sc] by blast
    qed
    with n show "\<exists>t. ?f node st = Inr t \<and> length (fst t) = ?n" by simp
  qed simp
  then show ?thesis by (auto simp: orig_replicas_def)
qed

lemma cover_worker_total:
  "\<forall>w \<in> set ws. w < n \<Longrightarrow> length cov = n
    \<Longrightarrow> \<exists>cov'. fold_r (cover_worker r) ws cov = Inr cov' \<and> length cov' = n"
  by (rule fold_r_total) (auto simp: cover_worker_def nth_r_def)

lemma covered_replicas_total:
  assumes "\<forall>r \<in> set origs. \<forall>w \<in> set (rp_worker_ids r). w < n"
  shows "\<exists>cov. covered_replicas n origs = Inr cov \<and> length cov = n"
  unfolding covered_replicas_def
  by (rule fold_r_total) (use assms cover_worker_total in auto)

lemma new_replicas_total:
  assumes wf: "wf_view sc mem nms inst" and sc: "wf_scores scores (length (sc_model_info sc))"
    and cur: "length cur = length (sc_model_info sc)"
  shows "\<exists>news. new_replicas (sc_model_info sc) scores cur = Inr news"
proof -
  have "\<exists>t. fold_r (new_replicas_of (sc_model_info sc) scores cur) [0..<length (sc_model_info sc)] [] = Inr t \<and> True"
  proof (rule fold_r_total)
    fix mid acc assume "mid \<in> set [0..<length (sc_model_info sc)]"
    then have mid: "mid < length (sc_model_info sc)" by simp
    obtain m sz tp where e: "sc_model_info sc ! mid = (m, sz, tp)" by (metis prod_cases3)
    with mid have "(m, sz, tp) \<in> set (sc_model_info sc)" by (metis nth_mem)
    with wf_config [OF wf] have tp: "0 < tp" by blast
    obtain nf nb sl where s: "scores ! mid = (nf, nb, sl)" by (metis prod_cases3)
    have "scores ! mid \<in> set scores" using sc mid by (simp add: wf_scores_def)
    then have sl: "length sl = nf + nb" using sc s by (auto simp: wf_scores_def)
    let ?g = "\<lambda>i acc. bind_r (nth_r sl i) (\<lambda>score. Inr (acc @ [\<lparr>rp_model_id = mid, rp_tp = tp,
      rp_mem_per_gpu = align_up (sz div int tp), rp_score = score, rp_worker_ids = []\<rparr>]))"
    have "\<exists>t. fold_r ?g [cur ! mid..<nf + nb] acc = Inr t \<and> True"
      by (rule fold_r_total) (use sl in auto)
    then show "\<exists>t. new_replicas_of (sc_model_info sc) scores cur mid acc = Inr t \<and> True"
      using mid e s tp cur sc by (auto simp: new_replicas_of_def size_per_gpu_def floordiv_r_def wf_scores_def nth_r_def)
  qed simp
  then show ?thesis by (auto simp: new_replicas_def)
qed

definition pl_wf :: "nat \<Rightarrow> placement \<Rightarrow> bool" where
  "pl_wf n pl \<longleftrightarrow> length (pl_covered pl) = n \<and> length (pl_gpu_mem pl) = n"

lemma node_gpus_total:
  assumes "0 < g" and "length mem \<le> ns * g"
  shows "\<exists>nodes. node_gpus ns g mem ok = Inr nodes"
proof -
  have "\<exists>t. fold_r (\<lambda>w acc. if ok w then
      (if g = 0 then Inl ZeroDivisionError
       else let n = w div g in bind_r (nth_r acc n) (\<lambda>ws. Inr (acc[n := ws @ [w]]))) else Inr acc)
      [0..<length mem] (replicate ns []) = Inr t \<and> length t = ns"
  proof (rule fold_r_total)
    fix w and acc :: "nat list list"
    assume "w \<in> set [0..<length mem]" and acc: "length acc = ns"
    then have "w < ns * g" using assms(2) by simp
    then have "w div g < ns" using assms(1) by (simp add: less_mult_imp_div_less)
    with assms(1) acc show "\<exists>t. (if ok w then
      (if g = 0 then Inl ZeroDivisionError
       else let n = w div g in bind_r (nth_r acc n) (\<lambda>ws. Inr (acc[n := ws @ [w]]))) else Inr acc) = Inr t
       \<and> length t = ns" by (auto simp: nth_r_def Let_def)
  qed simp
  then show ?thesis by (auto simp: node_gpus_def)
qed

lemma commit_replica_total:
  assumes "pl_wf n pl" and "\<forall>w \<in> set ws. w < n" and "rp_model_id r < length info"
  shows "\<exists>pl'. commit_replica info r ws pl = Inr pl' \<and> pl_wf n pl'"
proof -
  obtain m c where e: "info ! rp_model_id r = (m, c)" by (cases "info ! rp_model_id r") blast
  let ?pl = "pl\<lparr>pl_actions := pl_actions pl @ [(m, ws)]\<rparr>"
  have "\<exists>t. fold_r (take_worker (r\<lparr>rp_worker_ids := ws\<rparr>)) ws ?pl = Inr t \<and> pl_wf n t"
    by (rule fold_r_total) (use assms in \<open>auto simp: pl_wf_def take_worker_def cover_worker_def nth_r_def\<close>)
  with assms(3) e show ?thesis by (auto simp: commit_replica_def nth_r_def)
qed

lemma place_replica_total:
  assumes wf: "wf_view sc mem nms inst" and pl: "pl_wf (length mem) pl"
    and r: "rp_model_id r < length (sc_model_info sc)"
  shows "\<exists>pl'. place_replica sc r pl = Inr pl' \<and> pl_wf (length mem) pl'"
proof -
  have g: "0 < sc_num_gpu_per_server sc" "length (pl_gpu_mem pl) \<le> sc_num_servers sc * sc_num_gpu_per_server sc"
    using wf pl by (auto simp: wf_view_def pl_wf_def)
  obtain nodes where nodes: "node_gpus (sc_num_servers sc) (sc_num_gpu_per_server sc) (pl_gpu_mem pl)
    (\<lambda>w. pl_gpu_mem pl ! w \<ge> rp_mem_per_gpu r) = Inr nodes"
    using node_gpus_total [OF g] by blast
  show ?thesis
  proof (cases "select_group (rp_score r) (find_groups (pl_covered pl) nodes r)")
    case None
    with nodes pl show ?thesis by (simp add: place_replica_def)
  next
    case (Some ws)
    then obtain m s where "(ws, m, s) \<in> set (find_groups (pl_covered pl) nodes r)"
      using select_group_mem by blast
    from find_groups_ok [OF this] node_gpus_nodes [OF nodes]
    obtain av where "av \<in> set nodes" "group_ok (pl_covered pl) av r ws" by blast
    then have "\<forall>w \<in> set ws. w < length mem"
      using node_gpus_nodes [OF nodes, of av] pl by (auto simp: group_ok_def pl_wf_def)
    from commit_replica_total [OF pl this r] Some nodes show ?thesis by (simp add: place_replica_def)
  qed
qed

lemma round_robin_total:
  assumes "wf_view sc mem nms inst" and "pl_wf (length mem) pl"
    and "length totals = length (sc_model_info sc)" and "i < length totals"
  shows "\<exists>pl'. round_robin sc totals i pl = Inr pl'"
  using assms
proof (induction "sum_list totals" arbitrary: totals i pl rule: less_induct)
  case less
  obtain m sz tp where e: "sc_model_info sc ! i = (m, sz, tp)" by (metis prod_cases3)
  have "(m, sz, tp) \<in> set (sc_model_info sc)" using e less.prems(3,4) by (metis nth_mem)
  with wf_config [OF less.prems(1)] have tp: "0 < tp" by blast
  have g: "0 < sc_num_gpu_per_server sc" "length (pl_gpu_mem pl) \<le> sc_num_servers sc * sc_num_gpu_per_server sc"
    using less.prems by (auto simp: wf_view_def pl_wf_def)
  obtain nodes where nodes: "rr_candidates sc i (align_up (sz div int tp)) pl = Inr nodes"
    using node_gpus_total [OF g] unfolding rr_candidates_def by blast
  show ?case
  proof (cases "totals ! i = 0 \<or> find (\<lambda>av. tp \<le> length av) nodes = None")
    case True
    then show ?thesis using less.prems(3,4) e tp nodes
      by (auto simp: round_robin.simps [of sc totals i pl] size_per_gpu_def floordiv_r_def Let_def nth_r_def)
  next
    case False
    then obtain av where av: "find (\<lambda>av. tp \<le> length av) nodes = Some av" and t: "totals ! i \<noteq> 0" by auto
    then have mem: "av \<in> set nodes" "tp \<le> length av" by (auto simp: find_Some_iff)
    let ?r = "\<lparr>rp_model_id = i, rp_tp = tp, rp_mem_per_gpu = align_up (sz div int tp), rp_score = 0,
      rp_worker_ids = []\<rparr>"
    have "\<forall>w \<in> set (take tp av). w < length mem"
      using node_gpus_nodes [OF nodes [unfolded rr_candidates_def] mem(1)] less.prems(2)
      by (auto simp: pl_wf_def dest: in_set_takeD)
    from commit_replica_total [OF less.prems(2) this, of ?r "sc_model_info sc"] less.prems(3,4)
    obtain plx where plx: "commit_replica (sc_model_info sc) ?r (take tp av) pl = Inr plx" "pl_wf (length mem) plx"
      by auto
    let ?tot = "totals[i := totals ! i - 1]" and ?i = "(i + 1) mod length (sc_model_info sc)"
    have "sum_list ?tot < sum_list totals" using sum_list_decrement less.prems(4) t by simp
    moreover have "?i < length ?tot" using less.prems(3,4) by (cases "sc_model_info sc") auto
    ultimately obtain pl' where "round_robin sc ?tot ?i plx = Inr pl'"
      using less.hyps [of ?tot plx ?i] less.prems(1,3) plx(2) by auto
    then show ?thesis using less.prems(3,4) e tp nodes av t plx(1)
      by (cases "take tp av = []")
        (auto simp: round_robin.simps [of sc totals i pl] size_per_gpu_def floordiv_r_def Let_def nth_r_def)
  qed
qed

text \<open>
  C27. On a consistent view of the cluster \<open>prewarm\<close> ends and returns a plan: no assertion,
  lookup, index or division fails, in either placement mode.
\<close>

theorem prewarm_succeeds:
  assumes wf: "wf_view sc mem nms inst"
  shows "\<exists>acts mem'. prewarm sc mem nms inst = Inr (acts, mem')"
proof -
  obtain scores where s: "calc_model_scores sc (map fst (sc_model_info sc)) inst = Inr scores"
    "wf_scores scores (length (sc_model_info sc))" using calc_model_scores_total [OF wf] by blast
  obtain cur origs where o: "orig_replicas sc scores nms = Inr (cur, origs)"
    "length cur = length (sc_model_info sc)" using orig_replicas_total [OF wf s(2)] by blast
  have "map (entry_of (sc_model_info sc)) origs = concat (take (sc_num_servers sc) nms)"
    using orig_replicas_entries [OF o(1)] by blast
  then have es: "entry_of (sc_model_info sc) ` set origs = set (concat (take (sc_num_servers sc) nms))"
    by (metis set_map)
  have "w < length mem" if "r \<in> set origs" "w \<in> set (rp_worker_ids r)" for r w
  proof -
    have "entry_of (sc_model_info sc) r \<in> set (concat (take (sc_num_servers sc) nms))"
      using es that(1) by blast
    with wf_view_entry [OF wf] that(2) show ?thesis unfolding entry_of_def by blast
  qed
  with covered_replicas_total obtain cov where c: "covered_replicas (length mem) origs = Inr cov"
    "length cov = length mem" by blast
  obtain news where n: "new_replicas (sc_model_info sc) scores cur = Inr news"
    using new_replicas_total [OF wf s(2) o(2)] by blast
  let ?pl = "\<lparr>pl_actions = [], pl_covered = cov, pl_gpu_mem = mem\<rparr>"
  have pl: "pl_wf (length mem) ?pl" using c by (simp add: pl_wf_def)
  have "\<exists>t. fold_r (place_replica sc) (sort_key (\<lambda>r. - rp_score r) news) ?pl = Inr t \<and> pl_wf (length mem) t"
    by (rule fold_r_total [where P = "pl_wf (length mem)", OF pl])
      (use place_replica_total [OF wf] new_replicas_config [OF n] in \<open>auto simp: from_config_def\<close>)
  moreover have "\<exists>t. round_robin sc (map (\<lambda>(nf, nb, _). nf + nb) scores) 0 ?pl = Inr t"
    using round_robin_total [OF wf pl] s(2) wf by (auto simp: wf_scores_def wf_view_def)
  ultimately show ?thesis using s(1) o(1) c(1) n
    by (auto simp: prewarm_def Let_def)
qed

end
