(* ===== verification/Prewarm_Predict.thy ===== *)
theory Prewarm_Predict
  imports Prewarm_Total
begin

text \<open>
  The prediction of \<open>update_loads\<close>: the load expected in the next window is the load of
  previous days in that window, corrected by the weighted mean of the errors of the last ten
  windows. Then worked examples (witnesses) of the properties of the scheduler.
\<close>

lemma prefix_sums_nth:
  "k < length ws \<Longrightarrow> prefix_sums acc ws ! k = acc + (\<Sum>i\<le>k. ws ! i)"
proof (induction ws arbitrary: acc k)
  case (Cons w ws)
  show ?case
  proof (cases k)
    case (Suc j)
    with Cons show ?thesis by (simp add: sum.atMost_Suc_shift del: sum.atMost_Suc)
  qed simp
qed simp

definition weight_sum :: "nat \<Rightarrow> real" where
  "weight_sum n = (\<Sum>\<delta><n. 1 / 2 ^ \<delta>)"

lemma sum_weights_nth: "0 < n \<Longrightarrow> n \<le> num_sample_point \<Longrightarrow> sum_weights ! (n - 1) = weight_sum n"
  by (cases n) (simp_all add: sum_weights_def prefix_sums_nth weights_def num_sample_point_def
      weight_sum_def lessThan_Suc_atMost)

lemma weight_sum_pos: "0 < n \<Longrightarrow> 0 < weight_sum n"
  unfolding weight_sum_def by (rule sum_pos) auto

lemma weighted_diff_sum:
  assumes "weighted_diff rec past w n = Inr s" and "n \<le> num_sample_point"
  shows "s = (\<Sum>\<delta><n. (rec ! (w - \<delta>) - past ! (w - \<delta>)) * (1 / 2 ^ \<delta>))"
  using assms
proof (induction n arbitrary: s)
  case 0
  then show ?case by (simp add: weighted_diff_def)
next
  case (Suc n)
  from Suc.prems obtain s1 where "weighted_diff rec past w n = Inr s1"
    and "s = s1 + (rec ! (w - n) - past ! (w - n)) * weights ! n"
    by (auto simp: weighted_diff_def fold_r_append)
  with Suc show ?case by (simp add: weights_def num_sample_point_def)
qed

lemma weighted_mean_bounds:
  fixes f :: "nat \<Rightarrow> real"
  assumes "0 < n" and "\<forall>\<delta><n. lo \<le> f \<delta> \<and> f \<delta> \<le> hi"
  shows "lo \<le> (\<Sum>\<delta><n. f \<delta> * (1 / 2 ^ \<delta>)) / weight_sum n
    \<and> (\<Sum>\<delta><n. f \<delta> * (1 / 2 ^ \<delta>)) / weight_sum n \<le> hi"
proof -
  have "lo * weight_sum n \<le> (\<Sum>\<delta><n. f \<delta> * (1 / 2 ^ \<delta>))"
    unfolding weight_sum_def sum_distrib_left
    by (rule sum_mono) (use assms in \<open>auto intro: mult_right_mono divide_right_mono\<close>)
  moreover have "(\<Sum>\<delta><n. f \<delta> * (1 / 2 ^ \<delta>)) \<le> hi * weight_sum n"
    unfolding weight_sum_def sum_distrib_left
    by (rule sum_mono) (use assms in \<open>auto intro: mult_right_mono divide_right_mono\<close>)
  ultimately show ?thesis using weight_sum_pos [OF assms(1)]
    by (simp add: pos_le_divide_eq pos_divide_le_eq)
qed

text \<open>The entry of one model after its round of the loop; the others are not touched.\<close>

definition model_predicted ::
    "real list \<Rightarrow> real list \<Rightarrow> nat \<Rightarrow> real" where
  "model_predicted rec past w =
     (let n = min num_sample_point (w + 1)
      in past ! (w + 1) + (\<Sum>\<delta><n. (rec ! (w - \<delta>) - past ! (w - \<delta>)) * (1 / 2 ^ \<delta>)) / weight_sum n)"

lemma update_model_load_this:
  assumes "update_model_load t m (sc, stats) = Inr (sc', stats')"
  shows "\<exists>st avgs peaks. stats m = Some st \<and> sc_past_avgs sc m = Some avgs \<and> sc_past_peaks sc m = Some peaks
    \<and> sc_recorded_avg_load sc' m = sc_recorded_avg_load sc m
        @ [(ms_sum_loads st + (t - ms_last_time st) * of_int (ms_num_reqs st)) / sc_window_size sc]
    \<and> sc_predicted_avg_load sc' m
        = Some (model_predicted (sc_recorded_avg_load sc' m) avgs (sc_cur_window_id sc))
    \<and> sc_predicted_peak_load sc' m
        = Some (model_predicted (sc_recorded_peak_load sc' m) peaks (sc_cur_window_id sc))
    \<and> stats' m = Some (st\<lparr>ms_last_time := t, ms_sum_loads := 0, ms_max_loads := 0\<rparr>)"
proof -
  let ?n = "min num_sample_point (sc_cur_window_id sc + 1)"
  have n: "0 < ?n" "?n \<le> num_sample_point" by (auto simp: num_sample_point_def)
  from assms obtain st avgs peaks sum_avg sum_peak where
    st: "stats m = Some st" "sc_past_avgs sc m = Some avgs" "sc_past_peaks sc m = Some peaks"
    and sums: "weighted_diff (sc_recorded_avg_load sc' m) avgs (sc_cur_window_id sc) ?n = Inr sum_avg"
      "weighted_diff (sc_recorded_peak_load sc' m) peaks (sc_cur_window_id sc) ?n = Inr sum_peak"
    and sc': "sc_recorded_avg_load sc' m = sc_recorded_avg_load sc m
        @ [(ms_sum_loads st + (t - ms_last_time st) * of_int (ms_num_reqs st)) / sc_window_size sc]"
      "sc_predicted_avg_load sc' m = Some (avgs ! (sc_cur_window_id sc + 1) + sum_avg / sum_weights ! (?n - 1))"
      "sc_predicted_peak_load sc' m = Some (peaks ! (sc_cur_window_id sc + 1) + sum_peak / sum_weights ! (?n - 1))"
      "stats' m = Some (st\<lparr>ms_last_time := t, ms_sum_loads := 0, ms_max_loads := 0\<rparr>)"
    by (auto simp: update_model_load_def Let_def)
  show ?thesis
    using st sc' weighted_diff_sum [OF sums(1) n(2)] weighted_diff_sum [OF sums(2) n(2)]
    unfolding sum_weights_nth [OF n] model_predicted_def Let_def by blast
qed

lemma update_model_load_frame:
  assumes "update_model_load t m (sc, stats) = Inr (sc', stats')"
  shows "sc_cur_window_id sc' = sc_cur_window_id sc \<and> sc_window_size sc' = sc_window_size sc
    \<and> sc_past_avgs sc' = sc_past_avgs sc \<and> sc_past_peaks sc' = sc_past_peaks sc
    \<and> (\<forall>k. k \<noteq> m \<longrightarrow> sc_recorded_avg_load sc' k = sc_recorded_avg_load sc k
        \<and> sc_recorded_peak_load sc' k = sc_recorded_peak_load sc k
        \<and> sc_predicted_avg_load sc' k = sc_predicted_avg_load sc k
        \<and> sc_predicted_peak_load sc' k = sc_predicted_peak_load sc k \<and> stats' k = stats k)"
  using assms by (auto simp: update_model_load_def Let_def)

definition updated_model ::
    "real \<Rightarrow> string \<Rightarrow> sched \<Rightarrow> (string \<rightharpoonup> model_status) \<Rightarrow> sched \<Rightarrow> (string \<rightharpoonup> model_status) \<Rightarrow> bool"
  where
  "updated_model t m sc stats sc' stats' \<longleftrightarrow>
     (\<exists>st avgs peaks. stats m = Some st \<and> sc_past_avgs sc m = Some avgs \<and> sc_past_peaks sc m = Some peaks
    \<and> sc_recorded_avg_load sc' m = sc_recorded_avg_load sc m
        @ [(ms_sum_loads st + (t - ms_last_time st) * of_int (ms_num_reqs st)) / sc_window_size sc]
    \<and> sc_predicted_avg_load sc' m
        = Some (model_predicted (sc_recorded_avg_load sc' m) avgs (sc_cur_window_id sc))
    \<and> sc_predicted_peak_load sc' m
        = Some (model_predicted (sc_recorded_peak_load sc' m) peaks (sc_cur_window_id sc))
    \<and> stats' m = Some (st\<lparr>ms_last_time := t, ms_sum_loads := 0, ms_max_loads := 0\<rparr>))"

lemma update_fold_frame:
  assumes "fold_r (update_model_load t) ms (sc, stats) = Inr (sc', stats')" and "m \<notin> set ms"
  shows "sc_recorded_avg_load sc' m = sc_recorded_avg_load sc m
        \<and> sc_recorded_peak_load sc' m = sc_recorded_peak_load sc m
        \<and> sc_predicted_avg_load sc' m = sc_predicted_avg_load sc m
        \<and> sc_predicted_peak_load sc' m = sc_predicted_peak_load sc m \<and> stats' m = stats m
        \<and> sc_cur_window_id sc' = sc_cur_window_id sc"
  using assms
proof (induction ms arbitrary: sc stats)
  case (Cons k ms)
  from Cons.prems(1) obtain sc1 stats1 where s: "update_model_load t k (sc, stats) = Inr (sc1, stats1)"
    and r: "fold_r (update_model_load t) ms (sc1, stats1) = Inr (sc', stats')" by auto
  from Cons.IH [OF r] update_model_load_frame [OF s] Cons.prems(2) show ?case by auto
qed auto

lemma update_fold_this:
  assumes "fold_r (update_model_load t) ms (sc, stats) = Inr (sc', stats')"
    and "m \<in> set ms" and "distinct ms"
  shows "updated_model t m sc stats sc' stats'"
  using assms
proof (induction ms arbitrary: sc stats)
  case (Cons k ms)
  from Cons.prems(1) obtain sc1 stats1 where s: "update_model_load t k (sc, stats) = Inr (sc1, stats1)"
    and r: "fold_r (update_model_load t) ms (sc1, stats1) = Inr (sc', stats')" by auto
  note fr = update_model_load_frame [OF s]
  show ?case
  proof (cases "m = k")
    case True
    then have "m \<notin> set ms" using Cons.prems(3) by simp
    from update_fold_frame [OF r this] update_model_load_this [OF s] True show ?thesis
      unfolding updated_model_def by auto
  next
    case False
    then have "updated_model t m sc1 stats1 sc' stats'" using Cons.IH [OF r] Cons.prems(2,3) by simp
    with fr False show ?thesis unfolding updated_model_def by auto
  qed
qed simp

text \<open>
  C30. When a window has passed, \<open>update_loads\<close> records its average load for every model,
  resets the model's accumulators, and predicts for the next window a load that lies between
  the history of that window plus the least and plus the greatest error of the last ten
  windows; before that it changes nothing.
\<close>

theorem update_loads_prediction:
  assumes run: "update_loads t sc stats = Inr (b, sc', stats')"
    and keys: "distinct (map fst (sc_model_info sc))" and m: "m \<in> fst ` set (sc_model_info sc)"
  shows "if t - sc_start_time sc < (of_nat (sc_cur_window_id sc) + 1) * sc_window_size sc
    then \<not> b \<and> sc' = sc \<and> stats' = stats
    else b \<and> sc_cur_window_id sc' = sc_cur_window_id sc + 1
      \<and> (\<exists>st st' past p. stats m = Some st \<and> stats' m = Some st'
          \<and> ms_last_time st' = t \<and> ms_sum_loads st' = 0 \<and> ms_max_loads st' = 0
          \<and> ms_num_reqs st' = ms_num_reqs st
          \<and> sc_recorded_avg_load sc' m = sc_recorded_avg_load sc m
             @ [(ms_sum_loads st + (t - ms_last_time st) * of_int (ms_num_reqs st)) / sc_window_size sc]
          \<and> sc_past_avgs sc m = Some past \<and> sc_predicted_avg_load sc' m = Some p
          \<and> (\<forall>lo hi. (\<forall>\<delta> < min num_sample_point (sc_cur_window_id sc + 1).
                 lo \<le> sc_recorded_avg_load sc' m ! (sc_cur_window_id sc - \<delta>) - past ! (sc_cur_window_id sc - \<delta>)
               \<and> sc_recorded_avg_load sc' m ! (sc_cur_window_id sc - \<delta>) - past ! (sc_cur_window_id sc - \<delta>) \<le> hi)
               \<longrightarrow> past ! (sc_cur_window_id sc + 1) + lo \<le> p \<and> p \<le> past ! (sc_cur_window_id sc + 1) + hi))"
proof (cases "t - sc_start_time sc < (of_nat (sc_cur_window_id sc) + 1) * sc_window_size sc")
  case True
  with run show ?thesis by (simp add: update_loads_def)
next
  case False
  let ?w = "sc_cur_window_id sc"
  let ?n = "min num_sample_point (?w + 1)"
  from run False obtain sc1 where f: "fold_r (update_model_load t) (map fst (sc_model_info sc)) (sc, stats) = Inr (sc1, stats')"
    and b: "b" and sc': "sc' = sc1\<lparr>sc_cur_window_id := sc_cur_window_id sc1 + 1\<rparr>"
    by (auto simp: update_loads_def)
  have "updated_model t m sc stats sc1 stats'" using update_fold_this [OF f _ keys] m by simp
  then obtain st past where st: "stats m = Some st" "sc_past_avgs sc m = Some past"
    "sc_recorded_avg_load sc1 m = sc_recorded_avg_load sc m
      @ [(ms_sum_loads st + (t - ms_last_time st) * of_int (ms_num_reqs st)) / sc_window_size sc]"
    "sc_predicted_avg_load sc1 m = Some (model_predicted (sc_recorded_avg_load sc1 m) past ?w)"
    "stats' m = Some (st\<lparr>ms_last_time := t, ms_sum_loads := 0, ms_max_loads := 0\<rparr>)"
    by (auto simp: updated_model_def)
  have win: "sc_cur_window_id sc1 = ?w"
    by (rule fold_r_inv [OF f, where P = "\<lambda>(s, _). sc_cur_window_id s = ?w", simplified])
      (auto dest: update_model_load_frame)
  have n: "0 < ?n" by (simp add: num_sample_point_def)
  have bounds: "past ! (?w + 1) + lo \<le> model_predicted (sc_recorded_avg_load sc1 m) past ?w
      \<and> model_predicted (sc_recorded_avg_load sc1 m) past ?w \<le> past ! (?w + 1) + hi"
    if "\<forall>\<delta> < ?n. lo \<le> sc_recorded_avg_load sc1 m ! (?w - \<delta>) - past ! (?w - \<delta>)
               \<and> sc_recorded_avg_load sc1 m ! (?w - \<delta>) - past ! (?w - \<delta>) \<le> hi" for lo hi
    using weighted_mean_bounds [OF n that] by (simp add: model_predicted_def Let_def)
  show ?thesis using False b st bounds win by (auto simp: sc')
qed

text \<open>
  Worked examples of the scheduler: two models, \<open>a\<close> on two GPUs and \<open>b\<close> on one, a server
  with two GPUs of 8 MiB each, and a replica of \<open>b\<close> already prewarmed on GPU 1. The
  theorems of the scheduler are applied to this run, so none of their hypotheses is vacuous.
\<close>

definition ex_sched :: sched where
  "ex_sched = \<lparr>sc_model_info = [(''a'', 8388608, 2), (''b'', 2097152, 1)], sc_num_servers = 1,
     sc_num_gpu_per_server = 2, sc_disable_placement = False, sc_window_size = 300,
     sc_past_avgs = Map.empty, sc_past_peaks = Map.empty,
     sc_predicted_avg_load = [''a'' \<mapsto> 10, ''b'' \<mapsto> 10],
     sc_predicted_peak_load = [''a'' \<mapsto> 10, ''b'' \<mapsto> 20],
     sc_recorded_avg_load = (\<lambda>_. []), sc_recorded_peak_load = (\<lambda>_. []),
     sc_cur_window_id = 0, sc_start_time = 0\<rparr>"

lemma ex_info:
  "sc_model_info ex_sched = [(''a'', 8388608, 2), (''b'', 2097152, 1)]"
  "sc_num_servers ex_sched = 1" "sc_num_gpu_per_server ex_sched = 2"
  "\<not> sc_disable_placement ex_sched"
  by (simp_all add: ex_sched_def)

lemma ex_scores: "calc_model_scores ex_sched [''a'', ''b''] [''a'' \<mapsto> 0, ''b'' \<mapsto> 0]
  = Inr [(1, 0, [1 / 8192]), (1, 0, [1 / 16384])]"
  by (simp add: calc_model_scores_def model_scores_def ex_sched_def div_r_def Let_def
      BATCH_SIZE_def PCIE_BANDWIDTH_def get_key_def)

lemma ex_run: "prewarm ex_sched [8388608, 8388608] [[(''b'', [1])]] [''a'' \<mapsto> 0, ''b'' \<mapsto> 0]
  = Inr ([(''a'', [0, 1])], [4194304, 4194304])"
  by (simp add: prewarm_def ex_scores orig_replicas_def orig_replica_def new_replicas_def
      new_replicas_of_def covered_replicas_def cover_worker_def place_replica_def node_gpus_def
      size_per_gpu_def align_up_def MEM_GRANULARITY_def find_groups_def
      search_for_available_groups.simps constrain_def select_group_def better_group_def
      commit_replica_def take_worker_def Let_def floordiv_r_def get_key_def nth_r_def upt_rec
      numeral_2_eq_2 ex_info)

theorem prewarm_actions_sound_witness:
  "action_ok (sc_model_info ex_sched) 2 2 (''a'', [0, 1])
   \<and> (4194304::int) = 8388608 - mem_used (sc_model_info ex_sched) [(''a'', [0, 1])] 0"
  using prewarm_actions_sound [OF ex_run] by (auto simp: ex_info numeral_2_eq_2)

theorem prewarm_laminar_witness:
  "laminar {(''b'', [1]), (''a'', [0, 1])} \<and> pairs_share (''b'', [1]) (''a'', [0, 1])"
  using prewarm_laminar [OF ex_run] by (simp add: ex_info laminar_def pairs_share_def insert_commute)


theorem prewarm_succeeds_witness:
  "\<exists>acts mem'. prewarm ex_sched [8388608, 8388608] [[(''b'', [1])]] [''a'' \<mapsto> 0, ''b'' \<mapsto> 0]
    = Inr (acts, mem')"
  by (rule prewarm_succeeds) (simp add: wf_view_def ex_sched_def)

text \<open>
  One window of 300 seconds with five requests all along: yesterday's loads were 3 and 4, so
  the model is 2 above yesterday and 6 is predicted for the next window.
\<close>

definition ex_loads :: sched where
  "ex_loads = ex_sched\<lparr>sc_model_info := [(''a'', 8388608, 2)],
     sc_past_avgs := [''a'' \<mapsto> [3, 4]], sc_past_peaks := [''a'' \<mapsto> [3, 4]]\<rparr>"

definition ex_stats :: "string \<rightharpoonup> model_status" where
  "ex_stats = [''a'' \<mapsto> \<lparr>ms_num_reqs = 5, ms_sum_loads = 0, ms_max_loads = 5, ms_last_time = 0,
     ms_stopping_engines = [], ms_load_stamp = []\<rparr>]"

lemma ex_update:
  "\<exists>sc' stats'. update_loads 300 ex_loads ex_stats = Inr (True, sc', stats')
     \<and> sc_predicted_avg_load sc' ''a'' = Some 6 \<and> sc_recorded_avg_load sc' ''a'' = [5]"
  by (simp add: update_loads_def update_model_load_def ex_loads_def ex_sched_def ex_stats_def
      Let_def get_key_def div_r_def nth_r_def weighted_diff_def num_sample_point_def weights_def
      prefix_sums_nth sum_weights_def)

theorem update_loads_prediction_witness:
  "\<exists>sc' stats' p. update_loads 300 ex_loads ex_stats = Inr (True, sc', stats')
     \<and> sc_cur_window_id sc' = 1 \<and> sc_predicted_avg_load sc' ''a'' = Some p \<and> 4 + 2 \<le> p"
proof -
  obtain sc' stats' where u: "update_loads 300 ex_loads ex_stats = Inr (True, sc', stats')"
    and a: "sc_recorded_avg_load sc' ''a'' = [5]" using ex_update by blast
  have f: "sc_start_time ex_loads = 0" "sc_cur_window_id ex_loads = 0" "sc_window_size ex_loads = 300"
    "sc_past_avgs ex_loads ''a'' = Some [3, 4]" "sc_model_info ex_loads = [(''a'', 8388608, 2)]"
    by (simp_all add: ex_loads_def ex_sched_def)
  have "sc_cur_window_id sc' = 1 \<and> (\<exists>p. sc_predicted_avg_load sc' ''a'' = Some p
      \<and> (\<forall>lo hi. lo \<le> 5 - (3::real) \<and> 5 - 3 \<le> hi \<longrightarrow> 4 + lo \<le> p \<and> p \<le> 4 + hi))"
    using update_loads_prediction [OF u, of "''a''"] f a by (auto simp: num_sample_point_def)
  then show ?thesis using u by fastforce
qed

end
