(* ===== verification/Vmm.thy ===== *)
theory Vmm
  imports Prelude
begin

text \<open>
  The virtual memory pool of a GPU (\<open>entrypoints/controller/vmm.py\<close>).

  The CUDA driver is a parameter \<open>drv\<close>: the return code of a call, given the calls made
  before. A run of the pool is the trace of the driver calls it makes, together with the
  values that \<open>map_blocks\<close> publishes in \<open>sync_signal[0]\<close> (\<open>Signal\<close>). Addresses
  are a slot and the offset from the address range reserved for that slot. The sleeps that
  slow the mapping down (\<open>slow_event\<close>) only take time and are left out.
\<close>

datatype vmm_event =
    CuMap nat nat nat nat       \<comment> \<open>slot, offset, size, physical block\<close>
  | CuSetAccess nat nat nat     \<comment> \<open>slot, offset, size\<close>
  | CuUnmap nat nat nat         \<comment> \<open>slot, offset, size\<close>
  | Signal nat

type_synonym driver = "vmm_event list \<Rightarrow> vmm_event \<Rightarrow> int"

definition vmm_align_up :: "int \<Rightarrow> int \<Rightarrow> int" where
  "vmm_align_up sz alignment = (sz + alignment - 1) div alignment * alignment"

definition check_cuda :: "int \<Rightarrow> unit result" where
  "check_cuda r = (if r \<noteq> 0 then Inl RuntimeError else Inr ())"

definition cu_call :: "driver \<Rightarrow> vmm_event \<Rightarrow> vmm_event list \<Rightarrow> vmm_event list result" where
  "cu_call drv e tr = bind_r (check_cuda (drv tr e)) (\<lambda>_. Inr (tr @ [e]))"

text \<open>
  The sizes that \<open>initialize\<close> computes: aligned block size, aligned pool size, number of
  blocks. \<open>granularity\<close> is the driver's answer.
\<close>

definition pool_sizes :: "int \<Rightarrow> int \<Rightarrow> int \<Rightarrow> (int \<times> int \<times> int) result" where
  "pool_sizes granularity pool_size block_size =
     (let bs = vmm_align_up block_size granularity; ps = vmm_align_up pool_size granularity in
      bind_r (floordiv_r ps bs) (\<lambda>num_blocks.
        if num_blocks = 0 then Inl ValueError else Inr (bs, ps, num_blocks)))"

text \<open>
  Mapping one page: the handle \<open>self.physical_handles[block_id]\<close> is looked up among the
  \<open>nh\<close> handles that \<open>_create_all_blocks\<close> made.
\<close>

definition map_page ::
    "driver \<Rightarrow> nat \<Rightarrow> nat \<Rightarrow> nat \<Rightarrow> nat \<Rightarrow> nat \<Rightarrow> vmm_event list \<Rightarrow> vmm_event list result" where
  "map_page drv nh bs slot va b tr =
     bind_r (guard_r IndexError (b < nh)) (\<lambda>_. cu_call drv (CuMap slot va bs b) tr)"

text \<open>The two loops of \<open>map_blocks\<close>, over the trace and the running addresses.\<close>

definition map_plain_step ::
    "driver \<Rightarrow> nat \<Rightarrow> nat \<Rightarrow> nat \<Rightarrow> nat list \<Rightarrow> bool \<Rightarrow> nat
     \<Rightarrow> vmm_event list \<times> nat \<Rightarrow> (vmm_event list \<times> nat) result" where
  "map_plain_step drv nh bs slot block_ids sync i st =
     (let (tr, va) = st in
      bind_r (nth_r block_ids i) (\<lambda>b.
      bind_r (map_page drv nh bs slot va b tr) (\<lambda>tr1.
      bind_r (if sync
              then bind_r (cu_call drv (CuSetAccess slot va bs) tr1)
                (\<lambda>tr2. Inr (tr2 @ [Signal ((i + 1) * bs)]))
              else Inr tr1) (\<lambda>tr3.
        Inr (tr3, va + bs)))))"

definition map_kv_step ::
    "driver \<Rightarrow> nat \<Rightarrow> nat \<Rightarrow> nat \<Rightarrow> nat list \<Rightarrow> bool \<Rightarrow> nat \<Rightarrow> nat
     \<Rightarrow> vmm_event list \<times> nat \<times> nat \<Rightarrow> (vmm_event list \<times> nat \<times> nat) result" where
  "map_kv_step drv nh bs slot block_ids sync v_start i st =
     (let (tr, va_k, va_v) = st in
      bind_r (nth_r block_ids i) (\<lambda>bk.
      bind_r (nth_r block_ids (i + v_start)) (\<lambda>bv.
      bind_r (map_page drv nh bs slot va_k bk tr) (\<lambda>tr1.
      bind_r (map_page drv nh bs slot va_v bv tr1) (\<lambda>tr2.
      bind_r (if sync
              then bind_r (cu_call drv (CuSetAccess slot va_k bs) tr2) (\<lambda>tr3.
                   bind_r (cu_call drv (CuSetAccess slot va_v bs) tr3) (\<lambda>tr4.
                     Inr (tr4 @ [Signal ((i + 1) * bs)])))
              else Inr tr2) (\<lambda>tr5.
        Inr (tr5, va_k + bs, va_v + bs)))))))"

definition map_kv_last ::
    "driver \<Rightarrow> nat \<Rightarrow> nat \<Rightarrow> nat \<Rightarrow> nat list \<Rightarrow> bool \<Rightarrow> nat \<Rightarrow> nat
     \<Rightarrow> vmm_event list \<Rightarrow> vmm_event list result" where
  "map_kv_last drv nh bs slot block_ids sync num_blocks va_v tr =
     (if num_blocks mod 2 = 1
      then bind_r (nth_r block_ids (num_blocks - 1)) (\<lambda>bv.
           bind_r (map_page drv nh bs slot va_v bv tr) (\<lambda>tr1.
             if sync then cu_call drv (CuSetAccess slot va_v bs) tr1 else Inr tr1))
      else Inr tr)"

definition map_blocks ::
    "driver \<Rightarrow> nat \<Rightarrow> nat \<Rightarrow> nat \<Rightarrow> nat \<Rightarrow> nat \<Rightarrow> nat list \<Rightarrow> bool \<Rightarrow> bool
     \<Rightarrow> vmm_event list \<Rightarrow> vmm_event list result" where
  "map_blocks drv nh bs slot offset num_blocks block_ids sync kv tr =
     bind_r
       (if \<not> kv
        then bind_r (fold_r (map_plain_step drv nh bs slot block_ids sync) [0..<num_blocks] (tr, offset))
               (\<lambda>(tr1, va). Inr tr1)
        else bind_r (fold_r (map_kv_step drv nh bs slot block_ids sync (num_blocks div 2))
                      [0..<num_blocks div 2] (tr, offset, offset + num_blocks div 2 * bs))
               (\<lambda>(tr1, va_k, va_v).
             bind_r (map_kv_last drv nh bs slot block_ids sync num_blocks va_v tr1) (\<lambda>tr2.
               Inr (if sync then tr2 @ [Signal (num_blocks * bs)] else tr2))))
       (\<lambda>tr3. if sync then Inr tr3
              else cu_call drv (CuSetAccess slot offset (num_blocks * bs)) tr3)"

definition unmap_blocks ::
    "driver \<Rightarrow> nat \<Rightarrow> nat \<Rightarrow> nat \<Rightarrow> vmm_event list \<Rightarrow> vmm_event list result" where
  "unmap_blocks drv slot offset sz tr = cu_call drv (CuUnmap slot offset sz) tr"

subsection \<open>What a trace says\<close>

text \<open>
  \<open>page_view tr slot off\<close>: the physical block that the calls of \<open>tr\<close> leave mapped at
  an offset; \<open>accessible tr slot off\<close>: the offset lies in a region made accessible.
\<close>

fun page_step :: "nat \<Rightarrow> nat \<Rightarrow> vmm_event \<Rightarrow> nat option \<Rightarrow> nat option" where
  "page_step slot off (CuMap s va n b) v = (if s = slot \<and> va = off then Some b else v)"
| "page_step slot off (CuUnmap s va n) v = (if s = slot \<and> va \<le> off \<and> off < va + n then None else v)"
| "page_step slot off (CuSetAccess s va n) v = v"
| "page_step slot off (Signal n) v = v"

definition page_view :: "vmm_event list \<Rightarrow> nat \<Rightarrow> nat \<Rightarrow> nat option" where
  "page_view tr slot off = fold (page_step slot off) tr None"

definition accessible :: "vmm_event list \<Rightarrow> nat \<Rightarrow> nat \<Rightarrow> bool" where
  "accessible tr slot off \<longleftrightarrow>
     (\<exists>e \<in> set tr. case e of CuSetAccess s va n \<Rightarrow> s = slot \<and> va \<le> off \<and> off < va + n | _ \<Rightarrow> False)"

lemma page_view_append: "page_view (tr @ tr') slot off = fold (page_step slot off) tr' (page_view tr slot off)"
  by (simp add: page_view_def)

lemma accessible_append [simp]:
  "accessible (tr @ tr') slot off \<longleftrightarrow> accessible tr slot off \<or> accessible tr' slot off"
  by (auto simp: accessible_def)

lemma cu_call_Inr [simp]: "cu_call drv e tr = Inr tr' \<longleftrightarrow> drv tr e = 0 \<and> tr' = tr @ [e]"
  by (auto simp: cu_call_def check_cuda_def split: if_splits)

lemma map_page_Inr [simp]:
  "map_page drv nh bs slot va b tr = Inr tr'
    \<longleftrightarrow> b < nh \<and> drv tr (CuMap slot va bs b) = 0 \<and> tr' = tr @ [CuMap slot va bs b]"
  by (auto simp: map_page_def)

subsection \<open>The traces of the two loops\<close>

definition plain_page :: "nat \<Rightarrow> nat \<Rightarrow> nat \<Rightarrow> nat list \<Rightarrow> bool \<Rightarrow> nat \<Rightarrow> vmm_event list" where
  "plain_page bs slot va ids sync i =
     CuMap slot (va + i * bs) bs (ids ! i)
     # (if sync then [CuSetAccess slot (va + i * bs) bs, Signal ((i + 1) * bs)] else [])"

definition kv_page :: "nat \<Rightarrow> nat \<Rightarrow> nat \<Rightarrow> nat list \<Rightarrow> bool \<Rightarrow> nat \<Rightarrow> nat \<Rightarrow> vmm_event list" where
  "kv_page bs slot va ids sync h i =
     [CuMap slot (va + i * bs) bs (ids ! i), CuMap slot (va + (h + i) * bs) bs (ids ! (i + h))]
     @ (if sync then [CuSetAccess slot (va + i * bs) bs, CuSetAccess slot (va + (h + i) * bs) bs,
          Signal ((i + 1) * bs)] else [])"

lemma plain_trace:
  assumes "fold_r (map_plain_step drv nh bs slot ids sync) [0..<n] (tr, va) = Inr (tr', va')"
  shows "tr' = tr @ concat (map (plain_page bs slot va ids sync) [0..<n]) \<and> va' = va + n * bs
    \<and> n \<le> length ids"
  using assms
proof (induction n arbitrary: tr' va')
  case (Suc n)
  from Suc.prems obtain tr1 va1 where
    f: "fold_r (map_plain_step drv nh bs slot ids sync) [0..<n] (tr, va) = Inr (tr1, va1)"
    and s: "map_plain_step drv nh bs slot ids sync n (tr1, va1) = Inr (tr', va')"
    by (auto simp: fold_r_append)
  from Suc.IH [OF f] s show ?case
    by (auto simp: map_plain_step_def Let_def plain_page_def algebra_simps Suc_le_eq split: if_splits)
qed simp

lemma kv_trace:
  assumes "fold_r (map_kv_step drv nh bs slot ids sync h) [0..<n] (tr, va, va + h * bs) = Inr (tr', vk, vv)"
  shows "tr' = tr @ concat (map (kv_page bs slot va ids sync h) [0..<n]) \<and> vv = va + (h + n) * bs
    \<and> vk = va + n * bs \<and> (n = 0 \<or> n + h \<le> length ids)"
  using assms
proof (induction n arbitrary: tr' vk vv)
  case (Suc n)
  from Suc.prems obtain tr1 va1 vv1 where
    f: "fold_r (map_kv_step drv nh bs slot ids sync h) [0..<n] (tr, va, va + h * bs) = Inr (tr1, va1, vv1)"
    and s: "map_kv_step drv nh bs slot ids sync h n (tr1, va1, vv1) = Inr (tr', vk, vv)"
    by (auto simp: fold_r_append)
  from Suc.IH [OF f] s show ?case
    by (auto simp: map_kv_step_def Let_def kv_page_def algebra_simps split: if_splits)
qed simp


text \<open>The pages that a block of calls maps, in terms of the pages it names.\<close>

lemma plain_pages_view:
  assumes "0 < bs"
  shows "fold (page_step s off) (concat (map (plain_page bs slot va ids sync) [0..<n])) v =
    (if s = slot \<and> (\<exists>i<n. off = va + i * bs) then Some (ids ! ((off - va) div bs)) else v)"
proof (induction n)
  case (Suc n)
  have "fold (page_step s off) (plain_page bs slot va ids sync n) w
      = (if s = slot \<and> off = va + n * bs then Some (ids ! n) else w)" for w
    by (simp add: plain_page_def)
  with Suc assms show ?case by (auto simp: less_Suc_eq)
qed simp

lemma kv_pages_view:
  assumes "0 < bs" and "n \<le> h"
  shows "fold (page_step s off) (concat (map (kv_page bs slot va ids sync h) [0..<n])) v =
    (if s = slot \<and> (\<exists>i<n. off = va + i * bs \<or> off = va + (h + i) * bs)
     then Some (ids ! ((off - va) div bs)) else v)"
  using assms(2)
proof (induction n)
  case (Suc n)
  have "fold (page_step s off) (kv_page bs slot va ids sync h n) w
      = (if s = slot \<and> off = va + (h + n) * bs then Some (ids ! (n + h))
         else if s = slot \<and> off = va + n * bs then Some (ids ! n) else w)" for w
    by (simp add: kv_page_def)
  moreover have "(va + (h + n) * bs - va) div bs = h + n" "(va + n * bs - va) div bs = n"
    using assms(1) by simp_all
  ultimately show ?case using Suc assms(1)
    by (auto simp: less_Suc_eq add.commute)
qed simp

lemma ex_half:
  "(\<exists>i < n div 2. off = va + i * bs \<or> off = va + (n div 2 + i) * bs)
     \<or> n mod 2 = 1 \<and> off = va + (n - 1) * bs \<longleftrightarrow> (\<exists>i < n. off = va + i * bs)" for n :: nat
proof
  assume "(\<exists>i < n div 2. off = va + i * bs \<or> off = va + (n div 2 + i) * bs)
     \<or> n mod 2 = 1 \<and> off = va + (n - 1) * bs"
  then consider i where "i < n div 2" "off = va + i * bs"
    | i where "i < n div 2" "off = va + (n div 2 + i) * bs"
    | "n mod 2 = 1" "off = va + (n - 1) * bs" by auto
  then show "\<exists>i < n. off = va + i * bs"
  proof cases
    case (1 i) then show ?thesis by (intro exI [of _ i]) auto
  next
    case (2 i) then show ?thesis by (intro exI [of _ "n div 2 + i"]) auto
  next
    case 3 then have "n - 1 < n" by (cases n) auto
    with 3 show ?thesis by blast
  qed
next
  assume "\<exists>i < n. off = va + i * bs"
  then obtain i where i: "i < n" "off = va + i * bs" by blast
  have "n mod 2 = 1 \<and> n = n div 2 + n div 2 + 1 \<or> n = n div 2 + n div 2" by presburger
  then consider "i < n div 2" | "n div 2 \<le> i" "i < n div 2 + n div 2" | "n mod 2 = 1" "i = n - 1"
    using i(1) by linarith
  then show "(\<exists>i < n div 2. off = va + i * bs \<or> off = va + (n div 2 + i) * bs)
     \<or> n mod 2 = 1 \<and> off = va + (n - 1) * bs"
  proof cases
    case 2
    then have "off = va + (n div 2 + (i - n div 2)) * bs" "i - n div 2 < n div 2" using i by auto
    then show ?thesis by blast
  qed (use i in blast)+
qed


definition map_events :: "nat \<Rightarrow> nat \<Rightarrow> nat \<Rightarrow> nat \<Rightarrow> nat list \<Rightarrow> bool \<Rightarrow> bool \<Rightarrow> vmm_event list" where
  "map_events bs slot va n ids sync kv =
     (if \<not> kv then concat (map (plain_page bs slot va ids sync) [0..<n])
      else concat (map (kv_page bs slot va ids sync (n div 2)) [0..<n div 2])
        @ (if n mod 2 = 1 then CuMap slot (va + (n - 1) * bs) bs (ids ! (n - 1))
             # (if sync then [CuSetAccess slot (va + (n - 1) * bs) bs] else []) else [])
        @ (if sync then [Signal (n * bs)] else []))
     @ (if sync then [] else [CuSetAccess slot va (n * bs)])"

lemma map_blocks_events:
  assumes "map_blocks drv nh bs slot va n ids sync kv tr = Inr tr'"
  shows "tr' = tr @ map_events bs slot va n ids sync kv"
proof (cases kv)
  case False
  with assms show ?thesis
    by (auto simp: map_blocks_def map_events_def split: if_splits dest!: plain_trace)
next
  case True
  from assms True obtain tr1 va_k va_v tr2 where
    f: "fold_r (map_kv_step drv nh bs slot ids sync (n div 2)) [0..<n div 2]
          (tr, va, va + n div 2 * bs) = Inr (tr1, va_k, va_v)"
    and l: "map_kv_last drv nh bs slot ids sync n va_v tr1 = Inr tr2"
    and e: "(if sync then Inr (tr2 @ [Signal (n * bs)])
       else cu_call drv (CuSetAccess slot va (n * bs)) tr2) = Inr tr'"
    unfolding map_blocks_def by (auto split: if_splits)
  from kv_trace [OF f] have tr1: "tr1 = tr @ concat (map (kv_page bs slot va ids sync (n div 2)) [0..<n div 2])"
    "va_v = va + (n div 2 + n div 2) * bs" by simp_all
  have odd: "va_v = va + (n - 1) * bs" if "n mod 2 = 1"
  proof -
    have "n - 1 = n div 2 + n div 2" using that by presburger
    then show ?thesis by (simp only: tr1(2))
  qed
  show ?thesis
  proof (cases "n mod 2 = 1")
    case o: True
    show ?thesis using l e unfolding map_kv_last_def map_events_def tr1(1) odd [OF o]
      by (cases sync) (auto simp: o True)
  next
    case False
    then show ?thesis using l e unfolding map_kv_last_def map_events_def tr1(1)
      by (cases sync) (auto simp: True)
  qed
qed

lemma map_events_view:
  assumes "0 < bs"
  shows "fold (page_step s off) (map_events bs slot va n ids sync kv) v =
    (if s = slot \<and> (\<exists>i<n. off = va + i * bs) then Some (ids ! ((off - va) div bs)) else v)"
proof (cases kv)
  case False
  then show ?thesis using plain_pages_view [OF assms] by (simp add: map_events_def)
next
  case True
  have page: "off = va + (n - 1) * bs \<Longrightarrow> (off - va) div bs = n - 1" using assms by simp
  let ?ex = "\<exists>i<n div 2. off = va + i * bs \<or> off = va + (n div 2 + i) * bs"
  let ?v = "if s = slot \<and> ?ex then Some (ids ! ((off - va) div bs)) else v"
  have "fold (page_step s off) (map_events bs slot va n ids sync kv) v
      = (if n mod 2 = 1 \<and> s = slot \<and> off = va + (n - 1) * bs then Some (ids ! (n - 1)) else ?v)"
    using True by (simp add: map_events_def kv_pages_view [OF assms order_refl])
  also have "\<dots> = (if s = slot \<and> (?ex \<or> n mod 2 = 1 \<and> off = va + (n - 1) * bs)
      then Some (ids ! ((off - va) div bs)) else v)"
    using page by (auto simp del: One_nat_def)
  finally show ?thesis by (simp only: ex_half)
qed

text \<open>
  Mapping \<open>n\<close> blocks, for weights or for a KV cache, leaves page \<open>i\<close> of the region
  mapped to the \<open>i\<close>-th block and touches no other page: the order in which the KV cache
  is mapped (keys and values in step) does not change the page table.
\<close>

theorem map_blocks_pages:
  assumes "map_blocks drv nh bs slot offset n ids sync kv tr = Inr tr'" and "0 < bs"
  shows "(\<forall>i < n. page_view tr' slot (offset + i * bs) = Some (ids ! i))
    \<and> (\<forall>s off. s \<noteq> slot \<or> (\<forall>i < n. off \<noteq> offset + i * bs)
          \<longrightarrow> page_view tr' s off = page_view tr s off)"
  using assms(2) by (auto simp: map_blocks_events [OF assms(1)] page_view_append map_events_view)

subsection \<open>The published progress\<close>

lemma concat_split:
  assumes "concat (map f [0..<n]) = p @ x # r"
  shows "\<exists>k q t. k < n \<and> p = concat (map f [0..<k]) @ q \<and> f k = q @ x # t"
  using assms
proof (induction n arbitrary: r)
  case (Suc n)
  then have eq: "concat (map f [0..<n]) @ f n = p @ x # r" by simp
  then consider us where "concat (map f [0..<n]) = p @ us" "us @ f n = x # r"
    | us where "p = concat (map f [0..<n]) @ us" "f n = us @ x # r"
    by (auto simp: append_eq_append_conv2)
  then show ?case
  proof cases
    case 1
    show ?thesis
    proof (cases us)
      case Nil
      with 1 have "p = concat (map f [0..<n]) @ []" "f n = [] @ x # r" by simp_all
      then show ?thesis by blast
    next
      case (Cons u us')
      with 1 have "concat (map f [0..<n]) = p @ x # us'" by simp
      from Suc.IH [OF this] show ?thesis using less_SucI by blast
    qed
  next
    case 2 then show ?thesis by blast
  qed
qed simp

lemma accessible_concat:
  "k < n \<Longrightarrow> accessible (f k) s off \<Longrightarrow> accessible (concat (map f [0..<n])) s off"
  by (auto simp: accessible_def)

lemma plain_page_signal:
  "plain_page bs slot va ids sync k = q @ Signal x # t \<Longrightarrow>
     sync \<and> x = (k + 1) * bs \<and> t = [] \<and> q = [CuMap slot (va + k * bs) bs (ids ! k), CuSetAccess slot (va + k * bs) bs]"
  by (auto simp: plain_page_def Cons_eq_append_conv split: if_splits)

lemma kv_page_signal:
  "kv_page bs slot va ids sync h k = q @ Signal x # t \<Longrightarrow>
     sync \<and> x = (k + 1) * bs \<and> t = [] \<and> kv_page bs slot va ids sync h k = q @ [Signal x]"
  by (auto simp: kv_page_def Cons_eq_append_conv split: if_splits)


lemma signal_step:
  assumes "concat (map f [0..<n]) = p @ Signal x # r"
    and "\<And>k q t. f k = q @ Signal x # t \<Longrightarrow> x = (k + 1) * bs \<and> f k = q @ [Signal x]"
  shows "\<exists>k < n. x = (k + 1) * bs \<and> concat (map f [0..<Suc k]) = p @ [Signal x]"
proof -
  from concat_split [OF assms(1)] obtain k q t where
    k: "k < n" "p = concat (map f [0..<k]) @ q" "f k = q @ Signal x # t" by blast
  with assms(2) [OF k(3)] show ?thesis by (intro exI [of _ k]) simp
qed

lemma page_view_signal [simp]: "page_view (tr @ p @ [Signal x]) s off = page_view (tr @ p) s off"
  by (simp add: page_view_def)

lemma accessible_signal [simp]: "accessible [Signal x] s off \<longleftrightarrow> False"
  by (simp add: accessible_def)

lemma plain_page_accessible: "0 < bs \<Longrightarrow> accessible (plain_page bs slot va ids True i) slot (va + i * bs)"
  by (simp add: plain_page_def accessible_def)

lemma kv_page_accessible:
  "0 < bs \<Longrightarrow> accessible (kv_page bs slot va ids True h i) slot (va + i * bs)
    \<and> accessible (kv_page bs slot va ids True h i) slot (va + (h + i) * bs)"
  by (simp add: kv_page_def accessible_def)

definition page_ready :: "vmm_event list \<Rightarrow> vmm_event list \<Rightarrow> nat \<Rightarrow> nat \<Rightarrow> nat \<Rightarrow> nat list \<Rightarrow> nat \<Rightarrow> bool" where
  "page_ready tr p bs slot va ids i \<longleftrightarrow>
     page_view (tr @ p) slot (va + i * bs) = Some (ids ! i) \<and> accessible p slot (va + i * bs)"

lemma plain_ready:
  assumes "concat (map (plain_page bs slot va ids True) [0..<Suc k]) = p @ [Signal x]"
    and "0 < bs" and "i \<le> k"
  shows "page_ready tr p bs slot va ids i"
proof -
  have "accessible (p @ [Signal x]) slot (va + i * bs)"
    unfolding assms(1) [symmetric] using assms
    by (intro accessible_concat [of i] plain_page_accessible) auto
  moreover have "page_view (tr @ p @ [Signal x]) slot (va + i * bs) = Some (ids ! i)"
    unfolding assms(1) [symmetric] page_view_append plain_pages_view [OF assms(2)]
    using assms(2,3) by auto
  ultimately show ?thesis by (simp add: page_ready_def)
qed

lemma kv_ready:
  assumes "concat (map (kv_page bs slot va ids True h) [0..<Suc k]) = p @ [Signal x]"
    and "0 < bs" and "i \<le> k" and "k < h"
  shows "page_ready tr p bs slot va ids i \<and> page_ready tr p bs slot va ids (h + i)"
proof -
  have "accessible (concat (map (kv_page bs slot va ids True h) [0..<Suc k])) slot off"
    if "off = va + i * bs \<or> off = va + (h + i) * bs" for off
    using that assms(2,3) by (intro accessible_concat [of i]) (auto simp: kv_page_accessible)
  then have "accessible p slot (va + i * bs)" "accessible p slot (va + (h + i) * bs)"
    unfolding assms(1) by simp_all
  moreover have ik: "i < Suc k" using assms(3) by simp
  have "page_view (tr @ p @ [Signal x]) slot (va + i * bs) = Some (ids ! i)"
    "page_view (tr @ p @ [Signal x]) slot (va + (h + i) * bs) = Some (ids ! (h + i))"
    unfolding assms(1) [symmetric] page_view_append kv_pages_view [OF assms(2) Suc_leI [OF assms(4)]]
    using assms(2) ik by (auto simp del: not_ex ex_simps)
  ultimately show ?thesis by (simp add: page_ready_def)
qed

lemma kv_all_accessible:
  assumes "0 < bs" and "j < n"
  shows "accessible (concat (map (kv_page bs slot va ids True (n div 2)) [0..<n div 2])
    @ (if n mod 2 = 1 then [CuMap slot (va + (n - 1) * bs) bs (ids ! (n - 1)),
         CuSetAccess slot (va + (n - 1) * bs) bs] else [])) slot (va + j * bs)"
proof -
  have n: "n mod 2 = 1 \<and> n = n div 2 + n div 2 + 1 \<or> n mod 2 \<noteq> 1 \<and> n = n div 2 + n div 2" by presburger
  then consider "j < n div 2" | "n div 2 \<le> j" "j - n div 2 < n div 2" | "n mod 2 = 1" "j = n - 1"
    using assms(2) by linarith
  then show ?thesis
  proof cases
    case 1
    with kv_page_accessible [OF assms(1)] show ?thesis
      unfolding accessible_append by (blast intro: accessible_concat)
  next
    case 2
    have "accessible (kv_page bs slot va ids True (n div 2) (j - n div 2)) slot (va + j * bs)"
      using kv_page_accessible [OF assms(1), of slot va ids "n div 2" "j - n div 2"] 2(1) by simp
    with 2(2) show ?thesis unfolding accessible_append by (blast intro: accessible_concat)
  next
    case 3
    with assms(1) show ?thesis by (simp add: accessible_def del: One_nat_def)
  qed
qed

lemma snoc_split:
  "a @ [y] = p @ x # r \<Longrightarrow> p = a \<and> x = y \<or> (\<exists>us. a = p @ x # us)"
  by (cases r rule: rev_cases) auto

lemma split_left:
  assumes "c @ l = p @ x # us" and "x \<notin> set l"
  obtains us' where "c = p @ x # us'"
  using assms by (auto simp: append_eq_append_conv2 append_eq_Cons_conv)

text \<open>
  The progress \<open>x\<close> published in \<open>sync_signal[0]\<close> is never early: at that moment
  every page of the region below \<open>x\<close> is mapped to its block and accessible; with a KV
  cache, every page below \<open>x\<close> of the key half and the page at the same place of the value
  half; and when \<open>x\<close> reaches the size of the region, all pages.
\<close>

theorem map_blocks_signal:
  assumes run: "map_blocks drv nh bs slot offset n ids True kv tr = Inr (tr @ p @ Signal x # r)"
    and bs: "0 < bs" and i: "i < n" and below: "i * bs < x"
  shows "page_ready tr p bs slot offset ids i
    \<and> (kv \<and> i < n div 2 \<longrightarrow> page_ready tr p bs slot offset ids (n div 2 + i))"
proof -
  have ev: "map_events bs slot offset n ids True kv = p @ Signal x # r"
    using map_blocks_events [OF run] by simp
  show ?thesis
  proof (cases kv)
    case False
    with ev have "concat (map (plain_page bs slot offset ids True) [0..<n]) = p @ Signal x # r"
      by (simp add: map_events_def)
    from signal_step [OF this, where bs = bs] plain_page_signal obtain k where
      k: "x = (k + 1) * bs" "concat (map (plain_page bs slot offset ids True) [0..<Suc k]) = p @ [Signal x]"
      by (metis append_Nil2)
    with below have "i \<le> k" by (metis Suc_eq_plus1 less_Suc_eq_le mult_less_cancel2)
    with plain_ready [OF k(2) bs] False show ?thesis by simp
  next
    case True
    let ?c = "concat (map (kv_page bs slot offset ids True (n div 2)) [0..<n div 2])"
    let ?l = "if n mod 2 = 1 then [CuMap slot (offset + (n - 1) * bs) bs (ids ! (n - 1)),
         CuSetAccess slot (offset + (n - 1) * bs) bs] else []"
    have "(?c @ ?l) @ [Signal (n * bs)] = p @ Signal x # r" using ev True
      unfolding map_events_def by (simp del: One_nat_def split del: if_split cong: if_cong)
    from snoc_split [OF this] consider "p = ?c @ ?l" "x = n * bs" | us where "?c @ ?l = p @ Signal x # us"
      by blast
    then show ?thesis
    proof cases
      case 1
      have all: "page_ready tr p bs slot offset ids j" if "j < n" for j
      proof -
        have "map_events bs slot offset n ids True kv = p @ [Signal x]"
          using True 1 by (simp add: map_events_def)
        then have "page_view (tr @ p @ [Signal x]) slot (offset + j * bs) = Some (ids ! j)"
          using map_events_view [OF bs, of slot "offset + j * bs" slot offset n ids True kv] that bs
          by (auto simp: page_view_append)
        moreover have "accessible p slot (offset + j * bs)"
          unfolding 1(1) by (rule kv_all_accessible [OF bs that])
        ultimately show ?thesis by (simp add: page_ready_def)
      qed
      have "i < n div 2 \<Longrightarrow> n div 2 + i < n" by presburger
      with i all show ?thesis by blast
    next
      case 2
      moreover have "Signal x \<notin> set ?l" by simp
      ultimately obtain us' where "?c = p @ Signal x # us'" by (rule split_left)
      from signal_step [OF this, where bs = bs] kv_page_signal obtain k where
        k: "k < n div 2" "x = (k + 1) * bs"
          "concat (map (kv_page bs slot offset ids True (n div 2)) [0..<Suc k]) = p @ [Signal x]"
        by blast
      with below have "i \<le> k" by (metis Suc_eq_plus1 less_Suc_eq_le mult_less_cancel2)
      with kv_ready [OF k(3) bs _ k(1)] k(1) show ?thesis by simp
    qed
  qed
qed

end
