(* ===== verification/Memory_Manager.thy ===== *)
theory Memory_Manager
  imports Vmm
begin

text \<open>
  The unified GPU memory of a worker (\<open>MemoryManager\<close> and \<open>release_blocks\<close> of
  \<open>entrypoints/controller/utils.py\<close>): physical pages of 2 MiB, thirty prewarm slots (one
  virtual address range each), the pages of every slot in mapping order, and the positions
  whose page has been handed back while the engine still runs. \<open>mm_jobs\<close> is the log of the
  jobs submitted to \<open>pool_executor\<close>, a pool of one thread, hence run in this order.
\<close>

datatype vmm_job =
    Map_Job nat nat nat "nat list" bool bool   \<comment> \<open>slot, offset, number, pages, sync, kv\<close>
  | Unmap_Job nat nat nat                      \<comment> \<open>slot, offset, size\<close>

record mem_manager =
  mm_num_blocks :: nat
  mm_num_free :: int
  mm_phy :: "bool list"
  mm_slots :: "bool list"
  mm_ids :: "nat list list"
  mm_released :: "int list list"
  mm_jobs :: "vmm_job list"

definition mm_block_size :: nat where "mm_block_size = 2 * 2 ^ 20"
definition max_prewarm_model :: nat where "max_prewarm_model = 30"

definition init_manager :: "nat \<Rightarrow> mem_manager" where
  "init_manager num_blocks =
     \<lparr>mm_num_blocks = num_blocks, mm_num_free = int num_blocks, mm_phy = replicate num_blocks True,
      mm_slots = replicate max_prewarm_model True, mm_ids = replicate max_prewarm_model [],
      mm_released = replicate max_prewarm_model [], mm_jobs = []\<rparr>"

definition submit :: "vmm_job \<Rightarrow> mem_manager \<Rightarrow> mem_manager" where
  "submit j mm = mm\<lparr>mm_jobs := mm_jobs mm @ [j]\<rparr>"

definition run_job :: "driver \<Rightarrow> nat \<Rightarrow> vmm_job \<Rightarrow> vmm_event list \<Rightarrow> vmm_event list result" where
  "run_job drv nh j tr = (case j of
     Map_Job slot offset n ids sync kv \<Rightarrow> map_blocks drv nh mm_block_size slot offset n ids sync kv tr
   | Unmap_Job slot offset sz \<Rightarrow> unmap_blocks drv slot offset sz tr)"

text \<open>
  NumPy: an index is valid between \<open>-n\<close> and \<open>n - 1\<close> and counts from the end when
  negative; \<open>np_delete\<close> drops positions, \<open>np_set\<close> is \<open>a[idxs] = v\<close>, \<open>np_take\<close>
  is \<open>a[idxs]\<close>.
\<close>

definition np_index :: "nat \<Rightarrow> int \<Rightarrow> nat result" where
  "np_index n i = (if 0 \<le> i \<and> i < int n then Inr (nat i)
     else if - int n \<le> i \<and> i < 0 then Inr (nat (i + int n)) else Inl IndexError)"

fun np_indices :: "nat \<Rightarrow> int list \<Rightarrow> nat list result" where
  "np_indices n [] = Inr []"
| "np_indices n (i # is) =
     bind_r (np_index n i) (\<lambda>k. bind_r (np_indices n is) (\<lambda>ks. Inr (k # ks)))"

definition np_take :: "'a list \<Rightarrow> int list \<Rightarrow> 'a list result" where
  "np_take xs is = bind_r (np_indices (length xs) is) (\<lambda>ks. Inr (map ((!) xs) ks))"

definition np_delete :: "'a list \<Rightarrow> int list \<Rightarrow> 'a list result" where
  "np_delete xs is = bind_r (np_indices (length xs) is)
     (\<lambda>ks. Inr (map ((!) xs) (filter (\<lambda>i. i \<notin> set ks) [0..<length xs])))"

definition np_set :: "'a list \<Rightarrow> nat list \<Rightarrow> 'a \<Rightarrow> 'a list result" where
  "np_set xs ks v = bind_r (guard_r IndexError (\<forall>k \<in> set ks. k < length xs)) (\<lambda>_. Inr (set_all xs ks v))"

definition get_free_memory :: "mem_manager \<Rightarrow> int" where
  "get_free_memory mm = mm_num_free mm * int mm_block_size"

definition allocate_prewarm_slot :: "mem_manager \<Rightarrow> (nat \<times> mem_manager) result" where
  "allocate_prewarm_slot mm =
     (case where_true (mm_slots mm) of
        [] \<Rightarrow> Inl RuntimeError
      | slot # _ \<Rightarrow> Inr (slot, mm\<lparr>mm_slots := (mm_slots mm)[slot := False]\<rparr>))"

definition free_prewarm_slot :: "nat \<Rightarrow> mem_manager \<Rightarrow> mem_manager result" where
  "free_prewarm_slot slot mm =
     bind_r (nth_r (mm_ids mm) slot) (\<lambda>ids.
     bind_r (nth_r (mm_released mm) slot) (\<lambda>released.
     let num_blocks = length ids; num_released = length released;
         mm1 = submit (Unmap_Job slot 0 (num_blocks * mm_block_size)) mm in
     bind_r (np_delete ids released) (\<lambda>to_free.
     bind_r (np_set (mm_phy mm1) to_free True) (\<lambda>phy.
       Inr (mm1\<lparr>mm_phy := phy, mm_ids := (mm_ids mm1)[slot := []],
                mm_released := (mm_released mm1)[slot := []],
                mm_slots := (mm_slots mm1)[slot := True],
                mm_num_free := mm_num_free mm1 + (int num_blocks - int num_released)\<rparr>)))))"

definition reset :: "mem_manager \<Rightarrow> (int \<times> mem_manager) result" where
  "reset mm =
     bind_r (fold_r free_prewarm_slot (where_true (mm_slots mm)) mm) (\<lambda>mm1.
       Inr (int (mm_num_blocks mm1) * int mm_block_size, mm1))"

definition free_kv_space :: "nat \<Rightarrow> nat \<Rightarrow> mem_manager \<Rightarrow> mem_manager result" where
  "free_kv_space slot kv_offset mm =
     (let kv_start = kv_offset div mm_block_size in
      bind_r (nth_r (mm_ids mm) slot) (\<lambda>ids.
      let free_ids = drop kv_start ids; num_blocks = length free_ids in
      bind_r (nth_r (mm_released mm) slot) (\<lambda>released.
      let num_released = length released;
          mm1 = submit (Unmap_Job slot kv_offset (num_blocks * mm_block_size)) mm in
      bind_r (np_delete free_ids (map (\<lambda>i. i - int kv_start) released)) (\<lambda>to_free.
      bind_r (np_set (mm_phy mm1) to_free True) (\<lambda>phy.
        Inr (mm1\<lparr>mm_phy := phy, mm_ids := (mm_ids mm1)[slot := take kv_start ids],
                 mm_released := (mm_released mm1)[slot := []],
                 mm_num_free := mm_num_free mm1 + (int num_blocks - int num_released)\<rparr>))))))"

definition allocate_blocks ::
    "nat \<Rightarrow> int \<Rightarrow> bool \<Rightarrow> bool \<Rightarrow> mem_manager \<Rightarrow> (nat \<times> int \<times> mem_manager) result" where
  "allocate_blocks slot sz sync kv mm =
     bind_r (if sz = 0 then Inr (mm_num_free mm)
             else let n = (sz - 1) div int mm_block_size + 1 in
               if mm_num_free mm < n then Inl ValueError else Inr n) (\<lambda>num_blocks.
     let allocated = take (nat num_blocks) (where_true (mm_phy mm)) in
     bind_r (nth_r (mm_ids mm) slot) (\<lambda>ids.
     let cur_offset = length ids * mm_block_size;
         mm1 = submit (Map_Job slot cur_offset (nat num_blocks) allocated sync kv) mm in
       Inr (cur_offset, num_blocks * int mm_block_size,
         mm1\<lparr>mm_ids := (mm_ids mm1)[slot := ids @ allocated],
             mm_phy := set_all (mm_phy mm1) allocated False,
             mm_num_free := mm_num_free mm1 - num_blocks\<rparr>)))"

text \<open>
  \<open>release_blocks\<close> of a worker: the pages of logical KV blocks that the engine has reserved
  become free for other slots. Half of a logical block holds keys, half values.
\<close>

definition kv_indices :: "nat list \<Rightarrow> nat \<Rightarrow> nat list" where
  "kv_indices logical k = concat (map (\<lambda>b. map (\<lambda>j. b * k + j) [0..<k]) logical)"

definition release_blocks ::
    "nat \<Rightarrow> nat \<Rightarrow> nat list \<Rightarrow> nat \<Rightarrow> nat \<Rightarrow> mem_manager \<Rightarrow> mem_manager result" where
  "release_blocks slot kv_offset logical logical_block_size total_logical mm =
     (let k = logical_block_size div 2 div mm_block_size;
          kv_delta = total_logical * k;
          k_indices = kv_indices logical k;
          v_indices = map (\<lambda>i. i + kv_delta) k_indices;
          kv_start = kv_offset div mm_block_size in
      bind_r (nth_r (mm_ids mm) slot) (\<lambda>ids.
      let kv_ids = drop kv_start ids in
      bind_r (np_take kv_ids (map int k_indices)) (\<lambda>k_pages.
      bind_r (np_set (mm_phy mm) k_pages True) (\<lambda>phy1.
      bind_r (np_take kv_ids (map int v_indices)) (\<lambda>v_pages.
      bind_r (np_set phy1 v_pages True) (\<lambda>phy2.
      bind_r (nth_r (mm_released mm) slot) (\<lambda>released.
        Inr (mm\<lparr>mm_phy := phy2,
                mm_released := (mm_released mm)
                  [slot := released @ map (\<lambda>i. int i + int kv_start) (k_indices @ v_indices)],
                mm_num_free := mm_num_free mm + int (length logical * k * 2)\<rparr>))))))))"


subsection \<open>The invariant\<close>

text \<open>The pages a slot really holds: those mapped and not handed back.\<close>

definition live_list :: "'a list \<Rightarrow> int list \<Rightarrow> 'a list" where
  "live_list ids released = map ((!) ids) (filter (\<lambda>i. int i \<notin> set released) [0..<length ids])"

definition live_pages :: "mem_manager \<Rightarrow> nat \<Rightarrow> nat list" where
  "live_pages mm s = live_list (mm_ids mm ! s) (mm_released mm ! s)"

definition used_pages :: "mem_manager \<Rightarrow> nat set" where
  "used_pages mm = {b. b < mm_num_blocks mm \<and> \<not> mm_phy mm ! b}"

definition mm_shape :: "mem_manager \<Rightarrow> bool" where
  "mm_shape mm \<longleftrightarrow> length (mm_phy mm) = mm_num_blocks mm \<and> length (mm_slots mm) = max_prewarm_model
     \<and> length (mm_ids mm) = max_prewarm_model \<and> length (mm_released mm) = max_prewarm_model"

definition mm_released_ok :: "mem_manager \<Rightarrow> bool" where
  "mm_released_ok mm \<longleftrightarrow> (\<forall>s < max_prewarm_model. distinct (mm_released mm ! s)
     \<and> set (mm_released mm ! s) \<subseteq> {0 ..< int (length (mm_ids mm ! s))}
     \<and> (mm_slots mm ! s \<longrightarrow> mm_ids mm ! s = []))"

definition mm_owned :: "mem_manager \<Rightarrow> bool" where
  "mm_owned mm \<longleftrightarrow> (\<Sum>s<max_prewarm_model. mset (live_pages mm s)) = mset_set (used_pages mm)
     \<and> mm_num_free mm = int (mm_num_blocks mm) - int (card (used_pages mm))"

definition mm_inv :: "mem_manager \<Rightarrow> bool" where
  "mm_inv mm \<longleftrightarrow> mm_shape mm \<and> mm_released_ok mm \<and> mm_owned mm"

lemma finite_used [simp]: "finite (used_pages mm)"
  by (simp add: used_pages_def)

lemma np_indices_ok: "set is \<subseteq> {0 ..< int n} \<Longrightarrow> np_indices n is = Inr (map nat is)"
  by (induction "is") (auto simp: np_index_def)

lemma np_delete_ok:
  assumes "set is \<subseteq> {0 ..< int (length xs)}"
  shows "np_delete xs is = Inr (live_list xs is)"
proof -
  have "filter (\<lambda>i. i \<notin> nat ` set is) [0..<length xs] = filter (\<lambda>i. int i \<notin> set is) [0..<length xs]"
    using assms by (intro filter_cong refl) (force simp: image_iff)
  then show ?thesis by (simp add: np_delete_def np_indices_ok [OF assms] live_list_def)
qed

lemma live_list_Nil [simp]: "live_list xs [] = xs"
  by (simp add: live_list_def map_nth)

lemma set_live_list: "set (live_list xs is) \<subseteq> set xs"
  by (auto simp: live_list_def)

lemma length_live_list:
  assumes "distinct is" and "set is \<subseteq> {0 ..< int (length xs)}"
  shows "length (live_list xs is) = length xs - length is"
proof -
  have inj: "inj_on nat (set is)" using assms(2) by (meson atLeastLessThan_iff eq_nat_nat_iff in_mono inj_onI)
  have "length (live_list xs is) = card ({0..<length xs} - nat ` set is)"
  proof -
    have "{0..<length xs} - nat ` set is = {i. i < length xs \<and> int i \<notin> set is}"
      using assms(2) by force
    then show ?thesis
      by (simp add: live_list_def distinct_card [symmetric] del: distinct_card)
  qed
  also have "\<dots> = length xs - card (nat ` set is)"
    using assms(2) by (subst card_Diff_subset) (auto simp: nat_less_iff dest!: subsetD)
  also have "card (nat ` set is) = length is"
    using card_image [OF inj] distinct_card [OF assms(1)] by simp
  finally show ?thesis .
qed

text \<open>Freeing pages that are owned, and taking free ones.\<close>

lemma free_pages:
  assumes "mset_set {b. b < n \<and> \<not> phy ! b} = A + mset B" and "length phy = n"
  shows "np_set phy B True = Inr (set_all phy B True)"
    and "mset_set {b. b < n \<and> \<not> set_all phy B True ! b} = A"
    and "card {b. b < n \<and> \<not> set_all phy B True ! b} + length B = card {b. b < n \<and> \<not> phy ! b}"
proof -
  let ?U = "{b. b < n \<and> \<not> phy ! b}"
  have fin: "finite ?U" by simp
  have sub: "set B \<subseteq> ?U"
    using arg_cong [OF assms(1), of set_mset] by auto
  have "distinct B"
  proof -
    have "mset B \<subseteq># mset_set ?U" by (simp add: assms(1))
    then have "count (mset B) x \<le> 1" for x
      by (metis (mono_tags) count_mset_set le_trans mset_subset_eq_count order_refl zero_le_one)
    then show ?thesis by (simp add: distinct_count_atmost_1) (metis count_eq_zero_iff le_antisym not_one_le_zero
          not_less_eq_eq One_nat_def set_mset_mset bot_nat_0.extremum_uniqueI less_one linorder_not_le)
  qed
  then have B: "mset B = mset_set (set B)" by (simp add: mset_set_set)
  show "np_set phy B True = Inr (set_all phy B True)" using sub assms(2) by (auto simp: np_set_def guard_r_def)
  have eq: "{b. b < n \<and> \<not> set_all phy B True ! b} = ?U - set B"
    using assms(2) by (auto simp: nth_set_all split: if_splits)
  show "mset_set {b. b < n \<and> \<not> set_all phy B True ! b} = A"
    using assms(1) B unfolding eq mset_set_Diff [OF fin sub] by simp
  show "card {b. b < n \<and> \<not> set_all phy B True ! b} + length B = card ?U"
    unfolding eq using sub fin \<open>distinct B\<close> card_mono [OF fin sub]
    by (simp add: card_Diff_subset distinct_card)
qed

lemma take_pages:
  assumes "distinct B" and "\<forall>b \<in> set B. b < n \<and> phy ! b" and "length phy = n"
  shows "mset_set {b. b < n \<and> \<not> set_all phy B False ! b} = mset_set {b. b < n \<and> \<not> phy ! b} + mset B"
    and "card {b. b < n \<and> \<not> set_all phy B False ! b} = card {b. b < n \<and> \<not> phy ! b} + length B"
proof -
  have eq: "{b. b < n \<and> \<not> set_all phy B False ! b} = {b. b < n \<and> \<not> phy ! b} \<union> set B"
    using assms by (auto simp: nth_set_all)
  have disj: "{b. b < n \<and> \<not> phy ! b} \<inter> set B = {}" using assms(2) by auto
  show "mset_set {b. b < n \<and> \<not> set_all phy B False ! b} = mset_set {b. b < n \<and> \<not> phy ! b} + mset B"
    unfolding eq using disj assms(1) by (simp add: mset_set_Union mset_set_set)
  show "card {b. b < n \<and> \<not> set_all phy B False ! b} = card {b. b < n \<and> \<not> phy ! b} + length B"
    unfolding eq using disj assms(1) by (simp add: card_Un_disjoint distinct_card)
qed


lemma sum_slot:
  fixes f g :: "nat \<Rightarrow> 'a multiset"
  assumes "k < n" and "\<And>s. s < n \<Longrightarrow> s \<noteq> k \<Longrightarrow> g s = f s"
  shows "(\<Sum>s<n. g s) + f k = (\<Sum>s<n. f s) + g k"
proof -
  have "(\<Sum>s<n. g s) = g k + (\<Sum>s\<in>{..<n} - {k}. g s)" "(\<Sum>s<n. f s) = f k + (\<Sum>s\<in>{..<n} - {k}. f s)"
    using assms(1) by (simp_all add: sum.remove)
  moreover have "(\<Sum>s\<in>{..<n} - {k}. g s) = (\<Sum>s\<in>{..<n} - {k}. f s)"
    using assms(2) by (intro sum.cong) auto
  ultimately show ?thesis by (simp add: ac_simps)
qed

lemma owned_free:
  assumes "mm_owned mm" and "mm_shape mm" and k: "k < max_prewarm_model"
    and other: "\<And>s. s < max_prewarm_model \<Longrightarrow> s \<noteq> k \<Longrightarrow> live_pages mm' s = live_pages mm s"
    and B: "mset (live_pages mm k) = mset (live_pages mm' k) + mset B"
    and mm': "mm_num_blocks mm' = mm_num_blocks mm" "mm_phy mm' = set_all (mm_phy mm) B True"
      "mm_num_free mm' = mm_num_free mm + int (length B)"
  shows "mm_owned mm'" and "np_set (mm_phy mm) B True = Inr (set_all (mm_phy mm) B True)"
proof -
  let ?S = "\<lambda>mm. \<Sum>s<max_prewarm_model. mset (live_pages mm s)"
  have "?S mm' + mset (live_pages mm k) = ?S mm + mset (live_pages mm' k)"
    using k other by (intro sum_slot) auto
  then have S: "?S mm = ?S mm' + mset B" unfolding B by simp
  have U: "mset_set {b. b < mm_num_blocks mm \<and> \<not> mm_phy mm ! b} = ?S mm' + mset B"
    using assms(1) S by (simp add: mm_owned_def used_pages_def)
  have len: "length (mm_phy mm) = mm_num_blocks mm" using assms(2) by (simp add: mm_shape_def)
  show "np_set (mm_phy mm) B True = Inr (set_all (mm_phy mm) B True)" using free_pages(1) [OF U len] .
  show "mm_owned mm'"
    using assms(1) free_pages(2,3) [OF U len] by (simp add: mm_owned_def used_pages_def mm')
qed

lemma owned_take:
  assumes "mm_owned mm" and "mm_shape mm" and k: "k < max_prewarm_model"
    and other: "\<And>s. s < max_prewarm_model \<Longrightarrow> s \<noteq> k \<Longrightarrow> live_pages mm' s = live_pages mm s"
    and live: "mset (live_pages mm' k) = mset (live_pages mm k) + mset B"
    and B: "distinct B" "\<forall>b \<in> set B. b < mm_num_blocks mm \<and> mm_phy mm ! b"
    and mm': "mm_num_blocks mm' = mm_num_blocks mm" "mm_phy mm' = set_all (mm_phy mm) B False"
      "mm_num_free mm' = mm_num_free mm - int (length B)"
  shows "mm_owned mm'"
proof -
  let ?S = "\<lambda>mm. \<Sum>s<max_prewarm_model. mset (live_pages mm s)"
  have "?S mm' + mset (live_pages mm k) = ?S mm + mset (live_pages mm' k)"
    using k other by (intro sum_slot) auto
  then have S: "?S mm' = ?S mm + mset B" unfolding live by simp
  have len: "length (mm_phy mm) = mm_num_blocks mm" using assms(2) by (simp add: mm_shape_def)
  show "mm_owned mm'"
    using assms(1) take_pages [OF B len] S by (simp add: mm_owned_def used_pages_def mm')
qed

lemma num_free_count:
  assumes "mm_inv mm"
  shows "mm_num_free mm = int (count_true (mm_phy mm))"
proof -
  have len: "length (mm_phy mm) = mm_num_blocks mm" using assms by (simp add: mm_inv_def mm_shape_def)
  have "{b. b < mm_num_blocks mm \<and> mm_phy mm ! b} = {..<mm_num_blocks mm} - used_pages mm"
    by (auto simp: used_pages_def)
  then have "count_true (mm_phy mm) = mm_num_blocks mm - card (used_pages mm)"
    by (simp add: count_true_eq_card len card_Diff_subset used_pages_def)
      (subst card_Diff_subset, auto)
  moreover have "card (used_pages mm) \<le> mm_num_blocks mm"
    using card_mono [of "{..<mm_num_blocks mm}" "used_pages mm"] by (auto simp: used_pages_def)
  ultimately show ?thesis using assms by (simp add: mm_inv_def mm_owned_def)
qed

lemma mm_invD:
  assumes "mm_inv mm" and "s < max_prewarm_model"
  shows "s < length (mm_ids mm)" "s < length (mm_released mm)" "s < length (mm_slots mm)"
    "distinct (mm_released mm ! s)" "set (mm_released mm ! s) \<subseteq> {0 ..< int (length (mm_ids mm ! s))}"
    "mm_slots mm ! s \<Longrightarrow> mm_ids mm ! s = []" "mm_slots mm ! s \<Longrightarrow> mm_released mm ! s = []"
  using assms by (fastforce simp: mm_inv_def mm_shape_def mm_released_ok_def)+

lemma init_manager_inv: "mm_inv (init_manager n)"
proof -
  have "mset_set {b. b < n \<and> \<not> replicate n True ! b} = {#}" "card {b. b < n \<and> \<not> replicate n True ! b} = 0"
    by (auto simp: mset_set_empty_iff)
  then show ?thesis by (simp add: mm_inv_def mm_shape_def mm_released_ok_def mm_owned_def init_manager_def
      live_pages_def used_pages_def)
qed

lemma allocate_prewarm_slot_inv:
  assumes "mm_inv mm" and "allocate_prewarm_slot mm = Inr (slot, mm')"
  shows "mm_inv mm' \<and> slot < max_prewarm_model \<and> mm_slots mm ! slot \<and> \<not> mm_slots mm' ! slot
    \<and> mm_ids mm' ! slot = [] \<and> mm_phy mm' = mm_phy mm"
proof -
  from assms(2) obtain r where w: "where_true (mm_slots mm) = slot # r"
    and mm': "mm' = mm\<lparr>mm_slots := (mm_slots mm)[slot := False]\<rparr>"
    by (auto simp: allocate_prewarm_slot_def split: list.splits)
  have s: "slot < length (mm_slots mm) \<and> mm_slots mm ! slot"
    using where_true_props(2) [of "mm_slots mm"] unfolding w by auto
  show ?thesis
    using assms(1) s by (auto simp: mm_inv_def mm_shape_def mm_released_ok_def mm_owned_def mm'
        live_pages_def used_pages_def nth_list_update)
qed


lemma released_ok_update:
  assumes "mm_inv mm" and "k < max_prewarm_model"
    and "mm_ids mm' = (mm_ids mm)[k := a]" and "mm_released mm' = (mm_released mm)[k := r]"
    and "mm_slots mm' = (mm_slots mm)[k := b]"
    and "distinct r" and "set r \<subseteq> {0 ..< int (length a)}" and "b \<Longrightarrow> a = []"
  shows "mm_released_ok mm'"
  using assms by (auto simp: mm_inv_def mm_shape_def mm_released_ok_def nth_list_update)

lemma free_prewarm_slot_ok:
  assumes inv: "mm_inv mm" and s: "slot < max_prewarm_model"
  shows "\<exists>mm'. free_prewarm_slot slot mm = Inr mm' \<and> mm_inv mm' \<and> mm_slots mm' ! slot
    \<and> mm_ids mm' ! slot = []
    \<and> (\<forall>k. k \<noteq> slot \<longrightarrow> mm_ids mm' ! k = mm_ids mm ! k \<and> mm_released mm' ! k = mm_released mm ! k
          \<and> mm_slots mm' ! k = mm_slots mm ! k)
    \<and> mm_num_free mm' = mm_num_free mm + int (length (live_pages mm slot))
    \<and> mm_num_blocks mm' = mm_num_blocks mm
    \<and> mm_jobs mm' = mm_jobs mm @ [Unmap_Job slot 0 (length (mm_ids mm ! slot) * mm_block_size)]"
proof -
  note d = mm_invD [OF inv s]
  let ?ids = "mm_ids mm ! slot" and ?rel = "mm_released mm ! slot"
  let ?live = "live_list ?ids ?rel"
  let ?mm' = "mm\<lparr>mm_jobs := mm_jobs mm @ [Unmap_Job slot 0 (length ?ids * mm_block_size)],
    mm_phy := set_all (mm_phy mm) ?live True, mm_ids := (mm_ids mm)[slot := []],
    mm_released := (mm_released mm)[slot := []], mm_slots := (mm_slots mm)[slot := True],
    mm_num_free := mm_num_free mm + (int (length ?ids) - int (length ?rel))\<rparr>"
  have le: "length ?rel \<le> length ?ids"
    using distinct_card [OF d(4)] card_mono [OF _ d(5)] by simp
  have cnt: "int (length ?ids) - int (length ?rel) = int (length ?live)"
    using length_live_list [OF d(4,5)] le by simp
  have own: "mm_owned ?mm'" "np_set (mm_phy mm) ?live True = Inr (set_all (mm_phy mm) ?live True)"
  proof -
    have a: "mm_owned mm" "mm_shape mm" using inv by (simp_all add: mm_inv_def)
    note of = owned_free [OF a s, of ?mm' ?live]
    have p: "live_pages ?mm' k = live_pages mm k" if "k \<noteq> slot" for k
      using that by (simp add: live_pages_def)
    have q: "mset (live_pages mm slot) = mset (live_pages ?mm' slot) + mset ?live"
      using d by (simp add: live_pages_def)
    show "mm_owned ?mm'" by (rule of(1)) (use p q cnt in simp_all)
    show "np_set (mm_phy mm) ?live True = Inr (set_all (mm_phy mm) ?live True)"
      by (rule of(2)) (use p q cnt in simp_all)
  qed
  have run: "free_prewarm_slot slot mm = Inr ?mm'"
    using own(2) d by (simp add: free_prewarm_slot_def Let_def submit_def np_delete_ok)
  have "mm_released_ok ?mm'" by (rule released_ok_update [OF inv s]) simp_all
  moreover have "mm_shape ?mm'" using inv by (simp add: mm_inv_def mm_shape_def)
  ultimately have "mm_inv ?mm'" using own(1) by (simp add: mm_inv_def)
  with run d cnt show ?thesis by (simp add: live_pages_def)
qed

lemma free_kv_space_ok:
  assumes inv: "mm_inv mm" and s: "slot < max_prewarm_model"
    and off: "mm_block_size dvd kv_offset" "kv_offset \<le> length (mm_ids mm ! slot) * mm_block_size"
    and rel: "\<forall>r \<in> set (mm_released mm ! slot). int (kv_offset div mm_block_size) \<le> r"
  shows "\<exists>mm'. free_kv_space slot kv_offset mm = Inr mm' \<and> mm_inv mm'
    \<and> mm_ids mm' ! slot = take (kv_offset div mm_block_size) (mm_ids mm ! slot)
    \<and> mm_released mm' ! slot = []
    \<and> (\<forall>k. k \<noteq> slot \<longrightarrow> mm_ids mm' ! k = mm_ids mm ! k \<and> mm_released mm' ! k = mm_released mm ! k)
    \<and> mm_slots mm' = mm_slots mm \<and> mm_num_blocks mm' = mm_num_blocks mm
    \<and> mm_jobs mm' = mm_jobs mm @ [Unmap_Job slot kv_offset
          ((length (mm_ids mm ! slot) - kv_offset div mm_block_size) * mm_block_size)]"
proof -
  note d = mm_invD [OF inv s]
  let ?k = "kv_offset div mm_block_size"
  let ?ids = "mm_ids mm ! slot" and ?rel = "mm_released mm ! slot"
  let ?tail = "drop ?k ?ids" and ?rel' = "map (\<lambda>i. i - int ?k) ?rel"
  let ?live = "live_list ?tail ?rel'"
  have bs: "0 < mm_block_size" by (simp add: mm_block_size_def)
  then have k: "?k \<le> length ?ids" using off(2) by (metis div_le_mono nonzero_mult_div_cancel_right less_numeral_extra(3))
  have rel': "distinct ?rel'" "set ?rel' \<subseteq> {0 ..< int (length ?tail)}"
    using d(4,5) rel k by (auto simp: distinct_map inj_on_def of_nat_diff)
  let ?mm' = "mm\<lparr>mm_jobs := mm_jobs mm @ [Unmap_Job slot kv_offset (length ?tail * mm_block_size)],
    mm_phy := set_all (mm_phy mm) ?live True, mm_ids := (mm_ids mm)[slot := take ?k ?ids],
    mm_released := (mm_released mm)[slot := []],
    mm_num_free := mm_num_free mm + (int (length ?tail) - int (length ?rel))\<rparr>"
  have "length ?rel \<le> length ?tail"
    using distinct_card [OF rel'(1)] card_mono [OF _ rel'(2)] by simp
  then have cnt: "int (length ?tail) - int (length ?rel) = int (length ?live)"
    using length_live_list [OF rel'] by simp
  have split: "live_list ?ids ?rel = take ?k ?ids @ ?live"
  proof -
    have "[0..<length ?ids] = [0..<?k] @ map (\<lambda>i. i + ?k) [0..<length ?ids - ?k]"
      using k by (metis add_0 le_add_diff_inverse2 map_add_upt upt_add_eq_append zero_order(1) add.commute)
    moreover have "filter (\<lambda>i. int i \<notin> set ?rel) [0..<?k] = [0..<?k]"
      using rel by (auto simp: filter_id_conv)
    moreover have "map ((!) ?ids) [0..<?k] = take ?k ?ids" using k by (intro nth_equalityI) auto
    moreover have "filter (\<lambda>i. int (i + ?k) \<notin> set ?rel) [0..<length ?ids - ?k]
        = filter (\<lambda>i. int i \<notin> set ?rel') [0..<length ?tail]"
      using k by (intro filter_cong) (auto simp: image_iff)
    ultimately show ?thesis unfolding live_list_def
      by (simp add: filter_map o_def) (simp add: k add.commute)
  qed
  have own: "mm_owned ?mm'" "np_set (mm_phy mm) ?live True = Inr (set_all (mm_phy mm) ?live True)"
  proof -
    have a: "mm_owned mm" "mm_shape mm" using inv by (simp_all add: mm_inv_def)
    note of = owned_free [OF a s, of ?mm' ?live]
    have p: "live_pages ?mm' k = live_pages mm k" if "k \<noteq> slot" for k
      using that by (simp add: live_pages_def)
    have q: "mset (live_pages mm slot) = mset (live_pages ?mm' slot) + mset ?live"
      using d by (simp add: live_pages_def split)
    show "mm_owned ?mm'" by (rule of(1)) (use p q cnt in simp_all)
    show "np_set (mm_phy mm) ?live True = Inr (set_all (mm_phy mm) ?live True)"
      by (rule of(2)) (use p q cnt in simp_all)
  qed
  have run: "free_kv_space slot kv_offset mm = Inr ?mm'"
    using own(2) d by (simp add: free_kv_space_def Let_def submit_def np_delete_ok [OF rel'(2)])
  have "mm_released_ok ?mm'"
    by (rule released_ok_update [OF inv s, of _ "take ?k ?ids" "[]" "mm_slots mm ! slot"]) (simp_all add: d)
  moreover have "mm_shape ?mm'" using inv by (simp add: mm_inv_def mm_shape_def)
  ultimately have "mm_inv ?mm'" using own(1) by (simp add: mm_inv_def)
  with run d show ?thesis by (simp add: live_pages_def)
qed


lemma live_list_append:
  assumes "set r \<subseteq> {0 ..< int (length xs)}"
  shows "live_list (xs @ ys) r = live_list xs r @ ys"
proof -
  have "filter (\<lambda>i. int i \<notin> set r) [length xs..<length xs + length ys] = [length xs..<length xs + length ys]"
    using assms by (auto simp: filter_id_conv)
  moreover have "map ((!) (xs @ ys)) [length xs..<length xs + length ys] = ys"
    by (intro nth_equalityI) (auto simp: nth_append)
  moreover have "map ((!) (xs @ ys)) (filter (\<lambda>i. int i \<notin> set r) [0..<length xs])
      = map ((!) xs) (filter (\<lambda>i. int i \<notin> set r) [0..<length xs])"
    by (auto simp: nth_append)
  ultimately show ?thesis
    by (simp add: live_list_def upt_add_eq_append [OF le0])
qed

definition blocks_for :: "mem_manager \<Rightarrow> int \<Rightarrow> int" where
  "blocks_for mm sz = (if sz = 0 then mm_num_free mm else (sz - 1) div int mm_block_size + 1)"

lemma blocks_for_bounds:
  assumes "0 < sz"
  shows "sz \<le> blocks_for mm sz * int mm_block_size
     \<and> blocks_for mm sz * int mm_block_size < sz + int mm_block_size"
proof -
  have "0 < int mm_block_size" by (simp add: mm_block_size_def)
  then have "0 \<le> (sz - 1) mod int mm_block_size" "(sz - 1) mod int mm_block_size < int mm_block_size"
    by simp_all
  moreover have "(sz - 1) div int mm_block_size * int mm_block_size + (sz - 1) mod int mm_block_size = sz - 1"
    by simp
  ultimately have "sz \<le> ((sz - 1) div int mm_block_size + 1) * int mm_block_size
      \<and> ((sz - 1) div int mm_block_size + 1) * int mm_block_size < sz + int mm_block_size"
    unfolding distrib_right by linarith
  then show ?thesis using assms by (simp add: blocks_for_def)
qed

lemma mm_allocate_blocks_ok:
  assumes inv: "mm_inv mm" and s: "slot < max_prewarm_model" and used: "\<not> mm_slots mm ! slot"
    and sz: "0 \<le> sz" and fits: "blocks_for mm sz \<le> mm_num_free mm"
  shows "\<exists>mm' new. allocate_blocks slot sz sync kv mm
      = Inr (length (mm_ids mm ! slot) * mm_block_size, blocks_for mm sz * int mm_block_size, mm')
    \<and> mm_inv mm' \<and> int (length new) = blocks_for mm sz
    \<and> mm_ids mm' = (mm_ids mm)[slot := mm_ids mm ! slot @ new]
    \<and> mm_released mm' = mm_released mm \<and> mm_slots mm' = mm_slots mm
    \<and> mm_num_free mm' = mm_num_free mm - blocks_for mm sz
    \<and> mm_num_blocks mm' = mm_num_blocks mm
    \<and> mm_jobs mm' = mm_jobs mm @
        [Map_Job slot (length (mm_ids mm ! slot) * mm_block_size) (length new) new sync kv]"
proof -
  note d = mm_invD [OF inv s]
  let ?n = "blocks_for mm sz" and ?ids = "mm_ids mm ! slot"
  let ?new = "take (nat ?n) (where_true (mm_phy mm))"
  have cnt: "mm_num_free mm = int (length (where_true (mm_phy mm)))"
    using num_free_count [OF inv] by (simp add: length_where_true)
  have n0: "0 \<le> ?n"
    using sz cnt by (auto simp: blocks_for_def mm_block_size_def pos_imp_zdiv_nonneg_iff)
  have len: "int (length ?new) = ?n" using n0 fits cnt by simp
  then have nn: "nat ?n = length ?new" by simp
  let ?mm' = "mm\<lparr>mm_jobs := mm_jobs mm @ [Map_Job slot (length ?ids * mm_block_size) (nat ?n) ?new sync kv],
    mm_ids := (mm_ids mm)[slot := ?ids @ ?new], mm_phy := set_all (mm_phy mm) ?new False,
    mm_num_free := mm_num_free mm - ?n\<rparr>"
  have run: "allocate_blocks slot sz sync kv mm
      = Inr (length ?ids * mm_block_size, ?n * int mm_block_size, ?mm')"
    using d fits by (cases "sz = 0") (simp_all add: allocate_blocks_def Let_def submit_def blocks_for_def)
  have B: "distinct ?new" "\<forall>b \<in> set ?new. b < mm_num_blocks mm \<and> mm_phy mm ! b"
    using inv where_true_props [of "mm_phy mm"]
    by (auto simp: mm_inv_def mm_shape_def dest!: in_set_takeD)
  have own: "mm_owned ?mm'"
  proof (rule owned_take [OF _ _ s _ _ B])
    show "mm_owned mm" "mm_shape mm" using inv by (simp_all add: mm_inv_def)
    show "mset (live_pages ?mm' slot) = mset (live_pages mm slot) + mset ?new"
      using d by (simp add: live_pages_def live_list_append)
  qed (use len in \<open>simp_all add: live_pages_def\<close>)
  have "mm_released_ok ?mm'"
    by (rule released_ok_update [OF inv s, of _ "?ids @ ?new" "mm_released mm ! slot" False])
      (use d used list_update_id [of "mm_slots mm" slot] in auto)
  moreover have "mm_shape ?mm'" using inv by (simp add: mm_inv_def mm_shape_def)
  ultimately have "mm_inv ?mm'" using own by (simp add: mm_inv_def)
  with run len nn show ?thesis by (intro exI [of _ ?mm'] exI [of _ ?new]) (simp del: length_take)
qed


lemma np_take_ok: "\<forall>i \<in> set is. i < length xs \<Longrightarrow> np_take xs (map int is) = Inr (map ((!) xs) is)"
  by (subst np_take_def, subst np_indices_ok) (auto simp: o_def)

lemma length_kv_indices [simp]: "length (kv_indices logical k) = length logical * k"
  by (induction logical) (simp_all add: kv_indices_def)

lemma kv_indices_Cons: "kv_indices (b # bs) k = map (\<lambda>j. b * k + j) [0..<k] @ kv_indices bs k"
  by (simp add: kv_indices_def)

lemma div_block: "(b * k :: nat) \<le> i \<Longrightarrow> i < k + b * k \<Longrightarrow> i div k = b"
  by (metis add.commute mult_Suc mult.commute div_nat_eqI)

lemma kv_indices_mem: "i \<in> set (kv_indices bs k) \<longleftrightarrow> 0 < k \<and> i div k \<in> set bs"
proof -
  have "i \<in> (\<lambda>j. b * k + j) ` {0..<k} \<longleftrightarrow> 0 < k \<and> i div k = b" for b
  proof
    assume "0 < k \<and> i div k = b"
    then show "i \<in> (\<lambda>j. b * k + j) ` {0..<k}"
      by (intro image_eqI [of _ _ "i mod k"]) auto
  qed (auto simp: div_block)
  then show ?thesis by (auto simp: kv_indices_def)
qed

lemma distinct_kv_indices: "distinct logical \<Longrightarrow> distinct (kv_indices logical k)"
proof (induction logical)
  case (Cons b bs)
  have "i div k = b" if "i \<in> (\<lambda>j. b * k + j) ` {0..<k}" for i using that by (auto simp: div_block)
  with Cons show ?case
    by (auto simp: kv_indices_Cons distinct_map inj_on_def kv_indices_mem)
qed (simp add: kv_indices_def)

lemma kv_indices_less:
  assumes "\<forall>b \<in> set logical. b < tot" and "i \<in> set (kv_indices logical k)"
  shows "i < tot * k"
proof -
  have "i div k < tot" "0 < k" using assms by (auto simp: kv_indices_mem)
  then show ?thesis by (simp add: div_less_iff_less_mult)
qed

lemma live_list_release:
  assumes "distinct ps" and "\<forall>p \<in> set ps. p < length xs \<and> int p \<notin> set r"
  shows "mset (live_list xs r) = mset (live_list xs (r @ map int ps)) + mset (map ((!) xs) ps)"
proof -
  let ?P = "filter (\<lambda>i. int i \<notin> set r) [0..<length xs]"
  have eq: "filter (\<lambda>i. int i \<notin> set (r @ map int ps)) [0..<length xs] = filter (\<lambda>i. i \<notin> set ps) ?P"
    by (auto intro: filter_cong)
  have "mset (filter (\<lambda>i. i \<in> set ps) ?P) = mset ps"
    using assms by (intro set_eq_iff_mset_eq_distinct [THEN iffD1]) auto
  moreover have "mset ?P = mset (filter (\<lambda>i. i \<notin> set ps) ?P) + mset (filter (\<lambda>i. i \<in> set ps) ?P)"
    by (metis add.commute mset_filter multiset_partition)
  ultimately have "mset ?P = mset (filter (\<lambda>i. i \<notin> set ps) ?P) + mset ps" by simp
  then have "image_mset ((!) xs) (mset ?P)
      = image_mset ((!) xs) (mset (filter (\<lambda>i. i \<notin> set ps) ?P)) + image_mset ((!) xs) (mset ps)"
    by (metis image_mset_union)
  then show ?thesis unfolding live_list_def eq mset_map .
qed

lemma set_all_append: "set_all bs (xs @ ys) v = set_all (set_all bs xs v) ys v"
  by (simp add: set_all_def)

text \<open>What the caller of \<open>release_blocks\<close> owes: fresh, distinct blocks of this KV cache.\<close>

definition release_pre :: "nat \<Rightarrow> nat \<Rightarrow> nat list \<Rightarrow> nat \<Rightarrow> nat \<Rightarrow> mem_manager \<Rightarrow> bool" where
  "release_pre slot kv_offset logical logical_block_size tot mm \<longleftrightarrow>
     (let k = logical_block_size div 2 div mm_block_size; kv_start = kv_offset div mm_block_size in
      distinct logical \<and> (\<forall>b \<in> set logical. b < tot)
      \<and> kv_start + 2 * (tot * k) \<le> length (mm_ids mm ! slot)
      \<and> (\<forall>i \<in> set (kv_indices logical k).
           int (i + kv_start) \<notin> set (mm_released mm ! slot)
           \<and> int (i + tot * k + kv_start) \<notin> set (mm_released mm ! slot)))"

lemma release_blocks_ok:
  assumes inv: "mm_inv mm" and s: "slot < max_prewarm_model"
    and pre: "release_pre slot kv_offset logical lbs tot mm"
  shows "\<exists>mm'. release_blocks slot kv_offset logical lbs tot mm = Inr mm' \<and> mm_inv mm'
    \<and> mm_ids mm' = mm_ids mm \<and> mm_slots mm' = mm_slots mm \<and> mm_jobs mm' = mm_jobs mm
    \<and> mm_num_blocks mm' = mm_num_blocks mm
    \<and> mm_num_free mm' = mm_num_free mm + int (2 * length logical * (lbs div 2 div mm_block_size))
    \<and> (\<forall>k. k \<noteq> slot \<longrightarrow> mm_released mm' ! k = mm_released mm ! k)
    \<and> (\<forall>r \<in> set (mm_released mm' ! slot). r \<in> set (mm_released mm ! slot)
          \<or> int (kv_offset div mm_block_size) \<le> r)"
proof -
  note d = mm_invD [OF inv s]
  let ?k = "lbs div 2 div mm_block_size" and ?st = "kv_offset div mm_block_size"
  let ?ids = "mm_ids mm ! slot" and ?rel = "mm_released mm ! slot"
  let ?ki = "kv_indices logical ?k"
  let ?vi = "map (\<lambda>i. i + tot * ?k) ?ki"
  let ?ps = "map (\<lambda>i. i + ?st) (?ki @ ?vi)"
  let ?pages = "map ((!) ?ids) ?ps"
  have p: "distinct logical" "\<forall>b \<in> set logical. b < tot" "?st + 2 * (tot * ?k) \<le> length ?ids"
    "\<forall>i \<in> set ?ki. int (i + ?st) \<notin> set ?rel \<and> int (i + tot * ?k + ?st) \<notin> set ?rel"
    using pre by (simp_all add: release_pre_def Let_def)
  have ki: "i < tot * ?k" if "i \<in> set ?ki" for i using kv_indices_less [OF p(2) that] .
  have dist: "distinct ?ps"
    using distinct_kv_indices [OF p(1), of ?k] ki by (fastforce simp: distinct_map inj_on_def)
  have inb: "\<forall>q \<in> set ?ps. q < length ?ids \<and> int q \<notin> set ?rel"
    using p(3,4) ki by (fastforce simp: add.commute)
  have pages: "map ((!) (drop ?st ?ids)) ?ki @ map ((!) (drop ?st ?ids)) ?vi = ?pages"
    using p(3) by (auto simp: add.commute add.left_commute)
  let ?mm' = "mm\<lparr>mm_phy := set_all (mm_phy mm) ?pages True,
    mm_released := (mm_released mm)[slot := ?rel @ map int ?ps],
    mm_num_free := mm_num_free mm + int (length logical * ?k * 2)\<rparr>"
  have own: "mm_owned ?mm'" "np_set (mm_phy mm) ?pages True = Inr (set_all (mm_phy mm) ?pages True)"
  proof -
    have a: "mm_owned mm" "mm_shape mm" using inv by (simp_all add: mm_inv_def)
    note of = owned_free [OF a s, of ?mm' ?pages]
    have q: "live_pages ?mm' j = live_pages mm j" if "j \<noteq> slot" for j
      using that by (simp add: live_pages_def)
    have l: "mset (live_pages mm slot) = mset (live_pages ?mm' slot) + mset ?pages"
      using live_list_release [OF dist inb] d by (simp add: live_pages_def)
    show "mm_owned ?mm'" by (rule of(1)) (use q l in simp_all)
    show "np_set (mm_phy mm) ?pages True = Inr (set_all (mm_phy mm) ?pages True)"
      by (rule of(2)) (use q l in simp_all)
  qed
  have bnd: "\<forall>x \<in> set ?pages. x < length (mm_phy mm)"
    using own(2) unfolding np_set_def by (auto simp del: set_map)
  have run: "release_blocks slot kv_offset logical lbs tot mm = Inr ?mm'"
  proof -
    let ?kp = "map ((!) (drop ?st ?ids)) ?ki" and ?vp = "map ((!) (drop ?st ?ids)) ?vi"
    have "np_take (drop ?st ?ids) (map int ?ki) = Inr ?kp" "np_take (drop ?st ?ids) (map int ?vi) = Inr ?vp"
      using p(3) ki by (fastforce intro!: np_take_ok)+
    moreover have "np_set (mm_phy mm) ?kp True = Inr (set_all (mm_phy mm) ?kp True)"
      "np_set (set_all (mm_phy mm) ?kp True) ?vp True = Inr (set_all (set_all (mm_phy mm) ?kp True) ?vp True)"
      using bnd unfolding pages [symmetric] by (simp_all add: np_set_def)
    moreover have "set_all (set_all (mm_phy mm) ?kp True) ?vp True = set_all (mm_phy mm) ?pages True"
      unfolding pages [symmetric] set_all_append ..
    moreover have "?rel @ map (\<lambda>i. int i + int ?st) (?ki @ ?vi) = ?rel @ map int ?ps" by simp
    ultimately show ?thesis using d unfolding release_blocks_def Let_def by (simp del: map_map map_append)
  qed
  have "mm_released_ok ?mm'"
  proof (rule released_ok_update [OF inv s, of _ ?ids _ "mm_slots mm ! slot"])
    show "distinct (?rel @ map int ?ps)"
    proof -
      have "set ?rel \<inter> set (map int ?ps) = {}" 
      proof -
        have "x \<notin> set ?rel" if "x \<in> int ` set ?ps" for x
          using that inb by (elim imageE) blast
        then show ?thesis unfolding list.set_map(1) [of int ?ps] by blast
      qed
      moreover have "distinct (map int ?ps)" using dist by (simp only: distinct_map inj_on_of_nat)
      ultimately show ?thesis using d(4) unfolding distinct_append by blast
    qed
    show "set (?rel @ map int ?ps) \<subseteq> {0..<int (length ?ids)}"
    proof -
      have "x \<in> {0..<int (length ?ids)}" if "x \<in> int ` set ?ps" for x
        using that inb by (elim imageE) (metis atLeastLessThan_iff of_nat_0_le_iff of_nat_less_iff)
      then show ?thesis using d(5) unfolding set_append list.set_map(1) [of int ?ps] by blast
    qed
  qed (use d in simp_all)
  moreover have "mm_shape ?mm'" using inv by (simp add: mm_inv_def mm_shape_def)
  ultimately have "mm_inv ?mm'" using own by (simp add: mm_inv_def)
  with run d show ?thesis by (intro exI [of _ ?mm']) auto
qed

end
