(* ===== verification/Memory_Thms.thy ===== *)
theory Memory_Thms
  imports Memory_Manager
begin

text \<open>
  The memory of a worker over any sequence of its operations: a step relation, the states it
  reaches, and what holds in all of them.
\<close>

inductive mm_step :: "mem_manager \<Rightarrow> mem_manager \<Rightarrow> bool" where
  step_allocate_slot: "allocate_prewarm_slot mm = Inr (slot, mm') \<Longrightarrow> mm_step mm mm'"
| step_free_slot: "slot < max_prewarm_model \<Longrightarrow> free_prewarm_slot slot mm = Inr mm' \<Longrightarrow> mm_step mm mm'"
| step_allocate: "slot < max_prewarm_model \<Longrightarrow> \<not> mm_slots mm ! slot \<Longrightarrow> 0 \<le> sz
    \<Longrightarrow> allocate_blocks slot sz sync kv mm = Inr (offset, allocated, mm') \<Longrightarrow> mm_step mm mm'"
| step_free_kv: "slot < max_prewarm_model \<Longrightarrow> mm_block_size dvd kv_offset
    \<Longrightarrow> kv_offset \<le> length (mm_ids mm ! slot) * mm_block_size
    \<Longrightarrow> \<forall>r \<in> set (mm_released mm ! slot). int (kv_offset div mm_block_size) \<le> r
    \<Longrightarrow> free_kv_space slot kv_offset mm = Inr mm' \<Longrightarrow> mm_step mm mm'"
| step_release: "slot < max_prewarm_model
    \<Longrightarrow> release_pre slot kv_offset logical logical_block_size tot mm
    \<Longrightarrow> release_blocks slot kv_offset logical logical_block_size tot mm = Inr mm' \<Longrightarrow> mm_step mm mm'"

inductive mm_reach :: "nat \<Rightarrow> mem_manager \<Rightarrow> bool" for n where
  reach_init: "mm_reach n (init_manager n)"
| reach_step: "mm_reach n mm \<Longrightarrow> mm_step mm mm' \<Longrightarrow> mm_reach n mm'"

lemma allocate_blocks_fits:
  assumes "allocate_blocks slot sz sync kv mm = Inr (offset, allocated, mm')"
  shows "blocks_for mm sz \<le> mm_num_free mm"
  using assms by (auto simp: allocate_blocks_def blocks_for_def Let_def split: if_splits)

text \<open>The pages that the submitted jobs map, in submission order.\<close>

definition job_view :: "nat \<Rightarrow> nat \<Rightarrow> vmm_job \<Rightarrow> nat option \<Rightarrow> nat option" where
  "job_view s off j v = (case j of
     Map_Job slot offset n ids sync kv \<Rightarrow>
       if s = slot \<and> (\<exists>i<n. off = offset + i * mm_block_size)
       then Some (ids ! ((off - offset) div mm_block_size)) else v
   | Unmap_Job slot offset sz \<Rightarrow> if s = slot \<and> offset \<le> off \<and> off < offset + sz then None else v)"

definition jobs_view :: "vmm_job list \<Rightarrow> nat \<Rightarrow> nat \<Rightarrow> nat option" where
  "jobs_view js s off = fold (job_view s off) js None"

definition tables_ok :: "mem_manager \<Rightarrow> bool" where
  "tables_ok mm \<longleftrightarrow> (\<forall>s i. jobs_view (mm_jobs mm) s (i * mm_block_size)
     = (if s < max_prewarm_model \<and> i < length (mm_ids mm ! s) then Some (mm_ids mm ! s ! i) else None))"

lemma block_size_pos [simp]: "0 < mm_block_size"
  by (simp add: mm_block_size_def)

lemma run_job_view:
  assumes "run_job drv nh j tr = Inr tr'"
  shows "page_view tr' s off = job_view s off j (page_view tr s off)"
proof (cases j)
  case (Map_Job slot offset n ids sync kv)
  with assms have "map_blocks drv nh mm_block_size slot offset n ids sync kv tr = Inr tr'"
    by (simp add: run_job_def)
  from map_blocks_events [OF this] show ?thesis
    by (simp add: Map_Job job_view_def page_view_append map_events_view)
next
  case (Unmap_Job slot offset sz)
  with assms show ?thesis
    by (auto simp: run_job_def unmap_blocks_def job_view_def page_view_append)
qed

lemma run_jobs_view:
  assumes "fold_r (run_job drv nh) js tr = Inr tr'"
  shows "page_view tr' s off = fold (job_view s off) js (page_view tr s off)"
  using assms
proof (induction js arbitrary: tr)
  case (Cons j js)
  then obtain tr1 where "run_job drv nh j tr = Inr tr1" "fold_r (run_job drv nh) js tr1 = Inr tr'" by auto
  with Cons.IH run_job_view show ?case by simp
qed simp

lemma job_view_unmap:
  "job_view s (i * mm_block_size) (Unmap_Job slot (a * mm_block_size) (n * mm_block_size)) v
    = (if s = slot \<and> a \<le> i \<and> i < a + n then None else v)"
proof -
  have "i * mm_block_size < a * mm_block_size + n * mm_block_size \<longleftrightarrow> i < a + n"
    by (metis add_mult_distrib block_size_pos mult_less_cancel2)
  then show ?thesis by (simp add: job_view_def)
qed

lemma job_view_map:
  "job_view s (i * mm_block_size) (Map_Job slot (a * mm_block_size) n ids sync kv) v
    = (if s = slot \<and> a \<le> i \<and> i < a + n then Some (ids ! (i - a)) else v)"
proof -
  have eq: "i * mm_block_size = a * mm_block_size + j * mm_block_size \<longleftrightarrow> i = a + j" for j
    by (metis add_mult_distrib block_size_pos mult_cancel2 less_irrefl)
  have "(\<exists>j<n. i = a + j) \<longleftrightarrow> a \<le> i \<and> i < a + n"
    by (metis add_diff_cancel_left' le_add1 le_add_diff_inverse less_diff_conv2 nat_add_left_cancel_less)
  moreover have "(i * mm_block_size - a * mm_block_size) div mm_block_size = i - a"
    by (metis block_size_pos diff_mult_distrib nonzero_mult_div_cancel_right less_irrefl)
  ultimately show ?thesis by (simp add: job_view_def eq)
qed

lemma jobs_view_snoc: "jobs_view (js @ [j]) s off = job_view s off j (jobs_view js s off)"
  by (simp add: jobs_view_def)

lemma mm_step_inv:
  assumes "mm_step mm mm'" and inv: "mm_inv mm" and tab: "tables_ok mm"
  shows "mm_inv mm' \<and> tables_ok mm' \<and> mm_num_blocks mm' = mm_num_blocks mm"
  using assms(1)
proof cases
  case (step_allocate_slot slot)
  then have "mm_jobs mm' = mm_jobs mm" "mm_ids mm' = mm_ids mm" "mm_num_blocks mm' = mm_num_blocks mm"
    by (auto simp: allocate_prewarm_slot_def split: list.splits)
  with allocate_prewarm_slot_inv [OF inv step_allocate_slot] tab show ?thesis by (simp add: tables_ok_def)
next
  case (step_free_slot slot)
  from free_prewarm_slot_ok [OF inv step_free_slot(1)] step_free_slot(2) have
    a: "mm_inv mm'" "mm_ids mm' ! slot = []" "\<forall>k. k \<noteq> slot \<longrightarrow> mm_ids mm' ! k = mm_ids mm ! k"
      "mm_jobs mm' = mm_jobs mm @ [Unmap_Job slot (0 * mm_block_size) (length (mm_ids mm ! slot) * mm_block_size)]"
      "mm_num_blocks mm' = mm_num_blocks mm" by auto
  have "jobs_view (mm_jobs mm') s (i * mm_block_size)
      = (if s < max_prewarm_model \<and> i < length (mm_ids mm' ! s) then Some (mm_ids mm' ! s ! i) else None)" for s i
    using a(2,3) tab unfolding a(4) jobs_view_snoc job_view_unmap
    by (cases "s = slot") (auto simp: tables_ok_def)
  then have "tables_ok mm'" by (simp add: tables_ok_def)
  with a show ?thesis by simp
next
  case (step_allocate slot sz sync kv offset allocated)
  from mm_allocate_blocks_ok [OF inv step_allocate(1-3) allocate_blocks_fits [OF step_allocate(4)], of sync kv]
    step_allocate(4) obtain new where
    a: "mm_inv mm'" "mm_ids mm' = (mm_ids mm)[slot := mm_ids mm ! slot @ new]"
      "mm_jobs mm' = mm_jobs mm @ [Map_Job slot (length (mm_ids mm ! slot) * mm_block_size) (length new) new sync kv]"
      "mm_num_blocks mm' = mm_num_blocks mm" by auto
  have l: "length (mm_ids mm) = max_prewarm_model" using inv by (simp add: mm_inv_def mm_shape_def)
  have "tables_ok mm'" unfolding tables_ok_def a(3) jobs_view_snoc job_view_map
    using a(2) tab step_allocate(1) l by (auto simp: tables_ok_def nth_list_update nth_append)
  with a show ?thesis by simp
next
  case (step_free_kv slot kv_offset)
  from free_kv_space_ok [OF inv step_free_kv(1-4)] step_free_kv(5) have
    a: "mm_inv mm'" "mm_ids mm' ! slot = take (kv_offset div mm_block_size) (mm_ids mm ! slot)"
      "\<forall>k. k \<noteq> slot \<longrightarrow> mm_ids mm' ! k = mm_ids mm ! k"
      "mm_jobs mm' = mm_jobs mm @ [Unmap_Job slot (kv_offset div mm_block_size * mm_block_size)
          ((length (mm_ids mm ! slot) - kv_offset div mm_block_size) * mm_block_size)]"
      "mm_num_blocks mm' = mm_num_blocks mm"
    using step_free_kv(2) by auto
  have "jobs_view (mm_jobs mm') s (i * mm_block_size)
      = (if s < max_prewarm_model \<and> i < length (mm_ids mm' ! s) then Some (mm_ids mm' ! s ! i) else None)" for s i
    using a(2,3) tab unfolding a(4) jobs_view_snoc job_view_unmap
    by (cases "s = slot") (auto simp: tables_ok_def)
  then have "tables_ok mm'" by (simp add: tables_ok_def)
  with a show ?thesis by simp
next
  case (step_release slot kv_offset logical logical_block_size tot)
  from release_blocks_ok [OF inv step_release(1,2)] step_release(3) have
    "mm_inv mm'" "mm_ids mm' = mm_ids mm" "mm_jobs mm' = mm_jobs mm" "mm_num_blocks mm' = mm_num_blocks mm"
    by auto
  with tab show ?thesis by (simp add: tables_ok_def)
qed

lemma mm_reach_inv: "mm_reach n mm \<Longrightarrow> mm_inv mm \<and> tables_ok mm \<and> mm_num_blocks mm = n"
proof (induction rule: mm_reach.induct)
  case reach_init
  have "tables_ok (init_manager n)" by (simp add: tables_ok_def init_manager_def jobs_view_def)
  then show ?case using init_manager_inv by (simp add: init_manager_def)
next
  case (reach_step mm mm')
  then show ?case using mm_step_inv by metis
qed


lemma count_live:
  assumes "mm_inv mm"
  shows "(\<Sum>s<max_prewarm_model. count (mset (live_pages mm s)) b)
    = (if b \<in> used_pages mm then 1 else 0)"
proof -
  have "count (\<Sum>s<max_prewarm_model. mset (live_pages mm s)) b = count (mset_set (used_pages mm)) b"
    using assms by (simp add: mm_inv_def mm_owned_def)
  then show ?thesis by (simp add: count_sum)
qed

lemma live_used:
  assumes "mm_inv mm" and "s < max_prewarm_model" and "b \<in> set (live_pages mm s)"
  shows "b \<in> used_pages mm"
proof (rule ccontr)
  assume "b \<notin> used_pages mm"
  with count_live [OF assms(1), of b] assms(2) have "count (mset (live_pages mm s)) b = 0" by simp
  with assms(3) show False by simp
qed

lemma used_unique:
  assumes "mm_inv mm" and "b \<in> used_pages mm"
  shows "\<exists>s < max_prewarm_model. count (mset (live_pages mm s)) b = 1
    \<and> (\<forall>k < max_prewarm_model. k \<noteq> s \<longrightarrow> b \<notin> set (live_pages mm k))"
proof -
  have "(\<Sum>s<max_prewarm_model. count (mset (live_pages mm s)) b) = 1"
    using count_live [OF assms(1), of b] assms(2) by simp
  then obtain s where "s < max_prewarm_model" "count (mset (live_pages mm s)) b = 1"
    "\<forall>k < max_prewarm_model. k \<noteq> s \<longrightarrow> count (mset (live_pages mm k)) b = 0"
    unfolding sum_eq_1_iff [OF finite_lessThan] by (metis lessThan_iff)
  then show ?thesis by (auto simp: count_eq_zero_iff)
qed

text \<open>
  C8. In every state of a worker's memory, reached by any sequence of its operations: the
  counter of free pages is exact, a page marked free is held by no slot, and every other page
  is held at exactly one live position of exactly one slot. So no page is leaked and none is
  shared between two models.
\<close>

theorem memory_exact:
  assumes "mm_reach n mm"
  shows "mm_num_free mm = int (card {b. b < n \<and> mm_phy mm ! b})
    \<and> (\<forall>b < n. if mm_phy mm ! b then \<forall>s < max_prewarm_model. b \<notin> set (live_pages mm s)
        else \<exists>s < max_prewarm_model. count (mset (live_pages mm s)) b = 1
          \<and> (\<forall>k < max_prewarm_model. k \<noteq> s \<longrightarrow> b \<notin> set (live_pages mm k)))"
proof -
  from mm_reach_inv [OF assms] have i: "mm_inv mm" "mm_num_blocks mm = n" by simp_all
  then have "length (mm_phy mm) = n" by (simp add: mm_inv_def mm_shape_def)
  with num_free_count [OF i(1)] have "mm_num_free mm = int (card {b. b < n \<and> mm_phy mm ! b})"
    by (simp add: count_true_eq_card)
  moreover have "b \<notin> set (live_pages mm s)" if "mm_phy mm ! b" "s < max_prewarm_model" for b s
    using live_used [OF i(1) that(2)] that(1) by (auto simp: used_pages_def)
  ultimately show ?thesis using used_unique [OF i(1)] i(2) by (simp add: used_pages_def)
qed

text \<open>
  C15. The background thread catches up with the books: once the submitted jobs have run, in
  order, page \<open>i\<close> of the address range of a slot is mapped to the \<open>i\<close>-th recorded page of
  that slot, and nothing else is mapped.
\<close>

theorem memory_page_tables:
  assumes "mm_reach n mm" and "fold_r (run_job drv n) (mm_jobs mm) [] = Inr tr"
  shows "page_view tr s (i * mm_block_size)
    = (if s < max_prewarm_model \<and> i < length (mm_ids mm ! s) then Some (mm_ids mm ! s ! i) else None)"
proof -
  have "page_view tr s (i * mm_block_size) = jobs_view (mm_jobs mm) s (i * mm_block_size)"
    using run_jobs_view [OF assms(2)] by (simp add: jobs_view_def page_view_def)
  with mm_reach_inv [OF assms(1)] show ?thesis by (simp add: tables_ok_def)
qed

text \<open>
  The operations fail only for want of resources: a slot is found unless all are taken, a
  slot can always be freed and gives back exactly its live pages, and an allocation succeeds
  exactly when enough pages are free, extending the slot contiguously by the least number of
  pages that holds the size (by all free pages for size 0).
\<close>

theorem memory_ops_total:
  assumes "mm_reach n mm" and "slot < max_prewarm_model"
  shows "(if \<exists>s < max_prewarm_model. mm_slots mm ! s
      then \<exists>s mm'. allocate_prewarm_slot mm = Inr (s, mm') \<and> s < max_prewarm_model \<and> mm_slots mm ! s
      else allocate_prewarm_slot mm = Inl RuntimeError)
    \<and> (\<exists>mm'. free_prewarm_slot slot mm = Inr mm'
          \<and> mm_num_free mm' = mm_num_free mm + int (length (live_pages mm slot)))
    \<and> (\<not> mm_slots mm ! slot \<and> 0 \<le> sz \<longrightarrow>
        (if blocks_for mm sz \<le> mm_num_free mm
         then \<exists>mm'. allocate_blocks slot sz sync kv mm = Inr (length (mm_ids mm ! slot) * mm_block_size,
                blocks_for mm sz * int mm_block_size, mm')
              \<and> mm_num_free mm' = mm_num_free mm - blocks_for mm sz
         else allocate_blocks slot sz sync kv mm = Inl ValueError))"
proof -
  have inv: "mm_inv mm" using mm_reach_inv [OF assms(1)] by simp
  then have len: "length (mm_slots mm) = max_prewarm_model" by (simp add: mm_inv_def mm_shape_def)
  have "if \<exists>s < max_prewarm_model. mm_slots mm ! s
      then \<exists>s mm'. allocate_prewarm_slot mm = Inr (s, mm') \<and> s < max_prewarm_model \<and> mm_slots mm ! s
      else allocate_prewarm_slot mm = Inl RuntimeError"
  proof (cases "where_true (mm_slots mm)")
    case Nil
    then have "{i. i < length (mm_slots mm) \<and> mm_slots mm ! i} = {}"
      using where_true_props(2) [of "mm_slots mm"] by simp
    with Nil len show ?thesis by (auto simp: allocate_prewarm_slot_def)
  next
    case (Cons s r)
    then have "s \<in> {i. i < length (mm_slots mm) \<and> mm_slots mm ! i}"
      using where_true_props(2) [of "mm_slots mm"] by auto
    with Cons len show ?thesis by (auto simp: allocate_prewarm_slot_def)
  qed
  moreover have "\<exists>mm'. free_prewarm_slot slot mm = Inr mm'
          \<and> mm_num_free mm' = mm_num_free mm + int (length (live_pages mm slot))"
    using free_prewarm_slot_ok [OF inv assms(2)] by blast
  moreover have "\<not> mm_slots mm ! slot \<and> 0 \<le> sz \<longrightarrow>
        (if blocks_for mm sz \<le> mm_num_free mm
         then \<exists>mm'. allocate_blocks slot sz sync kv mm = Inr (length (mm_ids mm ! slot) * mm_block_size,
                blocks_for mm sz * int mm_block_size, mm')
              \<and> mm_num_free mm' = mm_num_free mm - blocks_for mm sz
         else allocate_blocks slot sz sync kv mm = Inl ValueError)"
  proof (cases "blocks_for mm sz \<le> mm_num_free mm")
    case True
    then show ?thesis using mm_allocate_blocks_ok [OF inv assms(2), of sz sync kv] by auto
  next
    case False
    then show ?thesis by (auto simp: allocate_blocks_def blocks_for_def split: if_splits)
  qed
  ultimately show ?thesis by blast
qed

lemma free_empty_slots:
  assumes "mm_inv mm" and "\<forall>s \<in> set ss. s < max_prewarm_model \<and> mm_slots mm ! s"
  shows "\<exists>mm'. fold_r free_prewarm_slot ss mm = Inr mm' \<and> mm_inv mm'
    \<and> mm_num_blocks mm' = mm_num_blocks mm \<and> mm_num_free mm' = mm_num_free mm
    \<and> (\<forall>s < max_prewarm_model. live_pages mm' s = live_pages mm s)"
  using assms
proof (induction ss arbitrary: mm)
  case (Cons s ss)
  then have s: "s < max_prewarm_model" "mm_slots mm ! s" by simp_all
  obtain mm1 where m: "free_prewarm_slot s mm = Inr mm1" "mm_inv mm1" "mm_slots mm1 ! s" "mm_ids mm1 ! s = []"
    "\<forall>k. k \<noteq> s \<longrightarrow> mm_ids mm1 ! k = mm_ids mm ! k \<and> mm_released mm1 ! k = mm_released mm ! k
          \<and> mm_slots mm1 ! k = mm_slots mm ! k"
    "mm_num_free mm1 = mm_num_free mm + int (length (live_pages mm s))" "mm_num_blocks mm1 = mm_num_blocks mm"
    using free_prewarm_slot_ok [OF Cons.prems(1) s(1)] by blast
  have e: "mm_ids mm ! s = []" using mm_invD(6) [OF Cons.prems(1) s(1)] s(2) by simp
  have "\<forall>k \<in> set ss. k < max_prewarm_model \<and> mm_slots mm1 ! k"
    using Cons.prems(2) m(3,5) by (metis list.set_intros(2))
  from Cons.IH [OF m(2) this] obtain mm' where "fold_r free_prewarm_slot ss mm1 = Inr mm'" "mm_inv mm'"
    "mm_num_blocks mm' = mm_num_blocks mm1" "mm_num_free mm' = mm_num_free mm1"
    "\<forall>k < max_prewarm_model. live_pages mm' k = live_pages mm1 k" by blast
  moreover have "live_pages mm1 k = live_pages mm k" for k
    using m(4,5) e by (cases "k = s") (simp_all add: live_pages_def live_list_def)
  moreover have "live_pages mm s = []" using e by (simp add: live_pages_def live_list_def)
  ultimately show ?case using m by simp
qed simp


text \<open>
  \<open>reset\<close> does not do what it says: it walks over the slots that are free, so it gives
  back no page at all, and yet reports the whole memory as free.
\<close>

theorem reset_frees_nothing:
  assumes "mm_reach n mm"
  shows "\<exists>mm'. reset mm = Inr (int n * int mm_block_size, mm')
    \<and> get_free_memory mm' = get_free_memory mm
    \<and> (\<forall>s < max_prewarm_model. live_pages mm' s = live_pages mm s)"
proof -
  from mm_reach_inv [OF assms] have i: "mm_inv mm" "mm_num_blocks mm = n" by simp_all
  then have "\<forall>s \<in> set (where_true (mm_slots mm)). s < max_prewarm_model \<and> mm_slots mm ! s"
    by (simp add: mm_inv_def mm_shape_def)
  from free_empty_slots [OF i(1) this] i(2) show ?thesis
    by (auto simp: reset_def get_free_memory_def)
qed

subsection \<open>A worked run\<close>

text \<open>Two pages; one slot is taken and one page allocated to it.\<close>

definition ex_mm1 :: mem_manager where
  "ex_mm1 = (init_manager 2)\<lparr>mm_slots := (replicate max_prewarm_model True)[0 := False]\<rparr>"

definition ex_mm2 :: mem_manager where
  "ex_mm2 = ex_mm1\<lparr>mm_num_free := 1, mm_phy := [False, True],
     mm_ids := (replicate max_prewarm_model [])[0 := [0]],
     mm_jobs := [Map_Job 0 0 1 [0] True False]\<rparr>"

lemma ex_slot: "allocate_prewarm_slot (init_manager 2) = Inr (0, ex_mm1)"
  by (simp add: allocate_prewarm_slot_def init_manager_def ex_mm1_def where_true_def max_prewarm_model_def upt_rec)

lemma ex_blocks: "allocate_blocks 0 1000 True False ex_mm1 = Inr (0, 2097152, ex_mm2)"
  by (simp add: allocate_blocks_def ex_mm1_def ex_mm2_def init_manager_def max_prewarm_model_def
      mm_block_size_def Let_def nth_r_def submit_def where_true_def set_all_def upt_rec
      numeral_2_eq_2)

lemma ex_reach: "mm_reach 2 ex_mm2"
proof -
  from ex_slot have 1: "mm_reach 2 ex_mm1" by (blast intro: mm_reach.intros mm_step.intros)
  from ex_blocks have "mm_step ex_mm1 ex_mm2"
    by (rule step_allocate [rotated 3]) (simp_all add: ex_mm1_def init_manager_def max_prewarm_model_def)
  with 1 show ?thesis by (rule reach_step)
qed

lemma ex_mm2_live: "live_pages ex_mm2 0 = [0]"
  by (simp add: live_pages_def ex_mm2_def ex_mm1_def init_manager_def max_prewarm_model_def)

theorem memory_exact_witness: "mm_num_free ex_mm2 = int (card {b. b < 2 \<and> mm_phy ex_mm2 ! b})"
  using memory_exact [OF ex_reach] by simp

lemma ex_jobs: "\<exists>tr. fold_r (run_job (\<lambda>_ _. 0) 2) (mm_jobs ex_mm2) [] = Inr tr"
  by (simp add: ex_mm2_def run_job_def map_blocks_def map_plain_step_def map_page_def cu_call_def
      check_cuda_def nth_r_def)

theorem memory_page_tables_witness:
  "\<exists>tr. fold_r (run_job (\<lambda>_ _. 0) 2) (mm_jobs ex_mm2) [] = Inr tr \<and> page_view tr 0 0 = Some 0"
proof -
  from ex_jobs obtain tr where tr: "fold_r (run_job (\<lambda>_ _. 0) 2) (mm_jobs ex_mm2) [] = Inr tr" by blast
  have "page_view tr 0 (0 * mm_block_size) = Some 0"
    using memory_page_tables [OF ex_reach tr, of 0 0]
    by (simp add: ex_mm2_def max_prewarm_model_def)
  with tr show ?thesis by auto
qed

theorem memory_ops_total_witness:
  "allocate_blocks 0 2097153 True False ex_mm2 = Inl ValueError"
  using memory_ops_total [OF ex_reach, of 0 2097153 True False]
  by (simp add: blocks_for_def ex_mm2_def ex_mm1_def max_prewarm_model_def mm_block_size_def
      init_manager_def)

theorem reset_frees_nothing_witness:
  "\<exists>mm'. reset ex_mm2 = Inr (2 * int mm_block_size, mm') \<and> live_pages mm' 0 = [0]"
proof -
  have "0 < max_prewarm_model" by (simp add: max_prewarm_model_def)
  with reset_frees_nothing [OF ex_reach] ex_mm2_live show ?thesis by auto
qed

lemma ex_map: "map_blocks (\<lambda>_ _. 0) 4 2 0 0 3 [3, 1, 2] True True []
  = Inr ([] @ [CuMap 0 0 2 3, CuMap 0 2 2 1, CuSetAccess 0 0 2, CuSetAccess 0 2 2] @ Signal 2
      # [CuMap 0 4 2 2, CuSetAccess 0 4 2, Signal 6])"
  by (simp add: map_blocks_def map_kv_step_def map_kv_last_def map_page_def cu_call_def
      check_cuda_def nth_r_def upt_rec)

theorem map_blocks_pages_witness:
  "page_view [CuMap 0 0 2 3, CuMap 0 2 2 1, CuSetAccess 0 0 2, CuSetAccess 0 2 2, Signal 2,
      CuMap 0 4 2 2, CuSetAccess 0 4 2, Signal 6] 0 4 = Some 2"
proof -
  note m = map_blocks_pages [OF ex_map, THEN conjunct1, rule_format, of 2]
  show ?thesis using m by simp
qed

theorem map_blocks_signal_witness:
  "page_ready [] [CuMap 0 0 2 3, CuMap 0 2 2 1, CuSetAccess 0 0 2, CuSetAccess 0 2 2] 2 0 0 [3, 1, 2] 1"
  using map_blocks_signal [OF ex_map, of 0] by simp

end
