(* ===== verification/Block_Common.thy ===== *)
theory Block_Common
  imports Prelude
begin

text \<open>
  Block objects and the helpers of \<open>core/block/common.py\<close>.

  Python references to block objects are addresses: positions in the heap, the list of all
  block objects ever created. \<open>blk\<close> has the fields of \<open>NaiveBlock\<close> and, for the other
  class, those that \<open>PrefixCachingBlock\<close> adds around the naive block it wraps (the wrapped
  object has no identity of its own). A \<open>NullBlock\<close> only points to its proxy. The allocator
  of a block is named by the device it serves.
\<close>

datatype device = CPU | GPU

datatype block_class = Naive_Block | Prefix_Block | Null_Block nat

record blk =
  bl_class :: block_class
  bl_tokens :: "int list"
  bl_size :: nat
  bl_prev :: "nat option"
  bl_id :: "nat option"
  bl_pool_id :: nat
  bl_owner :: device
  bl_hash :: "int option"
  bl_total :: nat
  bl_computed :: bool

type_synonym heap = "blk list"

text \<open>The properties of a block, through the proxy of a null block.\<close>

definition resolve :: "heap \<Rightarrow> nat \<Rightarrow> blk" where
  "resolve h a = (case bl_class (h ! a) of Null_Block p \<Rightarrow> h ! p | _ \<Rightarrow> h ! a)"

definition block_id :: "heap \<Rightarrow> nat \<Rightarrow> nat option" where
  "block_id h a = bl_id (resolve h a)"

definition num_empty_slots :: "blk \<Rightarrow> int" where
  "num_empty_slots b = int (bl_size b) - int (length (bl_tokens b))"

definition is_full :: "blk \<Rightarrow> bool" where
  "is_full b \<longleftrightarrow> num_empty_slots b = 0"

definition append_token_ids_no_cow :: "int list \<Rightarrow> blk \<Rightarrow> blk result" where
  "append_token_ids_no_cow toks b =
     (if toks = [] then Inr b
      else bind_r (guard_r AssertionError (int (length toks) \<le> num_empty_slots b))
        (\<lambda>_. Inr (b\<lparr>bl_tokens := bl_tokens b @ toks\<rparr>)))"

text \<open>\<open>num_tokens_total\<close>, which only prefix caching blocks have.\<close>

definition num_tokens_total :: "heap \<Rightarrow> nat \<Rightarrow> nat result" where
  "num_tokens_total h a =
     (case bl_class (h ! a) of Prefix_Block \<Rightarrow> Inr (bl_total (h ! a)) | _ \<Rightarrow> Inl NotImplementedError)"

definition assert_prefix_caching_block_or_none :: "heap \<Rightarrow> nat option \<Rightarrow> unit result" where
  "assert_prefix_caching_block_or_none h p =
     (case p of None \<Rightarrow> Inr ()
      | Some a \<Rightarrow> guard_r AssertionError (bl_class (h ! a) = Prefix_Block))"

definition update_num_tokens_total :: "heap \<Rightarrow> blk \<Rightarrow> blk result" where
  "update_num_tokens_total h b =
     bind_r (case bl_prev b of None \<Rightarrow> Inr 0 | Some p \<Rightarrow> num_tokens_total h p) (\<lambda>res.
       Inr (b\<lparr>bl_total := res + length (bl_tokens b)\<rparr>))"

text \<open>The constructors \<open>NaiveBlock.__init__\<close> and \<open>PrefixCachingBlock.__init__\<close>.\<close>

definition naive_init :: "device \<Rightarrow> nat option \<Rightarrow> int list \<Rightarrow> nat \<Rightarrow> nat option \<Rightarrow> blk result" where
  "naive_init owner prev toks sz bid =
     append_token_ids_no_cow toks
       \<lparr>bl_class = Naive_Block, bl_tokens = [], bl_size = sz, bl_prev = prev, bl_id = bid,
        bl_pool_id = 0, bl_owner = owner, bl_hash = None, bl_total = 0, bl_computed = False\<rparr>"

definition prefix_init :: "heap \<Rightarrow> device \<Rightarrow> nat option \<Rightarrow> int list \<Rightarrow> nat \<Rightarrow> nat option \<Rightarrow> blk result" where
  "prefix_init h owner prev toks sz bid =
     bind_r (assert_prefix_caching_block_or_none h prev) (\<lambda>_.
     bind_r (naive_init owner prev toks sz bid) (\<lambda>b.
       update_num_tokens_total h (b\<lparr>bl_class := Prefix_Block\<rparr>)))"

definition block_init ::
    "heap \<Rightarrow> block_class \<Rightarrow> device \<Rightarrow> nat option \<Rightarrow> int list \<Rightarrow> nat \<Rightarrow> nat option \<Rightarrow> blk result" where
  "block_init h cls owner prev toks sz bid =
     (case cls of
        Naive_Block \<Rightarrow> naive_init owner prev toks sz bid
      | Prefix_Block \<Rightarrow> prefix_init h owner prev toks sz bid
      | Null_Block _ \<Rightarrow> Inl AttributeError)"

subsection \<open>Reference counts\<close>

type_synonym refcounter = "nat \<rightharpoonup> int"

definition init_refcounter :: "nat list \<Rightarrow> refcounter" where
  "init_refcounter ids = (\<lambda>i. if i \<in> set ids then Some 0 else None)"

definition rc_get :: "refcounter \<Rightarrow> nat \<Rightarrow> int result" where
  "rc_get r i = (case r i of None \<Rightarrow> Inl AssertionError | Some n \<Rightarrow> Inr n)"

definition rc_incr :: "nat \<Rightarrow> refcounter \<Rightarrow> (int \<times> refcounter) result" where
  "rc_incr i r = bind_r (rc_get r i) (\<lambda>n.
     bind_r (guard_r AssertionError (0 \<le> n)) (\<lambda>_. Inr (n + 1, r(i \<mapsto> n + 1))))"

definition rc_decr :: "nat \<Rightarrow> refcounter \<Rightarrow> (int \<times> refcounter) result" where
  "rc_decr i r = bind_r (rc_get r i) (\<lambda>n.
     bind_r (guard_r AssertionError (0 < n)) (\<lambda>_. Inr (n - 1, r(i \<mapsto> n - 1))))"

text \<open>\<open>ReadOnlyRefCounter\<close>: the same counts, no changes.\<close>

definition ro_incr :: "nat \<Rightarrow> refcounter \<Rightarrow> int result" where
  "ro_incr i r = Inl ValueError"

definition ro_decr :: "nat \<Rightarrow> refcounter \<Rightarrow> int result" where
  "ro_decr i r = Inl ValueError"

definition ro_get :: "refcounter \<Rightarrow> nat \<Rightarrow> int result" where
  "ro_get r i = rc_get r i"

subsection \<open>Copy on write\<close>

type_synonym cow_list = "(nat \<times> nat) list"

definition is_appendable :: "refcounter \<Rightarrow> nat option \<Rightarrow> bool result" where
  "is_appendable r bid = (case bid of None \<Rightarrow> Inr True
     | Some i \<Rightarrow> bind_r (ro_get r i) (\<lambda>n. Inr (n \<le> 1)))"

definition record_cow :: "nat option \<Rightarrow> nat option \<Rightarrow> cow_list \<Rightarrow> cow_list result" where
  "record_cow src trg cows = (case (src, trg) of
     (Some s, Some t) \<Rightarrow> Inr (cows @ [(s, t)])
   | _ \<Rightarrow> Inl AssertionError)"

definition clear_cows :: "cow_list \<Rightarrow> cow_list \<times> cow_list" where
  "clear_cows cows = (cows, [])"

subsection \<open>The pool of block objects\<close>

record block_pool =
  bp_block_size :: nat
  bp_class :: block_class
  bp_owner :: device
  bp_pool_size :: nat
  bp_free :: "nat list"
  bp_pool :: "nat list"

text \<open>The loop that creates \<open>n\<close> blank objects and appends them to the pool.\<close>

fun create_blocks :: "nat \<Rightarrow> heap \<times> block_pool \<Rightarrow> (heap \<times> block_pool) result" where
  "create_blocks 0 s = Inr s"
| "create_blocks (Suc n) (h, P) =
     bind_r (block_init h (bp_class P) (bp_owner P) None [] (bp_block_size P) None) (\<lambda>b.
       create_blocks n (h @ [b], P\<lparr>bp_pool := bp_pool P @ [length h]\<rparr>))"

definition init_pool :: "nat \<Rightarrow> block_class \<Rightarrow> device \<Rightarrow> nat \<Rightarrow> heap \<Rightarrow> (heap \<times> block_pool) result" where
  "init_pool block_size cls owner n h =
     create_blocks n (h, \<lparr>bp_block_size = block_size, bp_class = cls, bp_owner = owner,
       bp_pool_size = n, bp_free = [0..<n], bp_pool = []\<rparr>)"

definition increase_pool :: "heap \<times> block_pool \<Rightarrow> (heap \<times> block_pool) result" where
  "increase_pool s = (let (h, P) = s; cur = bp_pool_size P; new = cur * 2 in
     create_blocks (new - cur) (h, P\<lparr>bp_pool_size := new, bp_free := bp_free P @ [cur..<new]\<rparr>))"

definition pool_init_block ::
    "nat option \<Rightarrow> int list \<Rightarrow> nat \<Rightarrow> nat option \<Rightarrow> heap \<times> block_pool \<Rightarrow> (nat \<times> heap \<times> block_pool) result" where
  "pool_init_block prev toks sz bid s =
     bind_r (if bp_free (snd s) = [] then increase_pool s else Inr s) (\<lambda>(h, P).
       case bp_free P of
         [] \<Rightarrow> Inl AssertionError
       | pid # rest \<Rightarrow>
           bind_r (nth_r (bp_pool P) pid) (\<lambda>a.
           bind_r (block_init h (bl_class (h ! a)) (bl_owner (h ! a)) prev toks sz bid) (\<lambda>b.
             Inr (a, h[a := b\<lparr>bl_pool_id := pid\<rparr>], P\<lparr>bp_free := rest\<rparr>))))"

definition pool_free_block :: "heap \<Rightarrow> nat \<Rightarrow> block_pool \<Rightarrow> block_pool" where
  "pool_free_block h a P = P\<lparr>bp_free := bl_pool_id (h ! a) # bp_free P\<rparr>"

subsection \<open>Lists of blocks with their ids\<close>

record block_list =
  ls_blocks :: "nat list"
  ls_ids :: "nat list"

definition ls_add_block_id :: "nat option \<Rightarrow> block_list \<Rightarrow> block_list result" where
  "ls_add_block_id bid l = (case bid of None \<Rightarrow> Inl AssertionError
     | Some i \<Rightarrow> Inr (l\<lparr>ls_ids := ls_ids l @ [i]\<rparr>))"

definition ls_update_block_id :: "nat \<Rightarrow> nat option \<Rightarrow> block_list \<Rightarrow> block_list result" where
  "ls_update_block_id ix bid l = (case bid of None \<Rightarrow> Inl AssertionError
     | Some i \<Rightarrow> if ix < length (ls_ids l) then Inr (l\<lparr>ls_ids := (ls_ids l)[ix := i]\<rparr>)
         else Inl IndexError)"

definition ls_update :: "heap \<Rightarrow> nat list \<Rightarrow> block_list result" where
  "ls_update h bs = fold_r (\<lambda>a. ls_add_block_id (block_id h a)) bs \<lparr>ls_blocks = bs, ls_ids = []\<rparr>"

definition ls_append :: "heap \<Rightarrow> nat \<Rightarrow> block_list \<Rightarrow> block_list result" where
  "ls_append h a l = ls_add_block_id (block_id h a) (l\<lparr>ls_blocks := ls_blocks l @ [a]\<rparr>)"

definition ls_set :: "heap \<Rightarrow> nat \<Rightarrow> nat \<Rightarrow> block_list \<Rightarrow> block_list result" where
  "ls_set h ix a l =
     bind_r (guard_r IndexError (ix < length (ls_blocks l))) (\<lambda>_.
       ls_update_block_id ix (block_id h a) (l\<lparr>ls_blocks := (ls_blocks l)[ix := a]\<rparr>))"

definition ls_reset :: block_list where
  "ls_reset = \<lparr>ls_blocks = [], ls_ids = []\<rparr>"

text \<open>
  \<open>get_all_blocks_recursively\<close>: the chain of a block, first block first. The recursion is
  bounded by the number of objects: a longer chain has a cycle, and Python's recursion does
  not return from it either.
\<close>

fun chain :: "nat \<Rightarrow> heap \<Rightarrow> nat \<Rightarrow> nat list result" where
  "chain 0 h a = Inl RecursionError"
| "chain (Suc n) h a =
     (case bl_prev (h ! a) of
        None \<Rightarrow> Inr [a]
      | Some p \<Rightarrow> bind_r (chain n h p) (\<lambda>l. Inr (l @ [a])))"

definition get_all_blocks_recursively :: "heap \<Rightarrow> nat \<Rightarrow> nat list result" where
  "get_all_blocks_recursively h a = chain (length h) h a"

subsection \<open>The hit rate\<close>

record cache_metric =
  cm_num_completed_blocks :: nat
  cm_completed_block_cache_hit_rate :: real
  cm_num_incompleted_block_queries :: nat
  cm_num_incompleted_block_hit :: nat
  cm_block_size :: nat

definition init_metric :: cache_metric where
  "init_metric = \<lparr>cm_num_completed_blocks = 0, cm_completed_block_cache_hit_rate = 0,
     cm_num_incompleted_block_queries = 0, cm_num_incompleted_block_hit = 0, cm_block_size = 1000\<rparr>"

definition metric_query :: "bool \<Rightarrow> cache_metric \<Rightarrow> cache_metric" where
  "metric_query hit m =
     (let q = cm_num_incompleted_block_queries m + 1;
          k = cm_num_incompleted_block_hit m + (if hit then 1 else 0) in
      if q = cm_block_size m then
        let hit_rate = real k / real q in
        m\<lparr>cm_completed_block_cache_hit_rate :=
            (cm_completed_block_cache_hit_rate m * real (cm_num_completed_blocks m) + hit_rate)
              / (real (cm_num_completed_blocks m) + 1),
          cm_num_incompleted_block_queries := 0, cm_num_incompleted_block_hit := 0,
          cm_num_completed_blocks := cm_num_completed_blocks m + 1\<rparr>
      else m\<lparr>cm_num_incompleted_block_queries := q, cm_num_incompleted_block_hit := k\<rparr>)"

definition get_hit_rate :: "cache_metric \<Rightarrow> real result" where
  "get_hit_rate m =
     bind_r (div_r (real (cm_num_incompleted_block_queries m)) (real (cm_block_size m)))
      (\<lambda>incomplete_ratio.
        let total_blocks = real (cm_num_completed_blocks m) + incomplete_ratio in
        if total_blocks = 0 then Inr 0
        else
          let completed = (if cm_num_completed_blocks m > 0
                then cm_completed_block_cache_hit_rate m * real (cm_num_completed_blocks m) else 0);
              incompleted = (if cm_num_incompleted_block_queries m > 0
                then real (cm_num_incompleted_block_hit m) / real (cm_num_incompleted_block_queries m)
                  * incomplete_ratio else 0)
          in Inr ((completed + incompleted) / total_blocks))"

end
