(* ===== verification/Block_Lemmas.thy ===== *)
theory Block_Lemmas
  imports Block_Common
begin

text \<open>
  What the helpers of the block layer guarantee: the pool hands out every object to at most one
  owner, the hit rate is the true ratio, the chain of a block ends at that block, and a block
  list shows the ids of its blocks.
\<close>

subsection \<open>The hit rate\<close>

definition metric_after :: "bool list \<Rightarrow> cache_metric \<Rightarrow> cache_metric" where
  "metric_after hits m = fold metric_query hits m"

definition metric_hits :: "cache_metric \<Rightarrow> real" where
  "metric_hits m = cm_completed_block_cache_hit_rate m * real (cm_num_completed_blocks m) * real (cm_block_size m)
     + real (cm_num_incompleted_block_hit m)"

definition metric_queries :: "cache_metric \<Rightarrow> nat" where
  "metric_queries m = cm_num_completed_blocks m * cm_block_size m + cm_num_incompleted_block_queries m"

definition metric_ok :: "cache_metric \<Rightarrow> bool" where
  "metric_ok m \<longleftrightarrow> 0 < cm_block_size m \<and> cm_num_incompleted_block_queries m < cm_block_size m
     \<and> cm_num_incompleted_block_hit m \<le> cm_num_incompleted_block_queries m"

lemma mean_step:
  fixes r n k s :: real
  assumes "0 < s" and "0 \<le> n"
  shows "(r * n + k / s) / (n + 1) * (n + 1) * s = r * n * s + k"
proof -
  have "n + 1 \<noteq> 0" using assms(2) by linarith
  then have "(r * n + k / s) / (n + 1) * (n + 1) = r * n + k / s" by simp
  then show ?thesis using assms(1) by (simp add: distrib_right)
qed

lemma metric_query_step:
  assumes "metric_ok m"
  shows "metric_ok (metric_query b m) \<and> cm_block_size (metric_query b m) = cm_block_size m
    \<and> metric_queries (metric_query b m) = metric_queries m + 1
    \<and> metric_hits (metric_query b m) = metric_hits m + (if b then 1 else 0)"
proof (cases "cm_num_incompleted_block_queries m + 1 = cm_block_size m")
  case True
  let ?n = "real (cm_num_completed_blocks m)" and ?s = "real (cm_block_size m)"
  let ?k = "real (cm_num_incompleted_block_hit m + (if b then 1 else 0))"
  have s: "0 < ?s" using assms by (simp add: metric_ok_def)
  have h: "(cm_completed_block_cache_hit_rate m * ?n + ?k / ?s) / (?n + 1) * (?n + 1) * ?s
      = cm_completed_block_cache_hit_rate m * ?n * ?s + ?k"
    using mean_step [OF s, of ?n] by simp
  have q: "metric_query b m = m\<lparr>cm_completed_block_cache_hit_rate :=
        (cm_completed_block_cache_hit_rate m * ?n + ?k / ?s) / (?n + 1),
      cm_num_incompleted_block_queries := 0, cm_num_incompleted_block_hit := 0,
      cm_num_completed_blocks := cm_num_completed_blocks m + 1\<rparr>"
    unfolding metric_query_def Let_def True by simp
  have "metric_hits (metric_query b m) = cm_completed_block_cache_hit_rate m * ?n * ?s + ?k"
    unfolding metric_hits_def q using h by (simp add: ac_simps)
  moreover have "metric_queries (metric_query b m) = metric_queries m + 1"
    unfolding metric_queries_def q using True by simp
  ultimately show ?thesis using assms by (simp add: metric_hits_def metric_ok_def q)
next
  case False
  then show ?thesis using assms
    by (simp add: metric_query_def Let_def metric_ok_def metric_queries_def metric_hits_def)
qed

lemma metric_after_props:
  assumes "metric_ok m"
  shows "metric_ok (metric_after hits m)
    \<and> metric_queries (metric_after hits m) = metric_queries m + length hits
    \<and> metric_hits (metric_after hits m) = metric_hits m + real (count_list hits True)"
  using assms
proof (induction hits arbitrary: m)
  case (Cons b hits)
  from metric_query_step [OF Cons.prems, of b] Cons.IH [of "metric_query b m"] show ?case
    by (simp add: metric_after_def)
qed (simp add: metric_after_def)

lemma get_hit_rate_ratio:
  assumes "metric_ok m"
  shows "get_hit_rate m = Inr (if metric_queries m = 0 then 0 else metric_hits m / real (metric_queries m))"
proof -
  let ?n = "real (cm_num_completed_blocks m)" and ?s = "real (cm_block_size m)"
  let ?q = "real (cm_num_incompleted_block_queries m)" and ?h = "real (cm_num_incompleted_block_hit m)"
  let ?r = "cm_completed_block_cache_hit_rate m"
  have s: "0 < ?s" "cm_block_size m \<noteq> 0" using assms by (simp_all add: metric_ok_def)
  have tot: "?n + ?q / ?s = real (metric_queries m) / ?s"
    using s by (simp add: metric_queries_def field_simps)
  show ?thesis
  proof (cases "metric_queries m = 0")
    case True
    then have "?n + ?q / ?s = 0" using tot by simp
    then show ?thesis using True s by (simp add: get_hit_rate_def div_r_def Let_def)
  next
    case False
    then have nz: "?n + ?q / ?s \<noteq> 0" using tot s by simp
    have c: "(if cm_num_completed_blocks m > 0 then ?r * ?n else 0) = ?r * ?n" by simp
    have i: "(if cm_num_incompleted_block_queries m > 0 then ?h / ?q * (?q / ?s) else 0) = ?h / ?s"
      using assms by (simp add: metric_ok_def)
    have "(?r * ?n + ?h / ?s) / (?n + ?q / ?s) = metric_hits m / real (metric_queries m)"
      unfolding tot using s False by (simp add: metric_hits_def field_simps)
    then show ?thesis using nz s False unfolding get_hit_rate_def Let_def div_r_def
      by (simp only: c i if_False bind_r_simps of_nat_eq_0_iff)
  qed
qed

text \<open>
  The reported cache hit rate is exact: after any sequence of queries it is the number of
  hits divided by the number of queries, however the queries fall into blocks of 1000.
\<close>

theorem hit_rate_exact:
  "get_hit_rate (metric_after hits init_metric)
    = Inr (if hits = [] then 0 else real (count_list hits True) / real (length hits))"
proof -
  have "metric_ok init_metric" by (simp add: metric_ok_def init_metric_def)
  note m = metric_after_props [OF this, of hits]
  have "metric_queries init_metric = 0" "metric_hits init_metric = 0"
    by (simp_all add: init_metric_def metric_queries_def metric_hits_def)
  with m get_hit_rate_ratio [of "metric_after hits init_metric"] show ?thesis by simp
qed

subsection \<open>Heaps\<close>

definition agree :: "nat set \<Rightarrow> heap \<Rightarrow> heap \<Rightarrow> bool" where
  "agree X h h' \<longleftrightarrow> length h \<le> length h' \<and> (\<forall>a < length h. a \<notin> X \<longrightarrow> h' ! a = h ! a)"

lemma heap_upd: "(h[a := b]) ! x = (if x = a \<and> a < length h then b else h ! x)"
  by (cases "a < length h") (auto simp: nth_list_update list_update_beyond)

lemma agree_refl [simp, intro]: "agree X h h"
  by (simp add: agree_def)

lemma agree_trans: "agree X h h' \<Longrightarrow> agree X h' h'' \<Longrightarrow> agree X h h''"
  by (auto simp: agree_def)

lemma agree_mono: "agree X h h' \<Longrightarrow> X \<subseteq> Y \<Longrightarrow> agree Y h h'"
  by (auto simp: agree_def)

lemma agree_update [intro]: "a \<in> X \<Longrightarrow> agree X h (h[a := b])"
  by (metis agree_def length_list_update nth_list_update_neq order_refl)

lemma agree_append [intro]: "agree X h (h @ bs)"
  by (auto simp: agree_def nth_append)

lemma agreeD: "agree X h h' \<Longrightarrow> a < length h \<Longrightarrow> a \<notin> X \<Longrightarrow> h' ! a = h ! a"
  by (simp add: agree_def)

lemma agree_length: "agree X h h' \<Longrightarrow> length h \<le> length h'"
  by (simp add: agree_def)

subsection \<open>The pool\<close>

text \<open>\<open>W\<close>: the objects that the pool has handed out and that have not come back.\<close>

definition pool_inv :: "heap \<Rightarrow> block_pool \<Rightarrow> nat set \<Rightarrow> bool" where
  "pool_inv h P W \<longleftrightarrow>
     length (bp_pool P) = bp_pool_size P \<and> distinct (bp_pool P) \<and> (\<forall>a \<in> set (bp_pool P). a < length h)
     \<and> distinct (bp_free P) \<and> set (bp_free P) \<subseteq> {..<bp_pool_size P}
     \<and> W = (!) (bp_pool P) ` ({..<bp_pool_size P} - set (bp_free P))
     \<and> (\<forall>a \<in> W. bl_pool_id (h ! a) < bp_pool_size P \<and> bp_pool P ! bl_pool_id (h ! a) = a)
     \<and> (\<forall>a \<in> set (bp_pool P). bl_class (h ! a) = bp_class P \<and> bl_owner (h ! a) = bp_owner P)"

lemma pool_inv_O: "pool_inv h P W \<Longrightarrow> W \<subseteq> set (bp_pool P)"
  by (auto simp: pool_inv_def)

lemma pool_inv_less: "pool_inv h P W \<Longrightarrow> a \<in> W \<Longrightarrow> a < length h"
  using pool_inv_O by (auto simp: pool_inv_def)

lemma pool_inv_finite: "pool_inv h P W \<Longrightarrow> finite W"
  by (simp add: pool_inv_def)

lemma pool_inv_class: "pool_inv h P W \<Longrightarrow> a \<in> W \<Longrightarrow> bl_class (h ! a) = bp_class P \<and> bl_owner (h ! a) = bp_owner P"
  using pool_inv_O by (auto simp: pool_inv_def)

lemma naive_init_ok:
  "length toks \<le> sz \<Longrightarrow> naive_init owner prev toks sz bid =
     Inr \<lparr>bl_class = Naive_Block, bl_tokens = toks, bl_size = sz, bl_prev = prev, bl_id = bid,
        bl_pool_id = 0, bl_owner = owner, bl_hash = None, bl_total = 0, bl_computed = False\<rparr>"
  by (auto simp: naive_init_def append_token_ids_no_cow_def num_empty_slots_def)

lemma naive_init_Inr:
  "naive_init owner prev toks sz bid = Inr b \<Longrightarrow> length toks \<le> sz"
  by (auto simp: naive_init_def append_token_ids_no_cow_def num_empty_slots_def split: if_splits)

lemma block_init_Inr:
  assumes "block_init h cls owner prev toks sz bid = Inr b"
  shows "bl_class b = cls \<and> bl_owner b = owner \<and> bl_tokens b = toks \<and> bl_size b = sz
    \<and> bl_prev b = prev \<and> bl_id b = bid \<and> bl_hash b = None \<and> \<not> bl_computed b \<and> length toks \<le> sz"
proof (cases cls)
  case Naive_Block
  with assms have n: "naive_init owner prev toks sz bid = Inr b" by (simp add: block_init_def)
  from naive_init_Inr [OF n] naive_init_ok [OF naive_init_Inr [OF n], of owner prev bid] n Naive_Block
  show ?thesis by auto
next
  case Prefix_Block
  with assms obtain b0 where n: "naive_init owner prev toks sz bid = Inr b0"
    and u: "update_num_tokens_total h (b0\<lparr>bl_class := Prefix_Block\<rparr>) = Inr b"
    by (auto simp: block_init_def prefix_init_def)
  from naive_init_Inr [OF n] naive_init_ok [OF naive_init_Inr [OF n], of owner prev bid] n u Prefix_Block
  show ?thesis by (auto simp: update_num_tokens_total_def)
next
  case (Null_Block p)
  with assms show ?thesis by (simp add: block_init_def)
qed

definition real_class :: "block_class \<Rightarrow> bool" where
  "real_class c \<longleftrightarrow> c = Naive_Block \<or> c = Prefix_Block"

text \<open>A block can be initialised when its tokens fit and its predecessor is of its own class.\<close>

definition prev_ok :: "heap \<Rightarrow> block_class \<Rightarrow> nat option \<Rightarrow> bool" where
  "prev_ok h c p \<longleftrightarrow> c = Prefix_Block \<longrightarrow> (case p of None \<Rightarrow> True | Some a \<Rightarrow> bl_class (h ! a) = Prefix_Block)"

lemma block_init_total:
  assumes "real_class cls" and "length toks \<le> sz" and "prev_ok h cls prev"
  shows "\<exists>b. block_init h cls owner prev toks sz bid = Inr b"
proof (cases cls)
  case Naive_Block
  with assms show ?thesis by (simp add: block_init_def naive_init_ok)
next
  case Prefix_Block
  with assms show ?thesis
    by (cases prev) (simp_all add: block_init_def prefix_init_def naive_init_ok prev_ok_def
        assert_prefix_caching_block_or_none_def update_num_tokens_total_def num_tokens_total_def)
qed (use assms in \<open>simp add: real_class_def\<close>)

lemma create_blocks_props:
  assumes "create_blocks n (h, P) = Inr (h', P')"
  shows "\<exists>bs. h' = h @ bs \<and> length bs = n \<and> P' = P\<lparr>bp_pool := bp_pool P @ [length h..<length h + n]\<rparr>
    \<and> (\<forall>b \<in> set bs. bl_class b = bp_class P \<and> bl_owner b = bp_owner P)"
  using assms
proof (induction n arbitrary: h P)
  case (Suc n)
  from Suc.prems obtain b where b: "block_init h (bp_class P) (bp_owner P) None [] (bp_block_size P) None = Inr b"
    and r: "create_blocks n (h @ [b], P\<lparr>bp_pool := bp_pool P @ [length h]\<rparr>) = Inr (h', P')" by auto
  from Suc.IH [OF r] obtain bs where "h' = (h @ [b]) @ bs" "length bs = n"
    "P' = P\<lparr>bp_pool := (bp_pool P @ [length h]) @ [length h + 1..<length h + 1 + n]\<rparr>"
    "\<forall>b \<in> set bs. bl_class b = bp_class P \<and> bl_owner b = bp_owner P" by auto
  moreover have "[length h] @ [length h + 1..<length h + 1 + n] = [length h..<length h + Suc n]"
    by (simp add: upt_conv_Cons)
  ultimately show ?case using block_init_Inr [OF b] by (intro exI [of _ "b # bs"]) auto
qed auto

lemma create_blocks_total:
  assumes "real_class (bp_class P)"
  shows "\<exists>h' P'. create_blocks n (h, P) = Inr (h', P')"
  using assms
proof (induction n arbitrary: h P)
  case (Suc n)
  obtain b where "block_init h (bp_class P) (bp_owner P) None [] (bp_block_size P) None = Inr b"
    using block_init_total [OF Suc.prems, of "[]" "bp_block_size P" h None] by (auto simp: prev_ok_def)
  with Suc show ?case by simp
qed simp

lemma init_pool_inv:
  assumes "init_pool bs cls owner n h = Inr (h', P)"
  shows "pool_inv h' P {} \<and> agree {} h h' \<and> bp_pool_size P = n \<and> bp_class P = cls \<and> bp_owner P = owner
    \<and> bp_block_size P = bs \<and> set (bp_pool P) = {length h..<length h'}"
proof -
  from create_blocks_props [OF assms [unfolded init_pool_def]] obtain bl where
    "h' = h @ bl" "length bl = n" "P = \<lparr>bp_block_size = bs, bp_class = cls, bp_owner = owner,
       bp_pool_size = n, bp_free = [0..<n], bp_pool = [length h..<length h + n]\<rparr>"
    "\<forall>b \<in> set bl. bl_class b = cls \<and> bl_owner b = owner" by auto
  then show ?thesis by (auto simp: pool_inv_def nth_append)
qed

lemma increase_pool_inv:
  assumes "pool_inv h P W" and "increase_pool (h, P) = Inr (h', P')"
  shows "pool_inv h' P' W \<and> agree {} h h' \<and> bp_pool_size P' = bp_pool_size P * 2
    \<and> bp_class P' = bp_class P \<and> bp_owner P' = bp_owner P \<and> bp_block_size P' = bp_block_size P
    \<and> bp_free P' = bp_free P @ [bp_pool_size P..<bp_pool_size P * 2]
    \<and> set (bp_pool P') = set (bp_pool P) \<union> {length h..<length h'}"
proof -
  let ?c = "bp_pool_size P"
  have d: "?c * 2 - ?c = ?c" by simp
  from create_blocks_props [OF assms(2) [unfolded increase_pool_def Let_def split d]] obtain bl where
    h': "h' = h @ bl" "length bl = ?c" and P': "P' = P\<lparr>bp_pool_size := ?c * 2, bp_free := bp_free P @ [?c..<?c * 2],
       bp_pool := bp_pool P @ [length h..<length h + ?c]\<rparr>"
    and bl: "\<forall>b \<in> set bl. bl_class b = bp_class P \<and> bl_owner b = bp_owner P" by auto
  note i = assms(1) [unfolded pool_inv_def]
  have img: "(!) (bp_pool P @ [length h..<length h + ?c]) ` ({..<?c * 2} - (set (bp_free P) \<union> {?c..<?c * 2}))
      = (!) (bp_pool P) ` ({..<?c} - set (bp_free P))"
  proof -
    have "{..<?c * 2} - (set (bp_free P) \<union> {?c..<?c * 2}) = {..<?c} - set (bp_free P)" by auto
    then show ?thesis using i by (auto simp: nth_append intro!: image_cong)
  qed
  have W: "W \<subseteq> set (bp_pool P)" using pool_inv_O [OF assms(1)] .
  have ids: "bl_pool_id (h' ! a) < ?c * 2 \<and> (bp_pool P @ [length h..<length h + ?c]) ! bl_pool_id (h' ! a) = a"
    if "a \<in> W" for a
  proof -
    have "a < length h" "bl_pool_id (h ! a) < ?c" "bp_pool P ! bl_pool_id (h ! a) = a"
      using that i W by blast+
    with i show ?thesis by (simp add: h'(1) nth_append)
  qed
  have cls: "bl_class (h' ! a) = bp_class P \<and> bl_owner (h' ! a) = bp_owner P"
    if "a \<in> set (bp_pool P) \<or> length h \<le> a \<and> a < length h + ?c" for a
    using that i bl h' by (auto simp: nth_append)
  have "pool_inv h' P' W"
    unfolding pool_inv_def
  proof (intro conjI)
    show "length (bp_pool P') = bp_pool_size P'" using i by (simp add: P')
    show "distinct (bp_pool P')" using i by (auto simp: P')
    show "\<forall>a \<in> set (bp_pool P'). a < length h'" using i h' by (auto simp: P')
    show "distinct (bp_free P')" using i by (auto simp: P')
    show "set (bp_free P') \<subseteq> {..<bp_pool_size P'}" using i by (auto simp: P')
    show "W = (!) (bp_pool P') ` ({..<bp_pool_size P'} - set (bp_free P'))" using i img by (simp add: P')
    show "\<forall>a \<in> W. bl_pool_id (h' ! a) < bp_pool_size P' \<and> bp_pool P' ! bl_pool_id (h' ! a) = a"
      using ids by (simp add: P')
    show "\<forall>a \<in> set (bp_pool P'). bl_class (h' ! a) = bp_class P' \<and> bl_owner (h' ! a) = bp_owner P'"
      using cls by (simp add: P')
  qed
  then show ?thesis by (auto simp: P' h')
qed


lemma pool_init_block_inv:
  assumes inv: "pool_inv h P W" and run: "pool_init_block prev toks sz bid (h, P) = Inr (a, h', P')"
  shows "pool_inv h' P' (insert a W) \<and> a \<notin> W \<and> a < length h'
    \<and> agree {a} h h' \<and> bl_tokens (h' ! a) = toks \<and> bl_size (h' ! a) = sz \<and> bl_prev (h' ! a) = prev
    \<and> bl_id (h' ! a) = bid \<and> bl_hash (h' ! a) = None \<and> \<not> bl_computed (h' ! a)
    \<and> bl_class (h' ! a) = bp_class P \<and> bl_owner (h' ! a) = bp_owner P \<and> length toks \<le> sz
    \<and> bp_class P' = bp_class P \<and> bp_owner P' = bp_owner P \<and> bp_block_size P' = bp_block_size P
    \<and> set (bp_pool P') = set (bp_pool P) \<union> {length h..<length h'}
    \<and> (0 < bp_pool_size P \<longrightarrow> 0 < bp_pool_size P')"
proof -
  obtain h1 P1 where s1: "(if bp_free P = [] then increase_pool (h, P) else Inr (h, P)) = Inr (h1, P1)"
    and r1: "(case bp_free P1 of [] \<Rightarrow> Inl AssertionError
       | pid # rest \<Rightarrow> bind_r (nth_r (bp_pool P1) pid) (\<lambda>a.
           bind_r (block_init h1 (bl_class (h1 ! a)) (bl_owner (h1 ! a)) prev toks sz bid) (\<lambda>b.
             Inr (a, h1[a := b\<lparr>bl_pool_id := pid\<rparr>], P1\<lparr>bp_free := rest\<rparr>)))) = Inr (a, h', P')"
    using run by (auto simp: pool_init_block_def)
  have 1: "pool_inv h1 P1 W \<and> agree {} h h1 \<and> bp_class P1 = bp_class P \<and> bp_owner P1 = bp_owner P
    \<and> bp_block_size P1 = bp_block_size P \<and> bp_pool_size P \<le> bp_pool_size P1
    \<and> set (bp_pool P1) = set (bp_pool P) \<union> {length h..<length h1}"
    using s1 inv increase_pool_inv [OF inv, of h1 P1] by (auto split: if_splits)
  from r1 obtain pid rest b where f: "bp_free P1 = pid # rest" and a: "pid < length (bp_pool P1)" "a = bp_pool P1 ! pid"
    and b: "block_init h1 (bl_class (h1 ! a)) (bl_owner (h1 ! a)) prev toks sz bid = Inr b"
    and h': "h' = h1[a := b\<lparr>bl_pool_id := pid\<rparr>]" and P': "P' = P1\<lparr>bp_free := rest\<rparr>"
    by (auto split: list.splits)
  note i = conjunct1 [OF 1, unfolded pool_inv_def]
  note bi = block_init_Inr [OF b]
  have ain: "a \<in> set (bp_pool P1)" using a by simp
  have al: "a < length h1" using i ain by blast
  have cls: "bl_class (h1 ! a) = bp_class P1" "bl_owner (h1 ! a) = bp_owner P1" using i ain by blast+
  have free: "{..<bp_pool_size P1} - set rest = insert pid ({..<bp_pool_size P1} - set (bp_free P1))"
    using i f a by auto
  have img: "insert a W = (!) (bp_pool P1) ` ({..<bp_pool_size P1} - set rest)"
    unfolding free using i a(2) by simp
  have notW: "a \<notin> W"
  proof
    assume "a \<in> W"
    then obtain k where "k < bp_pool_size P1" "k \<notin> set (bp_free P1)" "bp_pool P1 ! k = bp_pool P1 ! pid"
      using i a(2) by auto
    then show False using i a(1) f by (metis list.set_intros(1) nth_eq_iff_index_eq)
  qed
  have "pool_inv h' P' (insert a W)"
    unfolding pool_inv_def
  proof (intro conjI)
    show "length (bp_pool P') = bp_pool_size P'" "distinct (bp_pool P')" using i by (simp_all add: P')
    show "\<forall>a \<in> set (bp_pool P'). a < length h'" using i by (simp add: P' h')
    show "distinct (bp_free P')" "set (bp_free P') \<subseteq> {..<bp_pool_size P'}" using i f by (simp_all add: P')
    show "insert a W = (!) (bp_pool P') ` ({..<bp_pool_size P'} - set (bp_free P'))" using img by (simp add: P')
    have "bl_pool_id (h' ! x) < bp_pool_size P1 \<and> bp_pool P1 ! bl_pool_id (h' ! x) = x" if "x \<in> insert a W" for x
      using that i a al notW by (cases "x = a") (simp_all add: h')
    then show "\<forall>a \<in> insert a W. bl_pool_id (h' ! a) < bp_pool_size P' \<and> bp_pool P' ! bl_pool_id (h' ! a) = a"
      by (simp add: P')
    have "bl_class (h' ! x) = bp_class P1 \<and> bl_owner (h' ! x) = bp_owner P1" if "x \<in> set (bp_pool P1)" for x
      using that i bi cls al by (cases "x = a") (simp_all add: h')
    then show "\<forall>a \<in> set (bp_pool P'). bl_class (h' ! a) = bp_class P' \<and> bl_owner (h' ! a) = bp_owner P'"
      by (simp add: P')
  qed
  moreover have "agree {a} h h'"
  proof (rule agree_trans)
    show "agree {a} h h1" using 1 agree_mono by blast
    show "agree {a} h1 h'" by (simp add: h' agree_update)
  qed
  ultimately show ?thesis using 1 notW al bi cls by (auto simp: h' P')
qed

lemma pool_init_block_total:
  assumes inv: "pool_inv h P W" and "0 < bp_pool_size P" and "real_class (bp_class P)"
    and "length toks \<le> sz" and "prev_ok h (bp_class P) prev" and "\<forall>p. prev = Some p \<longrightarrow> p < length h"
  shows "\<exists>a h' P'. pool_init_block prev toks sz bid (h, P) = Inr (a, h', P')"
proof -
  have "\<exists>h1 P1. (if bp_free P = [] then increase_pool (h, P) else Inr (h, P)) = Inr (h1, P1)
      \<and> pool_inv h1 P1 W \<and> agree {} h h1 \<and> bp_class P1 = bp_class P \<and> bp_free P1 \<noteq> []"
  proof (cases "bp_free P = []")
    case True
    obtain h1 P1 where e: "increase_pool (h, P) = Inr (h1, P1)"
      using create_blocks_total assms(3) by (fastforce simp: increase_pool_def Let_def)
    from increase_pool_inv [OF inv e] assms(2) True e show ?thesis by auto
  qed (use inv in auto)
  then obtain h1 P1 pid rest where s: "(if bp_free P = [] then increase_pool (h, P) else Inr (h, P)) = Inr (h1, P1)"
    and 1: "pool_inv h1 P1 W" "agree {} h h1" "bp_class P1 = bp_class P" "bp_free P1 = pid # rest"
    by (metis neq_Nil_conv)
  have pid: "pid < length (bp_pool P1)" using 1(1,4) by (auto simp: pool_inv_def)
  then have "bl_class (h1 ! (bp_pool P1 ! pid)) = bp_class P"
    using 1(1,3) by (simp add: pool_inv_def)
  moreover have "prev_ok h1 (bp_class P) prev"
    using assms(5,6) 1(2) by (auto simp: prev_ok_def agree_def split: option.splits)
  ultimately obtain b where "block_init h1 (bl_class (h1 ! (bp_pool P1 ! pid)))
      (bl_owner (h1 ! (bp_pool P1 ! pid))) prev toks sz bid = Inr b"
    using block_init_total [OF assms(3,4)] by metis
  with s 1(4) pid show ?thesis by (simp add: pool_init_block_def)
qed

lemma pool_free_block_inv:
  assumes inv: "pool_inv h P W" and a: "a \<in> W"
  shows "pool_inv h (pool_free_block h a P) (W - {a})"
proof -
  note i = inv [unfolded pool_inv_def]
  let ?k = "bl_pool_id (h ! a)"
  have k: "?k < bp_pool_size P" "bp_pool P ! ?k = a" using i a by blast+
  have nf: "?k \<notin> set (bp_free P)"
  proof
    assume k': "?k \<in> set (bp_free P)"
    obtain j where "j < bp_pool_size P" "j \<notin> set (bp_free P)" "bp_pool P ! j = a" using i a by blast
    then show False using i k k' by (metis nth_eq_iff_index_eq)
  qed
  have inj: "inj_on ((!) (bp_pool P)) {..<bp_pool_size P}"
    using i by (auto simp: inj_on_def nth_eq_iff_index_eq)
  have "(!) (bp_pool P) ` ({..<bp_pool_size P} - set (?k # bp_free P))
      = (!) (bp_pool P) ` ({..<bp_pool_size P} - set (bp_free P)) - {bp_pool P ! ?k}"
  proof -
    have "{..<bp_pool_size P} - set (?k # bp_free P) = ({..<bp_pool_size P} - set (bp_free P)) - {?k}" by auto
    then show ?thesis
      using inj_on_image_set_diff [OF inj, of "{..<bp_pool_size P} - set (bp_free P)" "{?k}"] k(1)
      by auto
  qed
  then have "W - {a} = (!) (bp_pool P) ` ({..<bp_pool_size P} - set (?k # bp_free P))"
    using i k(2) by simp
  then show ?thesis using i nf k(1) by (simp add: pool_inv_def pool_free_block_def)
qed

lemma pool_inv_upd:
  assumes "pool_inv h P W" and "bl_pool_id b = bl_pool_id (h ! a)" and "bl_class b = bl_class (h ! a)"
    and "bl_owner b = bl_owner (h ! a)"
  shows "pool_inv (h[a := b]) P W"
  using assms by (auto simp: pool_inv_def heap_upd)

end
