(* ===== verification/Naive_Allocator.thy ===== *)
theory Naive_Allocator
  imports Block_Lemmas
begin

text \<open>
  \<open>NaiveBlockAllocator\<close> and \<open>NaiveBlock\<close> (\<open>core/block/naive_block.py\<close>): physical
  block ids with reference counts, copy on write, forking, swapping, and the extension of
  WarmServe that withholds freed blocks for the prewarming of other models (\<open>kv_shm\<close>).

  An operation takes and returns the heap of block objects and the allocator. In the shared
  memory segment, bytes 0-3 hold the target, bytes 4-7 the number of reserved ids, and the
  ids follow, four bytes each; \<open>ks_ids\<close> is that array.
\<close>

record kv_shm =
  ks_bytes :: nat
  ks_target_free_blocks :: int
  ks_reserved :: nat
  ks_ids :: "nat \<rightharpoonup> nat"

record naive_alloc =
  na_free :: "nat list"
  na_all :: "nat list"
  na_refs :: refcounter
  na_block_size :: nat
  na_cows :: cow_list
  na_pool :: block_pool
  na_kv_shm :: "kv_shm option"
  na_cur_reserved :: nat

type_synonym nstate = "heap \<times> naive_alloc"

definition init_naive :: "block_class \<Rightarrow> device \<Rightarrow> nat \<Rightarrow> nat \<Rightarrow> nat list \<Rightarrow> heap \<Rightarrow> nstate result" where
  "init_naive cls owner num_blocks block_size block_ids h =
     bind_r (guard_r AssertionError (card (set block_ids) = num_blocks)) (\<lambda>_.
     bind_r (init_pool block_size cls owner (num_blocks * 4) h) (\<lambda>(h1, P).
       Inr (h1, \<lparr>na_free = block_ids, na_all = remdups block_ids, na_refs = init_refcounter block_ids,
         na_block_size = block_size, na_cows = [], na_pool = P, na_kv_shm = None, na_cur_reserved = 0\<rparr>)))"

definition naive_allocate_block_id :: "naive_alloc \<Rightarrow> (nat \<times> naive_alloc) result" where
  "naive_allocate_block_id A =
     (case na_free A of
        [] \<Rightarrow> Inl NoFreeBlocksError
      | i # rest \<Rightarrow> bind_r (rc_incr i (na_refs A)) (\<lambda>(_, r).
          Inr (i, A\<lparr>na_free := rest, na_refs := r\<rparr>)))"

text \<open>
  The loop that reserves blocks while more than the target are free. \<open>pop()\<close> takes from
  the right end, so the free list is passed reversed.
\<close>

fun reserve_loop ::
    "nat \<Rightarrow> int \<Rightarrow> nat list \<Rightarrow> nat \<Rightarrow> (nat \<rightharpoonup> nat) \<Rightarrow> (nat list \<times> nat \<times> (nat \<rightharpoonup> nat)) result" where
  "reserve_loop bytes target [] cur ids =
     (if target < 0 then Inl IndexError else Inr ([], cur, ids))"
| "reserve_loop bytes target (x # xs) cur ids =
     (if int (length (x # xs)) > target then
        (if 12 + cur * 4 \<le> bytes then reserve_loop bytes target xs (cur + 1) (ids(cur \<mapsto> x))
         else Inl ValueError)
      else Inr (x # xs, cur, ids))"

definition reserve_blocks :: "naive_alloc \<Rightarrow> naive_alloc result" where
  "reserve_blocks A =
     (case na_kv_shm A of
        None \<Rightarrow> Inr A
      | Some k \<Rightarrow>
          bind_r (reserve_loop (ks_bytes k) (ks_target_free_blocks k) (rev (na_free A))
              (na_cur_reserved A) (ks_ids k)) (\<lambda>(free, cur, ids).
            Inr (A\<lparr>na_free := rev free, na_cur_reserved := cur,
                   na_kv_shm := Some (k\<lparr>ks_reserved := cur, ks_ids := ids\<rparr>)\<rparr>)))"

definition set_block_id :: "nat \<Rightarrow> nat option \<Rightarrow> heap \<Rightarrow> heap" where
  "set_block_id a bid h = h[a := (h ! a)\<lparr>bl_id := bid\<rparr>]"

definition naive_free_block_id :: "nat \<Rightarrow> nstate \<Rightarrow> nstate result" where
  "naive_free_block_id a s = (let (h, A) = s in
     case bl_id (h ! a) of
       None \<Rightarrow> Inl AssertionError
     | Some i \<Rightarrow>
         bind_r (rc_decr i (na_refs A)) (\<lambda>(n, r).
         bind_r (if n = 0 then reserve_blocks (A\<lparr>na_refs := r, na_free := i # na_free A\<rparr>)
                 else Inr (A\<lparr>na_refs := r\<rparr>)) (\<lambda>A'.
           Inr (set_block_id a None h, A'))))"

definition naive_init_block ::
    "nat option \<Rightarrow> int list \<Rightarrow> nat option \<Rightarrow> nstate \<Rightarrow> (nat \<times> nstate) result" where
  "naive_init_block prev toks bid s = (let (h, A) = s in
     bind_r (pool_init_block prev toks (na_block_size A) bid (h, na_pool A)) (\<lambda>(a, h', P).
       Inr (a, h', A\<lparr>na_pool := P\<rparr>)))"

definition naive_allocate_mutable_block :: "nat option \<Rightarrow> nstate \<Rightarrow> (nat \<times> nstate) result" where
  "naive_allocate_mutable_block prev s = (let (h, A) = s in
     bind_r (naive_allocate_block_id A) (\<lambda>(i, A1). naive_init_block prev [] (Some i) (h, A1)))"

definition naive_free :: "nat \<Rightarrow> bool \<Rightarrow> nstate \<Rightarrow> nstate result" where
  "naive_free a keep_block_object s =
     bind_r (naive_free_block_id a s) (\<lambda>(h, A).
       Inr (h, if keep_block_object then A else A\<lparr>na_pool := pool_free_block h a (na_pool A)\<rparr>))"

definition naive_cow_block_if_not_appendable :: "nat \<Rightarrow> nstate \<Rightarrow> (nat \<times> nstate) result" where
  "naive_cow_block_if_not_appendable a s = (let (h, A) = s in
     case bl_id (h ! a) of
       None \<Rightarrow> Inl AssertionError
     | Some src \<Rightarrow>
         bind_r (is_appendable (na_refs A) (Some src)) (\<lambda>app.
         if app then Inr (src, h, A)
         else
           bind_r (naive_free_block_id a (h, A)) (\<lambda>(h1, A1).
           bind_r (naive_allocate_block_id A1) (\<lambda>(trg, A2).
           bind_r (record_cow (Some src) (Some trg) (na_cows A2)) (\<lambda>cows.
             Inr (trg, h1, A2\<lparr>na_cows := cows\<rparr>))))))"

text \<open>\<open>NaiveBlock.append_token_ids\<close>.\<close>

definition naive_append_token_ids :: "nat \<Rightarrow> int list \<Rightarrow> nstate \<Rightarrow> nstate result" where
  "naive_append_token_ids a toks s = (let (h, A) = s in
     bind_r (append_token_ids_no_cow toks (h ! a)) (\<lambda>b.
       if bl_id b = None then Inr (h[a := b], A)
       else bind_r (naive_cow_block_if_not_appendable a (h[a := b], A)) (\<lambda>(i, h', A').
         Inr (set_block_id a (Some i) h', A'))))"

definition naive_allocate_immutable_block ::
    "nat option \<Rightarrow> int list \<Rightarrow> nstate \<Rightarrow> (nat \<times> nstate) result" where
  "naive_allocate_immutable_block prev toks s =
     bind_r (naive_allocate_mutable_block prev s) (\<lambda>(a, s1).
     bind_r (naive_append_token_ids a toks s1) (\<lambda>s2. Inr (a, s2)))"

fun naive_init_blocks ::
    "nat option \<Rightarrow> (int list \<times> nat) list \<Rightarrow> nstate \<Rightarrow> (nat list \<times> nstate) result" where
  "naive_init_blocks prev [] s = Inr ([], s)"
| "naive_init_blocks prev ((toks, i) # xs) s =
     bind_r (naive_init_block prev toks (Some i) s) (\<lambda>(a, s1).
     bind_r (naive_init_blocks (Some a) xs s1) (\<lambda>(bs, s2). Inr (a # bs, s2)))"

definition naive_allocate_immutable_blocks ::
    "nat option \<Rightarrow> int list list \<Rightarrow> nstate \<Rightarrow> (nat list \<times> nstate) result" where
  "naive_allocate_immutable_blocks prev block_token_ids s = (let (h, A) = s in
     bind_r (map_r (\<lambda>_. naive_allocate_block_id) [0..<length block_token_ids] A) (\<lambda>(ids, A1).
       naive_init_blocks prev (zip block_token_ids ids) (h, A1)))"

fun naive_fork_loop :: "nat option \<Rightarrow> nat list \<Rightarrow> nstate \<Rightarrow> (nat list \<times> nstate) result" where
  "naive_fork_loop prev [] s = Inr ([], s)"
| "naive_fork_loop prev (a # as) (h, A) =
     (case bl_id (h ! a) of
        None \<Rightarrow> Inl AssertionError
      | Some i \<Rightarrow>
          bind_r (rc_incr i (na_refs A)) (\<lambda>(n, r).
          bind_r (guard_r AssertionError (n \<noteq> 1)) (\<lambda>_.
          bind_r (naive_init_block prev (bl_tokens (h ! a)) (Some i) (h, A\<lparr>na_refs := r\<rparr>)) (\<lambda>(f, s1).
          bind_r (naive_fork_loop (Some f) as s1) (\<lambda>(fs, s2). Inr (f # fs, s2))))))"

definition naive_fork :: "nat \<Rightarrow> nstate \<Rightarrow> (nat list \<times> nstate) result" where
  "naive_fork last_block s =
     bind_r (get_all_blocks_recursively (fst s) last_block) (\<lambda>src. naive_fork_loop None src s)"

definition naive_get_num_free_blocks :: "naive_alloc \<Rightarrow> nat" where
  "naive_get_num_free_blocks A = length (na_free A)"

definition naive_get_num_total_blocks :: "naive_alloc \<Rightarrow> nat" where
  "naive_get_num_total_blocks A = length (na_all A)"

text \<open>\<open>sorted(all).index(absolute_id)\<close>.\<close>

fun list_index :: "nat list \<Rightarrow> nat \<Rightarrow> nat result" where
  "list_index [] x = Inl ValueError"
| "list_index (y # ys) x = (if y = x then Inr 0 else bind_r (list_index ys x) (\<lambda>n. Inr (n + 1)))"

definition naive_get_physical_block_id :: "naive_alloc \<Rightarrow> nat \<Rightarrow> nat result" where
  "naive_get_physical_block_id A absolute_id = list_index (sort (na_all A)) absolute_id"

definition naive_clear_copy_on_writes :: "naive_alloc \<Rightarrow> cow_list \<times> naive_alloc" where
  "naive_clear_copy_on_writes A = (let (cows, rest) = clear_cows (na_cows A) in (cows, A\<lparr>na_cows := rest\<rparr>))"

definition naive_get_num_full_blocks_touched :: "heap \<Rightarrow> nat list \<Rightarrow> nat" where
  "naive_get_num_full_blocks_touched h blocks = card (set (filter (\<lambda>a. is_full (h ! a)) blocks))"

definition naive_swap_out :: "nat list \<Rightarrow> nstate \<Rightarrow> nstate result" where
  "naive_swap_out blocks s = fold_r naive_free_block_id blocks s"

definition naive_swap_in_block :: "nat \<Rightarrow> nstate \<Rightarrow> nstate result" where
  "naive_swap_in_block a s = (let (h, A) = s; b = h ! a in
     bind_r (if is_full b then naive_allocate_immutable_block (bl_prev b) (bl_tokens b) s
             else bind_r (naive_allocate_mutable_block (bl_prev b) s) (\<lambda>(t, s1).
               bind_r (naive_append_token_ids t (bl_tokens b) s1) (\<lambda>s2. Inr (t, s2)))) (\<lambda>(t, h1, A1).
     let bid = bl_id (h1 ! t); h2 = set_block_id t None h1;
         A2 = A1\<lparr>na_pool := pool_free_block h2 t (na_pool A1)\<rparr> in
       Inr (set_block_id a bid h2, A2)))"

definition naive_swap_in :: "nat list \<Rightarrow> nstate \<Rightarrow> nstate result" where
  "naive_swap_in blocks s = fold_r naive_swap_in_block blocks s"

definition naive_get_computed_block_ids :: "nat list \<Rightarrow> nat list \<Rightarrow> bool \<Rightarrow> nat list" where
  "naive_get_computed_block_ids prev_computed block_ids skip_last = []"

definition naive_get_common_computed_block_ids :: "nat list list \<Rightarrow> nat list" where
  "naive_get_common_computed_block_ids computed = []"

end
