(* ===== verification/Ref_Counts.thy ===== *)
theory Ref_Counts
  imports Naive_Allocator
begin

text \<open>
  The accounting of a naive allocator, without the heap: \<open>R\<close> is the multiset of the ids that
  live blocks refer to. Every id is referenced, free or reserved for other models, and its
  reference count is its number of references.
\<close>

definition reserved_ids :: "naive_alloc \<Rightarrow> nat list" where
  "reserved_ids A = (case na_kv_shm A of None \<Rightarrow> []
     | Some k \<Rightarrow> map (\<lambda>j. the (ks_ids k j)) [0..<na_cur_reserved A])"

definition al_inv :: "naive_alloc \<Rightarrow> nat multiset \<Rightarrow> bool" where
  "al_inv A R \<longleftrightarrow> distinct (na_all A) \<and> set_mset R \<subseteq> set (na_all A)
     \<and> (\<forall>i. na_refs A i = (if i \<in> set (na_all A) then Some (int (count R i)) else None))
     \<and> mset (na_free A) + mset (reserved_ids A) = mset_set {i \<in> set (na_all A). i \<notin># R}"

lemma al_inv_free_mem:
  assumes "al_inv A R" and "i \<in> set (na_free A)"
  shows "i \<in> set (na_all A)" "i \<notin># R"
proof -
  have "mset (na_free A) + mset (reserved_ids A) = mset_set {i \<in> set (na_all A). i \<notin># R}"
    using assms(1) by (simp only: al_inv_def)
  moreover have "i \<in># mset (na_free A) + mset (reserved_ids A)" using assms(2) by simp
  ultimately have "i \<in># mset_set {i \<in> set (na_all A). i \<notin># R}" by metis
  then show "i \<in> set (na_all A)" "i \<notin># R" by simp_all
qed

lemma mset_eq_mset_set:
  fixes xs :: "nat list"
  assumes "mset xs = mset_set U" and "finite U"
  shows "distinct xs" "set xs = U"
proof -
  obtain ys where ys: "set ys = U" "distinct ys" using finite_distinct_list [OF assms(2)] by blast
  then have "mset ys = mset xs" using assms(1) by (metis mset_set_set)
  with ys(2) show "distinct xs" using mset_eq_imp_distinct_iff by metis
  show "set xs = U" using assms by (metis finite_set_mset_mset_set set_mset_mset)
qed

text \<open>Exactness in terms of sets: free and reserved ids are the unreferenced ones.\<close>

lemma al_inv_partition:
  assumes "al_inv A R"
  shows "distinct (na_free A)" "distinct (reserved_ids A)" "set (na_free A) \<inter> set (reserved_ids A) = {}"
    "set (na_free A) \<union> set (reserved_ids A) = {i \<in> set (na_all A). i \<notin># R}"
    "length (na_free A) + length (reserved_ids A) + card (set_mset R) = length (na_all A)"
proof -
  let ?U = "{i \<in> set (na_all A). i \<notin># R}"
  have eq: "mset (na_free A @ reserved_ids A) = mset_set ?U" using assms by (simp add: al_inv_def)
  have U: "finite ?U" by simp
  have d: "distinct (na_free A @ reserved_ids A)"
    using mset_eq_mset_set(1) [OF eq U] .
  then show "distinct (na_free A)" "distinct (reserved_ids A)" "set (na_free A) \<inter> set (reserved_ids A) = {}"
    by simp_all
  have s: "set (na_free A @ reserved_ids A) = ?U" using mset_eq_mset_set(2) [OF eq U] .
  then show "set (na_free A) \<union> set (reserved_ids A) = ?U" by simp
  have "length (na_free A @ reserved_ids A) = card ?U" using d s by (metis distinct_card)
  moreover have "?U = set (na_all A) - set_mset R" by auto
  moreover have "card (set (na_all A) - set_mset R) = length (na_all A) - card (set_mset R)"
    using assms by (simp add: al_inv_def card_Diff_subset distinct_card)
  moreover have "card (set_mset R) \<le> length (na_all A)"
    using assms card_mono [of "set (na_all A)" "set_mset R"] by (simp add: al_inv_def distinct_card)
  ultimately show "length (na_free A) + length (reserved_ids A) + card (set_mset R) = length (na_all A)"
    by simp
qed

lemma al_inv_refs:
  "al_inv A R \<Longrightarrow> i \<in># R \<Longrightarrow> na_refs A i = Some (int (count R i))"
  by (auto simp: al_inv_def)

lemma unref_insert:
  assumes "i \<in> S" "i \<notin># R" "finite S"
  shows "mset_set {j \<in> S. j \<notin># R} = {#i#} + mset_set {j \<in> S. j \<notin># R + {#i#}}"
proof -
  have "{j \<in> S. j \<notin># R} = insert i {j \<in> S. j \<notin># R + {#i#}}" using assms by auto
  then show ?thesis using assms(3) by (simp add: mset_set.insert_remove)
qed

lemma alloc_id_inv:
  assumes inv: "al_inv A R" and run: "naive_allocate_block_id A = Inr (i, A')"
  shows "al_inv A' (R + {#i#}) \<and> i \<notin># R \<and> i \<in> set (na_all A) \<and> na_free A = i # na_free A'
    \<and> A' = A\<lparr>na_free := na_free A', na_refs := (na_refs A)(i \<mapsto> 1)\<rparr>"
proof -
  from run obtain rest n r where f: "na_free A = i # rest" and r: "rc_incr i (na_refs A) = Inr (n, r)"
    and A': "A' = A\<lparr>na_free := rest, na_refs := r\<rparr>"
    by (auto simp: naive_allocate_block_id_def split: list.splits)
  have i: "i \<in> set (na_all A)" "i \<notin># R" using al_inv_free_mem [OF inv, of i] f by simp_all
  have r': "r = (na_refs A)(i \<mapsto> 1)"
    using r inv i by (auto simp: rc_incr_def rc_get_def al_inv_def count_eq_zero_iff [THEN iffD2])
  have res: "reserved_ids A' = reserved_ids A" by (simp add: A' reserved_ids_def split: option.split)
  have "al_inv A' (R + {#i#})"
    using inv i unref_insert [OF i finite_set] unfolding al_inv_def res
    by (auto simp: A' r' f count_eq_zero_iff [THEN iffD2])
  with i r' show ?thesis by (auto simp: f A')
qed

lemma alloc_id_total:
  assumes "al_inv A R"
  shows "if na_free A = [] then naive_allocate_block_id A = Inl NoFreeBlocksError
    else \<exists>A'. naive_allocate_block_id A = Inr (hd (na_free A), A')"
proof (cases "na_free A")
  case (Cons i rest)
  then have "i \<in> set (na_all A)" "i \<notin># R" using al_inv_free_mem [OF assms, of i] by simp_all
  then have "na_refs A i = Some 0" using assms by (simp add: al_inv_def count_eq_zero_iff)
  with Cons show ?thesis by (simp add: naive_allocate_block_id_def rc_incr_def rc_get_def)
qed (simp add: naive_allocate_block_id_def)

subsection \<open>Reserving blocks\<close>

lemma reserve_loop_props:
  assumes "reserve_loop bytes target xs cur ids = Inr (ys, cur', ids')"
  shows "\<exists>zs. xs = zs @ ys \<and> cur' = cur + length zs \<and> int (length ys) \<le> max target 0
    \<and> (zs = [] \<or> target < int (length ys) + 1)
    \<and> (\<forall>j < cur. ids' j = ids j) \<and> (\<forall>j < length zs. ids' (cur + j) = Some (zs ! j))"
  using assms
proof (induction xs arbitrary: cur ids)
  case Nil
  then show ?case by (auto split: if_splits)
next
  case (Cons x xs)
  show ?case
  proof (cases "int (length (x # xs)) > target")
    case True
    with Cons.prems have "reserve_loop bytes target xs (cur + 1) (ids(cur \<mapsto> x)) = Inr (ys, cur', ids')"
      by (auto split: if_splits)
    from Cons.IH [OF this] obtain zs where z: "xs = zs @ ys" "cur' = cur + 1 + length zs"
      "int (length ys) \<le> max target 0" "zs = [] \<or> target < int (length ys) + 1"
      "\<forall>j < cur + 1. ids' j = (ids(cur \<mapsto> x)) j" "\<forall>j < length zs. ids' (cur + 1 + j) = Some (zs ! j)"
      by auto
    have "\<forall>j < length (x # zs). ids' (cur + j) = Some ((x # zs) ! j)"
    proof (intro allI impI)
      fix j assume "j < length (x # zs)"
      then show "ids' (cur + j) = Some ((x # zs) ! j)" using z(5,6) by (cases j) auto
    qed
    moreover have "target < int (length ys) + 1" using z(1,4) True by (cases zs) auto
    ultimately show ?thesis using z by (intro exI [of _ "x # zs"]) auto
  next
    case False
    with Cons.prems show ?thesis by (auto split: if_splits)
  qed
qed

text \<open>
  The segment is large enough: one slot of four bytes for every id that is or may be reserved.
\<close>

definition shm_room :: "naive_alloc \<Rightarrow> bool" where
  "shm_room A \<longleftrightarrow> (case na_kv_shm A of None \<Rightarrow> True
     | Some k \<Rightarrow> 0 \<le> ks_target_free_blocks k \<and> 8 + 4 * length (na_all A) \<le> ks_bytes k)"

lemma reserve_loop_total:
  assumes "0 \<le> target" and "8 + 4 * (cur + length xs) \<le> bytes"
  shows "\<exists>r. reserve_loop bytes target xs cur ids = Inr r"
  using assms by (induction xs arbitrary: cur ids) auto

lemma reserve_blocks_inv:
  assumes inv: "al_inv A R" and run: "reserve_blocks A = Inr A'"
  shows "al_inv A' R \<and> na_all A' = na_all A \<and> na_refs A' = na_refs A \<and> na_pool A' = na_pool A
    \<and> na_block_size A' = na_block_size A \<and> na_cows A' = na_cows A
    \<and> (\<exists>new. na_free A = na_free A' @ new \<and> reserved_ids A' = reserved_ids A @ rev new)
    \<and> (case na_kv_shm A of None \<Rightarrow> A' = A
       | Some k \<Rightarrow> \<exists>k'. na_kv_shm A' = Some k' \<and> ks_target_free_blocks k' = ks_target_free_blocks k
           \<and> ks_bytes k' = ks_bytes k \<and> ks_reserved k' = length (reserved_ids A')
           \<and> int (length (na_free A')) \<le> max (ks_target_free_blocks k) 0)"
proof (cases "na_kv_shm A")
  case None
  with run inv show ?thesis by (auto simp: reserve_blocks_def)
next
  case (Some k)
  with run obtain free cur ids where
    l: "reserve_loop (ks_bytes k) (ks_target_free_blocks k) (rev (na_free A)) (na_cur_reserved A) (ks_ids k)
      = Inr (free, cur, ids)"
    and A': "A' = A\<lparr>na_free := rev free, na_cur_reserved := cur,
       na_kv_shm := Some (k\<lparr>ks_reserved := cur, ks_ids := ids\<rparr>)\<rparr>"
    by (auto simp: reserve_blocks_def)
  from reserve_loop_props [OF l] obtain zs where z: "rev (na_free A) = zs @ free"
    "cur = na_cur_reserved A + length zs" "int (length free) \<le> max (ks_target_free_blocks k) 0"
    "\<forall>j < na_cur_reserved A. ids j = ks_ids k j" "\<forall>j < length zs. ids (na_cur_reserved A + j) = Some (zs ! j)"
    by auto
  have f: "na_free A = rev free @ rev zs" using z(1) by (metis rev_append rev_rev_ident)
  have res: "reserved_ids A' = reserved_ids A @ zs"
  proof (rule nth_equalityI)
    show "length (reserved_ids A') = length (reserved_ids A @ zs)"
      using Some by (simp add: A' reserved_ids_def z(2))
    fix j assume "j < length (reserved_ids A')"
    then have j: "j < na_cur_reserved A + length zs" by (simp add: A' reserved_ids_def z(2))
    have n: "length (reserved_ids A) = na_cur_reserved A" using Some by (simp add: reserved_ids_def)
    show "reserved_ids A' ! j = (reserved_ids A @ zs) ! j"
    proof (cases "j < na_cur_reserved A")
      case True
      then show ?thesis using Some z(2,4) n by (simp add: A' reserved_ids_def nth_append)
    next
      case False
      then have "ids j = Some (zs ! (j - na_cur_reserved A))" using z(5) j
        by (metis add_diff_inverse_nat nat_add_left_cancel_less)
      then show ?thesis using False j z(2) n Some by (simp add: A' reserved_ids_def nth_append)
    qed
  qed
  have "al_inv A' R"
    using inv res f by (simp add: al_inv_def A' ac_simps)
  moreover have "length (reserved_ids A') = cur" by (simp add: A' reserved_ids_def)
  ultimately show ?thesis using Some res f z(3)
    by (auto simp: A' intro: exI [of _ "rev zs"])
qed

text \<open>
  The state of a naive allocator with its heap: \<open>L\<close> are the live blocks (those whose id
  belongs to this allocator), \<open>W\<close> the block objects that its pool has handed out. Every
  operation keeps the invariant, and what it returns is described exactly.
\<close>

lemma incr_inv:
  assumes inv: "al_inv A R" and "i \<in># R"
  shows "\<exists>n. rc_incr i (na_refs A) = Inr (n, (na_refs A)(i \<mapsto> n)) \<and> n \<noteq> 1
    \<and> al_inv (A\<lparr>na_refs := (na_refs A)(i \<mapsto> n)\<rparr>) (R + {#i#})"
proof -
  have r: "na_refs A i = Some (int (count R i))" "0 < count R i" using assms by (auto simp: al_inv_def)
  have i: "i \<in> set (na_all A)" using assms by (auto simp: al_inv_def)
  have "{j \<in> set (na_all A). j \<notin># R + {#i#}} = {j \<in> set (na_all A). j \<notin># R}" using assms(2) by auto
  moreover have "reserved_ids (A\<lparr>na_refs := f\<rparr>) = reserved_ids A" for f
    by (simp add: reserved_ids_def split: option.split)
  ultimately have "al_inv (A\<lparr>na_refs := (na_refs A)(i \<mapsto> int (count R i) + 1)\<rparr>) (R + {#i#})"
    using inv i by (auto simp: al_inv_def)
  with r show ?thesis by (auto simp: rc_incr_def rc_get_def)
qed

text \<open>The part of \<open>_free_block_id\<close> that concerns the allocator.\<close>

definition release_id :: "nat \<Rightarrow> naive_alloc \<Rightarrow> naive_alloc result" where
  "release_id i A = bind_r (rc_decr i (na_refs A)) (\<lambda>(n, r).
     if n = 0 then reserve_blocks (A\<lparr>na_refs := r, na_free := i # na_free A\<rparr>)
     else Inr (A\<lparr>na_refs := r\<rparr>))"

definition same_env :: "naive_alloc \<Rightarrow> naive_alloc \<Rightarrow> bool" where
  "same_env A A' \<longleftrightarrow> na_all A' = na_all A \<and> na_block_size A' = na_block_size A
     \<and> (\<exists>new. reserved_ids A' = reserved_ids A @ new)
     \<and> (case na_kv_shm A of None \<Rightarrow> na_kv_shm A' = None
        | Some k \<Rightarrow> \<exists>k'. na_kv_shm A' = Some k' \<and> ks_bytes k' = ks_bytes k
            \<and> ks_target_free_blocks k' = ks_target_free_blocks k)"

lemma same_env_refl [simp]: "same_env A A"
  by (auto simp: same_env_def split: option.split)

lemma same_env_trans: "same_env A B \<Longrightarrow> same_env B C \<Longrightarrow> same_env A C"
  by (auto simp: same_env_def split: option.splits)

lemma same_env_room: "same_env A A' \<Longrightarrow> shm_room A' = shm_room A"
  by (auto simp: same_env_def shm_room_def split: option.splits)

lemma same_envI:
  "na_all A' = na_all A \<Longrightarrow> na_block_size A' = na_block_size A \<Longrightarrow> na_kv_shm A' = na_kv_shm A
    \<Longrightarrow> na_cur_reserved A' = na_cur_reserved A \<Longrightarrow> same_env A A'"
  by (auto simp: same_env_def reserved_ids_def split: option.splits)

lemma release_id_inv:
  assumes inv: "al_inv A (R + {#i#})" and run: "release_id i A = Inr A'"
  shows "al_inv A' R \<and> same_env A A' \<and> na_pool A' = na_pool A \<and> na_cows A' = na_cows A
    \<and> (i \<in># R \<longrightarrow> A' = A\<lparr>na_refs := na_refs A'\<rparr>)
    \<and> (i \<notin># R \<longrightarrow> (case na_kv_shm A of None \<Rightarrow> na_free A' = i # na_free A
        | Some k \<Rightarrow> int (length (na_free A')) \<le> max (ks_target_free_blocks k) 0))"
proof -
  have i: "i \<in> set (na_all A)" using inv by (auto simp: al_inv_def)
  have r: "na_refs A i = Some (int (count R i) + 1)" using inv i by (simp add: al_inv_def)
  have res: "reserved_ids (A\<lparr>na_refs := f, na_free := fr\<rparr>) = reserved_ids A"
    "reserved_ids (A\<lparr>na_refs := f\<rparr>) = reserved_ids A" for f fr
    by (simp_all add: reserved_ids_def split: option.split)
  let ?r = "(na_refs A)(i \<mapsto> int (count R i))"
  have d: "rc_decr i (na_refs A) = Inr (int (count R i), ?r)"
    using r by (simp add: rc_decr_def rc_get_def)
  show ?thesis
  proof (cases "i \<in># R")
    case True
    then have A': "A' = A\<lparr>na_refs := ?r\<rparr>"
      using run d by (simp add: release_id_def count_eq_zero_iff)
    have "{j \<in> set (na_all A). j \<notin># R + {#i#}} = {j \<in> set (na_all A). j \<notin># R}" using True by auto
    then have "al_inv A' R" using inv i by (auto simp: al_inv_def A' res)
    with True show ?thesis by (auto simp: A' intro: same_envI)
  next
    case False
    let ?A = "A\<lparr>na_refs := ?r, na_free := i # na_free A\<rparr>"
    have run': "reserve_blocks ?A = Inr A'"
      using run d False by (simp add: release_id_def count_eq_zero_iff)
    have "al_inv ?A R"
      using inv i unref_insert [OF i False finite_set] unfolding al_inv_def res
      by (auto simp: count_eq_zero_iff)
    from reserve_blocks_inv [OF this run'] have 1: "al_inv A' R" "na_all A' = na_all A"
      "na_pool A' = na_pool A" "na_block_size A' = na_block_size A" "na_cows A' = na_cows A"
      "\<exists>new. reserved_ids A' = reserved_ids A @ new"
      "case na_kv_shm A of None \<Rightarrow> A' = ?A | Some k \<Rightarrow> \<exists>k'. na_kv_shm A' = Some k'
         \<and> ks_target_free_blocks k' = ks_target_free_blocks k \<and> ks_bytes k' = ks_bytes k
         \<and> int (length (na_free A')) \<le> max (ks_target_free_blocks k) 0"
      unfolding res by (auto split: option.splits)
    then show ?thesis using False by (auto simp: same_env_def split: option.splits)
  qed
qed

lemma release_id_total:
  assumes inv: "al_inv A (R + {#i#})" and room: "shm_room A"
  shows "\<exists>A'. release_id i A = Inr A'"
proof -
  have i: "i \<in> set (na_all A)" using inv by (auto simp: al_inv_def)
  have r: "na_refs A i = Some (int (count R i) + 1)" using inv i by (simp add: al_inv_def)
  let ?r = "(na_refs A)(i \<mapsto> int (count R i))"
  have d: "rc_decr i (na_refs A) = Inr (int (count R i), ?r)" using r by (simp add: rc_decr_def rc_get_def)
  show ?thesis
  proof (cases "count R i = 0 \<and> na_kv_shm A \<noteq> None")
    case True
    then obtain k where k: "na_kv_shm A = Some k" by blast
    have "length (na_free A) + length (reserved_ids A) + card (set_mset (R + {#i#})) = length (na_all A)"
      using al_inv_partition(5) [OF inv] .
    moreover have "0 < card (set_mset (R + {#i#}))" by (simp add: card_gt_0_iff)
    moreover have "length (reserved_ids A) = na_cur_reserved A" using k by (simp add: reserved_ids_def)
    ultimately have "na_cur_reserved A + length (i # na_free A) \<le> length (na_all A)" by simp
    then have "0 \<le> ks_target_free_blocks k" "8 + 4 * (na_cur_reserved A + length (rev (i # na_free A))) \<le> ks_bytes k"
      using room k by (auto simp: shm_room_def)
    from reserve_loop_total [OF this] obtain fr cu ids where
      "reserve_loop (ks_bytes k) (ks_target_free_blocks k) (rev (i # na_free A)) (na_cur_reserved A) (ks_ids k)
        = Inr (fr, cu, ids)" by (metis prod_cases3)
    then have "\<exists>A'. reserve_blocks (A\<lparr>na_refs := ?r, na_free := i # na_free A\<rparr>) = Inr A'"
      using k unfolding reserve_blocks_def by (simp del: rev.simps reserve_loop.simps)
    with True d show ?thesis by (simp add: release_id_def)
  next
    case False
    then show ?thesis using d by (auto simp: release_id_def reserve_blocks_def count_eq_zero_iff)
  qed
qed

subsection \<open>The heap\<close>

definition refs_of :: "heap \<Rightarrow> nat set \<Rightarrow> nat multiset" where
  "refs_of h L = image_mset (\<lambda>a. the (bl_id (h ! a))) (mset_set L)"

definition ids_ok :: "heap \<Rightarrow> nat set \<Rightarrow> bool" where
  "ids_ok h L \<longleftrightarrow> finite L \<and> (\<forall>a \<in> L. a < length h \<and> bl_id (h ! a) \<noteq> None)"

definition nv_inv :: "nstate \<Rightarrow> nat set \<Rightarrow> nat set \<Rightarrow> bool" where
  "nv_inv s L W \<longleftrightarrow> ids_ok (fst s) L \<and> al_inv (snd s) (refs_of (fst s) L)
     \<and> pool_inv (fst s) (na_pool (snd s)) W \<and> L \<inter> set (bp_pool (na_pool (snd s))) \<subseteq> W"

lemma refs_of_insert:
  "finite L \<Longrightarrow> a \<notin> L \<Longrightarrow> refs_of h (insert a L) = refs_of h L + {#the (bl_id (h ! a))#}"
  by (simp add: refs_of_def)

lemma refs_of_remove:
  assumes "finite L" and "a \<in> L"
  shows "refs_of h L = refs_of h (L - {a}) + {#the (bl_id (h ! a))#}"
  using refs_of_insert [of "L - {a}" a h] assms by (simp add: insert_absorb)

lemma refs_of_cong:
  "(\<And>a. a \<in> L \<Longrightarrow> bl_id (h' ! a) = bl_id (h ! a)) \<Longrightarrow> refs_of h' L = refs_of h L"
  unfolding refs_of_def by (intro image_mset_cong) (cases "finite L", auto)

lemma refs_of_mem: "finite L \<Longrightarrow> a \<in> L \<Longrightarrow> the (bl_id (h ! a)) \<in># refs_of h L"
  by (auto simp: refs_of_def)

lemma count_refs_of:
  "finite L \<Longrightarrow> count (refs_of h L) i = card {a \<in> L. the (bl_id (h ! a)) = i}"
  by (simp add: refs_of_def count_image_mset vimage_def Int_def conj_commute)

lemma nv_invD:
  assumes "nv_inv (h, A) L W"
  shows "finite L" "\<And>a. a \<in> L \<Longrightarrow> a < length h" "\<And>a. a \<in> L \<Longrightarrow> \<exists>i. bl_id (h ! a) = Some i"
    "al_inv A (refs_of h L)" "pool_inv h (na_pool A) W" "L \<inter> set (bp_pool (na_pool A)) \<subseteq> W" "ids_ok h L"
  using assms by (auto simp: nv_inv_def ids_ok_def)

lemma naive_free_block_id_release:
  "naive_free_block_id a (h, A) = (case bl_id (h ! a) of None \<Rightarrow> Inl AssertionError
     | Some i \<Rightarrow> bind_r (release_id i A) (\<lambda>A'. Inr (set_block_id a None h, A')))"
  by (simp add: naive_free_block_id_def release_id_def bind_r_def split: option.split sum.split)

lemma set_block_id_nth: "set_block_id a v h ! x = (if x = a \<and> a < length h then (h ! a)\<lparr>bl_id := v\<rparr> else h ! x)"
  by (simp add: set_block_id_def heap_upd)

lemma length_set_block_id [simp]: "length (set_block_id a v h) = length h"
  by (simp add: set_block_id_def)

lemma pool_inv_set_id: "pool_inv h P W \<Longrightarrow> pool_inv (set_block_id a v h) P W"
  unfolding set_block_id_def by (erule pool_inv_upd) simp_all

lemma naive_free_block_id_ok:
  assumes inv: "nv_inv (h, A) L W" and a: "a \<in> L" and run: "naive_free_block_id a (h, A) = Inr (h', A')"
  shows "nv_inv (h', A') (L - {a}) W \<and> h' = set_block_id a None h \<and> same_env A A'
    \<and> na_pool A' = na_pool A \<and> na_cows A' = na_cows A
    \<and> (the (bl_id (h ! a)) \<in># refs_of h (L - {a}) \<longrightarrow> na_free A' = na_free A)"
proof -
  note d = nv_invD [OF inv]
  obtain i where i: "bl_id (h ! a) = Some i" using d(3) [OF a] by blast
  with run obtain A1 where A1: "release_id i A = Inr A1" "A' = A1" "h' = set_block_id a None h"
    by (auto simp: naive_free_block_id_release)
  have "al_inv A (refs_of h (L - {a}) + {#i#})" using d(4) refs_of_remove [OF d(1) a, of h] i by simp
  from release_id_inv [OF this A1(1)] have r: "al_inv A' (refs_of h (L - {a}))" "same_env A A'"
    "na_pool A' = na_pool A" "na_cows A' = na_cows A"
    "i \<in># refs_of h (L - {a}) \<longrightarrow> A' = A\<lparr>na_refs := na_refs A'\<rparr>"
    using A1(2) by simp_all
  have "refs_of h' (L - {a}) = refs_of h (L - {a})"
    by (rule refs_of_cong) (simp add: A1(3) set_block_id_nth)
  moreover have "na_free A' = na_free A" if "i \<in># refs_of h (L - {a})"
    using r(5) that by (metis naive_alloc.ext_inject naive_alloc.surjective naive_alloc.update_convs(3))
  ultimately show ?thesis using r d i
    by (auto simp: nv_inv_def ids_ok_def A1(3) set_block_id_nth pool_inv_set_id)
qed

lemma naive_free_block_id_total:
  assumes "nv_inv (h, A) L W" and "a \<in> L" and "shm_room A"
  shows "\<exists>s'. naive_free_block_id a (h, A) = Inr s'"
proof -
  note d = nv_invD [OF assms(1)]
  obtain i where i: "bl_id (h ! a) = Some i" using d(3) [OF assms(2)] by blast
  have "al_inv A (refs_of h (L - {a}) + {#i#})" using d(4) refs_of_remove [OF d(1) assms(2), of h] i by simp
  from release_id_total [OF this assms(3)] i show ?thesis by (auto simp: naive_free_block_id_release)
qed

lemma naive_free_ok:
  assumes inv: "nv_inv (h, A) L W" and a: "a \<in> L" "a \<in> W" and run: "naive_free a False (h, A) = Inr (h', A')"
  shows "nv_inv (h', A') (L - {a}) (W - {a}) \<and> h' = set_block_id a None h \<and> same_env A A'
    \<and> bp_class (na_pool A') = bp_class (na_pool A) \<and> bp_pool (na_pool A') = bp_pool (na_pool A)"
proof -
  from run obtain A1 where f: "naive_free_block_id a (h, A) = Inr (h', A1)"
    and A': "A' = A1\<lparr>na_pool := pool_free_block h' a (na_pool A1)\<rparr>" by (auto simp: naive_free_def)
  from naive_free_block_id_ok [OF inv a(1) f] have 1: "nv_inv (h', A1) (L - {a}) W" "h' = set_block_id a None h"
    "same_env A A1" "na_pool A1 = na_pool A" by blast+
  note d = nv_invD [OF 1(1)]
  have p: "pool_inv h' (na_pool A') (W - {a})" using pool_free_block_inv [OF d(5) a(2)] by (simp add: A')
  have "reserved_ids A' = reserved_ids A1" by (simp add: A' reserved_ids_def split: option.split)
  then have "al_inv A' (refs_of h' (L - {a}))" using d(4) by (simp add: al_inv_def A')
  moreover have "same_env A1 A'" by (rule same_envI) (simp_all add: A')
  ultimately show ?thesis using 1 p d same_env_trans [OF 1(3)]
    by (auto simp: nv_inv_def A' pool_free_block_def)
qed

end
