(* ===== verification/Naive_Ops.thy ===== *)
theory Naive_Ops
  imports Ref_Counts
begin

text \<open>
  The operations of the naive allocator on its invariant: allocation, copy on write, append,
  fork.
\<close>

text \<open>A fresh reference \<open>i\<close> that is not yet in a block becomes the id of a new block.\<close>

lemma naive_init_block_ok:
  assumes d: "ids_ok h L" "al_inv A (refs_of h L + {#i#})" "pool_inv h (na_pool A) W"
      "L \<inter> set (bp_pool (na_pool A)) \<subseteq> W"
    and run: "naive_init_block prev toks (Some i) (h, A) = Inr (a, h', A')"
  shows "nv_inv (h', A') (insert a L) (insert a W) \<and> a \<notin> L \<and> a \<notin> W \<and> agree {a} h h'
    \<and> bl_tokens (h' ! a) = toks \<and> bl_size (h' ! a) = na_block_size A \<and> bl_prev (h' ! a) = prev
    \<and> bl_id (h' ! a) = Some i \<and> bl_class (h' ! a) = bp_class (na_pool A)
    \<and> bl_owner (h' ! a) = bp_owner (na_pool A) \<and> bl_hash (h' ! a) = None \<and> \<not> bl_computed (h' ! a)
    \<and> length toks \<le> na_block_size A
    \<and> A' = A\<lparr>na_pool := na_pool A'\<rparr> \<and> bp_class (na_pool A') = bp_class (na_pool A)
    \<and> bp_owner (na_pool A') = bp_owner (na_pool A)
    \<and> (0 < bp_pool_size (na_pool A) \<longrightarrow> 0 < bp_pool_size (na_pool A'))
    \<and> set (bp_pool (na_pool A')) = set (bp_pool (na_pool A)) \<union> {length h..<length h'}"
proof -
  from run obtain P where p: "pool_init_block prev toks (na_block_size A) (Some i) (h, na_pool A) = Inr (a, h', P)"
    and A': "A' = A\<lparr>na_pool := P\<rparr>" by (auto simp: naive_init_block_def)
  note q = pool_init_block_inv [OF d(3) p]
  have aL: "a \<notin> L"
  proof
    assume "a \<in> L"
    then have "a < length h" using d(1) by (auto simp: ids_ok_def)
    moreover have "a \<in> set (bp_pool P)" using pool_inv_O [OF conjunct1 [OF q]] by blast
    moreover have "set (bp_pool P) = set (bp_pool (na_pool A)) \<union> {length h..<length h'}" using q by blast
    ultimately have "a \<in> W" using \<open>a \<in> L\<close> d(4) by auto
    with q show False by blast
  qed
  have fr: "\<forall>x \<in> L. h' ! x = h ! x"
  proof
    fix x assume "x \<in> L"
    then have "x < length h" "x \<noteq> a" using d(1) aL by (auto simp: ids_ok_def)
    then show "h' ! x = h ! x" using q agreeD by blast
  qed
  have fin: "finite L" using d(1) by (simp add: ids_ok_def)
  have "refs_of h' (insert a L) = refs_of h L + {#i#}"
    using refs_of_insert [OF fin aL, of h'] refs_of_cong [of L h' h] fr q by simp
  moreover have "al_inv A' R \<longleftrightarrow> al_inv A R" for R
    by (simp add: al_inv_def A' reserved_ids_def split: option.split)
  moreover have "ids_ok h' (insert a L)"
  proof -
    have "length h \<le> length h'" using q by (simp add: agree_def)
    with d(1) fr q show ?thesis by (auto simp: ids_ok_def)
  qed
  moreover have "insert a L \<inter> set (bp_pool P) \<subseteq> insert a W"
  proof -
    have "\<forall>x \<in> L. x < length h" using d(1) by (simp add: ids_ok_def)
    moreover have "set (bp_pool P) = set (bp_pool (na_pool A)) \<union> {length h..<length h'}" using q by blast
    ultimately show ?thesis using d(4) by fastforce
  qed
  ultimately have "nv_inv (h', A') (insert a L) (insert a W)"
    using q d(2) by (simp add: nv_inv_def A')
  with q aL show ?thesis by (auto simp: A')
qed

lemma naive_allocate_mutable_block_ok:
  assumes inv: "nv_inv (h, A) L W" and run: "naive_allocate_mutable_block prev (h, A) = Inr (a, h', A')"
  shows "nv_inv (h', A') (insert a L) (insert a W) \<and> a \<notin> L \<and> a \<notin> W \<and> agree {a} h h'
    \<and> bl_tokens (h' ! a) = [] \<and> bl_size (h' ! a) = na_block_size A \<and> bl_prev (h' ! a) = prev
    \<and> bl_class (h' ! a) = bp_class (na_pool A) \<and> bl_owner (h' ! a) = bp_owner (na_pool A)
    \<and> (\<exists>i. bl_id (h' ! a) = Some i \<and> i \<notin># refs_of h L \<and> na_free A = i # na_free A' \<and> i \<in> set (na_all A))
    \<and> same_env A A' \<and> na_cows A' = na_cows A \<and> na_kv_shm A' = na_kv_shm A
    \<and> bp_class (na_pool A') = bp_class (na_pool A) \<and> bp_owner (na_pool A') = bp_owner (na_pool A)
    \<and> (0 < bp_pool_size (na_pool A) \<longrightarrow> 0 < bp_pool_size (na_pool A'))
    \<and> set (bp_pool (na_pool A')) = set (bp_pool (na_pool A)) \<union> {length h..<length h'}"
proof -
  note d = nv_invD [OF inv]
  from run obtain i A1 where al: "naive_allocate_block_id A = Inr (i, A1)"
    and ib: "naive_init_block prev [] (Some i) (h, A1) = Inr (a, h', A')"
    by (auto simp: naive_allocate_mutable_block_def)
  from alloc_id_inv [OF d(4) al] have 1: "al_inv A1 (refs_of h L + {#i#})" "i \<notin># refs_of h L"
    "i \<in> set (na_all A)" "na_free A = i # na_free A1"
    "A1 = A\<lparr>na_free := na_free A1, na_refs := (na_refs A)(i \<mapsto> 1)\<rparr>" by blast+
  from 1(5) have f: "na_pool A1 = na_pool A" "na_block_size A1 = na_block_size A" "na_cows A1 = na_cows A"
    "na_kv_shm A1 = na_kv_shm A" "na_all A1 = na_all A" "na_cur_reserved A1 = na_cur_reserved A"
    by (metis naive_alloc.select_convs naive_alloc.surjective naive_alloc.update_convs(1,3))+
  have "pool_inv h (na_pool A1) W" "L \<inter> set (bp_pool (na_pool A1)) \<subseteq> W" using d f by simp_all
  note q = naive_init_block_ok [OF d(7) 1(1) this ib]
  have A': "A' = A1\<lparr>na_pool := na_pool A'\<rparr>" using q by blast
  then have g: "na_free A' = na_free A1" "na_cows A' = na_cows A1" "na_kv_shm A' = na_kv_shm A1"
    "na_all A' = na_all A1" "na_block_size A' = na_block_size A1" "na_cur_reserved A' = na_cur_reserved A1"
    by (metis naive_alloc.select_convs naive_alloc.surjective naive_alloc.update_convs(6))+
  have "same_env A A'" using f g by (intro same_envI) simp_all
  with q 1 f g show ?thesis by simp
qed

lemma naive_allocate_mutable_block_total:
  assumes inv: "nv_inv (h, A) L W" and "0 < bp_pool_size (na_pool A)" and "real_class (bp_class (na_pool A))"
    and "prev_ok h (bp_class (na_pool A)) prev" and "\<forall>p. prev = Some p \<longrightarrow> p < length h"
  shows "if na_free A = [] then naive_allocate_mutable_block prev (h, A) = Inl NoFreeBlocksError
    else \<exists>a s'. naive_allocate_mutable_block prev (h, A) = Inr (a, s')"
proof (cases "na_free A = []")
  case True
  then show ?thesis by (simp add: naive_allocate_mutable_block_def naive_allocate_block_id_def)
next
  case False
  note d = nv_invD [OF inv]
  from alloc_id_total [OF d(4)] False obtain A1 where al: "naive_allocate_block_id A = Inr (hd (na_free A), A1)"
    by auto
  from alloc_id_inv [OF d(4) al] have "A1 = A\<lparr>na_free := na_free A1, na_refs := (na_refs A)(hd (na_free A) \<mapsto> 1)\<rparr>"
    by blast
  then have f: "na_pool A1 = na_pool A"
    by (metis naive_alloc.select_convs naive_alloc.surjective naive_alloc.update_convs(1,3))
  from pool_init_block_total [OF d(5) assms(2,3) _ assms(4,5), of "[]" "na_block_size A1" "Some (hd (na_free A))"]
  show ?thesis using al f False by (auto simp: naive_allocate_mutable_block_def naive_init_block_def)
qed

subsection \<open>Copy on write and append\<close>

definition ref_count :: "heap \<Rightarrow> nat set \<Rightarrow> nat \<Rightarrow> nat" where
  "ref_count h L i = card {a \<in> L. bl_id (h ! a) = Some i}"

lemma ref_count_refs_of:
  assumes "ids_ok h L"
  shows "ref_count h L i = count (refs_of h L) i"
proof -
  have "{a \<in> L. the (bl_id (h ! a)) = i} = {a \<in> L. bl_id (h ! a) = Some i}"
    using assms by (auto simp: ids_ok_def)
  then show ?thesis using assms by (simp add: ref_count_def count_refs_of ids_ok_def)
qed

lemma nv_inv_set_id:
  assumes "ids_ok h (L - {a})" "a \<in> L" "a < length h" "al_inv A (refs_of h (L - {a}) + {#i#})"
    "pool_inv h (na_pool A) W" "L \<inter> set (bp_pool (na_pool A)) \<subseteq> W"
  shows "nv_inv (set_block_id a (Some i) h, A) L W"
proof -
  let ?h = "set_block_id a (Some i) h"
  have fin: "finite L" using assms(1) by (simp add: ids_ok_def)
  have "refs_of ?h L = refs_of ?h (L - {a}) + {#i#}"
    using refs_of_remove [OF fin assms(2), of ?h] assms(3) by (simp add: set_block_id_nth)
  also have "refs_of ?h (L - {a}) = refs_of h (L - {a})"
    by (rule refs_of_cong) (simp add: set_block_id_nth)
  finally show ?thesis using assms fin
    by (auto simp: nv_inv_def ids_ok_def set_block_id_nth pool_inv_set_id)
qed

lemma naive_cow_ok:
  assumes inv: "nv_inv (h, A) L W" and a: "a \<in> L"
    and run: "naive_cow_block_if_not_appendable a (h, A) = Inr (i, h', A')"
  shows "nv_inv (set_block_id a (Some i) h', A') L W \<and> agree {a} h h' \<and> length h' = length h
    \<and> h' ! a = (h ! a)\<lparr>bl_id := bl_id (h' ! a)\<rparr> \<and> same_env A A' \<and> na_pool A' = na_pool A
    \<and> (if ref_count h L (the (bl_id (h ! a))) \<le> 1
       then Some i = bl_id (h ! a) \<and> A' = A \<and> h' = h
       else na_free A = i # na_free A' \<and> ref_count h L i = 0
         \<and> na_cows A' = na_cows A @ [(the (bl_id (h ! a)), i)])"
proof -
  note d = nv_invD [OF inv]
  obtain src where src: "bl_id (h ! a) = Some src" using d(3) [OF a] by blast
  have "src \<in># refs_of h L" using refs_of_mem [OF d(1) a, of h] src by simp
  then have rc: "na_refs A src = Some (int (ref_count h L src))"
    using al_inv_refs [OF d(4)] by (simp add: ref_count_refs_of [OF d(7)])
  have app: "is_appendable (na_refs A) (Some src) = Inr (ref_count h L src \<le> 1)"
    using rc by (simp add: is_appendable_def ro_get_def rc_get_def)
  show ?thesis
  proof (cases "ref_count h L src \<le> 1")
    case True
    with run src app have r: "i = src" "h' = h" "A' = A" by (simp_all add: naive_cow_block_if_not_appendable_def)
    have "set_block_id a (Some src) h = h" using src d(2) [OF a]
      by (simp add: set_block_id_def list_update_id) (metis blk.surjective blk.update_convs(5) list_update_id)
    with True r inv src show ?thesis by (simp add: agree_refl)
  next
    case False
    with run src app obtain h1 A1 A2 where f: "naive_free_block_id a (h, A) = Inr (h1, A1)"
      and al: "naive_allocate_block_id A1 = Inr (i, A2)" and h': "h' = h1"
      and A': "A' = A2\<lparr>na_cows := na_cows A2 @ [(src, i)]\<rparr>"
      by (auto simp: naive_cow_block_if_not_appendable_def record_cow_def)
    from naive_free_block_id_ok [OF inv a f] have 1: "nv_inv (h1, A1) (L - {a}) W" "h1 = set_block_id a None h"
      "same_env A A1" "na_pool A1 = na_pool A" "na_cows A1 = na_cows A"
      "src \<in># refs_of h (L - {a}) \<longrightarrow> na_free A1 = na_free A" using src by auto
    have rest: "refs_of h1 (L - {a}) = refs_of h (L - {a})"
      by (rule refs_of_cong) (simp add: 1(2) set_block_id_nth)
    have "count (refs_of h L) src = count (refs_of h (L - {a})) src + 1"
      using refs_of_remove [OF d(1) a, of h] src by simp
    moreover have "\<not> count (refs_of h L) src \<le> 1" using False ref_count_refs_of [OF d(7)] by metis
    ultimately have "0 < count (refs_of h (L - {a})) src" by linarith
    then have shared: "src \<in># refs_of h (L - {a})" by simp
    note e = nv_invD [OF 1(1)]
    from alloc_id_inv [OF e(4) al] have 2: "al_inv A2 (refs_of h1 (L - {a}) + {#i#})" "i \<notin># refs_of h1 (L - {a})"
      "na_free A1 = i # na_free A2" "A2 = A1\<lparr>na_free := na_free A2, na_refs := (na_refs A1)(i \<mapsto> 1)\<rparr>" by blast+
    from 2(4) have g: "na_pool A2 = na_pool A1" "na_cows A2 = na_cows A1" "na_all A2 = na_all A1"
      "na_block_size A2 = na_block_size A1" "na_kv_shm A2 = na_kv_shm A1" "na_cur_reserved A2 = na_cur_reserved A1"
      by (metis naive_alloc.select_convs naive_alloc.surjective naive_alloc.update_convs(1,3))+
    have "al_inv A' (refs_of h1 (L - {a}) + {#i#})"
      using 2(1) by (simp add: al_inv_def A' reserved_ids_def split: option.splits)
    then have inv': "nv_inv (set_block_id a (Some i) h', A') L W"
      using e d(2) [OF a] d(6) a g 1(2,4) by (intro nv_inv_set_id) (simp_all add: h' A')
    have "same_env A1 A'" using g by (intro same_envI) (simp_all add: A')
    then have env: "same_env A A'" using same_env_trans [OF 1(3)] by blast
    have "src \<noteq> i" using shared 2(2) rest by auto
    then have "ref_count h L i = 0"
      using refs_of_remove [OF d(1) a, of h] 2(2) rest src
      by (simp add: ref_count_refs_of [OF d(7)] count_eq_zero_iff)
    with inv' env False src 1 2(3) g shared d(2) [OF a] show ?thesis
      by (auto simp: h' A' set_block_id_nth agree_def)
  qed
qed


lemma nv_inv_same_ids:
  assumes "nv_inv (h, A) L W" and "bl_id b = bl_id (h ! a)" "bl_pool_id b = bl_pool_id (h ! a)"
    "bl_class b = bl_class (h ! a)" "bl_owner b = bl_owner (h ! a)"
  shows "nv_inv (h[a := b], A) L W"
proof -
  have "refs_of (h[a := b]) L = refs_of h L"
    by (rule refs_of_cong) (use assms(2) in \<open>auto simp: heap_upd\<close>)
  with assms show ?thesis by (auto simp: nv_inv_def ids_ok_def heap_upd pool_inv_upd)
qed

text \<open>
  Appending to a live block: the tokens are added; a shared block moves to a fresh id, which is
  recorded as a copy, and an unshared block keeps its id.
\<close>

lemma naive_append_ok:
  assumes inv: "nv_inv (h, A) L W" and a: "a \<in> L"
    and run: "naive_append_token_ids a toks (h, A) = Inr (h', A')"
  shows "nv_inv (h', A') L W \<and> agree {a} h h' \<and> length h' = length h
    \<and> h' ! a = (h ! a)\<lparr>bl_tokens := bl_tokens (h ! a) @ toks, bl_id := bl_id (h' ! a)\<rparr>
    \<and> (toks = [] \<or> length (bl_tokens (h ! a)) + length toks \<le> bl_size (h ! a))
    \<and> same_env A A' \<and> na_pool A' = na_pool A
    \<and> (if ref_count h L (the (bl_id (h ! a))) \<le> 1
       then bl_id (h' ! a) = bl_id (h ! a) \<and> A' = A
       else \<exists>i. bl_id (h' ! a) = Some i \<and> na_free A = i # na_free A' \<and> ref_count h L i = 0
         \<and> na_cows A' = na_cows A @ [(the (bl_id (h ! a)), i)])"
proof -
  note d = nv_invD [OF inv]
  from run obtain b where b: "append_token_ids_no_cow toks (h ! a) = Inr b"
    and r: "(if bl_id b = None then Inr (h[a := b], A)
       else bind_r (naive_cow_block_if_not_appendable a (h[a := b], A)) (\<lambda>(i, h', A').
         Inr (set_block_id a (Some i) h', A'))) = Inr (h', A')"
    by (auto simp: naive_append_token_ids_def)
  have b': "b = (h ! a)\<lparr>bl_tokens := bl_tokens (h ! a) @ toks\<rparr>"
    "toks = [] \<or> length (bl_tokens (h ! a)) + length toks \<le> bl_size (h ! a)"
    using b by (auto simp: append_token_ids_no_cow_def num_empty_slots_def split: if_splits)
  let ?h = "h[a := b]"
  have inv': "nv_inv (?h, A) L W" by (rule nv_inv_same_ids [OF inv]) (simp_all add: b')
  have id: "bl_id (?h ! a) = bl_id (h ! a)" "?h ! a = b" using d(2) [OF a] by (simp_all add: b')
  have rc: "ref_count ?h L j = ref_count h L j" for j
  proof -
    have "bl_id (?h ! x) = bl_id (h ! x)" for x by (simp add: heap_upd b')
    then show ?thesis by (simp add: ref_count_def)
  qed
  obtain i h1 A1 where c: "naive_cow_block_if_not_appendable a (?h, A) = Inr (i, h1, A1)"
    and h': "h' = set_block_id a (Some i) h1" "A' = A1"
    using r d(3) [OF a] by (auto simp: b')
  note q = naive_cow_ok [OF inv' a c, unfolded rc id(1)]
  have al: "a < length h1" using q d(2) [OF a] by simp
  have h1a: "h1 ! a = b\<lparr>bl_id := bl_id (h1 ! a)\<rparr>" using q id(2) by metis
  have "agree {a} ?h h1" using q by blast
  then have ag: "agree {a} h h'" using agree_trans [OF agree_update, of a "{a}" h b] agree_trans
    by (metis h'(1) agree_update insertI1 set_block_id_def)
  have "h' ! a = (h1 ! a)\<lparr>bl_id := Some i\<rparr>" using al by (simp add: h'(1) set_block_id_nth)
  also have "\<dots> = (h ! a)\<lparr>bl_tokens := bl_tokens (h ! a) @ toks, bl_id := Some i\<rparr>"
    by (subst h1a) (simp add: b'(1))
  finally have ha: "h' ! a = (h ! a)\<lparr>bl_tokens := bl_tokens (h ! a) @ toks, bl_id := Some i\<rparr>" .
  have "length h' = length h" using q by (simp add: h'(1))
  with q ag ha b'(2) h' show ?thesis by auto
qed

lemma naive_append_total:
  assumes inv: "nv_inv (h, A) L W" and a: "a \<in> L" and room: "shm_room A"
    and fits: "length (bl_tokens (h ! a)) + length toks \<le> bl_size (h ! a)"
    and free: "ref_count h L (the (bl_id (h ! a))) \<le> 1 \<or> na_free A \<noteq> []"
  shows "\<exists>s'. naive_append_token_ids a toks (h, A) = Inr s'"
proof -
  note d = nv_invD [OF inv]
  obtain src where src: "bl_id (h ! a) = Some src" using d(3) [OF a] by blast
  let ?b = "(h ! a)\<lparr>bl_tokens := bl_tokens (h ! a) @ toks\<rparr>" and ?h = "h[a := (h ! a)\<lparr>bl_tokens := bl_tokens (h ! a) @ toks\<rparr>]"
  have ap: "append_token_ids_no_cow toks (h ! a) = Inr ?b"
    using fits by (auto simp: append_token_ids_no_cow_def num_empty_slots_def)
  have inv': "nv_inv (?h, A) L W" by (rule nv_inv_same_ids [OF inv]) simp_all
  have id: "bl_id (?h ! a) = Some src" using d(2) [OF a] src by simp
  have rc: "ref_count ?h L j = ref_count h L j" for j
  proof -
    have "bl_id (?h ! x) = bl_id (h ! x)" for x by (simp add: heap_upd)
    then show ?thesis by (simp add: ref_count_def)
  qed
  note e = nv_invD [OF inv']
  have "src \<in># refs_of ?h L" using refs_of_mem [OF e(1) a, of ?h] id by simp
  then have "na_refs A src = Some (int (ref_count ?h L src))"
    using al_inv_refs [OF e(4)] by (simp add: ref_count_refs_of [OF e(7)])
  then have app: "is_appendable (na_refs A) (Some src) = Inr (ref_count ?h L src \<le> 1)"
    by (simp add: is_appendable_def ro_get_def rc_get_def)
  have "\<exists>r. naive_cow_block_if_not_appendable a (?h, A) = Inr r"
  proof (cases "ref_count ?h L src \<le> 1")
    case True
    then show ?thesis using id app by (simp add: naive_cow_block_if_not_appendable_def)
  next
    case False
    then have nf: "na_free A \<noteq> []" using free src by (simp add: rc)
    from naive_free_block_id_total [OF inv' a room] obtain h1 A1 where
      f: "naive_free_block_id a (?h, A) = Inr (h1, A1)" by auto
    from naive_free_block_id_ok [OF inv' a f] have 1: "nv_inv (h1, A1) (L - {a}) W"
      "the (bl_id (?h ! a)) \<in># refs_of ?h (L - {a}) \<longrightarrow> na_free A1 = na_free A" by blast+
    have "count (refs_of ?h L) src = count (refs_of ?h (L - {a})) src + 1"
      using refs_of_remove [OF e(1) a, of ?h] id by simp
    moreover have "\<not> count (refs_of ?h L) src \<le> 1" using False ref_count_refs_of [OF e(7)] by metis
    ultimately have "0 < count (refs_of ?h (L - {a})) src" by linarith
    then have "src \<in># refs_of ?h (L - {a})" by simp
    then have "na_free A1 \<noteq> []" using 1(2) nf id by simp
    then obtain A2 where "naive_allocate_block_id A1 = Inr (hd (na_free A1), A2)"
      using alloc_id_total [OF nv_invD(4) [OF 1(1)]] by auto
    with f id app False show ?thesis by (simp add: naive_cow_block_if_not_appendable_def record_cow_def)
  qed
  then obtain i h1 A1 where "naive_cow_block_if_not_appendable a (?h, A) = Inr (i, h1, A1)" by (metis prod_cases3)
  with ap src show ?thesis by (simp add: naive_append_token_ids_def)
qed

end
