(* ===== verification/Naive_Seq.thy ===== *)
theory Naive_Seq
  imports Naive_Ops
begin

text \<open>
  Sequences of blocks: linked chains, forking a chain, and allocating the blocks of a prompt.
\<close>

fun linked :: "heap \<Rightarrow> nat option \<Rightarrow> nat list \<Rightarrow> bool" where
  "linked h p [] \<longleftrightarrow> True"
| "linked h p (a # as) \<longleftrightarrow> bl_prev (h ! a) = p \<and> linked h (Some a) as"

lemma linked_append:
  "linked h p (as @ bs) \<longleftrightarrow> linked h p as \<and> linked h (if as = [] then p else Some (last as)) bs"
  by (induction as arbitrary: p) auto

lemma linked_cong: "(\<And>a. a \<in> set as \<Longrightarrow> bl_prev (h' ! a) = bl_prev (h ! a)) \<Longrightarrow> linked h' p as = linked h p as"
  by (induction as arbitrary: p) auto

lemma chain_linked:
  "linked h None (as @ [a]) \<Longrightarrow> length as < n \<Longrightarrow> chain n h a = Inr (as @ [a])"
proof (induction as arbitrary: a n rule: rev_induct)
  case Nil
  then show ?case by (cases n) auto
next
  case (snoc x xs)
  then obtain m where n: "n = Suc m" by (cases n) auto
  from snoc.prems have "bl_prev (h ! a) = Some x" "linked h None (xs @ [x])" "length xs < m"
    by (auto simp: linked_append n split: if_splits)
  with snoc.IH n show ?case by simp
qed

lemma distinct_bounded: "distinct as \<Longrightarrow> \<forall>a \<in> set as. a < n \<Longrightarrow> length as \<le> n"
  using card_mono [of "{..<n}" "set as"] by (auto simp: distinct_card)

lemma get_all_blocks_linked:
  assumes "linked h None as" and "as \<noteq> []" and "distinct as" and "\<forall>a \<in> set as. a < length h"
  shows "get_all_blocks_recursively h (last as) = Inr as"
proof -
  obtain bs b where as: "as = bs @ [b]" using assms(2) by (metis rev_exhaust)
  have "length as \<le> length h" using distinct_bounded [OF assms(3,4)] .
  then have "length bs < length h" by (simp add: as)
  with chain_linked [of h bs b "length h"] assms(1) show ?thesis
    by (simp add: get_all_blocks_recursively_def as)
qed

text \<open>What the blocks \<open>bs\<close> hold.\<close>

definition toks_of :: "heap \<Rightarrow> nat list \<Rightarrow> int list" where
  "toks_of h bs = concat (map (\<lambda>a. bl_tokens (h ! a)) bs)"

lemma toks_of_simps [simp]:
  "toks_of h [] = []" "toks_of h (a # as) = bl_tokens (h ! a) @ toks_of h as"
  "toks_of h (as @ bs) = toks_of h as @ toks_of h bs"
  by (simp_all add: toks_of_def)

text \<open>
  The pool keeps its class, owner and objects; new objects have addresses from \<open>n\<close> on, the
  size of the heap before.
\<close>

definition pool_frame :: "nat \<Rightarrow> block_pool \<Rightarrow> block_pool \<Rightarrow> bool" where
  "pool_frame n P P' \<longleftrightarrow> bp_class P' = bp_class P \<and> bp_owner P' = bp_owner P
     \<and> (0 < bp_pool_size P \<longrightarrow> 0 < bp_pool_size P')
     \<and> set (bp_pool P) \<subseteq> set (bp_pool P') \<and> set (bp_pool P') \<subseteq> set (bp_pool P) \<union> {n..}"

lemma new_objects [simp]: "{n..<m} \<subseteq> X \<union> {n::nat..}" by auto

lemma pool_frame_refl [simp]: "pool_frame n P P" by (simp add: pool_frame_def)

lemma pool_frame_trans: "pool_frame n P Q \<Longrightarrow> pool_frame m Q R \<Longrightarrow> n \<le> m \<Longrightarrow> pool_frame n P R"
  unfolding pool_frame_def by fastforce

lemma naive_fork_loop_ok:
  assumes "nv_inv (h, A) L W" and "set as \<subseteq> L" and "naive_fork_loop prev as (h, A) = Inr (fs, h', A')"
  shows "nv_inv (h', A') (L \<union> set fs) (W \<union> set fs) \<and> distinct fs \<and> set fs \<inter> L = {} \<and> set fs \<inter> W = {}
    \<and> agree (set fs) h h' \<and> length fs = length as \<and> linked h' prev fs
    \<and> map (\<lambda>a. (bl_tokens (h' ! a), bl_id (h' ! a), bl_size (h' ! a))) fs
        = map (\<lambda>a. (bl_tokens (h ! a), bl_id (h ! a), na_block_size A)) as
    \<and> same_env A A' \<and> na_free A' = na_free A \<and> na_cows A' = na_cows A \<and> pool_frame (length h) (na_pool A) (na_pool A')"
  using assms
proof (induction as arbitrary: h A L W prev fs)
  case Nil
  then show ?case by simp
next
  case (Cons a as)
  note d = nv_invD [OF Cons.prems(1)]
  have aL: "a \<in> L" using Cons.prems(2) by simp
  obtain i where i: "bl_id (h ! a) = Some i" using d(3) [OF aL] by blast
  have iR: "i \<in># refs_of h L" using refs_of_mem [OF d(1) aL, of h] i by simp
  obtain n where n: "rc_incr i (na_refs A) = Inr (n, (na_refs A)(i \<mapsto> n))" "n \<noteq> 1"
    "al_inv (A\<lparr>na_refs := (na_refs A)(i \<mapsto> n)\<rparr>) (refs_of h L + {#i#})"
    using incr_inv [OF d(4) iR] by blast
  let ?A = "A\<lparr>na_refs := (na_refs A)(i \<mapsto> n)\<rparr>"
  from Cons.prems(3) i n obtain f h1 A1 fs' where
    ib: "naive_init_block prev (bl_tokens (h ! a)) (Some i) (h, ?A) = Inr (f, h1, A1)"
    and lp: "naive_fork_loop (Some f) as (h1, A1) = Inr (fs', h', A')" and fs: "fs = f # fs'"
    by auto
  have "pool_inv h (na_pool ?A) W" "L \<inter> set (bp_pool (na_pool ?A)) \<subseteq> W" using d by simp_all
  note q = naive_init_block_ok [OF d(7) n(3) this ib]
  have q1: "nv_inv (h1, A1) (insert f L) (insert f W)" "f \<notin> L" "f \<notin> W" "agree {f} h h1"
    "bl_tokens (h1 ! f) = bl_tokens (h ! a)" "bl_size (h1 ! f) = na_block_size A" "bl_prev (h1 ! f) = prev"
    "bl_id (h1 ! f) = Some i" "A1 = ?A\<lparr>na_pool := na_pool A1\<rparr>" "pool_frame (length h) (na_pool A) (na_pool A1)"
    using q by (simp_all add: pool_frame_def)
  have A1: "na_free A1 = na_free A" "na_cows A1 = na_cows A" "na_block_size A1 = na_block_size A"
    "na_all A1 = na_all A" "na_kv_shm A1 = na_kv_shm A" "na_cur_reserved A1 = na_cur_reserved A"
    by (subst q1(9), simp)+
  have "set as \<subseteq> insert f L" using Cons.prems(2) by auto
  note IH = Cons.IH [OF q1(1) this lp]
  have f: "f < length h1" using nv_invD(2) [OF q1(1), of f] by simp
  have fn: "f \<notin> set fs'" using IH by blast
  have hf: "h' ! f = h1 ! f" using IH f fn agreeD by blast
  have asm: "map (\<lambda>a. (bl_tokens (h1 ! a), bl_id (h1 ! a), na_block_size A1)) as
      = map (\<lambda>a. (bl_tokens (h ! a), bl_id (h ! a), na_block_size A)) as"
  proof (rule map_cong [OF refl])
    fix x assume "x \<in> set as"
    then have "x \<in> L" using Cons.prems(2) by auto
    then have "h1 ! x = h ! x" using q1(2,4) d(2) agreeD by blast
    then show "(bl_tokens (h1 ! x), bl_id (h1 ! x), na_block_size A1) = (bl_tokens (h ! x), bl_id (h ! x), na_block_size A)"
      by (simp add: A1)
  qed
  have ag: "agree (set fs) h h'"
    using agree_trans [OF agree_mono [OF q1(4)] agree_mono [of "set fs'" h1 h' "set fs"]] IH by (auto simp: fs)
  have env: "same_env A A'" using same_env_trans [OF same_envI] A1 IH by blast
  have "pool_frame (length h) (na_pool A) (na_pool A')"
    using pool_frame_trans [OF q1(10)] IH agree_length [OF q1(4)] by blast
  then show ?case
    using IH q1 hf asm ag env A1 i by (auto simp: fs)
qed

lemma naive_fork_ok:
  assumes inv: "nv_inv (h, A) L W" and as: "linked h None as" "as \<noteq> []" "distinct as" "set as \<subseteq> L"
    and run: "naive_fork (last as) (h, A) = Inr (fs, h', A')"
  shows "nv_inv (h', A') (L \<union> set fs) (W \<union> set fs) \<and> distinct fs \<and> set fs \<inter> L = {} \<and> set fs \<inter> W = {}
    \<and> agree (set fs) h h' \<and> length fs = length as \<and> linked h' None fs
    \<and> map (\<lambda>a. (bl_tokens (h' ! a), bl_id (h' ! a), bl_size (h' ! a))) fs
        = map (\<lambda>a. (bl_tokens (h ! a), bl_id (h ! a), na_block_size A)) as
    \<and> same_env A A' \<and> na_free A' = na_free A \<and> na_cows A' = na_cows A \<and> pool_frame (length h) (na_pool A) (na_pool A')"
proof -
  have "\<forall>a \<in> set as. a < length h" using nv_invD(2) [OF inv] as(4) by blast
  from get_all_blocks_linked [OF as(1-3) this] run
  have "naive_fork_loop None as (h, A) = Inr (fs, h', A')" by (simp add: naive_fork_def)
  from naive_fork_loop_ok [OF inv as(4) this] show ?thesis .
qed

subsection \<open>The blocks of a prompt\<close>

lemma alloc_ids_ok:
  assumes "al_inv A R" and "map_r (\<lambda>_. naive_allocate_block_id) ks A = Inr (ids, A')"
  shows "al_inv A' (R + mset ids) \<and> na_free A = ids @ na_free A' \<and> length ids = length ks
    \<and> A' = A\<lparr>na_free := na_free A', na_refs := na_refs A'\<rparr>"
  using assms
proof (induction ks arbitrary: A R ids)
  case (Cons k ks)
  from Cons.prems(2) obtain i A1 js where al: "naive_allocate_block_id A = Inr (i, A1)"
    and r: "map_r (\<lambda>_. naive_allocate_block_id) ks A1 = Inr (js, A')" and ids: "ids = i # js"
    by auto
  from alloc_id_inv [OF Cons.prems(1) al] have 1: "al_inv A1 (R + {#i#})" "na_free A = i # na_free A1"
    "A1 = A\<lparr>na_free := na_free A1, na_refs := (na_refs A)(i \<mapsto> 1)\<rparr>" by blast+
  from Cons.IH [OF 1(1) r] have 2: "al_inv A' (R + {#i#} + mset js)" "na_free A1 = js @ na_free A'"
    "length js = length ks" "A' = A1\<lparr>na_free := na_free A', na_refs := na_refs A'\<rparr>" by blast+
  have "A' = A\<lparr>na_free := na_free A', na_refs := na_refs A'\<rparr>"
    by (subst 2(4), subst 1(3)) simp
  with 1 2 show ?case by (simp add: ids)
qed auto

lemma naive_init_blocks_ok:
  assumes "ids_ok h L" "al_inv A (refs_of h L + mset (map snd xs))" "pool_inv h (na_pool A) W"
      "L \<inter> set (bp_pool (na_pool A)) \<subseteq> W"
    and "naive_init_blocks prev xs (h, A) = Inr (bs, h', A')"
  shows "nv_inv (h', A') (L \<union> set bs) (W \<union> set bs) \<and> distinct bs \<and> set bs \<inter> L = {} \<and> set bs \<inter> W = {}
    \<and> agree (set bs) h h' \<and> length bs = length xs \<and> linked h' prev bs
    \<and> map (\<lambda>a. (bl_tokens (h' ! a), bl_id (h' ! a))) bs = map (\<lambda>(t, i). (t, Some i)) xs
    \<and> (\<forall>a \<in> set bs. bl_size (h' ! a) = na_block_size A)
    \<and> same_env A A' \<and> na_free A' = na_free A \<and> na_cows A' = na_cows A \<and> pool_frame (length h) (na_pool A) (na_pool A')"
  using assms
proof (induction xs arbitrary: h A L W prev bs)
  case Nil
  then show ?case by (auto simp: nv_inv_def)
next
  case (Cons x xs)
  obtain t i where x: "x = (t, i)" by (cases x)
  from Cons.prems(5) x obtain f h1 A1 bs' where
    ib: "naive_init_block prev t (Some i) (h, A) = Inr (f, h1, A1)"
    and lp: "naive_init_blocks (Some f) xs (h1, A1) = Inr (bs', h', A')" and bs: "bs = f # bs'"
    by auto
  let ?R = "refs_of h L + mset (map snd xs)"
  have al: "al_inv A (?R + {#i#})" using Cons.prems(2) by (simp add: x)
  from ib obtain P where p: "pool_init_block prev t (na_block_size A) (Some i) (h, na_pool A) = Inr (f, h1, P)"
    and A1: "A1 = A\<lparr>na_pool := P\<rparr>" by (auto simp: naive_init_block_def)
  note q = pool_init_block_inv [OF Cons.prems(3) p]
  have fin: "finite L" using Cons.prems(1) by (simp add: ids_ok_def)
  have fL: "f \<notin> L"
  proof
    assume f: "f \<in> L"
    then have "f < length h" using Cons.prems(1) by (auto simp: ids_ok_def)
    moreover have "f \<in> set (bp_pool P)" using pool_inv_O [OF conjunct1 [OF q]] by blast
    moreover have "set (bp_pool P) = set (bp_pool (na_pool A)) \<union> {length h..<length h1}" using q by blast
    ultimately have "f \<in> W" using f Cons.prems(4) by auto
    with q show False by blast
  qed
  have fr: "h1 ! x = h ! x" if "x \<in> L" for x
  proof -
    have "x < length h" "x \<noteq> f" using that fL Cons.prems(1) by (auto simp: ids_ok_def)
    moreover have "agree {f} h h1" using q by blast
    ultimately show ?thesis by (simp add: agreeD)
  qed
  have le: "length h \<le> length h1" using q by (simp add: agree_def)
  have R: "refs_of h1 (insert f L) = refs_of h L + {#i#}"
    using refs_of_insert [OF fin fL, of h1] refs_of_cong [of L h1 h] fr q by simp
  have 1: "ids_ok h1 (insert f L)" using Cons.prems(1) fr q le by (auto simp: ids_ok_def)
  have 2: "al_inv A1 (refs_of h1 (insert f L) + mset (map snd xs))"
    using al unfolding R by (simp add: al_inv_def A1 reserved_ids_def ac_simps split: option.splits)
  have 3: "pool_inv h1 (na_pool A1) (insert f W)" using q by (simp add: A1)
  have 4: "insert f L \<inter> set (bp_pool (na_pool A1)) \<subseteq> insert f W"
  proof -
    have "\<forall>x \<in> L. x < length h" using Cons.prems(1) by (simp add: ids_ok_def)
    moreover have "set (bp_pool P) = set (bp_pool (na_pool A)) \<union> {length h..<length h1}" using q by blast
    ultimately show ?thesis using Cons.prems(4) by (fastforce simp: A1)
  qed
  note IH = Cons.IH [OF 1 2 3 4 lp]
  have f: "f < length h1" "f \<notin> set bs'" using q IH by blast+
  have hf: "h' ! f = h1 ! f" using IH f agreeD by blast
  have ag: "agree (set bs) h h'"
    using agree_trans [OF agree_mono [of "{f}" h h1 "set bs"] agree_mono [of "set bs'" h1 h' "set bs"]] IH q
    by (auto simp: bs)
  have e: "same_env A A1" by (rule same_envI) (simp_all add: A1)
  have pf: "pool_frame (length h) (na_pool A) (na_pool A1)" using q by (simp add: pool_frame_def A1)
  have i1: "nv_inv (h', A') (insert f L \<union> set bs') (insert f W \<union> set bs')" "distinct bs'"
    "set bs' \<inter> insert f L = {}" "set bs' \<inter> insert f W = {}" "length bs' = length xs" "linked h' (Some f) bs'"
    "map (\<lambda>a. (bl_tokens (h' ! a), bl_id (h' ! a))) bs' = map (\<lambda>(t, i). (t, Some i)) xs"
    "\<forall>a \<in> set bs'. bl_size (h' ! a) = na_block_size A1" "same_env A1 A'" "na_free A' = na_free A1"
    "na_cows A' = na_cows A1" "pool_frame (length h1) (na_pool A1) (na_pool A')" using IH by blast+
  have q1: "bl_tokens (h1 ! f) = t" "bl_id (h1 ! f) = Some i" "bl_prev (h1 ! f) = prev"
    "bl_size (h1 ! f) = na_block_size A" "f \<notin> W" using q by blast+
  have u: "L \<union> set bs = insert f L \<union> set bs'" "W \<union> set bs = insert f W \<union> set bs'" by (auto simp: bs)
  have s: "same_env A A'" "pool_frame (length h) (na_pool A) (na_pool A')"
    using same_env_trans [OF e i1(9)] pool_frame_trans [OF pf i1(12) le] by blast+
  show ?case
    unfolding u using i1 q1 fL f hf ag s by (simp add: bs x A1)
qed

lemma naive_allocate_immutable_blocks_ok:
  assumes inv: "nv_inv (h, A) L W"
    and run: "naive_allocate_immutable_blocks prev tss (h, A) = Inr (bs, h', A')"
  shows "nv_inv (h', A') (L \<union> set bs) (W \<union> set bs) \<and> distinct bs \<and> set bs \<inter> L = {} \<and> set bs \<inter> W = {}
    \<and> agree (set bs) h h' \<and> length bs = length tss \<and> linked h' prev bs
    \<and> map (\<lambda>a. bl_tokens (h' ! a)) bs = tss \<and> (\<forall>a \<in> set bs. bl_size (h' ! a) = na_block_size A)
    \<and> same_env A A' \<and> na_free A = map (\<lambda>a. the (bl_id (h' ! a))) bs @ na_free A' \<and> na_cows A' = na_cows A
    \<and> pool_frame (length h) (na_pool A) (na_pool A')"
proof -
  note d = nv_invD [OF inv]
  from run obtain ids A1 where m: "map_r (\<lambda>_. naive_allocate_block_id) [0..<length tss] A = Inr (ids, A1)"
    and b: "naive_init_blocks prev (zip tss ids) (h, A1) = Inr (bs, h', A')"
    by (auto simp: naive_allocate_immutable_blocks_def)
  from alloc_ids_ok [OF d(4) m] have 1: "al_inv A1 (refs_of h L + mset ids)" "na_free A = ids @ na_free A1"
    "length ids = length tss" "A1 = A\<lparr>na_free := na_free A1, na_refs := na_refs A1\<rparr>" by simp_all
  from 1(4) have g: "na_pool A1 = na_pool A" "na_block_size A1 = na_block_size A" "na_cows A1 = na_cows A"
    "na_all A1 = na_all A" "na_kv_shm A1 = na_kv_shm A" "na_cur_reserved A1 = na_cur_reserved A"
    by (metis naive_alloc.select_convs naive_alloc.surjective naive_alloc.update_convs(1,3))+
  have z: "map snd (zip tss ids) = ids" using 1(3) by simp
  have "al_inv A1 (refs_of h L + mset (map snd (zip tss ids)))" "pool_inv h (na_pool A1) W"
    "L \<inter> set (bp_pool (na_pool A1)) \<subseteq> W" using 1(1) d g unfolding z by simp_all
  note q = naive_init_blocks_ok [OF d(7) this b]
  have mp: "map (\<lambda>a. (bl_tokens (h' ! a), bl_id (h' ! a))) bs = map (\<lambda>(t, i). (t, Some i)) (zip tss ids)"
    using q by blast
  then have "map fst (map (\<lambda>a. (bl_tokens (h' ! a), bl_id (h' ! a))) bs) = map fst (map (\<lambda>(t, i). (t, Some i)) (zip tss ids))"
    "map (the \<circ> snd) (map (\<lambda>a. (bl_tokens (h' ! a), bl_id (h' ! a))) bs)
      = map (the \<circ> snd) (map (\<lambda>(t, i). (t, Some i)) (zip tss ids))" by simp_all
  then have "map (\<lambda>a. bl_tokens (h' ! a)) bs = tss" "map (\<lambda>a. the (bl_id (h' ! a))) bs = ids"
    using 1(3) by (simp_all add: o_def case_prod_beta)
  moreover have "same_env A A1" using g by (intro same_envI) simp_all
  ultimately show ?thesis using q 1 g same_env_trans by auto
qed

end
