(* ===== verification/Naive_Thms.thy ===== *)
theory Naive_Thms
  imports Naive_Seq
begin

text \<open>
  The naive allocator over any sequence of operations by its clients and by the controller
  that writes the shared memory segment.
\<close>

text \<open>
  A step of a client (who owns the live blocks \<open>L\<close>), of the engine that attaches a fresh
  segment, or of the controller that writes a new target.
\<close>

inductive nv_step :: "nstate \<times> nat set \<Rightarrow> nstate \<times> nat set \<Rightarrow> bool" where
  nv_allocate: "\<forall>p. prev = Some p \<longrightarrow> p \<in> L \<Longrightarrow> naive_allocate_mutable_block prev s = Inr (a, s')
    \<Longrightarrow> nv_step (s, L) (s', insert a L)"
| nv_allocate_many: "\<forall>p. prev = Some p \<longrightarrow> p \<in> L
    \<Longrightarrow> naive_allocate_immutable_blocks prev tss s = Inr (bs, s') \<Longrightarrow> nv_step (s, L) (s', L \<union> set bs)"
| nv_append: "a \<in> L \<Longrightarrow> naive_append_token_ids a toks s = Inr s' \<Longrightarrow> nv_step (s, L) (s', L)"
| nv_free: "a \<in> L \<Longrightarrow> naive_free a False s = Inr s' \<Longrightarrow> nv_step (s, L) (s', L - {a})"
| nv_fork: "linked h None as \<Longrightarrow> as \<noteq> [] \<Longrightarrow> distinct as \<Longrightarrow> set as \<subseteq> L
    \<Longrightarrow> naive_fork (last as) (h, A) = Inr (fs, s') \<Longrightarrow> nv_step ((h, A), L) (s', L \<union> set fs)"
| nv_clear: "naive_clear_copy_on_writes A = (cows, A') \<Longrightarrow> nv_step ((h, A), L) ((h, A'), L)"
| nv_attach: "na_kv_shm A = None \<Longrightarrow> na_cur_reserved A = 0
    \<Longrightarrow> nv_step ((h, A), L) ((h, A\<lparr>na_kv_shm := Some (k\<lparr>ks_reserved := 0\<rparr>)\<rparr>), L)"
| nv_target: "na_kv_shm A = Some k
    \<Longrightarrow> nv_step ((h, A), L) ((h, A\<lparr>na_kv_shm := Some (k\<lparr>ks_target_free_blocks := t\<rparr>)\<rparr>), L)"

definition naive_start :: "nat \<Rightarrow> nat \<Rightarrow> nat list \<Rightarrow> nstate \<Rightarrow> bool" where
  "naive_start num_blocks block_size ids s \<longleftrightarrow> init_naive Naive_Block GPU num_blocks block_size ids [] = Inr s"

lemma init_naive_inv:
  assumes "init_naive cls owner n bs ids h = Inr (h', A)" and "distinct ids"
  shows "nv_inv (h', A) {} {} \<and> reserved_ids A = [] \<and> na_all A = ids \<and> na_free A = ids \<and> agree {} h h'
    \<and> bp_class (na_pool A) = cls \<and> bp_owner (na_pool A) = owner \<and> bp_pool_size (na_pool A) = n * 4
    \<and> na_block_size A = bs \<and> length ids = n \<and> na_kv_shm A = None \<and> na_cows A = []
    \<and> na_cur_reserved A = 0 \<and> set (bp_pool (na_pool A)) = {length h..<length h'}"
proof -
  from assms(1) obtain P where p: "init_pool bs cls owner (n * 4) h = Inr (h', P)" and n: "card (set ids) = n"
    and A: "A = \<lparr>na_free = ids, na_all = remdups ids, na_refs = init_refcounter ids, na_block_size = bs,
       na_cows = [], na_pool = P, na_kv_shm = None, na_cur_reserved = 0\<rparr>"
    by (auto simp: init_naive_def)
  have "remdups ids = ids" using assms(2) by simp
  moreover have "mset ids = mset_set {i \<in> set ids. True}" using assms(2) by (simp add: mset_set_set)
  ultimately have "al_inv A {#}" using assms(2)
    by (simp add: al_inv_def A reserved_ids_def init_refcounter_def)
  with init_pool_inv [OF p] n assms(2) show ?thesis
    by (auto simp: nv_inv_def ids_ok_def refs_of_def A reserved_ids_def distinct_card)
qed

lemma nv_inv_alloc_cong:
  assumes "nv_inv (h, A) L W" and "na_pool A' = na_pool A" "na_all A' = na_all A" "na_refs A' = na_refs A"
    "na_free A' = na_free A" "reserved_ids A' = reserved_ids A"
  shows "nv_inv (h, A') L W"
  using assms by (simp add: nv_inv_def al_inv_def)

text \<open>The ids reserved so far stay reserved, in place; the set of all ids never changes.\<close>

definition grows :: "naive_alloc \<Rightarrow> naive_alloc \<Rightarrow> bool" where
  "grows A A' \<longleftrightarrow> na_all A' = na_all A \<and> (\<exists>new. reserved_ids A' = reserved_ids A @ new)"

lemma same_env_grows: "same_env A A' \<Longrightarrow> grows A A'"
  by (auto simp: same_env_def grows_def)

lemma grows_trans: "grows A B \<Longrightarrow> grows B C \<Longrightarrow> grows A C"
  by (auto simp: grows_def)

lemma nv_step_inv:
  assumes "nv_step c c'" and "nv_inv (fst c) (snd c) (snd c)"
  shows "nv_inv (fst c') (snd c') (snd c') \<and> grows (snd (fst c)) (snd (fst c'))"
  using assms(1)
proof (cases rule: nv_step.cases)
  case (nv_allocate prev L s a s')
  obtain h A h' A' where s: "s = (h, A)" "s' = (h', A')" by (metis prod.exhaust)
  have "nv_inv (h, A) L L" "naive_allocate_mutable_block prev (h, A) = Inr (a, h', A')"
    using assms(2) nv_allocate s by simp_all
  from naive_allocate_mutable_block_ok [OF this] same_env_grows show ?thesis by (simp add: nv_allocate s)
next
  case (nv_allocate_many prev L tss s bs s')
  obtain h A h' A' where s: "s = (h, A)" "s' = (h', A')" by (metis prod.exhaust)
  have "nv_inv (h, A) L L" "naive_allocate_immutable_blocks prev tss (h, A) = Inr (bs, h', A')"
    using assms(2) nv_allocate_many s by simp_all
  from naive_allocate_immutable_blocks_ok [OF this] same_env_grows show ?thesis by (simp add: nv_allocate_many s)
next
  case (nv_append a L toks s s')
  obtain h A h' A' where s: "s = (h, A)" "s' = (h', A')" by (metis prod.exhaust)
  have "nv_inv (h, A) L L" "a \<in> L" "naive_append_token_ids a toks (h, A) = Inr (h', A')"
    using assms(2) nv_append s by simp_all
  from naive_append_ok [OF this] same_env_grows show ?thesis by (simp add: nv_append s)
next
  case (nv_free a L s s')
  obtain h A h' A' where s: "s = (h, A)" "s' = (h', A')" by (metis prod.exhaust)
  have "nv_inv (h, A) L L" "a \<in> L" "a \<in> L" "naive_free a False (h, A) = Inr (h', A')"
    using assms(2) nv_free s by simp_all
  from naive_free_ok [OF this] same_env_grows show ?thesis unfolding nv_free(1,2) s fst_conv snd_conv by blast
next
  case (nv_fork h as L A fs s')
  obtain h' A' where s: "s' = (h', A')" by (metis prod.exhaust)
  have "nv_inv (h, A) L L" "naive_fork (last as) (h, A) = Inr (fs, h', A')"
    using assms(2) nv_fork s by simp_all
  from naive_fork_ok [OF this(1) nv_fork(3-6) this(2)] same_env_grows show ?thesis by (simp add: nv_fork s)
next
  case (nv_clear A cows A' h L)
  then have A': "A' = A\<lparr>na_cows := []\<rparr>" by (auto simp: naive_clear_copy_on_writes_def clear_cows_def)
  have r: "reserved_ids A' = reserved_ids A" by (simp add: A' reserved_ids_def split: option.split)
  have "nv_inv (h, A') L L"
    by (rule nv_inv_alloc_cong [of h A]) (use assms(2) nv_clear r in \<open>simp_all add: A'\<close>)
  with r show ?thesis by (simp add: nv_clear grows_def A')
next
  case (nv_attach A h L k)
  let ?A = "A\<lparr>na_kv_shm := Some (k\<lparr>ks_reserved := 0\<rparr>)\<rparr>"
  have r: "reserved_ids ?A = reserved_ids A" using nv_attach by (simp add: reserved_ids_def)
  have "nv_inv (h, ?A) L L"
    by (rule nv_inv_alloc_cong [of h A]) (use assms(2) nv_attach r in simp_all)
  with r show ?thesis by (simp add: nv_attach(1,2) grows_def)
next
  case (nv_target A k h L t)
  let ?A = "A\<lparr>na_kv_shm := Some (k\<lparr>ks_target_free_blocks := t\<rparr>)\<rparr>"
  have r: "reserved_ids ?A = reserved_ids A" using nv_target by (simp add: reserved_ids_def)
  have "nv_inv (h, ?A) L L"
    by (rule nv_inv_alloc_cong [of h A]) (use assms(2) nv_target r in simp_all)
  with r show ?thesis by (simp add: nv_target(1,2) grows_def)
qed

lemma nv_steps_inv:
  assumes "nv_step\<^sup>*\<^sup>* c c'" and "nv_inv (fst c) (snd c) (snd c)"
  shows "nv_inv (fst c') (snd c') (snd c') \<and> grows (snd (fst c)) (snd (fst c'))"
  using assms
proof (induction rule: rtranclp_induct)
  case base
  then show ?case by (simp add: grows_def)
next
  case (step b c')
  then have "nv_inv (fst b) (snd b) (snd b)" "grows (snd (fst c)) (snd (fst b))" by simp_all
  with nv_step_inv [OF step.hyps(2)] grows_trans show ?case by blast
qed

lemma nv_reach_inv:
  assumes "naive_start n bs ids s0" and "distinct ids" and "nv_step\<^sup>*\<^sup>* (s0, {}) (s, L)"
  shows "nv_inv s L L \<and> na_all (snd s) = ids"
proof -
  obtain h A where s0: "s0 = (h, A)" by (metis prod.exhaust)
  have "init_naive Naive_Block GPU n bs ids [] = Inr (h, A)"
    using assms(1) by (simp add: naive_start_def s0)
  from init_naive_inv [OF this assms(2)] nv_steps_inv [OF assms(3)] show ?thesis
    by (simp add: grows_def s0)
qed

text \<open>
  C9. Accounting of the naive allocator: after any sequence of allocations, appends, copies,
  forks, frees and reservations, the reference count of every block id is the number of live
  blocks that have it, and every id is referenced, free or reserved, exactly one of the three,
  listed once.
\<close>

theorem naive_accounting:
  assumes "naive_start n bs ids s0" and "distinct ids" and "nv_step\<^sup>*\<^sup>* (s0, {}) ((h, A), L)"
  shows "(\<forall>i \<in> set ids. na_refs A i = Some (int (card {a \<in> L. bl_id (h ! a) = Some i})))
    \<and> distinct (na_free A @ reserved_ids A)
    \<and> set (na_free A @ reserved_ids A) = {i \<in> set ids. \<forall>a \<in> L. bl_id (h ! a) \<noteq> Some i}
    \<and> (\<forall>a \<in> L. \<exists>i \<in> set ids. bl_id (h ! a) = Some i)"
proof -
  from nv_reach_inv [OF assms] have i: "nv_inv (h, A) L L" "na_all A = ids" by simp_all
  note d = nv_invD [OF i(1)]
  have m: "i \<in># refs_of h L \<longleftrightarrow> (\<exists>a \<in> L. bl_id (h ! a) = Some i)" for i
  proof -
    have "i \<in># refs_of h L \<longleftrightarrow> (\<exists>a \<in> L. the (bl_id (h ! a)) = i)" using d(1) by (auto simp: refs_of_def)
    with d(3) show ?thesis by fastforce
  qed
  have "\<forall>i \<in> set ids. na_refs A i = Some (int (card {a \<in> L. bl_id (h ! a) = Some i}))"
    using d(4) i(2) ref_count_refs_of [OF d(7)] by (simp add: al_inv_def ref_count_def)
  moreover have "\<forall>a \<in> L. \<exists>i \<in> set ids. bl_id (h ! a) = Some i"
  proof
    fix a assume a: "a \<in> L"
    then obtain i where "bl_id (h ! a) = Some i" using d(3) by blast
    with a m have "i \<in># refs_of h L" by blast
    then show "\<exists>i \<in> set ids. bl_id (h ! a) = Some i" using d(4) i(2) \<open>bl_id (h ! a) = Some i\<close>
      by (auto simp: al_inv_def)
  qed
  ultimately show ?thesis using al_inv_partition [OF d(4)] m i(2) by auto
qed

text \<open>
  Safety of the reservation for prewarming: an id that the allocator has published in the
  shared segment stays published at the same place, and from then on no block ever has it, so
  the memory behind it can be given to another model.
\<close>

theorem reserved_never_used:
  assumes "naive_start n bs ids s0" and "distinct ids" and "nv_step\<^sup>*\<^sup>* (s0, {}) ((h, A), L)"
    and "nv_step\<^sup>*\<^sup>* ((h, A), L) ((h', A'), L')" and "j < length (reserved_ids A)"
  shows "j < length (reserved_ids A') \<and> reserved_ids A' ! j = reserved_ids A ! j
    \<and> (\<forall>a \<in> L'. bl_id (h' ! a) \<noteq> Some (reserved_ids A ! j))
    \<and> reserved_ids A ! j \<notin> set (na_free A')"
proof -
  have inv: "nv_inv (h, A) L L" using nv_reach_inv [OF assms(1-3)] by simp
  from nv_steps_inv [OF assms(4)] inv have i: "nv_inv (h', A') L' L'" "grows A A'" by simp_all
  then obtain new where g: "reserved_ids A' = reserved_ids A @ new" by (auto simp: grows_def)
  note d = nv_invD [OF i(1)]
  let ?i = "reserved_ids A ! j"
  have "?i \<in> set (reserved_ids A')" using assms(5) g by simp
  then have n: "?i \<notin># refs_of h' L'" "?i \<notin> set (na_free A')" using al_inv_partition [OF d(4)] by blast+
  have "bl_id (h' ! a) \<noteq> Some ?i" if "a \<in> L'" for a
    using refs_of_mem [OF d(1) that, of h'] n(1) by auto
  then show ?thesis using assms(5) g n(2) by (simp add: nth_append)
qed

text \<open>
  The reservation does what the controller asks: when a block id is freed for good while
  the segment is attached, at most the target number of ids stay free, the rest being
  published, and the published count is the number of reserved ids; without a segment the id
  is simply free again.
\<close>

theorem free_reserves:
  assumes "nv_inv (h, A) L L" and "a \<in> L" and "bl_id (h ! a) = Some i"
    and "\<forall>x \<in> L - {a}. bl_id (h ! x) \<noteq> Some i" and "shm_room A"
  shows "\<exists>h' A'. naive_free a False (h, A) = Inr (h', A')
    \<and> (case na_kv_shm A of
         None \<Rightarrow> na_free A' = i # na_free A
       | Some k \<Rightarrow> int (length (na_free A')) \<le> ks_target_free_blocks k
           \<and> length (na_free A') + length (reserved_ids A') = length (na_free A) + length (reserved_ids A) + 1)"
proof -
  note d = nv_invD [OF assms(1)]
  from naive_free_block_id_total [OF assms(1,2,5)] obtain h' A1 where
    f: "naive_free_block_id a (h, A) = Inr (h', A1)" by auto
  then have rel: "release_id i A = Inr A1" using assms(3) by (auto simp: naive_free_block_id_release)
  have R: "refs_of h L = refs_of h (L - {a}) + {#i#}" using refs_of_remove [OF d(1) assms(2), of h] assms(3) by simp
  have ni: "i \<notin># refs_of h (L - {a})"
    using assms(4) d(1,3) by (fastforce simp: refs_of_def)
  have al: "al_inv A (refs_of h (L - {a}) + {#i#})" using d(4) R by simp
  note r = release_id_inv [OF al rel]
  let ?A' = "A1\<lparr>na_pool := pool_free_block h' a (na_pool A1)\<rparr>"
  have run: "naive_free a False (h, A) = Inr (h', ?A')" using f by (simp add: naive_free_def)
  have res: "reserved_ids ?A' = reserved_ids A1" by (simp add: reserved_ids_def split: option.split)
  have "length (na_free A1) + length (reserved_ids A1) + card (set_mset (refs_of h (L - {a}))) = length (na_all A1)"
    "length (na_free A) + length (reserved_ids A) + card (set_mset (refs_of h (L - {a}) + {#i#})) = length (na_all A)"
    using al_inv_partition(5) r al by blast+
  moreover have "card (set_mset (refs_of h (L - {a}) + {#i#})) = card (set_mset (refs_of h (L - {a}))) + 1"
    using ni by simp
  moreover have "na_all A1 = na_all A" using r by (simp add: same_env_def)
  ultimately have len: "length (na_free A1) + length (reserved_ids A1) = length (na_free A) + length (reserved_ids A) + 1"
    by simp
  show ?thesis
  proof (cases "na_kv_shm A")
    case None
    then show ?thesis using run r ni by auto
  next
    case (Some k)
    then have "0 \<le> ks_target_free_blocks k" using assms(5) by (simp add: shm_room_def)
    then show ?thesis using run r ni len Some res by auto
  qed
qed


text \<open>
  Copy on write: after appending tokens to a live block, no other block shares its id; if
  it was shared before, it moved to a free id and the copy was recorded; all other blocks, and
  everything else of the block itself, are as before.
\<close>

theorem append_unshares:
  assumes "nv_inv (h, A) L L" and "a \<in> L" and "naive_append_token_ids a toks (h, A) = Inr (h', A')"
  shows "(\<exists>i. bl_id (h' ! a) = Some i \<and> (\<forall>x \<in> L - {a}. bl_id (h' ! x) \<noteq> Some i)
      \<and> (if \<exists>x \<in> L - {a}. bl_id (h ! x) = bl_id (h ! a)
         then i = hd (na_free A) \<and> na_cows A' = na_cows A @ [(the (bl_id (h ! a)), i)]
         else bl_id (h ! a) = Some i \<and> A' = A))
    \<and> (\<forall>x \<in> L - {a}. h' ! x = h ! x)
    \<and> bl_tokens (h' ! a) = bl_tokens (h ! a) @ toks"
proof -
  note d = nv_invD [OF assms(1)]
  note q = naive_append_ok [OF assms]
  obtain src where src: "bl_id (h ! a) = Some src" using d(3) [OF assms(2)] by blast
  have oth: "h' ! x = h ! x" if "x \<in> L - {a}" for x
  proof -
    have "x < length h" "x \<notin> {a}" using that d(2) by auto
    moreover have "agree {a} h h'" using q by blast
    ultimately show ?thesis by (simp add: agreeD)
  qed
  have tok: "bl_tokens (h' ! a) = bl_tokens (h ! a) @ toks"
  proof -
    have "h' ! a = (h ! a)\<lparr>bl_tokens := bl_tokens (h ! a) @ toks, bl_id := bl_id (h' ! a)\<rparr>" using q by blast
    then show ?thesis by (metis blk.select_convs(2) blk.surjective blk.update_convs(2,5))
  qed
  have sh: "ref_count h L src \<le> 1 \<longleftrightarrow> \<not> (\<exists>x \<in> L - {a}. bl_id (h ! x) = bl_id (h ! a))"
  proof -
    have f: "finite {x \<in> L. bl_id (h ! x) = Some src}" using d(1) by simp
    have "{x \<in> L. bl_id (h ! x) = Some src} = insert a {x \<in> L - {a}. bl_id (h ! x) = Some src}"
      using assms(2) src by auto
    then have "ref_count h L src = Suc (card {x \<in> L - {a}. bl_id (h ! x) = Some src})"
      using d(1) by (simp add: ref_count_def)
    then show ?thesis using d(1) src by auto
  qed
  show ?thesis
  proof (cases "ref_count h L src \<le> 1")
    case True
    then have i: "bl_id (h' ! a) = bl_id (h ! a)" "A' = A" using q src by simp_all
    have "\<forall>x \<in> L - {a}. bl_id (h' ! x) \<noteq> Some src" using True sh oth src by simp
    then show ?thesis using i src True sh oth tok by auto
  next
    case False
    then obtain i where i: "bl_id (h' ! a) = Some i" "na_free A = i # na_free A'" "ref_count h L i = 0"
      "na_cows A' = na_cows A @ [(src, i)]" using q src by auto
    have "{x \<in> L. bl_id (h ! x) = Some i} = {}" using i(3) d(1) by (simp add: ref_count_def)
    then have "\<forall>x \<in> L - {a}. bl_id (h' ! x) \<noteq> Some i" using oth by auto
    then show ?thesis using i src False sh oth tok by auto
  qed
qed

text \<open>
  Forking a sequence: the copy is a chain of new blocks with the same tokens and the same
  ids, one more reference for each, the old blocks and the free list untouched.
\<close>

theorem fork_shares:
  assumes "nv_inv (h, A) L L" and "linked h None as" "as \<noteq> []" "distinct as" "set as \<subseteq> L"
    and "naive_fork (last as) (h, A) = Inr (fs, h', A')"
  shows "set fs \<inter> L = {} \<and> distinct fs \<and> linked h' None fs
    \<and> map (\<lambda>a. (bl_tokens (h' ! a), bl_id (h' ! a))) fs = map (\<lambda>a. (bl_tokens (h ! a), bl_id (h ! a))) as
    \<and> (\<forall>a \<in> L. h' ! a = h ! a) \<and> na_free A' = na_free A
    \<and> (\<forall>i \<in> set (na_all A). na_refs A' i = Some (int (card {a \<in> L. bl_id (h ! a) = Some i}
          + card {a \<in> set as. bl_id (h ! a) = Some i})))"
proof -
  note d = nv_invD [OF assms(1)]
  note q = naive_fork_ok [OF assms]
  have q1: "nv_inv (h', A') (L \<union> set fs) (L \<union> set fs)" "distinct fs" "set fs \<inter> L = {}" "agree (set fs) h h'"
    "length fs = length as" "linked h' None fs" "same_env A A'" "na_free A' = na_free A"
    and m: "map (\<lambda>a. (bl_tokens (h' ! a), bl_id (h' ! a), bl_size (h' ! a))) fs
        = map (\<lambda>a. (bl_tokens (h ! a), bl_id (h ! a), na_block_size A)) as" using q by blast+
  have "map (\<lambda>(t, i, _). (t, i)) (map (\<lambda>a. (bl_tokens (h' ! a), bl_id (h' ! a), bl_size (h' ! a))) fs)
    = map (\<lambda>(t, i, _). (t, i)) (map (\<lambda>a. (bl_tokens (h ! a), bl_id (h ! a), na_block_size A)) as)" using m by simp
  then have mp: "map (\<lambda>a. (bl_tokens (h' ! a), bl_id (h' ! a))) fs = map (\<lambda>a. (bl_tokens (h ! a), bl_id (h ! a))) as"
    by (simp add: o_def)
  have old: "h' ! a = h ! a" if "a \<in> L" for a
  proof -
    have "a < length h" "a \<notin> set fs" using that d(2) q1(3) by auto
    with q1(4) show ?thesis by (simp add: agreeD)
  qed
  note e = nv_invD [OF q1(1)]
  have cnt: "card {a \<in> L \<union> set fs. bl_id (h' ! a) = Some i}
      = card {a \<in> L. bl_id (h ! a) = Some i} + card {a \<in> set as. bl_id (h ! a) = Some i}" for i
  proof -
    have "{a \<in> L \<union> set fs. bl_id (h' ! a) = Some i} = {a \<in> L. bl_id (h ! a) = Some i} \<union> {a \<in> set fs. bl_id (h' ! a) = Some i}"
      using old by auto
    moreover have "{a \<in> L. bl_id (h ! a) = Some i} \<inter> {a \<in> set fs. bl_id (h' ! a) = Some i} = {}" using q1(3) by auto
    moreover have "card {a \<in> set fs. bl_id (h' ! a) = Some i} = card {a \<in> set as. bl_id (h ! a) = Some i}"
    proof -
      have "map (snd \<circ> (\<lambda>a. (bl_tokens (h' ! a), bl_id (h' ! a)))) fs = map (snd \<circ> (\<lambda>a. (bl_tokens (h ! a), bl_id (h ! a)))) as"
        using arg_cong [OF mp, of "map snd"] by (simp only: map_map)
      then have ids: "map (\<lambda>a. bl_id (h' ! a)) fs = map (\<lambda>a. bl_id (h ! a)) as" by (simp add: o_def)
      have "length (filter (\<lambda>v. v = Some i) (map (\<lambda>a. bl_id (h' ! a)) fs))
        = length (filter (\<lambda>v. v = Some i) (map (\<lambda>a. bl_id (h ! a)) as))" using ids by simp
      then have "length (filter (\<lambda>a. bl_id (h' ! a) = Some i) fs) = length (filter (\<lambda>a. bl_id (h ! a) = Some i) as)"
        by (simp add: filter_map o_def)
      moreover have "length (filter (\<lambda>a. bl_id (h' ! a) = Some i) fs) = card {a \<in> set fs. bl_id (h' ! a) = Some i}"
        "length (filter (\<lambda>a. bl_id (h ! a) = Some i) as) = card {a \<in> set as. bl_id (h ! a) = Some i}"
        using q1(2) assms(4) distinct_card [of "filter _ _"] by (metis distinct_filter set_filter)+
      ultimately show ?thesis by simp
    qed
    ultimately show ?thesis using d(1) by (simp add: card_Un_disjoint)
  qed
  have "na_all A' = na_all A" using q1(7) by (simp add: same_env_def)
  then have "na_refs A' i = Some (int (card {a \<in> L \<union> set fs. bl_id (h' ! a) = Some i}))" if "i \<in> set (na_all A)" for i
    using e(4) that ref_count_refs_of [OF e(7), of i] by (simp add: al_inv_def ref_count_def)
  with cnt have "\<forall>i \<in> set (na_all A). na_refs A' i = Some (int (card {a \<in> L. bl_id (h ! a) = Some i}
          + card {a \<in> set as. bl_id (h ! a) = Some i}))" by simp
  with q1 mp old show ?thesis by blast
qed

text \<open>
  Worked runs of the naive allocator: one block of 4 tokens; it is allocated, filled with two
  tokens, forked, and freed while a segment with target 0 is attached.
\<close>

definition ex_blank :: blk where
  "ex_blank = \<lparr>bl_class = Naive_Block, bl_tokens = [], bl_size = 4, bl_prev = None, bl_id = None,
     bl_pool_id = 0, bl_owner = GPU, bl_hash = None, bl_total = 0, bl_computed = False\<rparr>"

definition ex_pool :: block_pool where
  "ex_pool = \<lparr>bp_block_size = 4, bp_class = Naive_Block, bp_owner = GPU, bp_pool_size = 4,
     bp_free = [0, 1, 2, 3], bp_pool = [0, 1, 2, 3]\<rparr>"

definition ex_alloc0 :: naive_alloc where
  "ex_alloc0 = \<lparr>na_free = [0], na_all = [0], na_refs = [0 \<mapsto> 0], na_block_size = 4, na_cows = [],
     na_pool = ex_pool, na_kv_shm = None, na_cur_reserved = 0\<rparr>"

definition ex_heap0 :: heap where
  "ex_heap0 = [ex_blank, ex_blank, ex_blank, ex_blank]"

lemma ex_start: "naive_start 1 4 [0] (ex_heap0, ex_alloc0)"
proof -
  have "init_refcounter [0] = [0 \<mapsto> 0]" by (auto simp: init_refcounter_def)
  then show ?thesis
    by (simp add: naive_start_def init_naive_def init_pool_def ex_heap0_def ex_alloc0_def ex_pool_def
        ex_blank_def block_init_def naive_init_def append_token_ids_no_cow_def eval_nat_numeral
        upt_conv_Cons)
qed

definition ex_heap1 :: heap where
  "ex_heap1 = [ex_blank\<lparr>bl_id := Some 0\<rparr>, ex_blank, ex_blank, ex_blank]"

definition ex_alloc1 :: naive_alloc where
  "ex_alloc1 = ex_alloc0\<lparr>na_free := [], na_refs := [0 \<mapsto> 1], na_pool := ex_pool\<lparr>bp_free := [1, 2, 3]\<rparr>\<rparr>"

lemma ex_allocate:
  "naive_allocate_mutable_block None (ex_heap0, ex_alloc0) = Inr (0, ex_heap1, ex_alloc1)"
  by (simp add: naive_allocate_mutable_block_def naive_allocate_block_id_def naive_init_block_def
      pool_init_block_def rc_incr_def rc_get_def block_init_def naive_init_def nth_r_def
      append_token_ids_no_cow_def ex_heap0_def ex_heap1_def ex_alloc0_def ex_alloc1_def ex_pool_def ex_blank_def)

definition ex_heap2 :: heap where
  "ex_heap2 = [ex_blank\<lparr>bl_id := Some 0, bl_tokens := [7, 8]\<rparr>, ex_blank, ex_blank, ex_blank]"

lemma ex_append: "naive_append_token_ids 0 [7, 8] (ex_heap1, ex_alloc1) = Inr (ex_heap2, ex_alloc1)"
  by (simp add: naive_append_token_ids_def append_token_ids_no_cow_def num_empty_slots_def
      naive_cow_block_if_not_appendable_def is_appendable_def ro_get_def rc_get_def set_block_id_def
      ex_heap1_def ex_heap2_def ex_alloc1_def ex_alloc0_def ex_blank_def)

lemma ex_reach2: "nv_step\<^sup>*\<^sup>* ((ex_heap0, ex_alloc0), {}) ((ex_heap2, ex_alloc1), {0})"
proof -
  have 1: "nv_step ((ex_heap0, ex_alloc0), {}) ((ex_heap1, ex_alloc1), {0})"
    using nv_allocate [OF _ ex_allocate] by simp
  have 2: "nv_step ((ex_heap1, ex_alloc1), {0}) ((ex_heap2, ex_alloc1), {0})"
    using nv_append [OF _ ex_append] by simp
  from 1 2 show ?thesis by (meson rtranclp.simps)
qed

lemma ex_inv1: "nv_inv (ex_heap1, ex_alloc1) {0} {0}"
proof -
  have "nv_step\<^sup>*\<^sup>* ((ex_heap0, ex_alloc0), {}) ((ex_heap1, ex_alloc1), {0})"
    using nv_allocate [OF _ ex_allocate, of "{}"] by simp
  from nv_reach_inv [OF ex_start _ this] show ?thesis by simp
qed

lemma ex_inv2: "nv_inv (ex_heap2, ex_alloc1) {0} {0}"
  using nv_reach_inv [OF ex_start _ ex_reach2] by simp

theorem naive_accounting_witness:
  "na_refs ex_alloc1 0 = Some (int (card {a \<in> {0}. bl_id (ex_heap2 ! a) = Some 0}))"
  using naive_accounting [OF ex_start _ ex_reach2] by simp

theorem append_unshares_witness:
  "bl_tokens (ex_heap2 ! 0) = bl_tokens (ex_heap1 ! 0) @ [7, 8]"
  using append_unshares [OF ex_inv1 _ ex_append] by simp

text \<open>The fork of the one-block sequence is the object at address 1.\<close>

definition ex_heap3 :: heap where
  "ex_heap3 = [ex_blank\<lparr>bl_id := Some 0, bl_tokens := [7, 8]\<rparr>,
     ex_blank\<lparr>bl_id := Some 0, bl_tokens := [7, 8], bl_pool_id := 1\<rparr>, ex_blank, ex_blank]"

definition ex_alloc3 :: naive_alloc where
  "ex_alloc3 = ex_alloc1\<lparr>na_refs := [0 \<mapsto> 2], na_pool := ex_pool\<lparr>bp_free := [2, 3]\<rparr>\<rparr>"

lemma ex_fork: "naive_fork (last [0]) (ex_heap2, ex_alloc1) = Inr ([1], ex_heap3, ex_alloc3)"
  by (simp add: naive_fork_def get_all_blocks_recursively_def eval_nat_numeral naive_init_block_def
      pool_init_block_def rc_incr_def rc_get_def block_init_def naive_init_def nth_r_def num_empty_slots_def
      append_token_ids_no_cow_def ex_heap2_def ex_heap3_def ex_alloc0_def ex_alloc1_def ex_alloc3_def
      ex_pool_def ex_blank_def)

theorem fork_shares_witness:
  "linked ex_heap3 None [1] \<and> na_refs ex_alloc3 0 = Some 2"
proof -
  have "linked ex_heap2 None [0]" by (simp add: ex_heap2_def ex_blank_def)
  from fork_shares [OF ex_inv2 this _ _ _ ex_fork] have
    "linked ex_heap3 None [1] \<and> na_refs ex_alloc3 0 = Some (int (card {a \<in> {0}. bl_id (ex_heap2 ! a) = Some 0}
      + card {a \<in> set [0]. bl_id (ex_heap2 ! a) = Some 0}))"
    by (simp add: ex_alloc1_def ex_alloc0_def)
  moreover have "{a \<in> {0}. bl_id (ex_heap2 ! a) = Some 0} = {0}" by (auto simp: ex_heap2_def)
  ultimately show ?thesis by simp
qed

text \<open>Attach a segment with target 0 and free the block: its id is reserved.\<close>

definition ex_shm :: kv_shm where
  "ex_shm = \<lparr>ks_bytes = 100000, ks_target_free_blocks = 0, ks_reserved = 0, ks_ids = Map.empty\<rparr>"

definition ex_alloc4 :: naive_alloc where
  "ex_alloc4 = ex_alloc1\<lparr>na_kv_shm := Some ex_shm\<rparr>"

definition ex_alloc5 :: naive_alloc where
  "ex_alloc5 = ex_alloc4\<lparr>na_refs := [0 \<mapsto> 0], na_cur_reserved := 1,
     na_kv_shm := Some (ex_shm\<lparr>ks_reserved := 1, ks_ids := [0 \<mapsto> 0]\<rparr>), na_pool := ex_pool\<rparr>"

lemma ex_free: "naive_free 0 False (ex_heap2, ex_alloc4)
    = Inr (set_block_id 0 None ex_heap2, ex_alloc5)"
  by (simp add: naive_free_def naive_free_block_id_def rc_decr_def rc_get_def reserve_blocks_def
      pool_free_block_def set_block_id_def ex_heap2_def ex_alloc5_def ex_alloc4_def ex_alloc1_def
      ex_alloc0_def ex_shm_def ex_pool_def ex_blank_def)

lemma ex_reach4: "nv_step\<^sup>*\<^sup>* ((ex_heap0, ex_alloc0), {}) ((ex_heap2, ex_alloc4), {0})"
proof -
  have "ex_shm\<lparr>ks_reserved := 0\<rparr> = ex_shm" by (simp add: ex_shm_def)
  then have "nv_step ((ex_heap2, ex_alloc1), {0}) ((ex_heap2, ex_alloc4), {0})"
    using nv_attach [of ex_alloc1 ex_heap2 "{0}" ex_shm] by (simp add: ex_alloc4_def ex_alloc1_def ex_alloc0_def)
  with ex_reach2 show ?thesis by (rule rtranclp.rtrancl_into_rtrancl)
qed

lemma ex_reach5: "nv_step\<^sup>*\<^sup>* ((ex_heap0, ex_alloc0), {}) ((set_block_id 0 None ex_heap2, ex_alloc5), {})"
  using ex_reach4 nv_free [OF _ ex_free, of "{0}"] by (auto intro: rtranclp.rtrancl_into_rtrancl)

theorem reserved_never_used_witness:
  "reserved_ids ex_alloc5 ! 0 = 0 \<and> 0 \<notin> set (na_free ex_alloc5)"
proof -
  have r: "reserved_ids ex_alloc5 = [0]" by (simp add: reserved_ids_def ex_alloc5_def)
  from reserved_never_used [OF ex_start _ ex_reach5 rtranclp.rtrancl_refl, of 0] r show ?thesis by simp
qed

theorem free_reserves_witness:
  "\<exists>h' A'. naive_free 0 False (ex_heap2, ex_alloc4) = Inr (h', A') \<and> int (length (na_free A')) \<le> 0"
proof -
  have inv: "nv_inv (ex_heap2, ex_alloc4) {0} {0}" using nv_reach_inv [OF ex_start _ ex_reach4] by simp
  have "bl_id (ex_heap2 ! 0) = Some 0" "shm_room ex_alloc4" "na_kv_shm ex_alloc4 = Some ex_shm"
    by (simp_all add: ex_heap2_def ex_alloc4_def ex_alloc1_def ex_alloc0_def ex_shm_def shm_room_def)
  with free_reserves [OF inv, of 0 0] show ?thesis by (auto simp: ex_shm_def)
qed

end
