(* ===== verification/Sequences.thy ===== *)
theory Sequences
  imports Prelude
begin

text \<open>
  \<open>sequence.py\<close>: the tokens of a sequence (\<open>SequenceData\<close>), a sequence and a group of sequences.
  What a request carries for the model only (prompt text, log probabilities of the output,
  multi-modal data, pooling parameters, trace headers) is left out, and so is the hash of a block
  by \<open>hash_of_block\<close>, which nothing calls.
\<close>

datatype seq_status =
    WAITING
  | RUNNING
  | SWAPPED
  | FINISHED_STOPPED
  | FINISHED_LENGTH_CAPPED
  | FINISHED_ABORTED
  | FINISHED_IGNORED

definition status_finished :: "seq_status \<Rightarrow> bool" where
  "status_finished st \<longleftrightarrow> st \<notin> {WAITING, RUNNING, SWAPPED}"

fun get_finished_reason :: "seq_status \<Rightarrow> string option" where
  "get_finished_reason FINISHED_STOPPED = Some ''stop''"
| "get_finished_reason FINISHED_LENGTH_CAPPED = Some ''length''"
| "get_finished_reason FINISHED_ABORTED = Some ''abort''"
| "get_finished_reason FINISHED_IGNORED = Some ''length''"
| "get_finished_reason _ = None"

datatype seq_stage = PREFILL | DECODE

subsection \<open>SequenceData\<close>

record seq_data =
  sd_prompt :: "int list"
  sd_output :: "int list"
  sd_logprob :: real
  sd_num_computed :: nat
  sd_stage :: seq_stage
  sd_cached :: "int list"
  sd_new_appended :: "int list"

definition seq_data_of :: "int list \<Rightarrow> int list \<Rightarrow> seq_data" where
  "seq_data_of prompt output = \<lparr>sd_prompt = prompt, sd_output = output, sd_logprob = 0, sd_num_computed = 0,
     sd_stage = PREFILL, sd_cached = prompt @ output, sd_new_appended = []\<rparr>"

definition from_seqs :: "int list \<Rightarrow> int list option \<Rightarrow> seq_data" where
  "from_seqs prompt output = (case output of None \<Rightarrow> seq_data_of prompt [] | Some out \<Rightarrow> seq_data_of prompt out)"

definition from_prompt_token_counts :: "(int \<times> nat) list \<Rightarrow> seq_data" where
  "from_prompt_token_counts token_counts =
     (if token_counts = [] then from_seqs [] None
      else seq_data_of (concat (map (\<lambda>(tok, count). replicate count tok) token_counts)) [])"

definition set_output_token_ids :: "int list \<Rightarrow> seq_data \<Rightarrow> seq_data" where
  "set_output_token_ids out d = d\<lparr>sd_output := out, sd_cached := sd_prompt d @ out\<rparr>"

definition sd_append :: "int \<Rightarrow> real \<Rightarrow> seq_data \<Rightarrow> seq_data" where
  "sd_append tok lp d = d\<lparr>sd_output := sd_output d @ [tok], sd_new_appended := sd_new_appended d @ [tok],
     sd_cached := sd_cached d @ [tok], sd_logprob := sd_logprob d + lp\<rparr>"

definition sd_len :: "seq_data \<Rightarrow> nat" where
  "sd_len d = length (sd_output d) + length (sd_prompt d)"

definition get_prefix_token_ids :: "nat \<Rightarrow> seq_data \<Rightarrow> int list \<times> int list option" where
  "get_prefix_token_ids num_tokens d = (let prompt_length = length (sd_prompt d) in
     if num_tokens > prompt_length then (sd_prompt d, Some (take (num_tokens - prompt_length) (sd_output d)))
     else (take num_tokens (sd_prompt d), None))"

definition sd_num_uncomputed :: "seq_data \<Rightarrow> int" where
  "sd_num_uncomputed d = int (sd_len d) - int (sd_num_computed d)"

definition sd_update_computed :: "nat \<Rightarrow> seq_data \<Rightarrow> seq_data result" where
  "sd_update_computed num_new d = (let d1 = d\<lparr>sd_num_computed := sd_num_computed d + num_new\<rparr> in
     bind_r (guard_r AssertionError (sd_num_computed d1 \<le> sd_len d1)) (\<lambda>_.
       Inr (if sd_num_uncomputed d1 = 0 then d1\<lparr>sd_stage := DECODE\<rparr> else d1)))"

definition sd_reset :: "seq_data \<Rightarrow> seq_data" where
  "sd_reset d = d\<lparr>sd_num_computed := 0, sd_stage := PREFILL, sd_new_appended := []\<rparr>"

definition get_last_token_id :: "seq_data \<Rightarrow> int result" where
  "get_last_token_id d =
     (if sd_output d = [] then (if sd_prompt d = [] then Inl IndexError else Inr (last (sd_prompt d)))
      else Inr (last (sd_output d)))"

text \<open>The delta that is sent to the workers in place of the whole data.\<close>

record seq_delta =
  dl_tokens :: "int list"
  dl_logprob :: real
  dl_num_computed :: nat
  dl_stage :: seq_stage

definition get_delta_and_reset :: "seq_data \<Rightarrow> seq_delta \<times> seq_data" where
  "get_delta_and_reset d = (\<lparr>dl_tokens = sd_new_appended d, dl_logprob = sd_logprob d,
     dl_num_computed = sd_num_computed d, dl_stage = sd_stage d\<rparr>, d\<lparr>sd_new_appended := []\<rparr>)"

definition apply_delta :: "seq_delta \<Rightarrow> seq_data \<Rightarrow> seq_data" where
  "apply_delta u d = d\<lparr>sd_num_computed := dl_num_computed u, sd_logprob := dl_logprob u, sd_stage := dl_stage u,
     sd_output := sd_output d @ dl_tokens u, sd_cached := sd_cached d @ dl_tokens u\<rparr>"

subsection \<open>Sequence\<close>

record sequence =
  sq_id :: nat
  sq_data :: seq_data
  sq_status :: seq_status
  sq_output_text :: string
  sq_token_offset :: nat
  sq_text_offset :: nat
  sq_eos_token_id :: "int option"
  sq_stop_reason :: "(int + string) option"

definition new_sequence :: "nat \<Rightarrow> int list \<Rightarrow> sequence" where
  "new_sequence i prompt = \<lparr>sq_id = i, sq_data = from_seqs prompt None, sq_status = WAITING,
     sq_output_text = '''', sq_token_offset = 0, sq_text_offset = 0,
     sq_eos_token_id = None, sq_stop_reason = None\<rparr>"

abbreviation sq_tokens :: "sequence \<Rightarrow> int list" where
  "sq_tokens q \<equiv> sd_cached (sq_data q)"

abbreviation sq_num_computed :: "sequence \<Rightarrow> nat" where
  "sq_num_computed q \<equiv> sd_num_computed (sq_data q)"

definition sq_len :: "sequence \<Rightarrow> nat" where
  "sq_len q = sd_len (sq_data q)"

definition n_blocks :: "nat \<Rightarrow> sequence \<Rightarrow> int result" where
  "n_blocks block_size q = floordiv_r (int (sq_len q) + int block_size - 1) (int block_size)"

definition sq_finished :: "sequence \<Rightarrow> bool" where
  "sq_finished q = status_finished (sq_status q)"

definition get_output_text_to_return :: "nat \<Rightarrow> bool \<Rightarrow> sequence \<Rightarrow> string \<times> sequence" where
  "get_output_text_to_return buffer_length delta q =
     (let truncate = (buffer_length \<noteq> 0 \<and> \<not> sq_finished q); text = sq_output_text q in
      if \<not> delta then (if truncate then take (length text - buffer_length) text else text, q)
      else
        let len = (if truncate then int (length text) - int buffer_length else int (length text)) in
        if int (sq_text_offset q) < len
        then (drop (sq_text_offset q) (take (nat len) text), q\<lparr>sq_text_offset := nat len\<rparr>)
        else ('''', q))"

text \<open>A single new token is returned as such, not as a list.\<close>

definition get_output_token_ids_to_return :: "bool \<Rightarrow> sequence \<Rightarrow> (int + int list) result \<times> sequence" where
  "get_output_token_ids_to_return delta q =
     (if \<not> delta then (Inr (Inr (sd_output (sq_data q))), q)
      else
        let output_len = length (sd_output (sq_data q));
            num_new_tokens = int output_len - int (sq_token_offset q);
            q1 = q\<lparr>sq_token_offset := output_len\<rparr>; all_ids = sd_cached (sq_data q) in
        if num_new_tokens = 1 then
          (if all_ids = [] then Inl IndexError else Inr (Inl (last all_ids)), q1)
        else if num_new_tokens = 0 then (Inr (Inr []), q1)
        else if num_new_tokens > 0 then (Inr (Inr (drop (length all_ids - nat num_new_tokens) all_ids)), q1)
        else (Inr (Inr (drop (nat (- num_new_tokens)) all_ids)), q1))"

definition sq_append_token :: "int \<Rightarrow> (int \<rightharpoonup> real) \<Rightarrow> sequence \<Rightarrow> sequence result" where
  "sq_append_token tok logprobs q = (case logprobs tok of
     None \<Rightarrow> Inl AssertionError
   | Some lp \<Rightarrow> Inr (q\<lparr>sq_data := sd_append tok lp (sq_data q)\<rparr>))"

definition sq_reset_state_for_recompute :: "sequence \<Rightarrow> sequence" where
  "sq_reset_state_for_recompute q = q\<lparr>sq_data := sd_reset (sq_data q)\<rparr>"

definition sq_fork :: "nat \<Rightarrow> sequence \<Rightarrow> sequence" where
  "sq_fork new_seq_id q = q\<lparr>sq_id := new_seq_id\<rparr>"

definition sq_num_new_tokens :: "sequence \<Rightarrow> int" where
  "sq_num_new_tokens q = (if sd_stage (sq_data q) = DECODE then 1 else sd_num_uncomputed (sq_data q))"

definition sq_is_prefill :: "sequence \<Rightarrow> bool" where
  "sq_is_prefill q \<longleftrightarrow> sd_stage (sq_data q) = PREFILL"

subsection \<open>SequenceGroup\<close>

record lora_request =
  lr_int_id :: nat
  lr_long_lora_max_len :: "nat option"

record seq_group =
  sg_request_id :: string
  sg_seqs :: "sequence list"
  sg_encoder_seq :: "sequence option"
  sg_n :: "nat option"
  sg_lora :: "lora_request option"
  sg_priority :: int
  sg_arrival_time :: real
  sg_first_scheduled_time :: "real option"
  sg_time_in_queue :: "real option"
  sg_first_token_time :: "real option"
  sg_last_token_time :: real
  sg_finished_time :: "real option"
  sg_scheduler_time :: "real option"
  sg_num_steps :: nat
  sg_current_step :: nat

text \<open>\<open>sg_n\<close> is \<open>sampling_params.n\<close>, if there are sampling parameters.\<close>

definition new_group ::
    "string \<Rightarrow> sequence list \<Rightarrow> real \<Rightarrow> nat option \<Rightarrow> lora_request option \<Rightarrow> sequence option \<Rightarrow> int \<Rightarrow> seq_group" where
  "new_group request_id seqs arrival_time n lora encoder_seq priority =
     \<lparr>sg_request_id = request_id, sg_seqs = seqs, sg_encoder_seq = encoder_seq, sg_n = n, sg_lora = lora,
       sg_priority = priority, sg_arrival_time = arrival_time, sg_first_scheduled_time = None,
       sg_time_in_queue = None, sg_first_token_time = None, sg_last_token_time = arrival_time,
       sg_finished_time = None, sg_scheduler_time = None, sg_num_steps = 1, sg_current_step = 0\<rparr>"

definition lora_int_id :: "seq_group \<Rightarrow> nat" where
  "lora_int_id g = (case sg_lora g of None \<Rightarrow> 0 | Some l \<Rightarrow> lr_int_id l)"

definition get_seqs :: "seq_status \<Rightarrow> seq_group \<Rightarrow> sequence list" where
  "get_seqs status g =
     (if length (sg_seqs g) = 1 then (if sq_status (hd (sg_seqs g)) = status then sg_seqs g else [])
      else filter (\<lambda>q. sq_status q = status) (sg_seqs g))"

definition is_encoder_decoder :: "seq_group \<Rightarrow> bool" where
  "is_encoder_decoder g \<longleftrightarrow> sg_encoder_seq g \<noteq> None"

definition get_unfinished_seqs :: "seq_group \<Rightarrow> sequence list" where
  "get_unfinished_seqs g =
     (if length (sg_seqs g) = 1 then (if \<not> sq_finished (hd (sg_seqs g)) then sg_seqs g else [])
      else filter (\<lambda>q. \<not> sq_finished q) (sg_seqs g))"

definition get_finished_seqs :: "seq_group \<Rightarrow> sequence list" where
  "get_finished_seqs g =
     (if length (sg_seqs g) = 1 then (if sq_finished (hd (sg_seqs g)) then sg_seqs g else [])
      else filter sq_finished (sg_seqs g))"

definition num_seqs :: "seq_group \<Rightarrow> nat" where
  "num_seqs g = length (sg_seqs g)"

definition num_seqs_in :: "seq_status \<Rightarrow> seq_group \<Rightarrow> nat" where
  "num_seqs_in st g =
     (if length (sg_seqs g) = 1 then (if sq_status (hd (sg_seqs g)) = st then 1 else 0)
      else length (get_seqs st g))"

definition num_unfinished_seqs :: "seq_group \<Rightarrow> nat" where
  "num_unfinished_seqs g =
     (if length (sg_seqs g) = 1 then (if \<not> sq_finished (hd (sg_seqs g)) then 1 else 0)
      else length (get_unfinished_seqs g))"

definition num_finished_seqs :: "seq_group \<Rightarrow> nat" where
  "num_finished_seqs g =
     (if length (sg_seqs g) = 1 then (if sq_finished (hd (sg_seqs g)) then 1 else 0)
      else length (get_finished_seqs g))"

definition get_max_num_running_seqs :: "seq_group \<Rightarrow> nat" where
  "get_max_num_running_seqs g = (case sg_n g of
     Some n \<Rightarrow> if n > num_seqs g then n else num_unfinished_seqs g
   | None \<Rightarrow> num_unfinished_seqs g)"

definition sg_finished :: "seq_group \<Rightarrow> bool" where
  "sg_finished g \<longleftrightarrow>
     (if length (sg_seqs g) = 1 then sq_finished (hd (sg_seqs g)) else list_all sq_finished (sg_seqs g))"

definition sg_is_prefill :: "seq_group \<Rightarrow> bool result" where
  "sg_is_prefill g = bind_r (nth_r (sg_seqs g) 0) (\<lambda>q. Inr (sq_is_prefill q))"

definition init_multi_step :: "nat \<Rightarrow> seq_group \<Rightarrow> seq_group" where
  "init_multi_step num_steps g = g\<lparr>sg_num_steps := num_steps, sg_current_step := 0\<rparr>"

definition init_multi_step_from_lookahead_slots :: "nat \<Rightarrow> nat \<Rightarrow> bool \<Rightarrow> bool \<Rightarrow> seq_group \<Rightarrow> seq_group result" where
  "init_multi_step_from_lookahead_slots num_lookahead_slots num_scheduler_steps is_multi_step enable_chunking g =
     (if \<not> is_multi_step then Inr (init_multi_step num_scheduler_steps g)
      else bind_r (sg_is_prefill g) (\<lambda>is_prefill.
        if is_prefill \<and> enable_chunking then
          bind_r (guard_r AssertionError (num_lookahead_slots = num_scheduler_steps)) (\<lambda>_.
            Inr (init_multi_step num_lookahead_slots g))
        else
          bind_r (guard_r AssertionError (num_lookahead_slots = 0 \<or> \<not> is_prefill)) (\<lambda>_.
          bind_r (guard_r AssertionError (num_lookahead_slots + 1 = num_scheduler_steps \<or> is_prefill)) (\<lambda>_.
            Inr (init_multi_step (num_lookahead_slots + 1) g)))))"

definition get_last_latency :: "real \<Rightarrow> seq_group \<Rightarrow> (real \<times> seq_group) result" where
  "get_last_latency now g = bind_r (sg_is_prefill g) (\<lambda>is_prefill.
     bind_r (guard_r ValueError (\<not> is_prefill)) (\<lambda>_.
       Inr (now - sg_last_token_time g, g\<lparr>sg_last_token_time := now\<rparr>)))"

definition maybe_set_first_token_time :: "real \<Rightarrow> seq_group \<Rightarrow> seq_group result" where
  "maybe_set_first_token_time now g =
     (if sg_first_token_time g \<noteq> None then Inr g
      else bind_r (nth_r (sg_seqs g) 0) (\<lambda>q.
        Inr (if length (sd_output (sq_data q)) = 1 then g\<lparr>sg_first_token_time := Some now\<rparr> else g)))"

definition maybe_set_first_scheduled_time :: "real \<Rightarrow> seq_group \<Rightarrow> seq_group" where
  "maybe_set_first_scheduled_time now g =
     (if sg_first_scheduled_time g = None
      then g\<lparr>sg_first_scheduled_time := Some now, sg_time_in_queue := Some (now - sg_arrival_time g)\<rparr> else g)"

definition set_finished_time :: "real option \<Rightarrow> seq_group \<Rightarrow> seq_group" where
  "set_finished_time t g = g\<lparr>sg_finished_time := t\<rparr>"

fun update_seqs_computed :: "nat \<Rightarrow> sequence list \<Rightarrow> sequence list result" where
  "update_seqs_computed num_new [] = Inr []"
| "update_seqs_computed num_new (q # qs) =
     bind_r (if sq_finished q then Inr q
       else bind_r (sd_update_computed num_new (sq_data q)) (\<lambda>d. Inr (q\<lparr>sq_data := d\<rparr>))) (\<lambda>q1.
     bind_r (update_seqs_computed num_new qs) (\<lambda>qs1. Inr (q1 # qs1)))"

definition update_num_computed_tokens :: "nat \<Rightarrow> seq_group \<Rightarrow> seq_group result" where
  "update_num_computed_tokens num_new g =
     bind_r (update_seqs_computed num_new (sg_seqs g)) (\<lambda>qs. Inr (g\<lparr>sg_seqs := qs\<rparr>))"

definition sg_num_uncomputed :: "seq_group \<Rightarrow> int" where
  "sg_num_uncomputed g = sum_list (map (\<lambda>q. if sq_finished q then 0 else sd_num_uncomputed (sq_data q)) (sg_seqs g))"

text \<open>\<open>seqs_dict\<close> holds the sequences of \<open>seqs\<close> by id.\<close>

definition sg_find :: "nat \<Rightarrow> seq_group \<Rightarrow> sequence result" where
  "sg_find i g = (case List.find (\<lambda>q. sq_id q = i) (sg_seqs g) of None \<Rightarrow> Inl ValueError | Some q \<Rightarrow> Inr q)"

definition sg_add :: "sequence \<Rightarrow> seq_group \<Rightarrow> seq_group result" where
  "sg_add q g = bind_r (guard_r ValueError (\<forall>r \<in> set (sg_seqs g). sq_id r \<noteq> sq_id q)) (\<lambda>_.
     Inr (g\<lparr>sg_seqs := sg_seqs g @ [q]\<rparr>))"

definition sg_remove :: "nat \<Rightarrow> seq_group \<Rightarrow> seq_group result" where
  "sg_remove i g = bind_r (sg_find i g) (\<lambda>q. Inr (g\<lparr>sg_seqs := remove1 q (sg_seqs g)\<rparr>))"

end
