(* ===== verification/Evictor.thy ===== *)
theory Evictor
  imports Prelude
begin

text \<open>
  The evictor of the prefix cache (\<open>LRUEvictor\<close> of \<open>core/evictor_v2.py\<close>). The ordered
  dictionary \<open>free_table\<close> is an association list in insertion order, keyed by block id.
\<close>

record block_meta =
  bm_content_hash :: int
  bm_num_hashed_tokens :: nat
  bm_last_accessed :: real

type_synonym evictor = "(nat \<times> block_meta) list"

definition ev_contains :: "nat \<Rightarrow> evictor \<Rightarrow> bool" where
  "ev_contains i ft \<longleftrightarrow> i \<in> fst ` set ft"

text \<open>The loop of \<open>evict\<close> after its first round; \<open>(i, b)\<close> is the candidate so far.\<close>

fun evict_loop :: "nat \<times> block_meta \<Rightarrow> evictor \<Rightarrow> nat \<times> block_meta" where
  "evict_loop (i, b) [] = (i, b)"
| "evict_loop (i, b) ((j, c) # rest) =
     (if bm_last_accessed b < bm_last_accessed c then (i, b)
      else if bm_num_hashed_tokens b < bm_num_hashed_tokens c then evict_loop (j, c) rest
      else evict_loop (i, b) rest)"

definition ev_evict :: "evictor \<Rightarrow> ((nat \<times> int) \<times> evictor) result" where
  "ev_evict ft = (case ft of
     [] \<Rightarrow> Inl ValueError
   | x # rest \<Rightarrow> let (i, b) = evict_loop x rest in
       Inr ((i, bm_content_hash b), AList.delete i ft))"

definition ev_add :: "nat \<Rightarrow> int \<Rightarrow> nat \<Rightarrow> real \<Rightarrow> evictor \<Rightarrow> evictor" where
  "ev_add i content_hash num_hashed_tokens last_accessed ft =
     AList.update i \<lparr>bm_content_hash = content_hash, bm_num_hashed_tokens = num_hashed_tokens,
       bm_last_accessed = last_accessed\<rparr> ft"

definition ev_update :: "nat \<Rightarrow> real \<Rightarrow> evictor \<Rightarrow> evictor result" where
  "ev_update i last_accessed ft =
     (if ev_contains i ft
      then Inr (AList.map_entry i (\<lambda>b. b\<lparr>bm_last_accessed := last_accessed\<rparr>) ft)
      else Inl KeyError)"

definition ev_remove :: "nat \<Rightarrow> evictor \<Rightarrow> evictor result" where
  "ev_remove i ft = (if ev_contains i ft then Inr (AList.delete i ft) else Inl ValueError)"

definition ev_num_blocks :: "evictor \<Rightarrow> nat" where
  "ev_num_blocks ft = length ft"

datatype eviction_policy = LRU

definition make_evictor :: "eviction_policy \<Rightarrow> evictor" where
  "make_evictor p = (case p of LRU \<Rightarrow> [])"

subsection \<open>Facts\<close>

lemma al_delete: "AList.delete i ft = filter (\<lambda>x. fst x \<noteq> i) ft"
  by (induction ft) auto

lemma evict_loop_mem: "evict_loop x xs \<in> set (x # xs)"
proof (induction x xs rule: evict_loop.induct)
  case (2 i b j c rest)
  then show ?case by (auto split: if_splits)
qed simp

lemma ev_evict_props:
  assumes "ev_evict ft = Inr ((i, hsh), ft')" and "distinct (map fst ft)"
  shows "\<exists>b. (i, b) \<in> set ft \<and> hsh = bm_content_hash b \<and> ft' = AList.delete i ft
    \<and> set ft' = {x \<in> set ft. fst x \<noteq> i} \<and> distinct (map fst ft')"
proof -
  from assms(1) obtain x rest b where ft: "ft = x # rest" "evict_loop x rest = (i, b)" "hsh = bm_content_hash b"
    "ft' = AList.delete i ft" by (auto simp: ev_evict_def split: list.splits prod.splits)
  from evict_loop_mem [of x rest] have "(i, b) \<in> set ft" using ft by simp
  moreover have "set ft' = {x \<in> set ft. fst x \<noteq> i}" by (auto simp: ft(4) al_delete)
  moreover have "distinct (map fst ft')" using distinct_delete [OF assms(2)] by (simp only: ft(4))
  ultimately show ?thesis using ft by blast
qed

lemma evict_loop_lru:
  assumes "sorted (map (\<lambda>(_, b). bm_last_accessed b) (x # xs))" and "evict_loop x xs = (i, b)"
  shows "(\<forall>(j, c) \<in> set (x # xs). bm_last_accessed b \<le> bm_last_accessed c
      \<and> (bm_last_accessed c = bm_last_accessed b \<longrightarrow> bm_num_hashed_tokens c \<le> bm_num_hashed_tokens b))"
  using assms
proof (induction x xs arbitrary: i b rule: evict_loop.induct)
  case (2 k d j c rest)
  show ?case
  proof (cases "bm_last_accessed d < bm_last_accessed c")
    case True
    with 2(3,4) show ?thesis by fastforce
  next
    case False
    with 2(3) have eq: "bm_last_accessed d = bm_last_accessed c" by simp
    show ?thesis
    proof (cases "bm_num_hashed_tokens d < bm_num_hashed_tokens c")
      case True
      have "\<forall>(l, e) \<in> set ((j, c) # rest). bm_last_accessed b \<le> bm_last_accessed e
        \<and> (bm_last_accessed e = bm_last_accessed b \<longrightarrow> bm_num_hashed_tokens e \<le> bm_num_hashed_tokens b)"
        using 2(1) [OF False True] 2(3,4) False True by simp
      with eq True show ?thesis by auto
    next
      case nt: False
      have "\<forall>(l, e) \<in> set ((k, d) # rest). bm_last_accessed b \<le> bm_last_accessed e
        \<and> (bm_last_accessed e = bm_last_accessed b \<longrightarrow> bm_num_hashed_tokens e \<le> bm_num_hashed_tokens b)"
        using 2(2) [OF False nt] 2(3,4) False nt eq by simp
      with eq nt show ?thesis by auto
    qed
  qed
qed auto

text \<open>
  Eviction order: when the table is ordered by access time, the evicted block is one of
  the least recently used, and of these one with the most tokens before it; it is removed, and
  nothing else. The eviction of an empty table fails.
\<close>

theorem evict_is_lru:
  assumes "distinct (map fst ft)" and "sorted (map (\<lambda>(_, b). bm_last_accessed b) ft)"
  shows "case ev_evict ft of
      Inl e \<Rightarrow> ft = [] \<and> e = ValueError
    | Inr ((i, hsh), ft') \<Rightarrow> \<exists>b. (i, b) \<in> set ft \<and> hsh = bm_content_hash b
        \<and> (\<forall>(j, c) \<in> set ft. bm_last_accessed b \<le> bm_last_accessed c
            \<and> (bm_last_accessed c = bm_last_accessed b \<longrightarrow> bm_num_hashed_tokens c \<le> bm_num_hashed_tokens b))
        \<and> set ft' = {x \<in> set ft. fst x \<noteq> i} \<and> sorted (map (\<lambda>(_, b). bm_last_accessed b) ft')"
proof (cases ft)
  case Nil
  then show ?thesis by (simp add: ev_evict_def)
next
  case (Cons x rest)
  obtain i b where e: "evict_loop x rest = (i, b)" by (metis prod.exhaust)
  have ev: "ev_evict ft = Inr ((i, bm_content_hash b), AList.delete i ft)" by (simp add: ev_evict_def Cons e)
  have "sorted (map (\<lambda>(_, b). bm_last_accessed b) (x # rest))" using assms(2) Cons by simp
  note l = evict_loop_lru [OF this e]
  have m: "(i, b) \<in> set ft" using evict_loop_mem [of x rest] e Cons by simp
  have "sorted (map (\<lambda>(_, b). bm_last_accessed b) (AList.delete i ft))"
    unfolding al_delete using assms(2) by (simp add: sorted_map sorted_wrt_filter)
  with l m ev Cons show ?thesis by (auto simp: al_delete)
qed

theorem evict_is_lru_witness:
  "\<exists>b. ev_evict [(4, b), (2, \<lparr>bm_content_hash = 9, bm_num_hashed_tokens = 8, bm_last_accessed = 1\<rparr>)]
      = Inr ((2, 9), [(4, b)])
    \<and> (2::nat, \<lparr>bm_content_hash = 9, bm_num_hashed_tokens = 8, bm_last_accessed = 1\<rparr>)
      \<in> set [(4, b), (2, \<lparr>bm_content_hash = 9, bm_num_hashed_tokens = 8, bm_last_accessed = 1\<rparr>)]"
proof -
  let ?b = "\<lparr>bm_content_hash = 7, bm_num_hashed_tokens = 4, bm_last_accessed = 1\<rparr>"
  let ?c = "\<lparr>bm_content_hash = 9, bm_num_hashed_tokens = 8, bm_last_accessed = 1\<rparr>"
  have e: "ev_evict [(4, ?b), (2, ?c)] = Inr ((2, 9), [(4, ?b)])" by (simp add: ev_evict_def)
  have "distinct (map fst [(4::nat, ?b), (2, ?c)])" "sorted (map (\<lambda>(_, b). bm_last_accessed b) [(4::nat, ?b), (2, ?c)])"
    by simp_all
  from evict_is_lru [OF this] e show ?thesis by (auto intro!: exI [of _ ?b])
qed

text \<open>
  The order is not kept by \<open>update\<close>: it changes the access time of a block in place, so
  after block 1 has been accessed at time 5 it is still evicted before block 2, last accessed
  at time 2.
\<close>

theorem update_breaks_lru:
  "let ft = ev_add 2 22 4 2 (ev_add 1 11 4 1 []) in
   \<exists>ft'. ev_update 1 5 ft = Inr ft' \<and> (\<exists>r. ev_evict ft' = Inr ((1, 11), r))
     \<and> (\<exists>b c. map_of ft' 1 = Some b \<and> map_of ft' 2 = Some c \<and> bm_last_accessed c < bm_last_accessed b)"
  by (simp add: ev_add_def ev_update_def ev_contains_def ev_evict_def Let_def)

end
