(* ===== verification/Prefix_Allocator.thy ===== *)
theory Prefix_Allocator
  imports Naive_Allocator Evictor "HOL-Library.List_Lexorder"
begin

text \<open>
  \<open>PrefixCachingBlockAllocator\<close> and \<open>PrefixCachingBlock\<close>
  (\<open>core/block/prefix_caching_block.py\<close>): full blocks are registered under the hash of
  their whole prefix, blocks with the same prefix share one physical id, and ids that lose
  their last reference stay in the evictor until memory is short.

  Python's \<open>hash\<close> is a parameter: the allocator carries it in the field \<open>pa_hash\<close>,
  which no operation changes; its arguments are those of \<open>hash_block_tokens\<close>. The block
  pool and the reference counts, which the source shares between this allocator and its
  hashless allocator, are the fields of the latter. Asking a block for its
  \<open>content_hash\<close> stores it in the block, so every such question returns a heap.
\<close>

record block_tracker =
  tr_active :: bool
  tr_last_accessed :: real
  tr_computed :: bool

definition DEFAULT_LAST_ACCESSED_TIME :: real where
  "DEFAULT_LAST_ACCESSED_TIME = -1"

definition tracker_reset :: "block_tracker \<Rightarrow> block_tracker" where
  "tracker_reset t = t\<lparr>tr_last_accessed := DEFAULT_LAST_ACCESSED_TIME, tr_computed := False\<rparr>"

definition new_tracker :: block_tracker where
  "new_tracker = tracker_reset \<lparr>tr_active = False, tr_last_accessed = 0, tr_computed = False\<rparr>"

definition tracker_enable :: "block_tracker \<Rightarrow> block_tracker result" where
  "tracker_enable t = bind_r (guard_r AssertionError (\<not> tr_active t)) (\<lambda>_.
     Inr (tracker_reset (t\<lparr>tr_active := True\<rparr>)))"

definition tracker_disable :: "block_tracker \<Rightarrow> block_tracker result" where
  "tracker_disable t = bind_r (guard_r AssertionError (tr_active t)) (\<lambda>_.
     Inr (tracker_reset (t\<lparr>tr_active := False\<rparr>)))"

type_synonym hash_fn = "bool \<Rightarrow> int option \<Rightarrow> int list \<Rightarrow> int"

record prefix_alloc =
  pa_hash :: hash_fn
  pa_block_size :: nat
  pa_cached :: "int \<rightharpoonup> nat"
  pa_touched :: "nat list"
  pa_trackers :: "nat \<rightharpoonup> block_tracker"
  pa_hashless :: naive_alloc
  pa_evictor :: evictor
  pa_cows :: cow_list
  pa_metric :: cache_metric

type_synonym pstate = "heap \<times> prefix_alloc"

definition init_prefix ::
    "hash_fn \<Rightarrow> device \<Rightarrow> nat \<Rightarrow> nat \<Rightarrow> nat list \<Rightarrow> eviction_policy \<Rightarrow> heap \<Rightarrow> pstate result" where
  "init_prefix H owner num_blocks block_size block_ids policy h =
     bind_r (init_naive Prefix_Block owner num_blocks block_size block_ids h) (\<lambda>(h1, N).
       Inr (h1, \<lparr>pa_hash = H, pa_block_size = block_size, pa_cached = Map.empty, pa_touched = [],
         pa_trackers = (\<lambda>i. if i \<in> set block_ids then Some new_tracker else None),
         pa_hashless = N, pa_evictor = make_evictor policy, pa_cows = [], pa_metric = init_metric\<rparr>))"

subsection \<open>Block status\<close>

definition track_block_id :: "nat option \<Rightarrow> bool \<Rightarrow> prefix_alloc \<Rightarrow> prefix_alloc result" where
  "track_block_id bid computed A = (case bid of
     None \<Rightarrow> Inl AssertionError
   | Some i \<Rightarrow>
       bind_r (get_key (pa_trackers A) i) (\<lambda>t.
       bind_r (tracker_enable t) (\<lambda>t'.
         Inr (A\<lparr>pa_trackers := (pa_trackers A)(i \<mapsto> t'\<lparr>tr_computed := computed\<rparr>)\<rparr>))))"

definition untrack_block_id :: "nat option \<Rightarrow> prefix_alloc \<Rightarrow> prefix_alloc result" where
  "untrack_block_id bid A = (case bid of
     None \<Rightarrow> Inl AssertionError
   | Some i \<Rightarrow>
       bind_r (get_key (pa_trackers A) i) (\<lambda>t.
       bind_r (tracker_disable t) (\<lambda>t'.
         Inr (A\<lparr>pa_trackers := (pa_trackers A)(i \<mapsto> t')\<rparr>))))"

definition block_is_computed :: "prefix_alloc \<Rightarrow> nat \<Rightarrow> bool result" where
  "block_is_computed A i =
     bind_r (get_key (pa_trackers A) i) (\<lambda>t.
       Inr (if tr_active t then tr_computed t else ev_contains i (pa_evictor A)))"

definition prefix_mark_accessed_step :: "real \<Rightarrow> nat \<Rightarrow> prefix_alloc \<Rightarrow> prefix_alloc result" where
  "prefix_mark_accessed_step now i A =
     bind_r (get_key (pa_trackers A) i) (\<lambda>t.
       if tr_active t then Inr (A\<lparr>pa_trackers := (pa_trackers A)(i \<mapsto> t\<lparr>tr_last_accessed := now\<rparr>)\<rparr>)
       else if ev_contains i (pa_evictor A) then
         bind_r (ev_update i now (pa_evictor A)) (\<lambda>ev. Inr (A\<lparr>pa_evictor := ev\<rparr>))
       else Inl ValueError)"

definition prefix_mark_blocks_as_accessed :: "nat list \<Rightarrow> real \<Rightarrow> prefix_alloc \<Rightarrow> prefix_alloc result" where
  "prefix_mark_blocks_as_accessed block_ids now A = fold_r (prefix_mark_accessed_step now) block_ids A"

definition mark_computed_step :: "nat \<Rightarrow> prefix_alloc \<Rightarrow> prefix_alloc result" where
  "mark_computed_step i A =
     bind_r (get_key (pa_trackers A) i) (\<lambda>t.
       Inr (A\<lparr>pa_trackers := (pa_trackers A)(i \<mapsto> t\<lparr>tr_computed := True\<rparr>)\<rparr>))"

definition prefix_mark_blocks_as_computed :: "nat list \<Rightarrow> prefix_alloc \<Rightarrow> prefix_alloc result" where
  "prefix_mark_blocks_as_computed block_ids A =
     bind_r (fold_r mark_computed_step (pa_touched A) A) (\<lambda>A1. Inr (A1\<lparr>pa_touched := []\<rparr>))"

subsection \<open>Content hashes\<close>

definition hash_block_tokens :: "hash_fn \<Rightarrow> bool \<Rightarrow> int option \<Rightarrow> int list \<Rightarrow> int result" where
  "hash_block_tokens H is_first prev_hash toks =
     bind_r (guard_r AssertionError ((prev_hash = None) = is_first)) (\<lambda>_.
       Inr (H is_first prev_hash toks))"

text \<open>
  \<open>content_hash\<close>; the recursion to the previous block is bounded by the number of objects,
  as in \<open>get_all_blocks_recursively\<close>.
\<close>

fun content_hash_rec :: "hash_fn \<Rightarrow> nat \<Rightarrow> nat \<Rightarrow> heap \<Rightarrow> (int option \<times> heap) result" where
  "content_hash_rec H 0 a h = Inl RecursionError"
| "content_hash_rec H (Suc n) a h =
     (case bl_hash (h ! a) of
        Some c \<Rightarrow> Inr (Some c, h)
      | None \<Rightarrow>
          if \<not> is_full (h ! a) then Inr (None, h)
          else
            let is_first = (bl_prev (h ! a) = None) in
            bind_r (case bl_prev (h ! a) of None \<Rightarrow> Inr (None, h)
                    | Some p \<Rightarrow> content_hash_rec H n p h) (\<lambda>(prev_hash, h1).
            if prev_hash = None \<and> \<not> is_first then Inr (None, h1)
            else bind_r (hash_block_tokens H is_first prev_hash (bl_tokens (h1 ! a))) (\<lambda>c.
              Inr (Some c, h1[a := (h1 ! a)\<lparr>bl_hash := Some c\<rparr>]))))"

definition content_hash :: "hash_fn \<Rightarrow> nat \<Rightarrow> heap \<Rightarrow> (int option \<times> heap) result" where
  "content_hash H a h = content_hash_rec H (length h) a h"

definition set_computed :: "nat \<Rightarrow> bool \<Rightarrow> heap \<Rightarrow> heap" where
  "set_computed a v h = h[a := (h ! a)\<lparr>bl_computed := v\<rparr>]"

definition prefix_is_block_cached :: "nat \<Rightarrow> pstate \<Rightarrow> (bool \<times> pstate) result" where
  "prefix_is_block_cached a s = (let (h, A) = s in
     bind_r (content_hash (pa_hash A) a h) (\<lambda>(ch, h1).
     case ch of None \<Rightarrow> Inl AssertionError
     | Some c \<Rightarrow> Inr (pa_cached A c \<noteq> None, h1, A)))"

subsection \<open>Reference counts of cached and hashless blocks\<close>

definition pa_refs :: "prefix_alloc \<Rightarrow> refcounter" where
  "pa_refs A = na_refs (pa_hashless A)"

definition set_refs :: "refcounter \<Rightarrow> prefix_alloc \<Rightarrow> prefix_alloc" where
  "set_refs r A = A\<lparr>pa_hashless := (pa_hashless A)\<lparr>na_refs := r\<rparr>\<rparr>"

definition incr_refcount_cached_block :: "nat \<Rightarrow> pstate \<Rightarrow> pstate result" where
  "incr_refcount_cached_block a s = (let (h, A) = s; h1 = set_computed a True h in
     case bl_id (h1 ! a) of
       None \<Rightarrow> Inl AssertionError
     | Some i \<Rightarrow>
         bind_r (rc_incr i (pa_refs A)) (\<lambda>(n, r). let A1 = set_refs r A in
         if n = 1 then
           bind_r (if ev_contains i (pa_evictor A1) then ev_remove i (pa_evictor A1)
                   else Inr (pa_evictor A1)) (\<lambda>ev.
           bind_r (track_block_id (Some i) True (A1\<lparr>pa_evictor := ev\<rparr>)) (\<lambda>A2. Inr (h1, A2)))
         else Inr (h1, A1)))"

definition decr_refcount_cached_block :: "nat \<Rightarrow> pstate \<Rightarrow> pstate result" where
  "decr_refcount_cached_block a s = (let (h, A) = s in
     bind_r (content_hash (pa_hash A) a h) (\<lambda>(ch, h1).
     case (ch, bl_id (h1 ! a)) of
       (Some c, Some i) \<Rightarrow>
         bind_r (rc_decr i (pa_refs A)) (\<lambda>(n, r). let A1 = set_refs r A in
         if n > 0 then Inr (set_block_id a None h1, A1)
         else
           bind_r (guard_r AssertionError (n = 0)) (\<lambda>_.
           bind_r (guard_r AssertionError (pa_cached A1 c \<noteq> None)) (\<lambda>_.
           bind_r (num_tokens_total h1 a) (\<lambda>total.
           bind_r (get_key (pa_trackers A1) i) (\<lambda>t.
           bind_r (untrack_block_id (Some i)
               (A1\<lparr>pa_evictor := ev_add i c total (tr_last_accessed t) (pa_evictor A1)\<rparr>)) (\<lambda>A2.
             Inr (set_block_id a None h1, A2)))))))
     | _ \<Rightarrow> Inl AssertionError))"

definition decr_refcount_hashless_block :: "nat \<Rightarrow> pstate \<Rightarrow> pstate result" where
  "decr_refcount_hashless_block a s = (let (h, A) = s in
     case bl_id (h ! a) of
       None \<Rightarrow> Inl AssertionError
     | Some i \<Rightarrow>
         bind_r (rc_get (pa_refs A) i) (\<lambda>n.
         bind_r (if n = 1 then untrack_block_id (Some i) A else Inr A) (\<lambda>A1.
         bind_r (naive_free a True (h, pa_hashless A1)) (\<lambda>(h1, N).
           Inr (h1, A1\<lparr>pa_hashless := N\<rparr>)))))"

subsection \<open>Allocation of ids\<close>

definition prefix_pool_free :: "nat \<Rightarrow> pstate \<Rightarrow> pstate" where
  "prefix_pool_free a s = (let (h, A) = s; N = pa_hashless A in
     (h, A\<lparr>pa_hashless := N\<lparr>na_pool := pool_free_block h a (na_pool N)\<rparr>\<rparr>))"

definition prefix_init_block ::
    "nat option \<Rightarrow> int list \<Rightarrow> nat option \<Rightarrow> pstate \<Rightarrow> (nat \<times> pstate) result" where
  "prefix_init_block prev toks bid s = (let (h, A) = s; N = pa_hashless A in
     bind_r (pool_init_block prev toks (pa_block_size A) bid (h, na_pool N)) (\<lambda>(a, h1, P).
       Inr (a, h1, A\<lparr>pa_hashless := N\<lparr>na_pool := P\<rparr>\<rparr>)))"

definition maybe_allocate_hashless_block_id :: "pstate \<Rightarrow> (nat option \<times> pstate) result" where
  "maybe_allocate_hashless_block_id s = (let (h, A) = s in
     case naive_allocate_mutable_block None (h, pa_hashless A) of
       Inl e \<Rightarrow> if e = NoFreeBlocksError then Inr (None, s) else Inl e
     | Inr (t, h1, N) \<Rightarrow>
         let bid = bl_id (h1 ! t); (h2, A2) = prefix_pool_free t (h1, A\<lparr>pa_hashless := N\<rparr>) in
         bind_r (track_block_id bid False A2) (\<lambda>A3. Inr (bid, h2, A3)))"

definition maybe_allocate_evicted_block_id :: "prefix_alloc \<Rightarrow> (nat option \<times> prefix_alloc) result" where
  "maybe_allocate_evicted_block_id A =
     (if ev_num_blocks (pa_evictor A) = 0 then Inr (None, A)
      else
        bind_r (ev_evict (pa_evictor A)) (\<lambda>((i, c), ev). let A1 = A\<lparr>pa_evictor := ev\<rparr> in
        case pa_cached A1 c of
          None \<Rightarrow> Inl AssertionError
        | Some j \<Rightarrow>
            bind_r (rc_get (pa_refs A1) j) (\<lambda>n.
            bind_r (guard_r AssertionError (n = 0)) (\<lambda>_.
            bind_r (guard_r AssertionError (j = i)) (\<lambda>_.
            bind_r (rc_incr i (pa_refs A1)) (\<lambda>(_, r).
            bind_r (track_block_id (Some i) False
                (set_refs r (A1\<lparr>pa_cached := (pa_cached A1)(c := None)\<rparr>))) (\<lambda>A2.
              Inr (Some i, A2))))))))"

definition prefix_allocate_block_id :: "pstate \<Rightarrow> (nat \<times> pstate) result" where
  "prefix_allocate_block_id s =
     bind_r (maybe_allocate_hashless_block_id s) (\<lambda>(bid, h, A).
     case bid of
       Some i \<Rightarrow> Inr (i, h, A)
     | None \<Rightarrow>
         bind_r (maybe_allocate_evicted_block_id A) (\<lambda>(bid2, A2).
         case bid2 of Some i \<Rightarrow> Inr (i, h, A2) | None \<Rightarrow> Inl NoFreeBlocksError))"

definition prefix_free_block_id :: "nat \<Rightarrow> pstate \<Rightarrow> pstate result" where
  "prefix_free_block_id a s = (let (h, A) = s in
     bind_r (guard_r AssertionError (bl_id (h ! a) \<noteq> None)) (\<lambda>_.
     bind_r (content_hash (pa_hash A) a h) (\<lambda>(ch, h1).
     bind_r (if ch \<noteq> None then decr_refcount_cached_block a (h1, A)
             else decr_refcount_hashless_block a (h1, A)) (\<lambda>(h2, A2).
     bind_r (guard_r AssertionError (bl_id (h2 ! a) = None)) (\<lambda>_. Inr (h2, A2))))))"

definition prefix_free :: "nat \<Rightarrow> bool \<Rightarrow> pstate \<Rightarrow> pstate result" where
  "prefix_free a keep_block_object s =
     bind_r (prefix_free_block_id a s) (\<lambda>s1.
       Inr (if keep_block_object then s1 else prefix_pool_free a s1))"

subsection \<open>Blocks\<close>

definition prefix_allocate_mutable_block :: "nat option \<Rightarrow> pstate \<Rightarrow> (nat \<times> pstate) result" where
  "prefix_allocate_mutable_block prev s =
     bind_r (assert_prefix_caching_block_or_none (fst s) prev) (\<lambda>_.
     bind_r (prefix_allocate_block_id s) (\<lambda>(i, s1).
     bind_r (prefix_init_block prev [] (Some i) s1) (\<lambda>(a, h2, A2).
     bind_r (guard_r AssertionError (\<not> bl_computed (h2 ! a))) (\<lambda>_.
     bind_r (content_hash (pa_hash A2) a h2) (\<lambda>(ch, h3).
     bind_r (guard_r AssertionError (ch = None)) (\<lambda>_. Inr (a, h3, A2)))))))"

text \<open>
  The block that asks for a copy is the wrapped naive block, which has no content hash: the
  release always takes the hashless branch of \<open>_free_block_id\<close>.
\<close>

definition prefix_cow_block_if_not_appendable :: "nat \<Rightarrow> pstate \<Rightarrow> (nat \<times> pstate) result" where
  "prefix_cow_block_if_not_appendable a s = (let (h, A) = s in
     case bl_id (h ! a) of
       None \<Rightarrow> Inl AssertionError
     | Some src \<Rightarrow>
         bind_r (is_appendable (pa_refs A) (Some src)) (\<lambda>app.
         if app then Inr (src, h, A)
         else
           bind_r (decr_refcount_hashless_block a (h, A)) (\<lambda>s1.
           bind_r (prefix_allocate_block_id s1) (\<lambda>(trg, h2, A2).
           bind_r (record_cow (Some src) (Some trg) (pa_cows A2)) (\<lambda>cows.
             Inr (trg, h2, A2\<lparr>pa_cows := cows\<rparr>))))))"

definition promote_to_immutable_block :: "nat \<Rightarrow> pstate \<Rightarrow> (nat option \<times> pstate) result" where
  "promote_to_immutable_block a s = (let (h, A) = s in
     bind_r (content_hash (pa_hash A) a h) (\<lambda>(ch, h1).
     case (ch, bl_id (h1 ! a)) of
       (Some c, Some i) \<Rightarrow>
         bind_r (rc_get (pa_refs A) i) (\<lambda>n.
         bind_r (guard_r AssertionError (0 < n)) (\<lambda>_.
         if pa_cached A c = None then
           Inr (Some i, h1, A\<lparr>pa_cached := (pa_cached A)(c \<mapsto> i),
             pa_touched := List.insert i (pa_touched A)\<rparr>)
         else
           bind_r (decr_refcount_hashless_block a (h1, A)) (\<lambda>(h2, A2).
           bind_r (incr_refcount_cached_block a (set_block_id a (pa_cached A2 c) h2, A2)) (\<lambda>(h3, A3).
             Inr (bl_id (h3 ! a), h3, A3)))))
     | _ \<Rightarrow> Inl AssertionError))"

text \<open>\<open>PrefixCachingBlock.append_token_ids\<close>, with that of the wrapped block inside.\<close>

definition prefix_append_token_ids :: "nat \<Rightarrow> int list \<Rightarrow> pstate \<Rightarrow> pstate result" where
  "prefix_append_token_ids a toks s = (let (h, A) = s in
     bind_r (content_hash (pa_hash A) a h) (\<lambda>(ch, h0).
     bind_r (guard_r AssertionError (ch = None)) (\<lambda>_.
     bind_r (guard_r AssertionError (\<not> bl_computed (h0 ! a))) (\<lambda>_.
     if toks = [] then Inr (h0, A)
     else
       bind_r (append_token_ids_no_cow toks (h0 ! a)) (\<lambda>b.
       bind_r (if bl_id b = None then Inr (h0[a := b], A)
               else bind_r (prefix_cow_block_if_not_appendable a (h0[a := b], A)) (\<lambda>(i, h1, A1).
                 Inr (set_block_id a (Some i) h1, A1))) (\<lambda>(h2, A2).
       bind_r (update_num_tokens_total h2 (h2 ! a)) (\<lambda>b2.
       bind_r (content_hash (pa_hash A2) a (h2[a := b2])) (\<lambda>(ch3, h3).
       if ch3 = None then Inr (h3, A2)
       else bind_r (promote_to_immutable_block a (h3, A2)) (\<lambda>(bid, h4, A4).
         Inr (set_block_id a bid h4, A4))))))))))"

definition prefix_allocate_immutable_block ::
    "nat option \<Rightarrow> int list \<Rightarrow> pstate \<Rightarrow> (nat \<times> pstate) result" where
  "prefix_allocate_immutable_block prev toks s =
     bind_r (assert_prefix_caching_block_or_none (fst s) prev) (\<lambda>_.
     bind_r (prefix_init_block prev toks None s) (\<lambda>(a, h1, A1).
     bind_r (content_hash (pa_hash A1) a h1) (\<lambda>(ch, h2).
     case ch of
       None \<Rightarrow> Inl AssertionError
     | Some c \<Rightarrow>
         if pa_cached A1 c \<noteq> None then
           bind_r (incr_refcount_cached_block a
             (set_block_id a (pa_cached A1 c) h2, A1\<lparr>pa_metric := metric_query True (pa_metric A1)\<rparr>)) (\<lambda>s3.
             Inr (a, s3))
         else
           bind_r (prefix_allocate_mutable_block prev (prefix_pool_free a
             (h2, A1\<lparr>pa_metric := metric_query False (pa_metric A1)\<rparr>))) (\<lambda>(b, s3).
           bind_r (prefix_append_token_ids b toks s3) (\<lambda>s4. Inr (b, s4))))))"

fun prefix_allocate_immutable_blocks ::
    "nat option \<Rightarrow> int list list \<Rightarrow> pstate \<Rightarrow> (nat list \<times> pstate) result" where
  "prefix_allocate_immutable_blocks prev [] s = Inr ([], s)"
| "prefix_allocate_immutable_blocks prev (toks # rest) s =
     bind_r (prefix_allocate_immutable_block prev toks s) (\<lambda>(a, s1).
     bind_r (prefix_allocate_immutable_blocks (Some a) rest s1) (\<lambda>(bs, s2). Inr (a # bs, s2)))"

fun prefix_fork_loop :: "nat option \<Rightarrow> nat list \<Rightarrow> pstate \<Rightarrow> (nat list \<times> pstate) result" where
  "prefix_fork_loop prev [] s = Inr ([], s)"
| "prefix_fork_loop prev (a # as) (h, A) =
     (case bl_id (h ! a) of
        None \<Rightarrow> Inl AssertionError
      | Some i \<Rightarrow>
          bind_r (rc_incr i (pa_refs A)) (\<lambda>(n, r).
          bind_r (guard_r AssertionError (n \<noteq> 1)) (\<lambda>_.
          bind_r (prefix_init_block prev (bl_tokens (h ! a)) (Some i) (h, set_refs r A)) (\<lambda>(f, s1).
          bind_r (prefix_fork_loop (Some f) as s1) (\<lambda>(fs, s2). Inr (f # fs, s2))))))"

definition prefix_fork :: "nat \<Rightarrow> pstate \<Rightarrow> (nat list \<times> pstate) result" where
  "prefix_fork last_block s =
     bind_r (get_all_blocks_recursively (fst s) last_block) (\<lambda>src. prefix_fork_loop None src s)"

subsection \<open>Counts, computed prefixes and swapping\<close>

definition prefix_get_num_free_blocks :: "prefix_alloc \<Rightarrow> nat" where
  "prefix_get_num_free_blocks A =
     naive_get_num_free_blocks (pa_hashless A) + ev_num_blocks (pa_evictor A)"

definition prefix_get_num_total_blocks :: "prefix_alloc \<Rightarrow> nat" where
  "prefix_get_num_total_blocks A = naive_get_num_total_blocks (pa_hashless A)"

definition prefix_get_physical_block_id :: "prefix_alloc \<Rightarrow> nat \<Rightarrow> nat result" where
  "prefix_get_physical_block_id A absolute_id = list_index (sort (na_all (pa_hashless A))) absolute_id"

definition prefix_get_prefix_cache_hit_rate :: "prefix_alloc \<Rightarrow> real result" where
  "prefix_get_prefix_cache_hit_rate A = get_hit_rate (pa_metric A)"

definition prefix_clear_copy_on_writes :: "prefix_alloc \<Rightarrow> cow_list \<times> prefix_alloc" where
  "prefix_clear_copy_on_writes A = (let (cows, rest) = clear_cows (pa_cows A) in (cows, A\<lparr>pa_cows := rest\<rparr>))"

definition computed_step :: "prefix_alloc \<Rightarrow> nat \<Rightarrow> nat list \<Rightarrow> nat list result" where
  "computed_step A i ret =
     bind_r (block_is_computed A i) (\<lambda>c. Inr (if c then ret @ [i] else ret))"

definition prefix_get_computed_block_ids ::
    "prefix_alloc \<Rightarrow> nat list \<Rightarrow> nat list \<Rightarrow> bool \<Rightarrow> nat list result" where
  "prefix_get_computed_block_ids A prev_computed block_ids skip_last =
     (let prev_prefix_size = int (length prev_computed);
          cur_size = int (length block_ids) - (if skip_last then 1 else 0) in
      bind_r (guard_r AssertionError (0 \<le> cur_size)) (\<lambda>_.
      bind_r (guard_r AssertionError (prev_prefix_size \<le> cur_size)) (\<lambda>_.
        fold_r (computed_step A) (drop (length prev_computed) (take (nat cur_size) block_ids))
          prev_computed)))"

text \<open>
  \<open>os.path.commonprefix\<close> of the standard library: the longest common prefix of the least
  and the greatest element. (Without elements it returns the empty string; the callers only
  use the result as an empty sequence.)
\<close>

fun common_prefix2 :: "nat list \<Rightarrow> nat list \<Rightarrow> nat list" where
  "common_prefix2 (x # xs) (y # ys) = (if x = y then x # common_prefix2 xs ys else [])"
| "common_prefix2 _ _ = []"

definition commonprefix :: "nat list list \<Rightarrow> nat list" where
  "commonprefix m = (case m of [] \<Rightarrow> [] | x # xs \<Rightarrow>
     common_prefix2 (fold min xs x) (fold max xs x))"

definition prefix_get_common_computed_block_ids :: "nat list list \<Rightarrow> nat list" where
  "prefix_get_common_computed_block_ids computed =
     (if length computed = 1 then computed ! 0 else commonprefix (filter (\<lambda>ids. ids \<noteq> []) computed))"

definition full_touched_step :: "prefix_alloc \<Rightarrow> nat \<Rightarrow> nat \<times> heap \<Rightarrow> (nat \<times> heap) result" where
  "full_touched_step A a s = (let (n, h) = s in
     if \<not> is_full (h ! a) then Inr (n, h)
     else
       bind_r (content_hash (pa_hash A) a h) (\<lambda>(ch, h1).
       case ch of
         None \<Rightarrow> Inl AssertionError
       | Some c \<Rightarrow> Inr (if (case pa_cached A c of None \<Rightarrow> True | Some i \<Rightarrow> ev_contains i (pa_evictor A))
                        then n + 1 else n, h1)))"

definition prefix_get_num_full_blocks_touched :: "nat list \<Rightarrow> pstate \<Rightarrow> (nat \<times> pstate) result" where
  "prefix_get_num_full_blocks_touched blocks s = (let (h, A) = s in
     bind_r (fold_r (full_touched_step A) blocks (0, h)) (\<lambda>(n, h1). Inr (n, h1, A)))"

definition prefix_swap_out :: "nat list \<Rightarrow> pstate \<Rightarrow> pstate result" where
  "prefix_swap_out blocks s = fold_r prefix_free_block_id blocks s"

definition prefix_swap_in_block :: "nat \<Rightarrow> pstate \<Rightarrow> pstate result" where
  "prefix_swap_in_block a s = (let b = fst s ! a in
     bind_r (if is_full b then prefix_allocate_immutable_block (bl_prev b) (bl_tokens b) s
             else bind_r (prefix_allocate_mutable_block (bl_prev b) s) (\<lambda>(t, s1).
               bind_r (prefix_append_token_ids t (bl_tokens b) s1) (\<lambda>s2. Inr (t, s2)))) (\<lambda>(t, h1, A1).
     let bid = bl_id (h1 ! t); (h2, A2) = prefix_pool_free t (h1, A1) in
       Inr (set_block_id a bid h2, A2)))"

definition prefix_swap_in :: "nat list \<Rightarrow> pstate \<Rightarrow> pstate result" where
  "prefix_swap_in blocks s = fold_r prefix_swap_in_block blocks s"

end
