(* ===== verification/Block_Table.thy ===== *)
theory Block_Table
  imports Block_Lemmas
begin

text \<open>
  \<open>BlockTable\<close> (\<open>core/block/block_table.py\<close>): the blocks of one sequence. The class works
  with any \<open>DeviceAwareBlockAllocator\<close>; that interface is the record \<open>dev_allocator\<close> of
  operations over a state \<open>heap \<times> 'x\<close>, an argument of the operations of the table. Its
  field \<open>da_append\<close> is \<open>append_token_ids\<close> of a block, which calls back into the allocator.
\<close>

record 'x dev_allocator =
  da_null :: "heap \<times> 'x \<Rightarrow> (nat \<times> heap \<times> 'x) result"
  da_mutable :: "nat option \<Rightarrow> device \<Rightarrow> heap \<times> 'x \<Rightarrow> (nat \<times> heap \<times> 'x) result"
  da_immutables :: "nat option \<Rightarrow> int list list \<Rightarrow> device \<Rightarrow> heap \<times> 'x \<Rightarrow> (nat list \<times> heap \<times> 'x) result"
  da_append :: "nat \<Rightarrow> int list \<Rightarrow> heap \<times> 'x \<Rightarrow> (heap \<times> 'x) result"
  da_free :: "nat \<Rightarrow> heap \<times> 'x \<Rightarrow> (heap \<times> 'x) result"
  da_fork :: "nat \<Rightarrow> heap \<times> 'x \<Rightarrow> (nat list \<times> heap \<times> 'x) result"

record block_table =
  bt_block_size :: nat
  bt_blocks :: block_list
  bt_window :: "int option"
  bt_num_full_slots :: nat

text \<open>The generator \<open>chunk_list\<close>: \<open>range\<close> raises on a zero step.\<close>

definition chunk_list_r :: "'a list \<Rightarrow> nat \<Rightarrow> 'a list list result" where
  "chunk_list_r xs n = bind_r (guard_r ValueError (n \<noteq> 0)) (\<lambda>_. Inr (chunk_list xs n))"

definition get_num_token_ids :: "heap \<Rightarrow> nat list \<Rightarrow> nat" where
  "get_num_token_ids h blocks = sum_list (map (\<lambda>a. length (bl_tokens (resolve h a))) blocks)"

definition init_table :: "nat \<Rightarrow> nat list \<Rightarrow> int option \<Rightarrow> heap \<Rightarrow> block_table result" where
  "init_table block_size blocks window h =
     bind_r (ls_update h blocks) (\<lambda>l.
       Inr \<lparr>bt_block_size = block_size, bt_blocks = l, bt_window = window,
            bt_num_full_slots = get_num_token_ids h (ls_blocks l)\<rparr>)"

definition get_num_required_blocks :: "int list \<Rightarrow> nat \<Rightarrow> nat \<Rightarrow> int result" where
  "get_num_required_blocks token_ids block_size num_lookahead_slots =
     cdiv (int (length token_ids + num_lookahead_slots)) (int block_size)"

definition bt_len :: "block_table \<Rightarrow> nat" where
  "bt_len T = length (ls_blocks (bt_blocks T))"

definition is_allocated :: "block_table \<Rightarrow> bool" where
  "is_allocated T \<longleftrightarrow> bt_len T > 0"

definition bt_num_empty_slots :: "block_table \<Rightarrow> int result" where
  "bt_num_empty_slots T = bind_r (guard_r AssertionError (is_allocated T)) (\<lambda>_.
     Inr (int (bt_len T * bt_block_size T) - int (bt_num_full_slots T)))"

definition bt_update :: "heap \<Rightarrow> nat list \<Rightarrow> block_table \<Rightarrow> block_table result" where
  "bt_update h blocks T = bind_r (ls_update h blocks) (\<lambda>l. Inr (T\<lparr>bt_blocks := l\<rparr>))"

definition physical_block_ids :: "block_table \<Rightarrow> nat list" where
  "physical_block_ids T = ls_ids (bt_blocks T)"

definition get_unseen_token_ids :: "block_table \<Rightarrow> int list \<Rightarrow> int list" where
  "get_unseen_token_ids T sequence_token_ids = drop (bt_num_full_slots T) sequence_token_ids"

definition get_all_token_ids :: "heap \<Rightarrow> block_table \<Rightarrow> int list" where
  "get_all_token_ids h T = (if is_allocated T
     then concat (map (\<lambda>a. bl_tokens (resolve h a)) (ls_blocks (bt_blocks T))) else [])"

subsection \<open>Allocation\<close>

definition allocate_blocks_for_token_ids ::
    "'x dev_allocator \<Rightarrow> nat \<Rightarrow> nat option \<Rightarrow> int list \<Rightarrow> device \<Rightarrow> heap \<times> 'x \<Rightarrow> (nat list \<times> heap \<times> 'x) result" where
  "allocate_blocks_for_token_ids D block_size prev token_ids dev s =
     bind_r (chunk_list_r token_ids block_size) (\<lambda>chunks.
     let block_token_ids = filter (\<lambda>c. length c = block_size) chunks;
         tail_token_ids = filter (\<lambda>c. length c \<noteq> block_size) chunks in
     bind_r (if block_token_ids \<noteq> []
             then bind_r (da_immutables D prev block_token_ids dev s) (\<lambda>(bs, s1).
               if bs = [] then Inl IndexError else Inr (bs, Some (last bs), s1))
             else Inr ([], prev, s)) (\<lambda>(blocks, prev1, s1).
     if tail_token_ids \<noteq> [] then
       bind_r (guard_r AssertionError (length tail_token_ids = 1)) (\<lambda>_.
       bind_r (da_mutable D prev1 dev s1) (\<lambda>(b, s2).
       bind_r (da_append D b (hd tail_token_ids) s2) (\<lambda>s3. Inr (blocks @ [b], s3))))
     else Inr (blocks, s1)))"

definition bt_allocate ::
    "'x dev_allocator \<Rightarrow> int list \<Rightarrow> device \<Rightarrow> (heap \<times> 'x) \<times> block_table \<Rightarrow> ((heap \<times> 'x) \<times> block_table) result" where
  "bt_allocate D token_ids dev st = (let (s, T) = st in
     bind_r (guard_r AssertionError (\<not> is_allocated T)) (\<lambda>_.
     bind_r (guard_r AssertionError (token_ids \<noteq> [])) (\<lambda>_.
     bind_r (allocate_blocks_for_token_ids D (bt_block_size T) None token_ids dev s) (\<lambda>(blocks, s1).
     bind_r (bt_update (fst s1) blocks T) (\<lambda>T1.
       Inr (s1, T1\<lparr>bt_num_full_slots := length token_ids\<rparr>))))))"

subsection \<open>Appending\<close>

definition add_block ::
    "'x dev_allocator \<Rightarrow> nat \<Rightarrow> (heap \<times> 'x) \<times> block_table \<Rightarrow> ((heap \<times> 'x) \<times> block_table) result" where
  "add_block D k st = (let (s, T) = st in
     bind_r (guard_r AssertionError (bt_len T > 0)) (\<lambda>_.
     bind_r (da_mutable D (Some (last (ls_blocks (bt_blocks T)))) GPU s) (\<lambda>(b, s1).
     bind_r (ls_append (fst s1) b (bt_blocks T)) (\<lambda>l. Inr (s1, T\<lparr>bt_blocks := l\<rparr>)))))"

definition ensure_num_empty_slots ::
    "'x dev_allocator \<Rightarrow> int \<Rightarrow> (heap \<times> 'x) \<times> block_table \<Rightarrow> ((heap \<times> 'x) \<times> block_table) result" where
  "ensure_num_empty_slots D n st = (let (s, T) = st in
     bind_r (guard_r AssertionError (is_allocated T)) (\<lambda>_.
     bind_r (bt_num_empty_slots T) (\<lambda>e.
     if e \<ge> n then Inr st
     else bind_r (cdiv (n - e) (int (bt_block_size T))) (\<lambda>blocks_to_allocate.
       fold_r (add_block D) [0..<nat blocks_to_allocate] st))))"

text \<open>One round of the loop that drops a block that has left the sliding window.\<close>

definition drop_block ::
    "'x dev_allocator \<Rightarrow> nat \<Rightarrow> nat \<Rightarrow> (heap \<times> 'x) \<times> block_table \<Rightarrow> ((heap \<times> 'x) \<times> block_table) result" where
  "drop_block D null_block idx st = (let (s, T) = st in
     bind_r (nth_r (ls_blocks (bt_blocks T)) idx) (\<lambda>b.
     if b = null_block then Inr st
     else bind_r (da_free D b s) (\<lambda>s1.
       bind_r (ls_set (fst s1) idx null_block (bt_blocks T)) (\<lambda>l. Inr (s1, T\<lparr>bt_blocks := l\<rparr>)))))"

definition drop_window ::
    "'x dev_allocator \<Rightarrow> nat option \<Rightarrow> (heap \<times> 'x) \<times> block_table \<Rightarrow> ((heap \<times> 'x) \<times> block_table) result" where
  "drop_window D num_computed_slots st = (let (s, T) = st in
     case bt_window T of
       None \<Rightarrow> Inr st
     | Some w \<Rightarrow>
         bind_r (da_null D s) (\<lambda>(null_block, s1).
         case num_computed_slots of
           None \<Rightarrow> Inl AssertionError
         | Some n \<Rightarrow>
             bind_r (floordiv_r (int n) (int (bt_block_size T))) (\<lambda>q.
               fold_r (drop_block D null_block) [0..<nat (q - w)] (s1, T))))"

definition chunk_token_blocks_for_append :: "block_table \<Rightarrow> int list \<Rightarrow> int list list result" where
  "chunk_token_blocks_for_append T token_ids =
     (if token_ids = [] then Inr []
      else bind_r (guard_r ZeroDivisionError (bt_block_size T \<noteq> 0)) (\<lambda>_.
        let first_chunk_size = bt_block_size T - bt_num_full_slots T mod bt_block_size T in
        bind_r (chunk_list_r (drop first_chunk_size token_ids) (bt_block_size T)) (\<lambda>cs.
          Inr (take first_chunk_size token_ids # cs))))"

text \<open>\<open>BlockList.append_token_ids\<close>.\<close>

definition ls_append_token_ids ::
    "'x dev_allocator \<Rightarrow> nat \<Rightarrow> int list \<Rightarrow> (heap \<times> 'x) \<times> block_list \<Rightarrow> ((heap \<times> 'x) \<times> block_list) result" where
  "ls_append_token_ids D block_index token_ids st = (let (s, l) = st in
     bind_r (nth_r (ls_blocks l) block_index) (\<lambda>b.
     bind_r (da_append D b token_ids s) (\<lambda>s1.
     if block_id (fst s) b \<noteq> block_id (fst s1) b
     then bind_r (ls_update_block_id block_index (block_id (fst s1) b) l) (\<lambda>l1. Inr (s1, l1))
     else Inr (s1, l))))"

definition append_chunk ::
    "'x dev_allocator \<Rightarrow> nat \<times> int list \<Rightarrow> (heap \<times> 'x) \<times> block_table \<Rightarrow> ((heap \<times> 'x) \<times> block_table) result" where
  "append_chunk D ic st = (let (s, T) = st in
     bind_r (ls_append_token_ids D (fst ic) (snd ic) (s, bt_blocks T)) (\<lambda>(s1, l).
       Inr (s1, T\<lparr>bt_blocks := l\<rparr>)))"

definition bt_append_token_ids ::
    "'x dev_allocator \<Rightarrow> int list \<Rightarrow> nat \<Rightarrow> nat option \<Rightarrow> (heap \<times> 'x) \<times> block_table
     \<Rightarrow> ((heap \<times> 'x) \<times> block_table) result" where
  "bt_append_token_ids D token_ids num_lookahead_slots num_computed_slots st =
     bind_r (guard_r AssertionError (is_allocated (snd st))) (\<lambda>_.
     bind_r (drop_window D num_computed_slots st) (\<lambda>st1.
     bind_r (ensure_num_empty_slots D (int (length token_ids + num_lookahead_slots)) st1) (\<lambda>(s2, T2).
     bind_r (guard_r ZeroDivisionError (bt_block_size T2 \<noteq> 0)) (\<lambda>_.
     let first_block_idx = bt_num_full_slots T2 div bt_block_size T2 in
     bind_r (chunk_token_blocks_for_append T2 token_ids) (\<lambda>token_blocks.
     bind_r (fold_r (append_chunk D) (enumerate first_block_idx token_blocks) (s2, T2)) (\<lambda>(s3, T3).
       Inr (s3, T3\<lparr>bt_num_full_slots := bt_num_full_slots T3 + length token_ids\<rparr>)))))))"

subsection \<open>Fork, free, and the cost of an append\<close>

definition bt_fork ::
    "'x dev_allocator \<Rightarrow> (heap \<times> 'x) \<times> block_table \<Rightarrow> (block_table \<times> heap \<times> 'x) result" where
  "bt_fork D st = (let (s, T) = st in
     bind_r (guard_r AssertionError (is_allocated T)) (\<lambda>_.
     bind_r (da_fork D (last (ls_blocks (bt_blocks T))) s) (\<lambda>(bs, s1).
     bind_r (init_table (bt_block_size T) bs (bt_window T) (fst s1)) (\<lambda>T1. Inr (T1, s1)))))"

definition bt_free ::
    "'x dev_allocator \<Rightarrow> (heap \<times> 'x) \<times> block_table \<Rightarrow> ((heap \<times> 'x) \<times> block_table) result" where
  "bt_free D st = (let (s, T) = st in
     bind_r (fold_r (da_free D) (ls_blocks (bt_blocks T)) s) (\<lambda>s1.
       Inr (s1, T\<lparr>bt_blocks := ls_reset\<rparr>)))"

definition get_num_blocks_touched_by_append_slots :: "block_table \<Rightarrow> int list \<Rightarrow> nat \<Rightarrow> int result" where
  "get_num_blocks_touched_by_append_slots T token_ids num_lookahead_slots =
     bind_r (guard_r ZeroDivisionError (bt_block_size T \<noteq> 0)) (\<lambda>_.
     let num_token_ids = int (length token_ids + num_lookahead_slots);
         first_chunk_size = int (bt_block_size T) - int (bt_num_full_slots T) mod int (bt_block_size T) in
     Inr (1 + \<lceil>real_of_int (num_token_ids - first_chunk_size) / real (bt_block_size T)\<rceil>))"

end
