(* ===== verification/Cpu_Gpu_Allocator.thy ===== *)
theory Cpu_Gpu_Allocator
  imports Prefix_Allocator Block_Table
begin

text \<open>
  \<open>CpuGpuBlockAllocator\<close> and \<open>NullBlock\<close> (\<open>core/block/cpu_gpu_block_allocator.py\<close>): one
  allocator per device, the device of every block id, swapping between the devices, and the
  null block of sliding windows. \<open>cpu_gpu_ops\<close> packs the operations that a block table
  uses.
\<close>

datatype allocator =
    NaiveBlockAllocator naive_alloc
  | PrefixCachingBlockAllocator prefix_alloc

record cpu_gpu =
  cg_cpu :: allocator
  cg_gpu :: allocator
  cg_swap_mapping :: "(nat \<times> nat) list"
  cg_null_block :: "nat option"
  cg_ids :: "nat \<rightharpoonup> device"

type_synonym gstate = "heap \<times> cpu_gpu"

definition get_alloc :: "device \<Rightarrow> cpu_gpu \<Rightarrow> allocator" where
  "get_alloc d G = (case d of CPU \<Rightarrow> cg_cpu G | GPU \<Rightarrow> cg_gpu G)"

definition set_alloc :: "device \<Rightarrow> allocator \<Rightarrow> cpu_gpu \<Rightarrow> cpu_gpu" where
  "set_alloc d X G = (case d of CPU \<Rightarrow> G\<lparr>cg_cpu := X\<rparr> | GPU \<Rightarrow> G\<lparr>cg_gpu := X\<rparr>)"

definition all_block_ids :: "allocator \<Rightarrow> nat list" where
  "all_block_ids X = (case X of NaiveBlockAllocator A \<Rightarrow> na_all A
     | PrefixCachingBlockAllocator A \<Rightarrow> na_all (pa_hashless A))"

text \<open>Method calls on the allocator of a device, whichever class it has.\<close>

definition on_alloc ::
    "(nstate \<Rightarrow> ('b \<times> nstate) result) \<Rightarrow> (pstate \<Rightarrow> ('b \<times> pstate) result) \<Rightarrow> device \<Rightarrow> gstate
     \<Rightarrow> ('b \<times> gstate) result" where
  "on_alloc f g d s = (let (h, G) = s in
     case get_alloc d G of
       NaiveBlockAllocator A \<Rightarrow> bind_r (f (h, A)) (\<lambda>(b, h1, A1).
         Inr (b, h1, set_alloc d (NaiveBlockAllocator A1) G))
     | PrefixCachingBlockAllocator A \<Rightarrow> bind_r (g (h, A)) (\<lambda>(b, h1, A1).
         Inr (b, h1, set_alloc d (PrefixCachingBlockAllocator A1) G)))"

definition no_value :: "('s \<Rightarrow> 's result) \<Rightarrow> 's \<Rightarrow> (unit \<times> 's) result" where
  "no_value f s = bind_r (f s) (\<lambda>s1. Inr ((), s1))"

definition drop_value :: "(unit \<times> 's) result \<Rightarrow> 's result" where
  "drop_value r = bind_r r (\<lambda>(_, s). Inr s)"

definition init_cpu_gpu :: "allocator \<Rightarrow> allocator \<Rightarrow> cpu_gpu result" where
  "init_cpu_gpu cpu gpu =
     bind_r (guard_r AssertionError (set (all_block_ids cpu) \<inter> set (all_block_ids gpu) = {})) (\<lambda>_.
       Inr \<lparr>cg_cpu = cpu, cg_gpu = gpu, cg_swap_mapping = [], cg_null_block = None,
         cg_ids = (\<lambda>i. if i \<in> set (all_block_ids gpu) then Some GPU
                        else if i \<in> set (all_block_ids cpu) then Some CPU else None)\<rparr>)"

definition create_cpu_gpu ::
    "hash_fn \<Rightarrow> string \<Rightarrow> nat \<Rightarrow> nat \<Rightarrow> nat \<Rightarrow> heap \<Rightarrow> gstate result" where
  "create_cpu_gpu H allocator_type num_gpu_blocks num_cpu_blocks block_size h =
     (let block_ids = [0..<num_gpu_blocks + num_cpu_blocks];
          gpu_block_ids = take num_gpu_blocks block_ids;
          cpu_block_ids = drop num_gpu_blocks block_ids in
      bind_r (if allocator_type = ''naive'' then
          bind_r (init_naive Naive_Block GPU num_gpu_blocks block_size gpu_block_ids h) (\<lambda>(h1, A).
          bind_r (init_naive Naive_Block CPU num_cpu_blocks block_size cpu_block_ids h1) (\<lambda>(h2, C).
            Inr (h2, NaiveBlockAllocator C, NaiveBlockAllocator A)))
        else if allocator_type = ''prefix_caching'' then
          bind_r (init_prefix H GPU num_gpu_blocks block_size gpu_block_ids LRU h) (\<lambda>(h1, A).
          bind_r (init_prefix H CPU num_cpu_blocks block_size cpu_block_ids LRU h1) (\<lambda>(h2, C).
            Inr (h2, PrefixCachingBlockAllocator C, PrefixCachingBlockAllocator A)))
        else Inl ValueError) (\<lambda>(h2, cpu, gpu).
      bind_r (init_cpu_gpu cpu gpu) (\<lambda>G. Inr (h2, G))))"

subsection \<open>Allocation, append, free, fork\<close>

definition cg_allocate_mutable_block :: "nat option \<Rightarrow> device \<Rightarrow> gstate \<Rightarrow> (nat \<times> gstate) result" where
  "cg_allocate_mutable_block prev d s =
     on_alloc (naive_allocate_mutable_block prev) (prefix_allocate_mutable_block prev) d s"

definition cg_allocate_immutable_blocks ::
    "nat option \<Rightarrow> int list list \<Rightarrow> device \<Rightarrow> gstate \<Rightarrow> (nat list \<times> gstate) result" where
  "cg_allocate_immutable_blocks prev tss d s =
     on_alloc (naive_allocate_immutable_blocks prev tss) (prefix_allocate_immutable_blocks prev tss) d s"

definition cg_allocate_immutable_block ::
    "nat option \<Rightarrow> int list \<Rightarrow> device \<Rightarrow> gstate \<Rightarrow> (nat \<times> gstate) result" where
  "cg_allocate_immutable_block prev toks d s =
     on_alloc (naive_allocate_immutable_block prev toks) (prefix_allocate_immutable_block prev toks) d s"

text \<open>
  The null block: its object has the class \<open>Null_Block\<close> with the address of the proxy; the
  other fields repeat those of the proxy, which no operation changes any more.
\<close>

definition allocate_or_get_null_block :: "gstate \<Rightarrow> (nat \<times> gstate) result" where
  "allocate_or_get_null_block s = (case cg_null_block (snd s) of
     Some b \<Rightarrow> Inr (b, s)
   | None \<Rightarrow> bind_r (cg_allocate_mutable_block None GPU s) (\<lambda>(p, h, G).
       Inr (length h, h @ [(h ! p)\<lparr>bl_class := Null_Block p\<rparr>], G\<lparr>cg_null_block := Some (length h)\<rparr>)))"

definition is_null :: "heap \<Rightarrow> nat \<Rightarrow> bool" where
  "is_null h a = (case bl_class (h ! a) of Null_Block _ \<Rightarrow> True | _ \<Rightarrow> False)"

text \<open>\<open>append_token_ids\<close> of a block: it calls its own allocator, wherever its id lives.\<close>

definition cg_append_token_ids :: "nat \<Rightarrow> int list \<Rightarrow> gstate \<Rightarrow> gstate result" where
  "cg_append_token_ids a toks s =
     (if is_null (fst s) a then Inl ValueError
      else drop_value (on_alloc (no_value (naive_append_token_ids a toks))
        (no_value (prefix_append_token_ids a toks)) (bl_owner (fst s ! a)) s))"

definition device_of :: "nat \<Rightarrow> gstate \<Rightarrow> device result" where
  "device_of a s = (case block_id (fst s) a of
     None \<Rightarrow> Inl AssertionError
   | Some i \<Rightarrow> get_key (cg_ids (snd s)) i)"

definition cg_free :: "nat \<Rightarrow> gstate \<Rightarrow> gstate result" where
  "cg_free a s =
     (if is_null (fst s) a then Inr s
      else bind_r (device_of a s) (\<lambda>d.
        drop_value (on_alloc (no_value (naive_free a False)) (no_value (prefix_free a False)) d s)))"

definition cg_fork :: "nat \<Rightarrow> gstate \<Rightarrow> (nat list \<times> gstate) result" where
  "cg_fork last_block s =
     bind_r (guard_r AssertionError (\<not> is_null (fst s) last_block)) (\<lambda>_.
     bind_r (device_of last_block s) (\<lambda>d. on_alloc (naive_fork last_block) (prefix_fork last_block) d s))"

definition cpu_gpu_ops :: "cpu_gpu dev_allocator" where
  "cpu_gpu_ops = \<lparr>da_null = allocate_or_get_null_block, da_mutable = cg_allocate_mutable_block,
     da_immutables = cg_allocate_immutable_blocks, da_append = cg_append_token_ids,
     da_free = cg_free, da_fork = cg_fork\<rparr>"

subsection \<open>Counts\<close>

definition cg_get_num_free_blocks :: "device \<Rightarrow> cpu_gpu \<Rightarrow> nat" where
  "cg_get_num_free_blocks d G = (case get_alloc d G of
     NaiveBlockAllocator A \<Rightarrow> naive_get_num_free_blocks A
   | PrefixCachingBlockAllocator A \<Rightarrow> prefix_get_num_free_blocks A)"

definition cg_get_num_total_blocks :: "device \<Rightarrow> cpu_gpu \<Rightarrow> nat" where
  "cg_get_num_total_blocks d G = (case get_alloc d G of
     NaiveBlockAllocator A \<Rightarrow> naive_get_num_total_blocks A
   | PrefixCachingBlockAllocator A \<Rightarrow> prefix_get_num_total_blocks A)"

definition cg_get_physical_block_id :: "device \<Rightarrow> nat \<Rightarrow> cpu_gpu \<Rightarrow> nat result" where
  "cg_get_physical_block_id d i G = (case get_alloc d G of
     NaiveBlockAllocator A \<Rightarrow> naive_get_physical_block_id A i
   | PrefixCachingBlockAllocator A \<Rightarrow> prefix_get_physical_block_id A i)"

definition cg_get_num_full_blocks_touched :: "nat list \<Rightarrow> device \<Rightarrow> gstate \<Rightarrow> (nat \<times> gstate) result" where
  "cg_get_num_full_blocks_touched blocks d s =
     on_alloc (\<lambda>(h, A). Inr (naive_get_num_full_blocks_touched h blocks, h, A))
       (prefix_get_num_full_blocks_touched blocks) d s"

definition cg_get_prefix_cache_hit_rate :: "device \<Rightarrow> cpu_gpu \<Rightarrow> real result" where
  "cg_get_prefix_cache_hit_rate d G = (case get_alloc d G of
     NaiveBlockAllocator A \<Rightarrow> Inr (-1)
   | PrefixCachingBlockAllocator A \<Rightarrow> prefix_get_prefix_cache_hit_rate A)"

subsection \<open>Swapping\<close>

text \<open>
  Releasing the id of a null block ends in its setter, which raises: the loop of
  \<open>swap_out\<close> gets to the first null block at most.
\<close>

definition cg_swap_out :: "nat list \<Rightarrow> device \<Rightarrow> gstate \<Rightarrow> gstate result" where
  "cg_swap_out blocks d s = (let real_blocks = takeWhile (\<lambda>a. \<not> is_null (fst s) a) blocks in
     bind_r (drop_value (on_alloc (no_value (naive_swap_out real_blocks))
         (no_value (prefix_swap_out real_blocks)) d s)) (\<lambda>s1.
       if real_blocks = blocks then Inr s1 else Inl ValueError))"

definition cg_swap_in :: "nat list \<Rightarrow> device \<Rightarrow> gstate \<Rightarrow> gstate result" where
  "cg_swap_in blocks d s =
     drop_value (on_alloc (no_value (naive_swap_in blocks)) (no_value (prefix_swap_in blocks)) d s)"

fun add_swaps :: "(nat option \<times> nat option) list \<Rightarrow> (nat \<times> nat) list \<Rightarrow> (nat \<times> nat) list" where
  "add_swaps [] m = m"
| "add_swaps ((Some i, Some j) # ps) m = add_swaps ps (AList.update i j m)"
| "add_swaps (_ # ps) m = add_swaps ps m"

definition cg_swap ::
    "nat list \<Rightarrow> device \<Rightarrow> device \<Rightarrow> gstate \<Rightarrow> ((nat \<times> nat) list \<times> gstate) result" where
  "cg_swap blocks src_device dst_device s = (let src_block_ids = map (block_id (fst s)) blocks in
     bind_r (cg_swap_out blocks src_device s) (\<lambda>s1.
     bind_r (cg_swap_in blocks dst_device s1) (\<lambda>(h2, G2).
     let ps = zip src_block_ids (map (block_id h2) blocks) in
       Inr (add_swaps ps [], h2, G2\<lparr>cg_swap_mapping := add_swaps ps (cg_swap_mapping G2)\<rparr>))))"

definition get_and_reset_swaps :: "cpu_gpu \<Rightarrow> (nat \<times> nat) list \<times> cpu_gpu" where
  "get_and_reset_swaps G = (cg_swap_mapping G, G\<lparr>cg_swap_mapping := []\<rparr>)"

subsection \<open>Calls that only concern the GPU\<close>

definition cg_clear_copy_on_writes :: "cpu_gpu \<Rightarrow> cow_list \<times> cpu_gpu" where
  "cg_clear_copy_on_writes G = (case cg_gpu G of
     NaiveBlockAllocator A \<Rightarrow> (let (cows, A1) = naive_clear_copy_on_writes A in
       (cows, G\<lparr>cg_gpu := NaiveBlockAllocator A1\<rparr>))
   | PrefixCachingBlockAllocator A \<Rightarrow> (let (cows, A1) = prefix_clear_copy_on_writes A in
       (cows, G\<lparr>cg_gpu := PrefixCachingBlockAllocator A1\<rparr>)))"

definition cg_mark_blocks_as_accessed :: "nat list \<Rightarrow> real \<Rightarrow> cpu_gpu \<Rightarrow> cpu_gpu result" where
  "cg_mark_blocks_as_accessed block_ids now G = (case cg_gpu G of
     NaiveBlockAllocator A \<Rightarrow> Inr G
   | PrefixCachingBlockAllocator A \<Rightarrow>
       bind_r (prefix_mark_blocks_as_accessed block_ids now A) (\<lambda>A1.
         Inr (G\<lparr>cg_gpu := PrefixCachingBlockAllocator A1\<rparr>)))"

definition cg_mark_blocks_as_computed :: "nat list \<Rightarrow> cpu_gpu \<Rightarrow> cpu_gpu result" where
  "cg_mark_blocks_as_computed block_ids G = (case cg_gpu G of
     NaiveBlockAllocator A \<Rightarrow> Inr G
   | PrefixCachingBlockAllocator A \<Rightarrow>
       bind_r (prefix_mark_blocks_as_computed block_ids A) (\<lambda>A1.
         Inr (G\<lparr>cg_gpu := PrefixCachingBlockAllocator A1\<rparr>)))"

definition cg_get_computed_block_ids :: "nat list \<Rightarrow> nat list \<Rightarrow> bool \<Rightarrow> cpu_gpu \<Rightarrow> nat list result" where
  "cg_get_computed_block_ids prev_computed block_ids skip_last G = (case cg_gpu G of
     NaiveBlockAllocator A \<Rightarrow> Inr (naive_get_computed_block_ids prev_computed block_ids skip_last)
   | PrefixCachingBlockAllocator A \<Rightarrow> prefix_get_computed_block_ids A prev_computed block_ids skip_last)"

definition cg_get_common_computed_block_ids :: "nat list list \<Rightarrow> cpu_gpu \<Rightarrow> nat list" where
  "cg_get_common_computed_block_ids computed G = (case cg_gpu G of
     NaiveBlockAllocator A \<Rightarrow> naive_get_common_computed_block_ids computed
   | PrefixCachingBlockAllocator A \<Rightarrow> prefix_get_common_computed_block_ids computed)"

end
