(* ===== verification/Block_Manager.thy ===== *)
theory Block_Manager
  imports Sequences Cpu_Gpu_Allocator
begin

text \<open>
  \<open>SelfAttnBlockSpaceManager\<close> (\<open>core/block_manager.py\<close>) with its two trackers
  (\<open>core/block/prefix_caching_block.py\<close>): the block table of every sequence.
\<close>

datatype alloc_status = OK | LATER | NEVER

subsection \<open>Trackers\<close>

type_synonym computed_tracker = "nat \<rightharpoonup> nat list \<times> bool"

definition ct_add_seq :: "nat \<Rightarrow> computed_tracker \<Rightarrow> computed_tracker result" where
  "ct_add_seq i t = bind_r (guard_r AssertionError (t i = None)) (\<lambda>_. Inr (t(i \<mapsto> ([], False))))"

definition ct_remove_seq :: "nat \<Rightarrow> computed_tracker \<Rightarrow> computed_tracker result" where
  "ct_remove_seq i t = bind_r (guard_r AssertionError (t i \<noteq> None)) (\<lambda>_. Inr (t(i := None)))"

definition get_cached_computed_blocks_and_update ::
    "cpu_gpu \<Rightarrow> nat \<Rightarrow> nat list \<Rightarrow> computed_tracker \<Rightarrow> (nat list \<times> computed_tracker) result" where
  "get_cached_computed_blocks_and_update G i block_ids t = (case t i of
     None \<Rightarrow> Inl AssertionError
   | Some (prev_computed, has_gap) \<Rightarrow>
       if has_gap then Inr (prev_computed, t)
       else let num_cur_blocks = int (length block_ids) - 1 in
         bind_r (guard_r AssertionError (0 \<le> num_cur_blocks)) (\<lambda>_.
         if int (length prev_computed) \<ge> num_cur_blocks then
           bind_r (guard_r AssertionError (int (length prev_computed) = num_cur_blocks)) (\<lambda>_.
             Inr (prev_computed, t))
         else
           bind_r (cg_get_computed_block_ids prev_computed block_ids True G) (\<lambda>computed.
             Inr (computed, t(i \<mapsto> (computed, int (length computed) < num_cur_blocks))))))"

type_synonym access_tracker = "nat \<rightharpoonup> real option"

definition la_add_seq :: "nat \<Rightarrow> access_tracker \<Rightarrow> access_tracker result" where
  "la_add_seq i t = bind_r (guard_r AssertionError (t i = None)) (\<lambda>_. Inr (t(i \<mapsto> None)))"

definition la_remove_seq :: "nat \<Rightarrow> access_tracker \<Rightarrow> access_tracker result" where
  "la_remove_seq i t = bind_r (guard_r AssertionError (t i \<noteq> None)) (\<lambda>_. Inr (t(i := None)))"

definition update_last_access :: "nat \<Rightarrow> real \<Rightarrow> access_tracker \<Rightarrow> access_tracker result" where
  "update_last_access i now t = bind_r (guard_r AssertionError (t i \<noteq> None)) (\<lambda>_. Inr (t(i \<mapsto> Some now)))"

definition update_seq_blocks_last_access ::
    "nat \<Rightarrow> nat list \<Rightarrow> access_tracker \<Rightarrow> cpu_gpu \<Rightarrow> cpu_gpu result" where
  "update_seq_blocks_last_access i block_ids t G = (case t i of
     None \<Rightarrow> Inl AssertionError
   | Some None \<Rightarrow> Inr G
   | Some (Some ts) \<Rightarrow> cg_mark_blocks_as_accessed block_ids ts G)"

subsection \<open>The manager\<close>

record block_manager =
  bm_block_size :: nat
  bm_num_total_gpu_blocks :: nat
  bm_num_total_cpu_blocks :: nat
  bm_sliding_window :: "nat option"
  bm_max_window :: "int option"
  bm_watermark_blocks :: int
  bm_enable_caching :: bool
  bm_alloc :: cpu_gpu
  bm_tables :: "nat \<rightharpoonup> block_table"
  bm_cross :: "string \<rightharpoonup> block_table"
  bm_computed :: computed_tracker
  bm_access :: access_tracker

type_synonym mstate = "heap \<times> block_manager"

definition init_block_manager ::
    "hash_fn \<Rightarrow> nat \<Rightarrow> nat \<Rightarrow> nat \<Rightarrow> real \<Rightarrow> nat option \<Rightarrow> bool \<Rightarrow> heap \<Rightarrow> mstate result" where
  "init_block_manager H block_size num_gpu num_cpu watermark sliding_window enable_caching h =
     bind_r (case sliding_window of None \<Rightarrow> Inr None
       | Some w \<Rightarrow> bind_r (floordiv_r (int w) (int block_size)) (\<lambda>q. Inr (Some (q + 1 + 1)))) (\<lambda>max_window.
     bind_r (guard_r AssertionError (0 \<le> watermark)) (\<lambda>_.
     bind_r (create_cpu_gpu H (if enable_caching then ''prefix_caching'' else ''naive'')
         num_gpu num_cpu block_size h) (\<lambda>(h1, G).
       Inr (h1, \<lparr>bm_block_size = block_size, bm_num_total_gpu_blocks = num_gpu,
         bm_num_total_cpu_blocks = num_cpu, bm_sliding_window = sliding_window, bm_max_window = max_window,
         bm_watermark_blocks = \<lfloor>watermark * real num_gpu\<rfloor>, bm_enable_caching = enable_caching,
         bm_alloc = G, bm_tables = Map.empty, bm_cross = Map.empty, bm_computed = Map.empty,
         bm_access = Map.empty\<rparr>))))"

definition check_no_caching_or_swa :: "block_manager \<Rightarrow> seq_group \<Rightarrow> unit result" where
  "check_no_caching_or_swa M g =
     (if is_encoder_decoder g then
        bind_r (guard_r NotImplementedError (bm_max_window M = None)) (\<lambda>_.
          guard_r NotImplementedError (\<not> bm_enable_caching M))
      else Inr ())"

definition can_allocate :: "seq_group \<Rightarrow> nat \<Rightarrow> block_manager \<Rightarrow> alloc_status result" where
  "can_allocate g num_lookahead_slots M =
     bind_r (check_no_caching_or_swa M g) (\<lambda>_.
     bind_r (nth_r (get_seqs WAITING g) 0) (\<lambda>q.
     bind_r (get_num_required_blocks (sq_tokens q) (bm_block_size M) num_lookahead_slots) (\<lambda>n1.
     bind_r (case sg_encoder_seq g of None \<Rightarrow> Inr n1
       | Some e \<Rightarrow> bind_r (get_num_required_blocks (sq_tokens e) (bm_block_size M) 0) (\<lambda>n. Inr (n1 + n))) (\<lambda>n2.
     let num_required_blocks = (case bm_max_window M of None \<Rightarrow> n2 | Some w \<Rightarrow> min n2 w);
         num_free = int (cg_get_num_free_blocks GPU (bm_alloc M)) in
     if int (bm_num_total_gpu_blocks M) - num_required_blocks < bm_watermark_blocks M then Inr NEVER
     else if num_free - num_required_blocks \<ge> bm_watermark_blocks M then Inr OK else Inr LATER))))"

definition allocate_sequence :: "sequence \<Rightarrow> mstate \<Rightarrow> (block_table \<times> mstate) result" where
  "allocate_sequence q s = (let (h, M) = s in
     bind_r (init_table (bm_block_size M) [] (bm_max_window M) h) (\<lambda>T.
     if sq_tokens q \<noteq> [] then
       bind_r (bt_allocate cpu_gpu_ops (sq_tokens q) GPU ((h, bm_alloc M), T)) (\<lambda>((h1, G), T1).
         Inr (T1, h1, M\<lparr>bm_alloc := G\<rparr>))
     else Inr (T, s)))"

definition track_seq :: "nat \<Rightarrow> mstate \<Rightarrow> mstate result" where
  "track_seq i s = (let (h, M) = s in
     bind_r (ct_add_seq i (bm_computed M)) (\<lambda>ct.
     bind_r (la_add_seq i (bm_access M)) (\<lambda>la.
       Inr (h, M\<lparr>bm_computed := ct, bm_access := la\<rparr>))))"

text \<open>Give sequence \<open>i\<close> a fork of the table \<open>T\<close>.\<close>

definition fork_table :: "block_table \<Rightarrow> nat \<Rightarrow> mstate \<Rightarrow> mstate result" where
  "fork_table T i s = (let (h, M) = s in
     bind_r (bt_fork cpu_gpu_ops ((h, bm_alloc M), T)) (\<lambda>(T1, h1, G).
       track_seq i (h1, M\<lparr>bm_alloc := G, bm_tables := (bm_tables M)(i \<mapsto> T1)\<rparr>)))"

definition allocate :: "seq_group \<Rightarrow> mstate \<Rightarrow> mstate result" where
  "allocate g s =
     (let waiting_seqs = get_seqs WAITING g in
      bind_r (guard_r AssertionError (\<forall>q \<in> set waiting_seqs. bm_tables (snd s) (sq_id q) = None)) (\<lambda>_.
      bind_r (nth_r waiting_seqs 0) (\<lambda>q.
      bind_r (allocate_sequence q s) (\<lambda>(T, h1, M1).
      bind_r (track_seq (sq_id q) (h1, M1\<lparr>bm_tables := (bm_tables M1)(sq_id q \<mapsto> T)\<rparr>)) (\<lambda>s2.
      bind_r (fold_r (\<lambda>r. fork_table T (sq_id r)) (drop 1 waiting_seqs) s2) (\<lambda>s3.
      bind_r (guard_r AssertionError (bm_cross (snd s3) (sg_request_id g) = None)) (\<lambda>_.
      bind_r (check_no_caching_or_swa (snd s3) g) (\<lambda>_.
      case sg_encoder_seq g of
        None \<Rightarrow> Inr s3
      | Some e \<Rightarrow> bind_r (allocate_sequence e s3) (\<lambda>(T2, h4, M4).
          Inr (h4, M4\<lparr>bm_cross := (bm_cross M4)(sg_request_id g \<mapsto> T2)\<rparr>))))))))))"

definition add_touched_blocks :: "block_manager \<Rightarrow> nat \<Rightarrow> sequence \<Rightarrow> int \<Rightarrow> int result" where
  "add_touched_blocks M num_lookahead_slots q n =
     bind_r (get_key (bm_tables M) (sq_id q)) (\<lambda>T.
     bind_r (get_num_blocks_touched_by_append_slots T (get_unseen_token_ids T (sq_tokens q)) num_lookahead_slots)
       (\<lambda>k. Inr (n + k)))"

definition can_append_slots :: "seq_group \<Rightarrow> nat \<Rightarrow> block_manager \<Rightarrow> bool result" where
  "can_append_slots g num_lookahead_slots M =
     bind_r (fold_r (add_touched_blocks M num_lookahead_slots) (get_seqs RUNNING g) 0) (\<lambda>num_touched_blocks.
       Inr (num_touched_blocks \<le> int (cg_get_num_free_blocks GPU (bm_alloc M))))"

definition append_slots :: "sequence \<Rightarrow> nat \<Rightarrow> mstate \<Rightarrow> (cow_list \<times> mstate) result" where
  "append_slots q num_lookahead_slots s = (let (h, M) = s in
     bind_r (get_key (bm_tables M) (sq_id q)) (\<lambda>T.
     bind_r (bt_append_token_ids cpu_gpu_ops (get_unseen_token_ids T (sq_tokens q)) num_lookahead_slots
         (Some (sq_num_computed q)) ((h, bm_alloc M), T)) (\<lambda>((h1, G), T1).
     let (new_cows, G1) = cg_clear_copy_on_writes G in
       Inr (new_cows, h1, M\<lparr>bm_alloc := G1, bm_tables := (bm_tables M)(sq_id q \<mapsto> T1)\<rparr>))))"

definition free :: "sequence \<Rightarrow> mstate \<Rightarrow> mstate result" where
  "free q s = (let (h, M) = s; i = sq_id q in
     case bm_tables M i of
       None \<Rightarrow> Inr s
     | Some T \<Rightarrow>
         bind_r (update_seq_blocks_last_access i (physical_block_ids T) (bm_access M) (bm_alloc M)) (\<lambda>G.
         bind_r (la_remove_seq i (bm_access M)) (\<lambda>la.
         bind_r (ct_remove_seq i (bm_computed M)) (\<lambda>ct.
         bind_r (bt_free cpu_gpu_ops ((h, G), T)) (\<lambda>((h1, G1), _).
           Inr (h1, M\<lparr>bm_alloc := G1, bm_access := la, bm_computed := ct,
             bm_tables := (bm_tables M)(i := None)\<rparr>))))))"

definition free_cross :: "seq_group \<Rightarrow> mstate \<Rightarrow> mstate result" where
  "free_cross g s = (let (h, M) = s in
     case bm_cross M (sg_request_id g) of
       None \<Rightarrow> Inr s
     | Some T \<Rightarrow> bind_r (bt_free cpu_gpu_ops ((h, bm_alloc M), T)) (\<lambda>((h1, G1), _).
         Inr (h1, M\<lparr>bm_alloc := G1, bm_cross := (bm_cross M)(sg_request_id g := None)\<rparr>)))"

definition get_block_table :: "sequence \<Rightarrow> block_manager \<Rightarrow> nat list result" where
  "get_block_table q M = bind_r (get_key (bm_tables M) (sq_id q)) (\<lambda>T. Inr (physical_block_ids T))"

definition get_cross_block_table :: "seq_group \<Rightarrow> block_manager \<Rightarrow> nat list result" where
  "get_cross_block_table g M = (case bm_cross M (sg_request_id g) of
     None \<Rightarrow> Inl AssertionError | Some T \<Rightarrow> Inr (physical_block_ids T))"

definition access_all_blocks_in_seq :: "sequence \<Rightarrow> real \<Rightarrow> mstate \<Rightarrow> mstate result" where
  "access_all_blocks_in_seq q now s = (let (h, M) = s in
     if bm_enable_caching M then
       bind_r (update_last_access (sq_id q) now (bm_access M)) (\<lambda>la. Inr (h, M\<lparr>bm_access := la\<rparr>))
     else Inr s)"

definition mark_blocks_as_computed :: "mstate \<Rightarrow> mstate result" where
  "mark_blocks_as_computed s = (let (h, M) = s in
     bind_r (cg_mark_blocks_as_computed [] (bm_alloc M)) (\<lambda>G. Inr (h, M\<lparr>bm_alloc := G\<rparr>)))"

definition computed_blocks_of :: "sequence \<Rightarrow> block_manager \<Rightarrow> (nat list \<times> block_manager) result" where
  "computed_blocks_of q M =
     bind_r (get_key (bm_tables M) (sq_id q)) (\<lambda>T.
     bind_r (get_cached_computed_blocks_and_update (bm_alloc M) (sq_id q) (physical_block_ids T) (bm_computed M))
       (\<lambda>(ids, ct). Inr (ids, M\<lparr>bm_computed := ct\<rparr>)))"

definition get_common_computed_block_ids ::
    "sequence list \<Rightarrow> block_manager \<Rightarrow> (nat list \<times> block_manager) result" where
  "get_common_computed_block_ids seqs M =
     bind_r (map_r computed_blocks_of seqs M) (\<lambda>(computed_seq_block_ids, M1).
       Inr (cg_get_common_computed_block_ids computed_seq_block_ids (bm_alloc M1), M1))"

definition fork_seq :: "sequence \<Rightarrow> sequence \<Rightarrow> mstate \<Rightarrow> mstate result" where
  "fork_seq parent_seq child_seq s = (case bm_tables (snd s) (sq_id parent_seq) of
     None \<Rightarrow> Inr s
   | Some T \<Rightarrow> fork_table T (sq_id child_seq) s)"

subsection \<open>Swapping\<close>

definition add_swap_cost :: "nat \<Rightarrow> block_manager \<Rightarrow> sequence \<Rightarrow> int \<times> nat list \<Rightarrow> (int \<times> nat list) result" where
  "add_swap_cost num_lookahead_slots M q acc =
     bind_r (get_key (bm_tables M) (sq_id q)) (\<lambda>T.
     bind_r (get_num_blocks_touched_by_append_slots T (get_unseen_token_ids T (sq_tokens q)) num_lookahead_slots)
       (\<lambda>k. Inr (fst acc + k, snd acc @ ls_blocks (bt_blocks T))))"

definition can_swap ::
    "seq_group \<Rightarrow> device \<Rightarrow> seq_status \<Rightarrow> nat \<Rightarrow> mstate \<Rightarrow> (alloc_status \<times> mstate) result" where
  "can_swap g dev status num_lookahead_slots s = (let (h, M) = s in
     bind_r (fold_r (add_swap_cost num_lookahead_slots M) (get_seqs status g) (0, [])) (\<lambda>(n, blocks).
     bind_r (cg_get_num_full_blocks_touched blocks dev (h, bm_alloc M)) (\<lambda>(k, h1, G1).
     let num_blocks_touched = n + int k;
         watermark_blocks = (if dev = GPU then bm_watermark_blocks M else 0);
         status = (if int (cg_get_num_total_blocks dev G1) < num_blocks_touched then NEVER
           else if int (cg_get_num_free_blocks dev G1) - num_blocks_touched \<ge> watermark_blocks then OK
           else LATER) in
       Inr (status, h1, M\<lparr>bm_alloc := G1\<rparr>))))"

definition can_swap_in :: "seq_group \<Rightarrow> nat \<Rightarrow> mstate \<Rightarrow> (alloc_status \<times> mstate) result" where
  "can_swap_in g num_lookahead_slots s = can_swap g GPU SWAPPED num_lookahead_slots s"

definition can_swap_out :: "seq_group \<Rightarrow> mstate \<Rightarrow> (bool \<times> mstate) result" where
  "can_swap_out g s = bind_r (can_swap g CPU RUNNING 0 s) (\<lambda>(st, s1). Inr (st = OK, s1))"

fun physical_mapping ::
    "cpu_gpu \<Rightarrow> device \<Rightarrow> device \<Rightarrow> (nat \<times> nat) list \<Rightarrow> (nat \<times> nat) list \<Rightarrow> (nat \<times> nat) list result" where
  "physical_mapping G src dst [] m = Inr m"
| "physical_mapping G src dst ((i, j) # ps) m =
     bind_r (cg_get_physical_block_id src i G) (\<lambda>pi.
     bind_r (cg_get_physical_block_id dst j G) (\<lambda>pj.
       physical_mapping G src dst ps (AList.update pi pj m)))"

text \<open>The body of the loops of \<open>swap_in\<close> and \<open>swap_out\<close>.\<close>

definition swap_seq ::
    "device \<Rightarrow> device \<Rightarrow> sequence \<Rightarrow> (nat \<times> nat) list \<times> mstate \<Rightarrow> ((nat \<times> nat) list \<times> mstate) result" where
  "swap_seq src dst q s = (let (acc, h, M) = s in
     bind_r (get_key (bm_tables M) (sq_id q)) (\<lambda>T. let blocks = ls_blocks (bt_blocks T) in
     if blocks = [] then Inr s
     else
       bind_r (cg_swap blocks src dst (h, bm_alloc M)) (\<lambda>(seq_swap_mapping, h1, G).
       bind_r (bt_update h1 blocks T) (\<lambda>T1.
       bind_r (physical_mapping G src dst seq_swap_mapping []) (\<lambda>m.
         Inr (acc @ m, h1, M\<lparr>bm_alloc := G, bm_tables := (bm_tables M)(sq_id q \<mapsto> T1)\<rparr>))))))"

definition swap_in :: "seq_group \<Rightarrow> mstate \<Rightarrow> ((nat \<times> nat) list \<times> mstate) result" where
  "swap_in g s = fold_r (swap_seq CPU GPU) (get_seqs SWAPPED g) ([], s)"

definition swap_out :: "seq_group \<Rightarrow> mstate \<Rightarrow> ((nat \<times> nat) list \<times> mstate) result" where
  "swap_out g s = fold_r (swap_seq GPU CPU) (get_seqs RUNNING g) ([], s)"

definition get_num_free_gpu_blocks :: "block_manager \<Rightarrow> nat" where
  "get_num_free_gpu_blocks M = cg_get_num_free_blocks GPU (bm_alloc M)"

definition get_num_free_cpu_blocks :: "block_manager \<Rightarrow> nat" where
  "get_num_free_cpu_blocks M = cg_get_num_free_blocks CPU (bm_alloc M)"

definition get_prefix_cache_hit_rate :: "device \<Rightarrow> block_manager \<Rightarrow> real result" where
  "get_prefix_cache_hit_rate d M = cg_get_prefix_cache_hit_rate d (bm_alloc M)"

end
