(* ===== verification/Naive_Total.thy ===== *)
theory Naive_Total
  imports Naive_Seq
begin

text \<open>
  When the operations of the naive allocator succeed, and what swapping does to it. The blocks
  that are swapped in come from the pool of another allocator: they take an id of this one and
  leave its pool as it was.
\<close>

definition naive_cfg :: "naive_alloc \<Rightarrow> bool" where
  "naive_cfg A \<longleftrightarrow> bp_class (na_pool A) = Naive_Block \<and> 0 < bp_pool_size (na_pool A)"

lemma naive_cfg_frame: "naive_cfg A \<Longrightarrow> pool_frame n (na_pool A) (na_pool A') \<Longrightarrow> naive_cfg A'"
  by (simp add: naive_cfg_def pool_frame_def)

lemma naive_init_block_total:
  assumes "pool_inv h (na_pool A) W" and "naive_cfg A" and "length toks \<le> na_block_size A"
    and "\<forall>p. prev = Some p \<longrightarrow> p < length h"
  shows "\<exists>a h' A'. naive_init_block prev toks bid (h, A) = Inr (a, h', A')
    \<and> pool_inv h' (na_pool A') (insert a W) \<and> naive_cfg A' \<and> na_block_size A' = na_block_size A
    \<and> a < length h' \<and> agree {a} h h' \<and> na_refs A' = na_refs A"
proof -
  have "prev_ok h (bp_class (na_pool A)) prev" "real_class (bp_class (na_pool A))" "0 < bp_pool_size (na_pool A)"
    using assms(2) by (simp_all add: naive_cfg_def prev_ok_def real_class_def)
  from pool_init_block_total [OF assms(1) this(3,2) assms(3) this(1) assms(4), of bid]
  obtain a h' P where p: "pool_init_block prev toks (na_block_size A) bid (h, na_pool A) = Inr (a, h', P)" by blast
  from pool_init_block_inv [OF assms(1) p] p assms(2) show ?thesis
    by (simp add: naive_init_block_def naive_cfg_def)
qed

lemma naive_init_blocks_total:
  assumes "pool_inv h (na_pool A) W" and "naive_cfg A" and "\<forall>x \<in> set xs. length (fst x) \<le> na_block_size A"
    and "\<forall>p. prev = Some p \<longrightarrow> p < length h"
  shows "\<exists>r. naive_init_blocks prev xs (h, A) = Inr r"
  using assms
proof (induction xs arbitrary: h A W prev)
  case (Cons x xs)
  obtain t i where x: "x = (t, i)" by (cases x)
  have "length t \<le> na_block_size A" using Cons.prems(3) x by simp
  from naive_init_block_total [OF Cons.prems(1,2) this Cons.prems(4), of "Some i"] obtain a h1 A1 where
    1: "naive_init_block prev t (Some i) (h, A) = Inr (a, h1, A1)" "pool_inv h1 (na_pool A1) (insert a W)"
    "naive_cfg A1" "na_block_size A1 = na_block_size A" "a < length h1" by blast
  have "\<exists>r. naive_init_blocks (Some a) xs (h1, A1) = Inr r"
    by (rule Cons.IH [OF 1(2,3)]) (use Cons.prems(3) 1 in simp_all)
  with 1(1) show ?case by (auto simp: x)
qed simp

lemma alloc_ids_total:
  assumes "al_inv A R" and "length ks \<le> length (na_free A)"
  shows "\<exists>ids A'. map_r (\<lambda>_. naive_allocate_block_id) ks A = Inr (ids, A')"
  using assms
proof (induction ks arbitrary: A R)
  case (Cons k ks)
  then have "na_free A \<noteq> []" by auto
  with alloc_id_total [OF Cons.prems(1)] obtain A1 where al: "naive_allocate_block_id A = Inr (hd (na_free A), A1)" by auto
  from alloc_id_inv [OF Cons.prems(1) al] have "al_inv A1 (R + {#hd (na_free A)#})" "na_free A = hd (na_free A) # na_free A1"
    by blast+
  moreover from this have "length ks \<le> length (na_free A1)" using Cons.prems(2)
    by (metis Suc_le_mono length_Cons)
  ultimately obtain ids A' where "map_r (\<lambda>_. naive_allocate_block_id) ks A1 = Inr (ids, A')" using Cons.IH by blast
  with al show ?case by simp
qed simp

lemma naive_allocate_immutable_blocks_total:
  assumes inv: "nv_inv (h, A) L W" and cfg: "naive_cfg A" and "\<forall>t \<in> set tss. length t \<le> na_block_size A"
    and "length tss \<le> length (na_free A)" and "\<forall>p. prev = Some p \<longrightarrow> p < length h"
  shows "\<exists>r. naive_allocate_immutable_blocks prev tss (h, A) = Inr r"
proof -
  note d = nv_invD [OF inv]
  obtain ids A1 where m: "map_r (\<lambda>_. naive_allocate_block_id) [0..<length tss] A = Inr (ids, A1)"
    using alloc_ids_total [OF d(4), of "[0..<length tss]"] assms(4) by auto
  from alloc_ids_ok [OF d(4) m] have A1: "A1 = A\<lparr>na_free := na_free A1, na_refs := na_refs A1\<rparr>" by blast
  then have p: "na_pool A1 = na_pool A" "na_block_size A1 = na_block_size A"
    by (metis naive_alloc.select_convs naive_alloc.surjective naive_alloc.update_convs(1,3))+
  have "\<exists>r. naive_init_blocks prev (zip tss ids) (h, A1) = Inr r"
    by (rule naive_init_blocks_total [where W = W])
      (use d cfg p assms(3,5) in \<open>auto simp: naive_cfg_def dest: set_zip_leftD\<close>)
  with m show ?thesis by (auto simp: naive_allocate_immutable_blocks_def)
qed

lemma naive_fork_loop_total:
  assumes "pool_inv h (na_pool A) W" and "naive_cfg A" and "set as \<subseteq> W" and "distinct as"
    and "\<forall>a \<in> set as. length (bl_tokens (h ! a)) \<le> na_block_size A
        \<and> (\<exists>i n. bl_id (h ! a) = Some i \<and> na_refs A i = Some n \<and> 0 < n)"
    and "\<forall>p. prev = Some p \<longrightarrow> p < length h"
  shows "\<exists>r. naive_fork_loop prev as (h, A) = Inr r"
  using assms
proof (induction as arbitrary: h A W prev)
  case (Cons a as)
  obtain i n where i: "bl_id (h ! a) = Some i" "na_refs A i = Some n" "0 < n" using Cons.prems(5) by auto
  let ?A = "A\<lparr>na_refs := (na_refs A)(i \<mapsto> n + 1)\<rparr>"
  have rc: "rc_incr i (na_refs A) = Inr (n + 1, (na_refs A)(i \<mapsto> n + 1))" using i by (simp add: rc_incr_def rc_get_def)
  have "pool_inv h (na_pool ?A) W" "naive_cfg ?A" "length (bl_tokens (h ! a)) \<le> na_block_size ?A"
    using Cons.prems by (simp_all add: naive_cfg_def)
  from naive_init_block_total [OF this Cons.prems(6), of "Some i"] obtain f h1 A1 where
    1: "naive_init_block prev (bl_tokens (h ! a)) (Some i) (h, ?A) = Inr (f, h1, A1)"
    "pool_inv h1 (na_pool A1) (insert f W)" "naive_cfg A1" "na_block_size A1 = na_block_size A" "f < length h1"
    "agree {f} h h1" "na_refs A1 = (na_refs A)(i \<mapsto> n + 1)" by auto
  have fW: "f \<notin> W"
  proof -
    from 1(1) obtain P where "pool_init_block prev (bl_tokens (h ! a)) (na_block_size A) (Some i) (h, na_pool A) = Inr (f, h1, P)"
      by (auto simp: naive_init_block_def)
    from pool_init_block_inv [OF Cons.prems(1) this] show ?thesis by blast
  qed
  have "\<forall>x \<in> set as. length (bl_tokens (h1 ! x)) \<le> na_block_size A1
      \<and> (\<exists>j m. bl_id (h1 ! x) = Some j \<and> na_refs A1 j = Some m \<and> 0 < m)"
  proof
    fix x assume x: "x \<in> set as"
    then have "x \<in> W" using Cons.prems(3) by auto
    then have "x < length h" "x \<noteq> f" using pool_inv_less [OF Cons.prems(1)] fW by auto
    then have "h1 ! x = h ! x" using 1(6) by (simp add: agreeD)
    moreover obtain j m where "bl_id (h ! x) = Some j" "na_refs A j = Some m" "0 < m"
      and "length (bl_tokens (h ! x)) \<le> na_block_size A" using Cons.prems(5) x by auto
    ultimately show "length (bl_tokens (h1 ! x)) \<le> na_block_size A1
      \<and> (\<exists>j m. bl_id (h1 ! x) = Some j \<and> na_refs A1 j = Some m \<and> 0 < m)"
      using i 1(4,7) by (cases "j = i") auto
  qed
  then have "\<exists>r. naive_fork_loop (Some f) as (h1, A1) = Inr r"
    using Cons.prems(3,4) 1 by (intro Cons.IH [OF 1(2,3)]) auto
  with 1(1) i rc show ?case by auto
qed simp

lemma naive_fork_total:
  assumes inv: "nv_inv (h, A) L W" and cfg: "naive_cfg A" and as: "linked h None as" "as \<noteq> []" "distinct as" "set as \<subseteq> L"
    and "L \<subseteq> W" and len: "\<forall>a \<in> set as. length (bl_tokens (h ! a)) \<le> na_block_size A"
  shows "\<exists>r. naive_fork (last as) (h, A) = Inr r"
proof -
  note d = nv_invD [OF inv]
  have "\<exists>i n. bl_id (h ! a) = Some i \<and> na_refs A i = Some n \<and> 0 < n" if "a \<in> set as" for a
  proof -
    have aL: "a \<in> L" using that as(4) by auto
    obtain i where i: "bl_id (h ! a) = Some i" using d(3) [OF aL] by blast
    then have "i \<in># refs_of h L" using refs_of_mem [OF d(1) aL, of h] by simp
    with al_inv_refs [OF d(4) this] i show ?thesis by auto
  qed
  then have "\<exists>r. naive_fork_loop None as (h, A) = Inr r"
    using assms d(5) by (intro naive_fork_loop_total [where W = W]) auto
  moreover have "\<forall>a \<in> set as. a < length h" using d(2) as(4) by blast
  ultimately show ?thesis using get_all_blocks_linked [OF as(1-3)] by (simp add: naive_fork_def)
qed

subsection \<open>Swapping out\<close>

lemma naive_swap_out_ok:
  assumes "nv_inv (h, A) L W" and "set bs \<subseteq> L" and "distinct bs" and "naive_swap_out bs (h, A) = Inr (h', A')"
  shows "nv_inv (h', A') (L - set bs) W \<and> length h' = length h
    \<and> (\<forall>x. h' ! x = (if x \<in> set bs then (h ! x)\<lparr>bl_id := None\<rparr> else h ! x))
    \<and> same_env A A' \<and> na_pool A' = na_pool A \<and> na_cows A' = na_cows A"
  using assms
proof (induction bs arbitrary: h A L)
  case Nil
  then show ?case by (simp add: naive_swap_out_def)
next
  case (Cons b bs)
  from Cons.prems(4) obtain h1 A1 where f: "naive_free_block_id b (h, A) = Inr (h1, A1)"
    and r: "naive_swap_out bs (h1, A1) = Inr (h', A')" by (auto simp: naive_swap_out_def)
  have b: "b \<in> L" using Cons.prems(2) by simp
  from naive_free_block_id_ok [OF Cons.prems(1) b f] have 1: "nv_inv (h1, A1) (L - {b}) W"
    "h1 = set_block_id b None h" "same_env A A1" "na_pool A1 = na_pool A" "na_cows A1 = na_cows A" by blast+
  have "set bs \<subseteq> L - {b}" "distinct bs" using Cons.prems by auto
  note IH = Cons.IH [OF 1(1) this r]
  have "b < length h" using nv_invD(2) [OF Cons.prems(1) b] .
  then have "\<forall>x. h' ! x = (if x \<in> set (b # bs) then (h ! x)\<lparr>bl_id := None\<rparr> else h ! x)"
    using IH Cons.prems(3) by (auto simp: 1(2) set_block_id_nth)
  moreover have "L - {b} - set bs = L - set (b # bs)" by auto
  ultimately show ?case using IH 1 same_env_trans [OF 1(3)] by simp
qed

lemma naive_swap_out_total:
  assumes "nv_inv (h, A) L W" and "set bs \<subseteq> L" and "distinct bs" and "shm_room A"
  shows "\<exists>r. naive_swap_out bs (h, A) = Inr r"
  using assms
proof (induction bs arbitrary: h A L)
  case (Cons b bs)
  have b: "b \<in> L" using Cons.prems(2) by simp
  obtain h1 A1 where f: "naive_free_block_id b (h, A) = Inr (h1, A1)"
    using naive_free_block_id_total [OF Cons.prems(1) b Cons.prems(4)] by auto
  from naive_free_block_id_ok [OF Cons.prems(1) b f] have 1: "nv_inv (h1, A1) (L - {b}) W" "same_env A A1" by blast+
  have "\<exists>r. naive_swap_out bs (h1, A1) = Inr r"
    using Cons.prems same_env_room [OF 1(2)] by (intro Cons.IH [OF 1(1)]) auto
  with f show ?case by (simp add: naive_swap_out_def)
qed (simp add: naive_swap_out_def)

subsection \<open>Swapping in\<close>

lemma naive_swap_in_block_alt:
  "naive_swap_in_block a (h, A) =
     bind_r (naive_allocate_mutable_block (bl_prev (h ! a)) (h, A)) (\<lambda>(t, s1).
     bind_r (naive_append_token_ids t (bl_tokens (h ! a)) s1) (\<lambda>(h1, A1).
       Inr (set_block_id a (bl_id (h1 ! t)) (set_block_id t None h1),
         A1\<lparr>na_pool := pool_free_block (set_block_id t None h1) t (na_pool A1)\<rparr>)))"
  by (simp add: naive_swap_in_block_def naive_allocate_immutable_block_def Let_def bind_r_def
      split: sum.split prod.split)

text \<open>
  The temporary block \<open>t\<close> comes from the pool and goes back to it; \<open>a\<close> takes over its
  fresh id.
\<close>

lemma naive_swap_in_block_ok:
  assumes inv: "nv_inv (h, A) L W" and a: "a \<notin> L" "a < length h" "a \<in> set (bp_pool (na_pool A)) \<longrightarrow> a \<in> W"
    and run: "naive_swap_in_block a (h, A) = Inr (h', A')"
  shows "\<exists>t i. nv_inv (h', A') (insert a L) W \<and> t \<notin> W \<and> t \<notin> insert a L \<and> t \<in> set (bp_pool (na_pool A'))
    \<and> agree {a, t} h h' \<and> h' ! a = (h ! a)\<lparr>bl_id := Some i\<rparr> \<and> i \<notin># refs_of h L
    \<and> na_free A = i # na_free A' \<and> same_env A A' \<and> na_cows A' = na_cows A
    \<and> pool_frame (length h) (na_pool A) (na_pool A')"
proof -
  note d = nv_invD [OF inv]
  from run obtain t h1 A1 h2 A2 where al: "naive_allocate_mutable_block (bl_prev (h ! a)) (h, A) = Inr (t, h1, A1)"
    and ap: "naive_append_token_ids t (bl_tokens (h ! a)) (h1, A1) = Inr (h2, A2)"
    and h': "h' = set_block_id a (bl_id (h2 ! t)) (set_block_id t None h2)"
    and A': "A' = A2\<lparr>na_pool := pool_free_block (set_block_id t None h2) t (na_pool A2)\<rparr>"
    by (auto simp: naive_swap_in_block_alt)
  note q = naive_allocate_mutable_block_ok [OF inv al]
  obtain i where i: "bl_id (h1 ! t) = Some i" "i \<notin># refs_of h L" "na_free A = i # na_free A1" using q by blast
  have q1: "nv_inv (h1, A1) (insert t L) (insert t W)" "t \<notin> L" "t \<notin> W" "agree {t} h h1" "same_env A A1"
    "na_cows A1 = na_cows A" "set (bp_pool (na_pool A1)) = set (bp_pool (na_pool A)) \<union> {length h..<length h1}"
    using q by blast+
  note e = nv_invD [OF q1(1)]
  have tpool: "t \<in> set (bp_pool (na_pool A1))" using pool_inv_O [OF e(5)] by blast
  have ta: "t \<noteq> a"
  proof
    assume "t = a"
    then have "a \<in> set (bp_pool (na_pool A))" using tpool q1(7) a(2) by auto
    then show False using a(3) q1(3) \<open>t = a\<close> by blast
  qed
  have old: "h1 ! x = h ! x" if "x \<in> L" for x
  proof -
    have "x < length h" "x \<notin> {t}" using that d(2) q1(2) by auto
    then show ?thesis using q1(4) by (simp add: agreeD)
  qed
  have rc: "ref_count h1 (insert t L) i \<le> 1"
  proof -
    have "bl_id (h1 ! x) \<noteq> Some i" if "x \<in> L" for x
      using refs_of_mem [OF d(1) that, of h] i(2) old [OF that] by auto
    then have "{x \<in> insert t L. bl_id (h1 ! x) = Some i} \<subseteq> {t}" by auto
    from card_mono [OF _ this] show ?thesis by (simp add: ref_count_def)
  qed
  note r = naive_append_ok [OF q1(1) insertI1 ap]
  have r1: "nv_inv (h2, A2) (insert t L) (insert t W)" "agree {t} h1 h2" "length h2 = length h1"
    "bl_id (h2 ! t) = Some i" "A2 = A1" using r rc i(1) by (blast, blast, blast, simp, simp)
  note f = nv_invD [OF r1(1)]
  let ?h3 = "set_block_id t None h2"
  have al2: "a < length h2" "t < length h2" using a(2) agree_length [OF q1(4)] r1(3) f(2) by auto
  have ag2: "agree {t} h h2" using agree_trans [OF q1(4) r1(2)] .
  have ha2: "h2 ! a = h ! a" using ag2 a(2) ta by (simp add: agreeD)
  have h'n: "h' ! x = (if x = a then (h2 ! a)\<lparr>bl_id := Some i\<rparr> else if x = t then (h2 ! t)\<lparr>bl_id := None\<rparr> else h2 ! x)" for x
    using al2 ta by (simp add: h' set_block_id_nth r1(4))
  have P: "pool_inv h2 (na_pool A2) (insert t W)" using f(5) .
  have "pool_inv ?h3 (pool_free_block ?h3 t (na_pool A2)) (insert t W - {t})"
    by (intro pool_free_block_inv pool_inv_set_id [OF P]) simp
  then have P': "pool_inv h' (na_pool A') W" unfolding h' A'
    using q1(3) by (simp add: pool_inv_set_id)
  have R: "refs_of h' (insert a L) = refs_of h2 (insert t L)"
  proof -
    have "refs_of h' (insert a L) = refs_of h' L + {#i#}" using refs_of_insert [OF d(1) a(1), of h'] by (simp add: h'n)
    moreover have "refs_of h2 (insert t L) = refs_of h2 L + {#i#}" using refs_of_insert [OF d(1) q1(2), of h2] r1(4) by simp
    moreover have "refs_of h' L = refs_of h2 L"
      by (rule refs_of_cong) (use a(1) q1(2) in \<open>auto simp: h'n\<close>)
    ultimately show ?thesis by simp
  qed
  have "al_inv A' (refs_of h' (insert a L))"
    unfolding R using f(4) by (simp add: al_inv_def A' reserved_ids_def split: option.splits)
  moreover have len: "length h' = length h2" by (simp add: h')
  moreover have "ids_ok h' (insert a L)"
    using f(7) al2 a(1) q1(2) len by (auto simp: ids_ok_def h'n)
  moreover have pool: "set (bp_pool (na_pool A')) = set (bp_pool (na_pool A1))" by (simp add: A' r1(5) pool_free_block_def)
  moreover have "insert a L \<inter> set (bp_pool (na_pool A')) \<subseteq> W"
  proof -
    have "insert t L \<inter> set (bp_pool (na_pool A1)) \<subseteq> insert t W" using f(6) r1(5) by simp
    moreover have "a \<in> W" if "a \<in> set (bp_pool (na_pool A1))" using that q1(7) a by auto
    ultimately show ?thesis using pool q1(2,3) by auto
  qed
  ultimately have "nv_inv (h', A') (insert a L) W" using P' by (simp add: nv_inv_def)
  moreover have "agree {a, t} h h'"
  proof -
    have "length h \<le> length h'" using agree_length [OF ag2] len by simp
    moreover have "h' ! x = h ! x" if "x < length h" "x \<notin> {a, t}" for x
      using that ag2 by (simp add: h'n agreeD)
    ultimately show ?thesis by (simp add: agree_def)
  qed
  moreover have "na_free A' = na_free A1" "na_cows A' = na_cows A1" by (simp_all add: A' r1(5))
  moreover have "same_env A A'" using same_env_trans [OF q1(5) same_envI] by (simp add: A' r1(5))
  moreover have "pool_frame (length h) (na_pool A) (na_pool A')"
  proof -
    have "pool_frame (length h) (na_pool A) (na_pool A1)" using q by (simp add: pool_frame_def)
    then show ?thesis by (simp add: pool_frame_def A' r1(5) pool_free_block_def)
  qed
  ultimately show ?thesis using q1 i tpool pool ta h'n [of a] ha2
    by (intro exI [of _ t] exI [of _ i]) auto
qed

lemma naive_swap_in_ok:
  assumes "nv_inv (h, A) L W" and "set bs \<inter> L = {}" "distinct bs" "\<forall>a \<in> set bs. a < length h"
      "set bs \<inter> set (bp_pool (na_pool A)) \<subseteq> W" and "naive_swap_in bs (h, A) = Inr (h', A')"
  shows "\<exists>X. nv_inv (h', A') (L \<union> set bs) W \<and> X \<inter> W = {} \<and> X \<inter> (L \<union> set bs) = {} \<and> X \<subseteq> set (bp_pool (na_pool A'))
    \<and> agree (set bs \<union> X) h h' \<and> (\<forall>a \<in> set bs. h' ! a = (h ! a)\<lparr>bl_id := bl_id (h' ! a)\<rparr>)
    \<and> na_free A = map (\<lambda>a. the (bl_id (h' ! a))) bs @ na_free A' \<and> same_env A A' \<and> na_cows A' = na_cows A
    \<and> pool_frame (length h) (na_pool A) (na_pool A')"
  using assms
proof (induction bs arbitrary: h A L)
  case Nil
  then show ?case by (intro exI [of _ "{}"]) (simp add: naive_swap_in_def)
next
  case (Cons b bs)
  from Cons.prems(6) obtain h1 A1 where b: "naive_swap_in_block b (h, A) = Inr (h1, A1)"
    and r: "naive_swap_in bs (h1, A1) = Inr (h', A')" by (auto simp: naive_swap_in_def)
  have bb: "b \<notin> L" "b < length h" "b \<in> set (bp_pool (na_pool A)) \<longrightarrow> b \<in> W" using Cons.prems by auto
  from naive_swap_in_block_ok [OF Cons.prems(1) bb b] obtain t i where
    1: "nv_inv (h1, A1) (insert b L) W" "t \<notin> W" "t \<notin> insert b L" "t \<in> set (bp_pool (na_pool A1))"
    "agree {b, t} h h1" "h1 ! b = (h ! b)\<lparr>bl_id := Some i\<rparr>" "na_free A = i # na_free A1" "same_env A A1"
    "na_cows A1 = na_cows A" "pool_frame (length h) (na_pool A) (na_pool A1)" by blast
  have le: "length h \<le> length h1" using agree_length [OF 1(5)] .
  have pl: "set bs \<inter> set (bp_pool (na_pool A1)) \<subseteq> W"
    using Cons.prems(4,5) 1(10) by (fastforce simp: pool_frame_def)
  have tbs: "t \<notin> set bs" using pl 1(2,4) by auto
  have old: "h1 ! x = h ! x" if "x \<in> set bs" for x
    using 1(5) that Cons.prems(3,4) tbs by (intro agreeD) auto
  have "set bs \<inter> insert b L = {}" "distinct bs" "\<forall>a \<in> set bs. a < length h1"
    using Cons.prems le by auto
  from Cons.IH [OF 1(1) this pl r] obtain X where
    X: "nv_inv (h', A') (insert b L \<union> set bs) W" "X \<inter> W = {}" "X \<inter> (insert b L \<union> set bs) = {}"
    "X \<subseteq> set (bp_pool (na_pool A'))" "agree (set bs \<union> X) h1 h'"
    "\<forall>a \<in> set bs. h' ! a = (h1 ! a)\<lparr>bl_id := bl_id (h' ! a)\<rparr>"
    "na_free A1 = map (\<lambda>a. the (bl_id (h' ! a))) bs @ na_free A'" "same_env A1 A'" "na_cows A' = na_cows A1"
    "pool_frame (length h1) (na_pool A1) (na_pool A')" by blast
  have hb: "h' ! b = h1 ! b" using X(3,5) Cons.prems(3) bb(2) le by (intro agreeD) auto
  have "agree (set (b # bs) \<union> insert t X) h h'"
    by (rule agree_trans [OF agree_mono [OF 1(5)] agree_mono [OF X(5)]]) auto
  moreover have "insert t X \<subseteq> set (bp_pool (na_pool A'))" using X(4,10) 1(4) by (auto simp: pool_frame_def)
  moreover have "pool_frame (length h) (na_pool A) (na_pool A')" using pool_frame_trans [OF 1(10) X(10) le] .
  ultimately show ?case
    using X 1 tbs hb old same_env_trans [OF 1(8)]
    by (intro exI [of _ "insert t X"]) (auto simp: insert_commute)
qed

lemma naive_swap_in_total:
  assumes "nv_inv (h, A) L W" and "set bs \<inter> L = {}" "distinct bs" "\<forall>a \<in> set bs. a < length h"
      "set bs \<inter> set (bp_pool (na_pool A)) \<subseteq> W"
    and cfg: "naive_cfg A" and room: "shm_room A" and "length bs \<le> length (na_free A)"
    and "\<forall>a \<in> set bs. length (bl_tokens (h ! a)) \<le> na_block_size A \<and> (\<forall>p. bl_prev (h ! a) = Some p \<longrightarrow> p < length h)"
  shows "\<exists>r. naive_swap_in bs (h, A) = Inr r"
  using assms
proof (induction bs arbitrary: h A L)
  case Nil
  then show ?case by (simp add: naive_swap_in_def)
next
  case (Cons b bs)
  have bb: "b \<notin> L" "b < length h" "b \<in> set (bp_pool (na_pool A)) \<longrightarrow> b \<in> W" using Cons.prems by auto
  have pk: "0 < bp_pool_size (na_pool A)" "real_class (bp_class (na_pool A))" "prev_ok h (bp_class (na_pool A)) (bl_prev (h ! b))"
    using Cons.prems(6) by (simp_all add: naive_cfg_def prev_ok_def real_class_def)
  have pv: "\<forall>p. bl_prev (h ! b) = Some p \<longrightarrow> p < length h" using Cons.prems(9) by simp
  have nf: "na_free A \<noteq> []" using Cons.prems(8) by auto
  obtain t h1 A1 where al: "naive_allocate_mutable_block (bl_prev (h ! b)) (h, A) = Inr (t, h1, A1)"
    using naive_allocate_mutable_block_total [OF Cons.prems(1) pk pv] nf by (metis prod_cases3)
  note q = naive_allocate_mutable_block_ok [OF Cons.prems(1) al]
  obtain i where i: "bl_id (h1 ! t) = Some i" "i \<notin># refs_of h L" "na_free A = i # na_free A1" using q by blast
  have q1: "nv_inv (h1, A1) (insert t L) (insert t W)" "agree {t} h h1" "t \<notin> L" "same_env A A1"
    "bl_tokens (h1 ! t) = []" "bl_size (h1 ! t) = na_block_size A" using q by blast+
  note d = nv_invD [OF Cons.prems(1)]
  have rc: "ref_count h1 (insert t L) i \<le> 1"
  proof -
    have "bl_id (h1 ! x) \<noteq> Some i" if x: "x \<in> L" for x
    proof -
      have "h1 ! x = h ! x" using x q1(2,3) d(2) [OF x] by (intro agreeD) auto
      then show ?thesis using refs_of_mem [OF d(1) x, of h] i(2) by auto
    qed
    then have "{x \<in> insert t L. bl_id (h1 ! x) = Some i} \<subseteq> {t}" by auto
    from card_mono [OF _ this] show ?thesis by (simp add: ref_count_def)
  qed
  have "shm_room A1" using Cons.prems(7) same_env_room [OF q1(4)] by simp
  then obtain h2 A2 where ap: "naive_append_token_ids t (bl_tokens (h ! b)) (h1, A1) = Inr (h2, A2)"
    using naive_append_total [OF q1(1) insertI1, of "bl_tokens (h ! b)"] Cons.prems(9) q1(5,6) rc i(1) by auto
  from al ap obtain h3 A3 where b: "naive_swap_in_block b (h, A) = Inr (h3, A3)"
    by (simp add: naive_swap_in_block_alt)
  from naive_swap_in_block_ok [OF Cons.prems(1) bb b] obtain t' j where
    1: "nv_inv (h3, A3) (insert b L) W" "t' \<notin> W" "t' \<in> set (bp_pool (na_pool A3))"
    "agree {b, t'} h h3" "na_free A = j # na_free A3" "same_env A A3" "pool_frame (length h) (na_pool A) (na_pool A3)"
    by blast
  have le: "length h \<le> length h3" using agree_length [OF 1(4)] .
  have pl: "set bs \<inter> set (bp_pool (na_pool A3)) \<subseteq> W"
    using Cons.prems(4,5) 1(7) by (fastforce simp: pool_frame_def)
  have old: "h3 ! x = h ! x" if "x \<in> set bs" for x
    using 1(2-4) that Cons.prems(3,4) pl by (intro agreeD) auto
  have bsz: "na_block_size A3 = na_block_size A" using 1(6) by (simp add: same_env_def)
  have "\<exists>r. naive_swap_in bs (h3, A3) = Inr r"
  proof (rule Cons.IH [OF 1(1)])
    show "set bs \<inter> insert b L = {}" "distinct bs" "\<forall>a \<in> set bs. a < length h3" using Cons.prems le by auto
    show "naive_cfg A3" using naive_cfg_frame [OF Cons.prems(6) 1(7)] .
    show "shm_room A3" using Cons.prems(7) same_env_room [OF 1(6)] by simp
    show "length bs \<le> length (na_free A3)" using Cons.prems(8) 1(5) by simp
    show "\<forall>a \<in> set bs. length (bl_tokens (h3 ! a)) \<le> na_block_size A3 \<and> (\<forall>p. bl_prev (h3 ! a) = Some p \<longrightarrow> p < length h3)"
      using Cons.prems(9) old bsz le by fastforce
  qed (use pl in auto)
  with b show ?case by (simp add: naive_swap_in_def)
qed

end
