(* ===== verification/Table_Lemmas.thy ===== *)
theory Table_Lemmas
  imports Block_Table Naive_Seq
begin

text \<open>
  Arithmetic of blocks, the shape of a block table, and what it means that a block shares its
  id.
\<close>

definition ceil_div :: "nat \<Rightarrow> nat \<Rightarrow> nat" where
  "ceil_div a b = (a + b - 1) div b"

lemma ceil_div_zero [simp]: "0 < b \<Longrightarrow> ceil_div 0 b = 0"
  by (simp add: ceil_div_def)

lemma ceil_div_le_iff: "0 < b \<Longrightarrow> ceil_div a b \<le> k \<longleftrightarrow> a \<le> k * b"
proof -
  assume b: "0 < b"
  have "ceil_div a b \<le> k \<longleftrightarrow> a + b - 1 < Suc k * b"
    using b by (simp add: ceil_div_def less_Suc_eq_le [symmetric] div_less_iff_less_mult)
  also have "\<dots> \<longleftrightarrow> a \<le> k * b" using b by auto
  finally show ?thesis .
qed

lemma ceil_div_mult_add: "0 < b \<Longrightarrow> ceil_div (k * b + a) b = k + ceil_div a b"
proof -
  assume b: "0 < b"
  have "k * b + a + b - 1 = a + b - 1 + k * b" using b by simp
  then show ?thesis using b unfolding ceil_div_def by (metis add.commute div_mult_self1 less_numeral_extra(3) mult.commute)
qed

lemma ceil_div_mono: "0 < b \<Longrightarrow> a \<le> c \<Longrightarrow> ceil_div a b \<le> ceil_div c b"
  by (simp add: ceil_div_def div_le_mono)

lemma ceil_div_small: "0 < a \<Longrightarrow> a \<le> b \<Longrightarrow> ceil_div a b = 1"
  using ceil_div_le_iff [of b a 1] ceil_div_le_iff [of b a 0] by simp

lemma cdiv_nat: "0 < b \<Longrightarrow> cdiv (int a) (int b) = Inr (int (ceil_div a b))"
proof -
  assume b: "0 < b"
  have "int a + int b - 1 = int (a + b - 1)" using b by simp
  then show ?thesis using b cdiv_pos [of "int b" "int a"] by (simp add: ceil_div_def zdiv_int)
qed

lemma ceiling_nat:
  assumes "0 < b"
  shows "\<lceil>real_of_int (int a - int c * int b) / real b\<rceil> = int (ceil_div a b) - int c"
proof -
  have "\<lceil>real_of_int (int a - int c * int b) / real b\<rceil> = - (- (int a - int c * int b) div int b)"
    using ceiling_divide_eq_div [of "int a - int c * int b" "int b"] by simp
  also have "- (int a - int c * int b) = int c * int b + - int a" by simp
  also have "(int c * int b + - int a) div int b = int c + - int a div int b"
    using assms by (subst div_mult_self3) simp_all
  finally have "\<lceil>real_of_int (int a - int c * int b) / real b\<rceil> = - (- int a div int b) - int c" by simp
  moreover have "- (- int a div int b) = int (ceil_div a b)"
    using cdiv_nat [OF assms, of a] assms by (simp add: cdiv_def div_minus_right)
  ultimately show ?thesis by simp
qed

text \<open>Chunks: full ones, then at most one shorter one.\<close>

lemma chunk_list_split:
  assumes "0 < n"
  shows "\<exists>fs t. chunk_list xs n = fs @ (if t = [] then [] else [t]) \<and> (\<forall>f \<in> set fs. length f = n)
    \<and> length t < n \<and> xs = concat fs @ t"
  using assms
proof (induction xs n rule: chunk_list.induct)
  case (1 xs n)
  show ?case
  proof (cases "length xs < n")
    case True
    then have "chunk_list xs n = (if xs = [] then [] else [xs])"
      using 1(2) by (simp add: chunk_list.simps [of xs n])
    then show ?thesis using True by (intro exI [of _ "[]"] exI [of _ xs]) auto
  next
    case False
    then have x: "chunk_list xs n = take n xs # chunk_list (drop n xs) n" "xs \<noteq> []"
      using 1(2) by (auto simp: chunk_list.simps [of xs n])
    then obtain fs t where "chunk_list (drop n xs) n = fs @ (if t = [] then [] else [t])" "\<forall>f \<in> set fs. length f = n"
      "length t < n" "drop n xs = concat fs @ t" using 1 by auto
    then show ?thesis using x False
      by (intro exI [of _ "take n xs # fs"] exI [of _ t]) (auto, metis append_take_drop_id)
  qed
qed

lemma length_chunk_list:
  assumes "0 < n" shows "length (chunk_list xs n) = ceil_div (length xs) n"
proof -
  from chunk_list_split [OF assms] obtain fs t where c: "chunk_list xs n = fs @ (if t = [] then [] else [t])"
    "\<forall>f \<in> set fs. length f = n" "length t < n" "xs = concat fs @ t" by blast
  have "length (concat fs) = length fs * n" using c(2) by (induction fs) auto
  then have "ceil_div (length xs) n = length fs + ceil_div (length t) n"
    using ceil_div_mult_add [OF assms] c(4) by simp
  moreover have "ceil_div (length t) n = (if t = [] then 0 else 1)"
    using c(3) assms ceil_div_small [of "length t" n] by auto
  ultimately show ?thesis using c(1) by auto
qed

subsection \<open>Filled blocks\<close>

text \<open>\<open>n\<close> tokens in the blocks \<open>bs\<close>, from the first block on.\<close>

definition filled :: "heap \<Rightarrow> nat \<Rightarrow> nat list \<Rightarrow> nat \<Rightarrow> bool" where
  "filled h sz bs n \<longleftrightarrow> n \<le> length bs * sz
     \<and> (\<forall>k < length bs. length (bl_tokens (h ! (bs ! k))) = min sz (n - k * sz))"

lemma filled_cong:
  assumes "\<And>a. a \<in> set bs \<Longrightarrow> bl_tokens (h' ! a) = bl_tokens (h ! a)"
  shows "filled h' sz bs n = filled h sz bs n"
  using assms by (auto simp: filled_def)

lemma toks_of_cong: "(\<And>a. a \<in> set bs \<Longrightarrow> bl_tokens (h' ! a) = bl_tokens (h ! a)) \<Longrightarrow> toks_of h' bs = toks_of h bs"
  unfolding toks_of_def by (rule arg_cong [where f = concat], rule map_cong) auto

lemma length_toks_of: "length (toks_of h bs) = sum_list (map (\<lambda>a. length (bl_tokens (h ! a))) bs)"
  by (induction bs) simp_all

lemma map_upt_nth: "map (\<lambda>k. f (xs ! k)) [0..<length xs] = map f xs"
  by (rule nth_equalityI) simp_all

lemma filled_length: "filled h sz bs n \<Longrightarrow> length (toks_of h bs) = n"
proof -
  assume f: "filled h sz bs n"
  have "sum_list (map (\<lambda>k. length (bl_tokens (h ! (bs ! k)))) [0..<m]) = min (m * sz) n" if "m \<le> length bs" for m
    using that
  proof (induction m)
    case (Suc m)
    then have "length (bl_tokens (h ! (bs ! m))) = min sz (n - m * sz)" using f by (simp add: filled_def)
    with Suc show ?case by auto
  qed simp
  from this [OF order_refl] f have "sum_list (map (\<lambda>k. length (bl_tokens (h ! (bs ! k)))) [0..<length bs]) = n"
    by (simp add: filled_def min.absorb2)
  then show ?thesis using map_upt_nth [of "\<lambda>a. length (bl_tokens (h ! a))" bs] by (simp only: length_toks_of)
qed

lemma filled_append_empty:
  assumes "filled h sz bs n" and "\<forall>a \<in> set news. bl_tokens (h ! a) = []"
  shows "filled h sz (bs @ news) n"
  unfolding filled_def
proof (intro conjI allI impI)
  show "n \<le> length (bs @ news) * sz" using assms(1) by (simp add: filled_def distrib_right)
  fix k assume k: "k < length (bs @ news)"
  show "length (bl_tokens (h ! ((bs @ news) ! k))) = min sz (n - k * sz)"
  proof (cases "k < length bs")
    case True
    then show ?thesis using assms(1) by (simp add: filled_def nth_append)
  next
    case False
    then have "length bs * sz \<le> k * sz" by simp
    then have "n - k * sz = 0" using assms(1) unfolding filled_def by linarith
    moreover have "(bs @ news) ! k \<in> set news" using False k by (simp add: nth_append)
    ultimately show ?thesis using assms(2) by simp
  qed
qed

text \<open>Filling the block that is next.\<close>

lemma filled_next:
  assumes f: "filled h sz bs n" and sz: "0 < sz" and i: "n div sz < length bs" and c: "length c \<le> sz - n mod sz"
    and d: "distinct bs" and new: "bl_tokens (h' ! (bs ! (n div sz))) = bl_tokens (h ! (bs ! (n div sz))) @ c"
    and old: "\<And>a. a \<in> set bs \<Longrightarrow> a \<noteq> bs ! (n div sz) \<Longrightarrow> bl_tokens (h' ! a) = bl_tokens (h ! a)"
  shows "filled h' sz bs (n + length c) \<and> toks_of h' bs = toks_of h bs @ c"
proof -
  let ?i = "n div sz"
  have n: "n = ?i * sz + n mod sz" by simp
  have lt: "n mod sz < sz" using sz by simp
  have len: "length (bl_tokens (h ! (bs ! k))) = min sz (n - k * sz)" if "k < length bs" for k
    using f that by (simp add: filled_def)
  have len_i: "length (bl_tokens (h ! (bs ! ?i))) = n mod sz"
    using len [OF i] n lt by (metis add_diff_cancel_left' min.absorb2 nat_less_le)
  have empty: "bl_tokens (h ! (bs ! k)) = []" if "?i < k" "k < length bs" for k
  proof -
    have "?i * sz + sz \<le> k * sz" using that(1) mult_le_mono1 [of "Suc ?i" k sz] by simp
    then have "n \<le> k * sz" using n lt by linarith
    then show ?thesis using len [OF that(2)] by simp
  qed
  have eq: "bl_tokens (h' ! (bs ! k)) = bl_tokens (h ! (bs ! k))" if "k < length bs" "k \<noteq> ?i" for k
    using that i d by (intro old) (auto simp: nth_eq_iff_index_eq)
  have "filled h' sz bs (n + length c)"
    unfolding filled_def
  proof (intro conjI allI impI)
    have "?i * sz + sz \<le> length bs * sz" using i mult_le_mono1 [of "Suc ?i" "length bs" sz] by simp
    then show "n + length c \<le> length bs * sz" using n c lt by linarith
    fix k assume k: "k < length bs"
    consider "k < ?i" | "k = ?i" | "?i < k" by linarith
    then show "length (bl_tokens (h' ! (bs ! k))) = min sz (n + length c - k * sz)"
    proof cases
      case 1
      then have "k * sz + sz \<le> ?i * sz" using mult_le_mono1 [of "Suc k" ?i sz] by simp
      then have "k * sz + sz \<le> n" using n by linarith
      then show ?thesis using len [OF k] eq [OF k] 1 by simp
    next
      case 2
      have "n + length c - k * sz = n mod sz + length c" unfolding 2 using n by linarith
      then show ?thesis using 2 new len_i c lt by simp
    next
      case 3
      then have "?i * sz + sz \<le> k * sz" using mult_le_mono1 [of "Suc ?i" k sz] by simp
      then have "n + length c \<le> k * sz" using n c lt by linarith
      then show ?thesis using eq [OF k] empty [OF 3 k] 3 by simp
    qed
  qed
  moreover have "toks_of h' bs = toks_of h bs @ c"
  proof -
    have b: "bs = take ?i bs @ [bs ! ?i] @ drop (Suc ?i) bs" using i by (simp add: id_take_nth_drop)
    have 1: "toks_of h' (take ?i bs) = toks_of h (take ?i bs)"
      by (rule toks_of_cong) (auto simp: in_set_conv_nth intro!: eq)
    have 2: "toks_of h' (drop (Suc ?i) bs) = toks_of h (drop (Suc ?i) bs)"
      by (rule toks_of_cong) (auto simp: in_set_conv_nth intro!: eq)
    have 3: "toks_of h (drop (Suc ?i) bs) = []"
      using i by (auto simp: toks_of_def in_set_conv_nth intro!: empty)
    show ?thesis by (subst b, subst (2) b) (simp add: 1 2 3 new del: append_take_drop_id)
  qed
  ultimately show ?thesis ..
qed

subsection \<open>Tables\<close>

definition tbl :: "heap \<Rightarrow> nat \<Rightarrow> block_table \<Rightarrow> nat \<Rightarrow> bool" where
  "tbl h sz T n \<longleftrightarrow> bt_block_size T = sz \<and> bt_window T = None \<and> distinct (ls_blocks (bt_blocks T))
     \<and> linked h None (ls_blocks (bt_blocks T))
     \<and> ls_ids (bt_blocks T) = map (\<lambda>a. the (bl_id (h ! a))) (ls_blocks (bt_blocks T))
     \<and> filled h sz (ls_blocks (bt_blocks T)) n"

definition table_ok :: "heap \<Rightarrow> nat \<Rightarrow> block_table \<Rightarrow> bool" where
  "table_ok h sz T \<longleftrightarrow> tbl h sz T (bt_num_full_slots T)"

definition blocks_of :: "block_table \<Rightarrow> nat list" where
  "blocks_of T = ls_blocks (bt_blocks T)"

lemma tbl_cong:
  assumes "\<And>a. a \<in> set (blocks_of T) \<Longrightarrow> h' ! a = h ! a"
  shows "tbl h' sz T n = tbl h sz T n"
proof -
  have "linked h' None (blocks_of T) = linked h None (blocks_of T)" by (rule linked_cong) (simp add: assms)
  moreover have "filled h' sz (blocks_of T) n = filled h sz (blocks_of T) n" by (rule filled_cong) (simp add: assms)
  moreover have "map (\<lambda>a. the (bl_id (h' ! a))) (blocks_of T) = map (\<lambda>a. the (bl_id (h ! a))) (blocks_of T)"
    by (rule map_cong) (simp_all add: assms)
  ultimately show ?thesis unfolding tbl_def blocks_of_def by (simp only:)
qed

text \<open>\<open>a\<close> shares its id with another block of \<open>L\<close>.\<close>

definition shared :: "heap \<Rightarrow> nat set \<Rightarrow> nat \<Rightarrow> bool" where
  "shared h L a \<longleftrightarrow> (\<exists>x \<in> L - {a}. bl_id (h ! x) = bl_id (h ! a))"

lemma block_id_real: "real_class (bl_class (h ! a)) \<Longrightarrow> block_id h a = bl_id (h ! a)"
  by (auto simp: block_id_def resolve_def real_class_def)

lemma resolve_real: "real_class (bl_class (h ! a)) \<Longrightarrow> resolve h a = h ! a"
  by (auto simp: resolve_def real_class_def)

lemma ls_update_ok:
  assumes "\<forall>a \<in> set bs. real_class (bl_class (h ! a)) \<and> bl_id (h ! a) \<noteq> None"
  shows "ls_update h bs = Inr \<lparr>ls_blocks = bs, ls_ids = map (\<lambda>a. the (bl_id (h ! a))) bs\<rparr>"
proof -
  have "fold_r (\<lambda>a. ls_add_block_id (block_id h a)) bs \<lparr>ls_blocks = xs, ls_ids = is\<rparr>
      = Inr \<lparr>ls_blocks = xs, ls_ids = is @ map (\<lambda>a. the (bl_id (h ! a))) bs\<rparr>" for xs "is"
    using assms by (induction bs arbitrary: "is") (auto simp: ls_add_block_id_def block_id_real)
  then show ?thesis by (simp add: ls_update_def)
qed

end
