(* ===== verification/Table_Contract.thy ===== *)
theory Table_Contract
  imports Table_Lemmas
begin

text \<open>
  The contract between a block table and its allocator, as a locale: \<open>inv s L\<close> says that the
  blocks \<open>L\<close> are live on the GPU, \<open>room\<close> counts the ids that can still be given out there.
  The laws describe what each operation returns and when it succeeds; the lemmas about the
  table are proved once from them.
\<close>

locale block_allocator =
  fixes D :: "'x dev_allocator"
    and inv :: "heap \<times> 'x \<Rightarrow> nat set \<Rightarrow> bool"
    and room :: "'x \<Rightarrow> nat"
    and sz :: nat
  assumes live: "inv (h, x) L \<Longrightarrow> finite L \<and> 0 < sz \<and> (\<forall>a \<in> L. a < length h \<and> bl_id (h ! a) \<noteq> None
      \<and> real_class (bl_class (h ! a)) \<and> bl_size (h ! a) = sz \<and> length (bl_tokens (h ! a)) \<le> sz)"
    and mutable_ok: "inv (h, x) L \<Longrightarrow> da_mutable D p GPU (h, x) = Inr (a, h', x') \<Longrightarrow>
      inv (h', x') (insert a L) \<and> a \<notin> L \<and> agree {a} h h' \<and> bl_tokens (h' ! a) = []
      \<and> bl_prev (h' ! a) = p \<and> \<not> shared h' (insert a L) a \<and> room x = Suc (room x')"
    and mutable_total: "inv (h, x) L \<Longrightarrow> \<forall>q. p = Some q \<longrightarrow> q \<in> L \<Longrightarrow> 0 < room x
      \<Longrightarrow> \<exists>r. da_mutable D p GPU (h, x) = Inr r"
    and immutables_ok: "inv (h, x) L \<Longrightarrow> da_immutables D p tss GPU (h, x) = Inr (bs, h', x') \<Longrightarrow>
      inv (h', x') (L \<union> set bs) \<and> distinct bs \<and> set bs \<inter> L = {} \<and> agree (set bs) h h'
      \<and> map (\<lambda>a. bl_tokens (h' ! a)) bs = tss \<and> linked h' p bs \<and> room x = room x' + length tss"
    and immutables_total: "inv (h, x) L \<Longrightarrow> \<forall>t \<in> set tss. length t \<le> sz \<Longrightarrow> length tss \<le> room x
      \<Longrightarrow> \<forall>q. p = Some q \<longrightarrow> q \<in> L \<Longrightarrow> \<exists>r. da_immutables D p tss GPU (h, x) = Inr r"
    and append_ok: "inv (h, x) L \<Longrightarrow> a \<in> L \<Longrightarrow> da_append D a toks (h, x) = Inr (h', x') \<Longrightarrow>
      inv (h', x') L \<and> agree {a} h h' \<and> bl_tokens (h' ! a) = bl_tokens (h ! a) @ toks
      \<and> bl_prev (h' ! a) = bl_prev (h ! a) \<and> \<not> shared h' L a
      \<and> room x = room x' + (if shared h L a then 1 else 0)"
    and append_total: "inv (h, x) L \<Longrightarrow> a \<in> L \<Longrightarrow> length (bl_tokens (h ! a)) + length toks \<le> sz
      \<Longrightarrow> (shared h L a \<Longrightarrow> 0 < room x) \<Longrightarrow> \<exists>r. da_append D a toks (h, x) = Inr r"
    and free_ok: "inv (h, x) L \<Longrightarrow> a \<in> L \<Longrightarrow> da_free D a (h, x) = Inr (h', x') \<Longrightarrow>
      inv (h', x') (L - {a}) \<and> agree {a} h h'"
    and free_total: "inv (h, x) L \<Longrightarrow> a \<in> L \<Longrightarrow> \<exists>r. da_free D a (h, x) = Inr r"
    and fork_ok: "inv (h, x) L \<Longrightarrow> linked h None as \<Longrightarrow> as \<noteq> [] \<Longrightarrow> distinct as \<Longrightarrow> set as \<subseteq> L
      \<Longrightarrow> da_fork D (last as) (h, x) = Inr (fs, h', x') \<Longrightarrow>
      inv (h', x') (L \<union> set fs) \<and> distinct fs \<and> set fs \<inter> L = {} \<and> agree (set fs) h h' \<and> linked h' None fs
      \<and> map (\<lambda>a. (bl_tokens (h' ! a), bl_id (h' ! a))) fs = map (\<lambda>a. (bl_tokens (h ! a), bl_id (h ! a))) as
      \<and> room x' = room x"
    and fork_total: "inv (h, x) L \<Longrightarrow> linked h None as \<Longrightarrow> as \<noteq> [] \<Longrightarrow> distinct as \<Longrightarrow> set as \<subseteq> L
      \<Longrightarrow> \<exists>r. da_fork D (last as) (h, x) = Inr r"
begin

lemma old_same: "agree X h h' \<Longrightarrow> inv (h, x) L \<Longrightarrow> a \<in> L \<Longrightarrow> a \<notin> X \<Longrightarrow> h' ! a = h ! a"
  using live agreeD by blast

lemma ids_ok_update: "inv (h, x) L \<Longrightarrow> set bs \<subseteq> L \<Longrightarrow>
  ls_update h bs = Inr \<lparr>ls_blocks = bs, ls_ids = map (\<lambda>a. the (bl_id (h ! a))) bs\<rparr>"
  by (rule ls_update_ok) (use live in blast)

subsection \<open>Allocating for a prompt\<close>

lemma allocate_blocks_ok:
  assumes inv: "inv (h, x) L" and toks: "toks \<noteq> []"
    and run: "allocate_blocks_for_token_ids D sz None toks GPU (h, x) = Inr (bs, h', x')"
  shows "inv (h', x') (L \<union> set bs) \<and> distinct bs \<and> set bs \<inter> L = {} \<and> agree (set bs) h h' \<and> linked h' None bs
    \<and> toks_of h' bs = toks \<and> filled h' sz bs (length toks) \<and> room x = room x' + ceil_div (length toks) sz
    \<and> length bs = ceil_div (length toks) sz"
proof -
  have sz: "0 < sz" using live [OF inv] by blast
  obtain fs t where c: "chunk_list toks sz = fs @ (if t = [] then [] else [t])" "\<forall>f \<in> set fs. length f = sz"
    "length t < sz" "toks = concat fs @ t" using chunk_list_split [OF sz] by blast
  have fl: "filter (\<lambda>c. length c = sz) (chunk_list toks sz) = fs"
    "filter (\<lambda>c. length c \<noteq> sz) (chunk_list toks sz) = (if t = [] then [] else [t])"
    using c by (auto simp: filter_id_conv filter_empty_conv)
  have lf: "length (concat fs) = length fs * sz" using c(2) by (induction fs) auto
  have cd: "ceil_div (length toks) sz = length fs + (if t = [] then 0 else 1)"
    using c(1) length_chunk_list [OF sz, of toks] by (auto split: if_splits)
  from run obtain bs1 p1 h1 x1 where
    1: "(if fs \<noteq> [] then bind_r (da_immutables D None fs GPU (h, x)) (\<lambda>(bs, s1).
          if bs = [] then Inl IndexError else Inr (bs, Some (last bs), s1)) else Inr ([], None, (h, x)))
        = Inr (bs1, p1, h1, x1)"
    and 2: "(if t \<noteq> [] then bind_r (da_mutable D p1 GPU (h1, x1)) (\<lambda>(b, s2).
        bind_r (da_append D b t s2) (\<lambda>s3. Inr (bs1 @ [b], s3))) else Inr (bs1, h1, x1)) = Inr (bs, h', x')"
    using sz by (auto simp: allocate_blocks_for_token_ids_def chunk_list_r_def Let_def fl split: if_splits)
  have q: "inv (h1, x1) (L \<union> set bs1) \<and> distinct bs1 \<and> set bs1 \<inter> L = {} \<and> agree (set bs1) h h1
      \<and> map (\<lambda>a. bl_tokens (h1 ! a)) bs1 = fs \<and> linked h1 None bs1 \<and> room x = room x1 + length fs
      \<and> p1 = (if bs1 = [] then None else Some (last bs1))"
  proof (cases "fs = []")
    case True
    with 1 inv show ?thesis by simp
  next
    case False
    with 1 have "da_immutables D None fs GPU (h, x) = Inr (bs1, h1, x1)" "bs1 \<noteq> []" "p1 = Some (last bs1)"
      by (auto split: if_splits)
    with immutables_ok [OF inv this(1)] show ?thesis by simp
  qed
  have lb: "length bs1 = length fs" using q by (metis length_map)
  have nth1: "bl_tokens (h1 ! (bs1 ! k)) = fs ! k" if "k < length fs" for k
    using q that by (metis length_map nth_map)
  have f1: "filled h1 sz bs1 (length fs * sz)"
    unfolding filled_def
  proof (intro conjI allI impI)
    show "length fs * sz \<le> length bs1 * sz" using lb by simp
    fix k assume k: "k < length bs1"
    then have "sz \<le> (length fs - k) * sz" using lb by (simp add: Suc_le_eq)
    then have "min sz (length fs * sz - k * sz) = sz" by (simp add: diff_mult_distrib)
    then show "length (bl_tokens (h1 ! (bs1 ! k))) = min sz (length fs * sz - k * sz)"
      using nth1 k lb c(2) by simp
  qed
  show ?thesis
  proof (cases "t = []")
    case True
    then have "bs = bs1" "h' = h1" "x' = x1" using 2 by simp_all
    moreover have "toks_of h1 bs1 = toks" using q c(4) True by (simp add: toks_of_def)
    ultimately show ?thesis using q f1 lf c(4) True cd lb by simp
  next
    case False
    with 2 obtain b h2 x2 where m: "da_mutable D p1 GPU (h1, x1) = Inr (b, h2, x2)"
      and ap: "da_append D b t (h2, x2) = Inr (h', x')" and bs: "bs = bs1 @ [b]" by auto
    have inv1: "inv (h1, x1) (L \<union> set bs1)" using q by blast
    note m1 = mutable_ok [OF inv1 m]
    have inv2: "inv (h2, x2) (insert b (L \<union> set bs1))" using m1 by blast
    note a1 = append_ok [OF inv2 insertI1 ap]
    have u: "L \<union> set bs = insert b (L \<union> set bs1)" by (auto simp: bs)
    have ag: "agree {b} h1 h'" using agree_trans m1 a1 by blast
    have old: "h' ! a = h1 ! a" if "a \<in> set bs1" for a
      using old_same [OF ag inv1, of a] that m1 by auto
    have "agree (set bs) h h1" "agree (set bs) h1 h'"
      using q ag agree_mono [of "set bs1" h h1 "set bs"] agree_mono [of "{b}" h1 h' "set bs"] by (auto simp: bs)
    then have "agree (set bs) h h'" by (rule agree_trans)
    moreover have "linked h' None bs"
    proof -
      have "linked h' None bs1" using q linked_cong [of bs1 h' h1 None] old by simp
      moreover have "bl_prev (h' ! b) = p1" using a1 m1 by simp
      ultimately show ?thesis using q by (auto simp: bs linked_append)
    qed
    moreover have "filled h' sz bs (length toks) \<and> toks_of h' bs = toks"
    proof -
      have tb: "bl_tokens (h' ! b) = t" using a1 m1 by simp
      have f1': "filled h' sz bs1 (length fs * sz)" using f1 filled_cong [of bs1 h' h1] old by simp
      have "map (\<lambda>a. bl_tokens (h' ! a)) bs1 = map (\<lambda>a. bl_tokens (h1 ! a)) bs1"
        by (rule map_cong) (simp_all add: old)
      then have tk: "toks_of h' bs1 = concat fs" using q by (simp add: toks_of_def)
      have n: "length toks = length fs * sz + length t" using c(4) lf by simp
      have "filled h' sz bs (length toks)"
        unfolding filled_def
      proof (intro conjI allI impI)
        show "length toks \<le> length bs * sz" using n c(3) lb by (simp add: bs)
        fix k assume k: "k < length bs"
        show "length (bl_tokens (h' ! (bs ! k))) = min sz (length toks - k * sz)"
        proof (cases "k < length bs1")
          case True
          then have "length (bl_tokens (h' ! (bs ! k))) = min sz (length fs * sz - k * sz)"
            using f1' by (simp add: filled_def bs nth_append)
          moreover have "sz \<le> length fs * sz - k * sz"
            using True lb mult_le_mono1 [of "Suc k" "length fs" sz] by simp
          ultimately show ?thesis using n by simp
        next
          case False
          then have "k = length fs" using k lb by (simp add: bs)
          then show ?thesis using n tb c(3) lb by (simp add: bs nth_append)
        qed
      qed
      with tk tb c(4) show ?thesis by (simp add: bs)
    qed
    ultimately show ?thesis using q m1 a1 u cd False lb by (auto simp: bs)
  qed
qed

lemma allocate_blocks_total:
  assumes inv: "inv (h, x) L" and rm: "ceil_div (length toks) sz \<le> room x"
  shows "\<exists>r. allocate_blocks_for_token_ids D sz None toks GPU (h, x) = Inr r"
proof -
  have sz: "0 < sz" using live [OF inv] by blast
  obtain fs t where c: "chunk_list toks sz = fs @ (if t = [] then [] else [t])" "\<forall>f \<in> set fs. length f = sz"
    "length t < sz" "toks = concat fs @ t" using chunk_list_split [OF sz] by blast
  have fl: "filter (\<lambda>c. length c = sz) (chunk_list toks sz) = fs"
    "filter (\<lambda>c. length c \<noteq> sz) (chunk_list toks sz) = (if t = [] then [] else [t])"
    using c by (auto simp: filter_id_conv filter_empty_conv)
  have cd: "ceil_div (length toks) sz = length fs + (if t = [] then 0 else 1)"
    using c(1) length_chunk_list [OF sz, of toks] by (auto split: if_splits)
  have "\<exists>bs1 p1 h1 x1. (if fs \<noteq> [] then bind_r (da_immutables D None fs GPU (h, x)) (\<lambda>(bs, s1).
          if bs = [] then Inl IndexError else Inr (bs, Some (last bs), s1)) else Inr ([], None, (h, x)))
        = Inr (bs1, p1, h1, x1) \<and> inv (h1, x1) (L \<union> set bs1) \<and> (\<forall>q. p1 = Some q \<longrightarrow> q \<in> L \<union> set bs1)
        \<and> room x = room x1 + length fs"
  proof (cases "fs = []")
    case False
    obtain bs1 h1 x1 where m: "da_immutables D None fs GPU (h, x) = Inr (bs1, h1, x1)"
      using immutables_total [OF inv, of fs None] c(2) rm cd by auto
    from immutables_ok [OF inv m] False have "bs1 \<noteq> []" "inv (h1, x1) (L \<union> set bs1)" "room x = room x1 + length fs" by auto
    with m False show ?thesis by simp
  qed (use inv in simp)
  then obtain bs1 p1 h1 x1 where
    1: "(if fs \<noteq> [] then bind_r (da_immutables D None fs GPU (h, x)) (\<lambda>(bs, s1).
          if bs = [] then Inl IndexError else Inr (bs, Some (last bs), s1)) else Inr ([], None, (h, x)))
        = Inr (bs1, p1, h1, x1)" "inv (h1, x1) (L \<union> set bs1)" "\<forall>q. p1 = Some q \<longrightarrow> q \<in> L \<union> set bs1"
      "room x = room x1 + length fs" by blast
  show ?thesis
  proof (cases "t = []")
    case True
    with 1(1) sz show ?thesis
      by (cases "fs = []") (simp_all add: allocate_blocks_for_token_ids_def chunk_list_r_def Let_def fl)
  next
    case False
    obtain b h2 x2 where m: "da_mutable D p1 GPU (h1, x1) = Inr (b, h2, x2)"
      using mutable_total [OF 1(2,3)] 1(4) rm cd False by auto
    note m1 = mutable_ok [OF 1(2) m]
    have i2: "inv (h2, x2) (insert b (L \<union> set bs1))" using m1 by blast
    have "\<exists>r. da_append D b t (h2, x2) = Inr r"
      by (rule append_total [OF i2]) (use m1 c(3) in auto)
    with 1(1) m sz False show ?thesis
      by (cases "fs = []") (auto simp: allocate_blocks_for_token_ids_def chunk_list_r_def Let_def fl)
  qed
qed

end

text \<open>
  Appending to a block table under the contract of the allocator: the slots that are added, the
  chunks that are written, and the number of blocks that the scheduler reckons with.
\<close>

definition touched :: "block_table \<Rightarrow> nat \<Rightarrow> nat" where
  "touched T n = ceil_div (bt_num_full_slots T + n) (bt_block_size T)
     - bt_num_full_slots T div bt_block_size T"

lemma touched_eq:
  assumes sz: "0 < bt_block_size T"
  shows "get_num_blocks_touched_by_append_slots T toks la = Inr (int (touched T (length toks + la)))"
proof -
  let ?b = "bt_block_size T" and ?f = "bt_num_full_slots T" and ?n = "length toks + la"
  let ?i = "?f div ?b"
  have f: "?f = ?i * ?b + ?f mod ?b" by simp
  have "int ?f = int ?i * int ?b + int ?f mod int ?b" by (metis f of_nat_add of_nat_mult of_nat_mod)
  then have eq: "int ?n - (int ?b - int ?f mod int ?b) = int (?f + ?n) - int (Suc ?i) * int ?b"
    by (simp add: algebra_simps)
  have "1 + \<lceil>real_of_int (int ?n - (int ?b - int ?f mod int ?b)) / real ?b\<rceil>
    = 1 + (int (ceil_div (?f + ?n) ?b) - int (Suc ?i))" unfolding eq ceiling_nat [OF sz] ..
  also have "\<dots> = int (touched T ?n)"
  proof -
    have "?i = ceil_div (?i * ?b) ?b" using ceil_div_mult_add [OF sz, of ?i 0] sz by simp
    also have "\<dots> \<le> ceil_div (?f + ?n) ?b" using f by (intro ceil_div_mono [OF sz]) linarith
    finally show ?thesis by (simp add: touched_def)
  qed
  finally show ?thesis using sz by (simp add: get_num_blocks_touched_by_append_slots_def Let_def)
qed

text \<open>Chunks that fit the blocks from slot \<open>n\<close> on.\<close>

fun chunks_fit :: "nat \<Rightarrow> nat \<Rightarrow> int list list \<Rightarrow> bool" where
  "chunks_fit sz n [] = True"
| "chunks_fit sz n (c # cs) = (c \<noteq> [] \<and> length c \<le> sz - n mod sz
     \<and> (cs \<noteq> [] \<longrightarrow> length c = sz - n mod sz) \<and> chunks_fit sz (n + length c) cs)"

lemma chunks_fit_chunk_list: "0 < sz \<Longrightarrow> n mod sz = 0 \<Longrightarrow> chunks_fit sz n (chunk_list xs sz)"
proof (induction xs sz arbitrary: n rule: chunk_list.induct)
  case (1 xs sz)
  show ?case
  proof (cases "xs = []")
    case False
    have c: "chunk_list xs sz = take sz xs # chunk_list (drop sz xs) sz"
      using False 1(2) by (simp add: chunk_list.simps [of xs sz])
    show ?thesis
    proof (cases "length xs \<le> sz")
      case True
      then show ?thesis unfolding c using False 1 by simp
    next
      case long: False
      then have "(n + length (take sz xs)) mod sz = 0" using 1(3) by simp
      then have "chunks_fit sz (n + length (take sz xs)) (chunk_list (drop sz xs) sz)"
        by (intro 1(1)) (use False 1(2) in auto)
      then show ?thesis unfolding c using False long 1(2,3) by simp
    qed
  qed simp
qed

lemma chunks_for_append:
  assumes sz: "0 < bt_block_size T" and run: "chunk_token_blocks_for_append T toks = Inr cs"
  shows "chunks_fit (bt_block_size T) (bt_num_full_slots T) cs \<and> concat cs = toks
    \<and> length cs = (if toks = [] then 0
        else ceil_div (bt_num_full_slots T mod bt_block_size T + length toks) (bt_block_size T))"
proof (cases "toks = []")
  case True
  with run show ?thesis by (simp add: chunk_token_blocks_for_append_def)
next
  case False
  let ?b = "bt_block_size T" and ?f = "bt_num_full_slots T"
  let ?c = "?b - ?f mod ?b"
  have cs: "cs = take ?c toks # chunk_list (drop ?c toks) ?b"
    using run sz False by (simp add: chunk_token_blocks_for_append_def chunk_list_r_def Let_def)
  have lt: "?f mod ?b < ?b" using sz by simp
  have fit: "chunks_fit ?b (?f + length (take ?c toks)) (chunk_list (drop ?c toks) ?b)"
  proof (cases "length toks \<le> ?c")
    case False
    have "(?f + ?c) mod ?b = 0"
    proof -
      have "?f + ?c = ?b * (?f div ?b) + ?b" using lt mult_div_mod_eq [of ?b ?f] by linarith
      then show ?thesis by simp
    qed
    with False show ?thesis using chunks_fit_chunk_list [OF sz] by simp
  qed simp
  have len: "length cs = ceil_div (?f mod ?b + length toks) ?b"
  proof (cases "length toks \<le> ?c")
    case True
    have "?f mod ?b + length toks \<le> ?b" using True lt by linarith
    then show ?thesis using True False ceil_div_small [of "?f mod ?b + length toks" ?b] by (simp add: cs)
  next
    case False
    then have "?f mod ?b + length toks = 1 * ?b + length (drop ?c toks)" using lt by simp
    then have "ceil_div (?f mod ?b + length toks) ?b = 1 + ceil_div (length (drop ?c toks)) ?b"
      using ceil_div_mult_add [OF sz, of 1] by metis
    then show ?thesis using length_chunk_list [OF sz, of "drop ?c toks"] by (simp add: cs)
  qed
  have "concat cs = toks" using concat_chunk_list [OF sz, of "drop ?c toks"] by (simp add: cs)
  moreover have "chunks_fit ?b ?f cs"
    using fit False lt by (cases "length toks \<le> ?c") (auto simp: cs)
  ultimately show ?thesis using len False by simp
qed

lemma chunks_total:
  "0 < bt_block_size T \<Longrightarrow> \<exists>cs. chunk_token_blocks_for_append T toks = Inr cs"
  by (simp add: chunk_token_blocks_for_append_def chunk_list_r_def Let_def)

text \<open>The numbers: new blocks and old blocks that may have to be copied.\<close>

lemma touched_covers:
  fixes f n la sz len :: nat
  assumes sz: "0 < sz" and le: "f \<le> len * sz"
  shows "(ceil_div (f + n + la) sz - len)
      + min (if n = 0 then 0 else ceil_div (f mod sz + n) sz) (len - f div sz)
    \<le> ceil_div (f + n + la) sz - f div sz"
proof -
  have f: "f = f div sz * sz + f mod sz" by simp
  have i: "f div sz \<le> len" using le sz by (metis div_le_mono nonzero_mult_div_cancel_right less_numeral_extra(3))
  have Q: "ceil_div (f + n + la) sz = f div sz + ceil_div (f mod sz + n + la) sz"
  proof -
    have "f + n + la = f div sz * sz + (f mod sz + n + la)" using f by linarith
    then show ?thesis using ceil_div_mult_add [OF sz] by metis
  qed
  have "ceil_div (f mod sz + n) sz \<le> ceil_div (f mod sz + n + la) sz" by (rule ceil_div_mono [OF sz]) simp
  with Q i show ?thesis by (cases "n = 0") auto
qed

end
