(* ===== verification/Table_Ops.thy ===== *)
theory Table_Ops
  imports Table_Contract
begin

text \<open>The operations of a block table under the contract of its allocator.\<close>

lemma ensure_unfold:
  assumes sz: "bt_block_size T = sz" "0 < sz" and f: "bt_num_full_slots T \<le> bt_len T * sz" and al: "is_allocated T"
  shows "ensure_num_empty_slots D (int n) (s, T)
    = fold_r (add_block D) [0..<ceil_div (bt_num_full_slots T + n) sz - bt_len T] (s, T)"
proof (cases "bt_num_full_slots T + n \<le> bt_len T * sz")
  case True
  then have "ceil_div (bt_num_full_slots T + n) sz \<le> bt_len T" using ceil_div_le_iff [OF sz(2)] by simp
  moreover have "int n \<le> int (bt_len T * sz) - int (bt_num_full_slots T)" using True by linarith
  ultimately show ?thesis using al sz by (simp add: ensure_num_empty_slots_def bt_num_empty_slots_def)
next
  case False
  let ?m = "bt_num_full_slots T + n - bt_len T * sz"
  have m: "bt_num_full_slots T + n = bt_len T * sz + ?m" using False by simp
  have "int n - (int (bt_len T * sz) - int (bt_num_full_slots T)) = int ?m" using False by linarith
  then have c: "cdiv (int n - (int (bt_len T * sz) - int (bt_num_full_slots T))) (int sz) = Inr (int (ceil_div ?m sz))"
    using cdiv_nat [OF sz(2)] by simp
  have "ceil_div (bt_num_full_slots T + n) sz - bt_len T = ceil_div ?m sz"
    using ceil_div_mult_add [OF sz(2), of "bt_len T" ?m] m by simp
  moreover have "\<not> int n \<le> int (bt_len T * sz) - int (bt_num_full_slots T)" using False by linarith
  ultimately show ?thesis using al sz c by (simp add: ensure_num_empty_slots_def bt_num_empty_slots_def)
qed

lemma ls_ids_set: "ls_ids (bt_blocks T) = map f (blocks_of T) \<Longrightarrow> length (ls_ids (bt_blocks T)) = length (blocks_of T)"
  by simp

text \<open>One id of a table changes with its block.\<close>

lemma tbl_after_append:
  assumes t: "tbl h sz T n" and sz: "0 < sz" and i: "n div sz < length (blocks_of T)" and b: "b = blocks_of T ! (n div sz)"
    and c: "length c \<le> sz - n mod sz" and ag: "\<And>a. a \<in> set (blocks_of T) \<Longrightarrow> a \<noteq> b \<Longrightarrow> h' ! a = h ! a"
    and new: "bl_tokens (h' ! b) = bl_tokens (h ! b) @ c" "bl_prev (h' ! b) = bl_prev (h ! b)"
    and T': "T' = T\<lparr>bt_blocks := l\<rparr>" "ls_blocks l = blocks_of T"
      "ls_ids l = (ls_ids (bt_blocks T))[n div sz := the (bl_id (h' ! b))]"
  shows "tbl h' sz T' (n + length c) \<and> toks_of h' (blocks_of T) = toks_of h (blocks_of T) @ c"
proof -
  have d: "distinct (blocks_of T)" "filled h sz (blocks_of T) n" "linked h None (blocks_of T)"
    "ls_ids (bt_blocks T) = map (\<lambda>a. the (bl_id (h ! a))) (blocks_of T)"
    using t by (simp_all add: tbl_def blocks_of_def)
  have f: "filled h' sz (blocks_of T) (n + length c) \<and> toks_of h' (blocks_of T) = toks_of h (blocks_of T) @ c"
    by (rule filled_next [OF d(2) sz i c d(1)]) (use new ag b in auto)
  have "linked h' None (blocks_of T) = linked h None (blocks_of T)"
    by (rule linked_cong) (use new(2) ag in metis)
  moreover have "ls_ids l = map (\<lambda>a. the (bl_id (h' ! a))) (blocks_of T)"
  proof (rule nth_equalityI)
    show "length (ls_ids l) = length (map (\<lambda>a. the (bl_id (h' ! a))) (blocks_of T))" by (simp add: T' d(4))
    fix k assume "k < length (ls_ids l)"
    then have k: "k < length (blocks_of T)" by (simp add: T' d(4))
    show "ls_ids l ! k = map (\<lambda>a. the (bl_id (h' ! a))) (blocks_of T) ! k"
    proof (cases "k = n div sz")
      case True
      then show ?thesis using k by (simp add: T' d(4) b)
    next
      case False
      then have "h' ! (blocks_of T ! k) = h ! (blocks_of T ! k)"
        using k i d(1) b by (intro ag) (auto simp: nth_eq_iff_index_eq)
      then show ?thesis using False k by (simp add: T' d(4))
    qed
  qed
  ultimately show ?thesis using t f d T' by (simp add: tbl_def blocks_of_def)
qed

context block_allocator
begin

lemma inv_sz: "inv (h, x) L \<Longrightarrow> 0 < sz"
  using live by blast

lemma live_block:
  assumes "inv (h, x) L" and "a \<in> L"
  shows "a < length h" "block_id h a = bl_id (h ! a)" "bl_id (h ! a) \<noteq> None" "resolve h a = h ! a"
    "length (bl_tokens (h ! a)) \<le> sz"
  using live [OF assms(1)] assms(2) block_id_real resolve_real by blast+

subsection \<open>New blocks\<close>

lemma unshared_insert:
  assumes "\<not> shared h L b" and "b \<in> L" and "c \<notin> L" and "\<And>a. a \<in> L \<Longrightarrow> h' ! a = h ! a"
    and "\<not> shared h' (insert c L) c"
  shows "\<not> shared h' (insert c L) b"
proof
  assume "shared h' (insert c L) b"
  then obtain y where y: "y \<in> insert c L - {b}" "bl_id (h' ! y) = bl_id (h' ! b)" by (auto simp: shared_def)
  show False
  proof (cases "y = c")
    case True
    then have "b \<in> insert c L - {c}" "bl_id (h' ! b) = bl_id (h' ! c)" using y assms(2,3) by auto
    then show False using assms(5) unfolding shared_def by blast
  next
    case False
    then show False using y assms(1,2,4) by (auto simp: shared_def)
  qed
qed

lemma add_block_ok:
  assumes inv: "inv (h, x) L" and bs: "set (blocks_of T) \<subseteq> L" and t: "tbl h sz T n"
    and run: "add_block D k ((h, x), T) = Inr ((h', x'), T')"
  shows "\<exists>b. blocks_of T' = blocks_of T @ [b] \<and> T' = T\<lparr>bt_blocks := bt_blocks T'\<rparr>
    \<and> inv (h', x') (insert b L) \<and> b \<notin> L \<and> agree {b} h h' \<and> tbl h' sz T' n \<and> bl_tokens (h' ! b) = []
    \<and> \<not> shared h' (insert b L) b \<and> room x = Suc (room x')"
proof -
  from run obtain b l where ne: "blocks_of T \<noteq> []" and m: "da_mutable D (Some (last (blocks_of T))) GPU (h, x) = Inr (b, h', x')"
    and l: "ls_append h' b (bt_blocks T) = Inr l" and T': "T' = T\<lparr>bt_blocks := l\<rparr>"
    by (auto simp: add_block_def bt_len_def blocks_of_def)
  note q = mutable_ok [OF inv m]
  have invb: "inv (h', x') (insert b L)" using q by blast
  note lb = live_block [OF invb insertI1]
  have l': "l = \<lparr>ls_blocks = blocks_of T @ [b], ls_ids = ls_ids (bt_blocks T) @ [the (bl_id (h' ! b))]\<rparr>"
    using l lb(2,3) by (auto simp: ls_append_def ls_add_block_id_def blocks_of_def)
  have old: "h' ! a = h ! a" if "a \<in> L" for a
    using old_same [of "{b}" h h', OF _ inv that] q that by blast
  have oldb: "h' ! a = h ! a" if "a \<in> set (blocks_of T)" for a using old bs that by blast
  have th: "tbl h' sz T n" using t tbl_cong [of T h' h] oldb by blast
  have "filled h' sz (blocks_of T @ [b]) n"
    using th q by (intro filled_append_empty) (simp_all add: tbl_def blocks_of_def)
  moreover have "linked h' None (blocks_of T @ [b])"
    using th q ne by (simp add: linked_append tbl_def blocks_of_def)
  moreover have "distinct (blocks_of T @ [b])" using th q bs by (auto simp: tbl_def blocks_of_def)
  moreover have "ls_ids (bt_blocks T) = map (\<lambda>a. the (bl_id (h' ! a))) (blocks_of T)"
    "bt_block_size T = sz" "bt_window T = None" using th by (simp_all add: tbl_def blocks_of_def)
  ultimately have "tbl h' sz T' n" by (simp add: tbl_def T' l')
  then show ?thesis using q by (intro exI [of _ b]) (simp add: T' l' blocks_of_def)
qed

lemma add_blocks_ok:
  assumes "inv (h, x) L" and "set (blocks_of T) \<subseteq> L" and "tbl h sz T n"
    and "fold_r (add_block D) ks ((h, x), T) = Inr ((h', x'), T')"
  shows "\<exists>news. blocks_of T' = blocks_of T @ news \<and> length news = length ks \<and> T' = T\<lparr>bt_blocks := bt_blocks T'\<rparr>
    \<and> inv (h', x') (L \<union> set news) \<and> set news \<inter> L = {} \<and> agree (set news) h h' \<and> tbl h' sz T' n
    \<and> toks_of h' (blocks_of T') = toks_of h (blocks_of T) \<and> room x = room x' + length ks
    \<and> (\<forall>b \<in> set news. \<not> shared h' (L \<union> set news) b)
    \<and> (\<forall>b \<in> L. \<not> shared h L b \<longrightarrow> \<not> shared h' (L \<union> set news) b)"
  using assms
proof (induction ks arbitrary: h x L T)
  case Nil
  then show ?case by (intro exI [of _ "[]"]) simp
next
  case (Cons k ks)
  from Cons.prems(4) obtain h1 x1 T1 where a: "add_block D k ((h, x), T) = Inr ((h1, x1), T1)"
    and r: "fold_r (add_block D) ks ((h1, x1), T1) = Inr ((h', x'), T')" by auto
  from add_block_ok [OF Cons.prems(1-3) a] obtain b where
    b: "blocks_of T1 = blocks_of T @ [b]" "T1 = T\<lparr>bt_blocks := bt_blocks T1\<rparr>" "inv (h1, x1) (insert b L)" "b \<notin> L"
      "agree {b} h h1" "tbl h1 sz T1 n" "bl_tokens (h1 ! b) = []" "\<not> shared h1 (insert b L) b" "room x = Suc (room x1)"
    by blast
  have "set (blocks_of T1) \<subseteq> insert b L" using b(1) Cons.prems(2) by auto
  from Cons.IH [OF b(3) this b(6) r] obtain news where
    N: "blocks_of T' = blocks_of T1 @ news" "length news = length ks" "T' = T1\<lparr>bt_blocks := bt_blocks T'\<rparr>"
      "inv (h', x') (insert b L \<union> set news)" "set news \<inter> insert b L = {}" "agree (set news) h1 h'" "tbl h' sz T' n"
      "toks_of h' (blocks_of T') = toks_of h1 (blocks_of T1)" "room x1 = room x' + length ks"
      "\<forall>b' \<in> set news. \<not> shared h' (insert b L \<union> set news) b'"
      "\<forall>b' \<in> insert b L. \<not> shared h1 (insert b L) b' \<longrightarrow> \<not> shared h' (insert b L \<union> set news) b'" by blast
  have u: "insert b L \<union> set news = L \<union> set (b # news)" by auto
  have old: "h1 ! a = h ! a" if "a \<in> L" for a
    using old_same [OF b(5) Cons.prems(1) that] that b(4) by blast
  have "agree (set (b # news)) h h'"
    by (rule agree_trans [OF agree_mono [OF b(5)] agree_mono [OF N(6)]]) auto
  moreover have "toks_of h1 (blocks_of T1) = toks_of h (blocks_of T)"
    using b(1,7) toks_of_cong [of "blocks_of T" h1 h] old Cons.prems(2) by (simp add: subset_iff)
  moreover have "T' = T\<lparr>bt_blocks := bt_blocks T'\<rparr>" by (subst N(3), subst b(2)) simp
  moreover have "\<not> shared h' (L \<union> set (b # news)) b'" if "b' \<in> L" "\<not> shared h L b'" for b'
    using N(11) unshared_insert [OF that(2,1) b(4) old b(8)] that(1) unfolding u by blast
  ultimately show ?case using N b(1,4,8,9) unfolding u
    by (intro exI [of _ "b # news"]) auto
qed

lemma add_blocks_total:
  assumes "inv (h, x) L" and "set (blocks_of T) \<subseteq> L" and "tbl h sz T n" and "blocks_of T \<noteq> []" and "length ks \<le> room x"
  shows "\<exists>r. fold_r (add_block D) ks ((h, x), T) = Inr r"
  using assms
proof (induction ks arbitrary: h x L T)
  case (Cons k ks)
  have "\<forall>q. Some (last (blocks_of T)) = Some q \<longrightarrow> q \<in> L" using Cons.prems(2,4) by auto
  then obtain b h1 x1 where m: "da_mutable D (Some (last (blocks_of T))) GPU (h, x) = Inr (b, h1, x1)"
    using mutable_total [OF Cons.prems(1)] Cons.prems(5) by (metis Suc_le_D length_Cons prod_cases3 zero_less_Suc)
  have "inv (h1, x1) (insert b L)" using mutable_ok [OF Cons.prems(1) m] by blast
  note lb = live_block [OF this insertI1]
  obtain T1 where a: "add_block D k ((h, x), T) = Inr ((h1, x1), T1)"
    using m lb(2,3) Cons.prems(4) by (auto simp: add_block_def bt_len_def blocks_of_def ls_append_def ls_add_block_id_def)
  from add_block_ok [OF Cons.prems(1-3) a] obtain c where
    c: "blocks_of T1 = blocks_of T @ [c]" "inv (h1, x1) (insert c L)" "tbl h1 sz T1 n" "room x = Suc (room x1)" by blast
  have "\<exists>r. fold_r (add_block D) ks ((h1, x1), T1) = Inr r"
    by (rule Cons.IH [OF c(2) _ c(3)]) (use c Cons.prems in auto)
  with a show ?case by simp
qed simp

end

text \<open>Writing the chunks of an append, and the whole operations of a table.\<close>

text \<open>How many of the blocks from number \<open>i\<close> on are shared.\<close>

definition num_shared :: "heap \<Rightarrow> nat set \<Rightarrow> nat \<Rightarrow> nat \<Rightarrow> nat list \<Rightarrow> nat" where
  "num_shared h L i m bs = length (filter (shared h L) (take m (drop i bs)))"

lemma num_shared_Suc:
  "i < length bs \<Longrightarrow> num_shared h L i (Suc m) bs = (if shared h L (bs ! i) then 1 else 0) + num_shared h L (Suc i) m bs"
  by (simp add: num_shared_def Cons_nth_drop_Suc [symmetric])

lemma num_shared_mono:
  assumes "\<And>a. a \<in> set (drop i bs) \<Longrightarrow> shared h' L a \<Longrightarrow> shared h L a"
  shows "num_shared h' L i m bs \<le> num_shared h L i m bs"
proof -
  have "filter (shared h' L) xs = filter (shared h' L) (filter (shared h L) xs)" if "set xs \<subseteq> set (drop i bs)" for xs
    using that assms by (induction xs) auto
  then show ?thesis unfolding num_shared_def by (metis length_filter_le set_take_subset)
qed

lemma num_shared_bound:
  assumes "\<forall>b \<in> set news. \<not> shared h L b"
  shows "num_shared h L i m (bs @ news) \<le> min m (length bs - i)"
proof -
  have "filter (shared h L) (take m' news') = []" if "set news' \<subseteq> set news" for m' news'
    using that assms by (auto simp: filter_empty_conv dest!: in_set_takeD)
  from this [of "drop (i - length bs) news" "m - (length bs - i)"]
  have "num_shared h L i m (bs @ news) = length (filter (shared h L) (take m (drop i bs)))"
    by (simp add: num_shared_def set_drop_subset)
  also have "\<dots> \<le> min m (length bs - i)" by (metis length_drop length_filter_le length_take min.commute)
  finally show ?thesis .
qed

lemma append_chunk_alt:
  assumes "i < length (blocks_of T)"
  shows "append_chunk D (i, c) ((h, x), T) = bind_r (da_append D (blocks_of T ! i) c (h, x)) (\<lambda>(h1, x1).
    bind_r (if block_id h (blocks_of T ! i) \<noteq> block_id h1 (blocks_of T ! i)
      then ls_update_block_id i (block_id h1 (blocks_of T ! i)) (bt_blocks T) else Inr (bt_blocks T)) (\<lambda>l.
      Inr ((h1, x1), T\<lparr>bt_blocks := l\<rparr>)))"
  using assms
  by (simp add: append_chunk_def ls_append_token_ids_def bind_r_def nth_r_def blocks_of_def
      split: sum.split prod.split)

context block_allocator
begin

lemma append_chunk_ok:
  assumes inv: "inv (h, x) L" and bs: "set (blocks_of T) \<subseteq> L" and t: "tbl h sz T n"
    and i: "n div sz < length (blocks_of T)" and c: "length c \<le> sz - n mod sz"
    and run: "append_chunk D (n div sz, c) ((h, x), T) = Inr ((h', x'), T')"
  shows "inv (h', x') L \<and> agree {blocks_of T ! (n div sz)} h h' \<and> tbl h' sz T' (n + length c)
    \<and> blocks_of T' = blocks_of T \<and> T' = T\<lparr>bt_blocks := bt_blocks T'\<rparr>
    \<and> toks_of h' (blocks_of T) = toks_of h (blocks_of T) @ c
    \<and> room x = room x' + (if shared h L (blocks_of T ! (n div sz)) then 1 else 0)
    \<and> (\<forall>y \<in> L. y \<noteq> blocks_of T ! (n div sz) \<longrightarrow> shared h' L y \<longrightarrow> shared h L y)"
proof -
  let ?i = "n div sz" and ?b = "blocks_of T ! (n div sz)"
  from run obtain l where ap: "da_append D ?b c (h, x) = Inr (h', x')"
    and u: "(if block_id h ?b \<noteq> block_id h' ?b
      then ls_update_block_id ?i (block_id h' ?b) (bt_blocks T) else Inr (bt_blocks T)) = Inr l"
    and T': "T' = T\<lparr>bt_blocks := l\<rparr>"
    unfolding append_chunk_alt [OF i] by (auto split: prod.splits)
  have b: "?b \<in> L" using i bs by (auto simp: subset_iff)
  note q = append_ok [OF inv b ap]
  have q1: "inv (h', x') L" "agree {?b} h h'" using q by blast+
  note lb = live_block [OF inv b] and lb' = live_block [OF q1(1) b]
  have ids: "ls_ids (bt_blocks T) = map (\<lambda>a. the (bl_id (h ! a))) (blocks_of T)"
    using t by (simp add: tbl_def blocks_of_def)
  have l: "ls_blocks l = blocks_of T \<and> ls_ids l = (ls_ids (bt_blocks T))[?i := the (bl_id (h' ! ?b))]"
  proof (cases "bl_id (h ! ?b) = bl_id (h' ! ?b)")
    case True
    then have "l = bt_blocks T" using u lb(2) lb'(2) by simp
    moreover have "(ls_ids (bt_blocks T))[?i := the (bl_id (h' ! ?b))] = ls_ids (bt_blocks T)"
    proof (rule list_update_same_conv [THEN iffD2])
      show "?i < length (ls_ids (bt_blocks T))" using i by (simp add: ids)
      show "ls_ids (bt_blocks T) ! ?i = the (bl_id (h' ! ?b))" using i True by (simp add: ids)
    qed
    ultimately show ?thesis by (simp add: blocks_of_def)
  next
    case False
    then show ?thesis using u lb(2) lb'(2,3) i
      by (auto simp: ls_update_block_id_def ids blocks_of_def split: if_splits)
  qed
  have old: "h' ! a = h ! a" if "a \<in> L" "a \<noteq> ?b" for a
    using old_same [OF q1(2) inv that(1)] that(2) by blast
  have "tbl h' sz T' (n + length c) \<and> toks_of h' (blocks_of T) = toks_of h (blocks_of T) @ c"
    by (rule tbl_after_append [OF t inv_sz [OF inv] i refl c _ _ _ T']) (use q old bs l in auto)
  moreover have "shared h L y" if y: "y \<in> L" "y \<noteq> ?b" "shared h' L y" for y
  proof -
    obtain z where z: "z \<in> L" "z \<noteq> y" "bl_id (h' ! z) = bl_id (h' ! y)" using y(3) by (auto simp: shared_def)
    have "z \<noteq> ?b"
    proof
      assume "z = ?b"
      then have "shared h' L ?b" using y(1,2) z(3) by (auto simp: shared_def)
      then show False using q by blast
    qed
    then show ?thesis using z y old by (auto simp: shared_def)
  qed
  ultimately show ?thesis using q l T' by (simp add: blocks_of_def)
qed

lemma append_chunks_ok:
  assumes "inv (h, x) L" and "set (blocks_of T) \<subseteq> L" and "tbl h sz T n" and "chunks_fit sz n cs"
    and "n + length (concat cs) \<le> length (blocks_of T) * sz"
    and "fold_r (append_chunk D) (enumerate (n div sz) cs) ((h, x), T) = Inr ((h', x'), T')"
  shows "inv (h', x') L \<and> agree (set (blocks_of T)) h h' \<and> tbl h' sz T' (n + length (concat cs))
    \<and> blocks_of T' = blocks_of T \<and> T' = T\<lparr>bt_blocks := bt_blocks T'\<rparr>
    \<and> toks_of h' (blocks_of T) = toks_of h (blocks_of T) @ concat cs
    \<and> room x \<le> room x' + num_shared h L (n div sz) (length cs) (blocks_of T)"
  using assms
proof (induction cs arbitrary: h x T n)
  case Nil
  then show ?case by simp
next
  case (Cons c cs)
  note inv = Cons.prems(1)
  have sz: "0 < sz" using inv_sz [OF inv] .
  from Cons.prems(6) obtain h1 x1 T1 where a: "append_chunk D (n div sz, c) ((h, x), T) = Inr ((h1, x1), T1)"
    and r: "fold_r (append_chunk D) (enumerate (Suc (n div sz)) cs) ((h1, x1), T1) = Inr ((h', x'), T')"
    by auto
  have fit: "c \<noteq> []" "length c \<le> sz - n mod sz" "cs \<noteq> [] \<longrightarrow> length c = sz - n mod sz" "chunks_fit sz (n + length c) cs"
    using Cons.prems(4) by simp_all
  have "n < length (blocks_of T) * sz" using fit(1) Cons.prems(5) by (cases c) auto
  then have i: "n div sz < length (blocks_of T)" using sz by (simp add: div_less_iff_less_mult)
  note q = append_chunk_ok [OF inv Cons.prems(2,3) i fit(2) a]
  have q1: "inv (h1, x1) L" "agree {blocks_of T ! (n div sz)} h h1" "tbl h1 sz T1 (n + length c)" "blocks_of T1 = blocks_of T"
    "T1 = T\<lparr>bt_blocks := bt_blocks T1\<rparr>" "toks_of h1 (blocks_of T) = toks_of h (blocks_of T) @ c"
    "room x = room x1 + (if shared h L (blocks_of T ! (n div sz)) then 1 else 0)"
    "\<forall>y \<in> L. y \<noteq> blocks_of T ! (n div sz) \<longrightarrow> shared h1 L y \<longrightarrow> shared h L y" using q by blast+
  have ag1: "agree (set (blocks_of T)) h h1" using agree_mono [OF q1(2)] i by simp
  show ?case
  proof (cases "cs = []")
    case True
    then have e: "h' = h1" "x' = x1" "T' = T1" using r by simp_all
    have "num_shared h L (n div sz) 1 (blocks_of T) = (if shared h L (blocks_of T ! (n div sz)) then 1 else 0)"
      using num_shared_Suc [OF i, of h L 0] by (simp add: num_shared_def)
    then show ?thesis using q1 ag1 True unfolding e by simp
  next
    case False
    have next_i: "(n + length c) div sz = Suc (n div sz)"
    proof -
      have "n mod sz < sz" using sz by simp
      then have "n + length c = n div sz * sz + sz" using fit(3) False div_mult_mod_eq [of n sz] by linarith
      then have "n + length c = Suc (n div sz) * sz" by simp
      then show ?thesis using sz by (metis nonzero_mult_div_cancel_right less_numeral_extra(3))
    qed
    have p: "set (blocks_of T1) \<subseteq> L" "n + length c + length (concat cs) \<le> length (blocks_of T1) * sz"
      "fold_r (append_chunk D) (enumerate ((n + length c) div sz) cs) ((h1, x1), T1) = Inr ((h', x'), T')"
      using Cons.prems(2,5) q1(4) r next_i by (simp_all add: add.assoc)
    note IH = Cons.IH [OF q1(1) p(1) q1(3) fit(4) p(2,3)]
    have "T' = T\<lparr>bt_blocks := bt_blocks T'\<rparr>" using IH q1(5) by (metis block_table.surjective block_table.update_convs(2))
    moreover have "agree (set (blocks_of T)) h h'" using agree_trans [OF ag1] IH q1(4) by simp
    moreover have "num_shared h1 L (Suc (n div sz)) (length cs) (blocks_of T)
      \<le> num_shared h L (Suc (n div sz)) (length cs) (blocks_of T)"
    proof (rule num_shared_mono)
      fix y assume y: "y \<in> set (drop (Suc (n div sz)) (blocks_of T))" "shared h1 L y"
      have "distinct (blocks_of T)" using Cons.prems(3) by (simp add: tbl_def blocks_of_def)
      then have "distinct (blocks_of T ! (n div sz) # drop (Suc (n div sz)) (blocks_of T))"
        using i by (simp add: Cons_nth_drop_Suc)
      then have "y \<noteq> blocks_of T ! (n div sz)" using y(1) by auto
      moreover have "y \<in> L" using y(1) Cons.prems(2) by (auto dest: in_set_dropD)
      ultimately show "shared h L y" using q1(8) y(2) by blast
    qed
    ultimately show ?thesis
      using IH q1(1,4,6,7) num_shared_Suc [OF i, of h L "length cs"] next_i by (auto simp: add.assoc)
  qed
qed

lemma append_chunks_total:
  assumes "inv (h, x) L" and "set (blocks_of T) \<subseteq> L" and "tbl h sz T n" and "chunks_fit sz n cs"
    and "n + length (concat cs) \<le> length (blocks_of T) * sz"
    and "num_shared h L (n div sz) (length cs) (blocks_of T) \<le> room x"
  shows "\<exists>r. fold_r (append_chunk D) (enumerate (n div sz) cs) ((h, x), T) = Inr r"
  using assms
proof (induction cs arbitrary: h x T n)
  case (Cons c cs)
  note inv = Cons.prems(1)
  have sz: "0 < sz" using inv_sz [OF inv] .
  have fit: "c \<noteq> []" "length c \<le> sz - n mod sz" "cs \<noteq> [] \<longrightarrow> length c = sz - n mod sz" "chunks_fit sz (n + length c) cs"
    using Cons.prems(4) by simp_all
  have "n < length (blocks_of T) * sz" using fit(1) Cons.prems(5) by (cases c) auto
  then have i: "n div sz < length (blocks_of T)" using sz by (simp add: div_less_iff_less_mult)
  let ?b = "blocks_of T ! (n div sz)"
  have b: "?b \<in> L" using i Cons.prems(2) by (auto simp: subset_iff)
  have ns: "num_shared h L (n div sz) (Suc (length cs)) (blocks_of T) \<le> room x" using Cons.prems(6) by simp
  have f: "filled h sz (blocks_of T) n" using Cons.prems(3) by (simp add: tbl_def blocks_of_def)
  have "length (bl_tokens (h ! ?b)) = n mod sz"
  proof -
    have "n - n div sz * sz = n mod sz" by (simp add: minus_div_mult_eq_mod)
    moreover have "n mod sz < sz" using sz by simp
    ultimately show ?thesis using f i by (simp add: filled_def)
  qed
  then have "length (bl_tokens (h ! ?b)) + length c \<le> sz" using fit(2) sz by (simp add: le_diff_conv2 add.commute)
  moreover have "shared h L ?b \<Longrightarrow> 0 < room x" using ns num_shared_Suc [OF i, of h L "length cs"] by simp
  ultimately obtain h1 x1 where ap: "da_append D ?b c (h, x) = Inr (h1, x1)"
    using append_total [OF inv b] by (metis prod.exhaust)
  have inv1: "inv (h1, x1) L" using append_ok [OF inv b ap] by blast
  note lb' = live_block [OF inv1 b]
  have "length (ls_ids (bt_blocks T)) = length (blocks_of T)" using Cons.prems(3) by (simp add: tbl_def blocks_of_def)
  then have "\<exists>l. (if block_id h ?b \<noteq> block_id h1 ?b
      then ls_update_block_id (n div sz) (block_id h1 ?b) (bt_blocks T) else Inr (bt_blocks T)) = Inr l"
    using i lb'(2,3) by (cases "block_id h ?b = block_id h1 ?b") (auto simp: ls_update_block_id_def)
  then obtain T1 where a: "append_chunk D (n div sz, c) ((h, x), T) = Inr ((h1, x1), T1)"
    using ap unfolding append_chunk_alt [OF i] by auto
  note q = append_chunk_ok [OF inv Cons.prems(2,3) i fit(2) a]
  have q1: "tbl h1 sz T1 (n + length c)" "blocks_of T1 = blocks_of T"
    "room x = room x1 + (if shared h L ?b then 1 else 0)"
    "\<forall>y \<in> L. y \<noteq> ?b \<longrightarrow> shared h1 L y \<longrightarrow> shared h L y" using q by blast+
  show ?case
  proof (cases "cs = []")
    case True
    then show ?thesis using a by simp
  next
    case False
    have next_i: "(n + length c) div sz = Suc (n div sz)"
    proof -
      have "n mod sz < sz" using sz by simp
      then have "n + length c = n div sz * sz + sz" using fit(3) False div_mult_mod_eq [of n sz] by linarith
      then have "n + length c = Suc (n div sz) * sz" by simp
      then show ?thesis using sz by (metis nonzero_mult_div_cancel_right less_numeral_extra(3))
    qed
    have "num_shared h1 L (Suc (n div sz)) (length cs) (blocks_of T)
      \<le> num_shared h L (Suc (n div sz)) (length cs) (blocks_of T)"
    proof (rule num_shared_mono)
      fix y assume y: "y \<in> set (drop (Suc (n div sz)) (blocks_of T))" "shared h1 L y"
      have "distinct (blocks_of T)" using Cons.prems(3) by (simp add: tbl_def blocks_of_def)
      then have "distinct (?b # drop (Suc (n div sz)) (blocks_of T))" using i by (simp add: Cons_nth_drop_Suc)
      then have "y \<noteq> ?b" using y(1) by auto
      moreover have "y \<in> L" using y(1) Cons.prems(2) by (auto dest: in_set_dropD)
      ultimately show "shared h L y" using q1(4) y(2) by blast
    qed
    then have "num_shared h1 L ((n + length c) div sz) (length cs) (blocks_of T1) \<le> room x1"
      using ns num_shared_Suc [OF i, of h L "length cs"] q1(2,3) next_i by auto
    then have "\<exists>r. fold_r (append_chunk D) (enumerate ((n + length c) div sz) cs) ((h1, x1), T1) = Inr r"
      using Cons.prems(2,5) q1(2) by (intro Cons.IH [OF inv1 _ q1(1) fit(4)]) (simp_all add: add.assoc)
    with a next_i show ?thesis by simp
  qed
qed simp

end

end
