(* ===== verification/Table_Thms.thy ===== *)
theory Table_Thms
  imports Table_Ops
begin

text \<open>The operations of a block table: what they do, and when they succeed.\<close>

definition table_at ::
    "(heap \<times> 'x \<Rightarrow> nat set \<Rightarrow> bool) \<Rightarrow> nat \<Rightarrow> heap \<times> 'x \<Rightarrow> nat set \<Rightarrow> block_table \<Rightarrow> bool" where
  "table_at I sz s L T \<longleftrightarrow> I s L \<and> set (blocks_of T) \<subseteq> L \<and> table_ok (fst s) sz T"

context block_allocator
begin

lemma empty_table:
  assumes "bt_blocks T = \<lparr>ls_blocks = [], ls_ids = []\<rparr>" "bt_block_size T = sz" "bt_window T = None" "bt_num_full_slots T = 0"
  shows "table_ok h sz T"
  using assms by (simp add: table_ok_def tbl_def filled_def)

lemma bt_allocate_ok:
  assumes inv: "inv (h, x) L" and T: "bt_block_size T = sz" "bt_window T = None"
    and run: "bt_allocate D toks GPU ((h, x), T) = Inr ((h', x'), T')"
  shows "table_at inv sz (h', x') (L \<union> set (blocks_of T')) T' \<and> set (blocks_of T') \<inter> L = {}
    \<and> agree (set (blocks_of T')) h h' \<and> toks_of h' (blocks_of T') = toks \<and> bt_num_full_slots T' = length toks
    \<and> blocks_of T' \<noteq> [] \<and> room x = room x' + ceil_div (length toks) sz
    \<and> length (blocks_of T') = ceil_div (length toks) sz"
proof -
  from run T obtain bs T1 where toks: "toks \<noteq> []"
    and al: "allocate_blocks_for_token_ids D sz None toks GPU (h, x) = Inr (bs, h', x')"
    and u: "bt_update h' bs T = Inr T1" and T': "T' = T1\<lparr>bt_num_full_slots := length toks\<rparr>"
    by (auto simp: bt_allocate_def)
  note q = allocate_blocks_ok [OF inv toks al]
  have q1: "inv (h', x') (L \<union> set bs)" "distinct bs" "linked h' None bs" "filled h' sz bs (length toks)"
    "length bs = ceil_div (length toks) sz" using q by blast+
  have T1: "T' = T\<lparr>bt_blocks := \<lparr>ls_blocks = bs, ls_ids = map (\<lambda>a. the (bl_id (h' ! a))) bs\<rparr>,
      bt_num_full_slots := length toks\<rparr>"
    using u ids_ok_update [OF q1(1), of bs] by (auto simp: bt_update_def T')
  then have b: "blocks_of T' = bs" by (simp add: blocks_of_def)
  have "table_ok h' sz T'" using q1 T by (simp add: table_ok_def tbl_def T1)
  moreover have "bs \<noteq> []"
    using q toks by (metis append_self_conv2 concat.simps(1) list.simps(8) toks_of_def)
  moreover have "bt_num_full_slots T' = length toks" by (simp add: T1)
  ultimately show ?thesis using q unfolding table_at_def b by simp
qed

lemma bt_allocate_total:
  assumes inv: "inv (h, x) L" and T: "bt_block_size T = sz" "\<not> is_allocated T" and "toks \<noteq> []"
    and "ceil_div (length toks) sz \<le> room x"
  shows "\<exists>r. bt_allocate D toks GPU ((h, x), T) = Inr r"
proof -
  obtain bs h1 x1 where al: "allocate_blocks_for_token_ids D sz None toks GPU (h, x) = Inr (bs, h1, x1)"
    using allocate_blocks_total [OF inv assms(5)] by auto
  have "inv (h1, x1) (L \<union> set bs)" using allocate_blocks_ok [OF inv assms(4) al] by blast
  from ids_ok_update [OF this, of bs] al T assms(4) show ?thesis by (simp add: bt_allocate_def bt_update_def)
qed

lemma bt_append_split:
  assumes "inv (h, x) L" "set (blocks_of T) \<subseteq> L" "table_ok h sz T" "blocks_of T \<noteq> []"
  shows "bt_append_token_ids D toks la nc ((h, x), T)
    = bind_r (fold_r (add_block D)
        [0..<ceil_div (bt_num_full_slots T + (length toks + la)) sz - length (blocks_of T)] ((h, x), T)) (\<lambda>(s2, T2).
      bind_r (guard_r ZeroDivisionError (bt_block_size T2 \<noteq> 0)) (\<lambda>_.
      bind_r (chunk_token_blocks_for_append T2 toks) (\<lambda>cs.
      bind_r (fold_r (append_chunk D) (enumerate (bt_num_full_slots T2 div bt_block_size T2) cs) (s2, T2)) (\<lambda>(s3, T3).
        Inr (s3, T3\<lparr>bt_num_full_slots := bt_num_full_slots T3 + length toks\<rparr>)))))"
proof -
  have t: "bt_block_size T = sz" "bt_window T = None" "bt_num_full_slots T \<le> bt_len T * sz"
    using assms(3) by (simp_all add: table_ok_def tbl_def filled_def bt_len_def)
  have al: "is_allocated T" using assms(4) by (simp add: is_allocated_def bt_len_def blocks_of_def)
  have e: "ensure_num_empty_slots D (int (length toks + la)) ((h, x), T) = fold_r (add_block D)
      [0..<ceil_div (bt_num_full_slots T + (length toks + la)) sz - bt_len T] ((h, x), T)"
    by (rule ensure_unfold [OF t(1) inv_sz [OF assms(1)] t(3) al])
  show ?thesis using al t(2) e by (simp add: bt_append_token_ids_def drop_window_def Let_def bt_len_def blocks_of_def)
qed

lemma bt_append_ok:
  assumes tat: "table_at inv sz (h, x) L T" and ne: "blocks_of T \<noteq> []"
    and run: "bt_append_token_ids D toks la nc ((h, x), T) = Inr ((h', x'), T')"
  shows "\<exists>news. blocks_of T' = blocks_of T @ news \<and> table_at inv sz (h', x') (L \<union> set news) T' \<and> set news \<inter> L = {}
    \<and> agree (set (blocks_of T')) h h' \<and> toks_of h' (blocks_of T') = toks_of h (blocks_of T) @ toks
    \<and> bt_num_full_slots T' = bt_num_full_slots T + length toks
    \<and> bt_num_full_slots T' + la \<le> length (blocks_of T') * sz
    \<and> length news = ceil_div (bt_num_full_slots T' + la) sz - length (blocks_of T)
    \<and> room x \<le> room x' + touched T (length toks + la)"
proof -
  let ?n = "bt_num_full_slots T" and ?len = "length (blocks_of T)"
  let ?k = "ceil_div (?n + (length toks + la)) sz - ?len"
  have inv: "inv (h, x) L" and bs: "set (blocks_of T) \<subseteq> L" and t: "table_ok h sz T"
    using tat by (simp_all add: table_at_def)
  have sz: "0 < sz" using inv_sz [OF inv] .
  have tb: "tbl h sz T ?n" "bt_block_size T = sz" "?n \<le> ?len * sz"
    using t by (simp_all add: table_ok_def tbl_def filled_def blocks_of_def)
  from run [unfolded bt_append_split [OF inv bs t ne]] obtain h2 x2 T2 cs h3 x3 T3 where
    1: "fold_r (add_block D) [0..<?k] ((h, x), T) = Inr ((h2, x2), T2)"
    and 2: "chunk_token_blocks_for_append T2 toks = Inr cs"
    and 3: "fold_r (append_chunk D) (enumerate (bt_num_full_slots T2 div bt_block_size T2) cs) ((h2, x2), T2)
        = Inr ((h3, x3), T3)"
    and e: "h' = h3" "x' = x3" "T' = T3\<lparr>bt_num_full_slots := bt_num_full_slots T3 + length toks\<rparr>"
    by (auto split: prod.splits)
  from add_blocks_ok [OF inv bs tb(1) 1] obtain news where
    N: "blocks_of T2 = blocks_of T @ news" "length news = length [0..<?k]" "T2 = T\<lparr>bt_blocks := bt_blocks T2\<rparr>"
      "inv (h2, x2) (L \<union> set news)" "set news \<inter> L = {}" "agree (set news) h h2" "tbl h2 sz T2 ?n"
      "toks_of h2 (blocks_of T2) = toks_of h (blocks_of T)" "room x = room x2 + length [0..<?k]"
      "\<forall>b \<in> set news. \<not> shared h2 (L \<union> set news) b" by blast
  have T2: "bt_block_size T2 = sz" "bt_num_full_slots T2 = ?n" by (subst N(3), simp add: tb)+
  have c: "chunks_fit sz ?n cs" "concat cs = toks"
    "length cs = (if toks = [] then 0 else ceil_div (?n mod sz + length toks) sz)"
    using chunks_for_append [OF _ 2] sz by (simp_all add: T2)
  have room_slots: "?n + (length toks + la) \<le> length (blocks_of T2) * sz"
  proof -
    have "ceil_div (?n + (length toks + la)) sz \<le> length (blocks_of T2)" using N(1,2) by simp
    then show ?thesis using ceil_div_le_iff [OF sz] by blast
  qed
  have bs2: "set (blocks_of T2) \<subseteq> L \<union> set news" using N(1) bs by auto
  have fits: "?n + length (concat cs) \<le> length (blocks_of T2) * sz" using room_slots by (simp add: c)
  have r3: "fold_r (append_chunk D) (enumerate (?n div sz) cs) ((h2, x2), T2) = Inr ((h3, x3), T3)" using 3 by (simp add: T2)
  note W = append_chunks_ok [OF N(4) bs2 N(7) c(1) fits r3]
  have W1: "inv (h3, x3) (L \<union> set news)" "agree (set (blocks_of T2)) h2 h3" "tbl h3 sz T3 (?n + length toks)"
    "blocks_of T3 = blocks_of T2" "T3 = T2\<lparr>bt_blocks := bt_blocks T3\<rparr>"
    "toks_of h3 (blocks_of T2) = toks_of h2 (blocks_of T2) @ toks"
    "room x2 \<le> room x3 + num_shared h2 (L \<union> set news) (?n div sz) (length cs) (blocks_of T2)"
    using W by (simp_all add: c)
  have T3: "bt_num_full_slots T3 = ?n" by (subst W1(5)) (simp add: T2)
  have b': "blocks_of T' = blocks_of T2" using W1(4) by (simp add: e blocks_of_def)
  have "table_ok h3 sz T'" using W1(3) T3 by (simp add: e table_ok_def tbl_def)
  moreover have "agree (set (blocks_of T2)) h h3"
    by (rule agree_trans [OF agree_mono [OF N(6)] W1(2)]) (simp add: N(1))
  moreover have "room x \<le> room x3 + touched T (length toks + la)"
  proof -
    have "num_shared h2 (L \<union> set news) (?n div sz) (length cs) (blocks_of T2) \<le> min (length cs) (?len - ?n div sz)"
      using num_shared_bound [OF N(10)] by (simp add: N(1))
    moreover have "?k + min (if toks = [] then 0 else ceil_div (?n mod sz + length toks) sz) (?len - ?n div sz)
        \<le> touched T (length toks + la)"
      using touched_covers [OF sz tb(3), of "length toks" la] by (auto simp: touched_def tb(2) add.assoc split: if_splits)
    moreover have "room x = room x2 + ?k" using N(9) by simp
    ultimately show ?thesis using W1(7) unfolding c(3) [symmetric] by linarith
  qed
  moreover have "set (blocks_of T2) \<subseteq> L \<union> set news" by fact
  ultimately show ?thesis
    using N W1 room_slots T3 unfolding e(1,2) b'
    by (intro exI [of _ news]) (simp add: table_at_def e(3) b' blocks_of_def add.assoc)
qed

lemma bt_append_total:
  assumes tat: "table_at inv sz (h, x) L T" and ne: "blocks_of T \<noteq> []" and rm: "touched T (length toks + la) \<le> room x"
  shows "\<exists>r. bt_append_token_ids D toks la nc ((h, x), T) = Inr r"
proof -
  let ?n = "bt_num_full_slots T" and ?len = "length (blocks_of T)"
  let ?k = "ceil_div (?n + (length toks + la)) sz - ?len"
  have inv: "inv (h, x) L" and bs: "set (blocks_of T) \<subseteq> L" and t: "table_ok h sz T"
    using tat by (simp_all add: table_at_def)
  have sz: "0 < sz" using inv_sz [OF inv] .
  have tb: "tbl h sz T ?n" "bt_block_size T = sz" "?n \<le> ?len * sz"
    using t by (simp_all add: table_ok_def tbl_def filled_def blocks_of_def)
  have tc: "?k + min (if toks = [] then 0 else ceil_div (?n mod sz + length toks) sz) (?len - ?n div sz)
      \<le> touched T (length toks + la)"
    using touched_covers [OF sz tb(3), of "length toks" la] by (auto simp: touched_def tb(2) add.assoc split: if_splits)
  have "length [0..<?k] \<le> room x" using tc rm by simp
  then obtain h2 x2 T2 where 1: "fold_r (add_block D) [0..<?k] ((h, x), T) = Inr ((h2, x2), T2)"
    using add_blocks_total [OF inv bs tb(1) ne] by (metis prod.exhaust)
  from add_blocks_ok [OF inv bs tb(1) 1] obtain news where
    N: "blocks_of T2 = blocks_of T @ news" "length news = length [0..<?k]" "T2 = T\<lparr>bt_blocks := bt_blocks T2\<rparr>"
      "inv (h2, x2) (L \<union> set news)" "tbl h2 sz T2 ?n" "room x = room x2 + length [0..<?k]"
      "\<forall>b \<in> set news. \<not> shared h2 (L \<union> set news) b" by blast
  have T2: "bt_block_size T2 = sz" "bt_num_full_slots T2 = ?n" by (subst N(3), simp add: tb)+
  obtain cs where 2: "chunk_token_blocks_for_append T2 toks = Inr cs" using chunks_total [of T2] sz T2(1) by metis
  have c: "chunks_fit sz ?n cs" "concat cs = toks"
    "length cs = (if toks = [] then 0 else ceil_div (?n mod sz + length toks) sz)"
    using chunks_for_append [OF _ 2] sz by (simp_all add: T2)
  have "ceil_div (?n + (length toks + la)) sz \<le> length (blocks_of T2)" using N(1,2) by simp
  then have "?n + (length toks + la) \<le> length (blocks_of T2) * sz" using ceil_div_le_iff [OF sz] by blast
  then have fits: "?n + length (concat cs) \<le> length (blocks_of T2) * sz" by (simp add: c)
  have bs2: "set (blocks_of T2) \<subseteq> L \<union> set news" using N(1) bs by auto
  have "num_shared h2 (L \<union> set news) (?n div sz) (length cs) (blocks_of T2) \<le> min (length cs) (?len - ?n div sz)"
    using num_shared_bound [OF N(7)] by (simp add: N(1))
  then have "num_shared h2 (L \<union> set news) (?n div sz) (length cs) (blocks_of T2) \<le> room x2"
  proof -
    have "room x = room x2 + ?k" using N(6) by simp
    then show ?thesis using tc rm \<open>num_shared _ _ _ _ _ \<le> min _ _\<close> unfolding c(3) [symmetric] by linarith
  qed
  from append_chunks_total [OF N(4) bs2 N(5) c(1) fits this] obtain h3 x3 T3 where
    "fold_r (append_chunk D) (enumerate (?n div sz) cs) ((h2, x2), T2) = Inr ((h3, x3), T3)" by (metis prod.exhaust)
  with 1 2 sz show ?thesis unfolding bt_append_split [OF inv bs t ne] by (simp add: T2)
qed

lemma bt_fork_ok:
  assumes tat: "table_at inv sz (h, x) L T" and run: "bt_fork D ((h, x), T) = Inr (T', h', x')"
  shows "table_at inv sz (h', x') (L \<union> set (blocks_of T')) T' \<and> set (blocks_of T') \<inter> L = {} \<and> agree (set (blocks_of T')) h h'
    \<and> toks_of h' (blocks_of T') = toks_of h (blocks_of T) \<and> physical_block_ids T' = physical_block_ids T
    \<and> bt_num_full_slots T' = bt_num_full_slots T \<and> length (blocks_of T') = length (blocks_of T) \<and> room x' = room x"
proof -
  have inv: "inv (h, x) L" and bs: "set (blocks_of T) \<subseteq> L" and t: "table_ok h sz T"
    using tat by (simp_all add: table_at_def)
  have tb: "distinct (blocks_of T)" "linked h None (blocks_of T)" "bt_block_size T = sz" "bt_window T = None"
    "ls_ids (bt_blocks T) = map (\<lambda>a. the (bl_id (h ! a))) (blocks_of T)" "filled h sz (blocks_of T) (bt_num_full_slots T)"
    using t by (simp_all add: table_ok_def tbl_def blocks_of_def)
  from run obtain fs where ne: "blocks_of T \<noteq> []" and f: "da_fork D (last (blocks_of T)) (h, x) = Inr (fs, h', x')"
    and i: "init_table sz fs None h' = Inr T'"
    by (auto simp: bt_fork_def is_allocated_def bt_len_def blocks_of_def tb)
  note q = fork_ok [OF inv tb(2) ne tb(1) bs f]
  have q1: "inv (h', x') (L \<union> set fs)" "distinct fs" "linked h' None fs"
    "map (\<lambda>a. (bl_tokens (h' ! a), bl_id (h' ! a))) fs = map (\<lambda>a. (bl_tokens (h ! a), bl_id (h ! a))) (blocks_of T)"
    using q by blast+
  have len: "length fs = length (blocks_of T)" using q1(4) by (metis length_map)
  have nth: "bl_tokens (h' ! (fs ! k)) = bl_tokens (h ! (blocks_of T ! k)) \<and> bl_id (h' ! (fs ! k)) = bl_id (h ! (blocks_of T ! k))"
    if "k < length fs" for k
    using arg_cong [OF q1(4), of "\<lambda>xs. xs ! k"] that len by simp
  have T': "T' = \<lparr>bt_block_size = sz, bt_blocks = \<lparr>ls_blocks = fs, ls_ids = map (\<lambda>a. the (bl_id (h' ! a))) fs\<rparr>,
      bt_window = None, bt_num_full_slots = get_num_token_ids h' fs\<rparr>"
    using i ids_ok_update [OF q1(1), of fs] by (simp add: init_table_def)
  have fl: "filled h' sz fs (bt_num_full_slots T)" using tb(6) nth len by (simp add: filled_def)
  have "get_num_token_ids h' fs = length (toks_of h' fs)"
  proof -
    have "map (\<lambda>a. length (bl_tokens (resolve h' a))) fs = map (\<lambda>a. length (bl_tokens (h' ! a))) fs"
      by (rule map_cong) (use live_block(4) [OF q1(1)] in auto)
    then show ?thesis by (simp only: get_num_token_ids_def length_toks_of)
  qed
  then have full: "bt_num_full_slots T' = bt_num_full_slots T" using filled_length [OF fl] by (simp add: T')
  have "map (\<lambda>a. the (bl_id (h' ! a))) fs = map (\<lambda>a. the (bl_id (h ! a))) (blocks_of T)"
    "map (\<lambda>a. bl_tokens (h' ! a)) fs = map (\<lambda>a. bl_tokens (h ! a)) (blocks_of T)"
    by (rule nth_equalityI, use nth len in simp_all)+
  then have "physical_block_ids T' = physical_block_ids T" "toks_of h' fs = toks_of h (blocks_of T)"
    by (simp_all add: physical_block_ids_def T' tb(5) toks_of_def)
  moreover have "table_ok h' sz T'" using q1 fl full by (simp add: table_ok_def tbl_def T')
  ultimately show ?thesis using q full len by (simp add: table_at_def T' blocks_of_def)
qed

lemma bt_fork_total:
  assumes tat: "table_at inv sz (h, x) L T" and ne: "blocks_of T \<noteq> []"
  shows "\<exists>r. bt_fork D ((h, x), T) = Inr r"
proof -
  have inv: "inv (h, x) L" and bs: "set (blocks_of T) \<subseteq> L" and t: "table_ok h sz T"
    using tat by (simp_all add: table_at_def)
  have tb: "distinct (blocks_of T)" "linked h None (blocks_of T)" using t by (simp_all add: table_ok_def tbl_def blocks_of_def)
  obtain fs h' x' where f: "da_fork D (last (blocks_of T)) (h, x) = Inr (fs, h', x')"
    using fork_total [OF inv tb(2) ne tb(1) bs] by auto
  have "inv (h', x') (L \<union> set fs)" using fork_ok [OF inv tb(2) ne tb(1) bs f] by blast
  from ids_ok_update [OF this, of fs] f ne show ?thesis
    by (simp add: bt_fork_def is_allocated_def bt_len_def blocks_of_def init_table_def)
qed

lemma free_blocks_ok:
  assumes "inv (h, x) L" and "set bs \<subseteq> L" and "distinct bs" and "fold_r (da_free D) bs (h, x) = Inr (h', x')"
  shows "inv (h', x') (L - set bs) \<and> agree (set bs) h h'"
  using assms
proof (induction bs arbitrary: h x L)
  case (Cons b bs)
  from Cons.prems(4) obtain h1 x1 where f: "da_free D b (h, x) = Inr (h1, x1)"
    and r: "fold_r (da_free D) bs (h1, x1) = Inr (h', x')" by auto
  have "b \<in> L" using Cons.prems(2) by simp
  from free_ok [OF Cons.prems(1) this f] have 1: "inv (h1, x1) (L - {b})" "agree {b} h h1" by blast+
  have "set bs \<subseteq> L - {b}" "distinct bs" using Cons.prems by auto
  from Cons.IH [OF 1(1) this r] have 2: "inv (h', x') (L - {b} - set bs)" "agree (set bs) h1 h'" by blast+
  have "agree (set (b # bs)) h h'" by (rule agree_trans [OF agree_mono [OF 1(2)] agree_mono [OF 2(2)]]) auto
  moreover have "L - {b} - set bs = L - set (b # bs)" by auto
  ultimately show ?case using 2(1) by simp
qed simp

lemma free_blocks_total:
  assumes "inv (h, x) L" and "set bs \<subseteq> L" and "distinct bs"
  shows "\<exists>r. fold_r (da_free D) bs (h, x) = Inr r"
  using assms
proof (induction bs arbitrary: h x L)
  case (Cons b bs)
  have b: "b \<in> L" using Cons.prems(2) by simp
  obtain h1 x1 where f: "da_free D b (h, x) = Inr (h1, x1)" using free_total [OF Cons.prems(1) b] by auto
  have "\<exists>r. fold_r (da_free D) bs (h1, x1) = Inr r"
    using free_ok [OF Cons.prems(1) b f] Cons.prems by (intro Cons.IH [of h1 x1 "L - {b}"]) auto
  with f show ?case by simp
qed simp

lemma bt_free_ok:
  assumes tat: "table_at inv sz (h, x) L T" and run: "bt_free D ((h, x), T) = Inr ((h', x'), T')"
  shows "inv (h', x') (L - set (blocks_of T)) \<and> agree (set (blocks_of T)) h h' \<and> blocks_of T' = []"
proof -
  have "inv (h, x) L" "set (blocks_of T) \<subseteq> L" "distinct (blocks_of T)"
    using tat by (simp_all add: table_at_def table_ok_def tbl_def blocks_of_def)
  from free_blocks_ok [OF this] run show ?thesis by (auto simp: bt_free_def blocks_of_def ls_reset_def)
qed

lemma bt_free_total: "table_at inv sz (h, x) L T \<Longrightarrow> \<exists>r. bt_free D ((h, x), T) = Inr r"
  using free_blocks_total [of h x L "blocks_of T"]
  by (auto simp: bt_free_def table_at_def table_ok_def tbl_def blocks_of_def)

end

end
