(* ===== verification/Cpu_Gpu_Inv.thy ===== *)
theory Cpu_Gpu_Inv
  imports Cpu_Gpu_Allocator Naive_Total Table_Thms
begin

text \<open>
  The CPU and GPU allocator, made of two naive allocators over one heap, keeps the contract of
  block tables. \<open>L\<close> are the blocks on the GPU, \<open>S\<close> those that are swapped out: their
  objects belong to the pool of the GPU allocator, their ids to the CPU allocator.
\<close>

definition naive_dev :: "heap \<Rightarrow> nat \<Rightarrow> naive_alloc \<Rightarrow> nat set \<Rightarrow> nat set \<Rightarrow> bool" where
  "naive_dev h sz A L W \<longleftrightarrow> nv_inv (h, A) L W \<and> naive_cfg A \<and> na_block_size A = sz \<and> shm_room A"

definition cg_inv :: "nat \<Rightarrow> nat set \<Rightarrow> gstate \<Rightarrow> nat set \<Rightarrow> bool" where
  "cg_inv sz S s L \<longleftrightarrow> (\<exists>A C. cg_gpu (snd s) = NaiveBlockAllocator A \<and> cg_cpu (snd s) = NaiveBlockAllocator C
     \<and> naive_dev (fst s) sz A L (L \<union> S) \<and> naive_dev (fst s) sz C S {} \<and> L \<inter> S = {} \<and> 0 < sz
     \<and> cg_null_block (snd s) = None \<and> bp_owner (na_pool A) = GPU
     \<and> set (bp_pool (na_pool A)) \<inter> set (bp_pool (na_pool C)) = {}
     \<and> (\<forall>i \<in> set (na_all A). cg_ids (snd s) i = Some GPU) \<and> (\<forall>i \<in> set (na_all C). cg_ids (snd s) i = Some CPU)
     \<and> (\<forall>a \<in> L \<union> S. bl_size (fst s ! a) = sz \<and> length (bl_tokens (fst s ! a)) \<le> sz))"

lemma cg_invE:
  assumes "cg_inv sz S (h, G) L"
  obtains A C where "cg_gpu G = NaiveBlockAllocator A" "cg_cpu G = NaiveBlockAllocator C"
    "nv_inv (h, A) L (L \<union> S)" "naive_cfg A" "na_block_size A = sz" "shm_room A"
    "nv_inv (h, C) S {}" "naive_cfg C" "na_block_size C = sz" "shm_room C"
    "L \<inter> S = {}" "0 < sz" "cg_null_block G = None" "bp_owner (na_pool A) = GPU"
    "set (bp_pool (na_pool A)) \<inter> set (bp_pool (na_pool C)) = {}"
    "\<forall>i \<in> set (na_all A). cg_ids G i = Some GPU" "\<forall>i \<in> set (na_all C). cg_ids G i = Some CPU"
    "\<forall>a \<in> L \<union> S. bl_size (h ! a) = sz \<and> length (bl_tokens (h ! a)) \<le> sz"
proof -
  from assms obtain A C where ex: "cg_gpu G = NaiveBlockAllocator A \<and> cg_cpu G = NaiveBlockAllocator C
     \<and> naive_dev h sz A L (L \<union> S) \<and> naive_dev h sz C S {} \<and> L \<inter> S = {} \<and> 0 < sz
     \<and> cg_null_block G = None \<and> bp_owner (na_pool A) = GPU
     \<and> set (bp_pool (na_pool A)) \<inter> set (bp_pool (na_pool C)) = {}
     \<and> (\<forall>i \<in> set (na_all A). cg_ids G i = Some GPU) \<and> (\<forall>i \<in> set (na_all C). cg_ids G i = Some CPU)
     \<and> (\<forall>a \<in> L \<union> S. bl_size (h ! a) = sz \<and> length (bl_tokens (h ! a)) \<le> sz)"
    unfolding cg_inv_def fst_conv snd_conv by blast
  then have "naive_dev h sz A L (L \<union> S)" "naive_dev h sz C S {}" by blast+
  then have "nv_inv (h, A) L (L \<union> S)" "naive_cfg A" "na_block_size A = sz" "shm_room A"
    "nv_inv (h, C) S {}" "naive_cfg C" "na_block_size C = sz" "shm_room C" by (simp_all add: naive_dev_def)
  with ex show ?thesis using that by blast
qed

subsection \<open>Frames\<close>

lemma pool_inv_agree:
  assumes "pool_inv h P W" and "agree X h h'" and "X \<inter> set (bp_pool P) = {}"
  shows "pool_inv h' P W"
proof -
  have less: "a < length h" if "a \<in> set (bp_pool P)" for a using assms(1) that by (simp add: pool_inv_def)
  have same: "h' ! a = h ! a" if "a \<in> set (bp_pool P)" for a
    using assms(2,3) less [OF that] that by (intro agreeD) auto
  have "W \<subseteq> set (bp_pool P)" using pool_inv_O [OF assms(1)] .
  then show ?thesis using assms(1) same less agree_length [OF assms(2)]
    by (fastforce simp: pool_inv_def)
qed

lemma nv_frame:
  assumes "nv_inv (h, C) S W" and "agree X h h'" and "X \<inter> S = {}" and "X \<inter> set (bp_pool (na_pool C)) = {}"
  shows "nv_inv (h', C) S W"
proof -
  note d = nv_invD [OF assms(1)]
  have same: "h' ! a = h ! a" if "a \<in> S" for a using assms(2,3) d(2) that by (intro agreeD) auto
  have "refs_of h' S = refs_of h S" by (rule refs_of_cong) (simp add: same)
  moreover have "ids_ok h' S"
    using d(7) same agree_length [OF assms(2)] unfolding ids_ok_def by (metis order_less_le_trans)
  ultimately show ?thesis using d(4,6) pool_inv_agree [OF d(5) assms(2,4)] by (simp add: nv_inv_def)
qed

text \<open>One step of the GPU allocator.\<close>

lemma cg_gpu_step:
  assumes inv: "cg_inv sz S (h, G) L" and A: "cg_gpu G = NaiveBlockAllocator A"
    and step: "nv_inv (h', A') L' (L' \<union> S)" "same_env A A'" "pool_frame (length h) (na_pool A) (na_pool A')"
      "agree X h h'" "X \<inter> S = {}" "X \<subseteq> set (bp_pool (na_pool A'))" "L' \<inter> S = {}"
    and blocks: "\<And>a. a \<in> L' \<Longrightarrow> bl_size (h' ! a) = sz \<and> length (bl_tokens (h' ! a)) \<le> sz"
  shows "cg_inv sz S (h', G\<lparr>cg_gpu := NaiveBlockAllocator A'\<rparr>) L'"
proof -
  obtain A0 C where "cg_gpu G = NaiveBlockAllocator A0" and C0: "cg_cpu G = NaiveBlockAllocator C"
    "naive_cfg A0" "na_block_size A0 = sz" "shm_room A0" "nv_inv (h, C) S {}" "naive_cfg C" "na_block_size C = sz" "shm_room C"
    "0 < sz" "cg_null_block G = None" "bp_owner (na_pool A0) = GPU"
    "set (bp_pool (na_pool A0)) \<inter> set (bp_pool (na_pool C)) = {}"
    "\<forall>i \<in> set (na_all A0). cg_ids G i = Some GPU" "\<forall>i \<in> set (na_all C). cg_ids G i = Some CPU"
    "\<forall>a \<in> L \<union> S. bl_size (h ! a) = sz \<and> length (bl_tokens (h ! a)) \<le> sz"
    by (rule cg_invE [OF inv])
  then have "A0 = A" using A by simp
  note C = C0 [unfolded this]
  note d = nv_invD [OF C(5)]
  have pc: "\<forall>a \<in> set (bp_pool (na_pool C)). a < length h" using d(5) by (simp add: pool_inv_def)
  have disj: "set (bp_pool (na_pool A')) \<inter> set (bp_pool (na_pool C)) = {}"
    using step(3) C(12) pc by (fastforce simp: pool_frame_def)
  have "nv_inv (h', C) S {}" by (rule nv_frame [OF C(5) step(4,5)]) (use step(6) disj in blast)
  moreover have "bl_size (h' ! a) = sz \<and> length (bl_tokens (h' ! a)) \<le> sz" if "a \<in> L' \<union> S" for a
  proof (cases "a \<in> L'")
    case False
    then have "a \<in> S" "a < length h" using that d(2) by auto
    then have "h' ! a = h ! a" using step(4,5) by (intro agreeD) auto
    then show ?thesis using C(15) \<open>a \<in> S\<close> by simp
  qed (use blocks in blast)
  moreover have "naive_cfg A'" using naive_cfg_frame [OF C(2) step(3)] .
  moreover have "shm_room A'" using same_env_room [OF step(2)] C(4) by simp
  moreover have "na_all A' = na_all A" "na_block_size A' = sz" using step(2) C(3) by (simp_all add: same_env_def)
  moreover have "bp_owner (na_pool A') = GPU" using step(3) C(11) by (simp add: pool_frame_def)
  ultimately show ?thesis using C step(1,7) disj unfolding cg_inv_def naive_dev_def by auto
qed

lemma shared_iff:
  assumes "ids_ok h L" and "a \<in> L" and "bl_id (h ! a) = Some i"
  shows "shared h L a \<longleftrightarrow> \<not> ref_count h L i \<le> 1"
proof -
  have fin: "finite L" using assms(1) by (simp add: ids_ok_def)
  have "{x \<in> L. bl_id (h ! x) = Some i} = insert a {x \<in> L - {a}. bl_id (h ! x) = Some i}" using assms by auto
  then have "ref_count h L i = Suc (card {x \<in> L - {a}. bl_id (h ! x) = Some i})"
    using fin by (simp add: ref_count_def)
  then show ?thesis using fin assms(3) by (auto simp: shared_def)
qed

lemma not_shared_fresh:
  assumes "finite L" and "ref_count h L i = 0 \<or> i \<notin># refs_of h L" and "bl_id (h' ! a) = Some i"
    and "\<And>x. x \<in> L - {a} \<Longrightarrow> bl_id (h' ! x) = bl_id (h ! x)"
  shows "\<not> shared h' (insert a L) a"
proof
  assume "shared h' (insert a L) a"
  then obtain x where x: "x \<in> L - {a}" "bl_id (h' ! x) = Some i" using assms(3) by (auto simp: shared_def)
  then have hx: "bl_id (h ! x) = Some i" using assms(4) by simp
  then have "i \<in># refs_of h L" using refs_of_mem [OF assms(1), of x h] x(1) by simp
  moreover have "ref_count h L i \<noteq> 0"
    using x(1) hx assms(1) by (auto simp: ref_count_def)
  ultimately show False using assms(2) by simp
qed

lemma naive_init_blocks_len:
  "naive_init_blocks prev xs (h, A) = Inr r \<Longrightarrow> \<forall>x \<in> set xs. length (fst x) \<le> na_block_size A"
proof (induction xs arbitrary: prev h A r)
  case (Cons x xs)
  obtain t i where x: "x = (t, i)" by (cases x)
  from Cons.prems x obtain a h1 A1 r1 where 1: "naive_init_block prev t (Some i) (h, A) = Inr (a, h1, A1)"
    and 2: "naive_init_blocks (Some a) xs (h1, A1) = Inr r1" by auto
  from 1 obtain P where p: "pool_init_block prev t (na_block_size A) (Some i) (h, na_pool A) = Inr (a, h1, P)"
    and A1: "A1 = A\<lparr>na_pool := P\<rparr>" by (auto simp: naive_init_block_def)
  have "length t \<le> na_block_size A"
    using p by (auto simp: pool_init_block_def split: list.splits if_splits dest!: block_init_Inr)
  with Cons.IH [OF 2] show ?case by (simp add: x A1)
qed simp

end
