(* ===== verification/Cpu_Gpu_Contract.thy ===== *)
theory Cpu_Gpu_Contract
  imports Cpu_Gpu_Inv
begin

text \<open>
  Each law of the contract for the CPU and GPU allocator, and the interpretation.
\<close>

lemma on_gpu:
  "cg_gpu G = NaiveBlockAllocator A \<Longrightarrow> on_alloc f g GPU (h, G) =
     bind_r (f (h, A)) (\<lambda>(b, h1, A1). Inr (b, h1, G\<lparr>cg_gpu := NaiveBlockAllocator A1\<rparr>))"
  by (simp add: on_alloc_def get_alloc_def set_alloc_def)

lemma on_gpu_no_value:
  "cg_gpu G = NaiveBlockAllocator A \<Longrightarrow> drop_value (on_alloc (no_value f) g GPU (h, G)) =
     bind_r (f (h, A)) (\<lambda>(h1, A1). Inr (h1, G\<lparr>cg_gpu := NaiveBlockAllocator A1\<rparr>))"
  by (simp add: on_gpu no_value_def drop_value_def bind_r_def split: sum.split prod.split)

definition gpu_room :: "cpu_gpu \<Rightarrow> nat" where
  "gpu_room G = cg_get_num_free_blocks GPU G"

lemma gpu_room_naive [simp]: "cg_gpu G = NaiveBlockAllocator A \<Longrightarrow> gpu_room G = length (na_free A)"
  by (simp add: gpu_room_def cg_get_num_free_blocks_def get_alloc_def naive_get_num_free_blocks_def)

lemma cg_live:
  assumes "cg_inv sz S (h, G) L"
  shows "finite L \<and> 0 < sz \<and> (\<forall>a \<in> L. a < length h \<and> bl_id (h ! a) \<noteq> None
      \<and> real_class (bl_class (h ! a)) \<and> bl_size (h ! a) = sz \<and> length (bl_tokens (h ! a)) \<le> sz)"
proof -
  obtain A C where A: "nv_inv (h, A) L (L \<union> S)" "naive_cfg A" "0 < sz"
    "\<forall>a \<in> L \<union> S. bl_size (h ! a) = sz \<and> length (bl_tokens (h ! a)) \<le> sz"
    by (rule cg_invE [OF assms])
  note d = nv_invD [OF A(1)]
  have "bl_class (h ! a) = Naive_Block" if "a \<in> L" for a
    using pool_inv_class [OF d(5), of a] that A(2) by (simp add: naive_cfg_def)
  then show ?thesis using d A by (auto simp: real_class_def)
qed

lemma cg_not_null:
  assumes "cg_inv sz S (h, G) L" and "a \<in> L"
  shows "\<not> is_null h a" "block_id h a = bl_id (h ! a)"
  using cg_live [OF assms(1)] assms(2) block_id_real by (auto simp: is_null_def real_class_def)

lemma cg_owner:
  assumes "cg_inv sz S (h, G) L" and "a \<in> L"
  shows "bl_owner (h ! a) = GPU" "device_of a (h, G) = Inr GPU"
proof -
  obtain A C where A: "nv_inv (h, A) L (L \<union> S)" "bp_owner (na_pool A) = GPU"
    "\<forall>i \<in> set (na_all A). cg_ids G i = Some GPU" by (rule cg_invE [OF assms(1)])
  note d = nv_invD [OF A(1)]
  show "bl_owner (h ! a) = GPU" using pool_inv_class [OF d(5), of a] assms(2) A(2) by simp
  obtain i where i: "bl_id (h ! a) = Some i" using d(3) [OF assms(2)] by blast
  then have "i \<in># refs_of h L" using refs_of_mem [OF d(1) assms(2), of h] by simp
  then have "i \<in> set (na_all A)" using d(4) by (auto simp: al_inv_def)
  with i A(3) cg_not_null [OF assms] show "device_of a (h, G) = Inr GPU" by (simp add: device_of_def)
qed

lemma cg_mutable_ok:
  assumes inv: "cg_inv sz S (h, G) L" and run: "cg_allocate_mutable_block p GPU (h, G) = Inr (a, h', G')"
  shows "cg_inv sz S (h', G') (insert a L) \<and> a \<notin> L \<and> agree {a} h h' \<and> bl_tokens (h' ! a) = []
      \<and> bl_prev (h' ! a) = p \<and> \<not> shared h' (insert a L) a \<and> gpu_room G = Suc (gpu_room G')"
proof -
  obtain A C where A: "cg_gpu G = NaiveBlockAllocator A" "nv_inv (h, A) L (L \<union> S)" "naive_cfg A" "na_block_size A = sz"
    "L \<inter> S = {}" "\<forall>a \<in> L \<union> S. bl_size (h ! a) = sz \<and> length (bl_tokens (h ! a)) \<le> sz"
    by (rule cg_invE [OF inv])
  from run obtain A' where al: "naive_allocate_mutable_block p (h, A) = Inr (a, h', A')"
    and G': "G' = G\<lparr>cg_gpu := NaiveBlockAllocator A'\<rparr>"
    by (auto simp: cg_allocate_mutable_block_def on_gpu [OF A(1)])
  note q = naive_allocate_mutable_block_ok [OF A(2) al]
  have q1: "nv_inv (h', A') (insert a L) (insert a (L \<union> S))" "a \<notin> L" "a \<notin> L \<union> S" "agree {a} h h'"
    "same_env A A'" "bl_tokens (h' ! a) = []" "bl_size (h' ! a) = na_block_size A"
    using q by blast+
  have pf: "pool_frame (length h) (na_pool A) (na_pool A')" using q by (simp add: pool_frame_def)
  note d = nv_invD [OF A(2)]
  have old: "h' ! x = h ! x" if "x \<in> L" for x
    using q1(2,4) d(2) that by (intro agreeD) auto
  have "cg_inv sz S (h', G') (insert a L)"
    unfolding G'
  proof (rule cg_gpu_step [OF inv A(1) _ q1(5) pf q1(4)])
    show "nv_inv (h', A') (insert a L) (insert a L \<union> S)" using q1(1) by simp
    show "{a} \<subseteq> set (bp_pool (na_pool A'))" using pool_inv_O [OF nv_invD(5) [OF q1(1)]] by simp
  qed (use q1 A old in auto)
  moreover have "\<not> shared h' (insert a L) a"
  proof -
    obtain i where "bl_id (h' ! a) = Some i" "i \<notin># refs_of h L" using q by blast
    then show ?thesis using not_shared_fresh [OF d(1), of h i h' a] old by auto
  qed
  moreover have "gpu_room G = Suc (gpu_room G')"
  proof -
    obtain i where "na_free A = i # na_free A'" using q by blast
    then show ?thesis using A(1) by (simp add: G')
  qed
  ultimately show ?thesis using q by simp
qed

lemma cg_mutable_total:
  assumes inv: "cg_inv sz S (h, G) L" and p: "\<forall>q. p = Some q \<longrightarrow> q \<in> L" and rm: "0 < gpu_room G"
  shows "\<exists>r. cg_allocate_mutable_block p GPU (h, G) = Inr r"
proof -
  obtain A C where A: "cg_gpu G = NaiveBlockAllocator A" "nv_inv (h, A) L (L \<union> S)" "naive_cfg A"
    by (rule cg_invE [OF inv])
  have c: "0 < bp_pool_size (na_pool A)" "real_class (bp_class (na_pool A))" "prev_ok h (bp_class (na_pool A)) p"
    using A(3) by (simp_all add: naive_cfg_def prev_ok_def real_class_def)
  have "\<forall>q. p = Some q \<longrightarrow> q < length h" using p nv_invD(2) [OF A(2)] by blast
  from naive_allocate_mutable_block_total [OF A(2) c this] rm A(1)
  obtain a s where "naive_allocate_mutable_block p (h, A) = Inr (a, s)" by auto
  then show ?thesis by (cases s) (simp add: cg_allocate_mutable_block_def on_gpu [OF A(1)])
qed

lemma cg_immutables_ok:
  assumes inv: "cg_inv sz S (h, G) L" and run: "cg_allocate_immutable_blocks p tss GPU (h, G) = Inr (bs, h', G')"
  shows "cg_inv sz S (h', G') (L \<union> set bs) \<and> distinct bs \<and> set bs \<inter> L = {} \<and> agree (set bs) h h'
      \<and> map (\<lambda>a. bl_tokens (h' ! a)) bs = tss \<and> linked h' p bs \<and> gpu_room G = gpu_room G' + length tss"
proof -
  obtain A C where A: "cg_gpu G = NaiveBlockAllocator A" "nv_inv (h, A) L (L \<union> S)" "naive_cfg A" "na_block_size A = sz"
    "L \<inter> S = {}" "\<forall>a \<in> L \<union> S. bl_size (h ! a) = sz \<and> length (bl_tokens (h ! a)) \<le> sz"
    by (rule cg_invE [OF inv])
  from run obtain A' where al: "naive_allocate_immutable_blocks p tss (h, A) = Inr (bs, h', A')"
    and G': "G' = G\<lparr>cg_gpu := NaiveBlockAllocator A'\<rparr>"
    by (auto simp: cg_allocate_immutable_blocks_def on_gpu [OF A(1)])
  note q = naive_allocate_immutable_blocks_ok [OF A(2) al]
  have q1: "nv_inv (h', A') (L \<union> set bs) (L \<union> S \<union> set bs)" "distinct bs" "set bs \<inter> L = {}" "set bs \<inter> (L \<union> S) = {}"
    "agree (set bs) h h'" "map (\<lambda>a. bl_tokens (h' ! a)) bs = tss" "\<forall>a \<in> set bs. bl_size (h' ! a) = na_block_size A"
    "same_env A A'" "na_free A = map (\<lambda>a. the (bl_id (h' ! a))) bs @ na_free A'"
    "pool_frame (length h) (na_pool A) (na_pool A')" "linked h' p bs" "length bs = length tss" using q by blast+
  note d = nv_invD [OF A(2)]
  have old: "h' ! x = h ! x" if "x \<in> L" for x
    using q1(3,5) d(2) that by (intro agreeD) auto
  have len: "length t \<le> sz" if "t \<in> set tss" for t
  proof -
    from al obtain ids A1 where m: "map_r (\<lambda>_. naive_allocate_block_id) [0..<length tss] A = Inr (ids, A1)"
      and i: "naive_init_blocks p (zip tss ids) (h, A1) = Inr (bs, h', A')"
      by (auto simp: naive_allocate_immutable_blocks_def)
    from alloc_ids_ok [OF d(4) m] have l: "length ids = length tss" and A1: "A1 = A\<lparr>na_free := na_free A1, na_refs := na_refs A1\<rparr>"
      by simp_all
    have "na_block_size A1 = sz" by (subst A1) (simp add: A(4))
    moreover have "t \<in> fst ` set (zip tss ids)" using that l by (metis image_set map_fst_zip)
    ultimately show ?thesis using naive_init_blocks_len [OF i] by auto
  qed
  have "cg_inv sz S (h', G') (L \<union> set bs)"
    unfolding G'
  proof (rule cg_gpu_step [OF inv A(1) _ q1(8,10,5)])
    show "nv_inv (h', A') (L \<union> set bs) (L \<union> set bs \<union> S)" using q1(1) by (simp add: Un_commute Un_left_commute)
    show "set bs \<subseteq> set (bp_pool (na_pool A'))" using pool_inv_O [OF nv_invD(5) [OF q1(1)]] by blast
    fix a assume "a \<in> L \<union> set bs"
    then consider "a \<in> L" | "a \<in> set bs" by blast
    then show "bl_size (h' ! a) = sz \<and> length (bl_tokens (h' ! a)) \<le> sz"
    proof cases
      case 2
      then have "bl_tokens (h' ! a) \<in> set tss" using q1(6) by (metis image_eqI image_set)
      then show ?thesis using 2 q1(7) A(4) len by simp
    qed (use old A(6) in simp)
  qed (use q1(4) A(5) in auto)
  moreover have "gpu_room G = gpu_room G' + length tss" using q1(9,12) A(1) by (simp add: G')
  ultimately show ?thesis using q1 by simp
qed

lemma cg_immutables_total:
  assumes inv: "cg_inv sz S (h, G) L" and "\<forall>t \<in> set tss. length t \<le> sz" and "length tss \<le> gpu_room G"
    and p: "\<forall>q. p = Some q \<longrightarrow> q \<in> L"
  shows "\<exists>r. cg_allocate_immutable_blocks p tss GPU (h, G) = Inr r"
proof -
  obtain A C where A: "cg_gpu G = NaiveBlockAllocator A" "nv_inv (h, A) L (L \<union> S)" "naive_cfg A" "na_block_size A = sz"
    by (rule cg_invE [OF inv])
  have "\<forall>q. p = Some q \<longrightarrow> q < length h" using p nv_invD(2) [OF A(2)] by blast
  then obtain r where "naive_allocate_immutable_blocks p tss (h, A) = Inr r"
    using naive_allocate_immutable_blocks_total [OF A(2,3)] assms(2,3) A(1,4) by force
  then show ?thesis by (cases r) (simp add: cg_allocate_immutable_blocks_def on_gpu [OF A(1)])
qed

lemma cg_append_ok:
  assumes inv: "cg_inv sz S (h, G) L" and a: "a \<in> L" and run: "cg_append_token_ids a toks (h, G) = Inr (h', G')"
  shows "cg_inv sz S (h', G') L \<and> agree {a} h h' \<and> bl_tokens (h' ! a) = bl_tokens (h ! a) @ toks
      \<and> bl_prev (h' ! a) = bl_prev (h ! a) \<and> \<not> shared h' L a
      \<and> gpu_room G = gpu_room G' + (if shared h L a then 1 else 0)"
proof -
  obtain A C where A: "cg_gpu G = NaiveBlockAllocator A" "nv_inv (h, A) L (L \<union> S)" "naive_cfg A" "na_block_size A = sz"
    "L \<inter> S = {}" "\<forall>a \<in> L \<union> S. bl_size (h ! a) = sz \<and> length (bl_tokens (h ! a)) \<le> sz"
    by (rule cg_invE [OF inv])
  from run obtain A' where ap: "naive_append_token_ids a toks (h, A) = Inr (h', A')"
    and G': "G' = G\<lparr>cg_gpu := NaiveBlockAllocator A'\<rparr>"
    using cg_not_null [OF inv a] cg_owner [OF inv a]
    by (auto simp: cg_append_token_ids_def on_gpu_no_value [OF A(1)])
  note q = naive_append_ok [OF A(2) a ap]
  have q1: "nv_inv (h', A') L (L \<union> S)" "agree {a} h h'" "same_env A A'" "na_pool A' = na_pool A"
    "h' ! a = (h ! a)\<lparr>bl_tokens := bl_tokens (h ! a) @ toks, bl_id := bl_id (h' ! a)\<rparr>"
    "toks = [] \<or> length (bl_tokens (h ! a)) + length toks \<le> bl_size (h ! a)" using q by blast+
  note d = nv_invD [OF A(2)] and d' = nv_invD [OF q1(1)]
  have fields: "bl_tokens (h' ! a) = bl_tokens (h ! a) @ toks" "bl_prev (h' ! a) = bl_prev (h ! a)"
    "bl_size (h' ! a) = bl_size (h ! a)" by (subst q1(5), simp)+
  have old: "h' ! x = h ! x" if "x \<in> L" "x \<noteq> a" for x
    using q1(2) d(2) that by (intro agreeD) auto
  have "a \<in> set (bp_pool (na_pool A'))" using pool_inv_O [OF d'(5)] a by blast
  then have "cg_inv sz S (h', G') L"
    unfolding G' using a A(5)
  proof (intro cg_gpu_step [OF inv A(1) q1(1,3) _ q1(2)])
    fix x assume "x \<in> L"
    then show "bl_size (h' ! x) = sz \<and> length (bl_tokens (h' ! x)) \<le> sz"
      using A(6) a old [of x] fields q1(6) by (cases "x = a") auto
  qed (auto simp: q1(4))
  moreover obtain i where i: "bl_id (h ! a) = Some i" using d(3) [OF a] by blast
  note sh = shared_iff [OF d(7) a i]
  have "\<not> shared h' L a \<and> gpu_room G = gpu_room G' + (if shared h L a then 1 else 0)"
  proof (cases "shared h L a")
    case False
    then have e: "bl_id (h' ! a) = bl_id (h ! a)" "A' = A" using q sh i by auto
    have "bl_id (h' ! x) = bl_id (h ! x)" if "x \<in> L" for x using e(1) old that by (cases "x = a") auto
    then have "shared h' L a = shared h L a" using a by (auto simp: shared_def)
    then show ?thesis using False e(2) A(1) by (simp add: G')
  next
    case True
    then obtain j where j: "bl_id (h' ! a) = Some j" "na_free A = j # na_free A'" "ref_count h L j = 0"
      using q sh i by auto
    have "\<not> shared h' (insert a L) a"
      by (rule not_shared_fresh [OF d(1) disjI1 [OF j(3)] j(1)]) (use old in auto)
    moreover have "insert a L = L" using a by blast
    ultimately show ?thesis using True j(2) A(1) by (simp add: G')
  qed
  ultimately show ?thesis using q1(2) fields by blast
qed

lemma cg_append_total:
  assumes inv: "cg_inv sz S (h, G) L" and a: "a \<in> L" and fits: "length (bl_tokens (h ! a)) + length toks \<le> sz"
    and rm: "shared h L a \<Longrightarrow> 0 < gpu_room G"
  shows "\<exists>r. cg_append_token_ids a toks (h, G) = Inr r"
proof -
  obtain A C where A: "cg_gpu G = NaiveBlockAllocator A" "nv_inv (h, A) L (L \<union> S)" "shm_room A"
    "\<forall>a \<in> L \<union> S. bl_size (h ! a) = sz \<and> length (bl_tokens (h ! a)) \<le> sz"
    by (rule cg_invE [OF inv])
  note d = nv_invD [OF A(2)]
  obtain i where i: "bl_id (h ! a) = Some i" using d(3) [OF a] by blast
  have "ref_count h L (the (bl_id (h ! a))) \<le> 1 \<or> na_free A \<noteq> []"
    using shared_iff [OF d(7) a i] rm A(1) i by auto
  then have "\<exists>s. naive_append_token_ids a toks (h, A) = Inr s"
    using fits A(4) a by (intro naive_append_total [OF A(2) a A(3)]) auto
  then obtain h1 A1 where "naive_append_token_ids a toks (h, A) = Inr (h1, A1)" by (metis prod.exhaust)
  then show ?thesis using cg_not_null [OF inv a] cg_owner [OF inv a]
    by (simp add: cg_append_token_ids_def on_gpu_no_value [OF A(1)])
qed

lemma cg_free_ok:
  assumes inv: "cg_inv sz S (h, G) L" and a: "a \<in> L" and run: "cg_free a (h, G) = Inr (h', G')"
  shows "cg_inv sz S (h', G') (L - {a}) \<and> agree {a} h h'"
proof -
  obtain A C where A: "cg_gpu G = NaiveBlockAllocator A" "nv_inv (h, A) L (L \<union> S)" "L \<inter> S = {}"
    "\<forall>a \<in> L \<union> S. bl_size (h ! a) = sz \<and> length (bl_tokens (h ! a)) \<le> sz"
    by (rule cg_invE [OF inv])
  from run obtain A' where f: "naive_free a False (h, A) = Inr (h', A')"
    and G': "G' = G\<lparr>cg_gpu := NaiveBlockAllocator A'\<rparr>"
    using cg_not_null [OF inv a] cg_owner [OF inv a] by (auto simp: cg_free_def on_gpu_no_value [OF A(1)])
  have aW: "a \<in> L \<union> S" using a by simp
  have owner: "bp_owner (na_pool A') = bp_owner (na_pool A) \<and> bp_pool_size (na_pool A') = bp_pool_size (na_pool A)"
    using f by (auto simp: naive_free_def pool_free_block_def dest!: naive_free_block_id_ok [OF A(2) a])
  from naive_free_ok [OF A(2) a aW f] have q: "nv_inv (h', A') (L - {a}) (L \<union> S - {a})" "h' = set_block_id a None h"
    "same_env A A'" "bp_class (na_pool A') = bp_class (na_pool A)" "bp_pool (na_pool A') = bp_pool (na_pool A)"
    by blast+
  have ag: "agree {a} h h'" by (simp add: q(2) set_block_id_def agree_update)
  note d = nv_invD [OF A(2)]
  have "cg_inv sz S (h', G') (L - {a})"
    unfolding G'
  proof (rule cg_gpu_step [OF inv A(1) _ q(3) _ ag])
    have "L \<union> S - {a} = (L - {a}) \<union> S" using a A(3) by blast
    then show "nv_inv (h', A') (L - {a}) ((L - {a}) \<union> S)" using q(1) by simp
    show "pool_frame (length h) (na_pool A) (na_pool A')" using q(4,5) owner by (simp add: pool_frame_def)
    show "{a} \<subseteq> set (bp_pool (na_pool A'))" using pool_inv_O [OF d(5)] a by (simp add: q(5) subset_iff)
    fix x assume "x \<in> L - {a}"
    then show "bl_size (h' ! x) = sz \<and> length (bl_tokens (h' ! x)) \<le> sz" using A(4) by (simp add: q(2) set_block_id_nth)
  qed (use a A(3) in auto)
  with ag show ?thesis by simp
qed

lemma cg_free_total:
  assumes inv: "cg_inv sz S (h, G) L" and a: "a \<in> L"
  shows "\<exists>r. cg_free a (h, G) = Inr r"
proof -
  obtain A C where A: "cg_gpu G = NaiveBlockAllocator A" "nv_inv (h, A) L (L \<union> S)" "shm_room A"
    by (rule cg_invE [OF inv])
  obtain h1 A1 where "naive_free_block_id a (h, A) = Inr (h1, A1)"
    using naive_free_block_id_total [OF A(2) a A(3)] by auto
  then show ?thesis using cg_not_null [OF inv a] cg_owner [OF inv a]
    by (simp add: cg_free_def on_gpu_no_value [OF A(1)] naive_free_def)
qed

lemma cg_fork_ok:
  assumes inv: "cg_inv sz S (h, G) L" and as: "linked h None as" "as \<noteq> []" "distinct as" "set as \<subseteq> L"
    and run: "cg_fork (last as) (h, G) = Inr (fs, h', G')"
  shows "cg_inv sz S (h', G') (L \<union> set fs) \<and> distinct fs \<and> set fs \<inter> L = {} \<and> agree (set fs) h h' \<and> linked h' None fs
      \<and> map (\<lambda>a. (bl_tokens (h' ! a), bl_id (h' ! a))) fs = map (\<lambda>a. (bl_tokens (h ! a), bl_id (h ! a))) as
      \<and> gpu_room G' = gpu_room G"
proof -
  obtain A C where A: "cg_gpu G = NaiveBlockAllocator A" "nv_inv (h, A) L (L \<union> S)" "L \<inter> S = {}" "na_block_size A = sz"
    "\<forall>a \<in> L \<union> S. bl_size (h ! a) = sz \<and> length (bl_tokens (h ! a)) \<le> sz"
    by (rule cg_invE [OF inv])
  have la: "last as \<in> L" using as(2,4) by auto
  from run obtain A' where f: "naive_fork (last as) (h, A) = Inr (fs, h', A')"
    and G': "G' = G\<lparr>cg_gpu := NaiveBlockAllocator A'\<rparr>"
    using cg_not_null [OF inv la] cg_owner [OF inv la] by (auto simp: cg_fork_def on_gpu [OF A(1)])
  note q = naive_fork_ok [OF A(2) as f]
  have q1: "nv_inv (h', A') (L \<union> set fs) (L \<union> S \<union> set fs)" "distinct fs" "set fs \<inter> L = {}" "set fs \<inter> (L \<union> S) = {}"
    "agree (set fs) h h'" "linked h' None fs" "same_env A A'" "na_free A' = na_free A"
    "pool_frame (length h) (na_pool A) (na_pool A')"
    and m: "map (\<lambda>a. (bl_tokens (h' ! a), bl_id (h' ! a), bl_size (h' ! a))) fs
        = map (\<lambda>a. (bl_tokens (h ! a), bl_id (h ! a), na_block_size A)) as" using q by blast+
  note d = nv_invD [OF A(2)]
  have old: "h' ! x = h ! x" if "x \<in> L" for x
    using q1(3,5) d(2) that by (intro agreeD) auto
  have len: "length fs = length as" using arg_cong [OF m, of length] by simp
  have nth: "(bl_tokens (h' ! (fs ! k)), bl_id (h' ! (fs ! k)), bl_size (h' ! (fs ! k)))
      = (bl_tokens (h ! (as ! k)), bl_id (h ! (as ! k)), na_block_size A)" if "k < length fs" for k
    using arg_cong [OF m, of "\<lambda>xs. xs ! k"] that len by simp
  have "cg_inv sz S (h', G') (L \<union> set fs)"
    unfolding G'
  proof (rule cg_gpu_step [OF inv A(1) _ q1(7,9,5)])
    show "nv_inv (h', A') (L \<union> set fs) (L \<union> set fs \<union> S)" using q1(1) by (simp add: Un_commute Un_left_commute)
    show "set fs \<subseteq> set (bp_pool (na_pool A'))" using pool_inv_O [OF nv_invD(5) [OF q1(1)]] by blast
    fix a assume "a \<in> L \<union> set fs"
    then consider "a \<in> L" | k where "k < length fs" "a = fs ! k" by (auto simp: in_set_conv_nth)
    then show "bl_size (h' ! a) = sz \<and> length (bl_tokens (h' ! a)) \<le> sz"
    proof cases
      case 2
      then have "as ! k \<in> L" using len as(4) by (auto simp: subset_iff)
      then show ?thesis using nth [OF 2(1)] 2(2) A(4,5) by simp
    qed (use old A(5) in simp)
  qed (use q1(4) A(3) in auto)
  moreover have "map (\<lambda>a. (bl_tokens (h' ! a), bl_id (h' ! a))) fs = map (\<lambda>a. (bl_tokens (h ! a), bl_id (h ! a))) as"
    by (rule nth_equalityI) (use nth len in simp_all)
  ultimately show ?thesis using q1 A(1) by (simp add: G')
qed

lemma cg_fork_total:
  assumes inv: "cg_inv sz S (h, G) L" and as: "linked h None as" "as \<noteq> []" "distinct as" "set as \<subseteq> L"
  shows "\<exists>r. cg_fork (last as) (h, G) = Inr r"
proof -
  obtain A C where A: "cg_gpu G = NaiveBlockAllocator A" "nv_inv (h, A) L (L \<union> S)" "naive_cfg A" "na_block_size A = sz"
    "\<forall>a \<in> L \<union> S. bl_size (h ! a) = sz \<and> length (bl_tokens (h ! a)) \<le> sz"
    by (rule cg_invE [OF inv])
  have la: "last as \<in> L" using as(2,4) by auto
  have "\<forall>a \<in> set as. length (bl_tokens (h ! a)) \<le> na_block_size A" using A(4,5) as(4) by auto
  then have "\<exists>r. naive_fork (last as) (h, A) = Inr r" by (intro naive_fork_total [OF A(2,3) as]) auto
  then obtain r where "naive_fork (last as) (h, A) = Inr r" ..
  then show ?thesis using cg_not_null [OF inv la] cg_owner [OF inv la]
    by (cases r) (simp add: cg_fork_def on_gpu [OF A(1)])
qed

text \<open>The contract holds, for any set \<open>S\<close> of blocks that are swapped out.\<close>

interpretation cg: block_allocator cpu_gpu_ops "cg_inv sz S" gpu_room sz for sz S
  by (unfold_locales; (unfold cpu_gpu_ops_def dev_allocator.select_convs)?)
    (fact cg_live cg_mutable_ok cg_mutable_total cg_immutables_ok cg_immutables_total cg_append_ok cg_append_total
      cg_free_ok cg_free_total cg_fork_ok cg_fork_total)+

end
