(* ===== verification/Cpu_Gpu_Swap.thy ===== *)
theory Cpu_Gpu_Swap
  imports Cpu_Gpu_Contract
begin

text \<open>Swapping blocks between the devices keeps the invariant, and the blocks keep all but their ids.\<close>

definition only_id_changed :: "heap \<Rightarrow> heap \<Rightarrow> nat \<Rightarrow> bool" where
  "only_id_changed h h' a \<longleftrightarrow> h' ! a = (h ! a)\<lparr>bl_id := bl_id (h' ! a)\<rparr>"

lemma only_id_changedD:
  assumes "only_id_changed h h' a"
  shows "bl_tokens (h' ! a) = bl_tokens (h ! a)" "bl_size (h' ! a) = bl_size (h ! a)" "bl_prev (h' ! a) = bl_prev (h ! a)"
    "bl_pool_id (h' ! a) = bl_pool_id (h ! a)" "bl_class (h' ! a) = bl_class (h ! a)" "bl_owner (h' ! a) = bl_owner (h ! a)"
  by (subst assms [unfolded only_id_changed_def], simp)+

lemma only_id_changed_refl: "h' ! a = h ! a \<Longrightarrow> only_id_changed h h' a"
  by (simp add: only_id_changed_def)

lemma only_id_changed_trans: "only_id_changed h h1 a \<Longrightarrow> only_id_changed h1 h2 a \<Longrightarrow> only_id_changed h h2 a"
  unfolding only_id_changed_def by (metis blk.surjective blk.update_convs(5))

lemma nv_frame_ids:
  assumes inv: "nv_inv (h, A) L W" and len: "length h \<le> length h'" and L: "\<And>x. x \<in> L \<Longrightarrow> h' ! x = h ! x"
    and pool: "\<And>x. x \<in> set (bp_pool (na_pool A)) \<Longrightarrow> only_id_changed h h' x"
  shows "nv_inv (h', A) L W"
proof -
  note d = nv_invD [OF inv]
  have "refs_of h' L = refs_of h L" by (rule refs_of_cong) (simp add: L)
  moreover have "ids_ok h' L" using d(7) L len unfolding ids_ok_def by (metis order_less_le_trans)
  moreover have "pool_inv h' (na_pool A) W"
    using d(5) pool_inv_O [OF d(5)] only_id_changedD [OF pool] len unfolding pool_inv_def
    by (auto simp: subset_iff dest: order_less_le_trans)
  ultimately show ?thesis using d(4,6) by (simp add: nv_inv_def)
qed

text \<open>
  The general shape: \<open>bs\<close> leave the allocator \<open>A\<close> and enter \<open>C\<close>; every object but the
  temporary ones of \<open>C\<close> keeps all its fields, except for the ids of \<open>bs\<close>.
\<close>

lemma naive_swap_ok:
  assumes A: "nv_inv (h, A) L W" and C: "nv_inv (h, C) S V" and bs: "set bs \<subseteq> L" "distinct bs" "set bs \<inter> S = {}"
      "set bs \<inter> set (bp_pool (na_pool C)) \<subseteq> V"
    and disj: "set (bp_pool (na_pool A)) \<inter> set (bp_pool (na_pool C)) = {}"
      "L \<inter> set (bp_pool (na_pool C)) \<subseteq> V" "L \<inter> S = {}"
    and out: "naive_swap_out bs (h, A) = Inr (h1, A1)" and into: "naive_swap_in bs (h1, C) = Inr (h2, C2)"
  shows "nv_inv (h2, A1) (L - set bs) W \<and> nv_inv (h2, C2) (S \<union> set bs) V \<and> same_env A A1 \<and> same_env C C2
    \<and> na_pool A1 = na_pool A \<and> pool_frame (length h) (na_pool C) (na_pool C2)
    \<and> set (bp_pool (na_pool A)) \<inter> set (bp_pool (na_pool C2)) = {}
    \<and> (\<forall>a \<in> set bs. only_id_changed h h2 a) \<and> (\<forall>x \<in> (L \<union> S) - set bs. h2 ! x = h ! x)
    \<and> na_free C = map (\<lambda>a. the (bl_id (h2 ! a))) bs @ na_free C2 \<and> length h \<le> length h2"
proof -
  note dA = nv_invD [OF A] and dC = nv_invD [OF C]
  note o = naive_swap_out_ok [OF A bs(1,2) out]
  have o1: "nv_inv (h1, A1) (L - set bs) W" "length h1 = length h" "same_env A A1" "na_pool A1 = na_pool A"
    "\<And>x. h1 ! x = (if x \<in> set bs then (h ! x)\<lparr>bl_id := None\<rparr> else h ! x)" using o by blast+
  have id1: "only_id_changed h h1 x" for x by (simp add: only_id_changed_def o1(5))
  have C1: "nv_inv (h1, C) S V"
    by (rule nv_frame_ids [OF C]) (use o1(2,5) bs(3) id1 in auto)
  have lt: "\<forall>a \<in> set bs. a < length h1" using bs(1) dA(2) o1(2) by auto
  from naive_swap_in_ok [OF C1 bs(3,2) lt bs(4) into] obtain X where
    X: "nv_inv (h2, C2) (S \<union> set bs) V" "X \<inter> V = {}" "X \<inter> (S \<union> set bs) = {}" "X \<subseteq> set (bp_pool (na_pool C2))"
      "agree (set bs \<union> X) h1 h2" "\<forall>a \<in> set bs. h2 ! a = (h1 ! a)\<lparr>bl_id := bl_id (h2 ! a)\<rparr>"
      "na_free C = map (\<lambda>a. the (bl_id (h2 ! a))) bs @ na_free C2" "same_env C C2"
      "pool_frame (length h1) (na_pool C) (na_pool C2)" by blast
  have poolA: "x < length h" if "x \<in> set (bp_pool (na_pool A))" for x
    using dA(5) that by (simp add: pool_inv_def)
  have disj2: "set (bp_pool (na_pool A)) \<inter> set (bp_pool (na_pool C2)) = {}"
    using X(9) disj(1) poolA by (fastforce simp: pool_frame_def o1(2))
  have keep: "h2 ! x = h1 ! x" if "x < length h" "x \<notin> set bs" "x \<notin> X" for x
    using agreeD [OF X(5), of x] that o1(2) by auto
  have XL: "x \<notin> X" if "x \<in> L" for x
  proof
    assume "x \<in> X"
    then have "x \<in> set (bp_pool (na_pool C2))" "x \<notin> V" using X(2,4) by auto
    moreover have "x < length h" using dA(2) that by blast
    ultimately have "x \<in> set (bp_pool (na_pool C))" using X(9) by (auto simp: pool_frame_def o1(2))
    then show False using disj(2) that \<open>x \<notin> V\<close> by blast
  qed
  have A2: "nv_inv (h2, A1) (L - set bs) W"
  proof (rule nv_frame_ids [OF o1(1) agree_length [OF X(5)]])
    show "h2 ! x = h1 ! x" if "x \<in> L - set bs" for x using keep dA(2) XL that by blast
    show "only_id_changed h1 h2 x" if "x \<in> set (bp_pool (na_pool A1))" for x
    proof (cases "x \<in> set bs")
      case False
      have "x \<notin> X" using that X(4) disj2 by (auto simp: o1(4))
      then have "h2 ! x = h1 ! x" using keep poolA that False by (simp add: o1(4))
      then show ?thesis by (rule only_id_changed_refl)
    qed (use X(6) in \<open>simp add: only_id_changed_def\<close>)
  qed
  have "only_id_changed h h2 a" if "a \<in> set bs" for a
  proof -
    have "only_id_changed h1 h2 a" using X(6) that by (simp add: only_id_changed_def)
    with id1 show ?thesis by (rule only_id_changed_trans)
  qed
  moreover have "h2 ! x = h ! x" if "x \<in> (L \<union> S) - set bs" for x
  proof -
    have "x < length h" "x \<notin> X" using that dA(2) dC(2) XL X(3) by auto
    then show ?thesis using keep [of x] o1(5) that by simp
  qed
  ultimately show ?thesis
    using A2 X(1,7,8,9) o1(2,3,4) disj2 agree_length [OF X(5)] by simp
qed

subsection \<open>The two directions\<close>

lemma on_cpu_no_value:
  "cg_cpu G = NaiveBlockAllocator C \<Longrightarrow> drop_value (on_alloc (no_value f) g CPU (h, G)) =
     bind_r (f (h, C)) (\<lambda>(h1, C1). Inr (h1, G\<lparr>cg_cpu := NaiveBlockAllocator C1\<rparr>))"
  by (simp add: on_alloc_def get_alloc_def set_alloc_def no_value_def drop_value_def bind_r_def
      split: sum.split prod.split)

lemma swapped_not_null:
  assumes "cg_inv sz S (h, G) L" and "a \<in> L \<union> S"
  shows "\<not> is_null h a" "block_id h a = bl_id (h ! a)" "a < length h"
proof -
  obtain A C where A: "nv_inv (h, A) L (L \<union> S)" "naive_cfg A" by (rule cg_invE [OF assms(1)])
  have "bl_class (h ! a) = Naive_Block"
    using pool_inv_class [OF nv_invD(5) [OF A(1)] assms(2)] A(2) by (simp add: naive_cfg_def)
  then show "\<not> is_null h a" "block_id h a = bl_id (h ! a)"
    by (simp_all add: is_null_def block_id_def resolve_def)
  show "a < length h" using pool_inv_less [OF nv_invD(5) [OF A(1)] assms(2)] .
qed

lemma takeWhile_real:
  assumes "cg_inv sz S (h, G) L" and "set bs \<subseteq> L \<union> S"
  shows "takeWhile (\<lambda>a. \<not> is_null h a) bs = bs"
  using swapped_not_null(1) [OF assms(1)] assms(2) by (auto simp: takeWhile_eq_all_conv)

text \<open>Both devices after a swap.\<close>

lemma cg_inv_moved:
  assumes inv: "cg_inv sz S (h, G) L" and G: "cg_gpu G = NaiveBlockAllocator A" "cg_cpu G = NaiveBlockAllocator C"
    and new: "nv_inv (h', A') L' (L \<union> S)" "nv_inv (h', C') S' {}" "same_env A A'" "same_env C C'"
      "pool_frame (length h) (na_pool A) (na_pool A')" "pool_frame (length h) (na_pool C) (na_pool C')"
      "set (bp_pool (na_pool A')) \<inter> set (bp_pool (na_pool C')) = {}"
    and sets: "L' \<union> S' = L \<union> S" "L' \<inter> S' = {}" and blocks: "\<And>a. a \<in> L \<union> S \<Longrightarrow> only_id_changed h h' a"
  shows "cg_inv sz S' (h', G\<lparr>cg_gpu := NaiveBlockAllocator A', cg_cpu := NaiveBlockAllocator C', cg_swap_mapping := m\<rparr>) L'"
proof -
  obtain A0 C0 where X: "cg_gpu G = NaiveBlockAllocator A0" "cg_cpu G = NaiveBlockAllocator C0"
    "naive_cfg A0" "na_block_size A0 = sz" "shm_room A0" "naive_cfg C0" "na_block_size C0 = sz" "shm_room C0"
    "0 < sz" "cg_null_block G = None" "bp_owner (na_pool A0) = GPU"
    "\<forall>i \<in> set (na_all A0). cg_ids G i = Some GPU" "\<forall>i \<in> set (na_all C0). cg_ids G i = Some CPU"
    "\<forall>a \<in> L \<union> S. bl_size (h ! a) = sz \<and> length (bl_tokens (h ! a)) \<le> sz"
    by (rule cg_invE [OF inv])
  have e: "A0 = A" "C0 = C" using X(1,2) G by simp_all
  note X = X(3-) [unfolded e]
  have "naive_dev h' sz A' L' (L' \<union> S')"
    using new(1) naive_cfg_frame [OF X(1) new(5)] X(2,3) same_env_room [OF new(3)] new(3)
    unfolding sets(1) by (simp add: naive_dev_def same_env_def)
  moreover have "naive_dev h' sz C' S' {}"
    using new(2) naive_cfg_frame [OF X(4) new(6)] X(5,6) same_env_room [OF new(4)] new(4)
    by (simp add: naive_dev_def same_env_def)
  moreover have "na_all A' = na_all A" "na_all C' = na_all C" using new(3,4) by (simp_all add: same_env_def)
  moreover have "bp_owner (na_pool A') = GPU" using new(5) X(9) by (simp add: pool_frame_def)
  moreover have "bl_size (h' ! a) = sz \<and> length (bl_tokens (h' ! a)) \<le> sz" if "a \<in> L' \<union> S'" for a
    using blocks [of a] only_id_changedD [of h h' a] X(12) that unfolding sets(1) by auto
  ultimately show ?thesis using X new(7) sets unfolding cg_inv_def by auto
qed

lemma ids_of_new:
  assumes C: "nv_inv (h, C) S V" "nv_inv (h', C') S' V'" "same_env C C'" and bs: "set bs \<subseteq> S'" "distinct bs"
    and fr: "na_free C = map (\<lambda>a. the (bl_id (h' ! a))) bs @ na_free C'"
  shows "distinct (map (\<lambda>a. bl_id (h' ! a)) bs) \<and> (\<forall>a \<in> set bs. \<exists>i. bl_id (h' ! a) = Some i \<and> i \<in> set (na_all C))"
proof -
  have ids: "\<exists>i. bl_id (h' ! a) = Some i \<and> i \<in> set (na_all C)" if "a \<in> set bs" for a
  proof -
    have aS: "a \<in> S'" using that bs by blast
    obtain i where i: "bl_id (h' ! a) = Some i" using nv_invD(3) [OF C(2) aS] by blast
    have "i \<in># refs_of h' S'" using refs_of_mem [OF nv_invD(1) [OF C(2)] aS, of h'] i by simp
    then have "i \<in> set (na_all C')" using nv_invD(4) [OF C(2)] by (auto simp: al_inv_def)
    then show ?thesis using i C(3) by (simp add: same_env_def)
  qed
  have eq: "map (\<lambda>a. bl_id (h' ! a)) bs = map Some (map (\<lambda>a. the (bl_id (h' ! a))) bs)"
    using ids by fastforce
  have "distinct (na_free C)" using al_inv_partition(1) [OF nv_invD(4) [OF C(1)]] .
  then have "distinct (map (\<lambda>a. bl_id (h' ! a)) bs)"
    unfolding eq by (simp add: fr distinct_map inj_on_def)
  with ids show ?thesis by blast
qed

definition swapped :: "nat list \<Rightarrow> device \<Rightarrow> nat set \<Rightarrow> (nat \<times> nat) list \<Rightarrow> gstate \<Rightarrow> gstate \<Rightarrow> bool" where
  "swapped bs d B m s s' \<longleftrightarrow> (\<forall>a \<in> set bs. only_id_changed (fst s) (fst s') a) \<and> (\<forall>x \<in> B - set bs. fst s' ! x = fst s ! x)
    \<and> m = add_swaps (zip (map (\<lambda>a. bl_id (fst s ! a)) bs) (map (\<lambda>a. bl_id (fst s' ! a)) bs)) []
    \<and> cg_get_num_free_blocks d (snd s) = cg_get_num_free_blocks d (snd s') + length bs
    \<and> distinct (map (\<lambda>a. bl_id (fst s' ! a)) bs)
    \<and> (\<forall>a \<in> set bs. \<exists>i. bl_id (fst s' ! a) = Some i \<and> cg_ids (snd s') i = Some d)
    \<and> (\<forall>d i. cg_get_physical_block_id d i (snd s') = cg_get_physical_block_id d i (snd s))"

lemma same_physical:
  assumes "cg_gpu G = NaiveBlockAllocator A" "cg_cpu G = NaiveBlockAllocator C" "cg_gpu G' = NaiveBlockAllocator A'"
    "cg_cpu G' = NaiveBlockAllocator C'" "same_env A A'" "same_env C C'"
  shows "cg_get_physical_block_id d i G' = cg_get_physical_block_id d i G"
  using assms by (cases d) (simp_all add: cg_get_physical_block_id_def get_alloc_def naive_get_physical_block_id_def same_env_def)

lemma cg_swap_out_ok:
  assumes inv: "cg_inv sz S (h, G) L" and bs: "set bs \<subseteq> L" "distinct bs"
    and run: "cg_swap bs GPU CPU (h, G) = Inr (m, h', G')"
  shows "cg_inv sz (S \<union> set bs) (h', G') (L - set bs) \<and> swapped bs CPU (L \<union> S) m (h, G) (h', G')"
proof -
  obtain A C where A: "cg_gpu G = NaiveBlockAllocator A" "cg_cpu G = NaiveBlockAllocator C"
    "nv_inv (h, A) L (L \<union> S)" "nv_inv (h, C) S {}" "L \<inter> S = {}"
    "set (bp_pool (na_pool A)) \<inter> set (bp_pool (na_pool C)) = {}" "\<forall>i \<in> set (na_all C). cg_ids G i = Some CPU"
    by (rule cg_invE [OF inv])
  have tw: "takeWhile (\<lambda>a. \<not> is_null h a) bs = bs" by (rule takeWhile_real [OF inv]) (use bs in auto)
  from run obtain h1 A1 C2 where out: "naive_swap_out bs (h, A) = Inr (h1, A1)"
    and into: "naive_swap_in bs (h1, C) = Inr (h', C2)"
    and G': "G' = G\<lparr>cg_gpu := NaiveBlockAllocator A1, cg_cpu := NaiveBlockAllocator C2, cg_swap_mapping :=
        add_swaps (zip (map (block_id h) bs) (map (block_id h') bs)) (cg_swap_mapping G)\<rparr>"
    and m: "m = add_swaps (zip (map (block_id h) bs) (map (block_id h') bs)) []"
    by (auto simp: cg_swap_def cg_swap_out_def cg_swap_in_def tw on_gpu_no_value [OF A(1)] on_cpu_no_value A(2) Let_def)
  have poolL: "L \<subseteq> set (bp_pool (na_pool A))" using pool_inv_O [OF nv_invD(5) [OF A(3)]] by blast
  have p: "set bs \<inter> S = {}" "set bs \<inter> set (bp_pool (na_pool C)) \<subseteq> {}" "L \<inter> set (bp_pool (na_pool C)) \<subseteq> {}"
    using bs A(5,6) poolL by auto
  note q = naive_swap_ok [OF A(3,4) bs p(1,2) A(6) p(3) A(5) out into]
  have q1: "nv_inv (h', A1) (L - set bs) (L \<union> S)" "nv_inv (h', C2) (S \<union> set bs) {}" "same_env A A1" "same_env C C2"
    "na_pool A1 = na_pool A" "pool_frame (length h) (na_pool C) (na_pool C2)"
    "set (bp_pool (na_pool A)) \<inter> set (bp_pool (na_pool C2)) = {}" "\<forall>a \<in> set bs. only_id_changed h h' a"
    "\<forall>x \<in> (L \<union> S) - set bs. h' ! x = h ! x" "na_free C = map (\<lambda>a. the (bl_id (h' ! a))) bs @ na_free C2" using q by blast+
  have inv': "cg_inv sz (S \<union> set bs) (h', G') (L - set bs)"
    unfolding G'
  proof (rule cg_inv_moved [OF inv A(1,2) q1(1,2,3,4) _ q1(6)])
    show "only_id_changed h h' a" if "a \<in> L \<union> S" for a
      using q1(8,9) only_id_changed_refl that by (cases "a \<in> set bs") auto
  qed (use q1(5,7) bs A(5) in \<open>auto simp: pool_frame_def\<close>)
  have new: "distinct (map (\<lambda>a. bl_id (h' ! a)) bs) \<and> (\<forall>a \<in> set bs. \<exists>i. bl_id (h' ! a) = Some i \<and> i \<in> set (na_all C))"
    by (rule ids_of_new [OF A(4) q1(2,4) _ bs(2) q1(10)]) simp
  have m1: "map (block_id h) bs = map (\<lambda>a. bl_id (h ! a)) bs"
    by (rule map_cong [OF refl]) (use swapped_not_null(2) [OF inv] bs(1) in auto)
  have m2: "map (block_id h') bs = map (\<lambda>a. bl_id (h' ! a)) bs"
    by (rule map_cong [OF refl]) (use swapped_not_null(2) [OF inv'] in auto)
  have "cg_get_num_free_blocks CPU G = cg_get_num_free_blocks CPU G' + length bs"
    using q1(10) A(2) by (simp add: cg_get_num_free_blocks_def get_alloc_def naive_get_num_free_blocks_def G')
  moreover have "cg_ids G' = cg_ids G" by (simp add: G')
  moreover have "cg_get_physical_block_id d i G' = cg_get_physical_block_id d i G" for d i
    by (rule same_physical [OF A(1,2) _ _ q1(3,4)]) (simp_all add: G')
  ultimately have "swapped bs CPU (L \<union> S) m (h, G) (h', G')"
    unfolding swapped_def fst_conv snd_conv using q1(8,9) new m [unfolded m1 m2] A(7) by metis
  with inv' show ?thesis ..
qed

lemma cg_swap_in_ok:
  assumes inv: "cg_inv sz S (h, G) L" and bs: "set bs \<subseteq> S" "distinct bs"
    and run: "cg_swap bs CPU GPU (h, G) = Inr (m, h', G')"
  shows "cg_inv sz (S - set bs) (h', G') (L \<union> set bs) \<and> swapped bs GPU (L \<union> S) m (h, G) (h', G')"
proof -
  obtain A C where A: "cg_gpu G = NaiveBlockAllocator A" "cg_cpu G = NaiveBlockAllocator C"
    "nv_inv (h, A) L (L \<union> S)" "nv_inv (h, C) S {}" "L \<inter> S = {}"
    "set (bp_pool (na_pool A)) \<inter> set (bp_pool (na_pool C)) = {}" "\<forall>i \<in> set (na_all A). cg_ids G i = Some GPU"
    by (rule cg_invE [OF inv])
  have tw: "takeWhile (\<lambda>a. \<not> is_null h a) bs = bs" by (rule takeWhile_real [OF inv]) (use bs in auto)
  from run obtain h1 C1 A2 where out: "naive_swap_out bs (h, C) = Inr (h1, C1)"
    and into: "naive_swap_in bs (h1, A) = Inr (h', A2)"
    and G': "G' = G\<lparr>cg_gpu := NaiveBlockAllocator A2, cg_cpu := NaiveBlockAllocator C1, cg_swap_mapping :=
        add_swaps (zip (map (block_id h) bs) (map (block_id h') bs)) (cg_swap_mapping G)\<rparr>"
    and m: "m = add_swaps (zip (map (block_id h) bs) (map (block_id h') bs)) []"
    by (auto simp: cg_swap_def cg_swap_out_def cg_swap_in_def tw on_gpu_no_value on_cpu_no_value [OF A(2)] A(1) Let_def)
  have p: "set bs \<inter> L = {}" "set bs \<inter> set (bp_pool (na_pool A)) \<subseteq> L \<union> S" "S \<inter> set (bp_pool (na_pool A)) \<subseteq> L \<union> S"
    "set (bp_pool (na_pool C)) \<inter> set (bp_pool (na_pool A)) = {}" "S \<inter> L = {}"
    using bs A(5,6) by auto
  note q = naive_swap_ok [OF A(4,3) bs p(1,2) p(4) p(3) p(5) out into]
  have q1: "nv_inv (h', C1) (S - set bs) {}" "nv_inv (h', A2) (L \<union> set bs) (L \<union> S)" "same_env C C1" "same_env A A2"
    "na_pool C1 = na_pool C" "pool_frame (length h) (na_pool A) (na_pool A2)"
    "set (bp_pool (na_pool C)) \<inter> set (bp_pool (na_pool A2)) = {}" "\<forall>a \<in> set bs. only_id_changed h h' a"
    "\<forall>x \<in> (S \<union> L) - set bs. h' ! x = h ! x" "na_free A = map (\<lambda>a. the (bl_id (h' ! a))) bs @ na_free A2" using q by blast+
  have inv': "cg_inv sz (S - set bs) (h', G') (L \<union> set bs)"
    unfolding G'
  proof (rule cg_inv_moved [OF inv A(1,2) q1(2,1,4,3,6)])
    show "only_id_changed h h' a" if "a \<in> L \<union> S" for a
      using q1(8,9) only_id_changed_refl that by (cases "a \<in> set bs") auto
  qed (use q1(5,7) bs A(5) in \<open>auto simp: pool_frame_def\<close>)
  have new: "distinct (map (\<lambda>a. bl_id (h' ! a)) bs) \<and> (\<forall>a \<in> set bs. \<exists>i. bl_id (h' ! a) = Some i \<and> i \<in> set (na_all A))"
    by (rule ids_of_new [OF A(3) q1(2,4) _ bs(2) q1(10)]) simp
  have m1: "map (block_id h) bs = map (\<lambda>a. bl_id (h ! a)) bs"
    by (rule map_cong [OF refl]) (use swapped_not_null(2) [OF inv] bs(1) in auto)
  have m2: "map (block_id h') bs = map (\<lambda>a. bl_id (h' ! a)) bs"
    by (rule map_cong [OF refl]) (use swapped_not_null(2) [OF inv'] in auto)
  have "cg_get_num_free_blocks GPU G = cg_get_num_free_blocks GPU G' + length bs"
    using q1(10) A(1) by (simp add: cg_get_num_free_blocks_def get_alloc_def naive_get_num_free_blocks_def G')
  moreover have "cg_ids G' = cg_ids G" by (simp add: G')
  moreover have "\<forall>x \<in> (L \<union> S) - set bs. h' ! x = h ! x" using q1(9) by auto
  moreover have "cg_get_physical_block_id d i G' = cg_get_physical_block_id d i G" for d i
    by (rule same_physical [OF A(1,2) _ _ q1(4,3)]) (simp_all add: G')
  ultimately have "swapped bs GPU (L \<union> S) m (h, G) (h', G')"
    unfolding swapped_def fst_conv snd_conv using q1(8) new m [unfolded m1 m2] A(7) by metis
  with inv' show ?thesis ..
qed

text \<open>A swap succeeds when the other device has an id for every block.\<close>

lemma swap_total:
  assumes A: "nv_inv (h, A) L W" and C: "nv_inv (h, C) S V" and bs: "set bs \<subseteq> L" "distinct bs" "set bs \<inter> S = {}"
      "set bs \<inter> set (bp_pool (na_pool C)) \<subseteq> V"
    and cfg: "shm_room A" "naive_cfg C" "shm_room C" and free: "length bs \<le> length (na_free C)"
    and blocks: "\<forall>a \<in> set bs. length (bl_tokens (h ! a)) \<le> na_block_size C \<and> (\<forall>p. bl_prev (h ! a) = Some p \<longrightarrow> p < length h)"
  shows "\<exists>h1 A1 r. naive_swap_out bs (h, A) = Inr (h1, A1) \<and> naive_swap_in bs (h1, C) = Inr r"
proof -
  obtain h1 A1 where out: "naive_swap_out bs (h, A) = Inr (h1, A1)"
    using naive_swap_out_total [OF A bs(1,2) cfg(1)] by auto
  note o = naive_swap_out_ok [OF A bs(1,2) out]
  have o1: "length h1 = length h" "\<And>x. h1 ! x = (if x \<in> set bs then (h ! x)\<lparr>bl_id := None\<rparr> else h ! x)" using o by blast+
  have "nv_inv (h1, C) S V"
    by (rule nv_frame_ids [OF C]) (use o1 bs(3) in \<open>auto simp: only_id_changed_def\<close>)
  moreover have "\<forall>a \<in> set bs. a < length h1" using bs(1) nv_invD(2) [OF A] o1(1) by auto
  moreover have "\<forall>a \<in> set bs. length (bl_tokens (h1 ! a)) \<le> na_block_size C \<and> (\<forall>p. bl_prev (h1 ! a) = Some p \<longrightarrow> p < length h1)"
    using blocks o1 by simp
  ultimately obtain r where "naive_swap_in bs (h1, C) = Inr r"
    using naive_swap_in_total [OF _ bs(3,2) _ bs(4) cfg(2,3) free] by blast
  with out show ?thesis by blast
qed

lemma cg_swap_out_total:
  assumes inv: "cg_inv sz S (h, G) L" and bs: "set bs \<subseteq> L" "distinct bs"
    and free: "length bs \<le> cg_get_num_free_blocks CPU G" and prev: "\<forall>a \<in> set bs. \<forall>p. bl_prev (h ! a) = Some p \<longrightarrow> p < length h"
  shows "\<exists>r. cg_swap bs GPU CPU (h, G) = Inr r"
proof -
  obtain A C where A: "cg_gpu G = NaiveBlockAllocator A" "cg_cpu G = NaiveBlockAllocator C"
    "nv_inv (h, A) L (L \<union> S)" "shm_room A" "nv_inv (h, C) S {}" "naive_cfg C" "na_block_size C = sz" "shm_room C"
    "L \<inter> S = {}" "set (bp_pool (na_pool A)) \<inter> set (bp_pool (na_pool C)) = {}"
    "\<forall>a \<in> L \<union> S. bl_size (h ! a) = sz \<and> length (bl_tokens (h ! a)) \<le> sz"
    by (rule cg_invE [OF inv])
  have tw: "takeWhile (\<lambda>a. \<not> is_null h a) bs = bs" by (rule takeWhile_real [OF inv]) (use bs in auto)
  have poolL: "L \<subseteq> set (bp_pool (na_pool A))" using pool_inv_O [OF nv_invD(5) [OF A(3)]] by blast
  have p: "set bs \<inter> S = {}" "set bs \<inter> set (bp_pool (na_pool C)) \<subseteq> {}" using bs A(9,10) poolL by auto
  have fr: "length bs \<le> length (na_free C)"
    using free A(2) by (simp add: cg_get_num_free_blocks_def get_alloc_def naive_get_num_free_blocks_def)
  have "\<forall>a \<in> set bs. length (bl_tokens (h ! a)) \<le> na_block_size C \<and> (\<forall>p. bl_prev (h ! a) = Some p \<longrightarrow> p < length h)"
    using A(7,11) bs(1) prev by auto
  from swap_total [OF A(3,5) bs p A(4,6,8) fr this] obtain h1 A1 r where
    "naive_swap_out bs (h, A) = Inr (h1, A1)" "naive_swap_in bs (h1, C) = Inr r" by blast
  then show ?thesis
    by (cases r) (simp add: cg_swap_def cg_swap_out_def cg_swap_in_def tw on_gpu_no_value [OF A(1)] on_cpu_no_value A(2) Let_def)
qed

lemma cg_swap_in_total:
  assumes inv: "cg_inv sz S (h, G) L" and bs: "set bs \<subseteq> S" "distinct bs"
    and free: "length bs \<le> cg_get_num_free_blocks GPU G" and prev: "\<forall>a \<in> set bs. \<forall>p. bl_prev (h ! a) = Some p \<longrightarrow> p < length h"
  shows "\<exists>r. cg_swap bs CPU GPU (h, G) = Inr r"
proof -
  obtain A C where A: "cg_gpu G = NaiveBlockAllocator A" "cg_cpu G = NaiveBlockAllocator C"
    "nv_inv (h, A) L (L \<union> S)" "naive_cfg A" "na_block_size A = sz" "shm_room A" "nv_inv (h, C) S {}" "shm_room C"
    "L \<inter> S = {}" "\<forall>a \<in> L \<union> S. bl_size (h ! a) = sz \<and> length (bl_tokens (h ! a)) \<le> sz"
    by (rule cg_invE [OF inv])
  have tw: "takeWhile (\<lambda>a. \<not> is_null h a) bs = bs" by (rule takeWhile_real [OF inv]) (use bs in auto)
  have p: "set bs \<inter> L = {}" "set bs \<inter> set (bp_pool (na_pool A)) \<subseteq> L \<union> S" using bs A(9) by auto
  have fr: "length bs \<le> length (na_free A)"
    using free A(1) by (simp add: cg_get_num_free_blocks_def get_alloc_def naive_get_num_free_blocks_def)
  have "\<forall>a \<in> set bs. length (bl_tokens (h ! a)) \<le> na_block_size A \<and> (\<forall>p. bl_prev (h ! a) = Some p \<longrightarrow> p < length h)"
    using A(5,10) bs(1) prev by auto
  from swap_total [OF A(7,3) bs p A(8,4,6) fr this] obtain h1 C1 r where
    "naive_swap_out bs (h, C) = Inr (h1, C1)" "naive_swap_in bs (h1, A) = Inr r" by blast
  then show ?thesis
    by (cases r) (simp add: cg_swap_def cg_swap_out_def cg_swap_in_def tw on_gpu_no_value on_cpu_no_value [OF A(2)] A(1) Let_def)
qed

text \<open>The physical block ids exist.\<close>

lemma list_index_total: "x \<in> set xs \<Longrightarrow> \<exists>n. list_index xs x = Inr n \<and> n < length xs \<and> xs ! n = x"
  by (induction xs x rule: list_index.induct) auto

lemma cg_physical_total:
  assumes inv: "cg_inv sz S (h, G) L"
  shows "a \<in> L \<Longrightarrow> bl_id (h ! a) = Some i \<Longrightarrow> \<exists>n. cg_get_physical_block_id GPU i G = Inr n"
    and "a \<in> S \<Longrightarrow> bl_id (h ! a) = Some i \<Longrightarrow> \<exists>n. cg_get_physical_block_id CPU i G = Inr n"
proof -
  obtain A C where A: "cg_gpu G = NaiveBlockAllocator A" "cg_cpu G = NaiveBlockAllocator C"
    "nv_inv (h, A) L (L \<union> S)" "nv_inv (h, C) S {}"
    by (rule cg_invE [OF inv])
  have mem: "i \<in> set (na_all X)" if "nv_inv (h, X) Y W" "a \<in> Y" "bl_id (h ! a) = Some i" for X Y W
    using nv_invD(4) [OF that(1)] refs_of_mem [OF nv_invD(1) [OF that(1)] that(2), of h] that(3) by (auto simp: al_inv_def)
  have idx: "\<exists>n. list_index (sort (na_all X)) i = Inr n" if "i \<in> set (na_all X)" for X
    using list_index_total [of i "sort (na_all X)"] that by auto
  show "a \<in> L \<Longrightarrow> bl_id (h ! a) = Some i \<Longrightarrow> \<exists>n. cg_get_physical_block_id GPU i G = Inr n"
    using mem [OF A(3)] idx [of A] A(1) by (simp add: cg_get_physical_block_id_def get_alloc_def naive_get_physical_block_id_def)
  show "a \<in> S \<Longrightarrow> bl_id (h ! a) = Some i \<Longrightarrow> \<exists>n. cg_get_physical_block_id CPU i G = Inr n"
    using mem [OF A(4)] idx [of C] A(2) by (simp add: cg_get_physical_block_id_def get_alloc_def naive_get_physical_block_id_def)
qed

end
