(* ===== verification/Manager_Inv.thy ===== *)
theory Manager_Inv
  imports Block_Manager Cpu_Gpu_Swap
begin

text \<open>
  The block manager over the naive allocator, without a sliding window: every sequence has its
  own blocks, all on one device, and no block belongs to no sequence. \<open>contents\<close> is the
  abstract state: the tokens that the table of a sequence (\<open>Inl\<close>, by id) or the cross table
  of a request (\<open>Inr\<close>) holds.
\<close>

type_synonym table_key = "nat + string"

definition tabs :: "block_manager \<Rightarrow> table_key \<Rightarrow> block_table option" where
  "tabs M k = (case k of Inl i \<Rightarrow> bm_tables M i | Inr r \<Rightarrow> bm_cross M r)"

lemma tabs_simps [simp]: "tabs M (Inl i) = bm_tables M i" "tabs M (Inr r) = bm_cross M r"
  by (simp_all add: tabs_def)

definition contents :: "mstate \<Rightarrow> table_key \<Rightarrow> int list option" where
  "contents s k = map_option (get_all_token_ids (fst s)) (tabs (snd s) k)"

definition opt_blocks :: "block_table option \<Rightarrow> nat set" where
  "opt_blocks t = (case t of None \<Rightarrow> {} | Some T \<Rightarrow> set (blocks_of T))"

lemma opt_blocks_simps [simp]: "opt_blocks None = {}" "opt_blocks (Some T) = set (blocks_of T)"
  by (simp_all add: opt_blocks_def)

text \<open>\<open>L\<close>: the blocks on the GPU; \<open>S\<close>: the blocks that are swapped out.\<close>

definition mg_at :: "nat \<Rightarrow> nat set \<Rightarrow> nat set \<Rightarrow> mstate \<Rightarrow> bool" where
  "mg_at sz L S s \<longleftrightarrow> cg_inv sz S (fst s, bm_alloc (snd s)) L
     \<and> bm_block_size (snd s) = sz \<and> bm_max_window (snd s) = None \<and> \<not> bm_enable_caching (snd s)
     \<and> 0 \<le> bm_watermark_blocks (snd s)
     \<and> (\<forall>k T. tabs (snd s) k = Some T \<longrightarrow> table_ok (fst s) sz T \<and> (set (blocks_of T) \<subseteq> L \<or> set (blocks_of T) \<subseteq> S))
     \<and> (\<forall>k k'. k \<noteq> k' \<longrightarrow> opt_blocks (tabs (snd s) k) \<inter> opt_blocks (tabs (snd s) k') = {})
     \<and> L \<union> S = (\<Union>k. opt_blocks (tabs (snd s) k))
     \<and> dom (bm_computed (snd s)) = dom (bm_tables (snd s)) \<and> dom (bm_access (snd s)) = dom (bm_tables (snd s))"

lemma mg_atD:
  assumes "mg_at sz L S (h, M)"
  shows "cg_inv sz S (h, bm_alloc M) L" "bm_block_size M = sz" "bm_max_window M = None" "\<not> bm_enable_caching M"
    "tabs M k = Some T \<Longrightarrow> table_ok h sz T"
    "tabs M k = Some T \<Longrightarrow> set (blocks_of T) \<subseteq> L \<or> set (blocks_of T) \<subseteq> S"
    "k \<noteq> k' \<Longrightarrow> opt_blocks (tabs M k) \<inter> opt_blocks (tabs M k') = {}"
    "L \<union> S = (\<Union>k. opt_blocks (tabs M k))"
    "dom (bm_computed M) = dom (bm_tables M)" "dom (bm_access M) = dom (bm_tables M)"
    "opt_blocks (tabs M k) \<subseteq> L \<union> S" "0 \<le> bm_watermark_blocks M"
  using assms by (auto simp: mg_at_def)

lemma mg_disjoint: "mg_at sz L S (h, M) \<Longrightarrow> L \<inter> S = {}"
proof -
  assume "mg_at sz L S (h, M)"
  then obtain A C where "L \<inter> S = {}" by (metis mg_atD(1) cg_invE)
  then show ?thesis .
qed

lemma mg_less: "mg_at sz L S (h, M) \<Longrightarrow> a \<in> L \<union> S \<Longrightarrow> a < length h \<and> \<not> is_null h a"
  using swapped_not_null [OF mg_atD(1)] by blast

text \<open>The tokens of a table whose blocks are real.\<close>

lemma all_tokens:
  assumes "cg_inv sz S (h, G) L" and "set (blocks_of T) \<subseteq> L \<union> S"
  shows "get_all_token_ids h T = toks_of h (blocks_of T)"
proof -
  have "map (\<lambda>a. bl_tokens (resolve h a)) (blocks_of T) = map (\<lambda>a. bl_tokens (h ! a)) (blocks_of T)"
  proof (rule map_cong [OF refl])
    fix a assume "a \<in> set (blocks_of T)"
    then have "\<not> is_null h a" using assms swapped_not_null(1) by blast
    then show "bl_tokens (resolve h a) = bl_tokens (h ! a)"
      by (simp add: is_null_def resolve_def split: block_class.splits)
  qed
  then have "concat (map (\<lambda>a. bl_tokens (resolve h a)) (blocks_of T)) = toks_of h (blocks_of T)"
    by (simp only: toks_of_def)
  moreover have "blocks_of T = [] \<Longrightarrow> toks_of h (blocks_of T) = []" by (simp add: toks_of_def)
  ultimately show ?thesis
    by (simp add: get_all_token_ids_def is_allocated_def bt_len_def flip: blocks_of_def)
qed

text \<open>
  One table changes: \<open>t'\<close> takes the place of the table at \<open>k\<close>; the blocks of the other
  tables keep their place and their objects.
\<close>

lemma mg_update:
  assumes mg: "mg_at sz L S (h, M)" and inv: "cg_inv sz S' (h', bm_alloc M') L'"
    and cfg: "bm_block_size M' = sz" "bm_max_window M' = None" "\<not> bm_enable_caching M'" "0 \<le> bm_watermark_blocks M'"
    and tabs: "tabs M' = (tabs M)(k := t')"
    and dom: "dom (bm_computed M') = dom (bm_tables M')" "dom (bm_access M') = dom (bm_tables M')"
    and old: "\<And>a. a \<in> (L \<union> S) - opt_blocks (tabs M k) \<Longrightarrow> h' ! a = h ! a"
    and new: "\<And>T. t' = Some T \<Longrightarrow> table_ok h' sz T \<and> (set (blocks_of T) \<subseteq> L' \<or> set (blocks_of T) \<subseteq> S')"
    and fresh: "opt_blocks t' \<inter> ((L \<union> S) - opt_blocks (tabs M k)) = {}"
    and sets: "L' - opt_blocks t' = L - opt_blocks (tabs M k)" "S' - opt_blocks t' = S - opt_blocks (tabs M k)"
      "opt_blocks t' \<subseteq> L' \<union> S'"
  shows "mg_at sz L' S' (h', M') \<and> contents (h', M') = (contents (h, M))(k := map_option (\<lambda>T. toks_of h' (blocks_of T)) t')"
proof -
  note d = mg_atD [OF mg]
  have other: "set (blocks_of T) \<subseteq> (L \<union> S) - opt_blocks (tabs M k)" if "k' \<noteq> k" "tabs M k' = Some T" for k' T
    using d(7) [OF that(1)] d(11) [of k'] that(2) by auto
  have same: "table_ok h' sz T \<and> toks_of h' (blocks_of T) = toks_of h (blocks_of T)"
    if "k' \<noteq> k" "tabs M k' = Some T" for k' T
  proof -
    have e: "h' ! a = h ! a" if "a \<in> set (blocks_of T)" for a using other [OF \<open>k' \<noteq> k\<close> \<open>tabs M k' = Some T\<close>] old that by blast
    have "table_ok h' sz T" using d(5) [OF that(2)] tbl_cong [of T h' h] e by (simp add: table_ok_def)
    moreover have "toks_of h' (blocks_of T) = toks_of h (blocks_of T)" by (rule toks_of_cong) (simp add: e)
    ultimately show ?thesis ..
  qed
  have place: "set (blocks_of T) \<subseteq> L' \<or> set (blocks_of T) \<subseteq> S'" if "k' \<noteq> k" "tabs M k' = Some T" for k' T
    using d(6) [OF that(2)] other [OF that] sets by blast
  have disj: "opt_blocks (tabs M' k1) \<inter> opt_blocks (tabs M' k2) = {}" if "k1 \<noteq> k2" for k1 k2
  proof -
    have "opt_blocks (tabs M k') \<subseteq> (L \<union> S) - opt_blocks (tabs M k)" if "k' \<noteq> k" for k'
      using d(7) [OF that] d(11) [of k'] by blast
    then have "opt_blocks (tabs M k') \<inter> opt_blocks t' = {}" if "k' \<noteq> k" for k' using fresh that by blast
    then show ?thesis using d(7) [OF that] that unfolding tabs by (cases "k1 = k"; cases "k2 = k") auto
  qed
  have un: "L' \<union> S' = (\<Union>k. opt_blocks (tabs M' k))"
  proof -
    have "L' \<union> S' = ((L \<union> S) - opt_blocks (tabs M k)) \<union> opt_blocks t'" using sets by blast
    also have "(L \<union> S) - opt_blocks (tabs M k) = (\<Union>k' \<in> - {k}. opt_blocks (tabs M k'))"
      using d(7) unfolding d(8) by fastforce
    finally show ?thesis unfolding tabs by (auto split: if_splits)
  qed
  have "table_ok h' sz T \<and> (set (blocks_of T) \<subseteq> L' \<or> set (blocks_of T) \<subseteq> S')" if "tabs M' k' = Some T" for k' T
    using that same [of k' T] place [of k' T] new unfolding tabs by (cases "k' = k") auto
  then have mg': "mg_at sz L' S' (h', M')" using inv cfg dom disj un by (simp add: mg_at_def)
  moreover have "contents (h', M') k' = ((contents (h, M))(k := map_option (\<lambda>T. toks_of h' (blocks_of T)) t')) k'" for k'
  proof -
    have "get_all_token_ids h' T = toks_of h' (blocks_of T)" if "tabs M' k' = Some T" for T
      using all_tokens [OF inv] mg_atD(11) [OF mg', of k'] that by simp
    moreover have "get_all_token_ids h T = toks_of h (blocks_of T)" if "tabs M k' = Some T" for T
      using all_tokens [OF d(1)] d(11) [of k'] that by simp
    ultimately show ?thesis using same [of k'] unfolding contents_def tabs
      by (cases "k' = k"; cases "tabs M k'"; cases t') (auto simp: tabs)
  qed
  ultimately show ?thesis by blast
qed

lemma cg_clear_inv:
  assumes "cg_inv sz S (h, G) L"
  shows "cg_inv sz S (h, snd (cg_clear_copy_on_writes G)) L"
    and "gpu_room (snd (cg_clear_copy_on_writes G)) = gpu_room G"
proof -
  obtain A C where A: "cg_gpu G = NaiveBlockAllocator A" by (rule cg_invE [OF assms])
  have e: "snd (cg_clear_copy_on_writes G) = G\<lparr>cg_gpu := NaiveBlockAllocator (A\<lparr>na_cows := []\<rparr>)\<rparr>"
    by (simp add: cg_clear_copy_on_writes_def A naive_clear_copy_on_writes_def clear_cows_def)
  have reserved: "reserved_ids (A\<lparr>na_cows := []\<rparr>) = reserved_ids A" by (cases "na_kv_shm A") (simp_all add: reserved_ids_def)
  have "nv_inv (h, A\<lparr>na_cows := []\<rparr>) X Y = nv_inv (h, A) X Y" for X Y
    by (simp add: nv_inv_def al_inv_def reserved)
  moreover have "naive_cfg (A\<lparr>na_cows := []\<rparr>) = naive_cfg A" "shm_room (A\<lparr>na_cows := []\<rparr>) = shm_room A"
    by (simp add: naive_cfg_def, cases "na_kv_shm A", simp_all add: shm_room_def)
  ultimately show "cg_inv sz S (h, snd (cg_clear_copy_on_writes G)) L"
    using assms unfolding e by (simp add: cg_inv_def naive_dev_def A)
  show "gpu_room (snd (cg_clear_copy_on_writes G)) = gpu_room G" unfolding e using A by simp
qed

end
