(* ===== verification/Manager_Ops.thy ===== *)
theory Manager_Ops
  imports Manager_Inv
begin

text \<open>What the operations of the block manager do to its invariant and to the contents.\<close>

definition gpu_free :: "mstate \<Rightarrow> nat" where
  "gpu_free s = gpu_room (bm_alloc (snd s))"

text \<open>\<open>toks\<close> for every key of \<open>K\<close>.\<close>

definition put_all :: "table_key set \<Rightarrow> int list \<Rightarrow> (table_key \<Rightarrow> int list option) \<Rightarrow> table_key \<Rightarrow> int list option" where
  "put_all K toks C = (\<lambda>k. if k \<in> K then Some toks else C k)"

subsection \<open>Allocation\<close>

lemma init_empty_table:
  "init_table sz [] w h = Inr \<lparr>bt_block_size = sz, bt_blocks = \<lparr>ls_blocks = [], ls_ids = []\<rparr>, bt_window = w,
     bt_num_full_slots = 0\<rparr>"
  by (simp add: init_table_def ls_update_def get_num_token_ids_def)

lemma allocate_sequence_ok:
  assumes mg: "mg_at sz L S (h, M)" and run: "allocate_sequence q (h, M) = Inr (T, h', M')"
  shows "M' = M\<lparr>bm_alloc := bm_alloc M'\<rparr> \<and> cg_inv sz S (h', bm_alloc M') (L \<union> set (blocks_of T))
    \<and> set (blocks_of T) \<inter> (L \<union> S) = {} \<and> agree (set (blocks_of T)) h h' \<and> table_ok h' sz T
    \<and> toks_of h' (blocks_of T) = sq_tokens q \<and> (sq_tokens q \<noteq> [] \<longrightarrow> blocks_of T \<noteq> [])
    \<and> gpu_free (h, M) = gpu_free (h', M') + ceil_div (length (sq_tokens q)) sz"
proof -
  note d = mg_atD [OF mg]
  let ?T = "\<lparr>bt_block_size = sz, bt_blocks = \<lparr>ls_blocks = [], ls_ids = []\<rparr>, bt_window = None, bt_num_full_slots = 0\<rparr>"
  show ?thesis
  proof (cases "sq_tokens q = []")
    case True
    then have "T = ?T" "h' = h" "M' = M" using run d(2,3) by (auto simp: allocate_sequence_def init_empty_table)
    moreover have "table_ok h sz ?T" by (rule cg.empty_table) simp_all
    moreover have "0 < sz" by (rule cg_invE [OF d(1)])
    then have "ceil_div 0 sz = 0" by (simp add: ceil_div_def)
    ultimately show ?thesis using d(1) True by (simp add: blocks_of_def toks_of_def)
  next
    case False
    then obtain G where al: "bt_allocate cpu_gpu_ops (sq_tokens q) GPU ((h, bm_alloc M), ?T) = Inr ((h', G), T)"
      and M': "M' = M\<lparr>bm_alloc := G\<rparr>"
      using run d(2,3) by (auto simp: allocate_sequence_def init_empty_table split: prod.splits)
    have t: "bt_block_size ?T = sz" "bt_window ?T = None" by simp_all
    note q = cg.bt_allocate_ok [OF d(1) t al]
    have q1: "table_at (cg_inv sz S) sz (h', G) (L \<union> set (blocks_of T)) T" "set (blocks_of T) \<inter> L = {}"
      "agree (set (blocks_of T)) h h'" "toks_of h' (blocks_of T) = sq_tokens q" "blocks_of T \<noteq> []"
      "gpu_room (bm_alloc M) = gpu_room G + ceil_div (length (sq_tokens q)) sz" using q by blast+
    have i: "cg_inv sz S (h', G) (L \<union> set (blocks_of T))" "table_ok h' sz T" using q1(1) by (simp_all add: table_at_def)
    moreover have "(L \<union> set (blocks_of T)) \<inter> S = {}" by (rule cg_invE [OF i(1)])
    ultimately show ?thesis using q1 M' by (auto simp: gpu_free_def)
  qed
qed

lemma allocate_sequence_total:
  assumes mg: "mg_at sz L S (h, M)" and room: "ceil_div (length (sq_tokens q)) sz \<le> gpu_free (h, M)"
  shows "\<exists>r. allocate_sequence q (h, M) = Inr r"
proof (cases "sq_tokens q = []")
  case True
  then show ?thesis using mg_atD [OF mg] by (simp add: allocate_sequence_def init_empty_table)
next
  case False
  let ?T = "\<lparr>bt_block_size = sz, bt_blocks = \<lparr>ls_blocks = [], ls_ids = []\<rparr>, bt_window = None, bt_num_full_slots = 0\<rparr>"
  note d = mg_atD [OF mg]
  have t: "bt_block_size ?T = sz" "\<not> is_allocated ?T" by (simp_all add: is_allocated_def bt_len_def)
  obtain h1 G T where "bt_allocate cpu_gpu_ops (sq_tokens q) GPU ((h, bm_alloc M), ?T) = Inr ((h1, G), T)"
    using cg.bt_allocate_total [OF d(1) t False] room by (fastforce simp: gpu_free_def)
  then show ?thesis using d(2,3) by (simp add: allocate_sequence_def init_empty_table)
qed

text \<open>A new table with blocks of its own.\<close>

lemma add_table_ok:
  assumes mg: "mg_at sz L S (h, M)"
    and T: "cg_inv sz S (h', G) (L \<union> set (blocks_of T))" "set (blocks_of T) \<inter> (L \<union> S) = {}" "agree (set (blocks_of T)) h h'"
      "table_ok h' sz T"
    and run: "track_seq i (h', M\<lparr>bm_alloc := G, bm_tables := (bm_tables M)(i \<mapsto> T)\<rparr>) = Inr s'"
  shows "mg_at sz (L \<union> set (blocks_of T)) S s' \<and> contents s' = (contents (h, M))(Inl i \<mapsto> toks_of h' (blocks_of T))
    \<and> bm_tables M i = None \<and> tabs (snd s') = (tabs M)(Inl i \<mapsto> T) \<and> bm_alloc (snd s') = G \<and> fst s' = h'"
proof -
  note d = mg_atD [OF mg]
  from run have n: "bm_computed M i = None" "bm_access M i = None"
    and s': "s' = (h', M\<lparr>bm_alloc := G, bm_tables := (bm_tables M)(i \<mapsto> T), bm_computed := (bm_computed M)(i \<mapsto> ([], False)),
      bm_access := (bm_access M)(i \<mapsto> None)\<rparr>)"
    by (auto simp: track_seq_def ct_add_seq_def la_add_seq_def)
  have i: "bm_tables M i = None" using n(1) d(9) by (metis domIff)
  have t: "tabs (snd s') = (tabs M)(Inl i \<mapsto> T)" by (auto simp: s' tabs_def split: sum.split)
  have "mg_at sz (L \<union> set (blocks_of T)) S (h', snd s')
    \<and> contents (h', snd s') = (contents (h, M))(Inl i := map_option (\<lambda>T. toks_of h' (blocks_of T)) (Some T))"
  proof (rule mg_update [OF mg _ _ _ _ _ t])
    show "h' ! a = h ! a" if "a \<in> (L \<union> S) - opt_blocks (tabs M (Inl i))" for a
      using that mg_less [OF mg, of a] T(2) by (intro agreeD [OF T(3)]) auto
    show "L \<union> set (blocks_of T) - opt_blocks (Some T) = L - opt_blocks (tabs M (Inl i))"
      "S - opt_blocks (Some T) = S - opt_blocks (tabs M (Inl i))" using T(2) i by auto
  qed (use d(2,3,4,9,10,12) T i in \<open>auto simp: s'\<close>)
  then show ?thesis using i t by (simp add: s')
qed

lemma fork_table_ok:
  assumes mg: "mg_at sz L S (h, M)" and T: "tabs M k = Some T" "set (blocks_of T) \<subseteq> L" and run: "fork_table T i (h, M) = Inr s'"
  shows "\<exists>T'. mg_at sz (L \<union> set (blocks_of T')) S s' \<and> contents s' = (contents (h, M))(Inl i := contents (h, M) k)
    \<and> bm_tables M i = None \<and> tabs (snd s') = (tabs M)(Inl i \<mapsto> T') \<and> gpu_free s' = gpu_free (h, M)
    \<and> physical_block_ids T' = physical_block_ids T"
proof -
  note d = mg_atD [OF mg]
  from run obtain T' h1 G where f: "bt_fork cpu_gpu_ops ((h, bm_alloc M), T) = Inr (T', h1, G)"
    and tr: "track_seq i (h1, M\<lparr>bm_alloc := G, bm_tables := (bm_tables M)(i \<mapsto> T')\<rparr>) = Inr s'"
    by (auto simp: fork_table_def)
  have at_T: "table_at (cg_inv sz S) sz (h, bm_alloc M) L T" using d(1) T d(5) [OF T(1)] by (simp add: table_at_def)
  note q = cg.bt_fork_ok [OF at_T f]
  have q1: "table_at (cg_inv sz S) sz (h1, G) (L \<union> set (blocks_of T')) T'" "set (blocks_of T') \<inter> L = {}"
    "agree (set (blocks_of T')) h h1" "toks_of h1 (blocks_of T') = toks_of h (blocks_of T)"
    "physical_block_ids T' = physical_block_ids T" "gpu_room G = gpu_room (bm_alloc M)" using q by blast+
  have i: "cg_inv sz S (h1, G) (L \<union> set (blocks_of T'))" "table_ok h1 sz T'" using q1(1) by (simp_all add: table_at_def)
  have "(L \<union> set (blocks_of T')) \<inter> S = {}" by (rule cg_invE [OF i(1)])
  then have "set (blocks_of T') \<inter> (L \<union> S) = {}" using q1(2) by blast
  note a = add_table_ok [OF mg i(1) this q1(3) i(2) tr]
  have "contents (h, M) k = Some (toks_of h (blocks_of T))"
    using all_tokens [OF d(1), of T] T by (auto simp: contents_def)
  with a q1 show ?thesis by (intro exI [of _ T']) (simp add: gpu_free_def)
qed

lemma fork_table_total:
  assumes mg: "mg_at sz L S (h, M)" and T: "tabs M k = Some T" "set (blocks_of T) \<subseteq> L" "blocks_of T \<noteq> []"
    and i: "bm_tables M i = None"
  shows "\<exists>s'. fork_table T i (h, M) = Inr s'"
proof -
  note d = mg_atD [OF mg]
  have at_T: "table_at (cg_inv sz S) sz (h, bm_alloc M) L T" using d(1) T d(5) [OF T(1)] by (simp add: table_at_def)
  obtain T' h1 G where "bt_fork cpu_gpu_ops ((h, bm_alloc M), T) = Inr (T', h1, G)"
    using cg.bt_fork_total [OF at_T T(3)] by (metis prod.exhaust)
  moreover have "bm_computed M i = None" "bm_access M i = None" using i d(9,10) by (metis domIff)+
  ultimately show ?thesis by (simp add: fork_table_def track_seq_def ct_add_seq_def la_add_seq_def)
qed

text \<open>The forks for the other waiting sequences of a group.\<close>

lemma forks_ok:
  assumes "mg_at sz L S s" and "tabs (snd s) k = Some T" and "set (blocks_of T) \<subseteq> L"
    and "fold_r (\<lambda>r. fork_table T (sq_id r)) rs s = Inr s'" and "contents s k = Some toks"
  shows "\<exists>L'. mg_at sz L' S s' \<and> contents s' = put_all ((\<lambda>r. Inl (sq_id r)) ` set rs) toks (contents s)
    \<and> gpu_free s' = gpu_free s \<and> bm_cross (snd s') = bm_cross (snd s)"
  using assms
proof (induction rs arbitrary: s L)
  case Nil
  then show ?case by (auto simp: put_all_def)
next
  case (Cons r rs)
  obtain h M where s: "s = (h, M)" by (cases s)
  from Cons.prems(4) obtain s1 where 1: "fork_table T (sq_id r) (h, M) = Inr s1"
    and 2: "fold_r (\<lambda>r. fork_table T (sq_id r)) rs s1 = Inr s'" by (auto simp: s)
  from fork_table_ok [OF Cons.prems(1-3) [unfolded s snd_conv] 1] obtain T' where
    f: "mg_at sz (L \<union> set (blocks_of T')) S s1" "contents s1 = (contents s)(Inl (sq_id r) \<mapsto> toks)"
      "bm_tables M (sq_id r) = None" "tabs (snd s1) = (tabs M)(Inl (sq_id r) \<mapsto> T')" "gpu_free s1 = gpu_free s"
    using Cons.prems(5) by (auto simp: s)
  have k: "k \<noteq> Inl (sq_id r)" using f(3) Cons.prems(2) by (auto simp: s)
  then have "tabs (snd s1) k = Some T" "contents s1 k = Some toks" using f(2,4) Cons.prems(2,5) by (auto simp: s)
  from Cons.IH [OF f(1) this(1) _ 2 this(2)] Cons.prems(3) obtain L' where
    "mg_at sz L' S s'" "contents s' = put_all ((\<lambda>r. Inl (sq_id r)) ` set rs) toks (contents s1)" "gpu_free s' = gpu_free s1"
    "bm_cross (snd s') = bm_cross (snd s1)" by blast
  moreover have "bm_cross (snd s1) = bm_cross M" using f(4) by (auto simp: fun_eq_iff) (metis tabs_simps(2) sum.distinct(2) fun_upd_other)
  moreover have "put_all ((\<lambda>r. Inl (sq_id r)) ` set rs) toks (contents s1)
      = put_all ((\<lambda>r. Inl (sq_id r)) ` set (r # rs)) toks (contents s)" by (auto simp: put_all_def f(2))
  ultimately show ?case using f(5) by (auto simp: s)
qed

text \<open>Appending to a sequence, freeing one, and swapping one, in the block manager.\<close>

lemma mg_table:
  assumes mg: "mg_at sz L S (h, M)" and T: "tabs M k = Some T"
  shows "contents (h, M) k = Some (toks_of h (blocks_of T))" "length (toks_of h (blocks_of T)) = bt_num_full_slots T"
    "bt_block_size T = sz" "0 < sz" "distinct (blocks_of T)" "linked h None (blocks_of T)"
proof -
  note d = mg_atD [OF mg]
  show "contents (h, M) k = Some (toks_of h (blocks_of T))"
    using all_tokens [OF d(1), of T] d(11) [of k] T by (simp add: contents_def)
  have "filled h sz (blocks_of T) (bt_num_full_slots T)" and "bt_block_size T = sz" "distinct (blocks_of T)" "linked h None (blocks_of T)"
    using d(5) [OF T] by (simp_all add: table_ok_def tbl_def blocks_of_def)
  then show "length (toks_of h (blocks_of T)) = bt_num_full_slots T" "bt_block_size T = sz" "distinct (blocks_of T)" "linked h None (blocks_of T)"
    using filled_length by blast+
  show "0 < sz" by (rule cg_invE [OF d(1)])
qed

lemma append_slots_ok:
  assumes mg: "mg_at sz L S (h, M)" and T: "bm_tables M (sq_id q) = Some T" "set (blocks_of T) \<subseteq> L"
    and run: "append_slots q la (h, M) = Inr (cows, s')"
  shows "\<exists>L' T' toks. mg_at sz L' S s' \<and> L \<subseteq> L' \<and> tabs (snd s') = (tabs M)(Inl (sq_id q) \<mapsto> T') \<and> set (blocks_of T') \<subseteq> L'
    \<and> contents (h, M) (Inl (sq_id q)) = Some toks
    \<and> contents s' = (contents (h, M))(Inl (sq_id q) \<mapsto> toks @ drop (length toks) (sq_tokens q))
    \<and> gpu_free (h, M) \<le> gpu_free s' + touched T (length (get_unseen_token_ids T (sq_tokens q)) + la)
    \<and> length toks + length (drop (length toks) (sq_tokens q)) + la \<le> length (blocks_of T') * sz"
proof -
  let ?i = "sq_id q" and ?u = "get_unseen_token_ids T (sq_tokens q)"
  have T0: "tabs M (Inl ?i) = Some T" using T by simp
  note d = mg_atD [OF mg] and t = mg_table [OF mg T0]
  from run T(1) obtain h1 G T1 where ap: "bt_append_token_ids cpu_gpu_ops ?u la (Some (sq_num_computed q)) ((h, bm_alloc M), T) = Inr ((h1, G), T1)"
    and s': "s' = (h1, M\<lparr>bm_alloc := snd (cg_clear_copy_on_writes G), bm_tables := (bm_tables M)(?i \<mapsto> T1)\<rparr>)"
    by (auto simp: append_slots_def split: prod.splits)
  have at_T: "table_at (cg_inv sz S) sz (h, bm_alloc M) L T" using d(1) T d(5) [OF T0] by (simp add: table_at_def)
  have ne: "blocks_of T \<noteq> []" using ap by (auto simp: bt_append_token_ids_def is_allocated_def bt_len_def blocks_of_def)
  from cg.bt_append_ok [OF at_T ne ap] obtain news where
    n: "blocks_of T1 = blocks_of T @ news" "table_at (cg_inv sz S) sz (h1, G) (L \<union> set news) T1" "set news \<inter> L = {}"
      "agree (set (blocks_of T1)) h h1" "toks_of h1 (blocks_of T1) = toks_of h (blocks_of T) @ ?u"
      "bt_num_full_slots T1 = bt_num_full_slots T + length ?u" "bt_num_full_slots T1 + la \<le> length (blocks_of T1) * sz"
      "gpu_room (bm_alloc M) \<le> gpu_room G + touched T (length ?u + la)" by blast
  have i: "cg_inv sz S (h1, G) (L \<union> set news)" "table_ok h1 sz T1" using n(2) by (simp_all add: table_at_def)
  note c = cg_clear_inv [OF i(1)]
  have new: "set news \<inter> (L \<union> S) = {}" using cg_invE [OF i(1), of "(L \<union> set news) \<inter> S = {}"] n(3) by blast
  have disj: "L \<inter> S = {}" using mg_disjoint [OF mg] .
  have tb: "tabs (snd s') = (tabs M)(Inl ?i \<mapsto> T1)" by (auto simp: s' tabs_def split: sum.split)
  have "mg_at sz (L \<union> set news) S (h1, snd s')
    \<and> contents (h1, snd s') = (contents (h, M))(Inl ?i := map_option (\<lambda>T. toks_of h1 (blocks_of T)) (Some T1))"
  proof (rule mg_update [OF mg _ _ _ _ _ tb])
    show "h1 ! a = h ! a" if "a \<in> (L \<union> S) - opt_blocks (tabs M (Inl ?i))" for a
      using that mg_less [OF mg, of a] new n(1) T by (intro agreeD [OF n(4)]) auto
    show "opt_blocks (Some T1) \<inter> (L \<union> S - opt_blocks (tabs M (Inl ?i))) = {}"
      "L \<union> set news - opt_blocks (Some T1) = L - opt_blocks (tabs M (Inl ?i))"
      "S - opt_blocks (Some T1) = S - opt_blocks (tabs M (Inl ?i))"
      using new n(1) T disj by auto
  qed (use d(2,3,4,9,10,12) T i c n(1) in \<open>auto simp: s'\<close>)
  moreover have "?u = drop (length (toks_of h (blocks_of T))) (sq_tokens q)" by (simp add: get_unseen_token_ids_def t(2))
  moreover have "gpu_free s' = gpu_room G" by (simp add: gpu_free_def s' c(2))
  ultimately show ?thesis
    using n t(1,2) tb by (intro exI [of _ "L \<union> set news"] exI [of _ T1] exI [of _ "toks_of h (blocks_of T)"])
      (use T(2) in \<open>auto simp: gpu_free_def s'\<close>)
qed

lemma append_slots_total:
  assumes mg: "mg_at sz L S (h, M)" and T: "bm_tables M (sq_id q) = Some T" "set (blocks_of T) \<subseteq> L" "blocks_of T \<noteq> []"
    and rm: "touched T (length (get_unseen_token_ids T (sq_tokens q)) + la) \<le> gpu_free (h, M)"
  shows "\<exists>r. append_slots q la (h, M) = Inr r"
proof -
  have T0: "tabs M (Inl (sq_id q)) = Some T" using T by simp
  note d = mg_atD [OF mg]
  have "table_at (cg_inv sz S) sz (h, bm_alloc M) L T" using d(1) T d(5) [OF T0] by (simp add: table_at_def)
  from cg.bt_append_total [OF this T(3)] rm obtain h1 G T1 where
    "bt_append_token_ids cpu_gpu_ops (get_unseen_token_ids T (sq_tokens q)) la (Some (sq_num_computed q)) ((h, bm_alloc M), T) = Inr ((h1, G), T1)"
    by (fastforce simp: gpu_free_def)
  then show ?thesis using T by (simp add: append_slots_def split: prod.split)
qed

subsection \<open>Free\<close>

lemma cg_accessed_naive:
  assumes "cg_inv sz S (h, G) L" shows "cg_mark_blocks_as_accessed ids t G = Inr G"
proof -
  obtain A C where "cg_gpu G = NaiveBlockAllocator A" by (rule cg_invE [OF assms])
  then show ?thesis by (simp add: cg_mark_blocks_as_accessed_def)
qed

lemma free_ok:
  assumes mg: "mg_at sz L S (h, M)" and T: "bm_tables M (sq_id q) = Some T" "set (blocks_of T) \<subseteq> L"
    and run: "free q (h, M) = Inr s'"
  shows "mg_at sz (L - set (blocks_of T)) S s' \<and> contents s' = (contents (h, M))(Inl (sq_id q) := None)
    \<and> tabs (snd s') = (tabs M)(Inl (sq_id q) := None)"
proof -
  let ?i = "sq_id q"
  have T0: "tabs M (Inl ?i) = Some T" using T by simp
  note d = mg_atD [OF mg]
  from run T(1) obtain G1 h1 G T1 where u: "update_seq_blocks_last_access ?i (physical_block_ids T) (bm_access M) (bm_alloc M) = Inr G1"
    and f: "bt_free cpu_gpu_ops ((h, G1), T) = Inr ((h1, G), T1)"
    and s': "s' = (h1, M\<lparr>bm_alloc := G, bm_access := (bm_access M)(?i := None), bm_computed := (bm_computed M)(?i := None),
      bm_tables := (bm_tables M)(?i := None)\<rparr>)"
    by (auto simp: free_def Let_def la_remove_seq_def ct_remove_seq_def split: prod.splits)
  have "G1 = bm_alloc M"
    using u cg_accessed_naive [OF d(1)] by (auto simp: update_seq_blocks_last_access_def split: option.splits)
  moreover have "table_at (cg_inv sz S) sz (h, bm_alloc M) L T" using d(1) T d(5) [OF T0] by (simp add: table_at_def)
  ultimately have q: "cg_inv sz S (h1, G) (L - set (blocks_of T))" "agree (set (blocks_of T)) h h1"
    using cg.bt_free_ok f by blast+
  have tb: "tabs (snd s') = (tabs M)(Inl ?i := None)" by (auto simp: s' tabs_def split: sum.split)
  have "mg_at sz (L - set (blocks_of T)) S (h1, snd s')
    \<and> contents (h1, snd s') = (contents (h, M))(Inl ?i := map_option (\<lambda>T. toks_of h1 (blocks_of T)) None)"
  proof (rule mg_update [OF mg _ _ _ _ _ tb])
    show "h1 ! a = h ! a" if "a \<in> (L \<union> S) - opt_blocks (tabs M (Inl ?i))" for a
      using that mg_less [OF mg, of a] T by (intro agreeD [OF q(2)]) auto
    show "S - opt_blocks None = S - opt_blocks (tabs M (Inl ?i))" using T mg_disjoint [OF mg] by auto
  qed (use d(2,3,4,9,10,12) T q in \<open>auto simp: s'\<close>)
  then show ?thesis using tb by (simp add: s')
qed

lemma free_total:
  assumes mg: "mg_at sz L S (h, M)" and T: "bm_tables M (sq_id q) = Some T" "set (blocks_of T) \<subseteq> L"
  shows "\<exists>s'. free q (h, M) = Inr s'"
proof -
  let ?i = "sq_id q"
  have T0: "tabs M (Inl ?i) = Some T" using T by simp
  note d = mg_atD [OF mg]
  have i: "bm_computed M ?i \<noteq> None" "bm_access M ?i \<noteq> None" using T(1) d(9,10) by (metis domIff option.distinct(1))+
  have at_T: "table_at (cg_inv sz S) sz (h, bm_alloc M) L T" using d(1) T d(5) [OF T0] by (simp add: table_at_def)
  from cg.bt_free_total [OF at_T] obtain h1 G T1 where f: "bt_free cpu_gpu_ops ((h, bm_alloc M), T) = Inr ((h1, G), T1)" by auto
  have "update_seq_blocks_last_access ?i (physical_block_ids T) (bm_access M) (bm_alloc M) = Inr (bm_alloc M)"
    using cg_accessed_naive [OF d(1)] i by (auto simp: update_seq_blocks_last_access_def split: option.splits)
  then show ?thesis using f T i by (auto simp: free_def Let_def la_remove_seq_def ct_remove_seq_def)
qed

end
