(* ===== verification/Manager_Swap.thy ===== *)
theory Manager_Swap
  imports Manager_Ops
begin

text \<open>Swapping the blocks of a sequence between the devices, in either direction.\<close>

definition side :: "device \<Rightarrow> nat set \<Rightarrow> nat set \<Rightarrow> nat set" where
  "side d L S = (case d of GPU \<Rightarrow> L | CPU \<Rightarrow> S)"

definition gpu_after :: "device \<Rightarrow> nat set \<Rightarrow> nat set \<Rightarrow> nat set" where
  "gpu_after src B L = (case src of GPU \<Rightarrow> L - B | CPU \<Rightarrow> L \<union> B)"

definition cpu_after :: "device \<Rightarrow> nat set \<Rightarrow> nat set \<Rightarrow> nat set" where
  "cpu_after src B S = (case src of GPU \<Rightarrow> S \<union> B | CPU \<Rightarrow> S - B)"

lemmas side_defs = side_def gpu_after_def cpu_after_def

definition free_blocks :: "device \<Rightarrow> mstate \<Rightarrow> nat" where
  "free_blocks d s = cg_get_num_free_blocks d (bm_alloc (snd s))"

lemma cg_swap_ok:
  assumes "cg_inv sz S (h, G) L" "src \<noteq> dst" "set bs \<subseteq> side src L S" "distinct bs" "cg_swap bs src dst (h, G) = Inr (m, h', G')"
  shows "cg_inv sz (cpu_after src (set bs) S) (h', G') (gpu_after src (set bs) L) \<and> swapped bs dst (L \<union> S) m (h, G) (h', G')"
  using assms cg_swap_out_ok [of sz S h G L bs m h' G'] cg_swap_in_ok [of sz S h G L bs m h' G']
  by (cases src; cases dst) (simp_all add: side_defs)

lemma cg_swap_total:
  assumes "cg_inv sz S (h, G) L" "src \<noteq> dst" "set bs \<subseteq> side src L S" "distinct bs"
    "length bs \<le> cg_get_num_free_blocks dst G" "\<forall>a \<in> set bs. \<forall>p. bl_prev (h ! a) = Some p \<longrightarrow> p < length h"
  shows "\<exists>r. cg_swap bs src dst (h, G) = Inr r"
  using assms cg_swap_out_total [of sz S h G L bs] cg_swap_in_total [of sz S h G L bs]
  by (cases src; cases dst) (simp_all add: side_defs)

lemma cg_physical:
  assumes "cg_inv sz S (h, G) L" "a \<in> side d L S" "bl_id (h ! a) = Some i"
  shows "\<exists>n. cg_get_physical_block_id d i G = Inr n"
  using assms cg_physical_total [OF assms(1)] by (cases d) (simp_all add: side_defs)

lemma table_after_swap:
  assumes t: "table_ok h sz T" and same: "\<And>a. a \<in> set (blocks_of T) \<Longrightarrow> only_id_changed h h' a"
    and real: "\<And>a. a \<in> set (blocks_of T) \<Longrightarrow> block_id h' a = bl_id (h' ! a) \<and> bl_id (h' ! a) \<noteq> None"
  shows "\<exists>T'. bt_update h' (blocks_of T) T = Inr T' \<and> table_ok h' sz T' \<and> blocks_of T' = blocks_of T
    \<and> toks_of h' (blocks_of T) = toks_of h (blocks_of T) \<and> bt_num_full_slots T' = bt_num_full_slots T"
proof -
  have e: "bl_tokens (h' ! a) = bl_tokens (h ! a)" "bl_prev (h' ! a) = bl_prev (h ! a)" if "a \<in> set (blocks_of T)" for a
    using only_id_changedD [OF same [OF that]] by blast+
  have "fold_r (\<lambda>a. ls_add_block_id (block_id h' a)) bs \<lparr>ls_blocks = xs, ls_ids = is\<rparr>
      = Inr \<lparr>ls_blocks = xs, ls_ids = is @ map (\<lambda>a. the (bl_id (h' ! a))) bs\<rparr>" if "set bs \<subseteq> set (blocks_of T)" for bs xs "is"
    using that
  proof (induction bs arbitrary: "is")
    case (Cons b bs)
    obtain i where "block_id h' b = Some i" "bl_id (h' ! b) = Some i" using real [of b] Cons.prems by auto
    then show ?case using Cons by (simp add: ls_add_block_id_def)
  qed simp
  then have u: "bt_update h' (blocks_of T) T = Inr (T\<lparr>bt_blocks := \<lparr>ls_blocks = blocks_of T,
      ls_ids = map (\<lambda>a. the (bl_id (h' ! a))) (blocks_of T)\<rparr>\<rparr>)" by (simp add: bt_update_def ls_update_def)
  have "linked h' None (blocks_of T) = linked h None (blocks_of T)" by (rule linked_cong) (rule e)
  moreover have "filled h' sz (blocks_of T) n = filled h sz (blocks_of T) n" for n by (rule filled_cong) (rule e)
  moreover have "toks_of h' (blocks_of T) = toks_of h (blocks_of T)" by (rule toks_of_cong) (rule e)
  ultimately show ?thesis using t u by (simp add: table_ok_def tbl_def blocks_of_def)
qed

lemma swap_seq_ok:
  assumes mg: "mg_at sz L S (h, M)" and dirs: "src \<noteq> dst" and T: "bm_tables M (sq_id q) = Some T" "set (blocks_of T) \<subseteq> side src L S"
    and run: "swap_seq src dst q (acc, h, M) = Inr (acc', s')"
  shows "\<exists>T'. mg_at sz (gpu_after src (set (blocks_of T)) L) (cpu_after src (set (blocks_of T)) S) s'
    \<and> contents s' = contents (h, M) \<and> tabs (snd s') = (tabs M)(Inl (sq_id q) \<mapsto> T') \<and> blocks_of T' = blocks_of T
    \<and> bt_num_full_slots T' = bt_num_full_slots T \<and> free_blocks dst (h, M) = free_blocks dst s' + length (blocks_of T)"
proof (cases "blocks_of T = []")
  case True
  then have "s' = (h, M)" using run T(1) by (simp add: swap_seq_def Let_def flip: blocks_of_def)
  moreover have "(tabs M)(Inl (sq_id q) \<mapsto> T) = tabs M" using T(1) by (simp add: fun_upd_idem)
  ultimately show ?thesis using mg True by (cases src) (auto simp: side_defs intro!: exI [of _ T])
next
  case False
  let ?i = "sq_id q" and ?B = "set (blocks_of T)"
  have T0: "tabs M (Inl ?i) = Some T" using T by simp
  note d = mg_atD [OF mg] and t = mg_table [OF mg T0]
  from run T(1) False obtain m h1 G T1 m2 where sw: "cg_swap (blocks_of T) src dst (h, bm_alloc M) = Inr (m, h1, G)"
    and u: "bt_update h1 (blocks_of T) T = Inr T1"
    and s': "s' = (h1, M\<lparr>bm_alloc := G, bm_tables := (bm_tables M)(?i \<mapsto> T1)\<rparr>)"
    by (auto simp: swap_seq_def Let_def simp flip: blocks_of_def)
  from cg_swap_ok [OF d(1) dirs T(2) t(5) sw] have inv: "cg_inv sz (cpu_after src ?B S) (h1, G) (gpu_after src ?B L)"
    and w: "swapped (blocks_of T) dst (L \<union> S) m (h, bm_alloc M) (h1, G)" by blast+
  have disj: "L \<inter> S = {}" using mg_disjoint [OF mg] .
  have w1: "only_id_changed h h1 a" "bl_id (h1 ! a) \<noteq> None" if "a \<in> ?B" for a using w that by (auto simp: swapped_def)
  have "a \<in> gpu_after src ?B L \<union> cpu_after src ?B S" if "a \<in> ?B" for a using that by (cases src) (auto simp: side_defs)
  then have "block_id h1 a = bl_id (h1 ! a)" if "a \<in> ?B" for a using swapped_not_null(2) [OF inv] that by blast
  with table_after_swap [OF d(5) [OF T0], of h1] w1 u have T1: "table_ok h1 sz T1" "blocks_of T1 = blocks_of T"
    "toks_of h1 (blocks_of T) = toks_of h (blocks_of T)" "bt_num_full_slots T1 = bt_num_full_slots T" by auto
  have tb: "tabs (snd s') = (tabs M)(Inl ?i \<mapsto> T1)" by (auto simp: s' tabs_def split: sum.split)
  have "mg_at sz (gpu_after src ?B L) (cpu_after src ?B S) (h1, snd s')
    \<and> contents (h1, snd s') = (contents (h, M))(Inl ?i := map_option (\<lambda>T. toks_of h1 (blocks_of T)) (Some T1))"
  proof (rule mg_update [OF mg _ _ _ _ _ tb])
    show "h1 ! a = h ! a" if "a \<in> (L \<union> S) - opt_blocks (tabs M (Inl ?i))" for a
      using that w T0 by (simp add: swapped_def)
    show "table_ok h1 sz T' \<and> (set (blocks_of T') \<subseteq> gpu_after src ?B L \<or> set (blocks_of T') \<subseteq> cpu_after src ?B S)"
      if "Some T1 = Some T'" for T' using that T1 by (cases src) (auto simp: side_defs)
    show "opt_blocks (Some T1) \<inter> (L \<union> S - opt_blocks (tabs M (Inl ?i))) = {}" using T0 T1 by simp
    show "gpu_after src ?B L - opt_blocks (Some T1) = L - opt_blocks (tabs M (Inl ?i))"
      "cpu_after src ?B S - opt_blocks (Some T1) = S - opt_blocks (tabs M (Inl ?i))"
      using T0 T1 by (cases src; auto simp: side_defs)+
    show "opt_blocks (Some T1) \<subseteq> gpu_after src ?B L \<union> cpu_after src ?B S"
      using T1 by (cases src) (auto simp: side_defs)
  qed (use d(2,3,4,9,10,12) T(1) inv in \<open>auto simp: s'\<close>)
  moreover have "(contents (h, M))(Inl ?i \<mapsto> toks_of h (blocks_of T)) = contents (h, M)"
    using t(1) by (simp add: fun_upd_idem)
  moreover have "free_blocks dst (h, M) = free_blocks dst s' + length (blocks_of T)"
    using w by (simp add: swapped_def free_blocks_def s')
  ultimately show ?thesis using tb T1 by (intro exI [of _ T1]) (simp add: s')
qed

subsection \<open>Success\<close>

lemma add_swaps_mem:
  "(i, j) \<in> set (add_swaps ps m) \<Longrightarrow> (Some i, Some j) \<in> set ps \<or> (i, j) \<in> set m"
proof (induction ps m rule: add_swaps.induct)
  case (2 i' j' ps m)
  have "set (AList.update i' j' m) \<subseteq> insert (i', j') (set m)" by (induction m) auto
  with 2 show ?case by auto
qed auto

lemma physical_mapping_total:
  assumes "\<forall>(i, j) \<in> set ps. (\<exists>n. cg_get_physical_block_id src i G = Inr n) \<and> (\<exists>n. cg_get_physical_block_id dst j G = Inr n)"
  shows "\<exists>m'. physical_mapping G src dst ps m = Inr m'"
  using assms by (induction ps arbitrary: m) auto

lemma linked_less:
  "linked h p as \<Longrightarrow> \<forall>a \<in> set as. a < n \<Longrightarrow> (\<forall>q. p = Some q \<longrightarrow> q < n) \<Longrightarrow> a \<in> set as \<Longrightarrow> bl_prev (h ! a) = Some q \<Longrightarrow> q < n"
  by (induction as arbitrary: p) auto

lemma swap_seq_total:
  assumes mg: "mg_at sz L S (h, M)" and dirs: "src \<noteq> dst" and T: "bm_tables M (sq_id q) = Some T" "set (blocks_of T) \<subseteq> side src L S"
    and free: "length (blocks_of T) \<le> free_blocks dst (h, M)"
  shows "\<exists>r. swap_seq src dst q (acc, h, M) = Inr r"
proof (cases "blocks_of T = []")
  case True
  then show ?thesis using T(1) by (simp add: swap_seq_def Let_def flip: blocks_of_def)
next
  case False
  let ?B = "set (blocks_of T)"
  have T0: "tabs M (Inl (sq_id q)) = Some T" using T by simp
  note d = mg_atD [OF mg] and t = mg_table [OF mg T0]
  have "\<forall>a \<in> ?B. a < length h" using mg_less [OF mg] T(2) by (cases src) (auto simp: side_defs)
  then have "\<forall>a \<in> ?B. \<forall>p. bl_prev (h ! a) = Some p \<longrightarrow> p < length h" using linked_less [OF t(6)] by blast
  then obtain m h1 G where sw: "cg_swap (blocks_of T) src dst (h, bm_alloc M) = Inr (m, h1, G)"
    using cg_swap_total [OF d(1) dirs T(2) t(5)] free by (fastforce simp: free_blocks_def)
  from cg_swap_ok [OF d(1) dirs T(2) t(5) sw] have inv: "cg_inv sz (cpu_after src ?B S) (h1, G) (gpu_after src ?B L)"
    and w: "swapped (blocks_of T) dst (L \<union> S) m (h, bm_alloc M) (h1, G)" by blast+
  have w1: "only_id_changed h h1 a" "bl_id (h1 ! a) \<noteq> None" if "a \<in> ?B" for a using w that by (auto simp: swapped_def)
  have "a \<in> gpu_after src ?B L \<union> cpu_after src ?B S" if "a \<in> ?B" for a using that by (cases src) (auto simp: side_defs)
  then have "block_id h1 a = bl_id (h1 ! a)" if "a \<in> ?B" for a using swapped_not_null(2) [OF inv] that by blast
  with table_after_swap [OF d(5) [OF T0], of h1] w1 obtain T1 where u: "bt_update h1 (blocks_of T) T = Inr T1" by auto
  have m: "m = add_swaps (zip (map (\<lambda>a. bl_id (h ! a)) (blocks_of T)) (map (\<lambda>a. bl_id (h1 ! a)) (blocks_of T))) []"
    and ph: "\<And>d i. cg_get_physical_block_id d i G = cg_get_physical_block_id d i (bm_alloc M)"
    using w by (simp_all add: swapped_def)
  have dst: "?B \<subseteq> side dst (gpu_after src ?B L) (cpu_after src ?B S)"
    using dirs by (cases src; cases dst) (auto simp: side_defs)
  have "(\<exists>n. cg_get_physical_block_id src i G = Inr n) \<and> (\<exists>n. cg_get_physical_block_id dst j G = Inr n)"
    if "(i, j) \<in> set m" for i j
  proof -
    from add_swaps_mem [OF that [unfolded m]] obtain a where a: "a \<in> ?B" "bl_id (h ! a) = Some i" "bl_id (h1 ! a) = Some j"
      by (auto simp: set_zip) (metis nth_mem)
    have "a \<in> side src L S" "a \<in> side dst (gpu_after src ?B L) (cpu_after src ?B S)" using a(1) T(2) dst by blast+
    then show ?thesis using cg_physical [OF d(1) _ a(2)] cg_physical [OF inv _ a(3)] by (simp add: ph)
  qed
  then obtain m' where "physical_mapping G src dst m [] = Inr m'" using physical_mapping_total by blast
  then show ?thesis using sw u T(1) False by (simp add: swap_seq_def Let_def flip: blocks_of_def)
qed

end
