(* ===== verification/Manager_Group.thy ===== *)
theory Manager_Group
  imports Manager_Swap
begin

text \<open>The operations on sequence groups, and the tests that the scheduler makes before them.\<close>

subsection \<open>Allocation\<close>

definition waiting_keys :: "seq_group \<Rightarrow> table_key set" where
  "waiting_keys g = (\<lambda>q. Inl (sq_id q)) ` set (get_seqs WAITING g)"

definition spec_allocate :: "seq_group \<Rightarrow> (table_key \<Rightarrow> int list option) \<Rightarrow> table_key \<Rightarrow> int list option" where
  "spec_allocate g C = (let C1 = put_all (waiting_keys g) (sq_tokens (hd (get_seqs WAITING g))) C in
     case sg_encoder_seq g of None \<Rightarrow> C1 | Some e \<Rightarrow> C1(Inr (sg_request_id g) \<mapsto> sq_tokens e))"

lemma add_cross_ok:
  assumes mg: "mg_at sz L S (h, M)" and r: "bm_cross M r = None"
    and T: "cg_inv sz S (h', G) (L \<union> set (blocks_of T))" "set (blocks_of T) \<inter> (L \<union> S) = {}" "agree (set (blocks_of T)) h h'"
      "table_ok h' sz T"
    and s': "s' = (h', M\<lparr>bm_alloc := G, bm_cross := (bm_cross M)(r \<mapsto> T)\<rparr>)"
  shows "mg_at sz (L \<union> set (blocks_of T)) S s' \<and> contents s' = (contents (h, M))(Inr r \<mapsto> toks_of h' (blocks_of T))"
proof -
  note d = mg_atD [OF mg]
  have t: "tabs (snd s') = (tabs M)(Inr r \<mapsto> T)" by (auto simp: s' tabs_def split: sum.split)
  have "mg_at sz (L \<union> set (blocks_of T)) S (h', snd s')
    \<and> contents (h', snd s') = (contents (h, M))(Inr r := map_option (\<lambda>T. toks_of h' (blocks_of T)) (Some T))"
  proof (rule mg_update [OF mg _ _ _ _ _ t])
    show "h' ! a = h ! a" if "a \<in> (L \<union> S) - opt_blocks (tabs M (Inr r))" for a
      using that mg_less [OF mg, of a] T(2) by (intro agreeD [OF T(3)]) auto
    show "L \<union> set (blocks_of T) - opt_blocks (Some T) = L - opt_blocks (tabs M (Inr r))"
      "S - opt_blocks (Some T) = S - opt_blocks (tabs M (Inr r))" using T(2) r by auto
  qed (use d(2,3,4,9,10,12) T r in \<open>auto simp: s'\<close>)
  then show ?thesis by (simp add: s')
qed

lemma allocate_split:
  assumes ws: "get_seqs WAITING g = q # rs"
  shows "allocate g s =
     bind_r (guard_r AssertionError (\<forall>q \<in> set (q # rs). bm_tables (snd s) (sq_id q) = None)) (\<lambda>_.
      bind_r (allocate_sequence q s) (\<lambda>(T, h1, M1).
      bind_r (track_seq (sq_id q) (h1, M1\<lparr>bm_tables := (bm_tables M1)(sq_id q \<mapsto> T)\<rparr>)) (\<lambda>s2.
      bind_r (fold_r (\<lambda>r. fork_table T (sq_id r)) rs s2) (\<lambda>s3.
      bind_r (guard_r AssertionError (bm_cross (snd s3) (sg_request_id g) = None)) (\<lambda>_.
      bind_r (check_no_caching_or_swa (snd s3) g) (\<lambda>_.
      case sg_encoder_seq g of
        None \<Rightarrow> Inr s3
      | Some e \<Rightarrow> bind_r (allocate_sequence e s3) (\<lambda>(T2, h4, M4).
          Inr (h4, M4\<lparr>bm_cross := (bm_cross M4)(sg_request_id g \<mapsto> T2)\<rparr>))))))))"
  by (simp add: allocate_def ws)

lemma allocate_nonempty: "allocate g s = Inr s' \<Longrightarrow> get_seqs WAITING g \<noteq> []"
  by (auto simp: allocate_def Let_def)

lemma allocate_first_ok:
  assumes mg: "mg_at sz L S (h, M)" and al: "allocate_sequence q (h, M) = Inr (T, h1, M1)"
    and tr: "track_seq i (h1, M1\<lparr>bm_tables := (bm_tables M1)(i \<mapsto> T)\<rparr>) = Inr s2"
  shows "mg_at sz (L \<union> set (blocks_of T)) S s2 \<and> contents s2 = (contents (h, M))(Inl i \<mapsto> sq_tokens q)
    \<and> bm_tables M i = None \<and> tabs (snd s2) = (tabs M)(Inl i \<mapsto> T)
    \<and> gpu_free (h, M) = gpu_free s2 + ceil_div (length (sq_tokens q)) sz \<and> (sq_tokens q \<noteq> [] \<longrightarrow> blocks_of T \<noteq> [])"
proof -
  note a = allocate_sequence_ok [OF mg al]
  have e: "M1 = M\<lparr>bm_alloc := bm_alloc M1\<rparr>" using a by blast
  have "M1\<lparr>bm_tables := (bm_tables M1)(i \<mapsto> T)\<rparr> = M\<lparr>bm_alloc := bm_alloc M1, bm_tables := (bm_tables M)(i \<mapsto> T)\<rparr>"
    by (subst e, subst (2) e) simp
  with tr have tr': "track_seq i (h1, M\<lparr>bm_alloc := bm_alloc M1, bm_tables := (bm_tables M)(i \<mapsto> T)\<rparr>) = Inr s2" by simp
  have t: "cg_inv sz S (h1, bm_alloc M1) (L \<union> set (blocks_of T))" "set (blocks_of T) \<inter> (L \<union> S) = {}"
    "agree (set (blocks_of T)) h h1" "table_ok h1 sz T" using a by blast+
  from add_table_ok [OF mg t tr'] a show ?thesis by (simp add: gpu_free_def)
qed

lemma allocate_ok:
  assumes mg: "mg_at sz L S s" and run: "allocate g s = Inr s'"
  shows "\<exists>L'. mg_at sz L' S s' \<and> contents s' = spec_allocate g (contents s)"
proof -
  obtain h M where s: "s = (h, M)" by (cases s)
  obtain q rs where ws: "get_seqs WAITING g = q # rs" using allocate_nonempty [OF run] by (cases "get_seqs WAITING g") auto
  from run [unfolded allocate_split [OF ws] s] obtain T h1 M1 s2 s3 where
    al: "allocate_sequence q (h, M) = Inr (T, h1, M1)"
    and tr: "track_seq (sq_id q) (h1, M1\<lparr>bm_tables := (bm_tables M1)(sq_id q \<mapsto> T)\<rparr>) = Inr s2"
    and fk: "fold_r (\<lambda>r. fork_table T (sq_id r)) rs s2 = Inr s3"
    and cr: "bm_cross (snd s3) (sg_request_id g) = None"
    and en: "(case sg_encoder_seq g of None \<Rightarrow> Inr s3
      | Some e \<Rightarrow> bind_r (allocate_sequence e s3) (\<lambda>(T2, h4, M4).
          Inr (h4, M4\<lparr>bm_cross := (bm_cross M4)(sg_request_id g \<mapsto> T2)\<rparr>))) = Inr s'" by auto
  note a = allocate_first_ok [OF mg [unfolded s] al tr]
  have a1: "mg_at sz (L \<union> set (blocks_of T)) S s2" "tabs (snd s2) (Inl (sq_id q)) = Some T" "contents s2 (Inl (sq_id q)) = Some (sq_tokens q)"
    "contents s2 = (contents (h, M))(Inl (sq_id q) \<mapsto> sq_tokens q)" using a by auto
  from forks_ok [OF a1(1,2) _ fk a1(3)] obtain L3 where
    f: "mg_at sz L3 S s3" "contents s3 = put_all ((\<lambda>r. Inl (sq_id r)) ` set rs) (sq_tokens q) (contents s2)" by auto
  have c3: "contents s3 = put_all (waiting_keys g) (sq_tokens (hd (get_seqs WAITING g))) (contents s)"
    using f(2) by (auto simp: a1(4) put_all_def waiting_keys_def ws s)
  show ?thesis
  proof (cases "sg_encoder_seq g")
    case None
    then show ?thesis using en f(1) c3 by (auto simp: spec_allocate_def)
  next
    case (Some e)
    obtain h3 M3 where s3: "s3 = (h3, M3)" by (cases s3)
    from en Some obtain T2 h4 M4 where al2: "allocate_sequence e (h3, M3) = Inr (T2, h4, M4)"
      and s': "s' = (h4, M4\<lparr>bm_cross := (bm_cross M4)(sg_request_id g \<mapsto> T2)\<rparr>)" by (auto simp: s3)
    note b = allocate_sequence_ok [OF f(1) [unfolded s3] al2]
    have e: "M4 = M3\<lparr>bm_alloc := bm_alloc M4\<rparr>" using b by blast
    have s'': "s' = (h4, M3\<lparr>bm_alloc := bm_alloc M4, bm_cross := (bm_cross M3)(sg_request_id g \<mapsto> T2)\<rparr>)"
      unfolding s' by (subst e, subst (2) e) simp
    have t: "cg_inv sz S (h4, bm_alloc M4) (L3 \<union> set (blocks_of T2))" "set (blocks_of T2) \<inter> (L3 \<union> S) = {}"
      "agree (set (blocks_of T2)) h3 h4" "table_ok h4 sz T2" "toks_of h4 (blocks_of T2) = sq_tokens e" using b by blast+
    have "bm_cross M3 (sg_request_id g) = None" using cr by (simp add: s3)
    from add_cross_ok [OF f(1) [unfolded s3] this t(1-4) s''] t(5) c3 Some show ?thesis
      by (auto simp: spec_allocate_def s3)
  qed
qed

lemma check_passes: "mg_at sz L S (h, M) \<Longrightarrow> check_no_caching_or_swa M g = Inr ()"
  using mg_atD [of sz L S h M] by (simp add: check_no_caching_or_swa_def)

lemma required_blocks:
  assumes "0 < sz"
  shows "get_num_required_blocks toks sz la = Inr (int (ceil_div (length toks + la) sz))"
  using cdiv_nat [OF assms, of "length toks + la"] unfolding get_num_required_blocks_def .

text \<open>The blocks that \<open>allocate\<close> takes.\<close>

definition group_blocks :: "nat \<Rightarrow> seq_group \<Rightarrow> nat \<Rightarrow> nat" where
  "group_blocks sz g la = ceil_div (length (sq_tokens (hd (get_seqs WAITING g))) + la) sz
     + (case sg_encoder_seq g of None \<Rightarrow> 0 | Some e \<Rightarrow> ceil_div (length (sq_tokens e)) sz)"

lemma can_allocate_eq:
  assumes mg: "mg_at sz L S (h, M)" and ws: "get_seqs WAITING g \<noteq> []"
  shows "can_allocate g la M = Inr (
     if int (bm_num_total_gpu_blocks M) - int (group_blocks sz g la) < bm_watermark_blocks M then NEVER
     else if int (gpu_free (h, M)) - int (group_blocks sz g la) \<ge> bm_watermark_blocks M then OK else LATER)"
proof -
  note d = mg_atD [OF mg]
  have sz: "0 < sz" by (rule cg_invE [OF d(1)])
  obtain q rs where "get_seqs WAITING g = q # rs" using ws by (cases "get_seqs WAITING g") auto
  then show ?thesis
    using check_passes [OF mg] required_blocks [OF sz] d(2,3)
    by (cases "sg_encoder_seq g") (simp_all add: can_allocate_def group_blocks_def gpu_free_def gpu_room_def Let_def)
qed

lemma forks_total:
  assumes "mg_at sz L S s" and "tabs (snd s) k = Some T" and "set (blocks_of T) \<subseteq> L" and "rs = [] \<or> blocks_of T \<noteq> []"
    and "distinct (map sq_id rs)" and "\<forall>r \<in> set rs. bm_tables (snd s) (sq_id r) = None"
  shows "\<exists>s'. fold_r (\<lambda>r. fork_table T (sq_id r)) rs s = Inr s'"
  using assms
proof (induction rs arbitrary: s L)
  case (Cons r rs)
  obtain h M where s: "s = (h, M)" by (cases s)
  have mg: "mg_at sz L S (h, M)" and T: "tabs M k = Some T" and r: "bm_tables M (sq_id r) = None"
    using Cons.prems s by auto
  obtain s1 where 1: "fork_table T (sq_id r) (h, M) = Inr s1"
    using fork_table_total [OF mg T Cons.prems(3) _ r] Cons.prems(4) by auto
  from fork_table_ok [OF mg T Cons.prems(3) 1] obtain T' where
    f: "mg_at sz (L \<union> set (blocks_of T')) S s1" "tabs (snd s1) = (tabs M)(Inl (sq_id r) \<mapsto> T')" by blast
  have k: "k \<noteq> Inl (sq_id r)" using T r by auto
  have "bm_tables (snd s1) (sq_id x) = None" if "x \<in> set rs" for x
  proof -
    have "sq_id x \<noteq> sq_id r" "bm_tables M (sq_id x) = None" using that Cons.prems(5,6) s by (auto simp: image_iff)
    then show ?thesis using fun_cong [OF f(2), of "Inl (sq_id x)"] by simp
  qed
  then have "\<exists>s'. fold_r (\<lambda>r. fork_table T (sq_id r)) rs s1 = Inr s'"
    by (intro Cons.IH [OF f(1)]) (use Cons.prems k T f(2) in auto)
  with 1 show ?case by (simp add: s)
qed simp

lemma allocate_total:
  assumes mg: "mg_at sz L S s" and ws: "get_seqs WAITING g \<noteq> []"
    and new: "distinct (map sq_id (get_seqs WAITING g))" "\<forall>q \<in> set (get_seqs WAITING g). bm_tables (snd s) (sq_id q) = None"
      "bm_cross (snd s) (sg_request_id g) = None"
    and ne: "length (get_seqs WAITING g) = 1 \<or> sq_tokens (hd (get_seqs WAITING g)) \<noteq> []"
    and room: "group_blocks sz g la \<le> gpu_free s"
  shows "\<exists>s'. allocate g s = Inr s'"
proof -
  obtain h M where s: "s = (h, M)" by (cases s)
  obtain q rs where q: "get_seqs WAITING g = q # rs" using ws by (cases "get_seqs WAITING g") auto
  have mg: "mg_at sz L S (h, M)" using mg s by simp
  note d = mg_atD [OF mg]
  have sz: "0 < sz" by (rule cg_invE [OF d(1)])
  have le: "ceil_div (length (sq_tokens q)) sz \<le> ceil_div (length (sq_tokens q) + la) sz" by (rule ceil_div_mono [OF sz]) simp
  then have "ceil_div (length (sq_tokens q)) sz \<le> gpu_free (h, M)" using room by (simp add: group_blocks_def q s)
  then obtain T h1 M1 where al: "allocate_sequence q (h, M) = Inr (T, h1, M1)"
    using allocate_sequence_total [OF mg] by (metis prod.exhaust)
  have i: "bm_tables M (sq_id q) = None" using new(2) q s by simp
  have "bm_computed M (sq_id q) = None" "bm_access M (sq_id q) = None" using i d(9,10) by (metis domIff)+
  moreover have e: "M1 = M\<lparr>bm_alloc := bm_alloc M1\<rparr>" using allocate_sequence_ok [OF mg al] by blast
  have "bm_computed M1 = bm_computed M \<and> bm_access M1 = bm_access M" by (subst e, subst (2) e) simp
  ultimately obtain s2 where tr: "track_seq (sq_id q) (h1, M1\<lparr>bm_tables := (bm_tables M1)(sq_id q \<mapsto> T)\<rparr>) = Inr s2"
    by (auto simp: track_seq_def ct_add_seq_def la_add_seq_def)
  note a = allocate_first_ok [OF mg al tr]
  have a1: "mg_at sz (L \<union> set (blocks_of T)) S s2" "tabs (snd s2) (Inl (sq_id q)) = Some T"
    "contents s2 (Inl (sq_id q)) = Some (sq_tokens q)" "tabs (snd s2) = (tabs M)(Inl (sq_id q) \<mapsto> T)"
    "gpu_free (h, M) = gpu_free s2 + ceil_div (length (sq_tokens q)) sz" "sq_tokens q \<noteq> [] \<longrightarrow> blocks_of T \<noteq> []"
    using a by auto
  have "\<forall>r \<in> set rs. bm_tables (snd s2) (sq_id r) = None"
  proof
    fix r assume r: "r \<in> set rs"
    then have "sq_id r \<noteq> sq_id q" "bm_tables M (sq_id r) = None" using new q s by (auto simp: image_iff)
    then show "bm_tables (snd s2) (sq_id r) = None" using fun_cong [OF a1(4), of "Inl (sq_id r)"] by simp
  qed
  then obtain s3 where fk: "fold_r (\<lambda>r. fork_table T (sq_id r)) rs s2 = Inr s3"
    using forks_total [OF a1(1,2), of rs] new(1) ne a1(6) q by auto
  from forks_ok [OF a1(1,2) _ fk a1(3)] obtain L3 where
    f: "mg_at sz L3 S s3" "gpu_free s3 = gpu_free s2" "bm_cross (snd s3) = bm_cross (snd s2)" by auto
  obtain h3 M3 where s3: "s3 = (h3, M3)" by (cases s3)
  have "bm_cross (snd s2) (sg_request_id g) = None"
    using fun_cong [OF a1(4), of "Inr (sg_request_id g)"] new(3) s by simp
  then have cr: "bm_cross (snd s3) (sg_request_id g) = None" using f(3) by simp
  have ck: "check_no_caching_or_swa (snd s3) g = Inr ()" using check_passes f(1) s3 by auto
  have "\<exists>r. allocate_sequence e s3 = Inr r" if e: "sg_encoder_seq g = Some e" for e
  proof -
    have "ceil_div (length (sq_tokens e)) sz \<le> gpu_free s3"
      using room le a1(5) f(2) by (simp add: group_blocks_def q s e)
    then show ?thesis using allocate_sequence_total f(1) s3 by auto
  qed
  then show ?thesis
    using al tr fk cr ck new(2) q s by (cases "sg_encoder_seq g") (force simp: allocate_split [OF q] split: prod.splits)+
qed

end
