(* ===== verification/Manager_Tests.thy ===== *)
theory Manager_Tests
  imports Manager_Group
begin

text \<open>
  Appending to all running sequences of a group, and swapping all of them, as the scheduler does
  after \<open>can_append_slots\<close>, \<open>can_swap_in\<close> and \<open>can_swap_out\<close>.
\<close>

definition on_side :: "device \<Rightarrow> nat set \<Rightarrow> nat set \<Rightarrow> block_manager \<Rightarrow> sequence \<Rightarrow> bool" where
  "on_side d L S M q \<longleftrightarrow> (\<forall>T. bm_tables M (sq_id q) = Some T \<longrightarrow> set (blocks_of T) \<subseteq> side d L S)"

subsection \<open>Appending\<close>

text \<open>The loop of \<open>Scheduler._append_slots\<close>.\<close>

definition append_seq :: "nat \<Rightarrow> sequence \<Rightarrow> cow_list \<times> mstate \<Rightarrow> (cow_list \<times> mstate) result" where
  "append_seq num_lookahead_slots q st = bind_r (append_slots q num_lookahead_slots (snd st)) (\<lambda>(cows, s1).
     Inr (fst st @ cows, s1))"

definition append_group :: "seq_group \<Rightarrow> nat \<Rightarrow> cow_list \<Rightarrow> mstate \<Rightarrow> (cow_list \<times> mstate) result" where
  "append_group g num_lookahead_slots blocks_to_copy s =
     fold_r (append_seq num_lookahead_slots) (get_seqs RUNNING g) (blocks_to_copy, s)"

text \<open>What has not been seen yet is appended to the contents.\<close>

fun spec_append :: "sequence list \<Rightarrow> (table_key \<Rightarrow> int list option) \<Rightarrow> table_key \<Rightarrow> int list option" where
  "spec_append [] C = C"
| "spec_append (q # qs) C = spec_append qs
     (C(Inl (sq_id q) := map_option (\<lambda>toks. toks @ drop (length toks) (sq_tokens q)) (C (Inl (sq_id q)))))"

definition touch :: "block_manager \<Rightarrow> nat \<Rightarrow> sequence \<Rightarrow> nat" where
  "touch M la q = (case bm_tables M (sq_id q) of None \<Rightarrow> 0
     | Some T \<Rightarrow> touched T (length (get_unseen_token_ids T (sq_tokens q)) + la))"

lemma append_seq_ok:
  assumes mg: "mg_at sz L S s" and on: "on_side GPU L S (snd s) q" and run: "append_seq la q (cs, s) = Inr (cs', s')"
  shows "\<exists>L' T T'. mg_at sz L' S s' \<and> L \<subseteq> L' \<and> bm_tables (snd s) (sq_id q) = Some T \<and> tabs (snd s') = (tabs (snd s))(Inl (sq_id q) \<mapsto> T')
    \<and> set (blocks_of T') \<subseteq> L' \<and> contents s' = spec_append [q] (contents s) \<and> gpu_free s \<le> gpu_free s' + touch (snd s) la q"
proof -
  obtain h M where s: "s = (h, M)" by (cases s)
  from run obtain cows where ap: "append_slots q la (h, M) = Inr (cows, s')" by (auto simp: append_seq_def s)
  then obtain T where T: "bm_tables M (sq_id q) = Some T" by (auto simp: append_slots_def)
  then have "set (blocks_of T) \<subseteq> L" using on by (simp add: on_side_def side_def s)
  from append_slots_ok [OF mg [unfolded s] T this ap] obtain L' T' toks where
    a: "mg_at sz L' S s'" "L \<subseteq> L'" "tabs (snd s') = (tabs M)(Inl (sq_id q) \<mapsto> T')" "set (blocks_of T') \<subseteq> L'"
      "contents (h, M) (Inl (sq_id q)) = Some toks"
      "contents s' = (contents (h, M))(Inl (sq_id q) \<mapsto> toks @ drop (length toks) (sq_tokens q))"
      "gpu_free (h, M) \<le> gpu_free s' + touched T (length (get_unseen_token_ids T (sq_tokens q)) + la)" by blast
  then show ?thesis using T by (intro exI [of _ L'] exI [of _ T] exI [of _ T']) (simp add: s touch_def)
qed

lemma on_side_step:
  assumes "on_side GPU L S M q" and "L \<subseteq> L'" and "tabs M' = (tabs M)(Inl i \<mapsto> T')" and "set (blocks_of T') \<subseteq> L'"
  shows "on_side GPU L' S M' q"
  using assms(1,2,4) fun_cong [OF assms(3), of "Inl (sq_id q)"] by (auto simp: on_side_def side_def split: if_splits)

lemma append_seqs_ok:
  assumes "mg_at sz L S s" and "\<forall>q \<in> set qs. on_side GPU L S (snd s) q" and "fold_r (append_seq la) qs (cs, s) = Inr (cs', s')"
  shows "\<exists>L'. mg_at sz L' S s' \<and> contents s' = spec_append qs (contents s)"
  using assms
proof (induction qs arbitrary: cs s L)
  case (Cons q qs)
  from Cons.prems(3) obtain cs1 s1 where 1: "append_seq la q (cs, s) = Inr (cs1, s1)"
    and 2: "fold_r (append_seq la) qs (cs1, s1) = Inr (cs', s')" by auto
  have q: "on_side GPU L S (snd s) q" using Cons.prems(2) by simp
  from append_seq_ok [OF Cons.prems(1) q 1] obtain L' T' where
    a: "mg_at sz L' S s1" "L \<subseteq> L'" "tabs (snd s1) = (tabs (snd s))(Inl (sq_id q) \<mapsto> T')" "set (blocks_of T') \<subseteq> L'"
      "contents s1 = spec_append [q] (contents s)" by blast
  have "\<forall>r \<in> set qs. on_side GPU L' S (snd s1) r" using on_side_step [OF _ a(2-4)] Cons.prems(2) by auto
  from Cons.IH [OF a(1) this 2] show ?case unfolding a(5) by (simp only: spec_append.simps)
qed auto

lemma append_seqs_total:
  assumes "mg_at sz L S s" and "\<forall>q \<in> set qs. on_side GPU L S (snd s) q"
    and "\<forall>q \<in> set qs. \<exists>T. bm_tables (snd s) (sq_id q) = Some T \<and> blocks_of T \<noteq> []" and "distinct (map sq_id qs)"
    and "sum_list (map (touch (snd s) la) qs) \<le> gpu_free s"
  shows "\<exists>r. fold_r (append_seq la) qs (cs, s) = Inr r"
  using assms
proof (induction qs arbitrary: cs s L)
  case (Cons q qs)
  obtain h M where s: "s = (h, M)" by (cases s)
  obtain T where T: "bm_tables M (sq_id q) = Some T" "blocks_of T \<noteq> []" using Cons.prems(3) s by auto
  have on: "on_side GPU L S (snd s) q" using Cons.prems(2) by simp
  then have TL: "set (blocks_of T) \<subseteq> L" using T by (simp add: on_side_def side_def s)
  have "touched T (length (get_unseen_token_ids T (sq_tokens q)) + la) \<le> gpu_free (h, M)"
    using Cons.prems(5) T(1) by (simp add: touch_def s)
  from append_slots_total [OF Cons.prems(1) [unfolded s] T(1) TL T(2) this] obtain cs1 s1 where
    1: "append_seq la q (cs, s) = Inr (cs1, s1)" by (auto simp: append_seq_def s)
  from append_seq_ok [OF Cons.prems(1) on 1] obtain L' T' where
    a: "mg_at sz L' S s1" "L \<subseteq> L'" "tabs (snd s1) = (tabs M)(Inl (sq_id q) \<mapsto> T')" "set (blocks_of T') \<subseteq> L'"
      "gpu_free s \<le> gpu_free s1 + touch M la q" by (auto simp: s)
  have same: "bm_tables (snd s1) (sq_id r) = bm_tables M (sq_id r)" if "r \<in> set qs" for r
  proof -
    have "sq_id r \<noteq> sq_id q" using that Cons.prems(4) by (auto simp: image_iff)
    then show ?thesis using fun_cong [OF a(3), of "Inl (sq_id r)"] by simp
  qed
  have "map (touch (snd s1) la) qs = map (touch M la) qs" by (rule map_cong) (simp_all add: touch_def same)
  then have "sum_list (map (touch (snd s1) la) qs) = sum_list (map (touch M la) qs)" by (rule arg_cong)
  then have "sum_list (map (touch (snd s1) la) qs) \<le> gpu_free s1" using Cons.prems(5) a(5) by (simp only: s snd_conv list.map sum_list.Cons)
  moreover have "\<forall>r \<in> set qs. on_side GPU L' S (snd s1) r"
    using on_side_step [OF _ a(2) a(3) a(4)] Cons.prems(2) by (auto simp: s)
  moreover have "\<forall>r \<in> set qs. \<exists>T. bm_tables (snd s1) (sq_id r) = Some T \<and> blocks_of T \<noteq> []"
    using Cons.prems(3) same by (simp add: s)
  ultimately have "\<exists>r. fold_r (append_seq la) qs (cs1, s1) = Inr r"
    using Cons.IH [OF a(1)] Cons.prems(4) by simp
  with 1 show ?case by simp
qed simp

lemma add_touched_eq:
  assumes mg: "mg_at sz L S (h, M)" and "\<forall>q \<in> set qs. bm_tables M (sq_id q) \<noteq> None"
  shows "fold_r (add_touched_blocks M la) qs n = Inr (n + int (sum_list (map (touch M la) qs)))"
  using assms(2)
proof (induction qs arbitrary: n)
  case (Cons q qs)
  then obtain T where T: "bm_tables M (sq_id q) = Some T" by auto
  then have "0 < bt_block_size T" using mg_table [OF mg, of "Inl (sq_id q)" T] by simp
  note e = touched_eq [OF this]
  show ?case using Cons T e by (simp add: add_touched_blocks_def touch_def)
qed simp

lemma can_append_eq:
  assumes mg: "mg_at sz L S (h, M)" and "\<forall>q \<in> set (get_seqs RUNNING g). bm_tables M (sq_id q) \<noteq> None"
  shows "can_append_slots g la M = Inr (sum_list (map (touch M la) (get_seqs RUNNING g)) \<le> gpu_free (h, M))"
  using add_touched_eq [OF mg assms(2), of la 0]
  by (simp add: can_append_slots_def gpu_free_def gpu_room_def)

subsection \<open>Swapping\<close>

lemma on_side_swap:
  assumes "on_side d L S M q" and "tabs M' = (tabs M)(Inl i \<mapsto> T')" and "sq_id q \<noteq> i" and "bm_tables M i = Some T"
    and "opt_blocks (tabs M (Inl (sq_id q))) \<inter> opt_blocks (tabs M (Inl i)) = {}"
  shows "on_side d (gpu_after d (set (blocks_of T)) L) (cpu_after d (set (blocks_of T)) S) M' q"
proof -
  have "bm_tables M' (sq_id q) = bm_tables M (sq_id q)" using fun_cong [OF assms(2), of "Inl (sq_id q)"] assms(3) by simp
  moreover have "set (blocks_of Q) \<inter> set (blocks_of T) = {}" if "bm_tables M (sq_id q) = Some Q" for Q
    using assms(4,5) that by simp
  ultimately show ?thesis using assms(1) by (cases d) (auto simp: on_side_def side_defs)
qed

text \<open>All sequences of a group change the device.\<close>

lemma swap_seqs_ok:
  assumes "mg_at sz L S s" and "src \<noteq> dst" and "\<forall>q \<in> set qs. on_side src L S (snd s) q" and "distinct (map sq_id qs)"
    and "fold_r (swap_seq src dst) qs (acc, s) = Inr (acc', s')"
  shows "\<exists>L' S'. mg_at sz L' S' s' \<and> contents s' = contents s \<and> (\<forall>q \<in> set qs. on_side dst L' S' (snd s') q)
    \<and> (\<forall>i. i \<notin> sq_id ` set qs \<longrightarrow> bm_tables (snd s') i = bm_tables (snd s) i) \<and> bm_cross (snd s') = bm_cross (snd s)
    \<and> (\<forall>i T'. bm_tables (snd s') i = Some T' \<longrightarrow> (\<exists>T. bm_tables (snd s) i = Some T \<and> blocks_of T' = blocks_of T
        \<and> bt_num_full_slots T' = bt_num_full_slots T))
    \<and> (\<forall>B. B \<inter> (\<Union>q \<in> set qs. opt_blocks (tabs (snd s) (Inl (sq_id q)))) = {} \<longrightarrow> L' \<inter> B = L \<inter> B \<and> S' \<inter> B = S \<inter> B)"
  using assms
proof (induction qs arbitrary: acc s L S)
  case (Cons q qs)
  obtain h M where s: "s = (h, M)" by (cases s)
  from Cons.prems(5) obtain acc1 s1 where 1: "swap_seq src dst q (acc, h, M) = Inr (acc1, s1)"
    and 2: "fold_r (swap_seq src dst) qs (acc1, s1) = Inr (acc', s')" by (auto simp: s)
  obtain T where T: "bm_tables M (sq_id q) = Some T" using 1 by (auto simp: swap_seq_def)
  have mg: "mg_at sz L S (h, M)" using Cons.prems(1) s by simp
  have TL: "set (blocks_of T) \<subseteq> side src L S" using Cons.prems(3) T by (simp add: on_side_def s)
  let ?L = "gpu_after src (set (blocks_of T)) L" and ?S = "cpu_after src (set (blocks_of T)) S"
  from swap_seq_ok [OF mg Cons.prems(2) T TL 1] obtain T' where
    a: "mg_at sz ?L ?S s1" "contents s1 = contents (h, M)" "tabs (snd s1) = (tabs M)(Inl (sq_id q) \<mapsto> T')"
      "blocks_of T' = blocks_of T" "bt_num_full_slots T' = bt_num_full_slots T" by blast
  have t1: "bm_tables (snd s1) i = (if i = sq_id q then Some T' else bm_tables M i)" for i
    using fun_cong [OF a(3), of "Inl i"] by simp
  have t2: "bm_cross (snd s1) = bm_cross M" using fun_cong [OF a(3), of "Inr _"] by (auto simp: fun_eq_iff)
  have dj: "opt_blocks (tabs M (Inl (sq_id r))) \<inter> opt_blocks (tabs M (Inl (sq_id q))) = {}" if "r \<in> set qs" for r
  proof (rule mg_atD(7) [OF mg])
    show "Inl (sq_id r) \<noteq> Inl (sq_id q)" using that Cons.prems(4) by (auto simp: image_iff)
  qed
  have on: "\<forall>r \<in> set qs. on_side src ?L ?S (snd s1) r"
  proof
    fix r assume r: "r \<in> set qs"
    then have "sq_id r \<noteq> sq_id q" using Cons.prems(4) by (auto simp: image_iff)
    then show "on_side src ?L ?S (snd s1) r" using on_side_swap [OF _ a(3) _ T dj [OF r]] Cons.prems(3) r s by auto
  qed
  have ds: "distinct (map sq_id qs)" using Cons.prems(4) by simp
  from Cons.IH [OF a(1) Cons.prems(2) on ds 2] obtain L' S' where
    I: "mg_at sz L' S' s'" "contents s' = contents s1" "\<forall>q \<in> set qs. on_side dst L' S' (snd s') q"
      "\<forall>i. i \<notin> sq_id ` set qs \<longrightarrow> bm_tables (snd s') i = bm_tables (snd s1) i" "bm_cross (snd s') = bm_cross (snd s1)"
      "\<forall>i T'. bm_tables (snd s') i = Some T' \<longrightarrow> (\<exists>T. bm_tables (snd s1) i = Some T \<and> blocks_of T' = blocks_of T
        \<and> bt_num_full_slots T' = bt_num_full_slots T)"
      "\<forall>B. B \<inter> (\<Union>q \<in> set qs. opt_blocks (tabs (snd s1) (Inl (sq_id q)))) = {} \<longrightarrow> L' \<inter> B = ?L \<inter> B \<and> S' \<inter> B = ?S \<inter> B"
    by (elim exE conjE) blast
  have same: "tabs (snd s1) (Inl (sq_id r)) = tabs M (Inl (sq_id r))" if "r \<in> set qs" for r
    using that Cons.prems(4) t1 by (auto simp: image_iff)
  have frame: "L' \<inter> B = L \<inter> B \<and> S' \<inter> B = S \<inter> B" if B: "B \<inter> (\<Union>q \<in> set (q # qs). opt_blocks (tabs M (Inl (sq_id q)))) = {}" for B
  proof -
    have "B \<inter> (\<Union>q \<in> set qs. opt_blocks (tabs (snd s1) (Inl (sq_id q)))) = {}" using B same by auto
    then have "L' \<inter> B = ?L \<inter> B \<and> S' \<inter> B = ?S \<inter> B" using I(7) by blast
    moreover have "B \<inter> set (blocks_of T) = {}" using B T by auto
    ultimately show ?thesis by (cases src) (auto simp: side_defs)
  qed
  have "on_side dst L' S' (snd s') q"
  proof -
    have "sq_id q \<notin> sq_id ` set qs" using Cons.prems(4) by simp
    then have tq: "bm_tables (snd s') (sq_id q) = Some T'" using I(4) t1 by simp
    have "set (blocks_of T) \<inter> (\<Union>q \<in> set qs. opt_blocks (tabs (snd s1) (Inl (sq_id q)))) = {}" using dj T same by auto
    then have "L' \<inter> set (blocks_of T) = ?L \<inter> set (blocks_of T) \<and> S' \<inter> set (blocks_of T) = ?S \<inter> set (blocks_of T)" using I(7) by blast
    then show ?thesis using tq a(4) Cons.prems(2) by (cases src; cases dst) (auto simp: on_side_def side_defs)
  qed
  moreover have "\<exists>T0. bm_tables M i = Some T0 \<and> blocks_of T'' = blocks_of T0 \<and> bt_num_full_slots T'' = bt_num_full_slots T0"
    if "bm_tables (snd s') i = Some T''" for i T''
    using I(6) that t1 T a(4,5) by (metis option.inject)
  moreover have "bm_tables (snd s') i = bm_tables M i" if "i \<notin> sq_id ` set (q # qs)" for i
    using I(4) t1 that by simp
  ultimately show ?case using I(1-3,5) a(2) t2 frame s
    by (intro exI [of _ L'] exI [of _ S']) simp
qed auto

lemma swap_seqs_total:
  assumes "mg_at sz L S s" and "src \<noteq> dst" and "\<forall>q \<in> set qs. on_side src L S (snd s) q" and "distinct (map sq_id qs)"
    and "\<forall>q \<in> set qs. bm_tables (snd s) (sq_id q) \<noteq> None"
    and "sum_list (map (\<lambda>q. case bm_tables (snd s) (sq_id q) of None \<Rightarrow> 0 | Some T \<Rightarrow> length (blocks_of T)) qs) \<le> free_blocks dst s"
  shows "\<exists>r. fold_r (swap_seq src dst) qs (acc, s) = Inr r"
  using assms
proof (induction qs arbitrary: acc s L S)
  case (Cons q qs)
  obtain h M where s: "s = (h, M)" by (cases s)
  have mg: "mg_at sz L S (h, M)" using Cons.prems(1) s by simp
  obtain T where T: "bm_tables M (sq_id q) = Some T" using Cons.prems(5) s by auto
  have TL: "set (blocks_of T) \<subseteq> side src L S" using Cons.prems(3) T by (simp add: on_side_def s)
  have "length (blocks_of T) \<le> free_blocks dst (h, M)" using Cons.prems(6) T by (simp add: s)
  from swap_seq_total [OF mg Cons.prems(2) T TL this] obtain acc1 s1 where 1: "swap_seq src dst q (acc, h, M) = Inr (acc1, s1)"
    by (metis prod.exhaust)
  let ?L = "gpu_after src (set (blocks_of T)) L" and ?S = "cpu_after src (set (blocks_of T)) S"
  from swap_seq_ok [OF mg Cons.prems(2) T TL 1] obtain T' where
    a: "mg_at sz ?L ?S s1" "tabs (snd s1) = (tabs M)(Inl (sq_id q) \<mapsto> T')" "blocks_of T' = blocks_of T"
      "free_blocks dst (h, M) = free_blocks dst s1 + length (blocks_of T)" by blast
  have same: "bm_tables (snd s1) (sq_id r) = bm_tables M (sq_id r)" if "r \<in> set qs" for r
    using fun_cong [OF a(2), of "Inl (sq_id r)"] that Cons.prems(4) by (auto simp: image_iff)
  have "on_side src ?L ?S (snd s1) r" if r: "r \<in> set qs" for r
  proof -
    have ne: "sq_id r \<noteq> sq_id q" using r Cons.prems(4) by (auto simp: image_iff)
    then have "opt_blocks (tabs M (Inl (sq_id r))) \<inter> opt_blocks (tabs M (Inl (sq_id q))) = {}"
      by (intro mg_atD(7) [OF mg]) simp
    then show ?thesis using on_side_swap [OF _ a(2) ne T] Cons.prems(3) r s by auto
  qed
  moreover have mp: "map (\<lambda>q. case bm_tables (snd s1) (sq_id q) of None \<Rightarrow> 0 | Some T \<Rightarrow> length (blocks_of T)) qs
      = map (\<lambda>q. case bm_tables M (sq_id q) of None \<Rightarrow> 0 | Some T \<Rightarrow> length (blocks_of T)) qs"
    by (rule map_cong) (simp_all add: same)
  have "sum_list (map (\<lambda>q. case bm_tables (snd s1) (sq_id q) of None \<Rightarrow> 0 | Some T \<Rightarrow> length (blocks_of T)) qs) \<le> free_blocks dst s1"
    unfolding mp using Cons.prems(6) T a(4) by (simp add: s)
  ultimately have "\<exists>r. fold_r (swap_seq src dst) qs (acc1, s1) = Inr r"
    using Cons.IH [OF a(1) Cons.prems(2)] Cons.prems(4,5) same by (simp add: s)
  with 1 show ?case by (simp add: s)
qed simp

end
