(* ===== verification/Manager_Steps.thy ===== *)
theory Manager_Steps
  imports Manager_Tests Naive_Thms
begin

text \<open>
  The block manager as a state machine: the operations, the change that each makes to the
  contents, and the states that it reaches.
\<close>

definition table_on :: "device \<Rightarrow> mstate \<Rightarrow> block_table option \<Rightarrow> bool" where
  "table_on d s t \<longleftrightarrow> (case t of None \<Rightarrow> True
     | Some T \<Rightarrow> list_all (\<lambda>i. cg_ids (bm_alloc (snd s)) i = Some d) (physical_block_ids T))"

definition seq_on :: "device \<Rightarrow> mstate \<Rightarrow> sequence \<Rightarrow> bool" where
  "seq_on d s q \<longleftrightarrow> table_on d s (bm_tables (snd s) (sq_id q))"

datatype mg_op =
    Op_Allocate seq_group
  | Op_Append seq_group nat
  | Op_Fork sequence sequence
  | Op_Free sequence
  | Op_Free_Cross seq_group
  | Op_Swap_Out seq_group
  | Op_Swap_In seq_group

fun run_op :: "mg_op \<Rightarrow> mstate \<Rightarrow> mstate result" where
  "run_op (Op_Allocate g) s = allocate g s"
| "run_op (Op_Append g la) s = bind_r (append_group g la [] s) (\<lambda>(_, s1). Inr s1)"
| "run_op (Op_Fork p c) s = fork_seq p c s"
| "run_op (Op_Free q) s = free q s"
| "run_op (Op_Free_Cross g) s = free_cross g s"
| "run_op (Op_Swap_Out g) s = bind_r (swap_out g s) (\<lambda>(_, s1). Inr s1)"
| "run_op (Op_Swap_In g) s = bind_r (swap_in g s) (\<lambda>(_, s1). Inr s1)"

text \<open>
  The blocks of the sequences are where their status says: running sequences are on the GPU,
  swapped ones on the CPU, and the sequences of a group have different ids.
\<close>

fun op_allowed :: "mg_op \<Rightarrow> mstate \<Rightarrow> bool" where
  "op_allowed (Op_Allocate g) s = True"
| "op_allowed (Op_Append g la) s = list_all (seq_on GPU s) (get_seqs RUNNING g)"
| "op_allowed (Op_Fork p c) s = seq_on GPU s p"
| "op_allowed (Op_Free q) s = seq_on GPU s q"
| "op_allowed (Op_Free_Cross g) s = table_on GPU s (bm_cross (snd s) (sg_request_id g))"
| "op_allowed (Op_Swap_Out g) s = (list_all (seq_on GPU s) (get_seqs RUNNING g) \<and> distinct (map sq_id (get_seqs RUNNING g)))"
| "op_allowed (Op_Swap_In g) s = (list_all (seq_on CPU s) (get_seqs SWAPPED g) \<and> distinct (map sq_id (get_seqs SWAPPED g)))"

text \<open>The effect on the contents.\<close>

fun spec_op :: "mg_op \<Rightarrow> (table_key \<Rightarrow> int list option) \<Rightarrow> table_key \<Rightarrow> int list option" where
  "spec_op (Op_Allocate g) C = spec_allocate g C"
| "spec_op (Op_Append g la) C = spec_append (get_seqs RUNNING g) C"
| "spec_op (Op_Fork p c) C = (case C (Inl (sq_id p)) of None \<Rightarrow> C | Some toks \<Rightarrow> C(Inl (sq_id c) \<mapsto> toks))"
| "spec_op (Op_Free q) C = C(Inl (sq_id q) := None)"
| "spec_op (Op_Free_Cross g) C = C(Inr (sg_request_id g) := None)"
| "spec_op (Op_Swap_Out g) C = C"
| "spec_op (Op_Swap_In g) C = C"

inductive mg_run :: "mg_op list \<Rightarrow> mstate \<Rightarrow> mstate \<Rightarrow> bool" where
  mg_done: "mg_run [] s s"
| mg_next: "op_allowed p s \<Longrightarrow> run_op p s = Inr s1 \<Longrightarrow> mg_run ps s1 s' \<Longrightarrow> mg_run (p # ps) s s'"

inductive_simps mg_run_Nil [simp]: "mg_run [] s s'"
inductive_simps mg_run_Cons: "mg_run (p # ps) s s'"

subsection \<open>Where the blocks are\<close>

lemma ids_on:
  assumes "cg_inv sz S (h, G) L"
  shows "a \<in> L \<Longrightarrow> cg_ids G (the (bl_id (h ! a))) = Some GPU" and "a \<in> S \<Longrightarrow> cg_ids G (the (bl_id (h ! a))) = Some CPU"
proof -
  obtain A C where A: "nv_inv (h, A) L (L \<union> S)" "nv_inv (h, C) S {}"
    "\<forall>i \<in> set (na_all A). cg_ids G i = Some GPU" "\<forall>i \<in> set (na_all C). cg_ids G i = Some CPU"
    by (rule cg_invE [OF assms])
  have mem: "the (bl_id (h ! a)) \<in> set (na_all X)" if "nv_inv (h, X) Y W" "a \<in> Y" for X Y W
    using nv_invD(4) [OF that(1)] refs_of_mem [OF nv_invD(1) [OF that(1)] that(2), of h] by (auto simp: al_inv_def)
  show "a \<in> L \<Longrightarrow> cg_ids G (the (bl_id (h ! a))) = Some GPU" using mem [OF A(1)] A(3) by simp
  show "a \<in> S \<Longrightarrow> cg_ids G (the (bl_id (h ! a))) = Some CPU" using mem [OF A(2)] A(4) by simp
qed

lemma table_on_side:
  assumes mg: "mg_at sz L S (h, M)" and T: "tabs M k = Some T" and on: "table_on d (h, M) (Some T)"
  shows "set (blocks_of T) \<subseteq> side d L S"
proof
  fix a assume a: "a \<in> set (blocks_of T)"
  note dd = mg_atD [OF mg]
  have "physical_block_ids T = map (\<lambda>a. the (bl_id (h ! a))) (blocks_of T)"
    using dd(5) [OF T] by (simp add: table_ok_def tbl_def physical_block_ids_def blocks_of_def)
  then have i: "cg_ids (bm_alloc M) (the (bl_id (h ! a))) = Some d"
    using on a by (simp add: table_on_def list_all_iff)
  have "a \<in> L \<or> a \<in> S" using dd(6) [OF T] a by blast
  then show "a \<in> side d L S" using ids_on [OF dd(1), of a] i by (cases d) (auto simp: side_def)
qed

lemma seq_on_side: "mg_at sz L S s \<Longrightarrow> seq_on d s q \<Longrightarrow> on_side d L S (snd s) q"
  using table_on_side [of sz L S "fst s" "snd s" "Inl (sq_id q)" _ d] by (auto simp: seq_on_def on_side_def)

subsection \<open>The start\<close>

lemma init_block_manager_inv:
  assumes run: "init_block_manager H sz ng nc wm None False [] = Inr s" and pos: "0 < sz" "0 < ng" "0 < nc"
  shows "mg_at sz {} {} s \<and> contents s = (\<lambda>_. None)"
proof -
  let ?gi = "take ng [0..<ng + nc]" and ?ci = "drop ng [0..<ng + nc]"
  from run obtain h1 A h2 C G where wm: "0 \<le> wm"
    and gpu: "init_naive Naive_Block GPU ng sz ?gi [] = Inr (h1, A)"
    and cpu: "init_naive Naive_Block CPU nc sz ?ci h1 = Inr (h2, C)"
    and G: "init_cpu_gpu (NaiveBlockAllocator C) (NaiveBlockAllocator A) = Inr G"
    and s: "s = (h2, \<lparr>bm_block_size = sz, bm_num_total_gpu_blocks = ng, bm_num_total_cpu_blocks = nc,
      bm_sliding_window = None, bm_max_window = None, bm_watermark_blocks = \<lfloor>wm * real ng\<rfloor>, bm_enable_caching = False,
      bm_alloc = G, bm_tables = Map.empty, bm_cross = Map.empty, bm_computed = Map.empty, bm_access = Map.empty\<rparr>)"
    by (auto simp: init_block_manager_def create_cpu_gpu_def Let_def)
  have da: "distinct ?gi" and dc: "distinct ?ci" by simp_all
  note a = init_naive_inv [OF gpu da] and c = init_naive_inv [OF cpu dc]
  have a1: "nv_inv (h1, A) {} {}" "na_all A = ?gi" "bp_class (na_pool A) = Naive_Block" "bp_owner (na_pool A) = GPU"
    "bp_pool_size (na_pool A) = ng * 4" "na_block_size A = sz" "na_kv_shm A = None" "set (bp_pool (na_pool A)) = {0..<length h1}"
    using a by simp_all
  have c1: "nv_inv (h2, C) {} {}" "na_all C = ?ci" "agree {} h1 h2" "bp_class (na_pool C) = Naive_Block"
    "bp_pool_size (na_pool C) = nc * 4" "na_block_size C = sz" "na_kv_shm C = None" "set (bp_pool (na_pool C)) = {length h1..<length h2}"
    using c by simp_all
  have A2: "nv_inv (h2, A) {} {}" by (rule nv_frame [OF a1(1) c1(3)]) simp_all
  have cfg: "naive_cfg A" "naive_cfg C" "shm_room A" "shm_room C"
    using a1 c1 pos by (simp_all add: naive_cfg_def shm_room_def)
  from G have G': "cg_cpu G = NaiveBlockAllocator C" "cg_gpu G = NaiveBlockAllocator A" "cg_null_block G = None"
    "cg_ids G = (\<lambda>i. if i \<in> set (na_all A) then Some GPU else if i \<in> set (na_all C) then Some CPU else None)"
    and dj: "set (na_all C) \<inter> set (na_all A) = {}"
    by (auto simp: init_cpu_gpu_def all_block_ids_def)
  have "\<forall>i \<in> set (na_all C). cg_ids G i = Some CPU" using dj by (auto simp: G'(4))
  moreover have "\<forall>i \<in> set (na_all A). cg_ids G i = Some GPU" by (simp add: G'(4))
  moreover have "set (bp_pool (na_pool A)) \<inter> set (bp_pool (na_pool C)) = {}" by (auto simp: a1(8) c1(8))
  ultimately have "cg_inv sz {} (h2, G) {}"
    using A2 c1(1) cfg a1(4,6) c1(6) pos(1) G'(1-3) unfolding cg_inv_def naive_dev_def by simp
  moreover have "tabs (snd s) k = None" for k by (cases k) (simp_all add: s)
  moreover have "0 \<le> \<lfloor>wm * real ng\<rfloor>" using wm by simp
  ultimately show ?thesis by (auto simp: mg_at_def s contents_def opt_blocks_def)
qed

subsection \<open>Steps\<close>

lemma free_cross_ok:
  assumes mg: "mg_at sz L S (h, M)" and T: "bm_cross M r = Some T" "set (blocks_of T) \<subseteq> L" "r = sg_request_id g"
    and run: "free_cross g (h, M) = Inr s'"
  shows "mg_at sz (L - set (blocks_of T)) S s' \<and> contents s' = (contents (h, M))(Inr r := None)"
proof -
  have T0: "tabs M (Inr r) = Some T" using T by simp
  note d = mg_atD [OF mg]
  from run T obtain h1 G T1 where f: "bt_free cpu_gpu_ops ((h, bm_alloc M), T) = Inr ((h1, G), T1)"
    and s': "s' = (h1, M\<lparr>bm_alloc := G, bm_cross := (bm_cross M)(r := None)\<rparr>)"
    by (auto simp: free_cross_def split: prod.splits)
  have "table_at (cg_inv sz S) sz (h, bm_alloc M) L T" using d(1) T d(5) [OF T0] by (simp add: table_at_def)
  then have q: "cg_inv sz S (h1, G) (L - set (blocks_of T))" "agree (set (blocks_of T)) h h1"
    using cg.bt_free_ok f by blast+
  have tb: "tabs (snd s') = (tabs M)(Inr r := None)" by (auto simp: s' tabs_def split: sum.split)
  have "mg_at sz (L - set (blocks_of T)) S (h1, snd s')
    \<and> contents (h1, snd s') = (contents (h, M))(Inr r := map_option (\<lambda>T. toks_of h1 (blocks_of T)) None)"
  proof (rule mg_update [OF mg _ _ _ _ _ tb])
    show "h1 ! a = h ! a" if "a \<in> (L \<union> S) - opt_blocks (tabs M (Inr r))" for a
      using that mg_less [OF mg, of a] T by (intro agreeD [OF q(2)]) auto
    show "S - opt_blocks None = S - opt_blocks (tabs M (Inr r))" using T mg_disjoint [OF mg] by auto
  qed (use d(2,3,4,9,10,12) T q in \<open>auto simp: s'\<close>)
  then show ?thesis by (simp add: s')
qed

lemma contents_None: "mg_at sz L S s \<Longrightarrow> contents s k = None \<longleftrightarrow> tabs (snd s) k = None"
  by (simp add: contents_def)

lemma run_op_ok:
  assumes mg: "mg_at sz L S s" and al: "op_allowed p s" and run: "run_op p s = Inr s'"
  shows "\<exists>L' S'. mg_at sz L' S' s' \<and> contents s' = spec_op p (contents s)"
proof -
  obtain h M where s: "s = (h, M)" by (cases s)
  show ?thesis
  proof (cases p)
    case (Op_Allocate g)
    then show ?thesis using allocate_ok [OF mg, of g s'] run by auto
  next
    case (Op_Append g la)
    then obtain cs where r: "fold_r (append_seq la) (get_seqs RUNNING g) ([], s) = Inr (cs, s')"
      using run by (auto simp: append_group_def)
    have "\<forall>q \<in> set (get_seqs RUNNING g). on_side GPU L S (snd s) q"
      using al Op_Append seq_on_side [OF mg] by (auto simp: list_all_iff)
    from append_seqs_ok [OF mg this r] show ?thesis using Op_Append by auto
  next
    case (Op_Fork q c)
    show ?thesis
    proof (cases "bm_tables M (sq_id q)")
      case None
      then have "contents s (Inl (sq_id q)) = None" by (simp add: contents_def s)
      then show ?thesis using None mg run Op_Fork s by (auto simp: fork_seq_def)
    next
      case (Some T)
      have T: "tabs M (Inl (sq_id q)) = Some T" using Some by simp
      have "set (blocks_of T) \<subseteq> L"
        using seq_on_side [OF mg, of GPU q] al Op_Fork Some by (simp add: on_side_def side_def s)
      have r: "fork_table T (sq_id c) (h, M) = Inr s'" using run Op_Fork Some s by (simp add: fork_seq_def)
      from fork_table_ok [OF mg [unfolded s] T \<open>set (blocks_of T) \<subseteq> L\<close> r] obtain L' where
        "mg_at sz L' S s'" "contents s' = (contents (h, M))(Inl (sq_id c) := contents (h, M) (Inl (sq_id q)))" by blast
      moreover have "contents (h, M) (Inl (sq_id q)) = Some (get_all_token_ids h T)" using Some by (simp add: contents_def)
      ultimately show ?thesis using Op_Fork s by auto
    qed
  next
    case (Op_Free q)
    show ?thesis
    proof (cases "bm_tables M (sq_id q)")
      case None
      then have "contents s (Inl (sq_id q)) = None" by (simp add: contents_def s)
      then have "(contents s)(Inl (sq_id q) := None) = contents s" by (rule fun_upd_idem)
      then show ?thesis using None mg run Op_Free s by (auto simp: free_def Let_def)
    next
      case (Some T)
      have "set (blocks_of T) \<subseteq> L" using seq_on_side [OF mg, of GPU q] al Op_Free Some by (simp add: on_side_def side_def s)
      from free_ok [OF mg [unfolded s] Some this] run Op_Free show ?thesis by (auto simp: s)
    qed
  next
    case (Op_Free_Cross g)
    show ?thesis
    proof (cases "bm_cross M (sg_request_id g)")
      case None
      then have "contents s (Inr (sg_request_id g)) = None" by (simp add: contents_def s)
      then have "(contents s)(Inr (sg_request_id g) := None) = contents s" by (rule fun_upd_idem)
      then show ?thesis using None mg run Op_Free_Cross s by (auto simp: free_cross_def)
    next
      case (Some T)
      have "set (blocks_of T) \<subseteq> L"
        using table_on_side [OF mg [unfolded s], of "Inr (sg_request_id g)" T GPU] al Op_Free_Cross Some by (simp add: side_def s)
      from free_cross_ok [OF mg [unfolded s] Some this refl] run Op_Free_Cross show ?thesis by (auto simp: s)
    qed
  next
    case (Op_Swap_Out g)
    then obtain m where r: "fold_r (swap_seq GPU CPU) (get_seqs RUNNING g) ([], s) = Inr (m, s')"
      using run by (auto simp: swap_out_def)
    have on: "\<forall>q \<in> set (get_seqs RUNNING g). on_side GPU L S (snd s) q"
      using al Op_Swap_Out seq_on_side [OF mg] by (auto simp: list_all_iff)
    have ds: "distinct (map sq_id (get_seqs RUNNING g))" using al Op_Swap_Out by simp
    from swap_seqs_ok [OF mg _ on ds r] show ?thesis using Op_Swap_Out by auto
  next
    case (Op_Swap_In g)
    then obtain m where r: "fold_r (swap_seq CPU GPU) (get_seqs SWAPPED g) ([], s) = Inr (m, s')"
      using run by (auto simp: swap_in_def)
    have on: "\<forall>q \<in> set (get_seqs SWAPPED g). on_side CPU L S (snd s) q"
      using al Op_Swap_In seq_on_side [OF mg] by (auto simp: list_all_iff)
    have ds: "distinct (map sq_id (get_seqs SWAPPED g))" using al Op_Swap_In by simp
    from swap_seqs_ok [OF mg _ on ds r] show ?thesis using Op_Swap_In by auto
  qed
qed

lemma mg_run_ok:
  assumes "mg_run ps s s'" and "mg_at sz L S s"
  shows "\<exists>L' S'. mg_at sz L' S' s' \<and> contents s' = fold spec_op ps (contents s)"
  using assms
proof (induction arbitrary: L S)
  case (mg_next p s s1 ps s')
  from run_op_ok [OF mg_next.prems mg_next.hyps(1,2)] obtain L1 S1 where
    1: "mg_at sz L1 S1 s1" "contents s1 = spec_op p (contents s)" by blast
  from mg_next.IH [OF 1(1)] show ?case by (simp add: 1(2))
qed auto

end
