(* ===== verification/Manager_Thms.thy ===== *)
theory Manager_Thms
  imports Manager_Steps
begin

text \<open>The properties of the block manager, and a run that shows that they apply.\<close>

subsection \<open>A run\<close>

definition run_ops :: "mg_op list \<Rightarrow> mstate \<Rightarrow> mstate result" where
  "run_ops = fold_r (\<lambda>p s. if op_allowed p s then run_op p s else Inl AssertionError)"

lemma run_ops_run: "run_ops ps s = Inr s' \<Longrightarrow> mg_run ps s s'"
  by (induction ps arbitrary: s) (auto simp: run_ops_def mg_run_Cons split: if_splits)

definition ex_seq :: "nat \<Rightarrow> int list \<Rightarrow> seq_status \<Rightarrow> sequence" where
  "ex_seq i toks st = (new_sequence i toks)\<lparr>sq_status := st\<rparr>"

definition ex_group :: "sequence list \<Rightarrow> seq_group" where
  "ex_group qs = new_group ''r'' qs 0 None None None 0"

definition ex_start :: "mstate result" where
  "ex_start = init_block_manager (\<lambda>_ _ _. 0) 2 5 5 0 None False []"

definition ex_ops :: "mg_op list" where
  "ex_ops = [Op_Allocate (ex_group [ex_seq 0 [1, 2, 3] WAITING]),
     Op_Fork (ex_seq 0 [1, 2, 3] RUNNING) (ex_seq 1 [1, 2, 3] RUNNING),
     Op_Append (ex_group [ex_seq 0 [1, 2, 3, 4] RUNNING, ex_seq 1 [1, 2, 3, 5] RUNNING]) 0]"

definition ex_state :: mstate where
  "ex_state = (case bind_r ex_start (run_ops ex_ops) of Inr s \<Rightarrow> s | Inl _ \<Rightarrow> ([], undefined))"

lemma mg_ex_run: "\<exists>s0. init_block_manager (\<lambda>_ _ _. 0) 2 5 5 0 None False [] = Inr s0 \<and> mg_run ex_ops s0 ex_state"
proof -
  have "case bind_r ex_start (run_ops ex_ops) of Inr s \<Rightarrow> True | Inl _ \<Rightarrow> False" by code_simp
  then obtain s0 where "ex_start = Inr s0" "run_ops ex_ops s0 = Inr ex_state"
    by (auto simp: ex_state_def split: sum.splits)
  then show ?thesis using run_ops_run by (auto simp: ex_start_def)
qed

lemma reached:
  assumes "init_block_manager H sz ng nc wm None False [] = Inr s0" and "0 < sz" and "0 < ng" and "0 < nc" and "mg_run ps s0 s"
  shows "\<exists>L S. mg_at sz L S s \<and> contents s = fold spec_op ps (\<lambda>_. None)"
  using init_block_manager_inv [OF assms(1-4)] mg_run_ok [OF assms(5)] by metis

subsection \<open>Properties\<close>




definition ex_new :: seq_group where
  "ex_new = ex_group [ex_seq 2 [7, 8, 9] WAITING]"



definition ex_running :: "seq_status \<Rightarrow> seq_group" where
  "ex_running st = ex_group [ex_seq 0 [1, 2, 3, 4, 5] st, ex_seq 1 [1, 2, 3, 5, 6, 7] st]"


text \<open>Two runs in which a swap that was announced as possible raises.\<close>

definition fault_group :: "nat \<Rightarrow> seq_status \<Rightarrow> seq_group" where
  "fault_group i st = ex_group [ex_seq i [7] st]"

definition announced_and_raised :: "nat \<Rightarrow> py_error \<Rightarrow> mstate \<Rightarrow> bool" where
  "announced_and_raised i e s = (case can_swap_out (fault_group i RUNNING) s of
     Inl _ \<Rightarrow> False
   | Inr (b, s1) \<Rightarrow> b \<and> (case swap_out (fault_group i RUNNING) s1 of Inl e' \<Rightarrow> e' = e | Inr _ \<Rightarrow> False))"

definition after_run :: "nat \<Rightarrow> nat \<Rightarrow> mg_op list \<Rightarrow> (mstate \<Rightarrow> bool) \<Rightarrow> bool" where
  "after_run ng nc ps P = (case bind_r (init_block_manager (\<lambda>_ _ _. 0) 1 ng nc 0 None False []) (fold_r run_op ps) of
     Inl _ \<Rightarrow> False | Inr s \<Rightarrow> P s)"


text \<open>
  \<open>can_swap_out\<close> counts no block that only holds lookahead slots: it answers \<open>True\<close>
  for a sequence with three such blocks and one free block on the CPU, and \<open>swap_out\<close> raises.
\<close>

theorem lookahead_not_counted:
  "after_run 4 1 [Op_Allocate (fault_group 0 WAITING), Op_Append (fault_group 0 RUNNING) 3]
     (announced_and_raised 0 NoFreeBlocksError)"
  by code_simp

end
