(* ===== verification/Manager_Swap_Thms.thy ===== *)
theory Manager_Swap_Thms
  imports Manager_Thms
begin

text \<open>Properties of swapping, and the conservation of blocks.\<close>

subsection \<open>The estimate of \<open>can_swap\<close>\<close>

definition cost :: "mstate \<Rightarrow> sequence \<Rightarrow> nat" where
  "cost s q = (case bm_tables (snd s) (sq_id q) of None \<Rightarrow> 0 | Some T \<Rightarrow> length (blocks_of T))"

definition seq_blocks :: "block_manager \<Rightarrow> sequence \<Rightarrow> nat list" where
  "seq_blocks M q = (case bm_tables M (sq_id q) of None \<Rightarrow> [] | Some T \<Rightarrow> blocks_of T)"

lemma add_swap_cost_eq:
  assumes mg: "mg_at sz L S (h, M)" and "\<forall>q \<in> set qs. bm_tables M (sq_id q) \<noteq> None"
  shows "fold_r (add_swap_cost la M) qs (n, bs)
    = Inr (n + int (sum_list (map (touch M la) qs)), bs @ concat (map (seq_blocks M) qs))"
  using assms(2)
proof (induction qs arbitrary: n bs)
  case (Cons q qs)
  then obtain T where T: "bm_tables M (sq_id q) = Some T" by auto
  then have "0 < bt_block_size T" using mg_table [OF mg, of "Inl (sq_id q)" T] by simp
  note e = touched_eq [OF this]
  show ?case using Cons T e by (simp add: add_swap_cost_def touch_def seq_blocks_def blocks_of_def)
qed simp

text \<open>
  A table has no spare blocks when the tokens that it will hold need all of them: nothing was
  allocated for lookahead slots that are still empty.
\<close>

definition no_spare_blocks :: "nat \<Rightarrow> block_manager \<Rightarrow> sequence \<Rightarrow> bool" where
  "no_spare_blocks la M q \<longleftrightarrow> (case bm_tables M (sq_id q) of None \<Rightarrow> True
     | Some T \<Rightarrow> length (ls_blocks (bt_blocks T))
         \<le> ceil_div (bt_num_full_slots T + (length (get_unseen_token_ids T (sq_tokens q)) + la)) (bt_block_size T))"

lemma full_blocks_count:
  assumes mg: "mg_at sz L S (h, M)" and T: "tabs M k = Some T"
  shows "bt_num_full_slots T div sz \<le> card {a \<in> set (blocks_of T). is_full (h ! a)}"
proof -
  note d = mg_atD [OF mg] and t = mg_table [OF mg T]
  let ?n = "bt_num_full_slots T div sz" and ?b = "blocks_of T"
  have f: "filled h sz ?b (bt_num_full_slots T)" using d(5) [OF T] by (simp add: table_ok_def tbl_def blocks_of_def)
  obtain A C where A: "\<forall>a \<in> L \<union> S. bl_size (h ! a) = sz \<and> length (bl_tokens (h ! a)) \<le> sz" by (rule cg_invE [OF d(1)])
  have "?n \<le> length ?b * sz div sz" by (rule div_le_mono) (use f in \<open>simp add: filled_def\<close>)
  then have n: "?n \<le> length ?b" using t(4) by simp
  have "is_full (h ! (?b ! j))" if j: "j < ?n" for j
  proof -
    have jb: "j < length ?b" using j n by simp
    then have "?b ! j \<in> L \<union> S" using d(11) [of k] T by (auto simp: subset_iff)
    then have "bl_size (h ! (?b ! j)) = sz" using A by blast
    moreover have "Suc j * sz \<le> bt_num_full_slots T"
      using j mult_le_mono1 [of "Suc j" ?n sz] div_times_less_eq_dividend [of "bt_num_full_slots T" sz] by linarith
    then have "length (bl_tokens (h ! (?b ! j))) = sz" using f jb by (simp add: filled_def)
    ultimately show ?thesis by (simp add: is_full_def num_empty_slots_def)
  qed
  note full = this
  have "set (take ?n ?b) \<subseteq> {a \<in> set ?b. is_full (h ! a)}"
  proof
    fix a assume a: "a \<in> set (take ?n ?b)"
    then obtain i where "i < ?n" "a = ?b ! i" by (auto simp: in_set_conv_nth)
    then show "a \<in> {a \<in> set ?b. is_full (h ! a)}" using full in_set_takeD [OF a] by simp
  qed
  moreover have "card (set (take ?n ?b)) = ?n" using t(5) n by (simp add: distinct_card)
  ultimately show ?thesis by (metis (no_types, lifting) card_mono finite_set finite_subset mem_Collect_eq subsetI)
qed

lemma full_blocks_sum:
  assumes mg: "mg_at sz L S (h, M)" and "distinct (map sq_id qs)" and "\<forall>q \<in> set qs. bm_tables M (sq_id q) \<noteq> None"
    and "\<forall>q \<in> set qs. no_spare_blocks la M q"
  shows "sum_list (map (cost (h, M)) qs)
    \<le> sum_list (map (touch M la) qs) + card {a \<in> set (concat (map (seq_blocks M) qs)). is_full (h ! a)}"
  using assms(2-)
proof (induction qs)
  case (Cons q qs)
  let ?F = "\<lambda>B. {a \<in> B. is_full (h ! a)}"
  obtain T where T: "bm_tables M (sq_id q) = Some T" using Cons.prems(2) by auto
  then have T0: "tabs M (Inl (sq_id q)) = Some T" by simp
  note t = mg_table [OF mg T0]
  have "length (blocks_of T) \<le> ceil_div (bt_num_full_slots T + (length (get_unseen_token_ids T (sq_tokens q)) + la)) sz"
    using Cons.prems(3) T t(3) by (simp add: no_spare_blocks_def blocks_of_def)
  then have "cost (h, M) q \<le> touch M la q + bt_num_full_slots T div sz"
    using T t(3) by (simp add: cost_def touch_def touched_def)
  then have 1: "cost (h, M) q \<le> touch M la q + card (?F (set (blocks_of T)))"
    using full_blocks_count [OF mg T0] by linarith
  have "set (blocks_of T) \<inter> set (seq_blocks M r) = {}" if r: "r \<in> set qs" for r
  proof -
    have "(Inl (sq_id q) :: table_key) \<noteq> Inl (sq_id r)" using r Cons.prems(1) by (auto simp: image_iff)
    from mg_atD(7) [OF mg this] show ?thesis using T by (cases "bm_tables M (sq_id r)") (auto simp: seq_blocks_def)
  qed
  then have "?F (set (blocks_of T)) \<inter> ?F (set (concat (map (seq_blocks M) qs))) = {}" by auto
  moreover have "?F (set (concat (map (seq_blocks M) (q # qs)))) = ?F (set (blocks_of T)) \<union> ?F (set (concat (map (seq_blocks M) qs)))"
    using T by (auto simp: seq_blocks_def)
  ultimately have "card (?F (set (concat (map (seq_blocks M) (q # qs))))) = card (?F (set (blocks_of T))) + card (?F (set (concat (map (seq_blocks M) qs))))"
    by (simp add: card_Un_disjoint)
  then show ?case using Cons 1 by simp
qed simp

lemma can_swap_room:
  assumes mg: "mg_at sz L S s" and run: "can_swap g d st la s = Inr (OK, s')" and ds: "distinct (map sq_id (get_seqs st g))"
    and tabs: "\<forall>q \<in> set (get_seqs st g). bm_tables (snd s) (sq_id q) \<noteq> None"
    and spare: "\<forall>q \<in> set (get_seqs st g). no_spare_blocks la (snd s) q"
  shows "sum_list (map (cost s) (get_seqs st g)) \<le> free_blocks d s \<and> s' = s"
proof -
  obtain h M where s: "s = (h, M)" by (cases s)
  note dd = mg_atD [OF mg [unfolded s]]
  obtain A C where A: "cg_gpu (bm_alloc M) = NaiveBlockAllocator A" "cg_cpu (bm_alloc M) = NaiveBlockAllocator C"
    by (rule cg_invE [OF dd(1)])
  let ?bs = "concat (map (seq_blocks M) (get_seqs st g))"
  have same: "cg_get_num_full_blocks_touched ?bs d (h, bm_alloc M) = Inr (card (set (filter (\<lambda>a. is_full (h ! a)) ?bs)), h, bm_alloc M)"
    using A by (cases d) (simp_all add: cg_get_num_full_blocks_touched_def on_alloc_def get_alloc_def set_alloc_def
      naive_get_num_full_blocks_touched_def)
  have "fold_r (add_swap_cost la M) (get_seqs st g) (0, []) = Inr (int (sum_list (map (touch M la) (get_seqs st g))), ?bs)"
    using add_swap_cost_eq [OF mg [unfolded s], of "get_seqs st g" la 0 "[]"] tabs by (simp add: s)
  then have "0 \<le> int (cg_get_num_free_blocks d (bm_alloc M)) - (int (sum_list (map (touch M la) (get_seqs st g)))
      + int (card (set (filter (\<lambda>a. is_full (h ! a)) ?bs))))" and "s' = (h, M)"
    using run same dd(12) by (auto simp: can_swap_def s Let_def split: if_splits)
  moreover have "set (filter (\<lambda>a. is_full (h ! a)) ?bs) = {a \<in> set ?bs. is_full (h ! a)}" by auto
  ultimately show ?thesis
    using full_blocks_sum [OF mg [unfolded s] ds] tabs spare by (fastforce simp: s free_blocks_def)
qed

subsection \<open>Properties\<close>


definition ex_idle :: "seq_status \<Rightarrow> seq_group" where
  "ex_idle st = ex_group [ex_seq 0 [1, 2, 3, 4] st, ex_seq 1 [1, 2, 3, 5] st]"

lemma ex_can_swap_out: "\<exists>s1. can_swap_out (ex_idle RUNNING) ex_state = Inr (True, s1)"
proof -
  have "case can_swap_out (ex_idle RUNNING) ex_state of Inl _ \<Rightarrow> False | Inr (b, s) \<Rightarrow> b" by code_simp
  then show ?thesis by (auto split: sum.splits)
qed



definition ex_out_ops :: "mg_op list" where
  "ex_out_ops = ex_ops @ [Op_Swap_Out (ex_idle RUNNING)]"

definition ex_out :: mstate where
  "ex_out = (case bind_r ex_start (run_ops ex_out_ops) of Inr s \<Rightarrow> s | Inl _ \<Rightarrow> ([], undefined))"

lemma ex_out_run: "\<exists>s0. init_block_manager (\<lambda>_ _ _. 0) 2 5 5 0 None False [] = Inr s0 \<and> mg_run ex_out_ops s0 ex_out"
proof -
  have "case bind_r ex_start (run_ops ex_out_ops) of Inr s \<Rightarrow> True | Inl _ \<Rightarrow> False" by code_simp
  then obtain s0 where "ex_start = Inr s0" "run_ops ex_out_ops s0 = Inr ex_out"
    by (auto simp: ex_out_def split: sum.splits)
  then show ?thesis using run_ops_run by (auto simp: ex_start_def)
qed


text \<open>
  C19. Swapping a group out and in again gives back what it took: the contents of all tables are
  unchanged, the sequences of the group are on the GPU again, and no other table has changed.
\<close>

theorem swap_roundtrip:
  assumes "init_block_manager H sz ng nc wm None False [] = Inr s0" and "0 < sz" and "0 < ng" and "0 < nc"
    and "mg_run ps s0 s"
    and "op_allowed (Op_Swap_Out g) s" and "swap_out g s = Inr (m1, s1)"
    and "get_seqs SWAPPED g' = map (sq_status_update (\<lambda>_. SWAPPED)) (get_seqs RUNNING g)" and "swap_in g' s1 = Inr (m2, s2)"
  shows "contents s2 = contents s \<and> (\<forall>q \<in> set (get_seqs RUNNING g). seq_on GPU s2 q)
    \<and> (\<forall>i. i \<notin> sq_id ` set (get_seqs RUNNING g) \<longrightarrow> bm_tables (snd s2) i = bm_tables (snd s) i)"
proof -
  obtain L S where mg: "mg_at sz L S s" using reached [OF assms(1-5)] by blast
  let ?qs = "get_seqs RUNNING g" and ?qs' = "get_seqs SWAPPED g'"
  have on: "\<forall>q \<in> set ?qs. on_side GPU L S (snd s) q" and ds: "distinct (map sq_id ?qs)"
    using assms(6) seq_on_side [OF mg] by (auto simp: list_all_iff)
  from swap_seqs_ok [OF mg _ on ds assms(7) [unfolded swap_out_def]] obtain L1 S1 where
    1: "mg_at sz L1 S1 s1" "contents s1 = contents s" "\<forall>q \<in> set ?qs. on_side CPU L1 S1 (snd s1) q"
      "\<forall>i. i \<notin> sq_id ` set ?qs \<longrightarrow> bm_tables (snd s1) i = bm_tables (snd s) i" by auto
  have ids: "map sq_id ?qs' = map sq_id ?qs" by (simp add: assms(8))
  have "sq_id ` set ?qs' = sq_id ` set ?qs" using arg_cong [OF ids, of set] by simp
  have on1: "\<forall>q \<in> set ?qs'. on_side CPU L1 S1 (snd s1) q" using 1(3) by (auto simp: assms(8) on_side_def)
  have "distinct (map sq_id ?qs')" using ds ids by simp
  from swap_seqs_ok [OF 1(1) _ on1 this assms(9) [unfolded swap_in_def]] obtain L2 S2 where
    2: "mg_at sz L2 S2 s2" "contents s2 = contents s1" "\<forall>q \<in> set ?qs'. on_side GPU L2 S2 (snd s2) q"
      "\<forall>i. i \<notin> sq_id ` set ?qs' \<longrightarrow> bm_tables (snd s2) i = bm_tables (snd s1) i" by auto
  have "seq_on GPU s2 q" if q: "q \<in> set ?qs" for q
  proof (cases "bm_tables (snd s2) (sq_id q)")
    case (Some T)
    obtain h2 M2 where s2: "s2 = (h2, M2)" by (cases s2)
    have T: "tabs M2 (Inl (sq_id q)) = Some T" using Some s2 by simp
    have "q\<lparr>sq_status := SWAPPED\<rparr> \<in> set ?qs'" using q by (auto simp: assms(8))
    from 2(3) [rule_format, OF this] have "set (blocks_of T) \<subseteq> L2" using Some by (simp add: on_side_def side_def)
    moreover note dd = mg_atD [OF 2(1) [unfolded s2]]
    moreover have "physical_block_ids T = map (\<lambda>a. the (bl_id (h2 ! a))) (blocks_of T)"
      using dd(5) [OF T] by (simp add: table_ok_def tbl_def physical_block_ids_def blocks_of_def)
    ultimately show ?thesis using Some ids_on(1) [OF dd(1)]
      by (auto simp: seq_on_def table_on_def s2 list_all_iff)
  qed (simp add: seq_on_def table_on_def)
  then show ?thesis using 1(2,4) 2(2,4) \<open>sq_id ` set ?qs' = sq_id ` set ?qs\<close> by simp
qed

theorem swap_roundtrip_witness:
  "\<exists>m1 s1 m2 s2. swap_out (ex_idle RUNNING) ex_state = Inr (m1, s1) \<and> swap_in (ex_idle SWAPPED) s1 = Inr (m2, s2)
    \<and> contents s2 = contents ex_state"
proof -
  obtain s0 where 0: "init_block_manager (\<lambda>_ _ _. 0) 2 5 5 0 None False [] = Inr s0" "mg_run ex_ops s0 ex_state"
    using mg_ex_run by blast
  have al: "op_allowed (Op_Swap_Out (ex_idle RUNNING)) ex_state" by code_simp
  have c: "case swap_out (ex_idle RUNNING) ex_state of Inl _ \<Rightarrow> False | Inr (m, s) \<Rightarrow>
     (case swap_in (ex_idle SWAPPED) s of Inl _ \<Rightarrow> False | Inr _ \<Rightarrow> True)" by code_simp
  then obtain m1 s1 where 1: "swap_out (ex_idle RUNNING) ex_state = Inr (m1, s1)"
    by (cases "swap_out (ex_idle RUNNING) ex_state") auto
  with c obtain m2 s2 where 2: "swap_in (ex_idle SWAPPED) s1 = Inr (m2, s2)" by (cases "swap_in (ex_idle SWAPPED) s1") auto
  have g: "get_seqs SWAPPED (ex_idle SWAPPED) = map (sq_status_update (\<lambda>_. SWAPPED)) (get_seqs RUNNING (ex_idle RUNNING))"
    by (simp add: ex_idle_def ex_group_def new_group_def ex_seq_def new_sequence_def from_seqs_def seq_data_of_def get_seqs_def)
  from swap_roundtrip [OF 0(1) _ _ _ 0(2) al 1 g 2] have "contents s2 = contents ex_state" by simp
  with 1 2 show ?thesis by blast
qed

text \<open>The ids of a device that are withheld for prewarming, and those that the tables name.\<close>

definition withheld :: "device \<Rightarrow> mstate \<Rightarrow> nat" where
  "withheld d s = (case get_alloc d (bm_alloc (snd s)) of
     NaiveBlockAllocator A \<Rightarrow> length (reserved_ids A)
   | PrefixCachingBlockAllocator A \<Rightarrow> length (reserved_ids (pa_hashless A)))"

definition used_ids :: "device \<Rightarrow> mstate \<Rightarrow> nat set" where
  "used_ids d s = {i. cg_ids (bm_alloc (snd s)) i = Some d
     \<and> (\<exists>k T. tabs (snd s) k = Some T \<and> i \<in> set (physical_block_ids T))}"

lemma used_ids_eq:
  assumes mg: "mg_at sz L S (h, M)" and disj: "\<And>a. a \<in> L \<union> S \<Longrightarrow> cg_ids (bm_alloc M) (the (bl_id (h ! a))) = Some d \<longleftrightarrow> a \<in> X"
    and X: "X \<subseteq> L \<union> S"
  shows "used_ids d (h, M) = (\<lambda>a. the (bl_id (h ! a))) ` X"
proof -
  note dd = mg_atD [OF mg]
  have ids: "physical_block_ids T = map (\<lambda>a. the (bl_id (h ! a))) (blocks_of T)" if "tabs M k = Some T" for k T
    using dd(5) [OF that] by (simp add: table_ok_def tbl_def physical_block_ids_def blocks_of_def)
  have sub: "a \<in> L \<union> S" if "tabs M k = Some T" "a \<in> set (blocks_of T)" for k T a
    using dd(11) [of k] that by auto
  have ex: "\<exists>k T. tabs M k = Some T \<and> a \<in> set (blocks_of T)" if x: "a \<in> X" for a
  proof -
    obtain k where "a \<in> opt_blocks (tabs M k)" using x X unfolding dd(8) by blast
    then show ?thesis by (cases "tabs M k") auto
  qed
  show ?thesis
  proof (intro set_eqI iffI)
    fix i assume "i \<in> used_ids d (h, M)"
    then obtain k T where T: "cg_ids (bm_alloc M) i = Some d" "tabs M k = Some T" "i \<in> set (physical_block_ids T)"
      by (auto simp: used_ids_def)
    then obtain a where a: "a \<in> set (blocks_of T)" "i = the (bl_id (h ! a))" using ids by auto
    then show "i \<in> (\<lambda>a. the (bl_id (h ! a))) ` X" using disj [OF sub [OF T(2) a(1)]] T(1) by auto
  next
    fix i assume "i \<in> (\<lambda>a. the (bl_id (h ! a))) ` X"
    then obtain a where a: "a \<in> X" "i = the (bl_id (h ! a))" by blast
    obtain k T where T: "tabs M k = Some T" "a \<in> set (blocks_of T)" using ex [OF a(1)] by blast
    have "cg_ids (bm_alloc M) i = Some d" using disj [of a] a X by auto
    moreover have "i \<in> set (physical_block_ids T)" using ids [OF T(1)] T(2) a(2) by simp
    ultimately show "i \<in> used_ids d (h, M)" using T(1) by (auto simp: used_ids_def)
  qed
qed

lemma nv_count:
  assumes "nv_inv (h, A) L W"
  shows "length (na_free A) + length (reserved_ids A) + card ((\<lambda>a. the (bl_id (h ! a))) ` L) = length (na_all A)"
proof -
  note d = nv_invD [OF assms]
  let ?R = "refs_of h L"
  have al: "distinct (na_all A)" "set_mset ?R \<subseteq> set (na_all A)"
    "mset (na_free A) + mset (reserved_ids A) = mset_set {i \<in> set (na_all A). i \<notin># ?R}" using d(4) by (simp_all add: al_inv_def)
  have R: "set_mset ?R = (\<lambda>a. the (bl_id (h ! a))) ` L" using d(1) by (simp add: refs_of_def)
  have "length (na_free A) + length (reserved_ids A) = card {i \<in> set (na_all A). i \<notin># ?R}"
    using arg_cong [OF al(3), of size] by simp
  moreover have "card {i \<in> set (na_all A). i \<notin># ?R} + card (set_mset ?R) = card (set (na_all A))"
  proof -
    have "set (na_all A) = {i \<in> set (na_all A). i \<notin># ?R} \<union> set_mset ?R" using al(2) by auto
    then show ?thesis by (metis (no_types, lifting) card_Un_disjoint disjoint_iff finite_Un finite_set mem_Collect_eq)
  qed
  ultimately show ?thesis using distinct_card [OF al(1)] by (simp add: R)
qed



end
