(* ===== verification/Prefix_Thms.thy ===== *)
theory Prefix_Thms
  imports Prefix_Allocator Naive_Seq Cpu_Gpu_Allocator Block_Manager "HOL-Library.Sublist"
begin

text \<open>
  Properties of the prefix cache: what a content hash identifies, and which ids count as a
  common computed prefix.
\<close>

subsection \<open>The common prefix\<close>

lemma common_prefix2_prefix: "prefix (common_prefix2 xs ys) xs \<and> prefix (common_prefix2 xs ys) ys"
  by (induction xs ys rule: common_prefix2.induct) auto

lemma common_prefix2_greatest: "prefix zs xs \<Longrightarrow> prefix zs ys \<Longrightarrow> prefix zs (common_prefix2 xs ys)"
proof (induction xs ys arbitrary: zs rule: common_prefix2.induct)
  case (1 x xs y ys)
  then show ?case by (cases zs) auto
qed auto

text \<open>A list between two others starts with what they have in common.\<close>

lemma common_prefix2_between:
  fixes xs ys zs :: "nat list"
  assumes "xs \<le> zs" and "zs \<le> ys"
  shows "prefix (common_prefix2 xs ys) zs"
  using assms
proof (induction xs ys arbitrary: zs rule: common_prefix2.induct)
  case (1 x xs y ys)
  show ?case
  proof (cases "x = y")
    case True
    obtain z zs' where z: "zs = z # zs'" using 1(2) by (cases zs) auto
    have "z = x" "xs \<le> zs'" "zs' \<le> ys" using 1(2,3) True by (auto simp: z)
    then show ?thesis using 1(1) True z by simp
  qed simp
qed auto

lemma fold_min_max:
  fixes x :: "nat list"
  shows "fold min xs x \<in> set (x # xs) \<and> fold max xs x \<in> set (x # xs)
    \<and> (\<forall>y \<in> set (x # xs). fold min xs x \<le> y \<and> y \<le> fold max xs x)"
proof -
  have "fold min xs x \<in> insert x (set xs) \<and> (\<forall>y \<in> insert x (set xs). fold min xs x \<le> y)" for x :: "nat list"
    by (induction xs arbitrary: x) (fastforce simp: min_def)+
  moreover have "fold max xs x \<in> insert x (set xs) \<and> (\<forall>y \<in> insert x (set xs). y \<le> fold max xs x)" for x :: "nat list"
    by (induction xs arbitrary: x) (fastforce simp: max_def)+
  ultimately show ?thesis by auto
qed

text \<open>
  \<open>get_common_computed_block_ids\<close> returns the longest common prefix: for any number of
  sequences with computed blocks, a list is a prefix of the result exactly when it is a prefix of
  every computed list that is not empty.
\<close>

theorem common_prefix_longest:
  assumes "\<exists>ids \<in> set computed. ids \<noteq> []"
  shows "prefix p (prefix_get_common_computed_block_ids computed)
    \<longleftrightarrow> (\<forall>ids \<in> set computed. ids \<noteq> [] \<longrightarrow> prefix p ids)"
proof (cases "length computed = 1")
  case True
  then obtain x where "computed = [x]" by (auto simp: length_Suc_conv)
  then show ?thesis using assms by (simp add: prefix_get_common_computed_block_ids_def)
next
  case False
  let ?f = "filter (\<lambda>ids. ids \<noteq> []) computed"
  obtain x xs where f: "?f = x # xs" using assms by (cases ?f) (auto simp: filter_empty_conv)
  have s: "set (x # xs) = {ids \<in> set computed. ids \<noteq> []}" using arg_cong [OF f, of set] by simp
  have r: "prefix_get_common_computed_block_ids computed = common_prefix2 (fold min xs x) (fold max xs x)"
    using False f by (simp add: prefix_get_common_computed_block_ids_def commonprefix_def)
  note mm = fold_min_max [of xs x]
  have "prefix p (common_prefix2 (fold min xs x) (fold max xs x)) \<longleftrightarrow> (\<forall>ids \<in> set (x # xs). prefix p ids)"
  proof
    assume p: "prefix p (common_prefix2 (fold min xs x) (fold max xs x))"
    show "\<forall>ids \<in> set (x # xs). prefix p ids"
      using p mm common_prefix2_between prefix_order.trans by metis
  qed (use mm common_prefix2_greatest in blast)
  then show ?thesis unfolding r s by blast
qed

theorem common_prefix_longest_witness:
  "prefix [3, 1] (prefix_get_common_computed_block_ids [[3, 1, 4], [], [3, 1, 5, 9], [3, 1]])"
  using common_prefix_longest [of "[[3, 1, 4], [], [3, 1, 5, 9], [3, 1]]" "[3, 1]"] by simp

subsection \<open>Content hashes\<close>

text \<open>The reference: the hash of a block is computed from the tokens of all blocks before it.\<close>

fun hash_chain :: "hash_fn \<Rightarrow> int option \<Rightarrow> int list list \<Rightarrow> int option" where
  "hash_chain H c [] = c"
| "hash_chain H c (t # ts) = hash_chain H (Some (H (c = None) c t)) ts"

lemma hash_chain_append: "hash_chain H c (xs @ ys) = hash_chain H (hash_chain H c xs) ys"
  by (induction xs arbitrary: c) simp_all

text \<open>Full blocks in a chain; the hashes that are stored in them agree with the reference.\<close>

definition chain_tokens :: "heap \<Rightarrow> nat list \<Rightarrow> int list list" where
  "chain_tokens h bs = map (\<lambda>a. bl_tokens (h ! a)) bs"

definition hashes_ok :: "hash_fn \<Rightarrow> heap \<Rightarrow> nat list \<Rightarrow> bool" where
  "hashes_ok H h bs \<longleftrightarrow> distinct bs \<and> linked h None bs \<and> (\<forall>a \<in> set bs. a < length h \<and> is_full (h ! a))
     \<and> (\<forall>xs a ys. bs = xs @ a # ys \<longrightarrow> bl_hash (h ! a) = None \<or> bl_hash (h ! a) = hash_chain H None (chain_tokens h (xs @ [a])))"

definition only_hashes :: "heap \<Rightarrow> heap \<Rightarrow> bool" where
  "only_hashes h h' \<longleftrightarrow> length h' = length h \<and> (\<forall>x < length h. h' ! x = (h ! x)\<lparr>bl_hash := bl_hash (h' ! x)\<rparr>)"

lemma only_hashesD:
  assumes "only_hashes h h'" and "x < length h"
  shows "bl_tokens (h' ! x) = bl_tokens (h ! x)" "bl_prev (h' ! x) = bl_prev (h ! x)" "is_full (h' ! x) = is_full (h ! x)"
proof -
  have e: "h' ! x = (h ! x)\<lparr>bl_hash := bl_hash (h' ! x)\<rparr>" using assms by (simp add: only_hashes_def)
  show "bl_tokens (h' ! x) = bl_tokens (h ! x)" "bl_prev (h' ! x) = bl_prev (h ! x)" "is_full (h' ! x) = is_full (h ! x)"
    by (subst e, simp add: is_full_def num_empty_slots_def)+
qed

lemma only_hashes_refl: "only_hashes h h" by (simp add: only_hashes_def)

lemma hash_chain_Some: "ts \<noteq> [] \<Longrightarrow> \<exists>c. hash_chain H c0 ts = Some c"
  by (induction ts arbitrary: c0) (auto, metis hash_chain.simps(1) list.exhaust)

lemma hashes_ok_butlast: "hashes_ok H h (as @ [a]) \<Longrightarrow> hashes_ok H h as"
  unfolding hashes_ok_def by (auto simp: linked_append)

lemma hashes_ok_last:
  assumes "hashes_ok H h (as @ [a])" and "bl_hash (h ! a) = Some c"
  shows "hash_chain H None (chain_tokens h (as @ [a])) = Some c"
proof -
  have "\<forall>xs b ys. as @ [a] = xs @ b # ys \<longrightarrow> bl_hash (h ! b) = None \<or> bl_hash (h ! b) = hash_chain H None (chain_tokens h (xs @ [b]))"
    using assms(1) by (simp add: hashes_ok_def)
  from this [rule_format, of as a "[]"] assms(2) show ?thesis by simp
qed

lemma only_hashes_chain:
  "only_hashes h h' \<Longrightarrow> \<forall>a \<in> set bs. a < length h \<Longrightarrow> chain_tokens h' bs = chain_tokens h bs"
  by (auto simp: chain_tokens_def only_hashesD)

text \<open>The hash of \<open>a\<close> is stored; the others stay.\<close>

lemma hashes_ok_store:
  assumes ok: "hashes_ok H h1 as" and a: "a \<notin> set as" "a < length h1" "is_full (h1 ! a)" "linked h1 None (as @ [a])"
    and c: "hash_chain H None (chain_tokens h1 (as @ [a])) = Some c"
  shows "hashes_ok H (h1[a := (h1 ! a)\<lparr>bl_hash := Some c\<rparr>]) (as @ [a])"
proof -
  let ?h = "h1[a := (h1 ! a)\<lparr>bl_hash := Some c\<rparr>]"
  have oh: "only_hashes h1 ?h" using a(2) by (auto simp: only_hashes_def nth_list_update)
  have less: "\<forall>b \<in> set (as @ [a]). b < length h1" using ok a by (auto simp: hashes_ok_def)
  have l: "linked ?h None (as @ [a]) = linked h1 None (as @ [a])"
    by (rule linked_cong) (use only_hashesD(2) [OF oh] less in blast)
  have full: "is_full (?h ! b)" if "b \<in> set (as @ [a])" for b
    using that ok a only_hashesD(3) [OF oh] less by (auto simp: hashes_ok_def)
  have "bl_hash (?h ! b) = None \<or> bl_hash (?h ! b) = hash_chain H None (chain_tokens ?h (xs @ [b]))" if s: "as @ [a] = xs @ b # ys" for xs b ys
  proof (cases "ys = []")
    case True
    then have "xs = as" "b = a" using s by simp_all
    then show ?thesis using c a(2) only_hashes_chain [OF oh, of "as @ [a]"] less by simp
  next
    case False
    then obtain zs where "as = xs @ b # zs" using s by (cases ys rule: rev_cases) auto
    moreover have "b \<noteq> a" using a(1) calculation by auto
    moreover have "chain_tokens ?h (xs @ [b]) = chain_tokens h1 (xs @ [b])"
      by (rule only_hashes_chain [OF oh]) (use less calculation in auto)
    ultimately show ?thesis using ok by (simp add: hashes_ok_def nth_list_update)
  qed
  then show ?thesis using ok a l full less by (auto simp: hashes_ok_def)
qed

lemma content_hash_rec_ok:
  assumes "hashes_ok H h (as @ [a])" and "length as < n"
  shows "\<exists>h'. content_hash_rec H n a h = Inr (hash_chain H None (chain_tokens h (as @ [a])), h')
    \<and> only_hashes h h' \<and> hashes_ok H h' (as @ [a]) \<and> (\<forall>x. x \<notin> set (as @ [a]) \<longrightarrow> h' ! x = h ! x)"
  using assms
proof (induction as arbitrary: a n rule: rev_induct)
  case Nil
  then obtain m where n: "n = Suc m" by (cases n) auto
  have a: "a < length h" "is_full (h ! a)" "bl_prev (h ! a) = None" using Nil.prems by (auto simp: hashes_ok_def)
  show ?case
  proof (cases "bl_hash (h ! a)")
    case None
    have "hashes_ok H h []" by (simp add: hashes_ok_def)
    from hashes_ok_store [OF this, of a] a have
      "hashes_ok H (h[a := (h ! a)\<lparr>bl_hash := Some (H True None (bl_tokens (h ! a)))\<rparr>]) [a]" by (simp add: chain_tokens_def)
    then show ?thesis using None a by (simp add: n hash_block_tokens_def chain_tokens_def only_hashes_def nth_list_update)
  next
    case (Some c)
    then have "hash_chain H None (chain_tokens h [a]) = Some c" using hashes_ok_last [of H h "[]" a c] Nil.prems(1) by simp
    then show ?thesis using Some Nil.prems(1) only_hashes_refl by (simp add: n)
  qed
next
  case (snoc p as)
  obtain m where n: "n = Suc m" "length as < m" using snoc.prems(2) by (cases n) auto
  have ok: "hashes_ok H h (as @ [p])" using hashes_ok_butlast [of H h "as @ [p]" a] snoc.prems(1) by simp
  have a: "a < length h" "is_full (h ! a)" "bl_prev (h ! a) = Some p" "a \<notin> set (as @ [p])"
    using snoc.prems(1) by (auto simp: hashes_ok_def linked_append split: if_splits)
  show ?case
  proof (cases "bl_hash (h ! a)")
    case None
    from snoc.IH [OF ok n(2)] obtain h1 where h1: "content_hash_rec H m p h = Inr (hash_chain H None (chain_tokens h (as @ [p])), h1)"
      "only_hashes h h1" "hashes_ok H h1 (as @ [p])" "\<forall>x. x \<notin> set (as @ [p]) \<longrightarrow> h1 ! x = h ! x" by blast
    obtain c where c: "hash_chain H None (chain_tokens h (as @ [p])) = Some c"
      using hash_chain_Some [of "chain_tokens h (as @ [p])" H None] by (auto simp: chain_tokens_def)
    have ha: "h1 ! a = h ! a" using h1(4) a(4) by blast
    have len: "length h1 = length h" using h1(2) by (simp add: only_hashes_def)
    have less: "\<forall>b \<in> set (as @ [p, a]). b < length h" using snoc.prems(1) by (simp add: hashes_ok_def)
    have t: "chain_tokens h1 (as @ [p, a]) = chain_tokens h (as @ [p, a])" using only_hashes_chain [OF h1(2) less] .
    let ?d = "H False (Some c) (bl_tokens (h ! a))"
    have d: "hash_chain H None (chain_tokens h (as @ [p, a])) = Some ?d"
      using c hash_chain_append [of H None "chain_tokens h (as @ [p])"] by (simp add: chain_tokens_def)
    have lk: "linked h1 None ((as @ [p]) @ [a])"
      using h1(3) ha a(3) by (simp add: hashes_ok_def linked_append)
    have "hashes_ok H (h1[a := (h1 ! a)\<lparr>bl_hash := Some ?d\<rparr>]) ((as @ [p]) @ [a])"
      by (rule hashes_ok_store [OF h1(3) a(4) _ _ lk]) (use a len ha d t in auto)
    moreover have "only_hashes h (h1[a := (h1 ! a)\<lparr>bl_hash := Some ?d\<rparr>])"
      using h1(2) ha a(1) by (auto simp: only_hashes_def nth_list_update)
    ultimately show ?thesis using None a h1(1,4) c d ha
      by (simp add: n(1) hash_block_tokens_def)
  next
    case (Some c)
    then have "hash_chain H None (chain_tokens h (as @ [p, a])) = Some c"
      using hashes_ok_last [OF snoc.prems(1)] by simp
    then show ?thesis using Some snoc.prems(1) only_hashes_refl by (simp add: n)
  qed
qed

text \<open>
  C38. The content hash of a full block is that of the tokens of its whole prefix: the code's
  recursion through the previous blocks, with the hashes it stores on the way, computes the chain
  hash of the token lists from the first block on, changes nothing but stored hashes, and keeps
  the stored hashes right.
\<close>

theorem content_hash_chain:
  assumes "hashes_ok H h (as @ [a])"
  shows "\<exists>h'. content_hash H a h = Inr (hash_chain H None (chain_tokens h (as @ [a])), h')
    \<and> only_hashes h h' \<and> hashes_ok H h' (as @ [a])"
proof -
  have "length (as @ [a]) \<le> length h"
    using assms distinct_bounded [of "as @ [a]" "length h"] by (simp add: hashes_ok_def)
  then have "length as < length h" by simp
  from content_hash_rec_ok [OF assms this] show ?thesis unfolding content_hash_def by blast
qed

definition ex_block :: "int list \<Rightarrow> nat option \<Rightarrow> blk" where
  "ex_block toks prev = \<lparr>bl_class = Prefix_Block, bl_tokens = toks, bl_size = 2, bl_prev = prev, bl_id = Some 0,
     bl_pool_id = 0, bl_owner = GPU, bl_hash = None, bl_total = 0, bl_computed = False\<rparr>"

definition ex_hash :: hash_fn where
  "ex_hash first c toks = (case c of None \<Rightarrow> 7 | Some d \<Rightarrow> d) + sum_list toks"

theorem content_hash_chain_witness:
  "\<exists>h'. content_hash ex_hash 1 [ex_block [1, 2] None, ex_block [3, 4] (Some 0)] = Inr (Some 17, h')"
proof -
  let ?h = "[ex_block [1, 2] None, ex_block [3, 4] (Some 0)]"
  have "bl_hash (?h ! x) = None" if "x \<in> {0, 1}" for x using that by (auto simp: ex_block_def)
  then have "hashes_ok ex_hash ?h ([0] @ [1])"
    unfolding hashes_ok_def by (auto simp: ex_block_def is_full_def num_empty_slots_def Cons_eq_append_conv)
  from content_hash_chain [OF this] show ?thesis by (auto simp: chain_tokens_def ex_hash_def ex_block_def)
qed

subsection \<open>Gaps\<close>

definition ex_gap :: "cpu_gpu result" where
  "ex_gap = bind_r (create_cpu_gpu ex_hash ''prefix_caching'' 4 1 2 []) (\<lambda>(h, G). case cg_gpu G of
     PrefixCachingBlockAllocator A \<Rightarrow>
       bind_r (track_block_id (Some 0) True A) (\<lambda>A.
       bind_r (track_block_id (Some 1) False A) (\<lambda>A.
       bind_r (track_block_id (Some 2) True A) (\<lambda>A.
       bind_r (track_block_id (Some 3) False A) (\<lambda>A. Inr (G\<lparr>cg_gpu := PrefixCachingBlockAllocator A\<rparr>)))))
   | _ \<Rightarrow> Inl ValueError)"

text \<open>
  The documentation of \<open>ComputedBlocksTracker\<close> promises the computed prefix of a sequence; the
  code skips a block that is not computed and goes on: for four blocks of which the second is not
  computed it records the first and the third.
\<close>

theorem computed_with_gap:
  "(case ex_gap of Inl _ \<Rightarrow> False | Inr G \<Rightarrow>
     (case get_cached_computed_blocks_and_update G 9 [0, 1, 2, 3] [9 \<mapsto> ([], False)] of Inl _ \<Rightarrow> False
      | Inr (ids, ct) \<Rightarrow> ids = [0, 2] \<and> ct 9 = Some ([0, 2], True)))"
  by code_simp

text \<open>
  The ids that \<open>mark_blocks_as_computed\<close> marks are remembered when a block is promoted and not
  forgotten when it is freed: with one block, filled, freed and allocated again, the new, empty
  block counts as computed.
\<close>

definition ex_again :: "prefix_alloc result" where
  "ex_again = bind_r (init_prefix ex_hash GPU 1 2 [0] LRU []) (\<lambda>s.
     bind_r (prefix_allocate_immutable_block None [1, 2] s) (\<lambda>(a, s).
     bind_r (prefix_free a False s) (\<lambda>s.
     bind_r (prefix_allocate_mutable_block None s) (\<lambda>(b, h, A).
     bind_r (prefix_mark_blocks_as_computed [] A) (\<lambda>A1.
       if bl_tokens (h ! b) = [] \<and> bl_id (h ! b) = Some 0 then Inr A1 else Inl AssertionError)))))"

lemma empty_block_computed:
  "(case ex_again of Inl _ \<Rightarrow> False | Inr A \<Rightarrow> block_is_computed A 0 = Inr True)"
  by code_simp

end
