(* ===== verification/Ctl_State.thy ===== *)
theory Ctl_State
  imports Prewarm_Sched "HOL-Library.Product_Lexorder"
begin

text \<open>
  The state of \<open>PrewarmManager\<close> (\<open>entrypoints/controller/prewarm_manager.py\<close>), the
  controller of the cluster: which worker runs which model, which models are prewarmed where,
  the engines and the requests they serve.

  Calls to the workers (Ray actors) and to the engine processes are events of the list
  \<open>pm_calls\<close>; the answers that the controller reads are fields of \<open>env\<close>. A set that the
  code iterates over is a distinct list in iteration order, a \<open>dict\<close> that it iterates over an
  association list. Every function stands for code that runs under one lock, or for a whole
  method where the text says so; an exception ends the method, and the state of the aborted
  method is not observable (the lock that the code still holds is what makes the difference).
\<close>

type_synonym future = "nat \<times> nat"

text \<open>An entry of \<open>in_prewarming_models\<close>; the future \<open>(w, r)\<close> is the load of rank \<open>r\<close> in world \<open>w\<close>.\<close>

record prewarm_job =
  pj_info :: model_info
  pj_workers :: "nat list"
  pj_futures :: "future list"
  pj_unfin :: "nat list"

record engine_data =
  ed_total_blocks :: "int option"
  ed_block_size :: "int option"
  ed_target_free_blocks :: int
  ed_cur_reserved :: nat
  ed_ids :: "nat \<Rightarrow> nat"
  ed_last_reserved :: nat
  ed_alive :: bool

definition new_engine_data :: engine_data where
  "new_engine_data = \<lparr>ed_total_blocks = None, ed_block_size = None, ed_target_free_blocks = 1000000000,
     ed_cur_reserved = 0, ed_ids = (\<lambda>_. 0), ed_last_reserved = 0, ed_alive = True\<rparr>"

datatype remote_call =
    Update_Model_Info nat model_info "nat list" "nat option"
  | Load_Model nat model_info "nat list" nat bool
  | Reset_Worker nat bool
  | Release_Blocks nat "nat list" int int
  | Kill_Engine int
  | Start_Engine nat string "nat list" int

record manager_config =
  mc_use_unified_memory :: bool
  mc_disable_all_prewarm :: bool
  mc_enable_prewarm :: bool
  mc_enable_kv_prewarm :: bool
  mc_disable_placement :: bool
  mc_num_servers :: nat
  mc_num_gpu_per_server :: nat
  mc_node_workers :: "nat list list"
  mc_model_info :: model_config
  mc_max_concurrent_engines :: nat
  mc_engine_runout_threshold :: nat

record manager =
  pm_config :: manager_config
  pm_worker_stats :: "worker_status list"
  pm_gpu_mem :: "int list"
  pm_model_engines :: "string \<rightharpoonup> nat list"
  pm_model_stats :: "string \<rightharpoonup> model_status"
  pm_num_engines :: "string \<rightharpoonup> int"
  pm_num_in_creating :: "string \<rightharpoonup> int"
  pm_recorded_reqs :: "int set"
  pm_model_workers :: "string \<rightharpoonup> nat list list"
  pm_node_models :: "(string \<times> nat list) list list"
  pm_in_prewarming :: "(nat \<times> prewarm_job list) list"
  pm_world_counter :: nat
  pm_prewarm_engine_counter :: nat
  pm_prewarmed_engines :: "nat list"
  pm_extend_future :: "nat list option"
  pm_running_engines :: "nat list"
  pm_prewarm_engine_info :: "nat \<rightharpoonup> nat list \<times> nat"
  pm_engine_counter :: nat
  pm_engine_stats :: "(nat \<times> engine_status) list"
  pm_engine_data :: "engine_data list"
  pm_data_future :: "nat option"
  pm_calls :: "remote_call list"

text \<open>
  What the controller learns from outside: the clock, the load futures that \<open>ray.wait\<close> leaves,
  whether a worker has completed a load (\<open>None\<close>: the call raised), the memory that a reset
  reports, and whether the background jobs that extend the engine pools are done.
\<close>

record env =
  en_time :: real
  en_wait :: "future list \<Rightarrow> future list"
  en_compl :: "nat \<Rightarrow> model_info \<Rightarrow> nat list \<Rightarrow> bool option"
  en_reset :: "nat \<Rightarrow> int"
  en_engines_done :: bool
  en_data_done :: bool

definition call :: "remote_call list \<Rightarrow> manager \<Rightarrow> manager" where
  "call cs s = s\<lparr>pm_calls := pm_calls s @ cs\<rparr>"

text \<open>\<open>d[k]\<close> of a \<open>defaultdict\<close> of sets or lists.\<close>

definition default_get :: "('k \<rightharpoonup> 'a list) \<Rightarrow> 'k \<Rightarrow> 'a list" where
  "default_get d k = (case d k of None \<Rightarrow> [] | Some xs \<Rightarrow> xs)"

definition set_add :: "'a \<Rightarrow> 'a list \<Rightarrow> 'a list" where
  "set_add x xs = (if x \<in> set xs then xs else xs @ [x])"

definition set_remove :: "'a \<Rightarrow> 'a list \<Rightarrow> 'a list result" where
  "set_remove x xs = (if x \<in> set xs then Inr (removeAll x xs) else Inl KeyError)"

definition add_count :: "string \<Rightarrow> int \<Rightarrow> (string \<rightharpoonup> int) \<Rightarrow> (string \<rightharpoonup> int) result" where
  "add_count m k d = bind_r (get_key d m) (\<lambda>n. Inr (d(m \<mapsto> n + k)))"

definition upd_nth :: "nat \<Rightarrow> ('a \<Rightarrow> 'a) \<Rightarrow> 'a list \<Rightarrow> 'a list result" where
  "upd_nth i f xs = bind_r (nth_r xs i) (\<lambda>x. Inr (xs[i := f x]))"

subsection \<open>Initialization\<close>

definition start_manager :: "manager_config \<Rightarrow> (nat \<times> nat) list \<Rightarrow> int list \<Rightarrow> manager" where
  "start_manager c worker_node_gpu_ids mem =
     \<lparr>pm_config = c, pm_worker_stats = map (\<lambda>(n, g). WorkerStatus (int n) (int g)) worker_node_gpu_ids,
      pm_gpu_mem = mem, pm_model_engines = Map.empty,
      pm_model_stats = (\<lambda>m. if m \<in> fst ` set (mc_model_info c)
        then Some \<lparr>ms_num_reqs = 0, ms_sum_loads = 0, ms_max_loads = 0, ms_last_time = 0, ms_stopping_engines = [],
               ms_load_stamp = []\<rparr> else None),
      pm_num_engines = (\<lambda>m. if m \<in> fst ` set (mc_model_info c) then Some 0 else None),
      pm_num_in_creating = (\<lambda>m. if m \<in> fst ` set (mc_model_info c) then Some 0 else None),
      pm_recorded_reqs = {}, pm_model_workers = Map.empty,
      pm_node_models = replicate (mc_num_servers c) [], pm_in_prewarming = [], pm_world_counter = 0,
      pm_prewarm_engine_counter = (if mc_disable_all_prewarm c then 0 else mc_max_concurrent_engines c),
      pm_prewarmed_engines = (if mc_disable_all_prewarm c then [] else [0..<mc_max_concurrent_engines c]),
      pm_extend_future = None, pm_running_engines = [], pm_prewarm_engine_info = Map.empty, pm_engine_counter = 0,
      pm_engine_stats = [],
      pm_engine_data = (if mc_enable_kv_prewarm c then replicate (mc_max_concurrent_engines c) new_engine_data else []),
      pm_data_future = None, pm_calls = []\<rparr>"

text \<open>
  How \<open>PrewarmManager\<close> finds workers for an engine (\<open>_get_available_workers\<close>), claims
  them for it (the part of \<open>create_engine\<close> under \<open>model_lock\<close>), starts to prewarm a
  model on them and follows the loads that run (\<open>prewarm_model_async\<close>,
  \<open>_check_prewarming_models\<close>, \<open>prewarm_model_loop\<close>).
\<close>

text \<open>\<open>xs[:n]\<close> and \<open>a // b\<close>.\<close>

definition slice_to :: "'a list \<Rightarrow> int \<Rightarrow> 'a list" where
  "slice_to xs n = (if 0 \<le> n then take (nat n) xs else take (length xs - nat (- n)) xs)"

definition node_of :: "manager \<Rightarrow> nat list \<Rightarrow> nat result" where
  "node_of s ws = bind_r (nth_r ws 0) (\<lambda>w.
     if mc_num_gpu_per_server (pm_config s) = 0 then Inl ZeroDivisionError
     else Inr (w div mc_num_gpu_per_server (pm_config s)))"

subsection \<open>The search for workers\<close>

definition worker_free :: "manager \<Rightarrow> nat \<Rightarrow> bool result" where
  "worker_free s w = bind_r (nth_r (pm_worker_stats s) w) (\<lambda>st. Inr (ws_model st = None))"

fun all_free :: "manager \<Rightarrow> nat list \<Rightarrow> bool result" where
  "all_free s [] = Inr True"
| "all_free s (w # ws) = bind_r (worker_free s w) (\<lambda>b. if b then all_free s ws else Inr False)"

definition set_ws_model :: "model_info option \<Rightarrow> nat \<Rightarrow> manager \<Rightarrow> manager result" where
  "set_ws_model mi w s = bind_r (upd_nth w (ws_model_update (\<lambda>_. mi)) (pm_worker_stats s))
     (\<lambda>ws. Inr (s\<lparr>pm_worker_stats := ws\<rparr>))"

text \<open>The loop over \<open>enumerate(worker_list)\<close> that marks workers as taken.\<close>

fun mark_workers :: "model_info \<Rightarrow> nat \<Rightarrow> nat list \<Rightarrow> manager \<Rightarrow> manager result" where
  "mark_workers mi rank [] s = Inr s"
| "mark_workers mi rank (w # ws) s = bind_r (get_info mi (int rank)) (\<lambda>i.
     bind_r (set_ws_model (Some i) w s) (mark_workers mi (Suc rank) ws))"

text \<open>1. A prewarmed copy of the model, 2. a copy that is being loaded.\<close>

fun first_available :: "manager \<Rightarrow> nat list list \<Rightarrow> nat list option result" where
  "first_available s [] = Inr None"
| "first_available s (ws # wss) =
     bind_r (all_free s ws) (\<lambda>b. if b then Inr (Some ws) else first_available s wss)"

fun first_in_prewarming :: "manager \<Rightarrow> model_info \<Rightarrow> (nat \<times> prewarm_job) list \<Rightarrow> (nat \<times> nat list) option result"
  where
  "first_in_prewarming s mi [] = Inr None"
| "first_in_prewarming s mi ((n, j) # js) =
     (if pj_info j = mi
      then bind_r (all_free s (pj_workers j)) (\<lambda>b.
        if b then Inr (Some (n, pj_workers j)) else first_in_prewarming s mi js)
      else first_in_prewarming s mi js)"

definition all_jobs :: "manager \<Rightarrow> (nat \<times> prewarm_job) list" where
  "all_jobs s = concat (map (\<lambda>(n, js). map (Pair n) js) (pm_in_prewarming s))"

text \<open>3. Idle workers of one node. With placement disabled the loop stops at \<open>world_size\<close> workers.\<close>

fun collect_idle :: "manager \<Rightarrow> int \<Rightarrow> nat list \<Rightarrow> nat list \<Rightarrow> nat list option result" where
  "collect_idle s world_size ids [] = Inr None"
| "collect_idle s world_size ids (w # ws) = bind_r (worker_free s w) (\<lambda>b.
     if b
     then if int (length (ids @ [w])) = world_size then Inr (Some (ids @ [w]))
          else collect_idle s world_size (ids @ [w]) ws
     else collect_idle s world_size ids ws)"

fun first_fit :: "manager \<Rightarrow> int \<Rightarrow> nat list \<Rightarrow> (nat \<times> nat list) option result" where
  "first_fit s world_size [] = Inr None"
| "first_fit s world_size (n # ns) = bind_r (nth_r (mc_node_workers (pm_config s)) n) (\<lambda>ws.
     bind_r (collect_idle s world_size [] ws) (\<lambda>r.
       case r of Some ids \<Rightarrow> Inr (Some (n, ids)) | None \<Rightarrow> first_fit s world_size ns))"

fun idle_of :: "manager \<Rightarrow> nat list \<Rightarrow> nat list result" where
  "idle_of s [] = Inr []"
| "idle_of s (w # ws) = bind_r (worker_free s w) (\<lambda>b.
     bind_r (idle_of s ws) (\<lambda>ids. Inr (if b then w # ids else ids)))"

definition count_overlap :: "nat list \<Rightarrow> nat \<Rightarrow> nat list \<Rightarrow> nat list" where
  "count_overlap ids w cs =
     (if w \<in> set ids then cs[index_of ids w := cs ! index_of ids w + 1] else cs)"

definition num_overlapped :: "nat list \<Rightarrow> (string \<times> nat list) list \<Rightarrow> nat list" where
  "num_overlapped ids models =
     fold (\<lambda>(m, ws). fold (count_overlap ids) ws) models (replicate (length ids) 0)"

definition choose_workers :: "nat list \<Rightarrow> int \<Rightarrow> (string \<times> nat list) list \<Rightarrow> nat list" where
  "choose_workers ids world_size models =
     sort (map snd (slice_to (sort_key fst (zip (num_overlapped ids models) ids)) world_size))"

fun best_fit :: "manager \<Rightarrow> int \<Rightarrow> nat list \<Rightarrow> (nat \<times> nat list) option result" where
  "best_fit s world_size [] = Inr None"
| "best_fit s world_size (n # ns) = bind_r (nth_r (mc_node_workers (pm_config s)) n) (\<lambda>ws.
     bind_r (idle_of s ws) (\<lambda>ids.
       if world_size \<le> int (length ids)
       then if \<not> mc_use_unified_memory (pm_config s) \<or> int (length ids) = world_size
            then Inr (Some (n, slice_to ids world_size))
            else bind_r (nth_r (pm_node_models s) n) (\<lambda>models.
              Inr (Some (n, choose_workers ids world_size models)))
       else best_fit s world_size ns))"

definition find_prewarmed :: "model_info \<Rightarrow> manager \<Rightarrow> (nat \<times> nat list) option result" where
  "find_prewarmed mi s =
     bind_r (first_available s (default_get (pm_model_workers s) (model_name mi))) (\<lambda>r. case r of
         Some ws \<Rightarrow> bind_r (node_of s ws) (\<lambda>n. Inr (Some (n, ws)))
       | None \<Rightarrow> first_in_prewarming s mi (all_jobs s))"

definition find_idle :: "int \<Rightarrow> manager \<Rightarrow> (nat \<times> nat list) option result" where
  "find_idle world_size s =
     (if mc_disable_placement (pm_config s) then first_fit s world_size [0..<mc_num_servers (pm_config s)]
      else best_fit s world_size [0..<mc_num_servers (pm_config s)])"

text \<open>
  \<open>_get_available_workers\<close>: the node, the workers and whether they hold the model. With
  placement disabled, workers that are found by step 3 are returned without being marked.
\<close>

definition get_available_workers ::
    "model_info \<Rightarrow> int \<Rightarrow> manager \<Rightarrow> ((nat \<times> nat list \<times> bool) option \<times> manager) result" where
  "get_available_workers mi world_size s =
     bind_r (if mc_use_unified_memory (pm_config s) then find_prewarmed mi s else Inr None) (\<lambda>r. case r of
         Some (n, ws) \<Rightarrow> bind_r (mark_workers mi 0 ws s) (\<lambda>s. Inr (Some (n, ws, True), s))
       | None \<Rightarrow> bind_r (find_idle world_size s) (\<lambda>r. case r of
             None \<Rightarrow> Inr (None, s)
           | Some (n, ws) \<Rightarrow>
               if mc_disable_placement (pm_config s) then Inr (Some (n, ws, False), s)
               else bind_r (mark_workers mi 0 ws s) (\<lambda>s. Inr (Some (n, ws, False), s))))"

end
