(* ===== verification/Ctl_Create.thy ===== *)
theory Ctl_Create
  imports Ctl_State
begin

text \<open>
  \<open>create_engine\<close> section by section: \<open>claim_workers\<close> is the part under
  \<open>model_lock\<close>, \<open>start_prewarmed_engine\<close> and \<open>register_engine\<close> are the parts under
  \<open>engine_lock\<close>; \<open>create_engine\<close> runs them in a row. \<open>get_workers\<close> is what the
  process of the engine calls to learn its workers.
\<close>

subsection \<open>Starting to load a model\<close>

definition rank_info :: "string \<Rightarrow> int \<Rightarrow> int \<Rightarrow> nat \<Rightarrow> model_info" where
  "rank_info m tp pp rank =
     \<lparr>model_name = m, tensor_parallel_rank = int rank mod tp, tensor_parallel_size = tp,
      pipeline_parallel_rank = int rank div tp, pipeline_parallel_size = pp\<rparr>"

text \<open>The loop over \<open>enumerate(worker_ids)\<close>; a rank is looked up in \<open>background_workers\<close>.\<close>

fun load_models :: "string \<Rightarrow> int \<Rightarrow> int \<Rightarrow> nat list \<Rightarrow> nat \<Rightarrow> nat list \<Rightarrow> nat \<Rightarrow> nat list \<Rightarrow> manager \<Rightarrow> manager result"
  where
  "load_models m tp pp all world bg rank [] s = Inr s"
| "load_models m tp pp all world bg rank (w # ws) s =
     bind_r (nth_r (pm_worker_stats s) w) (\<lambda>_.
       load_models m tp pp all world bg (Suc rank) ws
         (call [Load_Model w (rank_info m tp pp rank) all world (rank \<in> set bg)] s))"

definition prewarm_model_async ::
    "string \<Rightarrow> int \<Rightarrow> int \<Rightarrow> nat list \<Rightarrow> nat list \<Rightarrow> manager \<Rightarrow> (prewarm_job \<times> manager) result" where
  "prewarm_model_async m tp pp ws bg s =
     bind_r (guard_r ValueError (mc_use_unified_memory (pm_config s))) (\<lambda>_.
     bind_r (guard_r AssertionError (tp * pp = int (length ws))) (\<lambda>_.
     let world = pm_world_counter s in
     bind_r (load_models m tp pp ws world bg 0 ws (s\<lparr>pm_world_counter := world + 1\<rparr>)) (\<lambda>s.
       Inr (\<lparr>pj_info = ModelInfo m tp pp, pj_workers = ws,
             pj_futures = map (Pair world) [0..<length ws], pj_unfin = [0..<length ws]\<rparr>, s))))"

text \<open>\<open>in_prewarming_models\<close> is a \<open>defaultdict\<close> of lists.\<close>

definition jobs_of :: "manager \<Rightarrow> nat \<Rightarrow> prewarm_job list" where
  "jobs_of s n = (case map_of (pm_in_prewarming s) n of None \<Rightarrow> [] | Some js \<Rightarrow> js)"

definition set_jobs :: "nat \<Rightarrow> prewarm_job list \<Rightarrow> manager \<Rightarrow> manager" where
  "set_jobs n js s = s\<lparr>pm_in_prewarming := AList.update n js (pm_in_prewarming s)\<rparr>"

definition add_job :: "nat \<Rightarrow> prewarm_job \<Rightarrow> manager \<Rightarrow> manager" where
  "add_job n j s = set_jobs n (jobs_of s n @ [j]) s"

subsection \<open>Claiming workers\<close>

definition claim_worker :: "nat list \<Rightarrow> nat option \<Rightarrow> model_info \<Rightarrow> nat \<Rightarrow> manager \<Rightarrow> manager result" where
  "claim_worker all world mi w s =
     bind_r (set_ws_model (Some mi) w s) (\<lambda>s.
     bind_r (upd_nth w (\<lambda>_. 0) (pm_gpu_mem s)) (\<lambda>mem.
     let s = s\<lparr>pm_gpu_mem := mem\<rparr> in
     Inr (if mc_disable_all_prewarm (pm_config s) then s else call [Update_Model_Info w mi all world] s)))"

fun claim_loop :: "nat list \<Rightarrow> nat option \<Rightarrow> model_info \<Rightarrow> int \<Rightarrow> int \<Rightarrow> nat list \<Rightarrow> manager \<Rightarrow> manager result"
  where
  "claim_loop all world mi pp_rank tp_rank [] s = Inr s"
| "claim_loop all world mi pp_rank tp_rank (w # ws) s =
     bind_r (claim_worker all world (mi\<lparr>tensor_parallel_rank := tp_rank, pipeline_parallel_rank := pp_rank\<rparr>) w s)
       (if tp_rank = tensor_parallel_size mi - 1 then claim_loop all world mi (pp_rank + 1) 0 ws
        else claim_loop all world mi pp_rank (tp_rank + 1) ws)"

text \<open>Loads and prewarmed copies that use one of the workers, other than the engine's own.\<close>

definition overlapping :: "nat list \<Rightarrow> nat list \<Rightarrow> bool" where
  "overlapping ws vs = (\<exists>w \<in> set ws. w \<in> set vs)"

definition stop_jobs :: "model_info \<Rightarrow> nat list \<Rightarrow> prewarm_job list \<Rightarrow> prewarm_job list" where
  "stop_jobs mi ws js = filter (\<lambda>j. \<not> (overlapping ws (pj_workers j) \<and> (pj_info j \<noteq> mi \<or> ws \<noteq> pj_workers j))) js"

definition conflicts :: "string \<Rightarrow> nat list \<Rightarrow> (string \<times> nat list) list \<Rightarrow> (string \<times> nat list) list" where
  "conflicts m ws models = filter (\<lambda>(m', ws'). overlapping ws ws' \<and> (m' \<noteq> m \<or> ws \<noteq> ws')) models"

definition remove_model_workers :: "string \<times> nat list \<Rightarrow> manager \<Rightarrow> manager result" where
  "remove_model_workers mw s = bind_r (set_remove (snd mw) (default_get (pm_model_workers s) (fst mw)))
     (\<lambda>wss. Inr (s\<lparr>pm_model_workers := (pm_model_workers s)(fst mw \<mapsto> wss)\<rparr>))"

definition evict_models :: "nat \<Rightarrow> string \<Rightarrow> nat list \<Rightarrow> manager \<Rightarrow> manager result" where
  "evict_models n m ws s =
     bind_r (nth_r (pm_node_models s) n) (\<lambda>models.
     let cs = conflicts m ws models in
     fold_r remove_model_workers cs
       (s\<lparr>pm_node_models := (pm_node_models s)[n := filter (\<lambda>x. x \<notin> set cs) models]\<rparr>))"

definition claim_workers :: "model_info \<Rightarrow> nat \<Rightarrow> nat list \<Rightarrow> bool \<Rightarrow> manager \<Rightarrow> manager result" where
  "claim_workers mi n ws hit s =
     (let own_world = \<not> mc_disable_all_prewarm (pm_config s) \<and> \<not> mc_use_unified_memory (pm_config s);
          world = (if own_world then Some (pm_world_counter s) else None);
          s = (if own_world then s\<lparr>pm_world_counter := pm_world_counter s + 1\<rparr> else s) in
     bind_r (claim_loop ws world mi 0 0 ws s) (\<lambda>s.
     if \<not> mc_use_unified_memory (pm_config s) then Inr s
     else bind_r (evict_models n (model_name mi) ws (set_jobs n (stop_jobs mi ws (jobs_of s n)) s)) (\<lambda>s.
       if hit then Inr s
       else bind_r (prewarm_model_async (model_name mi) (tensor_parallel_size mi) (pipeline_parallel_size mi) ws [] s)
         (\<lambda>(j, s). Inr (add_job n j s)))))"

subsection \<open>Starting and registering an engine\<close>

text \<open>\<open>_init_engines\<close>: the ids of the new processes.\<close>

definition init_engines :: "nat \<Rightarrow> manager \<Rightarrow> nat list \<times> manager" where
  "init_engines k s = ([pm_prewarm_engine_counter s..<pm_prewarm_engine_counter s + k],
     s\<lparr>pm_prewarm_engine_counter := pm_prewarm_engine_counter s + k\<rparr>)"

text \<open>
  A pool that runs low is extended by a background job; the result is taken when it is there, and
  is waited for when the pool is exhausted.
\<close>

definition extend_engines :: "env \<Rightarrow> manager \<Rightarrow> manager" where
  "extend_engines en s =
     (if length (pm_prewarmed_engines s) < mc_engine_runout_threshold (pm_config s)
      then
        let (fut, s) = (case pm_extend_future s of
               Some ids \<Rightarrow> (ids, s)
             | None \<Rightarrow> init_engines (mc_max_concurrent_engines (pm_config s)) s) in
        if (pm_prewarmed_engines s = [] \<or> en_engines_done en) \<and> fut \<noteq> []
        then s\<lparr>pm_prewarmed_engines := pm_prewarmed_engines s @ fut, pm_extend_future := None\<rparr>
        else s\<lparr>pm_extend_future := Some fut\<rparr>
      else s)"

definition run_engine :: "nat \<Rightarrow> string \<Rightarrow> nat list \<Rightarrow> int \<Rightarrow> manager \<Rightarrow> manager" where
  "run_engine pid m bundles port s =
     call [Start_Engine pid m bundles port] (s\<lparr>pm_running_engines := set_add pid (pm_running_engines s)\<rparr>)"

definition start_prewarmed_engine :: "env \<Rightarrow> string \<Rightarrow> nat list \<Rightarrow> int \<Rightarrow> manager \<Rightarrow> (nat \<times> manager) result"
  where
  "start_prewarmed_engine en m ws port s =
     (if mc_disable_all_prewarm (pm_config s)
      then let pid = pm_prewarm_engine_counter s in
        Inr (pid, run_engine pid m ws port (snd (init_engines 1 s)))
      else let s = extend_engines en s in
        if pm_prewarmed_engines s = [] then Inl IndexError
        else let pid = last (pm_prewarmed_engines s) in
          Inr (pid, run_engine pid m [] port (s\<lparr>pm_prewarmed_engines := butlast (pm_prewarmed_engines s)\<rparr>)))"

definition engine_port :: "manager \<Rightarrow> int" where
  "engine_port s = 5050 + int (pm_engine_counter s)"

definition extend_data :: "env \<Rightarrow> nat \<Rightarrow> manager \<Rightarrow> manager" where
  "extend_data en i s =
     (if mc_enable_kv_prewarm (pm_config s)
         \<and> int (length (pm_engine_data s)) - int i < int (mc_engine_runout_threshold (pm_config s))
      then
        let k = (case pm_data_future s of Some k \<Rightarrow> k | None \<Rightarrow> mc_max_concurrent_engines (pm_config s)) in
        if (length (pm_engine_data s) \<le> i \<or> en_data_done en) \<and> 0 < k
        then s\<lparr>pm_engine_data := pm_engine_data s @ replicate k new_engine_data, pm_data_future := None\<rparr>
        else s\<lparr>pm_data_future := Some k\<rparr>
      else s)"

definition add_engine :: "env \<Rightarrow> string \<Rightarrow> nat list \<Rightarrow> int \<Rightarrow> int \<Rightarrow> manager \<Rightarrow> manager" where
  "add_engine en m ws pid reqs s =
     (let i = pm_engine_counter s in
      s\<lparr>pm_engine_counter := i + 1,
        pm_engine_stats := AList.update i
          ((EngineStatus (int i) m ws pid (en_time en))\<lparr>es_num_reqs := reqs\<rparr>) (pm_engine_stats s),
        pm_model_engines := (pm_model_engines s)(m \<mapsto> set_add i (default_get (pm_model_engines s) m))\<rparr>)"

definition register_engine :: "env \<Rightarrow> string \<Rightarrow> nat list \<Rightarrow> nat \<Rightarrow> bool \<Rightarrow> manager \<Rightarrow> (nat \<times> manager) result" where
  "register_engine en m ws pid direct s =
     (let i = pm_engine_counter s; s = add_engine en m ws (int pid) (if direct then 1 else 0) s in
      bind_r (add_count m 1 (pm_num_engines s)) (\<lambda>ne.
      bind_r (add_count m (- 1) (pm_num_in_creating s)) (\<lambda>nc.
        Inr (i, extend_data en i (s\<lparr>pm_num_engines := ne, pm_num_in_creating := nc\<rparr>)))))"

definition inform_engine :: "nat \<Rightarrow> nat list \<Rightarrow> nat \<Rightarrow> manager \<Rightarrow> manager" where
  "inform_engine pid ws i s = s\<lparr>pm_prewarm_engine_info := (pm_prewarm_engine_info s)(pid \<mapsto> (ws, i))\<rparr>"

text \<open>The method as a whole, when no other thread runs in between.\<close>

definition create_engine :: "env \<Rightarrow> model_info \<Rightarrow> bool \<Rightarrow> manager \<Rightarrow> (nat option \<times> manager) result" where
  "create_engine en mi direct s =
     bind_r (get_available_workers mi (mi_world_size mi) s) (\<lambda>(r, s). case r of
         None \<Rightarrow> Inr (None, s)
       | Some (n, ws, hit) \<Rightarrow>
           if ws = [] then Inr (None, s)
           else bind_r (claim_workers mi n ws hit s) (\<lambda>s.
             bind_r (start_prewarmed_engine en (model_name mi) ws (engine_port s) s) (\<lambda>(pid, s).
             bind_r (register_engine en (model_name mi) ws pid direct s) (\<lambda>(i, s).
               Inr (Some i, inform_engine pid ws i s)))))"

subsection \<open>The workers of an engine process\<close>

text \<open>
  The sort key compares the index of a node with \<open>engine_node_id\<close>, a string, so that its first
  component is always \<open>True\<close>.
\<close>

definition worker_node :: "manager \<Rightarrow> nat \<Rightarrow> int" where
  "worker_node s w = ws_node (pm_worker_stats s ! w)"

definition sort_workers :: "manager \<Rightarrow> nat list \<Rightarrow> nat list" where
  "sort_workers s ws =
     sort_key (\<lambda>w. (True, length (filter (\<lambda>v. worker_node s v = worker_node s w) ws), worker_node s w)) ws"

fun user_claim_loop :: "nat list \<Rightarrow> model_info \<Rightarrow> int \<Rightarrow> int \<Rightarrow> nat list \<Rightarrow> manager \<Rightarrow> manager result" where
  "user_claim_loop all mi pp_rank tp_rank [] s = Inr s"
| "user_claim_loop all mi pp_rank tp_rank (w # ws) s =
     bind_r (set_ws_model (Some (mi\<lparr>tensor_parallel_rank := tp_rank, pipeline_parallel_rank := pp_rank\<rparr>)) w s) (\<lambda>s.
     bind_r (upd_nth w (\<lambda>_. 0) (pm_gpu_mem s)) (\<lambda>mem.
       (if tp_rank = tensor_parallel_size mi - 1 then user_claim_loop all mi (pp_rank + 1) 0 ws
        else user_claim_loop all mi pp_rank (tp_rank + 1) ws)
         (call [Update_Model_Info w (mi\<lparr>tensor_parallel_rank := tp_rank, pipeline_parallel_rank := pp_rank\<rparr>) all None]
           (s\<lparr>pm_gpu_mem := mem\<rparr>))))"

definition get_workers ::
    "env \<Rightarrow> string \<Rightarrow> int \<Rightarrow> int \<Rightarrow> int \<Rightarrow> manager \<Rightarrow> ((nat list \<times> nat) option \<times> manager) result" where
  "get_workers en m tp pp pid s =
     (case (if 0 \<le> pid then pm_prewarm_engine_info s (nat pid) else None) of
        Some (ws, i) \<Rightarrow> Inr (Some (ws, i), s)
      | None \<Rightarrow>
          let mi = ModelInfo m tp pp in
          bind_r (get_available_workers mi (tp * pp) s) (\<lambda>(r, s). case r of
              None \<Rightarrow> Inr (None, s)
            | Some (n, ws, hit) \<Rightarrow>
                if ws = [] then Inr (None, s)
                else let sorted_ws = (if hit then ws else sort_workers s ws) in
                bind_r (user_claim_loop ws mi 0 0 sorted_ws s) (\<lambda>s.
                let i = pm_engine_counter s; s = add_engine en m sorted_ws pid 0 s in
                bind_r (add_count m 1 (pm_num_engines s)) (\<lambda>ne.
                  Inr (Some (sorted_ws, i), extend_data en i (s\<lparr>pm_num_engines := ne\<rparr>))))))"

text \<open>\<open>model[:model.rfind('/')]\<close>; without a slash \<open>rfind\<close> is \<open>-1\<close> and the last character is cut.\<close>

definition strip_suffix :: "string \<Rightarrow> string" where
  "strip_suffix m =
     (if CHR ''/'' \<in> set m then rev (tl (dropWhile (\<lambda>c. c \<noteq> CHR ''/'') (rev m))) else butlast m)"

definition register_kv :: "(string \<rightharpoonup> int) \<Rightarrow> nat \<Rightarrow> int \<Rightarrow> manager \<Rightarrow> manager result" where
  "register_kv block_mb i total_blocks s =
     bind_r (upd_nth i (ed_total_blocks_update (\<lambda>_. Some total_blocks)) (pm_engine_data s)) (\<lambda>ds.
     bind_r (get_key (map_of (pm_engine_stats s)) i) (\<lambda>e.
     let m = (if block_mb (es_model e) = None then strip_suffix (es_model e) else es_model e) in
     bind_r (get_key block_mb m) (\<lambda>mb.
     bind_r (upd_nth i (ed_block_size_update (\<lambda>_. Some (mb * 2 ^ 20))) ds) (\<lambda>ds.
       Inr (s\<lparr>pm_engine_data := ds\<rparr>)))))"

end
