(* ===== verification/Ctl_Engines.thy ===== *)
theory Ctl_Engines
  imports Ctl_Create
begin

text \<open>
  The requests and the engines: \<open>schedule\<close> and \<open>compl_request\<close>, the autoscaler and the
  end of stopping engines in \<open>_check_engines\<close>, \<open>stop_engine\<close>, \<open>reset_workers\<close>, and the
  MuxServe variants of the request operations.
\<close>

definition engine_of :: "manager \<Rightarrow> nat \<Rightarrow> engine_status result" where
  "engine_of s i = get_key (map_of (pm_engine_stats s)) i"

definition set_engine :: "nat \<Rightarrow> engine_status \<Rightarrow> manager \<Rightarrow> manager" where
  "set_engine i e s = s\<lparr>pm_engine_stats := AList.update i e (pm_engine_stats s)\<rparr>"

definition add_reqs :: "nat \<Rightarrow> int \<Rightarrow> manager \<Rightarrow> manager result" where
  "add_reqs i k s = bind_r (engine_of s i) (\<lambda>e. Inr (set_engine i (e\<lparr>es_num_reqs := es_num_reqs e + k\<rparr>) s))"

subsection \<open>Requests\<close>

definition update_model_req :: "env \<Rightarrow> string \<Rightarrow> int \<Rightarrow> manager \<Rightarrow> manager result" where
  "update_model_req en m delta s =
     bind_r (get_key (pm_model_stats s) m) (\<lambda>st.
     let c = pm_config s; now = en_time en; n = ms_num_reqs st + delta;
         st = (if mc_use_unified_memory c \<and> mc_enable_prewarm c
               then st\<lparr>ms_sum_loads := ms_sum_loads st + (now - ms_last_time st) * of_int (ms_num_reqs st),
                       ms_num_reqs := n, ms_last_time := now,
                       ms_max_loads := (if 0 < delta then max (ms_max_loads st) n else ms_max_loads st)\<rparr>
               else st\<lparr>ms_num_reqs := n\<rparr>) in
     Inr (s\<lparr>pm_model_stats := (pm_model_stats s)(m \<mapsto> st\<lparr>ms_load_stamp := ms_load_stamp st @ [(now, n)]\<rparr>)\<rparr>))"

text \<open>The loop over the engines of the model, with \<open>mn_reqs\<close> and \<open>mn_reqs_engine_id\<close>.\<close>

fun least_loaded :: "manager \<Rightarrow> int \<Rightarrow> nat option \<Rightarrow> nat list \<Rightarrow> nat option result" where
  "least_loaded s mn_reqs best [] = Inr best"
| "least_loaded s mn_reqs best (i # is) = bind_r (engine_of s i) (\<lambda>e.
     if es_num_reqs e < mn_reqs then least_loaded s (es_num_reqs e) (Some i) is
     else least_loaded s mn_reqs best is)"

datatype schedule_answer = Not_Found | Served nat | Wait | Create

text \<open>The part of \<open>schedule\<close> under \<open>engine_lock\<close>; \<open>Create\<close> goes on to \<open>create_engine\<close>.\<close>

definition schedule_request :: "env \<Rightarrow> int \<Rightarrow> string \<Rightarrow> manager \<Rightarrow> (schedule_answer \<times> manager) result" where
  "schedule_request en request_id m s =
     (if m \<notin> fst ` set (mc_model_info (pm_config s)) then Inr (Not_Found, s)
      else
        bind_r (if request_id \<in> pm_recorded_reqs s then Inr s
                else bind_r (update_model_req en m 1 s) (\<lambda>s.
                  Inr (s\<lparr>pm_recorded_reqs := insert request_id (pm_recorded_reqs s)\<rparr>))) (\<lambda>s.
        bind_r (least_loaded s BATCH_SIZE None (default_get (pm_model_engines s) m)) (\<lambda>best. case best of
            Some i \<Rightarrow> bind_r (add_reqs i 1 s) (\<lambda>s. Inr (Served i, s))
          | None \<Rightarrow> bind_r (get_key (pm_num_in_creating s) m) (\<lambda>k.
              if 0 < k then Inr (Wait, s)
              else Inr (Create, s\<lparr>pm_num_in_creating := (pm_num_in_creating s)(m \<mapsto> k + 1)\<rparr>)))))"

definition model_of :: "manager \<Rightarrow> string \<Rightarrow> model_info result" where
  "model_of s m = bind_r (get_key (map_of (mc_model_info (pm_config s))) m) (\<lambda>(_, tp). Inr (ModelInfo m (int tp) 1))"

definition cancel_creation :: "string \<Rightarrow> nat \<Rightarrow> manager \<Rightarrow> manager result" where
  "cancel_creation m k s = bind_r (add_count m (- int k) (pm_num_in_creating s)) (\<lambda>nc.
     Inr (s\<lparr>pm_num_in_creating := nc\<rparr>))"

text \<open>\<open>schedule\<close> as a whole: \<open>Some (-1)\<close> for an unknown model, \<open>None\<close> for a request that has to wait.\<close>

definition schedule :: "env \<Rightarrow> int \<Rightarrow> string \<Rightarrow> manager \<Rightarrow> (int option \<times> manager) result" where
  "schedule en request_id m s =
     bind_r (schedule_request en request_id m s) (\<lambda>(a, s). case a of
         Not_Found \<Rightarrow> Inr (Some (- 1), s)
       | Served i \<Rightarrow> Inr (Some (int i), s)
       | Wait \<Rightarrow> Inr (None, s)
       | Create \<Rightarrow> bind_r (model_of s m) (\<lambda>mi.
           bind_r (create_engine en mi True s) (\<lambda>(r, s). case r of
               None \<Rightarrow> bind_r (cancel_creation m 1 s) (\<lambda>s. Inr (None, s))
             | Some i \<Rightarrow> Inr (Some (int i), s))))"

definition compl_request :: "env \<Rightarrow> nat \<Rightarrow> manager \<Rightarrow> manager result" where
  "compl_request en i s =
     bind_r (engine_of s i) (\<lambda>e.
     bind_r (update_model_req en (es_model e) (- 1) s) (\<lambda>s.
       add_reqs i (- 1) s))"

definition stop_engine :: "nat \<Rightarrow> manager \<Rightarrow> manager result" where
  "stop_engine i s = bind_r (engine_of s i) (\<lambda>e. Inr (set_engine i (e\<lparr>es_stopping := True\<rparr>) s))"

subsection \<open>The autoscaler\<close>

definition engines_needed :: "real \<Rightarrow> real \<Rightarrow> int" where
  "engines_needed load bound = \<lceil>load / bound / of_int BATCH_SIZE\<rceil>"

text \<open>The engines of the model that are old enough to be stopped.\<close>

fun stoppable :: "real \<Rightarrow> manager \<Rightarrow> nat list \<Rightarrow> (nat \<times> engine_status) list result" where
  "stoppable now s [] = Inr []"
| "stoppable now s (i # is) = bind_r (engine_of s i) (\<lambda>e. bind_r (stoppable now s is) (\<lambda>es.
     Inr (if now - es_time_created e > PROTECT_PERIOD then (i, e) # es else es)))"

definition begin_stop :: "string \<Rightarrow> nat \<times> engine_status \<Rightarrow> manager \<Rightarrow> manager result" where
  "begin_stop m ie s =
     (let (i, e) = ie; s = set_engine i (e\<lparr>es_stopping := True\<rparr>) s in
      bind_r (set_remove i (default_get (pm_model_engines s) m)) (\<lambda>is.
      bind_r (add_count m (- 1) (pm_num_engines s)) (\<lambda>ne.
      bind_r (get_key (pm_model_stats s) m) (\<lambda>st.
        Inr (s\<lparr>pm_model_engines := (pm_model_engines s)(m \<mapsto> is), pm_num_engines := ne,
               pm_model_stats := (pm_model_stats s)(m \<mapsto>
                 st\<lparr>ms_stopping_engines := set_add (int i) (ms_stopping_engines st)\<rparr>)\<rparr>)))))"

definition scale_down :: "env \<Rightarrow> string \<Rightarrow> int \<Rightarrow> manager \<Rightarrow> manager result" where
  "scale_down en m k s =
     bind_r (stoppable (en_time en) s (default_get (pm_model_engines s) m)) (\<lambda>es.
       fold_r (begin_stop m) (take (nat k) (sort_key (\<lambda>ie. es_num_reqs (snd ie)) es)) s)"

definition autoscale_model ::
    "env \<Rightarrow> string \<Rightarrow> (string \<times> nat) list \<times> manager \<Rightarrow> ((string \<times> nat) list \<times> manager) result" where
  "autoscale_model en m ts =
     (let (todo, s) = ts in
      bind_r (get_key (pm_model_stats s) m) (\<lambda>st.
      bind_r (get_key (pm_num_engines s) m) (\<lambda>ne.
      bind_r (get_key (pm_num_in_creating s) m) (\<lambda>nc.
      let n = ne + nc; mx_load = of_int (n * BATCH_SIZE);
          (load, stamps) = get_avg_load (ms_load_stamp st) (en_time en);
          s = s\<lparr>pm_model_stats := (pm_model_stats s)(m \<mapsto> st\<lparr>ms_load_stamp := stamps\<rparr>)\<rparr> in
      if load < mx_load * SCALE_LOWER_BOUND
      then let k = n - engines_needed load SCALE_LOWER_BOUND in
        if 0 < k then bind_r (scale_down en m k s) (\<lambda>s. Inr (todo, s)) else Inr (todo, s)
      else if mx_load * SCALE_UPPER_BOUND < load
      then let k = engines_needed load SCALE_UPPER_BOUND - n in
        if 0 < k
        then Inr (todo @ [(m, nat k)], s\<lparr>pm_num_in_creating := (pm_num_in_creating s)(m \<mapsto> nc + k)\<rparr>)
        else Inr (todo, s)
      else Inr (todo, s)))))"

definition autoscale :: "env \<Rightarrow> manager \<Rightarrow> ((string \<times> nat) list \<times> manager) result" where
  "autoscale en s = fold_r (autoscale_model en) (map fst (mc_model_info (pm_config s))) ([], s)"

text \<open>The engines are created one after the other; the first failure cancels the rest of the plan.\<close>

fun create_planned :: "env \<Rightarrow> string \<Rightarrow> nat \<Rightarrow> manager \<Rightarrow> (bool \<times> manager) result" where
  "create_planned en m 0 s = Inr (True, s)"
| "create_planned en m (Suc k) s = bind_r (model_of s m) (\<lambda>mi.
     bind_r (create_engine en mi False s) (\<lambda>(r, s). case r of
         None \<Rightarrow> bind_r (cancel_creation m (Suc k) s) (\<lambda>s. Inr (False, s))
       | Some _ \<Rightarrow> create_planned en m k s))"

definition create_step :: "env \<Rightarrow> string \<times> nat \<Rightarrow> bool \<times> manager \<Rightarrow> (bool \<times> manager) result" where
  "create_step en mk rs =
     (if fst rs then create_planned en (fst mk) (snd mk) (snd rs)
      else bind_r (cancel_creation (fst mk) (snd mk) (snd rs)) (\<lambda>s. Inr (False, s)))"

subsection \<open>Engines that stop\<close>

definition release_worker :: "env \<Rightarrow> nat \<Rightarrow> manager \<Rightarrow> manager result" where
  "release_worker en w s =
     bind_r (set_ws_model None w s) (\<lambda>s.
       if mc_disable_all_prewarm (pm_config s) then Inr s
       else bind_r (upd_nth w (\<lambda>_. en_reset en w) (pm_gpu_mem s)) (\<lambda>mem.
         Inr (call [Reset_Worker w (\<not> mc_use_unified_memory (pm_config s))] (s\<lparr>pm_gpu_mem := mem\<rparr>))))"

definition kill_engine :: "int \<Rightarrow> manager \<Rightarrow> manager result" where
  "kill_engine pid s =
     (if pid = - 1 then Inr s
      else if 0 \<le> pid \<and> nat pid \<in> set (pm_running_engines s)
      then Inr (call [Kill_Engine pid] (s\<lparr>pm_running_engines := removeAll (nat pid) (pm_running_engines s)\<rparr>))
      else Inl KeyError)"

definition remove_stopping :: "string \<Rightarrow> nat \<Rightarrow> manager \<Rightarrow> manager result" where
  "remove_stopping m i s = bind_r (get_key (pm_model_stats s) m) (\<lambda>st.
     bind_r (set_remove (int i) (ms_stopping_engines st)) (\<lambda>is.
       Inr (s\<lparr>pm_model_stats := (pm_model_stats s)(m \<mapsto> st\<lparr>ms_stopping_engines := is\<rparr>)\<rparr>)))"

definition end_engine :: "env \<Rightarrow> nat \<Rightarrow> engine_status \<Rightarrow> manager \<Rightarrow> manager result" where
  "end_engine en i e s =
     bind_r (kill_engine (es_prewarm_engine_id e) s) (\<lambda>s.
     bind_r (remove_stopping (es_model e) i s) (\<lambda>s.
     bind_r (fold_r (release_worker en) (es_workers e) s) (\<lambda>s.
     if mc_enable_kv_prewarm (pm_config s)
     then bind_r (upd_nth i (ed_alive_update (\<lambda>_. False)) (pm_engine_data s)) (\<lambda>ds.
       Inr (s\<lparr>pm_engine_data := ds\<rparr>))
     else Inr s)))"

text \<open>
  While an engine drains, its allocator is told how many blocks to keep free, and the blocks that it
  has reserved since the last round go to the prewarming pool. \<open>int(a / b)\<close> truncates.
\<close>

definition trunc_div :: "int \<Rightarrow> int \<Rightarrow> int" where
  "trunc_div a b = (if 0 \<le> a then a div b else - ((- a) div b))"

definition add_gpu_mem :: "int \<Rightarrow> nat \<Rightarrow> manager \<Rightarrow> manager result" where
  "add_gpu_mem k w s = bind_r (upd_nth w (\<lambda>m. m + k) (pm_gpu_mem s)) (\<lambda>mem. Inr (s\<lparr>pm_gpu_mem := mem\<rparr>))"

definition drain_engine :: "nat \<Rightarrow> engine_status \<Rightarrow> manager \<Rightarrow> manager result" where
  "drain_engine i e s =
     bind_r (nth_r (pm_engine_data s) i) (\<lambda>d. case ed_total_blocks d of
         None \<Rightarrow> Inr s
       | Some total_blocks \<Rightarrow>
           let d = d\<lparr>ed_target_free_blocks := trunc_div (total_blocks * es_num_reqs e) BATCH_SIZE\<rparr>;
               ids = map (ed_ids d) [ed_last_reserved d..<ed_cur_reserved d] in
           if ed_last_reserved d < ed_cur_reserved d
           then case ed_block_size d of
               None \<Rightarrow> Inl TypeError
             | Some block_size \<Rightarrow>
                 bind_r (fold_r (add_gpu_mem (int (length ids) * block_size)) (es_workers e)
                   (call (map (\<lambda>w. Release_Blocks w ids block_size total_blocks) (es_workers e)) s)) (\<lambda>s.
                 Inr (s\<lparr>pm_engine_data := (pm_engine_data s)[i := d\<lparr>ed_last_reserved := ed_cur_reserved d\<rparr>]\<rparr>))
           else Inr (s\<lparr>pm_engine_data := (pm_engine_data s)[i := d]\<rparr>))"

text \<open>
  The body of the loop over \<open>engine_stats\<close>. The code collects the engines that stay in a new
  dictionary and installs it after the loop; under \<open>engine_lock\<close> this is the same as dropping
  an engine at once.
\<close>

definition check_engine :: "env \<Rightarrow> nat \<Rightarrow> manager \<Rightarrow> manager result" where
  "check_engine en i s =
     bind_r (engine_of s i) (\<lambda>e.
       if es_stopping e
       then if es_num_reqs e = 0
            then bind_r (end_engine en i e s) (\<lambda>s.
              Inr (s\<lparr>pm_engine_stats := AList.delete i (pm_engine_stats s)\<rparr>))
            else if mc_enable_kv_prewarm (pm_config s) then drain_engine i e s else Inr s
       else Inr s)"

definition check_running :: "env \<Rightarrow> manager \<Rightarrow> manager result" where
  "check_running en s = fold_r (check_engine en) (map fst (pm_engine_stats s)) s"

text \<open>\<open>_check_engines\<close> as a whole, when no other thread runs in between.\<close>

definition check_engines :: "env \<Rightarrow> manager \<Rightarrow> manager result" where
  "check_engines en s =
     bind_r (autoscale en s) (\<lambda>(todo, s).
     bind_r (fold_r (create_step en) todo (True, s)) (\<lambda>(_, s).
       check_running en s))"

end
