(* ===== verification/Ctl_Prewarm.thy ===== *)
theory Ctl_Prewarm
  imports Ctl_Engines
begin

text \<open>
  The prewarming thread of \<open>PrewarmManager\<close>: \<open>_check_prewarming_models\<close> follows the loads
  that run, \<open>prewarm_model_loop\<close> asks the scheduler of \<open>Prewarm_Sched\<close> for new ones; then
  \<open>prewarm_model_sync\<close>, \<open>reset_workers\<close>, \<open>init_timer\<close> and the request operations with
  MuxServe.
\<close>

subsection \<open>Loads that run\<close>

definition record_prewarmed :: "nat \<Rightarrow> string \<Rightarrow> nat list \<Rightarrow> manager \<Rightarrow> manager result" where
  "record_prewarmed n m ws s =
     bind_r (upd_nth n (set_add (m, ws)) (pm_node_models s)) (\<lambda>nm.
       Inr (s\<lparr>pm_model_workers := (pm_model_workers s)(m \<mapsto> set_add ws (default_get (pm_model_workers s) m)),
              pm_node_models := nm\<rparr>))"

text \<open>The answers of the workers that have not completed; one that raises ends the query.\<close>

fun ask_completed :: "env \<Rightarrow> prewarm_job \<Rightarrow> nat list \<Rightarrow> bool list option result" where
  "ask_completed en j [] = Inr (Some [])"
| "ask_completed en j (r # rs) =
     bind_r (nth_r (pj_workers j) r) (\<lambda>w.
     bind_r (get_info (pj_info j) (int r)) (\<lambda>mi.
     bind_r (ask_completed en j rs) (\<lambda>bs.
       Inr (case (en_compl en w mi (pj_workers j), bs) of
           (Some b, Some bs) \<Rightarrow> Some (b # bs)
         | _ \<Rightarrow> None))))"

definition check_job :: "env \<Rightarrow> nat \<Rightarrow> prewarm_job \<Rightarrow> prewarm_job list \<times> manager \<Rightarrow> (prewarm_job list \<times> manager) result"
  where
  "check_job en n j ks =
     (let (kept, s) = ks;
          remaining = (if pj_futures j = [] then [] else en_wait en (pj_futures j));
          j = j\<lparr>pj_futures := remaining\<rparr> in
      if remaining \<noteq> [] then Inr (kept @ [j], s)
      else bind_r (ask_completed en j (pj_unfin j)) (\<lambda>r. case r of
          None \<Rightarrow> Inr (kept @ [j], s)
        | Some bs \<Rightarrow>
            if \<not> list_all id bs
            then Inr (kept @ [j\<lparr>pj_unfin := map fst (filter (\<lambda>x. \<not> snd x) (zip (pj_unfin j) bs))\<rparr>], s)
            else bind_r (record_prewarmed n (model_name (pj_info j)) (pj_workers j) s) (\<lambda>s. Inr (kept, s))))"

definition check_node_jobs :: "env \<Rightarrow> nat \<Rightarrow> manager \<Rightarrow> manager result" where
  "check_node_jobs en n s = bind_r (fold_r (check_job en n) (jobs_of s n) ([], s))
     (\<lambda>(kept, s). Inr (set_jobs n kept s))"

definition check_prewarming_models :: "env \<Rightarrow> manager \<Rightarrow> manager result" where
  "check_prewarming_models en s = fold_r (check_node_jobs en) (map fst (pm_in_prewarming s)) s"

subsection \<open>The prewarming loop\<close>

text \<open>A copy of \<open>node_models\<close> with the loads that run.\<close>

definition add_running :: "nat \<times> prewarm_job \<Rightarrow> (string \<times> nat list) list list \<Rightarrow> (string \<times> nat list) list list result"
  where
  "add_running nj = upd_nth (fst nj) (set_add (model_name (pj_info (snd nj)), pj_workers (snd nj)))"

definition background_workers :: "manager \<Rightarrow> nat list \<Rightarrow> nat list result" where
  "background_workers s ws = bind_r (idle_of s ws) (\<lambda>ids. Inr (filter (\<lambda>w. w \<notin> set ids) ws))"

text \<open>
  The loop over the plan. \<open>background_workers\<close> holds worker ids, and \<open>prewarm_model_async\<close>
  compares them with ranks.
\<close>

definition start_prewarm ::
    "string \<times> nat list \<Rightarrow> (nat \<times> prewarm_job) list \<times> manager \<Rightarrow> ((nat \<times> prewarm_job) list \<times> manager) result"
  where
  "start_prewarm a js =
     (let (m, ws) = a; (jobs, s) = js in
      bind_r (node_of s ws) (\<lambda>n.
      bind_r (background_workers s ws) (\<lambda>bg.
      bind_r (get_key (map_of (mc_model_info (pm_config s))) m) (\<lambda>(_, tp).
      bind_r (prewarm_model_async m (int tp) 1 ws bg s) (\<lambda>(j, s). Inr (jobs @ [(n, j)], s))))))"

definition plan_prewarm :: "sched \<Rightarrow> manager \<Rightarrow> manager result" where
  "plan_prewarm sc s =
     bind_r (fold_r add_running (all_jobs s) (pm_node_models s)) (\<lambda>nm.
     bind_r (prewarm sc (pm_gpu_mem s) nm (pm_num_engines s)) (\<lambda>(plan, mem).
     bind_r (fold_r start_prewarm plan ([], s\<lparr>pm_gpu_mem := mem\<rparr>)) (\<lambda>(jobs, s).
       Inr (fold (\<lambda>(n, j). add_job n j) jobs s))))"

text \<open>One round of \<open>prewarm_model_loop\<close>, when no other thread runs in between.\<close>

definition prewarm_round :: "env \<Rightarrow> sched \<times> manager \<Rightarrow> (sched \<times> manager) result" where
  "prewarm_round en st =
     (let (sc, s) = st in
      bind_r (check_prewarming_models en s) (\<lambda>s.
      if mc_enable_prewarm (pm_config s)
      then bind_r (update_loads (en_time en) sc (pm_model_stats s)) (\<lambda>(_, sc, stats).
        bind_r (plan_prewarm sc (s\<lparr>pm_model_stats := stats\<rparr>)) (\<lambda>s. Inr (sc, s)))
      else Inr (sc, s)))"

text \<open>
  \<open>prewarm_model_sync\<close> waits for the loads; it is the recording of the model that changes the
  state afterwards.
\<close>

definition prewarm_model_sync :: "string \<Rightarrow> int \<Rightarrow> int \<Rightarrow> nat list \<Rightarrow> nat list \<Rightarrow> manager \<Rightarrow> manager result" where
  "prewarm_model_sync m tp pp ws bg s =
     bind_r (prewarm_model_async m tp pp ws bg s) (\<lambda>(j, s).
     bind_r (node_of s ws) (\<lambda>n. record_prewarmed n m ws s))"

definition init_timer :: "env \<Rightarrow> sched \<times> manager \<Rightarrow> sched \<times> manager" where
  "init_timer en st =
     (let (sc, s) = st; c = pm_config s in
      if mc_use_unified_memory c \<and> mc_enable_prewarm c
      then (sc\<lparr>sc_start_time := en_time en\<rparr>,
            s\<lparr>pm_model_stats := (\<lambda>m. map_option (ms_last_time_update (\<lambda>_. en_time en)) (pm_model_stats s m))\<rparr>)
      else (sc, s))"

subsection \<open>Resetting the cluster\<close>

text \<open>
  \<open>mem_per_gpu\<close> is the memory of the first worker, an attribute that only exists with unified
  memory. The new \<open>gpu_mem\<close> has an entry for every
  server, not for every worker; the tables of prewarmed models and the engines of every model are
  left as they are.
\<close>

definition reset_one :: "env \<Rightarrow> nat \<Rightarrow> int \<times> manager \<Rightarrow> (int \<times> manager) result" where
  "reset_one en w ts = bind_r (worker_free (snd ts) w) (\<lambda>b.
     Inr (if b then ts else (fst ts + en_reset en w, call [Reset_Worker w True] (snd ts))))"

definition reset_workers :: "env \<Rightarrow> int \<Rightarrow> manager \<Rightarrow> (int \<times> manager) result" where
  "reset_workers en mem_per_gpu s =
     bind_r (fold_r (reset_one en) [0..<length (pm_worker_stats s)] (0, s)) (\<lambda>(total_mem, s).
     bind_r (guard_r AttributeError (mc_use_unified_memory (pm_config s))) (\<lambda>_.
     let c = pm_config s; k = mc_max_concurrent_engines c;
         s = s\<lparr>pm_worker_stats := map (\<lambda>st. WorkerStatus (ws_node st) (ws_gpu_id st)) (pm_worker_stats s),
               pm_gpu_mem := replicate (mc_num_servers c) mem_per_gpu\<rparr>;
         s = call (map (\<lambda>i. Kill_Engine (int i)) (pm_running_engines s @ pm_prewarmed_engines s)) s;
         s = s\<lparr>pm_prewarmed_engines := [], pm_running_engines := [], pm_engine_stats := [],
               pm_engine_data := (if mc_enable_kv_prewarm c then replicate k new_engine_data else pm_engine_data s)\<rparr> in
     Inr (total_mem,
       if mc_disable_all_prewarm c then s
       else let (ids, s) = init_engines k s in s\<lparr>pm_prewarmed_engines := ids\<rparr>)))"

subsection \<open>MuxServe\<close>

record mux =
  mx_model_info :: "string set"
  mx_model_engines :: "string \<rightharpoonup> nat list"
  mx_engine_reqs :: "nat \<rightharpoonup> int"
  mx_batch_size :: "nat \<rightharpoonup> int"

fun mux_pick :: "nat list \<Rightarrow> mux \<Rightarrow> (int option \<times> mux) result" where
  "mux_pick [] s = Inr (None, s)"
| "mux_pick (i # is) s =
     bind_r (get_key (mx_engine_reqs s) i) (\<lambda>n. bind_r (get_key (mx_batch_size s) i) (\<lambda>b.
       if n < b then Inr (Some (int i), s\<lparr>mx_engine_reqs := (mx_engine_reqs s)(i \<mapsto> n + 1)\<rparr>)
       else mux_pick is s))"

definition mux_schedule :: "string \<Rightarrow> mux \<Rightarrow> (int option \<times> mux) result" where
  "mux_schedule m s =
     (if m \<notin> mx_model_info s then Inr (Some (- 1), s)
      else case mx_model_engines s m of
          None \<Rightarrow> Inl ValueError
        | Some is \<Rightarrow> mux_pick is s)"

definition mux_compl_request :: "nat \<Rightarrow> mux \<Rightarrow> mux result" where
  "mux_compl_request i s = bind_r (get_key (mx_engine_reqs s) i) (\<lambda>n.
     Inr (s\<lparr>mx_engine_reqs := (mx_engine_reqs s)(i \<mapsto> n - 1)\<rparr>))"

end
