(* ===== verification/Ctl_Steps.thy ===== *)
theory Ctl_Steps
  imports Ctl_Prewarm
begin

text \<open>
  The controller as a concurrent system: the actor thread that runs \<open>schedule\<close> and the other
  methods one at a time, the thread of \<open>check_engine_loop\<close> and the thread of
  \<open>prewarm_model_loop\<close>. A step of \<open>ctl_step\<close> is a section that runs under one lock; the local
  variables of a method that waits between two sections are in the program counters
  \<open>creation\<close>, \<open>actor\<close> and \<open>scaler\<close>. \<open>engine_lock\<close> is held over several steps only while
  the second thread is \<open>Checking\<close>.
\<close>

datatype creation =
    Finding bool model_info
  | Claiming bool model_info nat "nat list" bool
  | Addressing bool model_info "nat list"
  | Starting bool model_info "nat list" int
  | Registering bool model_info "nat list" nat
  | Informing "nat list" nat nat

datatype progress = Running creation | Failed | Done nat

fun advance :: "env \<Rightarrow> creation \<Rightarrow> manager \<Rightarrow> (progress \<times> manager) result" where
  "advance en (Finding direct mi) s =
     bind_r (get_available_workers mi (mi_world_size mi) s) (\<lambda>(r, s). Inr (case r of
         None \<Rightarrow> (Failed, s)
       | Some (n, ws, hit) \<Rightarrow> if ws = [] then (Failed, s) else (Running (Claiming direct mi n ws hit), s)))"
| "advance en (Claiming direct mi n ws hit) s =
     bind_r (claim_workers mi n ws hit s) (\<lambda>s. Inr (Running (Addressing direct mi ws), s))"
| "advance en (Addressing direct mi ws) s = Inr (Running (Starting direct mi ws (engine_port s)), s)"
| "advance en (Starting direct mi ws port) s =
     bind_r (start_prewarmed_engine en (model_name mi) ws port s) (\<lambda>(pid, s).
       Inr (Running (Registering direct mi ws pid), s))"
| "advance en (Registering direct mi ws pid) s =
     bind_r (register_engine en (model_name mi) ws pid direct s) (\<lambda>(i, s). Inr (Running (Informing ws pid i), s))"
| "advance en (Informing ws pid i) s = Inr (Done i, inform_engine pid ws i s)"

text \<open>The sections that need \<open>engine_lock\<close>.\<close>

fun needs_engine_lock :: "creation \<Rightarrow> bool" where
  "needs_engine_lock (Starting direct mi ws port) = True"
| "needs_engine_lock (Registering direct mi ws pid) = True"
| "needs_engine_lock _ = False"

datatype actor = Serving | Creating creation string | Giving_Up string

datatype scaler =
    Sleeping
  | Planned "(string \<times> nat) list"
  | Building creation string nat "(string \<times> nat) list"
  | Cancelling "(string \<times> nat) list"
  | Checking "nat list"

record system =
  sy_mgr :: manager
  sy_sched :: sched
  sy_actor :: actor
  sy_scaler :: scaler

definition lock_free :: "system \<Rightarrow> bool" where
  "lock_free S = (case sy_scaler S of Checking is \<Rightarrow> False | _ \<Rightarrow> True)"

definition can_advance :: "creation \<Rightarrow> system \<Rightarrow> bool" where
  "can_advance c S = (needs_engine_lock c \<longrightarrow> lock_free S)"

definition actor_after :: "string \<Rightarrow> progress \<Rightarrow> actor" where
  "actor_after m p = (case p of Running c \<Rightarrow> Creating c m | Failed \<Rightarrow> Giving_Up m | Done i \<Rightarrow> Serving)"

definition scaler_after :: "string \<Rightarrow> nat \<Rightarrow> (string \<times> nat) list \<Rightarrow> progress \<Rightarrow> scaler" where
  "scaler_after m k todo p = (case p of
     Running c \<Rightarrow> Building c m k todo | Failed \<Rightarrow> Cancelling ((m, Suc k) # todo) | Done i \<Rightarrow> Planned ((m, k) # todo))"

definition on_mgr :: "(manager \<Rightarrow> manager result) \<Rightarrow> system \<Rightarrow> system result" where
  "on_mgr f S = bind_r (f (sy_mgr S)) (\<lambda>s. Inr (S\<lparr>sy_mgr := s\<rparr>))"

text \<open>The allocator of an engine process reserves freed blocks in the shared memory of the engine.\<close>

definition kv_reserve :: "nat \<Rightarrow> nat list \<Rightarrow> manager \<Rightarrow> manager result" where
  "kv_reserve i ids s = bind_r (upd_nth i (\<lambda>d. d\<lparr>ed_cur_reserved := ed_cur_reserved d + length ids,
       ed_ids := (\<lambda>k. if ed_cur_reserved d \<le> k \<and> k < ed_cur_reserved d + length ids
         then ids ! (k - ed_cur_reserved d) else ed_ids d k)\<rparr>) (pm_engine_data s))
     (\<lambda>ds. Inr (s\<lparr>pm_engine_data := ds\<rparr>))"

text \<open>
  The sections, and what each does when it may run: \<open>None\<close> when it may not. A request completes
  only on an engine that serves one, and an engine registers its blocks while it is alive.
\<close>

datatype ctl_section =
    Schedule int string
  | Complete nat
  | Register_Kv nat int int
  | Kv_Reserve nat "nat list"
  | Actor_Advance
  | Actor_Cancel
  | Autoscale
  | Next_Creation
  | Scaler_Advance
  | Scaler_Cancel
  | Check_Next
  | Check_Loads
  | Update_Loads
  | Plan_Prewarm

definition sched_section :: "env \<Rightarrow> int \<Rightarrow> string \<Rightarrow> system \<Rightarrow> system result" where
  "sched_section en rid m S = bind_r (schedule_request en rid m (sy_mgr S)) (\<lambda>(a, s).
     if a = Create
     then bind_r (model_of s m) (\<lambda>mi. Inr (S\<lparr>sy_mgr := s, sy_actor := Creating (Finding True mi) m\<rparr>))
     else Inr (S\<lparr>sy_mgr := s\<rparr>))"

definition next_section :: "string \<Rightarrow> nat \<Rightarrow> (string \<times> nat) list \<Rightarrow> system \<Rightarrow> system result" where
  "next_section m k todo S = (case k of
       0 \<Rightarrow> Inr (S\<lparr>sy_scaler := Planned todo\<rparr>)
     | Suc k \<Rightarrow> bind_r (model_of (sy_mgr S) m) (\<lambda>mi.
         Inr (S\<lparr>sy_scaler := Building (Finding False mi) m k todo\<rparr>)))"

definition serves :: "nat \<Rightarrow> manager \<Rightarrow> bool" where
  "serves i s = (case map_of (pm_engine_stats s) i of None \<Rightarrow> False | Some e \<Rightarrow> 0 < es_num_reqs e)"

definition register_blocks :: "nat \<Rightarrow> int \<Rightarrow> int \<Rightarrow> manager \<Rightarrow> manager result" where
  "register_blocks i total_blocks mb s = bind_r (engine_of s i) (\<lambda>e.
     register_kv [es_model e \<mapsto> mb] i total_blocks s)"

fun run_section :: "env \<Rightarrow> ctl_section \<Rightarrow> system \<Rightarrow> system result option" where
  "run_section en (Schedule rid m) S =
     (if sy_actor S = Serving \<and> lock_free S then Some (sched_section en rid m S) else None)"
| "run_section en (Complete i) S =
     (if sy_actor S = Serving \<and> lock_free S \<and> serves i (sy_mgr S)
      then Some (on_mgr (compl_request en i) S) else None)"
| "run_section en (Register_Kv i total_blocks mb) S =
     (if sy_actor S = Serving \<and> mc_enable_kv_prewarm (pm_config (sy_mgr S))
          \<and> i \<in> fst ` set (pm_engine_stats (sy_mgr S))
      then Some (on_mgr (register_blocks i total_blocks mb) S) else None)"
| "run_section en (Kv_Reserve i ids) S =
     (if i < length (pm_engine_data (sy_mgr S)) then Some (on_mgr (kv_reserve i ids) S) else None)"
| "run_section en Actor_Advance S =
     (case sy_actor S of
        Creating c m \<Rightarrow> if can_advance c S
          then Some (bind_r (advance en c (sy_mgr S)) (\<lambda>(p, s). Inr (S\<lparr>sy_mgr := s, sy_actor := actor_after m p\<rparr>)))
          else None
      | _ \<Rightarrow> None)"
| "run_section en Actor_Cancel S =
     (case sy_actor S of
        Giving_Up m \<Rightarrow> if lock_free S
          then Some (bind_r (cancel_creation m 1 (sy_mgr S)) (\<lambda>s. Inr (S\<lparr>sy_mgr := s, sy_actor := Serving\<rparr>)))
          else None
      | _ \<Rightarrow> None)"
| "run_section en Autoscale S =
     (if sy_scaler S = Sleeping
      then Some (bind_r (autoscale en (sy_mgr S)) (\<lambda>(todo, s). Inr (S\<lparr>sy_mgr := s, sy_scaler := Planned todo\<rparr>)))
      else None)"
| "run_section en Next_Creation S =
     (case sy_scaler S of
        Planned [] \<Rightarrow> Some (Inr (S\<lparr>sy_scaler := Checking (map fst (pm_engine_stats (sy_mgr S)))\<rparr>))
      | Planned ((m, k) # todo) \<Rightarrow> Some (next_section m k todo S)
      | _ \<Rightarrow> None)"
| "run_section en Scaler_Advance S =
     (case sy_scaler S of
        Building c m k todo \<Rightarrow>
          Some (bind_r (advance en c (sy_mgr S)) (\<lambda>(p, s). Inr (S\<lparr>sy_mgr := s, sy_scaler := scaler_after m k todo p\<rparr>)))
      | _ \<Rightarrow> None)"
| "run_section en Scaler_Cancel S =
     (case sy_scaler S of
        Cancelling todo \<Rightarrow>
          Some (bind_r (fold_r (\<lambda>(m, k). cancel_creation m k) todo (sy_mgr S)) (\<lambda>s. Inr (S\<lparr>sy_mgr := s, sy_scaler := Planned []\<rparr>)))
      | _ \<Rightarrow> None)"
| "run_section en Check_Next S =
     (case sy_scaler S of
        Checking [] \<Rightarrow> Some (Inr (S\<lparr>sy_scaler := Sleeping\<rparr>))
      | Checking (i # is) \<Rightarrow>
          Some (bind_r (check_engine en i (sy_mgr S)) (\<lambda>s. Inr (S\<lparr>sy_mgr := s, sy_scaler := Checking is\<rparr>)))
      | _ \<Rightarrow> None)"
| "run_section en Check_Loads S =
     (if mc_use_unified_memory (pm_config (sy_mgr S)) then Some (on_mgr (check_prewarming_models en) S) else None)"
| "run_section en Update_Loads S =
     (if mc_enable_prewarm (pm_config (sy_mgr S)) \<and> mc_use_unified_memory (pm_config (sy_mgr S)) \<and> lock_free S
      then Some (bind_r (update_loads (en_time en) (sy_sched S) (pm_model_stats (sy_mgr S))) (\<lambda>(_, sc, stats).
        Inr (S\<lparr>sy_sched := sc, sy_mgr := (sy_mgr S)\<lparr>pm_model_stats := stats\<rparr>\<rparr>)))
      else None)"
| "run_section en Plan_Prewarm S =
     (if mc_enable_prewarm (pm_config (sy_mgr S)) \<and> mc_use_unified_memory (pm_config (sy_mgr S))
      then Some (on_mgr (plan_prewarm (sy_sched S)) S) else None)"

definition start_system :: "manager_config \<Rightarrow> (nat \<times> nat) list \<Rightarrow> int list \<Rightarrow> sched \<Rightarrow> system" where
  "start_system c worker_node_gpu_ids mem sc =
     \<lparr>sy_mgr = start_manager c worker_node_gpu_ids mem, sy_sched = sc, sy_actor = Serving, sy_scaler = Sleeping\<rparr>"

text \<open>The reachable states; an exception ends the thread, so only sections without one are steps.\<close>

inductive ctl_step :: "system \<Rightarrow> ctl_section \<Rightarrow> system \<Rightarrow> bool" where
  "run_section en x S = Some (Inr S') \<Longrightarrow> ctl_step S x S'"

inductive_cases ctl_stepE: "ctl_step S x S'"

inductive ctl_reach :: "system \<Rightarrow> system \<Rightarrow> bool" for S0 where
  start: "ctl_reach S0 S0"
| step: "ctl_reach S0 S \<Longrightarrow> ctl_step S x S' \<Longrightarrow> ctl_reach S0 S'"

text \<open>A run of given sections, to evaluate concrete histories.\<close>

fun run_sections :: "(env \<times> ctl_section) list \<Rightarrow> system \<Rightarrow> system result option" where
  "run_sections [] S = Some (Inr S)"
| "run_sections ((en, x) # xs) S = (case run_section en x S of
     Some (Inr S') \<Rightarrow> run_sections xs S' | r \<Rightarrow> r)"

lemma run_sections_reach_from:
  "run_sections xs S = Some (Inr S') \<Longrightarrow> ctl_reach S0 S \<Longrightarrow> ctl_reach S0 S'"
proof (induction xs arbitrary: S)
  case (Cons x xs)
  then obtain S1 where "run_section (fst x) (snd x) S = Some (Inr S1)" "run_sections xs S1 = Some (Inr S')"
    by (cases x) (auto split: option.splits sum.splits)
  then show ?case using Cons.IH Cons.prems(2) ctl_reach.step ctl_step.intros by blast
qed auto

lemmas run_sections_reach = run_sections_reach_from [OF _ ctl_reach.start]

end
