(* ===== verification/Ctl_Tables.thy ===== *)
theory Ctl_Tables
  imports Ctl_Steps Prewarm_Total
begin

text \<open>
  The tables of the controller: what it knows of the cluster (\<open>wf_conf\<close>), groups of workers on
  one node (\<open>wf_group\<close>), the consistency of \<open>node_models\<close>, \<open>model_workers\<close> and
  \<open>in_prewarming_models\<close> (\<open>ctl_tables_ok\<close>), and what the search for workers returns.
\<close>

definition num_workers :: "manager_config \<Rightarrow> nat" where
  "num_workers c = mc_num_servers c * mc_num_gpu_per_server c"

definition wf_conf :: "manager_config \<Rightarrow> bool" where
  "wf_conf c \<longleftrightarrow> 0 < mc_num_gpu_per_server c
     \<and> mc_node_workers c = map (\<lambda>n. [n * mc_num_gpu_per_server c..<n * mc_num_gpu_per_server c + mc_num_gpu_per_server c])
         [0..<mc_num_servers c]
     \<and> distinct (map fst (mc_model_info c)) \<and> (\<forall>(m, sz, tp) \<in> set (mc_model_info c). 0 < tp)
     \<and> 0 < mc_max_concurrent_engines c \<and> 0 < mc_engine_runout_threshold c \<and> \<not> mc_disable_placement c
     \<and> (mc_use_unified_memory c \<longrightarrow> \<not> mc_disable_all_prewarm c)"

definition wf_group :: "manager_config \<Rightarrow> nat \<Rightarrow> nat list \<Rightarrow> bool" where
  "wf_group c n ws \<longleftrightarrow> ws \<noteq> [] \<and> distinct ws \<and> n < mc_num_servers c
     \<and> (\<forall>w \<in> set ws. w div mc_num_gpu_per_server c = n)"

definition sized :: "manager \<Rightarrow> bool" where
  "sized s \<longleftrightarrow> length (pm_worker_stats s) = num_workers (pm_config s)
     \<and> length (pm_gpu_mem s) = num_workers (pm_config s)"

definition busy :: "manager \<Rightarrow> nat \<Rightarrow> bool" where
  "busy s w \<longleftrightarrow> ws_model (pm_worker_stats s ! w) \<noteq> None"

definition job_ok :: "manager_config \<Rightarrow> nat \<Rightarrow> prewarm_job \<Rightarrow> bool" where
  "job_ok c n j \<longleftrightarrow> wf_group c n (pj_workers j) \<and> 0 < tensor_parallel_size (pj_info j)
     \<and> (\<forall>r \<in> set (pj_unfin j). r < length (pj_workers j))"

definition nodes_ok :: "manager_config \<Rightarrow> (string \<times> nat list) list list \<Rightarrow> (string \<rightharpoonup> nat list list) \<Rightarrow> bool" where
  "nodes_ok c nm mw \<longleftrightarrow> length nm = mc_num_servers c
     \<and> (\<forall>n < length nm. distinct (nm ! n))
     \<and> (\<forall>n < length nm. \<forall>(m, ws) \<in> set (nm ! n). wf_group c n ws)
     \<and> (\<forall>m. distinct (default_get mw m))
     \<and> (\<forall>m ws. ws \<in> set (default_get mw m) \<longleftrightarrow> (\<exists>n < length nm. (m, ws) \<in> set (nm ! n)))"

definition jobs_ok :: "manager_config \<Rightarrow> (nat \<times> prewarm_job list) list \<Rightarrow> bool" where
  "jobs_ok c ip \<longleftrightarrow> distinct (map fst ip) \<and> (\<forall>(n, js) \<in> set ip. \<forall>j \<in> set js. job_ok c n j)"

definition ctl_tables_ok :: "manager \<Rightarrow> bool" where
  "ctl_tables_ok s \<longleftrightarrow> nodes_ok (pm_config s) (pm_node_models s) (pm_model_workers s)
     \<and> jobs_ok (pm_config s) (pm_in_prewarming s)"

lemma wf_group_lt: "wf_conf c \<Longrightarrow> wf_group c n ws \<Longrightarrow> w \<in> set ws \<Longrightarrow> w < num_workers c"
  by (auto simp: wf_conf_def wf_group_def num_workers_def simp flip: div_less_iff_less_mult)

lemma in_jobs_of: "jobs_ok c (pm_in_prewarming s) \<Longrightarrow> j \<in> set (jobs_of s n) \<Longrightarrow> job_ok c n j"
  by (auto simp: jobs_ok_def jobs_of_def split: option.splits dest!: map_of_SomeD)

lemma jobs_of_set_jobs [simp]: "jobs_of (set_jobs n js s) n' = (if n' = n then js else jobs_of s n')"
  by (simp add: jobs_of_def set_jobs_def update_conv')

lemma in_jobs_iff:
  "distinct (map fst (pm_in_prewarming s)) \<Longrightarrow> (\<exists>js. (n, js) \<in> set (pm_in_prewarming s) \<and> j \<in> set js) \<longleftrightarrow> j \<in> set (jobs_of s n)"
  by (auto simp: jobs_of_def split: option.splits dest: map_of_SomeD)

lemma jobs_ok_iff:
  "jobs_ok c (pm_in_prewarming s) \<longleftrightarrow> distinct (map fst (pm_in_prewarming s)) \<and> (\<forall>n. \<forall>j \<in> set (jobs_of s n). job_ok c n j)"
proof (cases "distinct (map fst (pm_in_prewarming s))")
  case True
  show ?thesis using in_jobs_iff [OF True] True unfolding jobs_ok_def by blast
qed (simp add: jobs_ok_def)

lemma jobs_ok_set_jobs:
  assumes "jobs_ok c (pm_in_prewarming s)" and "\<forall>j \<in> set js. job_ok c n j"
  shows "jobs_ok c (pm_in_prewarming (set_jobs n js s))"
proof -
  have "distinct (map fst (pm_in_prewarming (set_jobs n js s)))"
    using assms(1) by (simp add: jobs_ok_def set_jobs_def distinct_update)
  then show ?thesis using assms unfolding jobs_ok_iff by simp
qed

lemma in_all_jobs: "(n, j) \<in> set (all_jobs s) \<longleftrightarrow> (\<exists>js. (n, js) \<in> set (pm_in_prewarming s) \<and> j \<in> set js)"
  by (force simp: all_jobs_def)

subsection \<open>Looking at workers and marking them\<close>

lemma worker_free_ok: "sized s \<Longrightarrow> w < num_workers (pm_config s) \<Longrightarrow> worker_free s w = Inr (\<not> busy s w)"
  by (simp add: worker_free_def sized_def busy_def)

lemma all_free_ok:
  "sized s \<Longrightarrow> \<forall>w \<in> set ws. w < num_workers (pm_config s) \<Longrightarrow> all_free s ws = Inr (\<forall>w \<in> set ws. \<not> busy s w)"
  by (induction ws) (auto simp: worker_free_ok)

lemma idle_of_ok:
  "sized s \<Longrightarrow> \<forall>w \<in> set ws. w < num_workers (pm_config s) \<Longrightarrow> idle_of s ws = Inr (filter (\<lambda>w. \<not> busy s w) ws)"
  by (induction ws) (auto simp: worker_free_ok)

definition remark :: "(nat \<Rightarrow> bool) \<Rightarrow> worker_status list \<Rightarrow> manager \<Rightarrow> bool" where
  "remark B st s \<longleftrightarrow> length st = length (pm_worker_stats s) \<and> (\<forall>w < length st. (ws_model (st ! w) \<noteq> None) = B w)"

lemma set_ws_model_ok:
  "w < length (pm_worker_stats s) \<Longrightarrow> set_ws_model mi w s
     = Inr (s\<lparr>pm_worker_stats := (pm_worker_stats s)[w := (pm_worker_stats s ! w)\<lparr>ws_model := mi\<rparr>]\<rparr>)"
  by (simp add: set_ws_model_def upd_nth_def)

lemma mark_workers_ok:
  "tensor_parallel_size mi \<noteq> 0 \<Longrightarrow> \<forall>w \<in> set ws. w < length (pm_worker_stats s) \<Longrightarrow>
   \<exists>st. mark_workers mi r ws s = Inr (s\<lparr>pm_worker_stats := st\<rparr>) \<and> remark (\<lambda>w. busy s w \<or> w \<in> set ws) st s"
proof (induction ws arbitrary: r s)
  case Nil
  then show ?case by (intro exI [of _ "pm_worker_stats s"]) (simp add: remark_def busy_def)
next
  case (Cons v ws)
  obtain i where i: "get_info mi (int r) = Inr i" using Cons.prems(1) by (simp add: get_info_def)
  let ?s = "s\<lparr>pm_worker_stats := (pm_worker_stats s)[v := (pm_worker_stats s ! v)\<lparr>ws_model := Some i\<rparr>]\<rparr>"
  obtain st where st: "mark_workers mi (Suc r) ws ?s = Inr (?s\<lparr>pm_worker_stats := st\<rparr>)"
    "remark (\<lambda>w. busy ?s w \<or> w \<in> set ws) st ?s"
    using Cons.IH [of ?s "Suc r"] Cons.prems by auto
  have "remark (\<lambda>w. busy s w \<or> w \<in> set (v # ws)) st s"
    using st(2) Cons.prems(2) by (auto simp: remark_def busy_def nth_list_update)
  then show ?case using st(1) i Cons.prems(2) by (intro exI [of _ st]) (simp add: set_ws_model_ok)
qed

subsection \<open>Choosing idle workers\<close>

lemma length_count_overlap [simp]: "length (count_overlap ids w cs) = length cs"
  by (simp add: count_overlap_def)

lemma length_num_overlapped [simp]: "length (num_overlapped ids models) = length ids"
proof -
  have a: "length (fold (count_overlap ids) ws cs) = length cs" for ws cs
    by (induction ws arbitrary: cs) simp_all
  have "length (fold (\<lambda>(m, ws). fold (count_overlap ids) ws) models cs) = length cs" for cs
    by (induction models arbitrary: cs) (auto simp: a)
  then show ?thesis by (simp add: num_overlapped_def)
qed

lemma choose_workers_props:
  assumes "distinct ids" and "0 \<le> k" and "k \<le> int (length ids)"
  shows "set (choose_workers ids k models) \<subseteq> set ids" "distinct (choose_workers ids k models)"
    "length (choose_workers ids k models) = nat k"
proof -
  let ?xs = "map snd (sort_key fst (zip (num_overlapped ids models) ids))"
  have "mset ?xs = mset (map snd (zip (num_overlapped ids models) ids))" by (simp only: mset_map mset_sort)
  then have m: "mset ?xs = mset ids" by (simp only: map_snd_zip length_num_overlapped)
  have d: "distinct ?xs" using assms(1) m by (metis distinct_count_atmost_1 set_mset_mset)
  have e: "choose_workers ids k models = sort (take (nat k) ?xs)"
    using assms(2) by (simp add: choose_workers_def slice_to_def take_map)
  show "set (choose_workers ids k models) \<subseteq> set ids"
    using m unfolding e by (metis set_sort set_mset_mset set_take_subset)
  show "distinct (choose_workers ids k models)" using d unfolding e by simp
  show "length (choose_workers ids k models) = nat k" using assms unfolding e by simp
qed

lemma chosen_props:
  assumes "distinct ids" and "0 < k" and "k \<le> int (length ids)"
    and "ws = slice_to ids k \<or> ws = choose_workers ids k models"
  shows "ws \<noteq> [] \<and> distinct ws \<and> set ws \<subseteq> set ids \<and> int (length ws) = k"
proof -
  have "length ws = nat k" "set ws \<subseteq> set ids" "distinct ws"
    using assms choose_workers_props [of ids k models] by (auto simp: slice_to_def dest: in_set_takeD)
  then show ?thesis using assms(2) by auto
qed

lemma best_fit_ok:
  assumes c: "wf_conf (pm_config s)" and s: "sized s" and k: "0 < k"
    and nm: "length (pm_node_models s) = mc_num_servers (pm_config s)"
    and ns: "\<forall>n \<in> set ns. n < mc_num_servers (pm_config s)"
  shows "\<exists>r. best_fit s k ns = Inr r \<and> (\<forall>n ws. r = Some (n, ws) \<longrightarrow>
     wf_group (pm_config s) n ws \<and> (\<forall>w \<in> set ws. \<not> busy s w) \<and> int (length ws) = k \<and> n \<in> set ns)"
  using ns
proof (induction ns)
  case (Cons n ns)
  let ?c = "pm_config s"
  let ?g = "mc_num_gpu_per_server ?c"
  let ?ws = "[n * ?g..<n * ?g + ?g]"
  let ?ids = "filter (\<lambda>w. \<not> busy s w) ?ws"
  have nw: "mc_node_workers ?c ! n = ?ws" "n < length (mc_node_workers ?c)" and g: "0 < ?g"
    using c Cons.prems by (auto simp: wf_conf_def)
  have dv: "w div ?g = n" if q: "w \<in> set ?ws" for w
    using q g by (auto intro!: div_nat_eqI simp: mult.commute)
  then have "\<forall>w \<in> set ?ws. w < num_workers ?c"
    using Cons.prems g by (simp add: num_workers_def flip: div_less_iff_less_mult)
  then have io: "idle_of s ?ws = Inr ?ids" by (rule idle_of_ok [OF s])
  show ?case
  proof (cases "k \<le> int (length ?ids)")
    case False
    then have "best_fit s k (n # ns) = best_fit s k ns" using nw io by simp
    then show ?thesis using Cons by auto
  next
    case True
    define ws where "ws = (if \<not> mc_use_unified_memory ?c \<or> int (length ?ids) = k then slice_to ?ids k
      else choose_workers ?ids k (pm_node_models s ! n))"
    have r: "best_fit s k (n # ns) = Inr (Some (n, ws))"
      using True nw io nm Cons.prems by (simp add: ws_def)
    have ws: "ws = slice_to ?ids k \<or> ws = choose_workers ?ids k (pm_node_models s ! n)" by (simp add: ws_def)
    have "distinct ?ids" by simp
    from chosen_props [OF this k True ws]
    have "wf_group ?c n ws \<and> (\<forall>w \<in> set ws. \<not> busy s w) \<and> int (length ws) = k"
      using dv Cons.prems by (auto simp: wf_group_def)
    then show ?thesis using r by simp
  qed
qed simp

subsection \<open>The search as a whole\<close>

lemma first_available_ok:
  "sized s \<Longrightarrow> \<forall>ws \<in> set wss. \<forall>w \<in> set ws. w < num_workers (pm_config s) \<Longrightarrow>
   first_available s wss = Inr (find (\<lambda>ws. \<forall>w \<in> set ws. \<not> busy s w) wss)"
  by (induction wss) (auto simp: all_free_ok)

lemma first_in_prewarming_ok:
  "sized s \<Longrightarrow> \<forall>(n, j) \<in> set js. \<forall>w \<in> set (pj_workers j). w < num_workers (pm_config s) \<Longrightarrow>
   first_in_prewarming s mi js = Inr (map_option (\<lambda>(n, j). (n, pj_workers j))
     (find (\<lambda>(n, j). pj_info j = mi \<and> (\<forall>w \<in> set (pj_workers j). \<not> busy s w)) js))"
proof (induction js)
  case (Cons x js)
  obtain n j where x: "x = (n, j)" by (cases x)
  have "all_free s (pj_workers j) = Inr (\<forall>w \<in> set (pj_workers j). \<not> busy s w)"
    using Cons.prems x by (intro all_free_ok) auto
  then show ?case using Cons x by simp
qed simp

lemma model_workers_wf:
  "nodes_ok c nm mw \<Longrightarrow> ws \<in> set (default_get mw m) \<Longrightarrow> \<exists>n. wf_group c n ws"
  unfolding nodes_ok_def by blast

lemma all_jobs_ok: "jobs_ok (pm_config s) (pm_in_prewarming s) \<Longrightarrow> (n, j) \<in> set (all_jobs s) \<Longrightarrow> job_ok (pm_config s) n j"
  by (auto simp: jobs_ok_def in_all_jobs)

lemma node_of_ok:
  assumes "wf_conf (pm_config s)" and "wf_group (pm_config s) n ws"
  shows "node_of s ws = Inr n"
  using assms by (cases ws) (auto simp: node_of_def wf_group_def wf_conf_def)

lemma find_prewarmed_ok:
  assumes c: "wf_conf (pm_config s)" and s: "sized s" and t: "ctl_tables_ok s"
  shows "\<exists>r. find_prewarmed mi s = Inr r
    \<and> (\<forall>n ws. r = Some (n, ws) \<longrightarrow> wf_group (pm_config s) n ws \<and> (\<forall>w \<in> set ws. \<not> busy s w))"
proof -
  let ?wss = "default_get (pm_model_workers s) (model_name mi)"
  have mw: "\<exists>n. wf_group (pm_config s) n ws" if q: "ws \<in> set ?wss" for ws
    using t q model_workers_wf by (auto simp: ctl_tables_ok_def)
  have jb: "job_ok (pm_config s) n j" if q: "(n, j) \<in> set (all_jobs s)" for n j
    using t q all_jobs_ok by (auto simp: ctl_tables_ok_def)
  have fa: "first_available s ?wss = Inr (find (\<lambda>ws. \<forall>w \<in> set ws. \<not> busy s w) ?wss)"
    using first_available_ok [OF s] mw wf_group_lt [OF c] by blast
  have fp: "first_in_prewarming s mi (all_jobs s) = Inr (map_option (\<lambda>(n, j). (n, pj_workers j))
      (find (\<lambda>(n, j). pj_info j = mi \<and> (\<forall>w \<in> set (pj_workers j). \<not> busy s w)) (all_jobs s)))"
    using first_in_prewarming_ok [OF s, of "all_jobs s" mi] jb wf_group_lt [OF c] unfolding job_ok_def by blast
  show ?thesis
  proof (cases "find (\<lambda>ws. \<forall>w \<in> set ws. \<not> busy s w) ?wss")
    case None
    let ?f = "find (\<lambda>(n, j). pj_info j = mi \<and> (\<forall>w \<in> set (pj_workers j). \<not> busy s w)) (all_jobs s)"
    have "wf_group (pm_config s) n (pj_workers j) \<and> (\<forall>w \<in> set (pj_workers j). \<not> busy s w)" if q: "?f = Some (n, j)" for n j
    proof -
      from q obtain i where "i < length (all_jobs s)" "all_jobs s ! i = (n, j)" "\<forall>w \<in> set (pj_workers j). \<not> busy s w"
        by (auto simp: find_Some_iff)
      then show ?thesis using jb [of n j] nth_mem by (fastforce simp: job_ok_def)
    qed
    then show ?thesis using fa fp None by (auto simp: find_prewarmed_def)
  next
    case (Some ws)
    then have ws: "ws \<in> set ?wss" "\<forall>w \<in> set ws. \<not> busy s w" by (auto simp: find_Some_iff)
    then obtain n where "wf_group (pm_config s) n ws" using mw by blast
    then show ?thesis using Some fa ws(2) node_of_ok [OF c] by (auto simp: find_prewarmed_def)
  qed
qed

definition found :: "manager \<Rightarrow> int \<Rightarrow> (nat \<times> nat list \<times> bool) option \<Rightarrow> worker_status list \<Rightarrow> bool" where
  "found s k r st \<longleftrightarrow> (case r of
     None \<Rightarrow> st = pm_worker_stats s
   | Some (n, ws, hit) \<Rightarrow> wf_group (pm_config s) n ws \<and> (\<forall>w \<in> set ws. \<not> busy s w)
       \<and> (\<not> hit \<longrightarrow> int (length ws) = k) \<and> remark (\<lambda>w. busy s w \<or> w \<in> set ws) st s)"

lemma get_available_workers_ok:
  assumes c: "wf_conf (pm_config s)" and s: "sized s" and t: "ctl_tables_ok s"
    and mi: "tensor_parallel_size mi \<noteq> 0" and k: "0 < k"
  shows "\<exists>r st. get_available_workers mi k s = Inr (r, s\<lparr>pm_worker_stats := st\<rparr>) \<and> found s k r st"
proof -
  let ?c = "pm_config s"
  have mark: "\<exists>st. mark_workers mi 0 ws s = Inr (s\<lparr>pm_worker_stats := st\<rparr>)
      \<and> remark (\<lambda>w. busy s w \<or> w \<in> set ws) st s" if q: "wf_group ?c n ws" for n ws
    using mark_workers_ok [OF mi] wf_group_lt [OF c q] s by (simp add: sized_def)
  have "\<exists>r. (if mc_use_unified_memory ?c then find_prewarmed mi s else Inr None) = Inr r
      \<and> (\<forall>n ws. r = Some (n, ws) \<longrightarrow> wf_group ?c n ws \<and> (\<forall>w \<in> set ws. \<not> busy s w))"
    by (cases "mc_use_unified_memory ?c") (simp_all add: find_prewarmed_ok [OF c s t])
  then obtain r where r: "(if mc_use_unified_memory ?c then find_prewarmed mi s else Inr None) = Inr r"
    and rp: "\<forall>n ws. r = Some (n, ws) \<longrightarrow> wf_group ?c n ws \<and> (\<forall>w \<in> set ws. \<not> busy s w)"
    by blast
  have dp: "\<not> mc_disable_placement ?c" using c by (simp add: wf_conf_def)
  show ?thesis
  proof (cases r)
    case (Some nws)
    obtain n ws where nws: "nws = (n, ws)" by (cases nws)
    have w: "wf_group ?c n ws" "\<forall>w \<in> set ws. \<not> busy s w" using rp Some nws by auto
    obtain st where "mark_workers mi 0 ws s = Inr (s\<lparr>pm_worker_stats := st\<rparr>)"
      "remark (\<lambda>w. busy s w \<or> w \<in> set ws) st s" using mark [OF w(1)] by blast
    then show ?thesis using r Some nws w
      by (intro exI [of _ "Some (n, ws, True)"] exI [of _ st]) (simp add: get_available_workers_def found_def)
  next
    case None
    obtain b where b: "best_fit s k [0..<mc_num_servers ?c] = Inr b" "\<forall>n ws. b = Some (n, ws) \<longrightarrow>
      wf_group ?c n ws \<and> (\<forall>w \<in> set ws. \<not> busy s w) \<and> int (length ws) = k"
      using best_fit_ok [OF c s k, of "[0..<mc_num_servers ?c]"] t by (auto simp: ctl_tables_ok_def nodes_ok_def)
    show ?thesis
    proof (cases b)
      case None
      then have "get_available_workers mi k s = Inr (None, s)"
        using r \<open>r = None\<close> b(1) dp by (simp add: get_available_workers_def find_idle_def)
      then show ?thesis by (intro exI [of _ None] exI [of _ "pm_worker_stats s"]) (simp add: found_def)
    next
      case (Some nws)
      obtain n ws where nws: "nws = (n, ws)" by (cases nws)
      have w: "wf_group ?c n ws" "\<forall>w \<in> set ws. \<not> busy s w" "int (length ws) = k" using b(2) Some nws by auto
      obtain st where m: "mark_workers mi 0 ws s = Inr (s\<lparr>pm_worker_stats := st\<rparr>)"
        "remark (\<lambda>w. busy s w \<or> w \<in> set ws) st s" using mark [OF w(1)] by blast
      have "get_available_workers mi k s = Inr (Some (n, ws, False), s\<lparr>pm_worker_stats := st\<rparr>)"
        using r None b(1) dp m(1) Some nws by (simp add: get_available_workers_def find_idle_def)
      then show ?thesis using w m(2)
        by (intro exI [of _ "Some (n, ws, False)"] exI [of _ st]) (simp add: found_def)
    qed
  qed
qed

end
