(* ===== verification/Ctl_Claim.thy ===== *)
theory Ctl_Claim
  imports Ctl_Tables
begin

text \<open>
  Claiming workers keeps the tables consistent: \<open>create_engine\<close> stops the loads and drops the
  prewarmed copies that use its workers, and no \<open>remove\<close> of a copy fails. \<open>entries\<close> are the
  copies that exist or are being loaded.
\<close>

subsection \<open>What a section leaves alone\<close>

text \<open>The part of the state that sections under \<open>model_lock\<close> only do not touch.\<close>

definition engine_part :: "manager \<Rightarrow> manager" where
  "engine_part s = s\<lparr>pm_worker_stats := [], pm_gpu_mem := [], pm_model_workers := Map.empty,
     pm_node_models := [], pm_in_prewarming := [], pm_world_counter := 0, pm_calls := []\<rparr>"

lemma engine_part_update [simp]:
  "engine_part (s\<lparr>pm_worker_stats := st\<rparr>) = engine_part s"
  "engine_part (s\<lparr>pm_gpu_mem := mem\<rparr>) = engine_part s"
  "engine_part (s\<lparr>pm_model_workers := mw\<rparr>) = engine_part s"
  "engine_part (s\<lparr>pm_node_models := nm\<rparr>) = engine_part s"
  "engine_part (s\<lparr>pm_in_prewarming := ip\<rparr>) = engine_part s"
  "engine_part (s\<lparr>pm_world_counter := w\<rparr>) = engine_part s"
  "engine_part (s\<lparr>pm_calls := cs\<rparr>) = engine_part s"
  "engine_part (call cs s) = engine_part s"
  by (simp_all add: engine_part_def call_def)

lemma engine_partD:
  assumes "engine_part s' = engine_part s"
  shows "pm_config s' = pm_config s" "pm_model_engines s' = pm_model_engines s"
    "pm_model_stats s' = pm_model_stats s" "pm_num_engines s' = pm_num_engines s"
    "pm_num_in_creating s' = pm_num_in_creating s" "pm_prewarm_engine_counter s' = pm_prewarm_engine_counter s"
    "pm_prewarmed_engines s' = pm_prewarmed_engines s" "pm_extend_future s' = pm_extend_future s"
    "pm_running_engines s' = pm_running_engines s" "pm_engine_counter s' = pm_engine_counter s"
    "pm_engine_stats s' = pm_engine_stats s" "pm_engine_data s' = pm_engine_data s"
    "pm_data_future s' = pm_data_future s"
  using arg_cong [OF assms, of pm_config] arg_cong [OF assms, of pm_model_engines]
    arg_cong [OF assms, of pm_model_stats] arg_cong [OF assms, of pm_num_engines]
    arg_cong [OF assms, of pm_num_in_creating] arg_cong [OF assms, of pm_prewarm_engine_counter]
    arg_cong [OF assms, of pm_prewarmed_engines] arg_cong [OF assms, of pm_extend_future]
    arg_cong [OF assms, of pm_running_engines] arg_cong [OF assms, of pm_engine_counter]
    arg_cong [OF assms, of pm_engine_stats] arg_cong [OF assms, of pm_engine_data]
    arg_cong [OF assms, of pm_data_future]
  by (simp_all add: engine_part_def)

lemma claim_worker_ok:
  assumes "w < length (pm_worker_stats s)" and "w < length (pm_gpu_mem s)"
  shows "\<exists>s1. claim_worker all world mi w s = Inr s1 \<and> engine_part s1 = engine_part s
    \<and> pm_model_workers s1 = pm_model_workers s \<and> pm_node_models s1 = pm_node_models s
    \<and> pm_in_prewarming s1 = pm_in_prewarming s
    \<and> pm_worker_stats s1 = (pm_worker_stats s)[w := (pm_worker_stats s ! w)\<lparr>ws_model := Some mi\<rparr>]
    \<and> pm_gpu_mem s1 = (pm_gpu_mem s)[w := 0]"
  using assms by (simp add: claim_worker_def set_ws_model_ok upd_nth_def Let_def call_def engine_part_def)

lemma claim_loop_ok:
  assumes "sized s" and "\<forall>w \<in> set ws. w < num_workers (pm_config s)"
  shows "\<exists>s'. claim_loop all world mi pp tp ws s = Inr s' \<and> engine_part s' = engine_part s \<and> sized s'
    \<and> pm_model_workers s' = pm_model_workers s \<and> pm_node_models s' = pm_node_models s
    \<and> pm_in_prewarming s' = pm_in_prewarming s \<and> remark (\<lambda>w. busy s w \<or> w \<in> set ws) (pm_worker_stats s') s
    \<and> (\<forall>w < num_workers (pm_config s). pm_gpu_mem s' ! w = (if w \<in> set ws then 0 else pm_gpu_mem s ! w))"
  using assms
proof (induction ws arbitrary: pp tp s)
  case Nil
  then show ?case by (simp add: remark_def busy_def)
next
  case (Cons v ws)
  let ?mi = "mi\<lparr>tensor_parallel_rank := tp, pipeline_parallel_rank := pp\<rparr>"
  have v: "v < length (pm_worker_stats s)" "v < length (pm_gpu_mem s)" using Cons.prems by (simp_all add: sized_def)
  obtain s1 where s1: "claim_worker all world ?mi v s = Inr s1" "engine_part s1 = engine_part s"
      "pm_model_workers s1 = pm_model_workers s" "pm_node_models s1 = pm_node_models s"
      "pm_in_prewarming s1 = pm_in_prewarming s"
      "pm_worker_stats s1 = (pm_worker_stats s)[v := (pm_worker_stats s ! v)\<lparr>ws_model := Some ?mi\<rparr>]"
      "pm_gpu_mem s1 = (pm_gpu_mem s)[v := 0]"
    using claim_worker_ok [OF v, of all world ?mi] by blast
  have c: "pm_config s1 = pm_config s" by (rule engine_partD [OF s1(2)])
  have sz: "sized s1" using Cons.prems(1) s1(6,7) c by (simp add: sized_def)
  have lt: "\<forall>w \<in> set ws. w < num_workers (pm_config s1)" using Cons.prems(2) c by simp
  let ?pp = "if tp = tensor_parallel_size mi - 1 then pp + 1 else pp"
  let ?tp = "if tp = tensor_parallel_size mi - 1 then 0 else tp + 1"
  obtain s' where s': "claim_loop all world mi ?pp ?tp ws s1 = Inr s'" "engine_part s' = engine_part s1" "sized s'"
      "pm_model_workers s' = pm_model_workers s1" "pm_node_models s' = pm_node_models s1"
      "pm_in_prewarming s' = pm_in_prewarming s1" "remark (\<lambda>w. busy s1 w \<or> w \<in> set ws) (pm_worker_stats s') s1"
      "\<forall>w < num_workers (pm_config s1). pm_gpu_mem s' ! w = (if w \<in> set ws then 0 else pm_gpu_mem s1 ! w)"
    using Cons.IH [OF sz lt] by blast
  have "claim_loop all world mi pp tp (v # ws) s = Inr s'"
    using s1(1) s'(1) by (cases "tp = tensor_parallel_size mi - 1") simp_all
  moreover have "remark (\<lambda>w. busy s w \<or> w \<in> set (v # ws)) (pm_worker_stats s') s"
    using s'(7) s1(6) v by (auto simp: remark_def busy_def nth_list_update)
  moreover have "\<forall>w < num_workers (pm_config s). pm_gpu_mem s' ! w = (if w \<in> set (v # ws) then 0 else pm_gpu_mem s ! w)"
    using s'(8) s1(7) c v Cons.prems(1) by (auto simp: nth_list_update sized_def)
  ultimately show ?case using s' s1 by simp
qed

subsection \<open>Dropping prewarmed copies\<close>

lemma remove_fold:
  assumes "distinct cs" and "\<forall>(m, ws) \<in> set cs. ws \<in> set (default_get (pm_model_workers s) m)"
    and "\<forall>m. distinct (default_get (pm_model_workers s) m)"
  shows "\<exists>mw. fold_r remove_model_workers cs s = Inr (s\<lparr>pm_model_workers := mw\<rparr>)
    \<and> (\<forall>m. distinct (default_get mw m))
    \<and> (\<forall>m ws. ws \<in> set (default_get mw m) \<longleftrightarrow> ws \<in> set (default_get (pm_model_workers s) m) \<and> (m, ws) \<notin> set cs)"
  using assms
proof (induction cs arbitrary: s)
  case Nil
  then show ?case by (intro exI [of _ "pm_model_workers s"]) simp
next
  case (Cons c cs)
  obtain m ws where c: "c = (m, ws)" by (cases c)
  let ?wss = "default_get (pm_model_workers s) m"
  define mw1 where "mw1 = (pm_model_workers s)(m \<mapsto> removeAll ws ?wss)"
  let ?s = "s\<lparr>pm_model_workers := mw1\<rparr>"
  have one: "remove_model_workers c s = Inr ?s"
    using Cons.prems(2) c by (simp add: remove_model_workers_def set_remove_def mw1_def)
  have mw: "default_get mw1 m' = (if m' = m then removeAll ws ?wss else default_get (pm_model_workers s) m')" for m'
    by (simp add: default_get_def mw1_def)
  have a: "\<forall>(m', ws') \<in> set cs. ws' \<in> set (default_get (pm_model_workers ?s) m')"
    using Cons.prems(1,2) c by (auto simp: mw)
  have b: "\<forall>m'. distinct (default_get (pm_model_workers ?s) m')"
    using Cons.prems(3) by (simp add: mw distinct_removeAll)
  have d: "distinct cs" using Cons.prems(1) by simp
  obtain mw' where mw': "fold_r remove_model_workers cs ?s = Inr (?s\<lparr>pm_model_workers := mw'\<rparr>)" "\<forall>m. distinct (default_get mw' m)"
    and m': "\<forall>m ws. ws \<in> set (default_get mw' m) \<longleftrightarrow> ws \<in> set (default_get (pm_model_workers ?s) m) \<and> (m, ws) \<notin> set cs"
    using Cons.IH [OF d a b] by blast
  have "ws' \<in> set (default_get mw' m') \<longleftrightarrow> ws' \<in> set (default_get (pm_model_workers s) m') \<and> (m', ws') \<notin> set (c # cs)" for m' ws'
    using m' c by (auto simp: mw)
  then show ?case using one mw' by (intro exI [of _ mw']) simp
qed

lemma wf_group_node: "wf_group c n ws \<Longrightarrow> wf_group c n' ws \<Longrightarrow> n = n'"
  by (cases ws) (auto simp: wf_group_def)

lemma evict_models_ok:
  assumes t: "nodes_ok (pm_config s) (pm_node_models s) (pm_model_workers s)" and n: "n < mc_num_servers (pm_config s)"
  shows "\<exists>nm mw. evict_models n m ws s = Inr (s\<lparr>pm_node_models := nm, pm_model_workers := mw\<rparr>)
    \<and> nodes_ok (pm_config s) nm mw \<and> nm = (pm_node_models s)
        [n := filter (\<lambda>x. x \<notin> set (conflicts m ws (pm_node_models s ! n))) (pm_node_models s ! n)]"
proof -
  let ?nm = "pm_node_models s" and ?c = "pm_config s"
  let ?cs = "conflicts m ws (?nm ! n)"
  let ?nm' = "?nm[n := filter (\<lambda>x. x \<notin> set ?cs) (?nm ! n)]"
  let ?s = "s\<lparr>pm_node_models := ?nm'\<rparr>"
  have len: "length ?nm = mc_num_servers ?c" and d: "distinct (?nm ! n)" and dm: "\<forall>m. distinct (default_get (pm_model_workers s) m)"
    and wf: "\<forall>k < length ?nm. \<forall>(m, ws) \<in> set (?nm ! k). wf_group ?c k ws"
    and iff: "\<And>m ws. ws \<in> set (default_get (pm_model_workers s) m) \<longleftrightarrow> (\<exists>k < length ?nm. (m, ws) \<in> set (?nm ! k))"
    using t n by (auto simp: nodes_ok_def)
  have sub: "set ?cs \<subseteq> set (?nm ! n)" by (auto simp: conflicts_def)
  have "distinct ?cs" using d by (simp add: conflicts_def)
  moreover have "\<forall>(m, ws) \<in> set ?cs. ws \<in> set (default_get (pm_model_workers ?s) m)"
    using sub n len by (auto simp: iff)
  ultimately obtain mw where mw: "fold_r remove_model_workers ?cs ?s = Inr (?s\<lparr>pm_model_workers := mw\<rparr>)"
    "\<forall>m. distinct (default_get mw m)"
    "\<forall>m ws. ws \<in> set (default_get mw m) \<longleftrightarrow> ws \<in> set (default_get (pm_model_workers s) m) \<and> (m, ws) \<notin> set ?cs"
    using remove_fold [of ?cs ?s] dm by auto
  have one: "k = n" if q: "(m', ws') \<in> set ?cs" "k < length ?nm" "(m', ws') \<in> set (?nm ! k)" for m' ws' k
  proof -
    have "(m', ws') \<in> set (?nm ! n)" using q(1) sub by blast
    then have "wf_group ?c n ws'" using wf n len by fastforce
    moreover have "wf_group ?c k ws'" using wf q(2,3) by fastforce
    ultimately show ?thesis using wf_group_node by blast
  qed
  have at: "(m', ws') \<in> set (?nm' ! k) \<longleftrightarrow> (m', ws') \<in> set (?nm ! k) \<and> (k = n \<longrightarrow> (m', ws') \<notin> set ?cs)" for m' ws' k
    using n len by (cases "k = n") simp_all
  have l': "length ?nm' = length ?nm" by simp
  have "ws' \<in> set (default_get mw m') \<longleftrightarrow> (\<exists>k < length ?nm'. (m', ws') \<in> set (?nm' ! k))" for m' ws'
    unfolding mw(3) [rule_format] l' at using iff [of ws' m'] one [of m' ws'] by auto
  then have "nodes_ok ?c ?nm' mw"
    using t mw(2) n len wf unfolding nodes_ok_def by (auto simp: nth_list_update)
  then show ?thesis using mw(1) n len by (intro exI [of _ ?nm'] exI [of _ mw]) (simp add: evict_models_def Let_def)
qed

subsection \<open>Starting to load\<close>

lemma load_models_ok:
  "\<forall>w \<in> set ws. w < length (pm_worker_stats s) \<Longrightarrow> \<exists>cs. load_models m tp pp all world bg r ws s = Inr (call cs s)"
proof (induction ws arbitrary: r s)
  case Nil
  then show ?case by (intro exI [of _ "[]"]) (simp add: call_def)
next
  case (Cons w ws)
  let ?l = "[Load_Model w (rank_info m tp pp r) all world (r \<in> set bg)]"
  obtain cs where "load_models m tp pp all world bg (Suc r) ws (call ?l s) = Inr (call cs (call ?l s))"
    using Cons.IH [of "call ?l s" "Suc r"] Cons.prems by (auto simp: call_def)
  then show ?case using Cons.prems by (intro exI [of _ "?l @ cs"]) (simp add: call_def)
qed

definition new_job :: "string \<Rightarrow> int \<Rightarrow> int \<Rightarrow> nat list \<Rightarrow> nat \<Rightarrow> prewarm_job" where
  "new_job m tp pp ws world = \<lparr>pj_info = ModelInfo m tp pp, pj_workers = ws,
     pj_futures = map (Pair world) [0..<length ws], pj_unfin = [0..<length ws]\<rparr>"

lemma prewarm_model_async_ok:
  assumes "mc_use_unified_memory (pm_config s)" and "tp * pp = int (length ws)"
    and "\<forall>w \<in> set ws. w < length (pm_worker_stats s)"
  shows "\<exists>cs. prewarm_model_async m tp pp ws bg s
    = Inr (new_job m tp pp ws (pm_world_counter s), call cs (s\<lparr>pm_world_counter := pm_world_counter s + 1\<rparr>))"
proof -
  let ?s = "s\<lparr>pm_world_counter := pm_world_counter s + 1\<rparr>"
  obtain cs where "load_models m tp pp ws (pm_world_counter s) bg 0 ws ?s = Inr (call cs ?s)"
    using load_models_ok [of ws ?s m tp pp ws "pm_world_counter s" bg 0] assms(3) by auto
  then show ?thesis using assms(1,2) by (intro exI [of _ cs]) (simp add: prewarm_model_async_def new_job_def Let_def)
qed

lemma new_job_ok: "wf_group c n ws \<Longrightarrow> 0 < tp \<Longrightarrow> job_ok c n (new_job m tp pp ws world)"
  by (simp add: job_ok_def new_job_def ModelInfo_def)

subsection \<open>The copies of the cluster\<close>

definition entries :: "manager \<Rightarrow> (string \<times> nat list) set" where
  "entries s = (\<Union>models \<in> set (pm_node_models s). set models)
     \<union> {(model_name (pj_info j), pj_workers j) | n j. j \<in> set (jobs_of s n)}"

lemma overlapping_iff: "overlapping ws vs \<longleftrightarrow> set ws \<inter> set vs \<noteq> {}"
  by (auto simp: overlapping_def)

text \<open>What \<open>claim_workers\<close> does to the state.\<close>

definition claimed :: "string \<Rightarrow> nat list \<Rightarrow> manager \<Rightarrow> manager \<Rightarrow> bool" where
  "claimed m ws s s' \<longleftrightarrow> engine_part s' = engine_part s \<and> sized s' \<and> ctl_tables_ok s'
     \<and> remark (\<lambda>w. busy s w \<or> w \<in> set ws) (pm_worker_stats s') s
     \<and> (\<forall>w < num_workers (pm_config s). pm_gpu_mem s' ! w = (if w \<in> set ws then 0 else pm_gpu_mem s ! w))
     \<and> (mc_use_unified_memory (pm_config s) \<longrightarrow> entries s' \<subseteq> insert (m, ws) (entries s)
          \<and> (\<forall>e \<in> entries s'. set (snd e) \<inter> set ws \<noteq> {} \<longrightarrow> e = (m, ws)))
     \<and> (\<not> mc_use_unified_memory (pm_config s) \<longrightarrow> entries s' = entries s)"

lemma entries_cong:
  "pm_node_models s' = pm_node_models s \<Longrightarrow> pm_in_prewarming s' = pm_in_prewarming s \<Longrightarrow> entries s' = entries s"
  by (simp add: entries_def jobs_of_def)

lemma evicted_entries:
  assumes t: "ctl_tables_ok s" and nm: "pm_node_models s' = (pm_node_models s)
        [n := filter (\<lambda>x. x \<notin> set (conflicts m ws (pm_node_models s ! n))) (pm_node_models s ! n)]"
    and js: "\<And>k. jobs_of s' k = (if k = n then stop_jobs mi ws (jobs_of s n) else jobs_of s k)"
    and wf: "wf_group (pm_config s) n ws" and m: "m = model_name mi"
  shows "entries s' \<subseteq> entries s" "\<forall>e \<in> entries s'. set (snd e) \<inter> set ws \<noteq> {} \<longrightarrow> e = (m, ws)"
proof -
  let ?nm = "pm_node_models s"
  have n: "n < length ?nm" using t wf by (auto simp: ctl_tables_ok_def nodes_ok_def wf_group_def)
  have "set (filter (\<lambda>x. x \<notin> set (conflicts m ws (?nm ! n))) (?nm ! n)) \<subseteq> (\<Union>models \<in> set ?nm. set models)"
    using nth_mem [OF n] by auto
  then have "(\<Union>models \<in> set (pm_node_models s'). set models) \<subseteq> (\<Union>models \<in> set ?nm. set models)"
    unfolding nm using set_update_subset_insert [of ?nm n] by blast
  moreover have "set (jobs_of s' k) \<subseteq> set (jobs_of s k)" for k by (auto simp: js stop_jobs_def)
  ultimately show "entries s' \<subseteq> entries s" unfolding entries_def by blast
  show "\<forall>e \<in> entries s'. set (snd e) \<inter> set ws \<noteq> {} \<longrightarrow> e = (m, ws)"
  proof (intro ballI impI)
    fix e assume e: "e \<in> entries s'" and o: "set (snd e) \<inter> set ws \<noteq> {}"
    then obtain w where w: "w \<in> set (snd e)" "w \<in> set ws" by blast
    then have wn: "w div mc_num_gpu_per_server (pm_config s) = n" using wf by (simp add: wf_group_def)
    obtain m' vs where mv: "e = (m', vs)" by (cases e)
    have ov: "overlapping ws vs" using w mv by (auto simp: overlapping_iff)
    from e consider k where "k < length ?nm" "e \<in> set (pm_node_models s' ! k)"
      | k j where "j \<in> set (jobs_of s' k)" "e = (model_name (pj_info j), pj_workers j)"
      unfolding entries_def nm by (fastforce simp: in_set_conv_nth)
    then show "e = (m, ws)"
    proof cases
      case 1
      then have "e \<in> set (?nm ! k)" using n by (cases "k = n") (auto simp: nm)
      then have "wf_group (pm_config s) k vs" using t 1(1) mv by (fastforce simp: ctl_tables_ok_def nodes_ok_def)
      then have "k = n" using w wn mv by (auto simp: wf_group_def)
      then show ?thesis using 1(2) n mv ov by (auto simp: nm conflicts_def)
    next
      case 2
      then have "j \<in> set (jobs_of s k)" by (auto simp: js stop_jobs_def split: if_splits)
      then have "job_ok (pm_config s) k j" using t by (auto simp: ctl_tables_ok_def jobs_ok_iff)
      then have "k = n" using w wn mv 2(2) by (auto simp: job_ok_def wf_group_def)
      then show ?thesis using 2 mv ov m by (auto simp: js stop_jobs_def)
    qed
  qed
qed

lemma in_entries_add_job:
  assumes "pm_node_models s' = pm_node_models s" and "\<And>k. jobs_of s' k = (if k = n then jobs_of s n @ [j] else jobs_of s k)"
  shows "entries s' = insert (model_name (pj_info j), pj_workers j) (entries s)"
  unfolding entries_def assms by (auto split: if_splits)

lemma claim_workers_ok:
  assumes c: "wf_conf (pm_config s)" and s: "sized s" and t: "ctl_tables_ok s"
    and ws: "wf_group (pm_config s) n ws" and tp: "0 < tensor_parallel_size mi"
    and len: "\<not> hit \<longrightarrow> int (length ws) = mi_world_size mi"
  shows "\<exists>s'. claim_workers mi n ws hit s = Inr s' \<and> claimed (model_name mi) ws s s'"
proof -
  let ?c = "pm_config s" and ?m = "model_name mi"
  let ?own = "\<not> mc_disable_all_prewarm ?c \<and> \<not> mc_use_unified_memory ?c"
  define s0 where "s0 = (if ?own then s\<lparr>pm_world_counter := pm_world_counter s + 1\<rparr> else s)"
  have s0: "engine_part s0 = engine_part s" "sized s0" "pm_worker_stats s0 = pm_worker_stats s" "pm_gpu_mem s0 = pm_gpu_mem s"
    "pm_model_workers s0 = pm_model_workers s" "pm_node_models s0 = pm_node_models s" "pm_in_prewarming s0 = pm_in_prewarming s"
    "pm_config s0 = ?c"
    using s by (simp_all add: s0_def sized_def)
  have lt: "\<forall>w \<in> set ws. w < num_workers ?c" using wf_group_lt [OF c ws] by blast
  obtain s1 where s1: "claim_loop ws (if ?own then Some (pm_world_counter s) else None) mi 0 0 ws s0 = Inr s1"
      "engine_part s1 = engine_part s0" "sized s1" "pm_model_workers s1 = pm_model_workers s0"
      "pm_node_models s1 = pm_node_models s0" "pm_in_prewarming s1 = pm_in_prewarming s0"
      "remark (\<lambda>w. busy s0 w \<or> w \<in> set ws) (pm_worker_stats s1) s0"
      "\<forall>w < num_workers (pm_config s0). pm_gpu_mem s1 ! w = (if w \<in> set ws then 0 else pm_gpu_mem s0 ! w)"
    using claim_loop_ok [OF s0(2) lt [folded s0(8)]] by blast
  have c1: "pm_config s1 = ?c" using engine_partD(1) [OF s1(2)] s0(8) by simp
  have t1: "ctl_tables_ok s1" using t s1(4-6) s0(5-7) c1 by (simp add: ctl_tables_ok_def)
  have r1: "remark (\<lambda>w. busy s w \<or> w \<in> set ws) (pm_worker_stats s1) s"
    using s1(7) s0(3) by (simp add: remark_def busy_def)
  have m1: "\<forall>w < num_workers ?c. pm_gpu_mem s1 ! w = (if w \<in> set ws then 0 else pm_gpu_mem s ! w)"
    using s1(8) s0(4,8) by simp
  have e1: "entries s1 = entries s" using s1(5,6) s0(6,7) by (intro entries_cong) simp_all
  have start: "claim_workers mi n ws hit s = (if \<not> mc_use_unified_memory ?c then Inr s1
      else bind_r (evict_models n ?m ws (set_jobs n (stop_jobs mi ws (jobs_of s1 n)) s1)) (\<lambda>s.
        if hit then Inr s
        else bind_r (prewarm_model_async ?m (tensor_parallel_size mi) (pipeline_parallel_size mi) ws [] s)
         (\<lambda>(j, s). Inr (add_job n j s))))"
    using s1(1) c1 unfolding claim_workers_def Let_def s0_def [symmetric] by simp
  show ?thesis
  proof (cases "mc_use_unified_memory ?c")
    case False
    then show ?thesis using start s1(2,3) s0(1) t1 r1 m1 e1 by (auto simp: claimed_def)
  next
    case True
    let ?s2 = "set_jobs n (stop_jobs mi ws (jobs_of s1 n)) s1"
    have nm2: "pm_node_models ?s2 = pm_node_models s1" "pm_model_workers ?s2 = pm_model_workers s1" "pm_config ?s2 = ?c"
      using c1 by (simp_all add: set_jobs_def)
    have jb: "jobs_ok ?c (pm_in_prewarming s1)" using t1 c1 by (simp add: ctl_tables_ok_def)
    have j2: "jobs_ok ?c (pm_in_prewarming ?s2)"
      using jobs_ok_set_jobs [OF jb] jb by (auto simp: stop_jobs_def jobs_ok_iff)
    have n: "n < mc_num_servers (pm_config ?s2)" using ws nm2(3) by (simp add: wf_group_def)
    have nk: "nodes_ok (pm_config ?s2) (pm_node_models ?s2) (pm_model_workers ?s2)"
      using t1 nm2 c1 by (simp add: ctl_tables_ok_def)
    obtain nm mw where ev: "evict_models n ?m ws ?s2 = Inr (?s2\<lparr>pm_node_models := nm, pm_model_workers := mw\<rparr>)"
      "nodes_ok ?c nm mw" and nm: "nm = (pm_node_models s1)
        [n := filter (\<lambda>x. x \<notin> set (conflicts ?m ws (pm_node_models s1 ! n))) (pm_node_models s1 ! n)]"
      using evict_models_ok [OF nk n] nm2 by metis
    define s3 where "s3 = ?s2\<lparr>pm_node_models := nm, pm_model_workers := mw\<rparr>"
    have s3: "engine_part s3 = engine_part s1" "pm_worker_stats s3 = pm_worker_stats s1" "pm_gpu_mem s3 = pm_gpu_mem s1"
      "pm_config s3 = ?c" "pm_node_models s3 = nm" "pm_in_prewarming s3 = pm_in_prewarming ?s2"
      "pm_model_workers s3 = mw"
      using c1 by (simp_all add: s3_def set_jobs_def)
    have js3: "jobs_of s3 k = (if k = n then stop_jobs mi ws (jobs_of s1 n) else jobs_of s1 k)" for k
      using jobs_of_set_jobs [of n "stop_jobs mi ws (jobs_of s1 n)" s1 k] s3(6) by (simp add: jobs_of_def)
    have wf1: "wf_group (pm_config s1) n ws" using ws c1 by simp
    note es = evicted_entries [OF t1 s3(5) [unfolded nm] js3 wf1 refl]
    have t3: "ctl_tables_ok s3" using ev(2) j2 s3 by (simp add: ctl_tables_ok_def)
    have z3: "sized s3" using s1(3) s3 c1 by (simp add: sized_def)
    have cl3: "claimed ?m ws s s3"
      using s3(1-3) s1(2) s0(1) z3 t3 r1 m1 es e1 True by (auto simp: claimed_def)
    show ?thesis
    proof (cases hit)
      case True
      then show ?thesis using start \<open>mc_use_unified_memory ?c\<close> ev(1) cl3 by (simp add: s3_def)
    next
      case False
      have "mc_use_unified_memory (pm_config s3)" using True s3(4) by simp
      moreover have "tensor_parallel_size mi * pipeline_parallel_size mi = int (length ws)"
        using len False by (simp add: mi_world_size_def)
      moreover have "\<forall>w \<in> set ws. w < length (pm_worker_stats s3)" using lt z3 s3(4) by (simp add: sized_def)
      ultimately obtain cs where pw: "prewarm_model_async ?m (tensor_parallel_size mi) (pipeline_parallel_size mi) ws [] s3
          = Inr (new_job ?m (tensor_parallel_size mi) (pipeline_parallel_size mi) ws (pm_world_counter s3),
              call cs (s3\<lparr>pm_world_counter := pm_world_counter s3 + 1\<rparr>))"
        using prewarm_model_async_ok by blast
      let ?j = "new_job ?m (tensor_parallel_size mi) (pipeline_parallel_size mi) ws (pm_world_counter s3)"
      define s4 where "s4 = call cs (s3\<lparr>pm_world_counter := pm_world_counter s3 + 1\<rparr>)"
      define s5 where "s5 = add_job n ?j s4"
      have s4: "pm_in_prewarming s4 = pm_in_prewarming s3" "jobs_of s4 k = jobs_of s3 k" "pm_node_models s4 = pm_node_models s3" for k
        by (simp_all add: s4_def call_def jobs_of_def)
      have s5: "engine_part s5 = engine_part s3" "pm_worker_stats s5 = pm_worker_stats s3" "pm_gpu_mem s5 = pm_gpu_mem s3"
        "pm_config s5 = ?c" "pm_node_models s5 = nm" "pm_model_workers s5 = mw"
        using s3 by (simp_all add: s5_def s4_def add_job_def set_jobs_def call_def)
      have js5: "jobs_of s5 k = (if k = n then jobs_of s3 n @ [?j] else jobs_of s3 k)" for k
        using s4(2) by (simp add: s5_def add_job_def)
      have "jobs_ok ?c (pm_in_prewarming s4)" using j2 s3(6) s4(1) by simp
      then have "jobs_ok ?c (pm_in_prewarming s5)"
        using jobs_ok_set_jobs [of ?c s4 "jobs_of s4 n @ [?j]" n] new_job_ok [OF ws tp]
        by (auto simp: s5_def add_job_def jobs_ok_iff)
      then have t5: "ctl_tables_ok s5" using ev(2) s5(4-6) by (simp add: ctl_tables_ok_def)
      have "entries s5 = insert (?m, ws) (entries s3)"
        using in_entries_add_job [of s5 s3 n ?j] js5 s5(5) s3(5) by (simp add: new_job_def ModelInfo_def)
      then have "claimed ?m ws s s5"
        using cl3 s5(1-4) s3(1,4) z3 t5 True by (auto simp: claimed_def sized_def)
      moreover have "claim_workers mi n ws hit s = Inr s5"
        using start True False ev(1) pw by (simp add: s3_def s5_def s4_def)
      ultimately show ?thesis by blast
    qed
  qed
qed

end
