(* ===== verification/Ctl_Inv.thy ===== *)
theory Ctl_Inv
  imports Ctl_Claim
begin

text \<open>
  The invariant of the concurrent controller. An \<open>owner\<close> of workers and of an engine process is
  a registered engine or a creation that one of the two threads has under way. \<open>own_ok\<close>: owners
  hold disjoint groups of workers, and exactly the held workers are marked. \<open>engines_ok\<close>: the
  tables of engines agree with each other and no engine holds more than \<open>BATCH_SIZE\<close> requests.
  \<open>counts_ok\<close>: \<open>num_in_creating_engines\<close> counts the creations that are planned or run.
  \<open>pids_ok\<close>: every owner has a running process of its own.
\<close>

datatype owner = Eng nat | Act | Scl

fun creation_workers :: "creation \<Rightarrow> nat list" where
  "creation_workers (Claiming direct mi n ws hit) = ws"
| "creation_workers (Addressing direct mi ws) = ws"
| "creation_workers (Starting direct mi ws port) = ws"
| "creation_workers (Registering direct mi ws pid) = ws"
| "creation_workers _ = []"

fun creation_pid :: "creation \<Rightarrow> nat option" where
  "creation_pid (Registering direct mi ws pid) = Some pid"
| "creation_pid _ = None"

fun creation_model :: "creation \<Rightarrow> string option" where
  "creation_model (Finding direct mi) = Some (model_name mi)"
| "creation_model (Claiming direct mi n ws hit) = Some (model_name mi)"
| "creation_model (Addressing direct mi ws) = Some (model_name mi)"
| "creation_model (Starting direct mi ws port) = Some (model_name mi)"
| "creation_model (Registering direct mi ws pid) = Some (model_name mi)"
| "creation_model (Informing ws pid i) = None"

definition flights :: "actor \<Rightarrow> scaler \<Rightarrow> owner \<Rightarrow> creation option" where
  "flights a b p = (case p of
     Act \<Rightarrow> (case a of Creating c m \<Rightarrow> Some c | _ \<Rightarrow> None)
   | Scl \<Rightarrow> (case b of Building c m k todo \<Rightarrow> Some c | _ \<Rightarrow> None)
   | Eng i \<Rightarrow> None)"

definition opt_workers :: "creation option \<Rightarrow> nat list" where
  "opt_workers c = (case c of None \<Rightarrow> [] | Some c \<Rightarrow> creation_workers c)"

definition opt_pid :: "creation option \<Rightarrow> nat option" where
  "opt_pid c = (case c of None \<Rightarrow> None | Some c \<Rightarrow> creation_pid c)"

fun claims :: "manager \<Rightarrow> (owner \<Rightarrow> creation option) \<Rightarrow> owner \<Rightarrow> nat list" where
  "claims s g (Eng i) = (case map_of (pm_engine_stats s) i of None \<Rightarrow> [] | Some e \<Rightarrow> es_workers e)"
| "claims s g Act = opt_workers (g Act)"
| "claims s g Scl = opt_workers (g Scl)"

fun pids :: "manager \<Rightarrow> (owner \<Rightarrow> creation option) \<Rightarrow> owner \<Rightarrow> nat option" where
  "pids s g (Eng i) = map_option (\<lambda>e. nat (es_prewarm_engine_id e)) (map_of (pm_engine_stats s) i)"
| "pids s g Act = opt_pid (g Act)"
| "pids s g Scl = opt_pid (g Scl)"

definition own_ok :: "manager \<Rightarrow> (owner \<Rightarrow> nat list) \<Rightarrow> bool" where
  "own_ok s cl \<longleftrightarrow> sized s \<and> ctl_tables_ok s
     \<and> (\<forall>p. cl p \<noteq> [] \<longrightarrow> (\<exists>n. wf_group (pm_config s) n (cl p)))
     \<and> (\<forall>p q. p \<noteq> q \<longrightarrow> set (cl p) \<inter> set (cl q) = {})
     \<and> (\<forall>w < num_workers (pm_config s). busy s w \<longleftrightarrow> (\<exists>p. w \<in> set (cl p)))"

definition models :: "manager \<Rightarrow> string set" where
  "models s = fst ` set (mc_model_info (pm_config s))"

definition engine_ok :: "manager \<Rightarrow> nat \<Rightarrow> engine_status \<Rightarrow> bool" where
  "engine_ok s i e \<longleftrightarrow> i < pm_engine_counter s \<and> es_id e = int i \<and> 0 \<le> es_num_reqs e \<and> es_num_reqs e \<le> BATCH_SIZE
     \<and> es_model e \<in> models s \<and> 0 \<le> es_prewarm_engine_id e \<and> es_workers e \<noteq> []
     \<and> (es_stopping e \<longrightarrow> (\<exists>st. pm_model_stats s (es_model e) = Some st \<and> int i \<in> set (ms_stopping_engines st)))"

definition engines_ok :: "manager \<Rightarrow> bool" where
  "engines_ok s \<longleftrightarrow> distinct (map fst (pm_engine_stats s))
     \<and> (\<forall>i e. map_of (pm_engine_stats s) i = Some e \<longrightarrow> engine_ok s i e)
     \<and> (\<forall>m. distinct (default_get (pm_model_engines s) m))
     \<and> (\<forall>m i. i \<in> set (default_get (pm_model_engines s) m) \<longleftrightarrow>
          (\<exists>e. map_of (pm_engine_stats s) i = Some e \<and> es_model e = m \<and> \<not> es_stopping e))
     \<and> (\<forall>m \<in> models s. pm_num_engines s m = Some (int (length (default_get (pm_model_engines s) m))))
     \<and> (\<forall>m \<in> models s. pm_model_stats s m \<noteq> None)"

definition counts_ok :: "manager \<Rightarrow> (string \<Rightarrow> nat) \<Rightarrow> bool" where
  "counts_ok s pend \<longleftrightarrow> (\<forall>m \<in> models s. pm_num_in_creating s m = Some (int (pend m)))"

definition engine_pool :: "manager \<Rightarrow> nat list" where
  "engine_pool s = pm_prewarmed_engines s @ (case pm_extend_future s of None \<Rightarrow> [] | Some ids \<Rightarrow> ids)"

definition pids_ok :: "manager \<Rightarrow> (owner \<Rightarrow> nat option) \<Rightarrow> bool" where
  "pids_ok s pd \<longleftrightarrow> distinct (engine_pool s) \<and> set (engine_pool s) \<inter> set (pm_running_engines s) = {}
     \<and> (\<forall>p \<in> set (engine_pool s) \<union> set (pm_running_engines s). p < pm_prewarm_engine_counter s)
     \<and> (\<forall>x p. pd x = Some p \<longrightarrow> p \<in> set (pm_running_engines s))
     \<and> (\<forall>x y p. pd x = Some p \<and> pd y = Some p \<longrightarrow> x = y)
     \<and> pm_extend_future s \<noteq> Some []"

definition data_ok :: "manager \<Rightarrow> bool" where
  "data_ok s \<longleftrightarrow> (mc_enable_kv_prewarm (pm_config s) \<longrightarrow> pm_engine_counter s \<le> length (pm_engine_data s))
     \<and> (\<forall>d \<in> set (pm_engine_data s). ed_total_blocks d \<noteq> None \<longrightarrow> ed_block_size d \<noteq> None)
     \<and> pm_data_future s \<noteq> Some 0"

text \<open>The program counters: what the threads carry from section to section.\<close>

definition model_ok :: "manager_config \<Rightarrow> model_info \<Rightarrow> bool" where
  "model_ok c mi \<longleftrightarrow> (\<exists>sz tp. map_of (mc_model_info c) (model_name mi) = Some (sz, tp)
     \<and> mi = ModelInfo (model_name mi) (int tp) 1)"

fun creation_ok :: "manager_config \<Rightarrow> creation \<Rightarrow> bool" where
  "creation_ok c (Finding direct mi) = model_ok c mi"
| "creation_ok c (Claiming direct mi n ws hit) =
     (model_ok c mi \<and> wf_group c n ws \<and> (\<not> hit \<longrightarrow> int (length ws) = mi_world_size mi))"
| "creation_ok c (Addressing direct mi ws) = (model_ok c mi \<and> ws \<noteq> [])"
| "creation_ok c (Starting direct mi ws port) = (model_ok c mi \<and> ws \<noteq> [])"
| "creation_ok c (Registering direct mi ws pid) = (model_ok c mi \<and> ws \<noteq> [])"
| "creation_ok c (Informing ws pid i) = True"

fun plan_count :: "(string \<times> nat) list \<Rightarrow> string \<Rightarrow> nat" where
  "plan_count [] m = 0"
| "plan_count ((m', k) # todo) m = (if m' = m then k else 0) + plan_count todo m"

definition creation_count :: "creation \<Rightarrow> string \<Rightarrow> nat" where
  "creation_count c m = (if creation_model c = Some m then 1 else 0)"

definition actor_count :: "actor \<Rightarrow> string \<Rightarrow> nat" where
  "actor_count a m = (case a of Serving \<Rightarrow> 0 | Creating c m' \<Rightarrow> creation_count c m | Giving_Up m' \<Rightarrow> if m' = m then 1 else 0)"

definition scaler_count :: "scaler \<Rightarrow> string \<Rightarrow> nat" where
  "scaler_count b m = (case b of Planned todo \<Rightarrow> plan_count todo m
     | Building c m' k todo \<Rightarrow> creation_count c m + plan_count ((m', k) # todo) m
     | Cancelling todo \<Rightarrow> plan_count todo m | _ \<Rightarrow> 0)"

definition actor_ok :: "manager_config \<Rightarrow> actor \<Rightarrow> bool" where
  "actor_ok c a = (case a of Serving \<Rightarrow> True
     | Creating cr m \<Rightarrow> creation_ok c cr \<and> creation_model cr \<in> {None, Some m}
     | Giving_Up m \<Rightarrow> m \<in> fst ` set (mc_model_info c))"

definition scaler_ok :: "manager \<Rightarrow> scaler \<Rightarrow> bool" where
  "scaler_ok s b = (case b of Sleeping \<Rightarrow> True
     | Planned todo \<Rightarrow> fst ` set todo \<subseteq> models s
     | Building cr m k todo \<Rightarrow> creation_ok (pm_config s) cr \<and> creation_model cr \<in> {None, Some m}
         \<and> m \<in> models s \<and> fst ` set todo \<subseteq> models s
     | Cancelling todo \<Rightarrow> fst ` set todo \<subseteq> models s
     | Checking is \<Rightarrow> distinct is \<and> set is \<subseteq> fst ` set (pm_engine_stats s))"

definition sched_fits :: "manager_config \<Rightarrow> sched \<Rightarrow> bool" where
  "sched_fits c sc \<longleftrightarrow> sc_model_info sc = mc_model_info c \<and> sc_num_servers sc = mc_num_servers c
     \<and> sc_num_gpu_per_server sc = mc_num_gpu_per_server c \<and> sc_disable_placement sc = mc_disable_placement c"

text \<open>The invariant of the tables and of the processes, apart from the program counters, and the whole.\<close>

definition mgr_inv :: "manager \<Rightarrow> (owner \<Rightarrow> creation option) \<Rightarrow> bool" where
  "mgr_inv s g \<longleftrightarrow> wf_conf (pm_config s) \<and> own_ok s (claims s g) \<and> engines_ok s \<and> pids_ok s (pids s g)
     \<and> data_ok s \<and> laminar (entries s)"

definition ctl_inv :: "system \<Rightarrow> bool" where
  "ctl_inv S \<longleftrightarrow> (let s = sy_mgr S in
     mgr_inv s (flights (sy_actor S) (sy_scaler S))
     \<and> counts_ok s (\<lambda>m. actor_count (sy_actor S) m + scaler_count (sy_scaler S) m)
     \<and> actor_ok (pm_config s) (sy_actor S) \<and> scaler_ok s (sy_scaler S)
     \<and> sched_fits (pm_config s) (sy_sched S))"

end
