(* ===== verification/Ctl_Requests.thy ===== *)
theory Ctl_Requests
  imports Ctl_Inv
begin

text \<open>
  The invariant under the operations on requests, under the end of draining, and under the
  sections that change only the tables of models and engines.
\<close>

subsection \<open>What the parts of the invariant depend on\<close>

text \<open>Everything that workers, copies and processes depend on stays.\<close>

definition reqs_only :: "manager \<Rightarrow> manager \<Rightarrow> bool" where
  "reqs_only s s' \<longleftrightarrow> pm_config s' = pm_config s \<and> pm_worker_stats s' = pm_worker_stats s \<and> pm_gpu_mem s' = pm_gpu_mem s
     \<and> pm_node_models s' = pm_node_models s \<and> pm_model_workers s' = pm_model_workers s
     \<and> pm_in_prewarming s' = pm_in_prewarming s \<and> claims s' = claims s \<and> pids s' = pids s
     \<and> map fst (pm_engine_stats s') = map fst (pm_engine_stats s) \<and> pm_engine_counter s' = pm_engine_counter s
     \<and> pm_running_engines s' = pm_running_engines s \<and> pm_prewarmed_engines s' = pm_prewarmed_engines s
     \<and> pm_extend_future s' = pm_extend_future s \<and> pm_prewarm_engine_counter s' = pm_prewarm_engine_counter s
     \<and> pm_engine_data s' = pm_engine_data s \<and> pm_data_future s' = pm_data_future s"

lemma reqs_only_refl [simp]: "reqs_only s s"
  by (simp add: reqs_only_def)

lemma reqs_only_trans: "reqs_only s s' \<Longrightarrow> reqs_only s' s'' \<Longrightarrow> reqs_only s s''"
  by (simp add: reqs_only_def)

lemma own_ok_cong:
  assumes "pm_config s' = pm_config s" "pm_worker_stats s' = pm_worker_stats s" "length (pm_gpu_mem s') = length (pm_gpu_mem s)"
    "pm_node_models s' = pm_node_models s" "pm_model_workers s' = pm_model_workers s" "pm_in_prewarming s' = pm_in_prewarming s"
  shows "own_ok s' cl = own_ok s cl"
  using assms by (simp add: own_ok_def sized_def ctl_tables_ok_def busy_def)

lemma engines_ok_cong:
  assumes "pm_config s' = pm_config s" "pm_engine_stats s' = pm_engine_stats s" "pm_engine_counter s' = pm_engine_counter s"
    "pm_model_engines s' = pm_model_engines s" "pm_model_stats s' = pm_model_stats s" "pm_num_engines s' = pm_num_engines s"
  shows "engines_ok s' = engines_ok s"
  using assms by (simp add: engines_ok_def engine_ok_def models_def)

lemma pids_ok_cong:
  assumes "pm_prewarmed_engines s' = pm_prewarmed_engines s" "pm_extend_future s' = pm_extend_future s"
    "pm_running_engines s' = pm_running_engines s" "pm_prewarm_engine_counter s' = pm_prewarm_engine_counter s"
  shows "pids_ok s' pd = pids_ok s pd"
  using assms by (simp add: pids_ok_def engine_pool_def)

lemma data_ok_cong:
  assumes "pm_config s' = pm_config s" "pm_engine_counter s' = pm_engine_counter s" "pm_engine_data s' = pm_engine_data s"
    "pm_data_future s' = pm_data_future s"
  shows "data_ok s' = data_ok s"
  using assms by (simp add: data_ok_def)

lemma models_cong: "pm_config s' = pm_config s \<Longrightarrow> models s' = models s"
  by (simp add: models_def)

lemma claims_cong: "pm_engine_stats s' = pm_engine_stats s \<Longrightarrow> claims s' = claims s"
proof (intro ext)
  fix g p
  assume "pm_engine_stats s' = pm_engine_stats s"
  then show "claims s' g p = claims s g p" by (cases p) simp_all
qed

lemma pids_cong: "pm_engine_stats s' = pm_engine_stats s \<Longrightarrow> pids s' = pids s"
proof (intro ext)
  fix g p
  assume "pm_engine_stats s' = pm_engine_stats s"
  then show "pids s' g p = pids s g p" by (cases p) simp_all
qed

lemma mgr_inv_reqs_only:
  assumes "mgr_inv s g" and k: "reqs_only s s'" and "engines_ok s'"
  shows "mgr_inv s' g"
proof -
  note d = k [unfolded reqs_only_def]
  have "own_ok s' (claims s' g) = own_ok s (claims s g)" using d own_ok_cong [of s' s "claims s g"] by simp
  moreover have "pids_ok s' (pids s' g) = pids_ok s (pids s g)" using d pids_ok_cong [of s' s "pids s g"] by simp
  moreover have "data_ok s' = data_ok s" using d data_ok_cong [of s' s] by simp
  moreover have "entries s' = entries s" using d entries_cong [of s' s] by simp
  moreover have "pm_config s' = pm_config s" using d by simp
  ultimately show ?thesis using assms by (simp add: mgr_inv_def)
qed

subsection \<open>Tables of models and engines\<close>

definition stats_ext :: "(string \<rightharpoonup> model_status) \<Rightarrow> (string \<rightharpoonup> model_status) \<Rightarrow> bool" where
  "stats_ext ms ms' \<longleftrightarrow> (\<forall>m st. ms m = Some st \<longrightarrow>
     (\<exists>st'. ms' m = Some st' \<and> set (ms_stopping_engines st) \<subseteq> set (ms_stopping_engines st')))"

lemma stats_ext_refl [simp]: "stats_ext ms ms"
  by (simp add: stats_ext_def)

lemma stats_ext_upd:
  "ms m = Some st \<Longrightarrow> set (ms_stopping_engines st) \<subseteq> set (ms_stopping_engines st') \<Longrightarrow> stats_ext ms (ms(m \<mapsto> st'))"
  by (auto simp: stats_ext_def)

lemma engines_ok_stats:
  assumes "engines_ok s" and "stats_ext (pm_model_stats s) ms"
  shows "engines_ok (s\<lparr>pm_model_stats := ms\<rparr>)"
proof -
  have "engine_ok (s\<lparr>pm_model_stats := ms\<rparr>) i e" if q: "engine_ok s i e" for i e
    using q assms(2) by (fastforce simp: engine_ok_def models_def stats_ext_def)
  moreover have "\<forall>m \<in> models s. ms m \<noteq> None" using assms by (fastforce simp: engines_ok_def stats_ext_def)
  ultimately show ?thesis using assms(1) by (simp add: engines_ok_def models_def)
qed

lemma engine_of_ok [simp]: "engine_of s i = Inr e \<longleftrightarrow> map_of (pm_engine_stats s) i = Some e"
  by (simp add: engine_of_def)

lemma map_of_set_engine [simp]:
  "map_of (pm_engine_stats (set_engine i e s)) = (map_of (pm_engine_stats s))(i \<mapsto> e)"
  by (simp add: set_engine_def update_conv')

lemma keys_set_engine:
  "map_of (pm_engine_stats s) i = Some e0 \<Longrightarrow> map fst (pm_engine_stats (set_engine i e s)) = map fst (pm_engine_stats s)"
proof -
  have "map_of xs i = Some e0 \<Longrightarrow> map fst (AList.update i e xs) = map fst xs" for xs :: "(nat \<times> engine_status) list"
    by (induction xs) auto
  then show "map_of (pm_engine_stats s) i = Some e0 \<Longrightarrow> ?thesis" by (simp add: set_engine_def)
qed

lemma set_engine_ok:
  assumes inv: "engines_ok s" and e0: "map_of (pm_engine_stats s) i = Some e0" and e: "engine_ok s i e"
    and same: "es_model e = es_model e0" "es_stopping e = es_stopping e0"
      "es_workers e = es_workers e0" "es_prewarm_engine_id e = es_prewarm_engine_id e0"
  shows "engines_ok (set_engine i e s)" "reqs_only s (set_engine i e s)"
proof -
  let ?s = "set_engine i e s"
  have f: "pm_model_engines ?s = pm_model_engines s" "pm_num_engines ?s = pm_num_engines s" "models ?s = models s"
    "pm_model_stats ?s = pm_model_stats s" "pm_engine_counter ?s = pm_engine_counter s"
    by (simp_all add: set_engine_def models_def)
  have "engine_ok ?s j d = engine_ok s j d" for j d by (simp add: engine_ok_def f)
  moreover have "(\<exists>d. map_of (pm_engine_stats ?s) j = Some d \<and> es_model d = m \<and> \<not> es_stopping d)
      \<longleftrightarrow> (\<exists>d. map_of (pm_engine_stats s) j = Some d \<and> es_model d = m \<and> \<not> es_stopping d)" for j m
    using e0 same by auto
  ultimately show "engines_ok ?s"
    using inv e keys_set_engine [OF e0, of e] unfolding engines_ok_def f by auto
  have "claims ?s g p = claims s g p" for g p using e0 same(3) by (cases p) auto
  then have "claims ?s = claims s" by (intro ext)
  moreover have "pids ?s g p = pids s g p" for g p using e0 same(4) by (cases p) auto
  then have "pids ?s = pids s" by (intro ext)
  ultimately show "reqs_only s ?s"
    using keys_set_engine [OF e0, of e] unfolding reqs_only_def by (simp add: set_engine_def)
qed

lemma add_reqs_ok:
  assumes inv: "engines_ok s" and e: "map_of (pm_engine_stats s) i = Some e"
    and k: "0 \<le> es_num_reqs e + k" "es_num_reqs e + k \<le> BATCH_SIZE"
  shows "\<exists>s'. add_reqs i k s = Inr s' \<and> engines_ok s' \<and> reqs_only s s' \<and> pm_num_in_creating s' = pm_num_in_creating s"
proof -
  let ?e = "e\<lparr>es_num_reqs := es_num_reqs e + k\<rparr>"
  have "engine_ok s i e" using inv e by (auto simp: engines_ok_def)
  then have "engine_ok s i ?e" using k by (simp add: engine_ok_def)
  from set_engine_ok [OF inv e this] show ?thesis
    using e by (intro exI [of _ "set_engine i ?e s"]) (simp add: add_reqs_def engine_of_def, simp add: set_engine_def)
qed

lemma update_model_req_ok:
  assumes "engines_ok s" and "m \<in> models s"
  shows "\<exists>s'. update_model_req en m k s = Inr s' \<and> engines_ok s' \<and> reqs_only s s'
    \<and> pm_num_in_creating s' = pm_num_in_creating s \<and> pm_engine_stats s' = pm_engine_stats s
    \<and> pm_model_engines s' = pm_model_engines s"
proof -
  obtain st where st: "pm_model_stats s m = Some st" using assms by (auto simp: engines_ok_def)
  then obtain st' where r: "update_model_req en m k s = Inr (s\<lparr>pm_model_stats := (pm_model_stats s)(m \<mapsto> st')\<rparr>)"
    and same: "ms_stopping_engines st' = ms_stopping_engines st"
    by (simp add: update_model_req_def Let_def)
  let ?s = "s\<lparr>pm_model_stats := (pm_model_stats s)(m \<mapsto> st')\<rparr>"
  have "engines_ok ?s"
    using engines_ok_stats [OF assms(1)] stats_ext_upd [of "pm_model_stats s" m st st'] st same by simp
  then show ?thesis using r claims_cong [of ?s s] pids_cong [of ?s s] by (simp add: reqs_only_def)
qed

subsection \<open>Scheduling a request\<close>

lemma least_loaded_ok:
  assumes "\<forall>i \<in> set is. map_of (pm_engine_stats s) i \<noteq> None"
  shows "\<exists>r. least_loaded s n b is = Inr r \<and> (r = b \<or> (\<exists>i \<in> set is. r = Some i
    \<and> (\<exists>e. map_of (pm_engine_stats s) i = Some e \<and> es_num_reqs e < n)))"
  using assms
proof (induction "is" arbitrary: n b)
  case (Cons i "is")
  obtain e where e: "map_of (pm_engine_stats s) i = Some e" using Cons.prems by auto
  show ?case
  proof (cases "es_num_reqs e < n")
    case True
    obtain r where r: "least_loaded s (es_num_reqs e) (Some i) is = Inr r"
      "r = Some i \<or> (\<exists>i' \<in> set is. r = Some i' \<and> (\<exists>e'. map_of (pm_engine_stats s) i' = Some e' \<and> es_num_reqs e' < es_num_reqs e))"
      using Cons.IH [of "es_num_reqs e" "Some i"] Cons.prems by auto
    then show ?thesis using e True by (force simp: engine_of_def)
  next
    case False
    then show ?thesis using Cons.IH [of n b] Cons.prems e by (auto simp: engine_of_def)
  qed
qed simp

lemma engines_of_model:
  assumes "engines_ok s" and "i \<in> set (default_get (pm_model_engines s) m)"
  shows "\<exists>e. map_of (pm_engine_stats s) i = Some e \<and> es_model e = m \<and> \<not> es_stopping e \<and> engine_ok s i e"
proof -
  have me: "\<forall>m i. i \<in> set (default_get (pm_model_engines s) m) \<longleftrightarrow>
      (\<exists>e. map_of (pm_engine_stats s) i = Some e \<and> es_model e = m \<and> \<not> es_stopping e)"
    and ok: "\<forall>i e. map_of (pm_engine_stats s) i = Some e \<longrightarrow> engine_ok s i e"
    using assms(1) unfolding engines_ok_def by blast+
  show ?thesis using me ok assms(2) by blast
qed

definition schedule_effect :: "string \<Rightarrow> schedule_answer \<Rightarrow> manager \<Rightarrow> manager \<Rightarrow> bool" where
  "schedule_effect m r s s' \<longleftrightarrow> engines_ok s' \<and> reqs_only s s' \<and>
     (if r = Create then m \<in> models s \<and> (\<exists>k. pm_num_in_creating s m = Some k
        \<and> pm_num_in_creating s' = (pm_num_in_creating s)(m \<mapsto> k + 1))
      else pm_num_in_creating s' = pm_num_in_creating s)"

lemma schedule_request_ok:
  assumes inv: "engines_ok s" and cnt: "counts_ok s pend"
  shows "\<exists>r s'. schedule_request en rid m s = Inr (r, s') \<and> schedule_effect m r s s'"
proof (cases "m \<in> models s")
  case False
  then show ?thesis using inv by (simp add: schedule_request_def models_def schedule_effect_def)
next
  case True
  have "\<exists>s1. (if rid \<in> pm_recorded_reqs s then Inr s else bind_r (update_model_req en m 1 s) (\<lambda>s.
        Inr (s\<lparr>pm_recorded_reqs := insert rid (pm_recorded_reqs s)\<rparr>))) = Inr s1 \<and> engines_ok s1 \<and> reqs_only s s1
      \<and> pm_num_in_creating s1 = pm_num_in_creating s"
  proof (cases "rid \<in> pm_recorded_reqs s")
    case False
    obtain s1 where s1: "update_model_req en m 1 s = Inr s1" "engines_ok s1" "reqs_only s s1"
      "pm_num_in_creating s1 = pm_num_in_creating s"
      using update_model_req_ok [OF inv True, of en 1] by blast
    let ?s = "s1\<lparr>pm_recorded_reqs := insert rid (pm_recorded_reqs s1)\<rparr>"
    have "engines_ok ?s" using s1(2) by (subst engines_ok_cong [of _ s1]) simp_all
    moreover have "reqs_only s ?s" using s1(3) claims_cong [of ?s s1] pids_cong [of ?s s1] by (simp add: reqs_only_def)
    ultimately show ?thesis using s1 False by simp
  qed (use inv in simp)
  then obtain s1 where s1: "(if rid \<in> pm_recorded_reqs s then Inr s else bind_r (update_model_req en m 1 s) (\<lambda>s.
        Inr (s\<lparr>pm_recorded_reqs := insert rid (pm_recorded_reqs s)\<rparr>))) = Inr s1"
    and ok1: "engines_ok s1" "reqs_only s s1" "pm_num_in_creating s1 = pm_num_in_creating s" by blast
  have m1: "m \<in> models s1" using True ok1(2) by (simp add: reqs_only_def models_def)
  have ids: "\<forall>i \<in> set (default_get (pm_model_engines s1) m). map_of (pm_engine_stats s1) i \<noteq> None"
    using engines_of_model [OF ok1(1)] by blast
  obtain best where best: "least_loaded s1 BATCH_SIZE None (default_get (pm_model_engines s1) m) = Inr best"
    "best = None \<or> (\<exists>i e. best = Some i \<and> map_of (pm_engine_stats s1) i = Some e \<and> es_num_reqs e < BATCH_SIZE)"
    using least_loaded_ok [OF ids] by blast
  have mm: "m \<in> fst ` set (mc_model_info (pm_config s))" using True by (simp add: models_def)
  have run: "schedule_request en rid m s = (case best of
            Some i \<Rightarrow> bind_r (add_reqs i 1 s1) (\<lambda>s. Inr (Served i, s))
          | None \<Rightarrow> bind_r (get_key (pm_num_in_creating s1) m) (\<lambda>k.
              if 0 < k then Inr (Wait, s1)
              else Inr (Create, s1\<lparr>pm_num_in_creating := (pm_num_in_creating s1)(m \<mapsto> k + 1)\<rparr>)))"
    using mm s1 best(1) by (simp add: schedule_request_def)
  from best(2) show ?thesis
  proof
    assume b: "best = None"
    obtain k where k: "pm_num_in_creating s m = Some k" using cnt True by (auto simp: counts_ok_def)
    show ?thesis
    proof (cases "0 < k")
      case True
      then show ?thesis using run b k ok1 by (simp add: schedule_effect_def)
    next
      case False
      let ?s = "s1\<lparr>pm_num_in_creating := (pm_num_in_creating s1)(m \<mapsto> k + 1)\<rparr>"
      have "engines_ok ?s" using ok1(1) by (subst engines_ok_cong [of _ s1]) simp_all
      moreover have "reqs_only s ?s" using ok1(2) claims_cong [of ?s s1] pids_cong [of ?s s1] by (simp add: reqs_only_def)
      ultimately show ?thesis using run b k ok1(3) False True by (simp add: schedule_effect_def)
    qed
  next
    assume "\<exists>i e. best = Some i \<and> map_of (pm_engine_stats s1) i = Some e \<and> es_num_reqs e < BATCH_SIZE"
    then obtain i e where b: "best = Some i" and e: "map_of (pm_engine_stats s1) i = Some e" "es_num_reqs e < BATCH_SIZE"
      by blast
    have "0 \<le> es_num_reqs e" using ok1(1) e(1) by (auto simp: engines_ok_def engine_ok_def)
    then obtain s2 where s2: "add_reqs i 1 s1 = Inr s2" "engines_ok s2" "reqs_only s1 s2"
      "pm_num_in_creating s2 = pm_num_in_creating s1"
      using add_reqs_ok [OF ok1(1) e(1), of 1] e(2) by auto
    then show ?thesis using run b ok1 reqs_only_trans [OF ok1(2) s2(3)] by (simp add: schedule_effect_def)
  qed
qed

text \<open>
  The invariant under the completion of a request and under the autoscaler: stopping engines and
  planning new ones succeeds, and every planned creation is counted.
\<close>

lemma compl_request_ok:
  assumes inv: "engines_ok s" and sv: "serves i s"
  shows "\<exists>s'. compl_request en i s = Inr s' \<and> engines_ok s' \<and> reqs_only s s' \<and> pm_num_in_creating s' = pm_num_in_creating s"
proof -
  obtain e where e: "map_of (pm_engine_stats s) i = Some e" "0 < es_num_reqs e"
    using sv by (auto simp: serves_def split: option.splits)
  have ok: "engine_ok s i e" using inv e(1) by (auto simp: engines_ok_def)
  then obtain s1 where s1: "update_model_req en (es_model e) (- 1) s = Inr s1" "engines_ok s1" "reqs_only s s1"
      "pm_num_in_creating s1 = pm_num_in_creating s" "pm_engine_stats s1 = pm_engine_stats s"
    using update_model_req_ok [OF inv, of "es_model e" en "- 1"] by (auto simp: engine_ok_def)
  have e1: "map_of (pm_engine_stats s1) i = Some e" using e(1) s1(5) by simp
  have "es_num_reqs e \<le> BATCH_SIZE" using ok by (simp add: engine_ok_def)
  then obtain s2 where s2: "add_reqs i (- 1) s1 = Inr s2" "engines_ok s2" "reqs_only s1 s2"
      "pm_num_in_creating s2 = pm_num_in_creating s1"
    using add_reqs_ok [OF s1(2) e1, of "- 1"] e(2) by auto
  have "compl_request en i s = Inr s2" using e(1) s1(1) s2(1) by (simp add: compl_request_def engine_of_def)
  then show ?thesis using s2 s1(4) reqs_only_trans [OF s1(3) s2(3)] by simp
qed

subsection \<open>Stopping engines\<close>

lemma stoppable_ok:
  assumes "\<forall>i \<in> set is. map_of (pm_engine_stats s) i \<noteq> None" and "distinct is"
  shows "\<exists>es. stoppable now s is = Inr es \<and> distinct (map fst es)
    \<and> (\<forall>(i, e) \<in> set es. i \<in> set is \<and> map_of (pm_engine_stats s) i = Some e)"
  using assms
proof (induction "is")
  case (Cons i "is")
  obtain e where e: "map_of (pm_engine_stats s) i = Some e" using Cons.prems by auto
  obtain es where es: "stoppable now s is = Inr es" "distinct (map fst es)"
      "\<forall>(i, e) \<in> set es. i \<in> set is \<and> map_of (pm_engine_stats s) i = Some e"
    using Cons.IH Cons.prems by auto
  have "i \<notin> fst ` set es" using es(3) Cons.prems(2) by auto
  then show ?case using e es by (auto simp: engine_of_def)
qed simp

lemma length_removeAll_distinct: "distinct xs \<Longrightarrow> x \<in> set xs \<Longrightarrow> int (length (removeAll x xs)) = int (length xs) - 1"
proof (induction xs)
  case (Cons y xs)
  then show ?case by (cases "x = y") (auto simp: removeAll_id)
qed simp

lemma begin_stop_ok:
  assumes inv: "engines_ok s" and e: "map_of (pm_engine_stats s) i = Some e" and m: "es_model e = m" "\<not> es_stopping e"
  shows "\<exists>s'. begin_stop m (i, e) s = Inr s' \<and> engines_ok s' \<and> reqs_only s s'
    \<and> pm_num_in_creating s' = pm_num_in_creating s
    \<and> (\<forall>j. j \<noteq> i \<longrightarrow> map_of (pm_engine_stats s') j = map_of (pm_engine_stats s) j)"
proof -
  let ?e = "e\<lparr>es_stopping := True\<rparr>" and ?is = "default_get (pm_model_engines s) m"
  have ok: "engine_ok s i e" using inv e by (auto simp: engines_ok_def)
  have mm: "m \<in> models s" using ok m by (simp add: engine_ok_def)
  obtain st where st: "pm_model_stats s m = Some st" using inv mm by (auto simp: engines_ok_def)
  have ne: "pm_num_engines s m = Some (int (length ?is))" using inv mm by (simp add: engines_ok_def)
  have me: "\<And>j m. j \<in> set (default_get (pm_model_engines s) m) \<longleftrightarrow>
      (\<exists>e. map_of (pm_engine_stats s) j = Some e \<and> es_model e = m \<and> \<not> es_stopping e)"
    using inv unfolding engines_ok_def by blast
  have i: "i \<in> set ?is" using me e m by blast
  have dm: "\<forall>m. distinct (default_get (pm_model_engines s) m)" using inv unfolding engines_ok_def by blast
  let ?st = "st\<lparr>ms_stopping_engines := set_add (int i) (ms_stopping_engines st)\<rparr>"
  define s' where "s' = (set_engine i ?e s)\<lparr>pm_model_engines := (pm_model_engines s)(m \<mapsto> removeAll i ?is),
     pm_num_engines := (pm_num_engines s)(m \<mapsto> int (length ?is) - 1),
     pm_model_stats := (pm_model_stats s)(m \<mapsto> ?st)\<rparr>"
  have run: "begin_stop m (i, e) s = Inr s'"
    using i ne st by (simp add: begin_stop_def set_remove_def add_count_def s'_def Let_def set_engine_def)
  have st': "map_of (pm_engine_stats s') = (map_of (pm_engine_stats s))(i \<mapsto> ?e)"
    using map_of_set_engine [of i ?e s] by (simp add: s'_def)
  have keys: "map fst (pm_engine_stats s') = map fst (pm_engine_stats s)"
    using keys_set_engine [OF e, of ?e] by (simp add: s'_def)
  have f: "pm_model_engines s' = (pm_model_engines s)(m \<mapsto> removeAll i ?is)" "models s' = models s"
    "pm_engine_counter s' = pm_engine_counter s" "pm_num_engines s' = (pm_num_engines s)(m \<mapsto> int (length ?is) - 1)"
    "pm_model_stats s' = (pm_model_stats s)(m \<mapsto> ?st)"
    by (simp_all add: s'_def set_engine_def models_def)
  have me': "default_get (pm_model_engines s') m' = (if m' = m then removeAll i ?is else default_get (pm_model_engines s) m')" for m'
    unfolding f(1) by (simp add: default_get_def)
  have sx: "stats_ext (pm_model_stats s) (pm_model_stats s')"
    unfolding f(5) using st by (intro stats_ext_upd) (auto simp: set_add_def)
  have eo: "engine_ok s' j d" if q: "map_of (pm_engine_stats s') j = Some d" for j d
  proof (cases "j = i")
    case True
    then have "d = ?e" using q st' by simp
    then show ?thesis using True ok m(1) by (simp add: engine_ok_def f set_add_def)
  next
    case False
    then have "engine_ok s j d" using q st' inv by (auto simp: engines_ok_def)
    then show ?thesis using sx by (fastforce simp: engine_ok_def f(2,3) stats_ext_def)
  qed
  have "j \<in> set (default_get (pm_model_engines s') m') \<longleftrightarrow>
      (\<exists>d. map_of (pm_engine_stats s') j = Some d \<and> es_model d = m' \<and> \<not> es_stopping d)" for j m'
    unfolding me' st' using me [of j m'] e m by auto
  moreover have "\<forall>m. distinct (default_get (pm_model_engines s') m)" using dm by (simp add: me' distinct_removeAll)
  moreover have "\<forall>m \<in> models s'. pm_num_engines s' m = Some (int (length (default_get (pm_model_engines s') m)))"
    using inv i dm unfolding me' f(2,4) by (simp add: engines_ok_def length_removeAll_distinct)
  moreover have "\<forall>m \<in> models s'. pm_model_stats s' m \<noteq> None" using inv unfolding f(2,5) by (simp add: engines_ok_def)
  moreover have "distinct (map fst (pm_engine_stats s'))" using inv keys by (simp add: engines_ok_def)
  ultimately have "engines_ok s'" using eo unfolding engines_ok_def by blast
  moreover have "reqs_only s s'"
  proof -
    have "claims s' g p = claims s g p" for g p using e by (cases p) (simp_all add: st')
    then have "claims s' = claims s" by (intro ext)
    moreover have "pids s' g p = pids s g p" for g p using e by (cases p) (simp_all add: st')
    then have "pids s' = pids s" by (intro ext)
    ultimately show ?thesis using keys by (simp add: reqs_only_def s'_def set_engine_def)
  qed
  moreover have "pm_num_in_creating s' = pm_num_in_creating s" by (simp add: s'_def set_engine_def)
  ultimately show ?thesis using run st' by auto
qed

lemma begin_stops_ok:
  assumes "engines_ok s" and "distinct (map fst es)"
    and "\<forall>(i, e) \<in> set es. map_of (pm_engine_stats s) i = Some e \<and> es_model e = m \<and> \<not> es_stopping e"
  shows "\<exists>s'. fold_r (begin_stop m) es s = Inr s' \<and> engines_ok s' \<and> reqs_only s s' \<and> pm_num_in_creating s' = pm_num_in_creating s"
  using assms
proof (induction es arbitrary: s)
  case (Cons x es)
  obtain i e where x: "x = (i, e)" by (cases x)
  obtain s1 where s1: "begin_stop m (i, e) s = Inr s1" "engines_ok s1" "reqs_only s s1"
      "pm_num_in_creating s1 = pm_num_in_creating s" "\<forall>j. j \<noteq> i \<longrightarrow> map_of (pm_engine_stats s1) j = map_of (pm_engine_stats s) j"
    using begin_stop_ok [OF Cons.prems(1), of i e m] Cons.prems(3) x by auto
  have "\<forall>(j, d) \<in> set es. map_of (pm_engine_stats s1) j = Some d \<and> es_model d = m \<and> \<not> es_stopping d"
  proof (intro ballI, clarify)
    fix j d assume jd: "(j, d) \<in> set es"
    have "i \<notin> fst ` set es" using Cons.prems(2) x by simp
    then have "j \<noteq> i" using imageI [OF jd, of fst] by auto
    moreover have "map_of (pm_engine_stats s) j = Some d \<and> es_model d = m \<and> \<not> es_stopping d"
      using bspec [OF Cons.prems(3), of "(j, d)"] jd by simp
    ultimately show "map_of (pm_engine_stats s1) j = Some d \<and> es_model d = m \<and> \<not> es_stopping d"
      using s1(5) by simp
  qed
  then obtain s2 where "fold_r (begin_stop m) es s1 = Inr s2" "engines_ok s2" "reqs_only s1 s2"
      "pm_num_in_creating s2 = pm_num_in_creating s1"
    using Cons.IH [OF s1(2)] Cons.prems(2) by auto
  then show ?case using s1 x reqs_only_trans by auto
qed simp

lemma scale_down_ok:
  assumes inv: "engines_ok s"
  shows "\<exists>s'. scale_down en m k s = Inr s' \<and> engines_ok s' \<and> reqs_only s s' \<and> pm_num_in_creating s' = pm_num_in_creating s"
proof -
  let ?is = "default_get (pm_model_engines s) m"
  have ids: "\<forall>i \<in> set ?is. map_of (pm_engine_stats s) i \<noteq> None" using engines_of_model [OF inv] by blast
  have d: "distinct ?is" using inv by (simp add: engines_ok_def)
  obtain es where es: "stoppable (en_time en) s ?is = Inr es" "distinct (map fst es)"
      "\<forall>(i, e) \<in> set es. i \<in> set ?is \<and> map_of (pm_engine_stats s) i = Some e"
    using stoppable_ok [OF ids d] by blast
  let ?es = "sort_key (\<lambda>ie. es_num_reqs (snd ie)) es"
  have "mset (map fst ?es) = mset (map fst es)" by (simp only: mset_map mset_sort)
  then have ds: "distinct (map fst ?es)" using es(2) mset_eq_imp_distinct_iff by blast
  then have "distinct (map fst (take (nat k) ?es))" by (simp add: take_map [symmetric] distinct_take)
  moreover have "\<forall>(i, e) \<in> set (take (nat k) ?es). map_of (pm_engine_stats s) i = Some e \<and> es_model e = m \<and> \<not> es_stopping e"
  proof safe
    fix i e assume "(i, e) \<in> set (take (nat k) ?es)"
    then have "(i, e) \<in> set es" by (auto dest: in_set_takeD)
    then have ie: "i \<in> set ?is" "map_of (pm_engine_stats s) i = Some e" using es(3) by auto
    then show "map_of (pm_engine_stats s) i = Some e" "es_model e = m" "es_stopping e \<Longrightarrow> False"
      using engines_of_model [OF inv ie(1)] by auto
  qed
  ultimately show ?thesis using begin_stops_ok [OF inv, of "take (nat k) ?es" m] es(1) by (simp add: scale_down_def)
qed

subsection \<open>One round of the autoscaler\<close>

definition scaled :: "(string \<times> nat) list \<Rightarrow> manager \<Rightarrow> (string \<times> nat) list \<Rightarrow> manager \<Rightarrow> bool" where
  "scaled todo s todo' s' \<longleftrightarrow> engines_ok s' \<and> reqs_only s s' \<and> fst ` set todo' \<subseteq> fst ` set todo \<union> models s
     \<and> (\<forall>pend. counts_ok s (\<lambda>m. pend m + plan_count todo m) \<longrightarrow> counts_ok s' (\<lambda>m. pend m + plan_count todo' m))"

lemma plan_count_append [simp]: "plan_count (xs @ ys) m = plan_count xs m + plan_count ys m"
  by (induction xs m rule: plan_count.induct) simp_all

lemma counts_ok_cong:
  "pm_config s' = pm_config s \<Longrightarrow> pm_num_in_creating s' = pm_num_in_creating s \<Longrightarrow> counts_ok s' pend = counts_ok s pend"
  by (simp add: counts_ok_def models_def)

lemma reqs_only_config: "reqs_only s s' \<Longrightarrow> pm_config s' = pm_config s"
  by (simp add: reqs_only_def)

lemma autoscale_model_ok:
  assumes inv: "engines_ok s" and m: "m \<in> models s" and nc: "pm_num_in_creating s m \<noteq> None"
  shows "\<exists>todo' s'. autoscale_model en m (todo, s) = Inr (todo', s') \<and> scaled todo s todo' s'"
proof -
  obtain st where st: "pm_model_stats s m = Some st" using inv m by (auto simp: engines_ok_def)
  obtain ne where ne: "pm_num_engines s m = Some ne" using inv m by (auto simp: engines_ok_def)
  obtain c where c: "pm_num_in_creating s m = Some c" using nc by auto
  obtain load stamps where gl: "get_avg_load (ms_load_stamp st) (en_time en) = (load, stamps)" by fastforce
  let ?s = "s\<lparr>pm_model_stats := (pm_model_stats s)(m \<mapsto> st\<lparr>ms_load_stamp := stamps\<rparr>)\<rparr>"
  have ok: "engines_ok ?s" using engines_ok_stats [OF inv] stats_ext_upd [of "pm_model_stats s" m st] st by simp
  have ro: "reqs_only s ?s" using claims_cong [of ?s s] pids_cong [of ?s s] by (simp add: reqs_only_def)
  have nc1: "pm_num_in_creating ?s = pm_num_in_creating s" by simp
  have same: "scaled todo s todo s'" if q: "engines_ok s'" "reqs_only s s'" "pm_num_in_creating s' = pm_num_in_creating s" for s'
    using q counts_ok_cong [OF reqs_only_config [OF q(2)] q(3)] by (simp add: scaled_def)
  let ?kd = "ne + c - engines_needed load SCALE_LOWER_BOUND" and ?ku = "engines_needed load SCALE_UPPER_BOUND - (ne + c)"
  obtain s2 where s2: "scale_down en m ?kd ?s = Inr s2" "engines_ok s2" "reqs_only ?s s2"
      "pm_num_in_creating s2 = pm_num_in_creating ?s"
    using scale_down_ok [OF ok] by blast
  let ?s3 = "?s\<lparr>pm_num_in_creating := (pm_num_in_creating s)(m \<mapsto> c + ?ku)\<rparr>"
  have up: "scaled todo s (todo @ [(m, nat ?ku)]) ?s3" if q: "0 < ?ku"
  proof -
    have "engines_ok ?s3" using ok by (subst engines_ok_cong [of _ ?s]) simp_all
    moreover have "reqs_only s ?s3" using claims_cong [of ?s3 s] pids_cong [of ?s3 s] by (simp add: reqs_only_def)
    ultimately show ?thesis using q c m by (auto simp: scaled_def counts_ok_def models_def)
  qed
  show ?thesis
    using st ne c gl s2(1) same [OF ok ro nc1] same [OF s2(2) reqs_only_trans [OF ro s2(3)]] s2(4) up
    by (auto simp: autoscale_model_def Let_def)
qed

lemma autoscale_fold_ok:
  assumes "set ms \<subseteq> models s" and "engines_ok s" and "counts_ok s (\<lambda>m. pend m + plan_count todo m)"
  shows "\<exists>todo' s'. fold_r (autoscale_model en) ms (todo, s) = Inr (todo', s') \<and> engines_ok s' \<and> reqs_only s s'
    \<and> fst ` set todo' \<subseteq> fst ` set todo \<union> models s \<and> counts_ok s' (\<lambda>m. pend m + plan_count todo' m)"
  using assms
proof (induction ms arbitrary: todo s)
  case Nil
  then show ?case by auto
next
  case (Cons m ms)
  have "m \<in> models s" "pm_num_in_creating s m \<noteq> None" using Cons.prems by (auto simp: counts_ok_def)
  then obtain t1 s1 where s1: "autoscale_model en m (todo, s) = Inr (t1, s1)" "scaled todo s t1 s1"
    using autoscale_model_ok [OF Cons.prems(2)] by blast
  have mo: "models s1 = models s" using s1(2) reqs_only_config models_cong unfolding scaled_def by metis
  have c1: "counts_ok s1 (\<lambda>m. pend m + plan_count t1 m)" using s1(2) Cons.prems(3) unfolding scaled_def by blast
  obtain t2 s2 where s2: "fold_r (autoscale_model en) ms (t1, s1) = Inr (t2, s2)" "engines_ok s2" "reqs_only s1 s2"
      "fst ` set t2 \<subseteq> fst ` set t1 \<union> models s1" "counts_ok s2 (\<lambda>m. pend m + plan_count t2 m)"
    using Cons.IH [of s1 t1] Cons.prems(1) mo c1 s1(2) unfolding scaled_def by auto
  have "fst ` set t2 \<subseteq> fst ` set todo \<union> models s" using s2(4) mo s1(2) unfolding scaled_def by blast
  then show ?case using s1 s2 reqs_only_trans [of s s1 s2] by (auto simp: scaled_def)
qed

lemma autoscale_ok:
  assumes "engines_ok s" and "counts_ok s pend"
  shows "\<exists>todo s'. autoscale en s = Inr (todo, s') \<and> engines_ok s' \<and> reqs_only s s'
    \<and> fst ` set todo \<subseteq> models s \<and> counts_ok s' (\<lambda>m. pend m + plan_count todo m)"
  using autoscale_fold_ok [of "map fst (mc_model_info (pm_config s))" s pend "[]"] assms
  by (simp add: autoscale_def models_def)

lemma cancel_creation_ok:
  assumes inv: "engines_ok s" and m: "m \<in> models s" and c: "counts_ok s pend" and k: "k \<le> pend m"
  shows "\<exists>s'. cancel_creation m k s = Inr s' \<and> engines_ok s' \<and> reqs_only s s' \<and> counts_ok s' (pend(m := pend m - k))"
proof -
  have n: "pm_num_in_creating s m = Some (int (pend m))" using c m by (simp add: counts_ok_def)
  let ?s = "s\<lparr>pm_num_in_creating := (pm_num_in_creating s)(m \<mapsto> int (pend m) - int k)\<rparr>"
  have "cancel_creation m k s = Inr ?s" using n by (simp add: cancel_creation_def add_count_def)
  moreover have "engines_ok ?s" using inv by (subst engines_ok_cong [of _ s]) simp_all
  moreover have "reqs_only s ?s" using claims_cong [of ?s s] pids_cong [of ?s s] by (simp add: reqs_only_def)
  moreover have "counts_ok ?s (pend(m := pend m - k))" using c k by (auto simp: counts_ok_def models_def)
  ultimately show ?thesis by blast
qed

lemma cancel_all_ok:
  assumes "engines_ok s" and "fst ` set todo \<subseteq> models s" and "counts_ok s (\<lambda>m. pend m + plan_count todo m)"
  shows "\<exists>s'. fold_r (\<lambda>(m, k). cancel_creation m k) todo s = Inr s' \<and> engines_ok s' \<and> reqs_only s s' \<and> counts_ok s' pend"
  using assms
proof (induction todo arbitrary: s)
  case (Cons x todo)
  obtain m k where x: "x = (m, k)" by (cases x)
  obtain s1 where s1: "cancel_creation m k s = Inr s1" "engines_ok s1" "reqs_only s s1"
      "counts_ok s1 ((\<lambda>m. pend m + plan_count (x # todo) m)(m := pend m + plan_count (x # todo) m - k))"
    using cancel_creation_ok [OF Cons.prems(1) _ Cons.prems(3), of m k] Cons.prems(2) x by auto
  have "(\<lambda>m. pend m + plan_count (x # todo) m)(m := pend m + plan_count (x # todo) m - k) = (\<lambda>m. pend m + plan_count todo m)"
    using x by auto
  then have c1: "counts_ok s1 (\<lambda>m. pend m + plan_count todo m)" using s1(4) by simp
  have "fst ` set todo \<subseteq> models s1" using Cons.prems(2) models_cong [OF reqs_only_config [OF s1(3)]] by auto
  then obtain s2 where "fold_r (\<lambda>(m, k). cancel_creation m k) todo s1 = Inr s2" "engines_ok s2" "reqs_only s1 s2" "counts_ok s2 pend"
    using Cons.IH [OF s1(2) _ c1] by blast
  then show ?case using s1 x reqs_only_trans by auto
qed simp

end
