(* ===== verification/Ctl_Advance.thy ===== *)
theory Ctl_Advance
  imports Ctl_Requests
begin

text \<open>
  The invariant under the sections of \<open>create_engine\<close>: every section of a creation succeeds, and
  the workers and the process that it takes belong to it alone until it hands them to the engine
  that it registers.
\<close>

lemma claims_upd: "p = Act \<or> p = Scl \<Longrightarrow> claims s (g(p := c)) = (claims s g)(p := opt_workers c)"
proof (intro ext)
  fix q
  assume "p = Act \<or> p = Scl"
  then show "claims s (g(p := c)) q = ((claims s g)(p := opt_workers c)) q" by (cases q) auto
qed

lemma pids_upd: "p = Act \<or> p = Scl \<Longrightarrow> pids s (g(p := c)) = (pids s g)(p := opt_pid c)"
proof (intro ext)
  fix q
  assume "p = Act \<or> p = Scl"
  then show "pids s (g(p := c)) q = ((pids s g)(p := opt_pid c)) q" by (cases q) auto
qed

lemma claims_own: "p = Act \<or> p = Scl \<Longrightarrow> claims s g p = opt_workers (g p)"
  by auto

lemma pids_own: "p = Act \<or> p = Scl \<Longrightarrow> pids s g p = opt_pid (g p)"
  by auto

lemma mgr_inv_same:
  assumes "mgr_inv s g" and "p = Act \<or> p = Scl" and "opt_workers c = opt_workers (g p)" and "opt_pid c = opt_pid (g p)"
  shows "mgr_inv s (g(p := c))"
proof -
  have "(claims s g)(p := opt_workers c) = claims s g" using claims_own [OF assms(2), of s g] assms(3) by (intro fun_upd_idem) simp
  moreover have "(pids s g)(p := opt_pid c) = pids s g" using pids_own [OF assms(2), of s g] assms(4) by (intro fun_upd_idem) simp
  ultimately show ?thesis using assms(1) by (simp add: mgr_inv_def claims_upd [OF assms(2)] pids_upd [OF assms(2)])
qed

lemma laminar_insert:
  assumes "laminar E" and "E' \<subseteq> insert e E" and "\<forall>x \<in> E'. set (snd x) \<inter> set (snd e) \<noteq> {} \<longrightarrow> x = e"
  shows "laminar E'"
  using assms unfolding laminar_def pairs_share_def by (metis (no_types, lifting) inf_commute insertE subsetD)

subsection \<open>Finding and claiming workers\<close>

lemma own_ok_found:
  assumes own: "own_ok s cl" and c: "wf_conf (pm_config s)" and p: "cl p = []" and f: "found s k (Some (n, ws, hit)) st"
  shows "own_ok (s\<lparr>pm_worker_stats := st\<rparr>) (cl(p := ws))"
proof -
  let ?s = "s\<lparr>pm_worker_stats := st\<rparr>"
  have ws: "wf_group (pm_config s) n ws" "\<forall>w \<in> set ws. \<not> busy s w" "remark (\<lambda>w. busy s w \<or> w \<in> set ws) st s"
    using f by (simp_all add: found_def)
  have len: "length st = num_workers (pm_config s)" using own ws(3) by (simp add: own_ok_def sized_def remark_def)
  have b: "busy ?s w \<longleftrightarrow> busy s w \<or> w \<in> set ws" if q: "w < num_workers (pm_config s)" for w
    using ws(3) len q by (simp add: busy_def [of ?s] remark_def)
  have lt: "\<forall>w \<in> set ws. w < num_workers (pm_config s)" using wf_group_lt [OF c ws(1)] by blast
  have free: "w \<notin> set (cl q)" if q: "w \<in> set ws" for w q
    using own ws(2) lt q unfolding own_ok_def by blast
  have "sized ?s" "ctl_tables_ok ?s" using own len by (simp_all add: own_ok_def sized_def ctl_tables_ok_def)
  moreover have "\<forall>q. (cl(p := ws)) q \<noteq> [] \<longrightarrow> (\<exists>n. wf_group (pm_config s) n ((cl(p := ws)) q))"
    using own ws(1) by (auto simp: own_ok_def)
  moreover have "\<forall>q r. q \<noteq> r \<longrightarrow> set ((cl(p := ws)) q) \<inter> set ((cl(p := ws)) r) = {}"
    using own free by (auto simp: own_ok_def)
  moreover have "\<forall>w < num_workers (pm_config s). busy ?s w \<longleftrightarrow> (\<exists>q. w \<in> set ((cl(p := ws)) q))"
  proof (intro allI impI)
    fix w assume w: "w < num_workers (pm_config s)"
    then have "busy s w \<longleftrightarrow> (\<exists>q. w \<in> set (cl q))" using own by (simp add: own_ok_def)
    moreover have "(\<exists>q. w \<in> set ((cl(p := ws)) q)) \<longleftrightarrow> w \<in> set ws \<or> (\<exists>q. w \<in> set (cl q))"
      using p by (auto split: if_splits) (metis list.set(1) empty_iff)
    ultimately show "busy ?s w \<longleftrightarrow> (\<exists>q. w \<in> set ((cl(p := ws)) q))" using b [OF w] by blast
  qed
  ultimately show ?thesis by (simp add: own_ok_def)
qed

lemma own_ok_claimed:
  assumes own: "own_ok s cl" and p: "cl p = ws" and c: "claimed m ws s s'"
  shows "own_ok s' cl"
proof -
  have cf: "pm_config s' = pm_config s" by (rule engine_partD(1)) (use c in \<open>simp add: claimed_def\<close>)
  have r: "remark (\<lambda>w. busy s w \<or> w \<in> set ws) (pm_worker_stats s') s" "sized s'" "ctl_tables_ok s'" using c by (simp_all add: claimed_def)
  have "busy s' w \<longleftrightarrow> busy s w" if q: "w < num_workers (pm_config s)" for w
  proof -
    have "busy s' w \<longleftrightarrow> busy s w \<or> w \<in> set ws" using r(1,2) q cf by (simp add: busy_def [of s'] remark_def sized_def)
    then show ?thesis using own p q by (auto simp: own_ok_def)
  qed
  then show ?thesis using own r cf by (simp add: own_ok_def)
qed

lemma model_ok_tp: "wf_conf c \<Longrightarrow> model_ok c mi \<Longrightarrow> 0 < tensor_parallel_size mi \<and> 0 < mi_world_size mi
    \<and> model_name mi \<in> fst ` set (mc_model_info c)"
proof -
  assume c: "wf_conf c" and m: "model_ok c mi"
  obtain sz tp where t: "map_of (mc_model_info c) (model_name mi) = Some (sz, tp)" "mi = ModelInfo (model_name mi) (int tp) 1"
    using m by (auto simp: model_ok_def)
  have "(model_name mi, sz, tp) \<in> set (mc_model_info c)" using t(1) by (rule map_of_SomeD)
  moreover have "0 < tp" using c calculation by (auto simp: wf_conf_def)
  moreover have "tensor_parallel_size mi = int tp" "pipeline_parallel_size mi = 1" by (subst t(2), simp add: ModelInfo_def)+
  ultimately show ?thesis by (force simp: mi_world_size_def)
qed

text \<open>The part of the invariant that sections under \<open>model_lock\<close> do not touch.\<close>

lemma engine_part_keeps:
  assumes "engine_part s' = engine_part s"
  shows "engines_ok s' = engines_ok s" "pids_ok s' pd = pids_ok s pd" "data_ok s' = data_ok s" "counts_ok s' pend = counts_ok s pend"
    "pids s' = pids s" "claims s' = claims s"
proof -
  note d = engine_partD [OF assms]
  show "engines_ok s' = engines_ok s" by (rule engines_ok_cong) (simp_all add: d)
  show "pids_ok s' pd = pids_ok s pd" by (rule pids_ok_cong) (simp_all add: d)
  show "data_ok s' = data_ok s" by (rule data_ok_cong) (simp_all add: d)
  show "counts_ok s' pend = counts_ok s pend" by (rule counts_ok_cong) (simp_all add: d)
  show "pids s' = pids s" by (rule pids_cong) (simp add: d)
  show "claims s' = claims s" by (rule claims_cong) (simp add: d)
qed

definition outcome :: "progress \<Rightarrow> creation option" where
  "outcome r = (case r of Running c \<Rightarrow> Some c | Failed \<Rightarrow> None | Done i \<Rightarrow> None)"

lemma advance_finding:
  assumes inv: "mgr_inv s g" and p: "p = Act \<or> p = Scl" and g: "g p = Some (Finding direct mi)" and mi: "model_ok (pm_config s) mi"
  shows "\<exists>r s'. advance en (Finding direct mi) s = Inr (r, s') \<and> mgr_inv s' (g(p := outcome r)) \<and> engine_part s' = engine_part s
    \<and> (r = Failed \<or> (\<exists>n ws hit. r = Running (Claiming direct mi n ws hit) \<and> creation_ok (pm_config s) (Claiming direct mi n ws hit)))"
proof -
  have c: "wf_conf (pm_config s)" and own: "own_ok s (claims s g)" using inv by (simp_all add: mgr_inv_def)
  have tp: "tensor_parallel_size mi \<noteq> 0" "0 < mi_world_size mi" using model_ok_tp [OF c mi] by auto
  obtain r st where run: "get_available_workers mi (mi_world_size mi) s = Inr (r, s\<lparr>pm_worker_stats := st\<rparr>)"
    and f: "found s (mi_world_size mi) r st"
    using get_available_workers_ok [OF c _ _ tp] own by (auto simp: own_ok_def)
  let ?s = "s\<lparr>pm_worker_stats := st\<rparr>"
  have ep: "engine_part ?s = engine_part s" by simp
  note k = engine_part_keeps [OF ep]
  have en: "entries ?s = entries s" by (rule entries_cong) simp_all
  have cp: "claims s g p = []" "pids s g p = None" using claims_own [OF p, of s g] pids_own [OF p, of s g] g
    by (simp_all add: opt_workers_def opt_pid_def)
  show ?thesis
  proof (cases r)
    case None
    then have "st = pm_worker_stats s" using f by (simp add: found_def)
    then have "?s = s" by simp
    moreover have "mgr_inv s (g(p := None))"
      using mgr_inv_same [OF inv p, of None] g by (simp add: opt_workers_def opt_pid_def)
    ultimately show ?thesis using run None by (simp add: outcome_def)
  next
    case (Some x)
    obtain n ws hit where x: "x = (n, ws, hit)" by (cases x)
    have f': "found s (mi_world_size mi) (Some (n, ws, hit)) st" using f Some x by simp
    have wf: "wf_group (pm_config s) n ws" "\<not> hit \<longrightarrow> int (length ws) = mi_world_size mi" using f' by (simp_all add: found_def)
    let ?c = "Claiming direct mi n ws hit"
    have cl: "claims ?s (g(p := Some ?c)) = (claims s g)(p := ws)"
      unfolding claims_upd [OF p] k(6) by (simp add: opt_workers_def)
    have pd: "pids ?s (g(p := Some ?c)) = pids s g"
      unfolding pids_upd [OF p] k(5) using cp(2) by (simp add: opt_pid_def fun_upd_idem)
    have "mgr_inv ?s (g(p := Some ?c))"
      using inv own_ok_found [OF own c cp(1) f'] k(1-3) en cl pd by (simp add: mgr_inv_def)
    moreover have "ws \<noteq> []" using wf(1) by (simp add: wf_group_def)
    ultimately show ?thesis using run Some x wf mi ep by (simp add: outcome_def)
  qed
qed

lemma advance_claiming:
  assumes inv: "mgr_inv s g" and p: "p = Act \<or> p = Scl" and g: "g p = Some (Claiming direct mi n ws hit)"
    and ok: "creation_ok (pm_config s) (Claiming direct mi n ws hit)"
  shows "\<exists>s'. advance en (Claiming direct mi n ws hit) s = Inr (Running (Addressing direct mi ws), s')
    \<and> mgr_inv s' (g(p := Some (Addressing direct mi ws))) \<and> engine_part s' = engine_part s"
proof -
  have c: "wf_conf (pm_config s)" and own: "own_ok s (claims s g)" using inv by (simp_all add: mgr_inv_def)
  have w: "wf_group (pm_config s) n ws" "\<not> hit \<longrightarrow> int (length ws) = mi_world_size mi" and tp: "0 < tensor_parallel_size mi"
    using ok model_ok_tp [OF c] by auto
  obtain s' where s': "claim_workers mi n ws hit s = Inr s'" "claimed (model_name mi) ws s s'"
    using claim_workers_ok [OF c _ _ w(1) tp w(2)] own by (auto simp: own_ok_def)
  have ep: "engine_part s' = engine_part s" using s'(2) by (simp add: claimed_def)
  note k = engine_part_keeps [OF ep]
  have cp: "claims s g p = ws" "pids s g p = None" using claims_own [OF p, of s g] pids_own [OF p, of s g] g
    by (simp_all add: opt_workers_def opt_pid_def)
  have own': "own_ok s' (claims s g)" by (rule own_ok_claimed [OF own cp(1) s'(2)])
  have lam: "laminar (entries s')"
  proof (cases "mc_use_unified_memory (pm_config s)")
    case True
    then show ?thesis
      using laminar_insert [of "entries s" "entries s'" "(model_name mi, ws)"] inv s'(2) by (auto simp: mgr_inv_def claimed_def)
  next
    case False
    then show ?thesis using inv s'(2) by (simp add: mgr_inv_def claimed_def)
  qed
  have cf: "pm_config s' = pm_config s" by (rule engine_partD(1) [OF ep])
  let ?c = "Some (Addressing direct mi ws)"
  have "claims s' (g(p := ?c)) = claims s g" unfolding claims_upd [OF p] k(6) using cp(1) by (simp add: opt_workers_def fun_upd_idem)
  moreover have "pids s' (g(p := ?c)) = pids s g" unfolding pids_upd [OF p] k(5) using cp(2) by (simp add: opt_pid_def fun_upd_idem)
  ultimately have "mgr_inv s' (g(p := ?c))" using inv own' lam k(1-3) cf by (simp add: mgr_inv_def)
  then show ?thesis using s'(1) ep by simp
qed

subsection \<open>Starting the process\<close>

text \<open>What workers, copies and the tables of engines depend on stays.\<close>

definition procs_only :: "manager \<Rightarrow> manager \<Rightarrow> bool" where
  "procs_only s s' \<longleftrightarrow> pm_config s' = pm_config s \<and> pm_worker_stats s' = pm_worker_stats s \<and> pm_gpu_mem s' = pm_gpu_mem s
     \<and> pm_node_models s' = pm_node_models s \<and> pm_model_workers s' = pm_model_workers s
     \<and> pm_in_prewarming s' = pm_in_prewarming s \<and> pm_engine_stats s' = pm_engine_stats s
     \<and> pm_engine_counter s' = pm_engine_counter s \<and> pm_model_engines s' = pm_model_engines s
     \<and> pm_model_stats s' = pm_model_stats s \<and> pm_num_engines s' = pm_num_engines s
     \<and> pm_num_in_creating s' = pm_num_in_creating s
     \<and> pm_engine_data s' = pm_engine_data s \<and> pm_data_future s' = pm_data_future s"

lemma procs_only_keeps:
  assumes "procs_only s s'"
  shows "own_ok s' cl = own_ok s cl" "engines_ok s' = engines_ok s" "data_ok s' = data_ok s" "entries s' = entries s"
    "claims s' = claims s" "pids s' = pids s" "counts_ok s' pend = counts_ok s pend" "pm_config s' = pm_config s"
proof -
  note d = assms [unfolded procs_only_def]
  show "own_ok s' cl = own_ok s cl" using d by (intro own_ok_cong) simp_all
  show "engines_ok s' = engines_ok s" using d by (intro engines_ok_cong) simp_all
  show "data_ok s' = data_ok s" using d by (intro data_ok_cong) simp_all
  show "entries s' = entries s" using d by (intro entries_cong) simp_all
  show "claims s' = claims s" using d by (intro claims_cong) simp
  show "pids s' = pids s" using d by (intro pids_cong) simp
  show "counts_ok s' pend = counts_ok s pend" using d by (intro counts_ok_cong) simp_all
  show "pm_config s' = pm_config s" using d by simp
qed

lemma extend_engines_ok:
  assumes pd: "pids_ok s pd" and c: "0 < mc_max_concurrent_engines (pm_config s)" "0 < mc_engine_runout_threshold (pm_config s)"
  shows "pids_ok (extend_engines en s) pd \<and> procs_only s (extend_engines en s) \<and> pm_prewarmed_engines (extend_engines en s) \<noteq> []"
proof (cases "length (pm_prewarmed_engines s) < mc_engine_runout_threshold (pm_config s)")
  case False
  then show ?thesis using pd c by (auto simp: extend_engines_def procs_only_def)
next
  case True
  let ?k = "mc_max_concurrent_engines (pm_config s)" and ?n = "pm_prewarm_engine_counter s"
  define fut where "fut = (case pm_extend_future s of Some ids \<Rightarrow> ids | None \<Rightarrow> [?n..<?n + ?k])"
  define s1 where "s1 = (case pm_extend_future s of Some ids \<Rightarrow> s | None \<Rightarrow> s\<lparr>pm_prewarm_engine_counter := ?n + ?k\<rparr>)"
  have run: "extend_engines en s = (if (pm_prewarmed_engines s1 = [] \<or> en_engines_done en) \<and> fut \<noteq> []
      then s1\<lparr>pm_prewarmed_engines := pm_prewarmed_engines s1 @ fut, pm_extend_future := None\<rparr>
      else s1\<lparr>pm_extend_future := Some fut\<rparr>)"
    using True by (cases "pm_extend_future s") (simp_all add: extend_engines_def init_engines_def fut_def s1_def Let_def)
  have f: "fut \<noteq> []" using pd c(1) by (cases "pm_extend_future s") (auto simp: fut_def pids_ok_def)
  have p1: "pm_prewarmed_engines s1 = pm_prewarmed_engines s" "pm_running_engines s1 = pm_running_engines s"
    by (cases "pm_extend_future s"; simp add: s1_def)+
  have pool: "distinct (pm_prewarmed_engines s @ fut)" "set (pm_prewarmed_engines s @ fut) \<inter> set (pm_running_engines s) = {}"
    "\<forall>p \<in> set (pm_prewarmed_engines s @ fut) \<union> set (pm_running_engines s). p < pm_prewarm_engine_counter s1"
  proof (atomize (full), cases "pm_extend_future s")
    case None
    have e: "engine_pool s = pm_prewarmed_engines s" "fut = [?n..<?n + ?k]" "pm_prewarm_engine_counter s1 = ?n + ?k"
      using None by (simp_all add: engine_pool_def fut_def s1_def)
    have d: "distinct (pm_prewarmed_engines s)" "set (pm_prewarmed_engines s) \<inter> set (pm_running_engines s) = {}"
      "\<forall>p \<in> set (pm_prewarmed_engines s). p < ?n" "\<forall>p \<in> set (pm_running_engines s). p < ?n"
      using pd unfolding pids_ok_def e(1) by blast+
    then show "distinct (pm_prewarmed_engines s @ fut) \<and> set (pm_prewarmed_engines s @ fut) \<inter> set (pm_running_engines s) = {}
      \<and> (\<forall>p \<in> set (pm_prewarmed_engines s @ fut) \<union> set (pm_running_engines s). p < pm_prewarm_engine_counter s1)"
      unfolding e(2,3) by fastforce
  next
    case (Some ids)
    then have "engine_pool s = pm_prewarmed_engines s @ fut" "pm_prewarm_engine_counter s1 = ?n"
      by (simp_all add: engine_pool_def fut_def s1_def)
    then show "distinct (pm_prewarmed_engines s @ fut) \<and> set (pm_prewarmed_engines s @ fut) \<inter> set (pm_running_engines s) = {}
      \<and> (\<forall>p \<in> set (pm_prewarmed_engines s @ fut) \<union> set (pm_running_engines s). p < pm_prewarm_engine_counter s1)"
      using pd unfolding pids_ok_def by metis
  qed
  have rest: "\<forall>x p. pd x = Some p \<longrightarrow> p \<in> set (pm_running_engines s)" "\<forall>x y p. pd x = Some p \<and> pd y = Some p \<longrightarrow> x = y"
    using pd unfolding pids_ok_def by blast+
  have po: "procs_only s s1" by (cases "pm_extend_future s") (simp_all add: s1_def procs_only_def)
  show ?thesis
  proof (cases "pm_prewarmed_engines s1 = [] \<or> en_engines_done en")
    case True
    then show ?thesis using run f p1 pool rest po by (simp add: pids_ok_def engine_pool_def procs_only_def)
  next
    case False
    then show ?thesis using run f p1 pool rest po by (simp add: pids_ok_def engine_pool_def procs_only_def)
  qed
qed

lemma run_engine_ok:
  assumes "distinct (pid # engine_pool s)" and "set (pid # engine_pool s) \<inter> set (pm_running_engines s) = {}"
    and "\<forall>p \<in> set (pid # engine_pool s) \<union> set (pm_running_engines s). p < pm_prewarm_engine_counter s"
    and "\<forall>x p. pd x = Some p \<longrightarrow> p \<in> set (pm_running_engines s)" "\<forall>x y p. pd x = Some p \<and> pd y = Some p \<longrightarrow> x = y"
    and "pm_extend_future s \<noteq> Some []"
  shows "pids_ok (run_engine pid m bundles port s) (pd(q := Some pid))" "procs_only s (run_engine pid m bundles port s)"
proof -
  let ?s = "run_engine pid m bundles port s"
  have f: "engine_pool ?s = engine_pool s" "pm_running_engines ?s = pm_running_engines s @ [pid]"
    "pm_prewarm_engine_counter ?s = pm_prewarm_engine_counter s" "pm_extend_future ?s = pm_extend_future s"
    using assms(2) by (auto simp: run_engine_def call_def engine_pool_def set_add_def)
  have "pid \<noteq> p" if q: "pd x = Some p" for x p using assms(2,4) q by auto
  then have "\<forall>x y p. (pd(q := Some pid)) x = Some p \<and> (pd(q := Some pid)) y = Some p \<longrightarrow> x = y"
    using assms(5) by (auto split: if_splits)
  moreover have "\<forall>x p. (pd(q := Some pid)) x = Some p \<longrightarrow> p \<in> set (pm_running_engines s @ [pid])"
    using assms(4) by (auto split: if_splits)
  moreover have "distinct (engine_pool s)" "set (engine_pool s) \<inter> set (pm_running_engines s @ [pid]) = {}"
    "\<forall>p \<in> set (engine_pool s) \<union> set (pm_running_engines s @ [pid]). p < pm_prewarm_engine_counter s"
    using assms(1-3) by auto
  ultimately show "pids_ok ?s (pd(q := Some pid))" using assms(6) unfolding pids_ok_def f by (intro conjI)
  show "procs_only s ?s" by (simp add: procs_only_def run_engine_def call_def)
qed

lemma start_engine_ok:
  assumes c: "wf_conf (pm_config s)" and pd: "pids_ok s pd"
  shows "\<exists>pid s'. start_prewarmed_engine en m ws port s = Inr (pid, s') \<and> pids_ok s' (pd(q := Some pid)) \<and> procs_only s s'"
proof (cases "mc_disable_all_prewarm (pm_config s)")
  case True
  let ?n = "pm_prewarm_engine_counter s"
  let ?s = "s\<lparr>pm_prewarm_engine_counter := ?n + 1\<rparr>"
  have ep: "engine_pool ?s = engine_pool s" by (simp add: engine_pool_def)
  have lt: "\<forall>p \<in> set (engine_pool s) \<union> set (pm_running_engines s). p < ?n" using pd by (simp add: pids_ok_def)
  have run: "start_prewarmed_engine en m ws port s = Inr (?n, run_engine ?n m ws port ?s)"
    using True by (simp add: start_prewarmed_engine_def init_engines_def Let_def)
  have pr: "\<forall>x p. pd x = Some p \<longrightarrow> p \<in> set (pm_running_engines ?s)" "\<forall>x y p. pd x = Some p \<and> pd y = Some p \<longrightarrow> x = y"
    "pm_extend_future ?s \<noteq> Some []" "distinct (engine_pool s)" "set (engine_pool s) \<inter> set (pm_running_engines s) = {}"
    using pd by (auto simp: pids_ok_def)
  have "distinct (?n # engine_pool ?s)" "set (?n # engine_pool ?s) \<inter> set (pm_running_engines ?s) = {}"
    "\<forall>p \<in> set (?n # engine_pool ?s) \<union> set (pm_running_engines ?s). p < pm_prewarm_engine_counter ?s"
    using pr(4,5) lt unfolding ep by (auto intro: less_SucI)
  from run_engine_ok [OF this pr(1-3)] show ?thesis using run by (auto simp: procs_only_def)
next
  case False
  let ?s = "extend_engines en s"
  have k: "0 < mc_max_concurrent_engines (pm_config s)" "0 < mc_engine_runout_threshold (pm_config s)" using c by (simp_all add: wf_conf_def)
  have s1: "pids_ok ?s pd" "procs_only s ?s" "pm_prewarmed_engines ?s \<noteq> []" using extend_engines_ok [OF pd k] by auto
  obtain xs pid where xs: "pm_prewarmed_engines ?s = xs @ [pid]" using s1(3) by (metis append_butlast_last_id)
  let ?s2 = "?s\<lparr>pm_prewarmed_engines := xs\<rparr>"
  have run: "start_prewarmed_engine en m ws port s = Inr (pid, run_engine pid m [] port ?s2)"
    using False xs by (simp add: start_prewarmed_engine_def Let_def)
  have pool: "set (engine_pool ?s) = set (pid # engine_pool ?s2)" "distinct (pid # engine_pool ?s2) = distinct (engine_pool ?s)"
    using xs by (auto simp: engine_pool_def)
  have f2: "pm_running_engines ?s2 = pm_running_engines ?s" "pm_prewarm_engine_counter ?s2 = pm_prewarm_engine_counter ?s"
    "pm_extend_future ?s2 = pm_extend_future ?s" by simp_all
  have pr: "\<forall>x p. pd x = Some p \<longrightarrow> p \<in> set (pm_running_engines ?s2)" "\<forall>x y p. pd x = Some p \<and> pd y = Some p \<longrightarrow> x = y"
    "pm_extend_future ?s2 \<noteq> Some []"
    using s1(1) unfolding f2 pids_ok_def by blast+
  have "distinct (pid # engine_pool ?s2)" "set (pid # engine_pool ?s2) \<inter> set (pm_running_engines ?s2) = {}"
    "\<forall>p \<in> set (pid # engine_pool ?s2) \<union> set (pm_running_engines ?s2). p < pm_prewarm_engine_counter ?s2"
    using s1(1) pool unfolding f2 pids_ok_def by simp_all
  from run_engine_ok [OF this pr] show ?thesis using run s1(2) by (auto simp: procs_only_def)
qed

lemma advance_starting:
  assumes inv: "mgr_inv s g" and p: "p = Act \<or> p = Scl" and g: "g p = Some (Starting direct mi ws port)"
  shows "\<exists>pid s'. advance en (Starting direct mi ws port) s = Inr (Running (Registering direct mi ws pid), s')
    \<and> mgr_inv s' (g(p := Some (Registering direct mi ws pid))) \<and> procs_only s s'"
proof -
  have c: "wf_conf (pm_config s)" and pd: "pids_ok s (pids s g)" using inv by (simp_all add: mgr_inv_def)
  obtain pid s' where s': "start_prewarmed_engine en (model_name mi) ws port s = Inr (pid, s')"
    "pids_ok s' ((pids s g)(p := Some pid))" "procs_only s s'"
    using start_engine_ok [OF c pd] by blast
  note k = procs_only_keeps [OF s'(3)]
  let ?c = "Some (Registering direct mi ws pid)"
  have cl: "claims s' (g(p := ?c)) = claims s g"
    unfolding claims_upd [OF p] k(5) using claims_own [OF p, of s g] g by (simp add: opt_workers_def fun_upd_idem)
  have "pids s' (g(p := ?c)) = (pids s g)(p := Some pid)"
    unfolding pids_upd [OF p] k(6) by (simp add: opt_pid_def)
  then have "mgr_inv s' (g(p := ?c))" using inv s'(2) cl k by (simp add: mgr_inv_def)
  then show ?thesis using s'(1,3) by simp
qed

subsection \<open>Registering the engine\<close>

lemma own_ok_move:
  assumes own: "own_ok s cl" and p: "cl p = ws" and q: "cl q = []" "q \<noteq> p"
  shows "own_ok s (cl(p := [], q := ws))"
proof -
  let ?cl = "cl(p := [], q := ws)"
  have "(\<exists>r. w \<in> set (?cl r)) \<longleftrightarrow> (\<exists>r. w \<in> set (cl r))" for w
  proof
    assume "\<exists>r. w \<in> set (?cl r)"
    then show "\<exists>r. w \<in> set (cl r)" using p by (auto split: if_splits)
  next
    assume "\<exists>r. w \<in> set (cl r)"
    then obtain r where r: "w \<in> set (cl r)" by blast
    have "w \<in> set (?cl (if r = p then q else r))" using r p q by (cases "r = p"; cases "r = q") simp_all
    then show "\<exists>r. w \<in> set (?cl r)" by blast
  qed
  moreover have "x = y" if w: "w \<in> set (?cl x)" "w \<in> set (?cl y)" for w x y
  proof -
    let ?f = "\<lambda>r. if r = q then p else r"
    have m: "r \<noteq> p \<and> w \<in> set (cl (?f r))" if "w \<in> set (?cl r)" for r
      using that p q(2) by (cases "r = q"; cases "r = p") simp_all
    have "?f x = ?f y" using own m [OF w(1)] m [OF w(2)] unfolding own_ok_def by blast
    then show ?thesis using m [OF w(1)] m [OF w(2)] by (cases "x = q"; cases "y = q") simp_all
  qed
  then have "\<forall>x y. x \<noteq> y \<longrightarrow> set (?cl x) \<inter> set (?cl y) = {}" by blast
  moreover have "\<forall>r. ?cl r \<noteq> [] \<longrightarrow> (\<exists>n. wf_group (pm_config s) n (?cl r))"
  proof -
    have "\<And>r. cl r \<noteq> [] \<Longrightarrow> \<exists>n. wf_group (pm_config s) n (cl r)" using own by (simp add: own_ok_def)
    then show ?thesis using p by (metis fun_upd_apply)
  qed
  ultimately show ?thesis using own by (simp add: own_ok_def)
qed

lemma pids_ok_move:
  assumes "pids_ok s pd" and "pd p = Some x" and "pd q = None"
  shows "pids_ok s (pd(p := None, q := Some x))"
proof -
  have run: "\<And>x p. pd x = Some p \<Longrightarrow> p \<in> set (pm_running_engines s)" and inj: "\<And>x y p. pd x = Some p \<Longrightarrow> pd y = Some p \<Longrightarrow> x = y"
    using assms(1) unfolding pids_ok_def by blast+
  have "\<forall>y z. (pd(p := None, q := Some x)) y = Some z \<longrightarrow> z \<in> set (pm_running_engines s)"
    using run assms(2) by (auto split: if_splits)
  moreover have "y = y'" if y: "(pd(p := None, q := Some x)) y = Some z" "(pd(p := None, q := Some x)) y' = Some z" for y y' z
  proof -
    let ?f = "\<lambda>r. if r = q then p else r"
    have m: "(r = q \<or> r \<noteq> p) \<and> pd (?f r) = Some z" if "(pd(p := None, q := Some x)) r = Some z" for r
      using that assms(2) by (cases "r = q"; cases "r = p") simp_all
    have "?f y = ?f y'" using inj m [OF y(1)] m [OF y(2)] by blast
    then show ?thesis using m [OF y(1)] m [OF y(2)] by (cases "y = q"; cases "y' = q") simp_all
  qed
  ultimately show ?thesis using assms(1) unfolding pids_ok_def by blast
qed

lemma fresh_engine: "engines_ok s \<Longrightarrow> map_of (pm_engine_stats s) (pm_engine_counter s) = None"
proof (rule ccontr)
  assume inv: "engines_ok s" and "map_of (pm_engine_stats s) (pm_engine_counter s) \<noteq> None"
  then obtain e where "map_of (pm_engine_stats s) (pm_engine_counter s) = Some e" by auto
  then have "engine_ok s (pm_engine_counter s) e" using inv by (simp add: engines_ok_def)
  then show False by (simp add: engine_ok_def)
qed

lemma extend_data_frame:
  "\<exists>ds k. extend_data en i s = s\<lparr>pm_engine_data := pm_engine_data s @ ds, pm_data_future := k\<rparr> \<and> (\<forall>d \<in> set ds. d = new_engine_data)
    \<and> (pm_data_future s \<noteq> Some 0 \<and> 0 < mc_max_concurrent_engines (pm_config s) \<longrightarrow> k \<noteq> Some 0
       \<and> (mc_enable_kv_prewarm (pm_config s) \<and> 0 < mc_engine_runout_threshold (pm_config s) \<and> i \<le> length (pm_engine_data s)
          \<longrightarrow> i < length (pm_engine_data s @ ds)))"
proof -
  let ?k = "case pm_data_future s of Some k \<Rightarrow> k | None \<Rightarrow> mc_max_concurrent_engines (pm_config s)"
  let ?low = "mc_enable_kv_prewarm (pm_config s)
         \<and> int (length (pm_engine_data s)) - int i < int (mc_engine_runout_threshold (pm_config s))"
  let ?take = "(length (pm_engine_data s) \<le> i \<or> en_data_done en) \<and> 0 < ?k"
  have kp: "pm_data_future s \<noteq> Some 0 \<and> 0 < mc_max_concurrent_engines (pm_config s) \<longrightarrow> 0 < ?k"
    by (cases "pm_data_future s") auto
  consider "\<not> ?low" | "?low" "?take" | "?low" "\<not> ?take" by blast
  then show ?thesis
  proof cases
    case 1
    then have "extend_data en i s = s" unfolding extend_data_def by (rule if_not_P)
    then show ?thesis using 1 by (intro exI [of _ "[]"] exI [of _ "pm_data_future s"]) auto
  next
    case 2
    then have "extend_data en i s = s\<lparr>pm_engine_data := pm_engine_data s @ replicate ?k new_engine_data, pm_data_future := None\<rparr>"
      by (simp add: extend_data_def Let_def)
    then show ?thesis using kp by (intro exI [of _ "replicate ?k new_engine_data"] exI [of _ None]) auto
  next
    case 3
    then have e: "extend_data en i s = s\<lparr>pm_data_future := Some ?k\<rparr>" by (auto simp: extend_data_def Let_def)
    then show ?thesis using kp 3 by (intro exI [of _ "[]"] exI [of _ "Some ?k"]) auto
  qed
qed

lemma advance_registering:
  assumes inv: "mgr_inv s g" and p: "p = Act \<or> p = Scl" and g: "g p = Some (Registering direct mi ws pid)"
    and ok: "creation_ok (pm_config s) (Registering direct mi ws pid)" and cnt: "counts_ok s pend"
    and pend: "0 < pend (model_name mi)"
  shows "\<exists>i s'. advance en (Registering direct mi ws pid) s = Inr (Running (Informing ws pid i), s')
    \<and> mgr_inv s' (g(p := Some (Informing ws pid i))) \<and> pm_config s' = pm_config s
    \<and> fst ` set (pm_engine_stats s) \<subseteq> fst ` set (pm_engine_stats s')
    \<and> counts_ok s' (pend(model_name mi := pend (model_name mi) - 1))"
proof -
  let ?m = "model_name mi" and ?i = "pm_engine_counter s"
  have c: "wf_conf (pm_config s)" and eo: "engines_ok s" and dk: "data_ok s" using inv by (simp_all add: mgr_inv_def)
  have m: "?m \<in> models s" using model_ok_tp [OF c] ok by (auto simp: models_def)
  define e where "e = (EngineStatus (int ?i) ?m ws (int pid) (en_time en))\<lparr>es_num_reqs := if direct then 1 else 0\<rparr>"
  have fr: "map_of (pm_engine_stats s) ?i = None" by (rule fresh_engine [OF eo])
  have me: "\<And>m i. i \<in> set (default_get (pm_model_engines s) m) \<longleftrightarrow>
          (\<exists>e. map_of (pm_engine_stats s) i = Some e \<and> es_model e = m \<and> \<not> es_stopping e)"
    using eo unfolding engines_ok_def by blast
  have ni: "?i \<notin> set (default_get (pm_model_engines s) ?m)" using me fr by simp
  have ne: "pm_num_engines s ?m = Some (int (length (default_get (pm_model_engines s) ?m)))" using eo m by (simp add: engines_ok_def)
  have nc: "pm_num_in_creating s ?m = Some (int (pend ?m))" using cnt m by (simp add: counts_ok_def)
  define s1 where "s1 = s\<lparr>pm_engine_counter := ?i + 1, pm_engine_stats := AList.update ?i e (pm_engine_stats s),
    pm_model_engines := (pm_model_engines s)(?m \<mapsto> default_get (pm_model_engines s) ?m @ [?i]),
    pm_num_engines := (pm_num_engines s)(?m \<mapsto> int (length (default_get (pm_model_engines s) ?m)) + 1),
    pm_num_in_creating := (pm_num_in_creating s)(?m \<mapsto> int (pend ?m) - 1)\<rparr>"
  obtain ds k where ex: "extend_data en ?i s1 = s1\<lparr>pm_engine_data := pm_engine_data s1 @ ds, pm_data_future := k\<rparr>"
    and ds: "\<forall>d \<in> set ds. d = new_engine_data" and kk: "pm_data_future s1 \<noteq> Some 0 \<and> 0 < mc_max_concurrent_engines (pm_config s1) \<longrightarrow> k \<noteq> Some 0
       \<and> (mc_enable_kv_prewarm (pm_config s1) \<and> 0 < mc_engine_runout_threshold (pm_config s1) \<and> ?i \<le> length (pm_engine_data s1)
          \<longrightarrow> ?i < length (pm_engine_data s1 @ ds))"
    using extend_data_frame [of en ?i s1] by blast
  define s' where "s' = s1\<lparr>pm_engine_data := pm_engine_data s1 @ ds, pm_data_future := k\<rparr>"
  have run: "advance en (Registering direct mi ws pid) s = Inr (Running (Informing ws pid ?i), s')"
    using ni ne nc ex by (simp add: register_engine_def add_engine_def set_add_def add_count_def e_def s1_def s'_def Let_def)
  have st: "map_of (pm_engine_stats s') = (map_of (pm_engine_stats s))(?i \<mapsto> e)"
    by (simp add: s'_def s1_def update_conv')
  have f: "pm_config s' = pm_config s" "models s' = models s" "pm_engine_counter s' = ?i + 1" "pm_model_stats s' = pm_model_stats s"
    "pm_model_engines s' = (pm_model_engines s)(?m \<mapsto> default_get (pm_model_engines s) ?m @ [?i])"
    "pm_num_engines s' = (pm_num_engines s)(?m \<mapsto> int (length (default_get (pm_model_engines s) ?m)) + 1)"
    "pm_num_in_creating s' = (pm_num_in_creating s)(?m \<mapsto> int (pend ?m) - 1)"
    by (simp_all add: s'_def s1_def models_def)
  have me': "default_get (pm_model_engines s') m' = (if m' = ?m then default_get (pm_model_engines s) ?m @ [?i]
      else default_get (pm_model_engines s) m')" for m'
    unfolding f(5) by (simp add: default_get_def)
  have e: "es_model e = ?m" "es_workers e = ws" "\<not> es_stopping e" "es_prewarm_engine_id e = int pid"
    by (simp_all add: e_def EngineStatus_def)
  have engines: "engines_ok s'"
  proof -
    have "engine_ok s' j d" if q: "map_of (pm_engine_stats s') j = Some d" for j d
    proof (cases "j = ?i")
      case True
      then have d: "d = e" using q st by simp
      show ?thesis unfolding d using True m ok by (simp add: engine_ok_def f e_def EngineStatus_def BATCH_SIZE_def)
    next
      case False
      then have "engine_ok s j d" using q st eo by (simp add: engines_ok_def)
      then show ?thesis by (auto simp: engine_ok_def f)
    qed
    moreover have "j \<in> set (default_get (pm_model_engines s') m') \<longleftrightarrow>
        (\<exists>d. map_of (pm_engine_stats s') j = Some d \<and> es_model d = m' \<and> \<not> es_stopping d)" for j m'
      unfolding me' st using me [of j m'] fr e by auto
    moreover have "distinct (default_get (pm_model_engines s') m')" for m'
      using eo ni by (simp add: me' engines_ok_def)
    moreover have "distinct (map fst (pm_engine_stats s'))"
      using eo by (simp add: s'_def s1_def engines_ok_def distinct_update)
    moreover have "\<forall>m \<in> models s'. pm_num_engines s' m = Some (int (length (default_get (pm_model_engines s') m)))"
      using eo unfolding me' f(2,6) by (simp add: engines_ok_def)
    moreover have "\<forall>m \<in> models s'. pm_model_stats s' m \<noteq> None" using eo unfolding f(2,4) by (simp add: engines_ok_def)
    ultimately show ?thesis unfolding engines_ok_def by blast
  qed
  let ?c = "Some (Informing ws pid ?i)"
  have pne: "Eng ?i \<noteq> p" using p by auto
  have cp: "claims s g p = ws" "pids s g p = Some pid" using claims_own [OF p, of s g] pids_own [OF p, of s g] g
    by (simp_all add: opt_workers_def opt_pid_def)
  have cl: "claims s' (g(p := ?c)) = (claims s g)(p := [], Eng ?i := ws)"
  proof
    fix q show "claims s' (g(p := ?c)) q = ((claims s g)(p := [], Eng ?i := ws)) q"
      using p by (cases q) (auto simp: st e opt_workers_def)
  qed
  have pd: "pids s' (g(p := ?c)) = (pids s g)(p := None, Eng ?i := Some pid)"
  proof
    fix q show "pids s' (g(p := ?c)) q = ((pids s g)(p := None, Eng ?i := Some pid)) q"
      using p by (cases q) (auto simp: st e opt_pid_def)
  qed
  have "own_ok s' (claims s' (g(p := ?c)))"
  proof -
    have "own_ok s ((claims s g)(p := [], Eng ?i := ws))"
      using inv own_ok_move [of s "claims s g" p ws "Eng ?i"] cp(1) pne fr by (simp add: mgr_inv_def)
    then show ?thesis unfolding cl by (subst own_ok_cong [of _ s]) (simp_all add: s'_def s1_def)
  qed
  moreover have "pids_ok s' (pids s' (g(p := ?c)))"
  proof -
    have "pids_ok s ((pids s g)(p := None, Eng ?i := Some pid))"
      using inv pids_ok_move [of s "pids s g" p pid "Eng ?i"] cp(2) fr by (simp add: mgr_inv_def)
    then show ?thesis unfolding pd by (subst pids_ok_cong [of _ s]) (simp_all add: s'_def s1_def)
  qed
  moreover have "data_ok s'"
  proof -
    have "pm_data_future s1 = pm_data_future s" "pm_engine_data s1 = pm_engine_data s" "pm_config s1 = pm_config s" by (simp_all add: s1_def)
    then show ?thesis using dk kk ds c by (auto simp: data_ok_def wf_conf_def s'_def s1_def new_engine_data_def)
  qed
  moreover have "entries s' = entries s" by (rule entries_cong) (simp_all add: s'_def s1_def)
  ultimately have "mgr_inv s' (g(p := ?c))" using inv engines f(1) by (simp add: mgr_inv_def)
  moreover have "fst ` set (pm_engine_stats s) \<subseteq> fst ` set (pm_engine_stats s')"
    unfolding dom_map_of_conv_image_fst [symmetric] st by auto
  moreover have "counts_ok s' (pend(?m := pend ?m - 1))" using cnt pend by (auto simp: counts_ok_def f)
  ultimately show ?thesis using run f(1) by blast
qed

end
