(* ===== verification/Ctl_Check.thy ===== *)
theory Ctl_Check
  imports Ctl_Advance
begin

text \<open>
  The invariant under the second half of \<open>_check_engines\<close>: an engine that has drained is ended,
  its workers and its process are free again; the blocks that a draining engine gives up go to the
  prewarming pool. Then the sections that only change the KV data of an engine.
\<close>

subsection \<open>Releasing workers\<close>

lemma release_worker_ok:
  assumes "w < length (pm_worker_stats s)" and "w < length (pm_gpu_mem s)"
  shows "\<exists>s1. release_worker en w s = Inr s1 \<and> engine_part s1 = engine_part s
    \<and> pm_model_workers s1 = pm_model_workers s \<and> pm_node_models s1 = pm_node_models s
    \<and> pm_in_prewarming s1 = pm_in_prewarming s \<and> length (pm_gpu_mem s1) = length (pm_gpu_mem s)
    \<and> pm_worker_stats s1 = (pm_worker_stats s)[w := (pm_worker_stats s ! w)\<lparr>ws_model := None\<rparr>]"
  using assms by (simp add: release_worker_def set_ws_model_ok upd_nth_def Let_def call_def engine_part_def)

lemma release_workers_ok:
  assumes "sized s" and "\<forall>w \<in> set ws. w < num_workers (pm_config s)"
  shows "\<exists>s'. fold_r (release_worker en) ws s = Inr s' \<and> engine_part s' = engine_part s \<and> sized s'
    \<and> pm_model_workers s' = pm_model_workers s \<and> pm_node_models s' = pm_node_models s
    \<and> pm_in_prewarming s' = pm_in_prewarming s \<and> remark (\<lambda>w. busy s w \<and> w \<notin> set ws) (pm_worker_stats s') s"
  using assms
proof (induction ws arbitrary: s)
  case Nil
  then show ?case by (simp add: remark_def busy_def)
next
  case (Cons v ws)
  have v: "v < length (pm_worker_stats s)" "v < length (pm_gpu_mem s)" using Cons.prems by (simp_all add: sized_def)
  obtain s1 where s1: "release_worker en v s = Inr s1" "engine_part s1 = engine_part s"
      "pm_model_workers s1 = pm_model_workers s" "pm_node_models s1 = pm_node_models s"
      "pm_in_prewarming s1 = pm_in_prewarming s" "length (pm_gpu_mem s1) = length (pm_gpu_mem s)"
      "pm_worker_stats s1 = (pm_worker_stats s)[v := (pm_worker_stats s ! v)\<lparr>ws_model := None\<rparr>]"
    using release_worker_ok [OF v, of en] by blast
  have c: "pm_config s1 = pm_config s" by (rule engine_partD [OF s1(2)])
  have sz: "sized s1" using Cons.prems(1) s1(6,7) c by (simp add: sized_def)
  have lt: "\<forall>w \<in> set ws. w < num_workers (pm_config s1)" using Cons.prems(2) c by simp
  obtain s' where s': "fold_r (release_worker en) ws s1 = Inr s'" "engine_part s' = engine_part s1" "sized s'"
      "pm_model_workers s' = pm_model_workers s1" "pm_node_models s' = pm_node_models s1"
      "pm_in_prewarming s' = pm_in_prewarming s1" "remark (\<lambda>w. busy s1 w \<and> w \<notin> set ws) (pm_worker_stats s') s1"
    using Cons.IH [OF sz lt] by blast
  have "remark (\<lambda>w. busy s w \<and> w \<notin> set (v # ws)) (pm_worker_stats s') s"
    using s'(7) s1(7) v by (auto simp: remark_def busy_def nth_list_update)
  then show ?case using s' s1 by simp
qed

lemma own_ok_release:
  assumes own: "own_ok s cl" and p: "cl p = ws" and c: "pm_config s' = pm_config s" and t: "sized s'" "ctl_tables_ok s'"
    and r: "remark (\<lambda>w. busy s w \<and> w \<notin> set ws) (pm_worker_stats s') s"
  shows "own_ok s' (cl(p := []))"
proof -
  have dj: "w \<in> set (cl q) \<Longrightarrow> w \<in> set ws \<Longrightarrow> q = p" for w q using own p unfolding own_ok_def by blast
  have "busy s' w \<longleftrightarrow> (\<exists>q. w \<in> set ((cl(p := [])) q))" if q: "w < num_workers (pm_config s)" for w
  proof -
    have "busy s' w \<longleftrightarrow> busy s w \<and> w \<notin> set ws" using r t(1) q c by (simp add: busy_def [of s'] remark_def sized_def)
    moreover have "busy s w \<longleftrightarrow> (\<exists>q. w \<in> set (cl q))" using own q by (simp add: own_ok_def)
    moreover have "(\<exists>q. w \<in> set ((cl(p := [])) q)) \<longleftrightarrow> (\<exists>q. w \<in> set (cl q) \<and> q \<noteq> p)" by (auto split: if_splits)
    ultimately show ?thesis using dj p by blast
  qed
  moreover have "\<forall>x y. x \<noteq> y \<longrightarrow> set ((cl(p := [])) x) \<inter> set ((cl(p := [])) y) = {}"
    using own by (simp add: own_ok_def)
  moreover have "\<forall>x. (cl(p := [])) x \<noteq> [] \<longrightarrow> (\<exists>n. wf_group (pm_config s) n ((cl(p := [])) x))"
    using own by (simp add: own_ok_def)
  ultimately show ?thesis using t c by (simp add: own_ok_def)
qed

subsection \<open>Ending an engine\<close>

lemma end_engine_ok:
  assumes inv: "mgr_inv s g" and e: "map_of (pm_engine_stats s) i = Some e" "es_stopping e"
  shows "\<exists>s'. end_engine en i e s = Inr s' \<and> mgr_inv (s'\<lparr>pm_engine_stats := AList.delete i (pm_engine_stats s')\<rparr>) g
    \<and> pm_config s' = pm_config s \<and> pm_num_in_creating s' = pm_num_in_creating s \<and> pm_engine_stats s' = pm_engine_stats s"
proof -
  have c: "wf_conf (pm_config s)" and own: "own_ok s (claims s g)" and eo: "engines_ok s" and dk: "data_ok s"
    and po: "pids_ok s (pids s g)" and lam: "laminar (entries s)"
    using inv by (simp_all add: mgr_inv_def)
  have ok: "engine_ok s i e" using eo e(1) by (simp add: engines_ok_def)
  let ?pid = "nat (es_prewarm_engine_id e)" and ?m = "es_model e"
  have pid: "0 \<le> es_prewarm_engine_id e" "es_prewarm_engine_id e \<noteq> - 1" using ok by (auto simp: engine_ok_def)
  have run: "?pid \<in> set (pm_running_engines s)" using po e(1) unfolding pids_ok_def by (metis option.simps(9) pids.simps(1))
  define s1 where "s1 = call [Kill_Engine (es_prewarm_engine_id e)]
    (s\<lparr>pm_running_engines := removeAll ?pid (pm_running_engines s)\<rparr>)"
  have k: "kill_engine (es_prewarm_engine_id e) s = Inr s1" using pid run by (simp add: kill_engine_def s1_def)
  obtain st where st: "pm_model_stats s ?m = Some st" "int i \<in> set (ms_stopping_engines st)" using ok e(2) by (auto simp: engine_ok_def)
  define s2 where "s2 = s1\<lparr>pm_model_stats := (pm_model_stats s)(?m \<mapsto>
    st\<lparr>ms_stopping_engines := removeAll (int i) (ms_stopping_engines st)\<rparr>)\<rparr>"
  have rs: "remove_stopping ?m i s1 = Inr s2" using st by (simp add: remove_stopping_def s2_def s1_def call_def set_remove_def)
  have w12: "pm_config s2 = pm_config s" "pm_worker_stats s2 = pm_worker_stats s" "pm_gpu_mem s2 = pm_gpu_mem s"
    "pm_model_workers s2 = pm_model_workers s" "pm_node_models s2 = pm_node_models s" "pm_in_prewarming s2 = pm_in_prewarming s"
    by (simp_all add: s2_def s1_def call_def)
  have cle: "claims s g (Eng i) = es_workers e" using e(1) by simp
  have ne: "es_workers e \<noteq> []" using ok by (simp add: engine_ok_def)
  obtain n where wf: "wf_group (pm_config s) n (es_workers e)" using own cle ne unfolding own_ok_def by metis
  have sz2: "sized s2" using own w12 by (simp add: own_ok_def sized_def)
  have lt: "\<forall>w \<in> set (es_workers e). w < num_workers (pm_config s2)" using wf_group_lt [OF c wf] w12(1) by simp
  obtain s3 where s3: "fold_r (release_worker en) (es_workers e) s2 = Inr s3" "engine_part s3 = engine_part s2" "sized s3"
      "pm_model_workers s3 = pm_model_workers s2" "pm_node_models s3 = pm_node_models s2"
      "pm_in_prewarming s3 = pm_in_prewarming s2" "remark (\<lambda>w. busy s2 w \<and> w \<notin> set (es_workers e)) (pm_worker_stats s3) s2"
    using release_workers_ok [OF sz2 lt] by blast
  note d3 = engine_partD [OF s3(2)]
  have lti: "i < length (pm_engine_data s3)" if q: "mc_enable_kv_prewarm (pm_config s3)"
    using dk ok q d3 by (simp add: data_ok_def engine_ok_def s2_def s1_def call_def)
  define ds where "ds = (if mc_enable_kv_prewarm (pm_config s3)
    then (pm_engine_data s3)[i := (pm_engine_data s3 ! i)\<lparr>ed_alive := False\<rparr>] else pm_engine_data s3)"
  define s4 where "s4 = s3\<lparr>pm_engine_data := ds\<rparr>"
  have fin: "end_engine en i e s = Inr s4"
    using k rs s3(1) lti by (auto simp: end_engine_def s4_def ds_def upd_nth_def)
  define s' where "s' = s4\<lparr>pm_engine_stats := AList.delete i (pm_engine_stats s4)\<rparr>"
  have f: "pm_config s' = pm_config s" "pm_engine_counter s' = pm_engine_counter s" "pm_model_engines s' = pm_model_engines s"
    "pm_num_engines s' = pm_num_engines s" "pm_model_stats s' = pm_model_stats s2" "pm_prewarmed_engines s' = pm_prewarmed_engines s"
    "pm_extend_future s' = pm_extend_future s" "pm_prewarm_engine_counter s' = pm_prewarm_engine_counter s"
    "pm_running_engines s' = removeAll ?pid (pm_running_engines s)" "pm_engine_stats s' = AList.delete i (pm_engine_stats s)"
    "pm_worker_stats s' = pm_worker_stats s3" "pm_engine_data s' = ds" "pm_data_future s' = pm_data_future s"
    "pm_node_models s' = pm_node_models s" "pm_model_workers s' = pm_model_workers s" "pm_in_prewarming s' = pm_in_prewarming s"
    by (simp_all add: s'_def s4_def d3 s3(4-6) s2_def s1_def call_def)
  have mp: "map_of (pm_engine_stats s') = (map_of (pm_engine_stats s))(i := None)" unfolding f(10) by (rule delete_conv')
  have mo: "models s' = models s" by (rule models_cong [OF f(1)])
  have ms: "pm_model_stats s2 = (pm_model_stats s)(?m \<mapsto> st\<lparr>ms_stopping_engines := removeAll (int i) (ms_stopping_engines st)\<rparr>)"
    by (simp add: s2_def)
  have "engines_ok s'"
  proof -
    have "engine_ok s' j d" if q: "map_of (pm_engine_stats s') j = Some d" for j d
    proof -
      have j: "j \<noteq> i" "map_of (pm_engine_stats s) j = Some d" using q mp by (auto split: if_splits)
      have "engine_ok s j d" using eo j(2) by (simp add: engines_ok_def)
      then show ?thesis using j(1) st(1) by (auto simp: engine_ok_def f(2,5) ms mo)
    qed
    moreover have "\<forall>m j. j \<in> set (default_get (pm_model_engines s') m) \<longleftrightarrow>
        (\<exists>d. map_of (pm_engine_stats s') j = Some d \<and> es_model d = m \<and> \<not> es_stopping d)"
    proof -
      have "\<And>m j. j \<in> set (default_get (pm_model_engines s) m) \<longleftrightarrow>
          (\<exists>d. map_of (pm_engine_stats s) j = Some d \<and> es_model d = m \<and> \<not> es_stopping d)"
        using eo unfolding engines_ok_def by blast
      then show ?thesis unfolding f(3) mp using e by auto
    qed
    moreover have "distinct (map fst (pm_engine_stats s'))" unfolding f(10) using eo by (simp add: engines_ok_def distinct_delete)
    moreover have "\<forall>m \<in> models s'. pm_model_stats s' m \<noteq> None" using eo unfolding f(5) ms mo by (simp add: engines_ok_def)
    moreover have "(\<forall>m. distinct (default_get (pm_model_engines s') m))
      \<and> (\<forall>m \<in> models s'. pm_num_engines s' m = Some (int (length (default_get (pm_model_engines s') m))))"
      using eo unfolding f(3,4) mo by (simp add: engines_ok_def)
    ultimately show ?thesis unfolding engines_ok_def by blast
  qed
  moreover have "own_ok s' (claims s' g)"
  proof -
    have "claims s' g = (claims s g)(Eng i := [])"
    proof
      fix q show "claims s' g q = ((claims s g)(Eng i := [])) q" by (cases q) (auto simp: mp)
    qed
    moreover have "sized s'" using s3(3) d3(1) w12(1) f(1,11) by (simp add: sized_def s'_def s4_def)
    moreover have "ctl_tables_ok s'" using own f(1,14-16) by (simp add: own_ok_def ctl_tables_ok_def)
    moreover have "remark (\<lambda>w. busy s w \<and> w \<notin> set (es_workers e)) (pm_worker_stats s') s"
      using s3(7) w12(2) f(11) by (simp add: remark_def busy_def)
    ultimately show ?thesis using own_ok_release [OF own cle f(1)] by simp
  qed
  moreover have "pids_ok s' (pids s' g)"
  proof -
    have pq: "pids s' g = (pids s g)(Eng i := None)"
    proof
      fix q show "pids s' g q = ((pids s g)(Eng i := None)) q" by (cases q) (auto simp: mp)
    qed
    have pi: "pids s g (Eng i) = Some ?pid" using e(1) by simp
    have inj: "\<And>x y p. pids s g x = Some p \<Longrightarrow> pids s g y = Some p \<Longrightarrow> x = y"
      and rn: "\<And>x p. pids s g x = Some p \<Longrightarrow> p \<in> set (pm_running_engines s)" using po unfolding pids_ok_def by blast+
    have a: "p \<in> set (pm_running_engines s')" if q: "pids s' g x = Some p" for x p
    proof -
      have x: "x \<noteq> Eng i" "pids s g x = Some p" using q pq by (auto split: if_splits)
      have "p \<noteq> ?pid" using inj [OF x(2), of "Eng i"] pi x(1) by auto
      then show ?thesis using rn [OF x(2)] f(9) by simp
    qed
    have b: "x = y" if q: "pids s' g x = Some p" "pids s' g y = Some p" for x y p
      using q inj [of x p y] pq by (auto split: if_splits)
    have "engine_pool s' = engine_pool s" using f(6,7) by (simp add: engine_pool_def)
    then show ?thesis using po a b unfolding pids_ok_def f(7-9) by auto
  qed
  moreover have "data_ok s'"
  proof -
    have d: "pm_engine_data s3 = pm_engine_data s" using d3 by (simp add: s2_def s1_def call_def)
    have "length ds = length (pm_engine_data s)" by (simp add: ds_def d)
    moreover have "\<forall>x \<in> set ds. ed_total_blocks x \<noteq> None \<longrightarrow> ed_block_size x \<noteq> None"
    proof
      fix x assume x: "x \<in> set ds"
      show "ed_total_blocks x \<noteq> None \<longrightarrow> ed_block_size x \<noteq> None"
      proof (cases "x \<in> set (pm_engine_data s)")
        case True
        then show ?thesis using dk by (simp add: data_ok_def)
      next
        case False
        then have "x = (pm_engine_data s ! i)\<lparr>ed_alive := False\<rparr>" "i < length (pm_engine_data s)"
          using x lti d unfolding ds_def by (auto split: if_splits dest: set_update_subset_insert [THEN subsetD])
        then show ?thesis using dk nth_mem [of i "pm_engine_data s"] by (simp add: data_ok_def)
      qed
    qed
    ultimately show ?thesis using dk unfolding data_ok_def f(1,2,12,13) by simp
  qed
  moreover have "entries s' = entries s" using f(14,16) by (rule entries_cong)
  ultimately have "mgr_inv s' g" using c lam f(1) by (simp add: mgr_inv_def)
  moreover have "pm_config s4 = pm_config s" "pm_num_in_creating s4 = pm_num_in_creating s" "pm_engine_stats s4 = pm_engine_stats s"
    by (simp_all add: s4_def d3 s2_def s1_def call_def)
  ultimately show ?thesis using fin by (auto simp: s'_def)
qed

text \<open>
  The invariant under the sections that only change the KV data of an engine, the memory counters
  and what an engine process is told: draining, the two operations of an engine's allocator, and
  the last section of a creation. Then the body of the loop over the engines as a whole.
\<close>

definition data_only :: "manager \<Rightarrow> manager \<Rightarrow> bool" where
  "data_only s s' \<longleftrightarrow> (\<exists>ds mem inf cs. s' = s\<lparr>pm_engine_data := ds, pm_gpu_mem := mem, pm_prewarm_engine_info := inf, pm_calls := cs\<rparr>
     \<and> length ds = length (pm_engine_data s) \<and> length mem = length (pm_gpu_mem s)
     \<and> ((\<forall>d \<in> set (pm_engine_data s). ed_total_blocks d \<noteq> None \<longrightarrow> ed_block_size d \<noteq> None) \<longrightarrow>
        (\<forall>d \<in> set ds. ed_total_blocks d \<noteq> None \<longrightarrow> ed_block_size d \<noteq> None)))"

lemma data_only_keeps:
  assumes "data_only s s'"
  shows "pm_config s' = pm_config s" "pm_engine_stats s' = pm_engine_stats s" "pm_num_in_creating s' = pm_num_in_creating s"
    "models s' = models s"
  using assms by (auto simp: data_only_def models_def)

lemma mgr_inv_data_only:
  assumes inv: "mgr_inv s g" and d: "data_only s s'"
  shows "mgr_inv s' g"
proof -
  obtain ds mem inf cs where s': "s' = s\<lparr>pm_engine_data := ds, pm_gpu_mem := mem, pm_prewarm_engine_info := inf, pm_calls := cs\<rparr>"
    "length ds = length (pm_engine_data s)" "length mem = length (pm_gpu_mem s)"
    "(\<forall>d \<in> set (pm_engine_data s). ed_total_blocks d \<noteq> None \<longrightarrow> ed_block_size d \<noteq> None) \<longrightarrow>
        (\<forall>d \<in> set ds. ed_total_blocks d \<noteq> None \<longrightarrow> ed_block_size d \<noteq> None)"
    using d unfolding data_only_def by blast
  have "own_ok s' (claims s' g) = own_ok s (claims s' g)" by (rule own_ok_cong) (simp_all add: s'(1,3))
  moreover have "claims s' = claims s" by (rule claims_cong) (simp add: s'(1))
  moreover have "engines_ok s' = engines_ok s" by (rule engines_ok_cong) (simp_all add: s'(1))
  moreover have "pids_ok s' (pids s' g) = pids_ok s (pids s' g)" by (rule pids_ok_cong) (simp_all add: s'(1))
  moreover have "pids s' = pids s" by (rule pids_cong) (simp add: s'(1))
  moreover have "entries s' = entries s" by (rule entries_cong) (simp_all add: s'(1))
  moreover have "data_ok s'" using inv s' by (simp add: mgr_inv_def data_ok_def)
  moreover have "pm_config s' = pm_config s" by (simp add: s'(1))
  ultimately show ?thesis using inv by (simp add: mgr_inv_def)
qed

subsection \<open>Draining\<close>

lemma data_update:
  assumes "\<forall>d \<in> set ds. P d" and "P x"
  shows "\<forall>d \<in> set (ds[i := x]). P d"
  using assms set_update_subset_insert [of ds i x] by blast

lemma data_onlyI:
  assumes "i < length (pm_engine_data s)" and "length mem = length (pm_gpu_mem s)"
    and "ed_total_blocks (pm_engine_data s ! i) \<noteq> None \<longrightarrow> ed_block_size (pm_engine_data s ! i) \<noteq> None \<Longrightarrow>
      ed_total_blocks d \<noteq> None \<longrightarrow> ed_block_size d \<noteq> None"
  shows "data_only s (s\<lparr>pm_engine_data := (pm_engine_data s)[i := d], pm_gpu_mem := mem, pm_calls := cs\<rparr>)"
proof -
  let ?P = "\<lambda>d. ed_total_blocks d \<noteq> None \<longrightarrow> ed_block_size d \<noteq> None"
  have "\<forall>d \<in> set ((pm_engine_data s)[i := d]). ?P d" if q: "\<forall>d \<in> set (pm_engine_data s). ?P d"
  proof (rule data_update [OF q])
    have "?P (pm_engine_data s ! i)" using q assms(1) nth_mem by blast
    then show "?P d" by (rule assms(3))
  qed
  then show ?thesis using assms(2) unfolding data_only_def
    by (intro exI [of _ "(pm_engine_data s)[i := d]"] exI [of _ mem] exI [of _ "pm_prewarm_engine_info s"] exI [of _ cs]) simp
qed

lemma add_gpu_mem_ok:
  "\<forall>w \<in> set ws. w < length (pm_gpu_mem s) \<Longrightarrow>
   \<exists>mem. fold_r (add_gpu_mem k) ws s = Inr (s\<lparr>pm_gpu_mem := mem\<rparr>) \<and> length mem = length (pm_gpu_mem s)"
proof (induction ws arbitrary: s)
  case Nil
  then show ?case by (intro exI [of _ "pm_gpu_mem s"]) simp
next
  case (Cons w ws)
  let ?s = "s\<lparr>pm_gpu_mem := (pm_gpu_mem s)[w := pm_gpu_mem s ! w + k]\<rparr>"
  have "add_gpu_mem k w s = Inr ?s" using Cons.prems by (simp add: add_gpu_mem_def upd_nth_def)
  moreover obtain mem where "fold_r (add_gpu_mem k) ws ?s = Inr (?s\<lparr>pm_gpu_mem := mem\<rparr>)" "length mem = length (pm_gpu_mem ?s)"
    using Cons.IH [of ?s] Cons.prems by auto
  ultimately show ?case by (intro exI [of _ mem]) simp
qed

lemma drain_engine_ok:
  assumes i: "i < length (pm_engine_data s)" and w: "\<forall>w \<in> set (es_workers e). w < length (pm_gpu_mem s)"
    and d: "ed_total_blocks (pm_engine_data s ! i) \<noteq> None \<longrightarrow> ed_block_size (pm_engine_data s ! i) \<noteq> None"
  shows "\<exists>s'. drain_engine i e s = Inr s' \<and> data_only s s'"
proof (cases "ed_total_blocks (pm_engine_data s ! i)")
  case None
  then have "drain_engine i e s = Inr s" using i by (simp add: drain_engine_def)
  moreover have "data_only s s" using data_onlyI [OF i refl, of "pm_engine_data s ! i" "pm_calls s"] by simp
  ultimately show ?thesis by blast
next
  case (Some t)
  define d1 where "d1 = (pm_engine_data s ! i)\<lparr>ed_target_free_blocks := trunc_div (t * es_num_reqs e) BATCH_SIZE\<rparr>"
  obtain b where b: "ed_block_size d1 = Some b" using d Some by (auto simp: d1_def)
  show ?thesis
  proof (cases "ed_last_reserved d1 < ed_cur_reserved d1")
    case True
    let ?ids = "map (ed_ids d1) [ed_last_reserved d1..<ed_cur_reserved d1]"
    let ?s = "call (map (\<lambda>w. Release_Blocks w ?ids b t) (es_workers e)) s"
    obtain mem where m: "fold_r (add_gpu_mem (int (length ?ids) * b)) (es_workers e) ?s = Inr (?s\<lparr>pm_gpu_mem := mem\<rparr>)"
      "length mem = length (pm_gpu_mem ?s)"
      using add_gpu_mem_ok [of "es_workers e" ?s "int (length ?ids) * b"] w by (auto simp: call_def)
    let ?d = "d1\<lparr>ed_last_reserved := ed_cur_reserved d1\<rparr>"
    let ?s' = "s\<lparr>pm_engine_data := (pm_engine_data s)[i := ?d], pm_gpu_mem := mem, pm_calls := pm_calls ?s\<rparr>"
    have "drain_engine i e s = Inr ?s'" using i Some True b m(1) by (simp add: drain_engine_def d1_def Let_def call_def)
    moreover have "data_only s ?s'" by (rule data_onlyI [OF i]) (use m(2) b in \<open>simp_all add: call_def\<close>)
    ultimately show ?thesis by blast
  next
    case False
    then have "drain_engine i e s = Inr (s\<lparr>pm_engine_data := (pm_engine_data s)[i := d1]\<rparr>)"
      using i Some by (simp add: drain_engine_def d1_def Let_def)
    moreover have "data_only s (s\<lparr>pm_engine_data := (pm_engine_data s)[i := d1]\<rparr>)"
      using data_onlyI [OF i refl, of d1 "pm_calls s"] b by simp
    ultimately show ?thesis by blast
  qed
qed

subsection \<open>The body of the loop over the engines\<close>

lemma check_engine_ok:
  assumes inv: "mgr_inv s g" and i: "i \<in> fst ` set (pm_engine_stats s)"
  shows "\<exists>s'. check_engine en i s = Inr s' \<and> mgr_inv s' g \<and> pm_config s' = pm_config s
    \<and> pm_num_in_creating s' = pm_num_in_creating s
    \<and> fst ` set (pm_engine_stats s) - {i} \<subseteq> fst ` set (pm_engine_stats s')"
proof -
  have c: "wf_conf (pm_config s)" and own: "own_ok s (claims s g)" and eo: "engines_ok s" and dk: "data_ok s"
    using inv by (simp_all add: mgr_inv_def)
  obtain e where e: "map_of (pm_engine_stats s) i = Some e" using i by (metis map_of_eq_None_iff not_None_eq)
  have ok: "engine_ok s i e" using eo e by (simp add: engines_ok_def)
  consider "\<not> es_stopping e" | "es_stopping e" "es_num_reqs e = 0" | "es_stopping e" "es_num_reqs e \<noteq> 0" "\<not> mc_enable_kv_prewarm (pm_config s)"
    | "es_stopping e" "es_num_reqs e \<noteq> 0" "mc_enable_kv_prewarm (pm_config s)" by blast
  then show ?thesis
  proof cases
    case 2
    obtain s1 where s1: "end_engine en i e s = Inr s1" "mgr_inv (s1\<lparr>pm_engine_stats := AList.delete i (pm_engine_stats s1)\<rparr>) g"
      "pm_config s1 = pm_config s" "pm_num_in_creating s1 = pm_num_in_creating s" "pm_engine_stats s1 = pm_engine_stats s"
      using end_engine_ok [OF inv e 2(1), of en] by blast
    let ?s' = "s1\<lparr>pm_engine_stats := AList.delete i (pm_engine_stats s1)\<rparr>"
    have "fst ` set (pm_engine_stats s) - {i} \<subseteq> fst ` set (pm_engine_stats ?s')"
      by (auto simp: s1(5) AList.delete_eq)
    then show ?thesis using e 2 s1 by (simp add: check_engine_def engine_of_def)
  next
    case 4
    have il: "i < length (pm_engine_data s)" using dk ok 4(3) by (simp add: data_ok_def engine_ok_def)
    have cle: "claims s g (Eng i) = es_workers e" using e by simp
    have ne: "es_workers e \<noteq> []" using ok by (simp add: engine_ok_def)
    obtain n where wf: "wf_group (pm_config s) n (es_workers e)" using own cle ne unfolding own_ok_def by metis
    have w: "\<forall>w \<in> set (es_workers e). w < length (pm_gpu_mem s)" using wf_group_lt [OF c wf] own by (simp add: own_ok_def sized_def)
    have "pm_engine_data s ! i \<in> set (pm_engine_data s)" using il by (rule nth_mem)
    then have d: "ed_total_blocks (pm_engine_data s ! i) \<noteq> None \<longrightarrow> ed_block_size (pm_engine_data s ! i) \<noteq> None"
      using dk unfolding data_ok_def by blast
    obtain s' where s': "drain_engine i e s = Inr s'" "data_only s s'" using drain_engine_ok [OF il w d] by blast
    have "check_engine en i s = Inr s'" using e 4 s'(1) by (simp add: check_engine_def engine_of_def)
    then show ?thesis using mgr_inv_data_only [OF inv s'(2)] data_only_keeps [OF s'(2)] by auto
  qed (use e inv in \<open>simp_all add: check_engine_def engine_of_def Diff_subset\<close>)
qed

subsection \<open>The allocator of an engine, and the last section of a creation\<close>

lemma kv_reserve_ok:
  assumes "i < length (pm_engine_data s)"
  shows "\<exists>s'. kv_reserve i ids s = Inr s' \<and> data_only s s'"
proof -
  let ?d = "pm_engine_data s ! i"
  obtain d where d: "kv_reserve i ids s = Inr (s\<lparr>pm_engine_data := (pm_engine_data s)[i := d]\<rparr>)"
    "ed_total_blocks d = ed_total_blocks ?d" "ed_block_size d = ed_block_size ?d"
    using assms by (simp add: kv_reserve_def upd_nth_def)
  have "data_only s (s\<lparr>pm_engine_data := (pm_engine_data s)[i := d]\<rparr>)"
    using data_onlyI [OF assms refl, of d "pm_calls s"] d(2,3) by simp
  then show ?thesis using d(1) by blast
qed

lemma register_blocks_ok:
  assumes e: "i \<in> fst ` set (pm_engine_stats s)" and il: "i < length (pm_engine_data s)"
  shows "\<exists>s'. register_blocks i t mb s = Inr s' \<and> data_only s s'"
proof -
  obtain e where e: "map_of (pm_engine_stats s) i = Some e" using assms(1) by (metis map_of_eq_None_iff not_None_eq)
  obtain d where d: "register_blocks i t mb s = Inr (s\<lparr>pm_engine_data := (pm_engine_data s)[i := d]\<rparr>)" "ed_block_size d \<noteq> None"
    using e il by (simp add: register_blocks_def engine_of_def register_kv_def upd_nth_def Let_def)
  have "data_only s (s\<lparr>pm_engine_data := (pm_engine_data s)[i := d]\<rparr>)"
    using data_onlyI [OF il refl, of d "pm_calls s"] d(2) by simp
  then show ?thesis using d(1) by blast
qed

lemma data_only_inform: "data_only s (inform_engine pid ws i s)"
proof -
  let ?inf = "(pm_prewarm_engine_info s)(pid \<mapsto> (ws, i))"
  have "inform_engine pid ws i s = s\<lparr>pm_engine_data := pm_engine_data s, pm_gpu_mem := pm_gpu_mem s,
      pm_prewarm_engine_info := ?inf, pm_calls := pm_calls s\<rparr>"
    by (simp add: inform_engine_def)
  then show ?thesis unfolding data_only_def by blast
qed

lemma advance_addressing:
  assumes inv: "mgr_inv s g" and p: "p = Act \<or> p = Scl" and g: "g p = Some (Addressing direct mi ws)"
  shows "mgr_inv s (g(p := Some (Starting direct mi ws port)))"
  using mgr_inv_same [OF inv p, of "Some (Starting direct mi ws port)"] g by (simp add: opt_workers_def opt_pid_def)

lemma advance_informing:
  assumes inv: "mgr_inv s g" and p: "p = Act \<or> p = Scl" and g: "g p = Some (Informing ws pid i)"
  shows "mgr_inv (inform_engine pid ws i s) (g(p := None))"
  using mgr_inv_same [OF mgr_inv_data_only [OF inv data_only_inform] p, of None] g by (simp add: opt_workers_def opt_pid_def)

end
