(* ===== verification/Ctl_Copies.thy ===== *)
theory Ctl_Copies
  imports Ctl_Check
begin

text \<open>
  The invariant under the thread of \<open>prewarm_model_loop\<close>: a load that completes becomes a
  prewarmed copy, and the loads that the scheduler plans keep the copies of the cluster laminar, since
  the plan is computed from exactly the copies that exist or are being loaded.
\<close>

lemma laminar_subset: "laminar E \<Longrightarrow> E' \<subseteq> E \<Longrightarrow> laminar E'"
  unfolding laminar_def by blast

definition copies_only :: "manager \<Rightarrow> manager \<Rightarrow> bool" where
  "copies_only s s' \<longleftrightarrow> engine_part s' = engine_part s \<and> pm_worker_stats s' = pm_worker_stats s
     \<and> length (pm_gpu_mem s') = length (pm_gpu_mem s)"

lemma copies_only_refl [simp]: "copies_only s s"
  by (simp add: copies_only_def)

lemma copies_only_trans: "copies_only s s' \<Longrightarrow> copies_only s' s'' \<Longrightarrow> copies_only s s''"
  by (simp add: copies_only_def)

lemma mgr_inv_copies:
  assumes inv: "mgr_inv s g" and e: "copies_only s s'" and t: "ctl_tables_ok s'" and l: "laminar (entries s')"
  shows "mgr_inv s' g"
proof -
  have ep: "engine_part s' = engine_part s" and w: "pm_worker_stats s' = pm_worker_stats s"
    "length (pm_gpu_mem s') = length (pm_gpu_mem s)" using e by (simp_all add: copies_only_def)
  note k = engine_part_keeps [OF ep] and c = engine_partD(1) [OF ep]
  have "own_ok s' (claims s' g)"
    using inv t w unfolding k(6) by (simp add: mgr_inv_def own_ok_def sized_def busy_def c)
  then show ?thesis using inv l k c by (simp add: mgr_inv_def)
qed

subsection \<open>Loads that complete\<close>

lemma record_prewarmed_ok:
  assumes t: "nodes_ok (pm_config s) (pm_node_models s) (pm_model_workers s)" and wf: "wf_group (pm_config s) n ws"
  shows "\<exists>nm mw. record_prewarmed n m ws s = Inr (s\<lparr>pm_node_models := nm, pm_model_workers := mw\<rparr>)
    \<and> nodes_ok (pm_config s) nm mw \<and> (\<Union>models \<in> set nm. set models) \<subseteq> insert (m, ws) (\<Union>models \<in> set (pm_node_models s). set models)"
proof -
  let ?nm = "pm_node_models s" and ?mw = "pm_model_workers s"
  have n: "n < length ?nm" using t wf by (simp add: nodes_ok_def wf_group_def)
  define nm where "nm = ?nm[n := set_add (m, ws) (?nm ! n)]"
  define mw where "mw = ?mw(m \<mapsto> set_add ws (default_get ?mw m))"
  have run: "record_prewarmed n m ws s = Inr (s\<lparr>pm_node_models := nm, pm_model_workers := mw\<rparr>)"
    using n by (simp add: record_prewarmed_def upd_nth_def nm_def mw_def)
  have sa: "set (set_add x xs) = insert x (set xs)" "distinct (set_add x xs) = distinct xs" for x :: 'x and xs
    by (auto simp: set_add_def)
  have a: "k < length nm \<Longrightarrow> set (nm ! k) = (if k = n then insert (m, ws) (set (?nm ! n)) else set (?nm ! k))" for k
    by (simp add: nm_def nth_list_update sa)
  have dg: "default_get mw m' = (if m' = m then set_add ws (default_get ?mw m) else default_get ?mw m')" for m'
    by (simp add: mw_def default_get_def [of "?mw(m \<mapsto> xs)" for xs]) (simp add: default_get_def)
  have b: "set (default_get mw m') = (if m' = m then insert ws (set (default_get ?mw m)) else set (default_get ?mw m'))" for m'
    by (simp add: dg sa)
  have len: "length nm = length ?nm" by (simp add: nm_def)
  have "nodes_ok (pm_config s) nm mw"
  proof -
    have "distinct (nm ! k)" if q: "k < length nm" for k
    proof -
      have "distinct (?nm ! k)" "distinct (?nm ! n)" using t q n len unfolding nodes_ok_def by simp_all
      then show ?thesis using n by (simp add: nm_def nth_list_update sa)
    qed
    moreover have "distinct (default_get mw m')" for m'
    proof -
      have "distinct (default_get ?mw m')" "distinct (default_get ?mw m)" using t unfolding nodes_ok_def by blast+
      then show ?thesis by (simp add: dg sa)
    qed
    moreover have "wf_group (pm_config s) k vs" if q: "k < length nm" "(m', vs) \<in> set (nm ! k)" for k m' vs
    proof -
      have "\<And>k m' vs. k < length ?nm \<Longrightarrow> (m', vs) \<in> set (?nm ! k) \<Longrightarrow> wf_group (pm_config s) k vs"
        using t unfolding nodes_ok_def by blast
      then show ?thesis using q a [OF q(1)] wf len n by (cases "k = n") auto
    qed
    moreover have "vs \<in> set (default_get mw m') \<longleftrightarrow> (\<exists>k < length nm. (m', vs) \<in> set (nm ! k))" for m' vs
    proof -
      have "vs \<in> set (default_get ?mw m') \<longleftrightarrow> (\<exists>k < length ?nm. (m', vs) \<in> set (?nm ! k))"
        using t unfolding nodes_ok_def by blast
      moreover have "(\<exists>k < length nm. (m', vs) \<in> set (nm ! k)) \<longleftrightarrow> (m', vs) = (m, ws) \<or> (\<exists>k < length ?nm. (m', vs) \<in> set (?nm ! k))"
        using a n len by (metis insert_iff)
      ultimately show ?thesis using b [of m'] by auto
    qed
    moreover have "length nm = mc_num_servers (pm_config s)" using t len by (simp add: nodes_ok_def)
    ultimately show ?thesis unfolding nodes_ok_def by blast
  qed
  moreover have "(\<Union>models \<in> set nm. set models) \<subseteq> insert (m, ws) (\<Union>models \<in> set ?nm. set models)"
  proof
    fix x assume "x \<in> (\<Union>models \<in> set nm. set models)"
    then obtain models where "models \<in> set nm" "x \<in> set models" by blast
    then obtain k where k: "k < length nm" "x \<in> set (nm ! k)" by (metis in_set_conv_nth)
    then have "x = (m, ws) \<or> x \<in> set (?nm ! k)" using a [OF k(1)] by (auto split: if_splits)
    then show "x \<in> insert (m, ws) (\<Union>models \<in> set ?nm. set models)" using k(1) len nth_mem [of k ?nm] by auto
  qed
  ultimately show ?thesis using run by blast
qed

lemma ask_completed_ok:
  "\<forall>r \<in> set rs. r < length (pj_workers j) \<Longrightarrow> 0 < tensor_parallel_size (pj_info j) \<Longrightarrow>
   \<exists>b. ask_completed en j rs = Inr b"
proof (induction rs)
  case (Cons r rs)
  obtain mi where "get_info (pj_info j) (int r) = Inr mi" using Cons.prems(2) by (simp add: get_info_def)
  then show ?case using Cons by fastforce
qed simp

text \<open>What one round over the loads of a node keeps; \<open>E\<close> are the copies before the round.\<close>

definition round_ok :: "(string \<times> nat list) set \<Rightarrow> manager \<Rightarrow> nat \<Rightarrow> prewarm_job list \<times> manager \<Rightarrow> bool" where
  "round_ok E s n kt \<longleftrightarrow> (let (kept, t) = kt in copies_only s t \<and> pm_in_prewarming t = pm_in_prewarming s
     \<and> nodes_ok (pm_config s) (pm_node_models t) (pm_model_workers t)
     \<and> (\<Union>models \<in> set (pm_node_models t). set models) \<subseteq> E
     \<and> (\<forall>j \<in> set kept. job_ok (pm_config s) n j \<and> (model_name (pj_info j), pj_workers j) \<in> E))"

lemma check_job_ok:
  assumes r: "round_ok E s n (kept, t)" and j: "job_ok (pm_config s) n j" and e: "(model_name (pj_info j), pj_workers j) \<in> E"
  shows "\<exists>kt. check_job en n j (kept, t) = Inr kt \<and> round_ok E s n kt"
proof -
  let ?fut = "if pj_futures j = [] then [] else en_wait en (pj_futures j)"
  let ?j = "j\<lparr>pj_futures := ?fut\<rparr>"
  have keep: "round_ok E s n (kept @ [?j\<lparr>pj_unfin := us\<rparr>], t)" if q: "set us \<subseteq> set (pj_unfin j)" for us
    using r j e q by (auto simp: round_ok_def job_ok_def)
  show ?thesis
  proof (cases "?fut = []")
    case False
    then show ?thesis using keep [of "pj_unfin j"] by (simp add: check_job_def Let_def)
  next
    case True
    obtain b where b: "ask_completed en ?j (pj_unfin ?j) = Inr b"
      using ask_completed_ok [of "pj_unfin ?j" ?j en] j by (auto simp: job_ok_def)
    consider "b = None" | bs where "b = Some bs" "\<not> list_all id bs" | bs where "b = Some bs" "list_all id bs" by (cases b) auto
    then show ?thesis
    proof cases
      case 1
      then show ?thesis using True b keep [of "pj_unfin j"] by (simp add: check_job_def Let_def)
    next
      case 2
      let ?us = "map fst (filter (\<lambda>x. \<not> snd x) (zip (pj_unfin j) bs))"
      have "set ?us \<subseteq> set (pj_unfin j)" by (auto dest: set_zip_leftD)
      from keep [OF this] show ?thesis using True b 2 by (simp add: check_job_def Let_def)
    next
      case 3
      have c: "pm_config t = pm_config s" using r by (auto simp: round_ok_def copies_only_def dest: engine_partD(1))
      have "nodes_ok (pm_config t) (pm_node_models t) (pm_model_workers t)" using r c by (simp add: round_ok_def)
      moreover have "wf_group (pm_config t) n (pj_workers j)" using j c by (simp add: job_ok_def)
      ultimately obtain nm mw where rec: "record_prewarmed n (model_name (pj_info j)) (pj_workers j) t
          = Inr (t\<lparr>pm_node_models := nm, pm_model_workers := mw\<rparr>)"
        "nodes_ok (pm_config t) nm mw"
        "(\<Union>models \<in> set nm. set models) \<subseteq> insert (model_name (pj_info j), pj_workers j) (\<Union>models \<in> set (pm_node_models t). set models)"
        using record_prewarmed_ok [of t n "pj_workers j" "model_name (pj_info j)"] by blast
      have "check_job en n j (kept, t) = Inr (kept, t\<lparr>pm_node_models := nm, pm_model_workers := mw\<rparr>)"
        using True b 3 rec(1) by (simp add: check_job_def Let_def)
      moreover have "round_ok E s n (kept, t\<lparr>pm_node_models := nm, pm_model_workers := mw\<rparr>)"
        using r rec(2,3) e c by (auto simp: round_ok_def copies_only_def)
      ultimately show ?thesis by blast
    qed
  qed
qed

definition loads_ok :: "manager \<Rightarrow> manager \<Rightarrow> bool" where
  "loads_ok s t \<longleftrightarrow> copies_only s t \<and> ctl_tables_ok t \<and> entries t \<subseteq> entries s"

lemma node_entries: "(\<Union>models \<in> set (pm_node_models s). set models) \<subseteq> entries s"
  by (auto simp: entries_def)

lemma check_node_jobs_ok:
  assumes t: "ctl_tables_ok s"
  shows "\<exists>s'. check_node_jobs en n s = Inr s' \<and> loads_ok s s'"
proof -
  have r0: "round_ok (entries s) s n ([], s)" using t node_entries by (simp add: round_ok_def ctl_tables_ok_def)
  have "\<exists>kt. fold_r (check_job en n) (jobs_of s n) ([], s) = Inr kt \<and> round_ok (entries s) s n kt"
  proof (rule fold_r_total [where P = "round_ok (entries s) s n", OF r0])
    fix j kt
    assume j: "j \<in> set (jobs_of s n)" and r: "round_ok (entries s) s n kt"
    obtain kept t where kt: "kt = (kept, t)" by (cases kt)
    have "job_ok (pm_config s) n j" by (rule in_jobs_of [OF _ j]) (use assms in \<open>simp add: ctl_tables_ok_def\<close>)
    moreover have "(model_name (pj_info j), pj_workers j) \<in> entries s" using j by (auto simp: entries_def)
    ultimately show "\<exists>kt'. check_job en n j kt = Inr kt' \<and> round_ok (entries s) s n kt'"
      using check_job_ok r unfolding kt by blast
  qed
  then obtain kept t where run: "fold_r (check_job en n) (jobs_of s n) ([], s) = Inr (kept, t)" and rt: "round_ok (entries s) s n (kept, t)"
    by auto
  let ?s = "set_jobs n kept t"
  have rt': "copies_only s t" "pm_in_prewarming t = pm_in_prewarming s" "nodes_ok (pm_config s) (pm_node_models t) (pm_model_workers t)"
    "(\<Union>models \<in> set (pm_node_models t). set models) \<subseteq> entries s"
    "\<forall>j \<in> set kept. job_ok (pm_config s) n j \<and> (model_name (pj_info j), pj_workers j) \<in> entries s"
    using rt by (simp_all add: round_ok_def)
  have c: "pm_config t = pm_config s" using rt'(1) by (auto simp: copies_only_def dest: engine_partD(1))
  have jobs: "jobs_of t k = jobs_of s k" for k using rt'(2) by (simp add: jobs_of_def)
  have fr: "copies_only s ?s" "pm_config ?s = pm_config s" "pm_node_models ?s = pm_node_models t" "pm_model_workers ?s = pm_model_workers t"
    using rt'(1) c by (simp_all add: set_jobs_def copies_only_def)
  have "jobs_ok (pm_config s) (pm_in_prewarming ?s)"
    using jobs_ok_set_jobs [of "pm_config s" t kept n] t rt'(2,5) by (simp add: ctl_tables_ok_def)
  then have "ctl_tables_ok ?s" using rt'(3) fr by (simp add: ctl_tables_ok_def)
  moreover have "entries ?s \<subseteq> entries s"
  proof
    fix x assume "x \<in> entries ?s"
    then consider "x \<in> (\<Union>models \<in> set (pm_node_models t). set models)"
      | k j where "j \<in> set (jobs_of ?s k)" "x = (model_name (pj_info j), pj_workers j)"
      unfolding entries_def fr(3) by blast
    then show "x \<in> entries s"
    proof cases
      case 1
      then show ?thesis using rt'(4) by blast
    next
      case 2
      then show ?thesis
      proof (cases "k = n")
        case False
        then have "j \<in> set (jobs_of s k)" using 2(1) by (simp add: jobs)
        then show ?thesis using 2(2) by (auto simp: entries_def)
      qed (use rt'(5) in simp)
    qed
  qed
  ultimately show ?thesis using run fr by (simp add: check_node_jobs_def loads_ok_def)
qed

lemma check_prewarming_models_ok:
  assumes t: "ctl_tables_ok s"
  shows "\<exists>s'. check_prewarming_models en s = Inr s' \<and> loads_ok s s'"
  unfolding check_prewarming_models_def
proof (rule fold_r_total [where P = "loads_ok s"])
  show "loads_ok s s" using t by (simp add: loads_ok_def)
next
  fix n u
  assume u: "loads_ok s u"
  then obtain s' where s': "check_node_jobs en n u = Inr s'" "loads_ok u s'" using check_node_jobs_ok [of u en n] by (auto simp: loads_ok_def)
  have "loads_ok s s'" using u s'(2) copies_only_trans unfolding loads_ok_def by blast
  then show "\<exists>s'. check_node_jobs en n u = Inr s' \<and> loads_ok s s'" using s'(1) by blast
qed

subsection \<open>The view of the scheduler\<close>

text \<open>\<open>node_models\<close> with the loads that run: the copies \<open>E\<close>, each on its node.\<close>

definition view_ok :: "manager_config \<Rightarrow> (string \<times> nat list) list list \<Rightarrow> bool" where
  "view_ok c nm \<longleftrightarrow> length nm = mc_num_servers c \<and> (\<forall>k < length nm. distinct (nm ! k))
     \<and> (\<forall>k < length nm. \<forall>(m, ws) \<in> set (nm ! k). wf_group c k ws)"

lemma set_set_add [simp]: "set (set_add x xs) = insert x (set xs)"
  by (auto simp: set_add_def)

lemma distinct_set_add [simp]: "distinct (set_add x xs) = distinct xs"
  by (simp add: set_add_def)

lemma add_running_ok:
  assumes v: "view_ok c nm" and j: "job_ok c n j"
  shows "\<exists>nm'. add_running (n, j) nm = Inr nm' \<and> view_ok c nm'
    \<and> set (concat nm') = insert (model_name (pj_info j), pj_workers j) (set (concat nm))"
proof -
  let ?e = "(model_name (pj_info j), pj_workers j)" and ?nm = "nm[n := set_add (model_name (pj_info j), pj_workers j) (nm ! n)]"
  have n: "n < length nm" and wf: "wf_group c n (pj_workers j)" using v j by (simp_all add: view_ok_def job_ok_def wf_group_def)
  have nth: "?nm ! k = (if k = n then set_add ?e (nm ! n) else nm ! k)" for k using n by (simp add: nth_list_update)
  have run: "add_running (n, j) nm = Inr ?nm" using n by (simp add: add_running_def upd_nth_def)
  have "distinct (?nm ! k)" if q: "k < length nm" for k
  proof -
    have "distinct (nm ! k)" "distinct (nm ! n)" using v q n unfolding view_ok_def by blast+
    then show ?thesis by (simp add: nth)
  qed
  moreover have "wf_group c k ws" if q: "k < length nm" "(m, ws) \<in> set (?nm ! k)" for k m ws
  proof -
    have "\<And>k m ws. k < length nm \<Longrightarrow> (m, ws) \<in> set (nm ! k) \<Longrightarrow> wf_group c k ws" using v unfolding view_ok_def by blast
    then show ?thesis using q wf n by (cases "k = n") (auto simp: nth)
  qed
  ultimately have "view_ok c ?nm" using v unfolding view_ok_def length_list_update by blast
  moreover have "set (concat ?nm) = insert ?e (set (concat nm))"
  proof -
    have u: "x \<in> set (concat xs) \<longleftrightarrow> (\<exists>k < length xs. x \<in> set (xs ! k))" for x :: "string \<times> nat list" and xs
    proof -
      have "x \<in> set (concat xs) \<longleftrightarrow> (\<exists>ys \<in> set xs. x \<in> set ys)" by simp
      then show ?thesis by (metis in_set_conv_nth)
    qed
    have "x \<in> set (concat ?nm) \<longleftrightarrow> x = ?e \<or> x \<in> set (concat nm)" for x
    proof -
      have "x \<in> set (?nm ! k) \<longleftrightarrow> k = n \<and> x = ?e \<or> x \<in> set (nm ! k)" for k unfolding nth by auto
      then have "(\<exists>k < length ?nm. x \<in> set (?nm ! k)) \<longleftrightarrow> (\<exists>k < length nm. k = n \<and> x = ?e \<or> x \<in> set (nm ! k))" by (simp only: length_list_update)
      then show ?thesis unfolding u using n by blast
    qed
    then show ?thesis by blast
  qed
  ultimately show ?thesis using run by blast
qed

lemma add_running_fold:
  "view_ok c nm \<Longrightarrow> \<forall>(n, j) \<in> set js. job_ok c n j \<Longrightarrow>
   \<exists>nm'. fold_r add_running js nm = Inr nm' \<and> view_ok c nm'
     \<and> set (concat nm') = set (concat nm) \<union> {(model_name (pj_info j), pj_workers j) | n j. (n, j) \<in> set js}"
proof (induction js arbitrary: nm)
  case Nil
  then show ?case by simp
next
  case (Cons x js)
  obtain n j where x: "x = (n, j)" by (cases x)
  have "job_ok c n j" using Cons.prems(2) x by simp
  then obtain nm1 where nm1: "add_running (n, j) nm = Inr nm1" "view_ok c nm1"
    "set (concat nm1) = insert (model_name (pj_info j), pj_workers j) (set (concat nm))"
    using add_running_ok [OF Cons.prems(1)] by blast
  obtain nm' where nm': "fold_r add_running js nm1 = Inr nm'" "view_ok c nm'"
    "set (concat nm') = set (concat nm1) \<union> {(model_name (pj_info j), pj_workers j) | n j. (n, j) \<in> set js}"
    using Cons.IH [OF nm1(2)] Cons.prems(2) by auto
  have "set (concat nm') = set (concat nm) \<union> {(model_name (pj_info j), pj_workers j) | n j. (n, j) \<in> set (x # js)}"
    unfolding nm'(3) nm1(3) x by auto
  then show ?case using nm1(1) nm'(1,2) x by simp
qed

lemma view_distinct: "view_ok c nm \<Longrightarrow> distinct (concat nm)"
proof -
  assume v: "view_ok c nm"
  have d: "set (nm ! i) \<inter> set (nm ! k) = {}" if q: "i < length nm" "k < length nm" "i \<noteq> k" for i k
  proof (rule ccontr)
    assume "set (nm ! i) \<inter> set (nm ! k) \<noteq> {}"
    then obtain m ws where "(m, ws) \<in> set (nm ! i)" "(m, ws) \<in> set (nm ! k)" by auto
    then have "wf_group c i ws" "wf_group c k ws" using v q unfolding view_ok_def by blast+
    then show False using wf_group_node q(3) by blast
  qed
  have "distinct (concat xs)" if "\<forall>i < length xs. distinct (xs ! i)"
    "\<forall>i < length xs. \<forall>k < length xs. i \<noteq> k \<longrightarrow> set (xs ! i) \<inter> set (xs ! k) = {}" for xs :: "(string \<times> nat list) list list"
    using that
  proof (induction xs)
    case (Cons x xs)
    have "distinct x" using Cons.prems(1) by (force dest: spec [of _ 0])
    moreover have "distinct (concat xs)"
    proof (rule Cons.IH)
      show "\<forall>i < length xs. distinct (xs ! i)" using Cons.prems(1) by (metis Suc_less_eq length_Cons nth_Cons_Suc)
      show "\<forall>i < length xs. \<forall>k < length xs. i \<noteq> k \<longrightarrow> set (xs ! i) \<inter> set (xs ! k) = {}"
        using Cons.prems(2) by (metis Suc_less_eq length_Cons nth_Cons_Suc nat.inject)
    qed
    moreover have "set x \<inter> set y = {}" if q: "y \<in> set xs" for y
    proof -
      obtain k where "k < length xs" "y = xs ! k" using q by (metis in_set_conv_nth)
      then show ?thesis using Cons.prems(2) by (metis Suc_less_eq length_Cons nth_Cons_0 nth_Cons_Suc nat.distinct(1) zero_less_Suc)
    qed
    ultimately show ?case by auto
  qed simp
  then show ?thesis using v d unfolding view_ok_def by blast
qed

lemma running_view:
  assumes t: "ctl_tables_ok s"
  shows "\<exists>nm. fold_r add_running (all_jobs s) (pm_node_models s) = Inr nm \<and> length nm = mc_num_servers (pm_config s)
    \<and> distinct (concat nm) \<and> set (concat nm) = entries s"
proof -
  have jo: "jobs_ok (pm_config s) (pm_in_prewarming s)" using t by (simp add: ctl_tables_ok_def)
  have v: "view_ok (pm_config s) (pm_node_models s)" using t unfolding ctl_tables_ok_def nodes_ok_def view_ok_def by blast
  have "\<forall>(n, j) \<in> set (all_jobs s). job_ok (pm_config s) n j" using all_jobs_ok [OF jo] by blast
  then obtain nm where nm: "fold_r add_running (all_jobs s) (pm_node_models s) = Inr nm" "view_ok (pm_config s) nm"
    "set (concat nm) = set (concat (pm_node_models s)) \<union> {(model_name (pj_info j), pj_workers j) | n j. (n, j) \<in> set (all_jobs s)}"
    using add_running_fold [OF v] by blast
  have "\<And>n j. (n, j) \<in> set (all_jobs s) \<longleftrightarrow> j \<in> set (jobs_of s n)"
    unfolding in_all_jobs by (rule in_jobs_iff) (use jo in \<open>simp add: jobs_ok_def\<close>)
  then have "set (concat nm) = entries s" unfolding nm(3) entries_def by simp
  then show ?thesis using nm view_distinct [OF nm(2)] by (simp add: view_ok_def)
qed

subsection \<open>The loads that the scheduler plans\<close>

lemma planned_group:
  assumes c: "wf_conf c" and a: "action_ok (mc_model_info c) (num_workers c) (mc_num_gpu_per_server c) (m, ws)"
  shows "\<exists>sz n. map_of (mc_model_info c) m = Some (sz, length ws) \<and> 0 < length ws \<and> wf_group c n ws"
proof -
  obtain sz n where sz: "map_of (mc_model_info c) m = Some (sz, length ws)" and d: "distinct ws"
    and lt: "\<forall>w \<in> set ws. w < num_workers c" and n: "\<forall>w \<in> set ws. w div mc_num_gpu_per_server c = n"
    using a by (auto simp: action_ok_def)
  have "(m, sz, length ws) \<in> set (mc_model_info c)" using sz by (rule map_of_SomeD)
  then have l: "0 < length ws" using c by (auto simp: wf_conf_def)
  then have w: "hd ws \<in> set ws" by simp
  have "hd ws div mc_num_gpu_per_server c < mc_num_servers c"
    using w lt c by (simp add: num_workers_def wf_conf_def div_less_iff_less_mult)
  then have "wf_group c n ws" using w n d l by (auto simp: wf_group_def)
  then show ?thesis using sz l by blast
qed

text \<open>The loop over the plan \<open>A\<close>.\<close>

definition started :: "manager \<Rightarrow> (string \<times> nat list) set \<Rightarrow> (nat \<times> prewarm_job) list \<times> manager \<Rightarrow> bool" where
  "started s A jt \<longleftrightarrow> (let (jobs, t) = jt in copies_only s t \<and> pm_node_models t = pm_node_models s
     \<and> pm_model_workers t = pm_model_workers s \<and> pm_in_prewarming t = pm_in_prewarming s
     \<and> (\<forall>(n, j) \<in> set jobs. job_ok (pm_config s) n j \<and> (model_name (pj_info j), pj_workers j) \<in> A))"

lemma start_prewarm_ok:
  assumes c: "wf_conf (pm_config s)" and s: "sized s" and um: "mc_use_unified_memory (pm_config s)"
    and a: "action_ok (mc_model_info (pm_config s)) (num_workers (pm_config s)) (mc_num_gpu_per_server (pm_config s)) a"
    and A: "a \<in> A" and st: "started s A (jobs, t)"
  shows "\<exists>jt. start_prewarm a (jobs, t) = Inr jt \<and> started s A jt"
proof -
  obtain m ws where mw: "a = (m, ws)" by (cases a)
  obtain sz n where sz: "map_of (mc_model_info (pm_config s)) m = Some (sz, length ws)" "0 < length ws" "wf_group (pm_config s) n ws"
    using planned_group [OF c, of m ws] a mw by blast
  have k: "copies_only s t" using st by (simp add: started_def)
  have cf: "pm_config t = pm_config s" using k by (auto simp: copies_only_def dest: engine_partD(1))
  have szt: "sized t" using s k cf by (simp add: sized_def copies_only_def)
  have lt: "\<forall>w \<in> set ws. w < num_workers (pm_config t)" using wf_group_lt [OF c sz(3)] cf by simp
  have nd: "node_of t ws = Inr n" by (rule node_of_ok) (use c sz(3) cf in simp_all)
  obtain bg where bg: "background_workers t ws = Inr bg" using idle_of_ok [OF szt lt] by (simp add: background_workers_def)
  have lw: "\<forall>w \<in> set ws. w < length (pm_worker_stats t)" using lt szt by (simp add: sized_def)
  obtain cs where run: "prewarm_model_async m (int (length ws)) 1 ws bg t = Inr (new_job m (int (length ws)) 1 ws (pm_world_counter t),
      call cs (t\<lparr>pm_world_counter := pm_world_counter t + 1\<rparr>))"
    using prewarm_model_async_ok [of t "int (length ws)" 1 ws m bg] um cf lw by auto
  let ?j = "new_job m (int (length ws)) 1 ws (pm_world_counter t)"
  let ?t = "call cs (t\<lparr>pm_world_counter := pm_world_counter t + 1\<rparr>)"
  have "start_prewarm a (jobs, t) = Inr (jobs @ [(n, ?j)], ?t)"
    using nd bg run sz(1) cf mw by (simp add: start_prewarm_def)
  moreover have "job_ok (pm_config s) n ?j" using new_job_ok [OF sz(3)] sz(2) by simp
  moreover have "(model_name (pj_info ?j), pj_workers ?j) = a" by (simp add: new_job_def ModelInfo_def mw)
  moreover have "copies_only s ?t" using k by (simp add: copies_only_def) (simp add: call_def)
  moreover have "pm_node_models ?t = pm_node_models t" "pm_model_workers ?t = pm_model_workers t"
    "pm_in_prewarming ?t = pm_in_prewarming t" by (simp_all add: call_def)
  ultimately show ?thesis using st A by (auto simp: started_def)
qed

lemma add_jobs_ok:
  assumes "ctl_tables_ok t" and "\<forall>(n, j) \<in> set jobs. job_ok (pm_config t) n j \<and> (model_name (pj_info j), pj_workers j) \<in> A"
  shows "copies_only t (fold (\<lambda>(n, j). add_job n j) jobs t) \<and> ctl_tables_ok (fold (\<lambda>(n, j). add_job n j) jobs t)
    \<and> entries (fold (\<lambda>(n, j). add_job n j) jobs t) \<subseteq> entries t \<union> A"
  using assms
proof (induction jobs arbitrary: t)
  case Nil
  then show ?case by simp
next
  case (Cons x jobs)
  obtain n j where x: "x = (n, j)" by (cases x)
  let ?t = "add_job n j t"
  have j: "job_ok (pm_config t) n j" "(model_name (pj_info j), pj_workers j) \<in> A" using Cons.prems(2) x by simp_all
  have f: "pm_node_models ?t = pm_node_models t" "pm_model_workers ?t = pm_model_workers t" "pm_config ?t = pm_config t" "copies_only t ?t"
    by (simp_all add: add_job_def set_jobs_def copies_only_def)
  have jo: "jobs_ok (pm_config t) (pm_in_prewarming t)" using Cons.prems(1) by (simp add: ctl_tables_ok_def)
  have "\<forall>i \<in> set (jobs_of t n @ [j]). job_ok (pm_config t) n i" using in_jobs_of [OF jo] j(1) by auto
  then have "jobs_ok (pm_config t) (pm_in_prewarming ?t)" unfolding add_job_def by (rule jobs_ok_set_jobs [OF jo])
  then have t: "ctl_tables_ok ?t" using Cons.prems(1) f by (simp add: ctl_tables_ok_def)
  have e: "entries ?t = insert (model_name (pj_info j), pj_workers j) (entries t)"
    by (rule in_entries_add_job [OF f(1)]) (simp add: add_job_def)
  let ?u = "fold (\<lambda>(n, j). add_job n j) jobs ?t"
  have "\<forall>(n, j) \<in> set jobs. job_ok (pm_config ?t) n j \<and> (model_name (pj_info j), pj_workers j) \<in> A" using Cons.prems(2) f(3) by simp
  from Cons.IH [OF t this] have u: "copies_only ?t ?u" "ctl_tables_ok ?u" "entries ?u \<subseteq> entries ?t \<union> A" by simp_all
  have "entries ?u \<subseteq> entries t \<union> A" using u(3) j(2) unfolding e by blast
  then show ?case using copies_only_trans [OF f(4) u(1)] u(2) x by simp
qed

lemma plan_prewarm_ok:
  assumes inv: "mgr_inv s g" and um: "mc_use_unified_memory (pm_config s)" and sc: "sched_fits (pm_config s) sc"
    and nm: "fold_r add_running (all_jobs s) (pm_node_models s) = Inr nm"
    and run: "prewarm sc (pm_gpu_mem s) nm (pm_num_engines s) = Inr (plan, mem)"
  shows "\<exists>s'. plan_prewarm sc s = Inr s' \<and> mgr_inv s' g \<and> engine_part s' = engine_part s
    \<and> entries s' \<subseteq> entries s \<union> set plan"
proof -
  let ?c = "pm_config s"
  have c: "wf_conf ?c" and own: "own_ok s (claims s g)" and lam: "laminar (entries s)" using inv by (simp_all add: mgr_inv_def)
  have t: "ctl_tables_ok s" and sz: "sized s" using own by (simp_all add: own_ok_def)
  have v: "length nm = mc_num_servers ?c" "distinct (concat nm)" "set (concat nm) = entries s" using running_view [OF t] nm by auto
  have keys: "distinct (map fst (sc_model_info sc))" using c sc by (simp add: wf_conf_def sched_fits_def)
  have tk: "take (sc_num_servers sc) nm = nm" using v(1) sc by (simp add: sched_fits_def)
  have "\<not> sc_disable_placement sc" using c sc by (simp add: wf_conf_def sched_fits_def)
  then have lp: "laminar (entries s \<union> set plan)"
    using laminar_planned [OF run keys] v lam unfolding tk by simp
  have ml: "length mem = length (pm_gpu_mem s)" by (rule planned_actions(2) [OF run keys])
  have act: "\<forall>a \<in> set plan. action_ok (mc_model_info ?c) (num_workers ?c) (mc_num_gpu_per_server ?c) a"
    using planned_actions(1) [OF run keys] sc sz by (simp add: sched_fits_def sized_def)
  let ?s = "s\<lparr>pm_gpu_mem := mem\<rparr>"
  have s0: "started s (set plan) ([], ?s)" using ml by (simp add: started_def copies_only_def)
  have "\<exists>jt. fold_r start_prewarm plan ([], ?s) = Inr jt \<and> started s (set plan) jt"
  proof (rule fold_r_total [where P = "started s (set plan)", OF s0])
    fix a jt
    assume a: "a \<in> set plan" and st: "started s (set plan) jt"
    obtain jobs t where jt: "jt = (jobs, t)" by (cases jt)
    show "\<exists>jt'. start_prewarm a jt = Inr jt' \<and> started s (set plan) jt'"
      using start_prewarm_ok [OF c sz um bspec [OF act a] a] st unfolding jt by blast
  qed
  then obtain jobs u where u: "fold_r start_prewarm plan ([], ?s) = Inr (jobs, u)" "started s (set plan) (jobs, u)" by auto
  have cu: "copies_only s u" and uj: "\<forall>(n, j) \<in> set jobs. job_ok ?c n j \<and> (model_name (pj_info j), pj_workers j) \<in> set plan"
    and ut: "pm_node_models u = pm_node_models s" "pm_model_workers u = pm_model_workers s" "pm_in_prewarming u = pm_in_prewarming s"
    using u(2) by (simp_all add: started_def)
  have cf: "pm_config u = ?c" using cu by (auto simp: copies_only_def dest: engine_partD(1))
  have tu: "ctl_tables_ok u" using t ut cf by (simp add: ctl_tables_ok_def)
  have eu: "entries u = entries s" using ut(1,3) by (rule entries_cong)
  let ?t = "fold (\<lambda>(n, j). add_job n j) jobs u"
  have f: "copies_only u ?t" "ctl_tables_ok ?t" "entries ?t \<subseteq> entries s \<union> set plan"
    using add_jobs_ok [OF tu, of jobs "set plan"] uj eu cf by simp_all
  have k: "copies_only s ?t" using copies_only_trans [OF cu f(1)] .
  have "mgr_inv ?t g" by (rule mgr_inv_copies [OF inv k f(2) laminar_subset [OF lp f(3)]])
  moreover have "plan_prewarm sc s = Inr ?t" using nm run u(1) by (simp add: plan_prewarm_def)
  ultimately show ?thesis using k f(3) by (auto simp: copies_only_def)
qed

lemma plan_prewarm_inv:
  assumes "mgr_inv s g" and "mc_use_unified_memory (pm_config s)" and "sched_fits (pm_config s) sc" and run: "plan_prewarm sc s = Inr s'"
  shows "mgr_inv s' g" "engine_part s' = engine_part s"
proof -
  obtain nm plan mem where nm: "fold_r add_running (all_jobs s) (pm_node_models s) = Inr nm"
    and p: "prewarm sc (pm_gpu_mem s) nm (pm_num_engines s) = Inr (plan, mem)"
    using run unfolding plan_prewarm_def by fastforce
  show "mgr_inv s' g" "engine_part s' = engine_part s" using plan_prewarm_ok [OF assms(1-3) nm p] run by auto
qed

end
