(* ===== verification/Ctl_Sections.thy ===== *)
theory Ctl_Sections
  imports Ctl_Copies Prewarm_Predict
begin

text \<open>
  Every section of the concurrent controller keeps the invariant, and every section but the two of
  the load predictor, whose arithmetic may fail, ends without an exception.
\<close>

subsection \<open>A section of a creation\<close>

definition advanced :: "manager \<Rightarrow> string \<Rightarrow> (string \<Rightarrow> nat) \<Rightarrow> progress \<Rightarrow> manager \<Rightarrow> bool" where
  "advanced s m rest r s' \<longleftrightarrow> pm_config s' = pm_config s \<and> fst ` set (pm_engine_stats s) \<subseteq> fst ` set (pm_engine_stats s')
     \<and> (case r of
          Running c \<Rightarrow> creation_ok (pm_config s) c \<and> creation_model c \<in> {None, Some m}
            \<and> counts_ok s' (\<lambda>x. creation_count c x + rest x)
        | Failed \<Rightarrow> counts_ok s' (\<lambda>x. (if x = m then 1 else 0) + rest x)
        | Done i \<Rightarrow> counts_ok s' rest)"

lemma counts_ok_fun: "counts_ok s f \<Longrightarrow> (\<And>x. f x = g x) \<Longrightarrow> counts_ok s g"
  by (simp add: counts_ok_def)

lemma creation_count_simps [simp]:
  "creation_model c = Some m \<Longrightarrow> creation_count c x = (if x = m then 1 else 0)"
  "creation_model c = None \<Longrightarrow> creation_count c x = 0"
  by (auto simp: creation_count_def)

lemma engine_part_counts: "engine_part s' = engine_part s \<Longrightarrow> counts_ok s' pend = counts_ok s pend"
  by (rule engine_part_keeps)

lemma advance_ok:
  assumes inv: "mgr_inv s g" and p: "p = Act \<or> p = Scl" and g: "g p = Some c" and ok: "creation_ok (pm_config s) c"
    and m: "creation_model c \<in> {None, Some m}" and cnt: "counts_ok s (\<lambda>x. creation_count c x + rest x)"
  shows "\<exists>r s'. advance en c s = Inr (r, s') \<and> mgr_inv s' (g(p := outcome r)) \<and> advanced s m rest r s'"
proof (cases c)
  case (Finding direct mi)
  have mm: "model_name mi = m" using m Finding by simp
  obtain r s' where r: "advance en (Finding direct mi) s = Inr (r, s')" "mgr_inv s' (g(p := outcome r))" "engine_part s' = engine_part s"
    "r = Failed \<or> (\<exists>n ws hit. r = Running (Claiming direct mi n ws hit) \<and> creation_ok (pm_config s) (Claiming direct mi n ws hit))"
    using advance_finding [OF inv p g [unfolded Finding], of en] ok [unfolded Finding] by force
  have cs: "counts_ok s' (\<lambda>x. (if x = m then 1 else 0) + rest x)"
    using cnt mm unfolding engine_part_counts [OF r(3)] Finding by simp
  have "advanced s m rest r s'" using r(4) cs mm engine_partD [OF r(3)] by (auto simp: advanced_def)
  then show ?thesis using r Finding by blast
next
  case (Claiming direct mi n ws hit)
  have mm: "model_name mi = m" using m Claiming by simp
  obtain s' where r: "advance en c s = Inr (Running (Addressing direct mi ws), s')"
    "mgr_inv s' (g(p := Some (Addressing direct mi ws)))" "engine_part s' = engine_part s"
    using advance_claiming [OF inv p g [unfolded Claiming] ok [unfolded Claiming], of en] Claiming by blast
  have "advanced s m rest (Running (Addressing direct mi ws)) s'"
    using engine_partD [OF r(3)] engine_part_counts [OF r(3)] cnt mm ok Claiming by (auto simp: advanced_def wf_group_def)
  then show ?thesis using r(1,2) by (intro exI [of _ "Running (Addressing direct mi ws)"] exI [of _ s']) (simp add: outcome_def)
next
  case (Addressing direct mi ws)
  have mm: "model_name mi = m" using m Addressing by simp
  let ?c = "Starting direct mi ws (engine_port s)"
  have "mgr_inv s (g(p := Some ?c))" using advance_addressing [OF inv p] g Addressing by simp
  moreover have "advanced s m rest (Running ?c) s" using cnt mm ok Addressing by (simp add: advanced_def)
  ultimately show ?thesis using Addressing by (simp add: outcome_def)
next
  case (Starting direct mi ws port)
  have mm: "model_name mi = m" using m Starting by simp
  obtain pid s' where r: "advance en c s = Inr (Running (Registering direct mi ws pid), s')"
    "mgr_inv s' (g(p := Some (Registering direct mi ws pid)))" "procs_only s s'"
    using advance_starting [OF inv p g [unfolded Starting], of en] Starting by blast
  have "counts_ok s' = counts_ok s" "pm_engine_stats s' = pm_engine_stats s" "pm_config s' = pm_config s"
    using r(3) by (auto simp: procs_only_def counts_ok_def models_def)
  then have "advanced s m rest (Running (Registering direct mi ws pid)) s'" using cnt mm ok Starting by (simp add: advanced_def)
  then show ?thesis using r(1,2) by (intro exI [of _ "Running (Registering direct mi ws pid)"] exI [of _ s']) (simp add: outcome_def)
next
  case (Registering direct mi ws pid)
  have mm: "model_name mi = m" using m Registering by simp
  let ?pend = "\<lambda>x. creation_count c x + rest x"
  obtain i s' where r: "advance en c s = Inr (Running (Informing ws pid i), s')"
    "mgr_inv s' (g(p := Some (Informing ws pid i)))" "pm_config s' = pm_config s"
    "fst ` set (pm_engine_stats s) \<subseteq> fst ` set (pm_engine_stats s')"
    "counts_ok s' (?pend(m := ?pend m - 1))"
    using advance_registering [OF inv p g [unfolded Registering] ok [unfolded Registering] cnt, of en] mm Registering by auto
  have "counts_ok s' rest" by (rule counts_ok_fun [OF r(5)]) (use Registering mm in simp)
  then have "advanced s m rest (Running (Informing ws pid i)) s'" using r(3,4) by (simp add: advanced_def)
  then show ?thesis using r(1,2) by (intro exI [of _ "Running (Informing ws pid i)"] exI [of _ s']) (simp add: outcome_def)
next
  case (Informing ws pid i)
  let ?s = "inform_engine pid ws i s"
  have "mgr_inv ?s (g(p := None))" using advance_informing [OF inv p] g Informing by simp
  moreover have "advanced s m rest (Done i) ?s"
    using cnt Informing by (simp add: advanced_def inform_engine_def counts_ok_def models_def)
  ultimately show ?thesis using Informing by (simp add: outcome_def)
qed

subsection \<open>The parts of the invariant in a system\<close>

definition pending :: "system \<Rightarrow> string \<Rightarrow> nat" where
  "pending S m = actor_count (sy_actor S) m + scaler_count (sy_scaler S) m"

lemma pending_fun: "pending S = (\<lambda>m. actor_count (sy_actor S) m + scaler_count (sy_scaler S) m)"
  by (simp add: fun_eq_iff pending_def)

lemma ctl_invI:
  assumes "mgr_inv (sy_mgr S) (flights (sy_actor S) (sy_scaler S))" "counts_ok (sy_mgr S) (pending S)"
    "actor_ok (pm_config (sy_mgr S)) (sy_actor S)" "scaler_ok (sy_mgr S) (sy_scaler S)" "sched_fits (pm_config (sy_mgr S)) (sy_sched S)"
  shows "ctl_inv S"
  using assms by (simp add: ctl_inv_def pending_fun Let_def)

lemma ctl_invD:
  assumes "ctl_inv S"
  shows "mgr_inv (sy_mgr S) (flights (sy_actor S) (sy_scaler S))" "counts_ok (sy_mgr S) (pending S)"
    "actor_ok (pm_config (sy_mgr S)) (sy_actor S)" "scaler_ok (sy_mgr S) (sy_scaler S)" "sched_fits (pm_config (sy_mgr S)) (sy_sched S)"
    "engines_ok (sy_mgr S)"
  using assms by (simp_all add: ctl_inv_def pending_fun Let_def mgr_inv_def)

lemma scaler_ok_mono:
  assumes "scaler_ok s b" and "pm_config s' = pm_config s" and "fst ` set (pm_engine_stats s) \<subseteq> fst ` set (pm_engine_stats s')"
  shows "scaler_ok s' b"
  using assms by (cases b) (auto simp: scaler_ok_def models_def)

lemma flights_act: "flights (actor_after m r) b = (flights a b)(Act := outcome r)"
proof
  fix q
  show "flights (actor_after m r) b q = ((flights a b)(Act := outcome r)) q"
    by (cases q) (auto simp: flights_def actor_after_def outcome_def split: progress.splits)
qed

lemma flights_scl: "flights a (scaler_after m k todo r) = (flights a b)(Scl := outcome r)"
proof
  fix q
  show "flights a (scaler_after m k todo r) q = ((flights a b)(Scl := outcome r)) q"
    by (cases q) (auto simp: flights_def scaler_after_def outcome_def split: progress.splits)
qed

lemma opt_flight_eq:
  assumes "opt_workers (g' Act) = opt_workers (g Act)" "opt_workers (g' Scl) = opt_workers (g Scl)"
    "opt_pid (g' Act) = opt_pid (g Act)" "opt_pid (g' Scl) = opt_pid (g Scl)"
  shows "mgr_inv s g' = mgr_inv s g"
proof -
  have "claims s g' q = claims s g q" "pids s g' q = pids s g q" for q using assms by (cases q; simp)+
  then have "claims s g' = claims s g" "pids s g' = pids s g" by auto
  then show ?thesis by (simp add: mgr_inv_def)
qed

text \<open>A thread that takes up or drops no workers and no process.\<close>

lemma mgr_inv_flights:
  assumes "mgr_inv s (flights a b)" and "opt_workers (flights a' b' Act) = opt_workers (flights a b Act)"
    "opt_workers (flights a' b' Scl) = opt_workers (flights a b Scl)" "opt_pid (flights a' b' Act) = opt_pid (flights a b Act)"
    "opt_pid (flights a' b' Scl) = opt_pid (flights a b Scl)"
  shows "mgr_inv s (flights a' b')"
  using assms(1) opt_flight_eq [of "flights a' b'" "flights a b" s] assms(2-5) by simp

lemmas flight_simps = flights_def opt_workers_def opt_pid_def

subsection \<open>Sections of the actor thread\<close>

definition goes_on :: "system result \<Rightarrow> bool" where
  "goes_on r \<longleftrightarrow> (\<exists>S'. r = Inr S' \<and> ctl_inv S')"

lemma goes_onI: "r = Inr S' \<Longrightarrow> ctl_inv S' \<Longrightarrow> goes_on r"
  by (simp add: goes_on_def)

lemma ctl_inv_mgr:
  assumes inv: "ctl_inv S" and m: "mgr_inv s (flights (sy_actor S) (sy_scaler S))"
    and k: "pm_config s = pm_config (sy_mgr S)" "pm_num_in_creating s = pm_num_in_creating (sy_mgr S)"
      "fst ` set (pm_engine_stats (sy_mgr S)) \<subseteq> fst ` set (pm_engine_stats s)"
  shows "ctl_inv (S\<lparr>sy_mgr := s\<rparr>)"
proof (rule ctl_invI)
  note d = ctl_invD [OF inv]
  show "counts_ok (sy_mgr (S\<lparr>sy_mgr := s\<rparr>)) (pending (S\<lparr>sy_mgr := s\<rparr>))"
    using d(2) k counts_ok_cong [of s "sy_mgr S"] by (simp add: pending_fun)
  show "scaler_ok (sy_mgr (S\<lparr>sy_mgr := s\<rparr>)) (sy_scaler (S\<lparr>sy_mgr := s\<rparr>))" using scaler_ok_mono [OF d(4) k(1,3)] by simp
qed (use ctl_invD [OF inv] m k in simp_all)

lemma reqs_only_keys: "reqs_only s s' \<Longrightarrow> fst ` set (pm_engine_stats s') = fst ` set (pm_engine_stats s)"
  by (metis image_set reqs_only_def)

lemma on_mgr_reqs:
  assumes inv: "ctl_inv S" and f: "\<exists>s'. f (sy_mgr S) = Inr s' \<and> engines_ok s' \<and> reqs_only (sy_mgr S) s'
    \<and> pm_num_in_creating s' = pm_num_in_creating (sy_mgr S)"
  shows "goes_on (on_mgr f S)"
proof -
  obtain s' where s': "f (sy_mgr S) = Inr s'" "engines_ok s'" "reqs_only (sy_mgr S) s'"
    "pm_num_in_creating s' = pm_num_in_creating (sy_mgr S)" using f by blast
  have "ctl_inv (S\<lparr>sy_mgr := s'\<rparr>)"
    using mgr_inv_reqs_only [OF ctl_invD(1) [OF inv] s'(3,2)] s'(3,4) reqs_only_keys [OF s'(3)]
    by (intro ctl_inv_mgr [OF inv]) (simp_all add: reqs_only_def)
  then show ?thesis using s'(1) by (simp add: on_mgr_def goes_on_def)
qed

lemma on_mgr_data:
  assumes inv: "ctl_inv S" and f: "\<exists>s'. f (sy_mgr S) = Inr s' \<and> data_only (sy_mgr S) s'"
  shows "goes_on (on_mgr f S)"
proof -
  obtain s' where s': "f (sy_mgr S) = Inr s'" "data_only (sy_mgr S) s'" using f by blast
  have "ctl_inv (S\<lparr>sy_mgr := s'\<rparr>)"
    using mgr_inv_data_only [OF ctl_invD(1) [OF inv] s'(2)] data_only_keeps [OF s'(2)] by (intro ctl_inv_mgr [OF inv]) simp_all
  then show ?thesis using s'(1) by (simp add: on_mgr_def goes_on_def)
qed

lemma model_of_ok:
  assumes "wf_conf (pm_config s)" and "m \<in> models s"
  shows "\<exists>mi. model_of s m = Inr mi \<and> model_ok (pm_config s) mi \<and> model_name mi = m"
proof -
  obtain sz tp where t: "map_of (mc_model_info (pm_config s)) m = Some (sz, tp)"
    using assms(2) unfolding models_def by (metis map_of_eq_None_iff not_None_eq surj_pair)
  then show ?thesis by (auto simp: model_of_def model_ok_def ModelInfo_def)
qed

lemma schedule_section_ok:
  assumes inv: "ctl_inv S" and a: "sy_actor S = Serving"
  shows "goes_on (sched_section en rid m S)"
proof -
  note d = ctl_invD [OF inv]
  obtain r s' where r: "schedule_request en rid m (sy_mgr S) = Inr (r, s')" and e: "schedule_effect m r (sy_mgr S) s'"
    using schedule_request_ok [OF d(6,2)] by blast
  have k: "engines_ok s'" "reqs_only (sy_mgr S) s'" using e by (simp_all add: schedule_effect_def)
  have c: "pm_config s' = pm_config (sy_mgr S)" using k(2) by (simp add: reqs_only_def)
  have m': "mgr_inv s' (flights (sy_actor S) (sy_scaler S))" by (rule mgr_inv_reqs_only [OF d(1) k(2,1)])
  show ?thesis
  proof (cases "r = Create")
    case False
    have "ctl_inv (S\<lparr>sy_mgr := s'\<rparr>)"
      by (rule ctl_inv_mgr [OF inv m' c]) (use e False reqs_only_keys [OF k(2)] in \<open>simp_all add: schedule_effect_def\<close>)
    then show ?thesis using r False by (simp add: sched_section_def goes_on_def)
  next
    case True
    obtain k0 where mm: "m \<in> models (sy_mgr S)" and k0: "pm_num_in_creating (sy_mgr S) m = Some k0"
      "pm_num_in_creating s' = (pm_num_in_creating (sy_mgr S))(m \<mapsto> k0 + 1)"
      using e True by (auto simp: schedule_effect_def)
    have wc: "wf_conf (pm_config s')" using m' by (simp add: mgr_inv_def)
    obtain mi where mi: "model_of s' m = Inr mi" "model_ok (pm_config s') mi" "model_name mi = m"
      using model_of_ok [OF wc, of m] mm c by (auto simp: models_def)
    let ?S = "S\<lparr>sy_mgr := s', sy_actor := Creating (Finding True mi) m\<rparr>"
    have "ctl_inv ?S"
    proof (rule ctl_invI)
      show "mgr_inv (sy_mgr ?S) (flights (sy_actor ?S) (sy_scaler ?S))"
        using mgr_inv_flights [OF m', of "Creating (Finding True mi) m" "sy_scaler S"] a by (simp add: flight_simps)
      have "counts_ok (sy_mgr S) (pending S)" by (rule d(2))
      then show "counts_ok (sy_mgr ?S) (pending ?S)"
        using k0 mi(3) a c by (auto simp: counts_ok_def models_def pending_def actor_count_def creation_count_def)
      show "scaler_ok (sy_mgr ?S) (sy_scaler ?S)" using scaler_ok_mono [OF d(4) c] reqs_only_keys [OF k(2)] by simp
    qed (use d(5) mi c in \<open>simp_all add: actor_ok_def\<close>)
    then show ?thesis using r True mi(1) by (simp add: sched_section_def goes_on_def)
  qed
qed

lemma actor_advance_ok:
  assumes inv: "ctl_inv S" and a: "sy_actor S = Creating c m"
  shows "goes_on (bind_r (advance en c (sy_mgr S)) (\<lambda>(p, s). Inr (S\<lparr>sy_mgr := s, sy_actor := actor_after m p\<rparr>)))"
proof -
  note d = ctl_invD [OF inv]
  let ?g = "flights (sy_actor S) (sy_scaler S)"
  have g: "?g Act = Some c" using a by (simp add: flights_def)
  have ok: "creation_ok (pm_config (sy_mgr S)) c" "creation_model c \<in> {None, Some m}" using d(3) a by (simp_all add: actor_ok_def)
  have "counts_ok (sy_mgr S) (\<lambda>x. creation_count c x + scaler_count (sy_scaler S) x)"
    using d(2) a by (simp add: pending_fun actor_count_def)
  from advance_ok [OF d(1) disjI1 [OF refl] g ok this, of en]
  obtain r s' where r: "advance en c (sy_mgr S) = Inr (r, s')" "mgr_inv s' (?g(Act := outcome r))"
    "advanced (sy_mgr S) m (scaler_count (sy_scaler S)) r s'" by blast
  let ?S = "S\<lparr>sy_mgr := s', sy_actor := actor_after m r\<rparr>"
  have cf: "pm_config s' = pm_config (sy_mgr S)" using r(3) by (simp add: advanced_def)
  have wc: "wf_conf (pm_config (sy_mgr S))" using d(1) by (simp add: mgr_inv_def)
  have "ctl_inv ?S"
  proof (rule ctl_invI)
    show "mgr_inv (sy_mgr ?S) (flights (sy_actor ?S) (sy_scaler ?S))" using r(2) by (simp add: flights_act [of m r _ "sy_actor S"])
    show "counts_ok (sy_mgr ?S) (pending ?S)"
      using r(3) by (auto simp: advanced_def pending_fun actor_after_def actor_count_def eq_commute split: progress.splits elim: counts_ok_fun)
    have "m \<in> fst ` set (mc_model_info (pm_config (sy_mgr S)))" if q: "r = Failed"
      using r(1) q ok model_ok_tp [OF wc] by (cases c) auto
    then show "actor_ok (pm_config (sy_mgr ?S)) (sy_actor ?S)"
      using r(3) cf by (auto simp: advanced_def actor_ok_def actor_after_def split: progress.splits)
    show "scaler_ok (sy_mgr ?S) (sy_scaler ?S)" using scaler_ok_mono [OF d(4) cf] r(3) by (simp add: advanced_def)
  qed (use d(5) cf in simp)
  then show ?thesis using r(1) by (simp add: goes_on_def)
qed

lemma actor_cancel_ok:
  assumes inv: "ctl_inv S" and a: "sy_actor S = Giving_Up m"
  shows "goes_on (bind_r (cancel_creation m 1 (sy_mgr S)) (\<lambda>s. Inr (S\<lparr>sy_mgr := s, sy_actor := Serving\<rparr>)))"
proof -
  note d = ctl_invD [OF inv]
  have m: "m \<in> models (sy_mgr S)" using d(3) a by (simp add: actor_ok_def models_def)
  have k: "1 \<le> pending S m" using a by (simp add: pending_def actor_count_def)
  obtain s' where s': "cancel_creation m 1 (sy_mgr S) = Inr s'" "engines_ok s'" "reqs_only (sy_mgr S) s'"
    "counts_ok s' ((pending S)(m := pending S m - 1))" using cancel_creation_ok [OF d(6) m d(2) k] by blast
  have c: "pm_config s' = pm_config (sy_mgr S)" using s'(3) by (simp add: reqs_only_def)
  have m': "mgr_inv s' (flights (sy_actor S) (sy_scaler S))" by (rule mgr_inv_reqs_only [OF d(1) s'(3,2)])
  let ?S = "S\<lparr>sy_mgr := s', sy_actor := Serving\<rparr>"
  have "ctl_inv ?S"
  proof (rule ctl_invI)
    show "mgr_inv (sy_mgr ?S) (flights (sy_actor ?S) (sy_scaler ?S))"
      using mgr_inv_flights [OF m', of Serving "sy_scaler S"] a by (simp add: flight_simps)
    show "counts_ok (sy_mgr ?S) (pending ?S)"
      using counts_ok_fun [OF s'(4), of "pending ?S"] a by (simp add: pending_def actor_count_def)
    show "scaler_ok (sy_mgr ?S) (sy_scaler ?S)" using scaler_ok_mono [OF d(4) c] reqs_only_keys [OF s'(3)] by simp
  qed (use d(5) c in \<open>simp_all add: actor_ok_def\<close>)
  then show ?thesis using s'(1) by (simp add: goes_on_def)
qed

subsection \<open>Sections of the thread that scales\<close>

lemma autoscale_section_ok:
  assumes inv: "ctl_inv S" and a: "sy_scaler S = Sleeping"
  shows "goes_on (bind_r (autoscale en (sy_mgr S)) (\<lambda>(todo, s). Inr (S\<lparr>sy_mgr := s, sy_scaler := Planned todo\<rparr>)))"
proof -
  note d = ctl_invD [OF inv]
  obtain todo s' where s': "autoscale en (sy_mgr S) = Inr (todo, s')" "engines_ok s'" "reqs_only (sy_mgr S) s'"
    "fst ` set todo \<subseteq> models (sy_mgr S)" "counts_ok s' (\<lambda>m. pending S m + plan_count todo m)"
    using autoscale_ok [OF d(6,2)] by blast
  have c: "pm_config s' = pm_config (sy_mgr S)" using s'(3) by (simp add: reqs_only_def)
  have m': "mgr_inv s' (flights (sy_actor S) (sy_scaler S))" by (rule mgr_inv_reqs_only [OF d(1) s'(3,2)])
  let ?S = "S\<lparr>sy_mgr := s', sy_scaler := Planned todo\<rparr>"
  have "ctl_inv ?S"
  proof (rule ctl_invI)
    show "mgr_inv (sy_mgr ?S) (flights (sy_actor ?S) (sy_scaler ?S))"
      using mgr_inv_flights [OF m', of "sy_actor S" "Planned todo"] a by (simp add: flight_simps)
    show "counts_ok (sy_mgr ?S) (pending ?S)"
      using counts_ok_fun [OF s'(5), of "pending ?S"] a by (simp add: pending_def scaler_count_def)
    show "scaler_ok (sy_mgr ?S) (sy_scaler ?S)" using s'(4) c by (simp add: scaler_ok_def models_def)
  qed (use d(3,5) c in simp_all)
  then show ?thesis using s'(1) by (simp add: goes_on_def)
qed

text \<open>The second thread moves on and the tables stay.\<close>

lemma ctl_inv_scaler:
  assumes inv: "ctl_inv S" and w: "opt_workers (flights (sy_actor S) b Scl) = opt_workers (flights (sy_actor S) (sy_scaler S) Scl)"
    "opt_pid (flights (sy_actor S) b Scl) = opt_pid (flights (sy_actor S) (sy_scaler S) Scl)"
    and cnt: "\<And>m. scaler_count b m = scaler_count (sy_scaler S) m" and ok: "scaler_ok (sy_mgr S) b"
  shows "ctl_inv (S\<lparr>sy_scaler := b\<rparr>)"
proof (rule ctl_invI)
  note d = ctl_invD [OF inv]
  let ?S = "S\<lparr>sy_scaler := b\<rparr>"
  show "mgr_inv (sy_mgr ?S) (flights (sy_actor ?S) (sy_scaler ?S))"
    using mgr_inv_flights [OF d(1), of "sy_actor S" b] w by (simp add: flights_def)
  show "counts_ok (sy_mgr ?S) (pending ?S)"
    using counts_ok_fun [OF d(2), of "pending ?S"] cnt by (simp add: pending_def)
qed (use ctl_invD [OF inv] ok in simp_all)

lemma check_starts_ok:
  assumes inv: "ctl_inv S" and a: "sy_scaler S = Planned []"
  shows "ctl_inv (S\<lparr>sy_scaler := Checking (map fst (pm_engine_stats (sy_mgr S)))\<rparr>)"
proof (rule ctl_inv_scaler [OF inv])
  have "distinct (map fst (pm_engine_stats (sy_mgr S)))" using ctl_invD(6) [OF inv] by (simp add: engines_ok_def)
  then show "scaler_ok (sy_mgr S) (Checking (map fst (pm_engine_stats (sy_mgr S))))" by (simp add: scaler_ok_def)
qed (simp_all add: a flight_simps scaler_count_def)

lemma next_section_ok:
  assumes inv: "ctl_inv S" and a: "sy_scaler S = Planned ((m, k) # todo)"
  shows "goes_on (next_section m k todo S)"
proof (cases k)
  case 0
  have "ctl_inv (S\<lparr>sy_scaler := Planned todo\<rparr>)"
    by (rule ctl_inv_scaler [OF inv]) (use ctl_invD(4) [OF inv] a 0 in \<open>simp_all add: flight_simps scaler_count_def scaler_ok_def\<close>)
  then show ?thesis using 0 by (simp add: next_section_def goes_on_def)
next
  case (Suc l)
  have wc: "wf_conf (pm_config (sy_mgr S))" using ctl_invD(1) [OF inv] by (simp add: mgr_inv_def)
  have ms: "m \<in> models (sy_mgr S)" "fst ` set todo \<subseteq> models (sy_mgr S)" using ctl_invD(4) [OF inv] a by (simp_all add: scaler_ok_def)
  obtain mi where mi: "model_of (sy_mgr S) m = Inr mi" "model_ok (pm_config (sy_mgr S)) mi" "model_name mi = m"
    using model_of_ok [OF wc ms(1)] by blast
  have "ctl_inv (S\<lparr>sy_scaler := Building (Finding False mi) m l todo\<rparr>)"
    by (rule ctl_inv_scaler [OF inv])
      (use a Suc mi ms in \<open>simp_all add: flight_simps scaler_count_def scaler_ok_def creation_count_def\<close>)
  then show ?thesis using Suc mi(1) by (simp add: next_section_def goes_on_def)
qed

lemma scaler_advance_ok:
  assumes inv: "ctl_inv S" and a: "sy_scaler S = Building c m k todo"
  shows "goes_on (bind_r (advance en c (sy_mgr S)) (\<lambda>(p, s). Inr (S\<lparr>sy_mgr := s, sy_scaler := scaler_after m k todo p\<rparr>)))"
proof -
  note d = ctl_invD [OF inv]
  let ?g = "flights (sy_actor S) (sy_scaler S)" and ?rest = "\<lambda>x. plan_count ((m, k) # todo) x + actor_count (sy_actor S) x"
  have g: "?g Scl = Some c" using a by (simp add: flights_def)
  have ok: "creation_ok (pm_config (sy_mgr S)) c" "creation_model c \<in> {None, Some m}"
    and ms: "m \<in> models (sy_mgr S)" "fst ` set todo \<subseteq> models (sy_mgr S)" using d(4) a by (simp_all add: scaler_ok_def)
  have "counts_ok (sy_mgr S) (\<lambda>x. creation_count c x + ?rest x)"
    by (rule counts_ok_fun [OF d(2)]) (simp add: a pending_def scaler_count_def)
  from advance_ok [OF d(1) disjI2 [OF refl] g ok this, of en]
  obtain r s' where r: "advance en c (sy_mgr S) = Inr (r, s')" "mgr_inv s' (?g(Scl := outcome r))"
    "advanced (sy_mgr S) m ?rest r s'" by blast
  let ?S = "S\<lparr>sy_mgr := s', sy_scaler := scaler_after m k todo r\<rparr>"
  have cf: "pm_config s' = pm_config (sy_mgr S)" using r(3) by (simp add: advanced_def)
  have "ctl_inv ?S"
  proof (rule ctl_invI)
    show "mgr_inv (sy_mgr ?S) (flights (sy_actor ?S) (sy_scaler ?S))"
      using r(2) by (simp add: flights_scl [of _ m k todo r "sy_scaler S"])
    show "counts_ok (sy_mgr ?S) (pending ?S)"
    proof (cases r)
      case (Running c')
      have "counts_ok s' (\<lambda>x. creation_count c' x + ?rest x)" using r(3) Running by (simp add: advanced_def)
      from counts_ok_fun [OF this, of "pending ?S"] show ?thesis using Running by (simp add: pending_def scaler_after_def scaler_count_def)
    next
      case Failed
      have "counts_ok s' (\<lambda>x. (if x = m then 1 else 0) + ?rest x)" using r(3) Failed by (simp add: advanced_def)
      from counts_ok_fun [OF this, of "pending ?S"] show ?thesis using Failed by (simp add: pending_def scaler_after_def scaler_count_def)
    next
      case (Done i)
      have "counts_ok s' ?rest" using r(3) Done by (simp add: advanced_def)
      from counts_ok_fun [OF this, of "pending ?S"] show ?thesis using Done by (simp add: pending_def scaler_after_def scaler_count_def)
    qed
    show "scaler_ok (sy_mgr ?S) (sy_scaler ?S)"
      using r(3) ms cf by (auto simp: advanced_def scaler_ok_def scaler_after_def models_def split: progress.splits)
  qed (use d(3,5) cf in simp_all)
  then show ?thesis using r(1) by (simp add: goes_on_def)
qed

lemma scaler_cancel_ok:
  assumes inv: "ctl_inv S" and a: "sy_scaler S = Cancelling todo"
  shows "goes_on (bind_r (fold_r (\<lambda>(m, k). cancel_creation m k) todo (sy_mgr S)) (\<lambda>s. Inr (S\<lparr>sy_mgr := s, sy_scaler := Planned []\<rparr>)))"
proof -
  note d = ctl_invD [OF inv]
  have ms: "fst ` set todo \<subseteq> models (sy_mgr S)" using d(4) a by (simp add: scaler_ok_def)
  have "counts_ok (sy_mgr S) (\<lambda>m. actor_count (sy_actor S) m + plan_count todo m)"
    using d(2) a by (simp add: pending_fun scaler_count_def)
  from cancel_all_ok [OF d(6) ms this]
  obtain s' where s': "fold_r (\<lambda>(m, k). cancel_creation m k) todo (sy_mgr S) = Inr s'" "engines_ok s'" "reqs_only (sy_mgr S) s'"
    "counts_ok s' (actor_count (sy_actor S))" by blast
  have c: "pm_config s' = pm_config (sy_mgr S)" using s'(3) by (simp add: reqs_only_def)
  have m': "mgr_inv s' (flights (sy_actor S) (sy_scaler S))" by (rule mgr_inv_reqs_only [OF d(1) s'(3,2)])
  let ?S = "S\<lparr>sy_mgr := s', sy_scaler := Planned []\<rparr>"
  have "ctl_inv ?S"
  proof (rule ctl_invI)
    show "mgr_inv (sy_mgr ?S) (flights (sy_actor ?S) (sy_scaler ?S))"
      using mgr_inv_flights [OF m', of "sy_actor S" "Planned []"] a by (simp add: flight_simps)
    show "counts_ok (sy_mgr ?S) (pending ?S)" by (rule counts_ok_fun [of _ "actor_count (sy_actor S)"]) (use s'(4) in \<open>simp_all add: pending_def scaler_count_def\<close>)
  qed (use d(3,5) c in \<open>simp_all add: scaler_ok_def\<close>)
  then show ?thesis using s'(1) by (simp add: goes_on_def)
qed

lemma check_section_ok:
  assumes inv: "ctl_inv S" and a: "sy_scaler S = Checking (i # is)"
  shows "goes_on (bind_r (check_engine en i (sy_mgr S)) (\<lambda>s. Inr (S\<lparr>sy_mgr := s, sy_scaler := Checking is\<rparr>)))"
proof -
  note d = ctl_invD [OF inv]
  have ks: "i \<in> fst ` set (pm_engine_stats (sy_mgr S))" "distinct (i # is)" "set is \<subseteq> fst ` set (pm_engine_stats (sy_mgr S)) - {i}"
    using d(4) a by (auto simp: scaler_ok_def)
  obtain s' where s': "check_engine en i (sy_mgr S) = Inr s'" "mgr_inv s' (flights (sy_actor S) (sy_scaler S))"
    "pm_config s' = pm_config (sy_mgr S)" "pm_num_in_creating s' = pm_num_in_creating (sy_mgr S)"
    "fst ` set (pm_engine_stats (sy_mgr S)) - {i} \<subseteq> fst ` set (pm_engine_stats s')"
    using check_engine_ok [OF d(1) ks(1)] by blast
  let ?S = "S\<lparr>sy_mgr := s', sy_scaler := Checking is\<rparr>"
  have "ctl_inv ?S"
  proof (rule ctl_invI)
    show "mgr_inv (sy_mgr ?S) (flights (sy_actor ?S) (sy_scaler ?S))"
      using mgr_inv_flights [OF s'(2), of "sy_actor S" "Checking is"] a by (simp add: flight_simps)
    have "counts_ok s' (pending S)" using d(2) s'(3,4) counts_ok_cong [of s' "sy_mgr S"] by simp
    from counts_ok_fun [OF this, of "pending ?S"] show "counts_ok (sy_mgr ?S) (pending ?S)"
      by (simp add: a pending_def scaler_count_def)
    show "scaler_ok (sy_mgr ?S) (sy_scaler ?S)" using ks s'(5) by (auto simp: scaler_ok_def)
  qed (use d(3,5) s'(3) in simp_all)
  then show ?thesis using s'(1) by (simp add: goes_on_def)
qed

subsection \<open>Sections of the prewarming thread\<close>

lemma check_loads_ok:
  assumes inv: "ctl_inv S"
  shows "goes_on (on_mgr (check_prewarming_models en) S)"
proof -
  note d = ctl_invD [OF inv]
  have t: "ctl_tables_ok (sy_mgr S)" using d(1) by (simp add: mgr_inv_def own_ok_def)
  obtain s' where s': "check_prewarming_models en (sy_mgr S) = Inr s'" "loads_ok (sy_mgr S) s'"
    using check_prewarming_models_ok [OF t] by blast
  have k: "copies_only (sy_mgr S) s'" "ctl_tables_ok s'" "entries s' \<subseteq> entries (sy_mgr S)" using s'(2) by (simp_all add: loads_ok_def)
  have "laminar (entries (sy_mgr S))" using d(1) by (simp add: mgr_inv_def)
  then have "laminar (entries s')" using k(3) by (rule laminar_subset)
  with k have m': "mgr_inv s' (flights (sy_actor S) (sy_scaler S))" by (intro mgr_inv_copies [OF d(1)])
  have "engine_part s' = engine_part (sy_mgr S)" using k(1) by (simp add: copies_only_def)
  note e = engine_partD [OF this]
  have "ctl_inv (S\<lparr>sy_mgr := s'\<rparr>)" by (rule ctl_inv_mgr [OF inv m']) (simp_all add: e)
  then show ?thesis using s'(1) by (simp add: on_mgr_def goes_on_def)
qed

lemma update_model_load_config:
  assumes "update_model_load t m (sc, ms) = Inr (sc', ms')"
  shows "sched_fits c sc' = sched_fits c sc"
  using assms by (auto simp: update_model_load_def Let_def sched_fits_def)

lemma update_model_load_stats:
  assumes run: "update_model_load t m (sc, ms) = Inr (sc', ms')"
  shows "stats_ext ms ms'"
proof -
  obtain st where st: "ms m = Some st" "ms' m = Some (st\<lparr>ms_last_time := t, ms_sum_loads := 0, ms_max_loads := 0\<rparr>)"
    using update_model_load_this [OF run] by blast
  have "\<And>k. k \<noteq> m \<Longrightarrow> ms' k = ms k" using update_model_load_frame [OF run] by blast
  then have "ms' = ms(m \<mapsto> st\<lparr>ms_last_time := t, ms_sum_loads := 0, ms_max_loads := 0\<rparr>)" using st(2) by auto
  then show ?thesis using stats_ext_upd [of ms m st] st(1) by simp
qed

lemma update_loads_frame:
  assumes "update_loads t sc ms = Inr (b, sc', ms')"
  shows "stats_ext ms ms' \<and> sched_fits c sc' = sched_fits c sc"
proof (cases "t - sc_start_time sc < (of_nat (sc_cur_window_id sc) + 1) * sc_window_size sc")
  case True
  then show ?thesis using assms by (simp add: update_loads_def)
next
  case False
  let ?P = "\<lambda>st. stats_ext ms (snd st) \<and> sched_fits c (fst st) = sched_fits c sc"
  have step: "?P st'" if st: "?P st" and run: "update_model_load t m st = Inr st'" for m st st'
  proof -
    obtain sc1 ms1 sc2 ms2 where s: "st = (sc1, ms1)" "st' = (sc2, ms2)" by (cases st; cases st') blast
    have "stats_ext ms1 ms2" "sched_fits c sc2 = sched_fits c sc1"
      using update_model_load_stats update_model_load_config run unfolding s by blast+
    then show ?thesis using st unfolding s stats_ext_def by (simp, meson subset_trans)
  qed
  obtain st where st: "fold_r (update_model_load t) (map fst (sc_model_info sc)) (sc, ms) = Inr st"
    "sc' = (fst st)\<lparr>sc_cur_window_id := sc_cur_window_id (fst st) + 1\<rparr>" "ms' = snd st"
    using assms False by (auto simp: update_loads_def)
  have "?P st"
  proof (rule fold_r_inv [where P = "?P", OF st(1)])
    fix m u u'
    assume "?P u" and "update_model_load t m u = Inr u'"
    then show "?P u'" by (rule step)
  qed simp
  then show ?thesis using st(2,3) by (simp add: sched_fits_def)
qed

lemma update_section_inv:
  assumes inv: "ctl_inv S" and run: "update_loads t (sy_sched S) (pm_model_stats (sy_mgr S)) = Inr (b, sc, ms)"
  shows "ctl_inv (S\<lparr>sy_sched := sc, sy_mgr := (sy_mgr S)\<lparr>pm_model_stats := ms\<rparr>\<rparr>)"
proof -
  note d = ctl_invD [OF inv]
  have f: "stats_ext (pm_model_stats (sy_mgr S)) ms" "sched_fits (pm_config (sy_mgr S)) sc"
    using update_loads_frame [OF run, of "pm_config (sy_mgr S)"] d(5) by simp_all
  let ?s = "(sy_mgr S)\<lparr>pm_model_stats := ms\<rparr>"
  have cl: "claims ?s = claims (sy_mgr S)" "pids ?s = pids (sy_mgr S)" by (rule claims_cong, simp) (rule pids_cong, simp)
  have r: "reqs_only (sy_mgr S) ?s" by (simp add: reqs_only_def cl)
  have "mgr_inv ?s (flights (sy_actor S) (sy_scaler S))"
    by (rule mgr_inv_reqs_only [OF d(1) r engines_ok_stats [OF d(6) f(1)]])
  then have "ctl_inv (S\<lparr>sy_mgr := ?s\<rparr>)" by (rule ctl_inv_mgr [OF inv]) simp_all
  from ctl_invD [OF this] show ?thesis using f(2) by (intro ctl_invI) (simp_all add: pending_fun)
qed

lemma plan_section_inv:
  assumes inv: "ctl_inv S" and um: "mc_use_unified_memory (pm_config (sy_mgr S))" and run: "plan_prewarm (sy_sched S) (sy_mgr S) = Inr s'"
  shows "ctl_inv (S\<lparr>sy_mgr := s'\<rparr>)"
proof -
  note d = ctl_invD [OF inv]
  note k = plan_prewarm_inv [OF d(1) um d(5) run]
  note e = engine_partD [OF k(2)]
  show ?thesis by (rule ctl_inv_mgr [OF inv k(1)]) (simp_all add: e)
qed

subsection \<open>All sections\<close>

fun predicts :: "ctl_section \<Rightarrow> bool" where
  "predicts Update_Loads = True"
| "predicts Plan_Prewarm = True"
| "predicts _ = False"

lemma section_goes_on:
  assumes inv: "ctl_inv S" and run: "run_section en x S = Some r" and x: "\<not> predicts x"
  shows "goes_on r"
proof (cases x)
  case (Schedule rid m)
  then show ?thesis using run schedule_section_ok [OF inv] by (auto split: if_splits)
next
  case (Complete i)
  then have r: "r = on_mgr (compl_request en i) S" and sv: "serves i (sy_mgr S)" using run by (auto split: if_splits)
  show ?thesis unfolding r by (rule on_mgr_reqs [OF inv]) (rule compl_request_ok [OF ctl_invD(6) [OF inv] sv])
next
  case (Register_Kv i t mb)
  then have r: "r = on_mgr (register_blocks i t mb) S" and i: "i \<in> fst ` set (pm_engine_stats (sy_mgr S))"
    and kv: "mc_enable_kv_prewarm (pm_config (sy_mgr S))" using run by (auto split: if_splits)
  obtain e where e: "map_of (pm_engine_stats (sy_mgr S)) i = Some e" using i by (metis map_of_eq_None_iff not_None_eq)
  have "engine_ok (sy_mgr S) i e" using ctl_invD(6) [OF inv] e by (simp add: engines_ok_def)
  then have "i < length (pm_engine_data (sy_mgr S))" using ctl_invD(1) [OF inv] kv by (simp add: engine_ok_def mgr_inv_def data_ok_def)
  with i show ?thesis unfolding r by (intro on_mgr_data [OF inv] register_blocks_ok)
next
  case (Kv_Reserve i ids)
  then have r: "r = on_mgr (kv_reserve i ids) S" and i: "i < length (pm_engine_data (sy_mgr S))" using run by (auto split: if_splits)
  show ?thesis unfolding r by (rule on_mgr_data [OF inv]) (rule kv_reserve_ok [OF i])
next
  case Actor_Advance
  then obtain c m where a: "sy_actor S = Creating c m" using run by (auto split: actor.splits)
  have "r = bind_r (advance en c (sy_mgr S)) (\<lambda>(p, s). Inr (S\<lparr>sy_mgr := s, sy_actor := actor_after m p\<rparr>))"
    using run Actor_Advance a by (auto split: if_splits)
  then show ?thesis using actor_advance_ok [OF inv a] by simp
next
  case Actor_Cancel
  then obtain m where a: "sy_actor S = Giving_Up m" using run by (auto split: actor.splits)
  have "r = bind_r (cancel_creation m 1 (sy_mgr S)) (\<lambda>s. Inr (S\<lparr>sy_mgr := s, sy_actor := Serving\<rparr>))"
    using run Actor_Cancel a by (auto split: if_splits)
  then show ?thesis using actor_cancel_ok [OF inv a] by simp
next
  case Autoscale
  then show ?thesis using run autoscale_section_ok [OF inv] by (auto split: if_splits)
next
  case Next_Creation
  then obtain todo where a: "sy_scaler S = Planned todo" using run by (auto split: scaler.splits)
  show ?thesis
  proof (cases todo)
    case Nil
    then show ?thesis using run Next_Creation a check_starts_ok [OF inv] by (auto simp: goes_on_def)
  next
    case (Cons mk rest)
    then show ?thesis using run Next_Creation a next_section_ok [OF inv] by (cases mk) auto
  qed
next
  case Scaler_Advance
  then obtain c m k todo where a: "sy_scaler S = Building c m k todo" using run by (auto split: scaler.splits)
  then show ?thesis using run Scaler_Advance scaler_advance_ok [OF inv a] by auto
next
  case Scaler_Cancel
  then obtain todo where a: "sy_scaler S = Cancelling todo" using run by (auto split: scaler.splits)
  then show ?thesis using run Scaler_Cancel scaler_cancel_ok [OF inv a] by auto
next
  case Check_Next
  then obtain is' where a: "sy_scaler S = Checking is'" using run by (auto split: scaler.splits)
  show ?thesis
  proof (cases is')
    case Nil
    have "ctl_inv (S\<lparr>sy_scaler := Sleeping\<rparr>)"
      by (rule ctl_inv_scaler [OF inv]) (simp_all add: a flight_simps scaler_count_def scaler_ok_def)
    then show ?thesis using run Check_Next a Nil by (auto simp: goes_on_def)
  next
    case (Cons i rest)
    then show ?thesis using run Check_Next a check_section_ok [OF inv] by auto
  qed
next
  case Check_Loads
  then show ?thesis using run check_loads_ok [OF inv] by (auto split: if_splits)
qed (use x in simp_all)

lemma section_keeps:
  assumes inv: "ctl_inv S" and run: "run_section en x S = Some (Inr S')"
  shows "ctl_inv S'"
proof (cases "predicts x")
  case False
  then show ?thesis using section_goes_on [OF inv run] by (simp add: goes_on_def)
next
  case True
  then consider "x = Update_Loads" | "x = Plan_Prewarm" by (cases x) simp_all
  then show ?thesis
  proof cases
    case 1
    then show ?thesis using run update_section_inv [OF inv] by (auto split: if_splits)
  next
    case 2
    then show ?thesis using run plan_section_inv [OF inv] by (auto simp: on_mgr_def split: if_splits)
  qed
qed

lemma ctl_step_keeps: "ctl_step S x S' \<Longrightarrow> ctl_inv S \<Longrightarrow> ctl_inv S'"
  by (erule ctl_stepE) (blast intro: section_keeps)

lemma ctl_reach_inv: "ctl_reach S0 S \<Longrightarrow> ctl_inv S0 \<Longrightarrow> ctl_inv S"
  by (induction rule: ctl_reach.induct) (blast intro: ctl_step_keeps)+

end
