(* ===== verification/Ctl_Thms.thy ===== *)
theory Ctl_Thms
  imports Ctl_Sections
begin

text \<open>
  What the invariant of the concurrent controller means in every state that can be reached from a
  start, with a history of a small cluster to which the theorems are applied.
\<close>

subsection \<open>The start\<close>

definition start_ok :: "manager_config \<Rightarrow> (nat \<times> nat) list \<Rightarrow> int list \<Rightarrow> sched \<Rightarrow> bool" where
  "start_ok c ids mem sc \<longleftrightarrow> wf_conf c \<and> length ids = num_workers c \<and> length mem = num_workers c \<and> sched_fits c sc"

lemma start_ctl_inv:
  assumes "start_ok c ids mem sc"
  shows "ctl_inv (start_system c ids mem sc)"
proof (rule ctl_invI)
  let ?S = "start_system c ids mem sc"
  let ?s = "sy_mgr ?S" and ?g = "flights (sy_actor ?S) (sy_scaler ?S)"
  have c: "wf_conf c" "length ids = num_workers c" "length mem = num_workers c" "sched_fits c sc"
    using assms by (simp_all add: start_ok_def)
  have s: "?s = start_manager c ids mem" "sy_actor ?S = Serving" "sy_scaler ?S = Sleeping" "sy_sched ?S = sc"
    by (simp_all add: start_system_def)
  have jo: "jobs_of ?s n = []" for n by (simp add: s start_manager_def jobs_of_def)
  have nm: "pm_node_models ?s = replicate (mc_num_servers c) []" "pm_model_workers ?s = Map.empty" "pm_in_prewarming ?s = []"
    and cf: "pm_config ?s = c" and es: "pm_engine_stats ?s = []" by (simp_all add: s start_manager_def)
  have g: "claims ?s ?g p = []" "pids ?s ?g p = None" for p
    by (cases p; simp add: es s(2,3) flight_simps)+
  have "sized ?s" using c by (simp add: s start_manager_def sized_def)
  moreover have "ctl_tables_ok ?s" by (simp add: ctl_tables_ok_def nodes_ok_def jobs_ok_def nm cf default_get_def)
  moreover have "\<not> busy ?s w" if q: "w < num_workers c" for w
    using q c(2) by (simp add: busy_def s start_manager_def WorkerStatus_def split: prod.split)
  ultimately have "own_ok ?s (claims ?s ?g)" by (simp add: own_ok_def g cf)
  moreover have "engines_ok ?s" by (simp add: engines_ok_def s start_manager_def models_def default_get_def)
  moreover have "pids_ok ?s (pids ?s ?g)" by (simp add: pids_ok_def engine_pool_def g) (simp add: s start_manager_def)
  moreover have "data_ok ?s" by (simp add: data_ok_def s start_manager_def new_engine_data_def)
  moreover have "entries ?s = {}" by (simp add: entries_def nm jo)
  ultimately show "mgr_inv ?s ?g" using c(1) cf by (simp add: mgr_inv_def laminar_def)
  show "counts_ok ?s (pending ?S)"
    by (simp add: counts_ok_def pending_def s start_manager_def models_def actor_count_def scaler_count_def)
  show "actor_ok (pm_config ?s) (sy_actor ?S)" "scaler_ok ?s (sy_scaler ?S)" by (simp_all add: s actor_ok_def scaler_ok_def)
  show "sched_fits (pm_config ?s) (sy_sched ?S)" using c(4) by (simp add: cf s(4))
qed

lemma reach_inv: "start_ok c ids mem sc \<Longrightarrow> ctl_reach (start_system c ids mem sc) S \<Longrightarrow> ctl_inv S"
  using ctl_reach_inv start_ctl_inv by blast

subsection \<open>A history\<close>

text \<open>Two servers with two GPUs; the model \<open>a\<close> runs on one GPU, \<open>b\<close> on two.\<close>

declare exp_def [code del]

definition cx_conf :: manager_config where
  "cx_conf = \<lparr>mc_use_unified_memory = True, mc_disable_all_prewarm = False, mc_enable_prewarm = False,
     mc_enable_kv_prewarm = True, mc_disable_placement = False, mc_num_servers = 2, mc_num_gpu_per_server = 2,
     mc_node_workers = [[0, 1], [2, 3]], mc_model_info = [(''a'', 2097152, 1), (''b'', 8388608, 2)],
     mc_max_concurrent_engines = 2, mc_engine_runout_threshold = 1\<rparr>"

definition cx_ctl_sched :: sched where
  "cx_ctl_sched = \<lparr>sc_model_info = [(''a'', 2097152, 1), (''b'', 8388608, 2)], sc_num_servers = 2,
     sc_num_gpu_per_server = 2, sc_disable_placement = False, sc_window_size = 300,
     sc_past_avgs = Map.empty, sc_past_peaks = Map.empty, sc_predicted_avg_load = Map.empty,
     sc_predicted_peak_load = Map.empty, sc_recorded_avg_load = (\<lambda>_. []), sc_recorded_peak_load = (\<lambda>_. []),
     sc_cur_window_id = 0, sc_start_time = 0\<rparr>"

definition cx_env :: env where
  "cx_env = \<lparr>en_time = 0, en_wait = (\<lambda>_. []), en_compl = (\<lambda>_ _ _. Some True), en_reset = (\<lambda>_. 0),
     en_engines_done = True, en_data_done = True\<rparr>"

definition cx_start :: system where
  "cx_start = start_system cx_conf [(0, 0), (0, 1), (1, 0), (1, 1)] [0, 0, 0, 0] cx_ctl_sched"

definition cx_history :: "(env \<times> ctl_section) list" where
  "cx_history = map (Pair cx_env) (Schedule 1 ''a'' # replicate 6 Actor_Advance @ Schedule 2 ''b'' # replicate 6 Actor_Advance
     @ [Check_Loads, Schedule 3 ''a''])"

definition cx_end :: system where
  "cx_end = (case run_sections cx_history cx_start of Some (Inr S) \<Rightarrow> S | _ \<Rightarrow> cx_start)"

lemma cx_start_ok: "start_ok cx_conf [(0, 0), (0, 1), (1, 0), (1, 1)] [0, 0, 0, 0] cx_ctl_sched"
  by (simp add: start_ok_def wf_conf_def cx_conf_def cx_ctl_sched_def num_workers_def sched_fits_def upt_rec)

lemma cx_runs: "(case run_sections cx_history cx_start of Some (Inr S) \<Rightarrow> True | _ \<Rightarrow> False)"
  by code_simp

lemma cx_reach: "ctl_reach cx_start cx_end"
  using cx_runs by (auto simp: cx_end_def split: option.splits sum.splits intro: run_sections_reach)

lemma cx_engines: "map_option es_workers (map_of (pm_engine_stats (sy_mgr cx_end)) 0) = Some [0]"
  "map_option es_workers (map_of (pm_engine_stats (sy_mgr cx_end)) 1) = Some [2, 3]"
  "map_option es_num_reqs (map_of (pm_engine_stats (sy_mgr cx_end)) 0) = Some 2"
  "pm_node_models (sy_mgr cx_end) = [[(''a'', [0])], [(''b'', [2, 3])]]"
  by code_simp+

subsection \<open>Engines and workers\<close>

lemma cx_engine:
  "\<exists>e e'. map_of (pm_engine_stats (sy_mgr cx_end)) 0 = Some e \<and> map_of (pm_engine_stats (sy_mgr cx_end)) 1 = Some e'
     \<and> es_workers e = [0] \<and> es_workers e' = [2, 3] \<and> es_num_reqs e = 2"
  using cx_engines by auto



text \<open>
  C21. No worker is lost: a worker that is marked as taken belongs to a registered engine or to a
  creation that one of the two threads has under way, so that every worker is free again once the
  engines are gone.
\<close>

theorem ctl_no_worker_lost:
  assumes "start_ok c ids mem sc" and "ctl_reach (start_system c ids mem sc) S"
    and "w < num_workers (pm_config (sy_mgr S))" and "busy (sy_mgr S) w"
  shows "(\<exists>i e. map_of (pm_engine_stats (sy_mgr S)) i = Some e \<and> w \<in> set (es_workers e))
    \<or> (\<exists>cr m. sy_actor S = Creating cr m \<and> w \<in> set (creation_workers cr))
    \<or> (\<exists>cr m k todo. sy_scaler S = Building cr m k todo \<and> w \<in> set (creation_workers cr))"
proof -
  let ?s = "sy_mgr S" and ?g = "flights (sy_actor S) (sy_scaler S)"
  have "own_ok ?s (claims ?s ?g)" using ctl_invD(1) [OF reach_inv [OF assms(1,2)]] by (simp add: mgr_inv_def)
  then obtain p where p: "w \<in> set (claims ?s ?g p)" using assms(3,4) unfolding own_ok_def by blast
  show ?thesis
  proof (cases p)
    case (Eng i)
    then show ?thesis using p by (auto split: option.splits)
  next
    case Act
    then show ?thesis using p by (auto simp: flight_simps split: actor.splits)
  next
    case Scl
    then show ?thesis using p by (auto simp: flight_simps split: scaler.splits)
  qed
qed

lemma cx_busy: "num_workers (pm_config (sy_mgr cx_end)) = 4" "busy (sy_mgr cx_end) 2" "\<not> busy (sy_mgr cx_end) 1"
  "(case sy_actor cx_end of Serving \<Rightarrow> True | _ \<Rightarrow> False) \<and> (case sy_scaler cx_end of Sleeping \<Rightarrow> True | _ \<Rightarrow> False)"
  by code_simp+

theorem ctl_no_worker_lost_witness:
  "\<exists>i e. map_of (pm_engine_stats (sy_mgr cx_end)) i = Some e \<and> 2 \<in> set (es_workers e)"
  using ctl_no_worker_lost [OF cx_start_ok cx_reach [unfolded cx_start_def], of 2] cx_busy
  by (simp split: actor.splits scaler.splits)

subsection \<open>Counters\<close>

text \<open>
  C13. The counters that the scheduler and the autoscaler read are exact in every reachable state:
  \<open>num_engines\<close> counts the engines of the model that do not stop, \<open>num_in_creating_engines\<close> the
  creations that are planned or under way, and an engine serves at most \<open>BATCH_SIZE\<close> requests.
\<close>

theorem ctl_counters_exact:
  assumes "start_ok c ids mem sc" and "ctl_reach (start_system c ids mem sc) S" and "m \<in> models (sy_mgr S)"
  shows "pm_num_engines (sy_mgr S) m
      = Some (int (card {i. \<exists>e. map_of (pm_engine_stats (sy_mgr S)) i = Some e \<and> es_model e = m \<and> \<not> es_stopping e}))
    \<and> pm_num_in_creating (sy_mgr S) m = Some (int (actor_count (sy_actor S) m + scaler_count (sy_scaler S) m))
    \<and> (\<forall>i e. map_of (pm_engine_stats (sy_mgr S)) i = Some e \<longrightarrow> 0 \<le> es_num_reqs e \<and> es_num_reqs e \<le> BATCH_SIZE)"
proof -
  let ?s = "sy_mgr S" and ?is = "default_get (pm_model_engines (sy_mgr S)) m"
  note inv = reach_inv [OF assms(1,2)]
  have eo: "engines_ok ?s" by (rule ctl_invD(6) [OF inv])
  have "set ?is = {i. \<exists>e. map_of (pm_engine_stats ?s) i = Some e \<and> es_model e = m \<and> \<not> es_stopping e}"
    using eo unfolding engines_ok_def by blast
  moreover have "distinct ?is" "pm_num_engines ?s m = Some (int (length ?is))" using eo assms(3) unfolding engines_ok_def by blast+
  moreover have "pm_num_in_creating ?s m = Some (int (pending S m))" using ctl_invD(2) [OF inv] assms(3) by (simp add: counts_ok_def)
  moreover have "0 \<le> es_num_reqs e \<and> es_num_reqs e \<le> BATCH_SIZE" if q: "map_of (pm_engine_stats ?s) i = Some e" for i e
  proof -
    have "engine_ok ?s i e" using eo q by (simp add: engines_ok_def)
    then show ?thesis by (simp add: engine_ok_def)
  qed
  ultimately show ?thesis by (simp add: pending_def flip: distinct_card)
qed

theorem ctl_counters_exact_witness:
  "''a'' \<in> models (sy_mgr cx_end) \<and> pm_num_in_creating (sy_mgr cx_end) ''a'' = Some 0"
proof -
  have m: "''a'' \<in> models (sy_mgr cx_end)" unfolding models_def by code_simp
  moreover have "sy_actor cx_end = Serving" "sy_scaler cx_end = Sleeping" using cx_busy(4) by (simp_all split: actor.splits scaler.splits)
  ultimately show ?thesis using ctl_counters_exact [OF cx_start_ok cx_reach [unfolded cx_start_def], of "''a''"]
    by (simp add: actor_count_def scaler_count_def)
qed

subsection \<open>Exceptions\<close>



subsection \<open>Prewarmed copies\<close>

text \<open>
  C6. In every reachable state the copies of the cluster, those that are loaded and those whose
  load runs, are laminar: two copies that share a worker belong to different models and one uses a
  subset of the workers of the other; every copy is a group of distinct workers of one server. So
  the property of one plan of the scheduler survives its composition with the claims and evictions
  of concurrent creations.
\<close>

theorem ctl_copies_laminar:
  assumes "start_ok c ids mem sc" and "ctl_reach (start_system c ids mem sc) S"
  shows "laminar (entries (sy_mgr S)) \<and> (\<forall>(m, ws) \<in> entries (sy_mgr S). \<exists>n. wf_group (pm_config (sy_mgr S)) n ws)"
proof -
  let ?s = "sy_mgr S"
  have inv: "mgr_inv ?s (flights (sy_actor S) (sy_scaler S))" by (rule ctl_invD(1) [OF reach_inv [OF assms]])
  have t: "ctl_tables_ok ?s" using inv by (simp add: mgr_inv_def own_ok_def)
  have nodes: "\<exists>n. wf_group (pm_config ?s) n ws" if q: "models \<in> set (pm_node_models ?s)" "(m, ws) \<in> set models" for models m ws
  proof -
    obtain k where "k < length (pm_node_models ?s)" "models = pm_node_models ?s ! k" using q(1) by (metis in_set_conv_nth)
    then show ?thesis using t q(2) unfolding ctl_tables_ok_def nodes_ok_def by blast
  qed
  have jobs: "wf_group (pm_config ?s) n (pj_workers j)" if q: "j \<in> set (jobs_of ?s n)" for n j
    using t q by (auto simp: ctl_tables_ok_def jobs_ok_iff job_ok_def)
  have "\<exists>n. wf_group (pm_config ?s) n ws" if q: "(m, ws) \<in> entries ?s" for m ws
    using q nodes jobs unfolding entries_def by blast
  then show ?thesis using inv by (auto simp: mgr_inv_def)
qed

theorem ctl_copies_laminar_witness:
  "(''b'', [2, 3]) \<in> entries (sy_mgr cx_end) \<and> (\<exists>n. wf_group (pm_config (sy_mgr cx_end)) n [2, 3])"
proof -
  have "(''b'', [2, 3]) \<in> entries (sy_mgr cx_end)" using cx_engines(4) by (simp add: entries_def)
  then show ?thesis using ctl_copies_laminar [OF cx_start_ok cx_reach [unfolded cx_start_def]] by auto
qed

end
