(* ===== verification/Ctl_Serve.thy ===== *)
theory Ctl_Serve
  imports Ctl_Thms
begin

text \<open>
  What a request gets: the engine with the fewest requests when one has room, and a new engine when
  none has and a server has enough idle workers. Then the progress of the two threads.
\<close>

subsection \<open>The choice of an engine\<close>

lemma least_loaded_min:
  assumes "least_loaded s n b is = Inr r" and "\<forall>i \<in> set is. map_of (pm_engine_stats s) i \<noteq> None"
  shows "case r of None \<Rightarrow> b = None \<and> (\<forall>i \<in> set is. \<forall>e. map_of (pm_engine_stats s) i = Some e \<longrightarrow> n \<le> es_num_reqs e)
    | Some j \<Rightarrow> (r = b \<and> (\<forall>i \<in> set is. \<forall>e. map_of (pm_engine_stats s) i = Some e \<longrightarrow> n \<le> es_num_reqs e))
       \<or> (j \<in> set is \<and> (\<exists>d. map_of (pm_engine_stats s) j = Some d \<and> es_num_reqs d < n
            \<and> (\<forall>i \<in> set is. \<forall>e. map_of (pm_engine_stats s) i = Some e \<longrightarrow> es_num_reqs d \<le> es_num_reqs e)))"
  using assms
proof (induction "is" arbitrary: n b)
  case Nil
  then show ?case by (simp split: option.split)
next
  case (Cons i "is")
  obtain e where e: "map_of (pm_engine_stats s) i = Some e" using Cons.prems(2) by auto
  have is': "\<forall>i \<in> set is. map_of (pm_engine_stats s) i \<noteq> None" using Cons.prems(2) by simp
  show ?case
  proof (cases "es_num_reqs e < n")
    case True
    then have "least_loaded s (es_num_reqs e) (Some i) is = Inr r" using Cons.prems(1) e by (simp add: engine_of_def)
    from Cons.IH [OF this is'] show ?thesis using True e by (cases r) force+
  next
    case False
    then have "least_loaded s n b is = Inr r" using Cons.prems(1) e by (simp add: engine_of_def)
    from Cons.IH [OF this is'] show ?thesis using False e by (cases r) force+
  qed
qed

definition serving :: "manager \<Rightarrow> string \<Rightarrow> nat \<Rightarrow> engine_status \<Rightarrow> bool" where
  "serving s m i e \<longleftrightarrow> map_of (pm_engine_stats s) i = Some e \<and> es_model e = m \<and> \<not> es_stopping e"

lemma schedule_request_best:
  assumes inv: "engines_ok s" and m: "m \<in> models s" and nc: "pm_num_in_creating s m \<noteq> None"
    and run: "schedule_request en rid m s = Inr (r, s')"
  shows "case r of
      Served i \<Rightarrow> (\<exists>e. serving s m i e \<and> es_num_reqs e < BATCH_SIZE \<and> (\<forall>j d. serving s m j d \<longrightarrow> es_num_reqs e \<le> es_num_reqs d)
        \<and> map_of (pm_engine_stats s') i = Some (e\<lparr>es_num_reqs := es_num_reqs e + 1\<rparr>)
        \<and> (\<forall>j. j \<noteq> i \<longrightarrow> map_of (pm_engine_stats s') j = map_of (pm_engine_stats s) j))
    | Not_Found \<Rightarrow> False
    | Wait \<Rightarrow> (\<forall>j d. serving s m j d \<longrightarrow> BATCH_SIZE \<le> es_num_reqs d) \<and> pm_num_in_creating s m \<noteq> Some 0
    | Create \<Rightarrow> (\<forall>j d. serving s m j d \<longrightarrow> BATCH_SIZE \<le> es_num_reqs d) \<and> (\<exists>k \<le> 0. pm_num_in_creating s m = Some k)"
proof -
  let ?rec = "if rid \<in> pm_recorded_reqs s then Inr s else bind_r (update_model_req en m 1 s) (\<lambda>s.
        Inr (s\<lparr>pm_recorded_reqs := insert rid (pm_recorded_reqs s)\<rparr>))"
  have "\<exists>s1. ?rec = Inr s1 \<and> pm_engine_stats s1 = pm_engine_stats s \<and> pm_model_engines s1 = pm_model_engines s
      \<and> pm_num_in_creating s1 = pm_num_in_creating s"
  proof (cases "rid \<in> pm_recorded_reqs s")
    case False
    obtain s1 where "update_model_req en m 1 s = Inr s1" "pm_num_in_creating s1 = pm_num_in_creating s"
      "pm_engine_stats s1 = pm_engine_stats s" "pm_model_engines s1 = pm_model_engines s"
      using update_model_req_ok [OF inv m, of en 1] by blast
    then show ?thesis using False by simp
  qed simp
  then obtain s1 where s1: "?rec = Inr s1" "pm_engine_stats s1 = pm_engine_stats s" "pm_model_engines s1 = pm_model_engines s"
    "pm_num_in_creating s1 = pm_num_in_creating s" by blast
  let ?is = "default_get (pm_model_engines s) m"
  have iff: "serving s m i e \<longleftrightarrow> i \<in> set ?is \<and> map_of (pm_engine_stats s) i = Some e" for i e
  proof -
    have "\<And>m i. i \<in> set (default_get (pm_model_engines s) m) \<longleftrightarrow>
          (\<exists>e. map_of (pm_engine_stats s) i = Some e \<and> es_model e = m \<and> \<not> es_stopping e)" using inv unfolding engines_ok_def by blast
    then show ?thesis by (auto simp: serving_def)
  qed
  have ids: "\<forall>i \<in> set ?is. map_of (pm_engine_stats s1) i \<noteq> None" using engines_of_model [OF inv] unfolding s1(2) by blast
  have mm: "m \<in> fst ` set (mc_model_info (pm_config s))" using m by (simp add: models_def)
  obtain best where best: "least_loaded s1 BATCH_SIZE None ?is = Inr best" using least_loaded_ok [OF ids] by blast
  have run': "(case best of
            Some i \<Rightarrow> bind_r (add_reqs i 1 s1) (\<lambda>s. Inr (Served i, s))
          | None \<Rightarrow> bind_r (get_key (pm_num_in_creating s1) m) (\<lambda>k.
              if 0 < k then Inr (Wait, s1)
              else Inr (Create, s1\<lparr>pm_num_in_creating := (pm_num_in_creating s1)(m \<mapsto> k + 1)\<rparr>))) = Inr (r, s')"
    using run mm s1(1) best s1(3) by (simp add: schedule_request_def)
  note b = least_loaded_min [OF best ids]
  show ?thesis
  proof (cases best)
    case None
    have full: "\<forall>j d. serving s m j d \<longrightarrow> BATCH_SIZE \<le> es_num_reqs d" using b None iff by (auto simp: s1(2))
    obtain k where "pm_num_in_creating s m = Some k" using nc by auto
    then show ?thesis using run' None full s1(4) by (auto split: if_splits)
  next
    case (Some i)
    obtain e where e: "i \<in> set ?is" "map_of (pm_engine_stats s) i = Some e" "es_num_reqs e < BATCH_SIZE"
      "\<forall>j \<in> set ?is. \<forall>d. map_of (pm_engine_stats s) j = Some d \<longrightarrow> es_num_reqs e \<le> es_num_reqs d"
      using b Some by (auto simp: s1(2))
    have "r = Served i" "s' = set_engine i (e\<lparr>es_num_reqs := es_num_reqs e + 1\<rparr>) s1"
      using run' Some e(2) by (simp_all add: add_reqs_def engine_of_def s1(2))
    then show ?thesis using e iff by (auto simp: set_engine_def update_conv' s1(2))
  qed
qed

text \<open>
  C24. A request goes to the engine of its model that serves the fewest requests, if that one has
  room (fewer than \<open>BATCH_SIZE\<close> requests), and that engine serves one more; only when all engines of
  the model are full does the request wait for a creation that runs, or start one.
\<close>

theorem schedule_picks_least_loaded:
  assumes "start_ok c ids mem sc" and "ctl_reach (start_system c ids mem sc) S" and "m \<in> models (sy_mgr S)"
    and "schedule_request en rid m (sy_mgr S) = Inr (r, s')"
  shows "case r of
      Served i \<Rightarrow> (\<exists>e. serving (sy_mgr S) m i e \<and> es_num_reqs e < BATCH_SIZE
        \<and> (\<forall>j d. serving (sy_mgr S) m j d \<longrightarrow> es_num_reqs e \<le> es_num_reqs d)
        \<and> map_of (pm_engine_stats s') i = Some (e\<lparr>es_num_reqs := es_num_reqs e + 1\<rparr>)
        \<and> (\<forall>j. j \<noteq> i \<longrightarrow> map_of (pm_engine_stats s') j = map_of (pm_engine_stats (sy_mgr S)) j))
    | Not_Found \<Rightarrow> False
    | Wait \<Rightarrow> (\<forall>j d. serving (sy_mgr S) m j d \<longrightarrow> BATCH_SIZE \<le> es_num_reqs d) \<and> pm_num_in_creating (sy_mgr S) m \<noteq> Some 0
    | Create \<Rightarrow> (\<forall>j d. serving (sy_mgr S) m j d \<longrightarrow> BATCH_SIZE \<le> es_num_reqs d)
        \<and> (\<exists>k \<le> 0. pm_num_in_creating (sy_mgr S) m = Some k)"
proof -
  note inv = reach_inv [OF assms(1,2)]
  have "pm_num_in_creating (sy_mgr S) m \<noteq> None" using ctl_invD(2) [OF inv] assms(3) by (simp add: counts_ok_def)
  from schedule_request_best [OF ctl_invD(6) [OF inv] assms(3) this assms(4)] show ?thesis .
qed

lemma cx_serve: "case schedule_request cx_env 4 ''a'' (sy_mgr cx_end) of Inr (Served i, s') \<Rightarrow> i = 0 | _ \<Rightarrow> False"
  "''a'' \<in> models (sy_mgr cx_end)"
  by code_simp (unfold models_def, code_simp)

theorem schedule_picks_least_loaded_witness:
  "\<exists>s' e. schedule_request cx_env 4 ''a'' (sy_mgr cx_end) = Inr (Served 0, s') \<and> serving (sy_mgr cx_end) ''a'' 0 e
     \<and> map_of (pm_engine_stats s') 0 = Some (e\<lparr>es_num_reqs := es_num_reqs e + 1\<rparr>)"
proof -
  obtain s' where r: "schedule_request cx_env 4 ''a'' (sy_mgr cx_end) = Inr (Served 0, s')"
    using cx_serve(1) by (auto split: sum.splits schedule_answer.splits)
  from schedule_picks_least_loaded [OF cx_start_ok cx_reach [unfolded cx_start_def] cx_serve(2) r] r show ?thesis by auto
qed

subsection \<open>Finding workers\<close>

definition idle_on :: "manager \<Rightarrow> nat \<Rightarrow> nat list" where
  "idle_on s n = (let g = mc_num_gpu_per_server (pm_config s) in filter (\<lambda>w. \<not> busy s w) [n * g..<n * g + g])"

lemma best_fit_None:
  assumes c: "wf_conf (pm_config s)" and s: "sized s" and "best_fit s k ns = Inr None"
    and "\<forall>n \<in> set ns. n < mc_num_servers (pm_config s)"
  shows "\<forall>n \<in> set ns. int (length (idle_on s n)) < k"
  using assms(3,4)
proof (induction ns)
  case (Cons n ns)
  let ?c = "pm_config s"
  let ?g = "mc_num_gpu_per_server ?c"
  let ?ws = "[n * ?g..<n * ?g + ?g]"
  have nw: "mc_node_workers ?c ! n = ?ws" "n < length (mc_node_workers ?c)" and g: "0 < ?g"
    using c Cons.prems by (auto simp: wf_conf_def)
  have "w div ?g = n" if q: "w \<in> set ?ws" for w
    using q g by (auto intro!: div_nat_eqI simp: mult.commute)
  then have "\<forall>w \<in> set ?ws. w < num_workers ?c"
    using Cons.prems g by (simp add: num_workers_def flip: div_less_iff_less_mult)
  then have "idle_of s ?ws = Inr (idle_on s n)" unfolding idle_on_def Let_def by (rule idle_of_ok [OF s])
  then have "\<not> k \<le> int (length (idle_on s n)) \<and> best_fit s k ns = Inr None"
    using Cons.prems(1) nw by (auto split: if_splits)
  then show ?case using Cons by simp
qed simp

lemma finds_workers:
  assumes c: "wf_conf (pm_config s)" and s: "sized s" and t: "ctl_tables_ok s" and tp: "tensor_parallel_size mi \<noteq> 0" and k: "0 < k"
    and n: "n < mc_num_servers (pm_config s)" "k \<le> int (length (idle_on s n))"
  shows "\<exists>n ws hit s'. get_available_workers mi k s = Inr (Some (n, ws, hit), s') \<and> ws \<noteq> []"
proof (rule ccontr)
  assume no: "\<not> ?thesis"
  obtain r st where r: "get_available_workers mi k s = Inr (r, s\<lparr>pm_worker_stats := st\<rparr>)" "found s k r st"
    using get_available_workers_ok [OF c s t tp k] by blast
  with no have "r = None" by (cases r) (auto simp: found_def wf_group_def)
  then have "find_idle k s = Inr None"
    using r by (auto simp: get_available_workers_def split: option.splits if_splits)
  then have "best_fit s k [0..<mc_num_servers (pm_config s)] = Inr None" using c by (simp add: find_idle_def wf_conf_def)
  from best_fit_None [OF c s this] n show False by force
qed

subsection \<open>Progress of a creation\<close>

fun stage :: "creation \<Rightarrow> nat" where
  "stage (Finding direct mi) = 6"
| "stage (Claiming direct mi n ws hit) = 5"
| "stage (Addressing direct mi ws) = 4"
| "stage (Starting direct mi ws port) = 3"
| "stage (Registering direct mi ws pid) = 2"
| "stage (Informing ws pid i) = 1"

lemma advance_stage: "advance en c s = Inr (Running c', s') \<Longrightarrow> stage c' < stage c"
  by (cases c) (auto split: option.splits if_splits)

lemma actor_step:
  assumes inv: "ctl_inv S" and a: "sy_actor S = Creating c m" and l: "lock_free S"
  shows "\<exists>p s'. advance en c (sy_mgr S) = Inr (p, s')
    \<and> run_section en Actor_Advance S = Some (Inr (S\<lparr>sy_mgr := s', sy_actor := actor_after m p\<rparr>))
    \<and> ctl_inv (S\<lparr>sy_mgr := s', sy_actor := actor_after m p\<rparr>)"
proof -
  obtain S' where S': "bind_r (advance en c (sy_mgr S)) (\<lambda>(p, s). Inr (S\<lparr>sy_mgr := s, sy_actor := actor_after m p\<rparr>)) = Inr S'" "ctl_inv S'"
    using actor_advance_ok [OF inv a, of en] unfolding goes_on_def by (elim exE conjE) (rule that)
  then obtain p s' where "advance en c (sy_mgr S) = Inr (p, s')" "S' = S\<lparr>sy_mgr := s', sy_actor := actor_after m p\<rparr>" by auto
  then show ?thesis using S' a l by (auto simp: can_advance_def)
qed

lemma lock_free_upd [simp]: "lock_free (S\<lparr>sy_mgr := s, sy_actor := a\<rparr>) = lock_free S"
  by (simp add: lock_free_def)

lemma creation_ends:
  assumes "ctl_inv S" and "sy_actor S = Creating c m" and "lock_free S"
  shows "\<exists>k \<le> stage c. \<exists>S'. run_sections (replicate k (en, Actor_Advance)) S = Some (Inr S')
    \<and> (sy_actor S' = Serving \<or> sy_actor S' = Giving_Up m)"
  using assms
proof (induction "stage c" arbitrary: S c rule: less_induct)
  case less
  obtain p s' where r: "advance en c (sy_mgr S) = Inr (p, s')"
    "run_section en Actor_Advance S = Some (Inr (S\<lparr>sy_mgr := s', sy_actor := actor_after m p\<rparr>))"
    "ctl_inv (S\<lparr>sy_mgr := s', sy_actor := actor_after m p\<rparr>)" using actor_step [OF less.prems] by blast
  let ?S = "S\<lparr>sy_mgr := s', sy_actor := actor_after m p\<rparr>"
  show ?case
  proof (cases p)
    case (Running c')
    have lt: "stage c' < stage c" using advance_stage r(1) Running by blast
    obtain k S' where k: "k \<le> stage c'" "run_sections (replicate k (en, Actor_Advance)) ?S = Some (Inr S')"
      "sy_actor S' = Serving \<or> sy_actor S' = Giving_Up m"
      using less.hyps [OF lt r(3)] less.prems(3) Running by (auto simp: actor_after_def)
    have "run_sections (replicate (Suc k) (en, Actor_Advance)) S = Some (Inr S')" using r(2) k(2) by simp
    then show ?thesis using k(1,3) lt by (intro exI [of _ "Suc k"]) auto
  next
    case Failed
    have "0 < stage c" by (cases c) simp_all
    then show ?thesis using r(2) Failed by (intro exI [of _ 1]) (simp add: actor_after_def)
  next
    case (Done i)
    have "0 < stage c" by (cases c) simp_all
    then show ?thesis using r(2) Done by (intro exI [of _ 1]) (simp add: actor_after_def)
  qed
qed


definition cx_mid_history :: "(env \<times> ctl_section) list" where
  "cx_mid_history = map (Pair cx_env) [Schedule 1 ''a'', Actor_Advance]"

definition cx_mid :: system where
  "cx_mid = (case run_sections cx_mid_history cx_start of Some (Inr S) \<Rightarrow> S | _ \<Rightarrow> cx_start)"

lemma cx_mid_runs: "(case run_sections cx_mid_history cx_start of Some (Inr S) \<Rightarrow> True | _ \<Rightarrow> False)"
  by code_simp

lemma cx_mid_reach: "ctl_reach cx_start cx_mid"
  using cx_mid_runs by (auto simp: cx_mid_def split: option.splits sum.splits intro: run_sections_reach)

lemma cx_mid_actor: "case sy_actor cx_mid of Creating c m \<Rightarrow> stage c = 5 \<and> m = ''a'' | _ \<Rightarrow> False" "lock_free cx_mid"
  by code_simp+


subsection \<open>A request that needs a new engine\<close>

fun past_search :: "creation \<Rightarrow> bool" where
  "past_search (Claiming direct mi n ws hit) = direct"
| "past_search (Addressing direct mi ws) = direct"
| "past_search (Starting direct mi ws port) = direct"
| "past_search (Registering direct mi ws pid) = direct"
| "past_search _ = False"

lemma extend_data_stats: "pm_engine_stats (extend_data en i s) = pm_engine_stats s"
  using extend_data_frame [of en i s] by auto

lemma registering_adds:
  assumes "advance en (Registering True mi ws pid) s = Inr (p, s')" and "engines_ok s"
  shows "\<exists>i e. p = Running (Informing ws pid i) \<and> map_of (pm_engine_stats s) i = None
    \<and> map_of (pm_engine_stats s') i = Some e \<and> es_model e = model_name mi \<and> es_num_reqs e = 1"
  using assms fresh_engine [OF assms(2)]
  by (auto simp: register_engine_def add_engine_def Let_def extend_data_stats update_conv' EngineStatus_def)

lemma past_search_step:
  assumes inv: "ctl_inv S" and a: "sy_actor S = Creating c m" and c: "past_search c" and r: "advance en c (sy_mgr S) = Inr (p, s')"
  shows "(\<exists>c'. p = Running c' \<and> past_search c' \<and> pm_engine_stats s' = pm_engine_stats (sy_mgr S))
    \<or> (\<exists>ws pid i e. p = Running (Informing ws pid i) \<and> map_of (pm_engine_stats (sy_mgr S)) i = None
         \<and> map_of (pm_engine_stats s') i = Some e \<and> es_model e = m \<and> es_num_reqs e = 1)"
proof -
  note d = ctl_invD [OF inv]
  let ?g = "flights (sy_actor S) (sy_scaler S)"
  have g: "?g Act = Some c" using a by (simp add: flights_def)
  have ok: "creation_ok (pm_config (sy_mgr S)) c" "creation_model c \<in> {None, Some m}" using d(3) a by (simp_all add: actor_ok_def)
  have act: "Act = Act \<or> Act = Scl" by simp
  show ?thesis
  proof (cases c)
    case (Claiming direct mi n ws hit)
    from advance_claiming [OF d(1) act g [unfolded Claiming] ok(1) [unfolded Claiming], of en]
    obtain s1 where "advance en c (sy_mgr S) = Inr (Running (Addressing direct mi ws), s1)" "engine_part s1 = engine_part (sy_mgr S)"
      using Claiming by blast
    then show ?thesis using r c Claiming engine_partD(11) [of s1 "sy_mgr S"] by auto
  next
    case (Addressing direct mi ws)
    then show ?thesis using r c by auto
  next
    case (Starting direct mi ws port)
    from advance_starting [OF d(1) act g [unfolded Starting], of en]
    obtain pid s1 where "advance en c (sy_mgr S) = Inr (Running (Registering direct mi ws pid), s1)" "procs_only (sy_mgr S) s1"
      using Starting by blast
    then show ?thesis using r c Starting by (auto simp: procs_only_def)
  next
    case (Registering direct mi ws pid)
    then have "direct" "model_name mi = m" using c ok(2) by simp_all
    then show ?thesis using registering_adds [of en mi ws pid "sy_mgr S" p s'] r Registering d(6) by auto
  qed (use c in simp_all)
qed

lemma creation_serves:
  assumes "ctl_inv S" and "sy_actor S = Creating c m" and "lock_free S" and "past_search c"
  shows "\<exists>k S' i e. run_sections (replicate k (en, Actor_Advance)) S = Some (Inr S') \<and> sy_actor S' = Serving
    \<and> map_of (pm_engine_stats (sy_mgr S)) i = None \<and> map_of (pm_engine_stats (sy_mgr S')) i = Some e \<and> es_model e = m \<and> es_num_reqs e = 1"
  using assms
proof (induction "stage c" arbitrary: S c rule: less_induct)
  case less
  obtain p s' where r: "advance en c (sy_mgr S) = Inr (p, s')"
    "run_section en Actor_Advance S = Some (Inr (S\<lparr>sy_mgr := s', sy_actor := actor_after m p\<rparr>))"
    "ctl_inv (S\<lparr>sy_mgr := s', sy_actor := actor_after m p\<rparr>)" using actor_step [OF less.prems(1-3)] by blast
  let ?S = "S\<lparr>sy_mgr := s', sy_actor := actor_after m p\<rparr>"
  from past_search_step [OF less.prems(1,2,4) r(1)] show ?case
  proof
    assume "\<exists>c'. p = Running c' \<and> past_search c' \<and> pm_engine_stats s' = pm_engine_stats (sy_mgr S)"
    then obtain c' where c': "p = Running c'" "past_search c'" "pm_engine_stats s' = pm_engine_stats (sy_mgr S)" by blast
    have lt: "stage c' < stage c" using advance_stage r(1) c'(1) by blast
    obtain k S' i e where k: "run_sections (replicate k (en, Actor_Advance)) ?S = Some (Inr S')" "sy_actor S' = Serving"
      "map_of (pm_engine_stats (sy_mgr ?S)) i = None" "map_of (pm_engine_stats (sy_mgr S')) i = Some e" "es_model e = m" "es_num_reqs e = 1"
      using less.hyps [OF lt r(3)] less.prems(3) c' by (auto simp: actor_after_def)
    have "run_sections (replicate (Suc k) (en, Actor_Advance)) S = Some (Inr S')" using r(2) k(1) by simp
    then show ?thesis using k c'(3) by (intro exI [of _ "Suc k"] exI [of _ S'] exI [of _ i] exI [of _ e]) simp
  next
    assume "\<exists>ws pid i e. p = Running (Informing ws pid i) \<and> map_of (pm_engine_stats (sy_mgr S)) i = None
         \<and> map_of (pm_engine_stats s') i = Some e \<and> es_model e = m \<and> es_num_reqs e = 1"
    then obtain ws pid i e where p: "p = Running (Informing ws pid i)" "map_of (pm_engine_stats (sy_mgr S)) i = None"
      "map_of (pm_engine_stats s') i = Some e" "es_model e = m" "es_num_reqs e = 1" by blast
    let ?T = "?S\<lparr>sy_mgr := inform_engine pid ws i s', sy_actor := Serving\<rparr>"
    have "run_section en Actor_Advance ?S = Some (Inr ?T)" using p(1) by (simp add: actor_after_def can_advance_def)
    then have "run_sections (replicate 2 (en, Actor_Advance)) S = Some (Inr ?T)" using r(2) by (simp add: numeral_2_eq_2)
    then show ?thesis using p by (intro exI [of _ 2] exI [of _ ?T] exI [of _ i] exI [of _ e]) (simp add: inform_engine_def)
  qed
qed

text \<open>
  C14. A request is served whenever the cluster has room: if the thread of requests is idle, no
  creation of the model is planned or under way and some server has as many idle workers as the
  model needs, then \<open>schedule\<close>, running on its own, ends with an engine of the model that serves one
  request more than before, a new one if need be.
\<close>

theorem ctl_request_served:
  assumes "start_ok c ids mem sc" and "ctl_reach (start_system c ids mem sc) S"
    and "sy_actor S = Serving" and "lock_free S" and "scaler_count (sy_scaler S) m = 0"
    and "map_of (mc_model_info (pm_config (sy_mgr S))) m = Some (sz, tp)"
    and "n < mc_num_servers (pm_config (sy_mgr S))" and "tp \<le> length (idle_on (sy_mgr S) n)"
  shows "\<exists>k S' i e. run_sections (map (Pair en) (Schedule rid m # replicate k Actor_Advance)) S = Some (Inr S')
    \<and> sy_actor S' = Serving \<and> map_of (pm_engine_stats (sy_mgr S')) i = Some e \<and> es_model e = m
    \<and> es_num_reqs e = (case map_of (pm_engine_stats (sy_mgr S)) i of None \<Rightarrow> 1 | Some d \<Rightarrow> es_num_reqs d + 1)"
proof -
  let ?s = "sy_mgr S"
  have inv: "ctl_inv S" by (rule reach_inv [OF assms(1,2)])
  note d = ctl_invD [OF inv]
  have m: "m \<in> models ?s" using assms(6) unfolding models_def by (metis map_of_eq_None_iff option.simps(3))
  have nc: "pm_num_in_creating ?s m = Some 0"
    using d(2) m assms(3,5) by (simp add: counts_ok_def pending_def actor_count_def)
  obtain r s1 where r: "schedule_request en rid m ?s = Inr (r, s1)" and e: "schedule_effect m r ?s s1"
    using schedule_request_ok [OF d(6,2)] by blast
  have best: "case r of
      Served i \<Rightarrow> (\<exists>e. serving ?s m i e \<and> es_num_reqs e < BATCH_SIZE \<and> (\<forall>j d. serving ?s m j d \<longrightarrow> es_num_reqs e \<le> es_num_reqs d)
        \<and> map_of (pm_engine_stats s1) i = Some (e\<lparr>es_num_reqs := es_num_reqs e + 1\<rparr>)
        \<and> (\<forall>j. j \<noteq> i \<longrightarrow> map_of (pm_engine_stats s1) j = map_of (pm_engine_stats ?s) j))
    | Not_Found \<Rightarrow> False
    | Wait \<Rightarrow> (\<forall>j d. serving ?s m j d \<longrightarrow> BATCH_SIZE \<le> es_num_reqs d) \<and> pm_num_in_creating ?s m \<noteq> Some 0
    | Create \<Rightarrow> (\<forall>j d. serving ?s m j d \<longrightarrow> BATCH_SIZE \<le> es_num_reqs d) \<and> (\<exists>k \<le> 0. pm_num_in_creating ?s m = Some k)"
    by (rule schedule_request_best [OF d(6) m _ r]) (simp add: nc)
  consider i where "r = Served i" | "r = Create" using best nc by (cases r) simp_all
  then show ?thesis
  proof cases
    case 1
    obtain e where e: "serving ?s m i e" "map_of (pm_engine_stats s1) i = Some (e\<lparr>es_num_reqs := es_num_reqs e + 1\<rparr>)"
      using best 1 by auto
    have "run_section en (Schedule rid m) S = Some (Inr (S\<lparr>sy_mgr := s1\<rparr>))" using r 1 assms(3,4) by (simp add: sched_section_def)
    then show ?thesis using e assms(3)
      by (intro exI [of _ 0] exI [of _ "S\<lparr>sy_mgr := s1\<rparr>"] exI [of _ i] exI [of _ "e\<lparr>es_num_reqs := es_num_reqs e + 1\<rparr>"])
        (simp add: serving_def)
  next
    case 2
    have k: "reqs_only ?s s1" using e by (simp add: schedule_effect_def)
    have cf: "pm_config s1 = pm_config ?s" using k by (simp add: reqs_only_def)
    define mi where "mi = ModelInfo m (int tp) 1"
    have mo: "model_of s1 m = Inr mi" using assms(6) cf by (simp add: model_of_def mi_def)
    define S1 where "S1 = S\<lparr>sy_mgr := s1, sy_actor := Creating (Finding True mi) m\<rparr>"
    have r1: "run_section en (Schedule rid m) S = Some (Inr S1)"
      using r 2 mo assms(3,4) by (simp add: sched_section_def S1_def)
    have inv1: "ctl_inv S1" by (rule section_keeps [OF inv r1])
    note d1 = ctl_invD [OF inv1]
    have a1: "sy_actor S1 = Creating (Finding True mi) m" "lock_free S1" "sy_mgr S1 = s1" using assms(4) by (simp_all add: S1_def)
    obtain p s2 where s2: "advance en (Finding True mi) s1 = Inr (p, s2)"
      "run_section en Actor_Advance S1 = Some (Inr (S1\<lparr>sy_mgr := s2, sy_actor := actor_after m p\<rparr>))"
      "ctl_inv (S1\<lparr>sy_mgr := s2, sy_actor := actor_after m p\<rparr>)" using actor_step [OF inv1 a1(1,2), of en] a1(3) by auto
    have w1: "wf_conf (pm_config s1)" "sized s1" "ctl_tables_ok s1" using d1(1) a1(3) by (simp_all add: mgr_inv_def own_ok_def)
    have "0 < tp" using w1(1) cf map_of_SomeD [OF assms(6)] by (auto simp: wf_conf_def)
    then have tp: "tensor_parallel_size mi \<noteq> 0" "0 < mi_world_size mi" "mi_world_size mi = int tp"
      by (simp_all add: mi_def ModelInfo_def mi_world_size_def)
    have "idle_on s1 n = idle_on ?s n" using k by (simp add: idle_on_def busy_def reqs_only_def)
    then have len: "mi_world_size mi \<le> int (length (idle_on s1 n))" using assms(8) tp(3) by simp
    have ns: "n < mc_num_servers (pm_config s1)" using assms(7) cf by simp
    obtain n' ws hit s' where fw: "get_available_workers mi (mi_world_size mi) s1 = Inr (Some (n', ws, hit), s')" "ws \<noteq> []"
      using finds_workers [OF w1 tp(1,2) ns len] by blast
    have p: "p = Running (Claiming True mi n' ws hit)" "s2 = s'" using s2(1) fw by simp_all
    have "\<exists>st. s' = s1\<lparr>pm_worker_stats := st\<rparr>" using get_available_workers_ok [OF w1 tp(1,2)] fw(1) by auto
    then have es: "pm_engine_stats s2 = pm_engine_stats s1" using p(2) by auto
    let ?S2 = "S1\<lparr>sy_mgr := s2, sy_actor := actor_after m p\<rparr>"
    have a2: "sy_actor ?S2 = Creating (Claiming True mi n' ws hit) m" "lock_free ?S2" using p(1) a1(2) by (simp_all add: actor_after_def)
    obtain k S' i e where fin: "run_sections (replicate k (en, Actor_Advance)) ?S2 = Some (Inr S')" "sy_actor S' = Serving"
      "map_of (pm_engine_stats (sy_mgr ?S2)) i = None" "map_of (pm_engine_stats (sy_mgr S')) i = Some e" "es_model e = m" "es_num_reqs e = 1"
      using creation_serves [OF s2(3) a2, of en] by auto
    have "map_of (pm_engine_stats s1) i = None" using fin(3) es by simp
    then have "map_of (pm_engine_stats ?s) i = None" using reqs_only_keys [OF k] by (simp add: map_of_eq_None_iff)
    moreover have "run_sections (map (Pair en) (Schedule rid m # replicate (Suc k) Actor_Advance)) S = Some (Inr S')"
      using r1 s2(2) fin(1) by simp
    ultimately show ?thesis using fin(2,4-6)
      by (intro exI [of _ "Suc k"] exI [of _ S'] exI [of _ i] exI [of _ e]) simp
  qed
qed

lemma cx_idle: "idle_on (sy_mgr cx_end) 0 = [1]" "map_of (mc_model_info (pm_config (sy_mgr cx_end))) ''a'' = Some (2097152, 1)"
  "mc_num_servers (pm_config (sy_mgr cx_end)) = 2"
  by code_simp+

theorem ctl_request_served_witness:
  "\<exists>k S'. run_sections (map (Pair cx_env) (Schedule 9 ''a'' # replicate k Actor_Advance)) cx_end = Some (Inr S')
     \<and> sy_actor S' = Serving"
proof -
  have "sy_actor cx_end = Serving" "sy_scaler cx_end = Sleeping" using cx_busy(4) by (simp_all split: actor.splits scaler.splits)
  then show ?thesis using ctl_request_served [OF cx_start_ok cx_reach [unfolded cx_start_def], of "''a''" _ _ 0 cx_env 9] cx_idle
    by (fastforce simp: lock_free_def scaler_count_def)
qed

end
