(* ===== verification/Ctl_Limits.thy ===== *)
theory Ctl_Limits
  imports Ctl_Serve
begin

text \<open>
  The decisions of the autoscaler, and the limits of the locking: what the code does not rule out
  and the invariant therefore leaves out (placement disabled, \<open>stop_engine\<close>, the port of an engine).
\<close>

subsection \<open>Scaling up\<close>

lemma engines_needed_iff:
  "engines_needed load SCALE_UPPER_BOUND \<le> n \<longleftrightarrow> load \<le> of_int (n * BATCH_SIZE) * SCALE_UPPER_BOUND"
  "engines_needed load SCALE_LOWER_BOUND \<le> n \<longleftrightarrow> load \<le> of_int (n * BATCH_SIZE) * SCALE_LOWER_BOUND"
  by (simp_all add: engines_needed_def ceiling_le_iff SCALE_UPPER_BOUND_def SCALE_LOWER_BOUND_def BATCH_SIZE_def field_simps)

lemma engines_needed_mono: "0 \<le> load \<Longrightarrow> engines_needed load SCALE_UPPER_BOUND \<le> engines_needed load SCALE_LOWER_BOUND"
  by (simp add: engines_needed_def SCALE_UPPER_BOUND_def SCALE_LOWER_BOUND_def BATCH_SIZE_def ceiling_mono)

definition avg_load :: "env \<Rightarrow> string \<Rightarrow> manager \<Rightarrow> real" where
  "avg_load en m s = (case pm_model_stats s m of None \<Rightarrow> 0 | Some st \<Rightarrow> fst (get_avg_load (ms_load_stamp st) (en_time en)))"

definition trim_stats :: "env \<Rightarrow> string \<Rightarrow> manager \<Rightarrow> manager" where
  "trim_stats en m s = s\<lparr>pm_model_stats := (pm_model_stats s)(m := map_option (\<lambda>st.
     st\<lparr>ms_load_stamp := snd (get_avg_load (ms_load_stamp st) (en_time en))\<rparr>) (pm_model_stats s m))\<rparr>"

lemma autoscale_model_alt:
  assumes "pm_model_stats s m = Some st" and "pm_num_engines s m = Some ne" and "pm_num_in_creating s m = Some nc"
  shows "autoscale_model en m (todo, s) = (let n = ne + nc; load = avg_load en m s; s = trim_stats en m s in
      if load < of_int (n * BATCH_SIZE) * SCALE_LOWER_BOUND
      then let k = n - engines_needed load SCALE_LOWER_BOUND in
        if 0 < k then bind_r (scale_down en m k s) (\<lambda>s. Inr (todo, s)) else Inr (todo, s)
      else if of_int (n * BATCH_SIZE) * SCALE_UPPER_BOUND < load
      then let k = engines_needed load SCALE_UPPER_BOUND - n in
        if 0 < k
        then Inr (todo @ [(m, nat k)], s\<lparr>pm_num_in_creating := (pm_num_in_creating s)(m \<mapsto> nc + k)\<rparr>)
        else Inr (todo, s)
      else Inr (todo, s))"
  using assms by (simp add: autoscale_model_def avg_load_def trim_stats_def Let_def split: prod.split)

text \<open>
  C25. Overload is answered with the smallest number of engines that keeps the average load within
  80 percent of their capacity, counting those that run and those that are being created; and the
  autoscaler does not oscillate: with this number of engines and the same load it takes no
  decision, in particular it stops none.
\<close>

theorem autoscale_settles:
  assumes "pm_model_stats s m \<noteq> None" and "pm_num_engines s m = Some ne" and "pm_num_in_creating s m = Some nc" and "0 \<le> ne + nc"
    and "of_int ((ne + nc) * BATCH_SIZE) * SCALE_UPPER_BOUND < avg_load en m s"
    and "pm_model_stats t m \<noteq> None" and "pm_num_engines t m = Some ne'" and "pm_num_in_creating t m = Some nc'"
    and "ne' + nc' = engines_needed (avg_load en m s) SCALE_UPPER_BOUND" and "avg_load en' m t = avg_load en m s"
  shows "(\<exists>k. autoscale_model en m (todo, s)
        = Inr (todo @ [(m, k)], (trim_stats en m s)\<lparr>pm_num_in_creating := (pm_num_in_creating s)(m \<mapsto> nc + int k)\<rparr>)
      \<and> 0 < k \<and> avg_load en m s \<le> of_int ((ne + nc + int k) * BATCH_SIZE) * SCALE_UPPER_BOUND
      \<and> of_int ((ne + nc + int k - 1) * BATCH_SIZE) * SCALE_UPPER_BOUND < avg_load en m s)
    \<and> autoscale_model en' m (todo', t) = Inr (todo', trim_stats en' m t)"
proof (rule conjI)
  let ?load = "avg_load en m s" and ?n = "engines_needed (avg_load en m s) SCALE_UPPER_BOUND"
  obtain st where st: "pm_model_stats s m = Some st" using assms(1) by auto
  have k: "ne + nc < ?n" using engines_needed_iff(1) [of ?load "ne + nc"] assms(5) by linarith
  have "of_int ((ne + nc) * BATCH_SIZE) * SCALE_LOWER_BOUND \<le> of_int ((ne + nc) * BATCH_SIZE) * SCALE_UPPER_BOUND"
    using assms(4) by (simp add: BATCH_SIZE_def SCALE_UPPER_BOUND_def SCALE_LOWER_BOUND_def)
  then have nl: "\<not> ?load < of_int ((ne + nc) * BATCH_SIZE) * SCALE_LOWER_BOUND" using assms(5) by linarith
  have tr: "pm_num_in_creating (trim_stats en m s) = pm_num_in_creating s" by (simp add: trim_stats_def)
  have up: "autoscale_model en m (todo, s) = Inr (todo @ [(m, nat (?n - (ne + nc)))],
      (trim_stats en m s)\<lparr>pm_num_in_creating := (pm_num_in_creating s)(m \<mapsto> nc + (?n - (ne + nc)))\<rparr>)"
    using nl assms(5) k by (simp add: autoscale_model_alt [OF st assms(2,3)] Let_def tr)
  have kk: "int (nat (?n - (ne + nc))) = ?n - (ne + nc)" using k by simp
  have "?load \<le> of_int (?n * BATCH_SIZE) * SCALE_UPPER_BOUND" using engines_needed_iff(1) [of ?load ?n] by simp
  moreover have "of_int ((?n - 1) * BATCH_SIZE) * SCALE_UPPER_BOUND < ?load" using engines_needed_iff(1) [of ?load "?n - 1"] by simp
  moreover have e: "ne + nc + int (nat (?n - (ne + nc))) = ?n" using kk by simp
  ultimately show "\<exists>k. autoscale_model en m (todo, s)
        = Inr (todo @ [(m, k)], (trim_stats en m s)\<lparr>pm_num_in_creating := (pm_num_in_creating s)(m \<mapsto> nc + int k)\<rparr>)
      \<and> 0 < k \<and> ?load \<le> of_int ((ne + nc + int k) * BATCH_SIZE) * SCALE_UPPER_BOUND
      \<and> of_int ((ne + nc + int k - 1) * BATCH_SIZE) * SCALE_UPPER_BOUND < ?load"
    using up k unfolding kk by (intro exI [of _ "nat (?n - (ne + nc))"]) (simp only: e kk, simp)
next
  let ?load = "avg_load en m s" and ?n = "engines_needed (avg_load en m s) SCALE_UPPER_BOUND"
  obtain st' where st: "pm_model_stats t m = Some st'" using assms(6) by auto
  have "0 \<le> of_int ((ne + nc) * BATCH_SIZE) * SCALE_UPPER_BOUND" using assms(4) by (simp add: BATCH_SIZE_def SCALE_UPPER_BOUND_def)
  then have l0: "0 \<le> ?load" using assms(5) by linarith
  have "\<not> of_int (?n * BATCH_SIZE) * SCALE_UPPER_BOUND < ?load" using engines_needed_iff(1) [of ?load ?n] by simp
  moreover have "\<not> 0 < ?n - engines_needed ?load SCALE_LOWER_BOUND" using engines_needed_mono [OF l0] by simp
  ultimately show "autoscale_model en' m (todo', t) = Inr (todo', trim_stats en' m t)"
    by (simp add: autoscale_model_alt [OF st assms(7,8)] assms(9,10) Let_def)
qed

definition loaded :: "real \<Rightarrow> int \<Rightarrow> int \<Rightarrow> manager" where
  "loaded t ne nc = (sy_mgr cx_start)\<lparr>pm_model_stats := (\<lambda>_. Some \<lparr>ms_num_reqs = 40, ms_sum_loads = 0, ms_max_loads = 0,
       ms_last_time = 0, ms_stopping_engines = [], ms_load_stamp = [(t, 40)]\<rparr>),
     pm_num_engines := (\<lambda>_. Some ne), pm_num_in_creating := (\<lambda>_. Some nc)\<rparr>"

lemma loaded_avg: "avg_load (cx_env\<lparr>en_time := t + 5\<rparr>) m (loaded t ne nc) = 40"
  by (simp add: avg_load_def loaded_def get_avg_load_def SCALE_WINDOW_def)

theorem autoscale_settles_witness:
  "autoscale_model (cx_env\<lparr>en_time := 6\<rparr>) ''a'' ([], loaded 1 1 1) = Inr ([], trim_stats (cx_env\<lparr>en_time := 6\<rparr>) ''a'' (loaded 1 1 1))"
proof -
  have "engines_needed 40 SCALE_UPPER_BOUND = 2" by (simp add: engines_needed_def SCALE_UPPER_BOUND_def BATCH_SIZE_def)
  moreover have "avg_load (cx_env\<lparr>en_time := 5\<rparr>) ''a'' (loaded 0 1 0) = 40" using loaded_avg [of 0] by simp
  moreover have "avg_load (cx_env\<lparr>en_time := 6\<rparr>) ''a'' (loaded 1 1 1) = 40" using loaded_avg [of 1] by simp
  ultimately show ?thesis
    using autoscale_settles [of "loaded 0 1 0" "''a''" 1 0 "cx_env\<lparr>en_time := 5\<rparr>" "loaded 1 1 1" 1 1 "cx_env\<lparr>en_time := 6\<rparr>" "[]" "[]"]
    by (simp add: loaded_def BATCH_SIZE_def SCALE_UPPER_BOUND_def)
qed

subsection \<open>Scaling down\<close>

lemma stoppable_eq:
  assumes "\<forall>i \<in> set is. map_of (pm_engine_stats s) i \<noteq> None"
  shows "stoppable now s is = Inr (map (\<lambda>i. (i, the (map_of (pm_engine_stats s) i)))
     (filter (\<lambda>i. now - es_time_created (the (map_of (pm_engine_stats s) i)) > PROTECT_PERIOD) is))"
  using assms by (induction "is") (auto simp: engine_of_def)

lemma begin_stop_stats:
  assumes "begin_stop m (i, e) s = Inr s'"
  shows "map_of (pm_engine_stats s') = (map_of (pm_engine_stats s))(i \<mapsto> e\<lparr>es_stopping := True\<rparr>)"
  using assms by (auto simp: begin_stop_def set_engine_def update_conv' Let_def)

lemma begin_stops_stats:
  assumes "fold_r (begin_stop m) es s = Inr s'" and "distinct (map fst es)"
  shows "map_of (pm_engine_stats s') j
    = (case map_of es j of None \<Rightarrow> map_of (pm_engine_stats s) j | Some e \<Rightarrow> Some (e\<lparr>es_stopping := True\<rparr>))"
  using assms
proof (induction es arbitrary: s)
  case (Cons x es)
  obtain i e where x: "x = (i, e)" by (cases x)
  obtain s1 where s1: "begin_stop m (i, e) s = Inr s1" "fold_r (begin_stop m) es s1 = Inr s'" using Cons.prems(1) x by auto
  have "distinct (map fst es)" "map_of es i = None" using Cons.prems(2) x by (simp_all add: map_of_eq_None_iff)
  then show ?case using Cons.IH [OF s1(2)] begin_stop_stats [OF s1(1)] x by (auto split: option.split)
qed simp

lemma take_drop_sorted:
  assumes "x \<in> set (take n (sort_key f xs))" and "y \<in> set (drop n (sort_key f xs))"
  shows "f x \<le> f y"
proof -
  have "sorted (map f (take n (sort_key f xs)) @ map f (drop n (sort_key f xs)))"
    by (simp only: map_append [symmetric] append_take_drop_id sorted_sort_key)
  then show ?thesis using assms unfolding sorted_append by auto
qed

lemma in_set_drop: "x \<in> set xs \<Longrightarrow> x \<notin> set (take n xs) \<Longrightarrow> x \<in> set (drop n xs)"
  by (metis Un_iff append_take_drop_id set_append)

lemma keys_sort: "mset (map fst (sort_key f xs)) = mset (map fst xs)"
  by (simp only: mset_map mset_sort)

text \<open>
  C26. Scaling down by \<open>k\<close> stops at most \<open>k\<close> engines of the model; each is older than
  \<open>PROTECT_PERIOD\<close> and serves no more requests than any old engine that goes on, and every other engine is
  left as it is. A stopped engine keeps its requests.
\<close>

theorem scale_down_spares:
  assumes "engines_ok s" and "scale_down en m k s = Inr s'"
  shows "\<exists>st. distinct st \<and> length st \<le> nat k
    \<and> (\<forall>i \<in> set st. \<exists>e. serving s m i e \<and> en_time en - es_time_created e > PROTECT_PERIOD
         \<and> map_of (pm_engine_stats s') i = Some (e\<lparr>es_stopping := True\<rparr>)
         \<and> (\<forall>j d. j \<notin> set st \<and> serving s m j d \<and> en_time en - es_time_created d > PROTECT_PERIOD \<longrightarrow> es_num_reqs e \<le> es_num_reqs d))
    \<and> (\<forall>j. j \<notin> set st \<longrightarrow> map_of (pm_engine_stats s') j = map_of (pm_engine_stats s) j)"
proof -
  let ?is = "default_get (pm_model_engines s) m"
  let ?e = "\<lambda>i. the (map_of (pm_engine_stats s) i)"
  let ?old = "\<lambda>i. en_time en - es_time_created (?e i) > PROTECT_PERIOD"
  let ?es = "map (\<lambda>i. (i, ?e i)) (filter ?old ?is)"
  let ?sorted = "sort_key (\<lambda>ie. es_num_reqs (snd ie)) ?es"
  let ?top = "take (nat k) ?sorted"
  have me: "\<And>i. i \<in> set ?is \<longleftrightarrow> (\<exists>e. map_of (pm_engine_stats s) i = Some e \<and> es_model e = m \<and> \<not> es_stopping e)"
    and di: "distinct ?is" using assms(1) unfolding engines_ok_def by blast+
  have ids: "\<forall>i \<in> set ?is. map_of (pm_engine_stats s) i \<noteq> None" using me by blast
  have run: "fold_r (begin_stop m) ?top s = Inr s'" using assms(2) stoppable_eq [OF ids] by (simp add: scale_down_def)
  have "map fst ?es = filter ?old ?is" by (simp add: comp_def)
  then have "distinct (map fst ?es)" using di by (simp del: map_map)
  then have dm: "distinct (map fst ?sorted)" by (simp only: mset_eq_imp_distinct_iff [OF keys_sort])
  then have dt: "distinct (map fst ?top)" by (simp add: take_map [symmetric] distinct_take)
  have sv: "serving s m i (?e i)" if q: "i \<in> set ?is" for i using me [of i] q by (auto simp: serving_def)
  have top: "snd x = ?e (fst x) \<and> fst x \<in> set ?is \<and> ?old (fst x)" if q: "x \<in> set ?top" for x
    using in_set_takeD [OF q] by auto
  have mo: "map_of ?top i = Some (?e i)" if q: "i \<in> set (map fst ?top)" for i
  proof -
    obtain x where x: "x \<in> set ?top" "fst x = i" using q by auto
    have "x = (i, ?e i)" using top [OF x(1)] x(2) by (simp add: prod_eq_iff)
    then have "(i, ?e i) \<in> set ?top" using x(1) by simp
    then show ?thesis by (rule map_of_is_SomeI [OF dt])
  qed
  have least: "es_num_reqs (?e i) \<le> es_num_reqs d"
    if q: "i \<in> set (map fst ?top)" "j \<notin> set (map fst ?top)" "serving s m j d" "en_time en - es_time_created d > PROTECT_PERIOD" for i j d
  proof -
    obtain x where x: "x \<in> set ?top" "fst x = i" using q(1) by auto
    have "j \<in> set ?is" using q(3) me by (auto simp: serving_def)
    moreover have "?e j = d" using q(3) by (simp add: serving_def)
    ultimately have "(j, d) \<in> set ?sorted" using q(4) by auto
    moreover have "(j, d) \<notin> set ?top" using q(2) by force
    ultimately have y: "(j, d) \<in> set (drop (nat k) ?sorted)" by (rule in_set_drop)
    have "es_num_reqs (snd x) \<le> es_num_reqs (snd (j, d))" by (rule take_drop_sorted [OF x(1) y])
    then show ?thesis using top [OF x(1)] x(2) by simp
  qed
  have st: "map_of (pm_engine_stats s') j
    = (case map_of ?top j of None \<Rightarrow> map_of (pm_engine_stats s) j | Some e \<Rightarrow> Some (e\<lparr>es_stopping := True\<rparr>))" for j
    by (rule begin_stops_stats [OF run dt])
  have "\<exists>e. serving s m i e \<and> en_time en - es_time_created e > PROTECT_PERIOD
         \<and> map_of (pm_engine_stats s') i = Some (e\<lparr>es_stopping := True\<rparr>)
         \<and> (\<forall>j d. j \<notin> set (map fst ?top) \<and> serving s m j d \<and> en_time en - es_time_created d > PROTECT_PERIOD \<longrightarrow> es_num_reqs e \<le> es_num_reqs d)"
    if q: "i \<in> set (map fst ?top)" for i
  proof -
    obtain x where x: "x \<in> set ?top" "fst x = i" using q by auto
    have "i \<in> set ?is" "?old i" using top [OF x(1)] x(2) by auto
    then have "serving s m i (?e i)" "?old i" using sv by blast+
    moreover have "map_of (pm_engine_stats s') i = Some ((?e i)\<lparr>es_stopping := True\<rparr>)" unfolding st mo [OF q] by simp
    ultimately show ?thesis using least [OF q] by blast
  qed
  moreover have "map_of (pm_engine_stats s') j = map_of (pm_engine_stats s) j" if q: "j \<notin> set (map fst ?top)" for j
  proof -
    have "map_of ?top j = None" using q by (simp add: map_of_eq_None_iff del: set_take_subset)
    then show ?thesis unfolding st by simp
  qed
  moreover have "length (map fst ?top) \<le> nat k" by simp
  ultimately show ?thesis using dt by blast
qed

lemma cx_scale_down: "case scale_down (cx_env\<lparr>en_time := 10\<rparr>) ''a'' 1 (sy_mgr cx_end) of Inr s' \<Rightarrow> True | _ \<Rightarrow> False"
  by code_simp

theorem scale_down_spares_witness:
  "\<exists>s' st. scale_down (cx_env\<lparr>en_time := 10\<rparr>) ''a'' 1 (sy_mgr cx_end) = Inr s' \<and> length st \<le> 1
     \<and> (\<forall>j. j \<notin> set st \<longrightarrow> map_of (pm_engine_stats s') j = map_of (pm_engine_stats (sy_mgr cx_end)) j)"
proof -
  obtain s' where r: "scale_down (cx_env\<lparr>en_time := 10\<rparr>) ''a'' 1 (sy_mgr cx_end) = Inr s'"
    using cx_scale_down by (auto split: sum.splits)
  have "engines_ok (sy_mgr cx_end)" by (rule ctl_invD(6) [OF reach_inv [OF cx_start_ok cx_reach [unfolded cx_start_def]]])
  from scale_down_spares [OF this r] r show ?thesis by auto
qed

subsection \<open>The thread of the engines ends its round\<close>

definition scaler_sections :: "ctl_section set" where
  "scaler_sections = {Next_Creation, Scaler_Advance, Scaler_Cancel, Check_Next}"

fun plan_work :: "(string \<times> nat) list \<Rightarrow> nat" where
  "plan_work [] = 0"
| "plan_work ((m, k) # todo) = 8 * k + 1 + plan_work todo"

fun scaler_work :: "scaler \<Rightarrow> nat" where
  "scaler_work Sleeping = 0"
| "scaler_work (Planned todo) = 2 + plan_work todo"
| "scaler_work (Building c m k todo) = 2 + stage c + plan_work ((m, k) # todo)"
| "scaler_work (Cancelling todo) = 3"
| "scaler_work (Checking is) = 0"

definition to_sleep :: "env \<Rightarrow> system \<Rightarrow> bool" where
  "to_sleep en S \<longleftrightarrow> (\<exists>xs S'. set xs \<subseteq> scaler_sections \<and> run_sections (map (Pair en) xs) S = Some (Inr S') \<and> sy_scaler S' = Sleeping)"

lemma to_sleep_step:
  assumes "run_section en x S = Some (Inr S1)" and "x \<in> scaler_sections" and "to_sleep en S1"
  shows "to_sleep en S"
proof -
  obtain xs S' where "set xs \<subseteq> scaler_sections" "run_sections (map (Pair en) xs) S1 = Some (Inr S')" "sy_scaler S' = Sleeping"
    using assms(3) by (auto simp: to_sleep_def)
  then show ?thesis using assms(1,2) unfolding to_sleep_def by (intro exI [of _ "x # xs"] exI [of _ S']) simp
qed

lemma checking_ends: "ctl_inv S \<Longrightarrow> sy_scaler S = Checking is \<Longrightarrow> to_sleep en S"
proof (induction "is" arbitrary: S)
  case Nil
  then have "run_sections (map (Pair en) [Check_Next]) S = Some (Inr (S\<lparr>sy_scaler := Sleeping\<rparr>))" by simp
  then show ?case unfolding to_sleep_def by (intro exI [of _ "[Check_Next]"] exI [of _ "S\<lparr>sy_scaler := Sleeping\<rparr>"]) (simp add: scaler_sections_def)
next
  case (Cons i "is")
  obtain s' where s': "check_engine en i (sy_mgr S) = Inr s'" "ctl_inv (S\<lparr>sy_mgr := s', sy_scaler := Checking is\<rparr>)"
    using check_section_ok [OF Cons.prems] by (auto simp: goes_on_def)
  let ?S = "S\<lparr>sy_mgr := s', sy_scaler := Checking is\<rparr>"
  have "run_section en Check_Next S = Some (Inr ?S)" using Cons.prems(2) s'(1) by simp
  then show ?case by (rule to_sleep_step) (use Cons.IH [OF s'(2)] in \<open>simp_all add: scaler_sections_def\<close>)
qed

lemma round_ends: "ctl_inv S \<Longrightarrow> sy_scaler S \<noteq> Sleeping \<Longrightarrow> to_sleep en S"
proof (induction "scaler_work (sy_scaler S)" arbitrary: S rule: less_induct)
  case less
  have go: "to_sleep en S" if q: "run_section en x S = Some (Inr S1)" "x \<in> scaler_sections" "scaler_work (sy_scaler S1) < scaler_work (sy_scaler S)"
    "sy_scaler S1 \<noteq> Sleeping" for x S1
    using to_sleep_step [OF q(1,2)] less.hyps [OF q(3) section_keeps [OF less.prems(1) q(1)] q(4)] .
  show ?case
  proof (cases "sy_scaler S")
    case (Planned todo)
    show ?thesis
    proof (cases todo)
      case Nil
      then have "run_section en Next_Creation S = Some (Inr (S\<lparr>sy_scaler := Checking (map fst (pm_engine_stats (sy_mgr S)))\<rparr>))"
        using Planned by simp
      then show ?thesis by (rule go) (simp_all add: Planned Nil scaler_sections_def)
    next
      case (Cons x rest)
      obtain m k where x: "x = (m, k)" by (cases x)
      have pl: "sy_scaler S = Planned ((m, k) # rest)" using Planned Cons x by simp
      obtain S1 where S1: "next_section m k rest S = Inr S1" using next_section_ok [OF less.prems(1) pl] by (auto simp: goes_on_def)
      have r: "run_section en Next_Creation S = Some (Inr S1)" using pl S1 by simp
      have "scaler_work (sy_scaler S1) < scaler_work (sy_scaler S) \<and> sy_scaler S1 \<noteq> Sleeping"
        using S1 pl by (cases k) (auto simp: next_section_def)
      then show ?thesis using go [OF r] by (simp add: scaler_sections_def)
    qed
  next
    case (Building c m k todo)
    obtain p s' where p: "advance en c (sy_mgr S) = Inr (p, s')"
      using scaler_advance_ok [OF less.prems(1) Building, of en] by (auto simp: goes_on_def)
    let ?S = "S\<lparr>sy_mgr := s', sy_scaler := scaler_after m k todo p\<rparr>"
    have r: "run_section en Scaler_Advance S = Some (Inr ?S)" using Building p by simp
    have "0 < stage c" by (cases c) simp_all
    then have "scaler_work (sy_scaler ?S) < scaler_work (sy_scaler S) \<and> sy_scaler ?S \<noteq> Sleeping"
      using Building p advance_stage [of en c "sy_mgr S"] by (cases p) (auto simp: scaler_after_def)
    then show ?thesis using go [OF r] by (simp add: scaler_sections_def)
  next
    case (Cancelling todo)
    obtain s' where s': "fold_r (\<lambda>(m, k). cancel_creation m k) todo (sy_mgr S) = Inr s'"
      using scaler_cancel_ok [OF less.prems(1) Cancelling] by (auto simp: goes_on_def)
    then have "run_section en Scaler_Cancel S = Some (Inr (S\<lparr>sy_mgr := s', sy_scaler := Planned []\<rparr>))" using Cancelling by simp
    then show ?thesis by (rule go) (simp_all add: Cancelling scaler_sections_def)
  next
    case (Checking is')
    then show ?thesis by (rule checking_ends [OF less.prems(1)])
  qed (use less.prems(2) in simp)
qed

text \<open>
  C23. The thread that scales and checks engines always ends its round, and so gives
  \<open>engine_lock\<close> back: from every reachable state some sequence of its own sections leads to its
  sleep, all without an exception.
\<close>

theorem ctl_round_ends:
  assumes "start_ok c ids mem sc" and "ctl_reach (start_system c ids mem sc) S"
  shows "\<exists>xs S'. set xs \<subseteq> {Next_Creation, Scaler_Advance, Scaler_Cancel, Check_Next}
    \<and> run_sections (map (Pair en) xs) S = Some (Inr S') \<and> sy_scaler S' = Sleeping"
proof (cases "sy_scaler S = Sleeping")
  case True
  then show ?thesis by (intro exI [of _ "[]"] exI [of _ S]) simp
next
  case False
  show ?thesis using round_ends [OF reach_inv [OF assms] False, of en] unfolding to_sleep_def scaler_sections_def .
qed

definition cx_round_history :: "(env \<times> ctl_section) list" where
  "cx_round_history = map (Pair cx_env) [Schedule 1 ''a'', Actor_Advance, Actor_Advance, Autoscale]"

definition cx_round :: system where
  "cx_round = (case run_sections cx_round_history cx_start of Some (Inr S) \<Rightarrow> S | _ \<Rightarrow> cx_start)"

lemma cx_round_runs: "(case run_sections cx_round_history cx_start of Some (Inr S) \<Rightarrow> True | _ \<Rightarrow> False)"
  by code_simp

lemma cx_round_reach: "ctl_reach cx_start cx_round"
  using cx_round_runs by (auto simp: cx_round_def split: option.splits sum.splits intro: run_sections_reach)

theorem ctl_round_ends_witness:
  "\<exists>xs S'. set xs \<subseteq> {Next_Creation, Scaler_Advance, Scaler_Cancel, Check_Next}
    \<and> run_sections (map (Pair cx_env) xs) cx_round = Some (Inr S') \<and> sy_scaler S' = Sleeping"
  by (rule ctl_round_ends [OF cx_start_ok cx_round_reach [unfolded cx_start_def]])

subsection \<open>What the locks do not cover\<close>

text \<open>
  C40. \<open>stop_engine\<close> marks an engine as stopping without entering it into \<open>stopping_engines\<close>. Once the
  engine is idle, the next round of \<open>_check_engines\<close> fails with a \<open>KeyError\<close> on it, and the
  thread ends with \<open>engine_lock\<close> held.
\<close>

theorem stop_engine_strands:
  assumes "map_of (pm_engine_stats s) i = Some e" and "es_num_reqs e = 0"
    and "pm_model_stats s (es_model e) = Some st" and "int i \<notin> set (ms_stopping_engines st)"
    and "stop_engine i s = Inr s'"
  shows "check_engine en i s' = Inl KeyError"
proof -
  have s': "s' = set_engine i (e\<lparr>es_stopping := True\<rparr>) s" using assms(1,5) by (simp add: stop_engine_def engine_of_def)
  have e': "engine_of s' i = Inr (e\<lparr>es_stopping := True\<rparr>)" by (simp add: s' set_engine_def engine_of_def update_conv')
  have rs: "remove_stopping (es_model e) i t = Inl KeyError" if "pm_model_stats t = pm_model_stats s'" for t
    using that assms(3,4) by (simp add: remove_stopping_def set_remove_def s' set_engine_def)
  have "end_engine en i (e\<lparr>es_stopping := True\<rparr>) s' = Inl KeyError"
    using rs by (simp add: end_engine_def kill_engine_def call_def)
  then show ?thesis using e' assms(2) by (simp add: check_engine_def engine_of_def)
qed

definition cx_idle_history :: "(env \<times> ctl_section) list" where
  "cx_idle_history = map (Pair cx_env) (Schedule 1 ''a'' # replicate 6 Actor_Advance @ [Complete 0])"

lemma cx_strand: "case run_sections cx_idle_history cx_start of Some (Inr S) \<Rightarrow>
     (case stop_engine 0 (sy_mgr S) of Inr s' \<Rightarrow>
        (case map_of (pm_engine_stats (sy_mgr S)) 0 of None \<Rightarrow> False | Some e \<Rightarrow> es_num_reqs e = 0
           \<and> (case pm_model_stats (sy_mgr S) (es_model e) of None \<Rightarrow> False | Some st \<Rightarrow> ms_stopping_engines st = []))
      | _ \<Rightarrow> False) | _ \<Rightarrow> False"
  by code_simp

theorem stop_engine_strands_witness:
  "\<exists>S s'. ctl_reach cx_start S \<and> stop_engine 0 (sy_mgr S) = Inr s' \<and> check_engine cx_env 0 s' = Inl KeyError"
proof -
  obtain S where S: "run_sections cx_idle_history cx_start = Some (Inr S)"
    using cx_strand by (auto split: option.splits sum.splits)
  obtain s' e st where s': "stop_engine 0 (sy_mgr S) = Inr s'"
    and e: "map_of (pm_engine_stats (sy_mgr S)) 0 = Some e" "es_num_reqs e = 0" "pm_model_stats (sy_mgr S) (es_model e) = Some st"
      "ms_stopping_engines st = []"
    using cx_strand unfolding S by (simp split: option.splits sum.splits)
  have "int 0 \<notin> set (ms_stopping_engines st)" using e(4) by simp
  from stop_engine_strands [OF e(1-3) this s'] show ?thesis using run_sections_reach [OF S] s' by blast
qed

text \<open>
  With placement disabled the search for workers leaves the ones that it returns unmarked: until
  the creation has claimed them, a second search gets the same workers, so that two engines can be
  started on them.
\<close>

theorem unplaced_found_twice:
  assumes "mc_disable_placement (pm_config s)" and "get_available_workers mi k s = Inr (Some (n, ws, False), s')"
  shows "s' = s \<and> get_available_workers mi k s' = Inr (Some (n, ws, False), s')"
proof -
  have "s' = s" using assms by (auto simp: get_available_workers_def split: option.splits)
  then show ?thesis using assms(2) by simp
qed

definition cx_unplaced :: manager where
  "cx_unplaced = (sy_mgr cx_start)\<lparr>pm_config := cx_conf\<lparr>mc_disable_placement := True\<rparr>\<rparr>"

lemma cx_unplaced_finds: "get_available_workers (ModelInfo ''b'' 2 1) 2 cx_unplaced = Inr (Some (0, [0, 1], False), cx_unplaced)"
  by (simp add: cx_unplaced_def cx_start_def start_system_def start_manager_def cx_conf_def get_available_workers_def find_prewarmed_def
      default_get_def all_jobs_def find_idle_def upt_rec worker_free_def WorkerStatus_def nth_r_def numeral_2_eq_2)

theorem unplaced_found_twice_witness:
  "get_available_workers (ModelInfo ''b'' 2 1) 2 cx_unplaced = Inr (Some (0, [0, 1], False), cx_unplaced)
    \<and> mc_disable_placement (pm_config cx_unplaced)"
  using unplaced_found_twice [OF _ cx_unplaced_finds] by (simp add: cx_unplaced_def)

text \<open>
  The port of an engine is computed from \<open>engine_counter\<close> before the lock is taken, and the counter
  only moves when the engine is registered: two creations that overlap start their engines on one port.
\<close>

lemma ports_collide:
  assumes "sy_actor S = Creating (Addressing d mi ws) m" and "sy_scaler S = Building (Addressing d' mi' ws') m' k todo"
  shows "\<exists>S' port. run_sections [(en, Actor_Advance), (en, Scaler_Advance)] S = Some (Inr S')
    \<and> sy_actor S' = Creating (Starting d mi ws port) m \<and> sy_scaler S' = Building (Starting d' mi' ws' port) m' k todo"
  using assms by (simp add: can_advance_def actor_after_def scaler_after_def)

end
