(* ===== verification/Sched_State.thy ===== *)
theory Sched_State
  imports Manager_Tests "HOL-Library.Product_Lexorder" "HOL-Library.Char_ord"
begin

text \<open>
  The state of \<open>Scheduler\<close> (\<open>core/scheduler.py\<close>) and its operations outside \<open>schedule\<close>. The
  queues and the outputs share the mutable sequence groups, so groups live in a store: \<open>sc_groups\<close>
  maps a reference to the present state of its group, and queues hold references. The lists of
  reusable objects (\<open>PyObjectCache\<close>) and the preemption that is injected for tests are left out.
\<close>

datatype preemption_mode = SWAP | RECOMPUTE

text \<open>What the scheduler reads of its three configuration objects; \<open>cf_max_loras\<close> is \<open>None\<close> without LoRA.\<close>

record sched_config =
  cf_max_num_batched_tokens :: nat
  cf_max_num_seqs :: nat
  cf_max_model_len :: nat
  cf_num_lookahead_slots :: nat
  cf_delay_factor :: real
  cf_chunked_prefill_enabled :: bool
  cf_preemption_mode :: "string option"
  cf_num_scheduler_steps :: nat
  cf_send_delta_data :: bool
  cf_policy :: string
  cf_max_loras :: "nat option"
  cf_enable_prefix_caching :: bool
  cf_block_size :: nat

definition is_multi_step :: "sched_config \<Rightarrow> bool" where
  "is_multi_step cf \<longleftrightarrow> cf_num_scheduler_steps cf > 1"

text \<open>\<open>SchedulerConfig\<close> (\<open>config.py\<close>): the default for the number of batched tokens, and the checks.\<close>

definition EMBEDDING_MODEL_MAX_NUM_BATCHED_TOKENS :: nat where
  "EMBEDDING_MODEL_MAX_NUM_BATCHED_TOKENS = 32768"

definition MULTIMODAL_MODEL_MAX_NUM_BATCHED_TOKENS :: nat where
  "MULTIMODAL_MODEL_MAX_NUM_BATCHED_TOKENS = 5120"

definition default_num_batched_tokens :: "nat \<Rightarrow> bool \<Rightarrow> bool \<Rightarrow> bool \<Rightarrow> int \<Rightarrow> nat" where
  "default_num_batched_tokens max_model_len chunked embedding_mode is_multimodal_model num_scheduler_steps =
     (let n0 = (if chunked \<and> \<not> num_scheduler_steps > 1 then 512 else max max_model_len 2048);
          n1 = (if embedding_mode then max n0 EMBEDDING_MODEL_MAX_NUM_BATCHED_TOKENS else n0) in
      if is_multimodal_model then max n1 MULTIMODAL_MODEL_MAX_NUM_BATCHED_TOKENS else n1)"

definition verify_sched_args :: "nat \<Rightarrow> nat \<Rightarrow> nat \<Rightarrow> bool \<Rightarrow> int \<Rightarrow> int \<Rightarrow> unit result" where
  "verify_sched_args max_num_batched_tokens max_num_seqs max_model_len chunked num_lookahead_slots num_scheduler_steps =
     bind_r (guard_r ValueError (\<not> (max_num_batched_tokens < max_model_len \<and> \<not> chunked))) (\<lambda>_.
     bind_r (guard_r ValueError (\<not> max_num_batched_tokens < max_num_seqs)) (\<lambda>_.
     bind_r (guard_r ValueError (\<not> num_lookahead_slots < 0)) (\<lambda>_.
       guard_r ValueError (\<not> num_scheduler_steps < 1))))"

definition new_sched_config ::
    "nat option \<Rightarrow> nat \<Rightarrow> nat \<Rightarrow> int \<Rightarrow> real \<Rightarrow> bool \<Rightarrow> bool \<Rightarrow> bool \<Rightarrow> string option \<Rightarrow> int \<Rightarrow> bool \<Rightarrow> string
      \<Rightarrow> nat option \<Rightarrow> bool \<Rightarrow> nat \<Rightarrow> sched_config result" where
  "new_sched_config max_num_batched_tokens max_num_seqs max_model_len num_lookahead_slots delay_factor chunked
     embedding_mode is_multimodal_model preemption_mode num_scheduler_steps send_delta_data policy
     max_loras enable_prefix_caching block_size =
     (let n = (case max_num_batched_tokens of Some n \<Rightarrow> n
        | None \<Rightarrow> default_num_batched_tokens max_model_len chunked embedding_mode is_multimodal_model num_scheduler_steps) in
      bind_r (verify_sched_args n max_num_seqs max_model_len chunked num_lookahead_slots num_scheduler_steps) (\<lambda>_.
        Inr \<lparr>cf_max_num_batched_tokens = n, cf_max_num_seqs = max_num_seqs, cf_max_model_len = max_model_len,
          cf_num_lookahead_slots = nat num_lookahead_slots, cf_delay_factor = delay_factor,
          cf_chunked_prefill_enabled = chunked, cf_preemption_mode = preemption_mode,
          cf_num_scheduler_steps = nat num_scheduler_steps, cf_send_delta_data = send_delta_data,
          cf_policy = policy, cf_max_loras = max_loras, cf_enable_prefix_caching = enable_prefix_caching,
          cf_block_size = block_size\<rparr>))"

definition lora_enabled :: "sched_config \<Rightarrow> bool" where
  "lora_enabled cf \<longleftrightarrow> cf_max_loras cf \<noteq> None"

subsection \<open>The budget of a step\<close>

record budget =
  bg_token_budget :: int
  bg_max_num_seqs :: int
  bg_token_ids :: "string set"
  bg_seq_ids :: "string set"
  bg_num_batched_tokens :: int
  bg_num_curr_seqs :: int

definition new_budget :: "sched_config \<Rightarrow> budget" where
  "new_budget cf = \<lparr>bg_token_budget = int (cf_max_num_batched_tokens cf), bg_max_num_seqs = int (cf_max_num_seqs cf),
     bg_token_ids = {}, bg_seq_ids = {}, bg_num_batched_tokens = 0, bg_num_curr_seqs = 0\<rparr>"

definition can_schedule :: "int \<Rightarrow> int \<Rightarrow> budget \<Rightarrow> bool result" where
  "can_schedule num_new_tokens num_new_seqs b =
     bind_r (guard_r AssertionError (num_new_tokens \<noteq> 0)) (\<lambda>_.
     bind_r (guard_r AssertionError (num_new_seqs \<noteq> 0)) (\<lambda>_.
       Inr (bg_num_batched_tokens b + num_new_tokens \<le> bg_token_budget b
         \<and> bg_num_curr_seqs b + num_new_seqs \<le> bg_max_num_seqs b)))"

definition remaining_token_budget :: "budget \<Rightarrow> int" where
  "remaining_token_budget b = bg_token_budget b - bg_num_batched_tokens b"

definition add_num_batched_tokens :: "string \<Rightarrow> int \<Rightarrow> budget \<Rightarrow> budget" where
  "add_num_batched_tokens r n b =
     (if r \<in> bg_token_ids b then b
      else b\<lparr>bg_token_ids := insert r (bg_token_ids b), bg_num_batched_tokens := bg_num_batched_tokens b + n\<rparr>)"

definition subtract_num_batched_tokens :: "string \<Rightarrow> int \<Rightarrow> budget \<Rightarrow> budget" where
  "subtract_num_batched_tokens r n b =
     (if r \<in> bg_token_ids b
      then b\<lparr>bg_token_ids := bg_token_ids b - {r}, bg_num_batched_tokens := bg_num_batched_tokens b - n\<rparr> else b)"

definition add_num_seqs :: "string \<Rightarrow> int \<Rightarrow> budget \<Rightarrow> budget" where
  "add_num_seqs r n b =
     (if r \<in> bg_seq_ids b then b
      else b\<lparr>bg_seq_ids := insert r (bg_seq_ids b), bg_num_curr_seqs := bg_num_curr_seqs b + n\<rparr>)"

definition subtract_num_seqs :: "string \<Rightarrow> int \<Rightarrow> budget \<Rightarrow> budget" where
  "subtract_num_seqs r n b =
     (if r \<in> bg_seq_ids b
      then b\<lparr>bg_seq_ids := bg_seq_ids b - {r}, bg_num_curr_seqs := bg_num_curr_seqs b - n\<rparr> else b)"

subsection \<open>The scheduler\<close>

type_synonym group_ref = nat

record scheduler =
  sc_groups :: "group_ref \<Rightarrow> seq_group"
  sc_mem :: mstate
  sc_waiting :: "group_ref list"
  sc_running :: "group_ref list"
  sc_swapped :: "group_ref list"
  sc_finished_ids :: "string list"
  sc_prev_time :: real
  sc_prev_prompt :: bool
  sc_last_prompt_latency :: real
  sc_num_preemption :: nat
  sc_async_stopped :: "group_ref list"

text \<open>Block counts of \<open>0\<close> are passed on as they are; the others are divided among the pipeline stages.\<close>

definition init_scheduler ::
    "hash_fn \<Rightarrow> sched_config \<Rightarrow> nat \<Rightarrow> nat \<Rightarrow> nat option \<Rightarrow> nat \<Rightarrow> (group_ref \<Rightarrow> seq_group) \<Rightarrow> scheduler result" where
  "init_scheduler H cf num_gpu num_cpu sliding_window pipeline_parallel_size groups =
     bind_r (if num_gpu = 0 then Inr 0 else floordiv_r (int num_gpu) (int pipeline_parallel_size)) (\<lambda>ng.
     bind_r (if num_cpu = 0 then Inr 0 else floordiv_r (int num_cpu) (int pipeline_parallel_size)) (\<lambda>nc.
     bind_r (init_block_manager H (cf_block_size cf) (nat ng) (nat nc) (1 / 100) sliding_window
         (cf_enable_prefix_caching cf) []) (\<lambda>m.
       Inr \<lparr>sc_groups = groups, sc_mem = m, sc_waiting = [], sc_running = [], sc_swapped = [], sc_finished_ids = [],
         sc_prev_time = 0, sc_prev_prompt = False, sc_last_prompt_latency = 0, sc_num_preemption = 0,
         sc_async_stopped = []\<rparr>)))"

definition upd_group :: "group_ref \<Rightarrow> (seq_group \<Rightarrow> seq_group) \<Rightarrow> scheduler \<Rightarrow> scheduler" where
  "upd_group r f s = s\<lparr>sc_groups := (sc_groups s)(r := f (sc_groups s r))\<rparr>"

definition on_mem :: "(mstate \<Rightarrow> mstate result) \<Rightarrow> scheduler \<Rightarrow> scheduler result" where
  "on_mem f s = bind_r (f (sc_mem s)) (\<lambda>m. Inr (s\<lparr>sc_mem := m\<rparr>))"

text \<open>Change the sequences of a group that have status \<open>st\<close>.\<close>

definition map_seqs :: "seq_status \<Rightarrow> (sequence \<Rightarrow> sequence) \<Rightarrow> seq_group \<Rightarrow> seq_group" where
  "map_seqs st f g = g\<lparr>sg_seqs := map (\<lambda>q. if sq_status q = st then f q else q) (sg_seqs g)\<rparr>"

definition set_status :: "seq_status \<Rightarrow> sequence \<Rightarrow> sequence" where
  "set_status st q = q\<lparr>sq_status := st\<rparr>"

definition add_seq_group :: "group_ref \<Rightarrow> scheduler \<Rightarrow> scheduler" where
  "add_seq_group r s = s\<lparr>sc_waiting := sc_waiting s @ [r]\<rparr>"

definition has_unfinished_seqs :: "scheduler \<Rightarrow> bool" where
  "has_unfinished_seqs s \<longleftrightarrow> length (sc_waiting s) \<noteq> 0 \<or> length (sc_running s) \<noteq> 0 \<or> length (sc_swapped s) \<noteq> 0"

definition get_num_unfinished_seq_groups :: "scheduler \<Rightarrow> nat" where
  "get_num_unfinished_seq_groups s = length (sc_waiting s) + length (sc_running s) + length (sc_swapped s)"

definition get_and_reset_finished_requests_ids :: "scheduler \<Rightarrow> string list \<times> scheduler" where
  "get_and_reset_finished_requests_ids s = (sc_finished_ids s, s\<lparr>sc_finished_ids := []\<rparr>)"

definition sc_fork_seq :: "sequence \<Rightarrow> sequence \<Rightarrow> scheduler \<Rightarrow> scheduler result" where
  "sc_fork_seq parent_seq child_seq = on_mem (fork_seq parent_seq child_seq)"

definition free_seq :: "sequence \<Rightarrow> scheduler \<Rightarrow> scheduler result" where
  "free_seq q = on_mem (free q)"

definition free_seq_group_cross_attn_blocks :: "group_ref \<Rightarrow> scheduler \<Rightarrow> scheduler result" where
  "free_seq_group_cross_attn_blocks r s =
     (let g = sc_groups s r in if is_encoder_decoder g then on_mem (free_cross g) s else Inr s)"

subsection \<open>Aborting requests\<close>

fun pick_aborted :: "(group_ref \<Rightarrow> seq_group) \<Rightarrow> group_ref list \<Rightarrow> string set \<Rightarrow> group_ref list \<times> string set" where
  "pick_aborted groups [] ids = ([], ids)"
| "pick_aborted groups (r # rs) ids =
     (if ids = {} then ([], ids)
      else let i = sg_request_id (groups r) in
        if i \<in> ids then let (picked, ids1) = pick_aborted groups rs (ids - {i}) in (r # picked, ids1)
        else pick_aborted groups rs ids)"

definition abort_seq :: "sequence \<Rightarrow> mstate \<Rightarrow> (sequence \<times> mstate) result" where
  "abort_seq q m =
     (if sq_finished q then Inr (q, m)
      else let q1 = set_status FINISHED_ABORTED q in bind_r (free q1 m) (\<lambda>m1. Inr (q1, m1)))"

definition abort_group :: "((group_ref list \<Rightarrow> group_ref list) \<Rightarrow> scheduler \<Rightarrow> scheduler) \<Rightarrow> group_ref \<Rightarrow> scheduler \<Rightarrow> scheduler result" where
  "abort_group on_queue r s =
     (let s1 = on_queue (remove1 r) s; g = sc_groups s r;
          s2 = s1\<lparr>sc_finished_ids := sc_finished_ids s1 @ [sg_request_id g]\<rparr> in
      bind_r (map_r abort_seq (sg_seqs g) (sc_mem s2)) (\<lambda>(qs, m).
        free_seq_group_cross_attn_blocks r (upd_group r (\<lambda>g. g\<lparr>sg_seqs := qs\<rparr>) (s2\<lparr>sc_mem := m\<rparr>))))"

definition abort_in ::
    "(scheduler \<Rightarrow> group_ref list) \<Rightarrow> ((group_ref list \<Rightarrow> group_ref list) \<Rightarrow> scheduler \<Rightarrow> scheduler)
      \<Rightarrow> string set \<times> scheduler \<Rightarrow> (string set \<times> scheduler) result" where
  "abort_in queue on_queue x = (let (ids, s) = x; (picked, ids1) = pick_aborted (sc_groups s) (queue s) ids in
     bind_r (fold_r (abort_group on_queue) picked s) (\<lambda>s1. Inr (ids1, s1)))"

definition abort_seq_group :: "string set \<Rightarrow> scheduler \<Rightarrow> scheduler result" where
  "abort_seq_group ids s =
     bind_r (abort_in sc_waiting sc_waiting_update (ids, s)) (\<lambda>x1.
     bind_r (abort_in sc_running sc_running_update x1) (\<lambda>x2.
     bind_r (abort_in sc_swapped sc_swapped_update x2) (\<lambda>(_, s3). Inr s3)))"

subsection \<open>Freeing what has finished\<close>

definition free_finished_seqs :: "group_ref \<Rightarrow> scheduler \<Rightarrow> scheduler result" where
  "free_finished_seqs r s =
     on_mem (fold_r (\<lambda>q m. if sq_finished q then free q m else Inr m) (sg_seqs (sc_groups s r))) s"

definition note_finished :: "group_ref \<Rightarrow> scheduler \<Rightarrow> scheduler" where
  "note_finished r s = s\<lparr>sc_finished_ids := sc_finished_ids s @ [sg_request_id (sc_groups s r)]\<rparr>"

definition free_finished_seq_group :: "group_ref \<Rightarrow> scheduler \<Rightarrow> scheduler result" where
  "free_finished_seq_group r s =
     bind_r (if sg_finished (sc_groups s r)
       then bind_r (free_seq_group_cross_attn_blocks r s) (\<lambda>s1. Inr (note_finished r s1)) else Inr s)
     (free_finished_seqs r)"

definition free_finished_seq_groups :: "scheduler \<Rightarrow> scheduler result" where
  "free_finished_seq_groups s =
     bind_r (fold_r free_finished_seq_group (sc_running s) s) (\<lambda>s1.
     let s2 = s1\<lparr>sc_running := filter (\<lambda>r. \<not> sg_finished (sc_groups s1 r)) (sc_running s1)\<rparr> in
     bind_r (fold_r (\<lambda>r s. bind_r (free_seq_group_cross_attn_blocks r s) (\<lambda>s'.
         free_finished_seqs r (note_finished r s'))) (sc_async_stopped s2) s2) (\<lambda>s3.
       Inr (s3\<lparr>sc_async_stopped := []\<rparr>)))"

subsection \<open>Numbers of tokens and slots\<close>

definition get_num_lookahead_slots :: "sched_config \<Rightarrow> bool \<Rightarrow> bool \<Rightarrow> nat" where
  "get_num_lookahead_slots cf is_prefill enable_chunking =
     (if is_prefill then (if is_multi_step cf \<and> enable_chunking then cf_num_lookahead_slots cf + 1 else 0)
      else cf_num_lookahead_slots cf)"

definition get_prompt_limit :: "sched_config \<Rightarrow> seq_group \<Rightarrow> nat result" where
  "get_prompt_limit cf g =
     (let prompt_limit = (if cf_chunked_prefill_enabled cf \<and> \<not> is_multi_step cf then cf_max_model_len cf
        else min (cf_max_model_len cf) (cf_max_num_batched_tokens cf)) in
      case Option.bind (sg_lora g) lr_long_lora_max_len of
        Some n \<Rightarrow> if n \<noteq> 0 then bind_r (guard_r AssertionError (prompt_limit \<le> n)) (\<lambda>_. Inr n) else Inr prompt_limit
      | None \<Rightarrow> Inr prompt_limit)"

definition get_num_new_tokens :: "sched_config \<Rightarrow> seq_group \<Rightarrow> seq_status \<Rightarrow> bool \<Rightarrow> budget \<Rightarrow> int result" where
  "get_num_new_tokens cf g status enable_chunking b =
     (let seqs = get_seqs status g; n = sum_list (map sq_num_new_tokens seqs) in
      bind_r (guard_r AssertionError (n > 0)) (\<lambda>_.
      if enable_chunking \<and> length seqs = 1 then
        let remaining = remaining_token_budget b in
        if is_multi_step cf then
          bind_r (get_prompt_limit cf g) (\<lambda>limit.
            Inr (if n > int limit then n else if n > remaining then 0 else n))
        else if cf_enable_prefix_caching cf then
          bind_r (if cf_block_size cf = 0 then Inl ZeroDivisionError
            else guard_r ValueError (bg_token_budget b mod int (cf_block_size cf) = 0)) (\<lambda>_.
            Inr (if remaining < n then remaining div int (cf_block_size cf) * int (cf_block_size cf) else n))
        else Inr (min n remaining)
      else Inr n))"

definition passed_delay :: "sched_config \<Rightarrow> real \<Rightarrow> scheduler \<Rightarrow> bool \<times> scheduler" where
  "passed_delay cf now s =
     (let s1 = (if sc_prev_prompt s then s\<lparr>sc_last_prompt_latency := now - sc_prev_time s\<rparr> else s);
          s2 = s1\<lparr>sc_prev_time := now, sc_prev_prompt := False\<rparr> in
      if cf_delay_factor cf > 0 \<and> sc_waiting s2 \<noteq> [] then
        let earliest = Min (set (map (\<lambda>r. sg_arrival_time (sc_groups s2 r)) (sc_waiting s2))) in
        (now - earliest > cf_delay_factor cf * sc_last_prompt_latency s2 \<or> sc_running s2 = [], s2)
      else (True, s2))"

end
