(* ===== verification/Sched_Loops.thy ===== *)
theory Sched_Loops
  imports Sched_State
begin

text \<open>
  The three loops of \<open>Scheduler\<close> (\<open>core/scheduler.py\<close>): over the running, the swapped and the
  waiting queue, with preemption. Scheduled groups are pairs of a reference and a chunk size.

  \<open>output_proc_callback\<close> is an argument \<open>cb\<close>: the engine's hook that applies a pending output to one
  request. It may change groups and memory; with a request id it leaves the queues alone, so the loop
  holds the queue it works on. The clock is an argument too: \<open>now k\<close> is its \<open>k\<close>-th reading.
\<close>

type_synonym callback = "(string \<Rightarrow> scheduler \<Rightarrow> scheduler result) option"
type_synonym loras = "nat set option"
type_synonym scheduled = "(group_ref \<times> int) list"

subsection \<open>Slots\<close>

definition sc_can_append_slots :: "sched_config \<Rightarrow> bool \<Rightarrow> group_ref \<Rightarrow> scheduler \<Rightarrow> bool result" where
  "sc_can_append_slots cf enable_chunking r s = (let g = sc_groups s r in
     bind_r (sg_is_prefill g) (\<lambda>is_prefill.
     let n = get_num_lookahead_slots cf is_prefill enable_chunking in
     bind_r (guard_r AssertionError (is_prefill \<and> n > 0 \<longrightarrow> is_multi_step cf \<and> enable_chunking)) (\<lambda>_.
       can_append_slots g n (snd (sc_mem s)))))"

definition sc_append_slots ::
    "sched_config \<Rightarrow> bool \<Rightarrow> group_ref \<Rightarrow> cow_list \<times> scheduler \<Rightarrow> (cow_list \<times> scheduler) result" where
  "sc_append_slots cf enable_chunking r x = (let (blocks_to_copy, s) = x in
     bind_r (sg_is_prefill (sc_groups s r)) (\<lambda>is_prefill.
     let n = get_num_lookahead_slots cf is_prefill enable_chunking in
     bind_r (init_multi_step_from_lookahead_slots n (cf_num_scheduler_steps cf) (is_multi_step cf) enable_chunking
         (sc_groups s r)) (\<lambda>g.
     bind_r (fold_r (append_seq n) (if is_multi_step cf \<and> enable_chunking then sg_seqs g else get_seqs RUNNING g)
         (blocks_to_copy, sc_mem s)) (\<lambda>(cows, m).
       Inr (cows, upd_group r (\<lambda>_. g) (s\<lparr>sc_mem := m\<rparr>))))))"

subsection \<open>Preemption and swapping\<close>

definition preempt_by_recompute :: "group_ref \<Rightarrow> scheduler \<Rightarrow> scheduler result" where
  "preempt_by_recompute r s = (let g = sc_groups s r; seqs = get_seqs RUNNING g in
     bind_r (guard_r AssertionError (length seqs = 1)) (\<lambda>_.
     bind_r (free_seq (hd seqs) s) (\<lambda>s1.
       Inr (upd_group r (map_seqs RUNNING (\<lambda>q. sq_reset_state_for_recompute (set_status WAITING q))) s1))))"

definition sc_swap_out :: "group_ref \<Rightarrow> (nat \<times> nat) list \<times> scheduler \<Rightarrow> ((nat \<times> nat) list \<times> scheduler) result" where
  "sc_swap_out r x = (let (blocks_to_swap_out, s) = x; g = sc_groups s r in
     bind_r (can_swap_out g (sc_mem s)) (\<lambda>(ok, m).
     bind_r (guard_r RuntimeError ok) (\<lambda>_.
     bind_r (swap_out g m) (\<lambda>(mapping, m1).
       Inr (blocks_to_swap_out @ mapping, upd_group r (map_seqs RUNNING (set_status SWAPPED)) (s\<lparr>sc_mem := m1\<rparr>))))))"

definition sc_swap_in :: "group_ref \<Rightarrow> (nat \<times> nat) list \<times> scheduler \<Rightarrow> ((nat \<times> nat) list \<times> scheduler) result" where
  "sc_swap_in r x = (let (blocks_to_swap_in, s) = x in
     bind_r (swap_in (sc_groups s r) (sc_mem s)) (\<lambda>(mapping, m).
       Inr (blocks_to_swap_in @ mapping, upd_group r (map_seqs SWAPPED (set_status RUNNING)) (s\<lparr>sc_mem := m\<rparr>))))"

text \<open>The mode that the caller asks for is overwritten before it is read.\<close>

definition preempt ::
    "sched_config \<Rightarrow> preemption_mode option \<Rightarrow> group_ref \<Rightarrow> (nat \<times> nat) list \<times> scheduler
      \<Rightarrow> (preemption_mode \<times> (nat \<times> nat) list \<times> scheduler) result" where
  "preempt cf requested r x =
     (let (blocks_to_swap_out, s) = x;
          mode = (case cf_preemption_mode cf of
              None \<Rightarrow> if get_max_num_running_seqs (sc_groups s r) = 1 then RECOMPUTE else SWAP
            | Some m \<Rightarrow> if m = ''swap'' then SWAP else RECOMPUTE);
          s1 = s\<lparr>sc_num_preemption := sc_num_preemption s + 1\<rparr> in
      case mode of
        RECOMPUTE \<Rightarrow> bind_r (preempt_by_recompute r s1) (\<lambda>s2. Inr (mode, blocks_to_swap_out, s2))
      | SWAP \<Rightarrow> bind_r (sc_swap_out r (blocks_to_swap_out, s1)) (\<lambda>y. Inr (mode, y)))"

subsection \<open>Running groups\<close>

record running_outputs =
  ro_decode :: scheduled
  ro_prefill :: scheduled
  ro_preempted :: "group_ref list"
  ro_swapped_out :: "group_ref list"
  ro_blocks_out :: "(nat \<times> nat) list"
  ro_copy :: cow_list
  ro_lookahead :: nat

definition empty_running :: running_outputs where
  "empty_running = \<lparr>ro_decode = [], ro_prefill = [], ro_preempted = [], ro_swapped_out = [], ro_blocks_out = [],
     ro_copy = [], ro_lookahead = 0\<rparr>"

text \<open>The scheduler, the budget, the LoRA ids of the batch and the outputs so far.\<close>

type_synonym rstate = "scheduler \<times> budget \<times> loras \<times> running_outputs"

definition preempt_victim :: "sched_config \<Rightarrow> callback \<Rightarrow> group_ref \<Rightarrow> rstate \<Rightarrow> rstate result" where
  "preempt_victim cf cb v x = (let (s, b, l, out) = x in
     bind_r (case cb of
         None \<Rightarrow> Inr (True, s)
       | Some f \<Rightarrow> bind_r (f (sg_request_id (sc_groups s v)) s) (\<lambda>s1.
           if sg_finished (sc_groups s1 v)
           then bind_r (free_finished_seq_group v s1) (\<lambda>s2. Inr (False, s2)) else Inr (True, s1))) (\<lambda>(do_preempt, s1).
     if \<not> do_preempt then Inr (s1, b, l, out)
     else bind_r (preempt cf None v (ro_blocks_out out, s1)) (\<lambda>(mode, blocks, s2).
       let out1 = out\<lparr>ro_blocks_out := blocks\<rparr> in
       Inr (s2, b, l, if mode = RECOMPUTE then out1\<lparr>ro_preempted := ro_preempted out1 @ [v]\<rparr>
         else out1\<lparr>ro_swapped_out := ro_swapped_out out1 @ [v]\<rparr>))))"

text \<open>A group that has to wait for slots gives back its share of the budget.\<close>

definition release_share :: "group_ref \<Rightarrow> int \<Rightarrow> rstate \<Rightarrow> rstate" where
  "release_share r num_running_tokens x = (let (s, b, l, out) = x; g = sc_groups s r; i = sg_request_id g in
     (s, subtract_num_seqs i (int (get_max_num_running_seqs g)) (subtract_num_batched_tokens i num_running_tokens b),
      map_option (\<lambda>ids. if lora_int_id g > 0 \<and> lora_int_id g \<in> ids then ids - {lora_int_id g} else ids) l, out))"

text \<open>
  The inner loop: preempt groups from the end of the queue, and at last the group itself, until its
  slots fit. The answer tells whether the group may run.
\<close>

function make_room ::
    "sched_config \<Rightarrow> callback \<Rightarrow> bool \<Rightarrow> group_ref \<Rightarrow> int \<Rightarrow> group_ref list \<Rightarrow> rstate
      \<Rightarrow> (bool \<times> group_ref list \<times> rstate) result" where
  "make_room cf cb enable_chunking r n queue x =
     bind_r (sc_can_append_slots cf enable_chunking r (fst x)) (\<lambda>fits.
     if fits then Inr (True, queue, x)
     else if queue = [] then
       bind_r (preempt_victim cf cb r (release_share r n x)) (\<lambda>x1. Inr (False, [], x1))
     else
       bind_r (preempt_victim cf cb (last queue) (release_share r n x))
         (make_room cf cb enable_chunking r n (butlast queue)))"
  by pat_completeness auto
termination by (relation "measure (\<lambda>(_, _, _, _, _, queue, _). length queue)") auto

declare make_room.simps [simp del]

definition schedule_group :: "sched_config \<Rightarrow> bool \<Rightarrow> group_ref \<Rightarrow> int \<Rightarrow> rstate \<Rightarrow> rstate result" where
  "schedule_group cf enable_chunking r num_running_tokens x = (let (s, b, l, out) = x in
     bind_r (sc_append_slots cf enable_chunking r (ro_copy out, s)) (\<lambda>(copies, s1).
     let g = sc_groups s1 r; out1 = out\<lparr>ro_copy := copies\<rparr> in
     bind_r (sg_is_prefill g) (\<lambda>is_prefill.
     let out2 = (if is_prefill then out1\<lparr>ro_prefill := ro_prefill out1 @ [(r, num_running_tokens)]\<rparr>
           else out1\<lparr>ro_decode := ro_decode out1 @ [(r, 1)]\<rparr>);
         b1 = add_num_batched_tokens (sg_request_id g) num_running_tokens b;
         b2 = (if enable_chunking then add_num_seqs (sg_request_id g) (int (get_max_num_running_seqs g)) b1 else b1) in
       Inr (s1, b2, map_option (\<lambda>ids. if lora_int_id g > 0 then insert (lora_int_id g) ids else ids) l, out2))))"

definition over_max_len :: "sched_config \<Rightarrow> seq_group \<Rightarrow> bool result" where
  "over_max_len cf g = bind_r (nth_r (sg_seqs g) 0) (\<lambda>q. Inr (sq_len q > cf_max_model_len cf))"

lemma make_room_shrinks: "make_room cf cb c r n queue x = Inr (ok, queue', x') \<Longrightarrow> length queue' \<le> length queue"
proof (induction cf cb c r n queue x rule: make_room.induct)
  case (1 cf cb c r n queue x)
  obtain fits where f: "sc_can_append_slots cf c r (fst x) = Inr fits"
    using "1.prems" by (subst (asm) make_room.simps) auto
  show ?case
  proof (cases "fits \<or> queue = []")
    case True
    then show ?thesis using "1.prems" f by (subst (asm) make_room.simps) (auto split: if_splits)
  next
    case False
    then obtain x1 where "preempt_victim cf cb (last queue) (release_share r n x) = Inr x1"
      "make_room cf cb c r n (butlast queue) x1 = Inr (ok, queue', x')"
      using "1.prems" f by (subst (asm) make_room.simps) auto
    then have "length queue' \<le> length (butlast queue)" using "1.IH" f False by blast
    then show ?thesis by simp
  qed
qed

function running_loop ::
    "sched_config \<Rightarrow> callback \<Rightarrow> bool \<Rightarrow> group_ref list \<Rightarrow> rstate \<Rightarrow> (group_ref list \<times> rstate) result" where
  "running_loop cf cb enable_chunking [] x = Inr ([], x)"
| "running_loop cf cb enable_chunking (r # queue) x = (let (s, b, l, out) = x in
     bind_r (get_num_new_tokens cf (sc_groups s r) RUNNING enable_chunking b) (\<lambda>n.
     if n = 0 then Inr (r # queue, x)
     else bind_r (if cb = None then Inr False else over_max_len cf (sc_groups s r)) (\<lambda>over.
       if over then running_loop cf cb enable_chunking queue (s\<lparr>sc_async_stopped := sc_async_stopped s @ [r]\<rparr>, b, l, out)
       else case make_room cf cb enable_chunking r n queue x of
         Inl e \<Rightarrow> Inl e
       | Inr (ok, queue1, x1) \<Rightarrow>
           if ok then bind_r (schedule_group cf enable_chunking r n x1) (running_loop cf cb enable_chunking queue1)
           else running_loop cf cb enable_chunking queue1 x1)))"
  by pat_completeness auto
termination
  by (relation "measure (\<lambda>(_, _, _, queue, _). length queue)") (auto dest: make_room_shrinks)

declare running_loop.simps(2) [simp del]

definition schedule_running ::
    "sched_config \<Rightarrow> callback \<Rightarrow> bool \<Rightarrow> scheduler \<Rightarrow> budget \<Rightarrow> loras \<Rightarrow> rstate result" where
  "schedule_running cf cb enable_chunking s b l =
     (let out = empty_running\<lparr>ro_lookahead := get_num_lookahead_slots cf False enable_chunking\<rparr> in
      bind_r (guard_r AssertionError (sc_async_stopped s = [])) (\<lambda>_.
      bind_r (running_loop cf cb enable_chunking (sc_running s) (s, b, l, out)) (\<lambda>(queue, s1, y).
        Inr (s1\<lparr>sc_running := queue\<rparr>, y))))"

subsection \<open>Swapped groups\<close>

record swapped_outputs =
  wo_decode :: scheduled
  wo_prefill :: scheduled
  wo_blocks_in :: "(nat \<times> nat) list"
  wo_copy :: cow_list
  wo_lookahead :: nat
  wo_infeasible :: "group_ref list"

definition empty_swapped :: swapped_outputs where
  "empty_swapped = \<lparr>wo_decode = [], wo_prefill = [], wo_blocks_in = [], wo_copy = [], wo_lookahead = 0,
     wo_infeasible = []\<rparr>"

text \<open>With LoRA: no adapter can be added to the batch for this group.\<close>

definition lora_full :: "sched_config \<Rightarrow> seq_group \<Rightarrow> loras \<Rightarrow> bool result" where
  "lora_full cf g l = (case cf_max_loras cf of
     None \<Rightarrow> Inr False
   | Some m \<Rightarrow> (case l of
       None \<Rightarrow> Inl AssertionError
     | Some ids \<Rightarrow> Inr (lora_int_id g > 0 \<and> lora_int_id g \<notin> ids \<and> card ids \<ge> m)))"

definition add_lora :: "sched_config \<Rightarrow> seq_group \<Rightarrow> loras \<Rightarrow> loras" where
  "add_lora cf g l =
     (if lora_enabled cf \<and> lora_int_id g > 0 then map_option (insert (lora_int_id g)) l else l)"

definition ignore_all :: "seq_group \<Rightarrow> seq_group" where
  "ignore_all g = g\<lparr>sg_seqs := map (set_status FINISHED_IGNORED) (sg_seqs g)\<rparr>"

type_synonym wstate = "scheduler \<times> budget \<times> loras \<times> swapped_outputs"

definition swap_group_in :: "sched_config \<Rightarrow> bool \<Rightarrow> group_ref \<Rightarrow> int \<Rightarrow> int \<Rightarrow> wstate \<Rightarrow> wstate result" where
  "swap_group_in cf enable_chunking r num_new_tokens num_new_seqs x = (let (s, b, l, out) = x in
     bind_r (sc_swap_in r (wo_blocks_in out, s)) (\<lambda>(blocks, s1).
     bind_r (sc_append_slots cf enable_chunking r (wo_copy out, s1)) (\<lambda>(copies, s2).
     let g = sc_groups s2 r; out1 = out\<lparr>wo_blocks_in := blocks, wo_copy := copies\<rparr> in
     bind_r (sg_is_prefill g) (\<lambda>is_prefill.
       Inr (s2, add_num_seqs (sg_request_id g) num_new_seqs (add_num_batched_tokens (sg_request_id g) num_new_tokens b),
         add_lora cf g l,
         if is_prefill then out1\<lparr>wo_prefill := wo_prefill out1 @ [(r, num_new_tokens)]\<rparr>
         else out1\<lparr>wo_decode := wo_decode out1 @ [(r, 1)]\<rparr>)))))"

fun swapped_loop ::
    "sched_config \<Rightarrow> bool \<Rightarrow> group_ref list \<Rightarrow> group_ref list \<Rightarrow> wstate
      \<Rightarrow> (group_ref list \<times> group_ref list \<times> wstate) result" where
  "swapped_loop cf enable_chunking [] leftover x = Inr ([], leftover, x)"
| "swapped_loop cf enable_chunking (r # queue) leftover x = (let (s, b, l, out) = x; g = sc_groups s r in
     bind_r (sg_is_prefill g) (\<lambda>is_prefill.
     bind_r (can_swap_in g (get_num_lookahead_slots cf is_prefill enable_chunking) (sc_mem s)) (\<lambda>(status, m).
     let s1 = s\<lparr>sc_mem := m\<rparr> in
     if status = LATER then Inr (r # queue, leftover, s1, b, l, out)
     else if status = NEVER then
       swapped_loop cf enable_chunking queue leftover
         (upd_group r ignore_all s1, b, l, out\<lparr>wo_infeasible := wo_infeasible out @ [r]\<rparr>)
     else
       bind_r (lora_full cf g l) (\<lambda>full.
       if full then swapped_loop cf enable_chunking queue (r # leftover) (s1, b, l, out)
       else
         let num_new_seqs = int (get_max_num_running_seqs g) in
         bind_r (get_num_new_tokens cf g SWAPPED enable_chunking b) (\<lambda>num_new_tokens.
         bind_r (if num_new_tokens = 0 then Inr False else can_schedule num_new_tokens num_new_seqs b) (\<lambda>fits.
         if \<not> fits then Inr (r # queue, leftover, s1, b, l, out)
         else bind_r (swap_group_in cf enable_chunking r num_new_tokens num_new_seqs (s1, b, l, out))
           (swapped_loop cf enable_chunking queue leftover)))))))"

declare swapped_loop.simps(2) [simp del]

definition schedule_swapped :: "sched_config \<Rightarrow> bool \<Rightarrow> scheduler \<Rightarrow> budget \<Rightarrow> loras \<Rightarrow> wstate result" where
  "schedule_swapped cf enable_chunking s b l =
     bind_r (swapped_loop cf enable_chunking (sc_swapped s) [] (s, b, l, empty_swapped)) (\<lambda>(queue, leftover, s1, b1, l1, out).
       Inr (s1\<lparr>sc_swapped := rev leftover @ queue\<rparr>, b1, l1,
         out\<lparr>wo_lookahead := get_num_lookahead_slots cf False enable_chunking\<rparr>))"

subsection \<open>Waiting groups\<close>

record prefill_outputs =
  po_groups :: scheduled
  po_ignored :: "group_ref list"
  po_lookahead :: nat

definition empty_prefills :: prefill_outputs where
  "empty_prefills = \<lparr>po_groups = [], po_ignored = [], po_lookahead = 0\<rparr>"

type_synonym prefill_state = "scheduler \<times> budget \<times> loras \<times> prefill_outputs"

definition allocate_and_set_running :: "group_ref \<Rightarrow> scheduler \<Rightarrow> scheduler result" where
  "allocate_and_set_running r s =
     bind_r (on_mem (allocate (sc_groups s r)) s) (\<lambda>s1. Inr (upd_group r (map_seqs WAITING (set_status RUNNING)) s1))"

definition start_prefill :: "sched_config \<Rightarrow> bool \<Rightarrow> group_ref \<Rightarrow> nat \<Rightarrow> int \<Rightarrow> int \<Rightarrow> prefill_state \<Rightarrow> prefill_state result" where
  "start_prefill cf enable_chunking r num_lookahead_slots num_new_tokens num_new_seqs x = (let (s, b, l, out) = x in
     bind_r (allocate_and_set_running r s) (\<lambda>s1.
     bind_r (if enable_chunking \<and> is_multi_step cf then
         bind_r (sc_append_slots cf enable_chunking r ([], s1)) (\<lambda>(copies, s2).
         bind_r (guard_r AssertionError (copies = [])) (\<lambda>_. Inr s2))
       else
         bind_r (init_multi_step_from_lookahead_slots num_lookahead_slots (cf_num_scheduler_steps cf) (is_multi_step cf)
           enable_chunking (sc_groups s1 r)) (\<lambda>g. Inr (upd_group r (\<lambda>_. g) s1))) (\<lambda>s2.
     let g = sc_groups s2 r in
       Inr (s2, add_num_seqs (sg_request_id g) num_new_seqs (add_num_batched_tokens (sg_request_id g) num_new_tokens b),
         add_lora cf g l, out\<lparr>po_groups := po_groups out @ [(r, num_new_tokens)]\<rparr>))))"

definition ignore_waiting :: "group_ref \<Rightarrow> prefill_state \<Rightarrow> prefill_state" where
  "ignore_waiting r x = (let (s, b, l, out) = x in
     (upd_group r (map_seqs WAITING (set_status FINISHED_IGNORED)) s, b, l, out\<lparr>po_ignored := po_ignored out @ [r]\<rparr>))"

fun prefill_loop ::
    "sched_config \<Rightarrow> (nat \<Rightarrow> real) \<Rightarrow> bool \<Rightarrow> nat \<Rightarrow> group_ref list \<Rightarrow> group_ref list \<Rightarrow> prefill_state
      \<Rightarrow> (group_ref list \<times> group_ref list \<times> prefill_state) result" where
  "prefill_loop cf now enable_chunking k [] leftover x = (let (s, y) = x; (_, s1) = passed_delay cf (now k) (s\<lparr>sc_waiting := []\<rparr>) in
     Inr ([], leftover, s1, y))"
| "prefill_loop cf now enable_chunking k (r # queue) leftover x =
     (let (s0, b, l, out) = x; (passed, s) = passed_delay cf (now k) (s0\<lparr>sc_waiting := r # queue\<rparr>);
          g = sc_groups s r; waiting_seqs = get_seqs WAITING g in
      if \<not> passed then Inr (r # queue, leftover, s, b, l, out)
      else
        bind_r (guard_r AssertionError (length waiting_seqs = 1)) (\<lambda>_.
        bind_r (get_num_new_tokens cf g WAITING enable_chunking b) (\<lambda>num_new_tokens.
        bind_r (guard_r AssertionError (\<not> enable_chunking \<longrightarrow> num_new_tokens = int (sq_len (hd waiting_seqs)))) (\<lambda>_.
        bind_r (get_prompt_limit cf g) (\<lambda>prompt_limit.
        if num_new_tokens > int prompt_limit then
          prefill_loop cf now enable_chunking (k + 1) queue leftover (ignore_waiting r (s, b, l, out))
        else
          let num_lookahead_slots = (if is_multi_step cf \<and> enable_chunking
              then get_num_lookahead_slots cf True enable_chunking else 0) in
          bind_r (can_allocate g num_lookahead_slots (snd (sc_mem s))) (\<lambda>status.
          if status = LATER then Inr (r # queue, leftover, s, b, l, out)
          else if status = NEVER then
            prefill_loop cf now enable_chunking (k + 1) queue leftover (ignore_waiting r (s, b, l, out))
          else
            bind_r (lora_full cf g l) (\<lambda>full.
            if full then prefill_loop cf now enable_chunking (k + 1) queue (r # leftover) (s, b, l, out)
            else
              let num_new_seqs = int (get_max_num_running_seqs g) in
              bind_r (if num_new_tokens = 0 then Inr False else can_schedule num_new_tokens num_new_seqs b) (\<lambda>fits.
              if \<not> fits then Inr (r # queue, leftover, s, b, l, out)
              else bind_r (start_prefill cf enable_chunking r num_lookahead_slots num_new_tokens num_new_seqs
                  (s, b, l, out)) (prefill_loop cf now enable_chunking (k + 1) queue leftover)))))))))"

declare prefill_loop.simps(2) [simp del]

definition schedule_prefills ::
    "sched_config \<Rightarrow> (nat \<Rightarrow> real) \<Rightarrow> bool \<Rightarrow> scheduler \<Rightarrow> budget \<Rightarrow> loras \<Rightarrow> prefill_state result" where
  "schedule_prefills cf now enable_chunking s b l =
     bind_r (prefill_loop cf now enable_chunking 0 (sc_waiting s) [] (s, b, l, empty_prefills)) (\<lambda>(queue, leftover, s1, b1, l1, out).
     let s2 = s1\<lparr>sc_waiting := rev leftover @ queue\<rparr>;
         s3 = (if po_groups out \<noteq> [] then s2\<lparr>sc_prev_prompt := True\<rparr> else s2) in
       Inr (s3, b1, l1, out\<lparr>po_lookahead := get_num_lookahead_slots cf True enable_chunking\<rparr>))"

end
