(* ===== verification/Sched_Step.thy ===== *)
theory Sched_Step
  imports Sched_Loops "HOL-Library.List_Lexorder"
begin

text \<open>
  One call of \<open>Scheduler.schedule\<close> (\<open>core/scheduler.py\<close>): the two policies, preemption by priority,
  and the metadata that is sent to the workers.
\<close>

subsection \<open>The outputs\<close>

record sched_outputs =
  so_groups :: scheduled
  so_num_prefill_groups :: nat
  so_num_batched_tokens :: int
  so_blocks_in :: "(nat \<times> nat) list"
  so_blocks_out :: "(nat \<times> nat) list"
  so_copy :: cow_list
  so_ignored :: "group_ref list"
  so_lookahead :: nat
  so_running_queue_size :: nat
  so_preempted :: nat

definition outputs_empty :: "sched_outputs \<Rightarrow> bool" where
  "outputs_empty o1 \<longleftrightarrow> so_groups o1 = [] \<and> so_blocks_in o1 = [] \<and> so_blocks_out o1 = [] \<and> so_copy o1 = []"

definition sort_by_lora_ids :: "scheduler \<Rightarrow> scheduled \<Rightarrow> scheduled" where
  "sort_by_lora_ids s gs =
     sort_key (\<lambda>(r, _). (lora_int_id (sc_groups s r), sg_request_id (sc_groups s r))) gs"

definition outputs_post_init :: "scheduler \<Rightarrow> sched_outputs \<Rightarrow> sched_outputs result" where
  "outputs_post_init s o1 =
     bind_r (guard_r AssertionError (\<not> (so_blocks_in o1 \<noteq> [] \<and> so_blocks_out o1 \<noteq> []))) (\<lambda>_.
       Inr (if list_ex (\<lambda>(r, _). sg_lora (sc_groups s r) \<noteq> None) (so_groups o1)
         then o1\<lparr>so_groups := sort_by_lora_ids s (so_groups o1)\<rparr> else o1))"

subsection \<open>Preemption by priority\<close>

definition get_priority :: "seq_group \<Rightarrow> int \<times> real" where
  "get_priority g = (sg_priority g, sg_arrival_time g)"

text \<open>The running queue is walked from its end: \<open>v # rest\<close> is the reversed queue.\<close>

fun preempt_lower ::
    "sched_config \<Rightarrow> group_ref \<Rightarrow> int \<Rightarrow> int \<Rightarrow> group_ref list \<Rightarrow> group_ref list \<Rightarrow> nat \<Rightarrow> (nat \<times> nat) list
      \<Rightarrow> scheduler \<times> budget \<Rightarrow> (group_ref list \<times> group_ref list \<times> nat \<times> scheduler \<times> budget) result" where
  "preempt_lower cf r num_new_tokens num_new_seqs [] waiting preempted blocks x = Inr ([], waiting, preempted, x)"
| "preempt_lower cf r num_new_tokens num_new_seqs (v # rest) waiting preempted blocks x =
     (let (s, b) = x; g = sc_groups s r; vg = sc_groups s v in
      if \<not> get_priority vg > get_priority g then Inr (v # rest, waiting, preempted, x)
      else
        bind_r (can_allocate g 0 (snd (sc_mem s))) (\<lambda>status.
        bind_r (if num_new_tokens \<noteq> 0 \<and> status = OK then can_schedule num_new_tokens num_new_seqs b else Inr False) (\<lambda>fits.
        if fits then Inr (v # rest, waiting, preempted, x)
        else
          bind_r (get_num_new_tokens cf vg RUNNING False b) (\<lambda>num_running_tokens.
          let b1 = subtract_num_seqs (sg_request_id vg) (int (get_max_num_running_seqs vg))
              (subtract_num_batched_tokens (sg_request_id vg) num_running_tokens b) in
          bind_r (preempt cf (Some RECOMPUTE) v (blocks, s)) (\<lambda>(_, blocks1, s1).
            preempt_lower cf r num_new_tokens num_new_seqs rest (v # waiting) (preempted + 1) blocks1 (s1, b1))))))"

definition schedule_priority_preemption :: "sched_config \<Rightarrow> scheduler \<times> budget \<Rightarrow> (nat \<times> scheduler \<times> budget) result" where
  "schedule_priority_preemption cf x = (let (s, b) = x;
       by_priority = sort_key (\<lambda>r. get_priority (sc_groups s r)); running = by_priority (sc_running s) in
     case sc_waiting s of
       [] \<Rightarrow> Inr (0, s\<lparr>sc_running := running\<rparr>, b)
     | r # rest \<Rightarrow>
         let g = sc_groups s r; num_new_seqs = int (get_max_num_running_seqs g) in
         bind_r (get_num_new_tokens cf g WAITING False b) (\<lambda>num_new_tokens.
         bind_r (preempt_lower cf r num_new_tokens num_new_seqs (rev running) rest 0 [] (s, b)) (\<lambda>(kept, waiting, preempted, s1, b1).
           Inr (preempted, s1\<lparr>sc_waiting := by_priority (r # waiting), sc_running := rev kept\<rparr>, b1))))"

subsection \<open>The default policy\<close>

definition add_running_seqs :: "scheduler \<Rightarrow> budget \<Rightarrow> budget" where
  "add_running_seqs s =
     fold (\<lambda>r. add_num_seqs (sg_request_id (sc_groups s r)) (int (get_max_num_running_seqs (sc_groups s r)))) (sc_running s)"

definition running_loras :: "sched_config \<Rightarrow> scheduler \<Rightarrow> loras" where
  "running_loras cf s =
     (if lora_enabled cf then Some (set (filter (\<lambda>i. i > 0) (map (\<lambda>r. lora_int_id (sc_groups s r)) (sc_running s))))
      else None)"

text \<open>Prefills if nothing is swapped out, else the running groups, and if none had to go, the swapped ones.\<close>

definition select_default ::
    "sched_config \<Rightarrow> callback \<Rightarrow> (nat \<Rightarrow> real) \<Rightarrow> scheduler
      \<Rightarrow> (scheduler \<times> budget \<times> prefill_outputs \<times> running_outputs \<times> swapped_outputs) result" where
  "select_default cf cb now s =
     (let b = add_running_seqs s (new_budget cf); l = running_loras cf s in
      bind_r (if sc_swapped s = [] then schedule_prefills cf now False s b l else Inr (s, b, l, empty_prefills)) (\<lambda>(s1, b1, l1, pre).
      if po_groups pre \<noteq> [] then Inr (s1, b1, pre, empty_running, empty_swapped)
      else
        bind_r (if cf_policy cf = ''priority'' then schedule_priority_preemption cf (s1, b1) else Inr (0, s1, b1)) (\<lambda>(_, s2, b2).
        bind_r (schedule_running cf cb False s2 b2 l1) (\<lambda>(s3, b3, l3, ro).
        if length (ro_preempted ro) + length (ro_swapped_out ro) = 0 then
          bind_r (schedule_swapped cf False s3 b3 l3) (\<lambda>(s4, b4, l4, wo). Inr (s4, b4, pre, ro, wo))
        else Inr (s3, b3, pre, ro, empty_swapped)))))"

definition check_budget :: "sched_config \<Rightarrow> budget \<Rightarrow> unit result" where
  "check_budget cf b =
     bind_r (guard_r AssertionError (bg_num_batched_tokens b \<le> int (cf_max_num_batched_tokens cf))) (\<lambda>_.
       guard_r AssertionError (bg_num_curr_seqs b \<le> int (cf_max_num_seqs cf)))"

definition schedule_default ::
    "sched_config \<Rightarrow> callback \<Rightarrow> (nat \<Rightarrow> real) \<Rightarrow> scheduler \<Rightarrow> (sched_outputs \<times> scheduler) result" where
  "schedule_default cf cb now s =
     bind_r (select_default cf cb now s) (\<lambda>(s1, b, pre, ro, wo).
     bind_r (check_budget cf b) (\<lambda>_.
     let s2 = s1\<lparr>sc_waiting := rev (ro_preempted ro) @ sc_waiting s1,
           sc_running := sc_running s1 @ map fst (po_groups pre) @ map fst (ro_decode ro) @ map fst (wo_decode wo),
           sc_swapped := sc_swapped s1 @ ro_swapped_out ro\<rparr> in
     bind_r (guard_r AssertionError (length (ro_prefill ro) = 0)) (\<lambda>_.
     bind_r (guard_r AssertionError (length (wo_prefill wo) = 0)) (\<lambda>_.
     bind_r (outputs_post_init s2
       \<lparr>so_groups = po_groups pre @ ro_decode ro @ wo_decode wo,
        so_num_prefill_groups = length (po_groups pre),
        so_num_batched_tokens = bg_num_batched_tokens b,
        so_blocks_in = wo_blocks_in wo, so_blocks_out = ro_blocks_out ro, so_copy = ro_copy ro @ wo_copy wo,
        so_ignored = po_ignored pre @ wo_infeasible wo, so_lookahead = ro_lookahead ro,
        so_running_queue_size = length (sc_running s2),
        so_preempted = length (ro_preempted ro) + length (ro_swapped_out ro)\<rparr>) (\<lambda>o1. Inr (o1, s2))))))"

subsection \<open>Chunked prefill\<close>

definition select_chunked ::
    "sched_config \<Rightarrow> callback \<Rightarrow> (nat \<Rightarrow> real) \<Rightarrow> scheduler
      \<Rightarrow> (scheduler \<times> budget \<times> prefill_outputs \<times> running_outputs \<times> swapped_outputs) result" where
  "select_chunked cf cb now s =
     bind_r (schedule_running cf cb True s (new_budget cf) (Some {})) (\<lambda>(s1, b1, l1, ro).
     bind_r (if length (ro_preempted ro) + length (ro_swapped_out ro) = 0 then schedule_swapped cf False s1 b1 l1
       else Inr (s1, b1, l1, empty_swapped)) (\<lambda>(s2, b2, l2, wo).
     bind_r (schedule_prefills cf now True s2 b2 l2) (\<lambda>(s3, b3, _, pre).
       Inr (s3, b3, pre, ro, wo))))"

definition schedule_chunked_prefill ::
    "sched_config \<Rightarrow> callback \<Rightarrow> (nat \<Rightarrow> real) \<Rightarrow> scheduler \<Rightarrow> (sched_outputs \<times> scheduler) result" where
  "schedule_chunked_prefill cf cb now s =
     bind_r (select_chunked cf cb now s) (\<lambda>(s1, b, pre, ro, wo).
     bind_r (check_budget cf b) (\<lambda>_.
     let s2 = s1\<lparr>sc_waiting := rev (ro_preempted ro) @ sc_waiting s1,
           sc_running := sc_running s1 @ map fst (wo_decode wo) @ map fst (wo_prefill wo) @ map fst (ro_decode ro)
             @ map fst (ro_prefill ro) @ map fst (po_groups pre),
           sc_swapped := sc_swapped s1 @ ro_swapped_out ro\<rparr> in
     bind_r (outputs_post_init s2
       \<lparr>so_groups = po_groups pre @ ro_prefill ro @ wo_prefill wo @ ro_decode ro @ wo_decode wo,
        so_num_prefill_groups = length (po_groups pre) + length (wo_prefill wo) + length (ro_prefill ro),
        so_num_batched_tokens = bg_num_batched_tokens b,
        so_blocks_in = wo_blocks_in wo, so_blocks_out = ro_blocks_out ro, so_copy = ro_copy ro @ wo_copy wo,
        so_ignored = po_ignored pre @ wo_infeasible wo, so_lookahead = ro_lookahead ro,
        so_running_queue_size = length (sc_running s2),
        so_preempted = length (ro_preempted ro) + length (ro_swapped_out ro)\<rparr>) (\<lambda>o1. Inr (o1, s2))))"

definition schedule_queues ::
    "sched_config \<Rightarrow> callback \<Rightarrow> (nat \<Rightarrow> real) \<Rightarrow> scheduler \<Rightarrow> (sched_outputs \<times> scheduler) result" where
  "schedule_queues cf cb now s =
     (if cf_chunked_prefill_enabled cf then schedule_chunked_prefill cf cb now s else schedule_default cf cb now s)"

subsection \<open>The metadata for the workers\<close>

record full_metadata =
  md_request_id :: string
  md_is_prompt :: bool
  md_seq_data :: "(nat \<times> seq_data) list"
  md_block_tables :: "(nat \<times> nat list) list"
  md_do_sample :: bool
  md_token_chunk_size :: int
  md_lora :: "lora_request option"
  md_computed_block_nums :: "nat list"
  md_encoder_seq_data :: "seq_data option"
  md_cross_block_table :: "nat list option"
  md_state :: "nat \<times> nat"

record delta_metadata =
  dm_seq_delta :: "(nat \<times> seq_delta) list"
  dm_request_id :: string
  dm_block_tables :: "(nat \<times> nat list) list"
  dm_is_prompt :: bool
  dm_do_sample :: bool
  dm_token_chunk_size :: int
  dm_computed_block_nums :: "nat list"

datatype metadata = Full_Metadata full_metadata | Delta_Metadata delta_metadata

fun meta_chunk_size :: "metadata \<Rightarrow> int" where
  "meta_chunk_size (Full_Metadata m) = md_token_chunk_size m"
| "meta_chunk_size (Delta_Metadata m) = dm_token_chunk_size m"

fun meta_do_sample :: "metadata \<Rightarrow> bool" where
  "meta_do_sample (Full_Metadata m) = md_do_sample m"
| "meta_do_sample (Delta_Metadata m) = dm_do_sample m"

definition cross_table_of :: "seq_group \<Rightarrow> mstate \<Rightarrow> (seq_data option \<times> nat list option) result" where
  "cross_table_of g m = (case sg_encoder_seq g of
     None \<Rightarrow> Inr (None, None)
   | Some e \<Rightarrow> bind_r (get_cross_block_table g (snd m)) (\<lambda>ids. Inr (Some (sq_data e), Some ids)))"

definition table_of_seq :: "real \<Rightarrow> sequence \<Rightarrow> mstate \<Rightarrow> ((nat \<times> nat list) \<times> mstate) result" where
  "table_of_seq now q m =
     bind_r (get_block_table q (snd m)) (\<lambda>ids.
     bind_r (access_all_blocks_in_seq q now m) (\<lambda>m1. Inr ((sq_id q, ids), m1)))"

definition common_computed :: "sched_config \<Rightarrow> seq_group \<Rightarrow> mstate \<Rightarrow> (nat list \<times> mstate) result" where
  "common_computed cf g m =
     (if cf_enable_prefix_caching cf then
        bind_r (get_common_computed_block_ids (get_seqs RUNNING g) (snd m)) (\<lambda>(ids, M). Inr (ids, fst m, M))
      else Inr ([], m))"

text \<open>Is it a prompt, is it the first chunk of it, and is a token to be sampled.\<close>

definition prompt_flags :: "int \<Rightarrow> seq_group \<Rightarrow> (bool \<times> bool \<times> bool) result" where
  "prompt_flags token_chunk_size g =
     bind_r (sg_is_prefill g) (\<lambda>is_prompt.
     if \<not> is_prompt then Inr (False, False, True)
     else
       bind_r (guard_r AssertionError (length (sg_seqs g) = 1)) (\<lambda>_.
       let q = hd (sg_seqs g); num_computed_tokens = sq_num_computed q in
         Inr (True, num_computed_tokens = 0, \<not> token_chunk_size + int num_computed_tokens < int (sq_len q))))"

definition metadata_of ::
    "sched_config \<Rightarrow> real \<Rightarrow> group_ref \<times> int \<Rightarrow> scheduler \<Rightarrow> (metadata \<times> scheduler) result" where
  "metadata_of cf now sg s = (let (r, token_chunk_size) = sg; s1 = upd_group r (maybe_set_first_scheduled_time now) s;
       g = sc_groups s1 r; seqs = get_seqs RUNNING g in
     bind_r (cross_table_of g (sc_mem s1)) (\<lambda>(encoder_data, cross_table).
     bind_r (map_r (table_of_seq now) seqs (sc_mem s1)) (\<lambda>(tables, m1).
     bind_r (common_computed cf g m1) (\<lambda>(computed, m2).
     bind_r (prompt_flags token_chunk_size g) (\<lambda>(is_prompt, is_first_prefill, do_sample).
     let s2 = s1\<lparr>sc_mem := m2\<rparr> in
     if is_first_prefill \<or> \<not> cf_send_delta_data cf then
       Inr (Full_Metadata \<lparr>md_request_id = sg_request_id g, md_is_prompt = is_prompt,
         md_seq_data = map (\<lambda>q. (sq_id q, sq_data q)) seqs, md_block_tables = tables, md_do_sample = do_sample,
         md_token_chunk_size = token_chunk_size, md_lora = sg_lora g, md_computed_block_nums = computed,
         md_encoder_seq_data = encoder_data, md_cross_block_table = cross_table,
         md_state = (sg_num_steps g, sg_current_step g)\<rparr>, s2)
     else
       Inr (Delta_Metadata \<lparr>dm_seq_delta = map (\<lambda>q. (sq_id q, fst (get_delta_and_reset (sq_data q)))) seqs,
         dm_request_id = sg_request_id g, dm_block_tables = tables, dm_is_prompt = is_prompt,
         dm_do_sample = do_sample, dm_token_chunk_size = token_chunk_size, dm_computed_block_nums = computed\<rparr>,
         upd_group r (map_seqs RUNNING (\<lambda>q. q\<lparr>sq_data := snd (get_delta_and_reset (sq_data q))\<rparr>)) s2))))))"

definition allow_async_output_proc :: "seq_group \<Rightarrow> bool" where
  "allow_async_output_proc g \<longleftrightarrow> (case sg_n g of None \<Rightarrow> True | Some n \<Rightarrow> n = 1)"

definition add_scheduler_time :: "real \<Rightarrow> seq_group \<Rightarrow> seq_group" where
  "add_scheduler_time t g =
     g\<lparr>sg_scheduler_time := Some (case sg_scheduler_time g of None \<Rightarrow> t | Some u \<Rightarrow> u + t)\<rparr>"

text \<open>\<open>now\<close>: the clock during the prefills; \<open>start\<close>: after the queues are done; \<open>elapsed\<close>: the time the call took.\<close>

definition sc_schedule ::
    "sched_config \<Rightarrow> callback \<Rightarrow> (nat \<Rightarrow> real) \<Rightarrow> real \<Rightarrow> real \<Rightarrow> scheduler
      \<Rightarrow> (metadata list \<times> sched_outputs \<times> bool \<times> scheduler) result" where
  "sc_schedule cf cb now start elapsed s =
     bind_r (schedule_queues cf cb now s) (\<lambda>(o1, s1).
     bind_r (map_r (metadata_of cf start) (so_groups o1) s1) (\<lambda>(metadata, s2).
     bind_r (on_mem (fold_r (\<lambda>_. mark_blocks_as_computed) (so_groups o1)) s2) (\<lambda>s3.
     let s4 = fold (\<lambda>r. upd_group r (add_scheduler_time elapsed)) (sc_running s3) s3;
         allow = (cb \<noteq> None \<and> list_all (\<lambda>(r, _). allow_async_output_proc (sc_groups s4 r)) (so_groups o1)) in
       Inr (metadata, o1, allow, s4))))"

end
