(* ===== verification/Sampling.thy ===== *)
theory Sampling
  imports Sequences
begin

text \<open>
  Sampling parameters (\<open>sampling_params.py\<close>) and the stop checker
  (\<open>engine/output_processor/stop_checker.py\<close>). Real numbers stand for floats; the checks that a value has
  its declared type, the logits processors and guided decoding are left out.
\<close>

subsection \<open>Parameters\<close>

datatype output_kind = CUMULATIVE | DELTA | FINAL_ONLY

record sampling =
  sp_n :: int
  sp_best_of :: "int option"
  sp_real_n :: "int option"
  sp_presence_penalty :: real
  sp_frequency_penalty :: real
  sp_repetition_penalty :: real
  sp_temperature :: real
  sp_top_p :: real
  sp_top_k :: int
  sp_min_p :: real
  sp_seed :: "int option"
  sp_stop :: "string list"
  sp_stop_token_ids :: "int list"
  sp_ignore_eos :: bool
  sp_max_tokens :: "int option"
  sp_min_tokens :: int
  sp_logprobs :: "int option"
  sp_prompt_logprobs :: "int option"
  sp_detokenize :: bool
  sp_include_stop_str_in_output :: bool
  sp_truncate_prompt_tokens :: "int option"
  sp_output_kind :: output_kind
  sp_output_text_buffer_length :: nat
  sp_all_stop_token_ids :: "int set"

definition default_sampling :: sampling where
  "default_sampling = \<lparr>sp_n = 1, sp_best_of = None, sp_real_n = None, sp_presence_penalty = 0,
     sp_frequency_penalty = 0, sp_repetition_penalty = 1, sp_temperature = 1, sp_top_p = 1, sp_top_k = -1,
     sp_min_p = 0, sp_seed = None, sp_stop = [], sp_stop_token_ids = [], sp_ignore_eos = False,
     sp_max_tokens = Some 16, sp_min_tokens = 0, sp_logprobs = None, sp_prompt_logprobs = None,
     sp_detokenize = True, sp_include_stop_str_in_output = False, sp_truncate_prompt_tokens = None,
     sp_output_kind = CUMULATIVE, sp_output_text_buffer_length = 0, sp_all_stop_token_ids = {}\<rparr>"

definition SAMPLING_EPS :: real where
  "SAMPLING_EPS = 1 / 100000"

definition MAX_TEMP :: real where
  "MAX_TEMP = 1 / 100"

definition verify_sampling_args :: "sampling \<Rightarrow> unit result" where
  "verify_sampling_args p =
     bind_r (guard_r ValueError (\<not> sp_n p < 1)) (\<lambda>_.
     bind_r (guard_r ValueError (-2 \<le> sp_presence_penalty p \<and> sp_presence_penalty p \<le> 2)) (\<lambda>_.
     bind_r (guard_r ValueError (-2 \<le> sp_frequency_penalty p \<and> sp_frequency_penalty p \<le> 2)) (\<lambda>_.
     bind_r (guard_r ValueError (0 < sp_repetition_penalty p \<and> sp_repetition_penalty p \<le> 2)) (\<lambda>_.
     bind_r (guard_r ValueError (\<not> sp_temperature p < 0)) (\<lambda>_.
     bind_r (guard_r ValueError (0 < sp_top_p p \<and> sp_top_p p \<le> 1)) (\<lambda>_.
     bind_r (guard_r ValueError (\<not> (sp_top_k p < -1 \<or> sp_top_k p = 0))) (\<lambda>_.
     bind_r (guard_r ValueError (0 \<le> sp_min_p p \<and> sp_min_p p \<le> 1)) (\<lambda>_.
     bind_r (guard_r ValueError (\<forall>m \<in> set_option (sp_max_tokens p). \<not> m < 1)) (\<lambda>_.
     bind_r (guard_r ValueError (\<not> sp_min_tokens p < 0)) (\<lambda>_.
     bind_r (guard_r ValueError (\<forall>m \<in> set_option (sp_max_tokens p). \<not> sp_min_tokens p > m)) (\<lambda>_.
     bind_r (guard_r ValueError (\<forall>k \<in> set_option (sp_logprobs p). \<not> k < 0)) (\<lambda>_.
     bind_r (guard_r ValueError (\<forall>k \<in> set_option (sp_prompt_logprobs p). \<not> k < 0)) (\<lambda>_.
     bind_r (guard_r ValueError (\<forall>k \<in> set_option (sp_truncate_prompt_tokens p). \<not> k < 1)) (\<lambda>_.
     bind_r (guard_r ValueError ('''' \<notin> set (sp_stop p))) (\<lambda>_.
     bind_r (guard_r ValueError (\<not> (sp_stop p \<noteq> [] \<and> \<not> sp_detokenize p))) (\<lambda>_.
       guard_r ValueError (\<not> (sp_best_of p \<noteq> sp_real_n p \<and> sp_output_kind p = DELTA))))))))))))))))))"

definition verify_greedy_sampling :: "sampling \<Rightarrow> unit result" where
  "verify_greedy_sampling p = guard_r ValueError (\<not> sp_n p > 1)"

text \<open>The fields as they are given, with \<open>stop\<close> already as a list.\<close>

definition sampling_post_init :: "sampling \<Rightarrow> sampling result" where
  "sampling_post_init p =
     bind_r (case sp_best_of p of
         Some b \<Rightarrow> if b \<noteq> 0 then bind_r (guard_r ValueError (\<not> b < sp_n p)) (\<lambda>_.
             Inr (p\<lparr>sp_real_n := Some (sp_n p), sp_n := b\<rparr>)) else Inr p
       | None \<Rightarrow> Inr p) (\<lambda>p1.
     let p2 = (if 0 < sp_temperature p1 \<and> sp_temperature p1 < MAX_TEMP
           then p1\<lparr>sp_temperature := max (sp_temperature p1) MAX_TEMP\<rparr> else p1);
         p3 = (if sp_seed p2 = Some (-1) then p2\<lparr>sp_seed := None\<rparr> else p2);
         p4 = (if sp_stop p3 \<noteq> [] \<and> \<not> sp_include_stop_str_in_output p3
           then p3\<lparr>sp_output_text_buffer_length := Max (set (map length (sp_stop p3))) - 1\<rparr> else p3) in
     bind_r (verify_sampling_args p4) (\<lambda>_.
     bind_r (if sp_temperature p4 < SAMPLING_EPS
       then let p5 = p4\<lparr>sp_top_p := 1, sp_top_k := -1, sp_min_p := 0\<rparr> in bind_r (verify_greedy_sampling p5) (\<lambda>_. Inr p5)
       else Inr p4) (\<lambda>p6.
       Inr (p6\<lparr>sp_all_stop_token_ids := set (sp_stop_token_ids p6)\<rparr>))))"

text \<open>The end-of-sequence ids of the generation configuration, if it names any; their order does not matter.\<close>

definition update_from_generation_config :: "int list option \<Rightarrow> int option \<Rightarrow> sampling \<Rightarrow> sampling" where
  "update_from_generation_config config_eos model_eos_token_id p =
     (let p1 = p\<lparr>sp_all_stop_token_ids := sp_all_stop_token_ids p \<union> set_option model_eos_token_id\<rparr> in
      case config_eos of
        None \<Rightarrow> p1
      | Some ids \<Rightarrow>
          let eos_ids = filter (\<lambda>i. Some i \<noteq> model_eos_token_id) ids in
          if eos_ids = [] then p1
          else
            let p2 = p1\<lparr>sp_all_stop_token_ids := sp_all_stop_token_ids p1 \<union> set eos_ids\<rparr> in
            if sp_ignore_eos p2 then p2 else p2\<lparr>sp_stop_token_ids := remdups (eos_ids @ sp_stop_token_ids p2)\<rparr>)"

subsection \<open>Stop checker\<close>

text \<open>\<open>output_text.find(sub, - back)\<close> for \<open>back > 0\<close>.\<close>

definition find_back :: "string \<Rightarrow> nat \<Rightarrow> string \<Rightarrow> nat option" where
  "find_back sub back text =
     List.find (\<lambda>i. take (length sub) (drop i text) = sub) [length text - back..<Suc (length text - length sub)]"

fun find_stop :: "nat \<Rightarrow> bool \<Rightarrow> string list \<Rightarrow> sequence \<Rightarrow> string option \<times> sequence" where
  "find_stop new_char_count include_stop [] q = (None, q)"
| "find_stop new_char_count include_stop (stop_str # strs) q =
     (case find_back stop_str (new_char_count + length stop_str) (sq_output_text q) of
        None \<Rightarrow> find_stop new_char_count include_stop strs q
      | Some stop_index \<Rightarrow>
          let i = (if include_stop then stop_index + length stop_str else stop_index) in
          if include_stop \<and> i \<ge> length (sq_output_text q) then (Some stop_str, q)
          else (Some stop_str, q\<lparr>sq_output_text := take i (sq_output_text q)\<rparr>))"

definition check_stop_strings :: "nat \<Rightarrow> sampling \<Rightarrow> sequence \<Rightarrow> string option \<times> sequence" where
  "check_stop_strings new_char_count p q =
     (if new_char_count = 0 \<or> sp_stop p = [] then (None, q)
      else find_stop new_char_count (sp_include_stop_str_in_output p) (sp_stop p) q)"

definition get_max_model_len :: "nat \<Rightarrow> lora_request option \<Rightarrow> nat" where
  "get_max_model_len max_model_len lora = (case Option.bind lora lr_long_lora_max_len of
     Some n \<Rightarrow> if n \<noteq> 0 then n else max_model_len | None \<Rightarrow> max_model_len)"

definition sq_output_len :: "sequence \<Rightarrow> int" where
  "sq_output_len q = int (length (sd_output (sq_data q)))"

definition strip_output :: "nat \<Rightarrow> sampling \<Rightarrow> sequence \<Rightarrow> sequence" where
  "strip_output new_char_count p q =
     (if new_char_count \<noteq> 0 \<and> \<not> sp_include_stop_str_in_output p
      then q\<lparr>sq_output_text := take (length (sq_output_text q) - new_char_count) (sq_output_text q)\<rparr> else q)"

definition maybe_stop_sequence :: "nat \<Rightarrow> nat \<Rightarrow> sampling \<Rightarrow> lora_request option \<Rightarrow> sequence \<Rightarrow> sequence result" where
  "maybe_stop_sequence max_model_len new_char_count p lora q =
     (if sq_output_len q < sp_min_tokens p then Inr q
      else
        bind_r (if sp_ignore_eos p then Inr False
          else bind_r (get_last_token_id (sq_data q)) (\<lambda>t. Inr (sq_eos_token_id q = Some t))) (\<lambda>eos.
        if eos then Inr ((strip_output new_char_count p q)\<lparr>sq_status := FINISHED_STOPPED\<rparr>)
        else
          bind_r (get_last_token_id (sq_data q)) (\<lambda>last_token_id.
          if last_token_id \<in> set (sp_stop_token_ids p)
          then Inr ((strip_output new_char_count p q)\<lparr>sq_status := FINISHED_STOPPED, sq_stop_reason := Some (Inl last_token_id)\<rparr>)
          else case check_stop_strings new_char_count p q of
              (Some stop_str, q1) \<Rightarrow> Inr (q1\<lparr>sq_status := FINISHED_STOPPED, sq_stop_reason := Some (Inr stop_str)\<rparr>)
            | (None, q1) \<Rightarrow>
                if sq_len q1 > get_max_model_len max_model_len lora then Inr (q1\<lparr>sq_status := FINISHED_LENGTH_CAPPED\<rparr>)
                else if Some (sq_output_len q1) = sp_max_tokens p then Inr (q1\<lparr>sq_status := FINISHED_LENGTH_CAPPED\<rparr>)
                else Inr q1)))"

text \<open>Which sampling parameters a request can carry: the checks of \<open>sampling_params.py\<close> as a well-formedness predicate.\<close>

definition ranges_ok :: "sampling \<Rightarrow> bool" where
  "ranges_ok p \<longleftrightarrow> 1 \<le> sp_n p \<and> \<bar>sp_presence_penalty p\<bar> \<le> 2 \<and> \<bar>sp_frequency_penalty p\<bar> \<le> 2
     \<and> 0 < sp_repetition_penalty p \<and> sp_repetition_penalty p \<le> 2 \<and> 0 \<le> sp_temperature p
     \<and> 0 < sp_top_p p \<and> sp_top_p p \<le> 1 \<and> (sp_top_k p = -1 \<or> 1 \<le> sp_top_k p) \<and> 0 \<le> sp_min_p p \<and> sp_min_p p \<le> 1"

definition limits_ok :: "sampling \<Rightarrow> bool" where
  "limits_ok p \<longleftrightarrow> 0 \<le> sp_min_tokens p \<and> (\<forall>m. sp_max_tokens p = Some m \<longrightarrow> 1 \<le> m \<and> sp_min_tokens p \<le> m)
     \<and> (\<forall>k. sp_logprobs p = Some k \<longrightarrow> 0 \<le> k) \<and> (\<forall>k. sp_prompt_logprobs p = Some k \<longrightarrow> 0 \<le> k)
     \<and> '''' \<notin> set (sp_stop p) \<and> (sp_stop p \<noteq> [] \<longrightarrow> sp_detokenize p)"

text \<open>A best-of request returns \<open>real_n\<close> of \<open>n = best_of\<close> sequences and cannot stream its tokens unless they agree.\<close>

definition best_of_ok :: "sampling \<Rightarrow> bool" where
  "best_of_ok p \<longleftrightarrow> (\<forall>b. sp_best_of p = Some b \<longrightarrow> b \<noteq> 0 \<longrightarrow> sp_n p = b \<and> (\<exists>k. sp_real_n p = Some k \<and> k \<le> b
     \<and> (sp_output_kind p = DELTA \<longrightarrow> k = b)))"

definition greedy_ok :: "sampling \<Rightarrow> bool" where
  "greedy_ok p \<longleftrightarrow> (sp_temperature p < SAMPLING_EPS \<longrightarrow> sp_temperature p = 0 \<and> sp_n p = 1 \<and> sp_top_p p = 1 \<and> sp_top_k p = -1
     \<and> sp_min_p p = 0) \<and> (sp_temperature p \<ge> SAMPLING_EPS \<longrightarrow> sp_temperature p \<ge> MAX_TEMP)"

text \<open>The text that is held back while a sequence runs can hold every stop string but its last character.\<close>

definition buffer_ok :: "sampling \<Rightarrow> bool" where
  "buffer_ok p \<longleftrightarrow> (\<not> sp_include_stop_str_in_output p \<longrightarrow> (\<forall>w \<in> set (sp_stop p). length w \<le> sp_output_text_buffer_length p + 1))"

definition sampling_ok :: "sampling \<Rightarrow> bool" where
  "sampling_ok p \<longleftrightarrow> ranges_ok p \<and> limits_ok p \<and> best_of_ok p \<and> greedy_ok p \<and> buffer_ok p
     \<and> sp_seed p \<noteq> Some (-1) \<and> sp_all_stop_token_ids p = set (sp_stop_token_ids p)"

lemma verified:
  assumes "verify_sampling_args p = Inr u"
  shows "ranges_ok p" "limits_ok p" "sp_best_of p = sp_real_n p \<or> sp_output_kind p \<noteq> DELTA"
proof -
  show "ranges_ok p" using assms by (auto simp: verify_sampling_args_def ranges_ok_def abs_le_iff)
  show "limits_ok p" using assms by (auto simp: verify_sampling_args_def limits_ok_def)
  show "sp_best_of p = sp_real_n p \<or> sp_output_kind p \<noteq> DELTA" using assms by (auto simp: verify_sampling_args_def)
qed

text \<open>The steps of \<open>__post_init__\<close>.\<close>

definition init_best_of :: "sampling \<Rightarrow> sampling result" where
  "init_best_of p = (case sp_best_of p of
       Some b \<Rightarrow> if b \<noteq> 0 then bind_r (guard_r ValueError (\<not> b < sp_n p)) (\<lambda>_. Inr (p\<lparr>sp_real_n := Some (sp_n p), sp_n := b\<rparr>)) else Inr p
     | None \<Rightarrow> Inr p)"

definition init_temperature :: "sampling \<Rightarrow> sampling" where
  "init_temperature p = (if 0 < sp_temperature p \<and> sp_temperature p < MAX_TEMP
     then p\<lparr>sp_temperature := max (sp_temperature p) MAX_TEMP\<rparr> else p)"

definition init_seed :: "sampling \<Rightarrow> sampling" where
  "init_seed p = (if sp_seed p = Some (-1) then p\<lparr>sp_seed := None\<rparr> else p)"

definition init_buffer :: "sampling \<Rightarrow> sampling" where
  "init_buffer p = (if sp_stop p \<noteq> [] \<and> \<not> sp_include_stop_str_in_output p
     then p\<lparr>sp_output_text_buffer_length := Max (set (map length (sp_stop p))) - 1\<rparr> else p)"

definition init_greedy :: "sampling \<Rightarrow> sampling result" where
  "init_greedy p = (if sp_temperature p < SAMPLING_EPS
     then let p' = p\<lparr>sp_top_p := 1, sp_top_k := -1, sp_min_p := 0\<rparr> in bind_r (verify_greedy_sampling p') (\<lambda>_. Inr p') else Inr p)"

lemma post_init_steps: "sampling_post_init p = bind_r (init_best_of p) (\<lambda>p1. let p4 = init_buffer (init_seed (init_temperature p1)) in
    bind_r (verify_sampling_args p4) (\<lambda>_. bind_r (init_greedy p4) (\<lambda>p6. Inr (p6\<lparr>sp_all_stop_token_ids := set (sp_stop_token_ids p6)\<rparr>))))"
  unfolding sampling_post_init_def init_best_of_def init_temperature_def init_seed_def init_buffer_def init_greedy_def Let_def
  by (rule refl)

lemma init_steps_keep [simp]:
  "sp_temperature (init_seed p) = sp_temperature p" "sp_temperature (init_buffer p) = sp_temperature p"
  "sp_best_of (init_temperature p) = sp_best_of p" "sp_best_of (init_seed p) = sp_best_of p" "sp_best_of (init_buffer p) = sp_best_of p"
  "sp_real_n (init_temperature p) = sp_real_n p" "sp_real_n (init_seed p) = sp_real_n p" "sp_real_n (init_buffer p) = sp_real_n p"
  "sp_n (init_temperature p) = sp_n p" "sp_n (init_seed p) = sp_n p" "sp_n (init_buffer p) = sp_n p"
  "sp_output_kind (init_temperature p) = sp_output_kind p" "sp_output_kind (init_seed p) = sp_output_kind p"
  "sp_output_kind (init_buffer p) = sp_output_kind p" "sp_seed (init_buffer p) = sp_seed p"
  by (simp_all add: init_temperature_def init_seed_def init_buffer_def)

lemma init_best: "init_best_of p = Inr p1 \<Longrightarrow> sp_best_of p1 = Some b \<Longrightarrow> b \<noteq> 0 \<Longrightarrow> sp_n p1 = b \<and> (\<exists>k \<le> b. sp_real_n p1 = Some k)"
  by (auto simp: init_best_of_def split: option.splits if_splits)

lemma init_temp: "0 \<le> sp_temperature (init_temperature p) \<Longrightarrow> sp_temperature (init_temperature p) = 0 \<or> MAX_TEMP \<le> sp_temperature (init_temperature p)"
  by (auto simp: init_temperature_def)

lemma init_seed_some: "sp_seed (init_seed p) \<noteq> Some (-1)"
  by (simp add: init_seed_def)

lemma init_buffer_ok: "buffer_ok (init_buffer p)"
proof -
  define M where "M = Max (set (map length (sp_stop p)))"
  have "length w \<le> M" if "w \<in> set (sp_stop p)" for w
    unfolding M_def using that by (intro Max_ge) simp_all
  then have "\<forall>w \<in> set (sp_stop p). length w \<le> M - 1 + 1" by fastforce
  then show ?thesis by (simp add: buffer_ok_def init_buffer_def M_def)
qed

text \<open>
  C4. Accepted sampling parameters are well formed: whatever a client sends, \<open>__post_init__\<close> either raises or
  leaves values in their ranges, \<open>min_tokens\<close> within \<open>max_tokens\<close>, a consistent best-of, greedy sampling exactly
  at temperature zero, no temperature that would blow up, and a text buffer long enough for every stop string.
\<close>

theorem sampling_params_ok:
  assumes "sampling_post_init given = Inr p"
  shows "sampling_ok p"
proof -
  define p4 where "p4 p1 = init_buffer (init_seed (init_temperature p1))" for p1
  from assms obtain p1 p6 where b: "init_best_of given = Inr p1" and v: "verify_sampling_args (p4 p1) = Inr ()"
    and g: "init_greedy (p4 p1) = Inr p6" and p: "p = p6\<lparr>sp_all_stop_token_ids := set (sp_stop_token_ids p6)\<rparr>"
    by (auto simp: post_init_steps Let_def p4_def)
  let ?p = "p4 p1"
  note ok = verified [OF v]
  have f: "p6 = (if sp_temperature ?p < SAMPLING_EPS then ?p\<lparr>sp_top_p := 1, sp_top_k := -1, sp_min_p := 0\<rparr> else ?p)"
    and n: "sp_temperature ?p < SAMPLING_EPS \<Longrightarrow> \<not> sp_n ?p > 1"
    using g by (auto simp: init_greedy_def verify_greedy_sampling_def Let_def split: if_splits)
  have t: "sp_temperature ?p = 0 \<or> MAX_TEMP \<le> sp_temperature ?p"
    using ok(1) init_temp [of p1] by (simp add: p4_def ranges_ok_def)
  have "best_of_ok ?p" using init_best [OF b] ok(3) by (fastforce simp: best_of_ok_def p4_def)
  moreover have "buffer_ok ?p" "sp_seed ?p \<noteq> Some (-1)"
    using init_buffer_ok init_seed_some [of "init_temperature p1"] by (simp_all add: p4_def)
  moreover have "greedy_ok p"
    using t n ok(1) by (auto simp: p f greedy_ok_def ranges_ok_def SAMPLING_EPS_def MAX_TEMP_def)
  ultimately show ?thesis using ok(1,2)
    by (auto simp: sampling_ok_def p f ranges_ok_def limits_ok_def best_of_ok_def buffer_ok_def)
qed

lemma accepted_limits:
  assumes "sampling_post_init given = Inr p" and "sp_max_tokens p = Some k"
  shows "1 \<le> k" "sp_min_tokens p \<le> k"
proof -
  obtain p4 where "verify_sampling_args p4 = Inr ()" "sp_max_tokens p = sp_max_tokens p4" "sp_min_tokens p = sp_min_tokens p4"
    using assms(1) by (auto simp: post_init_steps init_greedy_def Let_def split: if_splits)
  with verified(2) assms(2) show "1 \<le> k" "sp_min_tokens p \<le> k" by (auto simp: limits_ok_def)
qed

text \<open>A temperature of a thousandth is raised, a stop string of four characters holds back three.\<close>

theorem sampling_params_ok_witness:
  "\<exists>p. sampling_post_init (default_sampling\<lparr>sp_temperature := 1 / 1000, sp_stop := [''stop'']\<rparr>) = Inr p
     \<and> sampling_ok p \<and> sp_temperature p = 1 / 100 \<and> sp_output_text_buffer_length p = 3"
proof -
  have "\<exists>p. sampling_post_init (default_sampling\<lparr>sp_temperature := 1 / 1000, sp_stop := [''stop'']\<rparr>) = Inr p
     \<and> sp_temperature p = 1 / 100 \<and> sp_output_text_buffer_length p = 3"
    by (simp add: sampling_post_init_def default_sampling_def verify_sampling_args_def MAX_TEMP_def SAMPLING_EPS_def)
  then show ?thesis using sampling_params_ok by blast
qed

end
