(* ===== verification/Engine.thy ===== *)
theory Engine
  imports Sched_Step Sampling
begin

text \<open>
  The engine around the scheduler (\<open>engine/llm_engine.py\<close>, \<open>engine/output_processor/single_step.py\<close>,
  \<open>outputs.py\<close>): one synchronous step schedules, hands the batch to the workers, appends the sampled
  tokens, stops and frees what is finished and builds the answers; requests are added and aborted between
  steps. The workers are an argument that maps a batch to samples; the detokenizer (it needs a tokenizer)
  is an argument that changes a sequence and says how many characters it added.

  Not here: multi-step and pipelined execution, the asynchronous output processor, embedding models,
  cached output objects, log probabilities beyond the sum that a sequence keeps.
\<close>

record sample =
  sm_parent_seq_id :: nat
  sm_output_token :: int
  sm_logprobs :: "int \<rightharpoonup> real"

type_synonym detokenizer = "(sequence \<Rightarrow> sampling \<Rightarrow> nat \<times> sequence) option"

record engine_config =
  ec_sched :: sched_config
  ec_detokenizer :: detokenizer
  ec_max_logprobs :: int
  ec_config_eos :: "int list option"

text \<open>\<open>en_params\<close> are the sampling parameters of the groups, \<open>en_next_group\<close> is the next free reference.\<close>

record engine =
  en_sched :: scheduler
  en_params :: "group_ref \<Rightarrow> sampling option"
  en_seq_counter :: nat
  en_next_group :: nat

definition get_params :: "engine \<Rightarrow> group_ref \<Rightarrow> sampling result" where
  "get_params e r = (case en_params e r of None \<Rightarrow> Inl AttributeError | Some p \<Rightarrow> Inr p)"

definition on_sched :: "(scheduler \<Rightarrow> scheduler result) \<Rightarrow> engine \<Rightarrow> engine result" where
  "on_sched f e = bind_r (f (en_sched e)) (\<lambda>s. Inr (e\<lparr>en_sched := s\<rparr>))"

definition en_group :: "engine \<Rightarrow> group_ref \<Rightarrow> seq_group" where
  "en_group e r = sc_groups (en_sched e) r"

definition en_upd :: "group_ref \<Rightarrow> (seq_group \<Rightarrow> seq_group) \<Rightarrow> engine \<Rightarrow> engine" where
  "en_upd r f e = e\<lparr>en_sched := upd_group r f (en_sched e)\<rparr>"

subsection \<open>Requests\<close>

definition validate_model_inputs :: "int list \<Rightarrow> unit result" where
  "validate_model_inputs prompt_ids = guard_r ValueError (prompt_ids \<noteq> [])"

definition create_sequence_group_with_sampling ::
    "engine_config \<Rightarrow> string \<Rightarrow> sequence \<Rightarrow> sampling \<Rightarrow> real \<Rightarrow> lora_request option \<Rightarrow> int \<Rightarrow> (seq_group \<times> sampling) result" where
  "create_sequence_group_with_sampling ec request_id q p arrival_time lora priority =
     bind_r (guard_r ValueError (\<not> ((\<exists>k \<in> set_option (sp_logprobs p). k \<noteq> 0 \<and> k > ec_max_logprobs ec)
         \<or> (\<exists>k \<in> set_option (sp_prompt_logprobs p). k \<noteq> 0 \<and> k > ec_max_logprobs ec)))) (\<lambda>_.
     let p1 = update_from_generation_config (ec_config_eos ec) (sq_eos_token_id q) p in
       Inr (new_group request_id [q] arrival_time (Some (nat (sp_n p1))) lora None priority, p1))"

definition add_processed_request ::
    "engine_config \<Rightarrow> string \<Rightarrow> int list \<Rightarrow> int option \<Rightarrow> sampling \<Rightarrow> real \<Rightarrow> lora_request option \<Rightarrow> int \<Rightarrow> engine \<Rightarrow> engine result" where
  "add_processed_request ec request_id prompt_ids eos_token_id p arrival_time lora priority e =
     bind_r (validate_model_inputs prompt_ids) (\<lambda>_.
     let q = (new_sequence (en_seq_counter e) prompt_ids)\<lparr>sq_eos_token_id := eos_token_id\<rparr>; r = en_next_group e in
     bind_r (create_sequence_group_with_sampling ec request_id q p arrival_time lora priority) (\<lambda>(g, p1).
       Inr (e\<lparr>en_sched := add_seq_group r (upd_group r (\<lambda>_. g) (en_sched e)), en_params := (en_params e)(r := Some p1),
         en_seq_counter := en_seq_counter e + 1, en_next_group := r + 1\<rparr>)))"

definition add_request ::
    "engine_config \<Rightarrow> string \<Rightarrow> int list \<Rightarrow> int option \<Rightarrow> sampling \<Rightarrow> real \<Rightarrow> lora_request option \<Rightarrow> int \<Rightarrow> engine \<Rightarrow> engine result" where
  "add_request ec request_id prompt_ids eos_token_id p arrival_time lora priority e =
     bind_r (guard_r ValueError (\<not> (lora \<noteq> None \<and> \<not> lora_enabled (ec_sched ec)))) (\<lambda>_.
     bind_r (guard_r ValueError (\<not> (priority \<noteq> 0 \<and> cf_policy (ec_sched ec) \<noteq> ''priority''))) (\<lambda>_.
       add_processed_request ec request_id prompt_ids eos_token_id p arrival_time lora priority e))"

definition abort_request :: "string set \<Rightarrow> engine \<Rightarrow> engine result" where
  "abort_request ids = on_sched (abort_seq_group ids)"

definition has_unfinished_requests :: "engine \<Rightarrow> bool" where
  "has_unfinished_requests e = has_unfinished_seqs (en_sched e)"

subsection \<open>The output processor\<close>

definition detokenize_and_stop :: "engine_config \<Rightarrow> sampling \<Rightarrow> lora_request option \<Rightarrow> sequence \<Rightarrow> sequence result" where
  "detokenize_and_stop ec p lora q =
     (let (new_char_count, q1) = (case ec_detokenizer ec of
          Some f \<Rightarrow> if sp_detokenize p then f q p else (0, q) | None \<Rightarrow> (0, q)) in
      maybe_stop_sequence (cf_max_model_len (ec_sched ec)) new_char_count p lora q1)"

text \<open>The usual case: one sequence, one sample.\<close>

definition process_one :: "engine_config \<Rightarrow> sampling \<Rightarrow> group_ref \<Rightarrow> sample list \<Rightarrow> engine \<Rightarrow> engine result" where
  "process_one ec p r samples e =
     bind_r (nth_r samples 0) (\<lambda>sm.
     bind_r (nth_r (sg_seqs (en_group e r)) 0) (\<lambda>q.
     bind_r (sq_append_token (sm_output_token sm) (sm_logprobs sm) q) (\<lambda>q1.
     bind_r (detokenize_and_stop ec p (sg_lora (en_group e r)) q1) (\<lambda>q2.
     let e1 = en_upd r (\<lambda>g. g\<lparr>sg_seqs := q2 # tl (sg_seqs g)\<rparr>) e in
       if sq_finished q2 then on_sched (free_seq q2) e1 else Inr e1))))"

text \<open>Several samples: the children of a parent, each with the id of the parent; the last one is the parent itself.\<close>

type_synonym child = "sequence \<times> nat"

fun fork_children :: "sequence \<Rightarrow> sample list \<Rightarrow> nat \<Rightarrow> (child list \<times> nat) result" where
  "fork_children parent [] seq_counter = Inr ([], seq_counter)"
| "fork_children parent (sm # sms) seq_counter =
     bind_r (sq_append_token (sm_output_token sm) (sm_logprobs sm) (sq_fork seq_counter parent)) (\<lambda>c.
     bind_r (fork_children parent sms (seq_counter + 1)) (\<lambda>(cs, k). Inr ((c, sq_id parent) # cs, k)))"

definition process_parent :: "group_ref \<Rightarrow> sample list \<Rightarrow> sequence \<Rightarrow> child list \<times> engine \<Rightarrow> (child list \<times> engine) result" where
  "process_parent r samples parent x = (let (child_seqs, e) = x;
       child_samples = filter (\<lambda>sm. sm_parent_seq_id sm = sq_id parent) samples in
     if child_samples = [] then
       bind_r (sg_remove (sq_id parent) (en_group e r)) (\<lambda>g.
       bind_r (on_sched (free_seq (set_status FINISHED_ABORTED parent)) (en_upd r (\<lambda>_. g) e)) (\<lambda>e1.
         Inr (child_seqs, e1)))
     else
       bind_r (fork_children parent (butlast child_samples) (en_seq_counter e)) (\<lambda>(cs, k).
       bind_r (sq_append_token (sm_output_token (last child_samples)) (sm_logprobs (last child_samples)) parent) (\<lambda>parent1.
         Inr (child_seqs @ cs @ [(parent1, sq_id parent)], e\<lparr>en_seq_counter := k\<rparr>))))"

definition is_parent :: "child \<Rightarrow> bool" where
  "is_parent c \<longleftrightarrow> sq_id (fst c) = snd c"

definition put_seq :: "sequence \<Rightarrow> seq_group \<Rightarrow> seq_group" where
  "put_seq q g = g\<lparr>sg_seqs := map (\<lambda>x. if sq_id x = sq_id q then q else x) (sg_seqs g)\<rparr>"

definition stop_child ::
    "engine_config \<Rightarrow> sampling \<Rightarrow> group_ref \<Rightarrow> child \<Rightarrow> engine \<Rightarrow> (child \<times> engine) result" where
  "stop_child ec p r c e =
     bind_r (detokenize_and_stop ec p (sg_lora (en_group e r)) (fst c)) (\<lambda>q.
       Inr ((q, snd c), if is_parent c then en_upd r (put_seq q) e else e))"

definition add_child :: "group_ref \<Rightarrow> child \<Rightarrow> engine \<Rightarrow> engine result" where
  "add_child r c e = (if is_parent c then Inr e
     else
       bind_r (sg_add (fst c) (en_group e r)) (\<lambda>g.
       let e1 = en_upd r (\<lambda>_. g) e in
       if sq_finished (fst c) then Inr e1
       else bind_r (sg_find (snd c) g) (\<lambda>parent. on_sched (sc_fork_seq parent (fst c)) e1)))"

definition free_parent :: "child \<Rightarrow> engine \<Rightarrow> engine result" where
  "free_parent c e = (if is_parent c \<and> sq_finished (fst c) then on_sched (free_seq (fst c)) e else Inr e)"

definition process_many :: "engine_config \<Rightarrow> sampling \<Rightarrow> group_ref \<Rightarrow> sample list \<Rightarrow> engine \<Rightarrow> engine result" where
  "process_many ec p r samples e =
     bind_r (fold_r (process_parent r samples) (get_seqs RUNNING (en_group e r)) ([], e)) (\<lambda>(child_seqs, e1).
     bind_r (map_r (stop_child ec p r) child_seqs e1) (\<lambda>(child_seqs1, e2).
     bind_r (fold_r (add_child r) child_seqs1 e2) (fold_r free_parent child_seqs1)))"

definition process_outputs :: "engine_config \<Rightarrow> group_ref \<Rightarrow> sample list \<Rightarrow> engine \<Rightarrow> engine result" where
  "process_outputs ec r samples e =
     bind_r (get_params e r) (\<lambda>p. if sp_n p = 1 then process_one ec p r samples e else process_many ec p r samples e)"

subsection \<open>Answers\<close>

record completion =
  co_index :: nat
  co_text :: string
  co_token_ids :: "int list"
  co_finish_reason :: "string option"
  co_stop_reason :: "(int + string) option"

record request_output =
  rq_request_id :: string
  rq_prompt_token_ids :: "int list option"
  rq_outputs :: "completion list"
  rq_finished :: bool

text \<open>The positions of the sequences that are returned: the best \<open>n\<close> by log probability, earlier ones first on a tie.\<close>

definition top_n_seqs :: "sampling \<Rightarrow> sequence list \<Rightarrow> nat list" where
  "top_n_seqs p seqs =
     (if length seqs = 1 then [0]
      else take (nat (case sp_real_n p of Some k \<Rightarrow> if k \<noteq> 0 then k else sp_n p | None \<Rightarrow> sp_n p))
        (sort_key (\<lambda>i. - sd_logprob (sq_data (seqs ! i))) [0..<length seqs]))"

text \<open>The answer for one sequence; the second part tells whether the prompt may still be included.\<close>

definition completion_of :: "sampling \<Rightarrow> nat \<Rightarrow> sequence list \<Rightarrow> ((completion \<times> bool) \<times> sequence list) result" where
  "completion_of p i seqs = (let q = seqs ! i; delta = (sp_output_kind p = DELTA);
       (text, q1) = get_output_text_to_return (sp_output_text_buffer_length p) delta q;
       (ids, q2) = get_output_token_ids_to_return delta q1 in
     bind_r ids (\<lambda>ids.
     let token_ids = (case ids of Inl t \<Rightarrow> [t] | Inr ts \<Rightarrow> ts) in
       Inr ((\<lparr>co_index = i, co_text = text, co_token_ids = token_ids, co_finish_reason = get_finished_reason (sq_status q),
           co_stop_reason = sq_stop_reason q\<rparr>, \<not> (delta \<and> sq_output_len q > int (length token_ids))), seqs[i := q2])))"

definition from_seq_group :: "real \<Rightarrow> group_ref \<Rightarrow> engine \<Rightarrow> (request_output option \<times> engine) result" where
  "from_seq_group now r e =
     (case en_params e r of None \<Rightarrow> Inl ValueError | Some p \<Rightarrow>
       let g = en_group e r; finished = sg_finished g in
       if sp_output_kind p = FINAL_ONLY \<and> \<not> finished then Inr (None, e)
       else
         bind_r (map_r (completion_of p) (top_n_seqs p (sg_seqs g)) (sg_seqs g)) (\<lambda>(outs, seqs).
         bind_r (if list_all snd outs then bind_r (nth_r seqs 0) (\<lambda>q. Inr (Some (sd_prompt (sq_data q)))) else Inr None) (\<lambda>prompt.
           Inr (Some \<lparr>rq_request_id = sg_request_id g, rq_prompt_token_ids = prompt, rq_outputs = map fst outs, rq_finished = finished\<rparr>,
             en_upd r (\<lambda>g. set_finished_time (if finished then Some now else None) (g\<lparr>sg_seqs := seqs\<rparr>)) e))))"

definition answer :: "real \<Rightarrow> bool \<Rightarrow> group_ref \<Rightarrow> request_output list \<times> engine \<Rightarrow> (request_output list \<times> engine) result" where
  "answer now first_token r x = (let (answers, e) = x in
     bind_r (if first_token
       then bind_r (maybe_set_first_token_time now (en_group e r)) (\<lambda>g. Inr (en_upd r (\<lambda>_. g) e)) else Inr e) (\<lambda>e1.
     bind_r (from_seq_group now r e1) (\<lambda>(a, e2). Inr (case a of None \<Rightarrow> answers | Some out \<Rightarrow> answers @ [out], e2))))"

subsection \<open>One step\<close>

text \<open>The groups of the batch by their index: finished before, finished now.\<close>

type_synonym batch_state = "nat list \<times> nat list \<times> engine"

definition process_group ::
    "engine_config \<Rightarrow> sample list list \<Rightarrow> metadata list \<Rightarrow> scheduled \<Rightarrow> nat \<Rightarrow> batch_state \<Rightarrow> batch_state result" where
  "process_group ec outputs mds gs i x = (let (before, now, e) = x in
     bind_r (nth_r mds i) (\<lambda>md.
     bind_r (nth_r gs i) (\<lambda>(r, _).
     if sg_finished (en_group e r) then Inr (before @ [i], now, e)
     else
       bind_r (nth_r outputs i) (\<lambda>samples.
       bind_r (update_num_computed_tokens (nat (meta_chunk_size md)) (en_group e r)) (\<lambda>g.
       let e1 = en_upd r (\<lambda>_. g) e in
       bind_r (if meta_do_sample md then process_outputs ec r samples e1 else Inr e1) (\<lambda>e2.
         Inr (before, if sg_finished (en_group e2 r) then now @ [i] else now, e2)))))))"

definition answer_ignored :: "real \<Rightarrow> group_ref \<Rightarrow> request_output list \<times> engine \<Rightarrow> (request_output list \<times> engine) result" where
  "answer_ignored now r x =
     (if (\<exists>p \<in> set_option (en_params (snd x) r). sp_output_kind p = DELTA) \<and> \<not> sg_finished (en_group (snd x) r) then Inr x
      else answer now False r x)"

definition process_model_outputs ::
    "engine_config \<Rightarrow> real \<Rightarrow> sample list list \<Rightarrow> metadata list \<Rightarrow> sched_outputs \<Rightarrow> engine
      \<Rightarrow> (request_output list \<times> engine) result" where
  "process_model_outputs ec now outputs mds o1 e =
     (let gs = so_groups o1; ref = (\<lambda>i. fst (gs ! i)) in
      bind_r (guard_r AssertionError (length mds = length gs)) (\<lambda>_.
      bind_r (fold_r (process_group ec outputs mds gs) [0..<length mds] ([], [], e)) (\<lambda>(before, finished, e1).
      bind_r (fold_r (\<lambda>i. answer now True (ref i)) finished ([], e1)) (\<lambda>(answers, e2).
      bind_r (if finished \<noteq> [] then on_sched free_finished_seq_groups e2 else Inr e2) (\<lambda>e3.
      bind_r (fold_r (\<lambda>i. answer now True (ref i)) (filter (\<lambda>i. i \<notin> set before \<and> i \<notin> set finished) [0..<length mds])
        (answers, e3)) (fold_r (answer_ignored now) (so_ignored o1)))))))"

text \<open>
  \<open>now\<close>, \<open>start\<close>, \<open>elapsed\<close> and \<open>later\<close> are readings of the clock, \<open>worker\<close> maps the batch, the
  scheduler's outputs and the requests that finished since the last step to samples.
\<close>

type_synonym worker = "metadata list \<Rightarrow> sched_outputs \<Rightarrow> string list \<Rightarrow> sample list list"

definition engine_step ::
    "engine_config \<Rightarrow> worker \<Rightarrow> (nat \<Rightarrow> real) \<Rightarrow> real \<Rightarrow> real \<Rightarrow> real \<Rightarrow> engine \<Rightarrow> (request_output list \<times> engine) result" where
  "engine_step ec worker now start elapsed later e =
     bind_r (sc_schedule (ec_sched ec) None now start elapsed (en_sched e)) (\<lambda>(mds, o1, _, s1).
     let (outputs, s2) = (if outputs_empty o1 then ([], s1)
         else let (ids, s2) = get_and_reset_finished_requests_ids s1 in (worker mds o1 ids, s2)) in
       process_model_outputs ec later outputs mds o1 (e\<lparr>en_sched := s2\<rparr>))"

end
