(* ===== verification/Sched_Memory.thy ===== *)
theory Sched_Memory
  imports Sched_State Manager_Steps "HOL-Library.Sublist"
begin

text \<open>
  What the scheduler relies on of the block manager, when nothing is swapped out and there are no
  encoders: \<open>kv_at sz m C\<close> says that the memory \<open>m\<close> is consistent and holds the tokens \<open>C i\<close> for
  sequence \<open>i\<close>, and nothing else. Each operation is total where the scheduler calls it.
\<close>

definition kv_at :: "nat \<Rightarrow> mstate \<Rightarrow> (nat \<rightharpoonup> int list) \<Rightarrow> bool" where
  "kv_at sz m C \<longleftrightarrow> (\<exists>L. mg_at sz L {} m) \<and> contents m = (\<lambda>k. case k of Inl i \<Rightarrow> C i | Inr _ \<Rightarrow> None)"

lemma kv_atE:
  assumes "kv_at sz m C"
  obtains h M L where "m = (h, M)" and "mg_at sz L {} (h, M)" and "\<And>i. contents (h, M) (Inl i) = C i"
    and "\<And>r. contents (h, M) (Inr r) = None"
  using assms by (cases m) (auto simp: kv_at_def)

lemma kv_atI:
  assumes "mg_at sz L {} m" and "contents m = D" and "\<And>i. D (Inl i) = C i" and "\<And>r. D (Inr r) = None"
  shows "kv_at sz m C"
  using assms unfolding kv_at_def by (auto split: sum.split)

lemma kv_tables:
  assumes mg: "mg_at sz L {} (h, M)" and C: "contents (h, M) (Inl i) = c"
  shows "c = None \<longleftrightarrow> bm_tables M i = None"
    and "c = Some toks \<Longrightarrow> toks \<noteq> [] \<Longrightarrow> \<exists>T. bm_tables M i = Some T \<and> blocks_of T \<noteq> []"
    and "bm_tables M i = Some T \<Longrightarrow> set (blocks_of T) \<subseteq> L"
proof -
  show "c = None \<longleftrightarrow> bm_tables M i = None" using contents_None [OF mg, of "Inl i"] C by simp
  show "set (blocks_of T) \<subseteq> L" if "bm_tables M i = Some T" using mg_atD(6) [OF mg, of "Inl i" T] that by auto
  assume c: "c = Some toks" "toks \<noteq> []"
  then obtain T where T: "bm_tables M i = Some T" using C by (auto simp: contents_def)
  with c C mg_table(1) [OF mg, of "Inl i" T] have "toks_of h (blocks_of T) \<noteq> []" by simp
  then show "\<exists>T. bm_tables M i = Some T \<and> blocks_of T \<noteq> []" using T by (auto simp: toks_of_def)
qed

lemma kv_init:
  assumes "init_block_manager H sz ng nc wm None False [] = Inr m" and "0 < sz" "0 < ng" "0 < nc"
  shows "kv_at sz m Map.empty"
  using init_block_manager_inv [OF assms] by (auto simp: kv_at_def split: sum.split)

lemma kv_can_allocate:
  assumes "kv_at sz m C" and "get_seqs WAITING g \<noteq> []"
  shows "\<exists>st. can_allocate g la (snd m) = Inr st"
  using assms can_allocate_eq by (elim kv_atE) fastforce

lemma kv_allocate:
  assumes kv: "kv_at sz m C" and ok: "can_allocate g la (snd m) = Inr OK" and q: "get_seqs WAITING g = [q]"
    and new: "C (sq_id q) = None" and enc: "sg_encoder_seq g = None"
  shows "\<exists>m'. allocate g m = Inr m' \<and> kv_at sz m' (C(sq_id q \<mapsto> sq_tokens q))"
proof -
  from kv obtain h M L where m: "m = (h, M)" and mg: "mg_at sz L {} (h, M)"
    and C: "\<And>i. contents (h, M) (Inl i) = C i" "\<And>r. contents (h, M) (Inr r) = None" by (rule kv_atE) blast
  have "bm_watermark_blocks M \<le> int (gpu_free m) - int (group_blocks sz g la)"
    using can_allocate_eq [OF mg, of g la] q ok by (simp add: m split: if_splits)
  then have "group_blocks sz g la \<le> gpu_free m" using mg_atD(12) [OF mg] by simp
  moreover have "bm_tables M (sq_id q) = None" using new kv_tables(1) [OF mg C(1)] by simp
  moreover have "bm_cross M (sg_request_id g) = None"
    using C(2) contents_None [OF mg, of "Inr (sg_request_id g)"] by simp
  ultimately obtain m' where a: "allocate g m = Inr m'"
    using allocate_total [OF mg [folded m], of g la] q by (auto simp: m)
  obtain L' where L': "mg_at sz L' {} m'" "contents m' = spec_allocate g (contents m)"
    using allocate_ok [OF mg [folded m] a] by blast
  have "kv_at sz m' (C(sq_id q \<mapsto> sq_tokens q))"
    by (rule kv_atI [OF L']) (auto simp: spec_allocate_def put_all_def waiting_keys_def q enc C m Let_def)
  with a show ?thesis by blast
qed

lemma kv_can_append:
  assumes "kv_at sz m C" and "get_seqs RUNNING g = [q]" and "C (sq_id q) \<noteq> None"
  shows "\<exists>b. can_append_slots g la (snd m) = Inr b"
  using assms can_append_eq [of sz _ "{}" _ _ g la] by (elim kv_atE) (auto simp flip: kv_tables(1))

lemma kv_append:
  assumes kv: "kv_at sz m C" and ok: "can_append_slots g la (snd m) = Inr True" and q: "get_seqs RUNNING g = [q]"
    and C: "C (sq_id q) = Some toks" "toks \<noteq> []"
  shows "\<exists>cs' m'. append_seq la q (cs, m) = Inr (cs', m')
    \<and> kv_at sz m' (C(sq_id q \<mapsto> toks @ drop (length toks) (sq_tokens q)))"
proof -
  from kv obtain h M L where m: "m = (h, M)" and mg: "mg_at sz L {} (h, M)"
    and D: "\<And>i. contents (h, M) (Inl i) = C i" "\<And>r. contents (h, M) (Inr r) = None" by (rule kv_atE) blast
  from kv_tables(2) [OF mg D(1) C] obtain T where T: "bm_tables M (sq_id q) = Some T" "blocks_of T \<noteq> []" by blast
  have TL: "set (blocks_of T) \<subseteq> L" by (rule kv_tables(3) [OF mg D(1) T(1)])
  have "touch M la q \<le> gpu_free (h, M)" using can_append_eq [OF mg, of g la] q T ok by (simp add: m)
  then have "touched T (length (get_unseen_token_ids T (sq_tokens q)) + la) \<le> gpu_free (h, M)"
    using T by (simp add: touch_def)
  from append_slots_total [OF mg T(1) TL T(2) this] obtain cows m' where a: "append_slots q la (h, M) = Inr (cows, m')"
    by auto
  from append_slots_ok [OF mg T(1) TL a] obtain L' toks' where L': "mg_at sz L' {} m'"
    "contents (h, M) (Inl (sq_id q)) = Some toks'"
    "contents m' = (contents (h, M))(Inl (sq_id q) \<mapsto> toks' @ drop (length toks') (sq_tokens q))" by blast
  have "toks' = toks" using L'(2) D(1) C by simp
  then have "kv_at sz m' (C(sq_id q \<mapsto> toks @ drop (length toks) (sq_tokens q)))"
    by (intro kv_atI [OF L'(1,3)]) (auto simp: D)
  with a show ?thesis by (simp add: append_seq_def m)
qed

lemma kv_free:
  assumes kv: "kv_at sz m C"
  shows "\<exists>m'. free q m = Inr m' \<and> kv_at sz m' (C(sq_id q := None))"
proof -
  from kv obtain h M L where m: "m = (h, M)" and mg: "mg_at sz L {} (h, M)"
    and D: "\<And>i. contents (h, M) (Inl i) = C i" "\<And>r. contents (h, M) (Inr r) = None" by (rule kv_atE) blast
  show ?thesis
  proof (cases "bm_tables M (sq_id q)")
    case None
    then have "C(sq_id q := None) = C" using kv_tables(1) [OF mg D(1)] by (intro fun_upd_idem) simp
    with None kv show ?thesis by (simp add: free_def m)
  next
    case (Some T)
    have TL: "set (blocks_of T) \<subseteq> L" by (rule kv_tables(3) [OF mg D(1) Some])
    from free_total [OF mg Some TL] obtain m' where f: "free q (h, M) = Inr m'" by blast
    note a = free_ok [OF mg Some TL f]
    have "kv_at sz m' (C(sq_id q := None))"
      by (rule kv_atI [of _ "L - set (blocks_of T)" _ "(contents (h, M))(Inl (sq_id q) := None)"]) (use a in \<open>auto simp: D\<close>)
    with f show ?thesis by (simp add: m)
  qed
qed

lemma kv_table:
  assumes kv: "kv_at sz m C" and C: "C (sq_id q) \<noteq> None"
  shows "\<exists>ids. get_block_table q (snd m) = Inr ids"
proof -
  from kv obtain h M L where m: "m = (h, M)" and mg: "mg_at sz L {} (h, M)"
    and D: "\<And>i. contents (h, M) (Inl i) = C i" by (rule kv_atE) blast
  have "bm_tables M (sq_id q) \<noteq> None" using C kv_tables(1) [OF mg D] by simp
  then show ?thesis by (auto simp: get_block_table_def m)
qed

lemma kv_access: "kv_at sz m C \<Longrightarrow> access_all_blocks_in_seq q now m = Inr m"
  by (elim kv_atE) (use mg_atD(4) in \<open>auto simp: access_all_blocks_in_seq_def\<close>)

lemma kv_mark:
  assumes "kv_at sz m C"
  shows "mark_blocks_as_computed m = Inr m"
proof -
  from assms obtain h M L where m: "m = (h, M)" and mg: "mg_at sz L {} (h, M)" by (rule kv_atE) blast
  obtain A K where "cg_gpu (bm_alloc M) = NaiveBlockAllocator A" by (rule cg_invE [OF mg_atD(1) [OF mg]])
  then show ?thesis by (simp add: mark_blocks_as_computed_def cg_mark_blocks_as_computed_def m)
qed

end
