(* ===== verification/Sched_Queues.thy ===== *)
theory Sched_Queues
  imports Sched_Step
begin

text \<open>
  No request is lost or duplicated: every loop of the scheduler moves references between queues
  and outputs, and the operations on memory leave the queues alone.
\<close>

definition queues :: "scheduler \<Rightarrow> group_ref list \<times> group_ref list \<times> group_ref list \<times> group_ref list" where
  "queues s = (sc_waiting s, sc_running s, sc_swapped s, sc_async_stopped s)"

definition all_refs :: "scheduler \<Rightarrow> group_ref multiset" where
  "all_refs s = mset (sc_waiting s) + mset (sc_running s) + mset (sc_swapped s) + mset (sc_async_stopped s)"

lemma queues_upd [simp]: "queues (upd_group r f s) = queues s" "queues (s\<lparr>sc_mem := m\<rparr>) = queues s"
    "queues (s\<lparr>sc_num_preemption := n\<rparr>) = queues s" "queues (note_finished r s) = queues s"
  by (simp_all add: queues_def upd_group_def note_finished_def)

lemma queuesD:
  "queues s' = queues s \<Longrightarrow> sc_waiting s' = sc_waiting s \<and> sc_running s' = sc_running s \<and> sc_swapped s' = sc_swapped s
    \<and> sc_async_stopped s' = sc_async_stopped s"
  by (simp add: queues_def)

lemma on_mem_queues: "on_mem f s = Inr s' \<Longrightarrow> queues s' = queues s"
  by (auto simp: on_mem_def)

lemma append_slots_queues: "sc_append_slots cf c r (cs, s) = Inr (cs', s') \<Longrightarrow> queues s' = queues s"
  by (auto simp: sc_append_slots_def Let_def)

lemma swap_in_queues: "sc_swap_in r (bs, s) = Inr (bs', s') \<Longrightarrow> queues s' = queues s"
  by (auto simp: sc_swap_in_def)

lemma preempt_queues:
  assumes "preempt cf m r (bs, s) = Inr (mode, bs', s')"
  shows "queues s' = queues s"
proof -
  have "queues s2 = queues s" if "preempt_by_recompute r (s\<lparr>sc_num_preemption := n\<rparr>) = Inr s2" for s2 n
    using that by (auto simp: preempt_by_recompute_def free_seq_def Let_def dest: on_mem_queues)
  moreover have "queues s2 = queues s" if "sc_swap_out r (bs, s\<lparr>sc_num_preemption := n\<rparr>) = Inr (bs2, s2)" for bs2 s2 n
    using that by (auto simp: sc_swap_out_def Let_def)
  ultimately show ?thesis using assms by (auto simp: preempt_def Let_def split: preemption_mode.splits)
qed

subsection \<open>The loops\<close>

definition ro_refs :: "running_outputs \<Rightarrow> group_ref multiset" where
  "ro_refs out = mset (map fst (ro_decode out)) + mset (map fst (ro_prefill out)) + mset (ro_preempted out)
     + mset (ro_swapped_out out)"

definition wo_refs :: "swapped_outputs \<Rightarrow> group_ref multiset" where
  "wo_refs out = mset (map fst (wo_decode out)) + mset (map fst (wo_prefill out)) + mset (wo_infeasible out)"

definition po_refs :: "prefill_outputs \<Rightarrow> group_ref multiset" where
  "po_refs out = mset (map fst (po_groups out)) + mset (po_ignored out)"

lemma no_refs [simp]: "ro_refs (empty_running\<lparr>ro_lookahead := n\<rparr>) = {#}" "ro_refs empty_running = {#}"
    "wo_refs empty_swapped = {#}" "po_refs empty_prefills = {#}" "wo_refs (w\<lparr>wo_lookahead := n\<rparr>) = wo_refs w"
    "po_refs (p\<lparr>po_lookahead := n\<rparr>) = po_refs p"
  by (simp_all add: ro_refs_def wo_refs_def po_refs_def empty_running_def empty_swapped_def empty_prefills_def)

lemma preempt_victim_refs:
  assumes "preempt_victim cf None v (s, b, l, out) = Inr (s', b', l', out')"
  shows "queues s' = queues s \<and> ro_refs out' = add_mset v (ro_refs out)"
  using assms by (auto simp: preempt_victim_def ro_refs_def Let_def dest: preempt_queues split: if_splits)

lemma release_share_eq:
  obtains b' l' where "release_share r n (s, b, l, out) = (s, b', l', out)"
  by (simp add: release_share_def Let_def)

lemma make_room_refs:
  assumes "make_room cf None c r n queue (s, b, l, out) = Inr (ok, queue', s', b', l', out')"
  shows "queues s' = queues s
    \<and> mset queue' + ro_refs out' + (if ok then {#r#} else {#}) = add_mset r (mset queue + ro_refs out)"
  using assms
proof (induction "length queue" arbitrary: queue s b l out)
  case 0
  then obtain fits where f: "sc_can_append_slots cf c r s = Inr fits"
    by (subst (asm) make_room.simps) auto
  show ?case
  proof (cases fits)
    case False
    obtain b1 l1 where e: "release_share r n (s, b, l, out) = (s, b1, l1, out)" by (rule release_share_eq)
    from "0.prems" "0.hyps" False f have "preempt_victim cf None r (s, b1, l1, out) = Inr (s', b', l', out')" "\<not> ok" "queue' = []"
      by (subst (asm) (1) make_room.simps, auto simp: e)+
    with preempt_victim_refs "0.hyps" show ?thesis by force
  qed (use "0.prems" f in \<open>subst (asm) make_room.simps, auto\<close>)
next
  case (Suc k)
  then have ne: "queue \<noteq> []" by auto
  from Suc.prems obtain fits where f: "sc_can_append_slots cf c r s = Inr fits"
    by (subst (asm) make_room.simps) auto
  show ?case
  proof (cases fits)
    case False
    obtain b1 l1 where e: "release_share r n (s, b, l, out) = (s, b1, l1, out)" by (rule release_share_eq)
    from Suc.prems False f ne obtain s1 b2 l2 out1 where
      p: "preempt_victim cf None (last queue) (s, b1, l1, out) = Inr (s1, b2, l2, out1)" and
      m: "make_room cf None c r n (butlast queue) (s1, b2, l2, out1) = Inr (ok, queue', s', b', l', out')"
      by (subst (asm) make_room.simps) (auto simp: e)
    have "mset queue = add_mset (last queue) (mset (butlast queue))"
      using ne by (metis append_butlast_last_id mset.simps add_mset_add_single mset_append)
    with Suc.hyps(1) [OF _ m] Suc.hyps(2) preempt_victim_refs [OF p] show ?thesis by simp
  qed (use Suc.prems f in \<open>subst (asm) make_room.simps, auto\<close>)
qed

lemma schedule_group_refs:
  assumes "schedule_group cf c r n (s, b, l, out) = Inr (s', b', l', out')"
  shows "queues s' = queues s \<and> ro_refs out' = add_mset r (ro_refs out)"
  using assms by (auto simp: schedule_group_def ro_refs_def Let_def dest!: append_slots_queues split: if_splits)

lemma running_loop_refs:
  assumes "running_loop cf None c queue (s, b, l, out) = Inr (queue', s', b', l', out')"
  shows "queues s' = queues s \<and> mset queue' + ro_refs out' = mset queue + ro_refs out"
  using assms
proof (induction "length queue" arbitrary: queue s b l out rule: less_induct)
  case less
  show ?case
  proof (cases queue)
    case (Cons r rest)
    from less.prems obtain n where n: "get_num_new_tokens cf (sc_groups s r) RUNNING c b = Inr n"
      unfolding Cons running_loop.simps by auto
    show ?thesis
    proof (cases "n = 0")
      case True
      with less.prems n show ?thesis unfolding Cons running_loop.simps by auto
    next
      case False
      with less.prems n obtain ok queue1 s1 b1 l1 out1 where
        m: "make_room cf None c r n rest (s, b, l, out) = Inr (ok, queue1, s1, b1, l1, out1)" and
        next1: "(if ok then bind_r (schedule_group cf c r n (s1, b1, l1, out1)) (running_loop cf None c queue1)
           else running_loop cf None c queue1 (s1, b1, l1, out1)) = Inr (queue', s', b', l', out')"
        unfolding Cons running_loop.simps by (auto split: sum.splits)
      note r1 = make_room_refs [OF m]
      have len: "length queue1 < length queue" using make_room_shrinks [OF m] by (simp add: Cons)
      show ?thesis
      proof (cases ok)
        case True
        with next1 obtain s2 b2 l2 out2 where
          g: "schedule_group cf c r n (s1, b1, l1, out1) = Inr (s2, b2, l2, out2)" and
          rest: "running_loop cf None c queue1 (s2, b2, l2, out2) = Inr (queue', s', b', l', out')" by auto
        from less.hyps [OF len rest] schedule_group_refs [OF g] r1 True Cons show ?thesis by simp
      next
        case False
        with next1 have rest: "running_loop cf None c queue1 (s1, b1, l1, out1) = Inr (queue', s', b', l', out')" by simp
        from less.hyps [OF len rest] r1 False Cons show ?thesis by simp
      qed
    qed
  qed (use less.prems in simp)
qed

lemma swap_group_in_refs:
  assumes "swap_group_in cf c r n k (s, b, l, out) = Inr (s', b', l', out')"
  shows "queues s' = queues s \<and> wo_refs out' = add_mset r (wo_refs out)"
  using assms
  by (auto simp: swap_group_in_def wo_refs_def Let_def dest!: append_slots_queues swap_in_queues split: if_splits)

lemma swapped_loop_refs:
  assumes "swapped_loop cf c queue leftover (s, b, l, out) = Inr (queue', leftover', s', b', l', out')"
  shows "queues s' = queues s \<and> mset queue' + mset leftover' + wo_refs out' = mset queue + mset leftover + wo_refs out"
  using assms
proof (induction queue arbitrary: leftover s b l out)
  case (Cons r queue)
  let ?goal = "\<lambda>queue1 leftover1 x1. swapped_loop cf c queue1 leftover1 x1 = Inr (queue', leftover', s', b', l', out')"
  from Cons.prems obtain p status m where
    c: "can_swap_in (sc_groups s r) (get_num_lookahead_slots cf p c) (sc_mem s) = Inr (status, m)" and
    step: "(if status = LATER then Inr (r # queue, leftover, s\<lparr>sc_mem := m\<rparr>, b, l, out)
     else if status = NEVER then swapped_loop cf c queue leftover
         (upd_group r ignore_all (s\<lparr>sc_mem := m\<rparr>), b, l, out\<lparr>wo_infeasible := wo_infeasible out @ [r]\<rparr>)
     else bind_r (lora_full cf (sc_groups s r) l) (\<lambda>full.
       if full then swapped_loop cf c queue (r # leftover) (s\<lparr>sc_mem := m\<rparr>, b, l, out)
       else bind_r (get_num_new_tokens cf (sc_groups s r) SWAPPED c b) (\<lambda>n.
         bind_r (if n = 0 then Inr False else can_schedule n (int (get_max_num_running_seqs (sc_groups s r))) b) (\<lambda>fits.
         if \<not> fits then Inr (r # queue, leftover, s\<lparr>sc_mem := m\<rparr>, b, l, out)
         else bind_r (swap_group_in cf c r n (int (get_max_num_running_seqs (sc_groups s r))) (s\<lparr>sc_mem := m\<rparr>, b, l, out))
           (swapped_loop cf c queue leftover))))) = Inr (queue', leftover', s', b', l', out')"
    unfolding swapped_loop.simps Let_def by auto
  consider "status = LATER" | "status = NEVER" | "status = OK" by (cases status) auto
  then show ?case
  proof cases
    case 2
    with step have "?goal queue leftover (upd_group r ignore_all (s\<lparr>sc_mem := m\<rparr>), b, l,
      out\<lparr>wo_infeasible := wo_infeasible out @ [r]\<rparr>)" by simp
    from Cons.IH [OF this] show ?thesis by (simp add: wo_refs_def)
  next
    case 3
    with step obtain full where full: "lora_full cf (sc_groups s r) l = Inr full" by auto
    show ?thesis
    proof (cases full)
      case True
      with step 3 full have "?goal queue (r # leftover) (s\<lparr>sc_mem := m\<rparr>, b, l, out)" by simp
      from Cons.IH [OF this] show ?thesis by simp
    next
      case False
      with step 3 full obtain n fits where nf: "get_num_new_tokens cf (sc_groups s r) SWAPPED c b = Inr n"
        "(if n = 0 then Inr False else can_schedule n (int (get_max_num_running_seqs (sc_groups s r))) b) = Inr fits" by auto
      show ?thesis
      proof (cases fits)
        case True
        with step 3 full False nf obtain s1 b1 l1 out1 where
          i: "swap_group_in cf c r n (int (get_max_num_running_seqs (sc_groups s r))) (s\<lparr>sc_mem := m\<rparr>, b, l, out) = Inr (s1, b1, l1, out1)"
          and rest: "?goal queue leftover (s1, b1, l1, out1)" by auto
        from Cons.IH [OF rest] swap_group_in_refs [OF i] show ?thesis by simp
      qed (use step 3 full False nf in auto)
    qed
  qed (use step in auto)
qed simp


lemma passed_delay_queues: "passed_delay cf now s = (p, s') \<Longrightarrow> queues s' = queues s"
  by (auto simp: passed_delay_def queues_def Let_def split: if_splits)

lemma allocate_queues: "allocate_and_set_running r s = Inr s' \<Longrightarrow> queues s' = queues s"
  by (auto simp: allocate_and_set_running_def dest: on_mem_queues)

lemma start_prefill_refs:
  assumes "start_prefill cf c r la n k (s, b, l, out) = Inr (s', b', l', out')"
  shows "queues s' = queues s \<and> po_refs out' = add_mset r (po_refs out)"
  using assms
  by (auto simp: start_prefill_def po_refs_def Let_def dest!: append_slots_queues allocate_queues split: if_splits)

text \<open>The waiting queue is set anew in every round; the others are left alone.\<close>

definition other_queues :: "scheduler \<Rightarrow> group_ref list \<times> group_ref list \<times> group_ref list" where
  "other_queues s = (sc_running s, sc_swapped s, sc_async_stopped s)"

lemma other_queues: "queues s' = queues s \<Longrightarrow> other_queues s' = other_queues s"
    "other_queues (s\<lparr>sc_waiting := ws\<rparr>) = other_queues s"
  by (simp_all add: queues_def other_queues_def)

lemma prefill_loop_refs:
  assumes "prefill_loop cf now c k queue leftover (s, b, l, out) = Inr (queue', leftover', s', b', l', out')"
  shows "other_queues s' = other_queues s
    \<and> mset queue' + mset leftover' + po_refs out' = mset queue + mset leftover + po_refs out"
  using assms
proof (induction queue arbitrary: k leftover s b l out)
  case Nil
  then show ?case
    by (auto dest!: passed_delay_queues split: prod.splits) (simp_all add: other_queues_def queues_def)
next
  case (Cons r queue)
  obtain passed s0 where d: "passed_delay cf (now k) (s\<lparr>sc_waiting := r # queue\<rparr>) = (passed, s0)" by force
  let ?g = "sc_groups s0 r"
  have q0: "other_queues s0 = other_queues s"
    using passed_delay_queues [OF d] by (simp add: other_queues_def queues_def)
  let ?goal = "\<lambda>leftover1 x1. prefill_loop cf now c (k + 1) queue leftover1 x1 = Inr (queue', leftover', s', b', l', out')"
  have ign: ?case if "?goal leftover (ignore_waiting r (s0, b, l, out))"
    using Cons.IH [OF that [unfolded ignore_waiting_def prod.case Let_def]] q0
    by (simp add: po_refs_def other_queues_def upd_group_def)
  show ?case
  proof (cases passed)
    case False
    with Cons.prems d q0 show ?thesis unfolding prefill_loop.simps by (auto simp: Let_def)
  next
    case True
    define la where "la = (if is_multi_step cf \<and> c then get_num_lookahead_slots cf True c else 0)"
    define k1 where "k1 = int (get_max_num_running_seqs ?g)"
    from True Cons.prems d obtain n limit where
      step: "(if n > int limit then prefill_loop cf now c (k + 1) queue leftover (ignore_waiting r (s0, b, l, out))
        else bind_r (can_allocate ?g la (snd (sc_mem s0))) (\<lambda>status.
          if status = LATER then Inr (r # queue, leftover, s0, b, l, out)
          else if status = NEVER then prefill_loop cf now c (k + 1) queue leftover (ignore_waiting r (s0, b, l, out))
          else bind_r (lora_full cf ?g l) (\<lambda>full.
            if full then prefill_loop cf now c (k + 1) queue (r # leftover) (s0, b, l, out)
            else bind_r (if n = 0 then Inr False else can_schedule n k1 b) (\<lambda>fits.
              if \<not> fits then Inr (r # queue, leftover, s0, b, l, out)
              else bind_r (start_prefill cf c r la n k1 (s0, b, l, out))
                (prefill_loop cf now c (k + 1) queue leftover))))) = Inr (queue', leftover', s', b', l', out')"
      unfolding prefill_loop.simps Let_def la_def k1_def by (auto simp only: prod.case if_True if_False not_True_eq_False)
    show ?thesis
    proof (cases "n > int limit")
      case False
      with step obtain status where st: "can_allocate ?g la (snd (sc_mem s0)) = Inr status"
        by (auto simp only: if_False)
      consider "status = LATER" | "status = NEVER" | "status = OK" by (cases status) auto
      then show ?thesis
      proof cases
        case 3
        with step False st obtain full where full: "lora_full cf ?g l = Inr full" by auto
        show ?thesis
        proof (cases full)
          case True
          with step \<open>\<not> n > int limit\<close> st 3 full have "?goal (r # leftover) (s0, b, l, out)" by simp
          from Cons.IH [OF this] q0 show ?thesis by simp
        next
          case full': False
          let ?fits = "if n = 0 then Inr False else can_schedule n k1 b"
          from full' step \<open>\<not> n > int limit\<close> st 3 full have "bind_r ?fits (\<lambda>fits.
              if \<not> fits then Inr (r # queue, leftover, s0, b, l, out)
              else bind_r (start_prefill cf c r la n k1 (s0, b, l, out))
                (prefill_loop cf now c (k + 1) queue leftover)) = Inr (queue', leftover', s', b', l', out')"
            by (simp del: if_split)
          then obtain fits where last: "(if \<not> fits then Inr (r # queue, leftover, s0, b, l, out)
              else bind_r (start_prefill cf c r la n k1 (s0, b, l, out))
                (prefill_loop cf now c (k + 1) queue leftover)) = Inr (queue', leftover', s', b', l', out')"
            by (elim bind_r_InrE)
          show ?thesis
          proof (cases fits)
            case True
            with last have
              "bind_r (start_prefill cf c r la n k1 (s0, b, l, out)) (prefill_loop cf now c (k + 1) queue leftover)
                = Inr (queue', leftover', s', b', l', out')" by (simp only: not_True_eq_False if_False)
            then obtain x1 where i: "start_prefill cf c r la n k1 (s0, b, l, out) = Inr x1" and rest: "?goal leftover x1"
              by (elim bind_r_InrE)
            obtain s1 b1 l1 out1 where x1: "x1 = (s1, b1, l1, out1)" by (rule prod_cases4)
            from start_prefill_refs [OF i [unfolded x1]] have "other_queues s1 = other_queues s0"
              "po_refs out1 = add_mset r (po_refs out)" using other_queues(1) by blast+
            with Cons.IH [OF rest [unfolded x1]] q0 show ?thesis by simp
          qed (use last q0 in simp)
        qed
      qed (use step False st q0 ign in simp_all)
    qed (use step ign in simp)
  qed
qed

subsection \<open>Whole phases\<close>

lemma schedule_running_refs:
  assumes "schedule_running cf None c s b l = Inr (s', b', l', out)"
  shows "all_refs s' + ro_refs out = all_refs s \<and> sc_async_stopped s = [] \<and> sc_waiting s' = sc_waiting s"
proof -
  from assms obtain queue s1 where a: "sc_async_stopped s = []" and
    r: "running_loop cf None c (sc_running s) (s, b, l, empty_running\<lparr>ro_lookahead := get_num_lookahead_slots cf False c\<rparr>)
      = Inr (queue, s1, b', l', out)" and s': "s' = s1\<lparr>sc_running := queue\<rparr>"
    by (auto simp: schedule_running_def Let_def)
  from running_loop_refs [OF r] a queuesD [of s1 s] show ?thesis
    by (auto simp: s' all_refs_def ac_simps)
qed

lemma schedule_swapped_refs:
  assumes "schedule_swapped cf c s b l = Inr (s', b', l', out)"
  shows "all_refs s' + wo_refs out = all_refs s"
proof -
  from assms obtain queue leftover s1 out1 where
    r: "swapped_loop cf c (sc_swapped s) [] (s, b, l, empty_swapped) = Inr (queue, leftover, s1, b', l', out1)" and
    s': "s' = s1\<lparr>sc_swapped := rev leftover @ queue\<rparr>" "wo_refs out = wo_refs out1"
    by (auto simp: schedule_swapped_def)
  from swapped_loop_refs [OF r] queuesD [of s1 s] show ?thesis
    by (auto simp: s' all_refs_def ac_simps)
qed

lemma schedule_prefills_refs:
  assumes "schedule_prefills cf now c s b l = Inr (s', b', l', out)"
  shows "all_refs s' + po_refs out = all_refs s"
proof -
  from assms obtain queue leftover s1 out1 where
    r: "prefill_loop cf now c 0 (sc_waiting s) [] (s, b, l, empty_prefills) = Inr (queue, leftover, s1, b', l', out1)" and
    s': "sc_waiting s' = rev leftover @ queue" "other_queues s' = other_queues s1" "po_refs out = po_refs out1"
    by (auto simp: schedule_prefills_def other_queues_def Let_def)
  from prefill_loop_refs [OF r] show ?thesis
    using s'(2) by (auto simp: s'(1,3) all_refs_def other_queues_def ac_simps)
qed

lemma preempt_lower_refs:
  assumes "preempt_lower cf r n k vs waiting m bs (s, b) = Inr (kept, waiting', m', s', b')"
  shows "queues s' = queues s \<and> mset kept + mset waiting' = mset vs + mset waiting"
  using assms
proof (induction vs arbitrary: waiting m bs s b)
  case (Cons v rest)
  show ?case
  proof (cases "kept = v # rest \<and> waiting' = waiting \<and> s' = s")
    case False
    with Cons.prems obtain mode bs1 s1 b1 where p: "preempt cf (Some RECOMPUTE) v (bs, s) = Inr (mode, bs1, s1)" and
      rest: "preempt_lower cf r n k rest (v # waiting) (m + 1) bs1 (s1, b1) = Inr (kept, waiting', m', s', b')"
      by (auto simp: Let_def split: if_splits)
    from Cons.IH [OF rest] preempt_queues [OF p] show ?thesis by simp
  qed auto
qed simp

lemma priority_refs:
  assumes "schedule_priority_preemption cf (s, b) = Inr (m, s', b')"
  shows "all_refs s' = all_refs s"
proof (cases "sc_waiting s")
  case Nil
  with assms show ?thesis by (auto simp: schedule_priority_preemption_def all_refs_def Let_def)
next
  case (Cons r rest)
  with assms obtain n k kept waiting s1 where
    p: "preempt_lower cf r n k (rev (sort_key (\<lambda>r. get_priority (sc_groups s r)) (sc_running s))) rest 0 [] (s, b)
      = Inr (kept, waiting, m, s1, b')" and
    s': "s' = s1\<lparr>sc_waiting := sort_key (\<lambda>r. get_priority (sc_groups s r)) (r # waiting), sc_running := rev kept\<rparr>"
    by (auto simp: schedule_priority_preemption_def Let_def)
  from preempt_lower_refs [OF p] queuesD [of s1 s] Cons show ?thesis by (simp add: s' all_refs_def ac_simps)
qed

text \<open>One call of \<open>schedule\<close> keeps every request: it is queued afterwards, or it is reported as ignored.\<close>

lemma select_default_refs:
  assumes "select_default cf None now s = Inr (s1, b, pre, ro, wo)"
  shows "all_refs s1 + po_refs pre + ro_refs ro + wo_refs wo = all_refs s"
proof -
  from assms obtain s2 b2 l2 where
    p: "(if sc_swapped s = [] then schedule_prefills cf now False s (add_running_seqs s (new_budget cf)) (running_loras cf s)
       else Inr (s, add_running_seqs s (new_budget cf), running_loras cf s, empty_prefills)) = Inr (s2, b2, l2, pre)" and
    rest: "(if po_groups pre \<noteq> [] then Inr (s2, b2, pre, empty_running, empty_swapped)
      else bind_r (if cf_policy cf = ''priority'' then schedule_priority_preemption cf (s2, b2) else Inr (0, s2, b2)) (\<lambda>(_, s2, b2).
        bind_r (schedule_running cf None False s2 b2 l2) (\<lambda>(s3, b3, l3, ro).
        if length (ro_preempted ro) + length (ro_swapped_out ro) = 0 then
          bind_r (schedule_swapped cf False s3 b3 l3) (\<lambda>(s4, b4, l4, wo). Inr (s4, b4, pre, ro, wo))
        else Inr (s3, b3, pre, ro, empty_swapped)))) = Inr (s1, b, pre, ro, wo)"
    unfolding select_default_def Let_def by (auto split: if_splits)
  have e: "all_refs s2 + po_refs pre = all_refs s"
    using p schedule_prefills_refs by (fastforce split: if_splits)
  show ?thesis
  proof (cases "po_groups pre = []")
    case True
    with rest obtain m s3 b3 s4 b4 l4 where
      pr: "(if cf_policy cf = ''priority'' then schedule_priority_preemption cf (s2, b2) else Inr (0, s2, b2)) = Inr (m, s3, b3)" and
      run: "schedule_running cf None False s3 b3 l2 = Inr (s4, b4, l4, ro)" and
      sw: "(if length (ro_preempted ro) + length (ro_swapped_out ro) = 0 then
          bind_r (schedule_swapped cf False s4 b4 l4) (\<lambda>(s4, b4, l4, wo). Inr (s4, b4, pre, ro, wo))
        else Inr (s4, b4, pre, ro, empty_swapped)) = Inr (s1, b, pre, ro, wo)"
      by (auto split: if_splits)
    have "all_refs s3 = all_refs s2" using pr priority_refs by (auto split: if_splits)
    moreover have "all_refs s1 + wo_refs wo = all_refs s4"
      using sw schedule_swapped_refs by (fastforce split: if_splits)
    ultimately show ?thesis using schedule_running_refs [OF run] e by (metis add.assoc add.commute)
  qed (use rest e in auto)
qed

lemma select_chunked_refs:
  assumes "select_chunked cf None now s = Inr (s1, b, pre, ro, wo)"
  shows "all_refs s1 + po_refs pre + ro_refs ro + wo_refs wo = all_refs s"
proof -
  from assms obtain s2 b2 l2 s3 b3 l3 l4 where
    run: "schedule_running cf None True s (new_budget cf) (Some {}) = Inr (s2, b2, l2, ro)" and
    sw: "(if length (ro_preempted ro) + length (ro_swapped_out ro) = 0 then schedule_swapped cf False s2 b2 l2
       else Inr (s2, b2, l2, empty_swapped)) = Inr (s3, b3, l3, wo)" and
    p: "schedule_prefills cf now True s3 b3 l3 = Inr (s1, b, l4, pre)"
    by (auto simp: select_chunked_def split: if_splits)
  have "all_refs s3 + wo_refs wo = all_refs s2" using sw schedule_swapped_refs by (fastforce split: if_splits)
  with schedule_running_refs [OF run] schedule_prefills_refs [OF p] show ?thesis by (metis add.assoc add.commute)
qed

lemma outputs_post_init_eq:
  assumes "outputs_post_init s o1 = Inr o2"
  shows "so_ignored o2 = so_ignored o1 \<and> mset (so_groups o2) = mset (so_groups o1) \<and> so_blocks_in o2 = so_blocks_in o1
    \<and> so_blocks_out o2 = so_blocks_out o1"
  using assms by (auto simp: outputs_post_init_def sort_by_lora_ids_def split: if_splits)

lemma schedule_queues_refs:
  assumes "schedule_queues cf None now s = Inr (o1, s')"
  shows "all_refs s' + mset (so_ignored o1) = all_refs s \<and> mset (map fst (so_groups o1)) \<subseteq># mset (sc_running s')"
proof (cases "cf_chunked_prefill_enabled cf")
  case True
  with assms obtain s1 b pre ro wo where sel: "select_chunked cf None now s = Inr (s1, b, pre, ro, wo)" and
    post: "schedule_chunked_prefill cf None now s = Inr (o1, s')"
    by (auto simp: schedule_queues_def schedule_chunked_prefill_def)
  note e = select_chunked_refs [OF sel]
  from post sel have s': "mset (so_groups o1) = mset (po_groups pre @ ro_prefill ro @ wo_prefill wo @ ro_decode ro @ wo_decode wo)"
    "so_ignored o1 = po_ignored pre @ wo_infeasible wo"
    "s' = s1\<lparr>sc_waiting := rev (ro_preempted ro) @ sc_waiting s1,
           sc_running := sc_running s1 @ map fst (wo_decode wo) @ map fst (wo_prefill wo) @ map fst (ro_decode ro)
             @ map fst (ro_prefill ro) @ map fst (po_groups pre),
           sc_swapped := sc_swapped s1 @ ro_swapped_out ro\<rparr>"
    by (auto simp: schedule_chunked_prefill_def Let_def dest!: outputs_post_init_eq)
  have "mset (map fst (so_groups o1)) \<subseteq># mset (sc_running s')" unfolding s'(3) mset_map s'(1) by simp
  moreover have "all_refs s' + mset (so_ignored o1) = all_refs s"
    using e by (simp add: all_refs_def ro_refs_def wo_refs_def po_refs_def s'(2,3) ac_simps)
  ultimately show ?thesis by blast
next
  case False
  with assms obtain s1 b pre ro wo where sel: "select_default cf None now s = Inr (s1, b, pre, ro, wo)" and
    post: "schedule_default cf None now s = Inr (o1, s')"
    by (auto simp: schedule_queues_def schedule_default_def)
  note e = select_default_refs [OF sel]
  from post sel have s': "mset (so_groups o1) = mset (po_groups pre @ ro_decode ro @ wo_decode wo)"
    "so_ignored o1 = po_ignored pre @ wo_infeasible wo" "ro_prefill ro = []" "wo_prefill wo = []"
    "s' = s1\<lparr>sc_waiting := rev (ro_preempted ro) @ sc_waiting s1,
           sc_running := sc_running s1 @ map fst (po_groups pre) @ map fst (ro_decode ro) @ map fst (wo_decode wo),
           sc_swapped := sc_swapped s1 @ ro_swapped_out ro\<rparr>"
    by (auto simp: schedule_default_def Let_def dest!: outputs_post_init_eq)
  have "mset (map fst (so_groups o1)) \<subseteq># mset (sc_running s')" unfolding s'(5) mset_map s'(1) by simp
  moreover have "all_refs s' + mset (so_ignored o1) = all_refs s"
    using e s'(3,4) by (simp add: all_refs_def ro_refs_def wo_refs_def po_refs_def s'(2,5) ac_simps)
  ultimately show ?thesis by blast
qed

lemma metadata_queues: "metadata_of cf now sg s = Inr (md, s') \<Longrightarrow> queues s' = queues s"
  by (auto simp: metadata_of_def Let_def split: prod.splits if_splits)

lemma map_r_queues: "map_r (metadata_of cf now) sgs s = Inr (mds, s') \<Longrightarrow> queues s' = queues s"
  by (induction sgs arbitrary: s mds) (auto dest!: metadata_queues)

lemma fold_upd_queues [simp]: "queues (fold (\<lambda>r. upd_group r f) rs s) = queues s"
  by (induction rs arbitrary: s) simp_all

lemma schedule_parts:
  assumes "sc_schedule cf cb now start elapsed s = Inr (mds, o1, allow, s')"
  obtains s1 where "schedule_queues cf cb now s = Inr (o1, s1)" and "queues s' = queues s1"
proof -
  from assms obtain s1 s2 s3 where q: "schedule_queues cf cb now s = Inr (o1, s1)"
    and m: "map_r (metadata_of cf start) (so_groups o1) s1 = Inr (mds, s2)"
    and b: "on_mem (fold_r (\<lambda>_. mark_blocks_as_computed) (so_groups o1)) s2 = Inr s3"
    and s': "s' = fold (\<lambda>r. upd_group r (add_scheduler_time elapsed)) (sc_running s3) s3"
    by (auto simp: sc_schedule_def Let_def)
  have "queues s' = queues s1" using map_r_queues [OF m] on_mem_queues [OF b] by (simp add: s')
  with q show ?thesis by (rule that)
qed

lemma schedule_refs:
  assumes "sc_schedule cf None now start elapsed s = Inr (mds, o1, allow, s')"
  shows "all_refs s' + mset (so_ignored o1) = all_refs s \<and> mset (map fst (so_groups o1)) \<subseteq># mset (sc_running s')"
proof -
  obtain s1 where q: "schedule_queues cf None now s = Inr (o1, s1)" and e: "queues s' = queues s1"
    by (rule schedule_parts [OF assms])
  have "all_refs s' = all_refs s1" "sc_running s' = sc_running s1"
    using queuesD [OF e] by (simp_all add: all_refs_def)
  with schedule_queues_refs [OF q] show ?thesis by simp
qed

text \<open>
  C20. \<open>schedule\<close> loses no request and duplicates none, under either policy: every group that was
  waiting, running or swapped out is afterwards in exactly one of the queues again, as often as before,
  or it is reported in \<open>ignored_seq_groups\<close>; and the groups that are handed to the workers are groups
  of the running queue.
\<close>

theorem schedule_conserves:
  assumes "sc_schedule cf None now start elapsed s = Inr (mds, o1, allow, s')"
  shows "all_refs s' + mset (so_ignored o1) = all_refs s \<and> mset (map fst (so_groups o1)) \<subseteq># mset (sc_running s')"
  by (rule schedule_refs [OF assms])

end
