(* ===== verification/Sched_Inv.thy ===== *)
theory Sched_Inv
  imports Sched_Memory Sched_Queues
begin

text \<open>
  The invariant of the scheduler for requests that generate one sequence each, with preemption by
  recomputation, and what the operations of the loops do to it.
\<close>

subsection \<open>Groups\<close>

definition the_seq :: "seq_group \<Rightarrow> sequence" where
  "the_seq g = hd (sg_seqs g)"

definition tokens_ok :: "seq_data \<Rightarrow> bool" where
  "tokens_ok d \<longleftrightarrow> sd_cached d = sd_prompt d @ sd_output d \<and> sd_num_computed d < sd_len d"

definition single_ok :: "sched_config \<Rightarrow> seq_group \<Rightarrow> bool" where
  "single_ok cf g \<longleftrightarrow> length (sg_seqs g) = 1 \<and> tokens_ok (sq_data (the_seq g)) \<and> sg_encoder_seq g = None
     \<and> (\<forall>n. sg_n g = Some n \<longrightarrow> n \<le> 1) \<and> (\<exists>k. get_prompt_limit cf g = Inr k) \<and> sq_status (the_seq g) \<noteq> SWAPPED
     \<and> (sq_status (the_seq g) = WAITING \<longrightarrow> sd_stage (sq_data (the_seq g)) = PREFILL \<and> sd_num_computed (sq_data (the_seq g)) = 0)"

text \<open>The configurations of the theorems: preemption by recomputation, no prefix caching.\<close>

definition config_ok :: "sched_config \<Rightarrow> bool" where
  "config_ok cf \<longleftrightarrow> cf_preemption_mode cf \<noteq> Some ''swap'' \<and> \<not> cf_enable_prefix_caching cf
     \<and> cf_max_num_seqs cf \<le> cf_max_num_batched_tokens cf
     \<and> (is_multi_step cf \<longrightarrow> cf_num_lookahead_slots cf + 1 = cf_num_scheduler_steps cf \<and> \<not> cf_chunked_prefill_enabled cf)"

definition seq_of :: "scheduler \<Rightarrow> group_ref \<Rightarrow> sequence" where
  "seq_of s r = the_seq (sc_groups s r)"

definition st_of :: "scheduler \<Rightarrow> group_ref \<Rightarrow> seq_status" where
  "st_of s r = sq_status (seq_of s r)"

definition id_of :: "scheduler \<Rightarrow> group_ref \<Rightarrow> nat" where
  "id_of s r = sq_id (seq_of s r)"

definition req_of :: "scheduler \<Rightarrow> group_ref \<Rightarrow> string" where
  "req_of s r = sg_request_id (sc_groups s r)"

text \<open>
  \<open>U\<close> are the groups of the requests that the scheduler knows. The memory holds \<open>C\<close>: a prefix of the
  tokens of every running sequence, and nothing else.
\<close>

definition groups_with :: "sched_config \<Rightarrow> nat \<Rightarrow> (nat \<rightharpoonup> int list) \<Rightarrow> group_ref set \<Rightarrow> scheduler \<Rightarrow> bool" where
  "groups_with cf sz C U s \<longleftrightarrow> kv_at sz (sc_mem s) C \<and> inj_on (id_of s) U \<and> inj_on (req_of s) U
     \<and> (\<forall>r \<in> U. single_ok cf (sc_groups s r)) \<and> dom C = id_of s ` {r \<in> U. st_of s r = RUNNING}
     \<and> (\<forall>r \<in> U. \<forall>toks. C (id_of s r) = Some toks \<longrightarrow> toks \<noteq> [] \<and> prefix toks (sq_tokens (seq_of s r)))"

text \<open>What no operation of the scheduler changes of a group.\<close>

definition ident ::
    "seq_group \<Rightarrow> string \<times> (nat \<times> int list \<times> int list \<times> int list) list \<times> sequence option \<times> nat option
      \<times> lora_request option \<times> int \<times> real" where
  "ident g = (sg_request_id g,
     map (\<lambda>q. (sq_id q, sd_prompt (sq_data q), sd_output (sq_data q), sd_cached (sq_data q))) (sg_seqs g),
     sg_encoder_seq g, sg_n g, sg_lora g, sg_priority g, sg_arrival_time g)"

definition only :: "group_ref \<Rightarrow> scheduler \<Rightarrow> scheduler \<Rightarrow> bool" where
  "only r s s' \<longleftrightarrow> (\<forall>r'. r' \<noteq> r \<longrightarrow> sc_groups s' r' = sc_groups s r') \<and> ident (sc_groups s' r) = ident (sc_groups s r)"

definition same_idents :: "scheduler \<Rightarrow> scheduler \<Rightarrow> bool" where
  "same_idents s s' \<longleftrightarrow> (\<forall>r. ident (sc_groups s' r) = ident (sc_groups s r))"

lemma same_idents_simps [simp]: "same_idents s s" "same_idents (s\<lparr>sc_waiting := w\<rparr>) s' = same_idents s s'"
    "same_idents s (s'\<lparr>sc_waiting := w\<rparr>) = same_idents s s'" "same_idents s (s'\<lparr>sc_running := w\<rparr>) = same_idents s s'"
  by (simp_all add: same_idents_def)

lemma same_idents_trans: "same_idents s s' \<Longrightarrow> same_idents s' s'' \<Longrightarrow> same_idents s s''"
  by (simp add: same_idents_def)

lemma only_idents: "only r s s' \<Longrightarrow> same_idents s s'"
  unfolding only_def same_idents_def by metis

lemma single_okD:
  assumes "single_ok cf g"
  shows "sg_seqs g = [the_seq g]" "tokens_ok (sq_data (the_seq g))" "sg_encoder_seq g = None"
    "\<exists>k. get_prompt_limit cf g = Inr k"
  using assms by (cases "sg_seqs g"; auto simp: single_ok_def the_seq_def)+

lemma single_seq:
  assumes "single_ok cf g"
  obtains q where "sg_seqs g = [q]" and "the_seq g = q"
  using single_okD(1) [OF assms] by (auto intro: that)

lemma single_get_seqs: "single_ok cf g \<Longrightarrow> get_seqs st g = (if sq_status (the_seq g) = st then [the_seq g] else [])"
  by (elim single_seq) (auto simp: get_seqs_def)

lemma single_running:
  assumes "single_ok cf g" and "\<not> sq_finished (the_seq g)"
  shows "get_max_num_running_seqs g = 1"
proof -
  have "num_unfinished_seqs g = 1" "num_seqs g = 1"
    using single_okD(1) [OF assms(1)] assms(2) by (simp_all add: num_unfinished_seqs_def num_seqs_def)
  moreover have "\<forall>n. sg_n g = Some n \<longrightarrow> \<not> n > 1" using assms(1) by (auto simp: single_ok_def)
  ultimately show ?thesis by (simp add: get_max_num_running_seqs_def split: option.split)
qed

lemma single_prefill: "single_ok cf g \<Longrightarrow> sg_is_prefill g = Inr (sd_stage (sq_data (the_seq g)) = PREFILL)"
  by (elim single_seq) (simp add: sg_is_prefill_def sq_is_prefill_def)

lemma data_len: "tokens_ok d \<Longrightarrow> sd_len d = length (sd_cached d)"
  by (simp add: tokens_ok_def sd_len_def)

lemma single_new_tokens:
  assumes "single_ok cf g"
  shows "0 < sq_num_new_tokens (the_seq g)"
    and "sq_status (the_seq g) = WAITING \<Longrightarrow> sq_num_new_tokens (the_seq g) = int (sq_len (the_seq g))"
  using assms by (cases "sd_stage (sq_data (the_seq g))";
      auto simp: single_ok_def tokens_ok_def sq_num_new_tokens_def sd_num_uncomputed_def sq_len_def)+

lemma map_seqs_single:
  assumes "single_ok cf g"
  shows "the_seq (map_seqs st f g) = (if sq_status (the_seq g) = st then f (the_seq g) else the_seq g)"
    and "sg_seqs (map_seqs st f g) = [the_seq (map_seqs st f g)]"
proof -
  obtain q where "sg_seqs g = [q]" "the_seq g = q" by (rule single_seq [OF assms])
  then show "the_seq (map_seqs st f g) = (if sq_status (the_seq g) = st then f (the_seq g) else the_seq g)"
    and "sg_seqs (map_seqs st f g) = [the_seq (map_seqs st f g)]" by (simp_all add: map_seqs_def the_seq_def)
qed

lemma map_seqs_fields [simp]: "sg_request_id (map_seqs st f g) = sg_request_id g"
    "sg_encoder_seq (map_seqs st f g) = sg_encoder_seq g" "sg_n (map_seqs st f g) = sg_n g"
    "sg_lora (map_seqs st f g) = sg_lora g" "get_prompt_limit cf (map_seqs st f g) = get_prompt_limit cf g"
    "sg_priority (map_seqs st f g) = sg_priority g" "sg_arrival_time (map_seqs st f g) = sg_arrival_time g"
  by (simp_all add: map_seqs_def get_prompt_limit_def)

lemma set_status_fields [simp]: "sq_id (set_status st q) = sq_id q" "sq_data (set_status st q) = sq_data q"
    "sq_status (set_status st q) = st"
  by (simp_all add: set_status_def)

lemma upd_group_fields [simp]: "sc_groups (upd_group r f s) = (sc_groups s)(r := f (sc_groups s r))"
    "sc_mem (upd_group r f s) = sc_mem s"
  by (simp_all add: upd_group_def)

subsection \<open>One group changes\<close>

lemma only_refl [simp]: "only r s s"
  by (simp add: only_def)

lemma only_trans: "only r s s' \<Longrightarrow> only r s' s'' \<Longrightarrow> only r s s''"
  by (simp add: only_def)

lemma onlyD:
  assumes "only r s s'" and "length (sg_seqs (sc_groups s r)) = 1"
  shows "id_of s' = id_of s" "req_of s' = req_of s" "sq_tokens (seq_of s' x) = sq_tokens (seq_of s x)"
    "x \<noteq> r \<Longrightarrow> sc_groups s' x = sc_groups s x"
proof -
  have i: "ident (sc_groups s' x) = ident (sc_groups s x)" for x using assms by (cases "x = r") (auto simp: only_def)
  then have l: "map (\<lambda>q. (sq_id q, sd_prompt (sq_data q), sd_output (sq_data q), sd_cached (sq_data q))) (sg_seqs (sc_groups s' x))
    = map (\<lambda>q. (sq_id q, sd_prompt (sq_data q), sd_output (sq_data q), sd_cached (sq_data q))) (sg_seqs (sc_groups s x))" for x
    by (simp add: ident_def)
  have h: "sq_id (seq_of s' x) = sq_id (seq_of s x) \<and> sq_tokens (seq_of s' x) = sq_tokens (seq_of s x)" for x
  proof (cases "x = r")
    case True
    with l [of r] assms(2) show ?thesis by (cases "sg_seqs (sc_groups s r)"; cases "sg_seqs (sc_groups s' r)") (auto simp: seq_of_def the_seq_def)
  next
    case False
    with assms(1) show ?thesis by (simp add: only_def seq_of_def)
  qed
  then show "id_of s' = id_of s" "sq_tokens (seq_of s' x) = sq_tokens (seq_of s x)" by (auto simp: id_of_def fun_eq_iff)
  show "req_of s' = req_of s" using i by (auto simp: req_of_def fun_eq_iff ident_def)
  show "x \<noteq> r \<Longrightarrow> sc_groups s' x = sc_groups s x" using assms(1) by (simp add: only_def)
qed

lemma only_same: "only r s s' \<Longrightarrow> x \<noteq> r \<Longrightarrow> seq_of s' x = seq_of s x \<and> st_of s' x = st_of s x"
  by (simp add: only_def seq_of_def st_of_def)

lemma groups_with_change:
  assumes g: "groups_with cf sz C U s" and r: "r \<in> U" and others: "\<And>x. x \<noteq> r \<Longrightarrow> sc_groups s' x = sc_groups s x"
    and ids: "id_of s' = id_of s" "req_of s' = req_of s"
    and ok: "single_ok cf (sc_groups s' r)" and kv: "kv_at sz (sc_mem s') (C(id_of s r := t))"
    and t: "t = None \<longleftrightarrow> st_of s' r \<noteq> RUNNING"
    and pre: "\<And>toks. t = Some toks \<Longrightarrow> toks \<noteq> [] \<and> prefix toks (sq_tokens (seq_of s' r))"
  shows "groups_with cf sz (C(id_of s r := t)) U s'"
proof -
  have same: "seq_of s' x = seq_of s x" "st_of s' x = st_of s x" if "x \<noteq> r" for x
    using others [OF that] by (simp_all add: seq_of_def st_of_def)
  have inj: "inj_on (id_of s) U" and dom: "dom C = id_of s ` {r \<in> U. st_of s r = RUNNING}"
    using g by (simp_all add: groups_with_def)
  have "id_of s ` {x \<in> U. st_of s' x = RUNNING} = dom (C(id_of s r := t))"
  proof (cases "t = None")
    case True
    have "{x \<in> U. st_of s' x = RUNNING} = {x \<in> U. st_of s x = RUNNING} - {r}"
      using t True same(2) by (auto, metis)
    moreover have "id_of s ` ({x \<in> U. st_of s x = RUNNING} - {r}) = id_of s ` {x \<in> U. st_of s x = RUNNING} - {id_of s r}"
      using inj r by (auto simp: inj_on_def)
    ultimately show ?thesis using dom True by simp
  next
    case False
    have "{x \<in> U. st_of s' x = RUNNING} = insert r {x \<in> U. st_of s x = RUNNING}"
      using t False r same(2) by (auto, metis)
    then show ?thesis using dom False by auto
  qed
  moreover have "toks \<noteq> [] \<and> prefix toks (sq_tokens (seq_of s' x))"
    if "x \<in> U" "(C(id_of s r := t)) (id_of s x) = Some toks" for x toks
  proof (cases "x = r")
    case True
    with that pre [of toks] show ?thesis by simp
  next
    case False
    then have "id_of s x \<noteq> id_of s r" using inj r that(1) by (auto simp: inj_on_def)
    with that g same(1) [OF False] show ?thesis by (simp add: groups_with_def)
  qed
  moreover have "single_ok cf (sc_groups s' x)" if "x \<in> U" for x
    using that ok others [of x] g by (cases "x = r") (auto simp: groups_with_def)
  ultimately show ?thesis using g kv by (simp add: groups_with_def ids)
qed

lemma groups_with_update:
  assumes g: "groups_with cf sz C U s" and r: "r \<in> U" and o1: "only r s s'"
    and ok: "single_ok cf (sc_groups s' r)" and kv: "kv_at sz (sc_mem s') (C(id_of s r := t))"
    and t: "t = None \<longleftrightarrow> st_of s' r \<noteq> RUNNING"
    and pre: "\<And>toks. t = Some toks \<Longrightarrow> toks \<noteq> [] \<and> prefix toks (sq_tokens (seq_of s r))"
  shows "groups_with cf sz (C(id_of s r := t)) U s'"
proof -
  have l: "length (sg_seqs (sc_groups s r)) = 1" using g r by (simp add: groups_with_def single_ok_def)
  note d = onlyD [OF o1 l]
  show ?thesis by (rule groups_with_change [OF g r d(4,1,2) ok kv t]) (use pre d(3) in auto)
qed

lemma groups_withD:
  assumes "groups_with cf sz C U s"
  shows "kv_at sz (sc_mem s) C" "r \<in> U \<Longrightarrow> single_ok cf (sc_groups s r)"
    "r \<in> U \<Longrightarrow> C (id_of s r) = None \<longleftrightarrow> st_of s r \<noteq> RUNNING"
    "r \<in> U \<Longrightarrow> C (id_of s r) = Some toks \<Longrightarrow> toks \<noteq> [] \<and> prefix toks (sq_tokens (seq_of s r))"
proof -
  show "kv_at sz (sc_mem s) C" "r \<in> U \<Longrightarrow> single_ok cf (sc_groups s r)"
    "r \<in> U \<Longrightarrow> C (id_of s r) = Some toks \<Longrightarrow> toks \<noteq> [] \<and> prefix toks (sq_tokens (seq_of s r))"
    using assms by (auto simp: groups_with_def)
  assume r: "r \<in> U"
  have "C (id_of s r) \<noteq> None \<longleftrightarrow> id_of s r \<in> id_of s ` {r \<in> U. st_of s r = RUNNING}"
    using assms by (metis groups_with_def domIff)
  also have "\<dots> \<longleftrightarrow> st_of s r = RUNNING" using assms r by (auto simp: groups_with_def inj_on_def)
  finally show "C (id_of s r) = None \<longleftrightarrow> st_of s r \<noteq> RUNNING" by blast
qed

text \<open>What one operation of a loop does to a group of the invariant, and that it succeeds.\<close>

lemma st_of_eq: "st_of s r = sq_status (the_seq (sc_groups s r))"
  by (simp add: st_of_def seq_of_def)

lemma id_of_eq: "id_of s r = sq_id (the_seq (sc_groups s r))"
  by (simp add: id_of_def seq_of_def)

subsection \<open>Preemption\<close>

lemma preempt_mode:
  assumes "config_ok cf" and "single_ok cf (sc_groups s r)" and "\<not> sq_finished (seq_of s r)"
  shows "preempt cf m r (bs, s) =
    bind_r (preempt_by_recompute r (s\<lparr>sc_num_preemption := sc_num_preemption s + 1\<rparr>)) (\<lambda>s2. Inr (RECOMPUTE, bs, s2))"
proof -
  have "get_max_num_running_seqs (sc_groups s r) = 1" using single_running assms(2,3) by (simp add: seq_of_def)
  then show ?thesis using assms(1)
    by (cases "cf_preemption_mode cf") (auto simp: preempt_def config_ok_def Let_def)
qed

lemma preempt_effect:
  assumes cf: "config_ok cf" and g: "groups_with cf sz C U s" and r: "r \<in> U" and st: "st_of s r = RUNNING"
  shows "\<exists>s'. preempt cf m r (bs, s) = Inr (RECOMPUTE, bs, s') \<and> groups_with cf sz (C(id_of s r := None)) U s'
    \<and> only r s s' \<and> st_of s' r = WAITING \<and> queues s' = queues s"
proof -
  let ?g = "sc_groups s r"
  have ok: "single_ok cf ?g" by (rule groups_withD(2) [OF g r])
  have "\<not> sq_finished (seq_of s r)" using st by (simp add: sq_finished_def status_finished_def st_of_def)
  note mode = preempt_mode [OF cf ok this]
  define s1 where "s1 = s\<lparr>sc_num_preemption := sc_num_preemption s + 1\<rparr>"
  have seqs: "get_seqs RUNNING ?g = [the_seq ?g]" using single_get_seqs [OF ok] st by (simp add: st_of_eq)
  from kv_free [OF groups_withD(1) [OF g], of "the_seq ?g"] obtain m' where
    f: "free (the_seq ?g) (sc_mem s) = Inr m'" and kv: "kv_at sz m' (C(id_of s r := None))"
    by (auto simp: id_of_eq)
  define s2 where "s2 = upd_group r (map_seqs RUNNING (\<lambda>q. sq_reset_state_for_recompute (set_status WAITING q))) (s1\<lparr>sc_mem := m'\<rparr>)"
  have run: "preempt_by_recompute r s1 = Inr s2"
    by (simp add: preempt_by_recompute_def free_seq_def on_mem_def seqs f s1_def s2_def)
  define q' where "q' = sq_reset_state_for_recompute (set_status WAITING (the_seq ?g))"
  have g2: "sc_groups s2 r = map_seqs RUNNING (\<lambda>q. sq_reset_state_for_recompute (set_status WAITING q)) ?g"
    by (simp add: s2_def s1_def)
  have seq2: "sg_seqs (sc_groups s2 r) = [q']" "the_seq (sc_groups s2 r) = q'"
    using map_seqs_single [OF ok] st unfolding g2 q'_def by (simp_all add: st_of_eq)
  have dat: "sq_data q' = sd_reset (sq_data (the_seq ?g))" "sq_id q' = sq_id (the_seq ?g)" "sq_status q' = WAITING"
    by (simp_all add: q'_def sq_reset_state_for_recompute_def)
  have "single_ok cf (sc_groups s2 r)"
    using ok by (simp add: single_ok_def seq2 dat) (auto simp: g2 sd_reset_def tokens_ok_def sd_len_def)
  moreover have o1: "only r s s2"
    using single_okD(1) [OF ok] by (auto simp: only_def ident_def seq2 dat sd_reset_def) (simp_all add: g2 s2_def s1_def)
  moreover have "st_of s2 r = WAITING" by (simp add: st_of_eq seq2 dat)
  ultimately have "groups_with cf sz (C(id_of s r := None)) U s2"
    using kv by (intro groups_with_update [OF g r o1]) (simp_all add: s2_def)
  moreover have "queues s2 = queues s" by (simp add: s2_def s1_def)
  ultimately show ?thesis using mode run o1 \<open>st_of s2 r = WAITING\<close> by (simp add: s1_def)
qed

subsection \<open>Slots\<close>

lemma can_append_total:
  assumes g: "groups_with cf sz C U s" and r: "r \<in> U" and st: "st_of s r = RUNNING"
  shows "\<exists>b. sc_can_append_slots cf c r s = Inr b"
proof -
  let ?g = "sc_groups s r"
  have ok: "single_ok cf ?g" by (rule groups_withD(2) [OF g r])
  have "get_seqs RUNNING ?g = [the_seq ?g]" using single_get_seqs [OF ok] st by (simp add: st_of_eq)
  moreover have "C (sq_id (the_seq ?g)) \<noteq> None" using groups_withD(3) [OF g r] st by (simp add: id_of_eq)
  ultimately have "\<exists>b. can_append_slots ?g la (snd (sc_mem s)) = Inr b" for la
    by (rule kv_can_append [OF groups_withD(1) [OF g]])
  then show ?thesis
    by (simp add: sc_can_append_slots_def single_prefill [OF ok] get_num_lookahead_slots_def Let_def)
qed

lemma multi_step_ok:
  assumes "config_ok cf" and "c \<longrightarrow> cf_chunked_prefill_enabled cf" and "single_ok cf g"
    and "la = get_num_lookahead_slots cf (sd_stage (sq_data (the_seq g)) = PREFILL) c
      \<or> la = 0 \<and> sd_stage (sq_data (the_seq g)) = PREFILL"
  shows "\<exists>n. init_multi_step_from_lookahead_slots la (cf_num_scheduler_steps cf) (is_multi_step cf) c g = Inr (init_multi_step n g)"
  using assms single_prefill [OF assms(3)]
  by (auto simp: init_multi_step_from_lookahead_slots_def config_ok_def get_num_lookahead_slots_def)

lemma init_multi_step_fields [simp]: "sg_seqs (init_multi_step n g) = sg_seqs g" "ident (init_multi_step n g) = ident g"
    "the_seq (init_multi_step n g) = the_seq g" "single_ok cf (init_multi_step n g) = single_ok cf g"
    "get_seqs st (init_multi_step n g) = get_seqs st g"
  by (simp_all add: init_multi_step_def ident_def the_seq_def single_ok_def get_seqs_def get_prompt_limit_def)

lemma append_effect:
  assumes cf: "config_ok cf" "c \<longrightarrow> cf_chunked_prefill_enabled cf" and g: "groups_with cf sz C U s" and r: "r \<in> U"
    and st: "st_of s r = RUNNING" and fits: "sc_can_append_slots cf c r s = Inr True"
  shows "\<exists>cs' s'. sc_append_slots cf c r (cs, s) = Inr (cs', s')
    \<and> groups_with cf sz (C(id_of s r \<mapsto> sq_tokens (seq_of s r))) U s' \<and> only r s s' \<and> seq_of s' = seq_of s
    \<and> queues s' = queues s"
proof -
  let ?g = "sc_groups s r" and ?q = "seq_of s r"
  have ok: "single_ok cf ?g" by (rule groups_withD(2) [OF g r])
  define la where "la = get_num_lookahead_slots cf (sd_stage (sq_data (the_seq ?g)) = PREFILL) c"
  have seqs: "get_seqs RUNNING ?g = [?q]" "sg_seqs ?g = [?q]"
    using single_get_seqs [OF ok] single_okD(1) [OF ok] st by (simp_all add: st_of_def seq_of_def)
  obtain toks where toks: "C (sq_id ?q) = Some toks" using groups_withD(3) [OF g r] st by (auto simp: id_of_def)
  then have pre: "toks \<noteq> []" "prefix toks (sq_tokens ?q)" using groups_withD(4) [OF g r] by (auto simp: id_of_def)
  have can: "can_append_slots ?g la (snd (sc_mem s)) = Inr True"
    using fits by (auto simp: sc_can_append_slots_def single_prefill [OF ok] la_def Let_def)
  from kv_append [OF groups_withD(1) [OF g] can seqs(1) toks pre(1)] obtain cs' m' where
    a: "append_seq la ?q (cs, sc_mem s) = Inr (cs', m')" and
    kv: "kv_at sz m' (C(sq_id ?q \<mapsto> toks @ drop (length toks) (sq_tokens ?q)))" by blast
  have full: "toks @ drop (length toks) (sq_tokens ?q) = sq_tokens ?q" using pre(2) by (auto simp: prefix_def)
  obtain n where i: "init_multi_step_from_lookahead_slots la (cf_num_scheduler_steps cf) (is_multi_step cf) c ?g
    = Inr (init_multi_step n ?g)" using multi_step_ok [OF cf ok, of la] la_def by blast
  define s' where "s' = upd_group r (\<lambda>_. init_multi_step n ?g) (s\<lparr>sc_mem := m'\<rparr>)"
  have run: "sc_append_slots cf c r (cs, s) = Inr (cs', s')"
    by (simp add: sc_append_slots_def single_prefill [OF ok] i a seqs s'_def Let_def flip: la_def)
  have o1: "only r s s'" by (simp add: only_def s'_def)
  have same: "seq_of s' = seq_of s" by (auto simp: seq_of_def s'_def fun_eq_iff)
  have ne: "sq_tokens ?q \<noteq> []" using ok by (auto simp: single_ok_def tokens_ok_def sd_len_def seq_of_def)
  have "groups_with cf sz (C(id_of s r := Some (sq_tokens ?q))) U s'"
  proof (rule groups_with_update [OF g r o1])
    show "kv_at sz (sc_mem s') (C(id_of s r := Some (sq_tokens ?q)))" using kv full by (simp add: s'_def id_of_def)
  qed (use ok st ne same in \<open>simp_all add: s'_def st_of_def\<close>)
  with run o1 same show ?thesis by (simp add: s'_def)
qed

subsection \<open>Waiting groups\<close>

lemma start_effect:
  assumes cf: "config_ok cf" "c \<longrightarrow> cf_chunked_prefill_enabled cf" and g: "groups_with cf sz C U s" and r: "r \<in> U"
    and st: "st_of s r = WAITING" and fits: "can_allocate (sc_groups s r) la (snd (sc_mem s)) = Inr OK"
    and la: "la = 0"
  shows "\<exists>s'. start_prefill cf c r la n k (s, b, l, out) = Inr (s',
        add_num_seqs (req_of s r) k (add_num_batched_tokens (req_of s r) n b), add_lora cf (sc_groups s' r) l,
        out\<lparr>po_groups := po_groups out @ [(r, n)]\<rparr>)
    \<and> groups_with cf sz (C(id_of s r \<mapsto> sq_tokens (seq_of s r))) U s' \<and> only r s s' \<and> st_of s' r = RUNNING
    \<and> sq_data (seq_of s' r) = sq_data (seq_of s r) \<and> queues s' = queues s"
proof -
  let ?g = "sc_groups s r" and ?q = "seq_of s r"
  have ok: "single_ok cf ?g" by (rule groups_withD(2) [OF g r])
  have seqs: "get_seqs WAITING ?g = [?q]" using single_get_seqs [OF ok] st by (simp add: st_of_def seq_of_def)
  have "C (sq_id ?q) = None" using groups_withD(3) [OF g r] st by (simp add: id_of_def)
  from kv_allocate [OF groups_withD(1) [OF g] fits seqs this single_okD(3) [OF ok]] obtain m' where
    a: "allocate ?g (sc_mem s) = Inr m'" and kv: "kv_at sz m' (C(sq_id ?q \<mapsto> sq_tokens ?q))" by blast
  define g1 where "g1 = map_seqs WAITING (set_status RUNNING) ?g"
  define s1 where "s1 = upd_group r (map_seqs WAITING (set_status RUNNING)) (s\<lparr>sc_mem := m'\<rparr>)"
  have g1: "sc_groups s1 r = g1" by (simp add: s1_def g1_def)
  have run: "allocate_and_set_running r s = Inr s1"
    by (simp add: allocate_and_set_running_def on_mem_def a s1_def)
  have seq1: "the_seq g1 = set_status RUNNING ?q" "sg_seqs g1 = [set_status RUNNING ?q]"
    using map_seqs_single [OF ok] st by (simp_all add: g1_def st_of_def seq_of_def)
  have ok1: "single_ok cf g1"
    using ok by (simp add: single_ok_def seq1) (auto simp: g1_def seq_of_def)
  have pre: "sd_stage (sq_data ?q) = PREFILL" using ok st by (simp add: single_ok_def st_of_def seq_of_def)
  obtain k1 where i: "init_multi_step_from_lookahead_slots la (cf_num_scheduler_steps cf) (is_multi_step cf) c g1
    = Inr (init_multi_step k1 g1)" using multi_step_ok [OF cf ok1, of la] la pre by (auto simp: seq1)
  have nm: "\<not> (c \<and> is_multi_step cf)" using cf by (auto simp: config_ok_def)
  define s2 where "s2 = upd_group r (\<lambda>_. init_multi_step k1 g1) s1"
  have g2: "sc_groups s2 r = init_multi_step k1 g1" "req_of s r = sg_request_id (sc_groups s2 r)"
    by (simp_all add: s2_def req_of_def) (simp add: g1_def init_multi_step_def)
  have st2: "start_prefill cf c r la n k (s, b, l, out) = Inr (s2,
        add_num_seqs (req_of s r) k (add_num_batched_tokens (req_of s r) n b), add_lora cf (sc_groups s2 r) l,
        out\<lparr>po_groups := po_groups out @ [(r, n)]\<rparr>)"
    using nm by (auto simp: start_prefill_def run i g1 g2(2) Let_def simp flip: s2_def)
  have "ident g1 = ident ?g" using single_okD(1) [OF ok] by (simp add: ident_def seq1 seq_of_def) (simp add: g1_def)
  then have o1: "only r s s2" by (simp add: only_def g2(1)) (simp add: s2_def s1_def)
  have seq2: "seq_of s2 r = set_status RUNNING ?q" by (simp add: seq_of_def g2(1) seq1) 
  have ne: "sq_tokens ?q \<noteq> []" using ok by (auto simp: single_ok_def tokens_ok_def sd_len_def seq_of_def)
  have "groups_with cf sz (C(id_of s r := Some (sq_tokens ?q))) U s2"
  proof (rule groups_with_update [OF g r o1])
    show "kv_at sz (sc_mem s2) (C(id_of s r := Some (sq_tokens ?q)))" using kv by (simp add: s2_def s1_def id_of_def)
  qed (use ok1 ne seq2 in \<open>simp_all add: g2(1) st_of_def\<close>)
  with st2 o1 seq2 show ?thesis by (simp add: st_of_def) (simp add: s2_def s1_def)
qed

lemma ignore_effect:
  assumes g: "groups_with cf sz C U s" and r: "r \<in> U" and st: "st_of s r = WAITING"
    and s': "s' = upd_group r (map_seqs WAITING (set_status FINISHED_IGNORED)) s"
  shows "groups_with cf sz C U s' \<and> only r s s' \<and> st_of s' r = FINISHED_IGNORED \<and> queues s' = queues s"
proof -
  let ?g = "sc_groups s r" and ?q = "seq_of s r"
  have ok: "single_ok cf ?g" by (rule groups_withD(2) [OF g r])
  define g1 where "g1 = map_seqs WAITING (set_status FINISHED_IGNORED) ?g"
  have g1: "sc_groups s' r = g1" by (simp add: s' g1_def)
  have seq1: "the_seq g1 = set_status FINISHED_IGNORED ?q" "sg_seqs g1 = [set_status FINISHED_IGNORED ?q]"
    using map_seqs_single [OF ok] st by (simp_all add: g1_def st_of_def seq_of_def)
  have ok1: "single_ok cf g1" using ok by (simp add: single_ok_def seq1) (auto simp: g1_def seq_of_def)
  have "ident g1 = ident ?g" using single_okD(1) [OF ok] by (simp add: ident_def seq1 seq_of_def) (simp add: g1_def)
  then have o1: "only r s s'" by (simp add: only_def g1) (simp add: s')
  have none: "C(id_of s r := None) = C" using groups_withD(3) [OF g r] st by (intro fun_upd_idem) simp
  have st1: "st_of s' r = FINISHED_IGNORED" by (simp add: st_of_eq g1 seq1)
  have "groups_with cf sz (C(id_of s r := None)) U s'"
    by (rule groups_with_update [OF g r o1]) (use ok1 st1 none groups_withD(1) [OF g] in \<open>simp_all add: g1, simp_all add: s'\<close>)
  with o1 st1 none show ?thesis by (simp add: s')
qed

end
