(* ===== verification/Sched_Running.thy ===== *)
theory Sched_Running
  imports Sched_Inv
begin

text \<open>
  The loop over the running queue is total on the invariant: every group of the queue is scheduled,
  preempted or left in the queue, the tables of the scheduled ones hold all their tokens, and the
  budget is exact.
\<close>

definition stage_of :: "scheduler \<Rightarrow> group_ref \<Rightarrow> seq_stage" where
  "stage_of s r = sd_stage (sq_data (seq_of s r))"

definition new_tokens :: "scheduler \<Rightarrow> group_ref \<Rightarrow> int" where
  "new_tokens s r = sq_num_new_tokens (seq_of s r)"

definition ro_all :: "running_outputs \<Rightarrow> scheduled" where
  "ro_all out = ro_decode out @ ro_prefill out"

text \<open>A scheduled chunk is one token of a decoding sequence, or a part of a prompt.\<close>

definition chunk_ok :: "scheduler \<Rightarrow> group_ref \<times> int \<Rightarrow> bool" where
  "chunk_ok s = (\<lambda>(r, n). st_of s r = RUNNING \<and> 0 < n \<and> n \<le> new_tokens s r \<and> (stage_of s r = DECODE \<longrightarrow> n = 1))"

definition run_groups ::
    "sched_config \<Rightarrow> nat \<Rightarrow> bool \<Rightarrow> group_ref set \<Rightarrow> group_ref list \<Rightarrow> scheduler \<Rightarrow> running_outputs \<Rightarrow> bool" where
  "run_groups cf sz c U queue s out \<longleftrightarrow>
     (\<exists>C. groups_with cf sz C U s \<and> (\<forall>x \<in> set (ro_all out). C (id_of s (fst x)) = Some (sq_tokens (seq_of s (fst x)))))
     \<and> distinct (queue @ map fst (ro_all out) @ ro_preempted out)
     \<and> set queue \<union> fst ` set (ro_all out) \<union> set (ro_preempted out) \<subseteq> U
     \<and> (\<forall>r \<in> set queue. st_of s r = RUNNING \<and> (\<not> c \<longrightarrow> stage_of s r = DECODE))
     \<and> (\<forall>x \<in> set (ro_all out). chunk_ok s x) \<and> (\<forall>r \<in> set (ro_preempted out). st_of s r = WAITING)
     \<and> (\<forall>x \<in> set (ro_decode out). stage_of s (fst x) = DECODE)
     \<and> (\<forall>x \<in> set (ro_prefill out). stage_of s (fst x) = PREFILL) \<and> (\<not> c \<longrightarrow> ro_prefill out = [])
     \<and> ro_swapped_out out = [] \<and> ro_blocks_out out = []"

definition run_budget :: "sched_config \<Rightarrow> bool \<Rightarrow> int \<Rightarrow> scheduler \<Rightarrow> budget \<Rightarrow> running_outputs \<Rightarrow> bool" where
  "run_budget cf c K s b out \<longleftrightarrow> bg_token_budget b = int (cf_max_num_batched_tokens cf) \<and> bg_max_num_seqs b = int (cf_max_num_seqs cf)
     \<and> bg_token_ids b = req_of s ` fst ` set (ro_all out)
     \<and> bg_num_batched_tokens b = sum_list (map snd (ro_all out))
     \<and> (c \<longrightarrow> bg_num_batched_tokens b \<le> bg_token_budget b \<and> bg_seq_ids b = req_of s ` fst ` set (ro_all out)
          \<and> bg_num_curr_seqs b = int (length (ro_all out)))
     \<and> (\<not> c \<longrightarrow> bg_num_curr_seqs b \<le> K)"

definition lora_inv :: "sched_config \<Rightarrow> loras \<Rightarrow> bool" where
  "lora_inv cf l \<longleftrightarrow> (lora_enabled cf \<longrightarrow> l \<noteq> None)"

fun run_inv :: "sched_config \<Rightarrow> nat \<Rightarrow> bool \<Rightarrow> int \<Rightarrow> group_ref set \<Rightarrow> group_ref list \<Rightarrow> rstate \<Rightarrow> bool" where
  "run_inv cf sz c K U queue (s, b, l, out) \<longleftrightarrow>
     run_groups cf sz c U queue s out \<and> run_budget cf c K s b out \<and> lora_inv cf l"

subsection \<open>Frames\<close>

lemma only_stage: "only r s s' \<Longrightarrow> x \<noteq> r \<Longrightarrow> stage_of s' x = stage_of s x \<and> new_tokens s' x = new_tokens s x"
  using only_same [of r s s' x] by (simp add: stage_of_def new_tokens_def)

lemma chunk_frame: "only r s s' \<Longrightarrow> fst x \<noteq> r \<Longrightarrow> chunk_ok s' x = chunk_ok s x"
  using only_same [of r s s' "fst x"] only_stage [of r s s' "fst x"] by (cases x) (simp add: chunk_ok_def)

lemma run_groups_single: "run_groups cf sz c U queue s out \<Longrightarrow> r \<in> U \<Longrightarrow> single_ok cf (sc_groups s r)"
  by (auto simp: run_groups_def groups_withD(2))

lemma run_groupsD:
  assumes "run_groups cf sz c U queue s out"
  shows "distinct (queue @ map fst (ro_all out) @ ro_preempted out)"
    and "set queue \<union> fst ` set (ro_all out) \<union> set (ro_preempted out) \<subseteq> U"
    and "r \<in> set queue \<Longrightarrow> st_of s r = RUNNING" and "r \<in> set queue \<Longrightarrow> \<not> c \<Longrightarrow> stage_of s r = DECODE"
    and "inj_on (req_of s) U"
  using assms by (auto simp: run_groups_def groups_with_def)

lemma run_groupsI:
  assumes "groups_with cf sz C U s"
    and "\<And>x. x \<in> set (ro_all out) \<Longrightarrow> C (id_of s (fst x)) = Some (sq_tokens (seq_of s (fst x)))"
    and "distinct (queue @ map fst (ro_all out) @ ro_preempted out)"
    and "set queue \<union> fst ` set (ro_all out) \<union> set (ro_preempted out) \<subseteq> U"
    and "\<And>r. r \<in> set queue \<Longrightarrow> st_of s r = RUNNING \<and> (\<not> c \<longrightarrow> stage_of s r = DECODE)"
    and "\<And>x. x \<in> set (ro_all out) \<Longrightarrow> chunk_ok s x" and "\<And>r. r \<in> set (ro_preempted out) \<Longrightarrow> st_of s r = WAITING"
    and "\<And>x. x \<in> set (ro_decode out) \<Longrightarrow> stage_of s (fst x) = DECODE"
    and "\<And>x. x \<in> set (ro_prefill out) \<Longrightarrow> stage_of s (fst x) = PREFILL" and "\<not> c \<Longrightarrow> ro_prefill out = []"
    and "ro_swapped_out out = []" "ro_blocks_out out = []"
  shows "run_groups cf sz c U queue s out"
  unfolding run_groups_def using assms by blast

lemma req_fresh:
  assumes inv: "run_groups cf sz c U (r # queue) s out"
  shows "req_of s r \<notin> req_of s ` fst ` set (ro_all out)"
proof -
  have "r \<in> U" "r \<notin> fst ` set (ro_all out)" "fst ` set (ro_all out) \<subseteq> U" "inj_on (req_of s) U"
    using run_groupsD [OF inv] by auto
  then show ?thesis by (auto simp: inj_on_def)
qed

text \<open>Between two states of a loop only the groups of the queue it works on change, and those keep their identity.\<close>

definition evolves :: "group_ref set \<Rightarrow> scheduler \<Rightarrow> scheduler \<Rightarrow> bool" where
  "evolves Q s s' \<longleftrightarrow> queues s' = queues s \<and> (\<forall>x. x \<notin> Q \<longrightarrow> sc_groups s' x = sc_groups s x)
     \<and> (\<forall>x. ident (sc_groups s' x) = ident (sc_groups s x))"

lemma evolves_refl [simp]: "evolves Q s s"
  by (simp add: evolves_def)

lemma evolves_trans: "evolves Q s s' \<Longrightarrow> evolves Q' s' s'' \<Longrightarrow> Q \<subseteq> P \<Longrightarrow> Q' \<subseteq> P \<Longrightarrow> evolves P s s''"
  unfolding evolves_def by (metis subsetD)

lemma evolves_idents: "evolves Q s s' \<Longrightarrow> same_idents s s'"
  by (simp add: evolves_def same_idents_def)

lemma only_evolves: "only r s s' \<Longrightarrow> queues s' = queues s \<Longrightarrow> r \<in> Q \<Longrightarrow> evolves Q s s'"
  unfolding evolves_def only_def by metis

lemma single_len: "single_ok cf g \<Longrightarrow> length (sg_seqs g) = 1"
  by (simp add: single_ok_def)

subsection \<open>The number of tokens of a running group\<close>

definition tokens_fit :: "bool \<Rightarrow> group_ref \<Rightarrow> int \<Rightarrow> scheduler \<Rightarrow> budget \<Rightarrow> bool" where
  "tokens_fit c r n s b \<longleftrightarrow> 0 < n \<and> n \<le> new_tokens s r \<and> (stage_of s r = DECODE \<longrightarrow> n = 1)
     \<and> (c \<longrightarrow> n \<le> remaining_token_budget b)"

lemma running_tokens:
  assumes cf: "config_ok cf" "c \<longrightarrow> cf_chunked_prefill_enabled cf" and ok: "single_ok cf (sc_groups s r)"
    and st: "st_of s r = st" and pos: "c \<longrightarrow> 0 \<le> remaining_token_budget b"
  shows "\<exists>n. get_num_new_tokens cf (sc_groups s r) st c b = Inr n \<and> (n = 0 \<longrightarrow> c \<and> remaining_token_budget b = 0)
    \<and> (n \<noteq> 0 \<longrightarrow> tokens_fit c r n s b) \<and> (\<not> c \<longrightarrow> n = new_tokens s r)"
proof -
  let ?n = "sq_num_new_tokens (the_seq (sc_groups s r))"
  have seqs: "get_seqs st (sc_groups s r) = [the_seq (sc_groups s r)]"
    using single_get_seqs [OF ok] st by (simp add: st_of_eq)
  have n: "0 < ?n" by (rule single_new_tokens(1) [OF ok])
  have d: "stage_of s r = DECODE \<Longrightarrow> ?n = 1" by (simp add: stage_of_def seq_of_def sq_num_new_tokens_def)
  have "get_num_new_tokens cf (sc_groups s r) st c b = Inr (if c then min ?n (remaining_token_budget b) else ?n)"
    using cf n by (auto simp: get_num_new_tokens_def seqs config_ok_def Let_def)
  then show ?thesis using n d pos by (auto simp: tokens_fit_def new_tokens_def seq_of_def)
qed

subsection \<open>The steps\<close>

lemma run_release:
  assumes inv: "run_inv cf sz c K U (r # queue) (s, b, l, out)"
  obtains b' l' where "release_share r n (s, b, l, out) = (s, b', l', out)"
    and "run_inv cf sz c K U (r # queue) (s, b', l', out)" and "remaining_token_budget b' = remaining_token_budget b"
proof -
  let ?i = "sg_request_id (sc_groups s r)" and ?g = "sc_groups s r"
  have g: "run_groups cf sz c U (r # queue) s out" and b: "run_budget cf c K s b out" and l: "lora_inv cf l" using inv by simp_all
  have f: "?i \<notin> req_of s ` fst ` set (ro_all out)" using req_fresh [OF g] by (simp add: req_of_def)
  define b' where "b' = subtract_num_seqs ?i (int (get_max_num_running_seqs ?g)) (subtract_num_batched_tokens ?i n b)"
  define l' where "l' = map_option (\<lambda>ids. if lora_int_id ?g > 0 \<and> lora_int_id ?g \<in> ids then ids - {lora_int_id ?g} else ids) l"
  have t: "subtract_num_batched_tokens ?i n b = b" using f b by (simp add: run_budget_def subtract_num_batched_tokens_def)
  have "run_budget cf c K s b' out"
    using f b by (auto simp: b'_def t run_budget_def subtract_num_seqs_def)
  moreover have "lora_inv cf l'" using l by (auto simp: lora_inv_def l'_def)
  moreover have "remaining_token_budget b' = remaining_token_budget b"
    by (simp add: b'_def t subtract_num_seqs_def remaining_token_budget_def)
  moreover have "release_share r n (s, b, l, out) = (s, b', l', out)"
    by (simp add: release_share_def b'_def l'_def Let_def)
  ultimately show ?thesis using g that by simp
qed

lemma run_victim:
  assumes cf: "config_ok cf" and inv: "run_inv cf sz c K U queue (s, b, l, out)" and v: "v \<in> set queue"
  shows "\<exists>s' out'. preempt_victim cf None v (s, b, l, out) = Inr (s', b, l, out')
    \<and> run_inv cf sz c K U (remove1 v queue) (s', b, l, out') \<and> only v s s' \<and> evolves (set queue) s s'"
proof -
  have g: "run_groups cf sz c U queue s out" and bu: "run_budget cf c K s b out" and l: "lora_inv cf l" using inv by simp_all
  from g obtain C where C: "groups_with cf sz C U s"
    and full: "\<forall>x \<in> set (ro_all out). C (id_of s (fst x)) = Some (sq_tokens (seq_of s (fst x)))"
    by (auto simp: run_groups_def)
  note d = run_groupsD [OF g]
  have vU: "v \<in> U" and st: "st_of s v = RUNNING" using d(2,3) v by auto
  from preempt_effect [OF cf C vU st] obtain s' where
    p: "preempt cf None v (ro_blocks_out out, s) = Inr (RECOMPUTE, ro_blocks_out out, s')" and
    C': "groups_with cf sz (C(id_of s v := None)) U s'" and o1: "only v s s'" and st': "st_of s' v = WAITING"
    and qu: "queues s' = queues s" by blast
  note o2 = onlyD [OF o1 single_len [OF run_groups_single [OF g vU]]]
  define out' where "out' = out\<lparr>ro_preempted := ro_preempted out @ [v]\<rparr>"
  have all: "ro_all out' = ro_all out" "ro_decode out' = ro_decode out" "ro_prefill out' = ro_prefill out"
    "ro_preempted out' = ro_preempted out @ [v]" "ro_swapped_out out' = ro_swapped_out out"
    "ro_blocks_out out' = ro_blocks_out out" by (simp_all add: out'_def ro_all_def)
  have run: "preempt_victim cf None v (s, b, l, out) = Inr (s', b, l, out')"
    using p by (simp add: preempt_victim_def out'_def)
  have nv: "x \<in> set (ro_all out) \<Longrightarrow> fst x \<noteq> v" for x using d(1) v by (force simp: image_iff)
  have np: "v \<notin> set (ro_preempted out)" using d(1) v by auto
  have dist: "distinct queue" using d(1) by simp
  have inj: "inj_on (id_of s) U" using C by (simp add: groups_with_def)
  have "\<forall>x \<in> set (ro_all out'). (C(id_of s v := None)) (id_of s' (fst x)) = Some (sq_tokens (seq_of s' (fst x)))"
  proof
    fix x assume x: "x \<in> set (ro_all out')"
    then have "fst x \<in> U" "fst x \<noteq> v" using d(2) nv all by auto
    then have "id_of s (fst x) \<noteq> id_of s v" using inj vU by (auto simp: inj_on_def)
    then show "(C(id_of s v := None)) (id_of s' (fst x)) = Some (sq_tokens (seq_of s' (fst x)))"
      using full x all o2(1,3) by simp
  qed
  moreover have "distinct (remove1 v queue @ map fst (ro_all out') @ ro_preempted out')"
    using d(1) v dist by (auto simp: all)
  moreover have "set (remove1 v queue) \<union> fst ` set (ro_all out') \<union> set (ro_preempted out') \<subseteq> U"
    using d(2) vU dist by (auto simp: all)
  moreover have "\<forall>r \<in> set (remove1 v queue). st_of s' r = RUNNING \<and> (\<not> c \<longrightarrow> stage_of s' r = DECODE)"
    using d(3,4) dist only_same [OF o1] only_stage [OF o1] by auto
  moreover have "\<forall>x \<in> set (ro_all out'). chunk_ok s' x"
    using g chunk_frame [OF o1 nv] by (simp add: all run_groups_def)
  moreover have w: "\<forall>r \<in> set (ro_preempted out). st_of s r = WAITING" using g by (simp add: run_groups_def)
  have "\<forall>r \<in> set (ro_preempted out'). st_of s' r = WAITING"
  proof
    fix r assume "r \<in> set (ro_preempted out')"
    then show "st_of s' r = WAITING" using w st' only_same [OF o1, of r] by (cases "r = v") (simp_all add: all)
  qed
  moreover have "stage_of s' (fst x) = stage_of s (fst x)" if "x \<in> set (ro_all out)" for x
    using only_stage [OF o1 nv [OF that]] by blast
  then have "\<forall>x \<in> set (ro_decode out'). stage_of s' (fst x) = DECODE" "\<forall>x \<in> set (ro_prefill out'). stage_of s' (fst x) = PREFILL"
    using g by (simp_all add: all run_groups_def ro_all_def)
  ultimately have "run_groups cf sz c U (remove1 v queue) s' out'"
    by (intro run_groupsI [OF C']) (use g in \<open>auto simp: run_groups_def all\<close>)
  moreover have "run_budget cf c K s' b out'" using bu by (auto simp: run_budget_def all o2(2))
  ultimately show ?thesis using run l o1 only_evolves [OF o1 qu v] by auto
qed

lemma run_schedule:
  assumes cf: "config_ok cf" "c \<longrightarrow> cf_chunked_prefill_enabled cf"
    and inv: "run_inv cf sz c K U (r # queue) (s, b, l, out)"
    and fits: "sc_can_append_slots cf c r s = Inr True" and tf: "tokens_fit c r n s b"
  shows "\<exists>x'. schedule_group cf c r n (s, b, l, out) = Inr x' \<and> run_inv cf sz c K U queue x' \<and> evolves {r} s (fst x')"
proof -
  have g: "run_groups cf sz c U (r # queue) s out" and bu: "run_budget cf c K s b out" and l: "lora_inv cf l" using inv by simp_all
  from g obtain C where C: "groups_with cf sz C U s"
    and full: "\<forall>x \<in> set (ro_all out). C (id_of s (fst x)) = Some (sq_tokens (seq_of s (fst x)))"
    by (auto simp: run_groups_def)
  note d = run_groupsD [OF g]
  have rU: "r \<in> U" and st: "st_of s r = RUNNING" using d(2,3) by auto
  have ok: "single_ok cf (sc_groups s r)" by (rule groups_withD(2) [OF C rU])
  from append_effect [OF cf C rU st fits, of "ro_copy out"] obtain cs s' where
    a: "sc_append_slots cf c r (ro_copy out, s) = Inr (cs, s')" and
    C': "groups_with cf sz (C(id_of s r \<mapsto> sq_tokens (seq_of s r))) U s'" and o1: "only r s s'" and
    sq: "seq_of s' = seq_of s" and qu: "queues s' = queues s" by blast
  note o2 = onlyD [OF o1 single_len [OF ok]]
  have ok': "single_ok cf (sc_groups s' r)" by (rule groups_withD(2) [OF C' rU])
  have sts: "st_of s' = st_of s" "stage_of s' = stage_of s" "new_tokens s' = new_tokens s" "chunk_ok s' = chunk_ok s"
    using sq by (simp_all add: st_of_def stage_of_def new_tokens_def chunk_ok_def fun_eq_iff)
  have pf: "sg_is_prefill (sc_groups s' r) = Inr (stage_of s r = PREFILL)"
    using single_prefill [OF ok'] by (simp add: stage_of_def seq_of_def flip: sq)
  have req: "sg_request_id (sc_groups s' r) = req_of s r" using o2(2) by (simp add: req_of_def fun_eq_iff)
  have "\<not> sq_finished (the_seq (sc_groups s' r))"
    using st sts(1) by (simp add: sq_finished_def status_finished_def fun_eq_iff st_of_eq)
  note one = single_running [OF ok' this]
  define out' where "out' = (if stage_of s r = PREFILL then out\<lparr>ro_copy := cs, ro_prefill := ro_prefill out @ [(r, n)]\<rparr>
    else out\<lparr>ro_copy := cs, ro_decode := ro_decode out @ [(r, 1)]\<rparr>)"
  define b' where "b' = (if c then add_num_seqs (req_of s r) 1 (add_num_batched_tokens (req_of s r) n b)
    else add_num_batched_tokens (req_of s r) n b)"
  define l' where "l' = map_option (\<lambda>ids. if lora_int_id (sc_groups s' r) > 0 then insert (lora_int_id (sc_groups s' r)) ids else ids) l"
  have run: "schedule_group cf c r n (s, b, l, out) = Inr (s', b', l', out')"
    by (simp add: schedule_group_def a pf one req Let_def b'_def l'_def out'_def)
  have n: "stage_of s r \<noteq> PREFILL \<Longrightarrow> n = 1" using tf by (cases "stage_of s r") (auto simp: tokens_fit_def)
  have set_all: "set (ro_all out') = insert (r, n) (set (ro_all out))" "ro_preempted out' = ro_preempted out"
    "mset (ro_all out') = add_mset (r, n) (mset (ro_all out))"
    "ro_swapped_out out' = ro_swapped_out out" "ro_blocks_out out' = ro_blocks_out out"
    using n by (auto simp: out'_def ro_all_def)
  have len: "length (ro_all out') = Suc (length (ro_all out))" using set_all(3) by (metis size_add_mset size_mset)
  have sum: "sum_list (map snd (ro_all out')) = sum_list (map snd (ro_all out)) + n"
    using arg_cong [OF set_all(3), of "\<lambda>M. sum_mset (image_mset snd M)"] by (simp add: sum_mset_sum_list flip: mset_map)
  have new: "(r, n) \<notin> set (ro_all out)" "r \<notin> fst ` set (ro_all out)" using d(1) by force+
  have inj: "inj_on (id_of s) U" using C by (simp add: groups_with_def)
  have "\<forall>x \<in> set (ro_all out'). (C(id_of s r \<mapsto> sq_tokens (seq_of s r))) (id_of s' (fst x)) = Some (sq_tokens (seq_of s' (fst x)))"
  proof
    fix x assume x: "x \<in> set (ro_all out')"
    show "(C(id_of s r \<mapsto> sq_tokens (seq_of s r))) (id_of s' (fst x)) = Some (sq_tokens (seq_of s' (fst x)))"
    proof (cases "fst x = r")
      case False
      then have "x \<in> set (ro_all out)" "fst x \<in> U" using x d(2) by (auto simp: set_all)
      then have "id_of s (fst x) \<noteq> id_of s r" using inj rU False by (auto simp: inj_on_def)
      then show ?thesis using full \<open>x \<in> set (ro_all out)\<close> by (simp add: o2(1) sq)
    qed (simp add: o2(1) sq)
  qed
  moreover have "distinct (queue @ map fst (ro_all out') @ ro_preempted out')"
    using d(1) by (auto simp: out'_def ro_all_def)
  moreover have "chunk_ok s (r, n)" using tf st by (simp add: chunk_ok_def tokens_fit_def)
  moreover have "x \<in> set (ro_decode out') \<Longrightarrow> stage_of s (fst x) = DECODE" for x
    using g by (cases "stage_of s r") (auto simp: out'_def run_groups_def split: if_splits)
  moreover have "x \<in> set (ro_prefill out') \<Longrightarrow> stage_of s (fst x) = PREFILL" for x
    using g by (auto simp: out'_def run_groups_def split: if_splits)
  moreover have "\<not> c \<Longrightarrow> ro_prefill out' = []" using g by (simp add: out'_def run_groups_def)
  ultimately have "run_groups cf sz c U queue s' out'"
    by (intro run_groupsI [OF C']) (use g in \<open>auto simp: run_groups_def set_all sts\<close>)
  moreover have "run_budget cf c K s' b' out'"
  proof -
    have "req_of s r \<notin> req_of s ` fst ` set (ro_all out)" by (rule req_fresh [OF g])
    then show ?thesis using bu tf
      by (auto simp: run_budget_def b'_def o2(2) set_all(1) sum len add_num_batched_tokens_def add_num_seqs_def
          tokens_fit_def remaining_token_budget_def)
  qed
  moreover have "lora_inv cf l'" using l by (auto simp: lora_inv_def l'_def)
  ultimately show ?thesis using run only_evolves [OF o1 qu, of "{r}"] by auto
qed

text \<open>The loop over the running queue returns, and keeps its invariant to the end.\<close>

lemma run_can_append:
  assumes "run_inv cf sz c K U (r # queue) (s, b, l, out)"
  shows "\<exists>fits. sc_can_append_slots cf c r s = Inr fits"
proof -
  have g: "run_groups cf sz c U (r # queue) s out" using assms by simp
  then obtain C where C: "groups_with cf sz C U s" by (auto simp: run_groups_def)
  show ?thesis by (rule can_append_total [OF C]) (use run_groupsD [OF g] in auto)
qed

lemma run_nonneg:
  "run_inv cf sz c K U queue (s, b, l, out) \<Longrightarrow> c \<longrightarrow> 0 \<le> remaining_token_budget b"
  by (auto simp: run_budget_def remaining_token_budget_def)

lemma tokens_fit_cong:
  "tokens_fit c r n s b \<Longrightarrow> only v s s' \<Longrightarrow> v \<noteq> r \<Longrightarrow> remaining_token_budget b' = remaining_token_budget b \<Longrightarrow> tokens_fit c r n s' b'"
  using only_stage [of v s s' r] by (auto simp: tokens_fit_def)

lemma remove1_last: "distinct queue \<Longrightarrow> queue \<noteq> [] \<Longrightarrow> remove1 (last queue) queue = butlast queue"
  by (induction queue rule: rev_induct) (auto simp: remove1_append)

lemma make_room_total:
  assumes cf: "config_ok cf" and inv: "run_inv cf sz c K U (r # queue) x" and tf: "tokens_fit c r n (fst x) (fst (snd x))"
  shows "\<exists>ok queue' x'. make_room cf None c r n queue x = Inr (ok, queue', x') \<and> evolves (set (r # queue)) (fst x) (fst x')
    \<and> set queue' \<subseteq> set queue
    \<and> (if ok then run_inv cf sz c K U (r # queue') x' \<and> tokens_fit c r n (fst x') (fst (snd x'))
          \<and> sc_can_append_slots cf c r (fst x') = Inr True
       else queue' = [] \<and> run_inv cf sz c K U [] x')"
  using inv tf
proof (induction "length queue" arbitrary: queue x)
  case 0
  obtain s b l out where x: "x = (s, b, l, out)" by (rule prod_cases4)
  have q: "queue = []" using 0 by simp
  note inv = "0.prems"(1) [unfolded x q] and tf = "0.prems"(2)
  obtain fits where f: "sc_can_append_slots cf c r s = Inr fits" using run_can_append [OF inv] by blast
  show ?case
  proof (cases fits)
    case True
    then show ?thesis using f inv tf by (subst make_room.simps) (auto simp: x q)
  next
    case False
    obtain b' l' where rel: "release_share r n (s, b, l, out) = (s, b', l', out)"
      and inv': "run_inv cf sz c K U [r] (s, b', l', out)" using run_release [OF inv] by metis
    from run_victim [OF cf inv', of r] obtain s' out' where
      "preempt_victim cf None r (s, b', l', out) = Inr (s', b', l', out')"
      "run_inv cf sz c K U [] (s', b', l', out')" "evolves {r} s s'" by auto
    then show ?thesis using f False by (subst make_room.simps) (auto simp: x q rel)
  qed
next
  case (Suc k)
  obtain s b l out where x: "x = (s, b, l, out)" by (rule prod_cases4)
  have q: "queue \<noteq> []" using Suc.hyps(2) by auto
  note inv = "Suc.prems"(1) [unfolded x]
  have tf: "tokens_fit c r n s b" using "Suc.prems"(2) by (simp add: x)
  obtain fits where f: "sc_can_append_slots cf c r s = Inr fits" using run_can_append [OF inv] by blast
  show ?case
  proof (cases fits)
    case True
    then show ?thesis using f inv tf by (subst make_room.simps) (auto simp: x)
  next
    case False
    obtain b' l' where rel: "release_share r n (s, b, l, out) = (s, b', l', out)"
      and inv': "run_inv cf sz c K U (r # queue) (s, b', l', out)"
      and rem: "remaining_token_budget b' = remaining_token_budget b" using run_release [OF inv] by metis
    have dist: "distinct (r # queue)" using inv by (simp add: run_groups_def)
    have lst: "last queue \<in> set queue" using q by simp
    then have nr: "last queue \<noteq> r" using dist by auto
    have rm: "remove1 (last queue) (r # queue) = r # butlast queue" using nr dist q by (simp add: remove1_last)
    from run_victim [OF cf inv', of "last queue"] lst obtain s' out' where
      p: "preempt_victim cf None (last queue) (s, b', l', out) = Inr (s', b', l', out')" and
      i: "run_inv cf sz c K U (r # butlast queue) (s', b', l', out')" and
      o1: "only (last queue) s s'" and e: "evolves (set (r # queue)) s s'" by (auto simp only: rm list.set insert_iff)
    have step: "make_room cf None c r n queue x = make_room cf None c r n (butlast queue) (s', b', l', out')"
      using f False q by (subst make_room.simps) (simp add: x rel p)
    have "k = length (butlast queue)" using Suc.hyps(2) by simp
    from Suc.hyps(1) [OF this i] tokens_fit_cong [OF tf o1 nr rem] obtain ok queue' x' where
      m: "make_room cf None c r n (butlast queue) (s', b', l', out') = Inr (ok, queue', x')" and
      e': "evolves (set (r # butlast queue)) s' (fst x')" and sub: "set queue' \<subseteq> set (butlast queue)" and
      res: "if ok then run_inv cf sz c K U (r # queue') x' \<and> tokens_fit c r n (fst x') (fst (snd x'))
          \<and> sc_can_append_slots cf c r (fst x') = Inr True
       else queue' = [] \<and> run_inv cf sz c K U [] x'" by auto
    have bl: "set (butlast queue) \<subseteq> set queue" by (auto dest: in_set_butlastD)
    have "evolves (set (r # queue)) s (fst x')" by (rule evolves_trans [OF e e']) (use bl in auto)
    moreover have "set queue' \<subseteq> set queue" using sub bl by auto
    ultimately show ?thesis using m res by (simp only: step) (auto simp: x)
  qed
qed

lemma running_loop_total:
  assumes cf: "config_ok cf" "c \<longrightarrow> cf_chunked_prefill_enabled cf" and inv: "run_inv cf sz c K U queue x"
  shows "\<exists>queue' x'. running_loop cf None c queue x = Inr (queue', x') \<and> run_inv cf sz c K U queue' x'
    \<and> evolves (set queue) (fst x) (fst x') \<and> set queue' \<subseteq> set queue
    \<and> (queue' \<noteq> [] \<longrightarrow> c \<and> remaining_token_budget (fst (snd x')) = 0)"
  using inv
proof (induction "length queue" arbitrary: queue x rule: less_induct)
  case less
  show ?case
  proof (cases queue)
    case Nil
    then show ?thesis using less.prems by simp
  next
    case (Cons r rest)
    obtain s b l out where x: "x = (s, b, l, out)" by (rule prod_cases4)
    note inv = less.prems [unfolded Cons x]
    have g: "run_groups cf sz c U (r # rest) s out" using inv by simp
    have rU: "r \<in> U" and st: "st_of s r = RUNNING" using run_groupsD [OF g] by auto
    obtain n where n: "get_num_new_tokens cf (sc_groups s r) RUNNING c b = Inr n"
      and z: "n = 0 \<longrightarrow> c \<and> remaining_token_budget b = 0" and tf: "n \<noteq> 0 \<longrightarrow> tokens_fit c r n s b"
      using running_tokens [OF cf run_groups_single [OF g rU] st run_nonneg [OF inv]] by blast
    show ?thesis
    proof (cases "n = 0")
      case True
      then show ?thesis using n z inv by (simp add: Cons x running_loop.simps(2))
    next
      case False
      then have tf: "tokens_fit c r n s b" using tf by blast
      from make_room_total [OF cf(1) inv, of n] tf obtain ok queue1 x1 where
        m: "make_room cf None c r n rest (s, b, l, out) = Inr (ok, queue1, x1)" and
        e1: "evolves (set (r # rest)) s (fst x1)" and sub: "set queue1 \<subseteq> set rest" and
        res: "if ok then run_inv cf sz c K U (r # queue1) x1 \<and> tokens_fit c r n (fst x1) (fst (snd x1))
            \<and> sc_can_append_slots cf c r (fst x1) = Inr True
         else queue1 = [] \<and> run_inv cf sz c K U [] x1" by auto
      have len: "length queue1 < length queue" using make_room_shrinks [OF m] by (simp add: Cons)
      show ?thesis
      proof (cases ok)
        case True
        obtain s1 b1 l1 out1 where x1: "x1 = (s1, b1, l1, out1)" by (rule prod_cases4)
        from res True have i1: "run_inv cf sz c K U (r # queue1) (s1, b1, l1, out1)" "tokens_fit c r n s1 b1"
          "sc_can_append_slots cf c r s1 = Inr True" by (simp_all add: x1 del: run_inv.simps)
        from run_schedule [OF cf i1(1,3,2)] obtain x2 where
          sg: "schedule_group cf c r n (s1, b1, l1, out1) = Inr x2" and i2: "run_inv cf sz c K U queue1 x2"
          and e2: "evolves {r} s1 (fst x2)" by blast
        from less.hyps [OF len i2] obtain queue' x' where
          "running_loop cf None c queue1 x2 = Inr (queue', x')" and i': "run_inv cf sz c K U queue' x'"
          and e3: "evolves (set queue1) (fst x2) (fst x')" and sub': "set queue' \<subseteq> set queue1"
          and z': "queue' \<noteq> [] \<longrightarrow> c \<and> remaining_token_budget (fst (snd x')) = 0" by blast
        moreover have "running_loop cf None c queue x = running_loop cf None c queue1 x2"
          using False True n m sg by (simp add: Cons x running_loop.simps(2) x1)
        moreover have "evolves (set (r # rest)) s (fst x2)"
          by (rule evolves_trans [OF e1 e2 [folded fst_conv [of s1 "(b1, l1, out1)", folded x1]]]) auto
        then have "evolves (set queue) (fst x) (fst x')"
          using evolves_trans [OF _ e3, of "set (r # rest)" s "set queue"] sub by (auto simp: Cons x)
        ultimately show ?thesis using sub by (auto simp: Cons)
      next
        case no: False
        then have "running_loop cf None c queue x = Inr ([], x1)"
          using False n m res by (simp add: Cons x running_loop.simps(2))
        then show ?thesis using res no e1 by (simp add: Cons x)
      qed
    qed
  qed
qed

end
