(* ===== verification/Sched_Prefill.thy ===== *)
theory Sched_Prefill
  imports Sched_Running Sched_Queues
begin

text \<open>
  The loop over the waiting queue is total on the invariant: it starts, ignores, skips or leaves every
  group of the queue, and stays within the budget. \<open>A\<close> are the groups that the step has scheduled
  before, \<open>N\<close> their tokens, \<open>K\<close> the sequences counted before, and \<open>b0\<close> the budget then.
\<close>

definition prompt_ok :: "scheduler \<Rightarrow> bool \<Rightarrow> group_ref \<times> int \<Rightarrow> bool" where
  "prompt_ok s c = (\<lambda>(r, n). st_of s r = RUNNING \<and> stage_of s r = PREFILL \<and> 0 < n \<and> n \<le> new_tokens s r
     \<and> (\<not> c \<longrightarrow> n = new_tokens s r))"

definition pre_groups ::
    "sched_config \<Rightarrow> nat \<Rightarrow> bool \<Rightarrow> group_ref set \<Rightarrow> group_ref set \<Rightarrow> group_ref list \<Rightarrow> group_ref list \<Rightarrow> scheduler
      \<Rightarrow> prefill_outputs \<Rightarrow> bool" where
  "pre_groups cf sz c U A queue leftover s out \<longleftrightarrow>
     (\<exists>C. groups_with cf sz C U s \<and> (\<forall>x \<in> A \<union> fst ` set (po_groups out). C (id_of s x) = Some (sq_tokens (seq_of s x))))
     \<and> distinct (queue @ leftover @ map fst (po_groups out) @ po_ignored out)
     \<and> set queue \<union> set leftover \<union> fst ` set (po_groups out) \<union> set (po_ignored out) \<subseteq> U - A \<and> A \<subseteq> U
     \<and> (\<forall>r \<in> set queue \<union> set leftover. st_of s r = WAITING)
     \<and> (\<forall>x \<in> set (po_groups out). prompt_ok s c x) \<and> (\<forall>r \<in> set (po_ignored out). st_of s r = FINISHED_IGNORED)"

definition pre_budget ::
    "sched_config \<Rightarrow> int \<Rightarrow> int \<Rightarrow> budget \<Rightarrow> scheduler \<Rightarrow> group_ref set \<Rightarrow> budget \<Rightarrow> prefill_outputs \<Rightarrow> bool" where
  "pre_budget cf K N b0 s Q b out \<longleftrightarrow>
     bg_token_budget b = int (cf_max_num_batched_tokens cf) \<and> bg_max_num_seqs b = int (cf_max_num_seqs cf)
     \<and> (po_groups out = [] \<longrightarrow> b = b0) \<and> bg_num_batched_tokens b = N + sum_list (map snd (po_groups out))
     \<and> bg_num_curr_seqs b = K + int (length (po_groups out))
     \<and> bg_num_batched_tokens b \<le> bg_token_budget b \<and> bg_num_curr_seqs b \<le> bg_max_num_seqs b
     \<and> bg_token_ids b \<inter> req_of s ` Q = {} \<and> bg_seq_ids b \<inter> req_of s ` Q = {}"

fun pre_inv ::
    "sched_config \<Rightarrow> nat \<Rightarrow> bool \<Rightarrow> group_ref set \<Rightarrow> group_ref set \<Rightarrow> int \<Rightarrow> int \<Rightarrow> budget
      \<Rightarrow> group_ref list \<Rightarrow> group_ref list \<Rightarrow> prefill_state \<Rightarrow> bool" where
  "pre_inv cf sz c U A K N b0 queue leftover (s, b, l, out) \<longleftrightarrow>
     pre_groups cf sz c U A queue leftover s out \<and> pre_budget cf K N b0 s (set queue \<union> set leftover) b out
     \<and> lora_inv cf l"

lemma pre_groupsI:
  assumes "groups_with cf sz C U s"
    and "\<And>x. x \<in> A \<Longrightarrow> C (id_of s x) = Some (sq_tokens (seq_of s x))"
    and "\<And>x. x \<in> set (po_groups out) \<Longrightarrow> C (id_of s (fst x)) = Some (sq_tokens (seq_of s (fst x)))"
    and "distinct (queue @ leftover @ map fst (po_groups out) @ po_ignored out)"
    and "set queue \<union> set leftover \<union> fst ` set (po_groups out) \<union> set (po_ignored out) \<subseteq> U - A" and "A \<subseteq> U"
    and "\<And>r. r \<in> set queue \<union> set leftover \<Longrightarrow> st_of s r = WAITING"
    and "\<And>x. x \<in> set (po_groups out) \<Longrightarrow> prompt_ok s c x"
    and "\<And>r. r \<in> set (po_ignored out) \<Longrightarrow> st_of s r = FINISHED_IGNORED"
  shows "pre_groups cf sz c U A queue leftover s out"
  unfolding pre_groups_def using assms by blast

lemma pre_groupsE:
  assumes "pre_groups cf sz c U A queue leftover s out"
  obtains C where "groups_with cf sz C U s"
    and "\<And>x. x \<in> A \<Longrightarrow> C (id_of s x) = Some (sq_tokens (seq_of s x))"
    and "\<And>x. x \<in> set (po_groups out) \<Longrightarrow> C (id_of s (fst x)) = Some (sq_tokens (seq_of s (fst x)))"
    and "distinct (queue @ leftover @ map fst (po_groups out) @ po_ignored out)"
    and "set queue \<union> set leftover \<union> fst ` set (po_groups out) \<union> set (po_ignored out) \<subseteq> U - A" and "A \<subseteq> U"
    and "\<And>r. r \<in> set queue \<union> set leftover \<Longrightarrow> st_of s r = WAITING"
    and "\<And>x. x \<in> set (po_groups out) \<Longrightarrow> prompt_ok s c x"
    and "\<And>r. r \<in> set (po_ignored out) \<Longrightarrow> st_of s r = FINISHED_IGNORED"
proof -
  from assms obtain C where C: "groups_with cf sz C U s"
    and full: "\<forall>x \<in> A \<union> fst ` set (po_groups out). C (id_of s x) = Some (sq_tokens (seq_of s x))"
    by (auto simp: pre_groups_def)
  show ?thesis by (rule that [OF C]) (use full assms in \<open>simp_all add: pre_groups_def\<close>)
qed

text \<open>The loop changes no queue but its own.\<close>

definition evolves_waiting :: "group_ref set \<Rightarrow> scheduler \<Rightarrow> scheduler \<Rightarrow> bool" where
  "evolves_waiting Q s s' \<longleftrightarrow> evolves Q (s\<lparr>sc_waiting := []\<rparr>) (s'\<lparr>sc_waiting := []\<rparr>)"

lemma evolves_waiting_refl [simp]: "evolves_waiting Q s s"
  by (simp add: evolves_waiting_def)

lemma evolves_waiting_trans:
  "evolves_waiting Q s s' \<Longrightarrow> evolves_waiting Q' s' s'' \<Longrightarrow> Q \<subseteq> P \<Longrightarrow> Q' \<subseteq> P \<Longrightarrow> evolves_waiting P s s''"
  unfolding evolves_waiting_def by (rule evolves_trans)

lemma only_evolves_waiting: "only r s s' \<Longrightarrow> queues s' = queues s \<Longrightarrow> r \<in> Q \<Longrightarrow> evolves_waiting Q s s'"
  unfolding evolves_waiting_def by (rule only_evolves) (auto simp: only_def queues_def)

subsection \<open>The steps\<close>

lemma delay_same:
  assumes "passed_delay cf t (s\<lparr>sc_waiting := w\<rparr>) = (p, s')"
  shows "sc_groups s' = sc_groups s" "sc_mem s' = sc_mem s" "evolves_waiting Q s s'"
  using assms by (auto simp: passed_delay_def Let_def evolves_waiting_def evolves_def queues_def split: if_splits)

lemma same_groups:
  assumes "sc_groups s' = sc_groups s"
  shows "seq_of s' = seq_of s" "st_of s' = st_of s" "id_of s' = id_of s" "req_of s' = req_of s"
    "stage_of s' = stage_of s" "new_tokens s' = new_tokens s"
  using assms by (simp_all add: fun_eq_iff seq_of_def st_of_def id_of_def req_of_def stage_of_def new_tokens_def)

lemma groups_with_same:
  assumes "sc_groups s' = sc_groups s" and "sc_mem s' = sc_mem s"
  shows "groups_with cf sz C U s' = groups_with cf sz C U s"
  using same_groups [OF assms(1)] assms by (simp add: groups_with_def)

lemma pre_same:
  assumes "sc_groups s' = sc_groups s" and "sc_mem s' = sc_mem s"
  shows "pre_inv cf sz c U A K N b0 queue leftover (s', b, l, out) = pre_inv cf sz c U A K N b0 queue leftover (s, b, l, out)"
  using same_groups [OF assms(1)] groups_with_same [OF assms]
  by (simp add: pre_groups_def pre_budget_def prompt_ok_def)

lemma pre_skip:
  "pre_inv cf sz c U A K N b0 (r # queue) leftover x \<Longrightarrow> pre_inv cf sz c U A K N b0 queue (r # leftover) x"
  by (cases x rule: prod_cases4) (auto simp: pre_groups_def pre_budget_def)

lemma pre_ignore:
  assumes inv: "pre_inv cf sz c U A K N b0 (r # queue) leftover (s, b, l, out)"
  obtains s' out' where "ignore_waiting r (s, b, l, out) = (s', b, l, out')"
    and "pre_inv cf sz c U A K N b0 queue leftover (s', b, l, out')" and "evolves_waiting {r} s s'"
proof -
  have g: "pre_groups cf sz c U A (r # queue) leftover s out" and bu: "pre_budget cf K N b0 s (set (r # queue) \<union> set leftover) b out"
    and l: "lora_inv cf l" using inv by simp_all
  from g show ?thesis
  proof (rule pre_groupsE)
    fix C assume C: "groups_with cf sz C U s"
      and A: "\<And>x. x \<in> A \<Longrightarrow> C (id_of s x) = Some (sq_tokens (seq_of s x))"
      and full: "\<And>x. x \<in> set (po_groups out) \<Longrightarrow> C (id_of s (fst x)) = Some (sq_tokens (seq_of s (fst x)))"
      and d: "distinct ((r # queue) @ leftover @ map fst (po_groups out) @ po_ignored out)"
      and sub: "set (r # queue) \<union> set leftover \<union> fst ` set (po_groups out) \<union> set (po_ignored out) \<subseteq> U - A" "A \<subseteq> U"
      and st: "\<And>x. x \<in> set (r # queue) \<union> set leftover \<Longrightarrow> st_of s x = WAITING"
      and so: "\<And>x. x \<in> set (po_groups out) \<Longrightarrow> prompt_ok s c x"
      and ig: "\<And>x. x \<in> set (po_ignored out) \<Longrightarrow> st_of s x = FINISHED_IGNORED"
    define s' where "s' = upd_group r (map_seqs WAITING (set_status FINISHED_IGNORED)) s"
    define out' where "out' = out\<lparr>po_ignored := po_ignored out @ [r]\<rparr>"
    have rU: "r \<in> U" "st_of s r = WAITING" using sub st by auto
    from ignore_effect [OF C rU s'_def] have C': "groups_with cf sz C U s'" and o1: "only r s s'"
      and st': "st_of s' r = FINISHED_IGNORED" and qu: "queues s' = queues s" by blast+
    note o2 = onlyD [OF o1 single_len [OF groups_withD(2) [OF C rU(1)]]]
    have same: "st_of s' x = st_of s x" "stage_of s' x = stage_of s x" "new_tokens s' x = new_tokens s x" if "x \<noteq> r" for x
      using only_same [OF o1 that] only_stage [OF o1 that] by auto
    have st1: "st_of s' x = WAITING" if "x \<in> set queue \<union> set leftover" for x
    proof -
      have "x \<noteq> r" using that d by auto
      then show ?thesis using st [of x] that same by simp
    qed
    have ig1: "st_of s' x = FINISHED_IGNORED" if "x \<in> set (po_ignored out)" for x
    proof -
      have "x \<noteq> r" using that d by auto
      then show ?thesis using ig [OF that] same by simp
    qed
    have "prompt_ok s' c x" if "x \<in> set (po_groups out)" for x
    proof -
      have "fst x \<noteq> r" using d that by auto
      then show ?thesis using so [OF that] same [of "fst x"] by (cases x) (simp add: prompt_ok_def)
    qed
    then have "pre_groups cf sz c U A queue leftover s' out'"
      by (intro pre_groupsI [OF C']) (use A full d sub st1 ig1 st' in \<open>auto simp: o2 out'_def\<close>)
    moreover have "pre_budget cf K N b0 s' (set queue \<union> set leftover) b out'"
      using bu by (auto simp: pre_budget_def o2 out'_def)
    ultimately show ?thesis using l only_evolves_waiting [OF o1 qu, of "{r}"]
      by (intro that [of s' out']) (simp_all add: ignore_waiting_def s'_def out'_def)
  qed
qed

lemma pre_start:
  assumes cf: "config_ok cf" "c \<longrightarrow> cf_chunked_prefill_enabled cf"
    and inv: "pre_inv cf sz c U A K N b0 (r # queue) leftover (s, b, l, out)"
    and fits: "can_allocate (sc_groups s r) 0 (snd (sc_mem s)) = Inr OK"
    and n: "0 < n" "n \<le> new_tokens s r" "\<not> c \<longrightarrow> n = new_tokens s r"
    and room: "can_schedule n 1 b = Inr True"
  shows "\<exists>s' x'. start_prefill cf c r 0 n 1 (s, b, l, out) = Inr (s', x')
    \<and> pre_inv cf sz c U A K N b0 queue leftover (s', x') \<and> evolves_waiting {r} s s'"
proof -
  have g: "pre_groups cf sz c U A (r # queue) leftover s out" and bu: "pre_budget cf K N b0 s (set (r # queue) \<union> set leftover) b out"
    and l: "lora_inv cf l" using inv by simp_all
  from g show ?thesis
  proof (rule pre_groupsE)
    fix C assume C: "groups_with cf sz C U s"
      and A: "\<And>x. x \<in> A \<Longrightarrow> C (id_of s x) = Some (sq_tokens (seq_of s x))"
      and full: "\<And>x. x \<in> set (po_groups out) \<Longrightarrow> C (id_of s (fst x)) = Some (sq_tokens (seq_of s (fst x)))"
      and d: "distinct ((r # queue) @ leftover @ map fst (po_groups out) @ po_ignored out)"
      and sub: "set (r # queue) \<union> set leftover \<union> fst ` set (po_groups out) \<union> set (po_ignored out) \<subseteq> U - A" "A \<subseteq> U"
      and st: "\<And>x. x \<in> set (r # queue) \<union> set leftover \<Longrightarrow> st_of s x = WAITING"
      and so: "\<And>x. x \<in> set (po_groups out) \<Longrightarrow> prompt_ok s c x"
      and ig: "\<And>x. x \<in> set (po_ignored out) \<Longrightarrow> st_of s x = FINISHED_IGNORED"
    define out' where "out' = out\<lparr>po_groups := po_groups out @ [(r, n)]\<rparr>"
    define b' where "b' = add_num_seqs (req_of s r) 1 (add_num_batched_tokens (req_of s r) n b)"
    have rU: "r \<in> U" "st_of s r = WAITING" using sub st by auto
    have ok: "single_ok cf (sc_groups s r)" by (rule groups_withD(2) [OF C rU(1)])
    from start_effect [OF cf C rU fits refl, of n 1 b l out] obtain s' where
      run: "start_prefill cf c r 0 n 1 (s, b, l, out) = Inr (s', b', add_lora cf (sc_groups s' r) l, out')" and
      C': "groups_with cf sz (C(id_of s r \<mapsto> sq_tokens (seq_of s r))) U s'" and o1: "only r s s'" and
      st': "st_of s' r = RUNNING" and sd: "sq_data (seq_of s' r) = sq_data (seq_of s r)" and qu: "queues s' = queues s"
      by (auto simp: out'_def b'_def)
    note o2 = onlyD [OF o1 single_len [OF ok]]
    have same: "st_of s' x = st_of s x" "stage_of s' x = stage_of s x" "new_tokens s' x = new_tokens s x" if "x \<noteq> r" for x
      using only_same [OF o1 that] only_stage [OF o1 that] by auto
    have st1: "st_of s' x = WAITING" if "x \<in> set queue \<union> set leftover" for x
    proof -
      have "x \<noteq> r" using that d by auto
      then show ?thesis using st [of x] that same by simp
    qed
    have ig1: "st_of s' x = FINISHED_IGNORED" if "x \<in> set (po_ignored out)" for x
    proof -
      have "x \<noteq> r" using that d by auto
      then show ?thesis using ig [OF that] same by simp
    qed
    have pre: "stage_of s r = PREFILL" using ok rU(2) by (simp add: single_ok_def st_of_eq stage_of_def seq_of_def)
    have nr: "stage_of s' r = stage_of s r" "new_tokens s' r = new_tokens s r"
      using sd by (simp_all add: stage_of_def new_tokens_def sq_num_new_tokens_def)
    have "prompt_ok s' c x" if x: "x \<in> set (po_groups out')" for x
    proof (cases "fst x = r")
      case True
      have "r \<notin> fst ` set (po_groups out)" using d by auto
      then have "x = (r, n)" using x True by (auto simp: out'_def)
      then show ?thesis using n pre st' nr by (simp add: prompt_ok_def)
    next
      case False
      then have "x \<in> set (po_groups out)" using x by (auto simp: out'_def)
      with False show ?thesis using so [of x] same [of "fst x"] by (cases x) (simp add: prompt_ok_def)
    qed
    moreover have all: "(C(id_of s r \<mapsto> sq_tokens (seq_of s r))) (id_of s' x) = Some (sq_tokens (seq_of s' x))"
      if x: "x \<in> A \<union> fst ` set (po_groups out')" for x
    proof (cases "x = r")
      case False
      have "x \<in> U" using x sub rU by (auto simp: out'_def)
      then have "id_of s x \<noteq> id_of s r" using C rU False by (auto simp: groups_with_def inj_on_def)
      moreover have "C (id_of s x) = Some (sq_tokens (seq_of s x))" using x False A full by (auto simp: out'_def)
      ultimately show ?thesis by (simp add: o2)
    qed (simp add: o2)
    ultimately have "pre_groups cf sz c U A queue leftover s' out'"
      by (intro pre_groupsI [OF C' all all]) (use d sub st1 ig1 in \<open>auto simp: out'_def\<close>)
    moreover have "pre_budget cf K N b0 s' (set queue \<union> set leftover) b' out'"
    proof -
      have inj: "inj_on (req_of s) U" using C by (simp add: groups_with_def)
      have "req_of s r \<notin> req_of s ` (set queue \<union> set leftover)"
        using inj_onD [OF inj] d sub rU by (auto, blast+)
      moreover have "req_of s r \<notin> bg_token_ids b" "req_of s r \<notin> bg_seq_ids b" using bu by (auto simp: pre_budget_def)
      ultimately show ?thesis using bu room n
        by (auto simp: pre_budget_def o2 out'_def b'_def add_num_seqs_def add_num_batched_tokens_def can_schedule_def)
    qed
    moreover have "lora_inv cf (add_lora cf (sc_groups s' r) l)" using l by (simp add: lora_inv_def add_lora_def)
    ultimately show ?thesis using run only_evolves_waiting [OF o1 qu, of "{r}"] by auto
  qed
qed

text \<open>The three loops inside \<open>schedule\<close>, each as one call that returns.\<close>

subsection \<open>Waiting groups\<close>

lemma lora_full_total: "lora_inv cf l \<Longrightarrow> \<exists>full. lora_full cf g l = Inr full"
  by (auto simp: lora_full_def lora_inv_def lora_enabled_def split: option.split)

lemma prefill_loop_total:
  assumes cf: "config_ok cf" "c \<longrightarrow> cf_chunked_prefill_enabled cf" and inv: "pre_inv cf sz c U A K N b0 queue leftover (s, x)"
  shows "\<exists>queue' leftover' s' x'. prefill_loop cf now c k queue leftover (s, x) = Inr (queue', leftover', s', x')
    \<and> pre_inv cf sz c U A K N b0 queue' leftover' (s', x') \<and> evolves_waiting (set queue) s s'"
  using inv
proof (induction queue arbitrary: k leftover s x)
  case Nil
  obtain p s' where d: "passed_delay cf (now k) (s\<lparr>sc_waiting := []\<rparr>) = (p, s')" by (cases "passed_delay cf (now k) (s\<lparr>sc_waiting := []\<rparr>)")
  obtain b l out where x: "x = (b, l, out)" by (cases x)
  have "pre_inv cf sz c U A K N b0 [] leftover (s', b, l, out)" using Nil pre_same [OF delay_same(1,2) [OF d]] by (simp only: x)
  then show ?case using delay_same(3) [OF d] by (simp add: d x)
next
  case (Cons r queue)
  obtain b l out where x: "x = (b, l, out)" by (cases x)
  obtain p s1 where d: "passed_delay cf (now k) (s\<lparr>sc_waiting := r # queue\<rparr>) = (p, s1)"
    by (cases "passed_delay cf (now k) (s\<lparr>sc_waiting := r # queue\<rparr>)")
  note same = delay_same [OF d]
  have inv: "pre_inv cf sz c U A K N b0 (r # queue) leftover (s1, b, l, out)" using Cons.prems pre_same [OF same(1,2)] by (simp only: x)
  have g: "pre_groups cf sz c U A (r # queue) leftover s1 out" and bu: "pre_budget cf K N b0 s1 (set (r # queue) \<union> set leftover) b out"
    and l: "lora_inv cf l" using inv by simp_all
  have stop: ?case if "prefill_loop cf now c k (r # queue) leftover (s, x) = Inr (r # queue, leftover, s1, b, l, out)"
    using that inv same(3) by (auto simp del: pre_inv.simps)
  have go: ?case if step: "prefill_loop cf now c k (r # queue) leftover (s, x) = prefill_loop cf now c (k + 1) queue leftover' (s2, x2)"
    and i2: "pre_inv cf sz c U A K N b0 queue leftover' (s2, x2)" and e2: "evolves_waiting {r} s1 s2" for leftover' s2 x2
  proof -
    obtain queue' leftover'' s' x' where "prefill_loop cf now c (k + 1) queue leftover' (s2, x2) = Inr (queue', leftover'', s', x')"
      "pre_inv cf sz c U A K N b0 queue' leftover'' (s', x')" and e3: "evolves_waiting (set queue) s2 s'"
      using Cons.IH [OF i2] by blast
    moreover have "evolves_waiting {r} s s2" by (rule evolves_waiting_trans [OF same(3) e2]) auto
    then have "evolves_waiting (set (r # queue)) s s'" by (rule evolves_waiting_trans [OF _ e3]) auto
    ultimately show ?thesis unfolding step by blast
  qed
  from g obtain C where C: "groups_with cf sz C U s1" and rU: "r \<in> U" and st: "st_of s1 r = WAITING"
    by (rule pre_groupsE) auto
  let ?g = "sc_groups s1 r"
  have ok: "single_ok cf ?g" by (rule groups_withD(2) [OF C rU])
  have seqs: "get_seqs WAITING ?g = [the_seq ?g]" using single_get_seqs [OF ok] st by (simp add: st_of_eq)
  have one: "get_max_num_running_seqs ?g = 1"
    using single_running [OF ok] st by (simp add: st_of_eq sq_finished_def status_finished_def)
  have pos: "c \<longrightarrow> 0 \<le> remaining_token_budget b" using bu by (simp add: pre_budget_def remaining_token_budget_def)
  obtain n where n: "get_num_new_tokens cf ?g WAITING c b = Inr n" and tf: "n \<noteq> 0 \<longrightarrow> tokens_fit c r n s1 b"
    and nc: "\<not> c \<longrightarrow> n = new_tokens s1 r"
    using running_tokens [OF cf ok st pos] by blast
  have all: "\<not> c \<longrightarrow> n = int (sq_len (the_seq ?g))"
    using nc single_new_tokens(2) [OF ok] st by (simp add: new_tokens_def seq_of_def st_of_eq)
  obtain limit where lim: "get_prompt_limit cf ?g = Inr limit" using single_okD(4) [OF ok] by blast
  have la: "(is_multi_step cf \<and> c) = False" using cf by (auto simp: config_ok_def)
  obtain status where status: "can_allocate ?g 0 (snd (sc_mem s1)) = Inr status"
    using kv_can_allocate [OF groups_withD(1) [OF C], of ?g 0] seqs by auto
  obtain full where full: "lora_full cf ?g l = Inr full" using lora_full_total [OF l] by blast
  obtain fits where fits: "(if n = 0 then Inr False else can_schedule n 1 b) = Inr fits" and f: "fits \<Longrightarrow> n \<noteq> 0 \<and> can_schedule n 1 b = Inr True"
    by (cases "n = 0") (auto simp: can_schedule_def)
  from pre_ignore [OF inv] obtain s2 out2 where ig: "ignore_waiting r (s1, b, l, out) = (s2, b, l, out2)"
    and i2: "pre_inv cf sz c U A K N b0 queue leftover (s2, b, l, out2)" and e2: "evolves_waiting {r} s1 s2" by metis
  note simps = prefill_loop.simps(2) x d seqs n lim status full fits one la Let_def
  consider "\<not> p" | "p" "n > int limit" | "p" "\<not> n > int limit" "status = LATER" | "p" "\<not> n > int limit" "status = NEVER"
    | "p" "\<not> n > int limit" "status = OK" "full" | "p" "\<not> n > int limit" "status = OK" "\<not> full" "\<not> fits"
    | "p" "\<not> n > int limit" "status = OK" "\<not> full" "fits" by (cases status) auto
  then show ?case
  proof cases
    case 1
    then show ?thesis by (intro stop) (simp add: prefill_loop.simps(2) x d)
  next
    case 2
    then show ?thesis using all by (intro go [OF _ i2 e2]) (simp add: simps ig)
  next
    case 3
    then show ?thesis using all by (intro stop) (simp add: simps)
  next
    case 4
    then show ?thesis using all by (intro go [OF _ i2 e2]) (simp add: simps ig)
  next
    case 5
    then show ?thesis using all by (intro go [OF _ pre_skip [OF inv]]) (simp_all add: simps)
  next
    case 6
    then show ?thesis using all by (intro stop) (simp add: simps del: if_split)
  next
    case 7
    have "tokens_fit c r n s1 b" "can_schedule n 1 b = Inr True" "can_allocate ?g 0 (snd (sc_mem s1)) = Inr OK"
      using tf f 7 status by auto
    then obtain s3 x3 where sp: "start_prefill cf c r 0 n 1 (s1, b, l, out) = Inr (s3, x3)"
      and i3: "pre_inv cf sz c U A K N b0 queue leftover (s3, x3)" and e3: "evolves_waiting {r} s1 s3"
      using pre_start [OF cf inv] nc unfolding tokens_fit_def by blast
    show ?thesis using 7 all sp
      by (intro go [OF _ i3 e3]) (simp add: simps del: if_split)
  qed
qed

lemma schedule_prefills_total:
  assumes cf: "config_ok cf" "c \<longrightarrow> cf_chunked_prefill_enabled cf" and b: "b0 = b"
    and inv: "pre_inv cf sz c U A K N b0 (sc_waiting s) [] (s, b, l, empty_prefills)"
  shows "\<exists>s' b' l' out. schedule_prefills cf now c s b l = Inr (s', b', l', out)
    \<and> pre_inv cf sz c U A K N b0 (sc_waiting s') [] (s', b', l', out) \<and> evolves_waiting (set (sc_waiting s)) s s'"
proof -
  obtain queue leftover s1 x1 where p: "prefill_loop cf now c 0 (sc_waiting s) [] (s, b, l, empty_prefills) = Inr (queue, leftover, s1, x1)"
    and i: "pre_inv cf sz c U A K N b0 queue leftover (s1, x1)" and e: "evolves_waiting (set (sc_waiting s)) s s1"
    using prefill_loop_total [OF cf inv, of now 0] by blast
  obtain b1 l1 out1 where x1: "x1 = (b1, l1, out1)" by (cases x1)
  define s2 where "s2 = s1\<lparr>sc_waiting := rev leftover @ queue\<rparr>"
  define s3 where "s3 = (if po_groups out1 \<noteq> [] then s2\<lparr>sc_prev_prompt := True\<rparr> else s2)"
  define out3 where "out3 = out1\<lparr>po_lookahead := get_num_lookahead_slots cf True c\<rparr>"
  have run: "schedule_prefills cf now c s b l = Inr (s3, b1, l1, out3)"
    by (simp add: schedule_prefills_def p x1 s2_def s3_def out3_def Let_def)
  have w: "sc_waiting s3 = rev leftover @ queue" "sc_groups s3 = sc_groups s1" "sc_mem s3 = sc_mem s1"
    by (simp_all add: s3_def s2_def)
  have "pre_inv cf sz c U A K N b0 (rev leftover @ queue) [] (s1, b1, l1, out3)"
    using i by (auto simp: x1 pre_groups_def pre_budget_def out3_def)
  then have "pre_inv cf sz c U A K N b0 (sc_waiting s3) [] (s3, b1, l1, out3)"
    using pre_same [OF w(2,3)] by (simp add: w(1) del: pre_inv.simps)
  moreover have "evolves_waiting (set (sc_waiting s)) s s3"
    using e by (simp add: evolves_waiting_def evolves_def queues_def s3_def s2_def)
  ultimately show ?thesis using run by blast
qed

subsection \<open>Running groups\<close>

lemma schedule_running_total:
  assumes cf: "config_ok cf" "c \<longrightarrow> cf_chunked_prefill_enabled cf" and as: "sc_async_stopped s = []"
    and inv: "run_inv cf sz c K U (sc_running s) (s, b, l, empty_running)"
  shows "\<exists>s' b' l' out. schedule_running cf None c s b l = Inr (s', b', l', out)
    \<and> run_inv cf sz c K U (sc_running s') (s', b', l', out) \<and> evolves (set (sc_running s)) s (s'\<lparr>sc_running := sc_running s\<rparr>)
    \<and> set (sc_running s') \<subseteq> set (sc_running s) \<and> (sc_running s' \<noteq> [] \<longrightarrow> c \<and> remaining_token_budget b' = 0)"
proof -
  define out0 where "out0 = empty_running\<lparr>ro_lookahead := get_num_lookahead_slots cf False c\<rparr>"
  have inv0: "run_inv cf sz c K U (sc_running s) (s, b, l, out0)"
    using inv by (auto simp: run_groups_def run_budget_def out0_def ro_all_def)
  obtain queue x1 where r: "running_loop cf None c (sc_running s) (s, b, l, out0) = Inr (queue, x1)"
    and i: "run_inv cf sz c K U queue x1" and e: "evolves (set (sc_running s)) s (fst x1)" and sub: "set queue \<subseteq> set (sc_running s)"
    and z: "queue \<noteq> [] \<longrightarrow> c \<and> remaining_token_budget (fst (snd x1)) = 0"
    using running_loop_total [OF cf inv0] by auto
  obtain s1 b1 l1 out1 where x1: "x1 = (s1, b1, l1, out1)" by (rule prod_cases4)
  define s2 where "s2 = s1\<lparr>sc_running := queue\<rparr>"
  have same: "sc_groups s2 = sc_groups s1" "sc_mem s2 = sc_mem s1" "sc_running s2 = queue" by (simp_all add: s2_def)
  have "run_inv cf sz c K U queue (s2, b1, l1, out1)"
    using i same_groups [OF same(1)] groups_with_same [OF same(1,2)] by (auto simp: x1 run_groups_def run_budget_def chunk_ok_def)
  moreover have "schedule_running cf None c s b l = Inr (s2, b1, l1, out1)"
    using as r by (simp add: schedule_running_def out0_def x1 s2_def Let_def)
  moreover have "evolves (set (sc_running s)) s (s2\<lparr>sc_running := sc_running s\<rparr>)"
    using e by (simp add: evolves_def queues_def s2_def x1)
  ultimately show ?thesis using z sub by (auto simp: x1 same(3) simp del: run_inv.simps)
qed

end
