(* ===== verification/Sched_Policy.thy ===== *)
theory Sched_Policy
  imports Sched_Prefill
begin

text \<open>
  The two policies of \<open>schedule\<close> put the loops together: the invariant of the queues between two calls,
  and that each policy returns and keeps it.
\<close>

text \<open>
  \<open>U\<close> are the groups that are or were in a queue: those that left are finished. With the default policy
  every running group has processed its prompt when the next step begins (\<open>c = False\<close>).
\<close>

definition queue_ok :: "sched_config \<Rightarrow> nat \<Rightarrow> bool \<Rightarrow> group_ref set \<Rightarrow> scheduler \<Rightarrow> bool" where
  "queue_ok cf sz c U s \<longleftrightarrow> (\<exists>C. groups_with cf sz C U s) \<and> distinct (sc_waiting s @ sc_running s)
     \<and> set (sc_waiting s) \<union> set (sc_running s) \<subseteq> U
     \<and> (\<forall>r \<in> set (sc_waiting s). st_of s r = WAITING)
     \<and> (\<forall>r \<in> set (sc_running s). st_of s r = RUNNING \<and> (\<not> c \<longrightarrow> stage_of s r = DECODE))
     \<and> (\<forall>r \<in> U - set (sc_waiting s) - set (sc_running s). st_of s r \<noteq> RUNNING)
     \<and> sc_swapped s = [] \<and> sc_async_stopped s = [] \<and> length (sc_running s) \<le> cf_max_num_seqs cf"

lemma queue_okD:
  assumes "queue_ok cf sz c U s"
  shows "\<exists>C. groups_with cf sz C U s" "distinct (sc_waiting s @ sc_running s)"
    "set (sc_waiting s) \<union> set (sc_running s) \<subseteq> U" "r \<in> set (sc_waiting s) \<Longrightarrow> st_of s r = WAITING"
    "r \<in> set (sc_running s) \<Longrightarrow> st_of s r = RUNNING" "r \<in> set (sc_running s) \<Longrightarrow> \<not> c \<Longrightarrow> stage_of s r = DECODE"
    "r \<in> U - set (sc_waiting s) - set (sc_running s) \<Longrightarrow> st_of s r \<noteq> RUNNING"
    "sc_swapped s = []" "sc_async_stopped s = []" "length (sc_running s) \<le> cf_max_num_seqs cf"
  using assms by (auto simp: queue_ok_def)

text \<open>What \<open>schedule\<close> hands out.\<close>

definition served :: "sched_config \<Rightarrow> nat \<Rightarrow> scheduled \<Rightarrow> scheduler \<Rightarrow> bool" where
  "served cf sz gs s \<longleftrightarrow> (\<forall>(r, n) \<in> set gs. st_of s r = RUNNING \<and> 0 < n \<and> n \<le> new_tokens s r \<and> (stage_of s r = DECODE \<longrightarrow> n = 1))
     \<and> (\<exists>C. kv_at sz (sc_mem s) C \<and> (\<forall>x \<in> set gs. C (id_of s (fst x)) = Some (sq_tokens (seq_of s (fst x)))))"

definition in_limits :: "sched_config \<Rightarrow> sched_outputs \<Rightarrow> bool" where
  "in_limits cf o1 \<longleftrightarrow> so_num_batched_tokens o1 = sum_list (map snd (so_groups o1))
     \<and> so_num_batched_tokens o1 \<le> int (cf_max_num_batched_tokens cf)"

text \<open>Without chunked prefill a prompt is scheduled as a whole.\<close>

definition prompts_whole :: "scheduled \<Rightarrow> scheduler \<Rightarrow> bool" where
  "prompts_whole gs s \<longleftrightarrow> (\<forall>r \<in> set (sc_running s). stage_of s r = DECODE \<or> (r, new_tokens s r) \<in> set gs)"

subsection \<open>Entering the loops\<close>

lemma no_lora_inv: "lora_inv cf (running_loras cf s)" "lora_inv cf (Some ids)"
  by (auto simp: lora_inv_def running_loras_def)

lemma running_one: "groups_with cf sz C U s \<Longrightarrow> r \<in> U \<Longrightarrow> st_of s r = RUNNING \<or> st_of s r = WAITING \<Longrightarrow>
    get_max_num_running_seqs (sc_groups s r) = 1"
  using single_running [OF groups_withD(2)] by (auto simp: st_of_eq sq_finished_def status_finished_def)

lemma add_running_seqs_fold:
  assumes "groups_with cf sz C U s" and "distinct rs" "set rs \<subseteq> U" "\<forall>r \<in> set rs. st_of s r = RUNNING"
    and "bg_seq_ids b \<inter> req_of s ` set rs = {}"
  shows "fold (\<lambda>r. add_num_seqs (sg_request_id (sc_groups s r)) (int (get_max_num_running_seqs (sc_groups s r)))) rs b
    = b\<lparr>bg_seq_ids := bg_seq_ids b \<union> req_of s ` set rs, bg_num_curr_seqs := bg_num_curr_seqs b + int (length rs)\<rparr>"
  using assms(2-)
proof (induction rs arbitrary: b)
  case (Cons r rs)
  have inj: "inj_on (req_of s) U" using assms(1) by (simp add: groups_with_def)
  have one: "get_max_num_running_seqs (sc_groups s r) = 1" using running_one [OF assms(1)] Cons.prems by simp
  define b' where "b' = b\<lparr>bg_seq_ids := insert (req_of s r) (bg_seq_ids b), bg_num_curr_seqs := bg_num_curr_seqs b + 1\<rparr>"
  have "req_of s r \<notin> bg_seq_ids b" using Cons.prems by auto
  then have "add_num_seqs (sg_request_id (sc_groups s r)) 1 b = b'" by (simp add: add_num_seqs_def b'_def req_of_def)
  moreover have "bg_seq_ids b' \<inter> req_of s ` set rs = {}"
    using Cons.prems inj_onD [OF inj] by (auto simp: b'_def)
  ultimately show ?case using Cons by (simp add: one) (simp add: b'_def)
qed simp

definition start_budget :: "sched_config \<Rightarrow> scheduler \<Rightarrow> budget" where
  "start_budget cf s = (new_budget cf)\<lparr>bg_seq_ids := req_of s ` set (sc_running s), bg_num_curr_seqs := int (length (sc_running s))\<rparr>"

lemma add_running_eq:
  assumes "queue_ok cf sz c U s"
  shows "add_running_seqs s (new_budget cf) = start_budget cf s"
proof -
  obtain C where C: "groups_with cf sz C U s" using queue_okD(1) [OF assms] by blast
  show ?thesis unfolding add_running_seqs_def
    by (subst add_running_seqs_fold [OF C]) (use queue_okD [OF assms] in \<open>auto simp: new_budget_def start_budget_def\<close>)
qed

lemma prefill_entry:
  assumes q: "queue_ok cf sz c U s" and b: "b = start_budget cf s"
  shows "pre_inv cf sz d U {} (int (length (sc_running s))) 0 b (sc_waiting s) [] (s, b, running_loras cf s, empty_prefills)"
proof -
  obtain C where C: "groups_with cf sz C U s" using queue_okD(1) [OF q] by blast
  note w = queue_okD [OF q]
  have inj: "inj_on (req_of s) U" using C by (simp add: groups_with_def)
  have "pre_groups cf sz d U {} (sc_waiting s) [] s empty_prefills"
    by (rule pre_groupsI [OF C]) (use w in \<open>auto simp: empty_prefills_def\<close>)
  moreover have "req_of s ` set (sc_running s) \<inter> req_of s ` set (sc_waiting s) = {}"
    using w(2,3) by (subst inj_on_image_Int [OF inj, symmetric]) auto
  ultimately show ?thesis using no_lora_inv w(10)
    by (simp add: pre_budget_def empty_prefills_def b start_budget_def new_budget_def)
qed

lemma run_entry:
  assumes q: "queue_ok cf sz c U s" and b: "bg_token_budget b = int (cf_max_num_batched_tokens cf)"
      "bg_max_num_seqs b = int (cf_max_num_seqs cf)" "bg_token_ids b = {}" "bg_num_batched_tokens b = 0"
    and c: "c \<longrightarrow> bg_seq_ids b = {} \<and> bg_num_curr_seqs b = 0" "\<not> c \<longrightarrow> bg_num_curr_seqs b \<le> K" and l: "lora_inv cf l"
  shows "run_inv cf sz c K U (sc_running s) (s, b, l, empty_running)"
proof -
  obtain C where C: "groups_with cf sz C U s" using queue_okD(1) [OF q] by blast
  have "run_groups cf sz c U (sc_running s) s empty_running"
    by (rule run_groupsI [OF C]) (use queue_okD [OF q] in \<open>auto simp: empty_running_def ro_all_def\<close>)
  then show ?thesis using assms by (auto simp: run_budget_def empty_running_def ro_all_def)
qed

subsection \<open>Leaving the loops\<close>

lemma evolvesD:
  assumes "evolves Q s s'" and "x \<notin> Q"
  shows "st_of s' x = st_of s x" "stage_of s' x = stage_of s x" "new_tokens s' x = new_tokens s x"
  using assms by (simp_all add: evolves_def st_of_def stage_of_def new_tokens_def seq_of_def)

lemma waiting_evolvesD:
  assumes "evolves_waiting Q s s'"
  shows "x \<notin> Q \<Longrightarrow> st_of s' x = st_of s x" "x \<notin> Q \<Longrightarrow> stage_of s' x = stage_of s x" "x \<notin> Q \<Longrightarrow> new_tokens s' x = new_tokens s x"
    "sc_running s' = sc_running s" "sc_swapped s' = sc_swapped s" "sc_async_stopped s' = sc_async_stopped s"
    "ident (sc_groups s' x) = ident (sc_groups s x)"
  using assms by (simp_all add: evolves_waiting_def evolves_def st_of_def stage_of_def new_tokens_def seq_of_def queues_def)

lemma queue_okI:
  assumes "groups_with cf sz C U s" and "distinct (sc_waiting s @ sc_running s)" and "set (sc_waiting s) \<union> set (sc_running s) \<subseteq> U"
    and "\<And>r. r \<in> set (sc_waiting s) \<Longrightarrow> st_of s r = WAITING"
    and "\<And>r. r \<in> set (sc_running s) \<Longrightarrow> st_of s r = RUNNING \<and> (\<not> c \<longrightarrow> stage_of s r = DECODE)"
    and "\<And>r. r \<in> U - set (sc_waiting s) - set (sc_running s) \<Longrightarrow> st_of s r \<noteq> RUNNING"
    and "sc_swapped s = []" "sc_async_stopped s = []" "length (sc_running s) \<le> cf_max_num_seqs cf"
  shows "queue_ok cf sz c U s"
  using assms by (auto simp: queue_ok_def)

lemma prefills_split:
  assumes "schedule_prefills cf now c s b l = Inr (s', b', l', out)" and "evolves_waiting Q s s'"
  shows "mset (sc_waiting s) = mset (sc_waiting s') + po_refs out"
  using schedule_prefills_refs [OF assms(1)] waiting_evolvesD [OF assms(2)] by (simp add: all_refs_def)

subsection \<open>The default policy\<close>

text \<open>The prefills, if any, are the whole step.\<close>

lemma default_prefills:
  assumes cf: "config_ok cf" and q: "queue_ok cf sz False U s"
  shows "\<exists>s' b' l' out. schedule_prefills cf now False s (start_budget cf s) (running_loras cf s) = Inr (s', b', l', out)
    \<and> lora_inv cf l' \<and> same_idents s s' \<and> check_budget cf b' = Inr () \<and> bg_num_batched_tokens b' = sum_list (map snd (po_groups out))
    \<and> (po_groups out = [] \<longrightarrow> b' = start_budget cf s) \<and> served cf sz (po_groups out) s'
    \<and> prompts_whole (po_groups out) (s'\<lparr>sc_running := sc_running s' @ map fst (po_groups out)\<rparr>)
    \<and> queue_ok cf sz (po_groups out \<noteq> []) U (s'\<lparr>sc_running := sc_running s' @ map fst (po_groups out)\<rparr>)"
proof -
  define b0 where "b0 = start_budget cf s"
  have "config_ok cf" "False \<longrightarrow> cf_chunked_prefill_enabled cf" using cf by simp_all
  from schedule_prefills_total [OF this refl prefill_entry [OF q b0_def]] obtain s' b' l' out where
    run: "schedule_prefills cf now False s b0 (running_loras cf s) = Inr (s', b', l', out)" and
    i: "pre_inv cf sz False U {} (int (length (sc_running s))) 0 b0 (sc_waiting s') [] (s', b', l', out)" and
    e: "evolves_waiting (set (sc_waiting s)) s s'" by blast
  have g: "pre_groups cf sz False U {} (sc_waiting s') [] s' out" and l: "lora_inv cf l'"
    and bu: "pre_budget cf (int (length (sc_running s))) 0 b0 s' (set (sc_waiting s')) b' out" using i by simp_all
  note w = queue_okD [OF q] and ev = waiting_evolvesD [OF e]
  have m: "mset (sc_waiting s) = mset (sc_waiting s') + mset (map fst (po_groups out)) + mset (po_ignored out)"
    using prefills_split [OF run e] by (simp add: po_refs_def ac_simps)
  from arg_cong [OF m, of set_mset] have ws: "set (sc_waiting s) = set (sc_waiting s') \<union> fst ` set (po_groups out) \<union> set (po_ignored out)"
    by simp
  define s2 where "s2 = s'\<lparr>sc_running := sc_running s' @ map fst (po_groups out)\<rparr>"
  have same: "sc_groups s2 = sc_groups s'" "sc_mem s2 = sc_mem s'" by (simp_all add: s2_def)
  note sg = same_groups [OF same(1)]
  from g have "served cf sz (po_groups out) s' \<and> prompts_whole (po_groups out) s2 \<and> queue_ok cf sz (po_groups out \<noteq> []) U s2"
  proof (rule pre_groupsE)
    fix C assume C: "groups_with cf sz C U s'" and d: "distinct (sc_waiting s' @ [] @ map fst (po_groups out) @ po_ignored out)"
      and full: "\<And>x. x \<in> set (po_groups out) \<Longrightarrow> C (id_of s' (fst x)) = Some (sq_tokens (seq_of s' (fst x)))"
      and st: "\<And>r. r \<in> set (sc_waiting s') \<union> set [] \<Longrightarrow> st_of s' r = WAITING"
      and so: "\<And>x. x \<in> set (po_groups out) \<Longrightarrow> prompt_ok s' False x"
      and ig: "\<And>r. r \<in> set (po_ignored out) \<Longrightarrow> st_of s' r = FINISHED_IGNORED"
    have dd: "r \<notin> set (sc_waiting s)" if "r \<in> set (sc_running s)" for r using w(2) that by auto
    have go: "st_of s' r = RUNNING" if "r \<in> fst ` set (po_groups out)" for r using so that by (auto simp: prompt_ok_def)
    have "queue_ok cf sz (po_groups out \<noteq> []) U s2"
    proof (rule queue_okI)
      show "groups_with cf sz C U s2" using C groups_with_same [OF same] by simp
      show "distinct (sc_waiting s2 @ sc_running s2)" using w(2) d ws by (auto simp: s2_def ev(4))
      show "length (sc_running s2) \<le> cf_max_num_seqs cf" using bu by (simp add: s2_def ev(4) pre_budget_def)
      fix r show "r \<in> set (sc_waiting s2) \<Longrightarrow> st_of s2 r = WAITING" using st by (simp only: sg) (simp add: s2_def)
      show "st_of s2 r = RUNNING \<and> (\<not> po_groups out \<noteq> [] \<longrightarrow> stage_of s2 r = DECODE)" if "r \<in> set (sc_running s2)"
        using that go w(5,6) ev(1,2) dd by (simp only: sg) (auto simp: s2_def ev(4))
      assume "r \<in> U - set (sc_waiting s2) - set (sc_running s2)"
      then show "st_of s2 r \<noteq> RUNNING" using w(7) [of r] ig [of r] ev(1) [of r] ws
        by (cases "r \<in> set (po_ignored out)") (auto simp only: sg, auto simp: s2_def ev(4))
    qed (use w ev ws in \<open>auto simp: s2_def\<close>)
    moreover have "stage_of s2 r = DECODE \<or> (r, new_tokens s2 r) \<in> set (po_groups out)" if r: "r \<in> set (sc_running s2)" for r
    proof (cases "r \<in> set (sc_running s)")
      case True
      then show ?thesis using w(6) ev(2) dd by (simp only: sg) simp
    next
      case False
      then obtain n where "(r, n) \<in> set (po_groups out)" using r by (auto simp: s2_def ev(4))
      with so [OF this] show ?thesis by (simp only: sg) (simp add: prompt_ok_def)
    qed
    then have "prompts_whole (po_groups out) s2" by (simp add: prompts_whole_def)
    moreover have "stage_of s' (fst x) = DECODE \<Longrightarrow> False" if "x \<in> set (po_groups out)" for x
      using so [OF that] by (cases x) (simp add: prompt_ok_def)
    then have "served cf sz (po_groups out) s'"
      unfolding served_def using so full groups_withD(1) [OF C] by (fastforce simp: prompt_ok_def)
    ultimately show ?thesis by simp
  qed
  moreover have "check_budget cf b' = Inr ()" using bu by (simp add: check_budget_def pre_budget_def)
  moreover have "bg_num_batched_tokens b' = sum_list (map snd (po_groups out))" "po_groups out = [] \<longrightarrow> b' = b0"
    using bu by (simp_all add: pre_budget_def)
  moreover have "same_idents s s'" using evolves_idents e by (fastforce simp: evolves_waiting_def)
  ultimately show ?thesis using run l by (auto simp: b0_def s2_def)
qed

text \<open>Preemption by priority returns, and moves groups between the running and the waiting queue only.\<close>

definition idle_budget :: "sched_config \<Rightarrow> budget \<Rightarrow> bool" where
  "idle_budget cf b \<longleftrightarrow> bg_token_budget b = int (cf_max_num_batched_tokens cf) \<and> bg_max_num_seqs b = int (cf_max_num_seqs cf)
     \<and> bg_token_ids b = {} \<and> bg_num_batched_tokens b = 0 \<and> bg_num_curr_seqs b \<le> int (cf_max_num_seqs cf)"

lemma start_idle: "queue_ok cf sz c U s \<Longrightarrow> idle_budget cf (start_budget cf s)"
  by (simp add: idle_budget_def start_budget_def new_budget_def queue_ok_def)

lemma idle_subtract: "idle_budget cf b \<Longrightarrow> idle_budget cf (subtract_num_seqs i 1 (subtract_num_batched_tokens i n b))"
  by (auto simp: idle_budget_def subtract_num_seqs_def subtract_num_batched_tokens_def)

text \<open>The walk over the reversed running queue, on behalf of the waiting group \<open>r\<close>.\<close>

definition lower_inv ::
    "sched_config \<Rightarrow> nat \<Rightarrow> group_ref set \<Rightarrow> group_ref list \<Rightarrow> group_ref list \<Rightarrow> scheduler \<Rightarrow> bool" where
  "lower_inv cf sz U running waiting s \<longleftrightarrow> (\<exists>C. groups_with cf sz C U s) \<and> distinct (waiting @ running)
     \<and> set waiting \<union> set running \<subseteq> U \<and> (\<forall>r \<in> set waiting. st_of s r = WAITING)
     \<and> (\<forall>r \<in> set running. st_of s r = RUNNING \<and> stage_of s r = DECODE)
     \<and> (\<forall>r \<in> U - set waiting - set running. st_of s r \<noteq> RUNNING)"

lemma lower_victim:
  assumes cf: "config_ok cf" and inv: "lower_inv cf sz U (v # rest) (r # waiting) s"
  shows "\<exists>s' n. get_num_new_tokens cf (sc_groups s v) RUNNING False b = Inr n \<and> preempt cf m v (bs, s) = Inr (RECOMPUTE, bs, s')
    \<and> get_max_num_running_seqs (sc_groups s v) = 1 \<and> lower_inv cf sz U rest (r # v # waiting) s' \<and> queues s' = queues s
    \<and> same_idents s s'"
proof -
  obtain C where C: "groups_with cf sz C U s" and vU: "v \<in> U" and st: "st_of s v = RUNNING"
    using inv by (auto simp: lower_inv_def)
  from preempt_effect [OF cf C vU st, of m bs] obtain s' where
    p: "preempt cf m v (bs, s) = Inr (RECOMPUTE, bs, s')" and C': "groups_with cf sz (C(id_of s v := None)) U s'"
    and o1: "only v s s'" and st': "st_of s' v = WAITING" and qu: "queues s' = queues s" by blast
  have same: "st_of s' x = st_of s x" "stage_of s' x = stage_of s x" if "x \<noteq> v" for x
    using only_same [OF o1 that] only_stage [OF o1 that] by auto
  have "False \<longrightarrow> cf_chunked_prefill_enabled cf" "False \<longrightarrow> 0 \<le> remaining_token_budget b" by simp_all
  then obtain n where "get_num_new_tokens cf (sc_groups s v) RUNNING False b = Inr n"
    using running_tokens [OF cf _ groups_withD(2) [OF C vU] st, of False b] by blast
  moreover have "get_max_num_running_seqs (sc_groups s v) = 1" using running_one [OF C vU] st by blast
  moreover have "lower_inv cf sz U rest (r # v # waiting) s'"
  proof -
    have nv: "x \<noteq> v" if "x \<in> set (r # waiting) \<union> set rest" for x using inv that by (auto simp: lower_inv_def)
    have "st_of s' x = WAITING" if "x \<in> set (r # v # waiting)" for x
      using inv that st' same(1) [of x] nv [of x] by (cases "x = v") (auto simp: lower_inv_def)
    moreover have "st_of s' x = RUNNING \<and> stage_of s' x = DECODE" if "x \<in> set rest" for x
      using inv that same [of x] nv [of x] by (simp add: lower_inv_def)
    moreover have "st_of s' x \<noteq> RUNNING" if "x \<in> U - set (r # v # waiting) - set rest" for x
      using inv that same(1) [of x] by (simp add: lower_inv_def)
    moreover have "\<exists>C. groups_with cf sz C U s'" using C' by blast
    ultimately show ?thesis using inv by (auto simp: lower_inv_def)
  qed
  ultimately show ?thesis using p qu only_idents [OF o1] by blast
qed

lemma preempt_lower_total:
  assumes cf: "config_ok cf" and inv: "lower_inv cf sz U running (r # waiting) s" and b: "idle_budget cf b"
  shows "\<exists>kept waiting' m s' b'. preempt_lower cf r n 1 running waiting k bs (s, b) = Inr (kept, waiting', m, s', b')
    \<and> lower_inv cf sz U kept (r # waiting') s' \<and> idle_budget cf b' \<and> queues s' = queues s \<and> length kept \<le> length running
    \<and> same_idents s s'"
  using inv b
proof (induction running arbitrary: waiting k s b)
  case Nil
  then show ?case by simp
next
  case (Cons v rest)
  from Cons.prems obtain C where C: "groups_with cf sz C U s" and rU: "r \<in> U" and st: "st_of s r = WAITING"
    by (auto simp: lower_inv_def)
  have "get_seqs WAITING (sc_groups s r) \<noteq> []" using single_get_seqs [OF groups_withD(2) [OF C rU]] st by (simp add: st_of_eq)
  then obtain status where status: "can_allocate (sc_groups s r) 0 (snd (sc_mem s)) = Inr status"
    using kv_can_allocate [OF groups_withD(1) [OF C]] by blast
  obtain fits where fits: "(if n \<noteq> 0 \<and> status = OK then can_schedule n 1 b else Inr False) = Inr fits"
    by (cases "n \<noteq> 0 \<and> status = OK") (auto simp: can_schedule_def)
  have stop: ?case if "preempt_lower cf r n 1 (v # rest) waiting k bs (s, b) = Inr (v # rest, waiting, k, s, b)"
    using that Cons.prems by auto
  show ?case
  proof (cases "\<not> get_priority (sc_groups s v) > get_priority (sc_groups s r) \<or> fits")
    case True
    then show ?thesis using status fits by (intro stop) (auto simp: Let_def)
  next
    case False
    from lower_victim [OF cf Cons.prems(1), of b "Some RECOMPUTE" bs] obtain s1 nv where
      v: "get_num_new_tokens cf (sc_groups s v) RUNNING False b = Inr nv" "preempt cf (Some RECOMPUTE) v (bs, s) = Inr (RECOMPUTE, bs, s1)"
      "get_max_num_running_seqs (sc_groups s v) = 1" and i1: "lower_inv cf sz U rest (r # v # waiting) s1" and qu: "queues s1 = queues s"
      and si: "same_idents s s1"
      by blast
    define b1 where "b1 = subtract_num_seqs (sg_request_id (sc_groups s v)) 1 (subtract_num_batched_tokens (sg_request_id (sc_groups s v)) nv b)"
    have "preempt_lower cf r n 1 (v # rest) waiting k bs (s, b) = preempt_lower cf r n 1 rest (v # waiting) (k + 1) bs (s1, b1)"
      using False status fits v by (simp add: Let_def b1_def)
    moreover have "idle_budget cf b1" using Cons.prems(2) by (simp add: b1_def idle_subtract)
    ultimately show ?thesis using Cons.IH [OF i1, of b1 "k + 1"] qu same_idents_trans [OF si] by fastforce
  qed
qed

lemma queue_ok_cong:
  assumes "queue_ok cf sz c U s" and "sc_groups s' = sc_groups s" "sc_mem s' = sc_mem s" and "sc_waiting s' = sc_waiting s"
    and "distinct (sc_running s')" "set (sc_running s') = set (sc_running s)" and "sc_swapped s' = sc_swapped s" "sc_async_stopped s' = sc_async_stopped s"
  shows "queue_ok cf sz c U s'"
proof -
  have "length (sc_running s') = length (sc_running s)"
    using assms(1,5,6) by (metis queue_ok_def distinct_append distinct_card)
  then show ?thesis using assms same_groups [OF assms(2)] groups_with_same [OF assms(2,3)] by (simp add: queue_ok_def)
qed

lemma priority_total:
  assumes cf: "config_ok cf" and q: "queue_ok cf sz False U s" and b: "idle_budget cf b"
  shows "\<exists>m s' b'. schedule_priority_preemption cf (s, b) = Inr (m, s', b') \<and> queue_ok cf sz False U s' \<and> idle_budget cf b'
    \<and> same_idents s s'"
proof -
  define by_priority where "by_priority = sort_key (\<lambda>r. get_priority (sc_groups s r))"
  have bp: "set (by_priority rs) = set rs" "distinct (by_priority rs) = distinct rs" "length (by_priority rs) = length rs" for rs
    by (simp_all add: by_priority_def)
  note w = queue_okD [OF q]
  show ?thesis
  proof (cases "sc_waiting s")
    case Nil
    define s1 where "s1 = s\<lparr>sc_running := by_priority (sc_running s)\<rparr>"
    have "queue_ok cf sz False U s1" by (rule queue_ok_cong [OF q]) (use w(2) in \<open>simp_all add: s1_def bp\<close>)
    moreover have "schedule_priority_preemption cf (s, b) = Inr (0, s1, b)"
      by (simp add: schedule_priority_preemption_def Nil s1_def by_priority_def Let_def)
    moreover have "same_idents s s1" by (simp add: s1_def)
    ultimately show ?thesis using b by blast
  next
    case (Cons r rest)
    obtain C where C: "groups_with cf sz C U s" and rU: "r \<in> U" and st: "st_of s r = WAITING" using w(1,3,4) Cons by auto
    have one: "get_max_num_running_seqs (sc_groups s r) = 1" using running_one [OF C rU] st by blast
    have "False \<longrightarrow> cf_chunked_prefill_enabled cf" "False \<longrightarrow> 0 \<le> remaining_token_budget b" by simp_all
    then obtain n where n: "get_num_new_tokens cf (sc_groups s r) WAITING False b = Inr n"
      using running_tokens [OF cf _ groups_withD(2) [OF C rU] st, of False b] by blast
    have "lower_inv cf sz U (rev (by_priority (sc_running s))) (r # rest) s"
      using w Cons by (auto simp: lower_inv_def bp)
    from preempt_lower_total [OF cf this b, of n 0 "[]"] obtain kept waiting m s1 b1 where
      p: "preempt_lower cf r n 1 (rev (by_priority (sc_running s))) rest 0 [] (s, b) = Inr (kept, waiting, m, s1, b1)" and
      i: "lower_inv cf sz U kept (r # waiting) s1" and b1: "idle_budget cf b1" and qu: "queues s1 = queues s" and
      si: "same_idents s s1" and len: "length kept \<le> length (rev (by_priority (sc_running s)))" by blast
    define s2 where "s2 = s1\<lparr>sc_waiting := by_priority (r # waiting), sc_running := rev kept\<rparr>"
    have same: "sc_groups s2 = sc_groups s1" "sc_mem s2 = sc_mem s1" by (simp_all add: s2_def)
    have "queue_ok cf sz False U s2"
      using i len w(8-10) queuesD [OF qu] same_groups [OF same(1)] groups_with_same [OF same]
      by (auto simp: queue_ok_def lower_inv_def s2_def bp)
    moreover have "schedule_priority_preemption cf (s, b) = Inr (m, s2, b1)"
      using p n one by (simp add: schedule_priority_preemption_def Cons s2_def by_priority_def Let_def)
    moreover have "same_idents s s2" using si by (simp add: s2_def)
    ultimately show ?thesis using b1 by blast
  qed
qed

end
