(* ===== verification/Sched_Safe.thy ===== *)
theory Sched_Safe
  imports Sched_Policy
begin

text \<open>Both policies return on the invariant and re-establish it.\<close>

subsection \<open>Leaving the loop over the running queue\<close>

lemma running_returns:
  assumes cf: "config_ok cf" "c \<longrightarrow> cf_chunked_prefill_enabled cf" and q: "queue_ok cf sz c U s" and b: "idle_budget cf b"
    and c: "c \<longrightarrow> bg_seq_ids b = {} \<and> bg_num_curr_seqs b = 0" and l: "lora_inv cf l"
  obtains s' b' l' out where "schedule_running cf None c s b l = Inr (s', b', l', out)"
    and "run_inv cf sz c (int (cf_max_num_seqs cf)) U (sc_running s') (s', b', l', out)"
    and "\<And>r. r \<notin> set (sc_running s) \<Longrightarrow> st_of s' r = st_of s r"
    and "mset (sc_running s) = mset (sc_running s') + mset (map fst (ro_all out)) + mset (ro_preempted out)"
    and "sc_waiting s' = sc_waiting s" "sc_swapped s' = []" "sc_async_stopped s' = []"
    and "sc_running s' \<noteq> [] \<longrightarrow> c \<and> remaining_token_budget b' = 0" and "same_idents s s'"
proof -
  have "run_inv cf sz c (int (cf_max_num_seqs cf)) U (sc_running s) (s, b, l, empty_running)"
    by (rule run_entry [OF q]) (use b c l in \<open>auto simp: idle_budget_def\<close>)
  from schedule_running_total [OF cf queue_okD(9) [OF q] this] obtain s' b' l' out where
    r: "schedule_running cf None c s b l = Inr (s', b', l', out)" and
    i: "run_inv cf sz c (int (cf_max_num_seqs cf)) U (sc_running s') (s', b', l', out)" and
    e: "evolves (set (sc_running s)) s (s'\<lparr>sc_running := sc_running s\<rparr>)" and
    z: "sc_running s' \<noteq> [] \<longrightarrow> c \<and> remaining_token_budget b' = 0" by blast
  have qu: "sc_waiting s' = sc_waiting s" "sc_swapped s' = []" "sc_async_stopped s' = []"
    using e queue_okD(8,9) [OF q] by (simp_all add: evolves_def queues_def)
  have st: "st_of s' x = st_of s x" if "x \<notin> set (sc_running s)" for x
    using evolvesD(1) [OF e that] by (simp add: st_of_def seq_of_def)
  have "ro_swapped_out out = []" using i by (simp add: run_groups_def)
  with schedule_running_refs [OF r] qu queue_okD(8,9) [OF q]
  have "mset (sc_running s) = mset (sc_running s') + mset (map fst (ro_all out)) + mset (ro_preempted out)"
    by (simp add: all_refs_def ro_refs_def ro_all_def ac_simps)
  moreover have "same_idents s s'" using evolves_idents [OF e] by simp
  ultimately show ?thesis using that r i st qu z by blast
qed

lemma chunks_served:
  assumes C: "groups_with cf sz C U s" and "\<And>x. x \<in> set gs \<Longrightarrow> chunk_ok s x \<or> prompt_ok s c x"
    and "\<And>x. x \<in> set gs \<Longrightarrow> C (id_of s (fst x)) = Some (sq_tokens (seq_of s (fst x)))"
  shows "served cf sz gs s"
proof -
  have "st_of s r = RUNNING \<and> 0 < n \<and> n \<le> new_tokens s r \<and> (stage_of s r = DECODE \<longrightarrow> n = 1)" if "(r, n) \<in> set gs" for r n
    using assms(2) [OF that] by (auto simp: chunk_ok_def prompt_ok_def)
  then show ?thesis unfolding served_def using groups_withD(1) [OF C] assms(3) by blast
qed

lemma decode_ones:
  assumes "\<And>x. x \<in> set gs \<Longrightarrow> chunk_ok s x \<and> stage_of s (fst x) = DECODE"
  shows "sum_list (map snd gs) = int (length gs)"
  using assms
proof (induction gs)
  case (Cons x gs)
  have "chunk_ok s x \<and> stage_of s (fst x) = DECODE" by (rule Cons.prems) simp
  then have "snd x = 1" by (cases x) (simp add: chunk_ok_def)
  with Cons show ?case by simp
qed simp

lemma default_running:
  assumes cf: "config_ok cf" and q: "queue_ok cf sz False U s" and b: "idle_budget cf b" and l: "lora_inv cf l"
  shows "\<exists>s' b' l' out. schedule_running cf None False s b l = Inr (s', b', l', out) \<and> ro_prefill out = []
    \<and> same_idents s s' \<and> sc_running s' = [] \<and> (\<forall>r \<in> fst ` set (ro_decode out). stage_of s' r = DECODE)
    \<and> ro_swapped_out out = [] \<and> ro_blocks_out out = [] \<and> sc_swapped s' = [] \<and> check_budget cf b' = Inr ()
    \<and> bg_num_batched_tokens b' = sum_list (map snd (ro_decode out)) \<and> served cf sz (ro_decode out) s'
    \<and> queue_ok cf sz True U (s'\<lparr>sc_waiting := rev (ro_preempted out) @ sc_waiting s', sc_running := sc_running s' @ map fst (ro_decode out)\<rparr>)"
proof -
  have "False \<longrightarrow> cf_chunked_prefill_enabled cf" "False \<longrightarrow> bg_seq_ids b = {} \<and> bg_num_curr_seqs b = 0" by simp_all
  from running_returns [OF cf this(1) q b this(2) l] obtain s' b' l' out where
    r: "schedule_running cf None False s b l = Inr (s', b', l', out)" and
    i: "run_inv cf sz False (int (cf_max_num_seqs cf)) U (sc_running s') (s', b', l', out)" and
    st: "\<And>r. r \<notin> set (sc_running s) \<Longrightarrow> st_of s' r = st_of s r" and
    m: "mset (sc_running s) = mset (sc_running s') + mset (map fst (ro_all out)) + mset (ro_preempted out)" and
    qu: "sc_waiting s' = sc_waiting s" "sc_swapped s' = []" "sc_async_stopped s' = []" and
    e: "sc_running s' \<noteq> [] \<longrightarrow> False \<and> remaining_token_budget b' = 0" and si: "same_idents s s'" by metis
  have g: "run_groups cf sz False U (sc_running s') s' out" and bu: "run_budget cf False (int (cf_max_num_seqs cf)) s' b' out"
    using i by simp_all
  then obtain C where C: "groups_with cf sz C U s'"
    and full: "\<And>x. x \<in> set (ro_all out) \<Longrightarrow> C (id_of s' (fst x)) = Some (sq_tokens (seq_of s' (fst x)))"
    by (auto simp: run_groups_def)
  have run: "sc_running s' = []" using e by blast
  have outs: "ro_prefill out = []" "ro_swapped_out out = []" "ro_blocks_out out = []" "ro_all out = ro_decode out"
    using g by (simp_all add: run_groups_def ro_all_def)
  have ck: "chunk_ok s' x \<and> stage_of s' (fst x) = DECODE" if "x \<in> set (ro_decode out)" for x
    using g that by (simp add: run_groups_def outs(4))
  have pr: "\<forall>r \<in> set (ro_preempted out). st_of s' r = WAITING" using g by (simp add: run_groups_def)
  note w = queue_okD [OF q]
  have rs: "set (sc_running s) = fst ` set (ro_decode out) \<union> set (ro_preempted out)"
    using arg_cong [OF m, of set_mset] by (simp add: run outs(4))
  have len: "length (ro_decode out) \<le> length (sc_running s)" using arg_cong [OF m, of size] by (simp add: run outs(4))
  have ones: "sum_list (map snd (ro_decode out)) = int (length (ro_decode out))" by (rule decode_ones [OF ck])
  have "check_budget cf b' = Inr ()"
    using bu len w(10) cf ones by (simp add: check_budget_def run_budget_def outs(4) config_ok_def)
  moreover have "bg_num_batched_tokens b' = sum_list (map snd (ro_decode out))" using bu by (simp add: run_budget_def outs(4))
  moreover have "served cf sz (ro_decode out) s'"
    by (rule chunks_served [OF C]) (use ck full in \<open>auto simp: outs(4)\<close>)
  moreover have "queue_ok cf sz True U (s'\<lparr>sc_waiting := rev (ro_preempted out) @ sc_waiting s', sc_running := sc_running s' @ map fst (ro_decode out)\<rparr>)"
    (is "queue_ok _ _ _ _ ?s2")
  proof (rule queue_okI)
    have same: "sc_groups ?s2 = sc_groups s'" "sc_mem ?s2 = sc_mem s'" by simp_all
    note sg = same_groups [OF same(1)]
    show "groups_with cf sz C U ?s2" using C groups_with_same [OF same] by simp
    show "distinct (sc_waiting ?s2 @ sc_running ?s2)"
      using g w(2) rs by (auto simp: run qu run_groups_def outs(4))
    show "length (sc_running ?s2) \<le> cf_max_num_seqs cf" using len w(10) by (simp add: run)
    fix r show "st_of ?s2 r = WAITING" if "r \<in> set (sc_waiting ?s2)"
    proof (cases "r \<in> set (ro_preempted out)")
      case False
      then have "r \<in> set (sc_waiting s)" using that by (simp add: qu)
      then show ?thesis using w(2,4) st [of r] by (simp only: sg) auto
    next
      case True
      with pr show ?thesis by (simp only: sg)
    qed
    show "st_of ?s2 r = RUNNING \<and> (\<not> True \<longrightarrow> stage_of ?s2 r = DECODE)" if "r \<in> set (sc_running ?s2)"
      using that ck by (simp only: sg) (auto simp: run chunk_ok_def)
    assume "r \<in> U - set (sc_waiting ?s2) - set (sc_running ?s2)"
    then show "st_of ?s2 r \<noteq> RUNNING" using w(7) [of r] st [of r] rs by (simp only: sg) (auto simp: qu run)
  qed (use w(3) rs qu run in auto)
  moreover have "\<forall>r \<in> fst ` set (ro_decode out). stage_of s' r = DECODE" using ck by blast
  ultimately show ?thesis using r outs qu(2) run si by auto
qed

subsection \<open>The default policy\<close>

lemma no_swapped: "sc_swapped s = [] \<Longrightarrow>
    schedule_swapped cf c s b l = Inr (s, b, l, empty_swapped\<lparr>wo_lookahead := get_num_lookahead_slots cf False c\<rparr>)"
  by (simp add: schedule_swapped_def)

lemma post_init_ok:
  assumes "so_blocks_out o1 = []"
  shows "\<exists>gs. outputs_post_init s o1 = Inr (o1\<lparr>so_groups := gs\<rparr>) \<and> mset gs = mset (so_groups o1)"
proof (cases "list_ex (\<lambda>(r, _). sg_lora (sc_groups s r) \<noteq> None) (so_groups o1)")
  case True
  then have "outputs_post_init s o1 = Inr (o1\<lparr>so_groups := sort_by_lora_ids s (so_groups o1)\<rparr>)"
    using assms by (simp add: outputs_post_init_def)
  then show ?thesis by (auto simp: sort_by_lora_ids_def)
next
  case False
  then have "outputs_post_init s o1 = Inr (o1\<lparr>so_groups := so_groups o1\<rparr>)" using assms by (simp add: outputs_post_init_def)
  then show ?thesis by blast
qed

text \<open>What \<open>schedule_queues\<close> promises.\<close>

definition step_ok :: "sched_config \<Rightarrow> nat \<Rightarrow> group_ref set \<Rightarrow> sched_outputs \<Rightarrow> scheduler \<Rightarrow> bool" where
  "step_ok cf sz U o1 s' \<longleftrightarrow> queue_ok cf sz True U s' \<and> served cf sz (so_groups o1) s' \<and> in_limits cf o1
     \<and> set (map fst (so_groups o1)) \<subseteq> set (sc_running s')
     \<and> (\<not> cf_chunked_prefill_enabled cf \<longrightarrow> prompts_whole (so_groups o1) s')"

lemma step_post:
  assumes "so_blocks_out o1 = []" and q: "queue_ok cf sz True U s2" and sv: "served cf sz (so_groups o1) s'"
    and same: "sc_groups s2 = sc_groups s'" "sc_mem s2 = sc_mem s'" and lim: "in_limits cf o1"
    and sub: "set (map fst (so_groups o1)) \<subseteq> set (sc_running s2)"
    and whole: "\<not> cf_chunked_prefill_enabled cf \<longrightarrow> prompts_whole (so_groups o1) s2"
  shows "\<exists>o2. outputs_post_init s2 o1 = Inr o2 \<and> step_ok cf sz U o2 s2"
proof -
  obtain gs where p: "outputs_post_init s2 o1 = Inr (o1\<lparr>so_groups := gs\<rparr>)" and m: "mset gs = mset (so_groups o1)"
    using post_init_ok [OF assms(1)] by blast
  have gs: "set gs = set (so_groups o1)" by (rule mset_eq_setD [OF m])
  have "sum_list (map snd gs) = sum_list (map snd (so_groups o1))"
    using arg_cong [OF m, of "\<lambda>M. sum_mset (image_mset snd M)"] by (simp add: sum_mset_sum_list flip: mset_map)
  then have "step_ok cf sz U (o1\<lparr>so_groups := gs\<rparr>) s2"
    using q sv lim sub whole same_groups [OF same(1)]
    by (simp add: step_ok_def served_def in_limits_def prompts_whole_def gs same(2))
  with p show ?thesis by blast
qed

lemma schedule_default_total:
  assumes cf: "config_ok cf" and q: "queue_ok cf sz False U s"
  shows "\<exists>o1 s'. schedule_default cf None now s = Inr (o1, s') \<and> step_ok cf sz U o1 s' \<and> same_idents s s'"
proof -
  from default_prefills [OF cf q, of now] obtain s1 b1 l1 pre where
    p: "schedule_prefills cf now False s (start_budget cf s) (running_loras cf s) = Inr (s1, b1, l1, pre)" and
    l1: "lora_inv cf l1" and si1: "same_idents s s1" and cb: "check_budget cf b1 = Inr ()" and nb: "bg_num_batched_tokens b1 = sum_list (map snd (po_groups pre))" and
    b1: "po_groups pre = [] \<longrightarrow> b1 = start_budget cf s" and sv: "served cf sz (po_groups pre) s1" and
    wh: "prompts_whole (po_groups pre) (s1\<lparr>sc_running := sc_running s1 @ map fst (po_groups pre)\<rparr>)" and
    q1: "queue_ok cf sz (po_groups pre \<noteq> []) U (s1\<lparr>sc_running := sc_running s1 @ map fst (po_groups pre)\<rparr>)" by blast
  note sel = select_default_def add_running_eq [OF q] queue_okD(8) [OF q] p Let_def
  have lim: "so_num_batched_tokens o1 \<le> int (cf_max_num_batched_tokens cf)"
    if "so_num_batched_tokens o1 = bg_num_batched_tokens b" "check_budget cf b = Inr ()" for o1 b
    using that by (auto simp: check_budget_def elim!: bind_r_InrE)
  show ?thesis
  proof (cases "po_groups pre = []")
    case False
    define s2 where "s2 = s1\<lparr>sc_running := sc_running s1 @ map fst (po_groups pre)\<rparr>"
    define o1 where "o1 = \<lparr>so_groups = po_groups pre, so_num_prefill_groups = length (po_groups pre),
        so_num_batched_tokens = bg_num_batched_tokens b1, so_blocks_in = [], so_blocks_out = [], so_copy = [],
        so_ignored = po_ignored pre, so_lookahead = 0, so_running_queue_size = length (sc_running s2), so_preempted = 0\<rparr>"
    have "select_default cf None now s = Inr (s1, b1, pre, empty_running, empty_swapped)" using False by (simp add: sel)
    then have "schedule_default cf None now s = bind_r (outputs_post_init s2 o1) (\<lambda>o2. Inr (o2, s2))"
      by (simp add: schedule_default_def cb empty_running_def empty_swapped_def s2_def o1_def Let_def)
    moreover have "in_limits cf o1" using lim [OF _ cb, of o1] nb by (simp add: in_limits_def o1_def)
    then have "\<exists>o2. outputs_post_init s2 o1 = Inr o2 \<and> step_ok cf sz U o2 s2"
      by (intro step_post [where s' = s1]) (use q1 False sv wh in \<open>auto simp: o1_def s2_def\<close>)
    moreover have "same_idents s s2" using si1 by (simp add: s2_def)
    ultimately show ?thesis by auto
  next
    case True
    have q1: "queue_ok cf sz False U s1" using q1 True by simp
    have idle: "idle_budget cf b1" using b1 True start_idle [OF q] by simp
    have "\<exists>m s2 b2. (if cf_policy cf = ''priority'' then schedule_priority_preemption cf (s1, b1) else Inr (0, s1, b1)) = Inr (m, s2, b2)
      \<and> queue_ok cf sz False U s2 \<and> idle_budget cf b2 \<and> same_idents s1 s2"
      using priority_total [OF cf q1 idle] q1 idle by auto
    then obtain m s2 b2 where pr: "(if cf_policy cf = ''priority'' then schedule_priority_preemption cf (s1, b1) else Inr (0, s1, b1)) = Inr (m, s2, b2)"
      and q2: "queue_ok cf sz False U s2" and i2: "idle_budget cf b2" and si2: "same_idents s1 s2" by blast
    from default_running [OF cf q2 i2 l1] obtain s3 b3 l3 ro where
      r: "schedule_running cf None False s2 b2 l1 = Inr (s3, b3, l3, ro)" and
 si3: "same_idents s2 s3" and run3: "sc_running s3 = []" "\<forall>r \<in> fst ` set (ro_decode ro). stage_of s3 r = DECODE" and
      ro: "ro_prefill ro = []" "ro_swapped_out ro = []" "ro_blocks_out ro = []" and sw: "sc_swapped s3 = []" and
      cb3: "check_budget cf b3 = Inr ()" and nb3: "bg_num_batched_tokens b3 = sum_list (map snd (ro_decode ro))" and
      sv3: "served cf sz (ro_decode ro) s3" and
      q3: "queue_ok cf sz True U (s3\<lparr>sc_waiting := rev (ro_preempted ro) @ sc_waiting s3, sc_running := sc_running s3 @ map fst (ro_decode ro)\<rparr>)"
      by blast
    define wo where "wo = (if ro_preempted ro = [] then empty_swapped\<lparr>wo_lookahead := get_num_lookahead_slots cf False False\<rparr> else empty_swapped)"
    define s4 where "s4 = s3\<lparr>sc_waiting := rev (ro_preempted ro) @ sc_waiting s3, sc_running := sc_running s3 @ map fst (ro_decode ro)\<rparr>"
    define o1 where "o1 = \<lparr>so_groups = ro_decode ro, so_num_prefill_groups = 0,
        so_num_batched_tokens = bg_num_batched_tokens b3, so_blocks_in = [], so_blocks_out = [], so_copy = ro_copy ro,
        so_ignored = po_ignored pre, so_lookahead = ro_lookahead ro, so_running_queue_size = length (sc_running s4),
        so_preempted = length (ro_preempted ro)\<rparr>"
    have "select_default cf None now s = Inr (s3, b3, pre, ro, wo)"
      using True pr r ro no_swapped [OF sw] by (simp add: sel wo_def)
    then have "schedule_default cf None now s = bind_r (outputs_post_init s4 o1) (\<lambda>o2. Inr (o2, s4))"
      using True ro by (simp add: schedule_default_def cb3 wo_def empty_swapped_def s4_def o1_def Let_def)
    moreover have "sc_groups s4 = sc_groups s3" by (simp add: s4_def)
    then have "prompts_whole (ro_decode ro) s4" using run3 same_groups [of s4 s3] by (auto simp: prompts_whole_def s4_def)
    moreover have "in_limits cf o1" using lim [OF _ cb3, of o1] nb3 by (simp add: in_limits_def o1_def)
    then have "\<exists>o2. outputs_post_init s4 o1 = Inr o2 \<and> step_ok cf sz U o2 s4"
      by (intro step_post [where s' = s3]) (use q3 sv3 calculation in \<open>auto simp: o1_def s4_def\<close>)
    moreover have "same_idents s s4" using same_idents_trans [OF si1 same_idents_trans [OF si2 si3]] by (simp add: s4_def)
    ultimately show ?thesis by auto
  qed
qed

text \<open>Chunked prefill: the running groups first, then the prompts that still fit in the budget.\<close>

lemma sum_pos_Nil:
  assumes "\<And>x. x \<in> set gs \<Longrightarrow> prompt_ok s c x" and "sum_list (map snd gs) \<le> 0"
  shows "gs = []"
proof (cases gs)
  case (Cons x rest)
  have pos: "x \<in> set gs \<Longrightarrow> 0 < snd x" for x using assms(1) [of x] by (cases x) (simp add: prompt_ok_def)
  then have "0 \<le> sum_list (map snd rest)" by (intro sum_list_nonneg) (use pos in \<open>fastforce simp: Cons\<close>)
  with assms(2) pos [of x] show ?thesis by (simp add: Cons)
qed simp

lemma chunked_entry:
  assumes q: "queue_ok cf sz True U s" and g: "run_groups cf sz True U (sc_running s') s' out"
    and bu: "run_budget cf True K s' b' out" and l: "lora_inv cf l'"
    and st: "\<And>r. r \<notin> set (sc_running s) \<Longrightarrow> st_of s' r = st_of s r"
    and m: "mset (sc_running s) = mset (sc_running s') + mset (map fst (ro_all out)) + mset (ro_preempted out)"
    and w: "sc_waiting s' = sc_waiting s"
  shows "pre_inv cf sz True U (fst ` set (ro_all out)) (int (length (ro_all out))) (sum_list (map snd (ro_all out))) b'
    (sc_waiting s') [] (s', b', l', empty_prefills)"
proof -
  note d = queue_okD [OF q]
  from g obtain C where C: "groups_with cf sz C U s'"
    and full: "\<And>x. x \<in> set (ro_all out) \<Longrightarrow> C (id_of s' (fst x)) = Some (sq_tokens (seq_of s' (fst x)))"
    by (auto simp: run_groups_def)
  have rs: "set (sc_running s) = set (sc_running s') \<union> fst ` set (ro_all out) \<union> set (ro_preempted out)"
    using arg_cong [OF m, of set_mset] by simp
  have len: "length (ro_all out) \<le> length (sc_running s)" using arg_cong [OF m, of size] by simp
  have inj: "inj_on (req_of s') U" using C by (simp add: groups_with_def)
  have "pre_groups cf sz True U (fst ` set (ro_all out)) (sc_waiting s') [] s' empty_prefills"
  proof (rule pre_groupsI [OF C])
    show "st_of s' r = WAITING" if "r \<in> set (sc_waiting s') \<union> set []" for r
      using that d(2,4) st [of r] by (auto simp: w)
  qed (use full d(2,3) rs in \<open>auto simp: empty_prefills_def w\<close>)
  moreover have "req_of s' ` fst ` set (ro_all out) \<inter> req_of s' ` set (sc_waiting s) = {}"
  proof -
    have "fst ` set (ro_all out) \<subseteq> U" "set (sc_waiting s) \<subseteq> U" "fst ` set (ro_all out) \<inter> set (sc_waiting s) = {}"
      using rs d(2,3) by auto
    then show ?thesis by (simp flip: inj_on_image_Int [OF inj])
  qed
  moreover have "int (length (ro_all out)) \<le> int (cf_max_num_seqs cf)" using len d(10) by simp
  ultimately show ?thesis using bu l by (simp add: pre_budget_def run_budget_def empty_prefills_def w)
qed

text \<open>The queues that the step ends with: \<open>s'\<close> is the state after the running groups, \<open>s3\<close> after the prefills.\<close>

lemma chunked_exit:
  assumes q: "queue_ok cf sz True U s" and g: "run_groups cf sz True U (sc_running s') s' ro"
    and st: "\<And>r. r \<notin> set (sc_running s) \<Longrightarrow> st_of s' r = st_of s r"
    and m: "mset (sc_running s) = mset (sc_running s') + mset (map fst (ro_all ro)) + mset (ro_preempted ro)"
    and w: "sc_waiting s' = sc_waiting s" "sc_swapped s' = []" "sc_async_stopped s' = []"
    and z: "sc_running s' \<noteq> [] \<longrightarrow> remaining_token_budget b' = 0" "bg_num_batched_tokens b' = sum_list (map snd (ro_all ro))"
      "bg_token_budget b' = int (cf_max_num_batched_tokens cf)"
    and p: "pre_groups cf sz True U (fst ` set (ro_all ro)) (sc_waiting s3) [] s3 pre"
    and bu: "pre_budget cf (int (length (ro_all ro))) (sum_list (map snd (ro_all ro))) b' s3 Q b3 pre"
    and e: "evolves_waiting (set (sc_waiting s')) s' s3" and m3: "mset (sc_waiting s') = mset (sc_waiting s3) + po_refs pre"
    and s4: "s4 = s3\<lparr>sc_waiting := rev (ro_preempted ro) @ sc_waiting s3,
      sc_running := sc_running s3 @ map fst (ro_decode ro) @ map fst (ro_prefill ro) @ map fst (po_groups pre)\<rparr>"
    and gs: "gs = po_groups pre @ ro_prefill ro @ ro_decode ro"
  shows "queue_ok cf sz True U s4 \<and> served cf sz gs s3 \<and> bg_num_batched_tokens b3 = sum_list (map snd gs) \<and> check_budget cf b3 = Inr ()"
proof -
  note d = queue_okD [OF q] and ev = waiting_evolvesD [OF e]
  have rs: "set (sc_running s) = set (sc_running s') \<union> fst ` set (ro_all ro) \<union> set (ro_preempted ro)"
    using arg_cong [OF m, of set_mset] by simp
  have ws: "set (sc_waiting s) = set (sc_waiting s3) \<union> fst ` set (po_groups pre) \<union> set (po_ignored pre)"
    using arg_cong [OF m3, of set_mset] by (auto simp: po_refs_def w(1))
  have all: "set (ro_all ro) = set (ro_prefill ro) \<union> set (ro_decode ro)" by (auto simp: ro_all_def)
  have same: "sc_groups s4 = sc_groups s3" "sc_mem s4 = sc_mem s3" by (simp_all add: s4)
  note sg = same_groups [OF same(1)]
  have nw: "r \<notin> set (sc_waiting s')" if "r \<in> set (sc_running s)" for r using d(2) that by (auto simp: w(1))
  have ck: "chunk_ok s3 x" if x: "x \<in> set (ro_all ro)" for x
  proof -
    have "fst x \<notin> set (sc_waiting s')" using x rs by (intro nw) auto
    then show ?thesis using g x ev(1-3) [of "fst x"] by (cases x) (auto simp: run_groups_def chunk_ok_def)
  qed
  from p show ?thesis
  proof (rule pre_groupsE)
    fix C assume C: "groups_with cf sz C U s3" and dist: "distinct (sc_waiting s3 @ [] @ map fst (po_groups pre) @ po_ignored pre)"
      and A: "\<And>x. x \<in> fst ` set (ro_all ro) \<Longrightarrow> C (id_of s3 x) = Some (sq_tokens (seq_of s3 x))"
      and full: "\<And>x. x \<in> set (po_groups pre) \<Longrightarrow> C (id_of s3 (fst x)) = Some (sq_tokens (seq_of s3 (fst x)))"
      and wt: "\<And>r. r \<in> set (sc_waiting s3) \<union> set [] \<Longrightarrow> st_of s3 r = WAITING"
      and so: "\<And>x. x \<in> set (po_groups pre) \<Longrightarrow> prompt_ok s3 True x"
      and ig: "\<And>r. r \<in> set (po_ignored pre) \<Longrightarrow> st_of s3 r = FINISHED_IGNORED"
    have none: "po_groups pre = []" if "sc_running s' \<noteq> []"
      by (rule sum_pos_Nil [of _ s3 True]) (use so z bu that in \<open>auto simp: pre_budget_def remaining_token_budget_def\<close>)
    have size: "length (sc_running s) = length (sc_running s') + length (ro_all ro) + length (ro_preempted ro)"
      using arg_cong [OF m, of size] by simp
    have "queue_ok cf sz True U s4"
    proof (rule queue_okI)
      show "groups_with cf sz C U s4" using C groups_with_same [OF same] by simp
      show "distinct (sc_waiting s4 @ sc_running s4)"
        using run_groupsD(1) [OF g] d(2) dist rs ws by (auto simp: s4 ev(4) ro_all_def)
      show "length (sc_running s4) \<le> cf_max_num_seqs cf"
        using none size d(10) bu by (cases "sc_running s' = []") (auto simp: s4 ev(4) ro_all_def pre_budget_def)
      show "set (sc_waiting s4) \<union> set (sc_running s4) \<subseteq> U" using d(3) rs ws by (auto simp: s4 ev(4) ro_all_def)
      fix r show "st_of s4 r = WAITING" if r: "r \<in> set (sc_waiting s4)"
      proof (cases "r \<in> set (ro_preempted ro)")
        case True
        then have "st_of s' r = WAITING" "r \<notin> set (sc_waiting s')" using g nw rs by (auto simp: run_groups_def)
        then show ?thesis using ev(1) [of r] by (simp only: sg) simp
      next
        case False
        then have "r \<in> set (sc_waiting s3)" using r by (simp add: s4)
        then show ?thesis using wt by (simp only: sg) simp
      qed
      show "st_of s4 r = RUNNING \<and> (\<not> True \<longrightarrow> stage_of s4 r = DECODE)" if r: "r \<in> set (sc_running s4)"
      proof -
        have "r \<in> set (sc_running s') \<or> r \<in> fst ` set (ro_all ro) \<or> r \<in> fst ` set (po_groups pre)"
          using r by (auto simp: s4 ev(4) ro_all_def)
        moreover have "st_of s3 r = RUNNING" if "r \<in> set (sc_running s')"
          using that run_groupsD(3) [OF g that] ev(1) [of r] nw [of r] rs by simp
        moreover have "st_of s3 r = RUNNING" if "r \<in> fst ` set (ro_all ro)" using ck that by (auto simp: chunk_ok_def)
        moreover have "st_of s3 r = RUNNING" if "r \<in> fst ` set (po_groups pre)" using so that by (auto simp: prompt_ok_def)
        ultimately show ?thesis by (simp only: sg) blast
      qed
      assume r: "r \<in> U - set (sc_waiting s4) - set (sc_running s4)"
      show "st_of s4 r \<noteq> RUNNING"
      proof (cases "r \<in> set (po_ignored pre)")
        case True
        then show ?thesis using ig by (simp only: sg) simp
      next
        case False
        then have "r \<notin> set (sc_waiting s)" "r \<notin> set (sc_running s)" using r rs ws by (auto simp: s4 ev(4) ro_all_def)
        then show ?thesis using d(7) [of r] r ev(1) [of r] st [of r] by (simp only: sg) (simp add: w(1))
      qed
    qed (use w ev in \<open>simp_all add: s4\<close>)
    moreover have "served cf sz gs s3"
    proof (rule chunks_served [OF C, where c = True])
      fix x assume "x \<in> set gs"
      then have x: "x \<in> set (ro_all ro) \<or> x \<in> set (po_groups pre)" by (auto simp: gs all)
      show "chunk_ok s3 x \<or> prompt_ok s3 True x" using x ck so by blast
      show "C (id_of s3 (fst x)) = Some (sq_tokens (seq_of s3 (fst x)))" using x A full by blast
    qed
    moreover have "bg_num_batched_tokens b3 = sum_list (map snd gs)"
      using bu by (simp add: gs pre_budget_def ro_all_def)
    moreover have "check_budget cf b3 = Inr ()" using bu by (simp add: check_budget_def pre_budget_def)
    ultimately show ?thesis by blast
  qed
qed

lemma schedule_chunked_total:
  assumes cf: "config_ok cf" "cf_chunked_prefill_enabled cf" and q: "queue_ok cf sz True U s"
  shows "\<exists>o1 s'. schedule_chunked_prefill cf None now s = Inr (o1, s') \<and> step_ok cf sz U o1 s' \<and> same_idents s s'"
proof -
  have c: "True \<longrightarrow> cf_chunked_prefill_enabled cf" using cf by simp
  have idle: "idle_budget cf (new_budget cf)" "True \<longrightarrow> bg_seq_ids (new_budget cf) = {} \<and> bg_num_curr_seqs (new_budget cf) = 0"
    by (simp_all add: idle_budget_def new_budget_def)
  obtain s1 b1 l1 ro where r: "schedule_running cf None True s (new_budget cf) (Some {}) = Inr (s1, b1, l1, ro)" and
    i: "run_inv cf sz True (int (cf_max_num_seqs cf)) U (sc_running s1) (s1, b1, l1, ro)" and
    st: "\<And>r. r \<notin> set (sc_running s) \<Longrightarrow> st_of s1 r = st_of s r" and
    m: "mset (sc_running s) = mset (sc_running s1) + mset (map fst (ro_all ro)) + mset (ro_preempted ro)" and
    w: "sc_waiting s1 = sc_waiting s" "sc_swapped s1 = []" "sc_async_stopped s1 = []" and
    z: "sc_running s1 \<noteq> [] \<longrightarrow> True \<and> remaining_token_budget b1 = 0" and si1: "same_idents s s1"
    by (rule running_returns [OF cf(1) c q idle no_lora_inv(2)]) blast
  have g: "run_groups cf sz True U (sc_running s1) s1 ro" and bu: "run_budget cf True (int (cf_max_num_seqs cf)) s1 b1 ro"
    and l: "lora_inv cf l1" using i by simp_all
  from schedule_prefills_total [OF cf(1) c refl chunked_entry [OF q g bu l st m w(1)], of now] obtain s3 b3 l3 pre where
    p: "schedule_prefills cf now True s1 b1 l1 = Inr (s3, b3, l3, pre)" and
    pi: "pre_inv cf sz True U (fst ` set (ro_all ro)) (int (length (ro_all ro))) (sum_list (map snd (ro_all ro))) b1
      (sc_waiting s3) [] (s3, b3, l3, pre)" and
    e: "evolves_waiting (set (sc_waiting s1)) s1 s3" by blast
  have pg: "pre_groups cf sz True U (fst ` set (ro_all ro)) (sc_waiting s3) [] s3 pre"
    and pb: "pre_budget cf (int (length (ro_all ro))) (sum_list (map snd (ro_all ro))) b1 s3 (set (sc_waiting s3) \<union> set []) b3 pre"
    using pi by simp_all
  have ro: "ro_swapped_out ro = []" "ro_blocks_out ro = []" using g by (simp_all add: run_groups_def)
  define s4 where "s4 = s3\<lparr>sc_waiting := rev (ro_preempted ro) @ sc_waiting s3,
      sc_running := sc_running s3 @ map fst (ro_decode ro) @ map fst (ro_prefill ro) @ map fst (po_groups pre)\<rparr>"
  define gs where "gs = po_groups pre @ ro_prefill ro @ ro_decode ro"
  have z1: "sc_running s1 \<noteq> [] \<longrightarrow> remaining_token_budget b1 = 0" "bg_num_batched_tokens b1 = sum_list (map snd (ro_all ro))"
    "bg_token_budget b1 = int (cf_max_num_batched_tokens cf)" using z bu by (simp_all add: run_budget_def)
  have fin: "queue_ok cf sz True U s4" "served cf sz gs s3" "bg_num_batched_tokens b3 = sum_list (map snd gs)"
    "check_budget cf b3 = Inr ()"
    using chunked_exit [OF q g st m w z1 pg pb e prefills_split [OF p e] s4_def gs_def] by blast+
  define wo where "wo = (if ro_preempted ro = [] then empty_swapped\<lparr>wo_lookahead := get_num_lookahead_slots cf False False\<rparr> else empty_swapped)"
  define o1 where "o1 = \<lparr>so_groups = gs, so_num_prefill_groups = length (po_groups pre) + length (ro_prefill ro),
        so_num_batched_tokens = bg_num_batched_tokens b3, so_blocks_in = [], so_blocks_out = [], so_copy = ro_copy ro,
        so_ignored = po_ignored pre, so_lookahead = ro_lookahead ro, so_running_queue_size = length (sc_running s4),
        so_preempted = length (ro_preempted ro)\<rparr>"
  have "select_chunked cf None now s = Inr (s3, b3, pre, ro, wo)"
    using r p ro no_swapped [OF w(2)] by (simp add: select_chunked_def wo_def)
  then have "schedule_chunked_prefill cf None now s = bind_r (outputs_post_init s4 o1) (\<lambda>o2. Inr (o2, s4))"
    using ro fin(4) by (simp add: schedule_chunked_prefill_def wo_def empty_swapped_def s4_def o1_def gs_def Let_def)
  moreover have "bg_num_batched_tokens b3 \<le> int (cf_max_num_batched_tokens cf)" using pb by (simp add: pre_budget_def)
  then have "in_limits cf o1" using fin(3) by (simp add: in_limits_def o1_def)
  then have "\<exists>o2. outputs_post_init s4 o1 = Inr o2 \<and> step_ok cf sz U o2 s4"
    by (intro step_post [where s' = s3]) (use fin cf(2) in \<open>auto simp: o1_def gs_def s4_def\<close>)
  moreover have "same_idents s1 s3" using evolves_idents e by (fastforce simp: evolves_waiting_def)
  then have "same_idents s s4" using same_idents_trans [OF si1] by (simp add: s4_def)
  ultimately show ?thesis by auto
qed

end
