(* ===== verification/Sched_Metadata.thy ===== *)
theory Sched_Metadata
  imports Sched_Safe
begin

text \<open>The metadata of a scheduled group is always built, and \<open>schedule\<close> as a whole returns.\<close>

text \<open>The states that differ only in times, statistics and what has been sent to the workers.\<close>

definition same_view :: "sched_config \<Rightarrow> scheduler \<Rightarrow> scheduler \<Rightarrow> bool" where
  "same_view cf s s' \<longleftrightarrow> sc_mem s' = sc_mem s \<and> queues s' = queues s \<and> st_of s' = st_of s \<and> stage_of s' = stage_of s
     \<and> same_idents s s' \<and> new_tokens s' = new_tokens s \<and> id_of s' = id_of s \<and> req_of s' = req_of s
     \<and> (\<forall>r. sq_tokens (seq_of s' r) = sq_tokens (seq_of s r) \<and> single_ok cf (sc_groups s' r) = single_ok cf (sc_groups s r))"

lemma same_view_refl [simp]: "same_view cf s s"
  by (simp add: same_view_def)

lemma same_view_trans: "same_view cf s s' \<Longrightarrow> same_view cf s' s'' \<Longrightarrow> same_view cf s s''"
  using same_idents_trans by (auto simp: same_view_def)

lemma same_view_groups: "same_view cf s s' \<Longrightarrow> groups_with cf sz C U s' = groups_with cf sz C U s"
  by (simp add: same_view_def groups_with_def)

lemma same_view_queue_ok: "same_view cf s s' \<Longrightarrow> queue_ok cf sz c U s' = queue_ok cf sz c U s"
  using queuesD [of s' s] by (simp add: queue_ok_def same_view_groups) (simp add: same_view_def)

lemma same_view_served: "same_view cf s s' \<Longrightarrow> served cf sz gs s' = served cf sz gs s"
  by (simp add: served_def same_view_def)

lemma same_viewI:
  assumes "the_seq (f (sc_groups s r)) = the_seq (sc_groups s r)" and "single_ok cf (f (sc_groups s r)) = single_ok cf (sc_groups s r)"
    and "ident (f (sc_groups s r)) = ident (sc_groups s r)"
  shows "same_view cf s (upd_group r f s)"
  using assms by (auto simp: same_view_def same_idents_def ident_def st_of_def stage_of_def new_tokens_def id_of_def req_of_def seq_of_def fun_eq_iff)

lemma time_view: "same_view cf s (upd_group r (maybe_set_first_scheduled_time t) s)"
    "same_view cf s (upd_group r (add_scheduler_time t) s)"
  by (rule same_viewI; auto simp: maybe_set_first_scheduled_time_def add_scheduler_time_def the_seq_def single_ok_def get_prompt_limit_def ident_def)+

lemma times_view: "same_view cf s (fold (\<lambda>r. upd_group r (add_scheduler_time t)) rs s)"
proof (induction rs arbitrary: s)
  case (Cons r rs)
  show ?case by simp (rule same_view_trans [OF time_view(2) Cons.IH])
qed simp

lemma sent_view:
  assumes "single_ok cf (sc_groups s r)"
  shows "same_view cf s (upd_group r (map_seqs RUNNING (\<lambda>q. q\<lparr>sq_data := snd (get_delta_and_reset (sq_data q))\<rparr>)) s)"
    (is "same_view cf s (upd_group r ?f s)")
proof -
  let ?g = "sc_groups s r"
  define q where "q = the_seq (?f ?g)"
  have seq: "q = the_seq ?g \<or> q = (the_seq ?g)\<lparr>sq_data := (sq_data (the_seq ?g))\<lparr>sd_new_appended := []\<rparr>\<rparr>"
    "sg_seqs (?f ?g) = [q]"
    using map_seqs_single [OF assms] by (auto simp: q_def get_delta_and_reset_def)
  then have d: "sq_id q = sq_id (the_seq ?g)" "sq_status q = sq_status (the_seq ?g)" "sq_tokens q = sq_tokens (the_seq ?g)"
    "sd_stage (sq_data q) = sd_stage (sq_data (the_seq ?g))" "sq_num_new_tokens q = sq_num_new_tokens (the_seq ?g)"
    "sd_num_computed (sq_data q) = sd_num_computed (sq_data (the_seq ?g))" "tokens_ok (sq_data q) = tokens_ok (sq_data (the_seq ?g))"
    by (auto simp: tokens_ok_def sq_num_new_tokens_def sd_num_uncomputed_def sd_len_def)
  have "single_ok cf (?f ?g)" using assms d seq(2) by (simp add: single_ok_def flip: q_def)
  moreover have "ident (?f ?g) = ident ?g"
    using seq single_okD(1) [OF assms] by (auto simp: ident_def map_seqs_def simp flip: q_def)
  ultimately show ?thesis using assms d
    by (auto simp: same_view_def same_idents_def st_of_def stage_of_def new_tokens_def id_of_def req_of_def seq_of_def fun_eq_iff simp flip: q_def)
qed

subsection \<open>One scheduled group\<close>

text \<open>A token is sampled for a decoding sequence and for the chunk that completes a prompt.\<close>

definition sample_due :: "scheduler \<Rightarrow> group_ref \<times> int \<Rightarrow> bool" where
  "sample_due s = (\<lambda>(r, n). stage_of s r = DECODE \<or> new_tokens s r \<le> n)"

definition meta_for :: "scheduler \<Rightarrow> group_ref \<times> int \<Rightarrow> metadata \<Rightarrow> bool" where
  "meta_for s x md \<longleftrightarrow> meta_chunk_size md = snd x \<and> meta_do_sample md = sample_due s x"

lemma same_view_meta: "same_view cf s s' \<Longrightarrow> meta_for s' = meta_for s"
  by (auto simp: fun_eq_iff meta_for_def sample_due_def same_view_def)

lemma metadata_total:
  assumes cf: "config_ok cf" and C: "groups_with cf sz C U s" and r: "r \<in> U" and st: "st_of s r = RUNNING"
  shows "\<exists>md s'. metadata_of cf now (r, n) s = Inr (md, s') \<and> same_view cf s s' \<and> meta_for s (r, n) md"
proof -
  define s1 where "s1 = upd_group r (maybe_set_first_scheduled_time now) s"
  have v1: "same_view cf s s1" unfolding s1_def by (rule time_view(1))
  have C1: "groups_with cf sz C U s1" using C same_view_groups [OF v1] by simp
  have ok: "single_ok cf (sc_groups s1 r)" by (rule groups_withD(2) [OF C1 r])
  have st1: "sq_status (the_seq (sc_groups s1 r)) = RUNNING" using st v1 by (simp add: same_view_def flip: st_of_eq)
  then have seqs: "get_seqs RUNNING (sc_groups s1 r) = [the_seq (sc_groups s1 r)]" using single_get_seqs [OF ok] by simp
  have some: "C (sq_id (the_seq (sc_groups s1 r))) \<noteq> None" using groups_withD(3) [OF C1 r] st1 by (simp add: id_of_eq st_of_eq)
  obtain ids where ids: "get_block_table (the_seq (sc_groups s1 r)) (snd (sc_mem s1)) = Inr ids"
    using kv_table [OF groups_withD(1) [OF C1] some] by blast
  have tab: "table_of_seq now (the_seq (sc_groups s1 r)) (sc_mem s1) = Inr ((sq_id (the_seq (sc_groups s1 r)), ids), sc_mem s1)"
    by (simp add: table_of_seq_def ids kv_access [OF groups_withD(1) [OF C1]])
  have cross: "cross_table_of (sc_groups s1 r) (sc_mem s1) = Inr (None, None)"
    using single_okD(3) [OF ok] by (simp add: cross_table_of_def)
  obtain fl where flags: "prompt_flags n (sc_groups s1 r) = Inr fl"
    using single_len [OF ok] single_prefill [OF ok]
    by (cases "sd_stage (sq_data (the_seq (sc_groups s1 r))) = PREFILL") (simp_all add: prompt_flags_def Let_def)
  obtain p f d where fl: "fl = (p, f, d)" by (rule prod_cases3)
  have mem: "s1\<lparr>sc_mem := sc_mem s1\<rparr> = s1" by simp
  define s2 where "s2 = upd_group r (map_seqs RUNNING (\<lambda>q. q\<lparr>sq_data := snd (get_delta_and_reset (sq_data q))\<rparr>)) s1"
  have v2: "same_view cf s s2" unfolding s2_def by (rule same_view_trans [OF v1 sent_view [OF ok]])
  have cc: "common_computed cf (sc_groups s1 r) (sc_mem s1) = Inr ([], sc_mem s1)"
    using cf by (simp add: common_computed_def config_ok_def)
  have samp: "d \<longleftrightarrow> sample_due s (r, n)"
  proof -
    have "stage_of s1 r = stage_of s r" "new_tokens s1 r = new_tokens s r" using v1 by (simp_all add: same_view_def)
    then show ?thesis using flags single_len [OF ok] single_prefill [OF ok]
      by (cases "sd_stage (sq_data (the_seq (sc_groups s1 r)))")
        (auto simp: prompt_flags_def fl Let_def sample_due_def stage_of_def new_tokens_def seq_of_def the_seq_def
          sq_num_new_tokens_def sd_num_uncomputed_def sq_len_def)
  qed
  have "\<exists>md. metadata_of cf now (r, n) s = Inr (md, if f \<or> \<not> cf_send_delta_data cf then s1 else s2) \<and> meta_for s (r, n) md"
    unfolding metadata_of_def prod.case Let_def s1_def [symmetric]
    by (simp add: cross seqs tab cc flags fl mem s2_def meta_for_def samp)
  then show ?thesis using v1 v2 by (metis (full_types))
qed

lemma metadatas_total:
  assumes cf: "config_ok cf" and "groups_with cf sz C U s" and "\<And>x. x \<in> set gs \<Longrightarrow> fst x \<in> U \<and> st_of s (fst x) = RUNNING"
  shows "\<exists>mds s'. map_r (metadata_of cf now) gs s = Inr (mds, s') \<and> same_view cf s s' \<and> list_all2 (meta_for s) gs mds"
  using assms(2-)
proof (induction gs arbitrary: s)
  case (Cons x gs)
  obtain r n where x: "x = (r, n)" by (cases x)
  have "r \<in> U" "st_of s r = RUNNING" using Cons.prems(2) [of x] by (simp_all add: x)
  from metadata_total [OF cf Cons.prems(1) this, of now n] obtain md s1 where
    m: "metadata_of cf now x s = Inr (md, s1)" and v: "same_view cf s s1" and mf: "meta_for s x md" by (auto simp: x)
  have "groups_with cf sz C U s1" using Cons.prems(1) same_view_groups [OF v] by simp
  moreover have "fst y \<in> U \<and> st_of s1 (fst y) = RUNNING" if "y \<in> set gs" for y
    using Cons.prems(2) [of y] that v by (simp add: same_view_def)
  ultimately obtain mds s' where "map_r (metadata_of cf now) gs s1 = Inr (mds, s')" "same_view cf s1 s'"
    "list_all2 (meta_for s1) gs mds" using Cons.IH by blast
  then show ?case using m mf same_view_trans [OF v] same_view_meta [OF v] by auto
qed simp

subsection \<open>The whole step\<close>

lemma schedule_queues_total:
  assumes "config_ok cf" and "queue_ok cf sz (cf_chunked_prefill_enabled cf) U s"
  shows "\<exists>o1 s'. schedule_queues cf None now s = Inr (o1, s') \<and> step_ok cf sz U o1 s' \<and> same_idents s s'"
  using assms schedule_default_total [of cf sz U s now] schedule_chunked_total [of cf sz U s now]
  by (cases "cf_chunked_prefill_enabled cf") (simp_all add: schedule_queues_def)

lemma marks_nothing:
  assumes "kv_at sz m C"
  shows "fold_r (\<lambda>_. mark_blocks_as_computed) gs m = Inr m"
  by (induction gs) (simp_all add: kv_mark [OF assms])

lemma schedule_returns:
  assumes cf: "config_ok cf" and q: "queue_ok cf sz (cf_chunked_prefill_enabled cf) U s"
  shows "\<exists>mds o1 allow s'. sc_schedule cf None now start elapsed s = Inr (mds, o1, allow, s')
    \<and> queue_ok cf sz True U s' \<and> served cf sz (so_groups o1) s' \<and> in_limits cf o1
    \<and> set (map fst (so_groups o1)) \<subseteq> set (sc_running s') \<and> list_all2 (meta_for s') (so_groups o1) mds
    \<and> (\<not> cf_chunked_prefill_enabled cf \<longrightarrow> prompts_whole (so_groups o1) s') \<and> same_idents s s'"
proof -
  obtain o1 s1 where sq: "schedule_queues cf None now s = Inr (o1, s1)" and ok: "step_ok cf sz U o1 s1"
    and si: "same_idents s s1"
    using schedule_queues_total [OF cf q] by blast
  then have q1: "queue_ok cf sz True U s1" and sv: "served cf sz (so_groups o1) s1" and lim: "in_limits cf o1"
    and sub: "set (map fst (so_groups o1)) \<subseteq> set (sc_running s1)"
    and wh: "\<not> cf_chunked_prefill_enabled cf \<longrightarrow> prompts_whole (so_groups o1) s1" by (simp_all add: step_ok_def)
  obtain C where C: "groups_with cf sz C U s1" using queue_okD(1) [OF q1] by blast
  have "fst x \<in> U \<and> st_of s1 (fst x) = RUNNING" if "x \<in> set (so_groups o1)" for x
    using that sub queue_okD(3,5) [OF q1] by auto
  from metadatas_total [OF cf C this, of "so_groups o1" start] obtain mds s2 where
    m: "map_r (metadata_of cf start) (so_groups o1) s1 = Inr (mds, s2)" and v: "same_view cf s1 s2"
    and mf: "list_all2 (meta_for s1) (so_groups o1) mds" by blast
  define s4 where "s4 = fold (\<lambda>r. upd_group r (add_scheduler_time elapsed)) (sc_running s2) s2"
  have v4: "same_view cf s1 s4" unfolding s4_def by (rule same_view_trans [OF v times_view])
  have "kv_at sz (sc_mem s2) C" using groups_withD(1) [OF C] v by (simp add: same_view_def)
  from marks_nothing [OF this, of "so_groups o1"] have "on_mem (fold_r (\<lambda>_. mark_blocks_as_computed) (so_groups o1)) s2 = Inr s2"
    by (simp add: on_mem_def)
  with sq m have "\<exists>allow. sc_schedule cf None now start elapsed s = Inr (mds, o1, allow, s4)"
    by (auto simp: sc_schedule_def s4_def Let_def)
  moreover have run: "sc_running s4 = sc_running s1" using v4 queuesD [of s4 s1] by (simp add: same_view_def)
  moreover have "prompts_whole gs s4 = prompts_whole gs s1" for gs using run v4 by (simp add: prompts_whole_def same_view_def)
  moreover have "same_idents s s4" using same_idents_trans [OF si] v4 by (simp add: same_view_def)
  ultimately show ?thesis
    using q1 sv lim sub mf wh same_view_queue_ok [OF v4] same_view_served [OF v4] same_view_meta [OF v4] by metis
qed


end
