(* ===== verification/Engine_Group.thy ===== *)
theory Engine_Group
  imports Engine Sched_Metadata
begin

text \<open>What one step of the engine does to one group of the batch.\<close>

subsection \<open>Stopping\<close>

definition same_tokens :: "sequence \<Rightarrow> sequence \<Rightarrow> bool" where
  "same_tokens q q' \<longleftrightarrow> sq_data q' = sq_data q \<and> sq_id q' = sq_id q"

definition seq_goes_on :: "nat \<Rightarrow> sampling \<Rightarrow> lora_request option \<Rightarrow> sequence \<Rightarrow> bool" where
  "seq_goes_on max_model_len p lora q \<longleftrightarrow> sq_output_len q < sp_min_tokens p
     \<or> (sq_len q \<le> get_max_model_len max_model_len lora \<and> Some (sq_output_len q) \<noteq> sp_max_tokens p)"

lemma find_stop_same: "find_stop k b strs q = (x, q') \<Longrightarrow> same_tokens q q' \<and> sq_status q' = sq_status q"
  by (induction strs) (auto simp: same_tokens_def Let_def split: option.splits if_splits)

lemma check_stop_same: "check_stop_strings k p q = (x, q') \<Longrightarrow> same_tokens q q' \<and> sq_status q' = sq_status q"
  by (auto simp: check_stop_strings_def same_tokens_def split: if_splits dest!: find_stop_same)

lemma strip_same: "same_tokens q (strip_output k p q)"
  by (simp add: strip_output_def same_tokens_def)

lemma last_token: "sd_output d \<noteq> [] \<Longrightarrow> get_last_token_id d = Inr (last (sd_output d))"
  by (simp add: get_last_token_id_def)

lemma maybe_stop_total:
  assumes out: "sd_output (sq_data q) \<noteq> []"
  shows "\<exists>q'. maybe_stop_sequence ml k p lora q = Inr q' \<and> same_tokens q q'
    \<and> (sq_status q' = FINISHED_STOPPED \<or> sq_status q' = FINISHED_LENGTH_CAPPED \<or> sq_status q' = sq_status q \<and> seq_goes_on ml p lora q)"
proof -
  obtain x q1 where c: "check_stop_strings k p q = (x, q1)" by (cases "check_stop_strings k p q")
  note s = check_stop_same [OF c] strip_same [of q k p]
  have len: "sq_len q1 = sq_len q" "sq_output_len q1 = sq_output_len q"
    using s(1) by (simp_all add: same_tokens_def sq_len_def sq_output_len_def)
  show ?thesis
  proof (cases "sq_output_len q < sp_min_tokens p")
    case True
    then show ?thesis by (auto simp: maybe_stop_sequence_def same_tokens_def seq_goes_on_def)
  next
    case False
    let ?eos = "\<not> sp_ignore_eos p \<and> sq_eos_token_id q = Some (last (sd_output (sq_data q)))"
    have "maybe_stop_sequence ml k p lora q =
      (if ?eos then Inr ((strip_output k p q)\<lparr>sq_status := FINISHED_STOPPED\<rparr>)
       else if last (sd_output (sq_data q)) \<in> set (sp_stop_token_ids p)
       then Inr ((strip_output k p q)\<lparr>sq_status := FINISHED_STOPPED, sq_stop_reason := Some (Inl (last (sd_output (sq_data q))))\<rparr>)
       else case x of Some str \<Rightarrow> Inr (q1\<lparr>sq_status := FINISHED_STOPPED, sq_stop_reason := Some (Inr str)\<rparr>)
         | None \<Rightarrow> if sq_len q > get_max_model_len ml lora then Inr (q1\<lparr>sq_status := FINISHED_LENGTH_CAPPED\<rparr>)
             else if Some (sq_output_len q) = sp_max_tokens p then Inr (q1\<lparr>sq_status := FINISHED_LENGTH_CAPPED\<rparr>)
             else Inr q1)"
      using False by (simp add: maybe_stop_sequence_def last_token [OF out] c len split: option.split)
    then show ?thesis using s
      by (cases x) (auto simp: same_tokens_def seq_goes_on_def not_less)
  qed
qed

text \<open>What the engine relies on: the detokenizer changes the text only, and the workers answer every group of the batch, with a sample where one is due.\<close>

definition detok_ok :: "detokenizer \<Rightarrow> bool" where
  "detok_ok d \<longleftrightarrow> (\<forall>f q p. d = Some f \<longrightarrow> same_tokens q (snd (f q p)) \<and> sq_status (snd (f q p)) = sq_status q)"

definition worker_ok :: "worker \<Rightarrow> bool" where
  "worker_ok w \<longleftrightarrow> (\<forall>mds o1 ids. length (w mds o1 ids) = length (so_groups o1)
     \<and> (\<forall>i < length (so_groups o1). meta_do_sample (mds ! i) \<longrightarrow>
           (\<exists>sm rest. w mds o1 ids ! i = sm # rest \<and> sm_logprobs sm (sm_output_token sm) \<noteq> None)))"

lemma detokenize_and_stop_total:
  assumes d: "detok_ok (ec_detokenizer ec)" and out: "sd_output (sq_data q) \<noteq> []"
  shows "\<exists>q'. detokenize_and_stop ec p lora q = Inr q' \<and> same_tokens q q'
    \<and> (sq_status q' = FINISHED_STOPPED \<or> sq_status q' = FINISHED_LENGTH_CAPPED
       \<or> sq_status q' = sq_status q \<and> seq_goes_on (cf_max_model_len (ec_sched ec)) p lora q)"
proof -
  obtain k q1 where f: "(case ec_detokenizer ec of Some f \<Rightarrow> if sp_detokenize p then f q p else (0, q) | None \<Rightarrow> (0, q)) = (k, q1)"
    by fastforce
  have s: "same_tokens q q1" "sq_status q1 = sq_status q"
  proof -
    have "q1 = q \<or> (\<exists>f. ec_detokenizer ec = Some f \<and> q1 = snd (f q p))"
      using f by (cases "ec_detokenizer ec") (auto split: if_splits)
    then show "same_tokens q q1" "sq_status q1 = sq_status q" using d by (auto simp: detok_ok_def same_tokens_def)
  qed
  have "sd_output (sq_data q1) \<noteq> []" using s out by (simp add: same_tokens_def)
  from maybe_stop_total [OF this, of "cf_max_model_len (ec_sched ec)" k p lora] obtain q' where
    q': "maybe_stop_sequence (cf_max_model_len (ec_sched ec)) k p lora q1 = Inr q'" "same_tokens q1 q'"
    "sq_status q' = FINISHED_STOPPED \<or> sq_status q' = FINISHED_LENGTH_CAPPED
      \<or> sq_status q' = sq_status q1 \<and> seq_goes_on (cf_max_model_len (ec_sched ec)) p lora q1" by blast
  have "seq_goes_on (cf_max_model_len (ec_sched ec)) p lora q1 = seq_goes_on (cf_max_model_len (ec_sched ec)) p lora q"
    using s by (simp add: seq_goes_on_def same_tokens_def sq_len_def sq_output_len_def)
  with q' s show ?thesis by (auto simp: detokenize_and_stop_def f same_tokens_def)
qed

subsection \<open>One group\<close>

text \<open>The computed tokens of a running group move on by its chunk.\<close>

lemma advance_computed:
  assumes ok: "single_ok cf g" and st: "sq_status (the_seq g) = RUNNING" and n: "0 < n" "n \<le> sq_num_new_tokens (the_seq g)"
    and d: "sd_stage (sq_data (the_seq g)) = DECODE \<longrightarrow> n = 1"
  obtains dt where "update_num_computed_tokens (nat n) g = Inr (g\<lparr>sg_seqs := [(the_seq g)\<lparr>sq_data := dt\<rparr>]\<rparr>)"
    and "sd_prompt dt = sd_prompt (sq_data (the_seq g))" "sd_output dt = sd_output (sq_data (the_seq g))"
    and "sd_cached dt = sd_cached (sq_data (the_seq g))" "sd_num_computed dt \<le> sd_len dt"
    and "sd_num_computed dt = sd_num_computed (sq_data (the_seq g)) + nat n"
    and "sd_stage dt = (if sd_num_computed dt = sd_len dt then DECODE else sd_stage (sq_data (the_seq g)))"
proof -
  let ?q = "the_seq g" let ?d = "sq_data ?q"
  define d1 where "d1 = ?d\<lparr>sd_num_computed := sd_num_computed ?d + nat n\<rparr>"
  define dt where "dt = (if sd_num_computed d1 = sd_len d1 then d1\<lparr>sd_stage := DECODE\<rparr> else d1)"
  have t: "sd_num_computed ?d < sd_len ?d" using single_okD(2) [OF ok] by (simp add: tokens_ok_def)
  have le: "sd_num_computed d1 \<le> sd_len d1"
  proof (cases "sd_stage ?d")
    case DECODE
    then show ?thesis using d t by (simp add: d1_def sd_len_def)
  next
    case PREFILL
    then have "n \<le> int (sd_len ?d) - int (sd_num_computed ?d)" using n by (simp add: sq_num_new_tokens_def sd_num_uncomputed_def)
    then show ?thesis using n by (simp add: d1_def sd_len_def)
  qed
  then have "sd_update_computed (nat n) ?d = Inr dt"
    by (simp add: sd_update_computed_def d1_def dt_def sd_num_uncomputed_def Let_def)
  moreover have "\<not> sq_finished ?q" using st by (simp add: sq_finished_def status_finished_def)
  ultimately have "update_num_computed_tokens (nat n) g = Inr (g\<lparr>sg_seqs := [?q\<lparr>sq_data := dt\<rparr>]\<rparr>)"
    using single_okD(1) [OF ok] by (simp add: update_num_computed_tokens_def)
  then show ?thesis by (rule that) (use le in \<open>simp_all add: dt_def d1_def sd_len_def\<close>)
qed

text \<open>The group afterwards: no token was due, or one was appended and the sequence may have ended.\<close>

definition group_advanced :: "engine_config \<Rightarrow> sampling \<Rightarrow> bool \<Rightarrow> int \<Rightarrow> seq_group \<Rightarrow> seq_group \<Rightarrow> bool" where
  "group_advanced ec p due n g g' \<longleftrightarrow> (let q = the_seq g; q' = the_seq g' in
     sg_seqs g' = [q'] \<and> g'\<lparr>sg_seqs := sg_seqs g\<rparr> = g \<and> sq_id q' = sq_id q
     \<and> sd_prompt (sq_data q') = sd_prompt (sq_data q) \<and> tokens_ok (sq_data q')
     \<and> sd_num_computed (sq_data q') = sd_num_computed (sq_data q) + nat n
     \<and> (if due then length (sd_output (sq_data q')) = Suc (length (sd_output (sq_data q)))
            \<and> sd_output (sq_data q') \<noteq> [] \<and> butlast (sd_output (sq_data q')) = sd_output (sq_data q)
            \<and> sd_stage (sq_data q') = DECODE
            \<and> (sq_finished q' \<or> sq_status q' = RUNNING \<and> seq_goes_on (cf_max_model_len (ec_sched ec)) p (sg_lora g) q')
          else sd_output (sq_data q') = sd_output (sq_data q) \<and> sq_status q' = RUNNING \<and> sd_stage (sq_data q') = PREFILL))"

lemma advanced_single:
  assumes "single_ok cf g" and "group_advanced ec p due n g g'" and st: "sq_status (the_seq g) = RUNNING"
  shows "single_ok cf g'" and "prefix (sq_tokens (the_seq g)) (sq_tokens (the_seq g'))"
    and "sg_request_id g' = sg_request_id g"
    and "sq_finished (the_seq g') \<longleftrightarrow> sq_status (the_seq g') \<noteq> RUNNING"
proof -
  have f: "g'\<lparr>sg_seqs := sg_seqs g\<rparr> = g" using assms(2) by (simp add: group_advanced_def Let_def)
  have fields: "sg_request_id g' = sg_request_id g" "sg_encoder_seq g' = sg_encoder_seq g" "sg_n g' = sg_n g" "sg_lora g' = sg_lora g"
    using arg_cong [OF f, of sg_request_id] arg_cong [OF f, of sg_encoder_seq] arg_cong [OF f, of sg_n] arg_cong [OF f, of sg_lora]
    by simp_all
  show "sg_request_id g' = sg_request_id g" by (rule fields(1))
  have fin: "sq_finished q \<Longrightarrow> sq_status q \<noteq> SWAPPED \<and> sq_status q \<noteq> WAITING \<and> sq_status q \<noteq> RUNNING" for q
    by (auto simp: sq_finished_def status_finished_def)
  show "single_ok cf g'" using assms(1,2) fields fin [of "the_seq g'"]
    by (auto simp: single_ok_def group_advanced_def get_prompt_limit_def Let_def split: if_splits)
  show "sq_finished (the_seq g') \<longleftrightarrow> sq_status (the_seq g') \<noteq> RUNNING" using assms(2) fin [of "the_seq g'"]
    by (auto simp: group_advanced_def sq_finished_def status_finished_def Let_def split: if_splits)
  have "prefix (sd_output (sq_data (the_seq g))) (sd_output (sq_data (the_seq g')))"
    using assms(2) prefixeq_butlast [of "sd_output (sq_data (the_seq g'))"] by (auto simp: group_advanced_def Let_def split: if_splits)
  moreover have "tokens_ok (sq_data (the_seq g))" "tokens_ok (sq_data (the_seq g'))" "sd_prompt (sq_data (the_seq g')) = sd_prompt (sq_data (the_seq g))"
    using assms(2) single_okD(2) [OF assms(1)] by (simp_all add: group_advanced_def Let_def)
  ultimately show "prefix (sq_tokens (the_seq g)) (sq_tokens (the_seq g'))" by (simp add: tokens_ok_def)
qed

subsection \<open>The group in the engine\<close>

lemma en_upd_fields [simp]: "en_group (en_upd r f e) = (en_group e)(r := f (en_group e r))"
    "en_params (en_upd r f e) = en_params e" "en_seq_counter (en_upd r f e) = en_seq_counter e"
    "en_next_group (en_upd r f e) = en_next_group e" "sc_mem (en_sched (en_upd r f e)) = sc_mem (en_sched e)"
    "queues (en_sched (en_upd r f e)) = queues (en_sched e)"
  by (simp_all add: en_upd_def en_group_def fun_eq_iff)

lemma single_finished: "single_ok cf g \<Longrightarrow> sg_finished g = sq_finished (the_seq g)"
  by (elim single_seq) (simp add: sg_finished_def)

lemma append_one:
  assumes ok: "single_ok cf g" and st: "sq_status (the_seq g) = RUNNING"
    and dt: "sd_prompt dt = sd_prompt (sq_data (the_seq g))" "sd_output dt = sd_output (sq_data (the_seq g))"
      "sd_cached dt = sd_cached (sq_data (the_seq g))" "sd_num_computed dt \<le> sd_len dt" "sd_stage dt = DECODE"
      "sd_num_computed dt = sd_num_computed (sq_data (the_seq g)) + nat n"
    and q': "same_tokens ((the_seq g)\<lparr>sq_data := sd_append tok lp dt\<rparr>) q'"
    and fin: "sq_status q' = FINISHED_STOPPED \<or> sq_status q' = FINISHED_LENGTH_CAPPED \<or> sq_status q' = RUNNING
      \<and> seq_goes_on (cf_max_model_len (ec_sched ec)) p (sg_lora g) ((the_seq g)\<lparr>sq_data := sd_append tok lp dt\<rparr>)"
  shows "group_advanced ec p True n g (g\<lparr>sg_seqs := [q']\<rparr>)"
proof -
  have d: "sq_data q' = sd_append tok lp dt" "sq_id q' = sq_id (the_seq g)" using q' by (simp_all add: same_tokens_def)
  have "tokens_ok (sd_append tok lp dt)"
    using dt single_okD(2) [OF ok] by (simp add: tokens_ok_def sd_append_def sd_len_def)
  moreover have "seq_goes_on (cf_max_model_len (ec_sched ec)) p (sg_lora g) q'"
    if "seq_goes_on (cf_max_model_len (ec_sched ec)) p (sg_lora g) ((the_seq g)\<lparr>sq_data := sd_append tok lp dt\<rparr>)"
    using that d by (simp add: seq_goes_on_def sq_len_def sq_output_len_def)
  ultimately show ?thesis using fin dt d
    by (auto simp: group_advanced_def Let_def the_seq_def sd_append_def sq_finished_def status_finished_def)
qed

lemma process_one_effect:
  assumes ok: "single_ok cf g0" and st: "sq_status (the_seq g0) = RUNNING" and d: "detok_ok (ec_detokenizer ec)"
    and dt: "sd_prompt dt = sd_prompt (sq_data (the_seq g0))" "sd_output dt = sd_output (sq_data (the_seq g0))"
      "sd_cached dt = sd_cached (sq_data (the_seq g0))" "sd_num_computed dt \<le> sd_len dt" "sd_stage dt = DECODE"
      "sd_num_computed dt = sd_num_computed (sq_data (the_seq g0)) + nat n"
    and e: "en_group e r = g0\<lparr>sg_seqs := [(the_seq g0)\<lparr>sq_data := dt\<rparr>]\<rparr>"
    and sm: "sm_logprobs sm (sm_output_token sm) \<noteq> None"
    and kv: "kv_at sz (sc_mem (en_sched e)) C"
  shows "\<exists>e' q'. process_one ec p r (sm # rest) e = Inr e' \<and> group_advanced ec p True n g0 (en_group e' r)
    \<and> en_group e' = (en_group e)(r := g0\<lparr>sg_seqs := [q']\<rparr>) \<and> queues (en_sched e') = queues (en_sched e)
    \<and> en_params e' = en_params e \<and> en_seq_counter e' = en_seq_counter e \<and> en_next_group e' = en_next_group e
    \<and> kv_at sz (sc_mem (en_sched e')) (if sq_finished q' then C(sq_id (the_seq g0) := None) else C)"
proof -
  obtain lp where lp: "sm_logprobs sm (sm_output_token sm) = Some lp" using sm by blast
  define q1 where "q1 = (the_seq g0)\<lparr>sq_data := sd_append (sm_output_token sm) lp dt\<rparr>"
  have "sd_output (sq_data q1) \<noteq> []" by (simp add: q1_def sd_append_def)
  from detokenize_and_stop_total [OF d this, of p "sg_lora g0"] obtain q2 where
    q2: "detokenize_and_stop ec p (sg_lora g0) q1 = Inr q2" and s2: "same_tokens q1 q2" and
    f2: "sq_status q2 = FINISHED_STOPPED \<or> sq_status q2 = FINISHED_LENGTH_CAPPED
       \<or> sq_status q2 = sq_status q1 \<and> seq_goes_on (cf_max_model_len (ec_sched ec)) p (sg_lora g0) q1" by blast
  define e1 where "e1 = en_upd r (\<lambda>g. g\<lparr>sg_seqs := q2 # tl (sg_seqs g)\<rparr>) e"
  have run: "process_one ec p r (sm # rest) e = (if sq_finished q2 then on_sched (free_seq q2) e1 else Inr e1)"
    using q2 by (simp add: process_one_def e sq_append_token_def lp e1_def q1_def)
  have adv: "group_advanced ec p True n g0 (g0\<lparr>sg_seqs := [q2]\<rparr>)"
    by (rule append_one [OF ok st dt s2 [unfolded q1_def]]) (use f2 st in \<open>simp add: q1_def\<close>)
  have id: "sq_id q2 = sq_id (the_seq g0)" using s2 by (simp add: same_tokens_def q1_def)
  have g1: "en_group e1 = (en_group e)(r := g0\<lparr>sg_seqs := [q2]\<rparr>)" by (simp add: e1_def e)
  have kv1: "kv_at sz (sc_mem (en_sched e1)) C" using kv by (simp add: e1_def)
  show ?thesis
  proof (cases "sq_finished q2")
    case True
    from kv_free [OF kv1, of q2] obtain m' where m': "free q2 (sc_mem (en_sched e1)) = Inr m'"
      and kv': "kv_at sz m' (C(sq_id q2 := None))" by blast
    define e2 where "e2 = e1\<lparr>en_sched := (en_sched e1)\<lparr>sc_mem := m'\<rparr>\<rparr>"
    have "process_one ec p r (sm # rest) e = Inr e2"
      by (simp add: run True on_sched_def free_seq_def on_mem_def m' e2_def)
    moreover have "en_group e2 = (en_group e)(r := g0\<lparr>sg_seqs := [q2]\<rparr>)"
      using g1 by (simp add: e2_def en_group_def fun_eq_iff)
    ultimately show ?thesis using adv kv' True by (auto simp: e2_def e1_def id)
  next
    case False
    then show ?thesis using adv kv1 run g1 by (auto simp: e1_def)
  qed
qed

text \<open>One group of the batch: it advances, and a finished sequence gives its blocks back.\<close>

lemma process_group_effect:
  assumes C: "groups_with cf sz C U (en_sched e)" and r: "r \<in> U" and st: "st_of (en_sched e) r = RUNNING"
    and n: "0 < n" "n \<le> new_tokens (en_sched e) r" "stage_of (en_sched e) r = DECODE \<longrightarrow> n = 1"
    and p: "en_params e r = Some p" "sp_n p = 1" and d: "detok_ok (ec_detokenizer ec)"
    and i: "i < length mds" "i < length gs" "gs ! i = (r, n)" "meta_for (en_sched e) (r, n) (mds ! i)"
    and out: "i < length outputs"
    and smp: "meta_do_sample (mds ! i) \<Longrightarrow> \<exists>sm rest. outputs ! i = sm # rest \<and> sm_logprobs sm (sm_output_token sm) \<noteq> None"
  shows "\<exists>e' C'. process_group ec outputs mds gs i (before, now, e)
      = Inr (before, if sg_finished (en_group e' r) then now @ [i] else now, e') \<and> groups_with cf sz C' U (en_sched e')
    \<and> group_advanced ec p (sample_due (en_sched e) (r, n)) n (en_group e r) (en_group e' r)
    \<and> (\<forall>x. x \<noteq> r \<longrightarrow> en_group e' x = en_group e x) \<and> queues (en_sched e') = queues (en_sched e)
    \<and> en_params e' = en_params e \<and> en_seq_counter e' = en_seq_counter e \<and> en_next_group e' = en_next_group e"
proof -
  let ?g = "en_group e r"
  have ge: "?g = sc_groups (en_sched e) r" by (simp add: en_group_def)
  have ok: "single_ok cf ?g" unfolding ge by (rule groups_withD(2) [OF C r])
  have st': "sq_status (the_seq ?g) = RUNNING" using st by (simp add: ge st_of_eq)
  have n': "n \<le> sq_num_new_tokens (the_seq ?g)" "sd_stage (sq_data (the_seq ?g)) = DECODE \<longrightarrow> n = 1"
    using n by (simp_all add: ge new_tokens_def stage_of_def seq_of_def)
  obtain dt where u: "update_num_computed_tokens (nat n) ?g = Inr (?g\<lparr>sg_seqs := [(the_seq ?g)\<lparr>sq_data := dt\<rparr>]\<rparr>)"
    and dt: "sd_prompt dt = sd_prompt (sq_data (the_seq ?g))" "sd_output dt = sd_output (sq_data (the_seq ?g))"
      "sd_cached dt = sd_cached (sq_data (the_seq ?g))" "sd_num_computed dt \<le> sd_len dt"
    and nc: "sd_num_computed dt = sd_num_computed (sq_data (the_seq ?g)) + nat n"
    and stg: "sd_stage dt = (if sd_num_computed dt = sd_len dt then DECODE else sd_stage (sq_data (the_seq ?g)))"
    by (rule advance_computed [OF ok st' n(1) n'])
  define e1 where "e1 = en_upd r (\<lambda>_. ?g\<lparr>sg_seqs := [(the_seq ?g)\<lparr>sq_data := dt\<rparr>]\<rparr>) e"
  have kv: "kv_at sz (sc_mem (en_sched e1)) C" using groups_withD(1) [OF C] by (simp add: e1_def)
  have g1: "en_group e1 r = ?g\<lparr>sg_seqs := [(the_seq ?g)\<lparr>sq_data := dt\<rparr>]\<rparr>" by (simp add: e1_def)
  have nf: "\<not> sg_finished ?g" using single_finished [OF ok] st' by (simp add: sq_finished_def status_finished_def)
  have due: "meta_do_sample (mds ! i) = sample_due (en_sched e) (r, n)" "meta_chunk_size (mds ! i) = n"
    using i(4) by (simp_all add: meta_for_def)
  have "\<exists>e' q'. process_group ec outputs mds gs i (before, now, e)
      = Inr (before, if sg_finished (en_group e' r) then now @ [i] else now, e')
    \<and> en_group e' = (en_group e)(r := ?g\<lparr>sg_seqs := [q']\<rparr>)
    \<and> group_advanced ec p (sample_due (en_sched e) (r, n)) n ?g (en_group e' r) \<and> queues (en_sched e') = queues (en_sched e)
    \<and> en_params e' = en_params e \<and> en_seq_counter e' = en_seq_counter e \<and> en_next_group e' = en_next_group e
    \<and> kv_at sz (sc_mem (en_sched e')) (if sq_finished q' then C(sq_id (the_seq ?g) := None) else C)"
  proof (cases "sample_due (en_sched e) (r, n)")
    case True
    have dec: "sd_stage dt = DECODE"
    proof (cases "sd_stage (sq_data (the_seq ?g))")
      case PREFILL
      then have "new_tokens (en_sched e) r \<le> n" using True by (simp add: sample_due_def ge stage_of_def seq_of_def)
      then have "n = int (sd_len (sq_data (the_seq ?g))) - int (sd_num_computed (sq_data (the_seq ?g)))"
        using n PREFILL by (simp add: ge new_tokens_def seq_of_def sq_num_new_tokens_def sd_num_uncomputed_def)
      then have "sd_num_computed dt = sd_len dt" using nc n(1) dt by (simp add: sd_len_def)
      then show ?thesis using stg by simp
    qed (simp add: stg)
    obtain sm rest where sm: "outputs ! i = sm # rest" "sm_logprobs sm (sm_output_token sm) \<noteq> None" using smp True due by auto
    from process_one_effect [OF ok st' d dt dec nc _ sm(2) kv, where r = r and p = p and rest = rest] obtain e2 q' where
      po: "process_one ec p r (sm # rest) e1 = Inr e2" and res: "group_advanced ec p True n ?g (en_group e2 r)"
      "en_group e2 = (en_group e1)(r := ?g\<lparr>sg_seqs := [q']\<rparr>)" "queues (en_sched e2) = queues (en_sched e1)"
      "en_params e2 = en_params e1" "en_seq_counter e2 = en_seq_counter e1" "en_next_group e2 = en_next_group e1"
      "kv_at sz (sc_mem (en_sched e2)) (if sq_finished q' then C(sq_id (the_seq ?g) := None) else C)"
      by (auto simp: e1_def)
    have "process_group ec outputs mds gs i (before, now, e) = Inr (before, if sg_finished (en_group e2 r) then now @ [i] else now, e2)"
      using i out sm(1) True nf u po p by (simp add: process_group_def due process_outputs_def get_params_def nth_r_def flip: e1_def)
    then show ?thesis using res True by (intro exI conjI) (assumption | simp add: e1_def)+
  next
    case False
    have "sd_num_computed dt \<noteq> sd_len dt" "sd_stage (sq_data (the_seq ?g)) = PREFILL"
    proof -
      show pre: "sd_stage (sq_data (the_seq ?g)) = PREFILL"
        using False by (cases "sd_stage (sq_data (the_seq ?g))") (simp_all add: sample_due_def ge stage_of_def seq_of_def)
      have "n < new_tokens (en_sched e) r" using False by (simp add: sample_due_def)
      then show "sd_num_computed dt \<noteq> sd_len dt"
        using n pre nc dt by (simp add: ge new_tokens_def seq_of_def sq_num_new_tokens_def sd_num_uncomputed_def sd_len_def)
    qed
    then have adv: "group_advanced ec p False n ?g (?g\<lparr>sg_seqs := [(the_seq ?g)\<lparr>sq_data := dt\<rparr>]\<rparr>)"
      using dt nc stg st' single_okD(2) [OF ok] by (simp add: group_advanced_def Let_def the_seq_def tokens_ok_def sd_len_def)
    have "process_group ec outputs mds gs i (before, now, e) = Inr (before, if sg_finished (en_group e1 r) then now @ [i] else now, e1)"
      using i out False nf u g1 by (simp add: process_group_def due nth_r_def flip: e1_def)
    moreover have "\<not> sq_finished ((the_seq ?g)\<lparr>sq_data := dt\<rparr>)" using st' by (simp add: sq_finished_def status_finished_def)
    ultimately show ?thesis using adv kv False by (intro exI conjI) (assumption | simp add: e1_def)+
  qed
  then obtain e' q' where run: "process_group ec outputs mds gs i (before, now, e)
      = Inr (before, if sg_finished (en_group e' r) then now @ [i] else now, e')"
    and g': "en_group e' = (en_group e)(r := ?g\<lparr>sg_seqs := [q']\<rparr>)"
    and adv: "group_advanced ec p (sample_due (en_sched e) (r, n)) n ?g (en_group e' r)" and rest: "queues (en_sched e') = queues (en_sched e)"
      "en_params e' = en_params e" "en_seq_counter e' = en_seq_counter e" "en_next_group e' = en_next_group e"
    and kv': "kv_at sz (sc_mem (en_sched e')) (if sq_finished q' then C(sq_id (the_seq ?g) := None) else C)" by blast
  note a = advanced_single [OF ok adv st']
  have q': "the_seq (en_group e' r) = q'" by (simp add: g' the_seq_def)
  have sc: "sc_groups (en_sched e') x = en_group e' x" "sc_groups (en_sched e) x = en_group e x" for x by (simp_all add: en_group_def)
  have ids: "id_of (en_sched e') = id_of (en_sched e)" "req_of (en_sched e') = req_of (en_sched e)"
    using adv a(3) by (auto simp: fun_eq_iff id_of_def req_of_def seq_of_def sc g' group_advanced_def Let_def)
  have id: "sq_id (the_seq ?g) = id_of (en_sched e) r" by (simp add: id_of_def seq_of_def sc)
  obtain toks where toks: "C (id_of (en_sched e) r) = Some toks" using groups_withD(3) [OF C r] st by auto
  note pre = groups_withD(4) [OF C r toks]
  define t where "t = (if sq_finished q' then None else Some toks)"
  have "C(id_of (en_sched e) r := t) = (if sq_finished q' then C(sq_id (the_seq ?g) := None) else C)"
    using toks by (auto simp: t_def id)
  with kv' have kv'': "kv_at sz (sc_mem (en_sched e')) (C(id_of (en_sched e) r := t))" by simp
  have "groups_with cf sz (C(id_of (en_sched e) r := t)) U (en_sched e')"
  proof (rule groups_with_change [OF C r _ ids _ kv''])
    show "sc_groups (en_sched e') x = sc_groups (en_sched e) x" if "x \<noteq> r" for x using that by (simp add: sc g')
    show "single_ok cf (sc_groups (en_sched e') r)" using a(1) by (simp add: sc)
    show "t = None \<longleftrightarrow> st_of (en_sched e') r \<noteq> RUNNING" using a(4) by (simp add: t_def st_of_eq sc q')
    show "toks' \<noteq> [] \<and> prefix toks' (sq_tokens (seq_of (en_sched e') r))" if "t = Some toks'" for toks'
    proof -
      have "toks' = toks" using that by (simp add: t_def split: if_splits)
      moreover have "prefix (sq_tokens (seq_of (en_sched e) r)) (sq_tokens (seq_of (en_sched e') r))"
        using a(2) by (simp add: seq_of_def sc)
      ultimately show ?thesis using pre prefix_order.trans by blast
    qed
  qed
  then show ?thesis using run adv rest by (intro exI [of _ e'] exI) (auto simp: g')
qed

end
