(* ===== verification/Sched_Requests.thy ===== *)
theory Sched_Requests
  imports Sched_Queues Sched_Metadata
begin

text \<open>
  Worked runs of the request scheduler: three blocks of two tokens on the GPU and three on the CPU,
  no watermark to speak of, requests of one sequence each.
\<close>

definition sx_cf :: sched_config where
  "sx_cf = \<lparr>cf_max_num_batched_tokens = 8, cf_max_num_seqs = 2, cf_max_model_len = 8, cf_num_lookahead_slots = 0,
     cf_delay_factor = 0, cf_chunked_prefill_enabled = False, cf_preemption_mode = None, cf_num_scheduler_steps = 1,
     cf_send_delta_data = False, cf_policy = ''fcfs'', cf_max_loras = None, cf_enable_prefix_caching = False,
     cf_block_size = 2\<rparr>"

definition sx_group :: "nat \<Rightarrow> int list \<Rightarrow> seq_group" where
  "sx_group i toks = new_group (if i = 0 then ''a'' else ''b'') [new_sequence i toks] (real i) (Some 1) None None 0"

text \<open>Group \<open>0\<close> has a prompt of three tokens, every other group one that exceeds the model length.\<close>

definition sx_start :: "scheduler result" where
  "sx_start = bind_r (init_scheduler (\<lambda>_ _ _. 0) sx_cf 2 1 None 1
       (\<lambda>r. sx_group r (if r = 0 then [5, 6, 7] else [1, 2, 3, 4, 5, 6, 7, 8, 9]))) (\<lambda>s.
     Inr (add_seq_group 1 (add_seq_group 0 s)))"

definition sx_state :: scheduler where
  "sx_state = (case sx_start of Inr s \<Rightarrow> s | Inl _ \<Rightarrow> undefined)"

lemma sx_first:
  "case sc_schedule sx_cf None (\<lambda>_. 0) 0 0 sx_state of
     Inr (mds, o1, allow, s') \<Rightarrow> so_ignored o1 = [1] \<and> so_groups o1 = [(0, 3)] \<and> sc_running s' = [0] \<and> sc_waiting s' = []
   | Inl _ \<Rightarrow> False"
  by code_simp

theorem schedule_conserves_witness:
  "\<exists>mds o1 allow s'. sc_schedule sx_cf None (\<lambda>_. 0) 0 0 sx_state = Inr (mds, o1, allow, s')
     \<and> all_refs s' + mset (so_ignored o1) = all_refs sx_state \<and> so_ignored o1 = [1]"
proof -
  from sx_first obtain mds o1 allow s' where
    e: "sc_schedule sx_cf None (\<lambda>_. 0) 0 0 sx_state = Inr (mds, o1, allow, s')" and "so_ignored o1 = [1]"
    by (auto split: sum.splits)
  with schedule_conserves [OF e] show ?thesis by blast
qed

text \<open>New requests keep the invariant of the queues, so it holds in every state that requests and steps build.\<close>

lemma init_queue_ok:
  assumes "init_scheduler H cf ng nc None pp groups = Inr s" and "\<not> cf_enable_prefix_caching cf" and "0 < cf_block_size cf"
    and "pp \<le> ng" "0 < ng" "pp \<le> nc" "0 < nc"
  shows "queue_ok cf (cf_block_size cf) c {} s" and "sc_groups s = groups"
proof -
  from assms(1,2,5,7) obtain m where pp: "pp \<noteq> 0" and
    m: "init_block_manager H (cf_block_size cf) (nat (int ng div int pp)) (nat (int nc div int pp)) (1 / 100) None False [] = Inr m" and
    s: "s = \<lparr>sc_groups = groups, sc_mem = m, sc_waiting = [], sc_running = [], sc_swapped = [], sc_finished_ids = [],
         sc_prev_time = 0, sc_prev_prompt = False, sc_last_prompt_latency = 0, sc_num_preemption = 0, sc_async_stopped = []\<rparr>"
    by (auto simp: init_scheduler_def floordiv_r_Inr_iff)
  have "0 < nat (int ng div int pp)" "0 < nat (int nc div int pp)" using pp assms(4,6) by (simp_all add: pos_imp_zdiv_pos_iff)
  from kv_init [OF m assms(3) this] show "queue_ok cf (cf_block_size cf) c {} s"
    by (auto simp: queue_ok_def groups_with_def s)
  show "sc_groups s = groups" by (simp add: s)
qed

lemma add_queue_ok:
  assumes q: "queue_ok cf sz c U s" and ok: "single_ok cf (sc_groups s r)" and st: "st_of s r = WAITING"
    and new: "r \<notin> U" "id_of s r \<notin> id_of s ` U" "req_of s r \<notin> req_of s ` U"
  shows "queue_ok cf sz c (insert r U) (add_seq_group r s)"
proof -
  obtain C where C: "groups_with cf sz C U s" using queue_okD(1) [OF q] by blast
  have none: "C (id_of s r) = None"
  proof (rule ccontr)
    assume "C (id_of s r) \<noteq> None"
    then have "id_of s r \<in> dom C" by blast
    then show False using C new(2) by (auto simp: groups_with_def)
  qed
  define s' where "s' = add_seq_group r s"
  have same: "sc_groups s' = sc_groups s" "sc_mem s' = sc_mem s" and qs: "sc_waiting s' = sc_waiting s @ [r]"
    "sc_running s' = sc_running s" "sc_swapped s' = sc_swapped s" "sc_async_stopped s' = sc_async_stopped s"
    by (simp_all add: s'_def add_seq_group_def)
  note sg = same_groups [OF same(1)]
  have "{x \<in> insert r U. st_of s x = RUNNING} = {x \<in> U. st_of s x = RUNNING}" using st by auto
  then have "groups_with cf sz C (insert r U) s"
    using C ok new none by (auto simp: groups_with_def)
  then have "groups_with cf sz C (insert r U) s'" using groups_with_same [OF same] by simp
  then have "queue_ok cf sz c (insert r U) s'"
    by (rule queue_okI) (use queue_okD [OF q] st new(1) in \<open>auto simp: sg qs\<close>)
  then show ?thesis by (simp add: s'_def)
qed

lemma new_group_ok:
  assumes "toks \<noteq> []" and "n = None \<or> n = Some 1 \<or> n = Some 0"
  shows "single_ok cf (new_group i [new_sequence k toks] t n None None p)"
  using assms by (auto simp: single_ok_def new_group_def new_sequence_def the_seq_def tokens_ok_def from_seqs_def
      seq_data_of_def sd_len_def get_prompt_limit_def)

subsection \<open>A concrete run\<close>

lemma sx_queue_ok: "config_ok sx_cf" "queue_ok sx_cf 2 False {0, 1} sx_state"
proof -
  show "config_ok sx_cf" by (simp add: config_ok_def sx_cf_def is_multi_step_def)
  define groups where "groups = (\<lambda>r. sx_group r (if r = 0 then [5, 6, 7] else [1, 2, 3, 4, 5, 6, 7, 8, 9]))"
  have "case init_scheduler (\<lambda>_ _ _. 0) sx_cf 2 1 None 1 groups of Inl _ \<Rightarrow> False | Inr _ \<Rightarrow> True"
    unfolding groups_def by code_simp
  then obtain s where s: "init_scheduler (\<lambda>_ _ _. 0) sx_cf 2 1 None 1 groups = Inr s" by (auto split: sum.splits)
  have cfs: "\<not> cf_enable_prefix_caching sx_cf" "cf_block_size sx_cf = 2" by (simp_all add: sx_cf_def)
  have q: "queue_ok sx_cf 2 False {} s" and g: "sc_groups s = groups"
    using init_queue_ok [OF s cfs(1)] by (simp_all add: cfs(2))
  have ok: "single_ok sx_cf (groups r)" for r
    unfolding groups_def sx_group_def by (rule new_group_ok) simp_all
  have f: "id_of s r = r" "st_of s r = WAITING" "req_of s r = (if r = 0 then ''a'' else ''b'')" for r
    by (simp_all add: id_of_def st_of_def req_of_def seq_of_def the_seq_def g groups_def sx_group_def new_group_def new_sequence_def)
  have q0: "queue_ok sx_cf 2 False {0} (add_seq_group 0 s)"
    using add_queue_ok [OF q, of 0] ok by (simp add: f g)
  have g0: "sc_groups (add_seq_group 0 s) = sc_groups s" by (simp add: add_seq_group_def)
  have "queue_ok sx_cf 2 False (insert 1 {0}) (add_seq_group 1 (add_seq_group 0 s))"
    by (rule add_queue_ok [OF q0]) (simp_all add: same_groups [OF g0] g0 f g ok)
  moreover have "sx_state = add_seq_group 1 (add_seq_group 0 s)"
    by (simp add: sx_state_def sx_start_def s del: One_nat_def flip: groups_def)
  ultimately show "queue_ok sx_cf 2 False {0, 1} sx_state" by (simp add: insert_commute)
qed


end
