(* ===== verification/Engine_Step.thy ===== *)
theory Engine_Step
  imports Engine_Group Sched_Requests
begin

text \<open>A whole step of the engine: the batch, the answers, and the groups that have finished.\<close>

subsection \<open>The batch\<close>

definition ref_at :: "scheduled \<Rightarrow> nat \<Rightarrow> group_ref" where
  "ref_at gs i = fst (gs ! i)"

text \<open>What the scheduler hands to the engine.\<close>

definition batch_ok :: "sched_config \<Rightarrow> nat \<Rightarrow> group_ref set \<Rightarrow> metadata list \<Rightarrow> scheduled \<Rightarrow> scheduler \<Rightarrow> bool" where
  "batch_ok cf sz U mds gs s \<longleftrightarrow> queue_ok cf sz True U s \<and> distinct (map fst gs) \<and> fst ` set gs \<subseteq> set (sc_running s)
     \<and> list_all2 (meta_for s) gs mds
     \<and> (\<forall>(r, n) \<in> set gs. 0 < n \<and> n \<le> new_tokens s r \<and> (stage_of s r = DECODE \<longrightarrow> n = 1))
     \<and> (\<not> cf_chunked_prefill_enabled cf \<longrightarrow> prompts_whole gs s)"

definition samples_ok :: "metadata list \<Rightarrow> scheduled \<Rightarrow> sample list list \<Rightarrow> bool" where
  "samples_ok mds gs outputs \<longleftrightarrow> length outputs = length gs
     \<and> (\<forall>i < length gs. meta_do_sample (mds ! i) \<longrightarrow> (\<exists>sm rest. outputs ! i = sm # rest \<and> sm_logprobs sm (sm_output_token sm) \<noteq> None))"

definition params_ok :: "group_ref set \<Rightarrow> engine \<Rightarrow> bool" where
  "params_ok U e \<longleftrightarrow> (\<forall>r \<in> U. \<exists>p. en_params e r = Some p \<and> sp_n p = 1)"

definition same_frame :: "engine \<Rightarrow> engine \<Rightarrow> bool" where
  "same_frame e e' \<longleftrightarrow> en_params e' = en_params e \<and> en_seq_counter e' = en_seq_counter e \<and> en_next_group e' = en_next_group e"

definition param_of :: "engine \<Rightarrow> group_ref \<Rightarrow> sampling" where
  "param_of e r = the (en_params e r)"

text \<open>After the first \<open>k\<close> groups of the batch.\<close>

definition batch_done ::
    "engine_config \<Rightarrow> nat \<Rightarrow> group_ref set \<Rightarrow> scheduled \<Rightarrow> engine \<Rightarrow> nat \<Rightarrow> nat list \<Rightarrow> engine \<Rightarrow> bool" where
  "batch_done ec sz U gs e k fin e' \<longleftrightarrow> (\<exists>C. groups_with (ec_sched ec) sz C U (en_sched e'))
     \<and> queues (en_sched e') = queues (en_sched e) \<and> same_frame e e'
     \<and> (\<forall>j<k. group_advanced ec (param_of e (ref_at gs j)) (sample_due (en_sched e) (gs ! j)) (snd (gs ! j))
           (en_group e (ref_at gs j)) (en_group e' (ref_at gs j)))
     \<and> (\<forall>x. x \<notin> fst ` set (take k gs) \<longrightarrow> en_group e' x = en_group e x)
     \<and> fin = filter (\<lambda>i. sg_finished (en_group e' (ref_at gs i))) [0..<k]"

lemma en_same:
  assumes "en_group e' r = en_group e r"
  shows "seq_of (en_sched e') r = seq_of (en_sched e) r" "st_of (en_sched e') r = st_of (en_sched e) r"
    "stage_of (en_sched e') r = stage_of (en_sched e) r" "new_tokens (en_sched e') r = new_tokens (en_sched e) r"
    "sample_due (en_sched e') (r, n) = sample_due (en_sched e) (r, n)"
    "meta_for (en_sched e') (r, n) md = meta_for (en_sched e) (r, n) md"
  using assms by (simp_all add: en_group_def seq_of_def st_of_def stage_of_def new_tokens_def sample_due_def meta_for_def)

lemma batch_total:
  assumes b: "batch_ok (ec_sched ec) sz U mds gs (en_sched e)" and p: "params_ok U e" and d: "detok_ok (ec_detokenizer ec)"
    and out: "samples_ok mds gs outputs" and k: "k \<le> length gs"
  shows "\<exists>fin e'. fold_r (process_group ec outputs mds gs) [0..<k] ([], [], e) = Inr ([], fin, e') \<and> batch_done ec sz U gs e k fin e'"
  using k
proof (induction k)
  case 0
  have "\<exists>C. groups_with (ec_sched ec) sz C U (en_sched e)" using b queue_okD(1) by (auto simp: batch_ok_def)
  then show ?case by (simp add: batch_done_def same_frame_def)
next
  case (Suc k)
  then obtain fin e' where f: "fold_r (process_group ec outputs mds gs) [0..<k] ([], [], e) = Inr ([], fin, e')"
    and bd: "batch_done ec sz U gs e k fin e'" by auto
  from bd obtain C where C: "groups_with (ec_sched ec) sz C U (en_sched e')" by (auto simp: batch_done_def)
  obtain r n where rn: "gs ! k = (r, n)" by (cases "gs ! k")
  have kl: "k < length gs" using Suc.prems by simp
  then have mem: "(r, n) \<in> set gs" using rn by (metis nth_mem)
  have dist: "distinct (map fst gs)" using b by (simp add: batch_ok_def)
  have inj: "ref_at gs i = ref_at gs j \<Longrightarrow> i = j" if "i < length gs" "j < length gs" for i j
    using dist that by (simp add: ref_at_def distinct_conv_nth) (metis nth_map)
  have rt: "r \<notin> fst ` set (take k gs)"
  proof
    assume "r \<in> fst ` set (take k gs)"
    then obtain j where "j < k" "fst (gs ! j) = r" using kl by (auto simp: in_set_conv_nth)
    with inj [of j k] kl rn show False by (simp add: ref_at_def)
  qed
  then have same: "en_group e' r = en_group e r" using bd by (simp add: batch_done_def)
  have run: "r \<in> set (sc_running (en_sched e))" using b mem by (force simp: batch_ok_def)
  have q: "queue_ok (ec_sched ec) sz True U (en_sched e)" using b by (simp add: batch_ok_def)
  have rU: "r \<in> U" and st: "st_of (en_sched e') r = RUNNING" using queue_okD(3,5) [OF q] run en_same(2) [OF same] by auto
  have n: "0 < n" "n \<le> new_tokens (en_sched e') r" "stage_of (en_sched e') r = DECODE \<longrightarrow> n = 1"
    using b mem en_same(3,4) [OF same] by (auto simp: batch_ok_def)
  obtain p1 where p1: "en_params e' r = Some p1" "sp_n p1 = 1" "param_of e r = p1"
    using p rU bd by (auto simp: params_ok_def batch_done_def same_frame_def param_of_def)
  have lm: "length mds = length gs" using b by (auto simp: batch_ok_def dest: list_all2_lengthD)
  have "meta_for (en_sched e) (gs ! k) (mds ! k)" using b kl lm by (simp add: batch_ok_def list_all2_nthD)
  then have mf: "meta_for (en_sched e') (r, n) (mds ! k)" using en_same(6) [OF same] rn by simp
  have lo: "k < length outputs" using out kl by (simp add: samples_ok_def)
  have sm: "\<exists>sm rest. outputs ! k = sm # rest \<and> sm_logprobs sm (sm_output_token sm) \<noteq> None" if "meta_do_sample (mds ! k)"
    using out that kl by (simp add: samples_ok_def)
  have km: "k < length mds" using kl lm by simp
  from process_group_effect [OF C rU st n p1(1,2) d km kl rn mf lo, of "[]" fin] sm obtain e2 C' where
    step: "process_group ec outputs mds gs k ([], fin, e') = Inr ([], if sg_finished (en_group e2 r) then fin @ [k] else fin, e2)" and
    C': "groups_with (ec_sched ec) sz C' U (en_sched e2)" and
    adv: "group_advanced ec p1 (sample_due (en_sched e') (r, n)) n (en_group e' r) (en_group e2 r)" and
    oth: "\<forall>x. x \<noteq> r \<longrightarrow> en_group e2 x = en_group e' x" and qu: "queues (en_sched e2) = queues (en_sched e')" and
    fr: "en_params e2 = en_params e'" "en_seq_counter e2 = en_seq_counter e'" "en_next_group e2 = en_next_group e'" by blast
  define fin' where "fin' = (if sg_finished (en_group e2 r) then fin @ [k] else fin)"
  have "fold_r (process_group ec outputs mds gs) [0..<Suc k] ([], [], e) = Inr ([], fin', e2)"
    using f step by (simp add: fold_r_append fin'_def)
  moreover have "batch_done ec sz U gs e (Suc k) fin' e2"
  proof -
    have nr: "ref_at gs j \<noteq> r" if "j < k" for j using inj [of j k] that kl rn by (auto simp: ref_at_def)
    have "group_advanced ec (param_of e (ref_at gs j)) (sample_due (en_sched e) (gs ! j)) (snd (gs ! j))
           (en_group e (ref_at gs j)) (en_group e2 (ref_at gs j))" if "j < Suc k" for j
    proof (cases "j = k")
      case True
      then show ?thesis using adv en_same(5) [OF same, of n] same p1(3) rn by (simp add: ref_at_def)
    next
      case False
      with that have "j < k" by simp
      then show ?thesis using bd oth nr [of j] by (simp add: batch_done_def)
    qed
    moreover have "en_group e2 x = en_group e x" if "x \<notin> fst ` set (take (Suc k) gs)" for x
      using that bd oth kl rn by (auto simp: batch_done_def take_Suc_conv_app_nth)
    moreover have "fin' = filter (\<lambda>i. sg_finished (en_group e2 (ref_at gs i))) [0..<Suc k]"
    proof -
      have "filter (\<lambda>i. sg_finished (en_group e2 (ref_at gs i))) [0..<k] = fin"
        using bd oth nr by (auto simp: batch_done_def intro!: filter_cong)
      then show ?thesis using rn by (simp add: fin'_def ref_at_def)
    qed
    ultimately show ?thesis using C' qu fr bd by (auto simp: batch_done_def same_frame_def)
  qed
  ultimately show ?case by blast
qed

subsection \<open>Answers\<close>

text \<open>Answers change offsets and times only.\<close>

definition same_engine :: "sched_config \<Rightarrow> engine \<Rightarrow> engine \<Rightarrow> bool" where
  "same_engine cf e e' \<longleftrightarrow> same_view cf (en_sched e) (en_sched e') \<and> same_frame e e'
     \<and> (\<forall>r. sq_data (seq_of (en_sched e') r) = sq_data (seq_of (en_sched e) r))"

lemma same_engine_refl [simp]: "same_engine cf e e"
  by (simp add: same_engine_def same_frame_def)

lemma same_engine_trans: "same_engine cf e e' \<Longrightarrow> same_engine cf e' e'' \<Longrightarrow> same_engine cf e e''"
  using same_view_trans by (auto simp: same_engine_def same_frame_def)

lemma same_engineI:
  assumes "sq_data (the_seq (f (en_group e r))) = sq_data (the_seq (en_group e r))"
    and "sq_status (the_seq (f (en_group e r))) = sq_status (the_seq (en_group e r))"
    and "ident (f (en_group e r)) = ident (en_group e r)" and "sq_id (the_seq (f (en_group e r))) = sq_id (the_seq (en_group e r))"
    and "single_ok cf (f (en_group e r)) = single_ok cf (en_group e r)"
  shows "same_engine cf e (en_upd r f e)"
  using assms by (auto simp: same_engine_def same_idents_def ident_def same_frame_def same_view_def en_upd_def en_group_def st_of_def stage_of_def
      new_tokens_def id_of_def req_of_def seq_of_def sq_num_new_tokens_def fun_eq_iff)

lemma text_same: "get_output_text_to_return b d q = (t, q') \<Longrightarrow> sq_data q' = sq_data q \<and> sq_id q' = sq_id q \<and> sq_status q' = sq_status q"
  by (auto simp: get_output_text_to_return_def Let_def split: if_splits)

lemma tokens_same:
  assumes "get_output_token_ids_to_return d q = (ids, q')" and "sd_cached (sq_data q) \<noteq> []"
  shows "(\<exists>x. ids = Inr x) \<and> sq_data q' = sq_data q \<and> sq_id q' = sq_id q \<and> sq_status q' = sq_status q"
  using assms by (auto simp: get_output_token_ids_to_return_def Let_def split: if_splits)

lemma answer_total:
  assumes ok: "single_ok cf (en_group e r)" and p: "en_params e r = Some p"
  shows "\<exists>answers' e'. answer now first r (answers, e) = Inr (answers', e') \<and> same_engine cf e e'"
proof -
  have one: "\<exists>g1. (if first then bind_r (maybe_set_first_token_time now (en_group e r)) (\<lambda>g. Inr (en_upd r (\<lambda>_. g) e)) else Inr e)
    = Inr (en_upd r (\<lambda>_. g1) e) \<and> sg_seqs g1 = sg_seqs (en_group e r) \<and> single_ok cf g1 \<and> ident g1 = ident (en_group e r)"
  proof (cases first)
    case True
    have "length (sg_seqs (en_group e r)) = 1" using ok by (simp add: single_ok_def)
    then show ?thesis using True ok
      by (cases "sg_first_token_time (en_group e r)"; cases "length (sd_output (sq_data (sg_seqs (en_group e r) ! 0))) = 1")
        (auto simp: maybe_set_first_token_time_def nth_r_def single_ok_def the_seq_def get_prompt_limit_def ident_def)
  next
    case False
    have "en_upd r (\<lambda>_. en_group e r) e = e" by (simp add: en_upd_def en_group_def upd_group_def)
    with False ok show ?thesis by (intro exI [of _ "en_group e r"]) simp
  qed
  then obtain g1 where fst1: "(if first then bind_r (maybe_set_first_token_time now (en_group e r)) (\<lambda>g. Inr (en_upd r (\<lambda>_. g) e)) else Inr e)
      = Inr (en_upd r (\<lambda>_. g1) e)"
    and g1: "sg_seqs g1 = sg_seqs (en_group e r)" "single_ok cf g1" "ident g1 = ident (en_group e r)" by blast
  define e1 where "e1 = en_upd r (\<lambda>_. g1) e"
  have v1: "same_engine cf e e1" unfolding e1_def by (rule same_engineI) (use g1 ok in \<open>simp_all add: the_seq_def\<close>)
  obtain q where q: "sg_seqs g1 = [q]" using single_okD(1) [OF g1(2)] by blast
  have data: "sd_cached (sq_data q) \<noteq> []"
    using single_okD(2) [OF g1(2)] q by (auto simp: the_seq_def tokens_ok_def sd_len_def)
  have ge: "en_group e1 r = g1" by (simp add: e1_def)
  have "\<exists>a e2. from_seq_group now r e1 = Inr (a, e2) \<and> same_engine cf e1 e2"
  proof (cases "sp_output_kind p = FINAL_ONLY \<and> \<not> sg_finished g1")
    case True
    then show ?thesis using p ge by (simp add: from_seq_group_def e1_def Let_def)
  next
    case False
    define delta where "delta = (sp_output_kind p = DELTA)"
    obtain t q1 where t: "get_output_text_to_return (sp_output_text_buffer_length p) delta q = (t, q1)"
      by (cases "get_output_text_to_return (sp_output_text_buffer_length p) delta q")
    obtain ids q2 where i: "get_output_token_ids_to_return delta q1 = (ids, q2)"
      by (cases "get_output_token_ids_to_return delta q1")
    note s1 = text_same [OF t]
    have "sd_cached (sq_data q1) \<noteq> []" using s1 data by simp
    note s2 = tokens_same [OF i this]
    then obtain x where x: "ids = Inr x" by blast
    obtain out where co: "completion_of p 0 [q] = Inr (out, [q2])"
      using t i x by (simp add: completion_of_def delta_def Let_def)
    define f where "f = (\<lambda>g. set_finished_time (if sg_finished g1 then Some now else None) (g\<lparr>sg_seqs := [q2]\<rparr>))"
    have "\<exists>a. from_seq_group now r e1 = Inr (a, en_upd r f e1)"
      using p False ge q co by (simp add: from_seq_group_def e1_def top_n_seqs_def f_def Let_def nth_r_def) auto
    moreover have "same_engine cf e1 (en_upd r f e1)"
      by (rule same_engineI) (use q s1 s2 g1(2) ge in \<open>simp_all add: f_def set_finished_time_def the_seq_def single_ok_def get_prompt_limit_def ident_def\<close>)
    ultimately show ?thesis by blast
  qed
  then obtain a e2 where "from_seq_group now r e1 = Inr (a, e2)" and v2: "same_engine cf e1 e2" by blast
  then show ?thesis using fst1 same_engine_trans [OF v1 v2] by (simp add: answer_def flip: e1_def)
qed

lemma answers_total:
  assumes "\<And>i. i \<in> set is \<Longrightarrow> single_ok cf (en_group e (h i)) \<and> en_params e (h i) \<noteq> None"
    and f: "\<And>i x. f i x = answer now first (h i) x \<or> f i x = Inr x"
  shows "\<exists>answers' e'. fold_r f is (answers, e) = Inr (answers', e') \<and> same_engine cf e e'"
  using assms(1)
proof (induction "is" arbitrary: answers e)
  case (Cons i rest)
  have "single_ok cf (en_group e (h i))" "en_params e (h i) \<noteq> None" using Cons.prems [of i] by simp_all
  then obtain p where p: "single_ok cf (en_group e (h i))" "en_params e (h i) = Some p" by blast
  from answer_total [OF p, of now first answers] f [of i "(answers, e)"] obtain answers1 e1 where
    a: "f i (answers, e) = Inr (answers1, e1)" and v: "same_engine cf e e1" by force
  have "single_ok cf (en_group e1 (h j)) \<and> en_params e1 (h j) \<noteq> None" if "j \<in> set rest" for j
    using Cons.prems [of j] that v by (simp add: same_engine_def same_view_def same_frame_def en_group_def)
  then obtain answers' e' where "fold_r f rest (answers1, e1) = Inr (answers', e')" "same_engine cf e1 e'"
    using Cons.IH by blast
  then show ?case using a same_engine_trans [OF v] by auto
qed simp

subsection \<open>Freeing what has finished\<close>

lemma free_finished_one:
  assumes C: "groups_with cf sz C U s" and r: "r \<in> U"
  shows "\<exists>s'. free_finished_seq_group r s = Inr s' \<and> sc_groups s' = sc_groups s \<and> queues s' = queues s
    \<and> kv_at sz (sc_mem s') C"
proof -
  let ?g = "sc_groups s r" let ?q = "the_seq ?g"
  have ok: "single_ok cf ?g" by (rule groups_withD(2) [OF C r])
  have seqs: "sg_seqs ?g = [?q]" "sg_encoder_seq ?g = None" using single_okD(1,3) [OF ok] by simp_all
  show ?thesis
  proof (cases "sq_finished ?q")
    case False
    then show ?thesis using groups_withD(1) [OF C]
      by (simp add: free_finished_seq_group_def single_finished [OF ok] free_finished_seqs_def seqs on_mem_def)
  next
    case True
    then have "C (sq_id ?q) = None"
      using groups_withD(3) [OF C r] by (auto simp: id_of_eq st_of_eq sq_finished_def status_finished_def)
    then have "C(sq_id ?q := None) = C" by (intro fun_upd_idem) simp
    with kv_free [OF groups_withD(1) [OF C], of ?q] obtain m' where "free ?q (sc_mem s) = Inr m'" "kv_at sz m' C" by auto
    then show ?thesis using True
      by (simp add: free_finished_seq_group_def single_finished [OF ok] free_finished_seqs_def seqs on_mem_def
          free_seq_group_cross_attn_blocks_def is_encoder_decoder_def note_finished_def queues_def)
  qed
qed

lemma free_finished_total:
  assumes C: "groups_with cf sz C U s" and run: "set (sc_running s) \<subseteq> U" and a: "sc_async_stopped s = []"
  shows "\<exists>s'. free_finished_seq_groups s = Inr s' \<and> groups_with cf sz C U s' \<and> sc_groups s' = sc_groups s
    \<and> sc_waiting s' = sc_waiting s \<and> sc_swapped s' = sc_swapped s \<and> sc_async_stopped s' = []
    \<and> sc_running s' = filter (\<lambda>r. \<not> sg_finished (sc_groups s r)) (sc_running s)"
proof -
  have same: "groups_with cf sz C U t" if "sc_groups t = sc_groups s" "kv_at sz (sc_mem t) C" for t
    using C that same_groups [OF that(1)] by (simp add: groups_with_def)
  have "\<exists>t. fold_r free_finished_seq_group (sc_running s) s = Inr t
      \<and> sc_groups t = sc_groups s \<and> queues t = queues s \<and> kv_at sz (sc_mem t) C"
  proof (rule fold_r_total)
    fix r t assume r: "r \<in> set (sc_running s)" and t: "sc_groups t = sc_groups s \<and> queues t = queues s \<and> kv_at sz (sc_mem t) C"
    have "groups_with cf sz C U t" using same t by blast
    from free_finished_one [OF this, of r] r run t
    show "\<exists>t'. free_finished_seq_group r t = Inr t' \<and> sc_groups t' = sc_groups s \<and> queues t' = queues s \<and> kv_at sz (sc_mem t') C"
      by auto
  qed (use groups_withD(1) [OF C] in simp)
  then obtain t where t: "fold_r free_finished_seq_group (sc_running s) s = Inr t" "sc_groups t = sc_groups s"
    "queues t = queues s" "kv_at sz (sc_mem t) C" by blast
  define s' where "s' = t\<lparr>sc_running := filter (\<lambda>r. \<not> sg_finished (sc_groups t r)) (sc_running t), sc_async_stopped := []\<rparr>"
  have "free_finished_seq_groups s = Inr s'"
    using t(1,3) a queuesD [of t s] by (simp add: free_finished_seq_groups_def s'_def Let_def)
  moreover have "groups_with cf sz C U s'" by (rule same) (use t in \<open>simp_all add: s'_def\<close>)
  ultimately show ?thesis using t(2,3) queuesD [of t s] by (auto simp: s'_def)
qed

subsection \<open>The outputs of a batch\<close>

definition same_data :: "engine \<Rightarrow> engine \<Rightarrow> bool" where
  "same_data e e' \<longleftrightarrow> (\<forall>r. sq_data (seq_of (en_sched e') r) = sq_data (seq_of (en_sched e) r) \<and> st_of (en_sched e') r = st_of (en_sched e) r)"

lemma same_engine_data: "same_engine cf e e' \<Longrightarrow> same_data e e'"
  by (simp add: same_engine_def same_view_def same_data_def)

lemma finished_iff: "groups_with cf sz C U s \<Longrightarrow> r \<in> U \<Longrightarrow> sg_finished (sc_groups s r) = sq_finished (seq_of s r)"
  using single_finished [OF groups_withD(2)] by (simp add: seq_of_def)

lemma running_not_finished: "st_of s r = RUNNING \<Longrightarrow> \<not> sq_finished (seq_of s r)"
  by (simp add: st_of_def sq_finished_def status_finished_def)

text \<open>Where the batch leaves the groups of the queues.\<close>

lemma batch_status:
  assumes b: "batch_ok cf sz U mds gs (en_sched e)" and cf: "cf = ec_sched ec" and bd: "batch_done ec sz U gs e (length gs) fin e1"
  shows "r \<in> set (sc_waiting (en_sched e)) \<Longrightarrow> st_of (en_sched e1) r = WAITING"
    and "r \<in> set (sc_running (en_sched e)) \<Longrightarrow> st_of (en_sched e1) r = RUNNING \<or> sq_finished (seq_of (en_sched e1) r)"
    and "r \<in> set (sc_running (en_sched e)) \<Longrightarrow> st_of (en_sched e1) r = RUNNING \<Longrightarrow> \<not> cf_chunked_prefill_enabled cf \<Longrightarrow>
      stage_of (en_sched e1) r = DECODE"
    and "r \<in> U - set (sc_waiting (en_sched e)) - set (sc_running (en_sched e)) \<Longrightarrow> st_of (en_sched e1) r \<noteq> RUNNING"
    and "r \<in> set (sc_running (en_sched e)) \<Longrightarrow> fin = [] \<Longrightarrow> \<not> sq_finished (seq_of (en_sched e1) r)"
proof -
  have q: "queue_ok cf sz True U (en_sched e)" and dist: "distinct (map fst gs)" and sub: "fst ` set gs \<subseteq> set (sc_running (en_sched e))"
    and whole: "\<not> cf_chunked_prefill_enabled cf \<longrightarrow> prompts_whole gs (en_sched e)" using b by (simp_all add: batch_ok_def)
  note w = queue_okD [OF q]
  obtain C where C: "groups_with cf sz C U (en_sched e1)" using bd cf by (auto simp: batch_done_def)
  have same: "en_group e1 x = en_group e x" if "x \<notin> fst ` set gs" for x using bd that by (simp add: batch_done_def)
  have adv: "group_advanced ec (param_of e r) (sample_due (en_sched e) (r, n)) n (en_group e r) (en_group e1 r) \<and>
      (fin = [] \<longrightarrow> \<not> sg_finished (en_group e1 r))" if rn: "(r, n) \<in> set gs" for r n
  proof -
    obtain j where "j < length gs" "gs ! j = (r, n)" using rn by (auto simp: in_set_conv_nth)
    moreover have "group_advanced ec (param_of e (ref_at gs j)) (sample_due (en_sched e) (gs ! j)) (snd (gs ! j))
           (en_group e (ref_at gs j)) (en_group e1 (ref_at gs j))" if "j < length gs" for j
      using bd that by (simp add: batch_done_def)
    moreover have "fin = [] \<longrightarrow> (\<forall>j < length gs. \<not> sg_finished (en_group e1 (ref_at gs j)))"
      using bd by (auto simp: batch_done_def filter_empty_conv)
    ultimately show ?thesis by (fastforce simp: ref_at_def)
  qed
  have seq: "seq_of (en_sched e1) r = the_seq (en_group e1 r)" for r by (simp add: seq_of_def en_group_def)
  have other: "r \<notin> fst ` set gs" if "r \<in> set (sc_waiting (en_sched e)) \<or> r \<notin> set (sc_running (en_sched e))" for r
    using that sub w(2) by auto
  show "r \<in> set (sc_waiting (en_sched e)) \<Longrightarrow> st_of (en_sched e1) r = WAITING"
    using w(4) en_same(2) [OF same [OF other]] by simp
  show "r \<in> U - set (sc_waiting (en_sched e)) - set (sc_running (en_sched e)) \<Longrightarrow> st_of (en_sched e1) r \<noteq> RUNNING"
    using w(7) en_same(2) [OF same [OF other]] by simp
  assume run: "r \<in> set (sc_running (en_sched e))"
  have cases: "\<exists>n. (r, n) \<in> set gs" if "r \<in> fst ` set gs" using that by auto
  show "st_of (en_sched e1) r = RUNNING \<or> sq_finished (seq_of (en_sched e1) r)"
  proof (cases "r \<in> fst ` set gs")
    case True
    then obtain n where "(r, n) \<in> set gs" by auto
    from adv [OF this] show ?thesis by (auto simp: group_advanced_def Let_def st_of_def seq split: if_splits)
  next
    case False
    with w(5) [OF run] show ?thesis using en_same(2) [OF same] by simp
  qed
  show "stage_of (en_sched e1) r = DECODE" if "st_of (en_sched e1) r = RUNNING" "\<not> cf_chunked_prefill_enabled cf"
  proof (cases "r \<in> fst ` set gs")
    case True
    then obtain n where n: "(r, n) \<in> set gs" by auto
    have "sample_due (en_sched e) (r, n)"
    proof (cases "stage_of (en_sched e) r")
      case PREFILL
      then have "(r, new_tokens (en_sched e) r) \<in> set gs" using whole that(2) run by (auto simp: prompts_whole_def)
      then have "n = new_tokens (en_sched e) r" using n dist by (auto dest: eq_key_imp_eq_value)
      then show ?thesis by (simp add: sample_due_def)
    qed (simp add: sample_due_def)
    then show ?thesis using adv [OF n] by (simp add: group_advanced_def Let_def stage_of_def seq)
  next
    case False
    then have "stage_of (en_sched e) r = DECODE" using whole that(2) run by (force simp: prompts_whole_def)
    then show ?thesis using en_same(3) [OF same [OF False]] by simp
  qed
  show "\<not> sq_finished (seq_of (en_sched e1) r)" if "fin = []"
  proof (cases "r \<in> fst ` set gs")
    case True
    then obtain n where n: "(r, n) \<in> set gs" by auto
    have "r \<in> U" using run w(3) by auto
    then show ?thesis using adv [OF n] that finished_iff [OF C, of r] by (simp add: en_group_def)
  next
    case False
    with w(5) [OF run] show ?thesis using en_same(2) [OF same] running_not_finished by simp
  qed
qed

lemma outputs_total:
  assumes b: "batch_ok (ec_sched ec) sz U mds (so_groups o1) (en_sched e)" and p: "params_ok U e" and d: "detok_ok (ec_detokenizer ec)"
    and out: "samples_ok mds (so_groups o1) outputs" and ig: "set (so_ignored o1) \<subseteq> U"
  shows "\<exists>answers e' fin e1. process_model_outputs ec now outputs mds o1 e = Inr (answers, e')
    \<and> queue_ok (ec_sched ec) sz (cf_chunked_prefill_enabled (ec_sched ec)) U (en_sched e')
    \<and> same_frame e e' \<and> batch_done ec sz U (so_groups o1) e (length (so_groups o1)) fin e1 \<and> same_data e1 e'
    \<and> id_of (en_sched e') = id_of (en_sched e1) \<and> req_of (en_sched e') = req_of (en_sched e1)
    \<and> sc_waiting (en_sched e') = sc_waiting (en_sched e)
    \<and> sc_running (en_sched e') = filter (\<lambda>r. \<not> sq_finished (seq_of (en_sched e1) r)) (sc_running (en_sched e))"
proof -
  define cf where "cf = ec_sched ec"
  define gs where "gs = so_groups o1"
  have b': "batch_ok cf sz U mds gs (en_sched e)" using b by (simp add: cf_def gs_def)
  have q: "queue_ok cf sz True U (en_sched e)" and sub: "fst ` set gs \<subseteq> set (sc_running (en_sched e))"
    and len: "length mds = length gs" using b' by (auto simp: batch_ok_def dest: list_all2_lengthD)
  note w = queue_okD [OF q]
  obtain fin e1 where f: "fold_r (process_group ec outputs mds gs) [0..<length mds] ([], [], e) = Inr ([], fin, e1)"
    and bd: "batch_done ec sz U gs e (length gs) fin e1"
    using batch_total [OF b p d out, of "length gs"] by (auto simp: gs_def len)
  note st = batch_status [OF b' cf_def bd]
  obtain C where C: "groups_with cf sz C U (en_sched e1)" using bd by (auto simp: batch_done_def cf_def)
  have qu: "queues (en_sched e1) = queues (en_sched e)" "same_frame e e1" using bd by (simp_all add: batch_done_def)
  note qs = queuesD [OF qu(1)]
  have fr: "en_params e1 = en_params e" using qu(2) by (simp add: same_frame_def)
  have ok1: "single_ok cf (en_group e1 r) \<and> en_params e1 r \<noteq> None" if "r \<in> U" for r
    using groups_withD(2) [OF C that] p that fr by (auto simp: en_group_def params_ok_def)
  have refU: "ref_at gs i \<in> U" if "i < length gs" for i using sub w(3) nth_mem [OF that] by (auto simp: ref_at_def)
  have "\<exists>answers2 e2. fold_r (\<lambda>i. answer now True (ref_at gs i)) fin ([], e1) = Inr (answers2, e2) \<and> same_engine cf e1 e2"
    by (rule answers_total [where h = "ref_at gs" and now = now and first = True])
      (use ok1 refU bd in \<open>auto simp: batch_done_def\<close>)
  then obtain answers2 e2 where a2: "fold_r (\<lambda>i. answer now True (ref_at gs i)) fin ([], e1) = Inr (answers2, e2)"
    and v2: "same_engine cf e1 e2" by blast
  note sv2 = v2 [unfolded same_engine_def, THEN conjunct1]
  have C2: "groups_with cf sz C U (en_sched e2)" using C same_view_groups [OF sv2] by simp
  have qs2: "sc_waiting (en_sched e2) = sc_waiting (en_sched e)" "sc_running (en_sched e2) = sc_running (en_sched e)"
    "sc_swapped (en_sched e2) = []" "sc_async_stopped (en_sched e2) = []"
    using queuesD [of "en_sched e2" "en_sched e1"] sv2 qs w(8,9) by (simp_all add: same_view_def)
  have st2: "st_of (en_sched e2) = st_of (en_sched e1)" "stage_of (en_sched e2) = stage_of (en_sched e1)" using sv2 by (simp_all add: same_view_def)
  have fin2: "sq_finished (seq_of (en_sched e2) r) = sq_finished (seq_of (en_sched e1) r)" for r
    using fun_cong [OF st2(1), of r] by (simp add: st_of_def sq_finished_def)
  define alive where "alive = filter (\<lambda>r. \<not> sq_finished (seq_of (en_sched e1) r)) (sc_running (en_sched e))"
  have "\<exists>e3. (if fin \<noteq> [] then on_sched free_finished_seq_groups e2 else Inr e2) = Inr e3 \<and> groups_with cf sz C U (en_sched e3)
    \<and> sc_groups (en_sched e3) = sc_groups (en_sched e2) \<and> sc_waiting (en_sched e3) = sc_waiting (en_sched e)
    \<and> sc_running (en_sched e3) = alive \<and> sc_swapped (en_sched e3) = [] \<and> sc_async_stopped (en_sched e3) = [] \<and> same_frame e2 e3"
  proof (cases "fin = []")
    case True
    have "alive = sc_running (en_sched e)" using st(5) True by (auto simp: alive_def intro!: filter_True)
    then show ?thesis using True C2 qs2 by (auto simp: same_frame_def)
  next
    case False
    have rU: "set (sc_running (en_sched e2)) \<subseteq> U" using w(3) qs2 by simp
    from free_finished_total [OF C2 this qs2(4)] obtain s3 where
      s3: "free_finished_seq_groups (en_sched e2) = Inr s3" "groups_with cf sz C U s3" "sc_groups s3 = sc_groups (en_sched e2)"
      "sc_waiting s3 = sc_waiting (en_sched e2)" "sc_swapped s3 = sc_swapped (en_sched e2)" "sc_async_stopped s3 = []"
      "sc_running s3 = filter (\<lambda>r. \<not> sg_finished (sc_groups (en_sched e2) r)) (sc_running (en_sched e2))" by blast
    have "sc_running s3 = alive" unfolding s3(7) alive_def qs2(2)
      by (rule filter_cong) (use finished_iff [OF C2] fin2 w(3) in auto)
    then show ?thesis using False s3 qs2 by (auto simp: on_sched_def same_frame_def)
  qed
  then obtain e3 where e3: "(if fin \<noteq> [] then on_sched free_finished_seq_groups e2 else Inr e2) = Inr e3"
    "groups_with cf sz C U (en_sched e3)" "sc_groups (en_sched e3) = sc_groups (en_sched e2)"
    "sc_waiting (en_sched e3) = sc_waiting (en_sched e)" "sc_running (en_sched e3) = alive" "sc_swapped (en_sched e3) = []"
    "sc_async_stopped (en_sched e3) = []" "same_frame e2 e3" by blast
  note sg = same_groups [OF e3(3)]
  have q3: "queue_ok cf sz (cf_chunked_prefill_enabled cf) U (en_sched e3)"
  proof (rule queue_okI [OF e3(2)])
    show "distinct (sc_waiting (en_sched e3) @ sc_running (en_sched e3))" using w(2) by (auto simp: e3 alive_def)
    show "set (sc_waiting (en_sched e3)) \<union> set (sc_running (en_sched e3)) \<subseteq> U" using w(3) by (auto simp: e3 alive_def)
    show "length (sc_running (en_sched e3)) \<le> cf_max_num_seqs cf"
      using w(10) length_filter_le le_trans unfolding e3 alive_def by blast
    fix r
    show "r \<in> set (sc_waiting (en_sched e3)) \<Longrightarrow> st_of (en_sched e3) r = WAITING" using st(1) by (simp add: e3 sg st2)
    show "r \<in> set (sc_running (en_sched e3)) \<Longrightarrow> st_of (en_sched e3) r = RUNNING \<and>
        (\<not> cf_chunked_prefill_enabled cf \<longrightarrow> stage_of (en_sched e3) r = DECODE)"
      using st(2,3) by (auto simp: e3 sg st2 alive_def)
    assume r: "r \<in> U - set (sc_waiting (en_sched e3)) - set (sc_running (en_sched e3))"
    show "st_of (en_sched e3) r \<noteq> RUNNING"
    proof (cases "r \<in> set (sc_running (en_sched e))")
      case True
      then have "sq_finished (seq_of (en_sched e1) r)" using r by (simp add: e3 alive_def)
      then show ?thesis using running_not_finished [of "en_sched e1" r] by (simp add: sg st2) blast
    next
      case False
      then show ?thesis using r st(4) by (simp add: e3 sg st2)
    qed
  qed (use e3 in simp_all)
  have fr3: "same_frame e e3" using qu(2) v2 e3(8) by (simp add: same_engine_def same_frame_def)
  have ok3: "single_ok cf (en_group e3 r) \<and> en_params e3 r \<noteq> None" if "r \<in> U" for r
    using groups_withD(2) [OF e3(2) that] p that fr3 by (auto simp: en_group_def params_ok_def same_frame_def)
  define rest where "rest = filter (\<lambda>i. i \<notin> set [] \<and> i \<notin> set fin) [0..<length mds]"
  have "\<exists>answers4 e4. fold_r (\<lambda>i. answer now True (ref_at gs i)) rest (answers2, e3) = Inr (answers4, e4) \<and> same_engine cf e3 e4"
    by (rule answers_total [where h = "ref_at gs" and now = now and first = True])
      (use ok3 refU len in \<open>auto simp: rest_def\<close>)
  then obtain answers4 e4 where a4: "fold_r (\<lambda>i. answer now True (ref_at gs i)) rest (answers2, e3) = Inr (answers4, e4)"
    and v4: "same_engine cf e3 e4" by blast
  have ok4: "single_ok cf (en_group e4 r) \<and> en_params e4 r \<noteq> None" if "r \<in> U" for r
    using ok3 [OF that] v4 by (simp add: same_engine_def same_view_def same_frame_def en_group_def)
  have "\<exists>answers5 e5. fold_r (answer_ignored now) (so_ignored o1) (answers4, e4) = Inr (answers5, e5) \<and> same_engine cf e4 e5"
    by (rule answers_total [where h = "\<lambda>r. r" and now = now and first = False])
      (use ok4 ig in \<open>auto simp: answer_ignored_def\<close>)
  then obtain answers5 e5 where a5: "fold_r (answer_ignored now) (so_ignored o1) (answers4, e4) = Inr (answers5, e5)"
    and v5: "same_engine cf e4 e5" by blast
  note v = same_engine_trans [OF v4 v5]
  note sv = v [unfolded same_engine_def, THEN conjunct1]
  have "process_model_outputs ec now outputs mds o1 e = Inr (answers5, e5)"
    using f a2 e3(1) a4 a5 len
    by (simp add: process_model_outputs_def Let_def rest_def flip: gs_def) (simp add: ref_at_def)
  moreover have "queue_ok cf sz (cf_chunked_prefill_enabled cf) U (en_sched e5)" using q3 same_view_queue_ok [OF sv] by simp
  moreover have "same_frame e e5" using fr3 v by (simp add: same_engine_def same_frame_def)
  moreover have "same_data e1 e5"
    using same_engine_data [OF v2] same_engine_data [OF v] sg by (simp add: same_data_def)
  moreover have "id_of (en_sched e5) = id_of (en_sched e1)" "req_of (en_sched e5) = req_of (en_sched e1)"
    using sv sv2 sg by (simp_all add: same_view_def)
  moreover have "sc_waiting (en_sched e5) = sc_waiting (en_sched e)" "sc_running (en_sched e5) = alive"
    using queuesD [of "en_sched e5" "en_sched e3"] sv e3 by (simp_all add: same_view_def)
  ultimately show ?thesis using bd by (auto simp: cf_def gs_def alive_def)
qed

text \<open>The invariant of the engine, kept by requests, aborts and steps; and that none of them raises.\<close>

definition engine_config_ok :: "engine_config \<Rightarrow> bool" where
  "engine_config_ok ec \<longleftrightarrow> config_ok (ec_sched ec) \<and> \<not> is_multi_step (ec_sched ec) \<and> detok_ok (ec_detokenizer ec)"

text \<open>\<open>U\<close> are the groups of all requests so far.\<close>

definition llm_ok :: "engine_config \<Rightarrow> nat \<Rightarrow> group_ref set \<Rightarrow> engine \<Rightarrow> bool" where
  "llm_ok ec sz U e \<longleftrightarrow> queue_ok (ec_sched ec) sz (cf_chunked_prefill_enabled (ec_sched ec)) U (en_sched e)
     \<and> params_ok U e \<and> (\<forall>r \<in> U. r < en_next_group e \<and> id_of (en_sched e) r < en_seq_counter e)"

subsection \<open>A step\<close>

lemma same_idents_ids:
  assumes "same_idents s s'" and "length (sg_seqs (sc_groups s r)) = 1"
  shows "id_of s' r = id_of s r" "req_of s' r = req_of s r" "sd_output (sq_data (seq_of s' r)) = sd_output (sq_data (seq_of s r))"
    "sd_prompt (sq_data (seq_of s' r)) = sd_prompt (sq_data (seq_of s r))"
proof -
  have i: "ident (sc_groups s' r) = ident (sc_groups s r)" using assms(1) by (simp add: same_idents_def)
  obtain q where q: "sg_seqs (sc_groups s r) = [q]" using assms(2) by (cases "sg_seqs (sc_groups s r)") auto
  then obtain q' where "sg_seqs (sc_groups s' r) = [q']" "sq_id q' = sq_id q" "sd_output (sq_data q') = sd_output (sq_data q)"
    "sd_prompt (sq_data q') = sd_prompt (sq_data q)" using i by (auto simp: ident_def)
  then show "id_of s' r = id_of s r" "sd_output (sq_data (seq_of s' r)) = sd_output (sq_data (seq_of s r))"
    "sd_prompt (sq_data (seq_of s' r)) = sd_prompt (sq_data (seq_of s r))"
    using q by (simp_all add: id_of_def seq_of_def the_seq_def)
  show "req_of s' r = req_of s r" using i by (simp add: req_of_def ident_def)
qed

lemma queue_single: "queue_ok cf sz c U s \<Longrightarrow> r \<in> U \<Longrightarrow> length (sg_seqs (sc_groups s r)) = 1"
  using queue_okD(1) groups_withD(2) single_len by blast

lemma batch_advanced:
  assumes "batch_done ec sz U gs e (length gs) fin e1" and "(r, n) \<in> set gs"
  shows "group_advanced ec (param_of e r) (sample_due (en_sched e) (r, n)) n (en_group e r) (en_group e1 r)"
proof -
  obtain j where "j < length gs" "gs ! j = (r, n)" using assms(2) by (auto simp: in_set_conv_nth)
  then show ?thesis using assms(1) by (fastforce simp: batch_done_def ref_at_def)
qed

lemma batch_ids:
  assumes bd: "batch_done ec sz U gs e (length gs) fin e1"
  shows "id_of (en_sched e1) r = id_of (en_sched e) r" and "req_of (en_sched e1) r = req_of (en_sched e) r"
proof -
  have "sq_id (the_seq (en_group e1 r)) = sq_id (the_seq (en_group e r)) \<and> sg_request_id (en_group e1 r) = sg_request_id (en_group e r)"
  proof (cases "r \<in> fst ` set gs")
    case True
    then obtain n where "(r, n) \<in> set gs" by auto
    from batch_advanced [OF bd this] have a: "sq_id (the_seq (en_group e1 r)) = sq_id (the_seq (en_group e r))"
      "(en_group e1 r)\<lparr>sg_seqs := sg_seqs (en_group e r)\<rparr> = en_group e r" by (simp_all add: group_advanced_def Let_def)
    from arg_cong [OF a(2), of sg_request_id] a(1) show ?thesis by simp
  next
    case False
    then show ?thesis using bd by (simp add: batch_done_def)
  qed
  then show "id_of (en_sched e1) r = id_of (en_sched e) r" "req_of (en_sched e1) r = req_of (en_sched e) r"
    by (simp_all add: id_of_def req_of_def seq_of_def en_group_def)
qed

lemma distinct_part: "distinct ys \<Longrightarrow> mset xs \<subseteq># mset ys \<Longrightarrow> distinct xs"
  by (metis distinct_append mset_append mset_eq_imp_distinct_iff mset_subset_eq_exists_conv ex_mset)

text \<open>Everything that is known about a step: \<open>e2\<close> is the engine after scheduling, \<open>e3\<close> after the batch.\<close>

lemma engine_step_parts:
  assumes cfg: "engine_config_ok ec" and w: "worker_ok worker" and ok: "llm_ok ec sz U e"
  obtains mds o1 allow s1 e2 fin e3 answers e' where
    "sc_schedule (ec_sched ec) None now start elapsed (en_sched e) = Inr (mds, o1, allow, s1)"
    and "same_idents (en_sched e) s1" and "sc_groups (en_sched e2) = sc_groups s1" and "queues (en_sched e2) = queues s1"
    and "same_frame e e2" and "batch_ok (ec_sched ec) sz U mds (so_groups o1) (en_sched e2)"
    and "engine_step ec worker now start elapsed later e = Inr (answers, e')" and "llm_ok ec sz U e'"
    and "batch_done ec sz U (so_groups o1) e2 (length (so_groups o1)) fin e3" and "same_data e3 e'"
    and "sc_waiting (en_sched e') = sc_waiting s1"
    and "sc_running (en_sched e') = filter (\<lambda>r. \<not> sq_finished (seq_of (en_sched e3) r)) (sc_running s1)"
    and "same_frame e e'" and "\<And>r. r \<in> U \<Longrightarrow> req_of (en_sched e') r = req_of (en_sched e) r"
proof -
  let ?cf = "ec_sched ec"
  have cf: "config_ok ?cf" and d: "detok_ok (ec_detokenizer ec)" using cfg by (simp_all add: engine_config_ok_def)
  have q: "queue_ok ?cf sz (cf_chunked_prefill_enabled ?cf) U (en_sched e)" and p: "params_ok U e" using ok by (simp_all add: llm_ok_def)
  from schedule_returns [OF cf q, of now start elapsed] obtain mds o1 allow s1 where
    sc: "sc_schedule ?cf None now start elapsed (en_sched e) = Inr (mds, o1, allow, s1)" and q1: "queue_ok ?cf sz True U s1" and
    sv: "served ?cf sz (so_groups o1) s1" and sub: "set (map fst (so_groups o1)) \<subseteq> set (sc_running s1)" and
    mf: "list_all2 (meta_for s1) (so_groups o1) mds" and
    wh: "\<not> cf_chunked_prefill_enabled ?cf \<longrightarrow> prompts_whole (so_groups o1) s1" and si: "same_idents (en_sched e) s1" by blast
  note refs = schedule_refs [OF sc]
  have "distinct (sc_running s1)" using queue_okD(2) [OF q1] by simp
  then have dist: "distinct (map fst (so_groups o1))"
    by (rule distinct_part) (use refs in simp)
  have "set_mset (all_refs (en_sched e)) \<subseteq> U"
    using queue_okD(3,8,9) [OF q] by (simp add: all_refs_def)
  then have ig: "set (so_ignored o1) \<subseteq> U" using refs by (metis (no_types) Un_subset_iff set_mset_mset set_mset_union)
  define outs where "outs = (if outputs_empty o1 then ([], s1)
         else let (ids, s2) = get_and_reset_finished_requests_ids s1 in (worker mds o1 ids, s2))"
  define e2 where "e2 = e\<lparr>en_sched := snd outs\<rparr>"
  have s2: "sc_groups (en_sched e2) = sc_groups s1" "queues (en_sched e2) = queues s1" "sc_mem (en_sched e2) = sc_mem s1"
    by (simp_all add: e2_def outs_def get_and_reset_finished_requests_ids_def queues_def)
  have v: "same_view ?cf s1 (en_sched e2)"
    using same_groups [OF s2(1)] s2 by (simp add: same_view_def same_idents_def)
  have fr: "same_frame e e2" by (simp add: same_frame_def e2_def)
  have "\<forall>(r, n) \<in> set (so_groups o1). 0 < n \<and> n \<le> new_tokens s1 r \<and> (stage_of s1 r = DECODE \<longrightarrow> n = 1)"
    using sv by (auto simp: served_def)
  then have b: "batch_ok ?cf sz U mds (so_groups o1) (en_sched e2)"
    using q1 dist sub mf wh v same_view_queue_ok [OF v] same_view_meta [OF v] queuesD [OF s2(2)]
    by (simp add: batch_ok_def prompts_whole_def same_view_def)
  have so: "samples_ok mds (so_groups o1) (fst outs)"
    using w by (auto simp: samples_ok_def outs_def worker_ok_def outputs_empty_def get_and_reset_finished_requests_ids_def)
  have p2: "params_ok U e2" using p by (simp add: params_ok_def e2_def)
  from outputs_total [OF b p2 d so ig, of later] obtain answers e' fin e3 where
    po: "process_model_outputs ec later (fst outs) mds o1 e2 = Inr (answers, e')" and
    q': "queue_ok ?cf sz (cf_chunked_prefill_enabled ?cf) U (en_sched e')" and fr': "same_frame e2 e'" and
    bd: "batch_done ec sz U (so_groups o1) e2 (length (so_groups o1)) fin e3" and sd: "same_data e3 e'" and
    ids: "id_of (en_sched e') = id_of (en_sched e3)" "req_of (en_sched e') = req_of (en_sched e3)" and
    wq: "sc_waiting (en_sched e') = sc_waiting (en_sched e2)" and
    rq: "sc_running (en_sched e') = filter (\<lambda>r. \<not> sq_finished (seq_of (en_sched e3) r)) (sc_running (en_sched e2))" by blast
  have run: "engine_step ec worker now start elapsed later e = Inr (answers, e')"
    using sc po by (simp add: engine_step_def e2_def outs_def Let_def get_and_reset_finished_requests_ids_def split: if_splits)
  have same: "id_of (en_sched e') r = id_of (en_sched e) r \<and> req_of (en_sched e') r = req_of (en_sched e) r" if "r \<in> U" for r
    using batch_ids [OF bd, of r] ids same_idents_ids [OF si queue_single [OF q that]] same_groups [OF s2(1)] by simp
  have "same_frame e e'" using fr fr' by (simp add: same_frame_def)
  then have e_ok: "llm_ok ec sz U e'" using ok q' same by (simp add: llm_ok_def params_ok_def same_frame_def)
  have w': "sc_waiting (en_sched e') = sc_waiting s1" using wq queuesD [OF s2(2)] by simp
  have r': "sc_running (en_sched e') = filter (\<lambda>r. \<not> sq_finished (seq_of (en_sched e3) r)) (sc_running s1)"
    using rq queuesD [OF s2(2)] by simp
  show ?thesis by (rule that [OF sc si s2(1,2) fr b run e_ok bd sd w' r' \<open>same_frame e e'\<close>]) (simp add: same)
qed

subsection \<open>Requests\<close>

definition prompt_limit_ok :: "sched_config \<Rightarrow> lora_request option \<Rightarrow> bool" where
  "prompt_limit_ok cf lora \<longleftrightarrow> (\<exists>k. get_prompt_limit cf (new_group '''' [] 0 None lora None 0) = Inr k)"

lemma update_config_n [simp]: "sp_n (update_from_generation_config c m p) = sp_n p"
  by (simp add: update_from_generation_config_def Let_def split: option.split)

lemma add_engine_ok:
  assumes ok: "llm_ok ec sz U e" and a: "add_request ec rid prompt eos p t lora prio e = Inr e'"
    and n: "sp_n p = 1" and new: "rid \<notin> req_of (en_sched e) ` U" and lim: "prompt_limit_ok (ec_sched ec) lora"
  shows "llm_ok ec sz (insert (en_next_group e) U) e'"
proof -
  let ?r = "en_next_group e"
  define q0 where "q0 = (new_sequence (en_seq_counter e) prompt)\<lparr>sq_eos_token_id := eos\<rparr>"
  from a obtain g p1 where c: "create_sequence_group_with_sampling ec rid q0 p t lora prio = Inr (g, p1)" and pr: "prompt \<noteq> []" and
    e': "e' = e\<lparr>en_sched := add_seq_group ?r (upd_group ?r (\<lambda>_. g) (en_sched e)), en_params := (en_params e)(?r := Some p1),
         en_seq_counter := en_seq_counter e + 1, en_next_group := ?r + 1\<rparr>"
    by (auto simp: add_request_def add_processed_request_def validate_model_inputs_def q0_def Let_def)
  have p1: "sp_n p1 = 1" and g: "g = new_group rid [q0] t (Some 1) lora None prio"
    using c n by (auto simp: create_sequence_group_with_sampling_def Let_def)
  define s1 where "s1 = upd_group ?r (\<lambda>_. g) (en_sched e)"
  have q: "queue_ok (ec_sched ec) sz (cf_chunked_prefill_enabled (ec_sched ec)) U (en_sched e)" and pa: "params_ok U e"
    and lt: "\<forall>r \<in> U. r < ?r \<and> id_of (en_sched e) r < en_seq_counter e" using ok by (simp_all add: llm_ok_def)
  have rU: "?r \<notin> U" using lt by auto
  have same: "sc_groups s1 x = sc_groups (en_sched e) x" if "x \<in> U" for x using that rU by (auto simp: s1_def)
  then have same': "seq_of s1 x = seq_of (en_sched e) x" "st_of s1 x = st_of (en_sched e) x" "id_of s1 x = id_of (en_sched e) x"
    "req_of s1 x = req_of (en_sched e) x" "stage_of s1 x = stage_of (en_sched e) x" if "x \<in> U" for x
    using that by (simp_all add: seq_of_def st_of_def id_of_def req_of_def stage_of_def)
  obtain C where C: "groups_with (ec_sched ec) sz C U (en_sched e)" using queue_okD(1) [OF q] by blast
  have "groups_with (ec_sched ec) sz C U s1"
  proof -
    have "{r \<in> U. st_of s1 r = RUNNING} = {r \<in> U. st_of (en_sched e) r = RUNNING}" using same' by auto
    moreover have "id_of s1 ` {r \<in> U. st_of (en_sched e) r = RUNNING} = id_of (en_sched e) ` {r \<in> U. st_of (en_sched e) r = RUNNING}"
      using same' by (intro image_cong) auto
    ultimately show ?thesis using C same same'
      by (simp add: groups_with_def inj_on_def) (simp add: s1_def)
  qed
  note gw = this
  have fs: "sc_waiting s1 = sc_waiting (en_sched e)" "sc_running s1 = sc_running (en_sched e)"
    "sc_swapped s1 = sc_swapped (en_sched e)" "sc_async_stopped s1 = sc_async_stopped (en_sched e)"
    by (simp_all add: s1_def upd_group_def)
  have q1: "queue_ok (ec_sched ec) sz (cf_chunked_prefill_enabled (ec_sched ec)) U s1"
    by (rule queue_okI [OF gw]) (use queue_okD [OF q] same' in \<open>auto simp: fs subset_eq\<close>)
  have gr: "sc_groups s1 ?r = g" by (simp add: s1_def)
  have seq: "the_seq g = q0" by (simp add: g new_group_def the_seq_def)
  have f: "st_of s1 ?r = WAITING" "id_of s1 ?r = en_seq_counter e" "req_of s1 ?r = rid"
    by (simp_all add: st_of_def id_of_def req_of_def seq_of_def gr seq) (simp_all add: q0_def new_sequence_def g new_group_def)
  have "\<exists>k. get_prompt_limit (ec_sched ec) g = Inr k"
    using lim by (simp add: prompt_limit_ok_def get_prompt_limit_def g new_group_def)
  then have "single_ok (ec_sched ec) g"
    using pr by (auto simp: single_ok_def seq) (auto simp: g new_group_def q0_def new_sequence_def tokens_ok_def from_seqs_def
        seq_data_of_def sd_len_def)
  then have "queue_ok (ec_sched ec) sz (cf_chunked_prefill_enabled (ec_sched ec)) (insert ?r U) (add_seq_group ?r s1)"
    by (intro add_queue_ok [OF q1]) (use f rU lt new same' gr in \<open>auto simp: image_iff\<close>)
  moreover have "params_ok (insert ?r U) e'" using pa p1 by (auto simp: params_ok_def e')
  moreover have "id_of (en_sched e') = id_of s1"
    by (simp add: e' fun_eq_iff id_of_def seq_of_def add_seq_group_def s1_def)
  then have "\<forall>x \<in> insert ?r U. x < en_next_group e' \<and> id_of (en_sched e') x < en_seq_counter e'"
    using lt f same' by (auto simp: e' less_Suc_eq)
  ultimately show ?thesis by (simp add: llm_ok_def) (simp add: e' s1_def)
qed

end
