(* ===== verification/Engine_Safe.thy ===== *)
theory Engine_Safe
  imports Engine_Step
begin

text \<open>Every state that the engine reaches by requests, steps and aborts: nothing raises, and the outputs stay within their limits.\<close>

subsection \<open>Aborting requests\<close>

lemma pick_aborted_sub: "set (fst (pick_aborted groups rs ids)) \<subseteq> set rs \<and> (distinct rs \<longrightarrow> distinct (fst (pick_aborted groups rs ids)))"
proof (induction rs arbitrary: ids)
  case (Cons r rs)
  from Cons.IH [of ids] Cons.IH [of "ids - {sg_request_id (groups r)}"] show ?case
    by (auto simp: Let_def split: prod.splits)
qed simp

text \<open>The group is taken out of its queue, its sequence ends and gives its blocks back.\<close>

lemma abort_group_frees:
  assumes C: "groups_with cf sz C U s" and r: "r \<in> U" and st: "st_of s r = WAITING \<or> st_of s r = RUNNING"
    and f: "on_queue (remove1 r) s = s1" "sc_groups s1 = sc_groups s" "sc_mem s1 = sc_mem s"
  obtains s' where "abort_group on_queue r s = Inr s'" "groups_with cf sz (C(id_of s r := None)) U s'"
    "queues s' = queues s1" "\<And>x. x \<noteq> r \<Longrightarrow> sc_groups s' x = sc_groups s x"
    "id_of s' = id_of s" "req_of s' = req_of s" "st_of s' r = FINISHED_ABORTED" "sd_output (sq_data (seq_of s' r)) = sd_output (sq_data (seq_of s r))"
proof -
  let ?g = "sc_groups s r" let ?q = "the_seq ?g"
  have ok: "single_ok cf ?g" by (rule groups_withD(2) [OF C r])
  have g: "sg_seqs ?g = [?q]" "sg_encoder_seq ?g = None" using single_okD(1) [OF ok] ok by (simp_all add: single_ok_def)
  have nf: "\<not> sq_finished ?q" using st by (auto simp: st_of_eq sq_finished_def status_finished_def)
  from kv_free [OF groups_withD(1) [OF C], of "set_status FINISHED_ABORTED ?q"] obtain m where
    m: "free (set_status FINISHED_ABORTED ?q) (sc_mem s) = Inr m" "kv_at sz m (C(id_of s r := None))"
    by (auto simp: set_status_def id_of_eq)
  define s' where "s' = upd_group r (\<lambda>g. g\<lparr>sg_seqs := [set_status FINISHED_ABORTED ?q]\<rparr>)
    (s1\<lparr>sc_finished_ids := sc_finished_ids s1 @ [sg_request_id ?g], sc_mem := m\<rparr>)"
  have run: "abort_group on_queue r s = Inr s'"
    using g m(1) nf f by (simp add: abort_group_def abort_seq_def Let_def s'_def free_seq_group_cross_attn_blocks_def
        is_encoder_decoder_def)
  have gr: "sc_groups s' = (sc_groups s)(r := ?g\<lparr>sg_seqs := [set_status FINISHED_ABORTED ?q]\<rparr>)"
    using f(2) by (simp add: s'_def)
  have seq: "seq_of s' x = (if x = r then set_status FINISHED_ABORTED (seq_of s r) else seq_of s x)" for x
    by (simp add: seq_of_def gr the_seq_def)
  have ids: "id_of s' = id_of s" "req_of s' = req_of s" by (auto simp: fun_eq_iff id_of_def req_of_def seq set_status_def gr)
  have "groups_with cf sz (C(id_of s r := None)) U s'"
  proof (rule groups_with_change [OF C r _ ids])
    have "the_seq (sc_groups s' r) = set_status FINISHED_ABORTED ?q" by (simp add: gr the_seq_def)
    then show "single_ok cf (sc_groups s' r)"
      using ok by (simp add: gr single_ok_def get_prompt_limit_def set_status_def)
    show "kv_at sz (sc_mem s') (C(id_of s r := None))" using m(2) by (simp add: s'_def)
  qed (simp_all add: gr st_of_def seq set_status_def)
  moreover have "queues s' = queues s1" by (simp add: s'_def queues_def upd_group_def)
  ultimately show ?thesis
    by (rule that [OF run _ _ _ ids]) (simp_all add: gr st_of_def seq set_status_def)
qed

definition output_of :: "scheduler \<Rightarrow> group_ref \<Rightarrow> int list" where
  "output_of s r = sd_output (sq_data (seq_of s r))"

text \<open>What an abort leaves as it is.\<close>

definition abort_keeps :: "scheduler \<Rightarrow> scheduler \<Rightarrow> bool" where
  "abort_keeps s s' \<longleftrightarrow> id_of s' = id_of s \<and> req_of s' = req_of s \<and> output_of s' = output_of s
     \<and> set (sc_waiting s') \<subseteq> set (sc_waiting s) \<and> set (sc_running s') \<subseteq> set (sc_running s)"

lemma abort_keeps_trans: "abort_keeps s s1 \<Longrightarrow> abort_keeps s1 s2 \<Longrightarrow> abort_keeps s s2"
  by (auto simp: abort_keeps_def)

lemma abort_one:
  assumes q: "queue_ok cf sz c U s" and w: "r \<in> set (sc_waiting s) \<union> set (sc_running s)"
    and f: "on_queue (remove1 r) s = s1" "sc_groups s1 = sc_groups s" "sc_mem s1 = sc_mem s"
    and u: "queues s1 = (remove1 r (sc_waiting s), remove1 r (sc_running s), sc_swapped s, sc_async_stopped s)"
  obtains s' where "abort_group on_queue r s = Inr s'" "queue_ok cf sz c U s'" "abort_keeps s s'"
    "sc_waiting s' = remove1 r (sc_waiting s)" "sc_running s' = remove1 r (sc_running s)"
proof -
  obtain C where C: "groups_with cf sz C U s" using queue_okD(1) [OF q] by blast
  have r: "r \<in> U" and st: "st_of s r = WAITING \<or> st_of s r = RUNNING" using w queue_okD(3,4,5) [OF q] by auto
  from abort_group_frees [where on_queue = on_queue, OF C r st f] obtain s' where
    run: "abort_group on_queue r s = Inr s'" and C': "groups_with cf sz (C(id_of s r := None)) U s'" and
    qu: "queues s' = queues s1" and oth: "\<And>x. x \<noteq> r \<Longrightarrow> sc_groups s' x = sc_groups s x" and
    ids: "id_of s' = id_of s" "req_of s' = req_of s" and str: "st_of s' r = FINISHED_ABORTED" and
    out: "sd_output (sq_data (seq_of s' r)) = sd_output (sq_data (seq_of s r))" by blast
  have same: "st_of s' x = st_of s x" "stage_of s' x = stage_of s x" "seq_of s' x = seq_of s x" if "x \<noteq> r" for x
    using oth [OF that] by (simp_all add: st_of_def stage_of_def seq_of_def)
  have fs: "sc_waiting s' = remove1 r (sc_waiting s)" "sc_running s' = remove1 r (sc_running s)"
    "sc_swapped s' = sc_swapped s" "sc_async_stopped s' = sc_async_stopped s"
    using qu u by (simp_all add: queues_def)
  have r': "r \<notin> set (sc_waiting s')" "r \<notin> set (sc_running s')" using fs queue_okD(2) [OF q] by simp_all
  have sub: "set (sc_waiting s') \<subseteq> set (sc_waiting s)" "set (sc_running s') \<subseteq> set (sc_running s)"
    using fs set_remove1_subset [of r] by simp_all
  have gone: "x \<notin> set (sc_waiting s') \<Longrightarrow> x \<noteq> r \<Longrightarrow> x \<notin> set (sc_waiting s)" "x \<notin> set (sc_running s') \<Longrightarrow> x \<noteq> r \<Longrightarrow> x \<notin> set (sc_running s)" for x
    by (simp_all add: fs)
  have "queue_ok cf sz c U s'"
  proof (rule queue_okI [OF C'])
    show "distinct (sc_waiting s' @ sc_running s')" using queue_okD(2) [OF q] by (auto simp: fs distinct_remove1)
    show "set (sc_waiting s') \<union> set (sc_running s') \<subseteq> U" using queue_okD(3) [OF q] sub by blast
    show "st_of s' x = WAITING" if "x \<in> set (sc_waiting s')" for x
    proof -
      have "x \<noteq> r" "x \<in> set (sc_waiting s)" using that r' sub by blast+
      then show ?thesis using queue_okD(4) [OF q] same by simp
    qed
    show "st_of s' x = RUNNING \<and> (\<not> c \<longrightarrow> stage_of s' x = DECODE)" if "x \<in> set (sc_running s')" for x
    proof -
      have "x \<noteq> r" "x \<in> set (sc_running s)" using that r' sub by blast+
      then show ?thesis using queue_okD(5,6) [OF q] same by simp
    qed
    show "st_of s' x \<noteq> RUNNING" if "x \<in> U - set (sc_waiting s') - set (sc_running s')" for x
      using that gone [of x] queue_okD(7) [OF q, of x] same [of x] str by (cases "x = r") auto
    show "sc_swapped s' = []" "sc_async_stopped s' = []" using fs queue_okD(8,9) [OF q] by simp_all
    show "length (sc_running s') \<le> cf_max_num_seqs cf"
      using queue_okD(10) [OF q] by (auto simp: fs length_remove1)
  qed
  moreover have "output_of s' x = output_of s x" for x using same(3) [of x] out by (cases "x = r") (simp_all add: output_of_def)
  then have "output_of s' = output_of s" by (simp add: fun_eq_iff)
  ultimately show ?thesis using ids sub by (intro that [OF run _ _ fs(1,2)]) (simp_all add: abort_keeps_def)
qed

text \<open>One queue: \<open>step\<close> is what \<open>abort_one\<close> says of it.\<close>

lemma abort_in_total:
  assumes step: "\<And>s r. queue_ok cf sz c U s \<Longrightarrow> r \<in> set (queue s) \<Longrightarrow> \<exists>s'. abort_group on_queue r s = Inr s'
      \<and> queue_ok cf sz c U s' \<and> abort_keeps s s' \<and> queue s' = remove1 r (queue s)"
    and q: "queue_ok cf sz c U s" and d: "distinct (queue s)"
  shows "\<exists>ids' s'. abort_in queue on_queue (ids, s) = Inr (ids', s') \<and> queue_ok cf sz c U s' \<and> abort_keeps s s'"
proof -
  have all: "\<exists>s'. fold_r (abort_group on_queue) rs s = Inr s' \<and> queue_ok cf sz c U s' \<and> abort_keeps s s'"
    if "queue_ok cf sz c U s" "distinct rs" "set rs \<subseteq> set (queue s)" for rs s
    using that
  proof (induction rs arbitrary: s)
    case Nil
    then show ?case by (simp add: abort_keeps_def)
  next
    case (Cons r rs)
    from step [of s r] Cons.prems obtain s1 where s1: "abort_group on_queue r s = Inr s1" "queue_ok cf sz c U s1" "abort_keeps s s1"
      "queue s1 = remove1 r (queue s)" by auto
    have "set rs \<subseteq> set (queue s1)" using Cons.prems s1(4) by (simp add: subset_eq) (metis in_set_remove1)
    from Cons.IH [OF s1(2) _ this] Cons.prems s1 show ?case by (auto intro: abort_keeps_trans)
  qed
  obtain picked ids' where p: "pick_aborted (sc_groups s) (queue s) ids = (picked, ids')" by fastforce
  have "distinct picked" "set picked \<subseteq> set (queue s)"
    using pick_aborted_sub [of "sc_groups s" "queue s" ids] d p by simp_all
  from all [OF q this] show ?thesis by (auto simp: abort_in_def p)
qed

lemma abort_total:
  assumes q: "queue_ok cf sz c U s"
  shows "\<exists>s'. abort_seq_group ids s = Inr s' \<and> queue_ok cf sz c U s' \<and> abort_keeps s s'"
proof -
  have w: "\<exists>s'. abort_group sc_waiting_update r s = Inr s' \<and> queue_ok cf sz c U s' \<and> abort_keeps s s' \<and> sc_waiting s' = remove1 r (sc_waiting s)"
    if "queue_ok cf sz c U s" "r \<in> set (sc_waiting s)" for s r
  proof -
    have "r \<notin> set (sc_running s)" using that queue_okD(2) by fastforce
    then have "queues (sc_waiting_update (remove1 r) s) = (remove1 r (sc_waiting s), remove1 r (sc_running s), sc_swapped s, sc_async_stopped s)"
      by (simp add: queues_def remove1_idem)
    from abort_one [where on_queue = sc_waiting_update, OF that(1) _ refl _ _ this] that(2) show ?thesis by auto
  qed
  have n: "\<exists>s'. abort_group sc_running_update r s = Inr s' \<and> queue_ok cf sz c U s' \<and> abort_keeps s s' \<and> sc_running s' = remove1 r (sc_running s)"
    if "queue_ok cf sz c U s" "r \<in> set (sc_running s)" for s r
  proof -
    have "r \<notin> set (sc_waiting s)" using that queue_okD(2) by fastforce
    then have "queues (sc_running_update (remove1 r) s) = (remove1 r (sc_waiting s), remove1 r (sc_running s), sc_swapped s, sc_async_stopped s)"
      by (simp add: queues_def remove1_idem)
    from abort_one [where on_queue = sc_running_update, OF that(1) _ refl _ _ this] that(2) show ?thesis by auto
  qed
  have d: "distinct (sc_waiting s)" using queue_okD(2) [OF q] by simp
  from abort_in_total [OF w q d, of ids] obtain ids1 s1 where
    s1: "abort_in sc_waiting sc_waiting_update (ids, s) = Inr (ids1, s1)" "queue_ok cf sz c U s1" "abort_keeps s s1" by blast
  have d1: "distinct (sc_running s1)" using queue_okD(2) [OF s1(2)] by simp
  from abort_in_total [OF n s1(2) d1, of ids1] obtain ids2 s2 where
    s2: "abort_in sc_running sc_running_update (ids1, s1) = Inr (ids2, s2)" "queue_ok cf sz c U s2" "abort_keeps s1 s2" by blast
  have "abort_in sc_swapped sc_swapped_update (ids2, s2) = Inr (ids2, s2)"
    using queue_okD(8) [OF s2(2)] by (simp add: abort_in_def)
  then show ?thesis using s1 s2 abort_keeps_trans [OF s1(3) s2(3)] by (simp add: abort_seq_group_def)
qed

subsection \<open>Reachable states\<close>

text \<open>The engine as it is built (\<open>LLMEngine.__init__\<close>): no requests, counters at zero. \<open>groups\<close> fills the unused references.\<close>

definition init_engine ::
    "hash_fn \<Rightarrow> engine_config \<Rightarrow> nat \<Rightarrow> nat \<Rightarrow> nat \<Rightarrow> (group_ref \<Rightarrow> seq_group) \<Rightarrow> engine result" where
  "init_engine H ec num_gpu num_cpu pipeline_parallel_size groups =
     bind_r (init_scheduler H (ec_sched ec) num_gpu num_cpu None pipeline_parallel_size groups) (\<lambda>s.
       Inr \<lparr>en_sched = s, en_params = (\<lambda>_. None), en_seq_counter = 0, en_next_group = 0\<rparr>)"

definition requests :: "engine \<Rightarrow> string set" where
  "requests e = req_of (en_sched e) ` {..<en_next_group e}"

text \<open>
  Requests carry accepted sampling parameters with one sequence and an id of their own; the workers may
  answer anything of the right shape, and differently in every step.
\<close>

inductive engine_reach :: "engine_config \<Rightarrow> engine \<Rightarrow> engine \<Rightarrow> bool" for ec e0 where
  reach_start: "engine_reach ec e0 e0"
| reach_add: "\<lbrakk>engine_reach ec e0 e; sampling_post_init given = Inr p; sp_n p = 1; rid \<notin> requests e; prompt_limit_ok (ec_sched ec) lora;
    add_request ec rid prompt eos p t lora prio e = Inr e'\<rbrakk> \<Longrightarrow> engine_reach ec e0 e'"
| reach_step: "\<lbrakk>engine_reach ec e0 e; worker_ok worker; engine_step ec worker now start elapsed later e = Inr (answers, e')\<rbrakk>
    \<Longrightarrow> engine_reach ec e0 e'"
| reach_abort: "\<lbrakk>engine_reach ec e0 e; abort_request ids e = Inr e'\<rbrakk> \<Longrightarrow> engine_reach ec e0 e'"

definition engine_inv :: "engine_config \<Rightarrow> nat \<Rightarrow> engine \<Rightarrow> bool" where
  "engine_inv ec sz e \<longleftrightarrow> llm_ok ec sz {..<en_next_group e} e"

lemma abort_engine_total:
  assumes "engine_inv ec sz e"
  shows "\<exists>e'. abort_request ids e = Inr e' \<and> engine_inv ec sz e' \<and> abort_keeps (en_sched e) (en_sched e') \<and> same_frame e e'"
proof -
  have "queue_ok (ec_sched ec) sz (cf_chunked_prefill_enabled (ec_sched ec)) {..<en_next_group e} (en_sched e)"
    using assms by (simp add: engine_inv_def llm_ok_def)
  from abort_total [OF this, of ids] obtain s' where s': "abort_seq_group ids (en_sched e) = Inr s'"
    "queue_ok (ec_sched ec) sz (cf_chunked_prefill_enabled (ec_sched ec)) {..<en_next_group e} s'" "abort_keeps (en_sched e) s'" by blast
  then show ?thesis using assms
    by (simp add: abort_request_def on_sched_def engine_inv_def llm_ok_def params_ok_def abort_keeps_def same_frame_def)
qed

lemma add_engine_inv:
  assumes "engine_inv ec sz e" and a: "add_request ec rid prompt eos p t lora prio e = Inr e'"
    and "sp_n p = 1" and "rid \<notin> requests e" and "prompt_limit_ok (ec_sched ec) lora"
  shows "engine_inv ec sz e'"
proof -
  have "llm_ok ec sz (insert (en_next_group e) {..<en_next_group e}) e'"
    by (rule add_engine_ok [OF _ a]) (use assms in \<open>simp_all add: engine_inv_def requests_def\<close>)
  moreover have "en_next_group e' = Suc (en_next_group e)"
    using a by (auto simp: add_request_def add_processed_request_def Let_def)
  ultimately show ?thesis by (simp add: engine_inv_def lessThan_Suc)
qed

lemma step_engine_total:
  assumes "engine_config_ok ec" "worker_ok worker" "engine_inv ec sz e"
  shows "\<exists>answers e'. engine_step ec worker now start elapsed later e = Inr (answers, e') \<and> engine_inv ec sz e'"
proof -
  have "llm_ok ec sz {..<en_next_group e} e" using assms by (simp add: engine_inv_def)
  from engine_step_parts [OF assms(1,2) this, of now start elapsed later] obtain answers e' where
    "engine_step ec worker now start elapsed later e = Inr (answers, e')" "llm_ok ec sz {..<en_next_group e} e'" "same_frame e e'" by blast
  then show ?thesis by (auto simp: engine_inv_def same_frame_def)
qed

lemma engine_reach_inv:
  assumes cf: "engine_config_ok ec" and "engine_reach ec e0 e" and "engine_inv ec sz e0"
  shows "engine_inv ec sz e"
  using assms(2)
proof induction
  case (reach_step e worker now start elapsed later answers e')
  with step_engine_total [OF cf reach_step.hyps(2) reach_step.IH, of now start elapsed later] show ?case by auto
next
  case (reach_abort e ids e')
  with abort_engine_total [OF reach_abort.IH, of ids] show ?case by auto
qed (use assms(3) in \<open>auto intro: add_engine_inv\<close>)

definition cache_ok :: "sched_config \<Rightarrow> nat \<Rightarrow> nat \<Rightarrow> nat \<Rightarrow> bool" where
  "cache_ok cf ng nc pp \<longleftrightarrow> 0 < cf_block_size cf \<and> pp \<le> ng \<and> 0 < ng \<and> pp \<le> nc \<and> 0 < nc"

lemma init_engine_inv:
  assumes cf: "engine_config_ok ec" and c: "cache_ok (ec_sched ec) ng nc pp" and i: "init_engine H ec ng nc pp groups = Inr e0"
  shows "engine_inv ec (cf_block_size (ec_sched ec)) e0"
proof -
  obtain s where s: "init_scheduler H (ec_sched ec) ng nc None pp groups = Inr s"
    and e0: "e0 = \<lparr>en_sched = s, en_params = (\<lambda>_. None), en_seq_counter = 0, en_next_group = 0\<rparr>"
    using i by (auto simp: init_engine_def)
  have "\<not> cf_enable_prefix_caching (ec_sched ec)" using cf by (simp add: engine_config_ok_def config_ok_def)
  from init_queue_ok [OF s this] c show ?thesis by (simp add: engine_inv_def llm_ok_def params_ok_def cache_ok_def e0)
qed


end
