(* ===== verification/Engine_Bounds.thy ===== *)
theory Engine_Bounds
  imports Engine_Safe Sampling
begin

text \<open>The outputs stay within \<open>max_tokens\<close>: a request that is still queued has room for at least one more token.\<close>

definition outputs_within :: "engine \<Rightarrow> bool" where
  "outputs_within e \<longleftrightarrow> (\<forall>r < en_next_group e. \<forall>p k. en_params e r = Some p \<longrightarrow> sp_max_tokens p = Some k \<longrightarrow>
     1 \<le> k \<and> sp_min_tokens p \<le> k \<and> int (length (output_of (en_sched e) r)) \<le> k
     \<and> (r \<in> set (sc_waiting (en_sched e)) \<union> set (sc_running (en_sched e)) \<longrightarrow> int (length (output_of (en_sched e) r)) < k))"

lemma outputs_withinI:
  assumes "\<And>r p k. r < en_next_group e \<Longrightarrow> en_params e r = Some p \<Longrightarrow> sp_max_tokens p = Some k \<Longrightarrow> 1 \<le> k \<and> sp_min_tokens p \<le> k
     \<and> int (length (output_of (en_sched e) r)) \<le> k
     \<and> (r \<in> set (sc_waiting (en_sched e)) \<union> set (sc_running (en_sched e)) \<longrightarrow> int (length (output_of (en_sched e) r)) < k)"
  shows "outputs_within e"
  using assms by (simp add: outputs_within_def)

lemma outputs_withinD:
  assumes "outputs_within e" "r < en_next_group e" "en_params e r = Some p" "sp_max_tokens p = Some k"
  shows "1 \<le> k" "sp_min_tokens p \<le> k" "int (length (output_of (en_sched e) r)) \<le> k"
    "r \<in> set (sc_waiting (en_sched e)) \<union> set (sc_running (en_sched e)) \<Longrightarrow> int (length (output_of (en_sched e) r)) < k"
  using assms by (auto simp: outputs_within_def)

lemma update_config_limits [simp]:
  "sp_max_tokens (update_from_generation_config c m p) = sp_max_tokens p"
  "sp_min_tokens (update_from_generation_config c m p) = sp_min_tokens p"
  by (simp_all add: update_from_generation_config_def Let_def split: option.split)

lemma add_within:
  assumes w: "outputs_within e" and ok: "engine_inv ec sz e" and a: "add_request ec rid prompt eos p t lora prio e = Inr e'"
    and p: "sampling_post_init given = Inr p"
  shows "outputs_within e'"
proof -
  let ?r = "en_next_group e"
  from a obtain g p1 q where c: "create_sequence_group_with_sampling ec rid q p t lora prio = Inr (g, p1)" and
    q: "sd_output (sq_data q) = []" and
    e': "e' = e\<lparr>en_sched := add_seq_group ?r (upd_group ?r (\<lambda>_. g) (en_sched e)), en_params := (en_params e)(?r := Some p1),
         en_seq_counter := en_seq_counter e + 1, en_next_group := ?r + 1\<rparr>"
    by (auto simp: add_request_def add_processed_request_def Let_def new_sequence_def from_seqs_def seq_data_of_def)
  have p1: "sp_max_tokens p1 = sp_max_tokens p" "sp_min_tokens p1 = sp_min_tokens p" and g: "sg_seqs g = [q]"
    using c by (auto simp: create_sequence_group_with_sampling_def Let_def new_group_def)
  have out: "output_of (en_sched e') x = (if x = ?r then [] else output_of (en_sched e) x)" for x
    by (simp add: output_of_def seq_of_def e' add_seq_group_def the_seq_def g q)
  have qs: "sc_waiting (en_sched e') = sc_waiting (en_sched e) @ [?r]" "sc_running (en_sched e') = sc_running (en_sched e)"
    by (simp_all add: e' add_seq_group_def upd_group_def)
  have ps: "en_params e' = (en_params e)(?r := Some p1)" "en_next_group e' = Suc ?r" by (simp_all add: e')
  show ?thesis
  proof (rule outputs_withinI)
    fix x p' k
    assume x: "x < en_next_group e'" "en_params e' x = Some p'" "sp_max_tokens p' = Some k"
    show "1 \<le> k \<and> sp_min_tokens p' \<le> k \<and> int (length (output_of (en_sched e') x)) \<le> k
     \<and> (x \<in> set (sc_waiting (en_sched e')) \<union> set (sc_running (en_sched e')) \<longrightarrow> int (length (output_of (en_sched e') x)) < k)"
    proof (cases "x = ?r")
      case True
      then show ?thesis using x p1 accepted_limits [OF p, of k] by (auto simp: out ps)
    next
      case False
      then have "x < en_next_group e" "en_params e x = Some p'" using x by (simp_all add: ps)
      with outputs_withinD [OF w this x(3)] False show ?thesis by (simp add: out qs)
    qed
  qed
qed

lemma step_within:
  assumes cf: "engine_config_ok ec" and wo: "worker_ok worker" and inv: "engine_inv ec sz e" and w: "outputs_within e"
    and run: "engine_step ec worker now start elapsed later e = Inr (answers, e')"
  shows "outputs_within e'"
proof -
  let ?U = "{..<en_next_group e}"
  have ok: "llm_ok ec sz ?U e" using inv by (simp add: engine_inv_def)
  obtain mds o1 allow s1 e2 fin e3 answers' e'' where
    sc: "sc_schedule (ec_sched ec) None now start elapsed (en_sched e) = Inr (mds, o1, allow, s1)" and
    si: "same_idents (en_sched e) s1" and g2: "sc_groups (en_sched e2) = sc_groups s1" and fr2: "same_frame e e2" and
    bo: "batch_ok (ec_sched ec) sz ?U mds (so_groups o1) (en_sched e2)" and q2: "queues (en_sched e2) = queues s1" and
    run': "engine_step ec worker now start elapsed later e = Inr (answers', e'')" and
    bd: "batch_done ec sz ?U (so_groups o1) e2 (length (so_groups o1)) fin e3" and sd: "same_data e3 e''" and
    wq: "sc_waiting (en_sched e'') = sc_waiting s1" and
    rq: "sc_running (en_sched e'') = filter (\<lambda>r. \<not> sq_finished (seq_of (en_sched e3) r)) (sc_running s1)" and fr: "same_frame e e''"
    by (rule engine_step_parts [OF cf wo ok, of now start elapsed later])
  have e': "e'' = e'" using run run' by simp
  have qk: "queue_ok (ec_sched ec) sz (cf_chunked_prefill_enabled (ec_sched ec)) ?U (en_sched e)" using ok by (simp add: llm_ok_def)
  have qk1: "queue_ok (ec_sched ec) sz True ?U (en_sched e2)" and sub: "fst ` set (so_groups o1) \<subseteq> set (sc_running s1)"
    using bo queuesD [OF q2] by (simp_all add: batch_ok_def)
  have "all_refs s1 + mset (so_ignored o1) = all_refs (en_sched e)" using schedule_refs [OF sc] by simp
  then have "set_mset (all_refs s1) \<subseteq> set_mset (all_refs (en_sched e))" by (metis set_mset_union Un_upper1)
  then have old: "set (sc_waiting s1) \<union> set (sc_running s1) \<subseteq> set (sc_waiting (en_sched e)) \<union> set (sc_running (en_sched e))"
    using queue_okD(8,9) [OF qk] by (auto simp: all_refs_def)
  have out2: "output_of (en_sched e2) r = output_of (en_sched e) r" if "r \<in> ?U" for r
    using same_idents_ids(3) [OF si queue_single [OF qk that]] same_groups [OF g2] by (simp add: output_of_def)
  have out3: "output_of (en_sched e'') r = output_of (en_sched e3) r" for r using sd by (simp add: same_data_def output_of_def)
  show ?thesis unfolding e' [symmetric]
  proof (rule outputs_withinI)
    fix r p k
    assume r: "r < en_next_group e''" and p: "en_params e'' r = Some p" and k: "sp_max_tokens p = Some k"
    then have rU: "r \<in> ?U" "r < en_next_group e" and pe: "en_params e r = Some p" using fr by (simp_all add: same_frame_def)
    note old_in = outputs_withinD [OF w rU(2) pe k]
    show "1 \<le> k \<and> sp_min_tokens p \<le> k \<and> int (length (output_of (en_sched e'') r)) \<le> k
     \<and> (r \<in> set (sc_waiting (en_sched e'')) \<union> set (sc_running (en_sched e'')) \<longrightarrow> int (length (output_of (en_sched e'') r)) < k)"
    proof (cases "r \<in> fst ` set (so_groups o1)")
      case False
      then have "en_group e3 r = en_group e2 r" using bd by (simp add: batch_done_def)
      then have "output_of (en_sched e'') r = output_of (en_sched e) r"
        using out2 [OF rU(1)] by (simp add: out3) (simp add: output_of_def seq_of_def en_group_def)
      then show ?thesis using old_in old wq rq by auto
    next
      case True
      then obtain n where n: "(r, n) \<in> set (so_groups o1)" by auto
      have rs: "r \<in> set (sc_running s1)" using n sub by force
      have nw: "r \<notin> set (sc_waiting s1)" using queue_okD(2) [OF qk1] queuesD [OF q2] rs by auto
      have lt: "int (length (output_of (en_sched e2) r)) < k" using old_in(4) old rs out2 [OF rU(1)] by auto
      have "param_of e2 r = p" using fr2 pe by (simp add: param_of_def same_frame_def)
      then have adv: "group_advanced ec p (sample_due (en_sched e2) (r, n)) n (en_group e2 r) (en_group e3 r)"
        using batch_advanced [OF bd n] by simp
      have sq: "the_seq (en_group e2 r) = seq_of (en_sched e2) r" "the_seq (en_group e3 r) = seq_of (en_sched e3) r"
        by (simp_all add: seq_of_def en_group_def)
      have "int (length (output_of (en_sched e3) r)) \<le> k
          \<and> (\<not> sq_finished (seq_of (en_sched e3) r) \<longrightarrow> int (length (output_of (en_sched e3) r)) < k)"
      proof (cases "sample_due (en_sched e2) (r, n)")
        case True
        then have l: "length (output_of (en_sched e3) r) = Suc (length (output_of (en_sched e2) r))"
          and st: "sq_finished (seq_of (en_sched e3) r)
            \<or> seq_goes_on (cf_max_model_len (ec_sched ec)) p (sg_lora (en_group e2 r)) (seq_of (en_sched e3) r)"
          using adv by (auto simp: group_advanced_def output_of_def sq Let_def)
        have "sq_output_len (seq_of (en_sched e3) r) = int (length (output_of (en_sched e3) r))"
          by (simp add: sq_output_len_def output_of_def)
        then show ?thesis using l st lt old_in(2) k by (auto simp: seq_goes_on_def)
      next
        case False
        then have "output_of (en_sched e3) r = output_of (en_sched e2) r" using adv by (simp add: group_advanced_def output_of_def sq Let_def)
        then show ?thesis using lt by simp
      qed
      then show ?thesis using old_in(1,2) nw wq rq by (auto simp: out3)
    qed
  qed
qed

lemma reach_within:
  assumes cf: "engine_config_ok ec" and "engine_reach ec e0 e" and "engine_inv ec sz e0" "outputs_within e0"
  shows "outputs_within e"
  using assms(2)
proof induction
  case (reach_add e given p rid lora prompt eos t prio e')
  then show ?case using add_within engine_reach_inv [OF cf _ assms(3)] by blast
next
  case (reach_step e worker now start elapsed later answers e')
  then show ?case using step_within [OF cf] engine_reach_inv [OF cf _ assms(3)] by blast
next
  case (reach_abort e ids e')
  from abort_engine_total [OF engine_reach_inv [OF cf reach_abort.hyps(1) assms(3)], of ids] reach_abort.hyps(2) have
    "abort_keeps (en_sched e) (en_sched e')" "same_frame e e'" by auto
  then show ?case using reach_abort.IH by (auto simp: outputs_within_def abort_keeps_def same_frame_def)
qed (use assms(4) in simp)

text \<open>
  C3. No request gets more tokens than it asked for: in every state the engine reaches, the output of a
  request with \<open>max_tokens = k\<close> has at most \<open>k\<close> tokens, and fewer while it is still waiting or running,
  however often it has been preempted and recomputed.
\<close>

theorem engine_output_bound:
  assumes "engine_config_ok ec" and "cache_ok (ec_sched ec) ng nc pp" and "init_engine H ec ng nc pp groups = Inr e0"
    and "engine_reach ec e0 e" and "r < en_next_group e" and "en_params e r = Some p" and "sp_max_tokens p = Some k"
  shows "int (length (output_of (en_sched e) r)) \<le> k
    \<and> (r \<in> set (sc_waiting (en_sched e)) \<union> set (sc_running (en_sched e)) \<longrightarrow> int (length (output_of (en_sched e) r)) < k)"
proof -
  have "outputs_within e0" using assms(3) by (auto simp: init_engine_def outputs_within_def)
  from reach_within [OF assms(1,4) init_engine_inv [OF assms(1-3)] this] show ?thesis
    using outputs_withinD [OF _ assms(5-7)] by blast
qed

subsection \<open>A concrete run\<close>

text \<open>Two blocks of two tokens; a request of three tokens that asks for two more; the workers sample \<open>9\<close>.\<close>

definition ex_ec :: engine_config where
  "ex_ec = \<lparr>ec_sched = sx_cf, ec_detokenizer = None, ec_max_logprobs = 5, ec_config_eos = None\<rparr>"

definition ex_worker :: worker where
  "ex_worker mds o1 ids = replicate (length (so_groups o1))
     [\<lparr>sm_parent_seq_id = 0, sm_output_token = 9, sm_logprobs = (\<lambda>_. Some 0)\<rparr>]"

definition ex_engine :: "engine result" where
  "ex_engine = init_engine (\<lambda>_ _ _. 0) ex_ec 2 1 1 (\<lambda>r. sx_group r [1])"

definition ex_add :: "engine \<Rightarrow> (sampling \<times> engine) result" where
  "ex_add e = bind_r (sampling_post_init (default_sampling\<lparr>sp_max_tokens := Some 2\<rparr>)) (\<lambda>p.
     bind_r (add_request ex_ec ''a'' [5, 6, 7] None p 0 None 0 e) (\<lambda>e'. Inr (p, e')))"

definition ex_step :: "engine \<Rightarrow> (request_output list \<times> engine) result" where
  "ex_step = engine_step ex_ec ex_worker (\<lambda>_. 0) 0 0 0"

lemma ex_run_eval:
  "bind_r ex_engine (\<lambda>e0. bind_r (ex_add e0) (\<lambda>(p, e1). bind_r (ex_step e1) (\<lambda>(answers, e2).
       Inr (sp_n p, en_next_group e0, map co_token_ids (concat (map rq_outputs answers)), sc_running (en_sched e2), output_of (en_sched e2) 0,
         en_next_group e2, map_option sp_max_tokens (en_params e2 0)))))
     = Inr (1, 0, [[9]], [0], [9], 1, Some (Some 2))"
  by code_simp

text \<open>The state after the first step: one running request with one of its two tokens.\<close>

lemma ex_reached:
  obtains e0 p e where "init_engine (\<lambda>_ _ _. 0) ex_ec 2 1 1 (\<lambda>r. sx_group r [1]) = Inr e0" "engine_reach ex_ec e0 e"
    "sc_running (en_sched e) = [0]" "output_of (en_sched e) 0 = [9]" "en_next_group e = 1" "en_params e 0 = Some p" "sp_max_tokens p = Some 2"
proof -
  from ex_run_eval obtain e0 p e1 answers e2 where i: "ex_engine = Inr e0" and a: "ex_add e0 = Inr (p, e1)" and
    s: "ex_step e1 = Inr (answers, e2)" and n: "sp_n p = 1" "en_next_group e0 = 0" and
    r: "sc_running (en_sched e2) = [0]" "output_of (en_sched e2) 0 = [9]" "en_next_group e2 = 1"
      "map_option sp_max_tokens (en_params e2 0) = Some (Some 2)"
    by auto
  from a obtain given where p: "sampling_post_init given = Inr p" and
    ad: "add_request ex_ec ''a'' [5, 6, 7] None p 0 None 0 e0 = Inr e1" by (auto simp: ex_add_def)
  have w: "worker_ok ex_worker" by (auto simp: worker_ok_def ex_worker_def)
  have l: "prompt_limit_ok (ec_sched ex_ec) None" by (simp add: prompt_limit_ok_def get_prompt_limit_def new_group_def)
  have nr: "''a'' \<notin> requests e0" using n by (simp add: requests_def)
  have "engine_reach ex_ec e0 e1" by (rule reach_add [OF reach_start p n(1) nr l ad])
  then have "engine_reach ex_ec e0 e2" by (rule reach_step [OF _ w s [unfolded ex_step_def]])
  moreover obtain p2 where "en_params e2 0 = Some p2" "sp_max_tokens p2 = Some 2" using r(4) by auto
  ultimately show ?thesis using that i r unfolding ex_engine_def by blast
qed

lemma ex_config: "engine_config_ok ex_ec" "cache_ok (ec_sched ex_ec) 2 1 1" "worker_ok ex_worker"
proof -
  show "engine_config_ok ex_ec"
    by (simp add: engine_config_ok_def ex_ec_def sx_queue_ok(1) detok_ok_def) (simp add: is_multi_step_def sx_cf_def)
  show "cache_ok (ec_sched ex_ec) 2 1 1" by (simp add: cache_ok_def ex_ec_def sx_cf_def)
  show "worker_ok ex_worker" by (auto simp: worker_ok_def ex_worker_def)
qed


theorem engine_output_bound_witness:
  "\<exists>e0 e. engine_reach ex_ec e0 e \<and> output_of (en_sched e) 0 = [9] \<and> int (length (output_of (en_sched e) 0)) < 2"
proof -
  obtain e0 p e where i: "init_engine (\<lambda>_ _ _. 0) ex_ec 2 1 1 (\<lambda>r. sx_group r [1]) = Inr e0" and r: "engine_reach ex_ec e0 e"
    "sc_running (en_sched e) = [0]" "output_of (en_sched e) 0 = [9]" "en_next_group e = 1" "en_params e 0 = Some p" "sp_max_tokens p = Some 2"
    by (rule ex_reached)
  have "int (length (output_of (en_sched e) 0)) < 2"
    using engine_output_bound [OF ex_config(1,2) i r(1) _ r(5,6)] r(2,4) by simp
  with r show ?thesis by blast
qed

end
