(* ===== verification/Worker.thy ===== *)
theory Worker
  imports Memory_Thms Ws_Common "HOL-Library.AList"
begin

text \<open>
  A GPU worker of the controller (\<open>PrewarmModel\<close>, \<open>perform_model_load\<close>, \<open>MyWorkerWrapper\<close> of
  \<open>entrypoints/controller/utils.py\<close>) with unified memory: the prewarmed models and the worlds they can
  serve, the loads that run one after another on the worker's own thread, the engine that the worker
  belongs to, and the wait for the KV cache to be mapped. The methods of the worker are called one at a
  time; between two calls, and while a call waits, the loading thread moves on.

  Objects with identity are positions in \<open>wk_heap\<close> and \<open>wk_tasks\<close>. The builtin \<open>hash\<close> and the sizes
  of the stored weights are arguments. Tensors, sockets and communication groups are left out; whether a
  group is established is an argument of the step.
\<close>

subsection \<open>Prewarmed models\<close>

record worker_env =
  we_hash_ids :: "nat list \<Rightarrow> int"
  we_hash_key :: "string \<times> nat list \<Rightarrow> int"
  we_num_ele :: "string \<Rightarrow> int \<Rightarrow> nat"

record prewarm_model =
  pw_info :: model_info
  pw_slot :: "nat option"
  pw_locked :: bool
  pw_kv_offset :: "int option"
  pw_worlds :: "int \<rightharpoonup> string"
  pw_loaded :: "string \<rightharpoonup> bool"
  pw_used :: "string set"

definition new_prewarm_model :: "worker_env \<Rightarrow> model_info \<Rightarrow> nat list \<Rightarrow> string \<Rightarrow> prewarm_model" where
  "new_prewarm_model en mi worker_ids world_id =
     \<lparr>pw_info = mi, pw_slot = None, pw_locked = False, pw_kv_offset = None, pw_worlds = [we_hash_ids en worker_ids \<mapsto> world_id],
      pw_loaded = [world_id \<mapsto> False], pw_used = {}\<rparr>"

definition add_world :: "worker_env \<Rightarrow> nat list \<Rightarrow> string \<Rightarrow> prewarm_model \<Rightarrow> bool \<times> prewarm_model" where
  "add_world en worker_ids world_id pm = (let key = we_hash_ids en worker_ids in
     (pw_worlds pm key \<noteq> None,
      pm\<lparr>pw_worlds := (pw_worlds pm)(key \<mapsto> world_id), pw_loaded := (pw_loaded pm)(world_id \<mapsto> False)\<rparr>))"

definition get_world_id :: "worker_env \<Rightarrow> nat list \<Rightarrow> prewarm_model \<Rightarrow> string option" where
  "get_world_id en worker_ids pm = pw_worlds pm (we_hash_ids en worker_ids)"

text \<open>\<open>name[:name.rfind('/')]\<close>: without a slash \<open>rfind\<close> gives \<open>-1\<close> and the last character is cut.\<close>

definition unify_name :: "string \<Rightarrow> string" where
  "unify_name name = (if CHR 0x2F \<in> set name then rev (tl (dropWhile (\<lambda>c. c \<noteq> CHR 0x2F) (rev name))) else butlast name)"

subsection \<open>The state\<close>

datatype load_phase = Queued | Fetching | Copying | Connecting | Ended

record load_task =
  lt_model :: nat
  lt_need_load :: bool
  lt_world :: string
  lt_stop :: bool
  lt_stop_comm :: bool
  lt_phase :: load_phase

text \<open>\<open>wk_threads\<close> is \<open>load_threads\<close>: key, model and position of the task.\<close>

record gpu_worker =
  wk_mm :: mem_manager
  wk_heap :: "prewarm_model list"
  wk_models :: "(model_info \<times> nat) list"
  wk_tasks :: "load_task list"
  wk_threads :: "(int \<times> (model_info \<times> nat)) list"
  wk_info :: "model_info option"
  wk_ids :: "nat list option"
  wk_running :: "nat option"
  wk_started :: bool
  wk_num_gpu_blocks :: "nat option"
  wk_kv_block_size :: "nat option"
  wk_kv_size :: "nat option"
  wk_last_checked :: "int option"
  wk_kv_mapped :: bool

definition init_worker :: "nat \<Rightarrow> gpu_worker" where
  "init_worker num_blocks = \<lparr>wk_mm = init_manager num_blocks, wk_heap = [], wk_models = [], wk_tasks = [], wk_threads = [],
     wk_info = None, wk_ids = None, wk_running = None, wk_started = False, wk_num_gpu_blocks = None, wk_kv_block_size = None,
     wk_kv_size = None, wk_last_checked = None, wk_kv_mapped = True\<rparr>"

definition upd_pm :: "nat \<Rightarrow> (prewarm_model \<Rightarrow> prewarm_model) \<Rightarrow> gpu_worker \<Rightarrow> gpu_worker" where
  "upd_pm r f w = w\<lparr>wk_heap := (wk_heap w)[r := f (wk_heap w ! r)]\<rparr>"

definition upd_task :: "nat \<Rightarrow> (load_task \<Rightarrow> load_task) \<Rightarrow> gpu_worker \<Rightarrow> gpu_worker" where
  "upd_task t f w = w\<lparr>wk_tasks := (wk_tasks w)[t := f (wk_tasks w ! t)]\<rparr>"

definition task_done :: "gpu_worker \<Rightarrow> nat \<Rightarrow> bool" where
  "task_done w t \<longleftrightarrow> lt_phase (wk_tasks w ! t) = Ended"

subsection \<open>Loading\<close>

text \<open>The thread runs the submitted tasks in order.\<close>

definition active_task :: "gpu_worker \<Rightarrow> nat \<Rightarrow> bool" where
  "active_task w t \<longleftrightarrow> t < length (wk_tasks w) \<and> \<not> task_done w t \<and> (\<forall>j < t. task_done w j)"

definition set_phase :: "load_phase \<Rightarrow> nat \<Rightarrow> gpu_worker \<Rightarrow> gpu_worker" where
  "set_phase ph t = upd_task t (\<lambda>k. k\<lparr>lt_phase := ph\<rparr>)"

text \<open>The section under the lock of the model. An exception leaves the lock held.\<close>

definition allocate_model :: "worker_env \<Rightarrow> nat \<Rightarrow> gpu_worker \<Rightarrow> gpu_worker" where
  "allocate_model en t w = (let k = wk_tasks w ! t; r = lt_model k; mi = pw_info (wk_heap w ! r) in
     if lt_stop k then set_phase Ended t w
     else case allocate_prewarm_slot (wk_mm w) of
       Inl _ \<Rightarrow> set_phase Ended t (upd_pm r (\<lambda>pm. pm\<lparr>pw_locked := True\<rparr>) w)
     | Inr (slot, mm1) \<Rightarrow>
         let w1 = upd_pm r (\<lambda>pm. pm\<lparr>pw_slot := Some slot\<rparr>) (w\<lparr>wk_mm := mm1\<rparr>);
             size = int (we_num_ele en (unify_name (model_name mi)) (mi_rank mi)) * 2 in
         (case allocate_blocks slot size True False mm1 of
            Inl _ \<Rightarrow> set_phase Ended t (upd_pm r (\<lambda>pm. pm\<lparr>pw_locked := True\<rparr>) w1)
          | Inr (offset, allocated_size, mm2) \<Rightarrow>
              let w2 = w1\<lparr>wk_mm := mm2\<rparr> in
              if offset \<noteq> 0 then set_phase Ended t w2
              else set_phase Copying t (upd_pm r (\<lambda>pm. pm\<lparr>pw_kv_offset := Some allocated_size\<rparr>) w2)))"

text \<open>The thread waits for the lock of the model.\<close>

definition task_waits :: "nat \<Rightarrow> gpu_worker \<Rightarrow> bool" where
  "task_waits t w \<longleftrightarrow> lt_phase (wk_tasks w ! t) = Fetching \<and> pw_locked (wk_heap w ! lt_model (wk_tasks w ! t))"

definition task_step :: "worker_env \<Rightarrow> bool \<Rightarrow> nat \<Rightarrow> gpu_worker \<Rightarrow> gpu_worker" where
  "task_step en established t w = (let k = wk_tasks w ! t in
     case lt_phase k of
       Queued \<Rightarrow> set_phase (if lt_stop k then Ended else if lt_need_load k then Fetching else Connecting) t w
     | Fetching \<Rightarrow> allocate_model en t w
     | Copying \<Rightarrow> set_phase (if lt_stop k \<or> lt_stop_comm k then Ended else Connecting) t w
     | Connecting \<Rightarrow>
         if established
         then set_phase Ended t (upd_pm (lt_model k) (\<lambda>pm. pm\<lparr>pw_loaded := (pw_loaded pm)(lt_world k \<mapsto> True)\<rparr>) w)
         else if lt_stop k \<or> lt_stop_comm k then set_phase Ended t w else w
     | Ended \<Rightarrow> w)"

definition stop_comm_of :: "model_info \<Rightarrow> int \<times> (model_info \<times> nat) \<Rightarrow> gpu_worker \<Rightarrow> gpu_worker" where
  "stop_comm_of mi e w = (let (_, (i, t)) = e in
     if \<not> task_done w t \<and> i = mi then upd_task t (\<lambda>k. k\<lparr>lt_stop_comm := True\<rparr>) w else w)"

definition submit_load :: "worker_env \<Rightarrow> bool \<Rightarrow> model_info \<Rightarrow> nat list \<Rightarrow> nat \<Rightarrow> string \<Rightarrow> gpu_worker \<Rightarrow> gpu_worker" where
  "submit_load en need_load mi worker_ids r world_id w =
     w\<lparr>wk_tasks := wk_tasks w @ [\<lparr>lt_model = r, lt_need_load = need_load, lt_world = world_id, lt_stop = False,
           lt_stop_comm = False, lt_phase = Queued\<rparr>],
       wk_threads := AList.update (we_hash_key en (model_name mi, worker_ids)) (mi, length (wk_tasks w)) (wk_threads w)\<rparr>"

definition wk_load_model :: "worker_env \<Rightarrow> model_info \<Rightarrow> nat list \<Rightarrow> string \<Rightarrow> gpu_worker \<Rightarrow> gpu_worker" where
  "wk_load_model en mi worker_ids world_id w =
     (case map_of (wk_models w) mi of
        None \<Rightarrow>
          let r = length (wk_heap w) in
          submit_load en True mi worker_ids r world_id
            (w\<lparr>wk_heap := wk_heap w @ [new_prewarm_model en mi worker_ids world_id], wk_models := wk_models w @ [(mi, r)]\<rparr>)
      | Some r \<Rightarrow>
          let (exist, pm) = add_world en worker_ids world_id (wk_heap w ! r); w1 = upd_pm r (\<lambda>_. pm) w;
              w2 = (if exist then fold (stop_comm_of mi) (wk_threads w1) w1 else w1) in
          submit_load en False mi worker_ids r world_id w2)"

definition check_prewarm_compl :: "worker_env \<Rightarrow> model_info \<Rightarrow> nat list \<Rightarrow> gpu_worker \<Rightarrow> bool result" where
  "check_prewarm_compl en mi worker_ids w =
     (case map_of (wk_models w) mi of
        None \<Rightarrow> Inl ValueError
      | Some r \<Rightarrow>
          case get_world_id en worker_ids (wk_heap w ! r) of
            None \<Rightarrow> Inl ValueError
          | Some world_id \<Rightarrow> (case pw_loaded (wk_heap w ! r) world_id of None \<Rightarrow> Inl KeyError | Some b \<Rightarrow> Inr b))"

subsection \<open>Giving models up\<close>

text \<open>\<open>destroy\<close> takes the lock of the model first; \<open>slot\<close> keeps its value.\<close>

definition destroy :: "nat \<Rightarrow> gpu_worker \<Rightarrow> gpu_worker result" where
  "destroy r w = (case pw_slot (wk_heap w ! r) of
     None \<Rightarrow> Inr w
   | Some slot \<Rightarrow> bind_r (free_prewarm_slot slot (wk_mm w)) (\<lambda>mm. Inr (w\<lparr>wk_mm := mm\<rparr>)))"

definition free_model :: "model_info \<Rightarrow> gpu_worker \<Rightarrow> gpu_worker result" where
  "free_model mi w = (case map_of (wk_models w) mi of
     None \<Rightarrow> Inl ValueError
   | Some r \<Rightarrow> bind_r (destroy r w) (\<lambda>w1. Inr (w1\<lparr>wk_models := AList.delete mi (wk_models w1)\<rparr>)))"

definition stop_thread :: "int \<Rightarrow> model_info \<Rightarrow> int \<times> (model_info \<times> nat) \<Rightarrow> gpu_worker \<Rightarrow> gpu_worker" where
  "stop_thread new_key mi e w = (let (key, (i, t)) = e in
     if \<not> task_done w t \<and> key \<noteq> new_key
     then upd_task t (\<lambda>k. if i \<noteq> mi then k\<lparr>lt_stop := True\<rparr> else k\<lparr>lt_stop_comm := True\<rparr>) w else w)"

definition destroy_other :: "model_info \<Rightarrow> model_info \<times> nat \<Rightarrow> (model_info \<times> nat) list \<times> gpu_worker
    \<Rightarrow> ((model_info \<times> nat) list \<times> gpu_worker) result" where
  "destroy_other mi e x = (let (kept, w) = x; (i, r) = e in
     if i \<noteq> mi then bind_r (destroy r w) (\<lambda>w1. Inr (kept, w1)) else Inr (kept @ [e], w))"

definition update_model_info :: "worker_env \<Rightarrow> model_info \<Rightarrow> nat list \<Rightarrow> gpu_worker \<Rightarrow> gpu_worker result" where
  "update_model_info en mi worker_ids w =
     (let w1 = w\<lparr>wk_info := Some mi, wk_ids := Some worker_ids\<rparr>;
          w2 = fold (stop_thread (we_hash_key en (model_name mi, worker_ids)) mi) (wk_threads w1) w1 in
      bind_r (fold_r (destroy_other mi) (wk_models w2) ([], w2)) (\<lambda>(kept, w3). Inr (w3\<lparr>wk_models := kept\<rparr>)))"

text \<open>The call waits for as long as the lock of a model that it destroys is held.\<close>

definition update_waits :: "model_info \<Rightarrow> gpu_worker \<Rightarrow> bool" where
  "update_waits mi w \<longleftrightarrow> (\<exists>(i, r) \<in> set (wk_models w). i \<noteq> mi \<and> pw_locked (wk_heap w ! r))"

text \<open>
  \<open>reset_worker\<close>. Freeing the KV cache of a model that was never loaded indexes a list with \<open>None\<close>. With
  \<open>reset_prewarmed_model\<close> the loop runs over the keys of \<open>prewarm_models\<close>, which have no \<open>destroy\<close>.
\<close>

definition stop_pending :: "int \<times> (model_info \<times> nat) \<Rightarrow> gpu_worker \<Rightarrow> gpu_worker" where
  "stop_pending e w = (let t = snd (snd e) in if task_done w t then w else upd_task t (\<lambda>k. k\<lparr>lt_stop := True\<rparr>) w)"

definition forget_engine :: "gpu_worker \<Rightarrow> gpu_worker" where
  "forget_engine w = w\<lparr>wk_started := False, wk_info := None, wk_kv_size := None, wk_kv_mapped := True, wk_last_checked := None,
     wk_num_gpu_blocks := None, wk_kv_block_size := None\<rparr>"

definition free_kv :: "gpu_worker \<Rightarrow> gpu_worker result" where
  "free_kv w = (case wk_running w of
     None \<Rightarrow> Inr w
   | Some r \<Rightarrow> (case (pw_slot (wk_heap w ! r), pw_kv_offset (wk_heap w ! r)) of
       (Some slot, Some off) \<Rightarrow> bind_r (free_kv_space slot (nat off) (wk_mm w)) (\<lambda>mm. Inr (w\<lparr>wk_mm := mm\<rparr>))
     | _ \<Rightarrow> Inl TypeError))"

definition reset_worker :: "bool \<Rightarrow> gpu_worker \<Rightarrow> (int \<times> gpu_worker) result" where
  "reset_worker reset_prewarmed_model w =
     bind_r (guard_r AssertionError (wk_started w)) (\<lambda>_.
     bind_r (if reset_prewarmed_model then Inr (forget_engine w) else free_kv (forget_engine w)) (\<lambda>w1.
     let w2 = w1\<lparr>wk_running := None\<rparr> in
     if reset_prewarmed_model
     then bind_r (guard_r AttributeError (wk_models w2 = [])) (\<lambda>_.
          bind_r (reset (wk_mm w2)) (\<lambda>(free, mm).
            Inr (free, (fold stop_pending (wk_threads w2) w2)\<lparr>wk_threads := [], wk_mm := mm\<rparr>)))
     else Inr (get_free_memory (wk_mm w2), w2)))"

subsection \<open>Serving an engine\<close>

text \<open>\<open>init_worker\<close> creates the worker that the wrapper stands for.\<close>

definition start_worker :: "gpu_worker \<Rightarrow> gpu_worker" where
  "start_worker w = w\<lparr>wk_started := True\<rparr>"

text \<open>\<open>None\<close>: the call waits for the world of the worker to be established.\<close>

definition init_device :: "worker_env \<Rightarrow> gpu_worker \<Rightarrow> gpu_worker option result" where
  "init_device en w =
     (case Option.bind (wk_info w) (map_of (wk_models w)) of
        None \<Rightarrow> Inl RuntimeError
      | Some r \<Rightarrow>
          case Option.bind (wk_ids w) (\<lambda>ids. get_world_id en ids (wk_heap w ! r)) of
            None \<Rightarrow> Inl RuntimeError
          | Some world_id \<Rightarrow>
              (case pw_loaded (wk_heap w ! r) world_id of
                 None \<Rightarrow> Inl KeyError
               | Some b \<Rightarrow> Inr (if b then Some ((upd_pm r (\<lambda>pm. pm\<lparr>pw_used := insert world_id (pw_used pm)\<rparr>) w)
                   \<lparr>wk_running := Some r\<rparr>) else None)))"

text \<open>The answer of the model runner is an argument: number of blocks and bytes of a block.\<close>

definition loads_pending :: "gpu_worker \<Rightarrow> bool" where
  "loads_pending w \<longleftrightarrow> (\<exists>(_, (_, t)) \<in> set (wk_threads w). \<not> task_done w t)"

definition determine_num_available_blocks :: "(int \<Rightarrow> nat \<times> nat) \<Rightarrow> gpu_worker \<Rightarrow> gpu_worker option" where
  "determine_num_available_blocks profile w =
     (if Option.bind (wk_info w) (map_of (wk_models w)) = None then Some w
      else if loads_pending w then None
      else let (n, block_size) = profile (get_free_memory (wk_mm w)) in
        Some (w\<lparr>wk_threads := [], wk_num_gpu_blocks := Some n, wk_kv_block_size := Some block_size\<rparr>))"

definition initialize_cache :: "bool \<Rightarrow> gpu_worker \<Rightarrow> gpu_worker result" where
  "initialize_cache enable_kv_prewarm w =
     (case (Option.bind (wk_info w) (map_of (wk_models w)), wk_num_gpu_blocks w, wk_kv_block_size w) of
        (Some r, Some n, Some block_size) \<Rightarrow>
          (case pw_slot (wk_heap w ! r) of
             None \<Rightarrow> Inl TypeError
           | Some slot \<Rightarrow>
               bind_r (allocate_blocks slot (int (n * block_size)) True enable_kv_prewarm (wk_mm w)) (\<lambda>(_, _, mm).
                 Inr (w\<lparr>wk_mm := mm, wk_kv_size := Some (n * block_size), wk_last_checked := Some (-1), wk_kv_mapped := False\<rparr>)))
      | (Some r, _, _) \<Rightarrow> Inl TypeError
      | (None, _, _) \<Rightarrow> Inr w)"

definition wk_release_blocks :: "nat list \<Rightarrow> nat \<Rightarrow> nat \<Rightarrow> gpu_worker \<Rightarrow> gpu_worker result" where
  "wk_release_blocks logical logical_block_size total_logical w =
     (case wk_running w of
        None \<Rightarrow> Inl AttributeError
      | Some r \<Rightarrow> (case (pw_slot (wk_heap w ! r), pw_kv_offset (wk_heap w ! r)) of
          (Some slot, Some off) \<Rightarrow>
            bind_r (release_blocks slot (nat off) logical logical_block_size total_logical (wk_mm w)) (\<lambda>mm. Inr (w\<lparr>wk_mm := mm\<rparr>))
        | _ \<Rightarrow> Inl TypeError))"

text \<open>
  \<open>execute_model_spmd\<close> before it runs the model: \<open>x0\<close> is the reading of the progress at the start,
  \<open>x\<close> the reading that ends the wait; \<open>None\<close> if that reading does not end it. \<open>tables\<close> are the block
  tables of the request.
\<close>

definition max_block_id :: "nat list list \<Rightarrow> int" where
  "max_block_id tables = fold (\<lambda>bs m. max m (fold (\<lambda>b m. max m (int b)) bs (-1))) tables (-1)"

definition exec_check :: "bool \<Rightarrow> nat list list \<Rightarrow> int \<Rightarrow> int \<Rightarrow> gpu_worker \<Rightarrow> gpu_worker option result" where
  "exec_check enable_kv_prewarm tables x0 x w =
     (if wk_kv_mapped w then Inr (Some w)
      else case (wk_kv_size w, wk_kv_block_size w, wk_last_checked w) of
        (Some kv_size, Some block_size, Some last_checked) \<Rightarrow>
          if \<not> enable_kv_prewarm
          then Inr (if x < int kv_size then None else Some (w\<lparr>wk_kv_mapped := True\<rparr>))
          else if x0 \<ge> int kv_size then Inr (Some (w\<lparr>wk_kv_mapped := True\<rparr>))
          else let mx = max_block_id tables in
            if mx \<le> last_checked then Inr (Some w)
            else Inr (if x < (mx + 1) * int block_size div 2 then None else Some (w\<lparr>wk_last_checked := Some mx\<rparr>))
      | _ \<Rightarrow> Inl TypeError)"

end
