(* ===== verification/Worker_Inv.thy ===== *)
theory Worker_Inv
  imports Worker
begin

text \<open>
  The invariant of a worker: every slot of its memory that is taken belongs to exactly one of its
  prewarmed models, and a load that can still take a slot belongs to a model that is still wanted. The
  operations one by one.
\<close>

subsection \<open>The invariant\<close>

text \<open>The pages from \<open>kv_offset\<close> on hold the KV cache; only they are handed back early.\<close>

definition kv_fits :: "int option \<Rightarrow> nat \<Rightarrow> mem_manager \<Rightarrow> bool" where
  "kv_fits off s mm \<longleftrightarrow> (case off of
     None \<Rightarrow> mm_released mm ! s = []
   | Some k \<Rightarrow> mm_block_size dvd nat k \<and> nat k \<le> length (mm_ids mm ! s) * mm_block_size
       \<and> (\<forall>q \<in> set (mm_released mm ! s). int (nat k div mm_block_size) \<le> q))"

definition owns :: "prewarm_model list \<Rightarrow> (model_info \<times> nat) list \<Rightarrow> mem_manager \<Rightarrow> bool" where
  "owns H M mm \<longleftrightarrow>
     (\<forall>(i, r) \<in> set M. \<forall>s. pw_slot (H ! r) = Some s \<longrightarrow> s < max_prewarm_model \<and> \<not> mm_slots mm ! s \<and> kv_fits (pw_kv_offset (H ! r)) s mm)
   \<and> (\<forall>(i, r) \<in> set M. \<forall>(i', r') \<in> set M. \<forall>s. pw_slot (H ! r) = Some s \<longrightarrow> pw_slot (H ! r') = Some s \<longrightarrow> r = r')
   \<and> (\<forall>s < max_prewarm_model. \<not> mm_slots mm ! s \<longrightarrow> (\<exists>(i, r) \<in> set M. pw_slot (H ! r) = Some s))"

definition models_ok :: "prewarm_model list \<Rightarrow> (model_info \<times> nat) list \<Rightarrow> bool" where
  "models_ok H M \<longleftrightarrow> distinct (map fst M) \<and> distinct (map snd M) \<and> (\<forall>(i, r) \<in> set M. r < length H \<and> pw_info (H ! r) = i)"

text \<open>A load that has not ended, has not been told to stop and brings the weights.\<close>

definition live_load :: "load_task \<Rightarrow> bool" where
  "live_load k \<longleftrightarrow> lt_need_load k \<and> lt_phase k \<noteq> Ended \<and> \<not> lt_stop k"

definition load_ok ::
    "prewarm_model list \<Rightarrow> (model_info \<times> nat) list \<Rightarrow> (int \<times> (model_info \<times> nat)) list \<Rightarrow> nat \<Rightarrow> load_task \<Rightarrow> bool" where
  "load_ok H M TH t k \<longleftrightarrow> lt_model k < length H
     \<and> (live_load k \<longrightarrow> (pw_info (H ! lt_model k), lt_model k) \<in> set M
          \<and> (\<exists>key. map_of TH key = Some (pw_info (H ! lt_model k), t)))
     \<and> (lt_phase k \<in> {Fetching, Copying} \<longrightarrow> lt_need_load k)
     \<and> (lt_need_load k \<and> lt_phase k \<in> {Queued, Fetching} \<longrightarrow> pw_slot (H ! lt_model k) = None \<and> pw_kv_offset (H ! lt_model k) = None)"

definition pending_ok ::
    "prewarm_model list \<Rightarrow> (model_info \<times> nat) list \<Rightarrow> (int \<times> (model_info \<times> nat)) list \<Rightarrow> load_task list \<Rightarrow> bool" where
  "pending_ok H M TH T \<longleftrightarrow> (\<forall>t < length T. load_ok H M TH t (T ! t))
     \<and> (\<forall>t < length T. \<forall>u < length T. lt_need_load (T ! t) \<longrightarrow> lt_need_load (T ! u) \<longrightarrow> lt_model (T ! t) = lt_model (T ! u) \<longrightarrow> t = u)
     \<and> (\<forall>(key, (i, t)) \<in> set TH. t < length T) \<and> distinct (map fst TH)"

definition running_ok :: "gpu_worker \<Rightarrow> bool" where
  "running_ok w \<longleftrightarrow> (\<forall>r. wk_running w = Some r \<longrightarrow> r \<in> snd ` set (wk_models w))"

definition wk_inv :: "nat \<Rightarrow> gpu_worker \<Rightarrow> bool" where
  "wk_inv n w \<longleftrightarrow> mm_reach n (wk_mm w) \<and> owns (wk_heap w) (wk_models w) (wk_mm w) \<and> models_ok (wk_heap w) (wk_models w)
     \<and> pending_ok (wk_heap w) (wk_models w) (wk_threads w) (wk_tasks w) \<and> running_ok w"

lemma wk_invI:
  assumes "mm_reach n (wk_mm w)" "owns (wk_heap w) (wk_models w) (wk_mm w)" "models_ok (wk_heap w) (wk_models w)"
    "pending_ok (wk_heap w) (wk_models w) (wk_threads w) (wk_tasks w)" "running_ok w"
  shows "wk_inv n w"
  using assms by (simp add: wk_inv_def)

lemma wk_invD:
  assumes "wk_inv n w"
  shows "mm_reach n (wk_mm w)" "owns (wk_heap w) (wk_models w) (wk_mm w)" "models_ok (wk_heap w) (wk_models w)"
    "pending_ok (wk_heap w) (wk_models w) (wk_threads w) (wk_tasks w)" "running_ok w" "mm_inv (wk_mm w)"
  using assms mm_reach_inv by (auto simp: wk_inv_def)

lemma ownsD:
  assumes "owns H M mm"
  shows "(i, r) \<in> set M \<Longrightarrow> pw_slot (H ! r) = Some s \<Longrightarrow> s < max_prewarm_model \<and> \<not> mm_slots mm ! s \<and> kv_fits (pw_kv_offset (H ! r)) s mm"
    "(i, r) \<in> set M \<Longrightarrow> (i', r') \<in> set M \<Longrightarrow> pw_slot (H ! r) = Some s \<Longrightarrow> pw_slot (H ! r') = Some s \<Longrightarrow> r = r'"
    "s < max_prewarm_model \<Longrightarrow> \<not> mm_slots mm ! s \<Longrightarrow> \<exists>i r. (i, r) \<in> set M \<and> pw_slot (H ! r) = Some s"
  using assms unfolding owns_def by blast+

lemma ownsI:
  assumes "\<And>i r s. (i, r) \<in> set M \<Longrightarrow> pw_slot (H ! r) = Some s \<Longrightarrow> s < max_prewarm_model \<and> \<not> mm_slots mm ! s \<and> kv_fits (pw_kv_offset (H ! r)) s mm"
    "\<And>i r i' r' s. (i, r) \<in> set M \<Longrightarrow> (i', r') \<in> set M \<Longrightarrow> pw_slot (H ! r) = Some s \<Longrightarrow> pw_slot (H ! r') = Some s \<Longrightarrow> r = r'"
    "\<And>s. s < max_prewarm_model \<Longrightarrow> \<not> mm_slots mm ! s \<Longrightarrow> \<exists>i r. (i, r) \<in> set M \<and> pw_slot (H ! r) = Some s"
  shows "owns H M mm"
  using assms unfolding owns_def by blast

lemma init_worker_inv: "wk_inv n (init_worker n)"
proof -
  have "mm_slots (init_manager n) ! s" if "s < max_prewarm_model" for s using that by (simp add: init_manager_def)
  then show ?thesis
    by (auto intro: reach_init simp: wk_inv_def init_worker_def owns_def models_ok_def pending_ok_def running_ok_def)
qed

subsection \<open>Flags and phases\<close>

text \<open>The stop flags of tasks may be raised.\<close>

definition flags_raised :: "load_task list \<Rightarrow> load_task list \<Rightarrow> bool" where
  "flags_raised T T' \<longleftrightarrow> length T' = length T \<and> (\<forall>t < length T. lt_model (T' ! t) = lt_model (T ! t)
     \<and> lt_need_load (T' ! t) = lt_need_load (T ! t) \<and> lt_phase (T' ! t) = lt_phase (T ! t) \<and> (lt_stop (T ! t) \<longrightarrow> lt_stop (T' ! t)))"

lemma flags_raised_trans: "flags_raised T T1 \<Longrightarrow> flags_raised T1 T2 \<Longrightarrow> flags_raised T T2"
  by (simp add: flags_raised_def)

lemma flags_raised_refl: "flags_raised T T"
  by (simp add: flags_raised_def)

lemma nth_upd: "xs[i := x] ! j = (if j = i \<and> i < length xs then x else xs ! j)"
  by (auto simp: nth_list_update list_update_beyond not_less)

lemma flags_raised_one:
  assumes "lt_model (f (T ! t)) = lt_model (T ! t)" "lt_need_load (f (T ! t)) = lt_need_load (T ! t)"
    "lt_phase (f (T ! t)) = lt_phase (T ! t)" "lt_stop (T ! t) \<longrightarrow> lt_stop (f (T ! t))"
  shows "flags_raised T (T[t := f (T ! t)])"
  using assms by (simp add: flags_raised_def nth_upd)

lemma loads_flags:
  assumes "pending_ok H M TH T" and "flags_raised T T'"
  shows "pending_ok H M TH T'"
  using assms by (auto simp: pending_ok_def flags_raised_def load_ok_def live_load_def)

text \<open>A loop that only raises flags.\<close>

definition raises_flags :: "(gpu_worker \<Rightarrow> gpu_worker) \<Rightarrow> bool" where
  "raises_flags f \<longleftrightarrow> (\<forall>w. \<exists>T'. f w = w\<lparr>wk_tasks := T'\<rparr> \<and> flags_raised (wk_tasks w) T')"

lemma raises_flagsI:
  assumes "\<And>w. f w = w \<or> f w = upd_task t g w"
    and "\<And>k. lt_model (g k) = lt_model k \<and> lt_need_load (g k) = lt_need_load k \<and> lt_phase (g k) = lt_phase k \<and> (lt_stop k \<longrightarrow> lt_stop (g k))"
  shows "raises_flags f"
  unfolding raises_flags_def
proof
  fix w
  from assms(1) [of w] show "\<exists>T'. f w = w\<lparr>wk_tasks := T'\<rparr> \<and> flags_raised (wk_tasks w) T'"
  proof
    assume "f w = w"
    then show ?thesis by (intro exI [of _ "wk_tasks w"]) (simp add: flags_raised_refl)
  next
    assume "f w = upd_task t g w"
    then have "f w = w\<lparr>wk_tasks := (wk_tasks w)[t := g (wk_tasks w ! t)]\<rparr>" by (simp add: upd_task_def)
    with flags_raised_one [of g "wk_tasks w" t] assms(2) show ?thesis by blast
  qed
qed

lemma raises_flags_fold:
  assumes "\<And>e. raises_flags (f e)"
  shows "raises_flags (fold f es)"
  unfolding raises_flags_def
proof
  fix w
  show "\<exists>T'. fold f es w = w\<lparr>wk_tasks := T'\<rparr> \<and> flags_raised (wk_tasks w) T'"
  proof (induction es arbitrary: w)
    case Nil
    show ?case by (intro exI [of _ "wk_tasks w"]) (simp add: flags_raised_refl)
  next
    case (Cons e es)
    from assms [of e] obtain T1 where 1: "f e w = w\<lparr>wk_tasks := T1\<rparr>" "flags_raised (wk_tasks w) T1"
      unfolding raises_flags_def by blast
    from Cons [of "f e w"] obtain T2 where 2: "fold f es (f e w) = (f e w)\<lparr>wk_tasks := T2\<rparr>" "flags_raised T1 T2"
      using 1(1) by auto
    show ?case using 1 2 flags_raised_trans by (intro exI [of _ T2]) auto
  qed
qed

lemma stop_flags: "raises_flags (stop_thread key mi e)" "raises_flags (stop_comm_of mi e)" "raises_flags (stop_pending e)"
proof -
  obtain k i t where e: "e = (k, i, t)" by (cases e)
  show "raises_flags (stop_thread key mi e)"
    by (rule raises_flagsI [of _ t "\<lambda>k. if i \<noteq> mi then k\<lparr>lt_stop := True\<rparr> else k\<lparr>lt_stop_comm := True\<rparr>"]) (simp_all add: stop_thread_def e)
  show "raises_flags (stop_comm_of mi e)"
    by (rule raises_flagsI [of _ t "\<lambda>k. k\<lparr>lt_stop_comm := True\<rparr>"]) (simp_all add: stop_comm_of_def e)
  show "raises_flags (stop_pending e)"
    by (rule raises_flagsI [of _ t "\<lambda>k. k\<lparr>lt_stop := True\<rparr>"]) (simp_all add: stop_pending_def Let_def e)
qed

text \<open>After \<open>update_model_info\<close> has gone through the threads, the loads of other models are told to stop.\<close>

lemma stop_threads_stop:
  assumes "fold (stop_thread key mi) es w = w'" and "(key', (i, t)) \<in> set es" and "t < length (wk_tasks w)"
    and "\<not> task_done w t" and "key' \<noteq> key" and "i \<noteq> mi"
  shows "lt_stop (wk_tasks w' ! t)"
  using assms
proof (induction es arbitrary: w)
  case (Cons e es)
  obtain T1 where 1: "stop_thread key mi e w = w\<lparr>wk_tasks := T1\<rparr>" "flags_raised (wk_tasks w) T1"
    using stop_flags(1) unfolding raises_flags_def by blast
  have same: "length T1 = length (wk_tasks w)" "task_done (w\<lparr>wk_tasks := T1\<rparr>) t = task_done w t"
    using 1(2) Cons.prems(3) by (simp_all add: flags_raised_def task_done_def)
  have w': "fold (stop_thread key mi) es (w\<lparr>wk_tasks := T1\<rparr>) = w'" using Cons.prems(1) 1(1) by simp
  show ?case
  proof (cases "(key', (i, t)) \<in> set es")
    case True
    with Cons.IH [OF w'] Cons.prems same show ?thesis by simp
  next
    case False
    then have "e = (key', (i, t))" using Cons.prems(2) by simp
    then have "lt_stop (T1 ! t)" using arg_cong [OF 1(1), of wk_tasks] Cons.prems(3-6)
      by (auto simp: stop_thread_def upd_task_def)
    moreover obtain T2 where "w' = w\<lparr>wk_tasks := T2\<rparr>" "flags_raised T1 T2"
      using raises_flags_fold [where f = "stop_thread key mi" and es = es, OF stop_flags(1), unfolded raises_flags_def, rule_format,
          of "w\<lparr>wk_tasks := T1\<rparr>"] w' by auto
    ultimately show ?thesis using Cons.prems(3) same(1) by (simp add: flags_raised_def)
  qed
qed simp

text \<open>A task moves on.\<close>

lemma pending_phase:
  assumes p: "pending_ok H M TH T" and t: "t < length T" and ph: "ph \<noteq> Queued" "T ! t = k" "lt_phase k \<noteq> Ended"
    and f: "ph \<in> {Fetching, Copying} \<longrightarrow> lt_need_load k" "ph = Fetching \<longrightarrow> lt_phase k = Queued"
  shows "pending_ok H M TH (T[t := k\<lparr>lt_phase := ph\<rparr>])"
proof -
  have k: "load_ok H M TH t k" using p t ph(2) by (auto simp: pending_ok_def)
  have "load_ok H M TH u (T[t := k\<lparr>lt_phase := ph\<rparr>] ! u)" if "u < length T" for u
  proof (cases "u = t")
    case True
    then show ?thesis using k t ph f by (auto simp: load_ok_def live_load_def)
  next
    case False
    then show ?thesis using p that by (simp add: pending_ok_def)
  qed
  then show ?thesis using p ph(2) by (auto simp: pending_ok_def nth_upd)
qed

subsection \<open>Loading\<close>

text \<open>The other models are as before.\<close>

lemma models_upd:
  assumes "models_ok H M" and "pw_info pm = pw_info (H ! r)"
  shows "models_ok (H[r := pm]) M"
  using assms by (auto simp: models_ok_def nth_upd)

lemma pending_upd:
  assumes "pending_ok H M TH T" and "pw_info pm = pw_info (H ! r)"
    and "\<And>t. t < length T \<Longrightarrow> lt_model (T ! t) = r \<Longrightarrow> lt_need_load (T ! t) \<Longrightarrow> lt_phase (T ! t) \<in> {Queued, Fetching} \<Longrightarrow>
      pw_slot pm = None \<and> pw_kv_offset pm = None"
  shows "pending_ok (H[r := pm]) M TH T"
  using assms(1) unfolding pending_ok_def
proof (elim conjE, intro conjI)
  assume all: "\<forall>t < length T. load_ok H M TH t (T ! t)"
  show "\<forall>t < length T. load_ok (H[r := pm]) M TH t (T ! t)"
  proof (intro allI impI)
    fix t assume t: "t < length T"
    then have "load_ok H M TH t (T ! t)" using all by blast
    then show "load_ok (H[r := pm]) M TH t (T ! t)" using assms(2) assms(3) [OF t] by (auto simp: load_ok_def nth_upd)
  qed
qed

lemma owns_upd:
  assumes "owns H M mm" and "pw_slot pm = pw_slot (H ! r)" "pw_kv_offset pm = pw_kv_offset (H ! r)"
  shows "owns (H[r := pm]) M mm"
proof -
  have "pw_slot (H[r := pm] ! x) = pw_slot (H ! x)" "pw_kv_offset (H[r := pm] ! x) = pw_kv_offset (H ! x)" for x
    using assms(2,3) by (simp_all add: nth_upd)
  with assms(1) show ?thesis by (simp add: owns_def)
qed

text \<open>A model changes in what neither slot nor pages depend on.\<close>

lemma upd_pm_inv:
  assumes inv: "wk_inv n w" and f: "\<And>pm. pw_info (f pm) = pw_info pm" "\<And>pm. pw_slot (f pm) = pw_slot pm"
    "\<And>pm. pw_kv_offset (f pm) = pw_kv_offset pm"
  shows "wk_inv n (upd_pm r f w)"
proof (cases "r < length (wk_heap w)")
  case True
  note d = wk_invD [OF inv]
  have "pending_ok ((wk_heap w)[r := f (wk_heap w ! r)]) (wk_models w) (wk_threads w) (wk_tasks w)"
  proof (rule pending_upd [OF d(4)])
    fix t assume "t < length (wk_tasks w)" "lt_model (wk_tasks w ! t) = r" "lt_need_load (wk_tasks w ! t)"
      "lt_phase (wk_tasks w ! t) \<in> {Queued, Fetching}"
    moreover from this d(4) have "load_ok (wk_heap w) (wk_models w) (wk_threads w) t (wk_tasks w ! t)" by (simp add: pending_ok_def)
    ultimately show "pw_slot (f (wk_heap w ! r)) = None \<and> pw_kv_offset (f (wk_heap w ! r)) = None" by (auto simp: load_ok_def f)
  qed (rule f(1))
  then show ?thesis
    using d(1,5) owns_upd [OF d(2) f(2,3), of r] models_upd [OF d(3) f(1), of r]
    by (simp add: wk_inv_def upd_pm_def running_ok_def)
next
  case False
  with inv show ?thesis by (simp add: upd_pm_def list_update_beyond)
qed

lemma set_phase_inv:
  assumes inv: "wk_inv n w" and t: "t < length (wk_tasks w)" and ph: "ph \<noteq> Queued" "lt_phase (wk_tasks w ! t) \<noteq> Ended"
    and f: "ph \<in> {Fetching, Copying} \<Longrightarrow> lt_need_load (wk_tasks w ! t)" "ph = Fetching \<Longrightarrow> lt_phase (wk_tasks w ! t) = Queued"
  shows "wk_inv n (set_phase ph t w)"
proof -
  have "pending_ok (wk_heap w) (wk_models w) (wk_threads w) ((wk_tasks w)[t := (wk_tasks w ! t)\<lparr>lt_phase := ph\<rparr>])"
    by (rule pending_phase [OF wk_invD(4) [OF inv] t ph(1) refl ph(2)]) (use f in auto)
  then show ?thesis using inv by (simp add: wk_inv_def set_phase_def upd_task_def running_ok_def)
qed

text \<open>Taking a slot for a model that has none.\<close>

lemma owns_take:
  assumes o: "owns H M mm" and inv: "mm_inv mm" and r: "(i, r) \<in> set M" "r < length H" and none: "pw_slot (H ! r) = None"
    and distinct: "distinct (map snd M)"
    and a: "allocate_prewarm_slot mm = Inr (s, mm1)" and pm: "pw_slot pm = Some s" "pw_kv_offset pm = None"
  shows "owns (H[r := pm]) M mm1" and "s < max_prewarm_model" "\<not> mm_slots mm1 ! s" "mm_ids mm1 ! s = []" "mm_released mm1 ! s = []"
proof -
  note al = allocate_prewarm_slot_inv [OF inv a]
  then show s: "s < max_prewarm_model" "\<not> mm_slots mm1 ! s" "mm_ids mm1 ! s = []" by simp_all
  have mm1: "mm1 = mm\<lparr>mm_slots := (mm_slots mm)[s := False]\<rparr>" using a by (auto simp: allocate_prewarm_slot_def split: list.splits)
  show rel: "mm_released mm1 ! s = []" using mm_invD(7) [OF inv s(1)] al by (simp add: mm1)
  have free: "mm_slots mm ! s" using al by simp
  have other: "pw_slot (H ! x) \<noteq> Some s" if "(j, x) \<in> set M" for j x using ownsD(1) [OF o that, of s] free by auto
  have fits: "kv_fits k x mm1 = kv_fits k x mm" for k x by (simp add: kv_fits_def mm1 split: option.split)
  show "owns (H[r := pm]) M mm1"
  proof (rule ownsI)
    fix j x k assume jx: "(j, x) \<in> set M" "pw_slot (H[r := pm] ! x) = Some k"
    show "k < max_prewarm_model \<and> \<not> mm_slots mm1 ! k \<and> kv_fits (pw_kv_offset (H[r := pm] ! x)) k mm1"
    proof (cases "x = r")
      case True
      then have "k = s" using jx(2) pm(1) r(2) by simp
      then show ?thesis using s(1,2) True pm(2) r(2) rel by (simp add: kv_fits_def)
    next
      case False
      then have "pw_slot (H ! x) = Some k" using jx(2) by simp
      with ownsD(1) [OF o jx(1)] other [OF jx(1)] False show ?thesis by (auto simp: fits) (simp add: mm1 nth_upd)
    qed
  next
    fix j x j' x' k
    assume "(j, x) \<in> set M" "(j', x') \<in> set M" "pw_slot (H[r := pm] ! x) = Some k" "pw_slot (H[r := pm] ! x') = Some k"
    then show "x = x'" using ownsD(2) [OF o, of j x j' x' k] other [of j x] other [of j' x'] pm(1) r(2)
      by (auto simp: nth_upd split: if_splits)
  next
    fix k assume k: "k < max_prewarm_model" "\<not> mm_slots mm1 ! k"
    show "\<exists>j x. (j, x) \<in> set M \<and> pw_slot (H[r := pm] ! x) = Some k"
    proof (cases "k = s")
      case True
      then show ?thesis using r pm(1) by (intro exI [of _ i] exI [of _ r]) simp
    next
      case False
      then have "\<not> mm_slots mm ! k" using k(2) by (simp add: mm1)
      from ownsD(3) [OF o k(1) this] obtain j x where "(j, x) \<in> set M" "pw_slot (H ! x) = Some k" by blast
      moreover from this none have "x \<noteq> r" by auto
      ultimately show ?thesis by (intro exI [of _ j] exI [of _ x]) simp
    qed
  qed
qed

lemma owns_alloc:
  assumes o: "owns H M mm" and inv: "mm_inv mm" and s: "s < max_prewarm_model" "\<not> mm_slots mm ! s" and sz: "0 \<le> sz"
    and a: "allocate_blocks s sz sync kv mm = Inr (off, got, mm')"
  shows "owns H M mm'" "mm_step mm mm'" "off = length (mm_ids mm ! s) * mm_block_size"
    "got = int (length (mm_ids mm' ! s) - length (mm_ids mm ! s)) * int mm_block_size" "mm_released mm' = mm_released mm"
    "mm_slots mm' = mm_slots mm"
proof -
  show "mm_step mm mm'" by (rule step_allocate [OF s sz a])
  from mm_allocate_blocks_ok [OF inv s sz allocate_blocks_fits [OF a], of sync kv] a obtain new where
    m: "mm_ids mm' = (mm_ids mm)[s := mm_ids mm ! s @ new]" "mm_released mm' = mm_released mm" "mm_slots mm' = mm_slots mm"
      "int (length new) = blocks_for mm sz" "got = blocks_for mm sz * int mm_block_size"
      "off = length (mm_ids mm ! s) * mm_block_size" by auto
  have "length (mm_ids mm) = max_prewarm_model" using inv by (simp add: mm_inv_def mm_shape_def)
  then show "off = length (mm_ids mm ! s) * mm_block_size" "mm_released mm' = mm_released mm" "mm_slots mm' = mm_slots mm"
    "got = int (length (mm_ids mm' ! s) - length (mm_ids mm ! s)) * int mm_block_size"
    using m s(1) by simp_all
  have "length (mm_ids mm ! x) \<le> length (mm_ids mm' ! x)" for x by (simp add: m(1) nth_upd)
  then have "kv_fits k x mm \<Longrightarrow> kv_fits k x mm'" for k x
    by (auto simp: kv_fits_def m(2) split: option.splits intro: order_trans mult_le_mono1)
  then show "owns H M mm'" using o unfolding owns_def m(3) by blast
qed

lemma allocate_model_inv:
  assumes inv: "wk_inv n w" and t: "t < length (wk_tasks w)" and ph: "lt_phase (wk_tasks w ! t) = Fetching"
  shows "wk_inv n (allocate_model en t w)"
proof -
  let ?k = "wk_tasks w ! t" let ?r = "lt_model ?k" let ?H = "wk_heap w"
  note d = wk_invD [OF inv]
  have lo: "load_ok ?H (wk_models w) (wk_threads w) t ?k" using d(4) t by (simp add: pending_ok_def)
  have phases: "wk_inv n (set_phase ph' t w')" if "wk_inv n w'" "wk_tasks w' = wk_tasks w" "ph' \<in> {Ended, Copying}" for ph' w'
    by (rule set_phase_inv [OF that(1)]) (use that(2,3) t ph lo in \<open>auto simp: load_ok_def\<close>)
  show ?thesis
  proof (cases "lt_stop ?k")
    case True
    then show ?thesis using phases [OF inv] by (simp add: allocate_model_def Let_def)
  next
    case False
    then have M: "(pw_info (?H ! ?r), ?r) \<in> set (wk_models w)" and r: "?r < length ?H" and
      none: "pw_slot (?H ! ?r) = None" "pw_kv_offset (?H ! ?r) = None" and nl: "lt_need_load ?k"
      using lo ph by (auto simp: load_ok_def live_load_def)
    have uniq: "u = t" if "u < length (wk_tasks w)" "lt_need_load (wk_tasks w ! u)" "lt_model (wk_tasks w ! u) = ?r" for u
      using d(4) t that nl by (auto simp: pending_ok_def)
    have dist: "distinct (map snd (wk_models w))" using d(3) by (simp add: models_ok_def)
    have locked: "wk_inv n (upd_pm ?r (\<lambda>pm. pm\<lparr>pw_locked := True\<rparr>) w')" if "wk_inv n w'" for w'
      by (rule upd_pm_inv [OF that]) simp_all
    show ?thesis
    proof (cases "allocate_prewarm_slot (wk_mm w)")
      case (Inl e)
      then show ?thesis using False phases [OF locked [OF inv]] by (simp add: allocate_model_def Let_def upd_pm_def)
    next
      case (Inr x)
      obtain slot mm1 where x: "x = (slot, mm1)" by fastforce
      have a: "allocate_prewarm_slot (wk_mm w) = Inr (slot, mm1)" using Inr x by simp
      have r1: "mm_reach n mm1" by (rule reach_step [OF d(1) step_allocate_slot [OF a]])
      let ?pm = "(?H ! ?r)\<lparr>pw_slot := Some slot\<rparr>"
      have o1: "owns (?H[?r := ?pm]) (wk_models w) mm1" and s: "slot < max_prewarm_model" "\<not> mm_slots mm1 ! slot" "mm_ids mm1 ! slot = []"
        "mm_released mm1 ! slot = []"
        using owns_take [OF d(2,6) M r none(1) dist a, of ?pm] none(2) by simp_all
      define w1 where "w1 = upd_pm ?r (\<lambda>pm. pm\<lparr>pw_slot := Some slot\<rparr>) (w\<lparr>wk_mm := mm1\<rparr>)"
      have w1: "wk_heap w1 = ?H[?r := ?pm]" "wk_mm w1 = mm1" "wk_models w1 = wk_models w" "wk_tasks w1 = wk_tasks w"
        "wk_threads w1 = wk_threads w" "wk_running w1 = wk_running w" by (simp_all add: w1_def upd_pm_def)
      text \<open>The task leaves the phase in which its model must have no slot.\<close>
      have step: "wk_inv n (set_phase ph' t (w1\<lparr>wk_mm := mm', wk_heap := ?H[?r := pm']\<rparr>))"
        if "ph' \<in> {Ended, Copying}" "mm_reach n mm'" "owns (?H[?r := pm']) (wk_models w) mm'" "pw_info pm' = pw_info (?H ! ?r)" for ph' mm' pm'
      proof -
        have "pending_ok ?H (wk_models w) (wk_threads w) ((wk_tasks w)[t := ?k\<lparr>lt_phase := ph'\<rparr>])"
          by (rule pending_phase [OF d(4) t]) (use that(1) ph nl in auto)
        then have "pending_ok (?H[?r := pm']) (wk_models w) (wk_threads w) ((wk_tasks w)[t := ?k\<lparr>lt_phase := ph'\<rparr>])"
          by (rule pending_upd [OF _ that(4)]) (use uniq that(1) in \<open>auto simp: nth_upd split: if_splits\<close>)
        then show ?thesis using that(2,3) models_upd [OF d(3) that(4)] d(5)
          by (simp add: wk_inv_def set_phase_def upd_task_def w1 running_ok_def)
      qed
      let ?sz = "int (we_num_ele en (unify_name (model_name (pw_info (?H ! ?r)))) (mi_rank (pw_info (?H ! ?r)))) * 2"
      show ?thesis
      proof (cases "allocate_blocks slot ?sz True False mm1")
        case (Inl e)
        have "owns (?H[?r := ?pm\<lparr>pw_locked := True\<rparr>]) (wk_models w) mm1"
          using owns_upd [OF o1, of "?pm\<lparr>pw_locked := True\<rparr>" ?r] r by simp
        from step [OF _ r1 this, of Ended] show ?thesis using False a Inl r
          by (simp add: allocate_model_def Let_def upd_pm_def w1_def)
      next
        case (Inr y)
        obtain off got mm2 where y: "y = (off, got, mm2)" by (cases y) auto
        have b: "allocate_blocks slot ?sz True False mm1 = Inr (off, got, mm2)" using Inr y by simp
        note oa = owns_alloc [OF o1 mm_reach_inv [OF r1, THEN conjunct1] s(1,2) _ b, simplified]
        have r2: "mm_reach n mm2" by (rule reach_step [OF r1 oa(2)])
        have off: "off = 0" using oa(3) s(3) by simp
        have got: "got = int (length (mm_ids mm2 ! slot)) * int mm_block_size" using oa(4) s(3) by simp
        let ?pm2 = "?pm\<lparr>pw_kv_offset := Some got\<rparr>"
        have nat: "nat got = length (mm_ids mm2 ! slot) * mm_block_size" unfolding got by (metis nat_int of_nat_mult)
        have fits: "kv_fits (Some got) slot mm2" using s(4) oa(5) by (simp add: kv_fits_def nat)
        have "owns (?H[?r := ?pm2]) (wk_models w) mm2"
        proof (rule ownsI)
          fix i x k assume ix: "(i, x) \<in> set (wk_models w)" "pw_slot (?H[?r := ?pm2] ! x) = Some k"
          then have "pw_slot (?H[?r := ?pm] ! x) = Some k" using r by (auto simp: nth_upd split: if_splits)
          from ownsD(1) [OF oa(1) ix(1) this] ix(2) fits r show "k < max_prewarm_model \<and> \<not> mm_slots mm2 ! k \<and>
              kv_fits (pw_kv_offset (?H[?r := ?pm2] ! x)) k mm2" by (auto simp: nth_upd split: if_splits)
        next
          fix i x i' x' k assume "(i, x) \<in> set (wk_models w)" "(i', x') \<in> set (wk_models w)"
            "pw_slot (?H[?r := ?pm2] ! x) = Some k" "pw_slot (?H[?r := ?pm2] ! x') = Some k"
          then show "x = x'" using ownsD(2) [OF oa(1), of i x i' x' k] r by (auto simp: nth_upd split: if_splits)
        next
          fix k assume "k < max_prewarm_model" "\<not> mm_slots mm2 ! k"
          from ownsD(3) [OF oa(1) this] r show "\<exists>i x. (i, x) \<in> set (wk_models w) \<and> pw_slot (?H[?r := ?pm2] ! x) = Some k"
            by (auto simp: nth_upd split: if_splits)
        qed
        from step [OF _ r2 this, of Copying] show ?thesis using False a b off r
          by (simp add: allocate_model_def Let_def upd_pm_def w1_def)
      qed
    qed
  qed
qed

lemma task_step_inv:
  assumes inv: "wk_inv n w" and a: "active_task w t"
  shows "wk_inv n (task_step en established t w)"
proof -
  let ?k = "wk_tasks w ! t"
  have t: "t < length (wk_tasks w)" and ne: "lt_phase ?k \<noteq> Ended" using a by (simp_all add: active_task_def task_done_def)
  have ended: "wk_inv n (set_phase Ended t w')" if "wk_inv n w'" "wk_tasks w' = wk_tasks w" for w'
    by (rule set_phase_inv [OF that(1)]) (use that(2) t ne in auto)
  have conn: "wk_inv n (set_phase Connecting t w)" by (rule set_phase_inv [OF inv t _ ne]) auto
  have fetch: "wk_inv n (set_phase Fetching t w)" if "lt_phase ?k = Queued" "lt_need_load ?k"
    by (rule set_phase_inv [OF inv t _ ne]) (use that in auto)
  have loaded: "wk_inv n (upd_pm r (\<lambda>pm. pm\<lparr>pw_loaded := (pw_loaded pm)(x \<mapsto> True)\<rparr>) w)" for r x
    by (rule upd_pm_inv [OF inv]) simp_all
  show ?thesis
    using inv ended [OF inv] ended [OF loaded] conn fetch allocate_model_inv [OF inv t]
    by (cases "lt_phase ?k") (simp_all add: task_step_def Let_def upd_pm_def)
qed

end
