(* ===== verification/Worker_Thms.thy ===== *)
theory Worker_Thms
  imports Worker_Inv
begin

text \<open>Every operation of a worker keeps the invariant; the conclusions for the states that a worker reaches.\<close>

subsection \<open>Starting a load\<close>

definition load_key :: "worker_env \<Rightarrow> model_info \<Rightarrow> nat list \<Rightarrow> int" where
  "load_key en mi worker_ids = we_hash_key en (model_name mi, worker_ids)"

text \<open>
  What the controller owes: a key stands for one model, and a load is not started again under a key
  whose first load may still take a slot.
\<close>

definition key_fits :: "worker_env \<Rightarrow> model_info \<Rightarrow> nat list \<Rightarrow> gpu_worker \<Rightarrow> bool" where
  "key_fits en mi worker_ids w \<longleftrightarrow> (\<forall>i t. map_of (wk_threads w) (load_key en mi worker_ids) = Some (i, t) \<longrightarrow> i = mi)"

definition key_free :: "worker_env \<Rightarrow> model_info \<Rightarrow> nat list \<Rightarrow> gpu_worker \<Rightarrow> bool" where
  "key_free en mi worker_ids w \<longleftrightarrow> (\<forall>i t. map_of (wk_threads w) (load_key en mi worker_ids) = Some (i, t) \<longrightarrow> \<not> live_load (wk_tasks w ! t))"

lemma update_subset: "set (AList.update k v xs) \<subseteq> insert (k, v) (set xs)"
  by (induction xs) auto

lemma submit_inv:
  assumes inv: "wk_inv n w" and r: "(mi, r) \<in> set (wk_models w)" and free: "key_free en mi worker_ids w"
    and new: "need \<Longrightarrow> pw_slot (wk_heap w ! r) = None \<and> pw_kv_offset (wk_heap w ! r) = None \<and> (\<forall>k \<in> set (wk_tasks w). lt_model k \<noteq> r)"
  shows "wk_inv n (submit_load en need mi worker_ids r world w)"
proof -
  note d = wk_invD [OF inv]
  let ?H = "wk_heap w" and ?M = "wk_models w" and ?T = "wk_tasks w"
  let ?k = "\<lparr>lt_model = r, lt_need_load = need, lt_world = world, lt_stop = False, lt_stop_comm = False, lt_phase = Queued\<rparr>"
  let ?key = "load_key en mi worker_ids"
  let ?TH = "AList.update ?key (mi, length ?T) (wk_threads w)"
  have rH: "r < length ?H" "pw_info (?H ! r) = mi" using d(3) r by (auto simp: models_ok_def)
  have old: "load_ok ?H ?M (wk_threads w) t (?T ! t)" if "t < length ?T" for t using d(4) that by (simp add: pending_ok_def)
  have all: "load_ok ?H ?M ?TH t ((?T @ [?k]) ! t)" if "t < Suc (length ?T)" for t
  proof (cases "t = length ?T")
    case True
    then show ?thesis using rH r new by (auto simp: load_ok_def update_conv)
  next
    case False
    then have t: "t < length ?T" using that by simp
    have "\<exists>key. map_of ?TH key = Some (pw_info (?H ! lt_model (?T ! t)), t)" if live: "live_load (?T ! t)"
    proof -
      obtain key where key: "map_of (wk_threads w) key = Some (pw_info (?H ! lt_model (?T ! t)), t)"
        using old [OF t] live by (auto simp: load_ok_def)
      then have "key \<noteq> ?key" using free live by (auto simp: key_free_def)
      then show ?thesis using key by (intro exI [of _ key]) (simp add: update_conv)
    qed
    then show ?thesis using old [OF t] t by (auto simp: load_ok_def nth_append)
  qed
  have uniq: "t = u" if "t < Suc (length ?T)" "u < Suc (length ?T)" "lt_need_load ((?T @ [?k]) ! t)" "lt_need_load ((?T @ [?k]) ! u)"
    "lt_model ((?T @ [?k]) ! t) = lt_model ((?T @ [?k]) ! u)" for t u
    using that d(4) new by (auto simp: nth_append less_Suc_eq pending_ok_def split: if_splits)
  have "set ?TH \<subseteq> insert (?key, (mi, length ?T)) (set (wk_threads w))" by (rule update_subset)
  moreover have "\<forall>(key, (i, t)) \<in> set (wk_threads w). t < length ?T" and "distinct (map fst (wk_threads w))"
    using d(4) by (simp_all add: pending_ok_def)
  ultimately have "\<forall>(key, (i, t)) \<in> set ?TH. t < Suc (length ?T)" "distinct (map fst ?TH)"
    using distinct_update by (fastforce simp: less_Suc_eq)+
  with all uniq have "pending_ok ?H ?M ?TH (?T @ [?k])" by (simp add: pending_ok_def)
  then show ?thesis using d by (simp add: wk_inv_def submit_load_def running_ok_def load_key_def)
qed

lemma new_model_inv:
  assumes inv: "wk_inv n w" and new: "map_of (wk_models w) mi = None"
  shows "wk_inv n (w\<lparr>wk_heap := wk_heap w @ [new_prewarm_model en mi worker_ids world],
    wk_models := wk_models w @ [(mi, length (wk_heap w))]\<rparr>)"
proof -
  note d = wk_invD [OF inv]
  let ?H = "wk_heap w" and ?M = "wk_models w"
  let ?pm = "new_prewarm_model en mi worker_ids world"
  have M: "r < length ?H" if "(i, r) \<in> set ?M" for i r using d(3) that by (auto simp: models_ok_def)
  have pm: "pw_slot ?pm = None" "pw_kv_offset ?pm = None" "pw_info ?pm = mi" by (simp_all add: new_prewarm_model_def)
  have "owns (?H @ [?pm]) (?M @ [(mi, length ?H)]) (wk_mm w)"
  proof (rule ownsI)
    fix i r s assume "(i, r) \<in> set (?M @ [(mi, length ?H)])" "pw_slot ((?H @ [?pm]) ! r) = Some s"
    then show "s < max_prewarm_model \<and> \<not> mm_slots (wk_mm w) ! s \<and> kv_fits (pw_kv_offset ((?H @ [?pm]) ! r)) s (wk_mm w)"
      using M [of i r] ownsD(1) [OF d(2), of i r s] by (auto simp: pm nth_append)
  next
    fix i r i' r' s assume "(i, r) \<in> set (?M @ [(mi, length ?H)])" "(i', r') \<in> set (?M @ [(mi, length ?H)])"
      "pw_slot ((?H @ [?pm]) ! r) = Some s" "pw_slot ((?H @ [?pm]) ! r') = Some s"
    then show "r = r'" using M [of i r] M [of i' r'] ownsD(2) [OF d(2), of i r i' r' s] by (auto simp: pm nth_append)
  next
    fix s assume "s < max_prewarm_model" "\<not> mm_slots (wk_mm w) ! s"
    from ownsD(3) [OF d(2) this] M show "\<exists>i r. (i, r) \<in> set (?M @ [(mi, length ?H)]) \<and> pw_slot ((?H @ [?pm]) ! r) = Some s"
      by (fastforce simp: nth_append)
  qed
  moreover have "mi \<notin> fst ` set ?M" using new by (simp add: map_of_eq_None_iff)
  then have "models_ok (?H @ [?pm]) (?M @ [(mi, length ?H)])"
    using d(3) M by (auto simp: models_ok_def nth_append pm)
  moreover have "load_ok (?H @ [?pm]) (?M @ [(mi, length ?H)]) (wk_threads w) t k" if "load_ok ?H ?M (wk_threads w) t k" for t k
    using that by (auto simp: load_ok_def nth_append)
  then have "pending_ok (?H @ [?pm]) (?M @ [(mi, length ?H)]) (wk_threads w) (wk_tasks w)"
    using d(4) by (simp add: pending_ok_def)
  ultimately show ?thesis using d(1,5) by (auto simp: wk_inv_def running_ok_def)
qed

lemma flags_inv:
  assumes "wk_inv n w" and "raises_flags f"
  shows "wk_inv n (f w)" "\<exists>T'. f w = w\<lparr>wk_tasks := T'\<rparr> \<and> flags_raised (wk_tasks w) T'"
proof -
  show "\<exists>T'. f w = w\<lparr>wk_tasks := T'\<rparr> \<and> flags_raised (wk_tasks w) T'" using assms(2) by (simp add: raises_flags_def)
  then obtain T' where "f w = w\<lparr>wk_tasks := T'\<rparr>" "flags_raised (wk_tasks w) T'" by blast
  then show "wk_inv n (f w)" using assms(1) loads_flags by (auto simp: wk_inv_def running_ok_def)
qed

lemma load_model_inv:
  assumes inv: "wk_inv n w" and free: "key_free en mi worker_ids w"
  shows "wk_inv n (wk_load_model en mi worker_ids world w)"
proof (cases "map_of (wk_models w) mi")
  case None
  let ?w = "w\<lparr>wk_heap := wk_heap w @ [new_prewarm_model en mi worker_ids world], wk_models := wk_models w @ [(mi, length (wk_heap w))]\<rparr>"
  have "lt_model k \<noteq> length (wk_heap w)" if "k \<in> set (wk_tasks w)" for k
    using wk_invD(4) [OF inv] that by (auto simp: pending_ok_def load_ok_def in_set_conv_nth)
  then have "wk_inv n (submit_load en True mi worker_ids (length (wk_heap w)) world ?w)"
    by (intro submit_inv [OF new_model_inv [OF inv None]]) (use free in \<open>auto simp: key_free_def new_prewarm_model_def\<close>)
  then show ?thesis using None by (simp add: wk_load_model_def Let_def)
next
  case (Some r)
  let ?f = "\<lambda>pm. snd (add_world en worker_ids world pm)"
  define w1 where "w1 = upd_pm r (\<lambda>_. ?f (wk_heap w ! r)) w"
  have "w1 = upd_pm r ?f w" by (simp add: w1_def upd_pm_def)
  then have i1: "wk_inv n w1" using upd_pm_inv [OF inv, of ?f r] by (simp add: add_world_def Let_def)
  define w2 where "w2 = (if fst (add_world en worker_ids world (wk_heap w ! r)) then fold (stop_comm_of mi) (wk_threads w1) w1 else w1)"
  have fl: "raises_flags (fold (stop_comm_of mi) (wk_threads w1))" by (rule raises_flags_fold [OF stop_flags(2)])
  have i2: "wk_inv n w2" using i1 flags_inv(1) [OF i1 fl] by (simp add: w2_def)
  have "\<exists>T'. w2 = w1\<lparr>wk_tasks := T'\<rparr> \<and> flags_raised (wk_tasks w1) T'"
  proof (cases "fst (add_world en worker_ids world (wk_heap w ! r))")
    case False
    then show ?thesis by (intro exI [of _ "wk_tasks w1"]) (simp add: w2_def flags_raised_refl)
  qed (use flags_inv(2) [OF i1 fl] in \<open>simp add: w2_def\<close>)
  then obtain T' where T': "w2 = w1\<lparr>wk_tasks := T'\<rparr>" "flags_raised (wk_tasks w) T'"
    by (auto simp: w1_def upd_pm_def)
  have valid: "\<forall>(key, (i, t)) \<in> set (wk_threads w). t < length (wk_tasks w)" using wk_invD(4) [OF inv] by (simp add: pending_ok_def)
  have "key_free en mi worker_ids w2"
    unfolding key_free_def
  proof (intro allI impI)
    fix i t assume "map_of (wk_threads w2) (load_key en mi worker_ids) = Some (i, t)"
    then have m: "map_of (wk_threads w) (load_key en mi worker_ids) = Some (i, t)" by (simp add: T'(1) w1_def upd_pm_def)
    then have "t < length (wk_tasks w)" using valid map_of_SomeD by fastforce
    moreover have "\<not> live_load (wk_tasks w ! t)" using free m by (simp add: key_free_def)
    ultimately show "\<not> live_load (wk_tasks w2 ! t)" using T' by (auto simp: live_load_def flags_raised_def)
  qed
  moreover have "(mi, r) \<in> set (wk_models w2)" using map_of_SomeD [OF Some] by (simp add: T'(1) w1_def upd_pm_def)
  ultimately have "wk_inv n (submit_load en False mi worker_ids r world w2)" by (intro submit_inv [OF i2]) simp_all
  moreover have "wk_load_model en mi worker_ids world w = submit_load en False mi worker_ids r world w2"
    by (simp add: wk_load_model_def Some Let_def w2_def w1_def case_prod_beta)
  ultimately show ?thesis by simp
qed

subsection \<open>Giving models up\<close>

lemma owns_free:
  assumes o: "owns H M mm" and inv: "mm_inv mm" and M: "set M = insert (i, r) (set M')" "r \<notin> snd ` set M'"
    and s: "pw_slot (H ! r) = Some s" and f: "free_prewarm_slot s mm = Inr mm'"
  shows "owns H M' mm'" and "mm_step mm mm'"
proof -
  have r: "(i, r) \<in> set M" using M(1) by simp
  have lt: "s < max_prewarm_model" using ownsD(1) [OF o r s] by simp
  show "mm_step mm mm'" by (rule step_free_slot [OF lt f])
  from free_prewarm_slot_ok [OF inv lt] f have m: "mm_slots mm' ! s"
    "\<And>k. k \<noteq> s \<Longrightarrow> mm_ids mm' ! k = mm_ids mm ! k \<and> mm_released mm' ! k = mm_released mm ! k \<and> mm_slots mm' ! k = mm_slots mm ! k" by auto
  have other: "k \<noteq> s" if "(j, x) \<in> set M'" "pw_slot (H ! x) = Some k" for j x k
    using ownsD(2) [OF o r, of j x s] that M s by (force simp: image_iff)
  show "owns H M' mm'"
  proof (rule ownsI)
    fix j x k assume jx: "(j, x) \<in> set M'" "pw_slot (H ! x) = Some k"
    then have "(j, x) \<in> set M" using M(1) by simp
    from ownsD(1) [OF o this jx(2)] m(2) [OF other [OF jx]] show "k < max_prewarm_model \<and> \<not> mm_slots mm' ! k \<and> kv_fits (pw_kv_offset (H ! x)) k mm'"
      by (simp add: kv_fits_def split: option.splits)
  next
    fix j x j' x' k assume "(j, x) \<in> set M'" "(j', x') \<in> set M'" "pw_slot (H ! x) = Some k" "pw_slot (H ! x') = Some k"
    then show "x = x'" using ownsD(2) [OF o, of j x j' x' k] M(1) by simp
  next
    fix k assume k: "k < max_prewarm_model" "\<not> mm_slots mm' ! k"
    then have ks: "k \<noteq> s" using m(1) by auto
    then have "\<not> mm_slots mm ! k" using k(2) m(2) by simp
    from ownsD(3) [OF o k(1) this] obtain j x where jx: "(j, x) \<in> set M" "pw_slot (H ! x) = Some k" by blast
    then have "(j, x) \<noteq> (i, r)" using ks s by auto
    then show "\<exists>j x. (j, x) \<in> set M' \<and> pw_slot (H ! x) = Some k" using jx M(1) by blast
  qed
qed

lemma owns_drop:
  assumes o: "owns H M mm" and M: "set M = insert (i, r) (set M')" and s: "pw_slot (H ! r) = None"
  shows "owns H M' mm"
proof (rule ownsI)
  fix k assume "k < max_prewarm_model" "\<not> mm_slots mm ! k"
  from ownsD(3) [OF o this] obtain j x where jx: "(j, x) \<in> set M" "pw_slot (H ! x) = Some k" by blast
  then have "(j, x) \<noteq> (i, r)" using s by auto
  then show "\<exists>j x. (j, x) \<in> set M' \<and> pw_slot (H ! x) = Some k" using jx M by blast
qed (use ownsD(1,2) [OF o] M in \<open>blast+\<close>)

lemma destroy_one:
  assumes reach: "mm_reach n (wk_mm w)" and o: "owns (wk_heap w) (kept @ (i, r) # es) (wk_mm w)"
    and dist: "distinct (map snd (kept @ (i, r) # es))"
  obtains mm where "destroy r w = Inr (w\<lparr>wk_mm := mm\<rparr>)" "mm_reach n mm" "owns (wk_heap w) (kept @ es) mm"
proof -
  have M: "set (kept @ (i, r) # es) = insert (i, r) (set (kept @ es))" "r \<notin> snd ` set (kept @ es)"
    using dist by (auto simp: image_iff)
  show ?thesis
  proof (cases "pw_slot (wk_heap w ! r)")
    case None
    then show ?thesis using reach owns_drop [OF o M(1) None] by (intro that [of "wk_mm w"]) (simp_all add: destroy_def)
  next
    case (Some s)
    have inv: "mm_inv (wk_mm w)" using mm_reach_inv [OF reach] by simp
    have "s < max_prewarm_model" using ownsD(1) [OF o _ Some, of i] by simp
    from free_prewarm_slot_ok [OF inv this] obtain mm where mm: "free_prewarm_slot s (wk_mm w) = Inr mm" by blast
    note fr = owns_free [OF o inv M Some mm]
    show ?thesis using that [OF _ reach_step [OF reach fr(2)] fr(1)] Some mm by (simp add: destroy_def)
  qed
qed

lemma destroy_others:
  assumes "mm_reach n (wk_mm w)" and "owns (wk_heap w) (kept @ es) (wk_mm w)" and "distinct (map snd (kept @ es))"
  shows "\<exists>mm. fold_r (destroy_other mi) es (kept, w) = Inr (kept @ filter (\<lambda>e. fst e = mi) es, w\<lparr>wk_mm := mm\<rparr>)
    \<and> mm_reach n mm \<and> owns (wk_heap w) (kept @ filter (\<lambda>e. fst e = mi) es) mm"
  using assms
proof (induction es arbitrary: kept w)
  case Nil
  then show ?case by (intro exI [of _ "wk_mm w"]) simp
next
  case (Cons e es)
  obtain i r where e: "e = (i, r)" by fastforce
  show ?case
  proof (cases "i = mi")
    case True
    then have "destroy_other mi e (kept, w) = Inr (kept @ [e], w)" by (simp add: destroy_other_def e)
    with Cons.IH [of w "kept @ [e]"] Cons.prems show ?thesis using True by (simp add: e)
  next
    case False
    obtain mm where mm: "destroy r w = Inr (w\<lparr>wk_mm := mm\<rparr>)" "mm_reach n mm" "owns (wk_heap w) (kept @ es) mm"
      by (rule destroy_one [OF Cons.prems [unfolded e]])
    have "destroy_other mi e (kept, w) = Inr (kept, w\<lparr>wk_mm := mm\<rparr>)" using False mm(1) by (simp add: destroy_other_def e)
    moreover have "distinct (map snd (kept @ es))" using Cons.prems(3) by (auto simp: e)
    ultimately show ?thesis using Cons.IH [of "w\<lparr>wk_mm := mm\<rparr>" kept] mm(2,3) False by (simp add: e)
  qed
qed

lemma update_inv:
  assumes inv: "wk_inv n w" and key: "key_fits en mi worker_ids w" and idle: "wk_running w = None"
  obtains w' where "update_model_info en mi worker_ids w = Inr w'" "wk_inv n w'" "\<forall>(i, r) \<in> set (wk_models w'). i = mi"
proof -
  let ?key = "load_key en mi worker_ids"
  define w1 where "w1 = w\<lparr>wk_info := Some mi, wk_ids := Some worker_ids\<rparr>"
  define w2 where "w2 = fold (stop_thread ?key mi) (wk_threads w) w1"
  have i1: "wk_inv n w1" using inv by (simp add: wk_inv_def w1_def running_ok_def)
  have fl: "raises_flags (fold (stop_thread ?key mi) (wk_threads w))" by (rule raises_flags_fold [OF stop_flags(1)])
  have i2: "wk_inv n w2" unfolding w2_def by (rule flags_inv(1) [OF i1 fl])
  obtain T' where T': "w2 = w1\<lparr>wk_tasks := T'\<rparr>" "flags_raised (wk_tasks w) T'"
    using flags_inv(2) [OF i1 fl] by (auto simp: w2_def w1_def)
  note d = wk_invD [OF i2]
  have dist: "distinct (map snd (wk_models w2))" using d(3) by (simp add: models_ok_def)
  define kept where "kept = filter (\<lambda>e. fst e = mi) (wk_models w2)"
  obtain mm where f: "fold_r (destroy_other mi) (wk_models w2) ([], w2) = Inr (kept, w2\<lparr>wk_mm := mm\<rparr>)"
    and mm: "mm_reach n mm" "owns (wk_heap w2) kept mm"
    using destroy_others [OF d(1), of "[]" "wk_models w2" mi] d(2) dist by (auto simp: kept_def)
  define w' where "w' = w2\<lparr>wk_mm := mm, wk_models := kept\<rparr>"
  have u: "update_model_info en mi worker_ids w = Inr w'"
    using f by (simp add: update_model_info_def w'_def w2_def w1_def load_key_def)
  have live: "(pw_info (wk_heap w2 ! lt_model k), lt_model k) \<in> set kept" if t: "t < length T'" "T' ! t = k" "live_load k" for t k
  proof -
    have lo: "load_ok (wk_heap w2) (wk_models w2) (wk_threads w2) t k" using d(4) t by (auto simp: pending_ok_def T'(1))
    then have M: "(pw_info (wk_heap w2 ! lt_model k), lt_model k) \<in> set (wk_models w2)" using t(3) by (simp add: load_ok_def)
    obtain key' where key': "map_of (wk_threads w) key' = Some (pw_info (wk_heap w2 ! lt_model k), t)"
      using lo t(3) by (auto simp: load_ok_def T'(1) w1_def)
    have "pw_info (wk_heap w2 ! lt_model k) = mi"
    proof (rule ccontr)
      assume ne: "pw_info (wk_heap w2 ! lt_model k) \<noteq> mi"
      then have "key' \<noteq> ?key" using key key' by (auto simp: key_fits_def)
      moreover have "\<not> task_done w1 t" "t < length (wk_tasks w1)"
        using t T'(2) by (auto simp: task_done_def w1_def live_load_def flags_raised_def)
      ultimately have "lt_stop (wk_tasks w2 ! t)"
        using stop_threads_stop [OF w2_def [symmetric] map_of_SomeD [OF key']] ne by blast
      then show False using t by (simp add: T'(1) live_load_def)
    qed
    then show ?thesis using M by (simp add: kept_def)
  qed
  have "load_ok (wk_heap w2) kept (wk_threads w2) t (T' ! t)" if "t < length T'" for t
    using d(4) live [OF that refl] that by (auto simp: pending_ok_def T'(1) load_ok_def)
  then have "pending_ok (wk_heap w2) kept (wk_threads w2) T'" using d(4) by (simp add: pending_ok_def T'(1))
  moreover have "models_ok (wk_heap w2) kept" using d(3) by (auto simp: models_ok_def kept_def distinct_map_filter)
  ultimately have "wk_inv n w'" using mm idle by (simp add: wk_inv_def w'_def) (simp add: T'(1) w1_def running_ok_def)
  then show ?thesis by (rule that [OF u]) (auto simp: w'_def kept_def)
qed

subsection \<open>Serving an engine\<close>

text \<open>One slot changes its pages and keeps what \<open>kv_fits\<close> asks for.\<close>

lemma owns_slot:
  assumes o: "owns H M mm" and slots: "mm_slots mm' = mm_slots mm"
    and other: "\<And>k. k \<noteq> s \<Longrightarrow> mm_ids mm' ! k = mm_ids mm ! k \<and> mm_released mm' ! k = mm_released mm ! k"
    and fits: "\<And>i r. (i, r) \<in> set M \<Longrightarrow> pw_slot (H ! r) = Some s \<Longrightarrow> kv_fits (pw_kv_offset (H ! r)) s mm'"
  shows "owns H M mm'"
proof (rule ownsI)
  fix i r k assume ir: "(i, r) \<in> set M" "pw_slot (H ! r) = Some k"
  show "k < max_prewarm_model \<and> \<not> mm_slots mm' ! k \<and> kv_fits (pw_kv_offset (H ! r)) k mm'"
  proof (cases "k = s")
    case True
    then show ?thesis using ownsD(1) [OF o ir] fits ir slots by simp
  next
    case False
    then show ?thesis using ownsD(1) [OF o ir] other [OF False] slots by (simp add: kv_fits_def split: option.splits)
  qed
qed (use ownsD(2,3) [OF o] slots in \<open>auto\<close>)

lemma inv_mm:
  assumes "wk_inv n w" and "mm_step (wk_mm w) mm" and "owns (wk_heap w) (wk_models w) mm"
  shows "wk_inv n (w\<lparr>wk_mm := mm\<rparr>)"
  using assms reach_step by (auto simp: wk_inv_def running_ok_def)

text \<open>What neither the models nor the loads depend on.\<close>

definition serving_only :: "gpu_worker \<Rightarrow> gpu_worker \<Rightarrow> bool" where
  "serving_only w w' \<longleftrightarrow> wk_mm w' = wk_mm w \<and> wk_heap w' = wk_heap w \<and> wk_models w' = wk_models w \<and> wk_tasks w' = wk_tasks w
     \<and> wk_threads w' = wk_threads w \<and> (wk_running w' = wk_running w \<or> wk_running w' = None)"

lemma serving_only_inv: "wk_inv n w \<Longrightarrow> serving_only w w' \<Longrightarrow> wk_inv n w'"
  by (auto simp: wk_inv_def serving_only_def running_ok_def)

lemma running_model:
  assumes "wk_inv n w" and "wk_running w = Some r" and "pw_slot (wk_heap w ! r) = Some s" and "pw_kv_offset (wk_heap w ! r) = Some off"
  obtains i where "(i, r) \<in> set (wk_models w)" "s < max_prewarm_model" "mm_block_size dvd nat off"
    "nat off \<le> length (mm_ids (wk_mm w) ! s) * mm_block_size"
    "\<forall>q \<in> set (mm_released (wk_mm w) ! s). int (nat off div mm_block_size) \<le> q"
    "\<And>j x. (j, x) \<in> set (wk_models w) \<Longrightarrow> pw_slot (wk_heap w ! x) = Some s \<Longrightarrow> x = r"
proof -
  note d = wk_invD [OF assms(1)]
  obtain i where i: "(i, r) \<in> set (wk_models w)" using d(5) assms(2) by (force simp: running_ok_def)
  from ownsD(1) [OF d(2) i assms(3)] show ?thesis
    using that [OF i] ownsD(2) [OF d(2) _ i _ assms(3)] assms(4) by (simp add: kv_fits_def)
qed

lemma free_kv_inv:
  assumes inv: "wk_inv n w" and f: "free_kv w = Inr w'"
  shows "wk_inv n w'"
proof (cases "wk_running w")
  case None
  then show ?thesis using inv f by (simp add: free_kv_def)
next
  case (Some r)
  then obtain s off mm where s: "pw_slot (wk_heap w ! r) = Some s" "pw_kv_offset (wk_heap w ! r) = Some off" and
    fk: "free_kv_space s (nat off) (wk_mm w) = Inr mm" and w': "w' = w\<lparr>wk_mm := mm\<rparr>"
    using f by (auto simp: free_kv_def split: option.splits)
  obtain i where m: "(i, r) \<in> set (wk_models w)" "s < max_prewarm_model" "mm_block_size dvd nat off"
    "nat off \<le> length (mm_ids (wk_mm w) ! s) * mm_block_size"
    "\<forall>q \<in> set (mm_released (wk_mm w) ! s). int (nat off div mm_block_size) \<le> q"
    and only: "\<And>j x. (j, x) \<in> set (wk_models w) \<Longrightarrow> pw_slot (wk_heap w ! x) = Some s \<Longrightarrow> x = r"
    by (rule running_model [OF inv Some s]) blast
  note d = wk_invD [OF inv]
  from free_kv_space_ok [OF d(6) m(2-5)] fk have a: "mm_ids mm ! s = take (nat off div mm_block_size) (mm_ids (wk_mm w) ! s)"
    "mm_released mm ! s = []" "mm_slots mm = mm_slots (wk_mm w)"
    "\<And>k. k \<noteq> s \<Longrightarrow> mm_ids mm ! k = mm_ids (wk_mm w) ! k \<and> mm_released mm ! k = mm_released (wk_mm w) ! k" by auto
  have "nat off div mm_block_size \<le> length (mm_ids (wk_mm w) ! s)"
    using m(4) by (metis block_size_pos div_le_mono div_mult_self_is_m)
  then have "length (mm_ids mm ! s) = nat off div mm_block_size" by (simp add: a(1))
  then have "kv_fits (Some off) s mm" using m(3) a(2) by (simp add: kv_fits_def)
  then have "owns (wk_heap w) (wk_models w) mm" using only s(2) by (intro owns_slot [OF d(2) a(3,4)]) auto
  then show ?thesis using inv_mm [OF inv step_free_kv [OF m(2-5) fk]] by (simp add: w')
qed

lemma reset_inv:
  assumes inv: "wk_inv n w" and r: "reset_worker False w = Inr (free, w')"
  shows "wk_inv n w'"
proof -
  from r obtain w1 where f: "free_kv (forget_engine w) = Inr w1" and w': "w' = w1\<lparr>wk_running := None\<rparr>"
    by (auto simp: reset_worker_def)
  have "wk_inv n (forget_engine w)" by (rule serving_only_inv [OF inv]) (simp add: serving_only_def forget_engine_def)
  then have "wk_inv n w1" by (rule free_kv_inv [OF _ f])
  then show ?thesis by (rule serving_only_inv) (simp add: serving_only_def w')
qed

lemma init_device_inv:
  assumes inv: "wk_inv n w" and i: "init_device en w = Inr (Some w')"
  shows "wk_inv n w'"
proof -
  obtain r world where r: "Option.bind (wk_info w) (map_of (wk_models w)) = Some r" and
    w': "w' = (upd_pm r (\<lambda>pm. pm\<lparr>pw_used := insert world (pw_used pm)\<rparr>) w)\<lparr>wk_running := Some r\<rparr>"
    using i by (auto simp: init_device_def split: option.splits if_splits)
  have "r \<in> snd ` set (wk_models w)" using r map_of_SomeD by (force simp: bind_eq_Some_conv)
  moreover have "wk_inv n (upd_pm r (\<lambda>pm. pm\<lparr>pw_used := insert world (pw_used pm)\<rparr>) w)"
    by (rule upd_pm_inv [OF inv]) simp_all
  ultimately show ?thesis by (simp add: wk_inv_def w' running_ok_def upd_pm_def)
qed

lemma determine_inv:
  assumes inv: "wk_inv n w" and d: "determine_num_available_blocks profile w = Some w'"
  shows "wk_inv n w'"
proof (cases "Option.bind (wk_info w) (map_of (wk_models w))")
  case None
  then show ?thesis using assms by (simp add: determine_num_available_blocks_def)
next
  case (Some r)
  then have fin: "\<forall>(key, (i, t)) \<in> set (wk_threads w). task_done w t" and
    w': "\<exists>k b. w' = w\<lparr>wk_threads := [], wk_num_gpu_blocks := k, wk_kv_block_size := b\<rparr>"
    using d by (auto simp: determine_num_available_blocks_def loads_pending_def Let_def split: if_splits prod.splits)
  have "load_ok (wk_heap w) (wk_models w) [] t (wk_tasks w ! t)" if t: "t < length (wk_tasks w)" for t
  proof -
    have lo: "load_ok (wk_heap w) (wk_models w) (wk_threads w) t (wk_tasks w ! t)" using wk_invD(4) [OF inv] t by (simp add: pending_ok_def)
    have "\<not> live_load (wk_tasks w ! t)"
    proof
      assume l: "live_load (wk_tasks w ! t)"
      then obtain key i where "(key, (i, t)) \<in> set (wk_threads w)" using lo map_of_SomeD by (fastforce simp: load_ok_def)
      with fin l show False by (auto simp: task_done_def live_load_def)
    qed
    then show ?thesis using lo by (simp add: load_ok_def)
  qed
  then have "pending_ok (wk_heap w) (wk_models w) [] (wk_tasks w)" using wk_invD(4) [OF inv] by (simp add: pending_ok_def)
  then show ?thesis using inv w' by (auto simp: wk_inv_def running_ok_def)
qed

lemma cache_inv:
  assumes inv: "wk_inv n w" and c: "initialize_cache kv w = Inr w'"
  shows "wk_inv n w'"
proof (cases "Option.bind (wk_info w) (map_of (wk_models w))")
  case None
  then show ?thesis using inv c by (simp add: initialize_cache_def)
next
  case (Some r)
  then obtain m b s off got mm where s: "pw_slot (wk_heap w ! r) = Some s" and
    a: "allocate_blocks s (int (m * b)) True kv (wk_mm w) = Inr (off, got, mm)" and
    w': "w' = w\<lparr>wk_mm := mm, wk_kv_size := Some (m * b), wk_last_checked := Some (-1), wk_kv_mapped := False\<rparr>"
    using c by (auto simp: initialize_cache_def split: option.splits)
  note d = wk_invD [OF inv]
  obtain i where "(i, r) \<in> set (wk_models w)" using Some map_of_SomeD by (force simp: bind_eq_Some_conv)
  from ownsD(1) [OF d(2) this s] have sl: "s < max_prewarm_model" "\<not> mm_slots (wk_mm w) ! s" by simp_all
  note oa = owns_alloc [OF d(2,6) sl _ a, simplified]
  have "wk_inv n (w\<lparr>wk_mm := mm\<rparr>)" by (rule inv_mm [OF inv oa(2,1)])
  then show ?thesis by (rule serving_only_inv) (simp add: serving_only_def w')
qed

text \<open>A model is given up while no load of it can still take a slot, and not while it serves.\<close>

definition free_ready :: "model_info \<Rightarrow> gpu_worker \<Rightarrow> bool" where
  "free_ready mi w \<longleftrightarrow> (\<forall>r. map_of (wk_models w) mi = Some r \<longrightarrow> wk_running w \<noteq> Some r \<and> \<not> pw_locked (wk_heap w ! r)
     \<and> (\<forall>k \<in> set (wk_tasks w). lt_model k = r \<longrightarrow> \<not> live_load k))"

lemma free_model_inv:
  assumes inv: "wk_inv n w" and rdy: "free_ready mi w" and f: "free_model mi w = Inr w'"
  shows "wk_inv n w'"
proof -
  from f obtain r w1 where r: "map_of (wk_models w) mi = Some r" and de: "destroy r w = Inr w1" and
    w': "w' = w1\<lparr>wk_models := AList.delete mi (wk_models w1)\<rparr>" by (auto simp: free_model_def split: option.splits)
  note d = wk_invD [OF inv]
  have dist: "distinct (map fst (wk_models w))" "distinct (map snd (wk_models w))" using d(3) by (simp_all add: models_ok_def)
  obtain xs ys where xy: "wk_models w = xs @ (mi, r) # ys" using map_of_SomeD [OF r] by (meson split_list)
  then have "AList.delete mi (wk_models w) = xs @ ys"
    using dist(1) by (auto simp: AList.delete_eq intro!: arg_cong2 [where f = append] filter_True) force+
  moreover obtain mm where mm: "destroy r w = Inr (w\<lparr>wk_mm := mm\<rparr>)" "mm_reach n mm" "owns (wk_heap w) (xs @ ys) mm"
    by (rule destroy_one [of n w xs mi r ys]) (use d(1,2) dist(2) xy in simp_all)
  ultimately have w1: "w' = w\<lparr>wk_mm := mm, wk_models := xs @ ys\<rparr>" using de w' by simp
  have "models_ok (wk_heap w) (xs @ ys)" using d(3) by (auto simp: models_ok_def xy)
  moreover have "load_ok (wk_heap w) (xs @ ys) (wk_threads w) t (wk_tasks w ! t)" if t: "t < length (wk_tasks w)" for t
  proof -
    have lo: "load_ok (wk_heap w) (wk_models w) (wk_threads w) t (wk_tasks w ! t)" using d(4) t by (simp add: pending_ok_def)
    have "lt_model (wk_tasks w ! t) \<noteq> r" if "live_load (wk_tasks w ! t)" using rdy r that t by (auto simp: free_ready_def)
    then show ?thesis using lo by (auto simp: load_ok_def xy)
  qed
  then have "pending_ok (wk_heap w) (xs @ ys) (wk_threads w) (wk_tasks w)" using d(4) by (simp add: pending_ok_def)
  ultimately show ?thesis using mm rdy r d(5) by (auto simp: w1 wk_inv_def running_ok_def free_ready_def xy)
qed

text \<open>The caller hands back blocks of the cache that it has not handed back before.\<close>

definition release_ready :: "nat list \<Rightarrow> nat \<Rightarrow> nat \<Rightarrow> gpu_worker \<Rightarrow> bool" where
  "release_ready logical lbs tot w \<longleftrightarrow> (\<forall>r s off. wk_running w = Some r \<longrightarrow> pw_slot (wk_heap w ! r) = Some s \<longrightarrow>
     pw_kv_offset (wk_heap w ! r) = Some off \<longrightarrow> release_pre s (nat off) logical lbs tot (wk_mm w))"

lemma release_inv:
  assumes inv: "wk_inv n w" and pre: "release_ready logical lbs tot w" and rel: "wk_release_blocks logical lbs tot w = Inr w'"
  shows "wk_inv n w'"
proof -
  from rel obtain r s off mm where r: "wk_running w = Some r" "pw_slot (wk_heap w ! r) = Some s" "pw_kv_offset (wk_heap w ! r) = Some off"
    and rb: "release_blocks s (nat off) logical lbs tot (wk_mm w) = Inr mm" and w': "w' = w\<lparr>wk_mm := mm\<rparr>"
    by (auto simp: wk_release_blocks_def split: option.splits)
  obtain i where m: "(i, r) \<in> set (wk_models w)" "s < max_prewarm_model" "mm_block_size dvd nat off"
    "nat off \<le> length (mm_ids (wk_mm w) ! s) * mm_block_size"
    "\<forall>q \<in> set (mm_released (wk_mm w) ! s). int (nat off div mm_block_size) \<le> q"
    and only: "\<And>j x. (j, x) \<in> set (wk_models w) \<Longrightarrow> pw_slot (wk_heap w ! x) = Some s \<Longrightarrow> x = r"
    by (rule running_model [OF inv r]) blast
  have p: "release_pre s (nat off) logical lbs tot (wk_mm w)" using pre r by (simp add: release_ready_def)
  note d = wk_invD [OF inv]
  from release_blocks_ok [OF d(6) m(2) p] rb have a: "mm_ids mm = mm_ids (wk_mm w)" "mm_slots mm = mm_slots (wk_mm w)"
    "\<And>k. k \<noteq> s \<Longrightarrow> mm_released mm ! k = mm_released (wk_mm w) ! k"
    "\<And>q. q \<in> set (mm_released mm ! s) \<Longrightarrow> q \<in> set (mm_released (wk_mm w) ! s) \<or> int (nat off div mm_block_size) \<le> q" by auto
  have "kv_fits (Some off) s mm" using m(3-5) a(4) by (auto simp: kv_fits_def a(1))
  then have "owns (wk_heap w) (wk_models w) mm" using only r(3) a(1,3) by (intro owns_slot [OF d(2) a(2)]) auto
  then show ?thesis using inv_mm [OF inv step_release [OF m(2) p rb]] by (simp add: w')
qed

lemma exec_inv:
  assumes "wk_inv n w" and "exec_check kv tables x0 x w = Inr (Some w')"
  shows "wk_inv n w'"
  by (rule serving_only_inv [OF assms(1)])
    (use assms(2) in \<open>auto simp: exec_check_def serving_only_def Let_def split: if_splits option.splits\<close>)

subsection \<open>Reachable states\<close>

text \<open>
  The controller claims a worker only while it serves no engine (the first argument of each rule is what
  the controller owes); the loading thread moves between the calls.
\<close>

inductive wk_step :: "worker_env \<Rightarrow> gpu_worker \<Rightarrow> gpu_worker \<Rightarrow> bool" for en where
  wk_load: "key_free en mi ids w \<Longrightarrow> wk_step en w (wk_load_model en mi ids world w)"
| wk_task: "active_task w t \<Longrightarrow> \<not> task_waits t w \<Longrightarrow> wk_step en w (task_step en established t w)"
| wk_update: "key_fits en mi ids w \<Longrightarrow> wk_running w = None \<Longrightarrow> \<not> update_waits mi w \<Longrightarrow> update_model_info en mi ids w = Inr w' \<Longrightarrow> wk_step en w w'"
| wk_free: "free_ready mi w \<Longrightarrow> free_model mi w = Inr w' \<Longrightarrow> wk_step en w w'"
| wk_start: "wk_step en w (start_worker w)"
| wk_device: "init_device en w = Inr (Some w') \<Longrightarrow> wk_step en w w'"
| wk_determine: "determine_num_available_blocks profile w = Some w' \<Longrightarrow> wk_step en w w'"
| wk_cache: "initialize_cache kv w = Inr w' \<Longrightarrow> wk_step en w w'"
| wk_release: "release_ready logical lbs tot w \<Longrightarrow> wk_release_blocks logical lbs tot w = Inr w' \<Longrightarrow> wk_step en w w'"
| wk_exec: "exec_check kv tables x0 x w = Inr (Some w') \<Longrightarrow> wk_step en w w'"
| wk_reset: "reset_worker False w = Inr (free, w') \<Longrightarrow> wk_step en w w'"

definition wk_reach :: "worker_env \<Rightarrow> nat \<Rightarrow> gpu_worker \<Rightarrow> bool" where
  "wk_reach en n w \<longleftrightarrow> (wk_step en)\<^sup>*\<^sup>* (init_worker n) w"

definition thread_steps :: "worker_env \<Rightarrow> gpu_worker \<Rightarrow> gpu_worker \<Rightarrow> bool" where
  "thread_steps en = (\<lambda>w w'. \<exists>t established. active_task w t \<and> \<not> task_waits t w \<and> w' = task_step en established t w)\<^sup>*\<^sup>*"

lemma wk_step_inv:
  assumes "wk_step en w w'" and inv: "wk_inv n w"
  shows "wk_inv n w'"
  using assms(1)
proof cases
  case (wk_update mi ids)
  obtain w1 where "update_model_info en mi ids w = Inr w1" "wk_inv n w1" by (rule update_inv [OF inv wk_update(1,2)])
  then show ?thesis using wk_update(4) by simp
next
  case (wk_load mi ids world)
  then show ?thesis using load_model_inv [OF inv] by simp
next
  case (wk_task t established)
  then show ?thesis using task_step_inv [OF inv] by simp
next
  case (wk_free mi)
  then show ?thesis by (rule free_model_inv [OF inv])
next
  case wk_start
  then show ?thesis by (intro serving_only_inv [OF inv]) (simp add: serving_only_def start_worker_def)
next
  case wk_device
  then show ?thesis by (rule init_device_inv [OF inv])
next
  case wk_determine
  then show ?thesis by (rule determine_inv [OF inv])
next
  case wk_cache
  then show ?thesis by (rule cache_inv [OF inv])
next
  case wk_release
  then show ?thesis by (rule release_inv [OF inv])
next
  case wk_exec
  then show ?thesis by (rule exec_inv [OF inv])
next
  case wk_reset
  then show ?thesis by (rule reset_inv [OF inv])
qed

lemma wk_reach_inv: "wk_reach en n w \<Longrightarrow> wk_inv n w"
  unfolding wk_reach_def by (induction rule: rtranclp_induct) (auto intro: init_worker_inv wk_step_inv)

lemma task_step_models: "wk_models (task_step en established t w) = wk_models w"
  by (simp add: task_step_def allocate_model_def set_phase_def upd_task_def upd_pm_def Let_def split: load_phase.split sum.split prod.split)

lemma thread_steps_keep:
  assumes "thread_steps en w w'" and "wk_inv n w"
  shows "wk_inv n w' \<and> wk_models w' = wk_models w"
  using assms unfolding thread_steps_def
  by (induction rule: rtranclp_induct) (auto simp: task_step_models intro: task_step_inv)



subsection \<open>Waiting for the KV cache\<close>

lemma fold_max_ge:
  fixes f :: "'a \<Rightarrow> int \<Rightarrow> int"
  assumes "\<And>x m. m \<le> f x m"
  shows "m \<le> fold f xs m"
proof (induction xs arbitrary: m)
  case (Cons x xs)
  show ?case using order_trans [OF assms Cons.IH] by simp
qed simp

lemma max_block_id_ge:
  assumes "ids \<in> set tables" and "b \<in> set ids"
  shows "int b \<le> max_block_id tables"
proof -
  let ?one = "\<lambda>bs. fold (\<lambda>b m. max m (int b)) bs (-1)"
  have one: "int b \<le> fold (\<lambda>b m. max m (int b)) bs m" if "b \<in> set bs" for bs m
    using that
  proof (induction bs arbitrary: m)
    case (Cons a bs)
    then show ?case using fold_max_ge [of "\<lambda>b m. max m (int b)" "max m (int b)" bs] by auto
  qed simp
  have "?one ids \<le> fold (\<lambda>bs m. max m (?one bs)) tabs m" if "ids \<in> set tabs" for tabs m
    using that
  proof (induction tabs arbitrary: m)
    case (Cons a tabs)
    then show ?case using fold_max_ge [of "\<lambda>bs m. max m (?one bs)" "max m (?one ids)" tabs] by auto
  qed simp
  with one [OF assms(2), of "-1"] assms(1) show ?thesis unfolding max_block_id_def by (meson order_trans)
qed

text \<open>What earlier calls have seen of the progress.\<close>

definition kv_seen :: "gpu_worker \<Rightarrow> int \<Rightarrow> bool" where
  "kv_seen w x \<longleftrightarrow> (\<exists>kv_size block_size last_checked. wk_kv_size w = Some kv_size \<and> wk_kv_block_size w = Some block_size
     \<and> wk_last_checked w = Some last_checked \<and> (if wk_kv_mapped w then int kv_size \<le> x
        else 0 \<le> last_checked \<longrightarrow> (last_checked + 1) * int block_size div 2 \<le> x))"

lemma cache_seen:
  assumes "initialize_cache kv w = Inr w'" and "wk_info w = Some mi" "map_of (wk_models w) mi \<noteq> None"
  shows "kv_seen w' x"
  using assms by (auto simp: initialize_cache_def kv_seen_def split: option.splits)


subsection \<open>Two faults\<close>

definition stuck :: "model_info \<Rightarrow> nat \<Rightarrow> gpu_worker \<Rightarrow> bool" where
  "stuck i r w \<longleftrightarrow> (i, r) \<in> set (wk_models w) \<and> r < length (wk_heap w) \<and> pw_locked (wk_heap w ! r)"

lemma upd_pm_stuck:
  assumes "stuck i r w" and "\<And>pm. pw_locked pm \<Longrightarrow> pw_locked (f pm)"
  shows "stuck i r (upd_pm x f w)"
  using assms by (auto simp: stuck_def upd_pm_def nth_upd)

lemma stuck_cong:
  assumes "stuck i r w" and "wk_models w' = wk_models w" and "wk_heap w' = wk_heap w"
  shows "stuck i r w'"
  using assms by (simp add: stuck_def)

lemma set_phase_fields [simp]: "wk_models (set_phase ph t w) = wk_models w" "wk_heap (set_phase ph t w) = wk_heap w"
  by (simp_all add: set_phase_def upd_task_def)

lemma task_stuck:
  assumes "stuck i r w"
  shows "stuck i r (task_step en established t w)"
proof -
  have ph: "stuck i r (set_phase ph t w')" if "stuck i r w'" for ph w' by (rule stuck_cong [OF that]) simp_all
  have mm: "stuck i r (w'\<lparr>wk_mm := m\<rparr>)" if "stuck i r w'" for w' m by (rule stuck_cong [OF that]) simp_all
  have pm: "stuck i r (upd_pm x (\<lambda>pm. pm\<lparr>pw_locked := True\<rparr>) w')" "stuck i r (upd_pm x (\<lambda>pm. pm\<lparr>pw_slot := Some s\<rparr>) w')"
    "stuck i r (upd_pm x (\<lambda>pm. pm\<lparr>pw_kv_offset := Some k\<rparr>) w')" "stuck i r (upd_pm x (\<lambda>pm. pm\<lparr>pw_loaded := (pw_loaded pm)(l \<mapsto> True)\<rparr>) w')"
    if "stuck i r w'" for x s k l w'
    by (rule upd_pm_stuck [OF that]; simp)+
  show ?thesis
    by (cases "lt_phase (wk_tasks w ! t)")
      (auto simp: task_step_def allocate_model_def Let_def assms intro!: ph mm pm split: sum.split prod.split)
qed

lemma flags_stuck:
  assumes "raises_flags f" and "stuck i r w"
  shows "stuck i r (f w)"
proof -
  obtain T' where "f w = w\<lparr>wk_tasks := T'\<rparr>" using assms(1) by (auto simp: raises_flags_def)
  then show ?thesis using stuck_cong [OF assms(2), of "f w"] by simp
qed

lemma load_stuck:
  assumes "stuck i r w"
  shows "stuck i r (wk_load_model en mi ids world w)"
proof -
  have sub: "stuck i r (submit_load en need mi ids x world w')" if "stuck i r w'" for need x w'
    by (rule stuck_cong [OF that]) (simp_all add: submit_load_def)
  show ?thesis
  proof (cases "map_of (wk_models w) mi")
    case None
    have "stuck i r (w\<lparr>wk_heap := wk_heap w @ [new_prewarm_model en mi ids world], wk_models := wk_models w @ [(mi, length (wk_heap w))]\<rparr>)"
      using assms by (auto simp: stuck_def nth_append)
    then show ?thesis using sub None by (simp add: wk_load_model_def Let_def)
  next
    case (Some x)
    have "stuck i r (upd_pm x (\<lambda>pm. snd (add_world en ids world pm)) w)"
      by (rule upd_pm_stuck [OF assms]) (simp add: add_world_def Let_def)
    then have st: "stuck i r (upd_pm x (\<lambda>_. snd (add_world en ids world (wk_heap w ! x))) w)" by (simp add: upd_pm_def)
    then have "stuck i r (fold (stop_comm_of mi) es (upd_pm x (\<lambda>_. snd (add_world en ids world (wk_heap w ! x))) w))" for es
      by (rule flags_stuck [OF raises_flags_fold [where f = "stop_comm_of mi", OF stop_flags(2)]])
    with st sub show ?thesis by (simp add: wk_load_model_def Some Let_def case_prod_beta)
  qed
qed

lemma update_stuck:
  assumes inv: "wk_inv n w" and key: "key_fits en mi ids w" and idle: "wk_running w = None" and free: "\<not> update_waits mi w"
    and u: "update_model_info en mi ids w = Inr w'" and st: "stuck i r w"
  shows "stuck i r w'"
proof -
  have "i = mi" using free st by (auto simp: update_waits_def stuck_def)
  define w2 where "w2 = fold (stop_thread (load_key en mi ids) mi) (wk_threads w) (w\<lparr>wk_info := Some mi, wk_ids := Some ids\<rparr>)"
  have i1: "wk_inv n (w\<lparr>wk_info := Some mi, wk_ids := Some ids\<rparr>)" using inv by (simp add: wk_inv_def running_ok_def)
  have fl: "raises_flags (fold (stop_thread (load_key en mi ids) mi) (wk_threads w))" by (rule raises_flags_fold [OF stop_flags(1)])
  have i2: "wk_inv n w2" unfolding w2_def by (rule flags_inv(1) [OF i1 fl])
  have "stuck i r w2" unfolding w2_def by (rule flags_stuck [OF fl]) (rule stuck_cong [OF st]; simp)
  moreover obtain mm where "fold_r (destroy_other mi) (wk_models w2) ([], w2) = Inr (filter (\<lambda>e. fst e = mi) (wk_models w2), w2\<lparr>wk_mm := mm\<rparr>)"
    using destroy_others [of n w2 "[]" "wk_models w2" mi] wk_invD [OF i2] by (auto simp: models_ok_def)
  then have "w' = w2\<lparr>wk_mm := mm, wk_models := filter (\<lambda>e. fst e = mi) (wk_models w2)\<rparr>"
    using u by (simp add: update_model_info_def w2_def load_key_def Let_def)
  ultimately show ?thesis using \<open>i = mi\<close> by (simp add: stuck_def)
qed

lemma free_model_stuck:
  assumes inv: "wk_inv n w" and st: "stuck i r w" and free: "free_ready mi w" and f: "free_model mi w = Inr w'"
  shows "stuck i r w'"
proof -
  from f obtain x w1 where x: "map_of (wk_models w) mi = Some x" and de: "destroy x w = Inr w1" and
    w': "w' = w1\<lparr>wk_models := AList.delete mi (wk_models w1)\<rparr>" by (auto simp: free_model_def split: option.splits)
  have M: "(i, r) \<in> set (wk_models w)" "pw_locked (wk_heap w ! r)" using st by (simp_all add: stuck_def)
  have "mi \<noteq> i"
  proof
    assume "mi = i"
    then have "x = r" using M(1) x wk_invD(3) [OF inv] by (auto simp: models_ok_def map_of_eq_Some_iff)
    then show False using M(2) free x by (simp add: free_ready_def)
  qed
  moreover have "wk_models w1 = wk_models w" "wk_heap w1 = wk_heap w" using de by (auto simp: destroy_def split: option.splits)
  ultimately show ?thesis using st by (auto simp: stuck_def w' AList.delete_eq)
qed

lemma step_stuck:
  assumes s: "wk_step en w w'" and inv: "wk_inv n w" and st: "stuck i r w"
  shows "stuck i r w'"
  using s
proof cases
  case (wk_update mi ids)
  then show ?thesis using update_stuck [OF inv _ _ _ _ st] by blast
next
  case (wk_free mi)
  then show ?thesis by (rule free_model_stuck [OF inv st])
next
  case wk_start
  then show ?thesis by (intro stuck_cong [OF st]) (simp_all add: start_worker_def)
next
  case (wk_device)
  then obtain x world where "w' = (upd_pm x (\<lambda>pm. pm\<lparr>pw_used := insert world (pw_used pm)\<rparr>) w)\<lparr>wk_running := Some x\<rparr>"
    by (auto simp: init_device_def split: option.splits if_splits)
  moreover have "stuck i r (upd_pm x (\<lambda>pm. pm\<lparr>pw_used := insert world (pw_used pm)\<rparr>) w)" by (rule upd_pm_stuck [OF st]) simp
  ultimately show ?thesis by (auto intro: stuck_cong)
next
  case (wk_determine profile)
  then show ?thesis by (intro stuck_cong [OF st]) (auto simp: determine_num_available_blocks_def Let_def split: if_splits prod.splits)
next
  case (wk_cache kv)
  then show ?thesis by (intro stuck_cong [OF st]) (auto simp: initialize_cache_def split: option.splits)
next
  case (wk_release logical lbs tot)
  then show ?thesis by (intro stuck_cong [OF st]) (auto simp: wk_release_blocks_def split: option.splits)
next
  case (wk_exec kv tables x0 x)
  then show ?thesis by (intro stuck_cong [OF st]) (auto simp: exec_check_def Let_def split: option.splits if_splits)
next
  case (wk_reset free)
  then show ?thesis
    by (intro stuck_cong [OF st]) (auto simp: reset_worker_def free_kv_def forget_engine_def split: option.splits)
next
  case (wk_load mi ids world)
  then show ?thesis using load_stuck [OF st] by simp
next
  case (wk_task t established)
  then show ?thesis using task_stuck [OF st] by simp
qed

lemma locked_blocks:
  assumes "wk_reach en n w" and "(i, r) \<in> set (wk_models w)" and "pw_locked (wk_heap w ! r)"
    and "(wk_step en)\<^sup>*\<^sup>* w w'" and "mi \<noteq> i"
  shows "update_waits mi w'"
proof -
  have i: "wk_inv n w" by (rule wk_reach_inv [OF assms(1)])
  then have st: "stuck i r w" using assms(2,3) wk_invD(3) by (fastforce simp: stuck_def models_ok_def)
  from assms(4) have "wk_inv n w' \<and> stuck i r w'"
    by (induction rule: rtranclp_induct) (use i st in \<open>auto intro: wk_step_inv step_stuck\<close>)
  then show ?thesis using assms(5) by (auto simp: update_waits_def stuck_def)
qed

definition allocation_fails :: "worker_env \<Rightarrow> nat \<Rightarrow> gpu_worker \<Rightarrow> bool" where
  "allocation_fails en t w \<longleftrightarrow> (let mi = pw_info (wk_heap w ! lt_model (wk_tasks w ! t)) in
     case allocate_prewarm_slot (wk_mm w) of
       Inl _ \<Rightarrow> True
     | Inr (slot, mm) \<Rightarrow> isl (allocate_blocks slot (int (we_num_ele en (unify_name (model_name mi)) (mi_rank mi)) * 2) True False mm))"

lemma failed_load_locks:
  assumes "lt_phase (wk_tasks w ! t) = Fetching" and "\<not> lt_stop (wk_tasks w ! t)" and "allocation_fails en t w"
    and "lt_model (wk_tasks w ! t) < length (wk_heap w)"
  shows "pw_locked (wk_heap (task_step en established t w) ! lt_model (wk_tasks w ! t))"
  using assms by (auto simp: task_step_def allocate_model_def allocation_fails_def Let_def upd_pm_def isl_def split: sum.splits prod.splits)

text \<open>
  C34. A load that finds no slot or no memory ends inside the section of the lock and leaves it held. The model stays, and
  every later call that would free it, in particular the claim for any other model, waits for ever.
\<close>

theorem failed_load_blocks:
  assumes reach: "wk_reach en n w" and task: "active_task w t" "\<not> task_waits t w"
    and "lt_phase (wk_tasks w ! t) = Fetching" "\<not> lt_stop (wk_tasks w ! t)" "allocation_fails en t w"
    and "(wk_step en)\<^sup>*\<^sup>* (task_step en established t w) w'" and "mi \<noteq> pw_info (wk_heap w ! lt_model (wk_tasks w ! t))"
  shows "update_waits mi w'"
proof -
  let ?r = "lt_model (wk_tasks w ! t)" let ?w = "task_step en established t w"
  have "load_ok (wk_heap w) (wk_models w) (wk_threads w) t (wk_tasks w ! t)"
    using wk_invD(4) [OF wk_reach_inv [OF reach]] task(1) by (simp add: pending_ok_def active_task_def)
  then have r: "?r < length (wk_heap w)" and M: "(pw_info (wk_heap w ! ?r), ?r) \<in> set (wk_models w)"
    using assms(4,5) by (auto simp: load_ok_def live_load_def)
  have "wk_reach en n ?w" using reach wk_step.wk_task [OF task] by (auto simp: wk_reach_def intro: rtranclp.rtrancl_into_rtrancl)
  moreover have "(pw_info (wk_heap w ! ?r), ?r) \<in> set (wk_models ?w)" using M by (simp add: task_step_models)
  ultimately show ?thesis using locked_blocks failed_load_locks [OF assms(4-6) r] assms(7,8) by blast
qed

subsection \<open>A run\<close>

text \<open>Two pages of memory; the model \<open>a\<close> needs one, \<open>bb\<close> needs three.\<close>

definition wx_env :: worker_env where
  "wx_env = \<lparr>we_hash_ids = (\<lambda>ws. int (length ws)), we_hash_key = (\<lambda>(name, ws). int (length name)),
     we_num_ele = (\<lambda>name rank. if name = ''a'' then 500 else 3000000)\<rparr>"

definition wx_a :: model_info where
  "wx_a = ModelInfo ''a/1'' 1 1"

definition wx_b :: model_info where
  "wx_b = ModelInfo ''bb/1'' 1 1"

definition wx_pm :: "model_info \<Rightarrow> nat option \<Rightarrow> int option \<Rightarrow> bool \<Rightarrow> bool \<Rightarrow> prewarm_model" where
  "wx_pm mi slot off locked ready = (new_prewarm_model wx_env mi [0] ''x'')
     \<lparr>pw_slot := slot, pw_kv_offset := off, pw_locked := locked, pw_loaded := [''x'' \<mapsto> ready]\<rparr>"

definition wx_task :: "nat \<Rightarrow> load_phase \<Rightarrow> load_task" where
  "wx_task r ph = \<lparr>lt_model = r, lt_need_load = True, lt_world = ''x'', lt_stop = False, lt_stop_comm = False, lt_phase = ph\<rparr>"

text \<open>The load of \<open>a\<close> in each of its phases.\<close>

definition wx_at :: "load_phase \<Rightarrow> mem_manager \<Rightarrow> prewarm_model \<Rightarrow> gpu_worker" where
  "wx_at ph mm pm = (init_worker 2)\<lparr>wk_mm := mm, wk_heap := [pm], wk_models := [(wx_a, 0)], wk_tasks := [wx_task 0 ph],
     wk_threads := [(3, (wx_a, 0))]\<rparr>"

abbreviation wx_loaded :: gpu_worker where
  "wx_loaded \<equiv> wx_at Ended ex_mm2 (wx_pm wx_a (Some 0) (Some 2097152) False True)"

lemmas wx_defs = wx_at_def wx_task_def wx_pm_def wx_env_def task_step_def set_phase_def upd_task_def upd_pm_def active_task_def
  task_waits_def task_done_def

lemma wx_load: "wk_load_model wx_env wx_a [0] ''x'' (init_worker 2) = wx_at Queued (init_manager 2) (wx_pm wx_a None None False False)"
  by (simp add: wk_load_model_def submit_load_def init_worker_def wx_defs new_prewarm_model_def) (simp add: wx_a_def ModelInfo_def)

lemma wx_names: "unify_name (model_name wx_a) = ''a''" "unify_name (model_name wx_b) = ''bb''"
  by (simp_all add: unify_name_def wx_a_def wx_b_def ModelInfo_def)

lemma wx_run:
  "task_step wx_env True 0 (wx_at Queued (init_manager 2) (wx_pm wx_a None None False False))
   = wx_at Fetching (init_manager 2) (wx_pm wx_a None None False False)"
  "task_step wx_env True 0 (wx_at Fetching (init_manager 2) (wx_pm wx_a None None False False))
   = wx_at Copying ex_mm2 (wx_pm wx_a (Some 0) (Some 2097152) False False)"
  "task_step wx_env True 0 (wx_at Copying ex_mm2 (wx_pm wx_a (Some 0) (Some 2097152) False False))
   = wx_at Connecting ex_mm2 (wx_pm wx_a (Some 0) (Some 2097152) False False)"
  "task_step wx_env True 0 (wx_at Connecting ex_mm2 (wx_pm wx_a (Some 0) (Some 2097152) False False)) = wx_loaded"
  by (simp_all add: wx_defs allocate_model_def new_prewarm_model_def wx_names ex_slot ex_blocks)

lemma wx_task_step:
  assumes "wk_reach wx_env 2 (wx_at ph mm pm)" and "ph \<noteq> Ended" and "\<not> pw_locked pm"
    and "task_step wx_env True 0 (wx_at ph mm pm) = w'"
  shows "wk_reach wx_env 2 w'"
proof -
  have "wk_step wx_env (wx_at ph mm pm) (task_step wx_env True 0 (wx_at ph mm pm))"
    by (rule wk_step.wk_task) (use assms(2,3) in \<open>simp_all add: wx_defs\<close>)
  then show ?thesis using assms(1,4) by (auto simp: wk_reach_def intro: rtranclp.rtrancl_into_rtrancl)
qed

lemma wx_reach: "wk_reach wx_env 2 wx_loaded"
proof -
  have unlocked: "\<not> pw_locked (wx_pm wx_a s k False l)" for s k l by (simp add: wx_pm_def)
  have "wk_step wx_env (init_worker 2) (wk_load_model wx_env wx_a [0] ''x'' (init_worker 2))"
    by (rule wk_step.wk_load) (simp add: key_free_def init_worker_def)
  then have "wk_reach wx_env 2 (wx_at Queued (init_manager 2) (wx_pm wx_a None None False False))"
    by (auto simp: wk_reach_def wx_load)
  from wx_task_step [OF this _ unlocked wx_run(1)] wx_task_step [OF _ _ unlocked wx_run(2)] wx_task_step [OF _ _ unlocked wx_run(3)]
    wx_task_step [OF _ _ unlocked wx_run(4)] show ?thesis by simp
qed


lemma wx_key: "key_fits wx_env wx_b [0] wx_loaded"
  by (simp add: key_fits_def load_key_def wx_defs) (simp add: wx_b_def ModelInfo_def)


text \<open>The load of \<open>bb\<close> after that of \<open>a\<close>.\<close>

definition ex_mm3 :: mem_manager where
  "ex_mm3 = ex_mm2\<lparr>mm_slots := (mm_slots ex_mm2)[1 := False]\<rparr>"

lemma ex_slot3: "allocate_prewarm_slot ex_mm2 = Inr (1, ex_mm3)"
  by (simp add: allocate_prewarm_slot_def ex_mm3_def ex_mm2_def ex_mm1_def init_manager_def where_true_def max_prewarm_model_def upt_rec)

lemma ex_blocks3: "allocate_blocks 1 6000000 True False ex_mm3 = Inl ValueError"
  by (simp add: allocate_blocks_def ex_mm3_def ex_mm2_def mm_block_size_def Let_def)

definition wx_two :: "load_phase \<Rightarrow> mem_manager \<Rightarrow> prewarm_model \<Rightarrow> gpu_worker" where
  "wx_two ph mm pm = wx_loaded\<lparr>wk_mm := mm, wk_heap := [wx_pm wx_a (Some 0) (Some 2097152) False True, pm],
     wk_models := [(wx_a, 0), (wx_b, 1)], wk_tasks := [wx_task 0 Ended, wx_task 1 ph], wk_threads := [(3, (wx_a, 0)), (4, (wx_b, 1))]\<rparr>"

abbreviation wx_failed :: gpu_worker where
  "wx_failed \<equiv> wx_two Ended ex_mm3 (wx_pm wx_b (Some 1) None True False)"

lemma wx_differ: "wx_a \<noteq> wx_b" "wx_b \<noteq> wx_a"
  by (simp_all add: wx_a_def wx_b_def ModelInfo_def)

lemma wx_keys: "we_hash_key wx_env (model_name wx_a, ids) = 3" "we_hash_key wx_env (model_name wx_b, ids) = 4"
  "length (model_name wx_a) = 3" "length (model_name wx_b) = 4"
  by (simp_all add: wx_env_def wx_a_def wx_b_def ModelInfo_def)

lemma wx_load_b: "wk_load_model wx_env wx_b [0] ''x'' wx_loaded = wx_two Queued ex_mm2 (wx_pm wx_b None None False False)"
  by (simp add: wk_load_model_def submit_load_def wx_two_def wx_keys wx_differ)
    (simp add: wx_at_def wx_task_def wx_pm_def new_prewarm_model_def wx_differ submit_load_def wx_keys)

lemma wx_run_b:
  "task_step wx_env True 1 (wx_two Queued ex_mm2 (wx_pm wx_b None None False False))
   = wx_two Fetching ex_mm2 (wx_pm wx_b None None False False)"
  "task_step wx_env True 1 (wx_two Fetching ex_mm2 (wx_pm wx_b None None False False)) = wx_failed"
  by (simp_all add: wx_defs wx_two_def allocate_model_def new_prewarm_model_def wx_names ex_slot3 [unfolded One_nat_def] ex_blocks3 [unfolded One_nat_def])

lemma wx_reach_b: "wk_reach wx_env 2 (wx_two Fetching ex_mm2 (wx_pm wx_b None None False False))"
proof -
  have "wk_step wx_env wx_loaded (wx_two Queued ex_mm2 (wx_pm wx_b None None False False))"
    unfolding wx_load_b [symmetric] by (rule wk_step.wk_load) (simp add: key_free_def load_key_def wx_keys wx_at_def)
  moreover have "wk_step wx_env (wx_two Queued ex_mm2 (wx_pm wx_b None None False False))
    (task_step wx_env True 1 (wx_two Queued ex_mm2 (wx_pm wx_b None None False False)))"
    by (rule wk_step.wk_task) (simp_all add: wx_two_def wx_defs)
  ultimately show ?thesis unfolding wx_run_b using wx_reach by (auto simp: wk_reach_def intro: rtranclp.rtrancl_into_rtrancl)
qed

theorem failed_load_blocks_witness: "update_waits wx_a wx_failed"
proof -
  let ?w = "wx_two Fetching ex_mm2 (wx_pm wx_b None None False False)"
  have "active_task ?w 1" "\<not> task_waits 1 ?w" "lt_phase (wk_tasks ?w ! 1) = Fetching" "\<not> lt_stop (wk_tasks ?w ! 1)"
    "wx_a \<noteq> pw_info (wk_heap ?w ! lt_model (wk_tasks ?w ! 1))"
    by (simp_all add: wx_two_def wx_defs new_prewarm_model_def wx_differ less_Suc_eq)
  moreover have "allocation_fails wx_env 1 ?w"
    by (simp add: allocation_fails_def wx_two_def wx_defs new_prewarm_model_def wx_names
        ex_slot3 [unfolded One_nat_def] ex_blocks3 [unfolded One_nat_def])
  moreover have "(wk_step wx_env)\<^sup>*\<^sup>* (task_step wx_env True 1 ?w) wx_failed" unfolding wx_run_b by simp
  ultimately show ?thesis using failed_load_blocks [OF wx_reach_b] by blast
qed


definition lost_slot :: "nat \<Rightarrow> gpu_worker \<Rightarrow> bool" where
  "lost_slot s w \<longleftrightarrow> \<not> mm_slots (wk_mm w) ! s \<and> mm_ids (wk_mm w) ! s \<noteq> [] \<and> wk_models w = [] \<and> list_all (\<lambda>k. lt_phase k = Ended) (wk_tasks w)"

lemma thread_stepI:
  assumes "active_task w t" and "\<not> task_waits t w" and "task_step en established t w = w1" and "thread_steps en w1 w2"
  shows "thread_steps en w w2"
  using assms(4) unfolding thread_steps_def by (rule converse_rtranclp_into_rtranclp [rotated]) (use assms(1-3) in blast)

lemma thread_steps_refl: "thread_steps en w w"
  by (simp add: thread_steps_def)

text \<open>After the claim: the two loads of \<open>a\<close>.\<close>

definition wx_left :: "load_phase \<Rightarrow> load_phase \<Rightarrow> mem_manager \<Rightarrow> nat option \<Rightarrow> int option \<Rightarrow> gpu_worker" where
  "wx_left ph ph' mm slot off = (init_worker 2)\<lparr>wk_mm := mm, wk_info := Some wx_b, wk_ids := Some [0],
     wk_heap := [(wx_pm wx_a slot off False False)\<lparr>pw_worlds := [1 \<mapsto> ''y''], pw_loaded := [''x'' \<mapsto> False, ''y'' \<mapsto> False]\<rparr>],
     wk_tasks := [(wx_task 0 ph)\<lparr>lt_stop_comm := True\<rparr>, (wx_task 0 ph')\<lparr>lt_need_load := False, lt_world := ''y'', lt_stop := True\<rparr>],
     wk_threads := [(3, (wx_a, 1))]\<rparr>"

lemma wx_reload: "update_model_info wx_env wx_b [0] (wk_load_model wx_env wx_a [0] ''y'' (wk_load_model wx_env wx_a [0] ''x'' (init_worker 2)))
    = Inr (wx_left Queued Queued (init_manager 2) None None)"
proof -
  have "wk_load_model wx_env wx_a [0] ''y'' (wx_at Queued (init_manager 2) (wx_pm wx_a None None False False))
    = (wx_left Queued Queued (init_manager 2) None None)\<lparr>wk_info := None, wk_ids := None, wk_models := [(wx_a, 0)],
        wk_tasks := [(wx_task 0 Queued)\<lparr>lt_stop_comm := True\<rparr>, (wx_task 0 Queued)\<lparr>lt_need_load := False, lt_world := ''y''\<rparr>]\<rparr>"
    by (simp add: wk_load_model_def submit_load_def wx_keys add_world_def stop_comm_of_def wx_defs wx_left_def new_prewarm_model_def init_worker_def)
  then show ?thesis
    by (simp add: wx_load update_model_info_def wx_keys stop_thread_def destroy_other_def destroy_def wx_differ)
      (simp add: wx_left_def wx_defs wx_differ new_prewarm_model_def init_worker_def stop_thread_def destroy_other_def destroy_def Let_def)
qed

lemma wx_left_steps:
  "thread_steps wx_env (wx_left Queued Queued (init_manager 2) None None) (wx_left Ended Ended ex_mm2 (Some 0) (Some 2097152))"
proof -
  note sim = wx_left_def wx_defs less_Suc_eq new_prewarm_model_def
  have s: "task_step wx_env True 0 (wx_left Queued Queued (init_manager 2) None None) = wx_left Fetching Queued (init_manager 2) None None"
    "task_step wx_env True 0 (wx_left Fetching Queued (init_manager 2) None None) = wx_left Copying Queued ex_mm2 (Some 0) (Some 2097152)"
    "task_step wx_env True 0 (wx_left Copying Queued ex_mm2 (Some 0) (Some 2097152)) = wx_left Ended Queued ex_mm2 (Some 0) (Some 2097152)"
    "task_step wx_env True 1 (wx_left Ended Queued ex_mm2 (Some 0) (Some 2097152)) = wx_left Ended Ended ex_mm2 (Some 0) (Some 2097152)"
    by (simp_all add: sim allocate_model_def wx_names ex_slot ex_blocks)
  show ?thesis
    by (rule thread_stepI [OF _ _ s(1)] thread_stepI [OF _ _ s(2)] thread_stepI [OF _ _ s(3)] thread_stepI [OF _ _ s(4)] | simp add: sim thread_steps_refl)+
qed


end
