(* ===== verification/Spec2Isabelle.thy ===== *)
theory Spec2Isabelle
  imports Prewarm_Predict Memory_Thms Naive_Thms Manager_Swap_Thms Manager_Thms Ws_Common Prefix_Thms Ctl_Limits Engine_Bounds Worker_Thms
begin

text \<open>
  Verification of WarmServe, a server for many language models that share the GPUs of a cluster.
  All paths below are relative to \<open>src/vllm-0.6.3.post1/vllm/\<close>.

  \<^bold>\<open>The program.\<close> A controller (\<open>entrypoints/controller\<close>) keeps engines for models, predicts
  their load, and prewarms models on idle GPUs. Each GPU worker maps its memory page by page, so
  that weights and KV caches of several models share it. Inside an engine the modified vLLM
  schedules requests and manages the blocks of the KV cache (\<open>core\<close>).

  \<^bold>\<open>Conventions\<close> (\<open>Prelude\<close>). A method that may raise returns \<open>py_error + 'a\<close>; a bare
  \<open>assert\<close> is \<open>AssertionError\<close>, a missing key \<open>KeyError\<close>, and so on. Python integers are \<open>int\<close>
  (\<open>nat\<close> where the code only counts), floats are exact reals or rationals, objects with identity
  live in an explicit heap. Clocks, hashes, drivers and callbacks are arguments.

  \<^bold>\<open>Cluster records.\<close> \<open>Ws_Common\<close>: \<open>entrypoints/controller/common.py\<close>, the records, the rank
  arithmetic, \<open>align_up\<close>, the load average, and that the average is the integral of the load.

  \<^bold>\<open>Prewarm scheduler\<close> (\<open>controller/scheduler.py\<close>). \<open>Prewarm_Sched\<close> models \<open>update_loads\<close> and
  \<open>prewarm\<close>: prediction, scores, the search for groups of GPUs (an explicit stack machine with the
  cursor of the code), the choice of a group, the placement loops. \<open>Prewarm_Search\<close>,
  \<open>Prewarm_Place\<close> carry one invariant through search and placement; \<open>Prewarm_Thms\<close>: plans are
  sound, prewarmed replicas form a laminar family; \<open>Prewarm_Total\<close>: planning ends without an
  exception; \<open>Prewarm_Predict\<close>: what is predicted, and a worked cluster.

  \<^bold>\<open>Memory of a worker.\<close> \<open>Vmm\<close>: \<open>controller/vmm.py\<close>, mapping and unmapping as traces of driver
  calls (the driver's answers are a parameter), and the progress signal. \<open>Memory_Manager\<close>:
  \<open>MemoryManager\<close> and \<open>release_blocks\<close> of \<open>controller/utils.py\<close>, with the list of jobs for the
  background thread. \<open>Memory_Thms\<close>: exact accounting of pages, page tables and jobs agree.

  \<^bold>\<open>A worker.\<close> \<open>Worker\<close>: the rest of \<open>controller/utils.py\<close> with unified memory, \<open>PrewarmModel\<close>,
  \<open>perform_model_load\<close> and \<open>MyWorkerWrapper\<close>. Loads run one after another on a thread of the worker;
  each of its sections is one step, between two methods that the controller calls. \<open>Worker_Inv\<close> states
  the invariant, \<open>Worker_Thms\<close> proves that every method keeps it: slots belong to the models of the
  worker, a claim frees the others, an engine waits for the pages it touches; and two runs in which
  memory or the worker is lost. The controller owes that a key of \<open>load_threads\<close> stands for one model
  and is not used again while its load may still take a slot (\<open>key_fits\<close>, \<open>key_free\<close>).

  \<^bold>\<open>Blocks of the KV cache\<close> (\<open>core/block\<close>). \<open>Block_Common\<close>: reference counts, pool of block
  objects, block list, hit rate (\<open>common.py\<close>). \<open>Naive_Allocator\<close>: \<open>naive_block.py\<close>, with the
  reservation of freed blocks for prewarming. \<open>Evictor\<close>: \<open>core/evictor_v2.py\<close>.
  \<open>Prefix_Allocator\<close>: \<open>prefix_caching_block.py\<close>. \<open>Cpu_Gpu_Allocator\<close>:
  \<open>cpu_gpu_block_allocator.py\<close>. \<open>Block_Table\<close>: \<open>block_table.py\<close>, over a record of the
  operations that it calls on its allocator. \<open>Block_Manager\<close>: \<open>core/block_manager.py\<close> with
  \<open>core/block/utils.py\<close> and the parts of \<open>sequence.py\<close> that it reads.
  The lemmas: \<open>Ref_Counts\<close>, \<open>Naive_Ops\<close>, \<open>Naive_Seq\<close>, \<open>Naive_Total\<close>,
  \<open>Naive_Thms\<close> (an id is free, referenced as often as counted, or reserved);
  \<open>Table_Contract\<close> is the locale of the contract between a table and its allocator,
  \<open>Table_Lemmas\<close>, \<open>Table_Ops\<close>, \<open>Table_Thms\<close> the operations of a table under it;
  \<open>Cpu_Gpu_Inv\<close>, \<open>Cpu_Gpu_Contract\<close> (the interpretation), \<open>Cpu_Gpu_Swap\<close>; \<open>Manager_Inv\<close>,
  \<open>Manager_Ops\<close>, \<open>Manager_Swap\<close>, \<open>Manager_Group\<close>, \<open>Manager_Tests\<close>,
  \<open>Manager_Steps\<close> (the block manager as a state machine), \<open>Manager_Thms\<close> and \<open>Manager_Swap_Thms\<close>
  (it implements the map from sequences to tokens, its tests \<open>can_*\<close> are sound, and two runs
  where a swap announced as possible raises), \<open>Prefix_Thms\<close>.

  \<^bold>\<open>Sequences and the request scheduler.\<close> \<open>Sequences\<close>: \<open>sequence.py\<close>. \<open>Sched_State\<close>,
  \<open>Sched_Loops\<close>, \<open>Sched_Step\<close>: \<open>core/scheduler.py\<close>, its budget and queues, the loops over running,
  swapped and waiting requests with preemption, the two policies, the metadata for the workers; and
  \<open>SchedulerConfig\<close> of \<open>config.py\<close>. Sequence groups are references into a store, as the code shares
  them between its queues; the memory is the block manager above. \<open>Sched_Queues\<close>: no request is
  lost, for every configuration. For requests of one sequence, without prefix caching and with
  preemption by recomputation: \<open>Sched_Memory\<close> (the operations on the memory as a map from sequences
  to tokens), \<open>Sched_Inv\<close> and \<open>Sched_Running\<close>, \<open>Sched_Prefill\<close>, \<open>Sched_Policy\<close>,
  \<open>Sched_Safe\<close>, \<open>Sched_Metadata\<close> (the invariant through every loop and policy): \<open>schedule\<close> never
  raises and its batch fits the memory and the budget. \<open>Sched_Requests\<close>: new requests, worked runs.

  \<^bold>\<open>Engine.\<close> \<open>Sampling\<close>: \<open>sampling_params.py\<close> and \<open>engine/output_processor/stop_checker.py\<close>;
  \<open>Engine\<close>: \<open>engine/llm_engine.py\<close> (adding and aborting requests, the synchronous step),
  \<open>engine/output_processor/single_step.py\<close>, \<open>outputs.py\<close>. Accepted parameters are
  well formed (\<open>Sampling\<close>). \<open>Engine_Group\<close>, \<open>Engine_Step\<close>: what a step does to one group, to the
  batch and to the invariant of the scheduler. \<open>Engine_Safe\<close>: aborts, the states that requests, steps
  and aborts reach, and that nothing raises in them. \<open>Engine_Bounds\<close>: outputs stay within
  \<open>max_tokens\<close>; a worked run. The workers are an argument; what is assumed of them is
  \<open>worker_ok\<close> (an entry per group of the batch, with a sample where one is due and the log
  probability of the sampled token), and of the detokenizer that it changes the text only (\<open>detok_ok\<close>).

  \<^bold>\<open>Controller\<close> (\<open>controller/prewarm_manager.py\<close>). \<open>Ctl_State\<close>: the state of \<open>PrewarmManager\<close>,
  search for and claim of workers; \<open>Ctl_Create\<close>: \<open>create_engine\<close>;
  \<open>Ctl_Engines\<close>: requests, autoscaler, end of engines; \<open>Ctl_Prewarm\<close>: the prewarming loop;
  \<open>Ctl_Steps\<close>: the threads as a step relation whose steps are the sections between two points
  where the code takes or gives back a lock. \<open>Ctl_Inv\<close> states the invariant; \<open>Ctl_Tables\<close>,
  \<open>Ctl_Claim\<close>, \<open>Ctl_Requests\<close>, \<open>Ctl_Advance\<close>, \<open>Ctl_Check\<close>,
  \<open>Ctl_Copies\<close> and \<open>Ctl_Sections\<close> prove that every section keeps it and ends without an exception;
  \<open>Ctl_Thms\<close>, \<open>Ctl_Serve\<close>, \<open>Ctl_Limits\<close> draw the conclusions: workers are exclusive, none is
  lost, counters are exact, requests go to the least loaded engine, creations and rounds end.

  \<^bold>\<open>Bounds.\<close> No model needs fuel: loops recurse on a list, on a counter, or on a measure of queue
  and state for which termination is proved (the search for groups, the loops of the scheduler).
  Integers are unbounded as in Python. Worked runs use three blocks of two tokens.

  \<^bold>\<open>Not modelled.\<close> The model code (\<open>model_executor\<close>, \<open>attention\<close>, kernels in C++ and CUDA), the
  vLLM workers and executors, and in \<open>controller/utils.py\<close> tensors, sockets, communication groups and
  the path without unified memory: tensor computations and device calls, parameters of the model where
  the code above them depends on their answers. The servers (\<open>entrypoints/openai\<close>,
  \<open>engine/multiprocessing\<close>, the command line) are glue around the engine. Speculative decoding, multi-step and asynchronous output processing, multi-modal inputs,
  LoRA weights, embedding models and the first version of the block evictor are alternatives that this
  development does not follow. Benchmarks, trace generators and plots are outside the program.
\<close>

end
